(* ===== verification/Prelude.thy ===== *)
theory Prelude
  imports Main "HOL-Library.Word"
begin

section \<open>Prelude: machine integers, C strings and shared facts\<close>

text \<open>
  The types every component of the model shares. A C integer of width \<open>w\<close> is a
  \<open>w word\<close>, so that its arithmetic wraps as the C code's does; a C string is the list
  of its characters before the terminating NUL, and reading one past the last character
  gives the NUL (\<open>hd0\<close>). The host is little-endian and \<open>size_t\<close>, \<open>uintptr_t\<close> are 64 bits
  wide, as on the two architectures the program itself targets.
\<close>

unbundle bit_operations_syntax

type_synonym u8 = "8 word"
type_synonym u16 = "16 word"
type_synonym u32 = "32 word"
type_synonym u64 = "64 word"
type_synonym cstr = string

named_theorems word_to_nat \<open>reading word expressions as natural numbers\<close>

lemma unat_less_pow: "unat (w :: 'a::len word) < 2 ^ LENGTH('a)"
  by (rule unsigned_less)

lemma unat_max_word: "unat (- 1 :: 'a::len word) = 2 ^ LENGTH('a) - 1"
  by (simp add: unsigned_minus_1_eq_mask mask_eq_exp_minus_1)

subsection \<open>C strings\<close>

definition NUL :: char where
  "NUL = CHR 0x00"

fun hd0 :: "cstr \<Rightarrow> char" where
  "hd0 [] = NUL"
| "hd0 (c # cs) = c"

definition is_digit :: "char \<Rightarrow> bool" where
  "is_digit c \<longleftrightarrow> (48::nat) \<le> of_char c \<and> (of_char c :: nat) \<le> 57"

lemma not_digit_NUL [simp]: "\<not> is_digit NUL"
  by (simp add: is_digit_def NUL_def)

lemma not_digit_dot [simp]: "\<not> is_digit (CHR ''.'')"
  by (simp add: is_digit_def)

lemma dot_neq_NUL [simp]: "CHR ''.'' \<noteq> NUL" "NUL \<noteq> CHR ''.''"
  by (simp_all add: NUL_def)

text \<open>The decimal value of a run of digits, accumulated in an unsigned 64-bit integer.\<close>

fun digits_value :: "u64 \<Rightarrow> cstr \<Rightarrow> u64" where
  "digits_value v [] = v"
| "digits_value v (c # cs) = digits_value (v * 10 + (of_char c - 48)) cs"

subsection \<open>Checked array reads\<close>

text \<open>Reading an array or a buffer: \<open>None\<close> out of bounds.\<close>

definition rd :: "'a list \<Rightarrow> nat \<Rightarrow> 'a option" where
  "rd xs i = (if i < length xs then Some (xs ! i) else None)"

lemma rd_Some_iff: "rd xs i = Some x \<longleftrightarrow> i < length xs \<and> xs ! i = x"
  by (auto simp: rd_def)

lemma rd_None_iff: "rd xs i = None \<longleftrightarrow> length xs \<le> i"
  by (auto simp: rd_def)

end
