(* ===== verification/CommonStrings.thy ===== *)
theory CommonStrings
  imports Prelude "HOL-Library.Sublist"
begin

section \<open>common.c: comparing version strings and prefixes\<close>

text \<open>
  \<open>version_str_less\<close> and \<open>has_prefix\<close> of common.c. A \<open>const char*\<close> that walks over a
  string is the list of the characters it still has in front of it, so \<open>*p\<close> is \<open>hd0\<close> and
  \<open>++p\<close> is \<open>tl\<close>.
\<close>

text \<open>The \<open>do ... while\<close> that scans a run of digits; the accumulator is a \<open>uint64_t\<close>.\<close>

fun scan_digits :: "u64 \<Rightarrow> cstr \<Rightarrow> u64 \<times> cstr" where
  "scan_digits v [] = (v, [])"
| "scan_digits v (c # cs) =
     (if is_digit c then scan_digits (v * 10 + (of_char c - 48)) cs else (v, c # cs))"

text \<open>
  The loop over identical non-digits. \<open>None\<close> is its \<open>return false\<close> at the end of both
  strings; it is entered only with equal first characters.
\<close>

fun skip_identical :: "cstr \<Rightarrow> cstr \<Rightarrow> (cstr \<times> cstr) option" where
  "skip_identical [] rhs = None"
| "skip_identical (c # lhs) rhs =
     (if c = NUL then None
      else let rhs' = tl rhs in
        if hd0 lhs = hd0 rhs' \<and> \<not> is_digit (hd0 lhs) then skip_identical lhs rhs'
        else Some (lhs, rhs'))"

lemma scan_digits_length: "length (snd (scan_digits v cs)) \<le> length cs"
  by (induction v cs rule: scan_digits.induct) auto

lemma skip_identical_length:
  "skip_identical lhs rhs = Some (l, r) \<Longrightarrow> length l < length lhs"
  by (induction lhs rhs rule: skip_identical.induct)
    (auto simp: Let_def less_Suc_eq split: if_splits)

function version_str_less :: "cstr \<Rightarrow> cstr \<Rightarrow> bool" where
  "version_str_less lhs rhs =
     (let both = is_digit (hd0 lhs) \<and> is_digit (hd0 rhs);
          (lver, lhs1) = (if both then scan_digits 0 lhs else (0, lhs));
          (rver, rhs1) = (if both then scan_digits 0 rhs else (0, rhs))
      in if lver \<noteq> rver then lver < rver
         else if hd0 lhs1 \<noteq> hd0 rhs1 then hd0 lhs1 = NUL \<and> hd0 rhs1 = CHR ''.''
         else (case skip_identical lhs1 rhs1 of
                 None \<Rightarrow> False
               | Some (lhs2, rhs2) \<Rightarrow> version_str_less lhs2 rhs2))"
  by pat_completeness auto
termination
proof (relation "measure (\<lambda>(lhs, rhs). length lhs)", goal_cases)
  case 1
  show ?case by simp
next
  case (2 lhs rhs both x lver lhs1 y rver rhs1 z lhs2 rhs2)
  then have "length lhs2 < length lhs1"
    by (auto dest: skip_identical_length)
  moreover have "length lhs1 \<le> length lhs"
    using 2 scan_digits_length [of 0 lhs] by (auto split: if_splits dest: sym [of "(_, _)"])
  ultimately show ?case by simp
qed

declare version_str_less.simps [simp del]

fun has_prefix :: "cstr \<Rightarrow> cstr \<Rightarrow> bool" where
  "has_prefix str [] = True"
| "has_prefix str (c # pre) = (if hd0 str \<noteq> c then False else has_prefix (tl str) pre)"

subsection \<open>Dotted version strings\<close>

fun join_dots :: "cstr list \<Rightarrow> cstr" where
  "join_dots [] = []"
| "join_dots [x] = x"
| "join_dots (x # y # zs) = x @ CHR ''.'' # join_dots (y # zs)"

definition is_number :: "cstr \<Rightarrow> bool" where
  "is_number x \<longleftrightarrow> x \<noteq> [] \<and> list_all is_digit x"

lemma scan_digits_append:
  "list_all is_digit x \<Longrightarrow> \<not> is_digit (hd0 rest) \<Longrightarrow>
   scan_digits v (x @ rest) = (digits_value v x, rest)"
  by (induction x arbitrary: v) (cases rest, auto)

lemma is_number_hd0: "is_number x \<Longrightarrow> is_digit (hd0 (x @ rest))"
  by (cases x) (auto simp: is_number_def)

lemma hd0_join_dots: "is_number x \<Longrightarrow> is_digit (hd0 (join_dots (x # xs)))"
  by (cases xs) (auto simp: is_number_hd0 is_number_hd0 [where rest = "[]", simplified])

lemma join_dots_Cons: "join_dots (x # xs) = x @ (if xs = [] then [] else CHR ''.'' # join_dots xs)"
  by (cases xs) auto

lemma scan_digits_join:
  "is_number x \<Longrightarrow> scan_digits 0 (join_dots (x # xs)) =
     (digits_value 0 x, if xs = [] then [] else CHR ''.'' # join_dots xs)"
  unfolding join_dots_Cons by (rule scan_digits_append) (auto simp: is_number_def)

lemma version_str_less_step:
  assumes "is_number x" and "is_number y"
    and "\<forall>z \<in> set xs. is_number z" and "\<forall>z \<in> set ys. is_number z"
  shows "version_str_less (join_dots (x # xs)) (join_dots (y # ys)) =
    (digits_value 0 x < digits_value 0 y \<or>
     digits_value 0 x = digits_value 0 y \<and>
       ys \<noteq> [] \<and> (xs = [] \<or> version_str_less (join_dots xs) (join_dots ys)))"
proof -
  have d: "is_digit (hd0 (join_dots xs))" if "xs \<noteq> []"
    using that assms(3) by (cases xs) (auto intro: hd0_join_dots)
  show ?thesis
    using assms d
    by (subst version_str_less.simps)
      (auto simp: Let_def scan_digits_join hd0_join_dots split: if_splits)
qed

lemma digits_values_lex:
  "xs \<noteq> [] \<Longrightarrow> ys \<noteq> [] \<Longrightarrow> \<forall>z \<in> set xs. is_number z \<Longrightarrow> \<forall>z \<in> set ys. is_number z \<Longrightarrow>
   version_str_less (join_dots xs) (join_dots ys) =
   ord_class.lexordp (map (digits_value 0) xs) (map (digits_value 0) ys)"
proof (induction xs arbitrary: ys)
  case Nil
  then show ?case by simp
next
  case (Cons x xs)
  then obtain y ys' where ys: "ys = y # ys'" by (cases ys) auto
  have step: "version_str_less (join_dots (x # xs)) (join_dots (y # ys')) =
    (digits_value 0 x < digits_value 0 y \<or>
     digits_value 0 x = digits_value 0 y \<and>
       ys' \<noteq> [] \<and> (xs = [] \<or> version_str_less (join_dots xs) (join_dots ys')))"
    using Cons.prems by (intro version_str_less_step) (auto simp: ys)
  show ?case
  proof (cases "xs = [] \<or> ys' = []")
    case True
    then show ?thesis
      unfolding ys step by (cases ys') auto
  next
    case False
    then have "version_str_less (join_dots xs) (join_dots ys') =
        ord_class.lexordp (map (digits_value 0) xs) (map (digits_value 0) ys')"
      using Cons.prems by (intro Cons.IH) (auto simp: ys)
    with False show ?thesis
      unfolding ys step by auto
  qed
qed

text \<open>
  C1: on dotted version strings the comparison that decides which symbol versions are too
  new is exactly the lexicographic order of the numeric components (a proper prefix comes
  first), the components taken as the unsigned 64-bit values the code accumulates.
\<close>

theorem version_str_less_is_lexicographic:
  assumes "xs \<noteq> []" and "ys \<noteq> []"
    and "\<forall>x \<in> set xs. is_number x" and "\<forall>y \<in> set ys. is_number y"
  shows "version_str_less (join_dots xs) (join_dots ys) \<longleftrightarrow>
    ord_class.lexordp (map (digits_value 0) xs) (map (digits_value 0) ys)"
  using assms by (rule digits_values_lex)

lemma version_str_less_is_lexicographic_witness:
  "version_str_less ''2.5'' ''2.17'' \<and> \<not> version_str_less ''2.17'' ''2.5''"
proof -
  have n: "\<forall>x \<in> set [''2'', ''5'']. is_number x" "\<forall>x \<in> set [''2'', ''17'']. is_number x"
    by (simp_all add: is_number_def is_digit_def)
  show ?thesis
    using version_str_less_is_lexicographic [OF _ _ n(1) n(2)]
      version_str_less_is_lexicographic [OF _ _ n(2) n(1)]
    by simp
qed

lemma has_prefix_iff: "NUL \<notin> set pre \<Longrightarrow> has_prefix str pre \<longleftrightarrow> prefix pre str"
proof (induction pre arbitrary: str)
  case (Cons c pre)
  then show ?case by (cases str) auto
qed simp

end
