(* ===== verification/V2f.thy ===== *)
theory V2f
  imports Prelude
begin

section \<open>v2f.c: the map from virtual addresses to file offsets\<close>

text \<open>
  The sorted array of \<open>v2f_map_t\<close>. \<open>entries\<close> is the initialised part of the array: \<open>count\<close>
  entries and the sentinel \<open>entries[count]\<close>, whose \<open>vbase\<close> is \<open>2^64\<close> wrapped to 0, so that
  \<open>entries[i+1].vbase - 1\<close> is the last address of entry \<open>i\<close> also for the last one. Pointers
  into the array (\<open>cached\<close>, \<open>itr\<close>, \<open>tail\<close>) are indices.
\<close>

record v2f_entry =
  vbase :: u64
  v2f :: u64

record v2f_map =
  m_cached :: nat
  m_entries :: "v2f_entry list"
  m_count :: nat
  m_capacity :: nat

definition V2F_ZEROFILL :: u64 where "V2F_ZEROFILL = 1"
definition V2F_UNMAPPED :: u64 where "V2F_UNMAPPED = 2"
definition V2F_SPECIAL :: u64 where "V2F_SPECIAL = V2F_ZEROFILL OR V2F_UNMAPPED"

text \<open>The state of a zeroed \<open>v2f_map_t\<close>, as \<open>erw_init_from_*\<close> leave it.\<close>

definition v2f_zero :: v2f_map where
  "v2f_zero = \<lparr>m_cached = 0, m_entries = [], m_count = 0, m_capacity = 0\<rparr>"

definition v2f_map_init :: "v2f_map \<Rightarrow> u64 \<Rightarrow> v2f_map" where
  "v2f_map_init m initial_v2f =
     (let m = (if m_capacity m = 0 then m\<lparr>m_capacity := 4, m_cached := 0\<rparr> else m)
      in m\<lparr>m_count := 1, m_entries := [\<lparr>vbase = 0, v2f = initial_v2f\<rparr>,
                                  \<lparr>vbase = 0, v2f = initial_v2f\<rparr>]\<rparr>)"

text \<open>\<open>while (v < p->vbase) --p;\<close>\<close>

fun scan_down :: "v2f_entry list \<Rightarrow> u64 \<Rightarrow> nat \<Rightarrow> nat" where
  "scan_down es v 0 = 0"
| "scan_down es v (Suc i) = (if v < vbase (es ! Suc i) then scan_down es v i else Suc i)"

definition v2f_map_set_range :: "v2f_map \<Rightarrow> u64 \<Rightarrow> u64 \<Rightarrow> u64 \<Rightarrow> v2f_map" where
  "v2f_map_set_range m vb sz f =
    (if sz = 0 then m else
     let m = (if m_count m + 2 \<ge> m_capacity m then m\<lparr>m_capacity := m_capacity m * 2, m_cached := 0\<rparr> else m);
         es = m_entries m;
         last = m_count m;
         vend = vb + sz - 1;
         tail = scan_down es vend (last - 1);
         itr = scan_down es vb tail;
         itr = (if vbase (es ! itr) \<noteq> vb then itr + 1 else itr);
         (vb, itr) = (if vb \<noteq> 0 \<and> v2f (es ! (itr - 1)) = f
                      then (vbase (es ! (itr - 1)), itr - 1) else (vb, itr));
         tail = (if tail < last \<and> vbase (es ! (tail + 1)) - 1 = vend then tail + 1 else tail);
         (vend, tail) = (if tail < last \<and> v2f (es ! tail) = f
                         then (vbase (es ! (tail + 1)) - 1, tail + 1) else (vend, tail));
         m = (if itr + 1 \<noteq> tail
              then m\<lparr>m_entries := take (itr + 1) es @ drop tail es,
                     m_count := itr + (last + 1 - tail), m_cached := itr\<rparr>
              else m);
         es = m_entries m;
         es = es[itr := \<lparr>vbase = vb, v2f = f\<rparr>];
         es = es[itr + 1 := (es ! (itr + 1))\<lparr>vbase := vend + 1\<rparr>]
     in m\<lparr>m_entries := es\<rparr>)"

text \<open>The two search loops of \<open>v2f_map_lookup\<close>: forwards and backwards from the cached entry.\<close>

function lookup_up :: "v2f_entry list \<Rightarrow> u64 \<Rightarrow> nat \<Rightarrow> nat" where
  "lookup_up es v i =
     (if i + 1 < length es \<and> v > vbase (es ! (i + 1)) - 1 then lookup_up es v (i + 1) else i)"
  by pat_completeness auto
termination by (relation "measure (\<lambda>(es, v, i). length es - i)") auto

declare lookup_up.simps [simp del]

definition v2f_map_lookup :: "v2f_map \<Rightarrow> u64 \<Rightarrow> v2f_map \<times> nat" where
  "v2f_map_lookup m v =
    (let es = m_entries m; c = m_cached m in
     if v \<ge> vbase (es ! c) then
       if v \<le> vbase (es ! (c + 1)) - 1 then (m, c)
       else let c = lookup_up es v (c + 1) in (m\<lparr>m_cached := c\<rparr>, c)
     else let c = scan_down es v (c - 1) in (m\<lparr>m_cached := c\<rparr>, c))"

text \<open>
  \<open>v2f_map_lookup_f_range\<close>: the first entry whose file range holds \<open>[f, f + size)\<close>.
\<close>

function f_range_from :: "v2f_map \<Rightarrow> u64 \<Rightarrow> u64 \<Rightarrow> nat \<Rightarrow> nat option" where
  "f_range_from m f sz itr =
    (if itr < m_count m then
       let e = m_entries m ! itr; e1 = m_entries m ! (itr + 1) in
       if v2f e AND V2F_SPECIAL \<noteq> 0 then f_range_from m f sz (itr + 1)
       else let itrf = vbase e + v2f e in
         if f < itrf then f_range_from m f sz (itr + 1)
         else let itr1f = vbase e1 + v2f e in
           if itr1f \<le> f then f_range_from m f sz (itr + 1)
           else if itr1f - f < sz then f_range_from m f sz (itr + 1)
           else Some itr
     else None)"
  by pat_completeness auto
termination by (relation "measure (\<lambda>(m, f, sz, itr). m_count m - itr)") auto

declare f_range_from.simps [simp del]

definition v2f_map_lookup_f_range :: "v2f_map \<Rightarrow> u64 \<Rightarrow> u64 \<Rightarrow> nat option" where
  "v2f_map_lookup_f_range m f sz = f_range_from m f sz 0"

subsection \<open>Boundaries and the entry that covers an address\<close>

text \<open>
  \<open>bnd es i\<close> is the first address of entry \<open>i\<close> as a natural number, \<open>2^64\<close> for the
  sentinel: the reading of \<open>vbase\<close> under which the array is sorted.
\<close>

definition bnd :: "v2f_entry list \<Rightarrow> nat \<Rightarrow> nat" where
  "bnd es i = (if i + 1 < length es then unat (vbase (es ! i)) else 2 ^ 64)"

definition es_ok :: "v2f_entry list \<Rightarrow> bool" where
  "es_ok es \<longleftrightarrow> 2 \<le> length es \<and> vbase (es ! 0) = 0 \<and> vbase (last es) = 0 \<and>
     (\<forall>i < length es - 1. bnd es i < bnd es (i + 1))"

definition covers :: "v2f_entry list \<Rightarrow> u64 \<Rightarrow> nat \<Rightarrow> bool" where
  "covers es v i \<longleftrightarrow> i + 1 < length es \<and> bnd es i \<le> unat v \<and> unat v < bnd es (i + 1)"

text \<open>The abstract map: the value of the last entry that starts at or before the address.\<close>

definition v2f_get :: "v2f_entry list \<Rightarrow> u64 \<Rightarrow> u64" where
  "v2f_get es v = v2f (es ! scan_down es v (length es - 2))"

definition v2f_ok :: "v2f_map \<Rightarrow> bool" where
  "v2f_ok m \<longleftrightarrow> es_ok (m_entries m) \<and> length (m_entries m) = m_count m + 1 \<and>
     m_count m + 1 \<le> m_capacity m \<and> 4 \<le> m_capacity m \<and> m_cached m < m_count m"

lemma bnd_less:
  "es_ok es \<Longrightarrow> i < j \<Longrightarrow> j < length es \<Longrightarrow> bnd es i < bnd es j"
proof (induction j)
  case (Suc j)
  then have "bnd es j < bnd es (Suc j)" by (auto simp: es_ok_def)
  with Suc show ?case by (cases "i = j") auto
qed simp

lemma bnd_le: "es_ok es \<Longrightarrow> i \<le> j \<Longrightarrow> j < length es \<Longrightarrow> bnd es i \<le> bnd es j"
  using bnd_less [of es i j] by (cases "i = j") auto

lemma bnd_0 [simp]: "es_ok es \<Longrightarrow> bnd es 0 = 0"
  by (auto simp: es_ok_def bnd_def)

lemma bnd_last: "es_ok es \<Longrightarrow> bnd es (length es - 1) = 2 ^ 64"
  by (auto simp: bnd_def)

lemma covers_unique: "es_ok es \<Longrightarrow> covers es v i \<Longrightarrow> covers es v j \<Longrightarrow> i = j"
  using bnd_le [of es "i + 1" j] bnd_le [of es "j + 1" i]
  by (cases i j rule: linorder_cases) (auto simp: covers_def)

lemma scan_down_props:
  assumes "es_ok es" and "k + 1 < length es"
  shows "scan_down es v k \<le> k" and "bnd es (scan_down es v k) \<le> unat v"
    and "\<And>j. scan_down es v k < j \<Longrightarrow> j \<le> k \<Longrightarrow> unat v < bnd es j"
proof -
  have "scan_down es v k \<le> k \<and> bnd es (scan_down es v k) \<le> unat v \<and>
      (\<forall>j. scan_down es v k < j \<and> j \<le> k \<longrightarrow> unat v < bnd es j)"
    using assms
  proof (induction k)
    case 0
    then show ?case by auto
  next
    case (Suc k)
    then show ?case
      by (auto simp: bnd_def word_less_nat_alt word_le_nat_alt not_less le_Suc_eq
          split: if_splits)
  qed
  then show "scan_down es v k \<le> k" "bnd es (scan_down es v k) \<le> unat v"
    "\<And>j. scan_down es v k < j \<Longrightarrow> j \<le> k \<Longrightarrow> unat v < bnd es j"
    by auto
qed

lemma scan_down_covers:
  assumes "es_ok es" and "k + 1 < length es" and "unat v < bnd es (k + 1)"
  shows "covers es v (scan_down es v k)"
proof -
  note p = scan_down_props [OF assms(1,2), of v]
  have "unat v < bnd es (scan_down es v k + 1)"
    using assms(3) p(1) p(3) [of "scan_down es v k + 1"]
    by (cases "scan_down es v k = k") auto
  with p(1,2) assms(2) show ?thesis by (auto simp: covers_def)
qed

lemma unat_less_top: "unat (v :: u64) < 2 ^ 64"
  using unat_less_pow [of v] by simp

lemma top_covers: "es_ok es \<Longrightarrow> covers es v (scan_down es v (length es - 2))"
proof -
  assume ok: "es_ok es"
  then have n: "length es - 2 + 1 = length es - 1" "length es - 2 + 1 < length es"
    by (auto simp: es_ok_def)
  show ?thesis
    using ok n(2) by (rule scan_down_covers) (unfold n(1) bnd_last [OF ok], rule unat_less_top)
qed

lemma covers_get: "es_ok es \<Longrightarrow> covers es v i \<Longrightarrow> v2f_get es v = v2f (es ! i)"
  unfolding v2f_get_def by (metis covers_unique top_covers)

lemma covers_exists: "es_ok es \<Longrightarrow> \<exists>i. covers es v i"
  by (blast intro: top_covers)

lemma unat_minus_1_bound: "v \<le> x - 1 \<longleftrightarrow> x = 0 \<or> unat v < unat x" for v x :: "'a::len word"
proof (cases "x = 0")
  case False
  then have "unat (x - 1) = unat x - 1" and "0 < unat x"
    by (simp_all add: unat_minus_one unat_gt_0)
  with False show ?thesis by (auto simp: word_le_nat_alt)
qed simp

lemma upper_test:
  assumes "es_ok es" and "i + 1 < length es"
  shows "v \<le> vbase (es ! (i + 1)) - 1 \<longleftrightarrow> unat v < bnd es (i + 1)"
proof (cases "i + 2 < length es")
  case True
  with assms have "bnd es i < bnd es (i + 1)" by (auto simp: es_ok_def)
  with True have "vbase (es ! (i + 1)) \<noteq> 0" by (auto simp: bnd_def)
  with True show ?thesis by (auto simp: unat_minus_1_bound bnd_def)
next
  case False
  with assms have "i + 1 = length es - 1" and "es \<noteq> []" by auto
  then have "vbase (es ! (i + 1)) = 0"
    using assms(1) by (simp add: es_ok_def last_conv_nth)
  with False show ?thesis
    using unat_less_top [of v] by (simp add: bnd_def)
qed

subsection \<open>Lookup\<close>

lemma lookup_up_covers:
  assumes "es_ok es" and "i + 1 < length es" and "bnd es i \<le> unat v"
  shows "covers es v (lookup_up es v i)"
  using assms
proof (induction es v i rule: lookup_up.induct)
  case (1 es v i)
  show ?case
  proof (cases "unat v < bnd es (i + 1)")
    case True
    then have "\<not> v > vbase (es ! (i + 1)) - 1"
      using upper_test [OF "1.prems"(1,2)] by (simp add: not_less)
    then have "lookup_up es v i = i"
      by (subst lookup_up.simps) simp
    with True "1.prems" show ?thesis by (simp add: covers_def)
  next
    case False
    then have "i + 1 \<noteq> length es - 1"
      using bnd_last [OF "1.prems"(1)] unat_less_top [of v] by auto
    moreover have up: "v > vbase (es ! (i + 1)) - 1"
      using False upper_test [OF "1.prems"(1,2), of v] by (metis not_le)
    moreover have "lookup_up es v i = lookup_up es v (i + 1)"
      using "1.prems"(2) up by (subst lookup_up.simps) simp
    ultimately show ?thesis
      using "1.IH" "1.prems" False by (auto simp: not_less)
  qed
qed

lemma v2f_map_lookup_covers:
  assumes ok: "v2f_ok m"
  shows "covers (m_entries m) v (snd (v2f_map_lookup m v))"
    and "fst (v2f_map_lookup m v) = m\<lparr>m_cached := snd (v2f_map_lookup m v)\<rparr>"
proof -
  let ?es = "m_entries m" and ?c = "m_cached m"
  have es: "es_ok ?es" and c: "?c + 1 < length ?es"
    using ok by (auto simp: v2f_ok_def)
  have at: "v \<ge> vbase (?es ! ?c) \<longleftrightarrow> bnd ?es ?c \<le> unat v"
    using c by (simp add: bnd_def word_le_nat_alt)
  have up: "covers ?es v (lookup_up ?es v (?c + 1))"
    if "\<not> unat v < bnd ?es (?c + 1)"
  proof (rule lookup_up_covers)
    show "?c + 1 + 1 < length ?es"
      using that c bnd_last [OF es] unat_less_top [of v]
      by (cases "?c + 1 = length ?es - 1") auto
  qed (use es that in auto)
  have down: "covers ?es v (scan_down ?es v (?c - 1))" if "\<not> bnd ?es ?c \<le> unat v"
  proof -
    have "?c \<noteq> 0" using that es by (cases "?c = 0") auto
    with that c show ?thesis by (intro scan_down_covers [OF es]) auto
  qed
  show "covers ?es v (snd (v2f_map_lookup m v))"
    using c up down at upper_test [OF es c, of v]
    by (auto simp: v2f_map_lookup_def Let_def covers_def)
  show "fst (v2f_map_lookup m v) = m\<lparr>m_cached := snd (v2f_map_lookup m v)\<rparr>"
    by (simp add: v2f_map_lookup_def Let_def)
qed

lemma v2f_ok_lookup: "v2f_ok m \<Longrightarrow> v2f_ok (fst (v2f_map_lookup m v))"
  using v2f_map_lookup_covers [of m v]
  by (auto simp: v2f_ok_def covers_def)

subsection \<open>Setting a range\<close>

definition splice :: "v2f_entry list \<Rightarrow> nat \<Rightarrow> u64 \<Rightarrow> u64 \<Rightarrow> u64 \<Rightarrow> nat \<Rightarrow> v2f_entry list" where
  "splice es i vb f e t =
     take i es @ [\<lparr>vbase = vb, v2f = f\<rparr>, (es ! t)\<lparr>vbase := e\<rparr>] @ drop (t + 1) es"

text \<open>
  What one splice does to the boundaries: entries before \<open>i\<close> keep theirs, \<open>i\<close> starts at
  \<open>vb\<close>, the next one at the end \<open>E\<close> of the range, and the rest follows entry \<open>t\<close>.
\<close>

definition splice_pre :: "v2f_entry list \<Rightarrow> nat \<Rightarrow> u64 \<Rightarrow> u64 \<Rightarrow> nat \<Rightarrow> nat \<Rightarrow> bool" where
  "splice_pre es i vb e E t \<longleftrightarrow> es_ok es \<and> t < length es \<and> i < length es \<and> i \<le> t + 1 \<and>
     (if i = 0 then vb = 0 else bnd es (i - 1) < unat vb) \<and> unat vb \<le> bnd es i \<and>
     unat vb < E \<and> bnd es t \<le> E \<and>
     (if t + 1 < length es then unat e = E \<and> E < bnd es (t + 1) else e = 0 \<and> E = 2 ^ 64)"

lemma splice_pre_facts:
  assumes "splice_pre es i vb e E t"
  shows "es_ok es" "t < length es" "i < length es" "i \<le> t + 1"
    "i = 0 \<Longrightarrow> vb = 0" "0 < i \<Longrightarrow> bnd es (i - 1) < unat vb" "unat vb \<le> bnd es i"
    "unat vb < E" "bnd es t \<le> E" "t + 1 < length es \<Longrightarrow> unat e = E"
    "t + 1 < length es \<Longrightarrow> E < bnd es (t + 1)"
    "\<not> t + 1 < length es \<Longrightarrow> e = 0" "\<not> t + 1 < length es \<Longrightarrow> E = 2 ^ 64"
  using assms unfolding splice_pre_def by (auto split: if_splits)

lemma length_splice:
  "splice_pre es i vb e E t \<Longrightarrow> length (splice es i vb f e t) = i + 2 + (length es - (t + 1))"
  by (auto simp: splice_def dest: splice_pre_facts(3))

lemma nth_splice:
  assumes "splice_pre es i vb e E t" and "j < length (splice es i vb f e t)"
  shows "splice es i vb f e t ! j =
    (if j < i then es ! j else if j = i then \<lparr>vbase = vb, v2f = f\<rparr>
     else if j = i + 1 then (es ! t)\<lparr>vbase := e\<rparr> else es ! (j - i - 1 + t))"
proof -
  have i: "i < length es" "t < length es" using assms(1) by (auto dest: splice_pre_facts)
  consider "j < i" | "j = i" | "j = i + 1" | "i + 1 < j" by linarith
  then show ?thesis
  proof cases
    case 4
    then obtain k where k: "j = i + 2 + k" by (metis less_iff_Suc_add add_2_eq_Suc' add_Suc_right Suc_eq_plus1 add.commute)
    with i show ?thesis by (simp add: splice_def nth_append add.commute)
  qed (use i in \<open>auto simp: splice_def nth_append\<close>)
qed

lemma bnd_splice:
  assumes pre: "splice_pre es i vb e E t" and j: "j < length (splice es i vb f e t)"
  shows "bnd (splice es i vb f e t) j =
    (if j < i then bnd es j else if j = i then unat vb
     else if j = i + 1 then E else bnd es (j - i - 1 + t))"
proof -
  note p = splice_pre_facts [OF pre] and n = nth_splice [OF pre j]
  note len = length_splice [OF pre, of f]
  consider "j < i" | "j = i" | "j = i + 1" "t + 1 < length es"
    | "j = i + 1" "\<not> t + 1 < length es" | "i + 1 < j" by linarith
  then show ?thesis
  proof cases
    case 5
    then have "j + 1 < length (splice es i vb f e t) \<longleftrightarrow> j - i - 1 + t + 1 < length es"
      using len p(2) by arith
    with 5 n show ?thesis by (simp add: bnd_def)
  qed (use n len p in \<open>auto simp: bnd_def\<close>)
qed

lemma es_ok_splice:
  assumes pre: "splice_pre es i vb e E t"
  shows "es_ok (splice es i vb f e t)"
proof -
  note p = splice_pre_facts [OF pre] and len = length_splice [OF pre, of f]
  let ?es = "splice es i vb f e t"
  have "2 \<le> length ?es" and ne: "?es \<noteq> []"
    using len by auto
  moreover have "vbase (?es ! 0) = 0"
    using len nth_splice [OF pre, of 0 f] p(1,5) by (auto simp: es_ok_def)
  moreover have "vbase (last ?es) = 0"
  proof (cases "t + 1 < length es")
    case True
    then show ?thesis using p(1) by (auto simp: splice_def es_ok_def last_drop)
  next
    case False
    then show ?thesis using p(2,12) by (auto simp: splice_def)
  qed
  moreover have "bnd ?es j < bnd ?es (j + 1)" if "j < length ?es - 1" for j
  proof -
    have j: "j < length ?es" "j + 1 < length ?es" using that by auto
    consider "j + 1 < i" | "j + 1 = i" | "j = i" | "j = i + 1" | "i + 1 < j" by linarith
    then show ?thesis
    proof cases
      case 1
      then show ?thesis
        using bnd_splice [OF pre j(1)] bnd_splice [OF pre j(2)] p(3) bnd_less [OF p(1), of j "j + 1"]
        by auto
    next
      case 2
      then show ?thesis
        using bnd_splice [OF pre j(1)] bnd_splice [OF pre j(2)] p(6) by auto
    next
      case 3
      then show ?thesis
        using bnd_splice [OF pre j(1)] bnd_splice [OF pre j(2)] p(8) by auto
    next
      case 4
      then show ?thesis
        using bnd_splice [OF pre j(1)] bnd_splice [OF pre j(2)] p(11) j(2) len by auto
    next
      case 5
      then have "j - i - 1 + t < length es - 1" and "j + 1 - i - 1 + t = j - i - 1 + t + 1"
        using j(2) len by auto
      then show ?thesis
        using 5 bnd_splice [OF pre j(1)] bnd_splice [OF pre j(2)]
          bnd_less [OF p(1), of "j - i - 1 + t" "j - i - 1 + t + 1"] by auto
    qed
  qed
  ultimately show ?thesis by (auto simp: es_ok_def)
qed

lemma get_splice:
  assumes pre: "splice_pre es i vb e E t"
  shows "v2f_get (splice es i vb f e t) v =
    (if vb \<le> v \<and> unat v < E then f else v2f_get es v)"
proof -
  let ?es = "splice es i vb f e t"
  note p = splice_pre_facts [OF pre] and len = length_splice [OF pre, of f]
  note ok = es_ok_splice [OF pre, of f]
  obtain k where k: "covers es v k" using covers_exists [OF p(1)] by blast
  then have kl: "k + 1 < length es" and kb: "bnd es k \<le> unat v" "unat v < bnd es (k + 1)"
    by (auto simp: covers_def)
  consider "unat v < unat vb" | "vb \<le> v" "unat v < E" | "E \<le> unat v"
    unfolding word_le_nat_alt by linarith
  then show ?thesis
  proof cases
    case 1
    have "k < i"
      using 1 p(3,7) kl kb bnd_le [OF p(1), of i k] by (cases "k < i") auto
    have "unat v < bnd ?es (k + 1)"
      using 1 \<open>k < i\<close> len kb bnd_splice [OF pre, of "k + 1" f] by (cases "k + 1 = i") auto
    moreover have "bnd ?es k \<le> unat v" "?es ! k = es ! k"
      using \<open>k < i\<close> len kb bnd_splice [OF pre, of k f] nth_splice [OF pre, of k f] by auto
    ultimately have "covers ?es v k" and "?es ! k = es ! k"
      using \<open>k < i\<close> len by (auto simp: covers_def)
    then show ?thesis
      using covers_get [OF ok] covers_get [OF p(1) k] 1 by (auto simp: word_le_nat_alt)
  next
    case 2
    have "covers ?es v i"
      using 2 len bnd_splice [OF pre, of i f] bnd_splice [OF pre, of "i + 1" f]
      by (auto simp: covers_def word_le_nat_alt)
    then show ?thesis
      using covers_get [OF ok] 2 len nth_splice [OF pre, of i f] by auto
  next
    case 3
    have tl: "t + 1 < length es" using 3 p(13) unat_less_top [of v] by (cases "t + 1 < length es") auto
    have "t \<le> k"
      using 3 p(9) kl kb p(2) bnd_le [OF p(1), of "k + 1" t] by (cases "t \<le> k") auto
    define j where "j = i + 1 + (k - t)"
    have jl: "j + 1 < length ?es" using len kl \<open>t \<le> k\<close> by (auto simp: j_def)
    have idx: "j + 1 - i - 1 + t = k + 1" "i + 1 < j \<Longrightarrow> j - i - 1 + t = k" "j = i + 1 \<longleftrightarrow> k = t"
      using \<open>t \<le> k\<close> by (auto simp: j_def)
    have "bnd ?es j \<le> unat v"
      using bnd_splice [OF pre, of j f] jl idx 3 kb by (cases "j = i + 1") (auto simp: j_def)
    moreover have "unat v < bnd ?es (j + 1)"
      using bnd_splice [OF pre jl] idx kb by (auto simp: j_def)
    moreover have "v2f (?es ! j) = v2f (es ! k)"
      using nth_splice [OF pre, of j f] jl idx by (cases "j = i + 1") (auto simp: j_def)
    ultimately show ?thesis
      using covers_get [OF ok, of v j] covers_get [OF p(1) k] jl 3 by (auto simp: covers_def)
  qed
qed

text \<open>
  The variables of \<open>v2f_map_set_range\<close> after its four scans and merges satisfy the
  precondition of the splice, and where the splice covers more than the requested range
  the old map already had the new value.
\<close>

lemma start_index:
  assumes ok: "es_ok es" and c: "covers es vb i0"
    and i1: "i1 = (if vbase (es ! i0) \<noteq> vb then i0 + 1 else i0)"
  shows "i1 \<le> i0 + 1" "i1 < length es" "unat vb \<le> bnd es i1"
    "if i1 = 0 then vb = 0 else bnd es (i1 - 1) < unat vb"
proof -
  have l: "i0 + 1 < length es" and b: "bnd es i0 \<le> unat vb" "unat vb < bnd es (i0 + 1)"
    using c by (auto simp: covers_def)
  have eq: "vbase (es ! i0) = vb \<longleftrightarrow> bnd es i0 = unat vb"
    using l by (simp add: bnd_def word_unat_eq_iff)
  show "i1 \<le> i0 + 1" "i1 < length es" "unat vb \<le> bnd es i1"
    using i1 l b eq by auto
  show "if i1 = 0 then vb = 0 else bnd es (i1 - 1) < unat vb"
    using i1 l b eq bnd_less [OF ok, of "i0 - 1" i0] bnd_0 [OF ok]
    by (cases "i0 = 0") (auto simp: unat_eq_0 unat_gt_0)
qed

lemma merge_start:
  assumes ok: "es_ok es" and c: "covers es vb i0"
    and i1: "i1 = (if vbase (es ! i0) \<noteq> vb then i0 + 1 else i0)"
    and m: "(vb2, i2) = (if vb \<noteq> 0 \<and> v2f (es ! (i1 - 1)) = f
                       then (vbase (es ! (i1 - 1)), i1 - 1) else (vb, i1))"
  shows "i2 \<le> i0 + 1" "i2 < length es" "if i2 = 0 then vb2 = 0 else bnd es (i2 - 1) < unat vb2"
    "unat vb2 \<le> bnd es i2" "unat vb2 \<le> unat vb"
    "\<And>v. vb2 \<le> v \<Longrightarrow> v < vb \<Longrightarrow> v2f_get es v = f"
proof -
  note s = start_index [OF ok c i1]
  have "i2 \<le> i0 + 1 \<and> i2 < length es \<and> (if i2 = 0 then vb2 = 0 else bnd es (i2 - 1) < unat vb2) \<and>
    unat vb2 \<le> bnd es i2 \<and> unat vb2 \<le> unat vb \<and> (\<forall>v. vb2 \<le> v \<longrightarrow> v < vb \<longrightarrow> v2f_get es v = f)"
  proof (cases "vb \<noteq> 0 \<and> v2f (es ! (i1 - 1)) = f")
    case True
    then have i: "i2 = i1 - 1" "vb2 = vbase (es ! i2)" using m by auto
    have "i1 \<noteq> 0" using True s(4) by (cases "i1 = 0") auto
    with i s(2) have i': "i1 = i2 + 1" "i2 + 1 < length es" by auto
    then have vb2: "unat vb2 = bnd es i2" by (simp add: i(2) bnd_def)
    have lt: "bnd es i2 < unat vb" using s(4) i' by auto
    have "v2f_get es v = f" if "vb2 \<le> v" "v < vb" for v
    proof -
      have "covers es v i2"
        using that i' vb2 s(3) by (auto simp: covers_def word_le_nat_alt word_less_nat_alt)
      then show ?thesis using covers_get [OF ok] True i by auto
    qed
    moreover have "if i2 = 0 then vb2 = 0 else bnd es (i2 - 1) < unat vb2"
      using vb2 bnd_0 [OF ok] bnd_less [OF ok, of "i2 - 1" i2] i'
      by (auto simp: unat_eq_0)
    ultimately show ?thesis using vb2 lt i' s(1) by auto
  next
    case False
    then have "vb2 = vb" "i2 = i1" using m by (auto split: if_splits)
    then show ?thesis using s by auto
  qed
  then show "i2 \<le> i0 + 1" "i2 < length es" "if i2 = 0 then vb2 = 0 else bnd es (i2 - 1) < unat vb2"
    "unat vb2 \<le> bnd es i2" "unat vb2 \<le> unat vb"
    "\<And>v. vb2 \<le> v \<Longrightarrow> v < vb \<Longrightarrow> v2f_get es v = f"
    by blast+
qed

lemma bnd_succ_word:
  assumes "es_ok es" and "t + 1 < length es"
  shows "unat (vbase (es ! (t + 1)) - 1) + 1 = bnd es (t + 1)"
proof (cases "t + 2 < length es")
  case True
  then have e: "bnd es (t + 1) = unat (vbase (es ! (t + 1)))" by (simp add: bnd_def)
  have "0 < unat (vbase (es ! (t + 1)))"
    using bnd_less [OF assms(1), of t "t + 1"] assms(2) unfolding e by simp
  then have "vbase (es ! (t + 1)) \<noteq> 0" by (simp add: unat_gt_0)
  then have "unat (vbase (es ! (t + 1)) - 1) = unat (vbase (es ! (t + 1))) - 1"
    by (rule unat_minus_one)
  with \<open>0 < unat (vbase (es ! (t + 1)))\<close> show ?thesis
    unfolding e by linarith
next
  case False
  with assms have "t + 1 = length es - 1" "es \<noteq> []" by auto
  then have "vbase (es ! (t + 1)) = 0"
    using assms(1) by (simp add: es_ok_def last_conv_nth)
  with False show ?thesis by (simp add: bnd_def unat_max_word)
qed

lemma merge_end:
  assumes ok: "es_ok es" and c: "covers es vend t0" and n: "length es = n + 1"
    and t1: "t1 = (if t0 < n \<and> vbase (es ! (t0 + 1)) - 1 = vend then t0 + 1 else t0)"
    and m: "(vend2, t2) = (if t1 < n \<and> v2f (es ! t1) = f
                         then (vbase (es ! (t1 + 1)) - 1, t1 + 1) else (vend, t1))"
  shows "t0 \<le> t2" "t2 < length es" "bnd es t2 \<le> unat vend2 + 1" "unat vend \<le> unat vend2"
    "if t2 + 1 < length es then unat (vend2 + 1) = unat vend2 + 1 \<and> unat vend2 + 1 < bnd es (t2 + 1)
     else vend2 + 1 = 0 \<and> unat vend2 + 1 = 2 ^ 64"
    "\<And>v. vend < v \<Longrightarrow> v \<le> vend2 \<Longrightarrow> v2f_get es v = f"
proof -
  have l: "t0 + 1 < length es" and b: "bnd es t0 \<le> unat vend" "unat vend < bnd es (t0 + 1)"
    using c by (auto simp: covers_def)
  have eq: "vbase (es ! (t0 + 1)) - 1 = vend \<longleftrightarrow> unat vend + 1 = bnd es (t0 + 1)"
    using bnd_succ_word [OF ok l] by (metis add_right_cancel word_unat_eq_iff)
  have T1: "t0 \<le> t1" "t1 \<le> n" "bnd es t1 \<le> unat vend + 1"
    "t1 + 1 < length es \<Longrightarrow> unat vend + 1 < bnd es (t1 + 1)"
    using t1 l b n eq bnd_less [OF ok, of "t0 + 1" "t0 + 2"] by (auto split: if_splits)
  have T1n: "t1 = n \<Longrightarrow> unat vend + 1 = 2 ^ 64"
    using t1 l b n eq bnd_last [OF ok] by (auto split: if_splits)
  have wrap: "if t + 1 < length es then unat (w + 1) = unat w + 1 \<and> unat w + 1 < bnd es (t + 1)
     else w + 1 = 0 \<and> unat w + 1 = 2 ^ 64"
    if "t + 1 < length es \<Longrightarrow> unat w + 1 < bnd es (t + 1)"
      and "\<not> t + 1 < length es \<Longrightarrow> unat w + 1 = 2 ^ 64" for t and w :: u64
  proof (cases "t + 1 < length es")
    case True
    then have "bnd es (t + 1) \<le> 2 ^ 64"
      unfolding bnd_last [OF ok, symmetric] by (intro bnd_le [OF ok]) auto
    then have "unat w + 1 < 2 ^ 64"
      using that(1) True by linarith
    then have "unat (w + 1) = unat w + 1" by (simp add: unat_word_ariths)
    with that(1) True show ?thesis by simp
  next
    case False
    then have "unat (w + 1) = 0" using that(2) by (simp add: unat_word_ariths)
    with that(2) False show ?thesis by (simp add: unat_eq_0)
  qed
  have "t0 \<le> t2 \<and> t2 < length es \<and> bnd es t2 \<le> unat vend2 + 1 \<and> unat vend \<le> unat vend2 \<and>
    (t2 + 1 < length es \<longrightarrow> unat vend2 + 1 < bnd es (t2 + 1)) \<and>
    (\<not> t2 + 1 < length es \<longrightarrow> unat vend2 + 1 = 2 ^ 64) \<and>
    (\<forall>v. vend < v \<longrightarrow> v \<le> vend2 \<longrightarrow> v2f_get es v = f)"
  proof (cases "t1 < n \<and> v2f (es ! t1) = f")
    case True
    then have t: "t2 = t1 + 1" "t1 + 1 < length es" and v2: "unat vend2 + 1 = bnd es t2"
      using m n bnd_succ_word [OF ok, of t1] by auto
    have "v2f_get es v = f" if "vend < v" "v \<le> vend2" for v
    proof -
      have "covers es v t1"
        using that t v2 T1(3) by (auto simp: covers_def word_le_nat_alt word_less_nat_alt)
      then show ?thesis using covers_get [OF ok] True by auto
    qed
    moreover have "t2 + 1 < length es \<Longrightarrow> bnd es t2 < bnd es (t2 + 1)"
      using bnd_less [OF ok, of t2 "t2 + 1"] by simp
    moreover have "\<not> t2 + 1 < length es \<Longrightarrow> bnd es t2 = 2 ^ 64"
      using t by (simp add: bnd_def)
    ultimately show ?thesis using t v2 T1 by auto
  next
    case False
    then have "vend2 = vend" "t2 = t1" using m by (auto split: if_splits)
    then show ?thesis using T1 T1n n by auto
  qed
  then show "t0 \<le> t2" "t2 < length es" "bnd es t2 \<le> unat vend2 + 1" "unat vend \<le> unat vend2"
    "if t2 + 1 < length es then unat (vend2 + 1) = unat vend2 + 1 \<and> unat vend2 + 1 < bnd es (t2 + 1)
     else vend2 + 1 = 0 \<and> unat vend2 + 1 = 2 ^ 64"
    "\<And>v. vend < v \<Longrightarrow> v \<le> vend2 \<Longrightarrow> v2f_get es v = f"
    using wrap [of t2 vend2] by blast+
qed

text \<open>
  The whole operation on the array: one splice whose precondition holds, whatever the
  cached index was.
\<close>

lemma set_range_splice:
  assumes ok: "es_ok (m_entries m)" and n: "length (m_entries m) = m_count m + 1"
    and sz: "sz \<noteq> 0" and nowrap: "unat vb + unat sz \<le> 2 ^ 64"
  obtains i vb2 e E t where "splice_pre (m_entries m) i vb2 e E t"
    and "m_entries (v2f_map_set_range m vb sz f) = splice (m_entries m) i vb2 f e t"
    and "m_count (v2f_map_set_range m vb sz f) = i + (m_count m + 1 - t)"
    and "m_capacity (v2f_map_set_range m vb sz f) =
      (if m_count m + 2 \<ge> m_capacity m then m_capacity m * 2 else m_capacity m)"
    and "m_cached (v2f_map_set_range m vb sz f) \<in>
      (if i + 1 = t then {m_cached m, 0} else {i})"
    and "unat vb2 \<le> unat vb" "unat vb + unat sz \<le> E"
    and "\<And>v. vb2 \<le> v \<Longrightarrow> v < vb \<Longrightarrow> v2f_get (m_entries m) v = f"
    and "\<And>v. unat vb + unat sz \<le> unat v \<Longrightarrow> unat v < E \<Longrightarrow> v2f_get (m_entries m) v = f"
proof -
  let ?es = "m_entries m"
  define vend where "vend = vb + sz - 1"
  define t0 where "t0 = scan_down ?es vend (m_count m - 1)"
  define i0 where "i0 = scan_down ?es vb t0"
  define i1 where "i1 = (if vbase (?es ! i0) \<noteq> vb then i0 + 1 else i0)"
  define p1 where "p1 = (if vb \<noteq> 0 \<and> v2f (?es ! (i1 - 1)) = f
                       then (vbase (?es ! (i1 - 1)), i1 - 1) else (vb, i1))"
  define t1 where "t1 = (if t0 < m_count m \<and> vbase (?es ! (t0 + 1)) - 1 = vend then t0 + 1 else t0)"
  define p2 where "p2 = (if t1 < m_count m \<and> v2f (?es ! t1) = f
                         then (vbase (?es ! (t1 + 1)) - 1, t1 + 1) else (vend, t1))"
  obtain vb2 i where m1: "p1 = (vb2, i)" by (cases p1)
  obtain vend2 t where m2: "p2 = (vend2, t)" by (cases p2)
  have vend: "unat vend = unat vb + unat sz - 1" and szp: "0 < unat sz"
  proof -
    show "0 < unat sz" using sz by (simp add: unat_gt_0)
    have s1: "unat (sz - 1) = unat sz - 1" using sz by (rule unat_minus_one)
    have "unat vb + unat (sz - 1) < 2 ^ LENGTH(64)"
      unfolding s1 using nowrap \<open>0 < unat sz\<close> by simp
    then have "unat (vb + (sz - 1)) = unat vb + unat (sz - 1)"
      by (simp only: unat_add_lem)
    then have "unat vend = unat vb + (unat sz - 1)"
      by (simp add: vend_def add_diff_eq s1)
    then show "unat vend = unat vb + unat sz - 1" using \<open>0 < unat sz\<close> by simp
  qed
  have cnt: "length ?es - 2 = m_count m - 1" "0 < m_count m"
    using n ok by (auto simp: es_ok_def)
  have c0: "covers ?es vend t0"
    using top_covers [OF ok, of vend] cnt by (simp add: t0_def)
  then have ct: "t0 + 1 < length ?es" "bnd ?es t0 \<le> unat vend" "unat vend < bnd ?es (t0 + 1)"
    by (auto simp: covers_def)
  have ci: "covers ?es vb i0"
    unfolding i0_def using ok ct(1)
    by (rule scan_down_covers) (use ct(3) vend szp in linarith)
  have it: "i0 \<le> t0" unfolding i0_def using ok ct(1) by (rule scan_down_props(1))
  note S = merge_start [OF ok ci i1_def, of vb2 i f, OF m1 [unfolded p1_def, symmetric]]
  note T = merge_end [OF ok c0 n t1_def, of vend2 t f, OF m2 [unfolded p2_def, symmetric]]
  let ?E = "unat vend2 + 1"
  have pre: "splice_pre ?es i vb2 (vend2 + 1) ?E t"
    unfolding splice_pre_def
    using ok S(1-5) T(1-5) it vend szp by (auto split: if_splits)
  let ?R = "v2f_map_set_range m vb sz f"
  define m0 where "m0 = (if m_count m + 2 \<ge> m_capacity m
    then m\<lparr>m_capacity := m_capacity m * 2, m_cached := 0\<rparr> else m)"
  have m0: "m_entries m0 = ?es" "m_count m0 = m_count m"
    "m_capacity m0 = (if m_count m + 2 \<ge> m_capacity m then m_capacity m * 2 else m_capacity m)"
    "m_cached m0 \<in> {m_cached m, 0}"
    by (simp_all add: m0_def)
  define m1 where "m1 = (if i + 1 \<noteq> t then m0\<lparr>m_entries := take (i + 1) ?es @ drop t ?es,
                     m_count := i + (m_count m + 1 - t), m_cached := i\<rparr> else m0)"
  have R: "?R = m1\<lparr>m_entries := ((m_entries m1)[i := \<lparr>vbase = vb2, v2f = f\<rparr>])
      [i + 1 := ((m_entries m1)[i := \<lparr>vbase = vb2, v2f = f\<rparr>] ! (i + 1))\<lparr>vbase := vend2 + 1\<rparr>]\<rparr>"
    using sz m0(1,2) unfolding v2f_map_set_range_def m0_def [symmetric] Let_def
    by (simp only: m0 vend_def [symmetric] t0_def [symmetric] i0_def [symmetric] i1_def [symmetric]
        t1_def [symmetric] p1_def [symmetric] p2_def [symmetric] m1 m2 prod.case if_False m1_def)
  have E1: "m_entries m1 = take (i + 1) ?es @ drop t ?es"
    using T(2) by (auto simp: m1_def m0)
  have "i < length ?es" "t < length ?es" by (fact S(2) T(2))+
  then have dr: "drop t ?es = ?es ! t # drop (t + 1) ?es" and tk: "take (i + 1) ?es = take i ?es @ [?es ! i]"
    by (simp_all add: Cons_nth_drop_Suc take_Suc_conv_app_nth)
  have "m_entries ?R = splice ?es i vb2 f (vend2 + 1) t"
    unfolding R E1 tk dr using \<open>i < length ?es\<close>
    by (simp add: splice_def list_update_append nth_append)
  moreover have "m_count ?R = i + (m_count m + 1 - t)"
    using T(2) n by (auto simp: R m1_def m0)
  moreover have "m_capacity ?R = (if m_count m + 2 \<ge> m_capacity m then m_capacity m * 2 else m_capacity m)"
    by (simp add: R m1_def m0)
  moreover have "m_cached ?R \<in> (if i + 1 = t then {m_cached m, 0} else {i})"
    using m0(4) by (simp add: R m1_def)
  moreover have "v2f_get ?es v = f" if "unat vb + unat sz \<le> unat v" "unat v < ?E" for v
    using that vend szp by (intro T(6)) (auto simp: word_less_nat_alt word_le_nat_alt)
  moreover have "unat vb + unat sz \<le> ?E" using T(4) vend szp by linarith
  ultimately show thesis using that [OF pre] S(5,6) by blast
qed

lemma get_set_range:
  assumes ok: "es_ok (m_entries m)" and n: "length (m_entries m) = m_count m + 1"
    and nowrap: "unat vb + unat sz \<le> 2 ^ 64"
  shows "v2f_get (m_entries (v2f_map_set_range m vb sz f)) v =
    (if unat vb \<le> unat v \<and> unat v < unat vb + unat sz then f else v2f_get (m_entries m) v)"
proof (cases "sz = 0")
  case True
  then show ?thesis by (auto simp: v2f_map_set_range_def)
next
  case False
  from set_range_splice [OF ok n this nowrap, of f]
  obtain i vb2 e E t where pre: "splice_pre (m_entries m) i vb2 e E t"
    and es: "m_entries (v2f_map_set_range m vb sz f) = splice (m_entries m) i vb2 f e t"
    and w: "unat vb2 \<le> unat vb" "unat vb + unat sz \<le> E"
    and g: "\<And>v. vb2 \<le> v \<Longrightarrow> v < vb \<Longrightarrow> v2f_get (m_entries m) v = f"
      "\<And>v. unat vb + unat sz \<le> unat v \<Longrightarrow> unat v < E \<Longrightarrow> v2f_get (m_entries m) v = f"
    by metis
  show ?thesis
    unfolding es get_splice [OF pre] using w g(2) [of v] g(1) [of v]
    by (auto simp: word_le_nat_alt word_less_nat_alt)
qed

definition table_ok :: "v2f_map \<Rightarrow> bool" where
  "table_ok m \<longleftrightarrow> es_ok (m_entries m) \<and> length (m_entries m) = m_count m + 1 \<and>
     m_count m + 1 \<le> m_capacity m \<and> 4 \<le> m_capacity m"

lemma v2f_ok_alt: "v2f_ok m \<longleftrightarrow> table_ok m \<and> m_cached m < m_count m"
  by (auto simp: v2f_ok_def table_ok_def)

lemma table_ok_set_range:
  assumes ok: "table_ok m" and nowrap: "unat vb + unat sz \<le> 2 ^ 64"
  shows "table_ok (v2f_map_set_range m vb sz f)"
    and "m_cached m < m_count m \<Longrightarrow>
      m_cached (v2f_map_set_range m vb sz f) < m_count (v2f_map_set_range m vb sz f)"
    and "m_count m = 1 \<Longrightarrow> sz \<noteq> 0 \<Longrightarrow> f \<noteq> v2f (m_entries m ! 0) \<Longrightarrow>
      m_cached (v2f_map_set_range m vb sz f) < m_count (v2f_map_set_range m vb sz f)"
proof -
  let ?R = "v2f_map_set_range m vb sz f" and ?es = "m_entries m"
  have es: "es_ok ?es" and n: "length ?es = m_count m + 1"
    using ok by (auto simp: table_ok_def)
  have "table_ok ?R \<and> (m_cached m < m_count m \<longrightarrow> m_cached ?R < m_count ?R) \<and>
    (m_count m = 1 \<longrightarrow> sz \<noteq> 0 \<longrightarrow> f \<noteq> v2f (?es ! 0) \<longrightarrow> m_cached ?R < m_count ?R)"
  proof (cases "sz = 0")
    case True
    then show ?thesis using assms by (simp add: v2f_map_set_range_def)
  next
    case False
    from set_range_splice [OF es n this nowrap, of f]
    obtain i vb2 e E t where pre: "splice_pre ?es i vb2 e E t"
      and sp: "m_entries ?R = splice ?es i vb2 f e t"
      and c: "m_count ?R = i + (m_count m + 1 - t)"
      and cp: "m_capacity ?R = (if m_count m + 2 \<ge> m_capacity m then m_capacity m * 2 else m_capacity m)"
      and ca: "m_cached ?R \<in> (if i + 1 = t then {m_cached m, 0} else {i})"
      by metis
    note p = splice_pre_facts [OF pre]
    have "m_cached ?R < m_count ?R" if "m_cached m < m_count m"
      using that c ca p(2) n by (auto split: if_splits)
    moreover have "m_cached ?R < m_count ?R" if "m_count m = 1" "f \<noteq> v2f (?es ! 0)"
    proof (rule ccontr)
      assume "\<not> m_cached ?R < m_count ?R"
      with c ca p(2) n that have i: "i = 0" "t = 1" by (auto split: if_splits)
      have E: "E = 2 ^ 64" "vb2 = 0" using p(5,13) i that n by auto
      obtain v :: u64 where v: "\<not> (unat vb \<le> unat v \<and> unat v < unat vb + unat sz)"
      proof (cases "vb = 0")
        case True
        then show ?thesis using that [of sz] by auto
      next
        case False
        then show ?thesis using that [of 0] by (auto simp: unat_eq_0)
      qed
      have "v2f_get (m_entries ?R) v = f"
        unfolding sp get_splice [OF pre] using E unat_less_top [of v] by simp
      moreover have "v2f_get ?es v = v2f (?es ! 0)"
        using n that by (simp add: v2f_get_def)
      ultimately show False
        using get_set_range [OF es n nowrap, of f v] v that by auto
    qed
    moreover have "table_ok ?R"
      using es_ok_splice [OF pre, of f] length_splice [OF pre, of f] ok sp c cp p(2,4) n
      by (auto simp: table_ok_def)
    ultimately show ?thesis by blast
  qed
  then show "table_ok ?R" "m_cached m < m_count m \<Longrightarrow> m_cached ?R < m_count ?R"
    "m_count m = 1 \<Longrightarrow> sz \<noteq> 0 \<Longrightarrow> f \<noteq> v2f (?es ! 0) \<Longrightarrow> m_cached ?R < m_count ?R"
    by blast+
qed

lemma v2f_ok_set_range:
  "v2f_ok m \<Longrightarrow> unat vb + unat sz \<le> 2 ^ 64 \<Longrightarrow> v2f_ok (v2f_map_set_range m vb sz f)"
  by (simp add: v2f_ok_alt table_ok_set_range)

subsection \<open>Initialisation\<close>

lemma table_ok_init:
  assumes "m_capacity m = 0 \<or> 4 \<le> m_capacity m"
  shows "table_ok (v2f_map_init m u)"
    and "v2f_get (m_entries (v2f_map_init m u)) v = u"
    and "m_capacity m = 0 \<or> m_cached m = 0 \<Longrightarrow> v2f_ok (v2f_map_init m u)"
  using assms by (auto simp: table_ok_def v2f_ok_def es_ok_def v2f_map_init_def Let_def bnd_def
      v2f_get_def)

subsection \<open>Looking a file range up\<close>

text \<open>The test of the loop on entry \<open>i\<close>; both ends are 64-bit sums.\<close>

definition f_range_holds :: "v2f_map \<Rightarrow> u64 \<Rightarrow> u64 \<Rightarrow> nat \<Rightarrow> bool" where
  "f_range_holds m f sz i \<longleftrightarrow>
     (let e = m_entries m ! i;
          lo = vbase e + v2f e; hi = vbase (m_entries m ! (i + 1)) + v2f e
      in v2f e AND V2F_SPECIAL = 0 \<and> lo \<le> f \<and> f < hi \<and> unat f + unat sz \<le> unat hi)"

lemma word_le_sub_iff:
  "f < hi \<Longrightarrow> (sz \<le> hi - f) \<longleftrightarrow> unat f + unat sz \<le> unat hi" for f hi :: "'a::len word"
proof -
  assume "f < hi"
  then have "unat (hi - f) = unat hi - unat f" and "unat f < unat hi"
    by (auto simp: word_less_nat_alt word_le_nat_alt intro!: unat_sub)
  then show ?thesis by (auto simp: word_le_nat_alt)
qed

lemma word_sub_less_iff:
  "f < hi \<Longrightarrow> hi - f < sz \<longleftrightarrow> \<not> unat f + unat sz \<le> unat hi" for f hi :: "'a::len word"
  using word_le_sub_iff [of f hi sz] by (auto simp: not_le)

lemma f_range_from_step:
  "f_range_from m f sz itr =
    (if itr < m_count m
     then if f_range_holds m f sz itr then Some itr else f_range_from m f sz (itr + 1)
     else None)"
  by (subst f_range_from.simps)
    (auto simp: f_range_holds_def Let_def not_less word_sub_less_iff)

lemma f_range_from_finds:
  "f_range_from m f sz itr =
     (if \<exists>i. itr \<le> i \<and> i < m_count m \<and> f_range_holds m f sz i
      then Some (LEAST i. itr \<le> i \<and> f_range_holds m f sz i) else None)"
proof (induction "m_count m - itr" arbitrary: itr rule: less_induct)
  case (less itr)
  note step = f_range_from_step [of m f sz itr]
  show ?case
  proof (cases "itr < m_count m")
    case False
    then show ?thesis by (simp add: step)
  next
    case itr: True
    show ?thesis
    proof (cases "f_range_holds m f sz itr")
      case True
      have "(LEAST i. itr \<le> i \<and> f_range_holds m f sz i) = itr"
        using True by (intro Least_equality) auto
      then show ?thesis using itr True by (auto simp: step)
    next
      case False
      have eq: "itr \<le> i \<and> f_range_holds m f sz i \<longleftrightarrow> itr + 1 \<le> i \<and> f_range_holds m f sz i" for i
        using False by (cases "i = itr") auto
      have eq': "(itr \<le> i \<and> i < m_count m \<and> f_range_holds m f sz i) \<longleftrightarrow>
        (itr + 1 \<le> i \<and> i < m_count m \<and> f_range_holds m f sz i)" for i
        using eq [of i] by blast
      show ?thesis
        unfolding eq eq' step using less [of "itr + 1"] itr False by simp
    qed
  qed
qed

lemma f_range_holds_covers:
  assumes ok: "v2f_ok m" and i: "i < m_count m" and h: "f_range_holds m f sz i"
    and k: "k < unat sz"
  shows "covers (m_entries m) (f + of_nat k - v2f (m_entries m ! i)) i"
proof -
  let ?e = "m_entries m ! i" and ?e1 = "m_entries m ! (i + 1)"
  define b where "b = bnd (m_entries m) i"
  define b1 where "b1 = bnd (m_entries m) (i + 1)"
  have es: "es_ok (m_entries m)" and n: "i + 1 < length (m_entries m)"
    using ok i by (auto simp: v2f_ok_def)
  have bb: "b < b1" unfolding b_def b1_def using bnd_less [OF es] n by simp
  have b: "unat (vbase ?e) = b" using n by (simp add: b_def bnd_def)
  have b1: "of_nat b1 = vbase ?e1"
  proof (cases "i + 1 + 1 < length (m_entries m)")
    case True then show ?thesis by (simp add: b1_def bnd_def)
  next
    case False
    then have "i + 1 = length (m_entries m) - 1" "m_entries m \<noteq> []" using n by auto
    then have "vbase ?e1 = 0" using es by (simp add: es_ok_def last_conv_nth)
    with False show ?thesis by (simp add: b1_def bnd_def)
  qed
  define lo where "lo = vbase ?e + v2f ?e"
  define hi where "hi = vbase ?e1 + v2f ?e"
  have H: "lo \<le> f" "f < hi" "unat f + unat sz \<le> unat hi"
    using h by (auto simp: f_range_holds_def Let_def lo_def hi_def)
  have b1': "b1 \<le> 2 ^ 64"
    using bnd_le [OF es, of "i + 1" "length (m_entries m) - 1"] n bnd_last [OF es]
    by (simp add: b1_def)
  have hl: "hi - lo = of_nat (b1 - b)"
  proof -
    have "of_nat (b1 - b) = (of_nat b1 - of_nat b :: u64)" using bb by (simp add: of_nat_diff)
    then show ?thesis unfolding b1 by (simp add: hi_def lo_def flip: b)
  qed
  have le: "unat hi - unat lo \<le> b1 - b"
  proof -
    have "unat (hi - lo) = unat hi - unat lo"
      using H by (intro unat_sub) auto
    moreover have "unat (of_nat (b1 - b) :: u64) \<le> b1 - b"
      by (simp add: unat_of_nat)
    ultimately show ?thesis using hl by simp
  qed
  define d where "d = unat f - unat lo + k"
  have flo: "unat lo \<le> unat f" "unat f < unat hi" using H by (auto simp: word_le_nat_alt word_less_nat_alt)
  have d: "d < b1 - b" using le flo H(3) k unfolding d_def by linarith
  have "f + of_nat k - v2f ?e = vbase ?e + of_nat d"
    using flo by (simp add: d_def of_nat_diff lo_def)
  also have "\<dots> = of_nat (b + d)" using b by (simp flip: b)
  finally have "unat (f + of_nat k - v2f ?e) = (b + d) mod 2 ^ 64"
    by (simp add: unat_of_nat flip: of_nat_add)
  moreover have "b + d < 2 ^ 64" using d b1' bb by linarith
  ultimately have "unat (f + of_nat k - v2f ?e) = b + d" by simp
  then show ?thesis using d bb n by (auto simp: covers_def b_def b1_def)
qed

subsection \<open>The interface the ELF code uses\<close>

text \<open>
  What erw relies on: \<open>set_range\<close> overwrites the addresses of the range and nothing else,
  \<open>lookup\<close> returns the current value, and both keep the table well-formed.
\<close>

locale address_map =
  fixes inv :: "'m \<Rightarrow> bool"
    and get :: "'m \<Rightarrow> u64 \<Rightarrow> u64"
    and set_range :: "'m \<Rightarrow> u64 \<Rightarrow> u64 \<Rightarrow> u64 \<Rightarrow> 'm"
    and look :: "'m \<Rightarrow> u64 \<Rightarrow> 'm \<times> u64"
  assumes inv_set: "inv m \<Longrightarrow> unat b + unat s \<le> 2 ^ 64 \<Longrightarrow> inv (set_range m b s f)"
    and get_set: "inv m \<Longrightarrow> unat b + unat s \<le> 2 ^ 64 \<Longrightarrow> get (set_range m b s f) v =
      (if unat b \<le> unat v \<and> unat v < unat b + unat s then f else get m v)"
    and inv_look: "inv m \<Longrightarrow> inv (fst (look m v))"
    and get_look: "inv m \<Longrightarrow> get (fst (look m v)) w = get m w"
    and look_get: "inv m \<Longrightarrow> snd (look m v) = get m v"
begin

text \<open>A sequence of \<open>set_range\<close> calls, the later ones winning: how segments are loaded.\<close>

definition load :: "'m \<Rightarrow> (u64 \<times> u64 \<times> u64) list \<Rightarrow> 'm" where
  "load m rs = fold (\<lambda>(b, s, f) m. set_range m b s f) rs m"

definition in_range :: "u64 \<times> u64 \<times> u64 \<Rightarrow> u64 \<Rightarrow> bool" where
  "in_range r v = (case r of (b, s, f) \<Rightarrow> unat b \<le> unat v \<and> unat v < unat b + unat s)"

definition nowraps :: "(u64 \<times> u64 \<times> u64) list \<Rightarrow> bool" where
  "nowraps rs = list_all (\<lambda>(b, s, f). unat b + unat s \<le> 2 ^ 64) rs"

lemma inv_load: "inv m \<Longrightarrow> nowraps rs \<Longrightarrow> inv (load m rs)"
  by (induction rs arbitrary: m) (auto simp: load_def nowraps_def inv_set)

lemma get_load:
  "inv m \<Longrightarrow> nowraps rs \<Longrightarrow>
   get (load m rs) v = (case filter (\<lambda>r. in_range r v) rs of
     [] \<Rightarrow> get m v | r # rs' \<Rightarrow> snd (snd (last (r # rs'))))"
proof (induction rs arbitrary: m)
  case Nil
  then show ?case by (simp add: load_def)
next
  case (Cons r rs)
  obtain b s f where r: "r = (b, s, f)" by (cases r)
  have "load m (r # rs) = load (set_range m b s f) rs" by (simp add: load_def r)
  moreover have "get (load (set_range m b s f) rs) v = (case filter (\<lambda>r. in_range r v) rs of
     [] \<Rightarrow> get (set_range m b s f) v | r # rs' \<Rightarrow> snd (snd (last (r # rs'))))"
    using Cons by (intro Cons.IH) (auto simp: nowraps_def r inv_set)
  ultimately show ?case
    using Cons.prems by (auto simp: r nowraps_def get_set in_range_def split: list.splits)
qed

lemma look_load:
  "inv m \<Longrightarrow> nowraps rs \<Longrightarrow> in_range (b, s, f) v \<Longrightarrow> (\<And>r. r \<in> set ss \<Longrightarrow> \<not> in_range r v) \<Longrightarrow>
   rs = qs @ (b, s, f) # ss \<Longrightarrow> snd (look (load m rs) v) = f"
  by (cases "filter (\<lambda>r. in_range r v) qs")
    (auto simp: look_get inv_load get_load filter_empty_conv)

end

definition v2f_map_get :: "v2f_map \<Rightarrow> u64 \<Rightarrow> u64" where
  "v2f_map_get m v = v2f_get (m_entries m) v"

definition v2f_look :: "v2f_map \<Rightarrow> u64 \<Rightarrow> v2f_map \<times> u64" where
  "v2f_look m v = (let (m', i) = v2f_map_lookup m v in (m', v2f (m_entries m' ! i)))"

lemma v2f_look_simps:
  assumes "v2f_ok m"
  shows "v2f_ok (fst (v2f_look m v))" and "m_entries (fst (v2f_look m v)) = m_entries m"
    and "snd (v2f_look m v) = v2f_map_get m v"
proof -
  have es: "es_ok (m_entries m)" using assms by (simp add: v2f_ok_def)
  obtain m' i where mi: "v2f_map_lookup m v = (m', i)" by force
  note c = v2f_map_lookup_covers [OF assms, of v, unfolded mi fst_conv snd_conv]
  show "v2f_ok (fst (v2f_look m v))"
    using v2f_ok_lookup [OF assms, of v] by (simp add: v2f_look_def mi)
  show "m_entries (fst (v2f_look m v)) = m_entries m"
    using c by (simp add: v2f_look_def mi)
  show "snd (v2f_look m v) = v2f_map_get m v"
    using c covers_get [OF es c(1)] by (simp add: v2f_look_def mi v2f_map_get_def)
qed

interpretation v2f: address_map v2f_ok v2f_map_get v2f_map_set_range v2f_look
proof (unfold_locales, goal_cases)
  case (2 m b s f v)
  then show ?case
    unfolding v2f_map_get_def v2f_ok_def by (intro get_set_range) simp_all
qed (simp_all add: v2f_ok_set_range v2f_look_simps v2f_map_get_def)

subsection \<open>Properties\<close>

text \<open>
  C2: setting a range changes the map exactly on the addresses of the range, whatever
  merging of neighbours the array goes through.
\<close>

theorem v2f_map_set_range_correct:
  assumes "v2f_ok m" and "unat vb + unat sz \<le> 2 ^ 64"
  shows "v2f_map_get (v2f_map_set_range m vb sz f) v =
    (if unat vb \<le> unat v \<and> unat v < unat vb + unat sz then f else v2f_map_get m v)"
  using assms by (rule v2f.get_set)

text \<open>A concrete map for the witnesses: two segments loaded over an unmapped space.\<close>

definition v2f_example :: v2f_map where
  "v2f_example = v2f_map_set_range (v2f_map_set_range (v2f_map_init v2f_zero V2F_UNMAPPED)
     0x1000 0x2000 0) 0x3000 0x1000 0x100"

lemma v2f_example_ok: "v2f_ok v2f_example"
  unfolding v2f_example_def
  by (intro v2f_ok_set_range table_ok_init(3)) (simp_all add: v2f_zero_def)

lemma v2f_map_set_range_correct_witness:
  "v2f_map_get (v2f_map_set_range v2f_example 0x2000 0x1800 8) 0x2fff = 8 \<and>
   v2f_map_get (v2f_map_set_range v2f_example 0x2000 0x1800 8) 0x3800 = v2f_map_get v2f_example 0x3800"
  using v2f_map_set_range_correct [OF v2f_example_ok, where vb = "0x2000" and sz = "0x1800" and f = "8"]
  by simp

text \<open>
  Setting a range keeps the array sorted and strictly increasing, its sentinel, its
  cached entry in range, and the allocated capacity large enough for every entry written.
\<close>

theorem v2f_map_set_range_invariant:
  assumes "v2f_ok m" and "unat vb + unat sz \<le> 2 ^ 64"
  shows "v2f_ok (v2f_map_set_range m vb sz f)"
  using assms by (rule v2f.inv_set)

lemma v2f_map_set_range_invariant_witness:
  "v2f_ok (v2f_map_set_range v2f_example 0xfffffffffffff000 0x1000 16)"
  by (rule v2f_map_set_range_invariant [OF v2f_example_ok]) simp

text \<open>
  Looking an address up returns the index of the entry that covers it, which holds the
  map's value there; only the cached entry changes and it stays in range.
\<close>

theorem v2f_map_lookup_correct:
  assumes "v2f_ok m" and "v2f_map_lookup m v = (m', i)"
  shows "i < m_count m \<and> v2f (m_entries m' ! i) = v2f_map_get m v \<and>
    covers (m_entries m) v i \<and> m' = m\<lparr>m_cached := i\<rparr> \<and> v2f_ok m'"
proof -
  note c = v2f_map_lookup_covers [OF assms(1), of v, unfolded assms(2) fst_conv snd_conv]
  have ok: "v2f_ok m'" using v2f_ok_lookup [OF assms(1), of v] by (simp add: assms(2))
  have "i < m_count m" using ok c(2) by (simp add: v2f_ok_def)
  moreover have "v2f (m_entries m' ! i) = v2f_map_get m v"
    using c covers_get [of "m_entries m" v i] assms(1) by (simp add: v2f_ok_def v2f_map_get_def)
  ultimately show ?thesis using c ok by simp
qed

lemma v2f_map_lookup_correct_witness:
  "v2f (m_entries v2f_example ! snd (v2f_map_lookup v2f_example 0x3005)) = v2f_map_get v2f_example 0x3005 \<and>
   snd (v2f_map_lookup v2f_example 0x3005) < m_count v2f_example"
proof -
  obtain m' i where mi: "v2f_map_lookup v2f_example 0x3005 = (m', i)" by force
  show ?thesis
    using v2f_map_lookup_correct [OF v2f_example_ok mi] mi by auto
qed

text \<open>
  What it means that entry \<open>i\<close> maps a file range: it is not special, and every byte of the range, or
  the place itself when the range is empty, is where the map sends some address of the entry.
\<close>

definition maps_f_range :: "v2f_map \<Rightarrow> u64 \<Rightarrow> u64 \<Rightarrow> nat \<Rightarrow> bool" where
  "maps_f_range m f sz i \<longleftrightarrow> v2f (m_entries m ! i) AND V2F_SPECIAL = 0 \<and>
     (\<forall>k < max 1 (unat sz). \<exists>v. covers (m_entries m) v i \<and> v + v2f_map_get m v = f + of_nat k)"

text \<open>
  The file interval of entry \<open>i\<close> ends below \<open>2^64\<close>, as that of every entry that stands for bytes
  of a real file does; the code adds both ends in 64 bits.
\<close>

definition f_ends_below :: "v2f_map \<Rightarrow> nat \<Rightarrow> bool" where
  "f_ends_below m i \<longleftrightarrow>
     unat (vbase (m_entries m ! i) + v2f (m_entries m ! i)) + (bnd (m_entries m) (i + 1) - bnd (m_entries m) i) < 2 ^ 64"

lemma u64_of_nat: "n < 2 ^ 64 \<Longrightarrow> unat (of_nat n :: u64) = n"
  by (simp only: unat_of_nat take_bit_nat_eq_self_iff) simp

lemma covers_f_iff:
  assumes ok: "v2f_ok m" and i: "i < m_count m"
    and bounded: "f_ends_below m i"
  shows "(\<exists>v. covers (m_entries m) v i \<and> v + v2f_map_get m v = p) \<longleftrightarrow>
    unat (vbase (m_entries m ! i) + v2f (m_entries m ! i)) \<le> unat p \<and>
    unat p < unat (vbase (m_entries m ! i) + v2f (m_entries m ! i)) + (bnd (m_entries m) (i + 1) - bnd (m_entries m) i)"
proof -
  let ?e = "m_entries m ! i"
  define b where "b = bnd (m_entries m) i"
  define b1 where "b1 = bnd (m_entries m) (i + 1)"
  define lo where "lo = unat (vbase ?e + v2f ?e)"
  have es: "es_ok (m_entries m)" and n: "i + 1 < length (m_entries m)" using ok i by (auto simp: v2f_ok_def)
  have b: "unat (vbase ?e) = b" using n by (simp add: b_def bnd_def)
  have bb: "b < b1" unfolding b_def b1_def using bnd_less [OF es] n by simp
  have b1: "b1 \<le> 2 ^ 64"
    using bnd_le [OF es, of "i + 1" "length (m_entries m) - 1"] n bnd_last [OF es] by (simp add: b1_def)
  have get: "v2f_map_get m v = v2f ?e" if "covers (m_entries m) v i" for v
    using covers_get [OF es that] by (simp add: v2f_map_get_def)
  have place: "unat (of_nat (b + d) + v2f ?e) = lo + d" if "d < b1 - b" for d
  proof -
    have "of_nat (b + d) + v2f ?e = (vbase ?e + v2f ?e) + of_nat d" by (simp flip: b)
    also have "\<dots> = of_nat (lo + d)" by (simp add: lo_def)
    finally have e: "of_nat (b + d) + v2f ?e = of_nat (lo + d)" .
    have "lo + d < 2 ^ 64" using that bounded by (simp add: f_ends_below_def b_def b1_def lo_def)
    then show ?thesis unfolding e by (rule u64_of_nat)
  qed
  show ?thesis unfolding lo_def [symmetric] b_def [symmetric] b1_def [symmetric]
  proof
    assume "\<exists>v. covers (m_entries m) v i \<and> v + v2f_map_get m v = p"
    then obtain v where v: "covers (m_entries m) v i" "v + v2f ?e = p" using get by auto
    define d where "d = unat v - b"
    have vd: "unat v = b + d" and "d < b1 - b" using v(1) by (auto simp: covers_def d_def b_def b1_def)
    have "v = of_nat (b + d)" by (simp flip: vd)
    then have "unat p = lo + d" using place [OF \<open>d < b1 - b\<close>] v(2) by simp
    then show "lo \<le> unat p \<and> unat p < lo + (b1 - b)" using \<open>d < b1 - b\<close> by simp
  next
    assume p: "lo \<le> unat p \<and> unat p < lo + (b1 - b)"
    define d where "d = unat p - lo"
    have d: "d < b1 - b" using p by (auto simp: d_def)
    define v where "v = (of_nat (b + d) :: u64)"
    have "unat v = b + d" unfolding v_def by (rule u64_of_nat) (use d b1 in linarith)
    then have c: "covers (m_entries m) v i" using d n by (simp add: covers_def b_def b1_def)
    have "unat (v + v2f ?e) = unat p" using place [OF d] p by (simp add: v_def d_def)
    then have "v + v2f ?e = p" by (simp add: word_unat_eq_iff)
    then show "\<exists>v. covers (m_entries m) v i \<and> v + v2f_map_get m v = p" using c get by auto
  qed
qed

lemma f_range_holds_maps:
  assumes ok: "v2f_ok m" and i: "i < m_count m"
  shows "f_range_holds m f sz i \<longleftrightarrow> maps_f_range m f sz i \<and> f_ends_below m i"
proof (cases "v2f (m_entries m ! i) AND V2F_SPECIAL = 0")
  case False
  then show ?thesis by (simp add: f_range_holds_def maps_f_range_def)
next
  case special: True
  let ?e = "m_entries m ! i" and ?e1 = "m_entries m ! (i + 1)"
  define len where "len = bnd (m_entries m) (i + 1) - bnd (m_entries m) i"
  define lo where "lo = unat (vbase ?e + v2f ?e)"
  have es: "es_ok (m_entries m)" and n: "i + 1 < length (m_entries m)" using ok i by (auto simp: v2f_ok_def)
  have b: "vbase ?e = of_nat (bnd (m_entries m) i)" using n by (simp add: bnd_def)
  have b1: "vbase ?e1 = of_nat (bnd (m_entries m) (i + 1))"
  proof (cases "i + 1 + 1 < length (m_entries m)")
    case True then show ?thesis by (simp add: bnd_def)
  next
    case False
    then have "i + 1 = length (m_entries m) - 1" "m_entries m \<noteq> []" using n by auto
    then have "vbase ?e1 = 0" using es by (simp add: es_ok_def last_conv_nth)
    with False show ?thesis by (simp add: bnd_def)
  qed
  have "bnd (m_entries m) i < bnd (m_entries m) (i + 1)" using bnd_less [OF es] n by simp
  then have "vbase ?e1 = vbase ?e + of_nat len" unfolding b b1 len_def by (simp add: of_nat_diff)
  then have hi: "vbase ?e1 + v2f ?e = of_nat (lo + len)" by (simp add: lo_def)
  have len: "len \<le> 2 ^ 64"
  proof -
    have "i + 1 \<le> length (m_entries m) - 1" "length (m_entries m) - 1 < length (m_entries m)" using n by auto
    from bnd_le [OF es this] show ?thesis using bnd_last [OF es] by (simp add: len_def)
  qed
  show ?thesis
  proof (cases "lo + len < 2 ^ 64")
    case False
    have "unat (vbase ?e1 + v2f ?e) = (lo + len) mod 2 ^ 64" by (simp only: hi unat_of_nat) (simp add: take_bit_eq_mod)
    also have "\<dots> \<le> lo"
    proof -
      have "lo + len - 2 ^ 64 < 2 ^ 64" using len unat_less_pow [of "vbase ?e + v2f ?e"] by (simp add: lo_def)
      then have "(lo + len) mod 2 ^ 64 = lo + len - 2 ^ 64" using False by (simp add: le_mod_geq)
      then show ?thesis using len by linarith
    qed
    finally have "vbase ?e1 + v2f ?e \<le> vbase ?e + v2f ?e" by (simp add: word_le_nat_alt lo_def)
    then show ?thesis using False by (auto simp: f_range_holds_def f_ends_below_def Let_def lo_def len_def)
  next
    case below: True
    then have hi: "unat (vbase ?e1 + v2f ?e) = lo + len" unfolding hi by (rule u64_of_nat)
    have ends: "f_ends_below m i" using below by (simp add: f_ends_below_def lo_def len_def)
    have maps: "(\<exists>v. covers (m_entries m) v i \<and> v + v2f_map_get m v = p) \<longleftrightarrow> lo \<le> unat p \<and> unat p < lo + len" for p
      unfolding lo_def len_def by (rule covers_f_iff [OF ok i ends])
    have holds: "f_range_holds m f sz i \<longleftrightarrow> lo \<le> unat f \<and> unat f < lo + len \<and> unat f + unat sz \<le> lo + len"
      unfolding f_range_holds_def Let_def word_le_nat_alt word_less_nat_alt hi lo_def [symmetric] using special by simp
    have sum: "unat (f + of_nat k) = unat f + k" if "unat f + k \<le> lo + len" for k
    proof -
      have "f + of_nat k = of_nat (unat f + k)" by simp
      then show ?thesis using that below by (simp only: u64_of_nat)
    qed
    let ?in = "\<lambda>k. lo \<le> unat (f + of_nat k) \<and> unat (f + of_nat k) < lo + len"
    have "(lo \<le> unat f \<and> unat f < lo + len \<and> unat f + unat sz \<le> lo + len) \<longleftrightarrow> (\<forall>k < max 1 (unat sz). ?in k)"
    proof
      assume h: "lo \<le> unat f \<and> unat f < lo + len \<and> unat f + unat sz \<le> lo + len"
      show "\<forall>k < max 1 (unat sz). ?in k"
      proof (intro allI impI)
        fix k assume k: "k < max 1 (unat sz)"
        then have "k = 0 \<or> unat f + k < lo + len" using h by auto
        then show "?in k" using h sum [of k] by auto
      qed
    next
      assume h: "\<forall>k < max 1 (unat sz). ?in k"
      from h have "?in 0" by (metis less_one max_less_iff_conj max.strict_coboundedI1)
      then have 0: "lo \<le> unat f" "unat f < lo + len" by simp_all
      have "unat f + unat sz \<le> lo + len"
      proof (rule ccontr)
        assume "\<not> unat f + unat sz \<le> lo + len"
        then have "lo + len - unat f < max 1 (unat sz)" using 0 by linarith
        then have "?in (lo + len - unat f)" using h by blast
        then show False using sum [of "lo + len - unat f"] 0 by simp
      qed
      with 0 show "lo \<le> unat f \<and> unat f < lo + len \<and> unat f + unat sz \<le> lo + len" by simp
    qed
    then show ?thesis unfolding holds maps_f_range_def maps using special ends by simp
  qed
qed

text \<open>
  C3: \<open>v2f_map_lookup_f_range\<close> answers the first entry that maps the file range, among the entries
  whose file interval ends below \<open>2^64\<close>: every byte of the range is where the map sends an address
  of the entry, and the address the entry gives for it maps back to the byte. \<open>None\<close> means that
  no such entry maps the range.
\<close>

theorem v2f_map_lookup_f_range_correct:
  assumes ok: "v2f_ok m"
  shows "case v2f_map_lookup_f_range m f sz of
     Some i \<Rightarrow> i < m_count m \<and> maps_f_range m f sz i \<and> (\<forall>j < i. maps_f_range m f sz j \<longrightarrow> \<not> f_ends_below m j) \<and>
       (\<forall>k < unat sz. let a = f + of_nat k - v2f (m_entries m ! i)
                      in a + v2f_map_get m a = f + of_nat k)
   | None \<Rightarrow> \<forall>j < m_count m. maps_f_range m f sz j \<longrightarrow> \<not> f_ends_below m j"
proof (cases "\<exists>i. i < m_count m \<and> f_range_holds m f sz i")
  case False
  then show ?thesis using f_range_holds_maps [OF ok]
    by (auto simp: v2f_map_lookup_f_range_def f_range_from_finds [of m f sz 0])
next
  case True
  then obtain i where i: "i < m_count m" "f_range_holds m f sz i" by blast
  define l where "l = (LEAST i. f_range_holds m f sz i)"
  have l: "f_range_holds m f sz l" "l \<le> i" "\<forall>j < l. \<not> f_range_holds m f sz j"
    unfolding l_def using i(2) by (auto intro: LeastI Least_le dest: not_less_Least)
  then have "maps_f_range m f sz l" "\<forall>j < l. maps_f_range m f sz j \<longrightarrow> \<not> f_ends_below m j"
    using f_range_holds_maps [OF ok] i(1) by auto
  moreover have es: "es_ok (m_entries m)" using ok by (simp add: v2f_ok_def)
  have "let a = f + of_nat k - v2f (m_entries m ! l) in a + v2f_map_get m a = f + of_nat k"
    if "k < unat sz" for k
    using covers_get [OF es f_range_holds_covers [OF ok _ l(1) that]] l(2) i(1)
    by (simp add: v2f_map_get_def)
  ultimately show ?thesis
    using l i True
    by (auto simp: v2f_map_lookup_f_range_def f_range_from_finds [of m f sz 0] l_def [symmetric])
qed

lemma v2f_map_lookup_f_range_correct_witness:
  "v2f_map_lookup_f_range v2f_example 0x1800 0x100 = Some 1 \<and> maps_f_range v2f_example 0x1800 0x100 1"
proof -
  have "v2f_map_lookup_f_range v2f_example 0x1800 0x100 = Some 1"
    by code_simp
  then show ?thesis
    using v2f_map_lookup_f_range_correct [OF v2f_example_ok, where f = "0x1800" and sz = "0x100"] by simp
qed

text \<open>
  An entry whose file interval ends at \<open>2^64\<close> maps its bytes, but the code does not find them: the
  upper end wraps to 0. A map that sends every address to itself is an example.
\<close>

lemma v2f_map_lookup_f_range_wraps:
  "v2f_map_lookup_f_range (v2f_map_init v2f_zero 0) 0x10 1 = None" "v2f_map_get (v2f_map_init v2f_zero 0) 0x10 = 0"
  by code_simp+

text \<open>
  A map is usable again after \<open>v2f_map_init\<close> and one effective \<open>v2f_map_set_range\<close>,
  even when the map had been used before and its cached entry is stale.
\<close>

theorem v2f_map_reinit:
  assumes "m_capacity m = 0 \<or> 4 \<le> m_capacity m" and "f \<noteq> u" and "sz \<noteq> 0"
    and "unat vb + unat sz \<le> 2 ^ 64"
  shows "v2f_ok (v2f_map_set_range (v2f_map_init m u) vb sz f)"
proof -
  have "m_count (v2f_map_init m u) = 1" "v2f (m_entries (v2f_map_init m u) ! 0) = u"
    by (simp_all add: v2f_map_init_def Let_def)
  with assms table_ok_set_range [OF table_ok_init(1) [OF assms(1)] assms(4)] show ?thesis
    by (simp add: v2f_ok_alt)
qed

lemma v2f_map_reinit_witness:
  "v2f_ok (v2f_map_set_range (v2f_map_init (v2f_example\<lparr>m_cached := 3\<rparr>) 2) 0x1000 0x1000 0)"
proof (rule v2f_map_reinit)
  show "m_capacity (v2f_example\<lparr>m_cached := 3\<rparr>) = 0 \<or> 4 \<le> m_capacity (v2f_example\<lparr>m_cached := 3\<rparr>)"
    using v2f_example_ok by (simp add: v2f_ok_def)
qed simp_all

end
