(* ===== verification/RobinHood.thy ===== *)
theory RobinHood
  imports Prelude "HOL-Library.Multiset"
begin

section \<open>The Robin Hood tables of uuht.c and sht.c\<close>

text \<open>
  Both hash tables keep an array of 64-bit slots, zero when empty, with the hash in the low
  32 bits and the value in the high ones, and both use the same probing loop and the same
  static function \<open>reinsert\<close>. An array access outside the table is the result \<open>None\<close>, as is
  a loop that does not end.
\<close>

definition slot_lo :: "u64 \<Rightarrow> u32" where
  "slot_lo slot = ucast slot"

definition slot_hi :: "u64 \<Rightarrow> u32" where
  "slot_hi slot = ucast (drop_bit 32 slot)"

definition mk_slot :: "u32 \<Rightarrow> u32 \<Rightarrow> u64" where
  "mk_slot k v = ucast k OR push_bit 32 (ucast v)"

text \<open>
  The exits of the probing loops: the empty slot that ends the probe, a slot with the hash
  looked for, or a slot that is closer to its home than the probe is.
\<close>

datatype rh_result = Empty u32 | Hit u32 u64 | Richer u32 u64 u32

text \<open>
  \<open>eq\<close> is the test of an equal hash: always true in uuht, where hashes are keys, and the
  comparison of the stored key in sht, where it reads memory and may fail.
\<close>

partial_function (option) rh_probe ::
    "(u64 \<Rightarrow> bool option) \<Rightarrow> u64 list \<Rightarrow> u32 \<Rightarrow> u32 \<Rightarrow> u32 \<Rightarrow> rh_result option" where
  "rh_probe eq table msk k d =
    (let idx = (k + d) AND msk in
     if unat idx \<ge> length table then None
     else let slot = table ! unat idx in
       if slot = 0 then Some (Empty idx)
       else if slot_lo slot = k then
         (case eq slot of
            None \<Rightarrow> None
          | Some same \<Rightarrow>
              if same then Some (Hit idx slot) else rh_probe eq table msk k (d + 1))
       else let d2 = (idx - slot_lo slot) AND msk in
         if d2 < d then Some (Richer idx slot d2)
         else rh_probe eq table msk k (d + 1))"

partial_function (option) reinsert ::
    "u64 list \<Rightarrow> u32 \<Rightarrow> u64 \<Rightarrow> u32 \<Rightarrow> u64 list option" where
  "reinsert table msk hv d =
    (let idx = (slot_lo hv + d) AND msk in
     if unat idx \<ge> length table then None
     else let slot = table ! unat idx in
       if slot = 0 then Some (table[unat idx := hv])
       else let d2 = (idx - slot_lo slot) AND msk in
         if d2 < d then reinsert (table[unat idx := hv]) msk slot (d2 + 1)
         else reinsert table msk hv (d + 1))"

text \<open>The loop of the two \<open>rehash\<close> functions over the slots of the old table.\<close>

fun reinsert_all :: "u64 list \<Rightarrow> u32 \<Rightarrow> u64 list \<Rightarrow> u64 list option" where
  "reinsert_all table msk [] = Some table"
| "reinsert_all table msk (slot # slots) =
    (if slot = 0 then reinsert_all table msk slots
     else case reinsert table msk slot 0 of
            None \<Rightarrow> None
          | Some table' \<Rightarrow> reinsert_all table' msk slots)"

text \<open>
  The body the two \<open>rehash\<close> functions share: a zeroed table of twice the size that takes
  every slot of the old one.
\<close>

definition rehash_table :: "u64 list \<Rightarrow> u32 \<Rightarrow> (u64 list \<times> u32) option" where
  "rehash_table old_table old_mask =
    (let new_mask = old_mask * 2 + 1;
         new_table = replicate (unat new_mask + 1) 0
     in if length old_table < unat old_mask + 1 then None
        else case reinsert_all new_table new_mask (take (unat old_mask + 1) old_table) of
               None \<Rightarrow> None
             | Some table \<Rightarrow> Some (table, new_mask))"

text \<open>The load test \<open>count * 4ull >= mask * 3ull\<close> that follows every insertion.\<close>

definition load_full :: "u32 \<Rightarrow> u32 \<Rightarrow> bool" where
  "load_full cnt msk \<longleftrightarrow> (ucast cnt :: u64) * 4 \<ge> ucast msk * 3"

subsection \<open>Slots\<close>

lemma slot_lo_mk [simp]: "slot_lo (mk_slot k v) = k"
  unfolding slot_lo_def mk_slot_def
  by (rule bit_word_eqI) (auto simp: bit_simps)

lemma slot_hi_mk [simp]: "slot_hi (mk_slot k v) = v"
  unfolding slot_hi_def mk_slot_def
  by (rule bit_word_eqI) (auto simp: bit_simps dest: bit_imp_le_length)

lemma mk_slot_lo_hi [simp]: "mk_slot (slot_lo s) (slot_hi s) = s"
  unfolding slot_hi_def slot_lo_def mk_slot_def
  by (rule bit_word_eqI) (auto simp: bit_simps)

lemma mk_slot_eq_0 [simp]: "mk_slot k v = 0 \<longleftrightarrow> k = 0 \<and> v = 0"
proof
  assume "mk_slot k v = 0"
  then have "slot_lo (mk_slot k v) = 0" "slot_hi (mk_slot k v) = 0"
    by (simp_all add: slot_lo_def slot_hi_def)
  then show "k = 0 \<and> v = 0" by simp
qed (simp add: mk_slot_def)

lemma or_eq_0 [simp]: "(k :: u32) OR v = 0 \<longleftrightarrow> k = 0 \<and> v = 0"
  by (rule or_eq_0_iff)

subsection \<open>Positions and distances as natural numbers\<close>

definition pos :: "nat \<Rightarrow> nat \<Rightarrow> nat \<Rightarrow> nat" where
  "pos n h d = (h + d) mod n"

definition dist :: "nat \<Rightarrow> nat \<Rightarrow> nat \<Rightarrow> nat" where
  "dist n i h = (i + (n - h mod n)) mod n"

definition home :: "u64 \<Rightarrow> nat" where
  "home s = unat (slot_lo s)"

lemma pos_less [simp]: "0 < n \<Longrightarrow> pos n h d < n"
  by (simp add: pos_def)

lemma pos_less_length [simp]: "T \<noteq> [] \<Longrightarrow> pos (length T) h d < length T"
  by simp

lemma dist_less [simp]: "0 < n \<Longrightarrow> dist n i h < n"
  by (simp add: dist_def)

lemma pos_dist: "i < n \<Longrightarrow> pos n h (dist n i h) = i"
proof -
  assume i: "i < n"
  have "pos n h (dist n i h) = (h mod n + (i + (n - h mod n))) mod n"
    by (simp add: pos_def dist_def mod_simps)
  also have "h mod n + (i + (n - h mod n)) = i + n"
    using i mod_less_divisor [of n h] by linarith
  finally show ?thesis using i by simp
qed

lemma dist_pos: "d < n \<Longrightarrow> dist n (pos n h d) h = d"
proof -
  assume d: "d < n"
  have "dist n (pos n h d) h = ((h mod n + d) mod n + (n - h mod n)) mod n"
    unfolding pos_def dist_def by (subst mod_add_left_eq) (rule refl)
  also have "\<dots> = (h mod n + d + (n - h mod n)) mod n"
    by (rule mod_add_left_eq)
  also have "h mod n + d + (n - h mod n) = d + n"
    using d mod_less_divisor [of n h] by simp
  finally show ?thesis using d by simp
qed

lemma pos_Suc: "pos n h (Suc d) = Suc (pos n h d) mod n"
  by (simp add: pos_def mod_simps)

lemma Suc_mod_cancel: "a < n \<Longrightarrow> b < n \<Longrightarrow> Suc a mod n = Suc b mod n \<Longrightarrow> a = b"
  by (auto simp: mod_Suc split: if_splits)

lemma pos_pred_eq:
  "0 < n \<Longrightarrow> pos n h (Suc d) = pos n h' (Suc d') \<Longrightarrow> pos n h d = pos n h' d'"
  unfolding pos_Suc by (rule Suc_mod_cancel) simp_all

lemma pos_surj:
  assumes "i < n"
  obtains d where "d < n" "pos n h d = i"
  using pos_dist [OF assms, of h] dist_less [of n i h] assms by fastforce

subsection \<open>The invariant\<close>

text \<open>
  \<open>reach T i\<close> is how far from home a slot may sit at the position after \<open>i\<close>; \<open>carry T h d\<close>
  says that a probe for home \<open>h\<close> may have gone \<open>d\<close> steps, and \<open>RH\<close> that every slot sits
  where its probe finds it.
\<close>

definition reach :: "u64 list \<Rightarrow> nat \<Rightarrow> nat" where
  "reach T i = (if T ! i = 0 then 0 else Suc (dist (length T) i (home (T ! i))))"

definition carry :: "u64 list \<Rightarrow> nat \<Rightarrow> nat \<Rightarrow> bool" where
  "carry T h d \<longleftrightarrow> d = 0 \<or> d \<le> reach T (pos (length T) h (d - 1))"

definition RH :: "u64 list \<Rightarrow> bool" where
  "RH T \<longleftrightarrow> (\<forall>j < length T. T ! j \<noteq> 0 \<longrightarrow>
     carry T (home (T ! j)) (dist (length T) j (home (T ! j))))"

lemma carry_0 [simp]: "carry T h 0"
  by (simp add: carry_def)

lemma carry_path:
  assumes "RH T" and "carry T h d" and "e < d" and n: "0 < length T"
  shows "Suc e \<le> reach T (pos (length T) h e)"
  using assms(2,3)
proof (induction d)
  case (Suc d)
  let ?n = "length T"
  define i where "i = pos ?n h d"
  have r: "Suc d \<le> reach T i" using Suc.prems by (simp add: carry_def i_def)
  show ?case
  proof (cases "e = d")
    case False
    with Suc.prems have "e < d" by simp
    have nz: "T ! i \<noteq> 0" and D: "d \<le> dist ?n i (home (T ! i))"
      using r by (auto simp: reach_def split: if_splits)
    have i: "i < ?n" using n by (simp add: i_def)
    let ?h' = "home (T ! i)" and ?D = "dist ?n i (home (T ! i))"
    have c': "carry T ?h' ?D" using assms(1) nz i by (simp add: RH_def)
    have D0: "?D = Suc (?D - 1)" "d = Suc (d - 1)" using D \<open>e < d\<close> by auto
    have "pos ?n ?h' (Suc (?D - 1)) = pos ?n h (Suc (d - 1))"
      using pos_dist [OF i, of ?h'] D0 by (simp add: i_def)
    then have "pos ?n ?h' (?D - 1) = pos ?n h (d - 1)"
      using n by (rule pos_pred_eq [rotated])
    then have "carry T h d" using c' D D0 by (auto simp: carry_def)
    then show ?thesis using \<open>e < d\<close> by (rule Suc.IH)
  qed (use r in \<open>simp add: i_def\<close>)
qed simp

lemma carry_less:
  assumes "RH T" and "0 \<in> set T" and "carry T h d"
  shows "d < length T"
proof (rule ccontr)
  assume "\<not> d < length T"
  from assms(2) obtain i where i: "i < length T" "T ! i = 0"
    by (auto simp: in_set_conv_nth)
  from pos_surj [OF i(1)] obtain e where e: "e < length T" "pos (length T) h e = i" .
  have "e < d" "0 < length T" using e \<open>\<not> d < length T\<close> by linarith+
  then have "Suc e \<le> reach T i" using carry_path [OF assms(1,3)] e(2) by blast
  with i show False by (simp add: reach_def)
qed

lemma carry_Suc:
  "carry T h d \<Longrightarrow> Suc d \<le> reach T (pos (length T) h d) \<Longrightarrow> carry T h (Suc d)"
  by (simp add: carry_def)

text \<open>A probe that may stop after \<open>d\<close> steps has passed every slot with its hash.\<close>

lemma stop_absent:
  assumes "RH T" and "reach T (pos (length T) h d) \<le> d"
    and "j < length T" and "T ! j \<noteq> 0" and "home (T ! j) = h"
  obtains e where "e < d" "j = pos (length T) h e"
proof -
  let ?D = "dist (length T) j h"
  have n: "0 < length T" using assms(3) by linarith
  have c: "carry T h ?D" using assms by (auto simp: RH_def)
  have j: "pos (length T) h ?D = j" using assms(3) by (rule pos_dist)
  have "\<not> d < ?D" using carry_path [OF assms(1) c _ n] assms(2) by fastforce
  moreover have "?D \<noteq> d" using assms j by (auto simp: reach_def)
  ultimately have "?D < d" by simp
  then show thesis using j by (auto intro: that)
qed

lemma reach_update:
  assumes "i = pos (length T) (home hv) d" and "d < length T" and "hv \<noteq> 0"
  shows "reach (T[i := hv]) i = Suc d"
proof -
  have "0 < length T" using assms(2) by linarith
  then have "i < length T" unfolding assms(1) by (rule pos_less)
  then show ?thesis using assms dist_pos [OF assms(2)] by (simp add: reach_def)
qed

lemma RH_update:
  assumes "RH T" and "i = pos (length T) (home hv) d" and "d < length T" and "hv \<noteq> 0"
    and "carry T (home hv) d" and "reach T i \<le> Suc d"
  shows "RH (T[i := hv])" and "carry T h e \<Longrightarrow> carry (T[i := hv]) h e"
proof -
  have mono: "reach T j \<le> reach (T[i := hv]) j" for j
    using assms(6) reach_update [OF assms(2-4)]
    by (cases "j = i") (auto simp: reach_def)
  then show carry: "carry T h e \<Longrightarrow> carry (T[i := hv]) h e" for h e
    by (auto simp: carry_def dest: order_trans)
  show "RH (T[i := hv])"
    unfolding RH_def
  proof (intro allI impI)
    fix j assume j: "j < length (T[i := hv])" "T[i := hv] ! j \<noteq> 0"
    show "carry (T[i := hv]) (home (T[i := hv] ! j)) (dist (length (T[i := hv])) j (home (T[i := hv] ! j)))"
    proof (cases "j = i")
      case True
      then show ?thesis using j assms(2,5) dist_pos [OF assms(3)] carry by simp
    next
      case False
      then show ?thesis using j assms(1) carry by (simp add: RH_def)
    qed
  qed
qed


lemma RH_replace:
  assumes "RH T" and "i < length T" and "T ! i \<noteq> 0" and "new \<noteq> 0" and "home new = home (T ! i)"
  shows "RH (T[i := new])"
proof -
  have r: "reach (T[i := new]) j = reach T j" for j
    using assms by (cases "j = i") (auto simp: reach_def)
  have "carry (T[i := new]) h e = carry T h e" for h e
    by (simp add: carry_def r)
  then show ?thesis
    unfolding RH_def
    using assms by (auto simp: RH_def nth_list_update)
qed

subsection \<open>The word computations of the loops\<close>

text \<open>
  A table of \<open>2^b\<close> slots, whose mask is \<open>2^b - 1\<close>: masking a 32-bit sum or difference gives
  the position or the distance.
\<close>

definition table_size :: "u64 list \<Rightarrow> u32 \<Rightarrow> bool" where
  "table_size T msk \<longleftrightarrow> (\<exists>b \<le> 32. msk = Bit_Operations.mask b \<and> length T = 2 ^ b)"

lemma table_size_update [simp]: "table_size (T[i := x]) msk = table_size T msk"
  by (simp add: table_size_def)

lemma unat_and_mask: "b \<le> 32 \<Longrightarrow> unat (w AND Bit_Operations.mask b) = unat w mod 2 ^ b" for w :: u32
  by (simp add: unsigned_take_bit_eq flip: take_bit_eq_mask take_bit_eq_mod)

lemma unat_add_mod: "b \<le> 32 \<Longrightarrow> unat (w + v) mod 2 ^ b = (unat w + unat v) mod 2 ^ b" for w v :: u32
proof -
  assume "b \<le> 32"
  then have "(2 :: nat) ^ b dvd 2 ^ 32" by (rule le_imp_power_dvd)
  then show ?thesis by (simp add: unat_word_ariths mod_mod_cancel)
qed

lemma idx_word:
  "table_size T msk \<Longrightarrow> unat ((k + d) AND msk) = pos (length T) (unat k) (unat d)"
  by (auto simp: table_size_def pos_def unat_and_mask unat_add_mod)

lemma dist_word:
  assumes "table_size T msk" and "unat idx < length T"
  shows "unat ((idx - h) AND msk) = dist (length T) (unat idx) (unat h)"
proof -
  from assms(1) obtain b where b: "b \<le> 32" "msk = Bit_Operations.mask b" "length T = 2 ^ b"
    by (auto simp: table_size_def)
  let ?n = "2 ^ b :: nat"
  define d where "d = unat ((idx - h) AND msk)"
  have d: "d < ?n" "d = unat (idx - h) mod ?n"
    using b by (simp_all add: d_def unat_and_mask)
  have "unat idx = unat (h + (idx - h)) mod ?n" using assms(2) b by simp
  also have "\<dots> = pos ?n (unat h) d"
    unfolding unat_add_mod [OF b(1)] pos_def d(2) by (simp add: mod_simps)
  finally have "unat idx = pos ?n (unat h) d" .
  then show ?thesis using dist_pos [OF d(1), of "unat h"] b by (simp add: d_def)
qed

lemma table_size_bounds:
  assumes "table_size T msk"
  shows "0 < length T" "length T \<le> 2 ^ 32" "length T = unat msk + 1"
proof -
  from assms obtain b where b: "b \<le> 32" "msk = Bit_Operations.mask b" "length T = 2 ^ b"
    by (auto simp: table_size_def)
  show "0 < length T" using b by simp
  show "length T \<le> 2 ^ 32" unfolding b(3) using b(1) by (intro power_increasing) auto
  have "unat msk = take_bit b (unat (- 1 :: u32))"
    unfolding b(2) by (simp add: unsigned_take_bit_eq flip: take_bit_minus_one_eq_mask)
  also have "\<dots> = 2 ^ b - 1"
    unfolding unsigned_minus_1_eq_mask take_bit_of_mask unfolding mask_eq_exp_minus_1
    using b(1) by (simp add: min_def)
  finally have "unat msk = 2 ^ b - 1" .
  then show "length T = unat msk + 1" using b by simp
qed

lemma unat_Suc_step: "unat d < 2 ^ 32 - 1 \<Longrightarrow> unat (d + 1) = Suc (unat d)" for d :: u32
  by (simp add: unat_word_ariths)

subsection \<open>The probing loop\<close>

text \<open>What a probe for hash \<open>k\<close> that has gone \<open>d\<close> steps without success knows.\<close>

definition passed :: "(u64 \<Rightarrow> bool option) \<Rightarrow> u64 list \<Rightarrow> u32 \<Rightarrow> nat \<Rightarrow> bool" where
  "passed eq T k d \<longleftrightarrow> carry T (unat k) d \<and>
     (\<forall>e < d. let s = T ! pos (length T) (unat k) e in slot_lo s = k \<longrightarrow> eq s = Some False)"

definition absent :: "(u64 \<Rightarrow> bool option) \<Rightarrow> u64 list \<Rightarrow> u32 \<Rightarrow> bool" where
  "absent eq T k \<longleftrightarrow> (\<forall>s \<in> set T. s \<noteq> 0 \<longrightarrow> slot_lo s = k \<longrightarrow> eq s = Some False)"

text \<open>The correctness of each exit.\<close>

definition probe_ok :: "(u64 \<Rightarrow> bool option) \<Rightarrow> u64 list \<Rightarrow> u32 \<Rightarrow> rh_result \<Rightarrow> bool" where
  "probe_ok eq T k r = (case r of
     Empty idx \<Rightarrow> unat idx < length T \<and> T ! unat idx = 0 \<and> absent eq T k \<and>
       (\<exists>d < length T. carry T (unat k) d \<and> unat idx = pos (length T) (unat k) d)
   | Hit idx slot \<Rightarrow> unat idx < length T \<and> T ! unat idx = slot \<and> slot \<noteq> 0 \<and>
       slot_lo slot = k \<and> eq slot = Some True
   | Richer idx slot d2 \<Rightarrow> unat idx < length T \<and> T ! unat idx = slot \<and> slot \<noteq> 0 \<and> absent eq T k \<and>
       unat d2 = dist (length T) (unat idx) (home slot) \<and>
       (\<exists>d < length T. unat d2 < d \<and> carry T (unat k) d \<and> unat idx = pos (length T) (unat k) d))"

lemma passed_stop:
  assumes "RH T" and "passed eq T k d" and "reach T (pos (length T) (unat k) d) \<le> d"
  shows "absent eq T k"
  unfolding absent_def
proof (intro ballI impI)
  fix s assume "s \<in> set T" "s \<noteq> 0" "slot_lo s = k"
  then obtain j where j: "j < length T" "T ! j \<noteq> 0" "home (T ! j) = unat k" "T ! j = s"
    by (auto simp: in_set_conv_nth home_def)
  then obtain e where "e < d" "j = pos (length T) (unat k) e"
    using stop_absent [OF assms(1,3)] by blast
  then show "eq s = Some False"
    using assms(2) j \<open>slot_lo s = k\<close> by (auto simp: passed_def Let_def)
qed

lemma passed_0 [simp]: "passed eq T k 0"
  by (simp add: passed_def)

lemma rh_probe_from:
  assumes "RH T" and "table_size T msk" and "0 \<in> set T"
    and total: "\<And>s. s \<in> set T \<Longrightarrow> s \<noteq> 0 \<Longrightarrow> slot_lo s = k \<Longrightarrow> eq s \<noteq> None"
    and "passed eq T k (unat d)"
  shows "\<exists>r. rh_probe eq T msk k d = Some r \<and> probe_ok eq T k r"
  using assms(5)
proof (induction "length T - unat d" arbitrary: d rule: less_induct)
  case (less d)
  define idx where "idx = (k + d) AND msk"
  define s where "s = T ! unat idx"
  define d2 where "d2 = (idx - slot_lo s) AND msk"
  have carry: "carry T (unat k) (unat d)" using less.prems by (simp add: passed_def)
  have d: "unat d < length T" using assms(1,3) carry by (rule carry_less)
  have i: "unat idx = pos (length T) (unat k) (unat d)"
    using idx_word [OF assms(2)] by (simp add: idx_def)
  have il: "unat idx < length T" using d unfolding i by (intro pos_less) linarith
  then have sT: "s \<in> set T" by (simp add: s_def)
  have d2: "unat d2 = dist (length T) (unat idx) (home s)"
    unfolding d2_def home_def using assms(2) il by (rule dist_word)
  have next_step: "\<exists>r. rh_probe eq T msk k (d + 1) = Some r \<and> probe_ok eq T k r"
    if "s \<noteq> 0" "d \<le> d2" "slot_lo s = k \<Longrightarrow> eq s = Some False"
  proof -
    have r: "Suc (unat d) \<le> reach T (unat idx)"
      using that(1,2) d2 by (simp add: reach_def s_def word_le_nat_alt)
    then have c: "carry T (unat k) (Suc (unat d))" using carry by (auto simp: i intro: carry_Suc)
    then have "Suc (unat d) < length T" using assms(1,3) by (intro carry_less)
    then have u: "unat (d + 1) = Suc (unat d)"
      using table_size_bounds(2) [OF assms(2)] by (intro unat_Suc_step) linarith
    have "passed eq T k (unat (d + 1))"
      using less.prems c that(3) by (auto simp: passed_def u less_Suc_eq s_def i Let_def)
    then show ?thesis using u d by (intro less.hyps) auto
  qed
  have unf: "rh_probe eq T msk k d =
    (if s = 0 then Some (Empty idx)
     else if slot_lo s = k then
       (case eq s of None \<Rightarrow> None
        | Some same \<Rightarrow> if same then Some (Hit idx s) else rh_probe eq T msk k (d + 1))
     else if d2 < d then Some (Richer idx s d2) else rh_probe eq T msk k (d + 1))"
    using il by (subst rh_probe.simps) (simp add: Let_def idx_def s_def d2_def split: option.split)
  consider "s = 0" | "s \<noteq> 0" "slot_lo s = k" | "s \<noteq> 0" "slot_lo s \<noteq> k" "d2 < d"
    | "s \<noteq> 0" "slot_lo s \<noteq> k" "\<not> d2 < d" by blast
  then show ?case
  proof cases
    case 1
    then have "absent eq T k"
      using less.prems by (intro passed_stop [OF assms(1)]) (auto simp: reach_def i s_def)
    then show ?thesis using 1 il i carry d by (auto simp: unf probe_ok_def s_def)
  next
    case 2
    have "unat d2 = unat d" using 2 d2 d by (simp add: i home_def dist_pos)
    then have "d \<le> d2" by (simp add: word_le_nat_alt)
    then show ?thesis
      using 2 total [OF sT] next_step il
      by (cases "eq s") (auto simp: unf probe_ok_def s_def)
  next
    case 3
    have lt: "unat d2 < unat d" using 3(3) by (simp add: word_less_nat_alt)
    then have "absent eq T k"
      using 3 less.prems d2
      by (intro passed_stop [OF assms(1), where d = "unat d"]) (auto simp: reach_def i s_def)
    moreover have "unf3": "rh_probe eq T msk k d = Some (Richer idx s d2)" using 3 by (simp add: unf)
    ultimately show ?thesis using 3 lt d2 il i carry d
      by (auto simp: unf3 probe_ok_def s_def)
  next
    case 4
    then have "d \<le> d2" by simp
    then show ?thesis using 4 next_step by (simp add: unf del: not_less)
  qed
qed

lemma rh_probe_0:
  assumes "RH T" and "table_size T msk" and "0 \<in> set T"
    and "\<And>s. s \<in> set T \<Longrightarrow> s \<noteq> 0 \<Longrightarrow> slot_lo s = k \<Longrightarrow> eq s \<noteq> None"
  obtains r where "rh_probe eq T msk k 0 = Some r" and "probe_ok eq T k r"
  using rh_probe_from [OF assms(1-3), of k eq 0] assms(4) by auto

subsection \<open>Reinsertion\<close>

text \<open>
  \<open>reinsert\<close> puts the slot it carries, and those it displaces, at positions where a probe
  finds them; nothing is lost and one empty slot is used up.
\<close>

lemma mset_update_swap:
  "i < length T \<Longrightarrow> mset (T[i := x]) + {#T ! i#} = mset T + {#x#}"
  by (simp add: mset_update)

lemma empty_remains:
  "0 \<in> set T \<Longrightarrow> i < length T \<Longrightarrow> T ! i \<noteq> 0 \<Longrightarrow> 0 \<in> set (T[i := x])"
  by (metis in_set_conv_nth length_list_update nth_list_update_neq)

lemma empty_ahead:
  assumes "0 \<in> set T"
  shows "\<exists>m. T ! pos (length T) a m = 0"
proof -
  from assms obtain i where i: "i < length T" "T ! i = 0" by (auto simp: in_set_conv_nth)
  then show ?thesis using pos_surj [OF i(1), of a] by metis
qed

lemma pos_add: "pos n (pos n h d) m = pos n h (d + m)"
  by (simp add: pos_def mod_simps add.assoc)

lemma pos_mod [simp]: "pos n (h mod n) m = pos n h m"
  by (simp add: pos_def mod_simps)

lemma reinsert_from:
  assumes "RH T" and "table_size T msk" and "0 \<in> set T"
    and "hv \<noteq> 0" and "carry T (home hv) (unat d)"
  shows "\<exists>T'. reinsert T msk hv d = Some T' \<and> RH T' \<and> table_size T' msk \<and>
    length T' = length T \<and> mset T' + {#0#} = mset T + {#hv#}"
proof -
  obtain m where "T ! pos (length T) (pos (length T) (home hv) (unat d)) m = 0"
    using empty_ahead [OF assms(3)] by blast
  with assms show ?thesis
  proof (induction m arbitrary: T hv d)
    case 0
    define idx where "idx = (slot_lo hv + d) AND msk"
    have i: "unat idx = pos (length T) (home hv) (unat d)"
      using idx_word [OF "0.prems"(2)] by (simp add: idx_def home_def)
    have d: "unat d < length T" by (rule carry_less [OF "0.prems"(1,3,5)])
    have "0 < length T" using d by linarith
    then have il: "unat idx < length T" unfolding i by (rule pos_less)
    have z: "T ! unat idx = 0" using "0.prems"(6) il by (simp add: i pos_def)
    have "reinsert T msk hv d = Some (T[unat idx := hv])"
      using il z by (subst reinsert.simps) (simp add: Let_def idx_def)
    moreover have "RH (T[unat idx := hv])"
      using "0.prems" i d z by (intro RH_update) (auto simp: reach_def)
    moreover have "mset (T[unat idx := hv]) + {#0#} = mset T + {#hv#}"
      using mset_update_swap [OF il, of hv] z by simp
    ultimately show ?case using "0.prems"(2) by simp
  next
    case (Suc m)
    define idx where "idx = (slot_lo hv + d) AND msk"
    define s where "s = T ! unat idx"
    define d2 where "d2 = (idx - slot_lo s) AND msk"
    let ?n = "length T"
    have i: "unat idx = pos ?n (home hv) (unat d)"
      using idx_word [OF Suc.prems(2)] by (simp add: idx_def home_def)
    have d: "unat d < ?n" by (rule carry_less [OF Suc.prems(1,3,5)])
    then have n: "0 < ?n" by linarith
    then have il: "unat idx < ?n" unfolding i by (rule pos_less)
    have d2: "unat d2 = dist ?n (unat idx) (home s)"
      unfolding d2_def home_def using Suc.prems(2) il by (rule dist_word)
    have ahead: "T ! pos ?n (pos ?n (home hv) (Suc (unat d))) m = 0"
      using Suc.prems(6) by (simp add: pos_add)
    have unf: "reinsert T msk hv d =
      (if s = 0 then Some (T[unat idx := hv])
       else if d2 < d then reinsert (T[unat idx := hv]) msk s (d2 + 1)
       else reinsert T msk hv (d + 1))"
      using il by (subst reinsert.simps) (simp add: Let_def idx_def s_def d2_def)
    have suc: "unat (e + 1) = Suc (unat e)" if "carry T' h (Suc (unat e))" "RH T'" "0 \<in> set T'"
      "length T' = ?n" for e :: u32 and T' h
      using carry_less [OF that(2,3,1)] that(4) table_size_bounds(2) [OF Suc.prems(2)]
      by (intro unat_Suc_step) linarith
    show ?case
    proof (cases "s = 0")
      case True
      have "RH (T[unat idx := hv])"
        using Suc.prems i d True by (intro RH_update) (auto simp: reach_def s_def)
      moreover have "mset (T[unat idx := hv]) + {#0#} = mset T + {#hv#}"
        using mset_update_swap [OF il, of hv] True by (simp add: s_def)
      ultimately show ?thesis using Suc.prems(2) True by (simp add: unf)
    next
      case s: False
      show ?thesis
      proof (cases "d2 < d")
        case lt: True
        let ?T = "T[unat idx := hv]"
        have lt': "unat d2 < unat d" using lt by (simp add: word_less_nat_alt)
        have r: "reach T (unat idx) = Suc (unat d2)" using s d2 by (simp add: reach_def s_def)
        have RH': "RH ?T"
          using Suc.prems i d lt' r by (intro RH_update) auto
        have z': "0 \<in> set ?T"
          using Suc.prems(3) il s by (intro empty_remains) (auto simp: s_def)
        have pd: "pos ?n (home s) (unat d2) = unat idx" unfolding d2 by (rule pos_dist [OF il])
        have c': "carry ?T (home s) (Suc (unat d2))"
          using lt' reach_update [OF i d Suc.prems(4)] by (simp add: carry_def pd)
        have u: "unat (d2 + 1) = Suc (unat d2)" by (rule suc [OF c' RH' z']) simp
        have "pos ?n (home s) (Suc (unat d2)) = pos ?n (home hv) (Suc (unat d))"
          unfolding pos_Suc pd i ..
        then have "T ! pos ?n (pos ?n (home s) (Suc (unat d2))) m = 0" using ahead by simp
        moreover have "T ! unat idx \<noteq> 0" using s by (simp add: s_def)
        ultimately have "?T ! pos ?n (pos ?n (home s) (Suc (unat d2))) m = 0"
          by (metis nth_list_update_neq)
        then obtain T' where "reinsert ?T msk s (d2 + 1) = Some T'" "RH T'" "table_size T' msk"
          "length T' = ?n" "mset T' + {#0#} = mset ?T + {#s#}"
          using Suc.IH [OF RH' _ z' s, of "d2 + 1"] c' u Suc.prems(2) by auto
        then show ?thesis
          using s lt mset_update_swap [OF il, of hv] by (simp add: unf s_def)
      next
        case ge: False
        then have "unat d \<le> unat d2" by (simp add: word_less_nat_alt)
        then have "Suc (unat d) \<le> reach T (unat idx)" using s d2 by (simp add: reach_def s_def)
        then have c': "carry T (home hv) (Suc (unat d))" using Suc.prems(5) by (auto simp: i intro: carry_Suc)
        have u: "unat (d + 1) = Suc (unat d)" by (rule suc [OF c' Suc.prems(1,3)]) simp
        have "reinsert T msk hv d = reinsert T msk hv (d + 1)" using s ge by (simp add: unf)
        then show ?thesis
          using Suc.IH [OF Suc.prems(1-4), of "d + 1"] c' u ahead by simp
      qed
    qed
  qed
qed

definition live :: "u64 list \<Rightarrow> u64 multiset" where
  "live T = filter_mset (\<lambda>s. s \<noteq> 0) (mset T)"

lemma set_live [simp]: "set_mset (live T) = set T - {0}"
  by (auto simp: live_def)

lemma live_reinsert: "mset T' + {#0#} = mset T + {#hv#} \<Longrightarrow> hv \<noteq> 0 \<Longrightarrow> live T' = add_mset hv (live T)"
proof -
  assume a: "mset T' + {#0#} = mset T + {#hv#}" "hv \<noteq> 0"
  have "filter_mset (\<lambda>s. s \<noteq> 0) (mset T' + {#0#}) = filter_mset (\<lambda>s. s \<noteq> 0) (mset T + {#hv#})"
    by (simp only: a)
  then show ?thesis using a(2) by (simp add: live_def)
qed

lemma size_live: "size (live T) = length (filter (\<lambda>s. s \<noteq> 0) T)"
  unfolding live_def mset_filter [symmetric] size_mset ..

lemma empty_iff_live: "0 \<in> set T \<longleftrightarrow> size (live T) < length T"
proof
  assume "0 \<in> set T"
  then show "size (live T) < length T"
    unfolding size_live by (rule length_filter_less) simp
next
  assume lt: "size (live T) < length T"
  show "0 \<in> set T"
  proof (rule ccontr)
    assume "0 \<notin> set T"
    then have "filter (\<lambda>s. s \<noteq> 0) T = T" by (auto intro: filter_True)
    then show False using lt by (simp add: size_live)
  qed
qed

lemma reinsert_all_spec:
  assumes "RH T" and "table_size T msk"
    and "size (live T) + size (live slots) < length T"
  shows "\<exists>T'. reinsert_all T msk slots = Some T' \<and> RH T' \<and> table_size T' msk \<and>
    length T' = length T \<and> live T' = live T + live slots"
  using assms
proof (induction slots arbitrary: T)
  case Nil
  then show ?case by (simp add: live_def)
next
  case (Cons s slots)
  show ?case
  proof (cases "s = 0")
    case True
    then have "live (s # slots) = live slots" by (simp add: live_def)
    then show ?thesis using Cons True by simp
  next
    case False
    then have l: "live (s # slots) = add_mset s (live slots)" by (simp add: live_def)
    then have "0 \<in> set T" using Cons.prems(3) by (simp add: empty_iff_live)
    then obtain T' where T': "reinsert T msk s 0 = Some T'" "RH T'" "table_size T' msk"
      "length T' = length T" "mset T' + {#0#} = mset T + {#s#}"
      using reinsert_from [OF Cons.prems(1,2) _ False, of 0] by auto
    have lT: "live T' = add_mset s (live T)" using T'(5) False by (rule live_reinsert)
    then show ?thesis
      using Cons.IH [OF T'(2,3)] Cons.prems(3) T'(1,4) False l by auto
  qed
qed

lemma RH_empty [simp]: "RH (replicate n 0)" and live_empty [simp]: "live (replicate n 0) = {#}"
  by (simp_all add: RH_def live_def flip: mset_filter)

subsection \<open>Insertion at the end of a probe\<close>

lemma carry_other:
  assumes "carry T h d" and "d2 < d" and "pos (length T) h d = pos (length T) h' d2"
    and "T \<noteq> []"
  shows "carry T h' d2"
proof (cases d2)
  case (Suc e)
  obtain f where f: "d = Suc f" using assms(2) by (cases d) auto
  have "pos (length T) h f = pos (length T) h' e"
    using assms(3,4) pos_pred_eq [of "length T" h f h' e] by (simp add: f Suc)
  then show ?thesis using assms(1,2) by (simp add: carry_def f Suc)
qed simp

lemma insert_at_empty:
  assumes "RH T" and "probe_ok eq T k (Empty idx)" and "new \<noteq> 0" and "slot_lo new = k"
  shows "RH (T[unat idx := new])"
    and "mset (T[unat idx := new]) + {#0#} = mset T + {#new#}"
proof -
  obtain d where d: "d < length T" "carry T (unat k) d" "unat idx = pos (length T) (unat k) d"
    and i: "unat idx < length T" "T ! unat idx = 0"
    using assms(2) by (auto simp: probe_ok_def)
  show "RH (T[unat idx := new])"
    using assms d i by (intro RH_update) (auto simp: home_def reach_def)
  show "mset (T[unat idx := new]) + {#0#} = mset T + {#new#}"
    using mset_update_swap [OF i(1), of new] i(2) by simp
qed

lemma insert_at_richer:
  assumes "RH T" and "table_size T msk" and "0 \<in> set T"
    and "probe_ok eq T k (Richer idx slot d2)" and "new \<noteq> 0" and "slot_lo new = k"
  shows "\<exists>T'. reinsert (T[unat idx := new]) msk slot d2 = Some T' \<and> RH T' \<and> table_size T' msk \<and>
    length T' = length T \<and> mset T' + {#0#} = mset T + {#new#}"
proof -
  let ?T = "T[unat idx := new]"
  obtain d where d: "d < length T" "unat d2 < d" "carry T (unat k) d" "unat idx = pos (length T) (unat k) d"
    and i: "unat idx < length T" "T ! unat idx = slot" "slot \<noteq> 0"
    and d2: "unat d2 = dist (length T) (unat idx) (home slot)"
    using assms(4) by (auto simp: probe_ok_def)
  have r: "reach T (unat idx) \<le> Suc d" using d(2) i d2 by (simp add: reach_def)
  have up: "RH ?T" "\<And>h e. carry T h e \<Longrightarrow> carry ?T h e"
    by (rule RH_update [OF assms(1), of _ new d]; use assms d i r in \<open>simp add: home_def\<close>)+
  have "T \<noteq> []" using i(1) by auto
  then have "carry T (home slot) (unat d2)"
    using d pos_dist [OF i(1), of "home slot"] d2 by (intro carry_other [OF d(3,2)]) simp_all
  then obtain T' where "reinsert ?T msk slot d2 = Some T'" "RH T'" "table_size T' msk"
    "length T' = length T" "mset T' + {#0#} = mset ?T + {#slot#}"
    using reinsert_from [OF up(1) _ _ i(3), of msk d2] up(2) assms(2,3) i
      empty_remains [OF assms(3) i(1)] by auto
  then show ?thesis using mset_update_swap [OF i(1), of new] i(2) by simp
qed

lemma load_full_iff: "load_full cnt msk \<longleftrightarrow> unat msk * 3 \<le> unat cnt * 4"
proof -
  have "unat (ucast cnt * 4 :: u64) = unat cnt * 4" "unat (ucast msk * 3 :: u64) = unat msk * 3"
    using unat_less_pow [of cnt] unat_less_pow [of msk]
    by (simp_all add: unat_word_ariths unsigned_ucast_eq take_bit_eq_mod)
  then show ?thesis by (simp add: load_full_def word_le_nat_alt)
qed

lemma rehash_table_spec:
  assumes "table_size T msk" and "unat msk < 2 ^ 32 - 1" and "size (live T) < length T"
  shows "\<exists>T' msk'. rehash_table T msk = Some (T', msk') \<and> RH T' \<and> table_size T' msk' \<and>
    unat msk' = 2 * unat msk + 1 \<and> live T' = live T"
proof -
  obtain b where b: "b \<le> 32" "msk = Bit_Operations.mask b" "length T = 2 ^ b"
    using assms(1) by (auto simp: table_size_def)
  note n = table_size_bounds [OF assms(1)]
  have "(2 :: nat) ^ b < 2 ^ 32" using assms(2) n(3) b(3) by linarith
  then have b31: "b < 32" by (rule power_less_imp_less_exp [rotated]) simp
  let ?m = "Bit_Operations.mask (Suc b) :: u32"
  have m: "msk * 2 + 1 = ?m" unfolding b(2) by (simp add: mask_Suc_double mask_eq_exp_minus_1)
  let ?T = "replicate (unat ?m + 1) (0 :: u64)"
  have len: "length ?T = 2 ^ Suc b"
  proof -
    have "table_size (replicate (2 ^ Suc b) 0) ?m"
      using b31 by (auto simp: table_size_def intro!: exI [of _ "Suc b"])
    then show ?thesis using table_size_bounds(3) by fastforce
  qed
  then have ts: "table_size ?T ?m"
    using b31 by (auto simp: table_size_def intro!: exI [of _ "Suc b"])
  have "size (live ?T) + size (live T) < length ?T" using assms(3) len b(3) by simp
  from reinsert_all_spec [OF RH_empty ts this]
  obtain T' where T': "reinsert_all ?T ?m T = Some T'" "RH T'" "table_size T' ?m" "live T' = live T"
    unfolding live_empty by auto
  have "rehash_table T msk = Some (T', ?m)"
    using T'(1) n(3) by (simp add: rehash_table_def m)
  moreover have "unat ?m = 2 * unat msk + 1"
    using len n(3) b(3) by simp
  ultimately show ?thesis using T' by blast
qed

end
