(* ===== verification/Uuht.thy ===== *)
theory Uuht
  imports RobinHood
begin

section \<open>uuht.c: the hash table from 32-bit keys to 32-bit values\<close>

text \<open>
  The operations of uuht.c over the table of RobinHood. The key is hashed by an invertible
  function, so the hash in the low half of a slot stands for the key; slot 0 is empty, so
  key 0 cannot hold value 0.
\<close>

record uuht =
  u_table :: "u64 list"
  u_mask :: u32
  u_count :: u32

definition uuht_init :: uuht where
  "uuht_init = \<lparr>u_table = replicate 8 0, u_mask = 7, u_count = 0\<rparr>"

definition uuht_clear :: "uuht \<Rightarrow> uuht" where
  "uuht_clear t = t\<lparr>u_count := 0,
     u_table := replicate (unat (u_mask t) + 1) 0 @ drop (unat (u_mask t) + 1) (u_table t)\<rparr>"

definition uuht_hash :: "u32 \<Rightarrow> u32" where
  "uuht_hash h =
    (let h = h XOR drop_bit 16 h;
         h = h * 0x21f0aaad;
         h = h XOR drop_bit 15 h;
         h = h * 0xd35a2d97;
         h = h XOR drop_bit 15 h
     in h)"

definition uuht_unhash :: "u32 \<Rightarrow> u32" where
  "uuht_unhash h =
    (let h = h XOR drop_bit 15 h;
         h = h XOR drop_bit 30 h;
         h = h * 0x37132227;
         h = h XOR drop_bit 15 h;
         h = h XOR drop_bit 30 h;
         h = h * 0x333c4925;
         h = h XOR drop_bit 16 h
     in h)"

definition uuht_rehash :: "uuht \<Rightarrow> uuht option" where
  "uuht_rehash t = (case rehash_table (u_table t) (u_mask t) of
     None \<Rightarrow> None
   | Some (table, msk) \<Rightarrow> Some (t\<lparr>u_table := table, u_mask := msk\<rparr>))"

text \<open>\<open>if (++uuht->count * 4ull >= mask * 3ull) uuht_rehash(uuht)\<close>\<close>

definition uuht_grow :: "uuht \<Rightarrow> uuht option" where
  "uuht_grow t =
    (let t = t\<lparr>u_count := u_count t + 1\<rparr>
     in if load_full (u_count t) (u_mask t) then uuht_rehash t else Some t)"

text \<open>The insertions at the two kinds of exits of the probing loop, the same in every caller.\<close>

definition uuht_put_empty :: "uuht \<Rightarrow> u32 \<Rightarrow> u32 \<Rightarrow> u32 \<Rightarrow> uuht option" where
  "uuht_put_empty t idx k v =
    (let slot = mk_slot k v;
         t = t\<lparr>u_table := (u_table t)[unat idx := slot]\<rparr>
     in if slot \<noteq> 0 then uuht_grow t else Some t)"

definition uuht_put_richer :: "uuht \<Rightarrow> u32 \<Rightarrow> u64 \<Rightarrow> u32 \<Rightarrow> u32 \<Rightarrow> u32 \<Rightarrow> uuht option" where
  "uuht_put_richer t idx slot d2 k v =
    (if k OR v \<noteq> 0 then
       (case reinsert ((u_table t)[unat idx := mk_slot k v]) (u_mask t) slot d2 of
          None \<Rightarrow> None
        | Some table \<Rightarrow> uuht_grow (t\<lparr>u_table := table\<rparr>))
     else Some t)"

definition uuht_probe :: "uuht \<Rightarrow> u32 \<Rightarrow> rh_result option" where
  "uuht_probe t k = rh_probe (\<lambda>_. Some True) (u_table t) (u_mask t) k 0"

definition uuht_contains :: "uuht \<Rightarrow> u32 \<Rightarrow> u64 option" where
  "uuht_contains t k = (case uuht_probe t (uuht_hash k) of
     None \<Rightarrow> None
   | Some (Empty idx) \<Rightarrow> Some 0
   | Some (Hit idx slot) \<Rightarrow> Some slot
   | Some (Richer idx slot d2) \<Rightarrow> Some 0)"

definition uuht_lookup_or :: "uuht \<Rightarrow> u32 \<Rightarrow> u32 \<Rightarrow> u32 option" where
  "uuht_lookup_or t k default_v = (case uuht_probe t (uuht_hash k) of
     None \<Rightarrow> None
   | Some (Empty idx) \<Rightarrow> Some default_v
   | Some (Hit idx slot) \<Rightarrow> Some (slot_hi slot)
   | Some (Richer idx slot d2) \<Rightarrow> Some default_v)"

definition with_result :: "'a option \<Rightarrow> 'b \<Rightarrow> ('a \<times> 'b) option" where
  "with_result r v = (case r of None \<Rightarrow> None | Some t \<Rightarrow> Some (t, v))"

definition uuht_lookup_or_set :: "uuht \<Rightarrow> u32 \<Rightarrow> u32 \<Rightarrow> (uuht \<times> u32) option" where
  "uuht_lookup_or_set t k v =
    (let k = uuht_hash k in case uuht_probe t k of
       None \<Rightarrow> None
     | Some (Empty idx) \<Rightarrow> with_result (uuht_put_empty t idx k v) v
     | Some (Hit idx slot) \<Rightarrow> Some (t, slot_hi slot)
     | Some (Richer idx slot d2) \<Rightarrow> with_result (uuht_put_richer t idx slot d2 k v) v)"

definition uuht_set :: "uuht \<Rightarrow> u32 \<Rightarrow> u32 \<Rightarrow> (uuht \<times> u32) option" where
  "uuht_set t k v =
    (let k = uuht_hash k in case uuht_probe t k of
       None \<Rightarrow> None
     | Some (Empty idx) \<Rightarrow> with_result (uuht_put_empty t idx k v) 0
     | Some (Hit idx slot) \<Rightarrow>
         let old_v = slot_hi slot; slot = mk_slot k v
         in Some (if slot \<noteq> 0 then t\<lparr>u_table := (u_table t)[unat idx := slot]\<rparr> else t, old_v)
     | Some (Richer idx slot d2) \<Rightarrow> with_result (uuht_put_richer t idx slot d2 k v) 0)"

definition uuht_set_if_absent :: "uuht \<Rightarrow> u32 \<Rightarrow> u32 \<Rightarrow> (uuht \<times> u32) option" where
  "uuht_set_if_absent t k v =
    (let k = uuht_hash k in case uuht_probe t k of
       None \<Rightarrow> None
     | Some (Empty idx) \<Rightarrow> with_result (uuht_put_empty t idx k v) 0
     | Some (Hit idx slot) \<Rightarrow> Some (t, slot_hi slot)
     | Some (Richer idx slot d2) \<Rightarrow> with_result (uuht_put_richer t idx slot d2 k v) 0)"

subsection \<open>The hash is a bijection\<close>

lemma xorshift_twice:
  "(x XOR drop_bit n x) XOR drop_bit n (x XOR drop_bit n x) = x XOR drop_bit (n + n) x" for x :: u32
  by (simp add: drop_bit_xor ac_simps)

lemma xorshift_out: "32 \<le> n \<Longrightarrow> drop_bit n x = 0" for x :: u32
  by (rule bit_word_eqI) (auto simp: bit_simps dest: bit_imp_le_length)

lemma xorshift_16: "(x XOR drop_bit 16 x) XOR drop_bit 16 (x XOR drop_bit 16 x) = x" for x :: u32
  unfolding xorshift_twice by (simp add: xorshift_out)

lemma xorshift_30: "(x XOR drop_bit 30 x) XOR drop_bit 30 (x XOR drop_bit 30 x) = x" for x :: u32
  unfolding xorshift_twice by (simp add: xorshift_out)

lemma xorshift_15: "(x XOR drop_bit 15 x) XOR drop_bit 15 (x XOR drop_bit 15 x) = x XOR drop_bit 30 x"
  for x :: u32
  unfolding xorshift_twice by simp

lemma mult_inverse: "(x * a) * b = x" if "a * b = 1" for x a b :: u32
  using that by (simp add: mult.assoc)

lemma mult_inverses:
  "(x * 0xd35a2d97) * 0x37132227 = x" "(x * 0x21f0aaad) * 0x333c4925 = x" for x :: u32
  by (rule mult_inverse, simp)+

lemma unhash_hash: "uuht_unhash (uuht_hash h) = h"
  unfolding uuht_hash_def uuht_unhash_def Let_def xorshift_15 xorshift_30 mult_inverses xorshift_16
  by (rule refl)

lemma hash_unhash: "uuht_hash (uuht_unhash h) = h"
proof -
  have "inj uuht_hash" by (metis injI unhash_hash)
  then have "surj uuht_hash" by (rule finite_UNIV_inj_surj [rotated]) simp
  then obtain k where "h = uuht_hash k" by blast
  then show ?thesis by (simp add: unhash_hash)
qed

lemma hash_inj: "uuht_hash h = uuht_hash h' \<longleftrightarrow> h = h'"
  by (metis unhash_hash)

lemma hash_0 [simp]: "uuht_hash 0 = 0"
  by (simp add: uuht_hash_def)

lemma hash_eq_0 [simp]: "uuht_hash k = 0 \<longleftrightarrow> k = 0"
  using hash_inj [of k 0] by simp

subsection \<open>The abstract map and the invariant\<close>

definition live_keys :: "u64 list \<Rightarrow> u32 list" where
  "live_keys T = map slot_lo (filter (\<lambda>s. s \<noteq> 0) T)"

definition uuht_ok :: "uuht \<Rightarrow> bool" where
  "uuht_ok t \<longleftrightarrow> table_size (u_table t) (u_mask t) \<and> RH (u_table t) \<and>
     distinct (live_keys (u_table t)) \<and> unat (u_count t) = size (live (u_table t)) \<and>
     unat (u_count t) * 4 < unat (u_mask t) * 3"

text \<open>The finite map the table stands for, and the room every insertion asks for.\<close>

definition uuht_get :: "uuht \<Rightarrow> u32 \<Rightarrow> u32 option" where
  "uuht_get t k =
    map_of (map (\<lambda>s. (slot_lo s, slot_hi s)) (filter (\<lambda>s. s \<noteq> 0) (u_table t))) (uuht_hash k)"

definition uuht_room :: "uuht \<Rightarrow> bool" where
  "uuht_room t \<longleftrightarrow> (unat (u_count t) + 1) * 4 < (2 ^ 32 - 1) * 3"

lemma mset_live_keys: "mset (live_keys T) = image_mset slot_lo (live T)"
  by (simp add: live_keys_def live_def flip: mset_filter)

lemma distinct_live_cong: "live T = live T' \<Longrightarrow> distinct (live_keys T) = distinct (live_keys T')"
  by (intro mset_eq_imp_distinct_iff) (simp add: mset_live_keys)

lemma get_iff:
  assumes "distinct (live_keys (u_table t))"
  shows "uuht_get t k = Some v \<longleftrightarrow> mk_slot (uuht_hash k) v \<in># live (u_table t)"
proof -
  have "distinct (map fst (map (\<lambda>s. (slot_lo s, slot_hi s)) (filter (\<lambda>s. s \<noteq> 0) (u_table t))))"
    using assms by (simp add: live_keys_def comp_def)
  then have "uuht_get t k = Some v \<longleftrightarrow>
      (\<exists>s \<in> set (u_table t). s \<noteq> 0 \<and> slot_lo s = uuht_hash k \<and> slot_hi s = v)"
    unfolding uuht_get_def by (subst map_of_eq_Some_iff) (auto simp: image_iff)
  also have "\<dots> \<longleftrightarrow> mk_slot (uuht_hash k) v \<in># live (u_table t)"
  proof
    assume "\<exists>s \<in> set (u_table t). s \<noteq> 0 \<and> slot_lo s = uuht_hash k \<and> slot_hi s = v"
    then obtain s where s: "s \<in> set (u_table t)" "s \<noteq> 0" "slot_lo s = uuht_hash k" "slot_hi s = v"
      by blast
    then have "mk_slot (uuht_hash k) v = s" using mk_slot_lo_hi [of s] by simp
    with s show "mk_slot (uuht_hash k) v \<in># live (u_table t)" by simp
  next
    assume "mk_slot (uuht_hash k) v \<in># live (u_table t)"
    then show "\<exists>s \<in> set (u_table t). s \<noteq> 0 \<and> slot_lo s = uuht_hash k \<and> slot_hi s = v"
      by (auto simp del: mk_slot_eq_0 intro: bexI [of _ "mk_slot (uuht_hash k) v"])
  qed
  finally show ?thesis .
qed

lemma get_cong:
  assumes "live (u_table t) = live (u_table t')" and "distinct (live_keys (u_table t))"
  shows "uuht_get t = uuht_get t'"
proof
  fix k
  have "distinct (live_keys (u_table t'))" using assms distinct_live_cong by blast
  then show "uuht_get t k = uuht_get t' k"
    using get_iff [OF assms(2), of k] get_iff [of t' k] assms(1) by (metis option.exhaust)
qed

lemma get_None_iff:
  "uuht_get t k = None \<longleftrightarrow> uuht_hash k \<notin> set (live_keys (u_table t))"
  by (simp add: uuht_get_def live_keys_def map_of_eq_None_iff image_image)

lemma live_add:
  assumes "live (u_table t') = add_mset (mk_slot (uuht_hash k) v) (live (u_table t))"
    and "distinct (live_keys (u_table t))" and "uuht_get t k = None"
  shows "distinct (live_keys (u_table t'))" and "uuht_get t' = (uuht_get t)(k \<mapsto> v)"
proof -
  have h: "uuht_hash k \<notin> set (live_keys (u_table t))" using assms get_None_iff by blast
  have eq: "mset (live_keys (u_table t')) = mset (uuht_hash k # live_keys (u_table t))"
    by (simp add: mset_live_keys assms(1))
  then show d: "distinct (live_keys (u_table t'))"
    using h assms(2) mset_eq_imp_distinct_iff [OF eq] by simp
  have lo: "s \<in># live (u_table t) \<Longrightarrow> slot_lo s \<noteq> uuht_hash k" for s
    using h by (auto simp: live_keys_def image_iff)
  show "uuht_get t' = (uuht_get t)(k \<mapsto> v)"
  proof
    fix j
    have iff: "uuht_get t' j = Some w \<longleftrightarrow> ((uuht_get t)(k \<mapsto> v)) j = Some w" for w
    proof -
      have "mk_slot (uuht_hash j) w = mk_slot (uuht_hash k) v \<longleftrightarrow> j = k \<and> w = v"
        by (metis hash_inj slot_hi_mk slot_lo_mk)
      moreover have "mk_slot (uuht_hash k) w \<notin># live (u_table t)" using lo slot_lo_mk by blast
      ultimately show ?thesis
        unfolding get_iff [OF d] assms(1) using get_iff [OF assms(2), of j w] by auto
    qed
    then show "uuht_get t' j = ((uuht_get t)(k \<mapsto> v)) j" by (metis not_Some_eq)
  qed
qed

lemma probe_total:
  assumes "uuht_ok t"
  obtains r where "uuht_probe t k = Some r" and "probe_ok (\<lambda>_. Some True) (u_table t) k r"
proof (rule rh_probe_0 [of "u_table t" "u_mask t" k "\<lambda>_. Some True"])
  show "0 \<in> set (u_table t)"
    using assms table_size_bounds(3) [of "u_table t"]
    by (auto simp: uuht_ok_def empty_iff_live)
qed (use assms that in \<open>auto simp: uuht_ok_def uuht_probe_def\<close>)

lemma absent_get: "absent (\<lambda>_. Some True) (u_table t) (uuht_hash k) \<Longrightarrow> uuht_get t k = None"
  by (auto simp: uuht_get_def map_of_eq_None_iff absent_def)

lemma hit_get:
  assumes "uuht_ok t" and "probe_ok (\<lambda>_. Some True) (u_table t) (uuht_hash k) (Hit idx slot)"
  shows "uuht_get t k = Some (slot_hi slot)"
proof -
  have s: "slot \<in> set (u_table t)" "slot \<noteq> 0" "slot_lo slot = uuht_hash k"
    using assms(2) by (auto simp: probe_ok_def)
  then have "mk_slot (uuht_hash k) (slot_hi slot) = slot" using mk_slot_lo_hi [of slot] by simp
  then show ?thesis using assms(1) s by (subst get_iff) (auto simp: uuht_ok_def)
qed

subsection \<open>The operations on the abstract map\<close>

lemma uuht_grow_spec:
  assumes "table_size (u_table t) (u_mask t)" and "RH (u_table t)"
    and "distinct (live_keys (u_table t))"
    and sz: "size (live (u_table t)) = unat (u_count t) + 1"
    and load: "unat (u_count t) * 4 < unat (u_mask t) * 3"
    and room: "uuht_room t"
  shows "\<exists>t'. uuht_grow t = Some t' \<and> uuht_ok t' \<and> live (u_table t') = live (u_table t)"
proof -
  define c where "c = u_count t + 1"
  have "unat (u_count t) < 2 ^ 32 - 1" using room by (simp add: uuht_room_def)
  then have c: "unat c = unat (u_count t) + 1" unfolding c_def by (subst unat_Suc_step) simp_all
  show ?thesis
  proof (cases "load_full c (u_mask t)")
    case False
    then have "unat c * 4 < unat (u_mask t) * 3" by (simp add: load_full_iff not_le)
    then show ?thesis using False assms c by (simp add: uuht_grow_def Let_def uuht_ok_def flip: c_def)
  next
    case True
    have "size (live (u_table t)) < length (u_table t)"
      using sz load table_size_bounds(3) [OF assms(1)] by linarith
    then obtain T' msk' where R: "rehash_table (u_table t) (u_mask t) = Some (T', msk')" "RH T'"
      "table_size T' msk'" "unat msk' = 2 * unat (u_mask t) + 1" "live T' = live (u_table t)"
      using rehash_table_spec [OF assms(1)] room True c by (auto simp: uuht_room_def load_full_iff)
    let ?t = "t\<lparr>u_count := c, u_table := T', u_mask := msk'\<rparr>"
    have "uuht_grow t = Some ?t"
      using True R(1) by (simp add: uuht_grow_def Let_def uuht_rehash_def flip: c_def)
    moreover have "uuht_ok ?t"
      using R sz load c assms(3) distinct_live_cong [OF R(5)] by (simp add: uuht_ok_def)
    ultimately show ?thesis using R(5) by auto
  qed
qed

lemma put_grow:
  assumes ok: "uuht_ok t" and room: "uuht_room t" and kv: "mk_slot (uuht_hash k) v \<noteq> 0"
    and new: "uuht_get t k = None"
    and T: "RH T'" "table_size T' (u_mask t)" "mset T' + {#0#} = mset (u_table t) + {#mk_slot (uuht_hash k) v#}"
  shows "\<exists>t'. uuht_grow (t\<lparr>u_table := T'\<rparr>) = Some t' \<and> uuht_ok t' \<and> uuht_get t' = (uuht_get t)(k \<mapsto> v)"
proof -
  let ?t = "t\<lparr>u_table := T'\<rparr>"
  have l: "live T' = add_mset (mk_slot (uuht_hash k) v) (live (u_table t))"
    using T(3) kv by (rule live_reinsert)
  have dt: "distinct (live_keys (u_table t))" using ok by (simp add: uuht_ok_def)
  have d: "distinct (live_keys T')" "uuht_get ?t = (uuht_get t)(k \<mapsto> v)"
    using live_add [of ?t k v t] l dt new by simp_all
  obtain t' where t': "uuht_grow ?t = Some t'" "uuht_ok t'" "live (u_table t') = live T'"
    using uuht_grow_spec [of ?t] ok room T d(1) l by (auto simp: uuht_ok_def uuht_room_def)
  have "uuht_get t' = uuht_get ?t"
    using t'(2,3) by (intro get_cong) (simp_all add: uuht_ok_def)
  then show ?thesis using t' d(2) by simp
qed

lemma put_empty_spec:
  assumes "uuht_ok t" and "uuht_room t" and "k \<noteq> 0 \<or> v \<noteq> 0"
    and "probe_ok (\<lambda>_. Some True) (u_table t) (uuht_hash k) (Empty idx)"
  shows "\<exists>t'. uuht_put_empty t idx (uuht_hash k) v = Some t' \<and> uuht_ok t' \<and>
    uuht_get t' = (uuht_get t)(k \<mapsto> v)"
proof -
  have kv: "mk_slot (uuht_hash k) v \<noteq> 0" using assms(3) by simp
  have RH: "RH (u_table t)" using assms(1) by (simp add: uuht_ok_def)
  have new: "uuht_get t k = None"
    using assms(4) by (intro absent_get) (simp add: probe_ok_def)
  note ins = insert_at_empty [OF RH assms(4) kv slot_lo_mk]
  show ?thesis
    using put_grow [OF assms(1,2) kv new ins(1) _ ins(2)] kv assms(1)
    by (simp add: uuht_put_empty_def uuht_ok_def del: mk_slot_eq_0)
qed

lemma ok_has_empty: "uuht_ok t \<Longrightarrow> 0 \<in> set (u_table t)"
  using table_size_bounds(3) [of "u_table t"] by (auto simp: uuht_ok_def empty_iff_live)

lemma put_richer_spec:
  assumes "uuht_ok t" and "uuht_room t" and "k \<noteq> 0 \<or> v \<noteq> 0"
    and "probe_ok (\<lambda>_. Some True) (u_table t) (uuht_hash k) (Richer idx slot d2)"
  shows "\<exists>t'. uuht_put_richer t idx slot d2 (uuht_hash k) v = Some t' \<and> uuht_ok t' \<and>
    uuht_get t' = (uuht_get t)(k \<mapsto> v)"
proof -
  have kv: "mk_slot (uuht_hash k) v \<noteq> 0" using assms(3) by simp
  have RH: "RH (u_table t)" "table_size (u_table t) (u_mask t)"
    using assms(1) by (simp_all add: uuht_ok_def)
  have new: "uuht_get t k = None"
    using assms(4) by (intro absent_get) (simp add: probe_ok_def)
  obtain T' where "reinsert ((u_table t)[unat idx := mk_slot (uuht_hash k) v]) (u_mask t) slot d2 = Some T'"
    "RH T'" "table_size T' (u_mask t)"
    "mset T' + {#0#} = mset (u_table t) + {#mk_slot (uuht_hash k) v#}"
    using insert_at_richer [OF RH ok_has_empty [OF assms(1)] assms(4) kv slot_lo_mk] by blast
  then show ?thesis
    using put_grow [OF assms(1,2) kv new] assms(3) by (simp add: uuht_put_richer_def)
qed

lemma put_zero:
  assumes "probe_ok (\<lambda>_. Some True) (u_table t) (uuht_hash 0) r"
  shows "r = Empty idx \<Longrightarrow> uuht_put_empty t idx (uuht_hash 0) 0 = Some t"
    and "uuht_put_richer t idx slot d2 (uuht_hash 0) 0 = Some t"
proof -
  show "uuht_put_richer t idx slot d2 (uuht_hash 0) 0 = Some t"
    by (simp add: uuht_put_richer_def)
  show "uuht_put_empty t idx (uuht_hash 0) 0 = Some t" if "r = Empty idx"
  proof -
    have "(u_table t)[unat idx := 0] = u_table t"
      using assms that list_update_id [of "u_table t" "unat idx"] by (simp add: probe_ok_def)
    then show ?thesis by (simp add: uuht_put_empty_def Let_def mk_slot_def)
  qed
qed

text \<open>
  The insertion all three functions make when the probe does not find the key: the table
  becomes the map updated at the key, or stays as it is for key 0 with value 0.
\<close>

lemma put_spec:
  assumes ok: "uuht_ok t" and room: "uuht_room t"
    and p: "probe_ok (\<lambda>_. Some True) (u_table t) (uuht_hash k) r" and nohit: "\<not> (\<exists>i s. r = Hit i s)"
  shows "uuht_get t k = None"
    and "\<exists>t'. (case r of Empty idx \<Rightarrow> uuht_put_empty t idx (uuht_hash k) v
                | Richer idx slot d2 \<Rightarrow> uuht_put_richer t idx slot d2 (uuht_hash k) v
                | Hit i s \<Rightarrow> None) = Some t' \<and> uuht_ok t' \<and>
         uuht_get t' = (if k = 0 \<and> v = 0 then uuht_get t else (uuht_get t)(k \<mapsto> v))"
proof -
  show "uuht_get t k = None"
    using p nohit by (intro absent_get) (cases r, auto simp: probe_ok_def)
  show "\<exists>t'. (case r of Empty idx \<Rightarrow> uuht_put_empty t idx (uuht_hash k) v
                | Richer idx slot d2 \<Rightarrow> uuht_put_richer t idx slot d2 (uuht_hash k) v
                | Hit i s \<Rightarrow> None) = Some t' \<and> uuht_ok t' \<and>
         uuht_get t' = (if k = 0 \<and> v = 0 then uuht_get t else (uuht_get t)(k \<mapsto> v))"
  proof (cases "k = 0 \<and> v = 0")
    case True
    then show ?thesis
      using put_zero [of t r] p nohit ok by (cases r) auto
  next
    case False
    then have kv: "k \<noteq> 0 \<or> v \<noteq> 0" by blast
    show ?thesis
    proof (cases r)
      case (Empty idx)
      then show ?thesis using put_empty_spec [OF ok room kv, of idx] p kv by auto
    next
      case (Richer idx slot d2)
      then show ?thesis using put_richer_spec [OF ok room kv, of idx slot d2] p kv by auto
    qed (use nohit in blast)
  qed
qed

lemma update_hit:
  assumes ok: "uuht_ok t" and kv: "k \<noteq> 0 \<or> v \<noteq> 0"
    and p: "probe_ok (\<lambda>_. Some True) (u_table t) (uuht_hash k) (Hit idx slot)"
  shows "uuht_ok (t\<lparr>u_table := (u_table t)[unat idx := mk_slot (uuht_hash k) v]\<rparr>)"
    and "uuht_get (t\<lparr>u_table := (u_table t)[unat idx := mk_slot (uuht_hash k) v]\<rparr>) = (uuht_get t)(k \<mapsto> v)"
proof -
  let ?new = "mk_slot (uuht_hash k) v" and ?T = "u_table t" and ?i = "unat idx"
  let ?T' = "?T[?i := ?new]" and ?Te = "?T[?i := 0]"
  let ?t' = "t\<lparr>u_table := ?T'\<rparr>" and ?te = "t\<lparr>u_table := ?Te\<rparr>"
  have i: "?i < length ?T" "?T ! ?i = slot" "slot \<noteq> 0" "slot_lo slot = uuht_hash k"
    using p unfolding probe_ok_def rh_result.case by blast+
  have new: "?new \<noteq> 0" using kv by simp
  have slot: "slot = mk_slot (uuht_hash k) (slot_hi slot)"
    by (metis i(4) mk_slot_lo_hi)
  have dT: "distinct (live_keys ?T)" using ok by (simp add: uuht_ok_def)
  have "mset ?T + {#0#} = mset ?Te + {#slot#}"
    using mset_update_swap [OF i(1), of 0] i(2) by simp
  then have lT: "live ?T = add_mset slot (live ?Te)" using i(3) by (rule live_reinsert)
  have "mset ?T' + {#0#} = mset ?Te + {#?new#}"
    using mset_update_swap [of ?i ?Te ?new] i(1) by simp
  then have lT': "live ?T' = add_mset ?new (live ?Te)" using new by (rule live_reinsert)
  have "mset (live_keys ?T) = mset (uuht_hash k # live_keys ?Te)"
    by (simp add: mset_live_keys lT i(4))
  then have d0: "distinct (uuht_hash k # live_keys ?Te)"
    using mset_eq_imp_distinct_iff dT by blast
  then have g0: "uuht_get ?te k = None" by (simp add: get_None_iff)
  have "uuht_get t = (uuht_get ?te)(k \<mapsto> slot_hi slot)"
    using lT slot d0 g0 by (intro live_add(2)) simp_all
  moreover have new': "distinct (live_keys ?T')" "uuht_get ?t' = (uuht_get ?te)(k \<mapsto> v)"
    using live_add [of ?t' k v ?te] lT' d0 g0 by simp_all
  ultimately show "uuht_get ?t' = (uuht_get t)(k \<mapsto> v)" by simp
  have "RH ?T'"
    using ok i new by (intro RH_replace) (simp_all add: uuht_ok_def home_def)
  then show "uuht_ok ?t'"
    using ok new'(1) lT lT' by (simp add: uuht_ok_def)
qed

lemma uuht_lookup_or_spec:
  assumes "uuht_ok t"
  shows "uuht_lookup_or t k u = Some (case uuht_get t k of None \<Rightarrow> u | Some v \<Rightarrow> v)"
proof -
  obtain r where r: "uuht_probe t (uuht_hash k) = Some r"
    "probe_ok (\<lambda>_. Some True) (u_table t) (uuht_hash k) r"
    using probe_total [OF assms] by blast
  show ?thesis
  proof (cases r)
    case (Hit idx slot)
    then show ?thesis using r hit_get [OF assms, of k idx slot] by (simp add: uuht_lookup_or_def)
  qed (use r absent_get [of t k] in \<open>auto simp: uuht_lookup_or_def probe_ok_def\<close>)
qed

lemma uuht_contains_spec:
  assumes "uuht_ok t"
  shows "uuht_contains t k = Some (case uuht_get t k of None \<Rightarrow> 0 | Some v \<Rightarrow> mk_slot (uuht_hash k) v)"
proof -
  obtain r where r: "uuht_probe t (uuht_hash k) = Some r"
    "probe_ok (\<lambda>_. Some True) (u_table t) (uuht_hash k) r"
    using probe_total [OF assms] by blast
  show ?thesis
  proof (cases r)
    case (Hit idx slot)
    then have "mk_slot (uuht_hash k) (slot_hi slot) = slot"
      using r(2) mk_slot_lo_hi [of slot] by (simp add: probe_ok_def)
    then show ?thesis using r Hit hit_get [OF assms, of k idx slot] by (simp add: uuht_contains_def)
  qed (use r absent_get [of t k] in \<open>auto simp: uuht_contains_def probe_ok_def\<close>)
qed

text \<open>Key 0 with value 0 cannot be stored; every other insertion updates the map.\<close>

definition map_put :: "(u32 \<Rightarrow> u32 option) \<Rightarrow> u32 \<Rightarrow> u32 \<Rightarrow> u32 \<Rightarrow> u32 option" where
  "map_put f k v = (if k = 0 \<and> v = 0 then f else f(k \<mapsto> v))"

lemma uuht_set_spec:
  assumes ok: "uuht_ok t" and room: "uuht_room t"
  shows "\<exists>t'. uuht_set t k v = Some (t', case uuht_get t k of None \<Rightarrow> 0 | Some u \<Rightarrow> u) \<and>
    uuht_ok t' \<and> uuht_get t' = map_put (uuht_get t) k v"
proof -
  obtain r where r: "uuht_probe t (uuht_hash k) = Some r"
    "probe_ok (\<lambda>_. Some True) (u_table t) (uuht_hash k) r"
    using probe_total [OF ok] by blast
  show ?thesis
  proof (cases "\<exists>idx slot. r = Hit idx slot")
    case True
    then obtain idx slot where h: "r = Hit idx slot" by blast
    note g = hit_get [OF ok r(2) [unfolded h]]
    show ?thesis
      using r h g update_hit [OF ok _ r(2) [unfolded h], where v = v] ok
      by (cases "k = 0 \<and> v = 0") (auto simp: uuht_set_def Let_def map_put_def)
  next
    case False
    then show ?thesis
      using put_spec(1) [OF ok room r(2)] put_spec(2) [OF ok room r(2), of v] r(1)
      by (cases r) (auto simp: uuht_set_def Let_def with_result_def map_put_def)
  qed
qed

lemma uuht_lookup_or_set_spec:
  assumes ok: "uuht_ok t" and room: "uuht_room t"
  shows "\<exists>t'. uuht_lookup_or_set t k v = Some (t', case uuht_get t k of None \<Rightarrow> v | Some u \<Rightarrow> u) \<and>
    uuht_ok t' \<and> uuht_get t' = (if uuht_get t k = None then map_put (uuht_get t) k v else uuht_get t)"
proof -
  obtain r where r: "uuht_probe t (uuht_hash k) = Some r"
    "probe_ok (\<lambda>_. Some True) (u_table t) (uuht_hash k) r"
    using probe_total [OF ok] by blast
  show ?thesis
  proof (cases "\<exists>idx slot. r = Hit idx slot")
    case True
    then obtain idx slot where h: "r = Hit idx slot" by blast
    show ?thesis
      using r h hit_get [OF ok r(2) [unfolded h]] ok by (simp add: uuht_lookup_or_set_def Let_def)
  next
    case False
    then show ?thesis
      using put_spec(1) [OF ok room r(2)] put_spec(2) [OF ok room r(2), of v] r(1)
      by (cases r) (auto simp: uuht_lookup_or_set_def Let_def with_result_def map_put_def)
  qed
qed

lemma uuht_set_if_absent_spec:
  assumes ok: "uuht_ok t" and room: "uuht_room t"
  shows "\<exists>t'. uuht_set_if_absent t k v = Some (t', case uuht_get t k of None \<Rightarrow> 0 | Some u \<Rightarrow> u) \<and>
    uuht_ok t' \<and> uuht_get t' = (if uuht_get t k = None then map_put (uuht_get t) k v else uuht_get t)"
proof -
  obtain r where r: "uuht_probe t (uuht_hash k) = Some r"
    "probe_ok (\<lambda>_. Some True) (u_table t) (uuht_hash k) r"
    using probe_total [OF ok] by blast
  show ?thesis
  proof (cases "\<exists>idx slot. r = Hit idx slot")
    case True
    then obtain idx slot where h: "r = Hit idx slot" by blast
    show ?thesis
      using r h hit_get [OF ok r(2) [unfolded h]] ok by (simp add: uuht_set_if_absent_def Let_def)
  next
    case False
    then show ?thesis
      using put_spec(1) [OF ok room r(2)] put_spec(2) [OF ok room r(2), of v] r(1)
      by (cases r) (auto simp: uuht_set_if_absent_def Let_def with_result_def map_put_def)
  qed
qed

lemma count_card:
  assumes "uuht_ok t"
  shows "unat (u_count t) = card (dom (uuht_get t))"
proof -
  have "dom (uuht_get t) = uuht_hash -` set (live_keys (u_table t))"
    using get_None_iff [of t] by (auto simp: dom_def)
  also have "card \<dots> = card (set (live_keys (u_table t)))"
    by (rule card_vimage_inj) (auto simp: inj_def hash_inj image_iff intro: hash_unhash [symmetric])
  also have "\<dots> = length (live_keys (u_table t))"
    using assms by (intro distinct_card) (simp add: uuht_ok_def)
  also have "\<dots> = size (live (u_table t))"
    by (simp add: live_keys_def size_live)
  finally show ?thesis using assms by (simp add: uuht_ok_def)
qed

lemma uuht_init_ok [simp]: "uuht_ok uuht_init" "uuht_get uuht_init = Map.empty"
proof -
  have "table_size (replicate 8 (0 :: u64)) 7"
    unfolding table_size_def by (intro exI [of _ 3]) (simp add: mask_eq_exp_minus_1)
  then show "uuht_ok uuht_init"
    unfolding uuht_ok_def uuht_init_def uuht.simps live_keys_def live_empty by simp
  show "uuht_get uuht_init = Map.empty"
    by (simp add: uuht_get_def uuht_init_def fun_eq_iff)
qed

lemma uuht_clear_ok:
  assumes "uuht_ok t"
  shows "uuht_ok (uuht_clear t)" and "uuht_get (uuht_clear t) = Map.empty"
proof -
  have n: "length (u_table t) = unat (u_mask t) + 1"
    using assms table_size_bounds(3) by (simp add: uuht_ok_def)
  then have T: "u_table (uuht_clear t) = replicate (length (u_table t)) 0" by (simp add: uuht_clear_def)
  have "table_size (replicate (length (u_table t)) 0) (u_mask t)"
    using assms by (simp add: uuht_ok_def table_size_def)
  moreover have "0 < unat (u_mask t)" using assms by (simp add: uuht_ok_def)
  ultimately show "uuht_ok (uuht_clear t)"
    unfolding uuht_ok_def T live_keys_def live_empty RH_empty by (simp add: uuht_clear_def)
  show "uuht_get (uuht_clear t) = Map.empty"
    unfolding uuht_get_def T by (simp add: fun_eq_iff)
qed

subsection \<open>The interface of a 32-bit map\<close>

text \<open>
  What the clients of uuht rely on: a partial map with the operations the header documents,
  as long as it holds fewer than \<open>limit\<close> keys.
\<close>

definition or_else :: "'a option \<Rightarrow> 'a \<Rightarrow> 'a" where
  "or_else r d = (case r of None \<Rightarrow> d | Some v \<Rightarrow> v)"

locale u32_map =
  fixes inv :: "'t \<Rightarrow> bool"
    and get :: "'t \<Rightarrow> u32 \<Rightarrow> u32 option"
    and put :: "'t \<Rightarrow> u32 \<Rightarrow> u32 \<Rightarrow> ('t \<times> u32) option"
    and put_new :: "'t \<Rightarrow> u32 \<Rightarrow> u32 \<Rightarrow> ('t \<times> u32) option"
    and look :: "'t \<Rightarrow> u32 \<Rightarrow> u32 \<Rightarrow> u32 option"
    and limit :: nat
  assumes put_law: "inv t \<Longrightarrow> card (dom (get t)) < limit \<Longrightarrow>
      \<exists>t'. put t k v = Some (t', or_else (get t k) 0) \<and> inv t' \<and> get t' = map_put (get t) k v"
    and put_new_law: "inv t \<Longrightarrow> card (dom (get t)) < limit \<Longrightarrow>
      \<exists>t'. put_new t k v = Some (t', or_else (get t k) v) \<and> inv t' \<and>
        get t' = (if get t k = None then map_put (get t) k v else get t)"
    and look_law: "inv t \<Longrightarrow> look t k u = Some (or_else (get t k) u)"
begin

fun puts :: "'t \<Rightarrow> (u32 \<times> u32) list \<Rightarrow> 't option" where
  "puts t [] = Some t"
| "puts t ((k, v) # kvs) = (case put t k v of None \<Rightarrow> None | Some (t', old) \<Rightarrow> puts t' kvs)"

lemma card_dom_put: "card (dom (map_put f k v)) \<le> Suc (card (dom f))"
  by (simp add: map_put_def card_insert_if)

lemma puts_map:
  assumes "inv t" and "card (dom (get t)) + length kvs \<le> limit"
    and "\<forall>(k, v) \<in> set kvs. k \<noteq> 0 \<or> v \<noteq> 0"
  shows "\<exists>t'. puts t kvs = Some t' \<and> inv t' \<and> get t' = get t ++ map_of (rev kvs)"
  using assms
proof (induction kvs arbitrary: t)
  case (Cons kv kvs)
  obtain k v where kv: "kv = (k, v)" by (cases kv)
  obtain t1 where t1: "put t k v = Some (t1, or_else (get t k) 0)" "inv t1"
    "get t1 = map_put (get t) k v"
    using put_law [OF Cons.prems(1), of k v] Cons.prems(2) by auto
  have "card (dom (get t1)) + length kvs \<le> limit"
    using card_dom_put [of "get t" k v] Cons.prems(2) t1(3) by simp
  then obtain t' where t': "puts t1 kvs = Some t'" "inv t'" "get t' = get t1 ++ map_of (rev kvs)"
    using Cons.IH [OF t1(2)] Cons.prems(3) by auto
  have "get t1 = (get t)(k \<mapsto> v)" using t1(3) Cons.prems(3) by (auto simp: map_put_def kv)
  then show ?case using t1(1) t'(1-3) by (simp add: kv map_add_assoc [symmetric])
qed simp

text \<open>Interning: the first value given to a key is the one every later call returns.\<close>

lemma put_new_stable:
  assumes "inv t" and "card (dom (get t)) < limit" and "k \<noteq> 0 \<or> v \<noteq> 0"
    and "put_new t k v = Some (t', w)"
  shows "look t' k u = Some w" and "j \<noteq> k \<Longrightarrow> look t' j u = look t j u"
  using put_new_law [OF assms(1,2), of k v] assms look_law
  by (auto simp: or_else_def map_put_def split: option.splits if_splits)

end

text \<open>How many keys fit before a 32-bit mask cannot double any more.\<close>

abbreviation uuht_limit :: nat where
  "uuht_limit \<equiv> 0xBFFFFFFF"

lemma uuht_room_iff: "uuht_ok t \<Longrightarrow> uuht_room t \<longleftrightarrow> card (dom (uuht_get t)) < uuht_limit"
  using count_card [of t] by (auto simp: uuht_room_def)

interpretation uuht: u32_map uuht_ok uuht_get uuht_set uuht_lookup_or_set uuht_lookup_or uuht_limit
proof (unfold_locales, goal_cases)
  case (1 t k v)
  then show ?case using uuht_set_spec [of t k v] by (simp add: uuht_room_iff or_else_def)
next
  case (2 t k v)
  then show ?case using uuht_lookup_or_set_spec [of t k v] by (simp add: uuht_room_iff or_else_def)
next
  case (3 t k u)
  then show ?case using uuht_lookup_or_spec [of t k u] by (simp add: or_else_def)
qed

subsection \<open>Properties\<close>

text \<open>
  \<open>uuht_unhash\<close> and \<open>uuht_hash\<close> are inverse to each other and zero hashes to zero, so
  the hash stored in a slot identifies its key and only key 0 may look like an empty slot.
\<close>

theorem uuht_hash_bijective:
  "uuht_unhash (uuht_hash h) = h \<and> uuht_hash (uuht_unhash h) = h \<and> (uuht_hash h = 0) = (h = 0)"
  by (simp add: unhash_hash hash_unhash)

text \<open>
  C4: \<open>uuht_set\<close> returns (its loops end within the table), returns the old value or zero,
  keeps the invariant through the displacement of other slots and the growth of the table,
  and updates the map at the one key (except for the documented pair of zeros).
\<close>

theorem uuht_set_correct:
  assumes "uuht_ok t" and "card (dom (uuht_get t)) < uuht_limit"
  shows "\<exists>t'. uuht_set t k v = Some (t', or_else (uuht_get t k) 0) \<and> uuht_ok t' \<and>
    uuht_get t' = (if k = 0 \<and> v = 0 then uuht_get t else (uuht_get t)(k \<mapsto> v))"
  using uuht.put_law [OF assms, of k v] by (simp add: map_put_def)

lemma uuht_set_correct_witness:
  "\<exists>t'. uuht_set uuht_init 5 6 = Some (t', 0) \<and> uuht_get t' = [5 \<mapsto> 6]"
  using uuht_set_correct [of uuht_init 5 6] by (auto simp: or_else_def)

text \<open>
  \<open>uuht_lookup_or\<close> and \<open>uuht_contains\<close> return on every well-formed table, the value of
  the key when it has one, the default or zero when not.
\<close>

theorem uuht_lookup_correct:
  assumes "uuht_ok t"
  shows "uuht_lookup_or t k u = Some (or_else (uuht_get t k) u) \<and>
    uuht_contains t k = Some (case uuht_get t k of None \<Rightarrow> 0 | Some v \<Rightarrow> mk_slot (uuht_hash k) v)"
  using uuht.look_law [OF assms] uuht_contains_spec [OF assms] by simp

lemma uuht_lookup_correct_witness: "uuht_lookup_or uuht_init 9 4 = Some 4"
  using uuht_lookup_correct [OF uuht_init_ok(1), of 9 4] by (simp add: or_else_def)

text \<open>
  \<open>uuht_set_if_absent\<close> and \<open>uuht_lookup_or_set\<close> insert the pair only when the key is
  absent; the first then returns zero and the second the new value, and both return the
  existing value otherwise.
\<close>

theorem uuht_insert_if_absent_correct:
  assumes "uuht_ok t" and "card (dom (uuht_get t)) < uuht_limit"
  shows "\<exists>t1 t2. uuht_set_if_absent t k v = Some (t1, or_else (uuht_get t k) 0) \<and>
    uuht_lookup_or_set t k v = Some (t2, or_else (uuht_get t k) v) \<and>
    uuht_ok t1 \<and> uuht_ok t2 \<and> uuht_get t1 = uuht_get t2 \<and>
    uuht_get t2 = (if uuht_get t k = None \<and> (k, v) \<noteq> (0, 0) then (uuht_get t)(k \<mapsto> v) else uuht_get t)"
proof -
  have "uuht_room t" using assms by (simp add: uuht_room_iff)
  then show ?thesis
    using uuht_set_if_absent_spec [OF assms(1), of k v] uuht.put_new_law [OF assms, of k v]
    by (auto simp: or_else_def map_put_def)
qed

lemma uuht_insert_if_absent_correct_witness:
  "\<exists>t. uuht_lookup_or_set uuht_init 7 8 = Some (t, 8) \<and> uuht_get t = [7 \<mapsto> 8]"
  using uuht_insert_if_absent_correct [of uuht_init 7 8] by (auto simp: or_else_def)

text \<open>
  C5: a cleared table is empty, and after any sequence of \<open>uuht_set\<close> calls on it, growing as
  often as it needs, every lookup returns the last value set for its key.
\<close>

theorem uuht_sets_then_lookup:
  assumes "uuht_ok t" and "length kvs \<le> uuht_limit" and "\<forall>(k, v) \<in> set kvs. k \<noteq> 0 \<or> v \<noteq> 0"
  shows "\<exists>t'. uuht.puts (uuht_clear t) kvs = Some t' \<and> uuht_ok t' \<and>
    (\<forall>k u. uuht_lookup_or t' k u = Some (or_else (map_of (rev kvs) k) u))"
  using uuht.puts_map [OF uuht_clear_ok(1) [OF assms(1)], of kvs] assms
  by (auto simp: uuht_clear_ok(2) uuht.look_law)

lemma uuht_sets_then_lookup_witness:
  "\<exists>t'. uuht.puts (uuht_clear uuht_init) [(1, 2), (3, 4), (1, 5)] = Some t' \<and>
    uuht_lookup_or t' 1 0 = Some 5"
  using uuht_sets_then_lookup [of uuht_init "[(1, 2), (3, 4), (1, 5)]"] by (auto simp: or_else_def)

end
