(* ===== verification/Bytes.thy ===== *)
theory Bytes
  imports Prelude
begin

section \<open>Bytes, little-endian integers and byte memories\<close>

text \<open>
  Memory the program reads at several widths is a partial map from byte offsets to bytes:
  \<open>None\<close> is a byte the block does not have, or one nothing has written yet. Integers are
  stored in the little-endian order of the host.
\<close>

type_synonym mem = "nat \<Rightarrow> u8 option"

definition u32_bytes :: "u32 \<Rightarrow> u8 list" where
  "u32_bytes w = [ucast w, ucast (drop_bit 8 w), ucast (drop_bit 16 w), ucast (drop_bit 24 w)]"

fun u32_of_bytes :: "u8 list \<Rightarrow> u32" where
  "u32_of_bytes [a, b, c, d] =
    ucast a OR push_bit 8 (ucast b) OR push_bit 16 (ucast c) OR push_bit 24 (ucast d)"
| "u32_of_bytes _ = 0"

lemma length_u32_bytes [simp]: "length (u32_bytes w) = 4"
  by (simp add: u32_bytes_def)

lemma u32_of_bytes_bytes [simp]: "u32_of_bytes (u32_bytes w) = w"
proof (rule bit_word_eqI)
  fix n assume n: "n < LENGTH(32)"
  consider "n < 8" | "8 \<le> n" "n < 16" | "16 \<le> n" "n < 24" | "24 \<le> n" by linarith
  then show "bit (u32_of_bytes (u32_bytes w)) n = bit w n"
    using n by cases (auto simp: u32_bytes_def bit_simps)
qed

fun mem_read :: "mem \<Rightarrow> nat \<Rightarrow> nat \<Rightarrow> u8 list option" where
  "mem_read m a 0 = Some []"
| "mem_read m a (Suc n) = (case m a of
     None \<Rightarrow> None
   | Some b \<Rightarrow> (case mem_read m (Suc a) n of None \<Rightarrow> None | Some bs \<Rightarrow> Some (b # bs)))"

fun mem_write :: "mem \<Rightarrow> nat \<Rightarrow> u8 list \<Rightarrow> mem" where
  "mem_write m a [] = m"
| "mem_write m a (b # bs) = mem_write (m(a \<mapsto> b)) (Suc a) bs"

definition mem_read32 :: "mem \<Rightarrow> nat \<Rightarrow> u32 option" where
  "mem_read32 m a = (case mem_read m a 4 of None \<Rightarrow> None | Some bs \<Rightarrow> Some (u32_of_bytes bs))"

definition holds :: "mem \<Rightarrow> nat \<Rightarrow> u8 list \<Rightarrow> bool" where
  "holds m a bs \<longleftrightarrow> (\<forall>i < length bs. m (a + i) = Some (bs ! i))"

lemma holds_Nil [simp]: "holds m a []"
  by (simp add: holds_def)

lemma holds_Cons: "holds m a (b # bs) \<longleftrightarrow> m a = Some b \<and> holds m (Suc a) bs"
  by (auto simp: holds_def less_Suc_eq_0_disj)

lemma holds_append: "holds m a (bs @ cs) \<longleftrightarrow> holds m a bs \<and> holds m (a + length bs) cs"
  by (induction bs arbitrary: a) (auto simp: holds_Cons)

lemma mem_read_holds: "holds m a bs \<Longrightarrow> mem_read m a (length bs) = Some bs"
  by (induction bs arbitrary: a) (auto simp: holds_Cons)

lemma holds_mem_read: "mem_read m a n = Some bs \<Longrightarrow> length bs = n \<and> holds m a bs"
  by (induction m a n arbitrary: bs rule: mem_read.induct)
    (auto simp: holds_Cons split: option.splits)

lemma mem_read_eq_iff: "mem_read m a n = Some bs \<longleftrightarrow> length bs = n \<and> holds m a bs"
  using mem_read_holds holds_mem_read by metis

lemma mem_write_apply:
  "mem_write m a bs i = (if a \<le> i \<and> i < a + length bs then Some (bs ! (i - a)) else m i)"
proof (induction m a bs rule: mem_write.induct)
  case (2 m a b bs)
  have "Suc a \<le> i \<Longrightarrow> (b # bs) ! (i - a) = bs ! (i - Suc a)" by (simp add: nth_Cons')
  then show ?case unfolding mem_write.simps 2 by (auto simp: nth_Cons')
qed auto

lemma mem_write_below: "i < a \<Longrightarrow> mem_write m a bs i = m i"
  by (simp add: mem_write_apply)

lemma holds_write_same: "holds (mem_write m a bs) a bs"
  by (simp add: holds_def mem_write_apply)

lemma holds_write_other:
  "a' + length cs \<le> a \<or> a + length bs \<le> a' \<Longrightarrow> holds (mem_write m a bs) a' cs = holds m a' cs"
proof -
  assume "a' + length cs \<le> a \<or> a + length bs \<le> a'"
  then have "i < length cs \<Longrightarrow> mem_write m a bs (a' + i) = m (a' + i)" for i
    by (subst mem_write_apply) auto
  then show ?thesis by (auto simp: holds_def)
qed

lemma mem_read32_holds: "holds m a (u32_bytes w) \<Longrightarrow> mem_read32 m a = Some w"
  using mem_read_holds [of m a "u32_bytes w"] by (simp add: mem_read32_def)

end
