(* ===== verification/Sht.thy ===== *)
theory Sht
  imports RobinHood Bytes
begin

section \<open>sht.c: the hash table with byte-string keys\<close>

text \<open>
  The contents block is a byte memory whose first 12 bytes are the metadata struct (here the
  fields \<open>s_size\<close>, \<open>s_capacity\<close> and \<open>s_value_length\<close>, counted in 32-bit units); the
  entries follow, each \<open>padding, key, NUL, key length, value\<close>. An entry is named by the unit
  index \<open>u\<close> of its value. \<open>malloc\<close> and \<open>realloc\<close> succeed; bytes nothing has written are
  \<open>None\<close>, and a read of one, or an access outside the block, makes the operation \<open>None\<close>.
\<close>

record sht =
  s_mem :: mem
  s_size :: u32
  s_capacity :: u32
  s_value_length :: u32
  s_table :: "u64 list"
  s_mask :: u32
  s_count :: u32

definition rol :: "u32 \<Rightarrow> nat \<Rightarrow> u32" where
  "rol x n = push_bit n x OR drop_bit (32 - n) x"

definition getu32 :: "u8 list \<Rightarrow> nat \<Rightarrow> u32 option" where
  "getu32 str p = (if p + 4 \<le> length str then Some (u32_of_bytes (take 4 (drop p str))) else None)"

definition getu8 :: "u8 list \<Rightarrow> nat \<Rightarrow> u32 option" where
  "getu8 str p = (if p < length str then Some (ucast (str ! p)) else None)"

text \<open>The \<open>do ... while\<close> over the blocks of a key longer than 12 bytes.\<close>

function hash_blocks :: "u8 list \<Rightarrow> nat \<Rightarrow> nat \<Rightarrow> nat \<Rightarrow> u32 \<times> u32 \<times> u32 \<Rightarrow> (u32 \<times> u32 \<times> u32) option" where
  "hash_blocks str pe p q (a, b, h) =
    (case (getu32 str p, getu32 str (p + 4), getu32 str (p + 8)) of
       (Some x, Some y, Some z) \<Rightarrow>
         (let b = b + x; h = h + y; a = a + z;
              p = q; q = q + 12;
              a = a XOR h; a = a - rol h 14;
              b = b XOR a; b = b - rol a 11;
              h = h XOR b; h = h - rol b 25
          in if p < pe then hash_blocks str pe p q (a, b, h) else Some (a, b, h))
     | _ \<Rightarrow> None)"
  by pat_completeness auto
termination
  by (relation "measure (\<lambda>(str, pe, p, q, abh). (if p < pe then 0 else 1) + (pe - q))") auto

declare hash_blocks.simps [simp del]

definition hash_finish :: "u32 \<times> u32 \<times> u32 \<Rightarrow> u32" where
  "hash_finish = (\<lambda>(a, b, h).
     let a = a XOR h; a = a - rol h 11;
         b = b XOR a; b = b - rol a 25;
         h = h XOR b; h = h - rol b 16
     in h)"

definition sht_hash_mem :: "u8 list \<Rightarrow> u32 option" where
  "sht_hash_mem str =
    (let len = length str; h = (of_nat len :: u32) in
     map_option hash_finish
      (if len > 12 then hash_blocks str (len - 12) (len - 12) 0 (0, 0, h)
       else if len \<ge> 4 then
         (case (getu32 str 0, getu32 str (len - 4), getu32 str (len div 2 - 2), getu32 str (len div 4 - 1)) of
            (Some x, Some y, Some z, Some w) \<Rightarrow>
              (let a = x; h = h XOR y; b = z; h = h XOR b; h = h - rol b 14; b = b + w
               in Some (a, b, h))
          | _ \<Rightarrow> None)
       else if len \<noteq> 0 then
         (case (getu8 str 0, getu8 str (len - 1), getu8 str (len div 2)) of
            (Some x, Some y, Some z) \<Rightarrow>
              (let a = x; h = h XOR y; b = z; h = h XOR b; h = h - rol b 14
               in Some (a, b, h))
          | _ \<Rightarrow> None)
       else Some (0, 0, h)))"

definition sht_init :: "u32 \<Rightarrow> sht" where
  "sht_init value_len =
    \<lparr>s_mem = Map.empty, s_size = 3, s_capacity = 16, s_value_length = (value_len + 3) div 4,
     s_table = replicate 4 0, s_mask = 3, s_count = 0\<rparr>"

definition sht_clear :: "sht \<Rightarrow> sht" where
  "sht_clear s =
    (if s_count s \<noteq> 0 then
       s\<lparr>s_count := 0, s_size := 3,
         s_table := replicate (unat (s_mask s) + 1) 0 @ drop (unat (s_mask s) + 1) (s_table s)\<rparr>
     else s)"

text \<open>A write of bytes into the contents block, past the metadata and within the capacity.\<close>

definition put_contents :: "sht \<Rightarrow> nat \<Rightarrow> u8 list \<Rightarrow> sht option" where
  "put_contents s at bs =
    (if 12 \<le> at \<and> at + length bs \<le> 4 * unat (s_capacity s)
     then Some (s\<lparr>s_mem := mem_write (s_mem s) at bs\<rparr>) else None)"

definition add_to_contents :: "sht \<Rightarrow> u8 list \<Rightarrow> (sht \<times> u32) option" where
  "add_to_contents s key =
    (let key_len = of_nat (length key) :: u32;
         result_u = s_size s + (key_len + 8) div 4;
         new_size = result_u + s_value_length s;
         s = (if new_size > s_capacity s then
                let new_capacity = s_capacity s * 2;
                    new_capacity = (if new_capacity < new_size then new_size else new_capacity)
                in s\<lparr>s_capacity := new_capacity\<rparr>
              else s);
         s = s\<lparr>s_size := new_size\<rparr>;
         u = unat result_u
     in case put_contents s (4 * u) (replicate (4 * unat (s_value_length s)) 0) of None \<Rightarrow> None
        | Some s \<Rightarrow> (case put_contents s (4 * u - 4) (u32_bytes key_len) of None \<Rightarrow> None
        | Some s \<Rightarrow> (case put_contents s (4 * u - 8) [0, 0, 0, 0] of None \<Rightarrow> None
        | Some s \<Rightarrow> (case put_contents s (4 * u - 5 - length key) key of None \<Rightarrow> None
        | Some s \<Rightarrow> Some (s, result_u)))))"

text \<open>\<open>ptr[-1] == key_len && !memcmp((char*)(ptr - 1) - 1 - key_len, key, key_len)\<close>\<close>

definition key_at :: "sht \<Rightarrow> u8 list \<Rightarrow> u64 \<Rightarrow> bool option" where
  "key_at s key slot =
    (let u = unat (slot_hi slot) in
     case mem_read32 (s_mem s) (4 * u - 4) of
       None \<Rightarrow> None
     | Some n \<Rightarrow>
         if n = of_nat (length key) then
           (if 4 * u < 5 + length key then None
            else case mem_read (s_mem s) (4 * u - 5 - length key) (length key) of
                   None \<Rightarrow> None | Some bs \<Rightarrow> Some (bs = key))
         else Some False)"

definition sht_rehash :: "sht \<Rightarrow> sht option" where
  "sht_rehash s = (case rehash_table (s_table s) (s_mask s) of
     None \<Rightarrow> None
   | Some (table, msk) \<Rightarrow> Some (s\<lparr>s_table := table, s_mask := msk\<rparr>))"

text \<open>\<open>if (++sht->count * 4ull >= sht->mask * 3ull) rehash(sht)\<close>\<close>

definition sht_grow :: "sht \<Rightarrow> sht option" where
  "sht_grow s =
    (let s = s\<lparr>s_count := s_count s + 1\<rparr>
     in if load_full (s_count s) (s_mask s) then sht_rehash s else Some s)"

definition sht_intern_u :: "sht \<Rightarrow> u8 list \<Rightarrow> (sht \<times> u32) option" where
  "sht_intern_u s key = (case sht_hash_mem key of None \<Rightarrow> None | Some hash \<Rightarrow>
    (case rh_probe (key_at s key) (s_table s) (s_mask s) hash 0 of
       None \<Rightarrow> None
     | Some (Empty idx) \<Rightarrow>
         (case add_to_contents s key of None \<Rightarrow> None
          | Some (s, result_u) \<Rightarrow>
              (case sht_grow (s\<lparr>s_table := (s_table s)[unat idx := mk_slot hash result_u]\<rparr>) of
                 None \<Rightarrow> None | Some s \<Rightarrow> Some (s, result_u)))
     | Some (Hit idx slot) \<Rightarrow> Some (s, slot_hi slot)
     | Some (Richer idx slot d2) \<Rightarrow>
         (case add_to_contents s key of None \<Rightarrow> None
          | Some (s, result_u) \<Rightarrow>
              (case reinsert ((s_table s)[unat idx := mk_slot hash result_u]) (s_mask s) slot d2 of
                 None \<Rightarrow> None
               | Some table \<Rightarrow>
                   (case sht_grow (s\<lparr>s_table := table\<rparr>) of
                      None \<Rightarrow> None | Some s \<Rightarrow> Some (s, result_u))))))"

definition sht_lookup_u :: "sht \<Rightarrow> u8 list \<Rightarrow> u32 option" where
  "sht_lookup_u s key = (case sht_hash_mem key of None \<Rightarrow> None | Some hash \<Rightarrow>
    (case rh_probe (key_at s key) (s_table s) (s_mask s) hash 0 of
       None \<Rightarrow> None
     | Some (Empty idx) \<Rightarrow> Some 0
     | Some (Hit idx slot) \<Rightarrow> Some (slot_hi slot)
     | Some (Richer idx slot d2) \<Rightarrow> Some 0))"

text \<open>
  The pointer versions: a value pointer is its byte offset in the contents block; \<open>Some None\<close>
  is the null pointer.
\<close>

definition sht_intern_p :: "sht \<Rightarrow> u8 list \<Rightarrow> (sht \<times> nat) option" where
  "sht_intern_p s key =
    (case sht_intern_u s key of None \<Rightarrow> None | Some (s, u) \<Rightarrow> Some (s, 4 * unat u))"

definition sht_lookup_p :: "sht \<Rightarrow> u8 list \<Rightarrow> nat option option" where
  "sht_lookup_p s key = (case sht_hash_mem key of None \<Rightarrow> None | Some hash \<Rightarrow>
    (case rh_probe (key_at s key) (s_table s) (s_mask s) hash 0 of
       None \<Rightarrow> None
     | Some (Empty idx) \<Rightarrow> Some None
     | Some (Hit idx slot) \<Rightarrow> Some (Some (4 * unat (slot_hi slot)))
     | Some (Richer idx slot d2) \<Rightarrow> Some None))"

definition sht_iter_start_p :: "sht \<Rightarrow> nat option" where
  "sht_iter_start_p s =
    (if s_size s \<le> 3 then None else Some (4 * (unat (s_size s) - unat (s_value_length s))))"

definition sht_iter_next_p :: "sht \<Rightarrow> nat \<Rightarrow> nat option option" where
  "sht_iter_next_p s p =
    (case mem_read32 (s_mem s) (p - 4) of
       None \<Rightarrow> None
     | Some n \<Rightarrow>
         let pu = p - 4 * (unat (n + 8) div 4)
         in if pu \<le> 12 then Some None else Some (Some (pu - 4 * unat (s_value_length s))))"

definition sht_p_key :: "sht \<Rightarrow> nat \<Rightarrow> u8 list option" where
  "sht_p_key s p =
    (case mem_read32 (s_mem s) (p - 4) of
       None \<Rightarrow> None
     | Some n \<Rightarrow> mem_read (s_mem s) (p - 5 - unat n) (unat n))"

text \<open>The loop of a client: \<open>for (p = sht_iter_start_p(s); p; p = sht_iter_next_p(s, p))\<close>.\<close>

partial_function (option) sht_iterate :: "sht \<Rightarrow> nat option \<Rightarrow> nat list option" where
  "sht_iterate s p = (case p of
     None \<Rightarrow> Some []
   | Some p \<Rightarrow> (case sht_iter_next_p s p of None \<Rightarrow> None
       | Some p' \<Rightarrow> Option.bind (sht_iterate s p') (\<lambda>ps. Some (p # ps))))"

subsection \<open>Hashing reads only the key\<close>

lemma getu32_in: "p + 4 \<le> length str \<Longrightarrow> \<exists>x. getu32 str p = Some x"
  by (simp add: getu32_def)

lemma getu8_in: "p < length str \<Longrightarrow> \<exists>x. getu8 str p = Some x"
  by (simp add: getu8_def)

lemma hash_blocks_in:
  "p + 12 \<le> length str \<Longrightarrow> pe + 12 \<le> length str \<Longrightarrow> \<exists>r. hash_blocks str pe p q abh = Some r"
proof (induction str pe p q abh rule: hash_blocks.induct)
  case (1 str pe p q a b h)
  obtain x y z where "getu32 str p = Some x" "getu32 str (p + 4) = Some y" "getu32 str (p + 8) = Some z"
    using 1 getu32_in [of p str] getu32_in [of "p + 4" str] getu32_in [of "p + 8" str] by auto
  then show ?case
    using 1 by (subst hash_blocks.simps) (simp add: Let_def)
qed

lemma hash_total: "\<exists>h. sht_hash_mem key = Some h"
proof -
  let ?n = "length key"
  consider "?n > 12" | "4 \<le> ?n" "?n \<le> 12" | "0 < ?n" "?n < 4" | "?n = 0" by linarith
  then show ?thesis
  proof cases
    case 1
    then show ?thesis
      using hash_blocks_in [of "?n - 12" key "?n - 12" 0 "(0, 0, of_nat ?n)"]
      by (auto simp: sht_hash_mem_def Let_def)
  next
    case 2
    obtain x y z w where "getu32 key 0 = Some x" "getu32 key (?n - 4) = Some y"
      "getu32 key (?n div 2 - 2) = Some z" "getu32 key (?n div 4 - 1) = Some w"
      using 2 getu32_in [of 0 key] getu32_in [of "?n - 4" key] getu32_in [of "?n div 2 - 2" key]
        getu32_in [of "?n div 4 - 1" key] by fastforce
    then show ?thesis using 2 by (auto simp: sht_hash_mem_def Let_def)
  next
    case 3
    obtain x y z where "getu8 key 0 = Some x" "getu8 key (?n - 1) = Some y" "getu8 key (?n div 2) = Some z"
      using 3 getu8_in [of 0 key] getu8_in [of "?n - 1" key] getu8_in [of "?n div 2" key] by fastforce
    then show ?thesis using 3 by (auto simp: sht_hash_mem_def Let_def)
  next
    case 4
    then show ?thesis by (auto simp: sht_hash_mem_def Let_def)
  qed
qed

subsection \<open>The layout of the contents block\<close>

text \<open>
  The keys in the order they were interned determine where every value is: \<open>layout v n ks\<close>
  pairs each key with its unit index, from unit \<open>n\<close> on and with values of \<open>v\<close> units.
\<close>

definition key_units :: "u8 list \<Rightarrow> nat" where
  "key_units k = (length k + 8) div 4"

fun layout :: "nat \<Rightarrow> nat \<Rightarrow> u8 list list \<Rightarrow> (u8 list \<times> nat) list" where
  "layout v n [] = []"
| "layout v n (k # ks) = (k, n + key_units k) # layout v (n + key_units k + v) ks"

fun layout_end :: "nat \<Rightarrow> nat \<Rightarrow> u8 list list \<Rightarrow> nat" where
  "layout_end v n [] = n"
| "layout_end v n (k # ks) = layout_end v (n + key_units k + v) ks"

lemma layout_snoc:
  "layout v n (ks @ [k]) = layout v n ks @ [(k, layout_end v n ks + key_units k)]"
  by (induction v n ks rule: layout.induct) auto

lemma layout_end_snoc: "layout_end v n (ks @ [k]) = layout_end v n ks + key_units k + v"
  by (induction v n ks rule: layout.induct) auto

lemma map_fst_layout [simp]: "map fst (layout v n ks) = ks"
  by (induction v n ks rule: layout.induct) auto

lemma length_layout [simp]: "length (layout v n ks) = length ks"
  by (induction v n ks rule: layout.induct) auto

lemma layout_end_ge: "n + 2 * length ks \<le> layout_end v n ks"
proof (induction v n ks rule: layout.induct)
  case (2 v n k ks)
  have "2 \<le> key_units k" by (simp add: key_units_def)
  then show ?case using 2 by simp
qed simp

lemma layout_bounds:
  "(k, u) \<in> set (layout v n ks) \<Longrightarrow> k \<in> set ks \<and> n + key_units k \<le> u \<and> u + v \<le> layout_end v n ks"
proof (induction v n ks rule: layout.induct)
  case (2 v n k' ks)
  then show ?case using layout_end_ge [of "n + key_units k' + v" ks v] by auto
qed simp

lemma key_units_fit: "length k + 5 \<le> 4 * key_units k"
  by (simp add: key_units_def)

lemma key_units_ge: "2 \<le> key_units k"
  by (simp add: key_units_def)

definition holds_entry :: "mem \<Rightarrow> u8 list \<Rightarrow> nat \<Rightarrow> bool" where
  "holds_entry m k u \<longleftrightarrow> 5 + length k \<le> 4 * u \<and>
     holds m (4 * u - 4) (u32_bytes (of_nat (length k))) \<and> holds m (4 * u - 5 - length k) (k @ [0])"

definition hash_of :: "u8 list \<Rightarrow> u32" where
  "hash_of k = the (sht_hash_mem k)"

definition entry_slot :: "u8 list \<times> nat \<Rightarrow> u64" where
  "entry_slot = (\<lambda>(k, u). mk_slot (hash_of k) (of_nat u))"

text \<open>The table \<open>s\<close> holds exactly the keys \<open>ks\<close>, interned in this order.\<close>

definition sht_layout :: "sht \<Rightarrow> u8 list list \<Rightarrow> (u8 list \<times> nat) list" where
  "sht_layout s ks = layout (unat (s_value_length s)) 3 ks"

definition contents_ok :: "sht \<Rightarrow> u8 list list \<Rightarrow> bool" where
  "contents_ok s ks \<longleftrightarrow> distinct ks \<and> (\<forall>k \<in> set ks. length k + 8 < 2 ^ 32) \<and>
     layout_end (unat (s_value_length s)) 3 ks = unat (s_size s) \<and> s_size s \<le> s_capacity s \<and>
     (\<forall>(k, u) \<in> set (sht_layout s ks). holds_entry (s_mem s) k u)"

definition sht_rep :: "sht \<Rightarrow> u8 list list \<Rightarrow> bool" where
  "sht_rep s ks \<longleftrightarrow> contents_ok s ks \<and> table_size (s_table s) (s_mask s) \<and> RH (s_table s) \<and>
     live (s_table s) = mset (map entry_slot (sht_layout s ks)) \<and>
     unat (s_count s) = length ks \<and> unat (s_count s) * 4 < unat (s_mask s) * 3"

lemma hash_of [simp]: "sht_hash_mem k = Some (hash_of k)"
  using hash_total [of k] by (auto simp: hash_of_def)

lemma key_at_entry:
  assumes e: "holds_entry (s_mem s) k u" and u: "unat (slot_hi slot) = u"
    and len: "length k < 2 ^ 32" "length key < 2 ^ 32"
  shows "key_at s key slot = Some (k = key)"
proof -
  have r: "mem_read32 (s_mem s) (4 * u - 4) = Some (of_nat (length k))"
    using e by (intro mem_read32_holds) (simp add: holds_entry_def)
  show ?thesis
  proof (cases "length k = length key")
    case True
    have "holds (s_mem s) (4 * u - 5 - length k) k"
      using e by (simp add: holds_entry_def holds_append)
    then have "mem_read (s_mem s) (4 * u - 5 - length key) (length key) = Some k"
      using True mem_read_holds by metis
    moreover have "\<not> 4 * u < 5 + length key" using e True by (simp add: holds_entry_def)
    ultimately show ?thesis using r u True by (simp add: key_at_def Let_def)
  next
    case False
    have "of_nat (length k) \<noteq> (of_nat (length key) :: u32)"
    proof
      assume "of_nat (length k) = (of_nat (length key) :: u32)"
      then have "unat (of_nat (length k) :: u32) = unat (of_nat (length key) :: u32)" by simp
      then show False using len False by (simp add: unat_of_nat)
    qed
    then show ?thesis using r u False by (auto simp: key_at_def Let_def)
  qed
qed

lemma put_contents_ok:
  "12 \<le> at \<Longrightarrow> at + length bs \<le> 4 * unat (s_capacity s) \<Longrightarrow>
   put_contents s at bs = Some (s\<lparr>s_mem := mem_write (s_mem s) at bs\<rparr>)"
  by (simp add: put_contents_def)

lemma add_to_contents_spec:
  assumes room: "unat (s_size s) + key_units key + unat (s_value_length s) < 2 ^ 32"
    and len: "length key + 8 < 2 ^ 32" and cap: "s_size s \<le> s_capacity s" and sz: "3 \<le> unat (s_size s)"
  defines "u \<equiv> unat (s_size s) + key_units key"
  shows "\<exists>s'. add_to_contents s key = Some (s', of_nat u) \<and>
    unat (s_size s') = u + unat (s_value_length s) \<and> s_size s' \<le> s_capacity s' \<and>
    holds_entry (s_mem s') key u \<and> holds (s_mem s') (4 * u) (replicate (4 * unat (s_value_length s)) 0) \<and>
    (\<forall>i < 4 * unat (s_size s). s_mem s' i = s_mem s i) \<and>
    s_value_length s' = s_value_length s \<and> s_table s' = s_table s \<and> s_mask s' = s_mask s \<and> s_count s' = s_count s"
proof -
  let ?v = "unat (s_value_length s)" and ?n = "length key"
  have fit: "?n + 5 \<le> 4 * key_units key" by (rule key_units_fit)
  have ul: "u < 2 ^ 32" "u + ?v < 2 ^ 32" using room by (simp_all add: u_def)
  have ku: "(of_nat ?n + 8 :: u32) div 4 = of_nat (key_units key)"
  proof (rule word_unat_eq_iff [THEN iffD2])
    have "unat (of_nat ?n + 8 :: u32) = ?n + 8"
      using len by (simp add: unat_word_ariths unat_of_nat)
    moreover have "key_units key < 2 ^ 32" using room by simp
    ultimately show "unat ((of_nat ?n + 8 :: u32) div 4) = unat (of_nat (key_units key) :: u32)"
      by (simp add: unat_div unat_of_nat key_units_def)
  qed
  have res: "s_size s + (of_nat ?n + 8) div 4 = of_nat u" unfolding ku u_def by simp
  have uu: "unat (of_nat u :: u32) = u" using ul by (simp add: unat_of_nat)
  define nsz where "nsz = of_nat u + s_value_length s"
  have nsz: "unat nsz = u + ?v" using ul uu by (simp add: nsz_def unat_word_ariths)
  define c where "c = (if nsz > s_capacity s then
      (if s_capacity s * 2 < nsz then nsz else s_capacity s * 2) else s_capacity s)"
  have c: "nsz \<le> c" by (auto simp: c_def not_less)
  then have cn: "u + ?v \<le> unat c" using nsz by (simp add: word_le_nat_alt)
  define s1 where "s1 = s\<lparr>s_capacity := c, s_size := nsz\<rparr>"
  have s1: "s_capacity s1 = c" "s_size s1 = nsz" "s_mem s1 = s_mem s" by (simp_all add: s1_def)
  let ?k = "4 * u - 5 - ?n"
  have k: "4 * unat (s_size s) \<le> ?k" "?k + ?n + 5 = 4 * u" using fit by (simp_all add: u_def)
  define m where "m = mem_write (mem_write (mem_write (mem_write (s_mem s) (4 * u) (replicate (4 * ?v) 0))
    (4 * u - 4) (u32_bytes (of_nat ?n))) (4 * u - 8) [0, 0, 0, 0]) ?k key"
  have u8: "20 \<le> 4 * u" using sz key_units_ge [of key] by (simp add: u_def)
  have step: "(if nsz > s_capacity s then
                let new_capacity = s_capacity s * 2;
                    new_capacity = (if new_capacity < nsz then nsz else new_capacity)
                in s\<lparr>s_capacity := new_capacity\<rparr>
              else s)\<lparr>s_size := nsz\<rparr> = s1"
    by (simp add: s1_def c_def Let_def)
  have w: "put_contents (s1\<lparr>s_mem := M\<rparr>) at bs = Some (s1\<lparr>s_mem := mem_write M at bs\<rparr>)"
    if "12 \<le> at" "at + length bs \<le> 4 * (u + ?v)" for M at bs
    using put_contents_ok [of at bs "s1\<lparr>s_mem := M\<rparr>"] that cn by (simp add: s1)
  have s1m: "s1\<lparr>s_mem := s_mem s\<rparr> = s1" by (simp add: s1_def)
  have w1: "put_contents s1 (4 * u) (replicate (4 * ?v) 0) =
      Some (s1\<lparr>s_mem := mem_write (s_mem s) (4 * u) (replicate (4 * ?v) 0)\<rparr>)"
    using w [of "4 * u" "replicate (4 * ?v) 0" "s_mem s"] u8 unfolding s1m by simp
  have w2: "put_contents (s1\<lparr>s_mem := M\<rparr>) (4 * u - 4) (u32_bytes (of_nat ?n)) =
      Some (s1\<lparr>s_mem := mem_write M (4 * u - 4) (u32_bytes (of_nat ?n))\<rparr>)" for M
    by (rule w) (use u8 in \<open>simp_all, linarith?\<close>)
  have w3: "put_contents (s1\<lparr>s_mem := M\<rparr>) (4 * u - 8) [0, 0, 0, 0] =
      Some (s1\<lparr>s_mem := mem_write M (4 * u - 8) [0, 0, 0, 0]\<rparr>)" for M
    by (rule w) (use u8 in \<open>simp_all, linarith?\<close>)
  have w4: "put_contents (s1\<lparr>s_mem := M\<rparr>) ?k key = Some (s1\<lparr>s_mem := mem_write M ?k key\<rparr>)" for M
  proof (rule w)
    show "12 \<le> ?k" using k(1) sz by linarith
    have "?k + ?n \<le> ?k + ?n + 5" by (rule le_add1)
    also have "\<dots> = 4 * u" by (rule k(2))
    also have "\<dots> \<le> 4 * (u + ?v)" by simp
    finally show "?k + ?n \<le> 4 * (u + ?v)" .
  qed
  have vl: "s_value_length s1 = s_value_length s" by (simp add: s1_def)
  have add: "add_to_contents s key = Some (s1\<lparr>s_mem := m\<rparr>, of_nat u)"
    unfolding add_to_contents_def res Let_def nsz_def [symmetric] step [unfolded Let_def] uu vl w1 w2 w3 w4
      option.case m_def ..
  have mi: "m i = s_mem s i" if "i < 4 * unat (s_size s)" for i
  proof -
    have "4 * unat (s_size s) + 8 \<le> 4 * u" using key_units_ge [of key] by (simp add: u_def)
    then have "i < 4 * u" "i < 4 * u - 4" "i < 4 * u - 8" "i < ?k" using that k(1) by linarith+
    then show ?thesis unfolding m_def by (simp only: mem_write_below)
  qed
  have l4: "length [0 :: u8, 0, 0, 0] = 4" by simp
  have o1: "?k + length key \<le> 4 * u - 4" and o3: "?k + length key \<le> 4 * u" using k(2) u8 by linarith+
  have o2: "4 * u - 8 + length [0 :: u8, 0, 0, 0] \<le> 4 * u - 4"
    and o4: "4 * u - 8 + length [0 :: u8, 0, 0, 0] \<le> 4 * u"
    unfolding l4 using u8 by linarith+
  have o5: "4 * u - 4 + length (u32_bytes (of_nat ?n)) \<le> 4 * u" using u8 by simp
  have "holds m ?k (key @ [0])"
  proof -
    let ?M = "mem_write (mem_write (s_mem s) (4 * u) (replicate (4 * ?v) 0)) (4 * u - 4) (u32_bytes (of_nat ?n))"
    have "holds (mem_write ?M (4 * u - 8) ([0, 0, 0] @ [0])) (4 * u - 8) ([0, 0, 0] @ [0])"
      by (rule holds_write_same)
    then have "holds (mem_write ?M (4 * u - 8) ([0, 0, 0] @ [0])) (4 * u - 8 + length [0 :: u8, 0, 0]) [0]"
      unfolding holds_append by (rule conjunct2)
    moreover have "length [0 :: u8, 0, 0] = 3" "[0, 0, 0] @ [0] = [0 :: u8, 0, 0, 0]" by simp_all
    ultimately have "holds (mem_write ?M (4 * u - 8) [0, 0, 0, 0]) (4 * u - 8 + 3) [0]" by (simp only:)
    moreover have "4 * u - 8 + 3 = ?k + ?n" using k u8 by linarith
    ultimately have "holds (mem_write ?M (4 * u - 8) [0, 0, 0, 0]) (?k + ?n) [0]" by (simp only:)
    then have "holds m (?k + ?n) [0]"
      unfolding m_def by (subst holds_write_other) simp_all
    moreover have "holds m ?k key" unfolding m_def by (rule holds_write_same)
    ultimately show ?thesis by (simp add: holds_append)
  qed
  moreover have "holds m (4 * u - 4) (u32_bytes (of_nat ?n))"
    unfolding m_def
    by (subst holds_write_other [OF disjI2 [OF o1]], subst holds_write_other [OF disjI2 [OF o2]])
      (rule holds_write_same)
  ultimately have "holds_entry m key u" using k by (simp add: holds_entry_def)
  moreover have "holds m (4 * u) (replicate (4 * ?v) 0)"
    unfolding m_def
    by (subst holds_write_other [OF disjI2 [OF o3]], subst holds_write_other [OF disjI2 [OF o4]],
        subst holds_write_other [OF disjI2 [OF o5]]) (rule holds_write_same)
  ultimately show ?thesis
    using add nsz c mi by (simp add: s1_def)
qed

subsection \<open>The operations\<close>

lemma layout_less:
  assumes "contents_ok s ks" and "(k, u) \<in> set (sht_layout s ks)"
  shows "k \<in> set ks" "length k < 2 ^ 32" "5 \<le> u" "u + unat (s_value_length s) \<le> unat (s_size s)" "u < 2 ^ 32"
    "holds_entry (s_mem s) k u"
proof -
  note b = layout_bounds [OF assms(2) [unfolded sht_layout_def]]
  show "k \<in> set ks" using b by simp
  then show "length k < 2 ^ 32" using assms(1) by (auto simp: contents_ok_def)
  show "5 \<le> u" using b key_units_ge [of k] by linarith
  show *: "u + unat (s_value_length s) \<le> unat (s_size s)" using b assms(1) by (simp add: contents_ok_def)
  have "unat (s_size s) < 2 ^ LENGTH(32)" by (rule unat_less_pow)
  then show "u < 2 ^ 32" using * by simp
  show "holds_entry (s_mem s) k u" using assms by (auto simp: contents_ok_def)
qed

lemma fst_sht_layout: "fst ` set (sht_layout s ks) = set ks"
  using map_fst_layout [of "unat (s_value_length s)" 3 ks]
  by (metis list.set_map sht_layout_def)

lemma hi_entry_slot: "u < 2 ^ 32 \<Longrightarrow> unat (slot_hi (entry_slot (k, u))) = u"
  by (simp add: entry_slot_def unat_of_nat)

lemma entry_slot_nz: "u < 2 ^ 32 \<Longrightarrow> 5 \<le> u \<Longrightarrow> entry_slot (k, u) \<noteq> 0"
  using hi_entry_slot [of u k] by (auto simp: slot_hi_def)

lemma lo_entry_slot [simp]: "slot_lo (entry_slot (k, u)) = hash_of k"
  by (simp add: entry_slot_def)

lemma rep_slots:
  assumes "sht_rep s ks"
  shows "set (s_table s) - {0} = entry_slot ` set (sht_layout s ks)"
  using assms set_live [of "s_table s"] by (simp add: sht_rep_def)

lemma rep_key_at:
  assumes "sht_rep s ks" and "(k, u) \<in> set (sht_layout s ks)" and "length key < 2 ^ 32"
  shows "key_at s key (entry_slot (k, u)) = Some (k = key)"
proof -
  have c: "contents_ok s ks" using assms by (simp add: sht_rep_def)
  note l = layout_less [OF c assms(2)]
  show ?thesis by (rule key_at_entry [OF l(6) hi_entry_slot [OF l(5)] l(2) assms(3)])
qed

lemma rep_has_empty: "sht_rep s ks \<Longrightarrow> 0 \<in> set (s_table s)"
  using table_size_bounds(3) [of "s_table s" "s_mask s"]
  by (auto simp: sht_rep_def empty_iff_live sht_layout_def)

lemma sht_probe_total:
  assumes "sht_rep s ks" and "length key < 2 ^ 32"
  obtains r where "rh_probe (key_at s key) (s_table s) (s_mask s) (hash_of key) 0 = Some r"
    and "probe_ok (key_at s key) (s_table s) (hash_of key) r"
proof (rule rh_probe_0 [of "s_table s" "s_mask s" "hash_of key" "key_at s key"])
  fix slot assume "slot \<in> set (s_table s)" "slot \<noteq> 0"
  then have "slot \<in> entry_slot ` set (sht_layout s ks)" using rep_slots [OF assms(1)] by blast
  then show "key_at s key slot \<noteq> None" using rep_key_at [OF assms(1) _ assms(2)] by auto
qed (use assms rep_has_empty [OF assms(1)] that in \<open>auto simp: sht_rep_def\<close>)

lemma sht_absent:
  assumes "sht_rep s ks" and "length key < 2 ^ 32" and "absent (key_at s key) (s_table s) (hash_of key)"
  shows "key \<notin> set ks"
proof
  assume "key \<in> set ks"
  then have "key \<in> fst ` set (sht_layout s ks)" by (simp add: fst_sht_layout)
  then obtain u where u: "(key, u) \<in> set (sht_layout s ks)" by auto
  have c: "contents_ok s ks" using assms by (simp add: sht_rep_def)
  note l = layout_less [OF c u]
  have "entry_slot (key, u) \<in> set (s_table s)" "entry_slot (key, u) \<noteq> 0"
    using rep_slots [OF assms(1)] u entry_slot_nz [OF l(5,3)] by blast+
  then show False
    using assms(3) rep_key_at [OF assms(1) u assms(2)] by (auto simp: absent_def)
qed

lemma sht_hit:
  assumes "sht_rep s ks" and "length key < 2 ^ 32"
    and "probe_ok (key_at s key) (s_table s) (hash_of key) (Hit idx slot)"
  shows "\<exists>u. map_of (sht_layout s ks) key = Some u \<and> slot_hi slot = of_nat u"
proof -
  have p: "slot \<in> set (s_table s) - {0}" "key_at s key slot = Some True"
    using assms(3) by (auto simp: probe_ok_def)
  then obtain k u where ku: "(k, u) \<in> set (sht_layout s ks)" "slot = entry_slot (k, u)"
    unfolding rep_slots [OF assms(1)] by auto
  then have "k = key" using rep_key_at [OF assms(1) ku(1) assms(2)] p(2) by simp
  moreover have "distinct (map fst (sht_layout s ks))"
    using assms(1) by (simp add: sht_rep_def contents_ok_def sht_layout_def)
  ultimately show ?thesis using ku by (auto simp: entry_slot_def)
qed

lemma sht_grow_spec:
  assumes c: "contents_ok s ks" and t: "table_size (s_table s) (s_mask s)" "RH (s_table s)"
    and l: "live (s_table s) = mset (map entry_slot (sht_layout s ks))"
    and n: "unat (s_count s) + 1 = length ks" and load: "unat (s_count s) * 4 < unat (s_mask s) * 3"
  shows "\<exists>s'. sht_grow s = Some s' \<and> sht_rep s' ks \<and> s_mem s' = s_mem s \<and> s_value_length s' = s_value_length s"
proof -
  define cnt where "cnt = s_count s + 1"
  have "3 + 2 * length ks \<le> unat (s_size s)"
    using c layout_end_ge [of 3 ks "unat (s_value_length s)"] by (simp add: contents_ok_def)
  moreover have "unat (s_size s) < 2 ^ LENGTH(32)" by (rule unat_less_pow)
  ultimately have small: "length ks < 2 ^ 31" by simp
  then have cnt: "unat cnt = length ks"
    using n unat_Suc_step [of "s_count s"] by (simp add: cnt_def)
  show ?thesis
  proof (cases "load_full cnt (s_mask s)")
    case False
    then show ?thesis
      using assms cnt by (simp add: sht_grow_def Let_def sht_rep_def load_full_iff contents_ok_def
          sht_layout_def flip: cnt_def)
  next
    case True
    have "size (live (s_table s)) < length (s_table s)"
      using n load table_size_bounds(3) [OF t(1)] by (simp add: l sht_layout_def)
    moreover have "unat (s_mask s) < 2 ^ 32 - 1"
      using True small cnt by (simp add: load_full_iff)
    ultimately obtain T msk where R: "rehash_table (s_table s) (s_mask s) = Some (T, msk)" "RH T"
      "table_size T msk" "unat msk = 2 * unat (s_mask s) + 1" "live T = live (s_table s)"
      using rehash_table_spec [OF t(1)] by blast
    let ?s = "s\<lparr>s_count := cnt, s_table := T, s_mask := msk\<rparr>"
    have "sht_grow s = Some ?s"
      using True R(1) by (simp add: sht_grow_def Let_def sht_rehash_def flip: cnt_def)
    moreover have "sht_rep ?s ks"
      using R c l n load cnt by (simp add: sht_rep_def contents_ok_def sht_layout_def)
    ultimately show ?thesis by auto
  qed
qed

lemma contents_ok_add:
  assumes c: "contents_ok s ks" and new: "key \<notin> set ks"
    and room: "unat (s_size s) + key_units key + unat (s_value_length s) < 2 ^ 32"
    and len: "length key + 8 < 2 ^ 32"
  defines "u \<equiv> unat (s_size s) + key_units key"
  shows "\<exists>s'. add_to_contents s key = Some (s', of_nat u) \<and> contents_ok s' (ks @ [key]) \<and>
    sht_layout s' (ks @ [key]) = sht_layout s ks @ [(key, u)] \<and>
    holds (s_mem s') (4 * u) (replicate (4 * unat (s_value_length s)) 0) \<and>
    (\<forall>i < 4 * unat (s_size s). s_mem s' i = s_mem s i) \<and>
    s_value_length s' = s_value_length s \<and> s_table s' = s_table s \<and> s_mask s' = s_mask s \<and> s_count s' = s_count s"
proof -
  have e: "layout_end (unat (s_value_length s)) 3 ks = unat (s_size s)" "s_size s \<le> s_capacity s"
    using c by (simp_all add: contents_ok_def)
  have "3 \<le> unat (s_size s)" using layout_end_ge [of 3 ks "unat (s_value_length s)"] e(1) by linarith
  from add_to_contents_spec [OF room len e(2) this, folded u_def]
  obtain s' where s': "add_to_contents s key = Some (s', of_nat u)"
    "unat (s_size s') = u + unat (s_value_length s)" "s_size s' \<le> s_capacity s'"
    "holds_entry (s_mem s') key u" "holds (s_mem s') (4 * u) (replicate (4 * unat (s_value_length s)) 0)"
    "\<forall>i < 4 * unat (s_size s). s_mem s' i = s_mem s i"
    "s_value_length s' = s_value_length s" "s_table s' = s_table s" "s_mask s' = s_mask s" "s_count s' = s_count s"
    by blast
  have lay: "sht_layout s' (ks @ [key]) = sht_layout s ks @ [(key, u)]"
    by (simp add: sht_layout_def s'(7) layout_snoc e(1) u_def)
  have keep: "holds (s_mem s') a bs" if "holds (s_mem s) a bs" "a + length bs \<le> 4 * unat (s_size s)" for a bs
    using that s'(6) by (simp add: holds_def)
  have "holds_entry (s_mem s') k w" if kw: "(k, w) \<in> set (sht_layout s ks)" for k w
  proof -
    note l = layout_less [OF c kw]
    have "4 * w \<le> 4 * unat (s_size s)" using l(4) by simp
    then show ?thesis
      using l(6) unfolding holds_entry_def by (intro conjI keep) auto
  qed
  then have "contents_ok s' (ks @ [key])"
    using c new s'(2,3,4,7) len lay
    by (auto simp: contents_ok_def layout_end_snoc e(1) u_def)
  then show ?thesis using s' lay by auto
qed

lemma sht_lookup_spec:
  assumes "sht_rep s ks" and "length key < 2 ^ 32"
  shows "sht_lookup_u s key = Some (case map_of (sht_layout s ks) key of None \<Rightarrow> 0 | Some u \<Rightarrow> of_nat u)"
    and "sht_lookup_p s key = Some (map_option (\<lambda>u. 4 * u) (map_of (sht_layout s ks) key))"
proof -
  obtain r where r: "rh_probe (key_at s key) (s_table s) (s_mask s) (hash_of key) 0 = Some r"
    "probe_ok (key_at s key) (s_table s) (hash_of key) r"
    using sht_probe_total [OF assms] by blast
  have c: "contents_ok s ks" using assms by (simp add: sht_rep_def)
  have none: "map_of (sht_layout s ks) key = None" if "key \<notin> set ks"
    using that by (simp add: map_of_eq_None_iff fst_sht_layout)
  have "sht_lookup_u s key = Some (case map_of (sht_layout s ks) key of None \<Rightarrow> 0 | Some u \<Rightarrow> of_nat u) \<and>
    sht_lookup_p s key = Some (map_option (\<lambda>u. 4 * u) (map_of (sht_layout s ks) key))"
  proof (cases r)
    case (Hit idx slot)
    then obtain u where u: "map_of (sht_layout s ks) key = Some u" "slot_hi slot = of_nat u"
      using sht_hit [OF assms, of idx slot] r(2) by blast
    have "u < 2 ^ 32" using layout_less(5) [OF c] map_of_SomeD [OF u(1)] by blast
    then show ?thesis using r(1) Hit u
      by (simp add: sht_lookup_u_def sht_lookup_p_def unat_of_nat)
  next
    case (Empty idx)
    then have "key \<notin> set ks" using r(2) sht_absent [OF assms] by (simp add: probe_ok_def)
    then show ?thesis using r(1) Empty none by (simp add: sht_lookup_u_def sht_lookup_p_def)
  next
    case (Richer idx slot d2)
    then have "key \<notin> set ks" using r(2) sht_absent [OF assms] by (simp add: probe_ok_def)
    then show ?thesis using r(1) Richer none by (simp add: sht_lookup_u_def sht_lookup_p_def)
  qed
  then show "sht_lookup_u s key = Some (case map_of (sht_layout s ks) key of None \<Rightarrow> 0 | Some u \<Rightarrow> of_nat u)"
    "sht_lookup_p s key = Some (map_option (\<lambda>u. 4 * u) (map_of (sht_layout s ks) key))"
    by blast+
qed

text \<open>The room an insertion needs: unit indices are 32 bits wide.\<close>

definition sht_room :: "sht \<Rightarrow> u8 list \<Rightarrow> bool" where
  "sht_room s key \<longleftrightarrow> length key + 8 < 2 ^ 32 \<and>
     unat (s_size s) + key_units key + unat (s_value_length s) < 2 ^ 32"

lemma sht_insert_spec:
  assumes rep: "sht_rep s ks" and room: "sht_room s key"
    and p: "rh_probe (key_at s key) (s_table s) (s_mask s) (hash_of key) 0 = Some r"
      "probe_ok (key_at s key) (s_table s) (hash_of key) r"
    and nohit: "\<not> (\<exists>i slot. r = Hit i slot)"
  defines "u \<equiv> unat (s_size s) + key_units key"
  shows "key \<notin> set ks \<and> (\<exists>s'. sht_intern_u s key = Some (s', of_nat u) \<and> sht_rep s' (ks @ [key]) \<and>
    sht_layout s' (ks @ [key]) = sht_layout s ks @ [(key, u)] \<and>
    holds (s_mem s') (4 * u) (replicate (4 * unat (s_value_length s)) 0) \<and>
    (\<forall>i < 4 * unat (s_size s). s_mem s' i = s_mem s i) \<and> s_value_length s' = s_value_length s)"
proof -
  have len: "length key < 2 ^ 32" using room by (simp add: sht_room_def)
  have new: "key \<notin> set ks"
    using sht_absent [OF rep len] p(2) nohit by (cases r) (auto simp: probe_ok_def)
  have c: "contents_ok s ks" and t: "RH (s_table s)" "table_size (s_table s) (s_mask s)"
    and l: "live (s_table s) = mset (map entry_slot (sht_layout s ks))"
    and n: "unat (s_count s) = length ks" "unat (s_count s) * 4 < unat (s_mask s) * 3"
    using rep by (simp_all add: sht_rep_def)
  have fits: "unat (s_size s) + key_units key + unat (s_value_length s) < 2 ^ 32" "length key + 8 < 2 ^ 32"
    using room by (simp_all add: sht_room_def)
  from contents_ok_add [OF c new fits, folded u_def]
  obtain s1 where s1: "add_to_contents s key = Some (s1, of_nat u)" "contents_ok s1 (ks @ [key])"
    "sht_layout s1 (ks @ [key]) = sht_layout s ks @ [(key, u)]"
    "holds (s_mem s1) (4 * u) (replicate (4 * unat (s_value_length s)) 0)"
    "\<forall>i < 4 * unat (s_size s). s_mem s1 i = s_mem s i"
    "s_value_length s1 = s_value_length s" "s_table s1 = s_table s" "s_mask s1 = s_mask s" "s_count s1 = s_count s"
    by blast
  let ?new = "mk_slot (hash_of key) (of_nat u)"
  have lu: "5 \<le> u" "u < 2 ^ 32" using layout_less [OF s1(2), of key u] s1(3) by simp_all
  have nz: "?new \<noteq> 0" using entry_slot_nz [OF lu(2,1), of key] by (simp add: entry_slot_def)
  have grow: "\<exists>s'. sht_grow (s1\<lparr>s_table := T\<rparr>) = Some s' \<and> sht_rep s' (ks @ [key]) \<and>
      s_mem s' = s_mem s1 \<and> s_value_length s' = s_value_length s"
    if T: "RH T" "table_size T (s_mask s)" "mset T + {#0#} = mset (s_table s) + {#?new#}" for T
  proof -
    have "live T = add_mset ?new (live (s_table s))" using T(3) nz by (rule live_reinsert)
    moreover have "contents_ok (s1\<lparr>s_table := T\<rparr>) (ks @ [key])" "sht_layout (s1\<lparr>s_table := T\<rparr>) (ks @ [key]) = sht_layout s1 (ks @ [key])"
      using s1(2) by (simp_all add: contents_ok_def sht_layout_def)
    ultimately show ?thesis
      using sht_grow_spec [of "s1\<lparr>s_table := T\<rparr>" "ks @ [key]"] T l n s1 by (simp add: entry_slot_def)
  qed
  have "\<exists>s'. sht_intern_u s key = Some (s', of_nat u) \<and> sht_rep s' (ks @ [key]) \<and>
      s_mem s' = s_mem s1 \<and> s_value_length s' = s_value_length s"
  proof (cases r)
    case (Empty idx)
    note ins = insert_at_empty [OF t(1) p(2) [unfolded Empty] nz slot_lo_mk]
    show ?thesis
      using grow [OF ins(1) _ ins(2)] t(2) p(1) Empty s1(1,7) by (auto simp: sht_intern_u_def)
  next
    case (Richer idx slot d2)
    obtain T where T: "reinsert ((s_table s)[unat idx := ?new]) (s_mask s) slot d2 = Some T" "RH T"
      "table_size T (s_mask s)" "mset T + {#0#} = mset (s_table s) + {#?new#}"
      using insert_at_richer [OF t rep_has_empty [OF rep] p(2) [unfolded Richer] nz slot_lo_mk] by blast
    show ?thesis
      using grow [OF T(2-4)] p(1) Richer s1(1,7,8) T(1) by (auto simp: sht_intern_u_def)
  qed (use nohit in blast)
  moreover have "sht_layout s' (ks @ [key]) = sht_layout s1 (ks @ [key])"
    if "s_value_length s' = s_value_length s" for s'
    using that s1(6) by (simp add: sht_layout_def)
  ultimately show ?thesis using new s1 by metis
qed

lemma sht_intern_spec:
  assumes rep: "sht_rep s ks" and room: "sht_room s key"
  shows "\<exists>s' u. sht_intern_u s key = Some (s', of_nat u) \<and> 0 < u \<and> u < 2 ^ 32 \<and>
    (if key \<in> set ks then s' = s \<and> map_of (sht_layout s ks) key = Some u
     else u = unat (s_size s) + key_units key \<and> sht_rep s' (ks @ [key]) \<and>
       sht_layout s' (ks @ [key]) = sht_layout s ks @ [(key, u)] \<and>
       holds (s_mem s') (4 * u) (replicate (4 * unat (s_value_length s)) 0) \<and>
       (\<forall>i < 4 * unat (s_size s). s_mem s' i = s_mem s i) \<and> s_value_length s' = s_value_length s)"
proof -
  have len: "length key < 2 ^ 32" using room by (simp add: sht_room_def)
  have c: "contents_ok s ks" using rep by (simp add: sht_rep_def)
  obtain r where p: "rh_probe (key_at s key) (s_table s) (s_mask s) (hash_of key) 0 = Some r"
    "probe_ok (key_at s key) (s_table s) (hash_of key) r"
    using sht_probe_total [OF rep len] by blast
  show ?thesis
  proof (cases "\<exists>i slot. r = Hit i slot")
    case True
    then obtain i slot where h: "r = Hit i slot" by blast
    then obtain u where u: "map_of (sht_layout s ks) key = Some u" "slot_hi slot = of_nat u"
      using sht_hit [OF rep len, of i slot] p(2) by blast
    note l = layout_less [OF c map_of_SomeD [OF u(1)]]
    show ?thesis
      using u l(1,3,5) p(1) h by (intro exI [of _ s] exI [of _ u]) (simp add: sht_intern_u_def)
  next
    case False
    from sht_insert_spec [OF rep room p this]
    obtain s' where s': "key \<notin> set ks" "sht_intern_u s key = Some (s', of_nat (unat (s_size s) + key_units key))"
      "sht_rep s' (ks @ [key])" "sht_layout s' (ks @ [key]) = sht_layout s ks @ [(key, unat (s_size s) + key_units key)]"
      "holds (s_mem s') (4 * (unat (s_size s) + key_units key)) (replicate (4 * unat (s_value_length s)) 0)"
      "\<forall>i < 4 * unat (s_size s). s_mem s' i = s_mem s i" "s_value_length s' = s_value_length s" by blast
    have "0 < unat (s_size s) + key_units key" "unat (s_size s) + key_units key < 2 ^ 32"
      using room key_units_ge [of key] by (simp_all add: sht_room_def)
    then show ?thesis using s' by metis
  qed
qed

lemma sht_init_rep: "sht_rep (sht_init v) []"
proof -
  have "table_size (replicate 4 (0 :: u64)) 3"
    unfolding table_size_def by (intro exI [of _ 2]) (simp add: mask_eq_exp_minus_1)
  then show ?thesis
    unfolding sht_rep_def sht_init_def sht.simps live_empty contents_ok_def
    by (simp add: sht_layout_def)
qed

lemma sht_clear_rep: "sht_rep s ks \<Longrightarrow> sht_rep (sht_clear s) []"
proof (cases "s_count s = 0")
  case True
  assume r: "sht_rep s ks"
  then have "ks = []" using True by (simp add: sht_rep_def)
  then show ?thesis using r True by (simp add: sht_clear_def)
next
  case False
  assume r: "sht_rep s ks"
  have n: "length (s_table s) = unat (s_mask s) + 1"
    using r table_size_bounds(3) by (simp add: sht_rep_def)
  have T: "s_table (sht_clear s) = replicate (length (s_table s)) 0"
    using False n by (simp add: sht_clear_def)
  have "3 + 2 * length ks \<le> unat (s_size s)"
    using r layout_end_ge [of 3 ks "unat (s_value_length s)"] by (simp add: sht_rep_def contents_ok_def)
  then have "3 \<le> s_size s" by (simp add: word_le_nat_alt)
  then have "3 \<le> s_capacity s" using r by (auto simp: sht_rep_def contents_ok_def)
  moreover have "table_size (replicate (length (s_table s)) 0) (s_mask s)"
    using r by (simp add: sht_rep_def table_size_def)
  moreover have "0 < unat (s_mask s)" using r by (simp add: sht_rep_def)
  ultimately show ?thesis
    unfolding sht_rep_def T live_empty RH_empty
    using False by (simp add: sht_clear_def contents_ok_def sht_layout_def)
qed

subsection \<open>Iteration\<close>

lemma entry_units:
  assumes "length k + 8 < 2 ^ 32"
  shows "unat (of_nat (length k) + 8 :: u32) div 4 = key_units k"
proof -
  have "unat (of_nat (length k) + 8 :: u32) = length k + 8"
    using assms by (simp add: unat_word_ariths unat_of_nat)
  then show ?thesis by (simp add: key_units_def)
qed

lemma iterate_layout:
  assumes "\<forall>k \<in> set ks. length k + 8 < 2 ^ 32"
    and "\<forall>(k, u) \<in> set (sht_layout s ks). holds_entry (s_mem s) k u"
  defines "n \<equiv> layout_end (unat (s_value_length s)) 3 ks"
  shows "sht_iterate s (if n \<le> 3 then None else Some (4 * (n - unat (s_value_length s)))) =
    Some (map (\<lambda>(k, u). 4 * u) (rev (sht_layout s ks)))"
  using assms(1,2) unfolding n_def
proof (induction ks rule: rev_induct)
  case Nil
  then show ?case by (subst sht_iterate.simps) (simp add: sht_layout_def)
next
  case (snoc k ks)
  let ?v = "unat (s_value_length s)"
  define n where "n = layout_end ?v 3 ks"
  define u where "u = n + key_units k"
  have lay: "sht_layout s (ks @ [k]) = sht_layout s ks @ [(k, u)]"
    by (simp add: sht_layout_def layout_snoc u_def n_def)
  have e: "holds_entry (s_mem s) k u" using snoc.prems(2) by (simp add: lay)
  have "mem_read32 (s_mem s) (4 * u - 4) = Some (of_nat (length k))"
    using e by (intro mem_read32_holds) (simp add: holds_entry_def)
  then have nx: "sht_iter_next_p s (4 * u) = Some (if n \<le> 3 then None else Some (4 * (n - ?v)))"
    using entry_units [of k] snoc.prems(1)
    by (simp add: sht_iter_next_p_def Let_def u_def diff_mult_distrib2)
  have IH: "sht_iterate s (if n \<le> 3 then None else Some (4 * (n - ?v))) =
      Some (map (\<lambda>(k, u). 4 * u) (rev (sht_layout s ks)))"
    unfolding n_def using snoc.prems by (intro snoc.IH) (auto simp: lay)
  have top: "layout_end ?v 3 (ks @ [k]) = u + ?v" by (simp add: layout_end_snoc u_def n_def)
  have "3 \<le> n" using layout_end_ge [of 3 ks ?v] by (simp add: n_def)
  then have "\<not> u + ?v \<le> 3" using key_units_ge [of k] by (simp add: u_def)
  then have "sht_iterate s (if u + ?v \<le> 3 then None else Some (4 * (u + ?v - ?v))) =
      (case sht_iter_next_p s (4 * u) of None \<Rightarrow> None
       | Some p' \<Rightarrow> Option.bind (sht_iterate s p') (\<lambda>ps. Some (4 * u # ps)))"
    by (subst sht_iterate.simps) simp
  then show ?case unfolding top nx lay by (simp add: IH)
qed

lemma sht_iterate_spec:
  assumes "sht_rep s ks"
  shows "sht_iterate s (sht_iter_start_p s) = Some (map (\<lambda>(k, u). 4 * u) (rev (sht_layout s ks)))"
proof -
  have c: "contents_ok s ks" using assms by (simp add: sht_rep_def)
  then have n: "layout_end (unat (s_value_length s)) 3 ks = unat (s_size s)"
    by (simp add: contents_ok_def)
  have "s_size s \<le> 3 \<longleftrightarrow> unat (s_size s) \<le> 3" by (simp add: word_le_nat_alt)
  then show ?thesis
    using iterate_layout [of ks s, unfolded n] c by (simp add: sht_iter_start_p_def contents_ok_def)
qed

lemma sht_p_key_spec:
  assumes "sht_rep s ks" and "(k, u) \<in> set (sht_layout s ks)"
  shows "sht_p_key s (4 * u) = Some k"
proof -
  have c: "contents_ok s ks" using assms by (simp add: sht_rep_def)
  note l = layout_less [OF c assms(2)]
  have "mem_read32 (s_mem s) (4 * u - 4) = Some (of_nat (length k))"
    using l(6) by (intro mem_read32_holds) (simp add: holds_entry_def)
  moreover have "holds (s_mem s) (4 * u - 5 - length k) k"
    using l(6) by (simp add: holds_entry_def holds_append)
  ultimately show ?thesis
    using l(2) mem_read_holds by (simp add: sht_p_key_def unat_of_nat)
qed

subsection \<open>The interface of an interning table\<close>

text \<open>
  What the clients rely on: a key keeps the nonzero index its first interning gave it,
  different keys have different indices, and an absent key is looked up as zero.
\<close>

locale interner =
  fixes rep :: "'s \<Rightarrow> 'k list \<Rightarrow> bool"
    and room :: "'s \<Rightarrow> 'k \<Rightarrow> bool"
    and intern :: "'s \<Rightarrow> 'k \<Rightarrow> ('s \<times> u32) option"
    and look :: "'s \<Rightarrow> 'k \<Rightarrow> u32 option"
    and valid :: "'k \<Rightarrow> bool"
  assumes intern_old: "rep s ks \<Longrightarrow> room s k \<Longrightarrow> k \<in> set ks \<Longrightarrow>
      \<exists>u. intern s k = Some (s, u) \<and> look s k = Some u"
    and intern_new: "rep s ks \<Longrightarrow> room s k \<Longrightarrow> k \<notin> set ks \<Longrightarrow>
      \<exists>s' u. intern s k = Some (s', u) \<and> rep s' (ks @ [k]) \<and> look s' k = Some u \<and>
        (\<forall>j \<in> set ks. look s' j = look s j)"
    and look_in: "rep s ks \<Longrightarrow> k \<in> set ks \<Longrightarrow> \<exists>u. look s k = Some u \<and> u \<noteq> 0"
    and look_out: "rep s ks \<Longrightarrow> valid k \<Longrightarrow> k \<notin> set ks \<Longrightarrow> look s k = Some 0"
    and look_inj: "rep s ks \<Longrightarrow> j \<in> set ks \<Longrightarrow> k \<in> set ks \<Longrightarrow> look s j = look s k \<Longrightarrow> j = k"
begin

lemma intern_keeps:
  assumes "rep s ks" and "room s k"
  obtains s' u ks' where "intern s k = Some (s', u)" and "rep s' ks'" and "set ks' = insert k (set ks)"
    and "look s' k = Some u" and "u \<noteq> 0" and "\<And>j. j \<in> set ks \<Longrightarrow> look s' j = look s j"
proof (cases "k \<in> set ks")
  case True
  then show thesis
    using intern_old [OF assms True] look_in [OF assms(1) True] assms(1) that [of s _ ks]
    by (auto simp: insert_absorb)
next
  case False
  then obtain s' u where s': "intern s k = Some (s', u)" "rep s' (ks @ [k])" "look s' k = Some u"
    "\<forall>j \<in> set ks. look s' j = look s j"
    using intern_new [OF assms False] by blast
  then show thesis using look_in [OF s'(2), of k] that [of s' u "ks @ [k]"] by auto
qed

lemma intern_again:
  assumes "rep s ks" and "room s k" and "intern s k = Some (s', u)" and "room s' k"
  shows "intern s' k = Some (s', u)"
proof -
  obtain ks' where k: "rep s' ks'" "k \<in> set ks'" "look s' k = Some u"
    using intern_keeps [OF assms(1,2)] assms(3) by (metis insertI1 option.inject prod.inject)
  then show ?thesis using intern_old [OF k(1) assms(4) k(2)] by auto
qed

lemma intern_distinct:
  assumes "rep s ks" and "room s k" and "intern s k = Some (s', u)"
    and "j \<in> set ks" and "j \<noteq> k"
  shows "look s j \<noteq> Some u"
proof -
  obtain ks' where k: "rep s' ks'" "k \<in> set ks'" "j \<in> set ks'" "look s' k = Some u" "look s' j = look s j"
    using intern_keeps [OF assms(1,2)] assms(3,4) by (metis insert_iff option.inject prod.inject)
  then show ?thesis using look_inj [OF k(1,3,2)] assms(5) by auto
qed

end

definition key_fits :: "u8 list \<Rightarrow> bool" where
  "key_fits key \<longleftrightarrow> length key < 2 ^ 32"

lemma layout_inj:
  assumes "contents_ok s ks" and "map_of (sht_layout s ks) j = Some u" and "map_of (sht_layout s ks) k = Some u"
  shows "j = k"
proof -
  have l: "(j, u) \<in> set (sht_layout s ks)" "(k, u) \<in> set (sht_layout s ks)"
    using assms(2,3) map_of_SomeD by fast+
  have lj: "length j < 2 ^ 32" and lk: "length k < 2 ^ 32" using layout_less(2) [OF assms(1)] l by blast+
  have ej: "holds_entry (s_mem s) j u" and ek: "holds_entry (s_mem s) k u"
    using layout_less(6) [OF assms(1)] l by blast+
  obtain slot where "unat (slot_hi slot) = u"
    using hi_entry_slot layout_less(5) [OF assms(1) l(1)] by blast
  then have "key_at s k slot = Some (j = k)" "key_at s k slot = Some (k = k)"
    using key_at_entry ej ek lj lk by blast+
  then show ?thesis by simp
qed

interpretation sht: interner sht_rep sht_room sht_intern_u sht_lookup_u key_fits
proof (unfold_locales, goal_cases)
  case (1 s ks k)
  then show ?case
    using sht_intern_spec [OF 1(1,2)] sht_lookup_spec(1) [OF 1(1), of k] by (auto simp: sht_room_def)
next
  case (2 s ks k)
  then obtain s' u where s': "sht_intern_u s k = Some (s', of_nat u)" "sht_rep s' (ks @ [k])"
    "sht_layout s' (ks @ [k]) = sht_layout s ks @ [(k, u)]"
    using sht_intern_spec [OF 2(1,2)] unfolding if_not_P [OF 2(3)] by blast
  have len: "\<forall>j \<in> set (ks @ [k]). length j < 2 ^ 32"
    using s'(2) by (auto simp: sht_rep_def contents_ok_def)
  have "map_of (sht_layout s ks) k = None" using 2(3) by (simp add: map_of_eq_None_iff fst_sht_layout)
  moreover have "map_of (sht_layout s ks) j \<noteq> None" if "j \<in> set ks" for j
    using that by (simp add: map_of_eq_None_iff fst_sht_layout)
  ultimately show ?case
    using s' len 2(3) sht_lookup_spec(1) [OF s'(2)] sht_lookup_spec(1) [OF 2(1)]
    by (auto simp: map_add_def split: option.splits)
next
  case (3 s ks k)
  then have c: "contents_ok s ks" by (simp add: sht_rep_def)
  obtain u where u: "map_of (sht_layout s ks) k = Some u"
    using 3(2) fst_sht_layout [of s ks] by (metis map_of_eq_None_iff not_None_eq)
  note l = layout_less [OF c map_of_SomeD [OF u]]
  have "of_nat u \<noteq> (0 :: u32)" using l(3,5) by (simp add: word_unat_eq_iff unat_of_nat)
  then show ?case using sht_lookup_spec(1) [OF 3(1) l(2)] u by simp
next
  case (4 s ks k)
  then have "map_of (sht_layout s ks) k = None" by (simp add: map_of_eq_None_iff fst_sht_layout)
  then show ?case
    using sht_lookup_spec(1) [OF 4(1), of k] 4(2) by (simp add: key_fits_def)
next
  case (5 s ks j k)
  then have c: "contents_ok s ks" by (simp add: sht_rep_def)
  obtain u where u: "map_of (sht_layout s ks) j = Some u"
    using 5(2) fst_sht_layout [of s ks] by (metis map_of_eq_None_iff not_None_eq)
  obtain w where w: "map_of (sht_layout s ks) k = Some w"
    using 5(3) fst_sht_layout [of s ks] by (metis map_of_eq_None_iff not_None_eq)
  note lu = layout_less [OF c map_of_SomeD [OF u]] and lw = layout_less [OF c map_of_SomeD [OF w]]
  have "(of_nat u :: u32) = of_nat w"
    using 5(4) sht_lookup_spec(1) [OF 5(1) lu(2)] sht_lookup_spec(1) [OF 5(1) lw(2)] u w by simp
  then have "unat (of_nat u :: u32) = unat (of_nat w :: u32)" by simp
  then have "u = w" using lu(5) lw(5) by (simp add: unat_of_nat)
  then show ?case using layout_inj [OF c u] w by simp
qed

subsection \<open>Properties\<close>

text \<open>
  Looking a key up returns, for every table that holds the keys \<open>ks\<close> and without reading
  outside the key or the written part of the contents block, the place of its value, or zero
  and the null pointer when the key is not one of them.
\<close>

theorem sht_lookup_correct:
  assumes "sht_rep s ks" and "length key < 2 ^ 32"
  shows "sht_lookup_u s key = Some (case map_of (sht_layout s ks) key of None \<Rightarrow> 0 | Some u \<Rightarrow> of_nat u) \<and>
    sht_lookup_p s key = Some (map_option (\<lambda>u. 4 * u) (map_of (sht_layout s ks) key)) \<and>
    (map_of (sht_layout s ks) key = None \<longleftrightarrow> key \<notin> set ks)"
  using sht_lookup_spec [OF assms] by (simp add: map_of_eq_None_iff fst_sht_layout)

lemma sht_lookup_correct_witness: "sht_lookup_u (sht_init 4) [1, 2, 3] = Some 0"
  using sht_lookup_correct [OF sht_init_rep, of "[1, 2, 3]" 4] by (simp add: sht_layout_def)

text \<open>
  C6: interning a key returns the nonzero index it already has and changes nothing when it is
  present; when it is not, the key is appended to the contents with a zeroed value, in
  memory past everything the block held before, and the table then represents the keys
  with the new one last.
\<close>

theorem sht_intern_correct:
  assumes "sht_rep s ks" and "sht_room s key"
  shows "\<exists>s' u. sht_intern_u s key = Some (s', of_nat u) \<and> 0 < u \<and> u < 2 ^ 32 \<and>
    (if key \<in> set ks then s' = s \<and> map_of (sht_layout s ks) key = Some u
     else u = unat (s_size s) + key_units key \<and> sht_rep s' (ks @ [key]) \<and>
       sht_layout s' (ks @ [key]) = sht_layout s ks @ [(key, u)] \<and>
       holds (s_mem s') (4 * u) (replicate (4 * unat (s_value_length s)) 0) \<and>
       (\<forall>i < 4 * unat (s_size s). s_mem s' i = s_mem s i) \<and> s_value_length s' = s_value_length s)"
  using assms by (rule sht_intern_spec)

lemma sht_intern_correct_witness:
  "\<exists>s'. sht_intern_u (sht_init 4) [104, 105] = Some (s', 5) \<and> sht_rep s' [[104, 105]]"
proof -
  have "sht_room (sht_init 4) [104, 105]" by (simp add: sht_room_def sht_init_def key_units_def)
  then show ?thesis
    using sht_intern_correct [OF sht_init_rep, of 4 "[104, 105]"]
    by (auto simp: sht_init_def key_units_def)
qed

text \<open>
  Interning is stable: afterwards the key is found under the index returned, every key
  interned earlier is found where it was, and no two keys share an index.
\<close>

theorem sht_intern_stable:
  assumes "sht_rep s ks" and "sht_room s key" and "sht_intern_u s key = Some (s', u)"
  shows "sht_lookup_u s' key = Some u \<and> u \<noteq> 0 \<and>
    (\<forall>k \<in> set ks. sht_lookup_u s' k = sht_lookup_u s k \<and> (k \<noteq> key \<longrightarrow> sht_lookup_u s k \<noteq> Some u))"
proof -
  have "sht_lookup_u s' key = Some u \<and> u \<noteq> 0 \<and> (\<forall>k \<in> set ks. sht_lookup_u s' k = sht_lookup_u s k)"
    using sht.intern_keeps [OF assms(1,2)] assms(3) by (metis option.inject prod.inject)
  then show ?thesis using sht.intern_distinct [OF assms] by blast
qed

lemma sht_intern_stable_witness:
  "\<exists>s' u. sht_intern_u (sht_init 0) [7] = Some (s', u) \<and> sht_lookup_u s' [7] = Some u"
proof -
  have r: "sht_room (sht_init 0) [7]" by (simp add: sht_room_def sht_init_def key_units_def)
  obtain s' u where "sht_intern_u (sht_init 0) [7] = Some (s', u)"
    using sht_intern_spec [OF sht_init_rep r] by blast
  then show ?thesis using sht_intern_stable [OF sht_init_rep r] by blast
qed

text \<open>
  The iteration from \<open>sht_iter_start_p\<close> by \<open>sht_iter_next_p\<close> ends and visits the value of
  every key exactly once, latest first, and \<open>sht_p_key\<close> gives back the key of each.
\<close>

theorem sht_iteration_complete:
  assumes "sht_rep s ks"
  shows "\<exists>ps. sht_iterate s (sht_iter_start_p s) = Some ps \<and> map (sht_p_key s) ps = map Some (rev ks)"
proof (intro exI conjI)
  show "sht_iterate s (sht_iter_start_p s) = Some (map (\<lambda>(k, u). 4 * u) (rev (sht_layout s ks)))"
    using assms by (rule sht_iterate_spec)
  have "map (sht_p_key s) (map (\<lambda>(k, u). 4 * u) (rev (sht_layout s ks))) =
      map (Some \<circ> fst) (rev (sht_layout s ks))"
    using sht_p_key_spec [OF assms] by (auto simp: split_beta)
  also have "\<dots> = map Some (rev ks)"
    by (simp add: sht_layout_def flip: map_map rev_map)
  finally show "map (sht_p_key s) (map (\<lambda>(k, u). 4 * u) (rev (sht_layout s ks))) = map Some (rev ks)" .
qed

lemma sht_iteration_complete_witness: "\<exists>ps. sht_iterate (sht_init 8) (sht_iter_start_p (sht_init 8)) = Some ps"
  using sht_iteration_complete [OF sht_init_rep] by blast

end
