(* ===== verification/Arena.thy ===== *)
theory Arena
  imports Prelude
begin

section \<open>arena.c: the region allocator\<close>

text \<open>
  Regions are malloc'd blocks that start with a 16-byte header (\<open>next\<close>, \<open>size\<close>) and are
  bump-allocated downwards. A region is its malloc identity and its size; the linked lists
  \<open>used\<close> and \<open>avail\<close> are lists; \<open>a_next\<close> is the identity the next \<open>malloc\<close> returns, which
  succeeds. A block is the pair of its region and its offset. The loop of \<open>arena_alloc\<close> may
  not end when the size overflows the region size, so it is a partial function.
\<close>

type_synonym region = "nat \<times> u64"

record arena =
  a_used :: "region list"
  a_avail :: "region list"
  a_bump :: u64
  a_next :: nat

definition arena_empty :: "nat \<Rightarrow> arena" where
  "arena_empty next_id = \<lparr>a_used = [], a_avail = [], a_bump = 0, a_next = next_id\<rparr>"

definition fresh_size :: "u64 \<Rightarrow> u64" where
  "fresh_size sz = 16 + (if sz < 512 then 512 else sz)"

text \<open>One attempt at the current bump offset.\<close>

definition bump_down :: "u64 \<Rightarrow> u64 \<Rightarrow> u64 option" where
  "bump_down bump sz =
    (if bump > sz then
       let bump = (bump - sz) AND NOT 7
       in if bump \<ge> 16 then Some bump else None
     else None)"

partial_function (option) alloc_loop :: "arena \<Rightarrow> u64 \<Rightarrow> u64 \<Rightarrow> (arena \<times> nat \<times> u64) option" where
  "alloc_loop a bump sz = (case bump_down bump sz of
     Some b \<Rightarrow> Some (a\<lparr>a_bump := b\<rparr>, fst (hd (a_used a)), b)
   | None \<Rightarrow>
       (case a_avail a of
          r # rest \<Rightarrow> alloc_loop (a\<lparr>a_avail := rest, a_used := r # a_used a\<rparr>) (snd r) sz
        | [] \<Rightarrow>
            let b = fresh_size sz
            in alloc_loop (a\<lparr>a_used := (a_next a, b) # a_used a, a_next := a_next a + 1\<rparr>) b sz))"

definition arena_alloc :: "arena \<Rightarrow> u64 \<Rightarrow> (arena \<times> nat \<times> u64) option" where
  "arena_alloc a sz = alloc_loop a (a_bump a) sz"

text \<open>The pointer reversal loop of \<open>arena_reset\<close>.\<close>

fun reset_loop :: "region list \<Rightarrow> region list \<Rightarrow> region list" where
  "reset_loop [] a = a"
| "reset_loop (u # us) a = reset_loop us (u # a)"

definition arena_reset :: "arena \<Rightarrow> arena" where
  "arena_reset a = a\<lparr>a_used := [], a_avail := reset_loop (a_used a) (a_avail a), a_bump := 0\<rparr>"

text \<open>\<open>arena_free\<close> with the identities it passes to \<open>free\<close>, in order.\<close>

definition arena_free :: "arena \<Rightarrow> arena \<times> nat list" where
  "arena_free a =
    (a\<lparr>a_used := [], a_avail := [], a_bump := 0\<rparr>, map fst (a_used a) @ map fst (a_avail a))"

subsection \<open>The invariant\<close>

text \<open>A block handed out: region, offset and size, as natural numbers.\<close>

type_synonym block = "nat \<times> nat \<times> nat"

definition apart :: "block \<Rightarrow> block \<Rightarrow> bool" where
  "apart = (\<lambda>(r, at, n) (r', at', n'). r \<noteq> r' \<or> at + n \<le> at' \<or> at' + n' \<le> at)"

definition regions_ok :: "arena \<Rightarrow> bool" where
  "regions_ok a \<longleftrightarrow> distinct (map fst (a_used a @ a_avail a)) \<and>
     (\<forall>r \<in> set (a_used a @ a_avail a). fst r < a_next a)"

text \<open>
  A block lies in a region in use, past the header, and above the bump offset in the current
  region; its offset is a multiple of the pointer size.
\<close>

definition block_ok :: "arena \<Rightarrow> u64 \<Rightarrow> block \<Rightarrow> bool" where
  "block_ok a bump = (\<lambda>(r, at, n).
     (\<exists>s. (r, s) \<in> set (a_used a) \<and> at + n \<le> unat s) \<and> 16 \<le> at \<and> at mod 8 = 0 \<and>
     (fst (hd (a_used a)) = r \<longrightarrow> unat bump \<le> at))"

definition arena_inv :: "arena \<Rightarrow> u64 \<Rightarrow> block list \<Rightarrow> bool" where
  "arena_inv a bump bs \<longleftrightarrow> regions_ok a \<and>
     (a_used a = [] \<longrightarrow> bump = 0) \<and> (a_used a \<noteq> [] \<longrightarrow> bump \<le> snd (hd (a_used a))) \<and>
     (\<forall>b \<in> set bs. block_ok a bump b) \<and> sorted_wrt apart bs"

definition arena_ok :: "arena \<Rightarrow> block list \<Rightarrow> bool" where
  "arena_ok a bs \<longleftrightarrow> arena_inv a (a_bump a) bs"

lemma unat_align8: "unat (x AND NOT 7) = unat x div 8 * 8" for x :: u64
proof -
  have n7: "NOT 7 = (NOT (Bit_Operations.mask 3) :: u64)" by (simp add: mask_eq_exp_minus_1)
  have "x AND NOT 7 = push_bit 3 (drop_bit 3 x)"
    unfolding n7 by (rule bit_word_eqI) (auto simp: bit_simps)
  moreover have "unat x div 8 * 8 < 2 ^ LENGTH(64)"
    using unat_less_pow [of x] by (rule order_le_less_trans [rotated]) simp
  ultimately show ?thesis
    by (simp add: push_bit_eq_mult unat_word_ariths unat_drop_bit_eq drop_bit_eq_div mult.commute)
qed

lemma bump_down_facts:
  assumes "bump_down bump sz = Some b"
  shows "unat b + unat sz \<le> unat bump" "16 \<le> unat b" "unat b mod 8 = 0"
proof -
  have b: "sz < bump" "b = (bump - sz) AND NOT 7" "16 \<le> b"
    using assms by (auto simp: bump_down_def Let_def split: if_splits)
  have ub: "unat b = unat (bump - sz) div 8 * 8" unfolding b(2) by (rule unat_align8)
  have d: "unat (bump - sz) = unat bump - unat sz" "unat sz < unat bump"
    using b(1) by (auto simp: word_less_nat_alt word_le_nat_alt intro!: unat_sub)
  show "unat b + unat sz \<le> unat bump" using ub d by simp
  show "16 \<le> unat b" using b(3) by (simp add: word_le_nat_alt)
  show "unat b mod 8 = 0" using ub by simp
qed

lemma fresh_size_fits:
  assumes "unat sz + 16 < 2 ^ 64"
  obtains b where "bump_down (fresh_size sz) sz = Some b"
proof -
  let ?m = "if sz < 512 then 512 else sz"
  have m: "unat ?m + 16 < 2 ^ 64" "unat sz \<le> unat ?m"
    using assms by (auto simp: word_less_nat_alt)
  have f: "unat (fresh_size sz) = 16 + unat ?m"
    unfolding fresh_size_def using m(1) by (subst unat_add_lem [THEN iffD1]) simp_all
  have lt: "sz < fresh_size sz" using f m(2) by (simp add: word_less_nat_alt)
  have "unat (fresh_size sz - sz) = unat (fresh_size sz) - unat sz"
    using lt by (intro unat_sub) simp
  then have "16 \<le> unat (fresh_size sz - sz) div 8 * 8"
    using f m(2) by simp
  then have "(16 :: u64) \<le> (fresh_size sz - sz) AND NOT 7"
    unfolding word_le_nat_alt unat_align8 by simp
  then show thesis using lt that by (auto simp: bump_down_def Let_def)
qed

subsection \<open>Allocation\<close>

lemma push_region:
  assumes "arena_inv a bump bs" and "fst r \<notin> fst ` set (a_used a)"
    and "regions_ok a'" and "a_used a' = r # a_used a"
  shows "arena_inv a' (snd r) bs"
proof -
  have "block_ok a' (snd r) x" if bx: "block_ok a bump x" for x
  proof -
    obtain r' at n where x: "x = (r', at, n)" by (cases x)
    then obtain s where s: "(r', s) \<in> set (a_used a)" "at + n \<le> unat s" "16 \<le> at" "at mod 8 = 0"
      using bx by (auto simp: block_ok_def)
    then have "r' \<in> fst ` set (a_used a)" by (metis fst_conv imageI)
    then have "fst r \<noteq> r'" using assms(2) by auto
    then show ?thesis using s by (auto simp: block_ok_def x assms(4))
  qed
  then show ?thesis using assms(1,3) by (simp add: arena_inv_def assms(4))
qed

lemma alloc_done:
  assumes inv: "arena_inv a bump bs" and b: "bump_down bump sz = Some b"
  shows "arena_ok (a\<lparr>a_bump := b\<rparr>) ((fst (hd (a_used a)), unat b, unat sz) # bs)"
proof -
  note f = bump_down_facts [OF b]
  have "bump \<noteq> 0" using f by auto
  then obtain r s us where us: "a_used a = (r, s) # us" "bump \<le> s"
    using inv by (cases "a_used a") (auto simp: arena_inv_def)
  have le: "unat bump \<le> unat s" "unat b \<le> unat bump" using us(2) f(1) by (simp_all add: word_le_nat_alt)
  have old: "block_ok (a\<lparr>a_bump := b\<rparr>) b x" "apart (r, unat b, unat sz) x" if "x \<in> set bs" for x
  proof -
    obtain r' at n where x: "x = (r', at, n)" by (cases x)
    have "block_ok a bump x" using inv that by (simp add: arena_inv_def)
    then show "block_ok (a\<lparr>a_bump := b\<rparr>) b x" "apart (r, unat b, unat sz) x"
      using le f(1) by (auto simp: block_ok_def apart_def us x)
  qed
  have "block_ok (a\<lparr>a_bump := b\<rparr>) b (r, unat b, unat sz)"
    using f le us by (auto simp: block_ok_def intro!: exI [of _ s])
  moreover have "b \<le> s" using le by (simp add: word_le_nat_alt)
  ultimately show ?thesis
    using inv old us by (auto simp: arena_ok_def arena_inv_def regions_ok_def)
qed

lemma alloc_loop_spec:
  assumes "arena_inv a bump bs" and "unat sz + 16 < 2 ^ 64"
  shows "\<exists>a' r b. alloc_loop a bump sz = Some (a', r, b) \<and> arena_ok a' ((r, unat b, unat sz) # bs)"
  using assms(1)
proof (induction "length (a_avail a)" arbitrary: a bump)
  case 0
  then have av: "a_avail a = []" by simp
  show ?case
  proof (cases "bump_down bump sz")
    case (Some b)
    then show ?thesis using alloc_done [OF 0(2) Some] by (subst alloc_loop.simps) simp
  next
    case None
    let ?a = "a\<lparr>a_used := (a_next a, fresh_size sz) # a_used a, a_next := a_next a + 1\<rparr>"
    have ro: "regions_ok a" using 0 by (simp add: arena_inv_def)
    then have "\<forall>r \<in> set (a_used a). fst r \<noteq> a_next a"
      by (metis UnI1 less_irrefl regions_ok_def set_append)
    then have new: "a_next a \<notin> fst ` set (a_used a)" by auto
    then have "regions_ok ?a" using ro av by (auto simp: regions_ok_def)
    then have inv: "arena_inv ?a (fresh_size sz) bs"
      using push_region [OF 0(2), of "(a_next a, fresh_size sz)" ?a] new by simp
    obtain b where b: "bump_down (fresh_size sz) sz = Some b" using fresh_size_fits [OF assms(2)] .
    have "alloc_loop a bump sz = alloc_loop ?a (fresh_size sz) sz"
      using None av by (subst alloc_loop.simps) (simp add: Let_def)
    also have "\<dots> = Some (?a\<lparr>a_bump := b\<rparr>, fst (hd (a_used ?a)), b)"
      using b by (subst alloc_loop.simps) simp
    finally show ?thesis using alloc_done [OF inv b] by blast
  qed
next
  case (Suc n)
  then obtain r rest where av: "a_avail a = r # rest" by (cases "a_avail a") auto
  show ?case
  proof (cases "bump_down bump sz")
    case (Some b)
    then show ?thesis using alloc_done [OF Suc(3) Some] by (subst alloc_loop.simps) simp
  next
    case None
    let ?a = "a\<lparr>a_avail := rest, a_used := r # a_used a\<rparr>"
    have ro: "regions_ok a" using Suc by (simp add: arena_inv_def)
    then have "regions_ok ?a" "fst r \<notin> fst ` set (a_used a)" by (auto simp: regions_ok_def av)
    then have inv: "arena_inv ?a (snd r) bs" using push_region [OF Suc(3), of r ?a] by simp
    have "alloc_loop a bump sz = alloc_loop ?a (snd r) sz"
      using None av by (subst alloc_loop.simps) simp
    then show ?thesis using Suc.hyps(1) [OF _ inv] Suc.hyps(2) av by simp
  qed
qed

lemma arena_alloc_spec:
  "arena_ok a bs \<Longrightarrow> unat sz + 16 < 2 ^ 64 \<Longrightarrow>
   \<exists>a' r b. arena_alloc a sz = Some (a', r, b) \<and> arena_ok a' ((r, unat b, unat sz) # bs)"
  unfolding arena_alloc_def arena_ok_def [of a] by (rule alloc_loop_spec)

lemma reset_loop_rev: "reset_loop us a = rev us @ a"
  by (induction us a rule: reset_loop.induct) auto

lemma arena_reset_ok: "arena_ok a bs \<Longrightarrow> arena_ok (arena_reset a) []"
  by (auto simp: arena_ok_def arena_inv_def regions_ok_def arena_reset_def reset_loop_rev
      simp flip: rev_map)

subsection \<open>The interface of an allocator\<close>

text \<open>What every user of an arena relies on: live blocks never overlap.\<close>

locale block_allocator =
  fixes ok :: "'a \<Rightarrow> block list \<Rightarrow> bool"
    and alloc :: "'a \<Rightarrow> u64 \<Rightarrow> ('a \<times> nat \<times> u64) option"
    and reset :: "'a \<Rightarrow> 'a"
  assumes alloc_law: "ok a bs \<Longrightarrow> unat sz + 16 < 2 ^ 64 \<Longrightarrow>
      \<exists>a' r b. alloc a sz = Some (a', r, b) \<and> ok a' ((r, unat b, unat sz) # bs)"
    and reset_law: "ok a bs \<Longrightarrow> ok (reset a) []"
    and ok_apart: "ok a bs \<Longrightarrow> sorted_wrt apart bs"
begin

fun allocs :: "'a \<Rightarrow> u64 list \<Rightarrow> block list \<Rightarrow> ('a \<times> block list) option" where
  "allocs a [] bs = Some (a, bs)"
| "allocs a (sz # szs) bs = (case alloc a sz of
     None \<Rightarrow> None
   | Some (a', r, b) \<Rightarrow> allocs a' szs ((r, unat b, unat sz) # bs))"

lemma allocs_apart:
  assumes "ok a bs" and "\<forall>sz \<in> set szs. unat sz + 16 < 2 ^ 64"
  shows "\<exists>a' bs'. allocs a szs bs = Some (a', bs') \<and> ok a' bs' \<and> sorted_wrt apart bs' \<and>
    map (\<lambda>(r, at, n). n) bs' = rev (map unat szs) @ map (\<lambda>(r, at, n). n) bs"
  using assms
proof (induction szs arbitrary: a bs)
  case Nil
  then show ?case using ok_apart by simp
next
  case (Cons sz szs)
  then obtain a1 r b where a1: "alloc a sz = Some (a1, r, b)" "ok a1 ((r, unat b, unat sz) # bs)"
    using alloc_law [of a bs sz] by auto
  then show ?case using Cons.IH [OF a1(2)] Cons.prems(2) by auto
qed

end

interpretation arena: block_allocator arena_ok arena_alloc arena_reset
proof (unfold_locales, goal_cases)
  case (1 a bs sz)
  then show ?case by (rule arena_alloc_spec)
next
  case (2 a bs)
  then show ?case by (rule arena_reset_ok)
next
  case (3 a bs)
  then show ?case by (simp add: arena_ok_def arena_inv_def)
qed

subsection \<open>Properties\<close>

text \<open>
  C7: an allocation whose size leaves room for the region header always returns; the block
  lies inside a malloc'd region, past its header, at an offset that is a multiple of 8, and
  apart from every block handed out since the last reset.
\<close>

theorem arena_alloc_correct:
  assumes "arena_ok a bs" and "unat sz + 16 < 2 ^ 64"
  shows "\<exists>a' r b. arena_alloc a sz = Some (a', r, b) \<and> arena_ok a' ((r, unat b, unat sz) # bs) \<and>
    (\<exists>s. (r, s) \<in> set (a_used a') \<and> unat b + unat sz \<le> unat s) \<and> 16 \<le> unat b \<and> unat b mod 8 = 0 \<and>
    (\<forall>x \<in> set bs. apart (r, unat b, unat sz) x)"
proof -
  obtain a' r b where a': "arena_alloc a sz = Some (a', r, b)" "arena_ok a' ((r, unat b, unat sz) # bs)"
    using arena.alloc_law [OF assms] by blast
  then show ?thesis by (auto simp: arena_ok_def arena_inv_def block_ok_def)
qed

lemma arena_empty_ok: "arena_ok (arena_empty n) []"
  by (simp add: arena_ok_def arena_inv_def arena_empty_def regions_ok_def)

lemma arena_alloc_correct_witness:
  "\<exists>a' r b. arena_alloc (arena_empty 0) 100 = Some (a', r, b) \<and> 16 \<le> unat b"
  using arena_alloc_correct [OF arena_empty_ok [of 0], of 100] by auto

text \<open>
  After a reset every region can be used again, and all blocks of any sequence of
  allocations that follows are pairwise apart.
\<close>

theorem arena_reset_then_allocs:
  assumes "arena_ok a bs" and "\<forall>sz \<in> set szs. unat sz + 16 < 2 ^ 64"
  shows "set (a_avail (arena_reset a)) = set (a_used a) \<union> set (a_avail a) \<and>
    (\<exists>a' bs'. arena.allocs (arena_reset a) szs [] = Some (a', bs') \<and> sorted_wrt apart bs' \<and>
      map (\<lambda>(r, at, n). n) bs' = rev (map unat szs))"
  using arena.allocs_apart [OF arena.reset_law [OF assms(1)] assms(2)]
  by (auto simp: arena_reset_def reset_loop_rev)

lemma arena_reset_then_allocs_witness:
  "\<exists>a' bs'. arena.allocs (arena_reset (arena_empty 3)) [8, 600, 0] [] = Some (a', bs') \<and> sorted_wrt apart bs'"
  using arena_reset_then_allocs [OF arena_empty_ok, of "[8, 600, 0]" 3] by auto

lemma arena_free_all:
  "arena_ok a bs \<Longrightarrow> distinct (snd (arena_free a)) \<and>
     set (snd (arena_free a)) = fst ` set (a_used a @ a_avail a) \<and> arena_ok (fst (arena_free a)) []"
  by (auto simp: arena_free_def arena_ok_def arena_inv_def regions_ok_def)

end
