(* ===== verification/Tokenise.thy ===== *)
theory Tokenise
  imports Sht
begin

section \<open>tokenise.c: the tokeniser\<close>

text \<open>
  The text is a list of characters; \<open>tokeniser_run\<close> appends a newline and a NUL to it, and
  \<open>src\<close> is an index into the result. A read past the buffer, a write past the capacity of
  an array and a failing call make an operation \<open>None\<close>. \<open>t_tokens\<close> and \<open>t_line_starts\<close> are
  the written parts of their arrays, whose capacities are kept.
\<close>

record token =
  tok_type :: u32
  tok_start :: u32
  tok_end :: u32

definition TOK_IDENT_THR :: u32 where "TOK_IDENT_THR = 0xffffff80"
definition PUNCT_REPEAT :: u32 where "PUNCT_REPEAT = 32"
definition PUNCT_EQ :: u32 where "PUNCT_EQ = 64"
definition TOK_NUMBER :: u32 where "TOK_NUMBER = 0xfffffff7"
definition TOK_STR_LIT :: u32 where "TOK_STR_LIT = 0xfffffff8"
definition TOK_STR_LIT_ESC :: u32 where "TOK_STR_LIT_ESC = 0xfffffff9"
definition TOK_CHAR_LIT :: u32 where "TOK_CHAR_LIT = 0xfffffffa"
definition TOK_CHAR_LIT_ESC :: u32 where "TOK_CHAR_LIT_ESC = 0xfffffffb"
definition TOK_OTHER_CHAR :: u32 where "TOK_OTHER_CHAR = 0xfffffffd"
definition TOK_EOF :: u32 where "TOK_EOF = 0xffffffff"

definition TOK_PUNCT :: "char \<Rightarrow> u32" where
  "TOK_PUNCT c = (let c = of_char c :: u32
    in ((c + (if c < 0x41 then 0 else if c < 0x61 then 21 else 27)) AND 31) + TOK_IDENT_THR)"

record tokeniser =
  t_idents :: sht
  t_tokens :: "token list"
  t_tokens_size :: u32
  t_tokens_capacity :: u32
  t_text :: string
  t_text_size :: u32
  t_text_capacity :: u32
  t_line_starts :: "u32 list"
  t_line_starts_size :: u32
  t_line_starts_capacity :: u32
  t_line_lookup_cache :: u32

definition tokeniser_init :: tokeniser where
  "tokeniser_init =
    \<lparr>t_idents = sht_init 4, t_tokens = [], t_tokens_size = 0, t_tokens_capacity = 8,
     t_text = [], t_text_size = 0, t_text_capacity = 0,
     t_line_starts = [], t_line_starts_size = 0, t_line_starts_capacity = 8,
     t_line_lookup_cache = 0\<rparr>"

definition char_flags_table :: "u8 list" where
  "char_flags_table = [
     1, 1, 1, 1, 1, 1, 1, 1, 1, 1, 0, 1, 1, 0, 1, 1, 1, 1, 1, 1, 1, 1, 1, 1,
     1, 1, 1, 1, 1, 1, 1, 1, 1, 1, 0, 1, 1, 1, 1, 0, 1, 1, 1, 1, 1, 1, 3, 1,
     31, 31, 31, 31, 31, 31, 31, 31, 31, 31, 1, 1, 1, 1, 1, 1, 1, 31, 31, 31, 31, 63, 31, 15,
     15, 15, 15, 15, 15, 15, 15, 15, 47, 15, 15, 15, 15, 15, 15, 15, 15, 15, 15, 1, 0, 1, 1, 15,
     1, 31, 31, 31, 31, 63, 31, 15, 15, 15, 15, 15, 15, 15, 15, 15, 47, 15, 15, 15, 15, 15, 15, 15,
     15, 15, 15, 1, 1, 1, 1, 1, 7, 7, 7, 7, 7, 7, 7, 7, 7, 7, 7, 7, 7, 7, 7, 7,
     7, 7, 7, 7, 7, 7, 7, 7, 7, 7, 7, 7, 7, 7, 7, 7, 7, 7, 7, 7, 7, 7, 7, 7,
     7, 7, 7, 7, 7, 7, 7, 7, 7, 7, 7, 7, 7, 7, 7, 7, 7, 7, 7, 7, 7, 7, 7, 7,
     7, 7, 7, 7, 7, 7, 7, 7, 7, 7, 7, 7, 7, 7, 7, 7, 7, 7, 7, 7, 7, 7, 7, 7,
     7, 7, 7, 7, 7, 7, 7, 7, 7, 7, 7, 7, 7, 7, 7, 7, 7, 7, 7, 7, 7, 7, 7, 7,
     7, 7, 7, 7, 7, 7, 7, 7, 7, 7, 7, 7, 7, 7, 7, 7]"

definition char_flags :: "char \<Rightarrow> u8" where
  "char_flags c = char_flags_table ! of_char c"

definition CF_eEpP :: u8 where "CF_eEpP = 0x20"
definition CF_HEX_DIGIT :: u8 where "CF_HEX_DIGIT = 0x10"
definition CF_IDENT_CONTINUE :: u8 where "CF_IDENT_CONTINUE = 0x04"
definition CF_PP_NUMBER :: u8 where "CF_PP_NUMBER = 0x02"
definition CF_STR_BODY :: u8 where "CF_STR_BODY = 0x01"

definition has_flag :: "char \<Rightarrow> u8 \<Rightarrow> bool" where
  "has_flag c f \<longleftrightarrow> char_flags c AND f \<noteq> 0"

abbreviation NL :: char where "NL \<equiv> CHR 0x0A"
abbreviation CR :: char where "CR \<equiv> CHR 0x0D"

subsection \<open>The scanning loops\<close>

text \<open>\<open>while (char_flags[(uint8_t)*src] & f) ++src\<close>\<close>

function scan_flags :: "string \<Rightarrow> u8 \<Rightarrow> nat \<Rightarrow> nat option" where
  "scan_flags base f i = (case rd base i of
     None \<Rightarrow> None
   | Some c \<Rightarrow> if has_flag c f then scan_flags base f (i + 1) else Some i)"
  by pat_completeness auto
termination by (relation "measure (\<lambda>(base, f, i). length base - i)") (auto simp: rd_def split: if_splits)

text \<open>The string literal loop: the end of the token and its type.\<close>

function scan_str :: "string \<Rightarrow> char \<Rightarrow> u32 \<Rightarrow> nat \<Rightarrow> (u32 \<times> nat) option" where
  "scan_str base c0 type i = (case rd base i of
     None \<Rightarrow> None
   | Some c \<Rightarrow>
       if has_flag c CF_STR_BODY then scan_str base c0 type (i + 1)
       else if c = c0 then Some (type, i + 1)
       else let type = type OR 1 in
         if c = CHR 0x5C then
           (case rd base (i + 1) of
              None \<Rightarrow> None
            | Some c \<Rightarrow> if c = CR \<or> c = NL then Some (type, i + 1) else scan_str base c0 type (i + 2))
         else if c = CR \<or> c = NL then Some (type, i) else scan_str base c0 type (i + 1))"
  by pat_completeness auto
termination
  by (relation "measure (\<lambda>(base, c0, type, i). length base - i)") (auto simp: rd_def split: if_splits)

text \<open>The \<open>pp_number\<close> loop; \<open>src[-2]\<close> is the character before the one just read.\<close>

function scan_number :: "string \<Rightarrow> nat \<Rightarrow> nat option" where
  "scan_number base i = (case rd base i of
     None \<Rightarrow> None
   | Some c \<Rightarrow>
       if has_flag c CF_PP_NUMBER then scan_number base (i + 1)
       else if (c = CHR ''+'' \<or> c = CHR ''-'') \<and> has_flag (base ! (i - 1)) CF_eEpP
       then scan_number base (i + 1)
       else Some i)"
  by pat_completeness auto
termination by (relation "measure (\<lambda>(base, i). length base - i)") (auto simp: rd_def split: if_splits)

text \<open>The loop over a \<open>//\<close> comment: the index just after the character that ends it.\<close>

function scan_comment :: "string \<Rightarrow> nat \<Rightarrow> (char \<times> nat) option" where
  "scan_comment base i = (case rd base i of
     None \<Rightarrow> None
   | Some c \<Rightarrow> if c = NL \<or> c = CR then Some (c, i + 1) else scan_comment base (i + 1))"
  by pat_completeness auto
termination by (relation "measure (\<lambda>(base, i). length base - i)") (auto simp: rd_def split: if_splits)

function scan_same :: "string \<Rightarrow> char \<Rightarrow> nat \<Rightarrow> nat option" where
  "scan_same base c i = (case rd base i of
     None \<Rightarrow> None
   | Some c' \<Rightarrow> if c' = c then scan_same base c (i + 1) else Some i)"
  by pat_completeness auto
termination by (relation "measure (\<lambda>(base, c, i). length base - i)") (auto simp: rd_def split: if_splits)

text \<open>The continuation bytes of a UTF-8 sequence.\<close>

function scan_utf8 :: "string \<Rightarrow> nat \<Rightarrow> nat option" where
  "scan_utf8 base i = (case rd base i of
     None \<Rightarrow> None
   | Some c \<Rightarrow> if 0x80 \<le> (of_char c :: nat) \<and> (of_char c :: nat) < 0xc0 then scan_utf8 base (i + 1) else Some i)"
  by pat_completeness auto
termination by (relation "measure (\<lambda>(base, i). length base - i)") (auto simp: rd_def split: if_splits)

declare scan_flags.simps [simp del] scan_str.simps [simp del] scan_number.simps [simp del]
  scan_comment.simps [simp del] scan_same.simps [simp del] scan_utf8.simps [simp del]

subsection \<open>The main loop\<close>

definition is_alpha :: "char \<Rightarrow> bool" where
  "is_alpha c \<longleftrightarrow> c = CHR ''_'' \<or> (97 \<le> (of_char c :: nat) \<and> (of_char c :: nat) \<le> 122) \<or>
     (65 \<le> (of_char c :: nat) \<and> (of_char c :: nat) \<le> 90)"

definition key_bytes :: "string \<Rightarrow> u8 list" where
  "key_bytes s = map of_char s"

definition slice :: "string \<Rightarrow> nat \<Rightarrow> nat \<Rightarrow> string" where
  "slice base i j = take (j - i) (drop i base)"

text \<open>
  One pass through the switch: a token with its type and end, a restart at \<open>again\<close> after
  blanks, a newline (which ends a line at the given index) or the end of the text.
\<close>

datatype lexed = Tok sht u32 nat | Again nat | Newline nat | Eof

definition after_cr :: "string \<Rightarrow> nat \<Rightarrow> lexed option" where
  "after_cr base src = (case rd base src of
     None \<Rightarrow> None | Some c \<Rightarrow> Some (Newline (if c = NL then src + 1 else src)))"

definition punct_flags :: "char \<Rightarrow> u32" where
  "punct_flags c =
    (if c = CHR ''&'' \<or> c = CHR ''|'' \<or> c = CHR ''<'' \<or> c = CHR ''>'' \<or> c = CHR '':'' then PUNCT_REPEAT
     else if c = CHR ''='' \<or> c = CHR ''!'' then PUNCT_EQ else 0)"

definition lex_punct :: "sht \<Rightarrow> string \<Rightarrow> char \<Rightarrow> nat \<Rightarrow> lexed option" where
  "lex_punct idents base c src = (case rd base src of
     None \<Rightarrow> None
   | Some c' \<Rightarrow>
       Some (if punct_flags c AND PUNCT_REPEAT \<noteq> 0 \<and> c' = c
             then Tok idents (TOK_PUNCT c + PUNCT_REPEAT) (src + 1)
             else if punct_flags c AND PUNCT_EQ \<noteq> 0 \<and> c' = CHR ''=''
             then Tok idents (TOK_PUNCT c + PUNCT_EQ) (src + 1)
             else Tok idents (TOK_PUNCT c) src))"

definition lex :: "string \<Rightarrow> nat \<Rightarrow> sht \<Rightarrow> nat \<Rightarrow> lexed option" where
  "lex base text_size idents start = (case rd base start of
     None \<Rightarrow> None
   | Some c \<Rightarrow> let src = start + 1 in
       if is_alpha c then
         (case scan_flags base CF_IDENT_CONTINUE src of
            None \<Rightarrow> None
          | Some e \<Rightarrow> (case sht_intern_u idents (key_bytes (slice base start e)) of
              None \<Rightarrow> None | Some (idents, type) \<Rightarrow> Some (Tok idents type e)))
       else if c = CHR 0x27 \<or> c = CHR 0x22 then
         (case scan_str base c (TOK_STR_LIT + (of_char c AND 1) * 2) src of
            None \<Rightarrow> None | Some (type, e) \<Rightarrow> Some (Tok idents type e))
       else if c = CHR ''.'' then
         (case rd base src of
            None \<Rightarrow> None
          | Some c \<Rightarrow>
              if is_digit c then map_option (Tok idents TOK_NUMBER) (scan_number base (src + 1))
              else Some (Tok idents (TOK_PUNCT (CHR ''.'')) src))
       else if is_digit c then map_option (Tok idents TOK_NUMBER) (scan_number base src)
       else if c \<in> set ''()[]{},;~-+*^%@#'' then Some (Tok idents (TOK_PUNCT c) src)
       else if punct_flags c \<noteq> 0 then lex_punct idents base c src
       else if c = CHR ''/'' then
         (case rd base src of
            None \<Rightarrow> None
          | Some c' \<Rightarrow>
              if c' = CHR ''/'' then
                (case scan_comment base (src + 1) of
                   None \<Rightarrow> None
                 | Some (c, src) \<Rightarrow> if c = NL then Some (Newline src) else after_cr base src)
              else Some (Tok idents (TOK_PUNCT (CHR ''/'')) src))
       else if c = CR then after_cr base src
       else if c = NL then Some (Newline src)
       else if c = CHR '' '' \<or> c = CHR 0x09 \<or> c = CHR 0x0C \<or> c = CHR 0x0B then
         map_option Again (scan_same base c src)
       else if c = NUL then
         (if src > text_size then Some Eof else Some (Tok idents TOK_OTHER_CHAR src))
       else map_option (Tok idents TOK_OTHER_CHAR) (scan_utf8 base src))"

definition grow_capacity :: "u32 \<Rightarrow> u32" where
  "grow_capacity cap = (let new_capacity = cap + drop_bit 1 cap
    in if new_capacity < cap then cap + 8 else new_capacity)"

text \<open>Appending to an array whose capacity has been checked.\<close>

definition push_token :: "tokeniser \<Rightarrow> token \<Rightarrow> tokeniser option" where
  "push_token t tok =
    (if length (t_tokens t) < unat (t_tokens_capacity t)
     then Some (t\<lparr>t_tokens := t_tokens t @ [tok]\<rparr>) else None)"

definition reserve_token :: "tokeniser \<Rightarrow> tokeniser" where
  "reserve_token t =
    (if length (t_tokens t) \<ge> unat (t_tokens_capacity t)
     then t\<lparr>t_tokens_capacity := grow_capacity (t_tokens_capacity t)\<rparr> else t)"

definition push_line :: "tokeniser \<Rightarrow> nat \<Rightarrow> tokeniser option" where
  "push_line t src =
    (let t = (if t_line_starts_size t \<ge> t_line_starts_capacity t
              then t\<lparr>t_line_starts_capacity := grow_capacity (t_line_starts_capacity t)\<rparr> else t)
     in if unat (t_line_starts_size t) < unat (t_line_starts_capacity t)
        then Some (t\<lparr>t_line_starts := t_line_starts t @ [of_nat src],
                     t_line_starts_size := t_line_starts_size t + 1\<rparr>)
        else None)"

partial_function (option) run_loop :: "string \<Rightarrow> tokeniser \<Rightarrow> nat \<Rightarrow> tokeniser option" where
  "run_loop base t src =
    (let t = reserve_token t in
     case lex base (unat (t_text_size t)) (t_idents t) src of
       None \<Rightarrow> None
     | Some r \<Rightarrow> (case r of
         Tok idents type e \<Rightarrow>
           Option.bind (push_token (t\<lparr>t_idents := idents\<rparr>)
               \<lparr>tok_type = type, tok_start = of_nat src, tok_end = of_nat e\<rparr>)
             (\<lambda>t. run_loop base t e)
       | Again src \<Rightarrow> run_loop base t src
       | Newline src \<Rightarrow> Option.bind (push_line t src) (\<lambda>t. run_loop base t src)
       | Eof \<Rightarrow>
           Option.bind (push_token t \<lparr>tok_type = TOK_EOF, tok_start = of_nat src, tok_end = of_nat src\<rparr>)
             (\<lambda>t'. let n = t_line_starts_size t - 1
                   in Some (t'\<lparr>t_tokens_size := of_nat (length (t_tokens t)), t_line_starts_size := n,
                              t_line_starts := (t_line_starts t)[unat n := 0xffffffff]\<rparr>))))"

definition tokeniser_run :: "tokeniser \<Rightarrow> tokeniser option" where
  "tokeniser_run t =
    (let t = t\<lparr>t_line_starts := [0], t_line_starts_size := 1, t_line_lookup_cache := 0\<rparr>;
         t = (if t_text_size t + 1 \<ge> t_text_capacity t
              then t\<lparr>t_text_capacity := grow_capacity (t_text_capacity t)\<rparr> else t)
     in if unat (t_text_size t) + 2 \<le> unat (t_text_capacity t) \<and> unat (t_line_starts_capacity t) > 0
        then run_loop (t_text t @ [NL, NUL]) (t\<lparr>t_tokens := []\<rparr>) 0
        else None)"

subsection \<open>Lines\<close>

text \<open>
  The loops of \<open>offset_to_line\<close>; \<open>starts\<close> has the sentinel \<open>0xffffffff\<close> at its end.
\<close>

function line_up :: "u32 list \<Rightarrow> u32 \<Rightarrow> nat \<Rightarrow> nat option" where
  "line_up starts offset i = (case rd starts (i + 2) of
     None \<Rightarrow> None
   | Some s \<Rightarrow> if offset \<ge> s then line_up starts offset (i + 1) else Some (i + 1))"
  by pat_completeness auto
termination
  by (relation "measure (\<lambda>(starts, offset, i). length starts - i)") (auto simp: rd_def split: if_splits)

fun line_down :: "u32 list \<Rightarrow> u32 \<Rightarrow> nat \<Rightarrow> nat option" where
  "line_down starts offset 0 = None"
| "line_down starts offset (Suc i) = (case rd starts i of
     None \<Rightarrow> None
   | Some s \<Rightarrow> if offset < s then line_down starts offset i else Some i)"

declare line_up.simps [simp del]

definition offset_to_line :: "tokeniser \<Rightarrow> u32 \<Rightarrow> (tokeniser \<times> u32) option" where
  "offset_to_line t offset =
    (let starts = t_line_starts t; cached = unat (t_line_lookup_cache t) in
     case rd starts cached of None \<Rightarrow> None | Some s \<Rightarrow>
       if offset \<ge> s then
         (case rd starts (cached + 1) of None \<Rightarrow> None | Some s1 \<Rightarrow>
            if offset < s1 then Some (t, of_nat cached)
            else if offset \<ge> 0xffffffff then Some (t, t_line_starts_size t - 1)
            else map_option (\<lambda>l. (t\<lparr>t_line_lookup_cache := of_nat l\<rparr>, of_nat l)) (line_up starts offset cached))
       else map_option (\<lambda>l. (t\<lparr>t_line_lookup_cache := of_nat l\<rparr>, of_nat l)) (line_down starts offset cached))"

text \<open>The line and column that \<open>tokeniser_error\<close> prints before it exits.\<close>

definition tokeniser_error :: "tokeniser \<Rightarrow> token \<Rightarrow> (u32 \<times> u32) option" where
  "tokeniser_error t tok = (case offset_to_line t (tok_start tok) of
     None \<Rightarrow> None
   | Some (t, line) \<Rightarrow> (case rd (t_line_starts t) (unat line) of
       None \<Rightarrow> None
     | Some s \<Rightarrow> Some (line + 1, tok_start tok - s + 1)))"

definition tokeniser_next_line_start :: "tokeniser \<Rightarrow> u32 \<Rightarrow> (tokeniser \<times> u32) option" where
  "tokeniser_next_line_start t ofs = (case offset_to_line t ofs of
     None \<Rightarrow> None
   | Some (t, line) \<Rightarrow> map_option (Pair t) (rd (t_line_starts t) (unat line + 1)))"

subsection \<open>Decoding\<close>

definition t_base :: "tokeniser \<Rightarrow> string" where
  "t_base t = t_text t @ [NL, NUL]"

text \<open>\<open>c += (c & 16) ? 16 : 9\<close> and then \<open>c & 15\<close>.\<close>

definition hex_digit_value :: "char \<Rightarrow> u64" where
  "hex_digit_value c = (let c = of_char c :: u8; c = c + (if c AND 16 \<noteq> 0 then 16 else 9) in ucast (c AND 15))"

fun is_hex_range_from :: "string \<Rightarrow> u8 \<Rightarrow> nat \<Rightarrow> nat \<Rightarrow> u8 option" where
  "is_hex_range_from base result start 0 = Some result"
| "is_hex_range_from base result start (Suc n) = (case rd base start of
     None \<Rightarrow> None
   | Some c \<Rightarrow> is_hex_range_from base (result AND char_flags c) (start + 1) n)"

definition tokeniser_is_hex_range :: "tokeniser \<Rightarrow> u32 \<Rightarrow> u32 \<Rightarrow> u32 option" where
  "tokeniser_is_hex_range t start lim =
    map_option ucast (is_hex_range_from (t_base t) CF_HEX_DIGIT (unat start) (unat lim - unat start))"

fun decode_hex_from :: "string \<Rightarrow> u64 \<Rightarrow> nat \<Rightarrow> nat \<Rightarrow> u64 option" where
  "decode_hex_from base uval start 0 = Some uval"
| "decode_hex_from base uval start (Suc n) = (case rd base start of
     None \<Rightarrow> None
   | Some c \<Rightarrow> decode_hex_from base (push_bit 4 uval + hex_digit_value c) (start + 1) n)"

definition tokeniser_decode_hex_range :: "tokeniser \<Rightarrow> u32 \<Rightarrow> u32 \<Rightarrow> u64 option" where
  "tokeniser_decode_hex_range t start lim =
    decode_hex_from (t_base t) 0 (unat start) (unat lim - unat start)"

text \<open>
  The four number loops share one form: digits of a base, and a quote that is followed by
  a digit. The result is the value and the index of the character that stopped the loop. A \<open>char\<close>
  is unsigned here; where C has it signed, the value of a token whose first character is neither
  a digit nor ASCII would differ, and such a token is never taken for a number.
\<close>

definition digit_upto :: "char \<Rightarrow> char \<Rightarrow> bool" where
  "digit_upto m c \<longleftrightarrow> is_digit c \<and> (of_char c :: nat) \<le> of_char m"

definition digit_of :: "char \<Rightarrow> u64" where
  "digit_of c = of_char c - 48"

function num_loop :: "(char \<Rightarrow> bool) \<Rightarrow> (u64 \<Rightarrow> char \<Rightarrow> u64) \<Rightarrow> string \<Rightarrow> u64 \<Rightarrow> nat \<Rightarrow> (u64 \<times> nat) option" where
  "num_loop isd step base uval i = (case rd base i of
     None \<Rightarrow> None
   | Some c \<Rightarrow>
       if isd c then num_loop isd step base (step uval c) (i + 1)
       else if c = CHR 0x27 then
         (case rd base (i + 1) of
            None \<Rightarrow> None
          | Some c' \<Rightarrow> if isd c' then num_loop isd step base uval (i + 1) else Some (uval, i))
       else Some (uval, i))"
  by pat_completeness auto
termination
  by (relation "measure (\<lambda>(isd, step, base, uval, i). length base - i)") (auto simp: rd_def split: if_splits)

declare num_loop.simps [simp del]

text \<open>The result flag and what is stored through \<open>dst\<close>, if anything.\<close>

definition tokeniser_decode_uint :: "tokeniser \<Rightarrow> token \<Rightarrow> (bool \<times> u64 option) option" where
  "tokeniser_decode_uint t tok =
    (let base = t_base t; src = unat (tok_start tok) in
     case rd base src of None \<Rightarrow> None | Some c \<Rightarrow>
       if c = CHR ''.'' then Some (False, None)
       else map_option (\<lambda>(uval, src). (src = unat (tok_end tok), Some uval))
        (if c = CHR ''0'' then
           (case rd base (src + 1) of None \<Rightarrow> None | Some c \<Rightarrow>
              if c = CHR ''x'' \<or> c = CHR ''X'' then
                num_loop (\<lambda>c. has_flag c CF_HEX_DIGIT) (\<lambda>u c. push_bit 4 u + hex_digit_value c) base 0 (src + 2)
              else if c = CHR ''b'' \<or> c = CHR ''B'' then
                num_loop (digit_upto (CHR ''1'')) (\<lambda>u c. u * 2 + digit_of c) base 0 (src + 2)
              else num_loop (digit_upto (CHR ''7'')) (\<lambda>u c. u * 8 + digit_of c) base 0 (src + 1))
         else num_loop is_digit (\<lambda>u c. u * 10 + digit_of c) base (digit_of c) (src + 1)))"

text \<open>The hexadecimal and octal escapes: the value and the index after the escape.\<close>

function hex_escape :: "string \<Rightarrow> u32 \<Rightarrow> nat \<Rightarrow> (u32 \<times> nat) option" where
  "hex_escape base hval i = (case rd base i of
     None \<Rightarrow> None
   | Some c \<Rightarrow> if has_flag c CF_HEX_DIGIT
       then hex_escape base (push_bit 4 hval + ucast (hex_digit_value c)) (i + 1) else Some (hval, i))"
  by pat_completeness auto
termination by (relation "measure (\<lambda>(base, hval, i). length base - i)") (auto simp: rd_def split: if_splits)

declare hex_escape.simps [simp del]

definition octal_escape :: "string \<Rightarrow> char \<Rightarrow> nat \<Rightarrow> (u32 \<times> nat) option" where
  "octal_escape base c i =
    (let oval = of_char c - 48 in
     case rd base i of None \<Rightarrow> None | Some c \<Rightarrow>
       if digit_upto (CHR ''7'') c then
         (let oval = oval * 8 + (of_char c - 48) in
          case rd base (i + 1) of None \<Rightarrow> None | Some c \<Rightarrow>
            if digit_upto (CHR ''7'') c then Some (oval * 8 + (of_char c - 48), i + 2)
            else Some (oval, i + 1))
       else Some (oval, i))"

definition simple_escape :: "char \<Rightarrow> char" where
  "simple_escape c =
    (if c = CHR ''a'' then CHR 0x07 else if c = CHR ''b'' then CHR 0x08
     else if c = CHR ''f'' then CHR 0x0C else if c = CHR ''n'' then NL
     else if c = CHR ''r'' then CR else if c = CHR ''t'' then CHR 0x09
     else if c = CHR ''v'' then CHR 0x0B else c)"

definition char_of_u32 :: "u32 \<Rightarrow> char" where
  "char_of_u32 w = char_of (unat w)"

text \<open>One escape: the character it stands for and the index after it; \<open>i\<close> is past the backslash.\<close>

definition decode_escape :: "string \<Rightarrow> nat \<Rightarrow> (char \<times> nat) option" where
  "decode_escape base i = (case rd base i of None \<Rightarrow> None | Some c \<Rightarrow>
     if c = CHR ''x'' then
       (case rd base (i + 1) of None \<Rightarrow> None | Some c \<Rightarrow>
          if has_flag c CF_HEX_DIGIT
          then map_option (\<lambda>(v, j). (char_of_u32 v, j)) (hex_escape base 0 (i + 1))
          else Some (CHR ''x'', i + 1))
     else if digit_upto (CHR ''7'') c
     then map_option (\<lambda>(v, j). (char_of_u32 v, j)) (octal_escape base c (i + 1))
     else Some (simple_escape c, i + 1))"

text \<open>
  The loop of \<open>tokeniser_decode_str_lit\<close> into a buffer of \<open>n\<close> characters; every write, the
  final NUL included, is checked against it.
\<close>

partial_function (option) str_loop :: "string \<Rightarrow> nat \<Rightarrow> nat \<Rightarrow> nat \<Rightarrow> string \<Rightarrow> string option" where
  "str_loop base lim n i out =
    (if length out \<ge> n then None
     else if i < lim then
       (case rd base i of None \<Rightarrow> None | Some c \<Rightarrow>
          if c \<noteq> CHR 0x5C then str_loop base lim n (i + 1) (out @ [c])
          else case decode_escape base (i + 1) of None \<Rightarrow> None | Some (c, j) \<Rightarrow>
            str_loop base lim n j (out @ [c]))
     else Some out)"

text \<open>\<open>Some None\<close> is the null pointer; otherwise the string and its length.\<close>

definition tokeniser_decode_str_lit :: "tokeniser \<Rightarrow> token \<Rightarrow> string option option" where
  "tokeniser_decode_str_lit t tok =
    (let base = t_base t; s = unat (tok_start tok); e = unat (tok_end tok) in
     if tok_type tok = TOK_STR_LIT \<or> tok_type tok = TOK_CHAR_LIT then
       (if s + 2 \<le> e \<and> e \<le> length base then Some (Some (slice base (s + 1) (e - 1))) else None)
     else if tok_type tok \<noteq> TOK_STR_LIT_ESC \<and> tok_type tok \<noteq> TOK_CHAR_LIT_ESC then Some None
     else map_option Some (str_loop base (e - 1) (e - s) (s + 1) []))"

definition tokeniser_decode_char_lit :: "tokeniser \<Rightarrow> token \<Rightarrow> u64 option" where
  "tokeniser_decode_char_lit t tok = (case tokeniser_decode_str_lit t tok of
     Some (Some s) \<Rightarrow> Some (fold (\<lambda>c uval. push_bit 8 uval OR of_char c) s 0)
   | _ \<Rightarrow> None)"

subsection \<open>The scanning loops stop in the text\<close>

text \<open>
  \<open>padded base n\<close>: a text of \<open>n\<close> characters followed by the newline and the NUL that
  \<open>tokeniser_run\<close> writes after it. No scan passes the newline.
\<close>

definition padded :: "string \<Rightarrow> nat \<Rightarrow> bool" where
  "padded base n \<longleftrightarrow> length base = n + 2 \<and> base ! n = NL \<and> base ! (n + 1) = NUL"

definition eol_char :: "char \<Rightarrow> bool" where
  "eol_char c \<longleftrightarrow> c = NL \<or> c = CR"

lemma char_flags_eol [simp]: "eol_char c \<Longrightarrow> \<not> has_flag c f"
  by (auto simp: eol_char_def has_flag_def char_flags_def char_flags_table_def)

lemma padded_rd: "padded base n \<Longrightarrow> i \<le> n + 1 \<Longrightarrow> rd base i = Some (base ! i)"
  by (simp add: padded_def rd_def)

lemma eol_NL [simp]: "eol_char NL" and eol_CR [simp]: "eol_char CR"
  by (simp_all add: eol_char_def)

text \<open>What a scan from \<open>i\<close> to \<open>e\<close> guarantees: it stays in the text and crosses no line end.\<close>

definition scanned :: "string \<Rightarrow> nat \<Rightarrow> nat \<Rightarrow> nat \<Rightarrow> bool" where
  "scanned base n i e \<longleftrightarrow> i \<le> e \<and> e \<le> n \<and> (\<forall>j. i \<le> j \<and> j < e \<longrightarrow> \<not> eol_char (base ! j))"

lemma upto_1: "\<not> eol_char (base ! i) \<Longrightarrow> \<forall>j. i \<le> j \<and> j < i + 1 \<longrightarrow> \<not> eol_char (base ! j)"
  by (auto simp: less_Suc_eq dest: le_antisym)

lemma upto_2:
  "\<not> eol_char (base ! i) \<Longrightarrow> \<not> eol_char (base ! Suc i) \<Longrightarrow>
   \<forall>j. i \<le> j \<and> j < i + 2 \<longrightarrow> \<not> eol_char (base ! j)"
  by (auto simp: less_Suc_eq numeral_2_eq_2 dest: le_antisym)

lemma scanned_refl: "i \<le> n \<Longrightarrow> scanned base n i i"
  by (auto simp: scanned_def)

lemma scanned_step:
  "scanned base n (Suc i) e \<Longrightarrow> \<not> eol_char (base ! i) \<Longrightarrow> scanned base n i e"
  unfolding scanned_def by (metis Suc_leD Suc_leI le_neq_implies_less)

lemma not_eol_lt: "padded base n \<Longrightarrow> i \<le> n \<Longrightarrow> \<not> eol_char (base ! i) \<Longrightarrow> i < n"
  by (cases "i = n") (auto simp: padded_def)

lemma scan_flags_ok:
  assumes "padded base n" and "i \<le> n"
  shows "\<exists>e. scan_flags base f i = Some e \<and> scanned base n i e \<and>
    (\<forall>j. i \<le> j \<and> j < e \<longrightarrow> has_flag (base ! j) f) \<and> \<not> has_flag (base ! e) f"
  using assms(2)
proof (induction "n - i" arbitrary: i rule: less_induct)
  case less
  have rd: "rd base i = Some (base ! i)" using less.prems by (intro padded_rd [OF assms(1)]) simp
  show ?case
  proof (cases "has_flag (base ! i) f")
    case True
    then have ne: "\<not> eol_char (base ! i)" by auto
    then have "i < n" using not_eol_lt [OF assms(1) less.prems] by simp
    then obtain e where e: "scan_flags base f (Suc i) = Some e" "scanned base n (Suc i) e"
      "\<forall>j. Suc i \<le> j \<and> j < e \<longrightarrow> has_flag (base ! j) f" "\<not> has_flag (base ! e) f"
      using less.hyps [of "Suc i"] by (auto simp: diff_less_mono2)
    have "\<forall>j. i \<le> j \<and> j < e \<longrightarrow> has_flag (base ! j) f"
      using e(3) True by (metis Suc_leI le_neq_implies_less)
    then show ?thesis
      using e rd True scanned_step [OF e(2) ne] by (subst scan_flags.simps) simp
  next
    case False
    then show ?thesis using rd scanned_refl [OF less.prems]
      by (subst scan_flags.simps) auto
  qed
qed

lemma scan_str_ok:
  assumes "padded base n" and "i \<le> n" and "\<not> eol_char c0"
  shows "\<exists>type' e. scan_str base c0 type i = Some (type', e) \<and> scanned base n i e \<and>
    (type' = type \<or> type' = type OR 1)"
  using assms(2)
proof (induction "n - i" arbitrary: i type rule: less_induct)
  case less
  have rd: "rd base i = Some (base ! i)" using less.prems by (intro padded_rd [OF assms(1)]) simp
  have rec: "\<exists>type' e. scan_str base c0 type1 k = Some (type', e) \<and> scanned base n i e \<and>
      (type' = type \<or> type' = type OR 1)"
    if k: "i < k" "k \<le> n" "\<forall>j. i \<le> j \<and> j < k \<longrightarrow> \<not> eol_char (base ! j)" "type1 = type \<or> type1 = type OR 1" for k type1
  proof -
    obtain type' e where e: "scan_str base c0 type1 k = Some (type', e)" "scanned base n k e"
      "type' = type1 \<or> type' = type1 OR 1"
      using less.hyps [of k type1] k(1,2) diff_less_mono2 [of i k n] by auto
    have "scanned base n i e" using e(2) k(1,3) unfolding scanned_def by (meson le_trans less_imp_le not_le)
    then show ?thesis using e k(4) by (auto simp: or.assoc)
  qed
  consider (body) "has_flag (base ! i) CF_STR_BODY" | (close) "\<not> has_flag (base ! i) CF_STR_BODY" "base ! i = c0"
    | (esc) "\<not> has_flag (base ! i) CF_STR_BODY" "base ! i \<noteq> c0" "base ! i = CHR 0x5C"
    | (eol) "\<not> has_flag (base ! i) CF_STR_BODY" "base ! i \<noteq> c0" "base ! i \<noteq> CHR 0x5C" "eol_char (base ! i)"
    | (other) "\<not> has_flag (base ! i) CF_STR_BODY" "base ! i \<noteq> c0" "base ! i \<noteq> CHR 0x5C" "\<not> eol_char (base ! i)"
    by blast
  then show ?case
  proof cases
    case body
    then have ne: "\<not> eol_char (base ! i)" by auto
    then have "i < n" using not_eol_lt [OF assms(1) less.prems] by simp
    then show ?thesis using rec [OF _ _ upto_1 [OF ne], of type] body rd
      by (subst scan_str.simps) simp
  next
    case close
    then have ne: "\<not> eol_char (base ! i)" using assms(3) by auto
    then have "i < n" using not_eol_lt [OF assms(1) less.prems] by simp
    then show ?thesis using close ne rd
      by (subst scan_str.simps) (auto simp: scanned_def less_Suc_eq)
  next
    case esc
    then have ne: "\<not> eol_char (base ! i)" by (simp add: eol_char_def)
    then have lt: "i < n" using not_eol_lt [OF assms(1) less.prems] by simp
    then have rd1: "rd base (Suc i) = Some (base ! Suc i)" by (intro padded_rd [OF assms(1)]) simp
    show ?thesis
    proof (cases "eol_char (base ! Suc i)")
      case True
      then show ?thesis using esc rd rd1 ne lt
        by (subst scan_str.simps) (auto simp: scanned_def less_Suc_eq eol_char_def Let_def)
    next
      case False
      then have "Suc i < n" using not_eol_lt [OF assms(1), of "Suc i"] lt by simp
      then show ?thesis using rec [OF _ _ upto_2 [OF ne False], of "type OR 1"] esc rd rd1 False
        by (subst scan_str.simps) (simp add: eol_char_def Let_def)
    qed
  next
    case eol
    then show ?thesis using rd scanned_refl [OF less.prems]
      by (subst scan_str.simps) (auto simp: Let_def eol_char_def)
  next
    case other
    then have "i < n" using not_eol_lt [OF assms(1) less.prems] by simp
    then show ?thesis using rec [OF _ _ upto_1 [OF other(4)], of "type OR 1"] other rd
      by (subst scan_str.simps) (simp add: Let_def eol_char_def)
  qed
qed

lemma scan_number_ok:
  assumes "padded base n" and "i \<le> n"
  shows "\<exists>e. scan_number base i = Some e \<and> scanned base n i e"
  using assms(2)
proof (induction "n - i" arbitrary: i rule: less_induct)
  case less
  have rd: "rd base i = Some (base ! i)" using less.prems by (intro padded_rd [OF assms(1)]) simp
  have step: "\<exists>e. scan_number base (Suc i) = Some e \<and> scanned base n i e" if ne: "\<not> eol_char (base ! i)"
  proof -
    have "i < n" using not_eol_lt [OF assms(1) less.prems ne] .
    then show ?thesis using less.hyps [of "Suc i"] scanned_step ne by (auto simp: diff_less_mono2)
  qed
  show ?case
  proof (cases "has_flag (base ! i) CF_PP_NUMBER \<or>
      (base ! i = CHR ''+'' \<or> base ! i = CHR ''-'') \<and> has_flag (base ! (i - 1)) CF_eEpP")
    case True
    then have "\<not> eol_char (base ! i)" using char_flags_eol by (auto simp: eol_char_def)
    then show ?thesis using step rd True by (subst scan_number.simps) auto
  next
    case False
    then show ?thesis using rd scanned_refl [OF less.prems] by (subst scan_number.simps) auto
  qed
qed

lemma scan_same_ok:
  assumes "padded base n" and "i \<le> n" and "\<not> eol_char c"
  shows "\<exists>e. scan_same base c i = Some e \<and> scanned base n i e \<and> (\<forall>j. i \<le> j \<and> j < e \<longrightarrow> base ! j = c)"
  using assms(2)
proof (induction "n - i" arbitrary: i rule: less_induct)
  case less
  have rd: "rd base i = Some (base ! i)" using less.prems by (intro padded_rd [OF assms(1)]) simp
  show ?case
  proof (cases "base ! i = c")
    case True
    then have ne: "\<not> eol_char (base ! i)" using assms(3) by simp
    then have "i < n" using not_eol_lt [OF assms(1) less.prems] by simp
    then obtain e where e: "scan_same base c (Suc i) = Some e" "scanned base n (Suc i) e"
      "\<forall>j. Suc i \<le> j \<and> j < e \<longrightarrow> base ! j = c"
      using less.hyps [of "Suc i"] by (auto simp: diff_less_mono2)
    have "\<forall>j. i \<le> j \<and> j < e \<longrightarrow> base ! j = c"
      using e(3) True by (metis Suc_leI le_neq_implies_less)
    then show ?thesis using e rd True scanned_step [OF e(2) ne] by (subst scan_same.simps) simp
  next
    case False
    then show ?thesis using rd scanned_refl [OF less.prems] by (subst scan_same.simps) auto
  qed
qed

lemma scan_utf8_ok:
  assumes "padded base n" and "i \<le> n"
  shows "\<exists>e. scan_utf8 base i = Some e \<and> scanned base n i e"
  using assms(2)
proof (induction "n - i" arbitrary: i rule: less_induct)
  case less
  have rd: "rd base i = Some (base ! i)" using less.prems by (intro padded_rd [OF assms(1)]) simp
  show ?case
  proof (cases "0x80 \<le> (of_char (base ! i) :: nat) \<and> (of_char (base ! i) :: nat) < 0xc0")
    case True
    then have ne: "\<not> eol_char (base ! i)" by (auto simp: eol_char_def)
    then have "i < n" using not_eol_lt [OF assms(1) less.prems] by simp
    then obtain e where "scan_utf8 base (Suc i) = Some e" "scanned base n (Suc i) e"
      using less.hyps [of "Suc i"] by (auto simp: diff_less_mono2)
    then show ?thesis using rd True scanned_step [OF _ ne] by (subst scan_utf8.simps) auto
  next
    case False
    then show ?thesis using rd scanned_refl [OF less.prems] by (subst scan_utf8.simps) auto
  qed
qed

lemma scan_comment_ok:
  assumes "padded base n" and "i \<le> n"
  shows "\<exists>e. scan_comment base i = Some (base ! e, Suc e) \<and> scanned base n i e \<and> eol_char (base ! e)"
  using assms(2)
proof (induction "n - i" arbitrary: i rule: less_induct)
  case less
  have rd: "rd base i = Some (base ! i)" using less.prems by (intro padded_rd [OF assms(1)]) simp
  show ?case
  proof (cases "eol_char (base ! i)")
    case True
    then show ?thesis using rd scanned_refl [OF less.prems]
      by (subst scan_comment.simps) (auto simp: eol_char_def)
  next
    case False
    then have "i < n" using not_eol_lt [OF assms(1) less.prems] by simp
    then obtain e where "scan_comment base (Suc i) = Some (base ! e, Suc e)" "scanned base n (Suc i) e" "eol_char (base ! e)"
      using less.hyps [of "Suc i"] by (auto simp: diff_less_mono2)
    then show ?thesis using rd False scanned_step [OF _ False]
      by (subst scan_comment.simps) (auto simp: eol_char_def)
  qed
qed

subsection \<open>One pass through the switch\<close>

definition blank :: "char \<Rightarrow> bool" where
  "blank c \<longleftrightarrow> c = CHR '' '' \<or> c = CHR 0x09 \<or> c = CHR 0x0C \<or> c = CHR 0x0B"

text \<open>A line ends at a newline, and at a carriage return that no newline follows.\<close>

definition line_end :: "string \<Rightarrow> nat \<Rightarrow> bool" where
  "line_end base j \<longleftrightarrow> base ! j = NL \<or> base ! j = CR \<and> base ! Suc j \<noteq> NL"

text \<open>Text that is no token: blanks, line ends, and comments up to their line end.\<close>

inductive filler :: "string \<Rightarrow> nat \<Rightarrow> nat \<Rightarrow> bool" for base where
  nil: "filler base i i"
| blank: "blank (base ! i) \<Longrightarrow> filler base (Suc i) j \<Longrightarrow> filler base i j"
| eol: "eol_char (base ! i) \<Longrightarrow> filler base (Suc i) j \<Longrightarrow> filler base i j"
| comment: "base ! i = CHR ''/'' \<Longrightarrow> base ! Suc i = CHR ''/'' \<Longrightarrow> i + 2 \<le> k \<Longrightarrow>
    (\<And>m. i \<le> m \<Longrightarrow> m < k \<Longrightarrow> \<not> eol_char (base ! m)) \<Longrightarrow> eol_char (base ! k) \<Longrightarrow>
    filler base k j \<Longrightarrow> filler base i j"

lemma filler_trans: "filler base i j \<Longrightarrow> filler base j k \<Longrightarrow> filler base i k"
  by (induction rule: filler.induct) (auto intro: filler.intros)

lemma filler_le: "filler base i j \<Longrightarrow> i \<le> j"
  by (induction rule: filler.induct) auto

lemma filler_blanks: "(\<And>j. i \<le> j \<Longrightarrow> j < e \<Longrightarrow> blank (base ! j)) \<Longrightarrow> i \<le> e \<Longrightarrow> filler base i e"
proof (induction "e - i" arbitrary: i)
  case 0
  then show ?case by (auto intro: filler.nil)
next
  case (Suc d)
  have i: "i < e" "d = e - Suc i" using Suc.hyps(2) by linarith+
  have "filler base (Suc i) e"
    using i by (intro Suc.hyps(1) Suc.prems(1)) simp_all
  then show ?case by (rule filler.blank [OF Suc.prems(1) [OF le_refl i(1)]])
qed

definition token_type_ok :: "u32 \<Rightarrow> bool" where
  "token_type_ok type \<longleftrightarrow> TOK_IDENT_THR \<le> type \<and> type \<noteq> TOK_EOF"

text \<open>An identifier token is the longest one and its type is the index of its interned text.\<close>

definition ident_span :: "string \<Rightarrow> nat \<Rightarrow> nat \<Rightarrow> bool" where
  "ident_span base start e \<longleftrightarrow> is_alpha (base ! start) \<and>
     (\<forall>j. start < j \<and> j < e \<longrightarrow> has_flag (base ! j) CF_IDENT_CONTINUE) \<and>
     \<not> has_flag (base ! e) CF_IDENT_CONTINUE"

definition lex_ok :: "string \<Rightarrow> nat \<Rightarrow> sht \<Rightarrow> nat \<Rightarrow> lexed \<Rightarrow> bool" where
  "lex_ok base n idents start r = (case r of
     Tok idents' type e \<Rightarrow> start < e \<and> scanned base n start e \<and>
       (if is_alpha (base ! start)
        then ident_span base start e \<and>
          sht_intern_u idents (key_bytes (slice base start e)) = Some (idents', type)
        else idents' = idents \<and> token_type_ok type)
   | Again e \<Rightarrow> start < e \<and> scanned base n start e \<and> filler base start e
   | Newline e \<Rightarrow> start < e \<and> e \<le> n + 1 \<and> filler base start e \<and> line_end base (e - 1) \<and>
       (\<forall>j. start \<le> j \<and> j < e - 1 \<longrightarrow> \<not> line_end base j)
   | Eof \<Rightarrow> start = n + 1)"

lemma punct_range: "unat (TOK_PUNCT c) < 0xffffffa0" "TOK_IDENT_THR \<le> TOK_PUNCT c"
proof -
  define x :: u32 where "x = (let c = of_char c :: u32 in c + (if c < 0x41 then 0 else if c < 0x61 then 21 else 27))"
  have m: "(31 :: u32) = Bit_Operations.mask 5" by (simp add: mask_eq_exp_minus_1)
  have "unat (x AND 31) = unat x mod 32"
    unfolding m take_bit_eq_mask [symmetric] unsigned_take_bit_eq by (simp add: take_bit_eq_mod)
  then have "unat (x AND 31) < 32" by simp
  moreover have p: "TOK_PUNCT c = (x AND 31) + TOK_IDENT_THR" by (simp add: TOK_PUNCT_def x_def Let_def)
  ultimately have "unat (TOK_PUNCT c) = unat (x AND 31) + 0xffffff80"
    by (simp add: unat_word_ariths TOK_IDENT_THR_def)
  with \<open>unat (x AND 31) < 32\<close> show "unat (TOK_PUNCT c) < 0xffffffa0" "TOK_IDENT_THR \<le> TOK_PUNCT c"
    by (simp_all add: word_le_nat_alt TOK_IDENT_THR_def)
qed

lemma token_type_ok_iff: "token_type_ok w \<longleftrightarrow> 0xffffff80 \<le> unat w \<and> unat w \<noteq> 0xffffffff"
proof -
  have "w = TOK_EOF \<longleftrightarrow> unat w = 0xffffffff" by (simp add: TOK_EOF_def word_unat_eq_iff)
  then show ?thesis by (simp add: token_type_ok_def TOK_IDENT_THR_def word_le_nat_alt)
qed

lemma punct_ok [simp]:
  "token_type_ok (TOK_PUNCT c)" "token_type_ok (TOK_PUNCT c + PUNCT_REPEAT)"
  "token_type_ok (TOK_PUNCT c + PUNCT_EQ)"
proof -
  have r: "0xffffff80 \<le> unat (TOK_PUNCT c)" "unat (TOK_PUNCT c) < 0xffffffa0"
    using punct_range [of c] by (simp_all add: word_le_nat_alt TOK_IDENT_THR_def)
  then have "unat (TOK_PUNCT c + PUNCT_REPEAT) = unat (TOK_PUNCT c) + 32"
    "unat (TOK_PUNCT c + PUNCT_EQ) = unat (TOK_PUNCT c) + 64"
    by (simp_all add: unat_word_ariths PUNCT_REPEAT_def PUNCT_EQ_def)
  with r show "token_type_ok (TOK_PUNCT c)" "token_type_ok (TOK_PUNCT c + PUNCT_REPEAT)"
    "token_type_ok (TOK_PUNCT c + PUNCT_EQ)"
    by (simp_all add: token_type_ok_iff)
qed

lemma const_types_ok [simp]:
  "token_type_ok TOK_NUMBER" "token_type_ok TOK_OTHER_CHAR" "token_type_ok TOK_STR_LIT"
  "token_type_ok TOK_STR_LIT_ESC" "token_type_ok TOK_CHAR_LIT" "token_type_ok TOK_CHAR_LIT_ESC"
  by (simp_all add: token_type_ok_iff TOK_NUMBER_def TOK_OTHER_CHAR_def TOK_STR_LIT_def
      TOK_STR_LIT_ESC_def TOK_CHAR_LIT_def TOK_CHAR_LIT_ESC_def)

lemma str_types:
  "c = CHR 0x27 \<or> c = CHR 0x22 \<Longrightarrow> type = TOK_STR_LIT + (of_char c AND 1) * 2 \<Longrightarrow>
   token_type_ok type \<and> token_type_ok (type OR 1)"
  by (auto simp: TOK_STR_LIT_def token_type_ok_iff)

lemma scanned_Suc_start:
  "scanned base n (Suc i) e \<Longrightarrow> \<not> eol_char (base ! i) \<Longrightarrow> i < e \<and> scanned base n i e"
proof
  assume a: "scanned base n (Suc i) e" "\<not> eol_char (base ! i)"
  show "i < e" using a(1) unfolding scanned_def by linarith
  show "scanned base n i e" using a by (rule scanned_step)
qed

lemma after_cr_ok:
  assumes "padded base n" and "i \<le> n" and "base ! i = CR"
  shows "\<exists>e. after_cr base (Suc i) = Some (Newline e) \<and> i < e \<and> e \<le> n + 1 \<and> filler base i e \<and>
    line_end base (e - 1) \<and> (\<forall>j. i \<le> j \<and> j < e - 1 \<longrightarrow> \<not> line_end base j)"
proof -
  have lt: "i < n" using assms by (cases "i = n") (auto simp: padded_def)
  have r: "rd base (Suc i) = Some (base ! Suc i)" using lt by (intro padded_rd [OF assms(1)]) simp
  have eol: "eol_char (base ! i)" using assms(3) by simp
  show ?thesis
  proof (cases "base ! Suc i = NL")
    case True
    then have f: "filler base i (Suc (Suc i))"
      by (intro filler.eol [OF eol filler.eol [OF _ filler.nil]]) simp
    have "\<not> line_end base j" if "i \<le> j \<and> j < Suc (Suc i) - 1" for j
    proof -
      have "j = i" using that by linarith
      then show ?thesis using True assms(3) by (simp add: line_end_def)
    qed
    moreover have "line_end base (Suc (Suc i) - 1)" using True by (simp add: line_end_def)
    moreover have "after_cr base (Suc i) = Some (Newline (Suc (Suc i)))" using r True by (simp add: after_cr_def)
    ultimately show ?thesis using f lt by (intro exI [of _ "Suc (Suc i)"]) simp
  next
    case False
    have f: "filler base i (Suc i)" by (rule filler.eol [OF eol filler.nil])
    moreover have "line_end base (Suc i - 1)" using assms(3) False by (simp add: line_end_def)
    moreover have "after_cr base (Suc i) = Some (Newline (Suc i))" using r False by (simp add: after_cr_def)
    ultimately show ?thesis using lt by (intro exI [of _ "Suc i"]) auto
  qed
qed

lemma not_eol_line_end: "\<not> eol_char (base ! j) \<Longrightarrow> \<not> line_end base j"
  by (auto simp: eol_char_def line_end_def)

lemma comment_ok:
  assumes "padded base n" and "base ! i = CHR ''/''" and "base ! Suc i = CHR ''/''" and "i \<le> n"
  shows "\<exists>e. (case scan_comment base (Suc (Suc i)) of None \<Rightarrow> None
      | Some (c, src) \<Rightarrow> if c = NL then Some (Newline src) else after_cr base src) = Some (Newline e) \<and>
    i < e \<and> e \<le> n + 1 \<and> filler base i e \<and>
    line_end base (e - 1) \<and> (\<forall>j. i \<le> j \<and> j < e - 1 \<longrightarrow> \<not> line_end base j)"
proof -
  have ne: "\<not> eol_char (base ! i)" "\<not> eol_char (base ! Suc i)" using assms by (auto simp: eol_char_def)
  have "i < n" using not_eol_lt [OF assms(1,4) ne(1)] .
  then have "Suc i < n" using not_eol_lt [OF assms(1) _ ne(2)] by simp
  then obtain k where k: "scan_comment base (Suc (Suc i)) = Some (base ! k, Suc k)"
    "scanned base n (Suc (Suc i)) k" "eol_char (base ! k)"
    using scan_comment_ok [OF assms(1), of "Suc (Suc i)"] by auto
  have sc: "scanned base n i k" using scanned_step [OF scanned_step [OF k(2) ne(2)] ne(1)] .
  then have kn: "k \<le> n" "Suc (Suc i) \<le> k" using k(2) by (auto simp: scanned_def)
  have kk: "i + 2 \<le> k" using kn(2) by linarith
  have nk: "\<And>m. i \<le> m \<Longrightarrow> m < k \<Longrightarrow> \<not> eol_char (base ! m)" using sc unfolding scanned_def by blast
  have fill: "filler base k e \<Longrightarrow> filler base i e" for e
    using assms(2,3) kk nk k(3) by (rule filler.comment)
  note nole = not_eol_line_end [OF nk]
  show ?thesis
  proof (cases "base ! k = NL")
    case True
    have "filler base k (Suc k)" by (rule filler.eol [OF k(3) filler.nil])
    then have "filler base i (Suc k)" by (rule fill)
    moreover have "line_end base (Suc k - 1)" using True by (simp add: line_end_def)
    moreover have "\<forall>j. i \<le> j \<and> j < Suc k - 1 \<longrightarrow> \<not> line_end base j" using nole by simp
    ultimately show ?thesis using k(1) True kn by (intro exI [of _ "Suc k"]) simp
  next
    case False
    then have "base ! k = CR" using k(3) by (simp add: eol_char_def)
    then obtain e where e: "after_cr base (Suc k) = Some (Newline e)" "k < e" "e \<le> n + 1" "filler base k e"
      "line_end base (e - 1)" "\<forall>j. k \<le> j \<and> j < e - 1 \<longrightarrow> \<not> line_end base j"
      using after_cr_ok [OF assms(1) kn(1)] by blast
    have "\<forall>j. i \<le> j \<and> j < e - 1 \<longrightarrow> \<not> line_end base j" using e(6) nole by (metis not_le)
    then show ?thesis using k(1) False e fill [OF e(4)] kn(2) by (intro exI [of _ e]) simp
  qed
qed

lemma lex_returns:
  assumes pad: "padded base n" and start: "start \<le> n + 1"
    and intern: "\<And>e. is_alpha (base ! start) \<Longrightarrow> start < e \<Longrightarrow> e \<le> n \<Longrightarrow>
      sht_intern_u idents (key_bytes (slice base start e)) \<noteq> None"
  shows "\<exists>r. lex base n idents start = Some r \<and> lex_ok base n idents start r"
proof (cases "start = n + 1")
  case True
  then have "base ! start = NUL" "rd base start = Some (base ! start)"
    using pad by (simp_all add: padded_def rd_def)
  then show ?thesis
    using True by (simp add: lex_def lex_ok_def NUL_def is_alpha_def punct_flags_def is_digit_def)
next
  case False
  then have sn: "start \<le> n" using start by simp
  define c where "c = base ! start"
  have rd: "rd base start = Some c" using sn unfolding c_def by (intro padded_rd [OF pad]) simp
  show ?thesis
  proof (cases "eol_char c")
    case True
    show ?thesis
    proof (cases "c = NL")
      case True
      have "filler base start (Suc start)" using True c_def by (intro filler.eol [OF _ filler.nil]) simp
      then show ?thesis
        using True rd sn c_def
        by (simp add: lex_def lex_ok_def is_alpha_def punct_flags_def is_digit_def line_end_def) auto
    next
      case False
      then have cr: "c = CR" using True by (simp add: eol_char_def)
      then show ?thesis
        using after_cr_ok [OF pad sn] rd c_def
        by (auto simp: lex_def lex_ok_def is_alpha_def punct_flags_def is_digit_def)
    qed
  next
    case ne: False
    then have ne': "\<not> eol_char (base ! start)" by (simp add: c_def)
    have lt: "Suc start \<le> n" using not_eol_lt [OF pad sn ne'] by simp
    have rd1: "rd base (Suc start) = Some (base ! Suc start)" using lt by (intro padded_rd [OF pad]) simp
    have one: "start < Suc start \<and> scanned base n start (Suc start)"
      using scanned_Suc_start [OF scanned_refl [OF lt] ne'] .
    have two: "start < Suc (Suc start) \<and> scanned base n start (Suc (Suc start))" if "\<not> eol_char (base ! Suc start)"
    proof -
      have "Suc (Suc start) \<le> n" using not_eol_lt [OF pad lt that] by simp
      then show ?thesis using scanned_step [OF scanned_step [OF scanned_refl that] ne'] by simp
    qed
    consider (alpha) "is_alpha c" | (quote) "\<not> is_alpha c" "c = CHR 0x27 \<or> c = CHR 0x22"
      | (dot) "c = CHR ''.''" | (digit) "is_digit c"
      | (simple) "c \<in> set ''()[]{},;~-+*^%@#''" | (punct) "punct_flags c \<noteq> 0"
      | (slash) "c = CHR ''/''" | (blank) "blank c" | (nul) "c = NUL"
      | (other) "\<not> is_alpha c" "c \<noteq> CHR 0x27 \<and> c \<noteq> CHR 0x22" "c \<noteq> CHR ''.''" "\<not> is_digit c"
          "c \<notin> set ''()[]{},;~-+*^%@#''" "\<not> punct_flags c \<noteq> 0" "c \<noteq> CHR ''/''" "\<not> blank c" "c \<noteq> NUL"
      by blast
    then show ?thesis
    proof cases
      case alpha
      obtain e where e: "scan_flags base CF_IDENT_CONTINUE (Suc start) = Some e" "scanned base n (Suc start) e"
        "\<forall>j. Suc start \<le> j \<and> j < e \<longrightarrow> has_flag (base ! j) CF_IDENT_CONTINUE"
        "\<not> has_flag (base ! e) CF_IDENT_CONTINUE"
        using scan_flags_ok [OF pad lt] by blast
      have s: "start < e" "scanned base n start e" using scanned_Suc_start [OF e(2) ne'] by simp_all
      then have "e \<le> n" by (simp add: scanned_def)
      then obtain idents' type where i: "sht_intern_u idents (key_bytes (slice base start e)) = Some (idents', type)"
        using intern [of e] alpha s(1) c_def by auto
      then show ?thesis
        using alpha rd e s c_def by (simp add: lex_def lex_ok_def ident_span_def less_eq_Suc_le)
    next
      case quote
      let ?t = "TOK_STR_LIT + (of_char c AND 1) * 2"
      obtain type e where e: "scan_str base c ?t (Suc start) = Some (type, e)" "scanned base n (Suc start) e"
        "type = ?t \<or> type = ?t OR 1"
        using scan_str_ok [OF pad lt ne] by blast
      have "token_type_ok type" using e(3) str_types [OF quote(2) refl] by auto
      then show ?thesis
        using quote rd e(1) scanned_Suc_start [OF e(2) ne'] c_def by (auto simp: lex_def lex_ok_def)
    next
      case dot
      show ?thesis
      proof (cases "is_digit (base ! Suc start)")
        case True
        then have ne1: "\<not> eol_char (base ! Suc start)" by (auto simp: eol_char_def is_digit_def)
        then have "Suc (Suc start) \<le> n" using two by (simp add: scanned_def)
        then obtain e where e: "scan_number base (Suc (Suc start)) = Some e" "scanned base n (Suc (Suc start)) e"
          using scan_number_ok [OF pad] by blast
        have "start < e \<and> scanned base n start e"
          using scanned_step [OF e(2) ne1] scanned_Suc_start [OF _ ne'] by blast
        then show ?thesis using dot rd rd1 True e c_def by (simp add: lex_def lex_ok_def is_alpha_def)
      next
        case False
        then show ?thesis using dot rd rd1 one c_def by (simp add: lex_def lex_ok_def is_alpha_def)
      qed
    next
      case digit
      obtain e where e: "scan_number base (Suc start) = Some e" "scanned base n (Suc start) e"
        using scan_number_ok [OF pad lt] by blast
      have "c \<noteq> CHR ''.''" "\<not> is_alpha c" "c \<noteq> CHR 0x27" "c \<noteq> CHR 0x22"
        using digit by (auto simp: is_digit_def is_alpha_def)
      then show ?thesis
        using digit rd e(1) scanned_Suc_start [OF e(2) ne'] c_def by (simp add: lex_def lex_ok_def)
    next
      case simple
      then have "\<not> is_alpha c" "c \<noteq> CHR 0x27" "c \<noteq> CHR 0x22" "c \<noteq> CHR ''.''" "\<not> is_digit c"
        by (auto simp: is_alpha_def is_digit_def)
      then show ?thesis using simple rd one c_def by (simp add: lex_def lex_ok_def)
    next
      case punct
      then have "c \<in> set ''&|<>:=!''" by (rule contrapos_np) (simp add: punct_flags_def)
      then have c: "\<not> is_alpha c" "c \<noteq> CHR 0x27" "c \<noteq> CHR 0x22" "c \<noteq> CHR ''.''" "\<not> is_digit c"
        "c \<notin> set ''()[]{},;~-+*^%@#''"
        by (auto simp: is_alpha_def is_digit_def)
      have "base ! Suc start = c \<or> base ! Suc start = CHR ''='' \<Longrightarrow> \<not> eol_char (base ! Suc start)"
        using ne by (auto simp: eol_char_def)
      then show ?thesis using c punct rd rd1 one two c_def by (auto simp: lex_def lex_ok_def lex_punct_def)
    next
      case slash
      show ?thesis
      proof (cases "base ! Suc start = CHR ''/''")
        case True
        then show ?thesis
          using slash rd rd1 c_def comment_ok [OF pad _ True sn]
          by (auto simp: lex_def lex_ok_def is_alpha_def is_digit_def punct_flags_def)
      next
        case False
        then show ?thesis using slash rd rd1 one c_def
          by (simp add: lex_def lex_ok_def is_alpha_def is_digit_def punct_flags_def)
      qed
    next
      case blank
      obtain e where e: "scan_same base c (Suc start) = Some e" "scanned base n (Suc start) e"
        "\<forall>j. Suc start \<le> j \<and> j < e \<longrightarrow> base ! j = c"
        using scan_same_ok [OF pad lt ne] by blast
      have se: "start < e" "scanned base n start e" using scanned_Suc_start [OF e(2) ne'] by simp_all
      have "base ! j = c" if "start \<le> j" "j < e" for j
        using e(3) that by (cases "j = start") (auto simp: c_def)
      then have "filler base start e" using blank se(1) by (intro filler_blanks) auto
      moreover have "lex base n idents start = Some (Again e)"
        using blank rd e(1) unfolding blank_def
        by (elim disjE) (simp_all add: lex_def is_alpha_def is_digit_def punct_flags_def)
      ultimately show ?thesis using se by (simp add: lex_ok_def)
    next
      case nul
      have "\<not> n < Suc start" using lt by simp
      then show ?thesis using nul rd one c_def
        by (simp add: lex_def lex_ok_def is_alpha_def is_digit_def punct_flags_def NUL_def)
    next
      case other
      obtain e where e: "scan_utf8 base (Suc start) = Some e" "scanned base n (Suc start) e"
        using scan_utf8_ok [OF pad lt] by blast
      have "c \<noteq> CR" "c \<noteq> NL" using ne by (auto simp: eol_char_def)
      then show ?thesis
        using other rd e(1) scanned_Suc_start [OF e(2) ne'] c_def by (simp add: lex_def lex_ok_def blank_def)
    qed
  qed
qed

subsection \<open>The main loop\<close>

text \<open>The tokens tile the text from \<open>i\<close> to \<open>j\<close>: nonempty, in order, only filler between them.\<close>

fun tiled :: "string \<Rightarrow> nat \<Rightarrow> token list \<Rightarrow> nat \<Rightarrow> bool" where
  "tiled base i [] j = filler base i j"
| "tiled base i (tok # toks) j =
    (filler base i (unat (tok_start tok)) \<and> tok_start tok < tok_end tok \<and>
     tiled base (unat (tok_end tok)) toks j)"

lemma tiled_filler: "tiled base i toks j \<Longrightarrow> filler base j k \<Longrightarrow> tiled base i toks k"
  by (induction base i toks j rule: tiled.induct) (auto intro: filler_trans)

lemma tiled_snoc:
  "tiled base i toks (unat (tok_start tok)) \<Longrightarrow> tok_start tok < tok_end tok \<Longrightarrow>
   tiled base i (toks @ [tok]) (unat (tok_end tok))"
  by (induction toks arbitrary: i) (auto intro: filler.nil)

lemma tiled_le: "tiled base i toks j \<Longrightarrow> i + length toks \<le> j"
proof (induction toks arbitrary: i)
  case (Cons tok toks)
  then show ?case using filler_le [of base i] Cons.IH [of "unat (tok_end tok)"]
    by (fastforce simp: word_less_nat_alt)
qed (auto dest: filler_le)

definition token_text :: "string \<Rightarrow> token \<Rightarrow> string" where
  "token_text base tok = slice base (unat (tok_start tok)) (unat (tok_end tok))"

definition token_good :: "string \<Rightarrow> sht \<Rightarrow> u8 list list \<Rightarrow> token \<Rightarrow> bool" where
  "token_good base idents ks tok \<longleftrightarrow>
    (if is_alpha (base ! unat (tok_start tok))
     then ident_span base (unat (tok_start tok)) (unat (tok_end tok)) \<and>
       key_bytes (token_text base tok) \<in> set ks \<and>
       sht_lookup_u idents (key_bytes (token_text base tok)) = Some (tok_type tok) \<and>
       tok_type tok < TOK_IDENT_THR
     else token_type_ok (tok_type tok))"

definition line_list :: "string \<Rightarrow> nat \<Rightarrow> nat list" where
  "line_list base j = 0 # map Suc (filter (line_end base) [0..<j])"

definition cap_ok :: "u32 \<Rightarrow> bool" where
  "cap_ok c \<longleftrightarrow> 2 \<le> unat c \<and> unat c < 2 ^ 31"

definition idents_room :: "sht \<Rightarrow> nat \<Rightarrow> bool" where
  "idents_room s left \<longleftrightarrow> unat (s_value_length s) = 1 \<and> unat (s_size s) + 4 * left + 16 < 2 ^ 31"

definition loop_inv :: "string \<Rightarrow> nat \<Rightarrow> tokeniser \<Rightarrow> nat \<Rightarrow> u8 list list \<Rightarrow> bool" where
  "loop_inv base n t src ks \<longleftrightarrow> unat (t_text_size t) = n \<and> src \<le> n + 1 \<and>
     tiled base 0 (t_tokens t) src \<and>
     sht_rep (t_idents t) ks \<and> idents_room (t_idents t) (n + 2 - src) \<and>
     (\<forall>tok \<in> set (t_tokens t). token_good base (t_idents t) ks tok) \<and>
     cap_ok (t_tokens_capacity t) \<and> length (t_tokens t) \<le> unat (t_tokens_capacity t) \<and>
     t_line_starts t = map of_nat (line_list base src) \<and>
     unat (t_line_starts_size t) = length (t_line_starts t) \<and>
     cap_ok (t_line_starts_capacity t) \<and> t_line_starts_size t \<le> t_line_starts_capacity t \<and>
     t_line_lookup_cache t = 0"

lemma grow_cap_ok:
  assumes "cap_ok c" and "unat c \<le> m" and "m \<le> 2 ^ 30"
  shows "cap_ok (grow_capacity c)" and "unat c < unat (grow_capacity c)"
proof -
  have c: "2 \<le> unat c" "unat c \<le> 2 ^ 30" using assms by (simp_all add: cap_ok_def)
  have "unat (drop_bit 1 c) = unat c div 2" by (subst unat_drop_bit_eq) (simp add: drop_bit_eq_div)
  then have u: "unat (c + drop_bit 1 c) = unat c + unat c div 2"
    using c by (simp add: unat_word_ariths)
  then have g: "grow_capacity c = c + drop_bit 1 c"
    by (simp add: grow_capacity_def Let_def word_less_nat_alt)
  show "cap_ok (grow_capacity c)" using c u by (simp add: g cap_ok_def)
  show "unat c < unat (grow_capacity c)" using c u by (simp add: g)
qed

lemma line_list_skip:
  "i \<le> e \<Longrightarrow> (\<forall>j. i \<le> j \<and> j < e \<longrightarrow> \<not> line_end base j) \<Longrightarrow> line_list base e = line_list base i"
proof -
  assume a: "i \<le> e" "\<forall>j. i \<le> j \<and> j < e \<longrightarrow> \<not> line_end base j"
  have "[0..<e] = [0..<i] @ [i..<e]" using a(1) upt_add_eq_append [of 0 i "e - i"] by simp
  moreover have "filter (line_end base) [i..<e] = []" using a(2) by (simp add: filter_empty_conv)
  ultimately show ?thesis by (simp add: line_list_def)
qed

lemma line_list_end:
  assumes "i < e" and "\<forall>j. i \<le> j \<and> j < e - 1 \<longrightarrow> \<not> line_end base j" and "line_end base (e - 1)"
  shows "line_list base e = line_list base i @ [e]"
proof -
  obtain d where d: "e = Suc d" using assms(1) by (cases e) auto
  have "line_list base d = line_list base i" using assms by (intro line_list_skip) (auto simp: d)
  then show ?thesis using assms(3) by (simp add: line_list_def d)
qed

lemma length_line_list: "length (line_list base j) \<le> j + 1"
  using length_filter_le [of "line_end base" "[0..<j]"] by (simp add: line_list_def)

lemma scanned_no_line_end:
  "scanned base n i e \<Longrightarrow> \<forall>j. i \<le> j \<and> j < e \<longrightarrow> \<not> line_end base j"
  using not_eol_line_end unfolding scanned_def by blast

lemma reserve_token_inv:
  assumes inv: "loop_inv base n t src ks" and n: "n + 2 \<le> 2 ^ 30"
  shows "loop_inv base n (reserve_token t) src ks"
    and "length (t_tokens (reserve_token t)) < unat (t_tokens_capacity (reserve_token t))"
proof -
  have c: "cap_ok (t_tokens_capacity t)" "length (t_tokens t) \<le> unat (t_tokens_capacity t)"
    and "length (t_tokens t) \<le> src" and "src \<le> n + 1"
    using inv tiled_le [of base 0 "t_tokens t" src] by (simp_all add: loop_inv_def)
  then have "length (t_tokens t) \<le> 2 ^ 30" using n by linarith
  note g = grow_cap_ok [OF c(1) _ this]
  have "loop_inv base n (reserve_token t) src ks \<and>
    length (t_tokens (reserve_token t)) < unat (t_tokens_capacity (reserve_token t))"
  proof (cases "unat (t_tokens_capacity t) \<le> length (t_tokens t)")
    case True
    then show ?thesis using g [OF True] inv c(2) by (simp add: reserve_token_def loop_inv_def)
  next
    case False
    then show ?thesis using inv by (simp add: reserve_token_def)
  qed
  then show "loop_inv base n (reserve_token t) src ks"
    "length (t_tokens (reserve_token t)) < unat (t_tokens_capacity (reserve_token t))" by auto
qed

lemma push_line_inv:
  assumes inv: "loop_inv base n t src ks" and n: "n + 2 \<le> 2 ^ 30"
    and e: "src < e" "e \<le> n + 1" "filler base src e" "line_end base (e - 1)"
      "\<forall>j. src \<le> j \<and> j < e - 1 \<longrightarrow> \<not> line_end base j"
  shows "\<exists>t'. push_line t e = Some t' \<and> loop_inv base n t' e ks"
proof -
  define t1 where "t1 = (if t_line_starts_size t \<ge> t_line_starts_capacity t
              then t\<lparr>t_line_starts_capacity := grow_capacity (t_line_starts_capacity t)\<rparr> else t)"
  have i: "cap_ok (t_line_starts_capacity t)" "unat (t_line_starts_size t) = length (t_line_starts t)"
    "t_line_starts t = map of_nat (line_list base src)"
    "t_line_starts_size t \<le> t_line_starts_capacity t" using inv by (simp_all add: loop_inv_def)
  then have "unat (t_line_starts_size t) \<le> src + 1" using length_line_list [of base src] by simp
  then have sz: "unat (t_line_starts_size t) \<le> 2 ^ 30" using e n by linarith
  have t1: "cap_ok (t_line_starts_capacity t1)" "unat (t_line_starts_size t) < unat (t_line_starts_capacity t1)"
    "t_line_starts_size t1 = t_line_starts_size t" "t_line_starts t1 = t_line_starts t"
    using grow_cap_ok [OF i(1) _ sz] i(1,4) by (auto simp: t1_def word_le_nat_alt)
  let ?t = "t1\<lparr>t_line_starts := t_line_starts t1 @ [of_nat e], t_line_starts_size := t_line_starts_size t1 + 1\<rparr>"
  have "push_line t e = Some ?t"
    using t1 by (simp add: push_line_def Let_def t1_def [symmetric])
  moreover have "unat (t_line_starts_size t + 1) = unat (t_line_starts_size t) + 1"
    using sz by (subst unat_Suc_step) simp_all
  moreover have "idents_room (t_idents t) (n + 2 - e)"
    using inv e(1) by (auto simp: loop_inv_def idents_room_def)
  ultimately show ?thesis
    using inv e t1 i line_list_end [OF e(1,5,4)] tiled_filler [OF _ e(3)]
    by (auto simp: loop_inv_def t1_def word_le_nat_alt)
qed

lemma intern_step:
  assumes rep: "sht_rep s ks" and room: "idents_room s left"
    and len: "0 < length key" "length key + 1 \<le> left"
  obtains s' u ks' where "sht_intern_u s key = Some (s', u)" and "sht_rep s' ks'" and "set ks' = insert key (set ks)"
    and "sht_lookup_u s' key = Some u" and "u < TOK_IDENT_THR"
    and "\<And>k. k \<in> set ks \<Longrightarrow> sht_lookup_u s' k = sht_lookup_u s k"
    and "idents_room s' (left - length key)"
proof -
  have ku: "key_units key + 1 \<le> 4 * length key" using len(1) unfolding key_units_def by linarith
  have r: "sht_room s key"
    using room ku len(2) by (simp add: sht_room_def idents_room_def)
  obtain s' u ks' where k: "sht_intern_u s key = Some (s', u)" "sht_rep s' ks'" "set ks' = insert key (set ks)"
    "sht_lookup_u s' key = Some u" "\<And>k. k \<in> set ks \<Longrightarrow> sht_lookup_u s' k = sht_lookup_u s k"
    using sht.intern_keeps [OF rep r] by metis
  obtain s2 w where w: "sht_intern_u s key = Some (s2, of_nat w)" "0 < w" "w < 2 ^ 32"
    "if key \<in> set ks then s2 = s \<and> map_of (sht_layout s ks) key = Some w
     else w = unat (s_size s) + key_units key \<and> sht_rep s2 (ks @ [key]) \<and>
       sht_layout s2 (ks @ [key]) = sht_layout s ks @ [(key, w)] \<and>
       holds (s_mem s2) (4 * w) (replicate (4 * unat (s_value_length s)) 0) \<and>
       (\<forall>i < 4 * unat (s_size s). s_mem s2 i = s_mem s i) \<and> s_value_length s2 = s_value_length s"
    using sht_intern_spec [OF rep r] by blast
  have s2: "s' = s2" "u = of_nat w" using k(1) w(1) by simp_all
  have uw: "unat u = w" using s2 w(3) by (simp add: unat_of_nat)
  have c: "contents_ok s ks" using rep by (simp add: sht_rep_def)
  have "w < 0xffffff80 \<and> idents_room s' (left - length key)"
  proof (cases "key \<in> set ks")
    case True
    then have m: "s2 = s" "(key, w) \<in> set (sht_layout s ks)" using w(4) map_of_SomeD by fastforce+
    have "w \<le> unat (s_size s)" using layout_less(4) [OF c m(2)] by simp
    then show ?thesis using room m(1) s2(1) by (auto simp: idents_room_def)
  next
    case False
    then have f: "w = unat (s_size s) + key_units key" "sht_rep s2 (ks @ [key])"
      "sht_layout s2 (ks @ [key]) = sht_layout s ks @ [(key, w)]"
      and vl: "s_value_length s2 = s_value_length s" using w(4) by simp_all
    have "contents_ok s2 (ks @ [key])" using f(2) by (simp add: sht_rep_def)
    then have sz: "unat (s_size s2) = w + unat (s_value_length s)"
      using c vl f(1) by (simp add: contents_ok_def layout_end_snoc)
    have "unat (s_size s2) \<le> unat (s_size s) + 4 * length key"
      using sz ku room f(1) by (simp add: idents_room_def)
    then show ?thesis using room len(2) ku vl s2(1) f(1) by (auto simp: idents_room_def)
  qed
  then show thesis using that [OF k(1-4)] k(5) uw by (simp add: TOK_IDENT_THR_def word_less_nat_alt)
qed

lemma slice_length: "i \<le> j \<Longrightarrow> j \<le> length base \<Longrightarrow> length (slice base i j) = j - i"
  by (simp add: slice_def)

lemma unat_of_nat_32: "i < 2 ^ 32 \<Longrightarrow> unat (of_nat i :: u32) = i"
  by (simp add: unat_of_nat)

lemma token_step_inv:
  assumes inv: "loop_inv base n t src ks" and pad: "padded base n" and n: "n + 2 \<le> 2 ^ 30"
    and cap: "length (t_tokens t) < unat (t_tokens_capacity t)"
    and e: "src < e" "scanned base n src e"
    and good: "if is_alpha (base ! src)
        then ident_span base src e \<and> sht_intern_u (t_idents t) (key_bytes (slice base src e)) = Some (idents', type)
        else idents' = t_idents t \<and> token_type_ok type"
  shows "\<exists>t' ks'. push_token (t\<lparr>t_idents := idents'\<rparr>)
      \<lparr>tok_type = type, tok_start = of_nat src, tok_end = of_nat e\<rparr> = Some t' \<and> loop_inv base n t' e ks' \<and>
    t_text t' = t_text t"
proof -
  let ?tok = "\<lparr>tok_type = type, tok_start = of_nat src, tok_end = of_nat e\<rparr>"
  let ?t = "t\<lparr>t_idents := idents', t_tokens := t_tokens t @ [?tok]\<rparr>"
  have push: "push_token (t\<lparr>t_idents := idents'\<rparr>) ?tok = Some ?t"
    using cap by (simp add: push_token_def)
  have en: "e \<le> n" using e(2) by (simp add: scanned_def)
  have u: "unat (of_nat src :: u32) = src" "unat (of_nat e :: u32) = e"
    using e(1) en n by (simp_all add: unat_of_nat_32)
  have tl: "tiled base 0 (t_tokens t @ [?tok]) e"
    using inv e(1) tiled_snoc [of base 0 "t_tokens t" ?tok] u
    by (simp add: loop_inv_def word_less_nat_alt)
  have lines: "line_list base e = line_list base src"
    using e(1) scanned_no_line_end [OF e(2)] by (intro line_list_skip) simp_all
  have tokt: "token_text base ?tok = slice base src e" by (simp add: token_text_def u)
  have rep: "sht_rep (t_idents t) ks" and room: "idents_room (t_idents t) (n + 2 - src)"
    and old: "\<forall>tok \<in> set (t_tokens t). token_good base (t_idents t) ks tok"
    using inv by (simp_all add: loop_inv_def)
  have "\<exists>ks'. sht_rep idents' ks' \<and> idents_room idents' (n + 2 - e) \<and>
      (\<forall>tok \<in> set (t_tokens t @ [?tok]). token_good base idents' ks' tok)"
  proof (cases "is_alpha (base ! src)")
    case True
    let ?key = "key_bytes (slice base src e)"
    have len: "length ?key = e - src" using e(1) en pad by (simp add: key_bytes_def slice_length padded_def)
    have l1: "0 < length ?key" and l2: "length ?key + 1 \<le> n + 2 - src" using len e(1) en by simp_all
    have g: "ident_span base src e" "sht_intern_u (t_idents t) ?key = Some (idents', type)" using good True by simp_all
    obtain s' u ks' where k: "sht_intern_u (t_idents t) ?key = Some (s', u)" "sht_rep s' ks'" "set ks' = insert ?key (set ks)"
      "sht_lookup_u s' ?key = Some u" "u < TOK_IDENT_THR"
      "\<And>k. k \<in> set ks \<Longrightarrow> sht_lookup_u s' k = sht_lookup_u (t_idents t) k"
      "idents_room s' (n + 2 - src - length ?key)"
      using intern_step [OF rep room l1 l2] by metis
    have "n + 2 - src - length ?key = n + 2 - e" using len e(1) en by simp
    moreover have "token_good base s' ks' tok" if "token_good base (t_idents t) ks tok" for tok
      using that k(3,6) by (auto simp: token_good_def split: if_splits)
    moreover have "token_good base s' ks' ?tok"
      using True g(1) k(3,4,5) g(2) k(1) by (simp add: token_good_def tokt u)
    ultimately show ?thesis using k g(2) old by auto
  next
    case False
    then have g: "idents' = t_idents t" "token_type_ok type" using good by simp_all
    have "idents_room idents' (n + 2 - e)" using room e(1) g(1) by (auto simp: idents_room_def)
    moreover have "token_good base idents' ks ?tok" using False g(2) by (simp add: token_good_def u)
    ultimately show ?thesis using rep old g(1) by auto
  qed
  then show ?thesis
    using push inv tl lines en cap by (auto simp: loop_inv_def)
qed

definition run_result :: "string \<Rightarrow> nat \<Rightarrow> tokeniser \<Rightarrow> u8 list list \<Rightarrow> bool" where
  "run_result base n t ks \<longleftrightarrow>
     (\<exists>toks. t_tokens t = toks @ [\<lparr>tok_type = TOK_EOF, tok_start = of_nat (n + 1), tok_end = of_nat (n + 1)\<rparr>] \<and>
       unat (t_tokens_size t) = length toks \<and> tiled base 0 toks (n + 1) \<and>
       (\<forall>tok \<in> set toks. token_good base (t_idents t) ks tok)) \<and>
     sht_rep (t_idents t) ks \<and> unat (t_text_size t) = n \<and>
     t_line_starts t = map of_nat (line_list base n) @ [0xffffffff] \<and>
     unat (t_line_starts_size t) = length (line_list base n) \<and> t_line_lookup_cache t = 0"

lemma run_loop_returns:
  assumes pad: "padded base n" and n: "n + 2 \<le> 2 ^ 30" and inv: "loop_inv base n t src ks"
  shows "\<exists>t' ks'. run_loop base t src = Some t' \<and> run_result base n t' ks' \<and> t_text t' = t_text t"
  using inv
proof (induction "n + 2 - src" arbitrary: t src ks rule: less_induct)
  case less
  define t1 where "t1 = reserve_token t"
  note t1 = reserve_token_inv [OF less.prems n, folded t1_def]
  have tx: "t_text t1 = t_text t" by (simp add: t1_def reserve_token_def)
  have src: "src \<le> n + 1" and ts: "unat (t_text_size t1) = n" and rep: "sht_rep (t_idents t1) ks"
    and room: "idents_room (t_idents t1) (n + 2 - src)"
    using t1(1) by (simp_all add: loop_inv_def)
  have intern: "sht_intern_u (t_idents t1) (key_bytes (slice base src e)) \<noteq> None"
    if "src < e" "e \<le> n" for e
  proof -
    have len: "length (key_bytes (slice base src e)) = e - src"
      using that pad by (simp add: key_bytes_def slice_length padded_def)
    show ?thesis
      by (rule intern_step [OF rep room, of "key_bytes (slice base src e)"]) (use len that in auto)
  qed
  obtain r where r: "lex base n (t_idents t1) src = Some r" "lex_ok base n (t_idents t1) src r"
    using lex_returns [OF pad src intern] by blast
  have unf: "run_loop base t src = (case r of
         Tok idents type e \<Rightarrow>
           Option.bind (push_token (t1\<lparr>t_idents := idents\<rparr>)
               \<lparr>tok_type = type, tok_start = of_nat src, tok_end = of_nat e\<rparr>)
             (\<lambda>t. run_loop base t e)
       | Again src \<Rightarrow> run_loop base t1 src
       | Newline src \<Rightarrow> Option.bind (push_line t1 src) (\<lambda>t. run_loop base t src)
       | Eof \<Rightarrow>
           Option.bind (push_token t1 \<lparr>tok_type = TOK_EOF, tok_start = of_nat src, tok_end = of_nat src\<rparr>)
             (\<lambda>t'. let n = t_line_starts_size t1 - 1
                   in Some (t'\<lparr>t_tokens_size := of_nat (length (t_tokens t1)), t_line_starts_size := n,
                              t_line_starts := (t_line_starts t1)[unat n := 0xffffffff]\<rparr>)))"
    by (subst run_loop.simps) (simp add: t1_def [symmetric] ts r(1))
  show ?case
  proof (cases r)
    case (Tok idents' type e)
    then have e: "src < e" "scanned base n src e"
      "if is_alpha (base ! src)
        then ident_span base src e \<and> sht_intern_u (t_idents t1) (key_bytes (slice base src e)) = Some (idents', type)
        else idents' = t_idents t1 \<and> token_type_ok type"
      using r(2) by (simp_all add: lex_ok_def)
    obtain t2 ks2 where t2: "push_token (t1\<lparr>t_idents := idents'\<rparr>)
      \<lparr>tok_type = type, tok_start = of_nat src, tok_end = of_nat e\<rparr> = Some t2" "loop_inv base n t2 e ks2" "t_text t2 = t_text t1"
      using token_step_inv [OF t1(1) pad n t1(2) e] by blast
    have "n + 2 - e < n + 2 - src" using e(1) src by linarith
    then show ?thesis using less.hyps [OF _ t2(2)] unf Tok t2(1,3) tx by auto
  next
    case (Again e)
    then have e: "src < e" "scanned base n src e" "filler base src e" using r(2) by (simp_all add: lex_ok_def)
    then have "line_list base e = line_list base src" "e \<le> n"
      using scanned_no_line_end [OF e(2)] by (auto simp: scanned_def intro: line_list_skip)
    then have "loop_inv base n t1 e ks"
      using t1(1) e tiled_filler [OF _ e(3)] by (auto simp: loop_inv_def idents_room_def)
    moreover have "n + 2 - e < n + 2 - src" using e(1) src by linarith
    ultimately show ?thesis using less.hyps [of e t1 ks] unf Again tx by auto
  next
    case (Newline e)
    then have e: "src < e" "e \<le> n + 1" "filler base src e" "line_end base (e - 1)"
      "\<forall>j. src \<le> j \<and> j < e - 1 \<longrightarrow> \<not> line_end base j"
      using r(2) by (simp_all add: lex_ok_def)
    obtain t2 where t2: "push_line t1 e = Some t2" "loop_inv base n t2 e ks"
      using push_line_inv [OF t1(1) n e] by blast
    have "t_text t2 = t_text t1" using t2(1) by (auto simp: push_line_def Let_def split: if_splits)
    moreover have "n + 2 - e < n + 2 - src" using e(1) src by linarith
    ultimately show ?thesis using less.hyps [OF _ t2(2)] unf Newline t2(1) tx by auto
  next
    case Eof
    then have s: "src = n + 1" using r(2) by (simp add: lex_ok_def)
    define L where "L = line_list base n"
    have ll: "line_list base (n + 1) = L @ [n + 1]"
      using pad by (simp add: line_list_def L_def line_end_def padded_def)
    have ls: "t_line_starts t1 = map of_nat L @ [of_nat (n + 1)]"
      "unat (t_line_starts_size t1) = Suc (length L)"
      using t1(1) ll by (simp_all add: loop_inv_def s)
    then have "t_line_starts_size t1 \<noteq> 0" by auto
    then have sz: "unat (t_line_starts_size t1 - 1) = length L"
      using ls(2) by (simp add: unat_minus_one)
    have "length (t_tokens t1) \<le> n + 1"
      using t1(1) tiled_le [of base 0 "t_tokens t1" src] s by (simp add: loop_inv_def)
    then have tsz: "unat (of_nat (length (t_tokens t1)) :: u32) = length (t_tokens t1)"
      using n by (intro unat_of_nat_32) simp
    let ?t = "t1\<lparr>t_tokens := t_tokens t1 @ [\<lparr>tok_type = TOK_EOF, tok_start = of_nat src, tok_end = of_nat src\<rparr>],
      t_tokens_size := of_nat (length (t_tokens t1)), t_line_starts_size := t_line_starts_size t1 - 1,
      t_line_starts := (t_line_starts t1)[length L := 0xffffffff]\<rparr>"
    have "run_loop base t src = Some ?t"
      using unf Eof t1(2) sz by (simp add: push_token_def Let_def)
    moreover have "run_result base n ?t ks"
    proof -
      have "(map of_nat L @ [of_nat (n + 1)])[length L := 0xffffffff] = map of_nat L @ [0xffffffff :: u32]"
        by (simp add: list_update_append)
      then have "(t_line_starts t1)[length L := 0xffffffff] = map of_nat L @ [0xffffffff]"
        by (simp only: ls(1))
      then show ?thesis using t1(1) tsz sz s by (simp add: run_result_def loop_inv_def L_def)
    qed
    ultimately show ?thesis using tx by auto
  qed
qed

text \<open>A tokeniser with a loaded text, room in its table and sane capacities.\<close>

definition tokeniser_ready :: "tokeniser \<Rightarrow> u8 list list \<Rightarrow> bool" where
  "tokeniser_ready t ks \<longleftrightarrow> length (t_text t) = unat (t_text_size t) \<and> length (t_text t) + 2 \<le> 2 ^ 30 \<and>
     unat (t_text_size t) \<le> unat (t_text_capacity t) \<and> 4 \<le> unat (t_text_capacity t) \<and> unat (t_text_capacity t) < 2 ^ 31 \<and>
     sht_rep (t_idents t) ks \<and> idents_room (t_idents t) (length (t_text t) + 2) \<and>
     cap_ok (t_tokens_capacity t) \<and> cap_ok (t_line_starts_capacity t)"

lemma padded_base: "padded (xs @ [NL, NUL]) (length xs)"
  by (simp add: padded_def nth_append)

lemma text_grows:
  assumes "tokeniser_ready t ks" and "t_text_size t + 1 \<ge> t_text_capacity t"
  shows "unat (t_text_size t) + 2 \<le> unat (grow_capacity (t_text_capacity t))"
proof -
  let ?n = "unat (t_text_size t)" and ?c = "unat (t_text_capacity t)"
  have b: "?n + 2 \<le> 2 ^ 30" "?n \<le> ?c" "4 \<le> ?c" "?c < 2 ^ 31" using assms(1) by (simp_all add: tokeniser_ready_def)
  have "unat (t_text_size t + 1) = ?n + 1" using b(1) by (subst unat_Suc_step) simp_all
  then have c: "?c \<le> ?n + 1" using assms(2) by (simp add: word_le_nat_alt)
  have "unat (drop_bit 1 (t_text_capacity t)) = ?c div 2"
    by (subst unat_drop_bit_eq) (simp add: drop_bit_eq_div)
  then have u: "unat (t_text_capacity t + drop_bit 1 (t_text_capacity t)) = ?c + ?c div 2"
    using b(4) by (simp add: unat_word_ariths)
  then have "grow_capacity (t_text_capacity t) = t_text_capacity t + drop_bit 1 (t_text_capacity t)"
    by (simp add: grow_capacity_def Let_def word_less_nat_alt)
  then show ?thesis using u b c by simp
qed

lemma tokeniser_run_returns:
  assumes "tokeniser_ready t ks"
  shows "\<exists>t' ks'. tokeniser_run t = Some t' \<and> run_result (t_base t) (length (t_text t)) t' ks' \<and> t_text t' = t_text t"
proof -
  let ?n = "length (t_text t)"
  define t1 where "t1 = t\<lparr>t_line_starts := [0], t_line_starts_size := 1, t_line_lookup_cache := 0\<rparr>"
  define t2 where "t2 = (if t_text_size t1 + 1 \<ge> t_text_capacity t1
              then t1\<lparr>t_text_capacity := grow_capacity (t_text_capacity t1)\<rparr> else t1)"
  have b: "?n + 2 \<le> 2 ^ 30" "unat (t_text_size t) = ?n" "cap_ok (t_line_starts_capacity t)" "cap_ok (t_tokens_capacity t)"
    "sht_rep (t_idents t) ks" "idents_room (t_idents t) (?n + 2)"
    using assms unfolding tokeniser_ready_def by (metis, metis, metis, metis, metis, metis)
  have cap: "unat (t_text_size t2) + 2 \<le> unat (t_text_capacity t2)"
  proof (cases "t_text_size t + 1 \<ge> t_text_capacity t")
    case True
    then show ?thesis using text_grows [OF assms True] by (simp add: t2_def t1_def)
  next
    case False
    have "unat (t_text_size t + 1) = ?n + 1" using b(1,2) by (subst unat_Suc_step) simp_all
    then show ?thesis using False b(2) by (simp add: t2_def t1_def word_le_nat_alt)
  qed
  have t2: "t_text t2 = t_text t" "t_text_size t2 = t_text_size t" "t_idents t2 = t_idents t"
    "t_tokens_capacity t2 = t_tokens_capacity t" "t_line_starts_capacity t2 = t_line_starts_capacity t"
    "t_line_starts t2 = [0]" "t_line_starts_size t2 = 1" "t_line_lookup_cache t2 = 0"
    by (simp_all add: t2_def t1_def)
  have run: "tokeniser_run t = run_loop (t_base t) (t2\<lparr>t_tokens := []\<rparr>) 0"
    using cap t2 b(3) unfolding tokeniser_run_def Let_def t1_def [symmetric] t2_def [symmetric]
    by (simp add: t_base_def cap_ok_def)
  have "loop_inv (t_base t) ?n (t2\<lparr>t_tokens := []\<rparr>) 0 ks"
    using t2 b by (auto simp: loop_inv_def line_list_def filler.nil cap_ok_def word_le_nat_alt)
  then show ?thesis
    using run_loop_returns [OF padded_base b(1)] run t2(1) by (fastforce simp: t_base_def)
qed

end
