(* ===== verification/TokeniseDecode.thy ===== *)
theory TokeniseDecode
  imports Tokenise
begin

section \<open>tokenise.c: locations and literals\<close>

text \<open>
  What a client reads off the tokens: the line of an offset, the value of a number token
  and the characters of a string literal.
\<close>

subsection \<open>Lines\<close>

definition lines_ok :: "tokeniser \<Rightarrow> bool" where
  "lines_ok t \<longleftrightarrow> length (t_line_starts t) = unat (t_line_starts_size t) + 1 \<and>
     sorted_wrt (<) (t_line_starts t) \<and> t_line_starts t ! 0 = 0 \<and>
     t_line_starts t ! unat (t_line_starts_size t) = 0xffffffff \<and> t_line_lookup_cache t < t_line_starts_size t"

definition on_line :: "tokeniser \<Rightarrow> u32 \<Rightarrow> nat \<Rightarrow> bool" where
  "on_line t offset l \<longleftrightarrow> l < unat (t_line_starts_size t) \<and>
     t_line_starts t ! l \<le> offset \<and> offset < t_line_starts t ! (l + 1)"

lemma line_up_ok:
  assumes ok: "lines_ok t" and off: "offset < 0xffffffff"
    and i: "i + 1 < length (t_line_starts t)" "t_line_starts t ! (i + 1) \<le> offset"
  shows "\<exists>l. line_up (t_line_starts t) offset i = Some l \<and> on_line t offset l"
  using i
proof (induction "length (t_line_starts t) - i" arbitrary: i rule: less_induct)
  case less
  let ?S = "t_line_starts t" and ?n = "unat (t_line_starts_size t)"
  have len: "length ?S = ?n + 1" "?S ! ?n = 0xffffffff" using ok by (simp_all add: lines_ok_def)
  have "i + 1 \<noteq> ?n" using less.prems(2) off len(2) by (metis not_le)
  then have i2: "i + 2 < length ?S" using less.prems(1) len(1) by linarith
  then have rd: "rd ?S (i + 2) = Some (?S ! (i + 2))" by (simp add: rd_def)
  show ?case
  proof (cases "?S ! (i + 2) \<le> offset")
    case True
    then obtain l where "line_up ?S offset (i + 1) = Some l" "on_line t offset l"
      using less.hyps [of "i + 1"] i2 by (auto simp: numeral_2_eq_2 diff_less_mono2)
    then show ?thesis using rd True by (subst line_up.simps) simp
  next
    case False
    then have "on_line t offset (i + 1)" using less.prems(2) i2 len(1) by (simp add: on_line_def not_le numeral_2_eq_2)
    then show ?thesis using rd False by (subst line_up.simps) simp
  qed
qed

lemma line_down_ok:
  assumes ok: "lines_ok t" and i: "i \<le> unat (t_line_starts_size t)" "offset < t_line_starts t ! i"
  shows "\<exists>l. line_down (t_line_starts t) offset i = Some l \<and> on_line t offset l"
  using i
proof (induction i)
  case 0
  then show ?case using ok by (simp add: lines_ok_def)
next
  case (Suc i)
  have "rd (t_line_starts t) i = Some (t_line_starts t ! i)"
    using ok Suc.prems(1) by (simp add: rd_def lines_ok_def)
  then show ?case using Suc by (auto simp: on_line_def not_less)
qed

lemma offset_to_line_ok:
  assumes ok: "lines_ok t" and off: "offset < 0xffffffff"
  shows "\<exists>t' l. offset_to_line t offset = Some (t', of_nat l) \<and> on_line t offset l \<and>
    (t' = t \<or> t' = t\<lparr>t_line_lookup_cache := of_nat l\<rparr>)"
proof -
  let ?S = "t_line_starts t" and ?c = "unat (t_line_lookup_cache t)"
  have c: "?c < unat (t_line_starts_size t)" "length ?S = unat (t_line_starts_size t) + 1"
    using ok by (simp_all add: lines_ok_def word_less_nat_alt)
  then have rd: "rd ?S ?c = Some (?S ! ?c)" "rd ?S (?c + 1) = Some (?S ! (?c + 1))" by (simp_all add: rd_def)
  show ?thesis
  proof (cases "?S ! ?c \<le> offset")
    case True
    show ?thesis
    proof (cases "offset < ?S ! (?c + 1)")
      case in1: True
      then have "on_line t offset ?c" using True c by (simp add: on_line_def)
      then show ?thesis using rd True in1 by (auto simp: offset_to_line_def Let_def intro!: exI [of _ ?c])
    next
      case False
      then obtain l where "line_up ?S offset ?c = Some l" "on_line t offset l"
        using line_up_ok [OF ok off, of ?c] c by (auto simp: not_less)
      then show ?thesis using rd True False off by (auto simp: offset_to_line_def Let_def)
    qed
  next
    case False
    then obtain l where "line_down ?S offset ?c = Some l" "on_line t offset l"
      using line_down_ok [OF ok, of ?c] c by (auto simp: not_le)
    then show ?thesis using rd False by (auto simp: offset_to_line_def Let_def)
  qed
qed

subsection \<open>Numbers\<close>

text \<open>The value of a number as its text says, \<open>None\<close> when it is malformed.\<close>

definition digits_in :: "(char \<Rightarrow> bool) \<Rightarrow> (u64 \<Rightarrow> char \<Rightarrow> u64) \<Rightarrow> u64 \<Rightarrow> string \<Rightarrow> u64 option" where
  "digits_in isd step u ds = (if list_all isd ds then Some (foldl step u ds) else None)"

definition number_value :: "string \<Rightarrow> u64 option" where
  "number_value s =
    (if s = [] \<or> hd s = CHR ''.'' then None
     else if hd s = CHR ''0'' then
       (if tl s \<noteq> [] \<and> (hd (tl s) = CHR ''x'' \<or> hd (tl s) = CHR ''X'') then
          digits_in (\<lambda>c. has_flag c CF_HEX_DIGIT) (\<lambda>u c. push_bit 4 u + hex_digit_value c) 0 (tl (tl s))
        else if tl s \<noteq> [] \<and> (hd (tl s) = CHR ''b'' \<or> hd (tl s) = CHR ''B'') then
          digits_in (digit_upto (CHR ''1'')) (\<lambda>u c. u * 2 + digit_of c) 0 (tl (tl s))
        else digits_in (digit_upto (CHR ''7'')) (\<lambda>u c. u * 8 + digit_of c) 0 (tl s))
     else digits_in is_digit (\<lambda>u c. u * 10 + digit_of c) (digit_of (hd s)) (tl s))"

lemma num_loop_run:
  assumes "drop i base = ds @ c # rest" and "CHR 0x27 \<notin> set ds" and "c \<noteq> CHR 0x27" and "\<not> isd c"
  shows "num_loop isd step base u i =
    Some (foldl step u (takeWhile isd ds), i + length (takeWhile isd ds))"
  using assms(1,2)
proof (induction ds arbitrary: i u)
  case Nil
  then have "rd base i = Some c" by (metis append_Nil drop_eq_Nil not_le rd_Some_iff hd_drop_conv_nth list.discI list.sel(1))
  then show ?case using assms(3,4) by (subst num_loop.simps) simp
next
  case (Cons d ds)
  have r: "rd base i = Some d"
    using Cons.prems(1) by (metis append_Cons drop_eq_Nil hd_drop_conv_nth list.discI list.sel(1) not_le rd_Some_iff)
  have dr: "drop (Suc i) base = ds @ c # rest"
    using Cons.prems(1) by (metis append_Cons drop_Suc list.sel(3) tl_drop)
  show ?case
  proof (cases "isd d")
    case True
    then show ?thesis using Cons.IH [OF dr, of "step u d"] Cons.prems(2) r
      by (subst num_loop.simps) simp
  next
    case False
    then show ?thesis using Cons.prems(2) r by (subst num_loop.simps) auto
  qed
qed

lemma takeWhile_all_iff: "length (takeWhile P xs) = length xs \<longleftrightarrow> list_all P xs"
  by (induction xs) auto

lemma num_loop_digits_in:
  assumes "drop i base = ds @ c # rest" and "CHR 0x27 \<notin> set ds" and "c \<noteq> CHR 0x27" and "\<not> isd c"
    and e: "e = i + length ds"
  shows "\<exists>v. map_option (\<lambda>(u, j). (j = e, Some u)) (num_loop isd step base u i) =
      Some (digits_in isd step u ds \<noteq> None, v) \<and> (digits_in isd step u ds \<noteq> None \<longrightarrow> v = digits_in isd step u ds)"
proof -
  have iff: "i + length (takeWhile isd ds) = e \<longleftrightarrow> list_all isd ds"
    using takeWhile_all_iff [of isd ds] e by simp
  note nl = num_loop_run [of i base ds c rest isd step u, OF assms(1-4)]
  show ?thesis
  proof (cases "list_all isd ds")
    case True
    then have tw: "takeWhile isd ds = ds" by (induction ds) auto
    show ?thesis using nl [unfolded tw] True e by (simp add: digits_in_def)
  next
    case False
    then show ?thesis using nl iff by (simp add: digits_in_def)
  qed
qed

lemma table_facts:
  "list_all (\<lambda>f. f AND 16 \<noteq> 0 \<longrightarrow> f AND 2 \<noteq> 0) char_flags_table"
  "list_all (\<lambda>i. char_flags_table ! i AND 2 \<noteq> 0) [48..<58]"
  "length char_flags_table = 256"
  by code_simp+

lemma of_char_less: "(of_char c :: nat) < 256"
  by (metis mod_less_divisor of_char_mod_256 zero_less_numeral)

lemma pp_number_flags:
  shows "has_flag c CF_HEX_DIGIT \<Longrightarrow> has_flag c CF_PP_NUMBER" and "is_digit c \<Longrightarrow> has_flag c CF_PP_NUMBER"
proof -
  have "char_flags c AND 16 \<noteq> 0 \<longrightarrow> char_flags c AND 2 \<noteq> 0"
    using table_facts(1,3) of_char_less [of c] by (simp add: list_all_length char_flags_def)
  then show "has_flag c CF_HEX_DIGIT \<Longrightarrow> has_flag c CF_PP_NUMBER"
    by (simp add: has_flag_def CF_HEX_DIGIT_def CF_PP_NUMBER_def)
  have "is_digit c \<Longrightarrow> of_char c \<in> set [48..<58]" unfolding is_digit_def set_upt atLeastLessThan_iff by linarith
  then show "is_digit c \<Longrightarrow> has_flag c CF_PP_NUMBER"
    using table_facts(2) unfolding list_all_iff has_flag_def char_flags_def CF_PP_NUMBER_def by blast
qed

lemma decode_uint_value:
  assumes base: "drop (unat (tok_start tok)) (t_base t) = s @ c # rest" and s: "s \<noteq> []" "CHR 0x27 \<notin> set s"
    and e: "unat (tok_end tok) = unat (tok_start tok) + length s"
    and stop: "\<not> has_flag c CF_PP_NUMBER" "c \<noteq> CHR 0x27"
    and num: "is_digit (hd s) \<or> hd s = CHR ''.''"
  shows "\<exists>v. tokeniser_decode_uint t tok = Some (number_value s \<noteq> None, v) \<and>
    (number_value s \<noteq> None \<longrightarrow> v = number_value s)"
proof -
  let ?b = "t_base t" and ?i = "unat (tok_start tok)"
  obtain d ds where ds: "s = d # ds" using s(1) by (cases s) auto
  have nd: "\<not> has_flag c CF_HEX_DIGIT" "\<not> is_digit c" "\<not> digit_upto m c" for m
    using stop(1) pp_number_flags [of c] by (auto simp: digit_upto_def)
  have rd0: "rd ?b ?i = Some d"
    using base ds by (metis append_Cons drop_eq_Nil hd_drop_conv_nth list.discI list.sel(1) not_le rd_Some_iff)
  have dr1: "drop (Suc ?i) ?b = ds @ c # rest" using base ds by (metis append_Cons drop_Suc list.sel(3) tl_drop)
  have q: "CHR 0x27 \<notin> set ds" using s(2) ds by simp
  have rd1: "rd ?b (Suc ?i) = Some (hd (ds @ [c]))"
  proof -
    have "hd (ds @ c # rest) = hd (ds @ [c])" by (cases ds) auto
    then show ?thesis
      using dr1 by (metis Nil_is_append_conv drop_eq_Nil hd_drop_conv_nth list.discI not_le rd_Some_iff)
  qed
  have e1: "unat (tok_end tok) = Suc ?i + length ds" using e ds by simp
  consider (dot) "d = CHR ''.''" | (dec) "d \<noteq> CHR ''.''" "d \<noteq> CHR ''0''" | (zero) "d = CHR ''0''" by blast
  then show ?thesis
  proof cases
    case dot
    then show ?thesis using rd0 by (simp add: tokeniser_decode_uint_def Let_def number_value_def ds)
  next
    case dec
    then show ?thesis
      using rd0 num_loop_digits_in [where isd = is_digit and step = "\<lambda>u c. u * 10 + digit_of c" and u = "digit_of d",
            OF dr1 q stop(2) nd(2) e1]
      by (simp add: tokeniser_decode_uint_def Let_def number_value_def ds)
  next
    case zero
    show ?thesis
    proof (cases "ds \<noteq> [] \<and> (hd ds = CHR ''x'' \<or> hd ds = CHR ''X'' \<or> hd ds = CHR ''b'' \<or> hd ds = CHR ''B'')")
      case True
      then obtain x xs where xs: "ds = x # xs" by (cases ds) auto
      have dr2: "drop (Suc (Suc ?i)) ?b = xs @ c # rest" using dr1 xs by (metis append_Cons drop_Suc list.sel(3) tl_drop)
      have q2: "CHR 0x27 \<notin> set xs" using q xs by simp
      have e2: "unat (tok_end tok) = Suc (Suc ?i) + length xs" using e1 xs by simp
      show ?thesis
        using True zero rd0 rd1 xs
          num_loop_digits_in [where isd = "\<lambda>c. has_flag c CF_HEX_DIGIT" and
            step = "\<lambda>u c. push_bit 4 u + hex_digit_value c" and u = 0, OF dr2 q2 stop(2) nd(1) e2]
          num_loop_digits_in [where isd = "digit_upto (CHR ''1'')" and
            step = "\<lambda>u c. u * 2 + digit_of c" and u = 0, OF dr2 q2 stop(2) nd(3) e2]
        by (auto simp: tokeniser_decode_uint_def Let_def number_value_def ds)
    next
      case False
      have "c \<noteq> CHR ''x''" "c \<noteq> CHR ''X''" "c \<noteq> CHR ''b''" "c \<noteq> CHR ''B''"
        using stop(1) by (auto simp: has_flag_def char_flags_def char_flags_table_def CF_PP_NUMBER_def)
      then have h: "hd (ds @ [c]) \<notin> {CHR ''x'', CHR ''X'', CHR ''b'', CHR ''B''}"
        using False by (cases ds) auto
      then show ?thesis
        using False zero rd0 rd1 
          num_loop_digits_in [where isd = "digit_upto (CHR ''7'')" and
            step = "\<lambda>u c. u * 8 + digit_of c" and u = 0, OF dr1 q stop(2) nd(3) e1]
        by (auto simp: tokeniser_decode_uint_def Let_def number_value_def ds)
    qed
  qed
qed

subsection \<open>String literals\<close>

text \<open>
  Quoting: characters that may stand in a literal are kept, the others are written as
  three-digit octal escapes.
\<close>

definition octal_digit :: "nat \<Rightarrow> char" where
  "octal_digit d = char_of (48 + d)"

definition quote_char :: "char \<Rightarrow> string" where
  "quote_char c = (if has_flag c CF_STR_BODY then [c]
     else [CHR 0x5C, octal_digit (of_char c div 64), octal_digit (of_char c div 8 mod 8), octal_digit (of_char c mod 8)])"

definition quote_str :: "string \<Rightarrow> string" where
  "quote_str cs = concat (map quote_char cs)"

lemma octal_digit_of: "d < 8 \<Longrightarrow> (of_char (octal_digit d) :: nat) = 48 + d"
  by (simp add: octal_digit_def)

lemma octal_digit_word: "d < 8 \<Longrightarrow> (of_char (octal_digit d) :: u32) - 48 = of_nat d"
proof -
  assume d: "d < 8"
  have "(of_char (octal_digit d) :: u32) = of_nat (of_char (octal_digit d))" by (simp add: of_nat_of_char)
  then show ?thesis using d by (simp add: octal_digit_of)
qed

lemma octal_digit_upto: "d < 8 \<Longrightarrow> digit_upto (CHR ''7'') (octal_digit d)"
  by (simp add: digit_upto_def is_digit_def octal_digit_of)

lemma octal_digit_not_x: "d < 8 \<Longrightarrow> octal_digit d \<noteq> CHR ''x''"
  using octal_digit_of [of d] by auto

lemma octal_str_body: "d < 8 \<Longrightarrow> has_flag (octal_digit d) CF_STR_BODY"
proof -
  assume d: "d < 8"
  have "list_all (\<lambda>i. char_flags_table ! i AND 1 \<noteq> 0) [48..<56]" by code_simp
  moreover have "48 + d \<in> set [48..<56]" using d unfolding set_upt atLeastLessThan_iff by linarith
  ultimately have "char_flags_table ! (48 + d) AND 1 \<noteq> 0" unfolding list_all_iff by (rule bspec)
  then show ?thesis
    using octal_digit_of [OF d] by (simp add: has_flag_def char_flags_def CF_STR_BODY_def)
qed

lemma decode_octal:
  assumes "drop i base = [octal_digit (of_char c div 64), octal_digit (of_char c div 8 mod 8), octal_digit (of_char c mod 8)] @ rest"
  shows "decode_escape base i = Some (c, i + 3)"
proof -
  let ?n = "of_char c :: nat"
  have n: "?n < 256" by (rule of_char_less)
  have d1: "?n div 64 < 8" by (rule less_mult_imp_div_less) (use n in linarith)
  have d: "?n div 64 < 8" "?n div 8 mod 8 < 8" "?n mod 8 < 8" using d1 by (assumption, simp_all)
  have len: "i + 3 \<le> length base"
    using arg_cong [OF assms, of length] by simp
  have nth: "base ! (i + j) = drop i base ! j" for j using len by (simp add: nth_drop)
  have r: "rd base i = Some (octal_digit (?n div 64))" "rd base (i + 1) = Some (octal_digit (?n div 8 mod 8))"
    "rd base (i + 1 + 1) = Some (octal_digit (?n mod 8))"
    using len nth [of 0] nth [of 1] nth [of 2] unfolding assms by (simp_all add: rd_def numeral_2_eq_2)
  have w: "((of_nat (?n div 64) * 8 + of_nat (?n div 8 mod 8)) * 8 + of_nat (?n mod 8) :: u32) = of_nat ?n"
  proof -
    have "(?n div 64 * 8 + ?n div 8 mod 8) * 8 + ?n mod 8 = ?n"
      using div_mult_mod_eq [of ?n 8] div_mult_mod_eq [of "?n div 8" 8] by (simp add: div_mult2_eq [symmetric])
    then show ?thesis by (metis (no_types) of_nat_add of_nat_mult of_nat_numeral)
  qed
  have "unat (of_nat ?n :: u32) = ?n" by (rule unat_of_nat_32) (rule order.strict_trans [OF n], simp)
  then have "char_of_u32 (of_nat ?n) = c" by (simp add: char_of_u32_def)
  then show ?thesis
    using r octal_digit_upto d octal_digit_not_x [OF d(1)] w
    by (simp add: decode_escape_def octal_escape_def Let_def octal_digit_word numeral_3_eq_3)
qed

lemma str_loop_quoted:
  assumes "drop i base = quote_str cs @ rest" and "length out + length cs < m" and "lim = i + length (quote_str cs)"
  shows "str_loop base lim m i out = Some (out @ cs)"
  using assms
proof (induction cs arbitrary: i out)
  case Nil
  then show ?case by (subst str_loop.simps) (simp add: quote_str_def)
next
  case (Cons c cs)
  have q: "quote_str (c # cs) = quote_char c @ quote_str cs" by (simp add: quote_str_def)
  have ne: "quote_char c \<noteq> []" by (simp add: quote_char_def)
  then have lt: "i < lim" using Cons.prems(3) q by simp
  have dr: "drop (i + length (quote_char c)) base = quote_str cs @ rest"
    using arg_cong [OF Cons.prems(1), of "drop (length (quote_char c))"] q by (simp add: add.commute)
  have len: "i < length base" using arg_cong [OF Cons.prems(1), of length] q ne by (cases "quote_char c") auto
  have rd0: "rd base i = Some (hd (quote_char c))"
    using len hd_drop_conv_nth [OF len] Cons.prems(1) q ne by (simp add: rd_def)
  show ?case
  proof (cases "has_flag c CF_STR_BODY")
    case True
    then have qc: "quote_char c = [c]" by (simp add: quote_char_def)
    have "c \<noteq> CHR 0x5C" using True by (auto simp: has_flag_def char_flags_def char_flags_table_def CF_STR_BODY_def)
    then show ?thesis
      using rd0 qc lt Cons.IH [of "i + 1" "out @ [c]"] dr Cons.prems(2,3) q
      by (subst str_loop.simps) simp
  next
    case False
    let ?oct = "[octal_digit (of_char c div 64), octal_digit (of_char c div 8 mod 8), octal_digit (of_char c mod 8)]"
    have qc: "quote_char c = CHR 0x5C # ?oct" using False by (simp add: quote_char_def)
    have "drop (Suc i) base = ?oct @ quote_str cs @ rest"
      using Cons.prems(1) q qc by (metis append_Cons append_assoc drop_Suc list.sel(3) tl_drop)
    then have "decode_escape base (Suc i) = Some (c, Suc i + 3)" by (rule decode_octal)
    moreover have "length (quote_char c) = 4" using qc by simp
    then have "drop (4 + i) base = quote_str cs @ rest" using dr by (simp only: add.commute)
    ultimately show ?thesis
      using rd0 qc lt Cons.IH [of "4 + i" "out @ [c]"] Cons.prems(2,3) q
      by (subst str_loop.simps) simp
  qed
qed


lemma drop_Cons_rd: "drop i xs = y # ys \<Longrightarrow> rd xs i = Some y \<and> drop (Suc i) xs = ys"
proof -
  assume d: "drop i xs = y # ys"
  then have "i < length xs" by (cases "i < length xs") auto
  then show ?thesis using d by (simp add: rd_def Cons_nth_drop_Suc [symmetric])
qed

lemma not_body: "\<not> has_flag (CHR 0x22) CF_STR_BODY" "\<not> has_flag (CHR 0x27) CF_STR_BODY"
  "\<not> has_flag (CHR 0x5C) CF_STR_BODY"
  by (simp_all add: has_flag_def char_flags_def char_flags_table_def CF_STR_BODY_def)

lemma scan_str_body:
  assumes "drop i base = c # ys" and "has_flag c CF_STR_BODY"
  shows "scan_str base c0 type i = scan_str base c0 type (Suc i)"
  using drop_Cons_rd [OF assms(1)] assms(2) by (subst scan_str.simps) simp

lemma scan_str_quoted:
  assumes "drop i base = quote_str cs @ c0 # rest" and "c0 = CHR 0x22 \<or> c0 = CHR 0x27"
  shows "scan_str base c0 type i = Some (if list_all (\<lambda>c. has_flag c CF_STR_BODY) cs then type else type OR 1,
    i + length (quote_str cs) + 1)"
  using assms(1)
proof (induction cs arbitrary: i type)
  case Nil
  then have "drop i base = c0 # rest" by (simp add: quote_str_def)
  from drop_Cons_rd [OF this] have "rd base i = Some c0" ..
  then show ?case using not_body assms(2) by (subst scan_str.simps) (elim disjE; simp add: quote_str_def)
next
  case (Cons c cs)
  have q: "quote_str (c # cs) = quote_char c @ quote_str cs" by (simp add: quote_str_def)
  show ?case
  proof (cases "has_flag c CF_STR_BODY")
    case True
    then have d: "drop i base = c # (quote_str cs @ c0 # rest)"
      using Cons.prems q by (simp add: quote_char_def)
    then show ?thesis
      using Cons.IH [of "Suc i" type] drop_Cons_rd [OF d] True q scan_str_body [OF d True]
      by (simp add: quote_char_def)
  next
    case False
    define o1 o2 o3 where "o1 = octal_digit (of_char c div 64)" and "o2 = octal_digit (of_char c div 8 mod 8)"
      and "o3 = octal_digit (of_char c mod 8)"
    have qc: "quote_char c = [CHR 0x5C, o1, o2, o3]"
      using False by (simp add: quote_char_def o1_def o2_def o3_def)
    have "of_char c div (64::nat) < 8" by (rule less_mult_imp_div_less) (use of_char_less [of c] in linarith)
    then have o1: "\<not> eol_char o1" and b2: "has_flag o2 CF_STR_BODY" and b3: "has_flag o3 CF_STR_BODY"
      using octal_str_body char_flags_eol unfolding o1_def o2_def o3_def by (blast, simp_all add: octal_str_body)
    have d0: "drop i base = CHR 0x5C # o1 # o2 # o3 # quote_str cs @ c0 # rest"
      using Cons.prems q qc by simp
    note d1 = drop_Cons_rd [OF d0]
    note d2 = drop_Cons_rd [OF d1 [THEN conjunct2]]
    note d3 = drop_Cons_rd [OF d2 [THEN conjunct2]]
    note d4 = drop_Cons_rd [OF d3 [THEN conjunct2]]
    have "scan_str base c0 type i = scan_str base c0 (type OR 1) (Suc (Suc i))"
      using d1 d2 not_body o1 assms(2) by (subst scan_str.simps) (auto simp: Let_def eol_char_def)
    also have "\<dots> = scan_str base c0 (type OR 1) (Suc (Suc (Suc (Suc i))))"
      using scan_str_body [OF d2 [THEN conjunct2] b2] scan_str_body [OF d3 [THEN conjunct2] b3] by simp
    finally show ?thesis
      using Cons.IH [of "Suc (Suc (Suc (Suc i)))" "type OR 1"] d4 False q qc by (simp add: or.assoc)
  qed
qed


lemma length_quote_str: "length cs \<le> length (quote_str cs)"
  by (induction cs) (auto simp: quote_str_def quote_char_def)

lemma quote_str_plain: "list_all (\<lambda>c. has_flag c CF_STR_BODY) cs \<Longrightarrow> quote_str cs = cs"
  by (induction cs) (auto simp: quote_str_def quote_char_def)

lemma lex_quote_case:
  "rd base i = Some c \<Longrightarrow> \<not> is_alpha c \<Longrightarrow> c = CHR 0x27 \<or> c = CHR 0x22 \<Longrightarrow>
   lex base n idents i = (case scan_str base c (TOK_STR_LIT + (of_char c AND 1) * 2) (i + 1) of
      None \<Rightarrow> None | Some (type, e) \<Rightarrow> Some (Tok idents type e))"
  unfolding lex_def by (simp only: option.case if_False if_True Let_def)

lemma lex_quoted:
  assumes "drop i base = c0 # quote_str cs @ c0 # rest" and "c0 = CHR 0x22 \<or> c0 = CHR 0x27"
  shows "lex base n idents i = Some (Tok idents
     (let type = (if c0 = CHR 0x22 then TOK_STR_LIT else TOK_CHAR_LIT)
      in if list_all (\<lambda>c. has_flag c CF_STR_BODY) cs then type else type OR 1)
     (i + length (quote_str cs) + 2))"
proof -
  note d = drop_Cons_rd [OF assms(1)]
  have na: "\<not> is_alpha c0" using assms(2) by (auto simp: is_alpha_def)
  have ty: "TOK_STR_LIT + (of_char c0 AND 1) * 2 = (if c0 = CHR 0x22 then TOK_STR_LIT else TOK_CHAR_LIT)"
    using assms(2) by (elim disjE) (simp_all add: TOK_STR_LIT_def TOK_CHAR_LIT_def)
  have "scan_str base c0 (TOK_STR_LIT + (of_char c0 AND 1) * 2) (Suc i) = Some
    (let type = (if c0 = CHR 0x22 then TOK_STR_LIT else TOK_CHAR_LIT)
      in if list_all (\<lambda>c. has_flag c CF_STR_BODY) cs then type else type OR 1, i + length (quote_str cs) + 2)"
    unfolding ty Let_def by (simp only: scan_str_quoted [OF d [THEN conjunct2] assms(2)]) simp
  then show ?thesis
    using lex_quote_case [OF d [THEN conjunct1] na] assms(2) by auto
qed

lemma decode_quoted:
  assumes "drop (unat s) (t_base t) = c0 # quote_str cs @ c0 # rest"
    and "unat e = unat s + length (quote_str cs) + 2"
    and "type = (if list_all (\<lambda>c. has_flag c CF_STR_BODY) cs then lit else lit OR 1)"
    and "lit = TOK_STR_LIT \<or> lit = TOK_CHAR_LIT"
  shows "tokeniser_decode_str_lit t \<lparr>tok_type = type, tok_start = s, tok_end = e\<rparr> = Some (Some cs)"
proof -
  note d = drop_Cons_rd [OF assms(1)]
  have len: "unat e \<le> length (t_base t)" using arg_cong [OF assms(1), of length] assms(2) by simp
  show ?thesis
  proof (cases "list_all (\<lambda>c. has_flag c CF_STR_BODY) cs")
    case True
    have "slice (t_base t) (unat s + 1) (unat e - 1) = cs"
      using d quote_str_plain [OF True] assms(2) by (simp add: slice_def)
    then show ?thesis using True assms(2-4) len by (auto simp: tokeniser_decode_str_lit_def Let_def)
  next
    case False
    have "str_loop (t_base t) (unat e - 1) (unat e - unat s) (unat s + 1) [] = Some ([] @ cs)"
      using length_quote_str [of cs] assms(2) d
      by (intro str_loop_quoted [where rest = "c0 # rest"]) auto
    then show ?thesis using False assms(3,4) 
      by (auto simp: tokeniser_decode_str_lit_def Let_def TOK_STR_LIT_def TOK_CHAR_LIT_def TOK_STR_LIT_ESC_def TOK_CHAR_LIT_ESC_def)
  qed
qed


subsection \<open>Lines of a tokenised text\<close>

lemma line_list_sorted: "sorted_wrt (<) (line_list base n)"
  by (simp add: line_list_def sorted_wrt_map strict_sorted_iff [symmetric] sorted_wrt_filter)

lemma line_list_bound: "x \<in> set (line_list base n) \<Longrightarrow> x \<le> n"
  by (auto simp: line_list_def)

lemma line_list_split:
  assumes "j \<le> n"
  shows "line_list base n = line_list base j @ map Suc (filter (line_end base) [j..<n])"
proof -
  have "[0..<n] = [0..<j] @ [j..<n]" using assms upt_add_eq_append [of 0 j "n - j"] by simp
  then show ?thesis by (simp add: line_list_def)
qed

lemma run_result_lines:
  assumes "run_result base n t ks" and "n + 2 \<le> 2 ^ 30"
  shows "lines_ok t"
proof -
  let ?L = "line_list base n"
  have r: "t_line_starts t = map of_nat ?L @ [0xffffffff]" "unat (t_line_starts_size t) = length ?L"
    "t_line_lookup_cache t = 0"
    using assms(1) unfolding run_result_def by blast+
  have b: "unat (of_nat x :: u32) = x" if "x \<in> set ?L" for x
    using line_list_bound [OF that] assms(2) by (intro unat_of_nat_32) simp
  have s: "sorted_wrt (<) (map (of_nat :: nat \<Rightarrow> u32) ?L)"
    unfolding sorted_wrt_map
    by (rule sorted_wrt_mono_rel [OF _ line_list_sorted]) (simp add: word_less_nat_alt b)
  have top: "(of_nat x :: u32) < 0xffffffff" if "x \<in> set ?L" for x
    using b [OF that] line_list_bound [OF that] assms(2) by (simp add: word_less_nat_alt)
  have ne: "0 < length ?L" "?L ! 0 = 0" by (simp_all add: line_list_def)
  show ?thesis
    using s top ne r by (auto simp: lines_ok_def sorted_wrt_append nth_append word_less_nat_alt)
qed

lemma on_line_unique:
  assumes "lines_ok t" and "on_line t offset l" and "on_line t offset m"
  shows "l = m"
proof (rule ccontr)
  have less: False if lm: "l < m" "on_line t offset l" "on_line t offset m" for l m
  proof -
    have "t_line_starts t ! (l + 1) \<le> t_line_starts t ! m"
    proof (cases "l + 1 = m")
      case False
      then have "l + 1 < m" "m < length (t_line_starts t)" using lm assms(1) by (simp_all add: on_line_def lines_ok_def)
      then have "t_line_starts t ! (l + 1) < t_line_starts t ! m"
        using assms(1) sorted_wrt_nth_less [of "(<)" "t_line_starts t" "l + 1" m] by (simp add: lines_ok_def)
      then show ?thesis by simp
    qed simp
    then show False using lm(2,3) unfolding on_line_def by (meson leD le_less_trans order.trans)
  qed
  assume "l \<noteq> m"
  then show False using less assms(2,3) by (metis nat_neq_iff)
qed

lemma run_result_on_line:
  assumes r: "run_result base n t ks" and n: "n + 2 \<le> 2 ^ 30" and j: "j \<le> n"
  shows "on_line t (of_nat j) (length (filter (line_end base) [0..<j]))"
    and "t_line_starts t ! length (filter (line_end base) [0..<j]) = of_nat (last (line_list base j))"
proof -
  let ?P = "line_list base j" and ?R = "map Suc (filter (line_end base) [j..<n])"
  let ?l = "length (filter (line_end base) [0..<j])"
  have st: "t_line_starts t = map of_nat (?P @ ?R) @ [0xffffffff]"
    "unat (t_line_starts_size t) = length (?P @ ?R)"
    using r unfolding run_result_def line_list_split [OF j] by blast+
  have len: "length ?P = Suc ?l" by (simp add: line_list_def)
  then have ne: "?P \<noteq> []" by auto
  have at: "t_line_starts t ! ?l = of_nat (?P ! ?l)" using st(1) len by (simp add: nth_append)
  then show last: "t_line_starts t ! ?l = of_nat (last ?P)"
    using len last_conv_nth [OF ne] by simp
  have le: "last ?P \<le> j" using line_list_bound last_in_set [OF ne] by blast
  have jj: "unat (of_nat j :: u32) = j" "unat (of_nat (last ?P) :: u32) = last ?P"
    using n j le by (auto intro!: unat_of_nat_32)
  have gt: "(of_nat j :: u32) < t_line_starts t ! (?l + 1)"
  proof (cases "?R = []")
    case True
    then have "t_line_starts t ! (?l + 1) = 0xffffffff" using st(1) len by (simp add: nth_append)
    then show ?thesis using jj n j by (simp add: word_less_nat_alt)
  next
    case False
    then obtain x xs where x: "?R = x # xs" by (cases ?R) auto
    then have "x \<in> set ?R" by simp
    then have xb: "j < x" "x \<le> n" by auto
    have "t_line_starts t ! (?l + 1) = of_nat x" unfolding st(1) x using len by (simp add: nth_append)
    moreover have "unat (of_nat x :: u32) = x" using n xb(2) by (intro unat_of_nat_32) simp
    ultimately show ?thesis using jj xb by (simp add: word_less_nat_alt)
  qed
  show "on_line t (of_nat j) ?l"
    using gt last le jj st(2) len by (simp add: on_line_def word_le_nat_alt)
qed


section \<open>Properties\<close>

definition sample :: "string \<Rightarrow> tokeniser" where
  "sample s = tokeniser_init\<lparr>t_text := s, t_text_size := of_nat (length s), t_text_capacity := of_nat (length s) + 4\<rparr>"

lemma sample_ready: "length s + 16 < 2 ^ 20 \<Longrightarrow> tokeniser_ready (sample s) []"
proof -
  assume b: "length s + 16 < 2 ^ 20"
  then have u: "unat (of_nat (length s) :: u32) = length s" by (intro unat_of_nat_32) simp
  moreover have "unat (of_nat (length s) + 4 :: u32) = length s + 4"
    using u b by (simp add: unat_word_ariths)
  ultimately show ?thesis using b sht_init_rep [of 4]
    by (simp add: tokeniser_ready_def sample_def tokeniser_init_def idents_room_def cap_ok_def sht_init_def)
qed

text \<open>
  C8: tokenising any text that fits ends without an access outside an array. The tokens
  tile the text: they are nonempty, in order, and only blanks, line ends and comments stand
  between them. Every identifier is the longest one at its place and its type is the index
  of its text in the identifier table, every other token has a type above all indices, the
  end of file token is last, and the line starts are the positions after the line ends.
\<close>

theorem tokeniser_run_correct:
  assumes "tokeniser_ready t ks"
  shows "\<exists>t' ks'. tokeniser_run t = Some t' \<and> run_result (t_base t) (length (t_text t)) t' ks' \<and> t_text t' = t_text t"
  using assms by (rule tokeniser_run_returns)

lemma tokeniser_run_correct_witness:
  "\<exists>t' ks'. tokeniser_run (sample ''ab = 1'') = Some t' \<and>
     run_result (t_base (sample ''ab = 1'')) (length (t_text (sample ''ab = 1''))) t' ks'"
proof -
  have "tokeniser_ready (sample ''ab = 1'') []" by (rule sample_ready) simp
  from tokeniser_run_correct [OF this] show ?thesis by blast
qed

text \<open>
  C9: after a run, the line that an error at a token reports is one more than the number of
  line ends before the token, and the column is its distance from the start of that line,
  whatever line the cache of the lookup held.
\<close>

theorem tokeniser_error_location:
  assumes "tokeniser_ready t ks" and "tokeniser_run t = Some t0" and "t' = t0\<lparr>t_line_lookup_cache := k\<rparr>"
    and "k < t_line_starts_size t0" and "tok_start tok = of_nat j" and "j \<le> length (t_text t)"
  shows "tokeniser_error t' tok =
    Some (of_nat (length (filter (line_end (t_base t)) [0..<j]) + 1), of_nat (j - last (line_list (t_base t) j) + 1))"
proof -
  let ?n = "length (t_text t)" and ?l = "length (filter (line_end (t_base t)) [0..<j])"
  have n: "?n + 2 \<le> 2 ^ 30" using assms(1) unfolding tokeniser_ready_def by blast
  obtain ks' where r: "run_result (t_base t) ?n t0 ks'"
    using tokeniser_run_returns [OF assms(1)] assms(2) by auto
  have ok: "lines_ok t'" using run_result_lines [OF r n] assms(3,4) by (simp add: lines_ok_def)
  have on: "on_line t' (of_nat j) ?l" and st: "t_line_starts t' ! ?l = of_nat (last (line_list (t_base t) j))"
    using run_result_on_line [OF r n assms(6)] assms(3) by (simp_all add: on_line_def)
  have "unat (of_nat j :: u32) = j" using n assms(6) by (intro unat_of_nat_32) simp
  then have off: "(of_nat j :: u32) < 0xffffffff" using n assms(6) by (simp add: word_less_nat_alt)
  obtain t'' l where l: "offset_to_line t' (of_nat j) = Some (t'', of_nat l)" "on_line t' (of_nat j) l"
    "t'' = t' \<or> t'' = t'\<lparr>t_line_lookup_cache := of_nat l\<rparr>"
    using offset_to_line_ok [OF ok off] by blast
  have ll: "l = ?l" by (rule on_line_unique [OF ok l(2) on])
  have lb: "?l < length (t_line_starts t')" using on ok by (simp add: on_line_def lines_ok_def)
  have "?l \<le> j" using length_filter_le [of _ "[0..<j]"] by (metis length_upt minus_nat.diff_0)
  then have ul: "unat (of_nat ?l :: u32) = ?l" using n assms(6) by (intro unat_of_nat_32) simp
  have le: "last (line_list (t_base t) j) \<le> j"
    by (rule line_list_bound [where base = "t_base t"], rule last_in_set) (simp add: line_list_def)
  have "t_line_starts t'' = t_line_starts t'" using l(3) by auto
  then show ?thesis
    using l(1) ll ul lb st le assms(5) by (simp add: tokeniser_error_def rd_def of_nat_diff)
qed

lemma tokeniser_error_location_witness:
  "\<exists>t'. tokeniser_run (sample [CHR ''a'', NL, CHR ''b'']) = Some t' \<and>
     tokeniser_error t' \<lparr>tok_type = 0, tok_start = 2, tok_end = 3\<rparr> = Some (2, 1)"
proof -
  let ?t = "sample [CHR ''a'', NL, CHR ''b'']"
  obtain t' ks' where t': "tokeniser_run ?t = Some t'" "run_result (t_base ?t) (length (t_text ?t)) t' ks'"
    using tokeniser_run_returns [OF sample_ready, of "[CHR ''a'', NL, CHR ''b'']"] by auto
  have "lines_ok t'" using run_result_lines [OF t'(2)] by (simp add: sample_def)
  then have c: "t_line_lookup_cache t' < t_line_starts_size t'" by (simp add: lines_ok_def)
  have e: "t_base ?t = [CHR ''a'', NL, CHR ''b'', NL, NUL]" by (simp add: t_base_def sample_def)
  have f: "filter (line_end (t_base ?t)) [0..<2] = [1]" by (simp add: e line_end_def upt_rec)
  have "tokeniser_error t' \<lparr>tok_type = 0, tok_start = 2, tok_end = 3\<rparr> =
    Some (of_nat (length (filter (line_end (t_base ?t)) [0..<2]) + 1), of_nat (2 - last (line_list (t_base ?t) 2) + 1))"
    by (rule tokeniser_error_location [OF sample_ready t'(1) _ c]) (simp_all add: sample_def)
  then show ?thesis using t'(1) f by (simp add: line_list_def)
qed

text \<open>
  Decoding a number token that holds no quote succeeds exactly when its text is a
  well-formed decimal, octal, hexadecimal or binary number, and then gives its value modulo
  \<open>2 ^ 64\<close>; a floating point number is refused.
\<close>

theorem tokeniser_decode_uint_correct:
  assumes "drop (unat (tok_start tok)) (t_base t) = s @ c # rest" and "s \<noteq> []" and "CHR 0x27 \<notin> set s"
    and "unat (tok_end tok) = unat (tok_start tok) + length s"
    and "\<not> has_flag c CF_PP_NUMBER" and "c \<noteq> CHR 0x27" and "is_digit (hd s) \<or> hd s = CHR ''.''"
  shows "\<exists>v. tokeniser_decode_uint t tok = Some (number_value s \<noteq> None, v) \<and>
    (number_value s \<noteq> None \<longrightarrow> v = number_value s)"
  using assms by (rule decode_uint_value)

lemma tokeniser_decode_uint_correct_witness:
  "tokeniser_decode_uint (sample ''0x1f'') \<lparr>tok_type = TOK_NUMBER, tok_start = 0, tok_end = 4\<rparr> = Some (True, Some 31)"
proof -
  have v: "number_value ''0x1f'' = Some 31" by code_simp
  have s: "\<not> has_flag NL CF_PP_NUMBER" by simp
  have d: "is_digit (hd ''0x1f'')" by code_simp
  show ?thesis
    using tokeniser_decode_uint_correct [of "\<lparr>tok_type = TOK_NUMBER, tok_start = 0, tok_end = 4\<rparr>"
        "sample ''0x1f''" "''0x1f''" NL "[NUL]"] v s d
    by (simp add: sample_def t_base_def)
qed

text \<open>
  C10: string literals round trip: where the text holds a quoted string, the switch produces
  one literal token from the opening to the closing quote, and decoding that token gives
  the string back, whatever characters it holds.
\<close>

theorem str_lit_round_trip:
  assumes "drop i (t_base t) = c0 # quote_str cs @ c0 # rest" and "c0 = CHR 0x22 \<or> c0 = CHR 0x27"
    and "length (t_base t) < 2 ^ 32"
  shows "\<exists>type e. lex (t_base t) n idents i = Some (Tok idents type e) \<and> e = i + length (quote_str cs) + 2 \<and>
    tokeniser_decode_str_lit t \<lparr>tok_type = type, tok_start = of_nat i, tok_end = of_nat e\<rparr> = Some (Some cs)"
proof -
  let ?lit = "if c0 = CHR 0x22 then TOK_STR_LIT else TOK_CHAR_LIT"
  let ?e = "i + length (quote_str cs) + 2"
  have "?e \<le> length (t_base t)" using arg_cong [OF assms(1), of length] by simp
  then have b: "?e < 2 ^ 32" using assms(3) by linarith
  then have u: "unat (of_nat i :: u32) = i" "unat (of_nat ?e :: u32) = ?e"
    by (intro unat_of_nat_32; linarith)+
  then have "tokeniser_decode_str_lit t
     \<lparr>tok_type = (if list_all (\<lambda>c. has_flag c CF_STR_BODY) cs then ?lit else ?lit OR 1),
      tok_start = of_nat i, tok_end = of_nat ?e\<rparr> = Some (Some cs)"
    using decode_quoted [of "of_nat i" t c0 cs rest "of_nat ?e" _ ?lit, OF _ _ refl] assms(1) by auto
  then show ?thesis using lex_quoted [OF assms(1,2)] by (auto simp: Let_def)
qed

lemma str_lit_round_trip_witness:
  "\<exists>type. lex (t_base (sample (CHR 0x22 # quote_str [CHR ''a'', NL] @ [CHR 0x22]))) 7 (sht_init 4) 0 =
      Some (Tok (sht_init 4) type 7)"
proof -
  have q: "length (quote_str [CHR ''a'', NL]) = 5" by code_simp
  show ?thesis
    using str_lit_round_trip [of 0 "sample (CHR 0x22 # quote_str [CHR ''a'', NL] @ [CHR 0x22])" "CHR 0x22"
       "[CHR ''a'', NL]" "[NL, NUL]" 7 "sht_init 4"] q
    by (auto simp: sample_def t_base_def)
qed

end
