(* ===== verification/Elf.thy ===== *)
theory Elf
  imports Bytes
begin

section \<open>elf.h: the ELF data structures\<close>

text \<open>
  The templates that nne_instantiator.h instantiates four times are polymorphic here: the
  word type \<open>'a\<close> is \<open>Elf_uNN\<close>, 32 or 64 bits wide, and a flag says whether the endianness
  of the file differs from that of the host. A struct is a record of its fields as they
  stand in memory, in the endianness of the file; a codec gives its bytes.
\<close>

subsection \<open>Constants\<close>

text \<open>File types and machines.\<close>

abbreviation (input) ET_EXEC :: "u16" where "ET_EXEC \<equiv> 2"
abbreviation (input) ET_DYN :: "u16" where "ET_DYN \<equiv> 3"
abbreviation (input) EM_SPARC :: "u16" where "EM_SPARC \<equiv> 2"
abbreviation (input) EM_386 :: "u16" where "EM_386 \<equiv> 3"
abbreviation (input) EM_MIPS :: "u16" where "EM_MIPS \<equiv> 8"
abbreviation (input) EM_MIPS_RS3_LE :: "u16" where "EM_MIPS_RS3_LE \<equiv> 10"
abbreviation (input) EM_ARM :: "u16" where "EM_ARM \<equiv> 40"
abbreviation (input) EM_SPARCV9 :: "u16" where "EM_SPARCV9 \<equiv> 43"
abbreviation (input) EM_IA_64 :: "u16" where "EM_IA_64 \<equiv> 50"
abbreviation (input) EM_X86_64 :: "u16" where "EM_X86_64 \<equiv> 62"
abbreviation (input) EM_AARCH64 :: "u16" where "EM_AARCH64 \<equiv> 183"
abbreviation (input) EM_TILEPRO :: "u16" where "EM_TILEPRO \<equiv> 188"
abbreviation (input) EM_TILEGX :: "u16" where "EM_TILEGX \<equiv> 191"
abbreviation (input) EM_ALPHA :: "u16" where "EM_ALPHA \<equiv> 0x9026"

text \<open>Relocation types.\<close>

abbreviation (input) R_386_NONE :: "'a::len word" where "R_386_NONE \<equiv> 0"
abbreviation (input) R_386_COPY :: "'a::len word" where "R_386_COPY \<equiv> 5"
abbreviation (input) R_386_JMP_SLOT :: "'a::len word" where "R_386_JMP_SLOT \<equiv> 7"
abbreviation (input) R_386_RELATIVE :: "'a::len word" where "R_386_RELATIVE \<equiv> 8"
abbreviation (input) R_386_TLS_TPOFF :: "'a::len word" where "R_386_TLS_TPOFF \<equiv> 14"
abbreviation (input) R_386_TLS_DTPMOD32 :: "'a::len word" where "R_386_TLS_DTPMOD32 \<equiv> 35"
abbreviation (input) R_386_TLS_DTPOFF32 :: "'a::len word" where "R_386_TLS_DTPOFF32 \<equiv> 36"
abbreviation (input) R_386_TLS_TPOFF32 :: "'a::len word" where "R_386_TLS_TPOFF32 \<equiv> 37"
abbreviation (input) R_386_TLS_DESC :: "'a::len word" where "R_386_TLS_DESC \<equiv> 41"
abbreviation (input) R_386_IRELATIVE :: "'a::len word" where "R_386_IRELATIVE \<equiv> 42"
abbreviation (input) R_MIPS_NONE :: "'a::len word" where "R_MIPS_NONE \<equiv> 0"
abbreviation (input) R_MIPS_JUMP_SLOT :: "'a::len word" where "R_MIPS_JUMP_SLOT \<equiv> 127"
abbreviation (input) R_MIPS_COPY :: "'a::len word" where "R_MIPS_COPY \<equiv> 126"
abbreviation (input) R_ARM_NONE :: "'a::len word" where "R_ARM_NONE \<equiv> 0"
abbreviation (input) R_ARM_TLS_DESC :: "'a::len word" where "R_ARM_TLS_DESC \<equiv> 13"
abbreviation (input) R_ARM_TLS_DTPMOD32 :: "'a::len word" where "R_ARM_TLS_DTPMOD32 \<equiv> 17"
abbreviation (input) R_ARM_TLS_DTPOFF32 :: "'a::len word" where "R_ARM_TLS_DTPOFF32 \<equiv> 18"
abbreviation (input) R_ARM_TLS_TPOFF32 :: "'a::len word" where "R_ARM_TLS_TPOFF32 \<equiv> 19"
abbreviation (input) R_ARM_COPY :: "'a::len word" where "R_ARM_COPY \<equiv> 20"
abbreviation (input) R_ARM_JUMP_SLOT :: "'a::len word" where "R_ARM_JUMP_SLOT \<equiv> 22"
abbreviation (input) R_ARM_RELATIVE :: "'a::len word" where "R_ARM_RELATIVE \<equiv> 23"
abbreviation (input) R_ARM_IRELATIVE :: "'a::len word" where "R_ARM_IRELATIVE \<equiv> 160"
abbreviation (input) R_X86_64_NONE :: "'a::len word" where "R_X86_64_NONE \<equiv> 0"
abbreviation (input) R_X86_64_PC32 :: "'a::len word" where "R_X86_64_PC32 \<equiv> 2"
abbreviation (input) R_X86_64_COPY :: "'a::len word" where "R_X86_64_COPY \<equiv> 5"
abbreviation (input) R_X86_64_GLOB_DAT :: "'a::len word" where "R_X86_64_GLOB_DAT \<equiv> 6"
abbreviation (input) R_X86_64_JUMP_SLOT :: "'a::len word" where "R_X86_64_JUMP_SLOT \<equiv> 7"
abbreviation (input) R_X86_64_RELATIVE :: "'a::len word" where "R_X86_64_RELATIVE \<equiv> 8"
abbreviation (input) R_X86_64_DTPMOD64 :: "'a::len word" where "R_X86_64_DTPMOD64 \<equiv> 16"
abbreviation (input) R_X86_64_DTPOFF64 :: "'a::len word" where "R_X86_64_DTPOFF64 \<equiv> 17"
abbreviation (input) R_X86_64_TPOFF64 :: "'a::len word" where "R_X86_64_TPOFF64 \<equiv> 18"
abbreviation (input) R_X86_64_TLSDESC :: "'a::len word" where "R_X86_64_TLSDESC \<equiv> 36"
abbreviation (input) R_X86_64_IRELATIVE :: "'a::len word" where "R_X86_64_IRELATIVE \<equiv> 37"
abbreviation (input) R_X86_64_RELATIVE64 :: "'a::len word" where "R_X86_64_RELATIVE64 \<equiv> 38"
abbreviation (input) R_AARCH64_NONE :: "'a::len word" where "R_AARCH64_NONE \<equiv> 0"
abbreviation (input) R_AARCH64_P32_COPY :: "'a::len word" where "R_AARCH64_P32_COPY \<equiv> 180"
abbreviation (input) R_AARCH64_P32_JUMP_SLOT :: "'a::len word" where "R_AARCH64_P32_JUMP_SLOT \<equiv> 182"
abbreviation (input) R_AARCH64_P32_RELATIVE :: "'a::len word" where "R_AARCH64_P32_RELATIVE \<equiv> 183"
abbreviation (input) R_AARCH64_P32_TLS_DTPMOD :: "'a::len word" where "R_AARCH64_P32_TLS_DTPMOD \<equiv> 184"
abbreviation (input) R_AARCH64_P32_TLS_DTPREL :: "'a::len word" where "R_AARCH64_P32_TLS_DTPREL \<equiv> 185"
abbreviation (input) R_AARCH64_P32_TLS_TPREL :: "'a::len word" where "R_AARCH64_P32_TLS_TPREL \<equiv> 186"
abbreviation (input) R_AARCH64_P32_TLSDESC :: "'a::len word" where "R_AARCH64_P32_TLSDESC \<equiv> 187"
abbreviation (input) R_AARCH64_P32_IRELATIVE :: "'a::len word" where "R_AARCH64_P32_IRELATIVE \<equiv> 188"
abbreviation (input) R_AARCH64_COPY :: "'a::len word" where "R_AARCH64_COPY \<equiv> 1024"
abbreviation (input) R_AARCH64_GLOB_DAT :: "'a::len word" where "R_AARCH64_GLOB_DAT \<equiv> 1025"
abbreviation (input) R_AARCH64_JUMP_SLOT :: "'a::len word" where "R_AARCH64_JUMP_SLOT \<equiv> 1026"
abbreviation (input) R_AARCH64_RELATIVE :: "'a::len word" where "R_AARCH64_RELATIVE \<equiv> 1027"
abbreviation (input) R_AARCH64_TLS_DTPMOD :: "'a::len word" where "R_AARCH64_TLS_DTPMOD \<equiv> 1028"
abbreviation (input) R_AARCH64_TLS_DTPREL :: "'a::len word" where "R_AARCH64_TLS_DTPREL \<equiv> 1029"
abbreviation (input) R_AARCH64_TLS_TPREL :: "'a::len word" where "R_AARCH64_TLS_TPREL \<equiv> 1030"
abbreviation (input) R_AARCH64_TLSDESC :: "'a::len word" where "R_AARCH64_TLSDESC \<equiv> 1031"
abbreviation (input) R_AARCH64_IRELATIVE :: "'a::len word" where "R_AARCH64_IRELATIVE \<equiv> 1032"

text \<open>Program headers.\<close>

abbreviation (input) PT_NULL :: "u32" where "PT_NULL \<equiv> 0"
abbreviation (input) PT_LOAD :: "u32" where "PT_LOAD \<equiv> 1"
abbreviation (input) PT_DYNAMIC :: "u32" where "PT_DYNAMIC \<equiv> 2"
abbreviation (input) PT_INTERP :: "u32" where "PT_INTERP \<equiv> 3"
abbreviation (input) PT_NOTE :: "u32" where "PT_NOTE \<equiv> 4"
abbreviation (input) PT_PHDR :: "u32" where "PT_PHDR \<equiv> 6"
abbreviation (input) PT_GNU_EH_FRAME :: "u32" where "PT_GNU_EH_FRAME \<equiv> 0x6474e550"
abbreviation (input) PT_GNU_STACK :: "u32" where "PT_GNU_STACK \<equiv> 0x6474e551"
abbreviation (input) PT_GNU_RELRO :: "u32" where "PT_GNU_RELRO \<equiv> 0x6474e552"
abbreviation (input) PF_X :: "u32" where "PF_X \<equiv> 1"
abbreviation (input) PF_W :: "u32" where "PF_W \<equiv> 2"
abbreviation (input) PF_R :: "u32" where "PF_R \<equiv> 4"

text \<open>Dynamic section tags and flags.\<close>

abbreviation (input) DT_NULL :: "'a::len word" where "DT_NULL \<equiv> 0"
abbreviation (input) DT_NEEDED :: "'a::len word" where "DT_NEEDED \<equiv> 1"
abbreviation (input) DT_PLTRELSZ :: "'a::len word" where "DT_PLTRELSZ \<equiv> 2"
abbreviation (input) DT_PLTGOT :: "'a::len word" where "DT_PLTGOT \<equiv> 3"
abbreviation (input) DT_HASH :: "'a::len word" where "DT_HASH \<equiv> 4"
abbreviation (input) DT_STRTAB :: "'a::len word" where "DT_STRTAB \<equiv> 5"
abbreviation (input) DT_SYMTAB :: "'a::len word" where "DT_SYMTAB \<equiv> 6"
abbreviation (input) DT_RELA :: "'a::len word" where "DT_RELA \<equiv> 7"
abbreviation (input) DT_RELASZ :: "'a::len word" where "DT_RELASZ \<equiv> 8"
abbreviation (input) DT_RELAENT :: "'a::len word" where "DT_RELAENT \<equiv> 9"
abbreviation (input) DT_STRSZ :: "'a::len word" where "DT_STRSZ \<equiv> 10"
abbreviation (input) DT_INIT :: "'a::len word" where "DT_INIT \<equiv> 12"
abbreviation (input) DT_FINI :: "'a::len word" where "DT_FINI \<equiv> 13"
abbreviation (input) DT_SONAME :: "'a::len word" where "DT_SONAME \<equiv> 14"
abbreviation (input) DT_RPATH :: "'a::len word" where "DT_RPATH \<equiv> 15"
abbreviation (input) DT_SYMBOLIC :: "'a::len word" where "DT_SYMBOLIC \<equiv> 16"
abbreviation (input) DT_REL :: "'a::len word" where "DT_REL \<equiv> 17"
abbreviation (input) DT_RELSZ :: "'a::len word" where "DT_RELSZ \<equiv> 18"
abbreviation (input) DT_RELENT :: "'a::len word" where "DT_RELENT \<equiv> 19"
abbreviation (input) DT_PLTREL :: "'a::len word" where "DT_PLTREL \<equiv> 20"
abbreviation (input) DT_DEBUG :: "'a::len word" where "DT_DEBUG \<equiv> 21"
abbreviation (input) DT_TEXTREL :: "'a::len word" where "DT_TEXTREL \<equiv> 22"
abbreviation (input) DT_JMPREL :: "'a::len word" where "DT_JMPREL \<equiv> 23"
abbreviation (input) DT_BIND_NOW :: "'a::len word" where "DT_BIND_NOW \<equiv> 24"
abbreviation (input) DT_RUNPATH :: "'a::len word" where "DT_RUNPATH \<equiv> 29"
abbreviation (input) DT_FLAGS :: "'a::len word" where "DT_FLAGS \<equiv> 30"
abbreviation (input) DT_RELRSZ :: "'a::len word" where "DT_RELRSZ \<equiv> 35"
abbreviation (input) DT_RELR :: "'a::len word" where "DT_RELR \<equiv> 36"
abbreviation (input) DT_RELRENT :: "'a::len word" where "DT_RELRENT \<equiv> 37"
abbreviation (input) DT_GNU_CONFLICTSZ :: "'a::len word" where "DT_GNU_CONFLICTSZ \<equiv> 0x6ffffdf6"
abbreviation (input) DT_GNU_LIBLISTSZ :: "'a::len word" where "DT_GNU_LIBLISTSZ \<equiv> 0x6ffffdf7"
abbreviation (input) DT_GNU_HASH :: "'a::len word" where "DT_GNU_HASH \<equiv> 0x6ffffef5"
abbreviation (input) DT_GNU_CONFLICT :: "'a::len word" where "DT_GNU_CONFLICT \<equiv> 0x6ffffef8"
abbreviation (input) DT_GNU_LIBLIST :: "'a::len word" where "DT_GNU_LIBLIST \<equiv> 0x6ffffef9"
abbreviation (input) DT_DEPAUDIT :: "'a::len word" where "DT_DEPAUDIT \<equiv> 0x6ffffefb"
abbreviation (input) DT_AUDIT :: "'a::len word" where "DT_AUDIT \<equiv> 0x6ffffefc"
abbreviation (input) DT_VERSYM :: "'a::len word" where "DT_VERSYM \<equiv> 0x6ffffff0"
abbreviation (input) DT_FLAGS_1 :: "'a::len word" where "DT_FLAGS_1 \<equiv> 0x6ffffffb"
abbreviation (input) DT_VERDEF :: "'a::len word" where "DT_VERDEF \<equiv> 0x6ffffffc"
abbreviation (input) DT_VERDEFNUM :: "'a::len word" where "DT_VERDEFNUM \<equiv> 0x6ffffffd"
abbreviation (input) DT_VERNEED :: "'a::len word" where "DT_VERNEED \<equiv> 0x6ffffffe"
abbreviation (input) DT_VERNEEDNUM :: "'a::len word" where "DT_VERNEEDNUM \<equiv> 0x6fffffff"
abbreviation (input) DT_X86_64_PLTENT :: "'a::len word" where "DT_X86_64_PLTENT \<equiv> 0x70000003"
abbreviation (input) DT_MIPS_LOCAL_GOTNO :: "'a::len word" where "DT_MIPS_LOCAL_GOTNO \<equiv> 0x7000000a"
abbreviation (input) DT_MIPS_SYMTABNO :: "'a::len word" where "DT_MIPS_SYMTABNO \<equiv> 0x70000011"
abbreviation (input) DT_MIPS_GOTSYM :: "'a::len word" where "DT_MIPS_GOTSYM \<equiv> 0x70000013"
abbreviation (input) DT_AUXILIARY :: "'a::len word" where "DT_AUXILIARY \<equiv> 0x7ffffffd"
abbreviation (input) DT_FILTER :: "'a::len word" where "DT_FILTER \<equiv> 0x7fffffff"
abbreviation (input) DF_SYMBOLIC :: "'a::len word" where "DF_SYMBOLIC \<equiv> 0x00000002"
abbreviation (input) DF_TEXTREL :: "'a::len word" where "DF_TEXTREL \<equiv> 0x00000004"
abbreviation (input) DF_BIND_NOW :: "'a::len word" where "DF_BIND_NOW \<equiv> 0x00000008"
abbreviation (input) DF_1_NOW :: "'a::len word" where "DF_1_NOW \<equiv> 0x00000001"
abbreviation (input) DF_1_NODELETE :: "'a::len word" where "DF_1_NODELETE \<equiv> 0x00000008"

text \<open>Version flags.\<close>

abbreviation (input) VER_FLG_BASE :: "u16" where "VER_FLG_BASE \<equiv> 0x1"
abbreviation (input) VER_FLG_WEAK :: "u16" where "VER_FLG_WEAK \<equiv> 0x2"

text \<open>Sections.\<close>

abbreviation (input) SHN_UNDEF :: "u16" where "SHN_UNDEF \<equiv> 0"
abbreviation (input) SHN_ABS :: "u16" where "SHN_ABS \<equiv> 0xfff1"
abbreviation (input) SHN_COMMON :: "u16" where "SHN_COMMON \<equiv> 0xfff2"
abbreviation (input) SHT_PROGBITS :: "u32" where "SHT_PROGBITS \<equiv> 1"
abbreviation (input) SHT_SYMTAB :: "u32" where "SHT_SYMTAB \<equiv> 2"
abbreviation (input) SHT_STRTAB :: "u32" where "SHT_STRTAB \<equiv> 3"
abbreviation (input) SHT_RELA :: "u32" where "SHT_RELA \<equiv> 4"
abbreviation (input) SHT_HASH :: "u32" where "SHT_HASH \<equiv> 5"
abbreviation (input) SHT_DYNAMIC :: "u32" where "SHT_DYNAMIC \<equiv> 6"
abbreviation (input) SHT_REL :: "u32" where "SHT_REL \<equiv> 9"
abbreviation (input) SHT_DYNSYM :: "u32" where "SHT_DYNSYM \<equiv> 11"
abbreviation (input) SHT_GNU_HASH :: "u32" where "SHT_GNU_HASH \<equiv> 0x6ffffff6"
abbreviation (input) SHT_GNU_verdef :: "u32" where "SHT_GNU_verdef \<equiv> 0x6ffffffd"
abbreviation (input) SHT_GNU_verneed :: "u32" where "SHT_GNU_verneed \<equiv> 0x6ffffffe"
abbreviation (input) SHT_GNU_versym :: "u32" where "SHT_GNU_versym \<equiv> 0x6fffffff"
abbreviation (input) SHF_WRITE :: "'a::len word" where "SHF_WRITE \<equiv> 0x01"
abbreviation (input) SHF_ALLOC :: "'a::len word" where "SHF_ALLOC \<equiv> 0x02"
abbreviation (input) SHF_EXECINSTR :: "'a::len word" where "SHF_EXECINSTR \<equiv> 0x04"

text \<open>Symbols.\<close>

abbreviation (input) STT_NOTYPE :: "u8" where "STT_NOTYPE \<equiv> 0"
abbreviation (input) STT_OBJECT :: "u8" where "STT_OBJECT \<equiv> 1"
abbreviation (input) STT_FUNC :: "u8" where "STT_FUNC \<equiv> 2"
abbreviation (input) STT_SECTION :: "u8" where "STT_SECTION \<equiv> 3"
abbreviation (input) STT_FILE :: "u8" where "STT_FILE \<equiv> 4"
abbreviation (input) STT_COMMON :: "u8" where "STT_COMMON \<equiv> 5"
abbreviation (input) STT_TLS :: "u8" where "STT_TLS \<equiv> 6"
abbreviation (input) STT_GNU_IFUNC :: "u8" where "STT_GNU_IFUNC \<equiv> 10"
abbreviation (input) STB_LOCAL :: "u8" where "STB_LOCAL \<equiv> 0"
abbreviation (input) STB_GLOBAL :: "u8" where "STB_GLOBAL \<equiv> 1"
abbreviation (input) STB_WEAK :: "u8" where "STB_WEAK \<equiv> 2"
abbreviation (input) STB_GNU_UNIQUE :: "u8" where "STB_GNU_UNIQUE \<equiv> 10"
abbreviation (input) STV_INTERNAL :: "u8" where "STV_INTERNAL \<equiv> 1"
abbreviation (input) STV_HIDDEN :: "u8" where "STV_HIDDEN \<equiv> 2"
abbreviation (input) STO_MIPS_PLT :: "u8" where "STO_MIPS_PLT \<equiv> 8"

subsection \<open>Words in file endianness\<close>

text \<open>
  \<open>__builtin_bswap16/32/64\<close>: bit \<open>n\<close> of the result is the same bit of the mirrored byte. A
  width that is no whole number of bytes does not occur and is left alone.
\<close>

definition mirror_bit :: "nat \<Rightarrow> nat \<Rightarrow> nat" where
  "mirror_bit len n = len - 8 * (n div 8 + 1) + n mod 8"

definition bswap :: "'a::len word \<Rightarrow> 'a word" where
  "bswap w = (if 8 dvd LENGTH('a)
     then horner_sum of_bool 2 (map (\<lambda>n. bit w (mirror_bit LENGTH('a) n)) [0..<LENGTH('a)]) else w)"

text \<open>\<open>Elf_bswapu16\<close>, \<open>Elf_bswapu32\<close>, \<open>Elf_bswapuNN\<close>: between the host's and the file's order.\<close>

definition esw :: "bool \<Rightarrow> 'a::len word \<Rightarrow> 'a word" where
  "esw bs w = (if bs then bswap w else w)"

lemma mirror_bit_less: "8 dvd len \<Longrightarrow> n < len \<Longrightarrow> mirror_bit len n < len"
proof -
  assume "8 dvd len" "n < len"
  then have "n div 8 < len div 8" by (metis dvd_mult_div_cancel less_mult_imp_div_less mult.commute)
  then have "8 * (n div 8 + 1) \<le> 8 * (len div 8)" by simp
  then have "8 * (n div 8 + 1) \<le> len" using \<open>8 dvd len\<close> by simp
  moreover have "n mod 8 < 8 * (n div 8 + 1)" by (rule less_le_trans [of _ 8]) simp_all
  ultimately show ?thesis unfolding mirror_bit_def by linarith
qed

lemma mirror_bit_twice: "8 dvd len \<Longrightarrow> n < len \<Longrightarrow> mirror_bit len (mirror_bit len n) = n"
proof -
  assume d: "8 dvd len" and n: "n < len"
  then obtain k where k: "len = 8 * k" by (auto simp: dvd_def)
  have q: "n div 8 < k" using n k by (simp add: less_mult_imp_div_less)
  have m: "mirror_bit len n = 8 * (k - 1 - n div 8) + n mod 8"
    using q by (simp add: mirror_bit_def k diff_mult_distrib2)
  have "mirror_bit len n div 8 = k - 1 - n div 8" "mirror_bit len n mod 8 = n mod 8"
    unfolding m by simp_all
  then have "mirror_bit len (mirror_bit len n) = 8 * (k - 1 - (k - 1 - n div 8)) + n mod 8"
    using q by (simp add: mirror_bit_def k diff_mult_distrib2)
  also have "k - 1 - (k - 1 - n div 8) = n div 8" using q by linarith
  finally show ?thesis by simp
qed

lemma bit_bswap:
  "bit (bswap w) n \<longleftrightarrow> n < LENGTH('a) \<and> bit w (if 8 dvd LENGTH('a) then mirror_bit LENGTH('a) n else n)"
  for w :: "'a::len word"
  by (auto simp: bswap_def bit_horner_sum_bit_word_iff dest: bit_imp_le_length)

lemma bswap_bswap [simp]: "bswap (bswap w) = w"
  by (rule bit_word_eqI) (auto simp: bit_bswap mirror_bit_less mirror_bit_twice)

lemma esw_esw [simp]: "esw bs (esw bs w) = w"
  by (simp add: esw_def)

lemma esw_inj [simp]: "esw bs v = esw bs w \<longleftrightarrow> v = w"
  by (metis esw_esw)

lemma esw_eq_iff: "esw bs v = w \<longleftrightarrow> v = esw bs w"
  by (metis esw_esw)

lemma bswap_0 [simp]: "bswap 0 = 0"
  by (rule bit_word_eqI) (simp add: bit_bswap)

lemma esw_0 [simp]: "esw bs 0 = 0"
  by (simp add: esw_def)

lemma esw_eq_0 [simp]: "esw bs w = 0 \<longleftrightarrow> w = 0" "0 = esw bs w \<longleftrightarrow> w = 0"
  by (metis esw_0 esw_inj)+

subsection \<open>Words as bytes\<close>

definition word_size :: "'a::len itself \<Rightarrow> nat" where
  "word_size _ = (LENGTH('a) + 7) div 8"

definition word_bytes :: "'a::len word \<Rightarrow> u8 list" where
  "word_bytes w = map (\<lambda>i. ucast (drop_bit (8 * i) w)) [0..<word_size TYPE('a)]"

definition word_of_bytes :: "u8 list \<Rightarrow> 'a::len word" where
  "word_of_bytes bs = foldr (\<lambda>b acc. ucast b OR push_bit 8 acc) bs 0"

lemma length_word_bytes [simp]: "length (word_bytes (w :: 'a::len word)) = word_size TYPE('a)"
  by (simp add: word_bytes_def)

lemma word_size_values [simp]:
  "word_size TYPE(8) = 1" "word_size TYPE(16) = 2" "word_size TYPE(32) = 4" "word_size TYPE(64) = 8"
  "word_size TYPE(128) = 16"
  by (simp_all add: word_size_def)

lemma word_size_pos [simp]: "0 < word_size TYPE('a::len)"
proof -
  have "1 \<le> LENGTH('a)" by (simp add: Suc_leI)
  then have "8 \<le> LENGTH('a) + 7" by linarith
  then show ?thesis unfolding word_size_def by (simp add: div_greater_zero_iff)
qed

lemma bit_word_of_bytes:
  "bit (word_of_bytes bs :: 'a::len word) n \<longleftrightarrow> n < LENGTH('a) \<and> n div 8 < length bs \<and> bit (bs ! (n div 8)) (n mod 8)"
proof (induction bs arbitrary: n)
  case Nil
  then show ?case by (simp add: word_of_bytes_def)
next
  case (Cons b bs)
  have step: "(word_of_bytes (b # bs) :: 'a word) = ucast b OR push_bit 8 (word_of_bytes bs)"
    by (simp add: word_of_bytes_def)
  show ?case
  proof (cases "n < 8")
    case True
    then show ?thesis unfolding step by (auto simp: bit_simps)
  next
    case False
    then have "n div 8 = Suc ((n - 8) div 8)" "n mod 8 = (n - 8) mod 8"
      by (simp_all add: le_div_geq le_mod_geq not_less)
    moreover have "\<not> bit b n" using False bit_imp_le_length [of b n] by auto
    ultimately show ?thesis using False Cons.IH [of "n - 8"] unfolding step by (auto simp: bit_simps)
  qed
qed

lemma word_of_word_bytes [simp]: "word_of_bytes (word_bytes w) = w"
proof (rule bit_word_eqI)
  fix n assume n: "n < LENGTH('a)"
  have "n div 8 < word_size TYPE('a)" using n unfolding word_size_def by linarith
  moreover have "8 * (n div 8) + n mod 8 = n" by simp
  ultimately show "bit (word_of_bytes (word_bytes w) :: 'a word) n = bit w n"
    using n by (simp add: bit_word_of_bytes word_bytes_def bit_simps)
qed

text \<open>The word of type \<open>'b\<close> at an offset of a byte list.\<close>

definition field :: "nat \<Rightarrow> u8 list \<Rightarrow> 'b::len word" where
  "field n bs = word_of_bytes (take (word_size TYPE('b)) (drop n bs))"

lemma field_here [simp]: "field 0 (word_bytes w @ bs) = w"
  by (simp add: field_def)

lemma field_here_end [simp]: "field 0 (word_bytes w) = w"
  by (simp add: field_def)

lemma field_later:
  "length bs \<le> n \<Longrightarrow> field n (bs @ cs) = field (n - length bs) cs"
  by (simp add: field_def)

subsection \<open>Structs\<close>

text \<open>\<open>'w\<close> is the type of the words, \<open>32 word\<close> or \<open>64 word\<close>.\<close>

record 'w ehdr =
  e_ident :: "128 word"
  e_type :: u16
  e_mach :: u16
  e_version :: u32
  e_entry :: 'w
  e_phoff :: 'w
  e_shoff :: 'w
  e_flags :: u32
  e_ehsize :: u16
  e_phentsize :: u16
  e_phnum :: u16
  e_shentsize :: u16
  e_shnum :: u16
  e_shstrndx :: u16

record 'w shdr =
  sh_name :: u32
  sh_type :: u32
  sh_flags :: 'w
  sh_addr :: 'w
  sh_offset :: 'w
  sh_size :: 'w
  sh_link :: u32
  sh_info :: u32
  sh_addralign :: 'w
  sh_entsize :: 'w

record 'w phdr =
  p_type :: u32
  p_flags :: u32
  p_offset :: 'w
  p_vaddr :: 'w
  p_paddr :: 'w
  p_filesz :: 'w
  p_memsz :: 'w
  p_align :: 'w

record 'w dyn =
  d_tag :: 'w
  d_val :: 'w

record 'w sym =
  st_name :: u32
  st_info :: u8
  st_other :: u8
  st_shndx :: u16
  st_value :: 'w
  st_size :: 'w

record verdef =
  vd_version :: u16
  vd_flags :: u16
  vd_ndx :: u16
  vd_cnt :: u16
  vd_hash :: u32
  vd_aux :: u32
  vd_next :: u32

record verdaux =
  vda_name :: u32
  vda_next :: u32

record verneed =
  vn_version :: u16
  vn_cnt :: u16
  vn_file :: u32
  vn_aux :: u32
  vn_next :: u32

record vernaux =
  vna_hash :: u32
  vna_flags :: u16
  vna_other :: u16
  vna_name :: u32
  vna_next :: u32

text \<open>A codec: the size of a struct, its bytes, and the struct its bytes hold.\<close>

record 'e codec =
  c_size :: nat
  c_enc :: "'e \<Rightarrow> u8 list"
  c_dec :: "u8 list \<Rightarrow> 'e"

definition dyn_codec :: "'a::len word dyn codec" where
  "dyn_codec = \<lparr>c_size = 2 * word_size TYPE('a),
     c_enc = (\<lambda>d. word_bytes (d_tag d) @ word_bytes (d_val d)),
     c_dec = (\<lambda>bs. \<lparr>d_tag = field 0 bs, d_val = field (word_size TYPE('a)) bs\<rparr>)\<rparr>"

definition ehdr_codec :: "'a::len word ehdr codec" where
  "ehdr_codec = (let w = word_size TYPE('a) in
     \<lparr>c_size = 40 + 3 * w,
      c_enc = (\<lambda>h. word_bytes (e_ident h) @ word_bytes (e_type h) @ word_bytes (e_mach h) @ word_bytes (e_version h) @
        word_bytes (e_entry h) @ word_bytes (e_phoff h) @ word_bytes (e_shoff h) @ word_bytes (e_flags h) @
        word_bytes (e_ehsize h) @ word_bytes (e_phentsize h) @ word_bytes (e_phnum h) @ word_bytes (e_shentsize h) @
        word_bytes (e_shnum h) @ word_bytes (e_shstrndx h)),
      c_dec = (\<lambda>bs. \<lparr>e_ident = field 0 bs, e_type = field 16 bs, e_mach = field 18 bs, e_version = field 20 bs,
        e_entry = field 24 bs, e_phoff = field (24 + w) bs, e_shoff = field (24 + 2 * w) bs,
        e_flags = field (24 + 3 * w) bs, e_ehsize = field (28 + 3 * w) bs, e_phentsize = field (30 + 3 * w) bs,
        e_phnum = field (32 + 3 * w) bs, e_shentsize = field (34 + 3 * w) bs, e_shnum = field (36 + 3 * w) bs,
        e_shstrndx = field (38 + 3 * w) bs\<rparr>)\<rparr>)"

definition shdr_codec :: "'a::len word shdr codec" where
  "shdr_codec = (let w = word_size TYPE('a) in
     \<lparr>c_size = 16 + 6 * w,
      c_enc = (\<lambda>s. word_bytes (sh_name s) @ word_bytes (sh_type s) @ word_bytes (sh_flags s) @ word_bytes (sh_addr s) @
        word_bytes (sh_offset s) @ word_bytes (sh_size s) @ word_bytes (sh_link s) @ word_bytes (sh_info s) @
        word_bytes (sh_addralign s) @ word_bytes (sh_entsize s)),
      c_dec = (\<lambda>bs. \<lparr>sh_name = field 0 bs, sh_type = field 4 bs, sh_flags = field 8 bs, sh_addr = field (8 + w) bs,
        sh_offset = field (8 + 2 * w) bs, sh_size = field (8 + 3 * w) bs, sh_link = field (8 + 4 * w) bs,
        sh_info = field (12 + 4 * w) bs, sh_addralign = field (16 + 4 * w) bs, sh_entsize = field (16 + 5 * w) bs\<rparr>)\<rparr>)"

text \<open>In the 64-bit layouts \<open>p_flags\<close> follows \<open>p_type\<close>, and \<open>st_value\<close> and \<open>st_size\<close> end the symbol.\<close>

definition phdr_codec :: "'a::len word phdr codec" where
  "phdr_codec = (let w = word_size TYPE('a) in
     \<lparr>c_size = 8 + 6 * w,
      c_enc = (\<lambda>p. if LENGTH('a) = 64
        then word_bytes (p_type p) @ word_bytes (p_flags p) @ word_bytes (p_offset p) @ word_bytes (p_vaddr p) @
          word_bytes (p_paddr p) @ word_bytes (p_filesz p) @ word_bytes (p_memsz p) @ word_bytes (p_align p)
        else word_bytes (p_type p) @ word_bytes (p_offset p) @ word_bytes (p_vaddr p) @ word_bytes (p_paddr p) @
          word_bytes (p_filesz p) @ word_bytes (p_memsz p) @ word_bytes (p_flags p) @ word_bytes (p_align p)),
      c_dec = (\<lambda>bs. if LENGTH('a) = 64
        then \<lparr>p_type = field 0 bs, p_flags = field 4 bs, p_offset = field 8 bs, p_vaddr = field (8 + w) bs,
          p_paddr = field (8 + 2 * w) bs, p_filesz = field (8 + 3 * w) bs, p_memsz = field (8 + 4 * w) bs,
          p_align = field (8 + 5 * w) bs\<rparr>
        else \<lparr>p_type = field 0 bs, p_flags = field (4 + 5 * w) bs, p_offset = field 4 bs, p_vaddr = field (4 + w) bs,
          p_paddr = field (4 + 2 * w) bs, p_filesz = field (4 + 3 * w) bs, p_memsz = field (4 + 4 * w) bs,
          p_align = field (8 + 5 * w) bs\<rparr>)\<rparr>)"

definition sym_codec :: "'a::len word sym codec" where
  "sym_codec = (let w = word_size TYPE('a) in
     \<lparr>c_size = 8 + 2 * w,
      c_enc = (\<lambda>s. if LENGTH('a) = 64
        then word_bytes (st_name s) @ word_bytes (st_info s) @ word_bytes (st_other s) @ word_bytes (st_shndx s) @
          word_bytes (st_value s) @ word_bytes (st_size s)
        else word_bytes (st_name s) @ word_bytes (st_value s) @ word_bytes (st_size s) @ word_bytes (st_info s) @
          word_bytes (st_other s) @ word_bytes (st_shndx s)),
      c_dec = (\<lambda>bs. if LENGTH('a) = 64
        then \<lparr>st_name = field 0 bs, st_info = field 4 bs, st_other = field 5 bs, st_shndx = field 6 bs,
          st_value = field 8 bs, st_size = field (8 + w) bs\<rparr>
        else \<lparr>st_name = field 0 bs, st_info = field (4 + 2 * w) bs, st_other = field (5 + 2 * w) bs,
          st_shndx = field (6 + 2 * w) bs, st_value = field 4 bs, st_size = field (4 + w) bs\<rparr>)\<rparr>)"

definition u16_codec :: "u16 codec" where
  "u16_codec = \<lparr>c_size = 2, c_enc = word_bytes, c_dec = field 0\<rparr>"

definition verdef_codec :: "verdef codec" where
  "verdef_codec = \<lparr>c_size = 20,
     c_enc = (\<lambda>v. word_bytes (vd_version v) @ word_bytes (vd_flags v) @ word_bytes (vd_ndx v) @ word_bytes (vd_cnt v) @
       word_bytes (vd_hash v) @ word_bytes (vd_aux v) @ word_bytes (vd_next v)),
     c_dec = (\<lambda>bs. \<lparr>vd_version = field 0 bs, vd_flags = field 2 bs, vd_ndx = field 4 bs, vd_cnt = field 6 bs,
       vd_hash = field 8 bs, vd_aux = field 12 bs, vd_next = field 16 bs\<rparr>)\<rparr>"

definition verdaux_codec :: "verdaux codec" where
  "verdaux_codec = \<lparr>c_size = 8,
     c_enc = (\<lambda>v. word_bytes (vda_name v) @ word_bytes (vda_next v)),
     c_dec = (\<lambda>bs. \<lparr>vda_name = field 0 bs, vda_next = field 4 bs\<rparr>)\<rparr>"

definition verneed_codec :: "verneed codec" where
  "verneed_codec = \<lparr>c_size = 16,
     c_enc = (\<lambda>v. word_bytes (vn_version v) @ word_bytes (vn_cnt v) @ word_bytes (vn_file v) @ word_bytes (vn_aux v) @
       word_bytes (vn_next v)),
     c_dec = (\<lambda>bs. \<lparr>vn_version = field 0 bs, vn_cnt = field 2 bs, vn_file = field 4 bs, vn_aux = field 8 bs,
       vn_next = field 12 bs\<rparr>)\<rparr>"

definition vernaux_codec :: "vernaux codec" where
  "vernaux_codec = \<lparr>c_size = 16,
     c_enc = (\<lambda>v. word_bytes (vna_hash v) @ word_bytes (vna_flags v) @ word_bytes (vna_other v) @ word_bytes (vna_name v) @
       word_bytes (vna_next v)),
     c_dec = (\<lambda>bs. \<lparr>vna_hash = field 0 bs, vna_flags = field 4 bs, vna_other = field 6 bs, vna_name = field 8 bs,
       vna_next = field 12 bs\<rparr>)\<rparr>"

text \<open>What a codec has to satisfy for arrays of its struct to behave as lists.\<close>

definition codec_ok :: "'e codec \<Rightarrow> bool" where
  "codec_ok c \<longleftrightarrow> 0 < c_size c \<and> (\<forall>e. length (c_enc c e) = c_size c \<and> c_dec c (c_enc c e) = e)"

lemma codecs_ok:
  "codec_ok (dyn_codec :: 'a::len word dyn codec)" "codec_ok (phdr_codec :: 'a word phdr codec)"
  "codec_ok (sym_codec :: 'a word sym codec)" "codec_ok u16_codec"
  "codec_ok verdef_codec" "codec_ok verdaux_codec" "codec_ok verneed_codec" "codec_ok vernaux_codec"
  "codec_ok (ehdr_codec :: 'a word ehdr codec)" "codec_ok (shdr_codec :: 'a word shdr codec)"
  by (auto simp: codec_ok_def ehdr_codec_def shdr_codec_def dyn_codec_def phdr_codec_def sym_codec_def u16_codec_def verdef_codec_def
      verdaux_codec_def verneed_codec_def vernaux_codec_def Let_def field_later)

end
