(* ===== verification/RelocKind.thy ===== *)
theory RelocKind
  imports Elf
begin

section \<open>reloc_kind.c: the categories of relocations\<close>

text \<open>
  The enum is ordered as its constants are declared: every category above
  \<open>reloc_kind_no_symbol_lookup\<close> makes the dynamic loader look a symbol up.
\<close>

datatype reloc_kind =
    reloc_kind_noop
  | reloc_kind_no_symbol_lookup
  | reloc_kind_lookup_result_unused
  | reloc_kind_regular
  | reloc_kind_class_plt
  | reloc_kind_class_copy

fun reloc_kind_rank :: "reloc_kind \<Rightarrow> nat" where
  "reloc_kind_rank reloc_kind_noop = 0"
| "reloc_kind_rank reloc_kind_no_symbol_lookup = 1"
| "reloc_kind_rank reloc_kind_lookup_result_unused = 2"
| "reloc_kind_rank reloc_kind_regular = 3"
| "reloc_kind_rank reloc_kind_class_plt = 4"
| "reloc_kind_rank reloc_kind_class_copy = 5"

lemma reloc_kind_rank_inj: "reloc_kind_rank k = reloc_kind_rank l \<Longrightarrow> k = l"
  by (cases k; cases l) simp_all

instantiation reloc_kind :: linorder
begin

definition less_eq_reloc_kind :: "reloc_kind \<Rightarrow> reloc_kind \<Rightarrow> bool" where
  "less_eq_reloc_kind k l \<longleftrightarrow> reloc_kind_rank k \<le> reloc_kind_rank l"

definition less_reloc_kind :: "reloc_kind \<Rightarrow> reloc_kind \<Rightarrow> bool" where
  "less_reloc_kind k l \<longleftrightarrow> reloc_kind_rank k < reloc_kind_rank l"

instance
  by standard (auto simp: less_eq_reloc_kind_def less_reloc_kind_def intro: reloc_kind_rank_inj)

end

definition reloc_kind_classifier_386 :: "u32 \<Rightarrow> reloc_kind" where
  "reloc_kind_classifier_386 type = (let t = type AND 0xff in
     if t = R_386_NONE then reloc_kind_noop
     else if t = R_386_RELATIVE then reloc_kind_no_symbol_lookup
     else if t = R_386_IRELATIVE then reloc_kind_lookup_result_unused
     else if t = R_386_JMP_SLOT \<or> t = R_386_TLS_DTPMOD32 \<or> t = R_386_TLS_DTPOFF32 \<or> t = R_386_TLS_TPOFF32 \<or>
       t = R_386_TLS_TPOFF \<or> t = R_386_TLS_DESC then reloc_kind_class_plt
     else if t = R_386_COPY then reloc_kind_class_copy
     else reloc_kind_regular)"

definition reloc_kind_classifier_mips :: "u32 \<Rightarrow> reloc_kind" where
  "reloc_kind_classifier_mips type = (let t = type AND 0xff in
     if t = R_MIPS_NONE then reloc_kind_noop
     else if t = R_MIPS_JUMP_SLOT then reloc_kind_class_plt
     else if t = R_MIPS_COPY then reloc_kind_class_copy
     else reloc_kind_regular)"

definition reloc_kind_classifier_arm :: "u32 \<Rightarrow> reloc_kind" where
  "reloc_kind_classifier_arm type = (let t = type AND 0xff in
     if t = R_ARM_NONE then reloc_kind_noop
     else if t = R_ARM_RELATIVE then reloc_kind_no_symbol_lookup
     else if t = R_ARM_IRELATIVE then reloc_kind_lookup_result_unused
     else if t = R_ARM_JUMP_SLOT \<or> t = R_ARM_TLS_DTPMOD32 \<or> t = R_ARM_TLS_DTPOFF32 \<or> t = R_ARM_TLS_TPOFF32 \<or>
       t = R_ARM_TLS_DESC then reloc_kind_class_plt
     else if t = R_ARM_COPY then reloc_kind_class_copy
     else reloc_kind_regular)"

definition reloc_kind_classifier_x86_64 :: "u32 \<Rightarrow> reloc_kind" where
  "reloc_kind_classifier_x86_64 t =
     (if t = R_X86_64_NONE then reloc_kind_noop
     else if t = R_X86_64_RELATIVE \<or> t = R_X86_64_RELATIVE64 then reloc_kind_no_symbol_lookup
     else if t = R_X86_64_IRELATIVE then reloc_kind_lookup_result_unused
     else if t = R_X86_64_JUMP_SLOT \<or> t = R_X86_64_DTPMOD64 \<or> t = R_X86_64_DTPOFF64 \<or> t = R_X86_64_TPOFF64 \<or>
       t = R_X86_64_TLSDESC then reloc_kind_class_plt
     else if t = R_X86_64_COPY then reloc_kind_class_copy
     else reloc_kind_regular)"

definition reloc_kind_classifier_aarch64 :: "u32 \<Rightarrow> reloc_kind" where
  "reloc_kind_classifier_aarch64 t =
     (if t = R_AARCH64_NONE then reloc_kind_noop
     else if t = R_AARCH64_P32_RELATIVE \<or> t = R_AARCH64_RELATIVE then reloc_kind_no_symbol_lookup
     else if t = R_AARCH64_P32_IRELATIVE \<or> t = R_AARCH64_IRELATIVE then reloc_kind_lookup_result_unused
     else if t = R_AARCH64_P32_JUMP_SLOT \<or> t = R_AARCH64_JUMP_SLOT \<or>
       t = R_AARCH64_P32_TLS_DTPMOD \<or> t = R_AARCH64_TLS_DTPMOD \<or>
       t = R_AARCH64_P32_TLS_DTPREL \<or> t = R_AARCH64_TLS_DTPREL \<or>
       t = R_AARCH64_P32_TLS_TPREL \<or> t = R_AARCH64_TLS_TPREL \<or>
       t = R_AARCH64_P32_TLSDESC \<or> t = R_AARCH64_TLSDESC then reloc_kind_class_plt
     else if t = R_AARCH64_P32_COPY \<or> t = R_AARCH64_COPY then reloc_kind_class_copy
     else reloc_kind_regular)"

definition reloc_kind_classifier_fallback :: "u32 \<Rightarrow> reloc_kind" where
  "reloc_kind_classifier_fallback type = reloc_kind_regular"

definition reloc_kind_classifier_for_machine :: "u16 \<Rightarrow> u32 \<Rightarrow> reloc_kind" where
  "reloc_kind_classifier_for_machine machine =
     (if machine = EM_386 then reloc_kind_classifier_386
     else if machine = EM_MIPS \<or> machine = EM_MIPS_RS3_LE then reloc_kind_classifier_mips
     else if machine = EM_ARM then reloc_kind_classifier_arm
     else if machine = EM_X86_64 then reloc_kind_classifier_x86_64
     else if machine = EM_AARCH64 then reloc_kind_classifier_aarch64
     else reloc_kind_classifier_fallback)"

text \<open>
  The types of each machine that involve no symbol lookup: the null relocation and the
  relative ones. Every other type does.
\<close>

definition lookup_free :: "u16 \<Rightarrow> u32 \<Rightarrow> bool" where
  "lookup_free machine type \<longleftrightarrow>
     (machine \<in> {EM_386, EM_MIPS, EM_MIPS_RS3_LE, EM_ARM} \<and> type AND 0xff = 0) \<or>
     (machine \<in> {EM_X86_64, EM_AARCH64} \<and> type = 0) \<or>
     (machine = EM_386 \<and> type AND 0xff = 8) \<or> (machine = EM_ARM \<and> type AND 0xff = 23) \<or>
     (machine = EM_X86_64 \<and> type \<in> {8, 38}) \<or> (machine = EM_AARCH64 \<and> type \<in> {183, 1027})"

lemma classifier_lookup_iff:
  "reloc_kind_classifier_for_machine machine type > reloc_kind_no_symbol_lookup \<longleftrightarrow> \<not> lookup_free machine type"
  by (auto simp: reloc_kind_classifier_for_machine_def reloc_kind_classifier_386_def reloc_kind_classifier_mips_def
      reloc_kind_classifier_arm_def reloc_kind_classifier_x86_64_def reloc_kind_classifier_aarch64_def
      reloc_kind_classifier_fallback_def lookup_free_def less_reloc_kind_def Let_def)

end
