(* ===== verification/Erw.thy ===== *)
theory Erw
  imports RelocKind V2f
begin

section \<open>erw.h: the state of the ELF rewriter\<close>

text \<open>
  The editors of \<open>erw_state_t\<close> over the bytes of the file. An editor's array is a window on
  the file while its capacity is zero, and a block of its own afterwards: reading and
  writing an element goes through the bytes in the first case. \<open>None\<close> as the result of an
  operation is an access outside the file or a block, or a read of an element that was
  never written. \<open>'w\<close> is the word type \<open>Elf_uNN\<close>, \<open>e_bswap\<close> says that the file is not in
  host endianness. Memory allocation succeeds.
\<close>

subsection \<open>Arrays of structs\<close>

definition mem_store :: "mem \<Rightarrow> nat \<Rightarrow> u8 list \<Rightarrow> mem option" where
  "mem_store m a bs = (if mem_read m a (length bs) = None then None else Some (mem_write m a bs))"

record 'e editor =
  ed_live :: bool
  ed_at :: nat
  ed_heap :: "'e option list"
  ed_count :: u32
  ed_capacity :: u32

definition editor_none :: "'e editor" where
  "editor_none = \<lparr>ed_live = False, ed_at = 0, ed_heap = [], ed_count = 0, ed_capacity = 0\<rparr>"

definition ed_get :: "'e codec \<Rightarrow> mem \<Rightarrow> 'e editor \<Rightarrow> nat \<Rightarrow> 'e option" where
  "ed_get c f ed i =
    (if ed_capacity ed = 0 then map_option (c_dec c) (mem_read f (ed_at ed + i * c_size c) (c_size c))
     else case rd (ed_heap ed) i of None \<Rightarrow> None | Some e \<Rightarrow> e)"

definition ed_put :: "'e codec \<Rightarrow> mem \<times> 'e editor \<Rightarrow> nat \<Rightarrow> 'e \<Rightarrow> (mem \<times> 'e editor) option" where
  "ed_put c s i e = (case s of (f, ed) \<Rightarrow>
     if ed_capacity ed = 0 then map_option (\<lambda>f. (f, ed)) (mem_store f (ed_at ed + i * c_size c) (c_enc c e))
     else if i < length (ed_heap ed) then Some (f, ed\<lparr>ed_heap := (ed_heap ed)[i := Some e]\<rparr>) else None)"

fun all_some :: "'a option list \<Rightarrow> 'a list option" where
  "all_some [] = Some []"
| "all_some (x # xs) = (case x of None \<Rightarrow> None | Some y \<Rightarrow> map_option (Cons y) (all_some xs))"

definition ed_list :: "'e codec \<Rightarrow> mem \<Rightarrow> 'e editor \<Rightarrow> 'e list option" where
  "ed_list c f ed = all_some (map (ed_get c f ed) [0..<unat (ed_count ed)])"

text \<open>
  The three \<open>increase_capacity\<close> functions over an editor: double a block of its own, or
  copy the window into a new block of twice its count.
\<close>

definition ed_grow :: "'e codec \<Rightarrow> mem \<Rightarrow> 'e editor \<Rightarrow> 'e editor option" where
  "ed_grow c f ed =
    (if ed_capacity ed \<noteq> 0 then
       (let new_capacity = ed_capacity ed * 2; n = unat new_capacity
        in Some (ed\<lparr>ed_heap := take n (ed_heap ed @ replicate n None), ed_capacity := new_capacity\<rparr>))
     else if ed_count ed \<noteq> 0 then
       (let new_capacity = ed_count ed * 2
        in if new_capacity < ed_count ed then None
           else map_option (\<lambda>es. ed\<lparr>ed_heap := map Some es @ replicate (unat new_capacity - length es) None,
                                   ed_capacity := new_capacity\<rparr>) (ed_list c f ed))
     else Some (ed\<lparr>ed_live := True, ed_heap := replicate 4 None, ed_capacity := 4\<rparr>))"

text \<open>\<open>base + count++\<close>, after growing when the array is full, for an element to be written there.\<close>

definition ed_append :: "'e codec \<Rightarrow> mem \<times> 'e editor \<Rightarrow> 'e \<Rightarrow> (mem \<times> 'e editor) option" where
  "ed_append c s e = (case s of (f, ed) \<Rightarrow>
     Option.bind (if ed_count ed \<ge> ed_capacity ed then ed_grow c f ed else Some ed)
      (\<lambda>ed. ed_put c (f, ed\<lparr>ed_count := ed_count ed + 1\<rparr>) (unat (ed_count ed)) e))"

text \<open>
  A sound editor holds the list of its elements, and a block of its own has the size its
  capacity says.
\<close>

definition ed_ok :: "'e codec \<Rightarrow> mem \<Rightarrow> 'e editor \<Rightarrow> 'e list \<Rightarrow> bool" where
  "ed_ok c f ed es \<longleftrightarrow> length es = unat (ed_count ed) \<and> (\<forall>i < length es. ed_get c f ed i = Some (es ! i)) \<and>
     (ed_capacity ed \<noteq> 0 \<longrightarrow> length (ed_heap ed) = unat (ed_capacity ed) \<and> ed_count ed \<le> ed_capacity ed)"

lemma all_some_map: "(\<forall>i < length es. g i = Some (es ! i)) \<Longrightarrow> all_some (map g [0..<length es]) = Some es"
proof (induction es arbitrary: g)
  case Nil
  then show ?case by simp
next
  case (Cons e es)
  have g: "g 0 = Some e" "\<forall>i < length es. g (Suc i) = Some (es ! i)" using Cons.prems by auto
  have "map g [0..<length (e # es)] = g 0 # map (\<lambda>i. g (Suc i)) [0..<length es]"
    by (simp add: upt_conv_Cons map_Suc_upt [symmetric] del: upt_Suc)
  then show ?case using Cons.IH [OF g(2)] g(1) by simp
qed

lemma ed_ok_list: "ed_ok c f ed es \<Longrightarrow> ed_list c f ed = Some es"
  unfolding ed_ok_def ed_list_def using all_some_map [of es "ed_get c f ed"] by simp

lemma mem_store_ok: "mem_read m a (length bs) \<noteq> None \<Longrightarrow> mem_store m a bs = Some (mem_write m a bs)"
  by (simp add: mem_store_def)

lemma read_written: "mem_read (mem_write m a bs) a (length bs) = Some bs"
  by (rule mem_read_holds) (rule holds_write_same)

lemma mem_read_cong: "(\<forall>i. a \<le> i \<and> i < a + n \<longrightarrow> m i = m' i) \<Longrightarrow> mem_read m a n = mem_read m' a n"
  by (induction m a n rule: mem_read.induct) (auto split: option.splits)

lemma read_apart: "b + n \<le> a \<or> a + length bs \<le> b \<Longrightarrow> mem_read (mem_write m a bs) b n = mem_read m b n"
  by (rule mem_read_cong) (auto simp: mem_write_apply)

text \<open>The facts about the arrays hold for every struct whose codec is sound.\<close>

locale struct_array =
  fixes c :: "'e codec"
  assumes codec: "codec_ok c"
begin

lemma size_enc [simp]: "length (c_enc c e) = c_size c" and dec_enc [simp]: "c_dec c (c_enc c e) = e"
  and size_pos: "0 < c_size c"
  using codec by (simp_all add: codec_ok_def)

lemma elements_apart: "i \<noteq> j \<Longrightarrow> i * c_size c + c_size c \<le> j * c_size c \<or> j * c_size c + c_size c \<le> i * c_size c"
proof -
  assume "i \<noteq> j"
  then consider "Suc i \<le> j" | "Suc j \<le> i" by linarith
  then show ?thesis
  proof cases
    case 1
    then have "Suc i * c_size c \<le> j * c_size c" by (rule mult_le_mono1)
    then show ?thesis by simp
  next
    case 2
    then have "Suc j * c_size c \<le> i * c_size c" by (rule mult_le_mono1)
    then show ?thesis by simp
  qed
qed

lemma put_ok:
  assumes ok: "ed_ok c f ed es" and i: "i < length es"
  shows "\<exists>f' ed'. ed_put c (f, ed) i e = Some (f', ed') \<and> ed_ok c f' ed' (es[i := e]) \<and>
    ed_count ed' = ed_count ed \<and> ed_capacity ed' = ed_capacity ed \<and> ed_live ed' = ed_live ed \<and> ed_at ed' = ed_at ed \<and>
    (ed_capacity ed \<noteq> 0 \<longrightarrow> f' = f)"
proof (cases "ed_capacity ed = 0")
  case True
  let ?a = "\<lambda>j. ed_at ed + j * c_size c"
  have get: "j < length es \<Longrightarrow> map_option (c_dec c) (mem_read f (?a j) (c_size c)) = Some (es ! j)" for j
    using ok True by (simp add: ed_ok_def ed_get_def)
  then have "mem_read f (?a i) (c_size c) \<noteq> None" using get [OF i] by auto
  then have st: "mem_store f (?a i) (c_enc c e) = Some (mem_write f (?a i) (c_enc c e))"
    by (intro mem_store_ok) simp
  have "mem_read (mem_write f (?a i) (c_enc c e)) (?a j) (c_size c) =
      (if j = i then Some (c_enc c e) else mem_read f (?a j) (c_size c))" for j
    using read_written [of f "?a i" "c_enc c e"] elements_apart [of j i]
    by (auto intro!: read_apart)
  then show ?thesis
    using True st ok get by (auto simp: ed_put_def ed_ok_def ed_get_def nth_list_update)
next
  case False
  then have "i < length (ed_heap ed)" using ok i by (auto simp: ed_ok_def word_le_nat_alt)
  then show ?thesis using False ok by (auto simp: ed_put_def ed_ok_def ed_get_def nth_list_update rd_def)
qed

lemma grow_ok:
  assumes ok: "ed_ok c f ed es" and full: "ed_count ed \<ge> ed_capacity ed" and room: "unat (ed_count ed) < 2 ^ 30"
  shows "\<exists>ed'. ed_grow c f ed = Some ed' \<and> ed_ok c f ed' es \<and> ed_count ed' = ed_count ed \<and>
    ed_count ed < ed_capacity ed' \<and> ed_capacity ed' \<noteq> 0 \<and> unat (ed_capacity ed') \<le> 2 * unat (ed_count ed) + 4"
proof -
  have len: "length es = unat (ed_count ed)" and get: "\<forall>i < length es. ed_get c f ed i = Some (es ! i)"
    using ok by (simp_all add: ed_ok_def)
  have dbl: "unat (x * 2) = 2 * unat x" if "unat x < 2 ^ 30" for x :: u32
    using that by (simp add: unat_word_ariths)
  consider (own) "ed_capacity ed \<noteq> 0" | (window) "ed_capacity ed = 0" "ed_count ed \<noteq> 0" | (none) "ed_capacity ed = 0" "ed_count ed = 0"
    by blast
  then show ?thesis
  proof cases
    case own
    then have eq: "ed_capacity ed = ed_count ed" and heap: "length (ed_heap ed) = unat (ed_count ed)"
      using ok full by (auto simp: ed_ok_def)
    moreover have "0 < unat (ed_count ed)" using own eq by (simp add: unat_gt_0)
    ultimately show ?thesis
      using own ok get len dbl [OF room] room
      by (auto simp: ed_grow_def Let_def ed_ok_def ed_get_def rd_def nth_append word_less_nat_alt word_le_nat_alt unat_eq_zero)
  next
    case window
    then have "ed_list c f ed = Some es" "0 < unat (ed_count ed)"
      using ed_ok_list [OF ok] by (simp_all add: unat_gt_0)
    then show ?thesis
      using window len dbl [OF room]
      by (auto simp: ed_grow_def Let_def ed_ok_def ed_get_def rd_def nth_append word_less_nat_alt word_le_nat_alt unat_eq_zero)
  next
    case none
    then show ?thesis using len by (auto simp: ed_grow_def ed_ok_def)
  qed
qed

lemma append_ok:
  assumes ok: "ed_ok c f ed es" and room: "unat (ed_count ed) < 2 ^ 30"
  shows "\<exists>ed'. ed_append c (f, ed) e = Some (f, ed') \<and> ed_ok c f ed' (es @ [e]) \<and> ed_count ed' = ed_count ed + 1 \<and>
    ed_capacity ed' \<noteq> 0"
proof -
  obtain ed1 where ed1: "(if ed_count ed \<ge> ed_capacity ed then ed_grow c f ed else Some ed) = Some ed1"
    "ed_ok c f ed1 es" "ed_count ed1 = ed_count ed" "ed_count ed < ed_capacity ed1"
    using grow_ok [OF ok _ room] ok by (cases "ed_count ed \<ge> ed_capacity ed") (auto simp: not_le)
  have cap: "ed_capacity ed1 \<noteq> 0" using ed1(4) by auto
  have u: "unat (ed_count ed + 1) = unat (ed_count ed) + 1" using room by (simp add: unat_word_ariths)
  have heap: "length (ed_heap ed1) = unat (ed_capacity ed1)" using ed1(2) cap by (simp add: ed_ok_def)
  have len: "length es = unat (ed_count ed)" using ok by (simp add: ed_ok_def)
  have lt: "unat (ed_count ed) < length (ed_heap ed1)" using ed1(4) heap by (simp add: word_less_nat_alt)
  have get: "i < length es \<Longrightarrow> rd (ed_heap ed1) i = Some (Some (es ! i))" for i
    using ed1(2) cap by (auto simp: ed_ok_def ed_get_def split: option.splits)
  have "i \<le> length es \<Longrightarrow> rd ((ed_heap ed1)[length es := Some e]) i = Some (Some ((es @ [e]) ! i))" for i
    using get [of i] lt len by (auto simp: rd_def nth_list_update nth_append split: if_splits)
  then show ?thesis
    using ed1 cap heap lt u len
    by (auto simp: ed_append_def ed_put_def ed_ok_def ed_get_def word_less_nat_alt word_le_nat_alt less_Suc_eq_le)
qed

end

interpretation dyn: struct_array dyn_codec
  by unfold_locales (rule codecs_ok)

interpretation phdr: struct_array phdr_codec
  by unfold_locales (rule codecs_ok)

interpretation sym: struct_array sym_codec
  by unfold_locales (rule codecs_ok)

subsection \<open>The state\<close>

datatype alloc_category =
    erw_alloc_category_f
  | erw_alloc_category_v_r
  | erw_alloc_category_v_r_near_x
  | erw_alloc_category_v_rx
  | erw_alloc_category_v_rw
  | erw_alloc_category_v_rw_zero

fun category_rank :: "alloc_category \<Rightarrow> nat" where
  "category_rank erw_alloc_category_f = 0"
| "category_rank erw_alloc_category_v_r = 1"
| "category_rank erw_alloc_category_v_r_near_x = 2"
| "category_rank erw_alloc_category_v_rx = 3"
| "category_rank erw_alloc_category_v_rw = 4"
| "category_rank erw_alloc_category_v_rw_zero = 5"

lemma category_rank_inj: "category_rank a = category_rank b \<Longrightarrow> a = b"
  by (cases a; cases b) simp_all

instantiation alloc_category :: linorder
begin

definition less_eq_alloc_category :: "alloc_category \<Rightarrow> alloc_category \<Rightarrow> bool" where
  "less_eq_alloc_category a b \<longleftrightarrow> category_rank a \<le> category_rank b"

definition less_alloc_category :: "alloc_category \<Rightarrow> alloc_category \<Rightarrow> bool" where
  "less_alloc_category a b \<longleftrightarrow> category_rank a < category_rank b"

instance
  by standard (auto simp: less_eq_alloc_category_def less_alloc_category_def intro: category_rank_inj)

end

record alloc_bucket =
  b_category :: alloc_category
  b_alignment :: u32
  b_start :: u64
  b_current :: u64
  b_end :: u64

record alloc_buckets =
  bs_base :: "alloc_bucket list"
  bs_capacity :: u32
  bs_category_mask :: u32

datatype dynstr_edit_state =
    dynstr_edit_state_uninit
  | dynstr_edit_state_read_only
  | dynstr_edit_state_encode_from_existing
  | dynstr_edit_state_encode_building_new

record dynstr_hash_entry =
  len_hash :: u64
  encoded :: u64

text \<open>\<open>ds_to_add\<close> is the written part of \<open>to_add\<close>, \<open>to_add_size\<close> its length.\<close>

record dynstr_editor =
  ds_original_base :: u64
  ds_to_add :: "u8 list"
  ds_to_add_capacity :: u32
  ds_state :: dynstr_edit_state
  ds_table :: "dynstr_hash_entry list"
  ds_table_count :: u32
  ds_table_mask :: u32

record sym_info =
  si_flags :: u32
  si_hash_distance :: u32

abbreviation (input) SYM_INFO_RELOC_EAGER :: u32 where "SYM_INFO_RELOC_EAGER \<equiv> 0x0001"
abbreviation (input) SYM_INFO_RELOC_MAYBE_EAGER :: u32 where "SYM_INFO_RELOC_MAYBE_EAGER \<equiv> 0x0002"
abbreviation (input) SYM_INFO_RELOC_COPY :: u32 where "SYM_INFO_RELOC_COPY \<equiv> 0x0004"
abbreviation (input) SYM_INFO_RELOC_PLT :: u32 where "SYM_INFO_RELOC_PLT \<equiv> 0x0008"
abbreviation (input) SYM_INFO_RELOC_REGULAR :: u32 where "SYM_INFO_RELOC_REGULAR \<equiv> 0x0010"
abbreviation (input) SYM_INFO_IN_HASH :: u32 where "SYM_INFO_IN_HASH \<equiv> 0x0020"
abbreviation (input) SYM_INFO_IN_GNU_HASH :: u32 where "SYM_INFO_IN_GNU_HASH \<equiv> 0x0040"
abbreviation (input) SYM_INFO_LOCAL :: u32 where "SYM_INFO_LOCAL \<equiv> 0x0080"
abbreviation (input) SYM_INFO_EXPORTABLE :: u32 where "SYM_INFO_EXPORTABLE \<equiv> 0x0100"
abbreviation (input) SYM_INFO_PLT_EXPORTABLE :: u32 where "SYM_INFO_PLT_EXPORTABLE \<equiv> 0x0200"
abbreviation (input) SYM_INFO_WANT_POLYFILL :: u32 where "SYM_INFO_WANT_POLYFILL \<equiv> 0x0400"

text \<open>\<open>sy_versions\<close> is \<open>None\<close> for the null pointer; its array lies where the symbols do.\<close>

record 'w sym_editor =
  sy_syms :: "'w sym editor"
  sy_versions :: "u16 editor option"
  sy_info :: "sym_info list"
  sy_original_gnu_hash_count :: u32
  sy_original_had_hash :: bool
  sy_original_had_gnu_hash :: bool
  sy_want_hash :: bool
  sy_want_gnu_hash :: bool

abbreviation (input) VER_EDIT_STATE_DIRTY :: u8 where "VER_EDIT_STATE_DIRTY \<equiv> 0x01"
abbreviation (input) VER_EDIT_STATE_PENDING_DELETE :: u8 where "VER_EDIT_STATE_PENDING_DELETE \<equiv> 0x02"
abbreviation (input) VER_EDIT_STATE_REMOVED_REFS :: u8 where "VER_EDIT_STATE_REMOVED_REFS \<equiv> 0x04"

text \<open>
  The linked lists of the version editor are lists; \<open>vi_id\<close> and \<open>vg_id\<close> stand for the
  addresses of the blocks, by which \<open>ver_index_ref\<close> refers to them.
\<close>

record ver_item =
  vi_id :: nat
  vi_vaddr :: u64
  vi_str :: u32
  vi_hash :: u32
  vi_flags :: u16
  vi_index :: u16
  vi_state :: u8

record ver_group =
  vg_id :: nat
  vg_items :: "ver_item list"
  vg_vaddr :: u64
  vg_name :: u32
  vg_state :: u8

record ver_index_ref =
  vr_group :: "nat option"
  vr_item :: "nat option"

record ver_editor =
  ve_base :: "ver_index_ref list"
  ve_capacity :: u32
  ve_def :: "ver_group list"
  ve_need :: "ver_group list"
  ve_next_id :: nat

record reloc_editor =
  rl_live :: bool
  rl_at :: nat
  rl_heap :: mem
  rl_count :: u64
  rl_capacity :: u64
  rl_entry_size :: u8
  rl_dt :: u8
  rl_flags :: u16

abbreviation (input) RELOC_EDIT_FLAG_EXPLICIT_ADDEND :: u16 where "RELOC_EDIT_FLAG_EXPLICIT_ADDEND \<equiv> 0x01"
abbreviation (input) RELOC_EDIT_FLAG_DIRTY :: u16 where "RELOC_EDIT_FLAG_DIRTY \<equiv> 0x02"
abbreviation (input) MAX_RELOC_EDITORS :: nat where "MAX_RELOC_EDITORS \<equiv> 5"

text \<open>The bytes of the original file are kept here, whether they are read again or copied.\<close>

record 'w original_state =
  o_f_size :: u64
  o_phdrs :: "'w phdr list"
  o_mem :: mem

abbreviation (input) ERW_MODIFIED_MISC :: u32 where "ERW_MODIFIED_MISC \<equiv> 0x001"
abbreviation (input) ERW_MODIFIED_PHDRS :: u32 where "ERW_MODIFIED_PHDRS \<equiv> 0x002"
abbreviation (input) ERW_MODIFIED_DHDRS :: u32 where "ERW_MODIFIED_DHDRS \<equiv> 0x004"
abbreviation (input) ERW_MODIFIED_DYNSTR :: u32 where "ERW_MODIFIED_DYNSTR \<equiv> 0x008"
abbreviation (input) ERW_MODIFIED_DSYMS :: u32 where "ERW_MODIFIED_DSYMS \<equiv> 0x010"
abbreviation (input) ERW_MODIFIED_VERNEED :: u32 where "ERW_MODIFIED_VERNEED \<equiv> 0x020"
abbreviation (input) ERW_MODIFIED_VERDEF :: u32 where "ERW_MODIFIED_VERDEF \<equiv> 0x040"
abbreviation (input) ERW_MODIFIED_RELOCS :: u32 where "ERW_MODIFIED_RELOCS \<equiv> 0x080"
abbreviation (input) ERW_MODIFIED_HASH_TABLES :: u32 where "ERW_MODIFIED_HASH_TABLES \<equiv> 0x100"
abbreviation (input) ERW_MODIFIED_SHDRS :: u32 where "ERW_MODIFIED_SHDRS \<equiv> 0x200"

text \<open>\<open>ERW_FILE_KIND_64\<close> is the width of the word type.\<close>

record 'w erw =
  e_f :: mem
  e_f_size :: u64
  e_modified :: u32
  e_retry :: bool
  e_bswap :: bool
  e_machine :: u16
  e_v2f :: v2f_map
  e_phdrs :: "'w phdr editor"
  e_dhdrs :: "'w dyn editor"
  e_dynstr :: dynstr_editor
  e_dsyms :: "'w sym_editor"
  e_vers :: ver_editor
  e_relocs :: "reloc_editor list"
  e_alloc :: alloc_buckets
  e_original :: "'w original_state"
  e_guest_page_size :: u64

text \<open>\<open>memset(erw, 0, sizeof(*erw))\<close>, before the file is there.\<close>

definition erw_zero :: "'w erw" where
  "erw_zero = \<lparr>e_f = Map.empty, e_f_size = 0, e_modified = 0, e_retry = False, e_bswap = False, e_machine = 0,
    e_v2f = v2f_zero, e_phdrs = editor_none, e_dhdrs = editor_none,
    e_dynstr = \<lparr>ds_original_base = 0, ds_to_add = [], ds_to_add_capacity = 0, ds_state = dynstr_edit_state_uninit,
      ds_table = [], ds_table_count = 0, ds_table_mask = 0\<rparr>,
    e_dsyms = \<lparr>sy_syms = editor_none, sy_versions = None, sy_info = [], sy_original_gnu_hash_count = 0,
      sy_original_had_hash = False, sy_original_had_gnu_hash = False, sy_want_hash = False, sy_want_gnu_hash = False\<rparr>,
    e_vers = \<lparr>ve_base = [], ve_capacity = 0, ve_def = [], ve_need = [], ve_next_id = 0\<rparr>,
    e_relocs = replicate MAX_RELOC_EDITORS \<lparr>rl_live = False, rl_at = 0, rl_heap = Map.empty, rl_count = 0, rl_capacity = 0,
      rl_entry_size = 0, rl_dt = 0, rl_flags = 0\<rparr>,
    e_alloc = \<lparr>bs_base = [], bs_capacity = 0, bs_category_mask = 0\<rparr>,
    e_original = \<lparr>o_f_size = 0, o_phdrs = [], o_mem = Map.empty\<rparr>, e_guest_page_size = 0\<rparr>"

definition set_modified :: "u32 \<Rightarrow> 'w erw \<Rightarrow> 'w erw" where
  "set_modified bits erw = erw\<lparr>e_modified := e_modified erw OR bits\<rparr>"

subsection \<open>Reading virtual addresses\<close>

text \<open>
  \<open>v2f_map_lookup(&erw->v2f, v)\<close>: the entry and the address of the next one. The entry does
  not depend on the cached position that the lookup moves (property
  \<open>v2f_map_lookup_correct\<close>), so the move is left out here.
\<close>

definition v2f_entry_at :: "v2f_map \<Rightarrow> u64 \<Rightarrow> nat" where
  "v2f_entry_at m v = snd (v2f_map_lookup m v)"

definition v2f_at :: "v2f_map \<Rightarrow> u64 \<Rightarrow> u64" where
  "v2f_at m v = v2f (m_entries m ! v2f_entry_at m v)"

definition v2f_next :: "v2f_map \<Rightarrow> u64 \<Rightarrow> u64" where
  "v2f_next m v = vbase (m_entries m ! (v2f_entry_at m v + 1))"

definition v2f_special :: "u64 \<Rightarrow> bool" where
  "v2f_special f \<longleftrightarrow> f AND V2F_SPECIAL \<noteq> 0"

text \<open>
  The loop of \<open>materialise_v_range_to\<close> from entry \<open>i\<close> on: the bytes, and how many chunks
  were copied and zeroed.
\<close>

function materialise_from :: "v2f_entry list \<Rightarrow> mem \<Rightarrow> nat \<Rightarrow> u64 \<Rightarrow> u64 \<Rightarrow> (u8 list \<times> nat \<times> nat) option" where
  "materialise_from es f i v len =
    (if i + 1 \<ge> length es then None
     else let e = es ! i;
              len_here = vbase (es ! (i + 1)) - v;
              len_here = (if len_here > len then len else len_here);
              chunk = (if v2f_special (v2f e) then Some (replicate (unat len_here) 0)
                       else mem_read f (unat (v2f e + v)) (unat len_here));
              (n_memcpy, n_memset) = (if v2f_special (v2f e) then (0, 1) else (1, 0))
          in case chunk of None \<Rightarrow> None
             | Some bs \<Rightarrow>
                 if len - len_here = 0 then Some (bs, n_memcpy, n_memset)
                 else (case materialise_from es f (i + 1) (v + len_here) (len - len_here) of None \<Rightarrow> None
                       | Some (bs', c, s) \<Rightarrow> Some (bs @ bs', n_memcpy + c, n_memset + s)))"
  by pat_completeness auto
termination by (relation "measure (\<lambda>(es, f, i, v, len). length es - i)") auto

declare materialise_from.simps [simp del]

definition materialise_v_range_to :: "'w erw \<Rightarrow> u64 \<Rightarrow> u64 \<Rightarrow> (u8 list \<times> bool) option" where
  "materialise_v_range_to erw v len =
    (if len = 0 then Some ([], False)
     else map_option (\<lambda>(bs, n_memcpy, n_memset). (bs, n_memcpy = 1 \<and> n_memset = 0))
       (materialise_from (m_entries (e_v2f erw)) (e_f erw) (v2f_entry_at (e_v2f erw) v) v len))"

definition materialise_v_u32 :: "'w erw \<Rightarrow> u64 \<Rightarrow> u32 option" where
  "materialise_v_u32 erw v =
    map_option (\<lambda>(bs, _). esw (e_bswap erw) (word_of_bytes bs)) (materialise_v_range_to erw v 4)"

definition erw_view_v :: "'w erw \<Rightarrow> u64 \<Rightarrow> u64 option" where
  "erw_view_v erw v = (let f = v2f_at (e_v2f erw) v in if v2f_special f then None else Some (v + f))"

text \<open>The byte that a virtual address stands for.\<close>

definition v_byte :: "'w erw \<Rightarrow> u64 \<Rightarrow> u8 option" where
  "v_byte erw v = (let f = v2f_map_get (e_v2f erw) v in if v2f_special f then Some 0 else e_f erw (unat (v + f)))"

end
