(* ===== verification/VRange.thy ===== *)
theory VRange
  imports Erw
begin

section \<open>Reading through the address map\<close>

text \<open>
  \<open>materialise_v_range_to\<close> gives the bytes that the map and the file hold for a range of
  virtual addresses.
\<close>

lemma span_word:
  assumes es: "es_ok es" and c: "covers es v i" and v: "v \<noteq> 0 \<or> bnd es (i + 1) < 2 ^ 64"
  shows "unat (vbase (es ! (i + 1)) - v) = bnd es (i + 1) - unat v"
proof (cases "i + 2 < length es")
  case True
  then have "bnd es (i + 1) = unat (vbase (es ! (i + 1)))" by (simp add: bnd_def)
  then show ?thesis using c by (simp add: covers_def unat_sub_if_size)
next
  case False
  then have i: "i + 1 = length es - 1" and b: "bnd es (i + 1) = 2 ^ 64" using c by (auto simp: bnd_def covers_def)
  have "es \<noteq> []" using es by (auto simp: es_ok_def)
  then have "es ! (i + 1) = last es" using i by (simp add: last_conv_nth)
  then have z: "vbase (es ! (i + 1)) = 0" using es by (simp add: es_ok_def)
  have "v \<noteq> 0" using v b by simp
  then have "\<not> unat v \<le> 0" by (simp add: unat_eq_zero)
  then show ?thesis unfolding z b by (subst unat_sub_if_size) (simp add: word_size)
qed

lemma unat_plus_of_nat: "unat v + k < 2 ^ 64 \<Longrightarrow> unat (v + of_nat k :: u64) = unat v + k"
  by (simp add: unat_word_ariths unat_of_nat)

text \<open>The value of a range of virtual addresses.\<close>

definition v_holds :: "v2f_entry list \<Rightarrow> mem \<Rightarrow> u64 \<Rightarrow> u8 list \<Rightarrow> bool" where
  "v_holds es f v bs \<longleftrightarrow> (\<forall>k < length bs.
     (let a = v + of_nat k; o' = v2f_get es a in if v2f_special o' then Some 0 else f (unat (a + o'))) = Some (bs ! k))"

lemma v_holds_append:
  "v_holds es f v (bs @ cs) \<longleftrightarrow> v_holds es f v bs \<and> v_holds es f (v + of_nat (length bs)) cs"
proof -
  have split: "(\<forall>k < length (bs @ cs). P k) \<longleftrightarrow> (\<forall>k < length bs. P k) \<and> (\<forall>k < length cs. P (length bs + k))"
    (is "?l \<longleftrightarrow> ?r") for P
  proof
    show "?l \<Longrightarrow> ?r" by simp
    assume r: ?r
    show ?l
    proof (intro allI impI)
      fix k assume k: "k < length (bs @ cs)"
      show "P k"
      proof (cases "k < length bs")
        case False
        then have "k - length bs < length cs" using k by simp
        then have "P (length bs + (k - length bs))" using r by blast
        then show ?thesis using False by simp
      qed (use r in \<open>simp\<close>)
    qed
  qed
  have at: "v + of_nat (length bs + k) = v + of_nat (length bs) + of_nat k" for k by simp
  show ?thesis unfolding v_holds_def split at by (simp add: nth_append Let_def)
qed

lemma chunk_ok:
  assumes es: "es_ok es" and c: "covers es v i" and n: "unat v + n \<le> bnd es (i + 1)"
    and bs: "v_holds es f v bs" "length bs = n" and fin: "\<forall>a. f a \<noteq> None \<longrightarrow> a < 2 ^ 63"
  shows "(if v2f_special (v2f (es ! i)) then Some (replicate n 0) else mem_read f (unat (v2f (es ! i) + v)) n) = Some bs"
proof -
  let ?o = "v2f (es ! i)"
  have top: "bnd es (i + 1) \<le> 2 ^ 64" using unat_less_top [of "vbase (es ! (i + 1))"] by (simp add: bnd_def less_imp_le)
  have get: "v2f_get es (v + of_nat k) = ?o" if "k < n" for k
  proof -
    have "unat v + k < 2 ^ 64" using that n top by linarith
    then have "covers es (v + of_nat k) i" using c that n by (simp add: covers_def unat_plus_of_nat)
    then show ?thesis by (rule covers_get [OF es])
  qed
  show ?thesis
  proof (cases "v2f_special ?o")
    case True
    have "bs = replicate n 0"
      using bs get True by (intro nth_equalityI) (auto simp: v_holds_def Let_def)
    then show ?thesis using True by simp
  next
    case False
    have at: "f (unat (v + of_nat k + ?o)) = Some (bs ! k)" if "k < n" for k
      using bs(1) [unfolded v_holds_def, THEN spec, of k] bs(2) get [OF that] that False by (simp add: Let_def)
    have step: "k < n \<Longrightarrow> unat (v + of_nat k + ?o) = unat (?o + v) + k" for k
    proof (induction k)
      case (Suc k)
      have "unat (v + of_nat k + ?o) < 2 ^ 63" using at [of k] fin Suc.prems by auto
      then have "unat (v + of_nat k + ?o + 1) = unat (v + of_nat k + ?o) + 1"
        by (simp add: unat_word_ariths)
      moreover have e: "v + of_nat (Suc k) + ?o = v + of_nat k + ?o + 1" by (simp add: algebra_simps)
      ultimately show ?case using Suc unfolding e by simp
    qed (simp add: add.commute)
    have "holds f (unat (?o + v)) bs"
      using at step bs(2) by (simp add: holds_def)
    then show ?thesis using False bs(2) mem_read_holds by auto
  qed
qed

lemma materialise_from_step:
  assumes "\<not> i + 1 \<ge> length es"
    and "(if vbase (es ! (i + 1)) - v > len then len else vbase (es ! (i + 1)) - v) = h"
    and "(if v2f_special (v2f (es ! i)) then Some (replicate (unat h) 0) else mem_read f (unat (v2f (es ! i) + v)) (unat h)) = Some ch"
  shows "materialise_from es f i v len =
    (let (n_memcpy, n_memset) = (if v2f_special (v2f (es ! i)) then (0, 1) else (1, 0)) in
     if len - h = 0 then Some (ch, n_memcpy, n_memset)
     else (case materialise_from es f (i + 1) (v + h) (len - h) of None \<Rightarrow> None
           | Some (bs', c, s) \<Rightarrow> Some (ch @ bs', n_memcpy + c, n_memset + s)))"
  unfolding materialise_from.simps [of es f i v len] Let_def assms(2) assms(3)
  using assms(1) by (simp only: if_False option.case split: if_split)

lemma materialise_from_ok:
  assumes es: "es_ok es" and fin: "\<forall>a. f a \<noteq> None \<longrightarrow> a < 2 ^ 63"
    and "covers es v i" and "v_holds es f v bs" and "length bs = unat len" and "len \<noteq> 0"
    and "unat v + unat len \<le> 2 ^ 64" and "v \<noteq> 0 \<or> bnd es (i + 1) < 2 ^ 64"
  shows "\<exists>c s. materialise_from es f i v len = Some (bs, c, s) \<and> 0 < c + s \<and>
    (c = 1 \<and> s = 0 \<longleftrightarrow> unat v + unat len \<le> bnd es (i + 1) \<and> \<not> v2f_special (v2f (es ! i)))"
  using assms(3-)
proof (induction "length es - i" arbitrary: i v len bs rule: less_induct)
  case less
  define n where "n = bnd es (i + 1) - unat v"
  define h where "h = (if vbase (es ! (i + 1)) - v > len then len else vbase (es ! (i + 1)) - v)"
  have c: "i + 1 < length es" "bnd es i \<le> unat v" "unat v < bnd es (i + 1)" using less.prems(1) by (simp_all add: covers_def)
  have uh: "unat h = min (unat len) n"
    using span_word [OF es less.prems(1,6)] by (simp add: h_def n_def word_less_nat_alt min_def)
  have n0: "0 < n" using c by (simp add: n_def)
  have l0: "0 < unat len" using less.prems(4) by (simp add: unat_gt_0)
  have hl: "unat h \<le> unat len" "0 < unat h" using uh n0 l0 by simp_all
  have bs: "bs = take (unat h) bs @ drop (unat h) bs" by simp
  have v1: "v_holds es f v (take (unat h) bs)" "v_holds es f (v + h) (drop (unat h) bs)"
    using less.prems(2,3) hl v_holds_append [of es f v "take (unat h) bs" "drop (unat h) bs"] by simp_all
  have "(if v2f_special (v2f (es ! i)) then Some (replicate (unat h) 0) else mem_read f (unat (v2f (es ! i) + v)) (unat h))
      = Some (take (unat h) bs)"
    using less.prems(3) hl uh c by (intro chunk_ok [OF es less.prems(1) _ v1(1) _ fin]) (simp_all add: n_def, linarith)
  note chunk = this
  have un: "unat (len - h) = unat len - unat h" using hl by (simp add: unat_sub_if_size)
  note step = materialise_from_step [OF _ h_def [symmetric] chunk]
  have step: "materialise_from es f i v len =
    (let (n_memcpy, n_memset) = (if v2f_special (v2f (es ! i)) then (0, 1) else (1, 0)) in
     if len - h = 0 then Some (take (unat h) bs, n_memcpy, n_memset)
     else (case materialise_from es f (i + 1) (v + h) (len - h) of None \<Rightarrow> None
           | Some (bs', c, s) \<Rightarrow> Some (take (unat h) bs @ bs', n_memcpy + c, n_memset + s)))"
    using c(1) by (intro step) simp
  show ?case
  proof (cases "len - h = 0")
    case True
    then have lh: "unat len = unat h" by simp
    then have "unat len \<le> n" using uh by (simp add: min_def split: if_splits)
    then have "unat v + unat len \<le> bnd es (i + 1)" using c by (simp add: n_def)
    then show ?thesis using step True less.prems(3) lh by (auto simp: Let_def)
  next
    case False
    then have lt: "unat h < unat len" using un hl(1) by (metis diff_is_0_eq' le_neq_implies_less unat_eq_zero order_refl)
    then have hn: "unat h = n" using uh by (simp add: min_def split: if_splits)
    then have vh: "unat v + unat h = bnd es (i + 1)" using c by (simp add: n_def)
    have vlt: "unat v + unat h < 2 ^ 64" using lt less.prems(5) by linarith
    have uvh: "unat (v + h) = bnd es (i + 1)" using vh vlt by (simp add: unat_word_ariths)
    have i2: "i + 2 < length es"
    proof (rule ccontr)
      assume "\<not> i + 2 < length es"
      then have "bnd es (i + 1) = 2 ^ 64" by (simp add: bnd_def)
      then show False using vh vlt by simp
    qed
    have cov: "covers es (v + h) (i + 1)"
      using i2 uvh es bnd_less [OF es, of "i + 1" "i + 2"] by (simp add: covers_def)
    have nz: "v + h \<noteq> 0" using uvh c(3) by (auto simp: unat_eq_zero)
    have top: "unat (v + h) + unat (len - h) \<le> 2 ^ 64"
      using uvh vh un hl(1) less.prems(5) by linarith
    then obtain c' s' where rec: "materialise_from es f (i + 1) (v + h) (len - h) = Some (drop (unat h) bs, c', s')" "0 < c' + s'"
      using less.hyps [OF _ cov v1(2) _ False top disjI1 [OF nz]] less.prems(3) un i2 by (auto simp: diff_less_mono2)
    have "\<not> unat v + unat len \<le> bnd es (i + 1)" using vh lt by linarith
    then show ?thesis using step False rec by (auto simp: Let_def)
  qed
qed

definition v2f_start_ok :: "v2f_map \<Rightarrow> u64 \<Rightarrow> bool" where
  "v2f_start_ok m v \<longleftrightarrow> v2f_ok m \<and> (v \<noteq> 0 \<or> 1 < m_count m)"

lemma materialise_v_range_ok:
  assumes m: "v2f_start_ok (e_v2f erw) v" and fin: "\<forall>a. e_f erw a \<noteq> None \<longrightarrow> a < 2 ^ 63"
    and bs: "length bs = unat len" "\<forall>k < length bs. v_byte erw (v + of_nat k) = Some (bs ! k)"
    and top: "unat v + unat len \<le> 2 ^ 64"
  shows "materialise_v_range_to erw v len =
    Some (bs, len \<noteq> 0 \<and> unat v + unat len \<le> bnd (m_entries (e_v2f erw)) (v2f_entry_at (e_v2f erw) v + 1) \<and>
      \<not> v2f_special (v2f_at (e_v2f erw) v))"
proof (cases "len = 0")
  case False
  let ?m = "e_v2f erw" let ?es = "m_entries ?m" let ?i = "v2f_entry_at ?m v"
  have ok: "v2f_ok ?m" "es_ok ?es" using m by (simp_all add: v2f_start_ok_def v2f_ok_def)
  obtain m' where l: "v2f_map_lookup ?m v = (m', ?i)" by (metis prod.collapse v2f_entry_at_def)
  have cov: "covers ?es v ?i" using v2f_map_lookup_covers [OF ok(1), of v] l by simp
  have "v \<noteq> 0 \<or> bnd ?es (?i + 1) < 2 ^ 64"
  proof (cases "v = 0")
    case True
    then have "bnd ?es ?i \<le> 0" using cov by (simp add: covers_def)
    then have "?i = 0" using cov bnd_less [OF ok(2), of 0 ?i] bnd_0 [OF ok(2)] by (cases "?i = 0") (auto simp: covers_def)
    moreover have "2 < length ?es" using m True by (simp add: v2f_start_ok_def v2f_ok_def)
    ultimately show ?thesis using unat_less_top [of "vbase (?es ! 1)"] by (simp add: bnd_def)
  qed simp
  moreover have "v_holds ?es (e_f erw) v bs"
    using bs(2) by (simp add: v_holds_def v_byte_def v2f_map_get_def Let_def)
  ultimately have "\<exists>c s. materialise_from ?es (e_f erw) ?i v len = Some (bs, c, s) \<and> 0 < c + s \<and>
    (c = 1 \<and> s = 0 \<longleftrightarrow> unat v + unat len \<le> bnd ?es (?i + 1) \<and> \<not> v2f_special (v2f (?es ! ?i)))"
    using materialise_from_ok [OF ok(2) fin cov _ bs(1) False top] by blast
  then show ?thesis using False by (auto simp: materialise_v_range_to_def v2f_at_def)
qed (use bs in \<open>simp add: materialise_v_range_to_def\<close>)

text \<open>
  C11: \<open>materialise_v_range_to\<close> copies out exactly the bytes that the address map and the file
  give for the range, however many segments it goes through, and returns true exactly when
  the range is not empty and lies in one segment that is in the file.
\<close>

theorem materialise_v_range_correct:
  assumes m: "v2f_start_ok (e_v2f erw) v" and fin: "\<forall>a. e_f erw a \<noteq> None \<longrightarrow> a < 2 ^ 63"
    and bs: "length bs = unat len" "\<forall>k < length bs. v_byte erw (v + of_nat k) = Some (bs ! k)"
    and top: "unat v + unat len \<le> 2 ^ 64"
  shows "materialise_v_range_to erw v len =
    Some (bs, len \<noteq> 0 \<and> unat v + unat len \<le> bnd (m_entries (e_v2f erw)) (v2f_entry_at (e_v2f erw) v + 1) \<and>
      \<not> v2f_special (v2f_at (e_v2f erw) v))"
  by (rule materialise_v_range_ok [OF assms])

definition v_range_map :: v2f_map where
  "v_range_map = \<lparr>m_cached = 0, m_entries = [\<lparr>vbase = 0, v2f = 2\<rparr>, \<lparr>vbase = 0x1000, v2f = 0\<rparr>, \<lparr>vbase = 0x3000, v2f = 0x100\<rparr>,
     \<lparr>vbase = 0x4000, v2f = 2\<rparr>, \<lparr>vbase = 0, v2f = 2\<rparr>], m_count = 4, m_capacity = 8\<rparr>"

definition v_range_example :: "64 word erw" where
  "v_range_example = erw_zero\<lparr>e_v2f := v_range_map, e_f := (\<lambda>a. if a < 0x5000 then Some (of_nat a) else None)\<rparr>"

lemma v_range_map_ok: "v2f_ok v_range_map"
proof -
  have "bnd (m_entries v_range_map) i < bnd (m_entries v_range_map) (i + 1)" if "i < 4" for i
  proof -
    from that consider "i = 0" | "i = 1" | "i = 2" | "i = 3" by linarith
    then show ?thesis by cases (simp_all add: bnd_def v_range_map_def)
  qed
  then show ?thesis by (simp add: v2f_ok_def es_ok_def v_range_map_def)
qed

lemma v_range_example_bytes:
  "v_byte v_range_example 0x2ffe = Some 0xfe" "v_byte v_range_example 0x2fff = Some 0xff"
  "v_byte v_range_example 0x3000 = Some 0" "v_byte v_range_example 0x3001 = Some 1"
  by (simp_all add: v_byte_def v_range_example_def erw_zero_def v2f_map_get_def v2f_get_def v_range_map_def Let_def
      v2f_special_def V2F_SPECIAL_def V2F_ZEROFILL_def V2F_UNMAPPED_def)

lemma materialise_v_range_correct_witness:
  "map_option fst (materialise_v_range_to v_range_example 0x2ffe 4) = Some [0xfe, 0xff, 0, 1]"
proof -
  have "v2f_start_ok (e_v2f v_range_example) 0x2ffe"
    using v_range_map_ok by (simp add: v2f_start_ok_def v_range_example_def erw_zero_def)
  moreover have "\<forall>k < length [0xfe, 0xff, 0, 1 :: u8]. v_byte v_range_example (0x2ffe + of_nat k) = Some ([0xfe, 0xff, 0, 1] ! k)"
    using v_range_example_bytes by (simp add: upt_rec All_less_Suc)
  ultimately show ?thesis
    using materialise_v_range_correct [of v_range_example "0x2ffe" "[0xfe, 0xff, 0, 1]" 4]
    by (simp add: v_range_example_def erw_zero_def)
qed

end
