(* ===== verification/Alignment.thy ===== *)
theory Alignment
  imports Prelude
begin

section \<open>Word arithmetic: alignments, casts and sums without wrap-around\<close>

text \<open>
  The reading of the expressions \<open>(x + a - 1) & -a\<close> and \<open>x & (a - 1)\<close>, of casts and of sums as
  natural numbers, for alignments that are powers of two.
\<close>

definition pow2 :: "'a::len word \<Rightarrow> bool" where
  "pow2 w \<longleftrightarrow> (\<exists>k. k < LENGTH('a) \<and> w = 2 ^ k)"

lemma unat_push_bit: "unat (push_bit k x :: 'a::len word) = take_bit LENGTH('a) (push_bit k (unat x))"
  by (rule unsigned_push_bit_eq)

lemma unat_pow2: "k < LENGTH('a) \<Longrightarrow> unat (2 ^ k :: 'a::len word) = 2 ^ k"
proof -
  assume k: "k < LENGTH('a)"
  have "unat (2 ^ k :: 'a word) = take_bit LENGTH('a) (2 ^ k)"
    using unat_push_bit [of k "1 :: 'a word"] by (simp add: push_bit_eq_mult)
  then show ?thesis using k by (simp add: take_bit_nat_eq_self)
qed

lemma unat_and_minus_pow2:
  fixes x :: "'a::len word"
  assumes "k < LENGTH('a)"
  shows "unat (x AND - (2 ^ k)) = unat x div 2 ^ k * 2 ^ k"
proof -
  have "x AND - (2 ^ k) = push_bit k (drop_bit k x)"
    unfolding minus_exp_eq_not_mask by (rule bit_word_eqI) (auto simp: bit_simps)
  moreover have "unat x div 2 ^ k * 2 ^ k < 2 ^ LENGTH('a)"
    using unat_less_pow [of x] by (rule order_le_less_trans [rotated]) simp
  ultimately show ?thesis
    using assms unat_push_bit [of k "drop_bit k x"] unat_drop_bit_eq [of k x]
    by (simp only: drop_bit_eq_div push_bit_eq_mult take_bit_nat_eq_self)
qed

definition up :: "nat \<Rightarrow> nat \<Rightarrow> nat" where
  "up a x = (x + a - 1) div a * a"

lemma up_facts:
  assumes "0 < a"
  shows "x \<le> up a x" "up a x < x + a" "a dvd up a x"
proof -
  let ?y = "x + a - 1"
  have "?y div a * a + ?y mod a = ?y" by (rule div_mult_mod_eq)
  moreover have "?y mod a < a" using assms by simp
  ultimately show "x \<le> up a x" "up a x < x + a" using assms unfolding up_def by linarith+
  show "a dvd up a x" by (simp add: up_def)
qed

lemma up_shift: "a dvd s \<Longrightarrow> 0 < a \<Longrightarrow> up a (s + x) = s + up a x"
proof -
  assume "a dvd s" "0 < a"
  then obtain k where s: "s = a * k" by (auto simp: dvd_def)
  have e: "s + x + a - 1 = (x + a - 1) + k * a" using \<open>0 < a\<close> s by (simp add: mult.commute)
  have "((x + a - 1) + k * a) div a = k + (x + a - 1) div a"
    using \<open>0 < a\<close> by (intro div_mult_self1) simp
  then show ?thesis using e unfolding up_def s by (simp add: distrib_left mult.commute)
qed

lemma up_mono: "x \<le> y \<Longrightarrow> up a x \<le> up a y"
  by (simp add: up_def div_le_mono)

lemma pow2_pos: "pow2 a \<Longrightarrow> 0 < unat a"
  by (auto simp: pow2_def unat_pow2)

lemma pow2_ucast: "pow2 (a :: u32) \<Longrightarrow> pow2 (ucast a :: u64) \<and> unat (ucast a :: u64) = unat a"
proof -
  assume "pow2 a"
  then obtain k where k: "k < 32" "a = 2 ^ k" by (auto simp: pow2_def)
  have "unat (ucast a :: u64) = unat a" by (simp add: unsigned_ucast_eq take_bit_nat_eq_self unat_less_pow [THEN order_less_trans])
  moreover from this have "(ucast a :: u64) = 2 ^ k" using k(1) unfolding k(2) by (simp add: word_unat_eq_iff unat_pow2)
  ultimately show ?thesis using k(1) unfolding pow2_def by (intro conjI exI [of _ k]) simp_all
qed

lemma up_unique: "a dvd y \<Longrightarrow> x \<le> y \<Longrightarrow> y < x + a \<Longrightarrow> y = up a x"
proof -
  assume d: "a dvd y" and x: "x \<le> y" "y < x + a"
  then have a: "0 < a" by linarith
  obtain k where k: "y = a * k" using d by (auto simp: dvd_def)
  obtain j where j: "up a x = a * j" using up_facts(3) [OF a, of x] by (auto simp: dvd_def)
  note u = up_facts(1,2) [OF a, of x]
  have "\<not> k < j"
  proof
    assume "k < j"
    then have "a * (k + 1) \<le> a * j" by (intro mult_le_mono2) simp
    then show False using u x unfolding k j by simp
  qed
  moreover have "\<not> j < k"
  proof
    assume "j < k"
    then have "a * (j + 1) \<le> a * k" by (intro mult_le_mono2) simp
    then show False using u x unfolding k j by simp
  qed
  ultimately show "y = up a x" using k j by simp
qed

lemma up_multiple: "0 < a \<Longrightarrow> a dvd x \<Longrightarrow> up a x = x"
  using up_unique [of a x x] by simp

lemma unat_plus: "unat a + unat b < 2 ^ LENGTH('a) \<Longrightarrow> unat (a + b :: 'a::len word) = unat a + unat b"
  by (simp add: unat_word_ariths)

text \<open>Words modulo a power of two.\<close>

lemma uint_add_mod: "k \<le> LENGTH('a) \<Longrightarrow> uint (a + b :: 'a::len word) mod 2 ^ k = (uint a + uint b) mod 2 ^ k"
  and uint_diff_mod: "k \<le> LENGTH('a) \<Longrightarrow> uint (a - b :: 'a word) mod 2 ^ k = (uint a - uint b) mod 2 ^ k"
  by (simp_all add: uint_word_ariths mod_mod_cancel le_imp_power_dvd)

lemma uint_ucast_mod: "k \<le> LENGTH('a) \<Longrightarrow> uint (ucast x :: 'a::len word) mod 2 ^ k = uint (x :: 'b::len word) mod 2 ^ k"
  by (simp add: unsigned_ucast_eq take_bit_eq_mod mod_mod_cancel le_imp_power_dvd)

lemma unat_mod_uint: "unat x mod 2 ^ k = unat y mod 2 ^ k \<longleftrightarrow> uint x mod 2 ^ k = uint (y :: 'b::len word) mod 2 ^ k"
  for x :: "'a::len word"
proof -
  have i: "int (unat x mod 2 ^ k) = uint x mod 2 ^ k" "int (unat y mod 2 ^ k) = uint y mod 2 ^ k"
    by (simp_all add: zmod_int)
  show ?thesis unfolding i [symmetric] of_nat_eq_iff ..
qed

lemma unat_and_pow2_minus_1: "unat (x AND (2 ^ k - 1) :: 'a::len word) = unat x mod 2 ^ k"
proof -
  have "x AND (2 ^ k - 1) = take_bit k x" by (simp add: take_bit_eq_mask mask_eq_exp_minus_1)
  moreover have "unat (take_bit k x) = take_bit k (unat x)" by (rule unsigned_take_bit_eq)
  ultimately show ?thesis by (simp only: take_bit_eq_mod [of k "unat x"])
qed

lemma unat_ucast_up: "LENGTH('a::len) \<le> LENGTH('b::len) \<Longrightarrow> unat (ucast (x :: 'a word) :: 'b word) = unat x"
proof -
  assume "LENGTH('a) \<le> LENGTH('b)"
  then have "unat x < 2 ^ LENGTH('b)"
    by (rule less_le_trans [OF unat_less_pow power_increasing]) simp
  then show ?thesis by (simp add: unsigned_ucast_eq take_bit_nat_eq_self)
qed

lemma unat_ucast_small: "unat x < 2 ^ LENGTH('b::len) \<Longrightarrow> unat (ucast (x :: 'a::len word) :: 'b word) = unat x"
  by (simp add: unsigned_ucast_eq take_bit_nat_eq_self)

lemma pow2_iff: "pow2 (2 ^ k :: 'a::len word) \<longleftrightarrow> k < LENGTH('a)"
proof
  assume "pow2 (2 ^ k :: 'a word)"
  then obtain i where i: "i < LENGTH('a)" "(2 ^ k :: 'a word) = 2 ^ i" by (auto simp: pow2_def)
  show "k < LENGTH('a)"
  proof (rule ccontr)
    assume "\<not> k < LENGTH('a)"
    then have "(2 ^ k :: 'a word) = 0" by simp
    then show False using i unat_pow2 [OF i(1)] by simp
  qed
qed (auto simp: pow2_def)

end
