(* ===== verification/ErwAlloc.thy ===== *)
theory ErwAlloc
  imports Erw Alignment
begin

section \<open>erw.c: allocation of new space\<close>

text \<open>
  Every edit that needs room asks a bucket, one for each category and alignment. In the
  first pass the buckets are empty, so every request asks for another pass (\<open>e_retry\<close>); the
  layout of \<open>erw_retry\<close> then gives each bucket a range of the size that was asked for.
\<close>

definition extra_phdrs_required_for_category_mask :: "u32 \<Rightarrow> u32" where
  "extra_phdrs_required_for_category_mask category_mask =
    (let bit = (\<lambda>c. push_bit (category_rank c) (1 :: u32));
         result = (if category_mask AND NOT (bit erw_alloc_category_f) \<noteq> 0 then 2 else 0);
         result = result + (if category_mask AND bit erw_alloc_category_v_rx \<noteq> 0 then 1 else 0);
         result = result + (if category_mask AND (bit erw_alloc_category_v_rw OR bit erw_alloc_category_v_rw_zero) \<noteq> 0
                            then 1 else 0)
     in result)"

fun find_bucket :: "alloc_bucket list \<Rightarrow> alloc_category \<Rightarrow> u32 \<Rightarrow> nat option" where
  "find_bucket [] category alignment = None"
| "find_bucket (b # bs) category alignment =
    (if b_category b = category \<and> b_alignment b = alignment then Some 0
     else map_option Suc (find_bucket bs category alignment))"

definition find_alloc_bucket :: "alloc_buckets \<Rightarrow> alloc_category \<Rightarrow> u32 \<Rightarrow> alloc_buckets \<times> nat" where
  "find_alloc_bucket bs category alignment =
    (case find_bucket (bs_base bs) category alignment of
       Some i \<Rightarrow> (bs, i)
     | None \<Rightarrow>
        (let bs = bs\<lparr>bs_category_mask := bs_category_mask bs OR push_bit (category_rank category) 1\<rparr>;
             n = length (bs_base bs);
             capacity = bs_capacity bs;
             bs = (if n = unat capacity
                   then bs\<lparr>bs_capacity := (if capacity \<noteq> 0 then capacity * 2 else 4)\<rparr> else bs)
         in (bs\<lparr>bs_base := bs_base bs @ [\<lparr>b_category = category, b_alignment = alignment,
                                           b_start = 0, b_current = 0, b_end = 0\<rparr>]\<rparr>, n)))"

definition align_up :: "u64 \<Rightarrow> u64 \<Rightarrow> u64" where
  "align_up x a = (x + a - 1) AND - a"

definition alloc_in :: "alloc_buckets \<Rightarrow> alloc_category \<Rightarrow> u32 \<Rightarrow> u64 \<Rightarrow> alloc_buckets \<times> u64 \<times> bool" where
  "alloc_in bs category alignment sz =
    (let alignment = (if alignment = 0 then 1 else alignment);
         (bs, i) = find_alloc_bucket bs category alignment;
         b = bs_base bs ! i;
         result = align_up (b_current b) (ucast alignment);
         b = b\<lparr>b_current := result + sz\<rparr>;
         fits = (b_current b \<le> b_end b)
     in (bs\<lparr>bs_base := (bs_base bs)[i := b]\<rparr>, if fits then result else 0, fits))"

definition erw_alloc :: "'w erw \<Rightarrow> alloc_category \<Rightarrow> u32 \<Rightarrow> u64 \<Rightarrow> 'w erw \<times> u64" where
  "erw_alloc erw category alignment sz =
    (let (bs, result, fits) = alloc_in (e_alloc erw) category alignment sz;
         erw = erw\<lparr>e_alloc := bs\<rparr>
     in (if fits then erw else erw\<lparr>e_retry := True\<rparr>, result))"

text \<open>
  \<open>cmp_alloc_bucket\<close>: categories in their order, then alignments as signed integers. The difference
  of two alignments overflows the \<open>int\<close> of C only when one of them is \<open>2^31\<close>, which no caller asks
  for; it is a difference of integers here.
\<close>

definition cmp_alloc_bucket :: "alloc_bucket \<Rightarrow> alloc_bucket \<Rightarrow> int" where
  "cmp_alloc_bucket bl br =
    (if b_category bl \<noteq> b_category br then int (category_rank (b_category bl)) - int (category_rank (b_category br))
     else sint (b_alignment bl) - sint (b_alignment br))"

subsection \<open>Alignment\<close>

lemma unat_align_up:
  assumes "pow2 a" and "unat x + unat a < 2 ^ 64"
  shows "unat (align_up x a) = up (unat a) (unat x)"
proof -
  obtain k where k: "k < 64" "a = 2 ^ k" using assms(1) by (auto simp: pow2_def)
  have "unat (x + a - 1) = unat x + unat a - 1"
    using assms(2) pow2_pos [OF assms(1)] by (simp add: unat_sub_if_size unat_word_ariths)
  then show ?thesis
    using k unat_and_minus_pow2 [of k "x + a - 1"] by (simp add: align_up_def up_def unat_pow2)
qed


subsection \<open>Buckets by key\<close>

declare split_paired_All [simp del]

type_synonym bucket_key = "alloc_category \<times> u32"

definition key_of :: "alloc_bucket \<Rightarrow> bucket_key" where
  "key_of b = (b_category b, b_alignment b)"

text \<open>The bucket of a key, an empty one when there is none yet.\<close>

definition bucket :: "alloc_bucket list \<Rightarrow> bucket_key \<Rightarrow> alloc_bucket" where
  "bucket bs k = (case find_bucket bs (fst k) (snd k) of Some i \<Rightarrow> bs ! i
     | None \<Rightarrow> \<lparr>b_category = fst k, b_alignment = snd k, b_start = 0, b_current = 0, b_end = 0\<rparr>)"

lemma find_bucket_Some: "find_bucket bs (fst k) (snd k) = Some i \<Longrightarrow> i < length bs \<and> key_of (bs ! i) = k"
  by (induction bs arbitrary: i) (auto simp: key_of_def split: if_splits)

lemma find_bucket_None: "find_bucket bs (fst k) (snd k) = None \<longleftrightarrow> k \<notin> key_of ` set bs"
  by (induction bs) (auto simp: key_of_def)

lemma find_bucket_keys: "map key_of bs = map key_of bs' \<Longrightarrow> find_bucket bs c a = find_bucket bs' c a"
proof (induction bs arbitrary: bs')
  case (Cons b bs)
  then obtain b' bs'' where "bs' = b' # bs''" "key_of b = key_of b'" "map key_of bs = map key_of bs''"
    by (cases bs') auto
  then show ?case using Cons.IH [OF \<open>map key_of bs = map key_of bs''\<close>] by (simp add: key_of_def)
qed simp

lemma find_bucket_append:
  "find_bucket (bs @ [b]) (fst k) (snd k) =
    (case find_bucket bs (fst k) (snd k) of Some i \<Rightarrow> Some i
     | None \<Rightarrow> if key_of b = k then Some (length bs) else None)"
  by (induction bs) (auto simp: key_of_def split: option.splits)

lemma key_of_bucket [simp]: "b_category (bucket bs k) = fst k" "b_alignment (bucket bs k) = snd k"
  using find_bucket_Some [of bs k] by (auto simp: bucket_def key_of_def split: option.splits)

lemma bucket_update:
  assumes f: "find_bucket bs (fst k) (snd k) = Some i" and b: "key_of b = k"
  shows "bucket (bs[i := b]) k' = (if k' = k then b else bucket bs k')"
proof -
  note i = find_bucket_Some [OF f]
  have keys: "map key_of (bs[i := b]) = map key_of bs"
    using i b by (simp add: map_update list_update_same_conv)
  have "find_bucket bs (fst k') (snd k') = Some j \<Longrightarrow> k' \<noteq> k \<Longrightarrow> j \<noteq> i" for j
    using find_bucket_Some [of bs k' j] i by auto
  then show ?thesis
    using f i find_bucket_keys [OF keys] by (auto simp: bucket_def split: option.splits)
qed

lemma bucket_append:
  assumes "find_bucket bs (fst k) (snd k) = None" and "key_of b = k"
  shows "bucket (bs @ [b]) k' = (if k' = k then b else bucket bs k')"
proof (cases "find_bucket bs (fst k') (snd k')")
  case None
  then show ?thesis using assms by (auto simp: bucket_def find_bucket_append)
next
  case (Some i)
  then have "k' \<noteq> k" "i < length bs" using assms(1) find_bucket_Some [OF Some] by auto
  then show ?thesis using Some by (simp add: bucket_def find_bucket_append nth_append)
qed

definition norm :: "u32 \<Rightarrow> u32" where
  "norm a = (if a = 0 then 1 else a)"

lemma find_alloc_bucket_new:
  assumes "find_bucket (bs_base bs) c a = None"
  shows "\<exists>bs1. find_alloc_bucket bs c a = (bs1, length (bs_base bs)) \<and> bs_base bs1 = bs_base bs @
    [\<lparr>b_category = c, b_alignment = a, b_start = 0, b_current = 0, b_end = 0\<rparr>]"
  using assms by (simp add: find_alloc_bucket_def Let_def)

lemma alloc_in_spec:
  assumes "alloc_in bs c a sz = (bs', r, fits)"
  shows "let k = (c, norm a); b = bucket (bs_base bs) k; x = align_up (b_current b) (ucast (norm a)) in
    (\<forall>k'. bucket (bs_base bs') k' = (if k' = k then b\<lparr>b_current := x + sz\<rparr> else bucket (bs_base bs) k')) \<and>
    key_of ` set (bs_base bs') = insert k (key_of ` set (bs_base bs)) \<and>
    (distinct (map key_of (bs_base bs)) \<longrightarrow> distinct (map key_of (bs_base bs'))) \<and>
    fits = (x + sz \<le> b_end b) \<and> r = (if fits then x else 0)"
proof -
  let ?k = "(c, norm a)"
  have nk: "(if a = 0 then 1 else a) = norm a" by (simp add: norm_def)
  show ?thesis
  proof (cases "find_bucket (bs_base bs) c (norm a)")
    case (Some i)
    note i = find_bucket_Some [of "bs_base bs" ?k i, simplified, OF Some]
    have b: "bucket (bs_base bs) ?k = bs_base bs ! i" using Some by (simp add: bucket_def)
    let ?b = "(bs_base bs ! i)\<lparr>b_current := align_up (b_current (bs_base bs ! i)) (ucast (norm a)) + sz\<rparr>"
    have kb: "key_of ?b = ?k" using i by (simp add: key_of_def)
    have keys: "map key_of ((bs_base bs)[i := ?b]) = map key_of (bs_base bs)"
      using i kb by (simp add: map_update list_update_same_conv)
    have "bs' = bs\<lparr>bs_base := (bs_base bs)[i := ?b]\<rparr>"
      "fits = (align_up (b_current (bs_base bs ! i)) (ucast (norm a)) + sz \<le> b_end (bs_base bs ! i))"
      "r = (if fits then align_up (b_current (bs_base bs ! i)) (ucast (norm a)) else 0)"
      using assms Some unfolding alloc_in_def nk by (auto simp: Let_def find_alloc_bucket_def)
    moreover have "key_of ` set ((bs_base bs)[i := ?b]) = insert ?k (key_of ` set (bs_base bs))"
      using i by (metis imageI insert_absorb keys list.set_map nth_mem)
    ultimately show ?thesis
      using bucket_update [of "bs_base bs" ?k i ?b] Some kb b keys by (simp add: Let_def)
  next
    case None
    let ?n = "\<lparr>b_category = c, b_alignment = norm a, b_start = 0, b_current = 0, b_end = 0\<rparr>"
    have b: "bucket (bs_base bs) ?k = ?n" using None by (simp add: bucket_def)
    let ?b = "?n\<lparr>b_current := align_up 0 (ucast (norm a)) + sz\<rparr>"
    obtain bs1 where bs1: "find_alloc_bucket bs c (norm a) = (bs1, length (bs_base bs))" "bs_base bs1 = bs_base bs @ [?n]"
      using find_alloc_bucket_new [OF None] by blast
    have base: "bs_base bs' = bs_base bs @ [?b]"
      and rest: "fits = (align_up 0 (ucast (norm a)) + sz \<le> 0)" "r = (if fits then align_up 0 (ucast (norm a)) else 0)"
      using assms bs1 unfolding alloc_in_def nk by (auto simp: Let_def nth_append)
    have "?k \<notin> key_of ` set (bs_base bs)" using find_bucket_None [of "bs_base bs" ?k] None by simp
    then show ?thesis
      using bucket_append [of "bs_base bs" ?k ?b] None base rest b by (auto simp: Let_def key_of_def)
  qed
qed


subsection \<open>Replaying the requests of a pass\<close>

text \<open>
  A pass makes a list of requests. \<open>used\<close> is where the current position of a bucket ends
  up; shifting the start by a multiple of the alignment shifts every position with it.
\<close>

type_synonym request = "alloc_category \<times> u32 \<times> u64"

fun alloc_run :: "alloc_buckets \<Rightarrow> request list \<Rightarrow> alloc_buckets \<times> u64 list \<times> bool" where
  "alloc_run bs [] = (bs, [], True)"
| "alloc_run bs ((c, a, sz) # rs) =
    (let (bs1, r, f) = alloc_in bs c a sz; (bs2, xs, fs) = alloc_run bs1 rs in (bs2, r # xs, f \<and> fs))"

definition req_key :: "request \<Rightarrow> bucket_key" where
  "req_key r = (fst r, norm (fst (snd r)))"

definition req_size :: "request \<Rightarrow> nat" where
  "req_size r = unat (snd (snd r))"

definition cost :: "request list \<Rightarrow> nat" where
  "cost rs = sum_list (map (\<lambda>r. req_size r + unat (snd (req_key r))) rs)"

fun used :: "nat \<Rightarrow> nat \<Rightarrow> nat list \<Rightarrow> nat" where
  "used a x [] = x"
| "used a x (s # ss) = used a (up a x + s) ss"

definition sizes :: "bucket_key \<Rightarrow> request list \<Rightarrow> nat list" where
  "sizes k rs = map req_size (filter (\<lambda>r. req_key r = k) rs)"

lemma sizes_simps [simp]:
  "sizes k [] = []" "sizes k (r # rs) = (if req_key r = k then [req_size r] else []) @ sizes k rs"
  by (simp_all add: sizes_def)

lemma used_le: "0 < a \<Longrightarrow> x \<le> used a x ss"
proof (induction ss arbitrary: x)
  case (Cons s ss)
  then have "up a x + s \<le> used a (up a x + s) ss" by simp
  then show ?case using up_facts(1) [OF Cons.prems, of x] by simp
qed simp

lemma used_shift: "a dvd s \<Longrightarrow> 0 < a \<Longrightarrow> used a (s + x) ss = s + used a x ss"
  by (induction ss arbitrary: x) (simp_all add: up_shift add.assoc)

definition requests_ok :: "request list \<Rightarrow> bool" where
  "requests_ok rs \<longleftrightarrow> (\<forall>r \<in> set rs. pow2 (snd (req_key r)))"

lemma used_cost:
  "requests_ok rs \<Longrightarrow> used (unat (snd k)) x (sizes k rs) \<le> x + cost rs"
proof (induction rs arbitrary: x)
  case (Cons r rs)
  have IH: "used (unat (snd k)) y (sizes k rs) \<le> y + cost rs" for y
    using Cons by (simp add: requests_ok_def)
  have c: "cost (r # rs) = req_size r + unat (snd (req_key r)) + cost rs" by (simp add: cost_def)
  show ?case
  proof (cases "req_key r = k")
    case True
    then have "0 < unat (snd k)" using Cons.prems pow2_pos by (auto simp: requests_ok_def)
    then show ?thesis using True IH [of "up (unat (snd k)) x + req_size r"] up_facts(2) [of "unat (snd k)" x] c by simp
  next
    case False
    then show ?thesis using IH [of x] c by simp
  qed
qed (simp add: cost_def)

text \<open>The buckets whose positions stay below \<open>2 ^ 63\<close> whatever the requests are.\<close>

definition roomy :: "alloc_buckets \<Rightarrow> nat \<Rightarrow> bool" where
  "roomy bs n \<longleftrightarrow> (\<forall>k. unat (b_current (bucket (bs_base bs) k)) + n < 2 ^ 63)"

lemma alloc_step:
  assumes "alloc_in bs (fst r) (fst (snd r)) (snd (snd r)) = (bs', x, fits)" and "pow2 (snd (req_key r))"
    and "roomy bs (req_size r + unat (snd (req_key r)) + n)"
  shows "roomy bs' n"
    and "\<And>k'. bucket (bs_base bs') k' = (if k' = req_key r
      then (bucket (bs_base bs) k')\<lparr>b_current := b_current (bucket (bs_base bs') k')\<rparr> else bucket (bs_base bs) k')"
    and "unat (b_current (bucket (bs_base bs') (req_key r))) =
      up (unat (snd (req_key r))) (unat (b_current (bucket (bs_base bs) (req_key r)))) + req_size r"
    and "key_of ` set (bs_base bs') = insert (req_key r) (key_of ` set (bs_base bs)) \<and>
      (distinct (map key_of (bs_base bs)) \<longrightarrow> distinct (map key_of (bs_base bs')))"
    and "fits \<longleftrightarrow> unat (b_current (bucket (bs_base bs') (req_key r))) \<le> unat (b_end (bucket (bs_base bs) (req_key r)))"
    and "fits \<Longrightarrow> unat x = up (unat (snd (req_key r))) (unat (b_current (bucket (bs_base bs) (req_key r))))"
proof -
  let ?k = "req_key r" let ?b = "bucket (bs_base bs) ?k" let ?a = "snd ?k"
  define y where "y = align_up (b_current ?b) (ucast ?a)"
  have kk: "(fst r, norm (fst (snd r))) = ?k" "norm (fst (snd r)) = ?a" by (simp_all add: req_key_def)
  note sp = alloc_in_spec [OF assms(1), unfolded Let_def, unfolded kk(1), unfolded kk(2), folded y_def]
  have b': "bucket (bs_base bs') k' = (if k' = ?k then ?b\<lparr>b_current := y + snd (snd r)\<rparr> else bucket (bs_base bs) k')" for k'
    using sp by (elim conjE allE [of _ k'])
  have keys: "key_of ` set (bs_base bs') = insert ?k (key_of ` set (bs_base bs)) \<and>
      (distinct (map key_of (bs_base bs)) \<longrightarrow> distinct (map key_of (bs_base bs')))"
    and f: "fits = (y + snd (snd r) \<le> b_end ?b)" and x: "x = (if fits then y else 0)"
    using sp by blast+
  have room: "unat (b_current ?b) + (req_size r + unat ?a + n) < 2 ^ 63" using assms(3) [unfolded roomy_def, THEN spec, of ?k] by simp
  have pa: "pow2 (ucast ?a :: u64)" "unat (ucast ?a :: u64) = unat ?a" using pow2_ucast [OF assms(2)] by simp_all
  have y: "unat y = up (unat ?a) (unat (b_current ?b))"
    unfolding y_def using unat_align_up [OF pa(1), of "b_current ?b"] room pa(2) by simp
  have yb: "unat y < unat (b_current ?b) + unat ?a" using y up_facts(2) [OF pow2_pos [OF assms(2)]] by simp
  have ys: "unat (y + snd (snd r)) = unat y + req_size r"
    using yb room by (simp add: unat_word_ariths req_size_def)
  show "roomy bs' n"
    unfolding roomy_def
  proof
    fix k
    have "unat (b_current (bucket (bs_base bs) k)) + n < 2 ^ 63"
      using assms(3) unfolding roomy_def by (metis add_lessD1 add.assoc add.commute)
    then show "unat (b_current (bucket (bs_base bs') k)) + n < 2 ^ 63"
      using b' [of k] ys yb room by simp
  qed
  show "key_of ` set (bs_base bs') = insert ?k (key_of ` set (bs_base bs)) \<and>
      (distinct (map key_of (bs_base bs)) \<longrightarrow> distinct (map key_of (bs_base bs')))" by (rule keys)
  show "unat (b_current (bucket (bs_base bs') ?k)) = up (unat ?a) (unat (b_current ?b)) + req_size r"
    using b' [of ?k] ys y by simp
  show "fits \<longleftrightarrow> unat (b_current (bucket (bs_base bs') ?k)) \<le> unat (b_end ?b)"
    using b' [of ?k] f by (simp add: word_le_nat_alt)
  show "bucket (bs_base bs') k' = (if k' = ?k
      then (bucket (bs_base bs) k')\<lparr>b_current := b_current (bucket (bs_base bs') k')\<rparr> else bucket (bs_base bs) k')" for k'
    using b' [of k'] b' [of ?k] by simp
  show "unat x = up (unat ?a) (unat (b_current ?b))" if fits using x y that by simp
qed

text \<open>Where the blocks of the requests are put, given the current position of every bucket.\<close>

fun places :: "(bucket_key \<Rightarrow> nat) \<Rightarrow> request list \<Rightarrow> nat list" where
  "places cur [] = []"
| "places cur (r # rs) =
    (let p = up (unat (snd (req_key r))) (cur (req_key r)) in p # places (cur(req_key r := p + req_size r)) rs)"

definition currents :: "alloc_buckets \<Rightarrow> bucket_key \<Rightarrow> nat" where
  "currents bs k = unat (b_current (bucket (bs_base bs) k))"

lemma alloc_run_ok:
  assumes "requests_ok rs" and "roomy bs (cost rs)" and "alloc_run bs rs = (bs', xs, fits)"
  shows "(\<forall>k. currents bs' k = used (unat (snd k)) (currents bs k) (sizes k rs)) \<and>
    (\<forall>k. b_start (bucket (bs_base bs') k) = b_start (bucket (bs_base bs) k) \<and>
         b_end (bucket (bs_base bs') k) = b_end (bucket (bs_base bs) k)) \<and>
    key_of ` set (bs_base bs') = req_key ` set rs \<union> key_of ` set (bs_base bs) \<and>
    ((\<forall>k \<in> req_key ` set rs. currents bs' k \<le> unat (b_end (bucket (bs_base bs) k))) \<longrightarrow> fits) \<and>
    (fits \<longrightarrow> map unat xs = places (currents bs) rs) \<and> length xs = length rs \<and>
    (distinct (map key_of (bs_base bs)) \<longrightarrow> distinct (map key_of (bs_base bs')))"
  using assms
proof (induction rs arbitrary: bs bs' xs fits)
  case (Cons r rs)
  let ?k = "req_key r" let ?a = "unat (snd ?k)"
  obtain bs1 x f where step: "alloc_in bs (fst r) (fst (snd r)) (snd (snd r)) = (bs1, x, f)" by (metis prod.exhaust)
  obtain ys fs where rest: "alloc_run bs1 rs = (bs', ys, fs)" and xs: "xs = x # ys" and fits: "fits = (f \<and> fs)"
    using Cons.prems(3) step by (cases r) (auto simp: Let_def split: prod.splits)
  have ok: "requests_ok rs" "pow2 (snd ?k)" using Cons.prems(1) by (simp_all add: requests_ok_def)
  have "roomy bs (req_size r + ?a + cost rs)" using Cons.prems(2) by (simp add: cost_def add.assoc)
  note st = alloc_step [OF step ok(2) this]
  note ih = Cons.IH [OF ok(1) st(1) rest]
  have cur: "currents bs1 = (currents bs)(?k := up ?a (currents bs ?k) + req_size r)"
  proof
    fix k
    show "currents bs1 k = ((currents bs)(?k := up ?a (currents bs ?k) + req_size r)) k"
      using st(2) [of k] st(3) by (auto simp: currents_def)
  qed
  have same: "b_start (bucket (bs_base bs1) k) = b_start (bucket (bs_base bs) k) \<and>
      b_end (bucket (bs_base bs1) k) = b_end (bucket (bs_base bs) k)" for k
    by (subst (1 2) st(2)) simp
  have c': "\<forall>k. currents bs' k = used (unat (snd k)) (currents bs1 k) (sizes k rs)" using ih by blast
  have "currents bs1 ?k \<le> currents bs' ?k" using c' used_le [OF pow2_pos [OF ok(2)]] by simp
  then have fit: "currents bs' ?k \<le> unat (b_end (bucket (bs_base bs) ?k)) \<Longrightarrow> f"
    using st(5) by (simp add: currents_def)
  have "\<forall>k. currents bs' k = used (unat (snd k)) (currents bs k) (sizes k (r # rs))"
    using c' by (simp add: cur)
  moreover have "places (currents bs) (r # rs) = up ?a (currents bs ?k) # places (currents bs1) rs"
    by (simp only: places.simps Let_def cur)
  then have "fits \<longrightarrow> map unat xs = places (currents bs) (r # rs)"
    using ih st(6) by (simp add: xs fits currents_def [symmetric] del: places.simps)
  moreover have "key_of ` set (bs_base bs') = req_key ` set (r # rs) \<union> key_of ` set (bs_base bs)"
    using ih st(4) by auto
  moreover have "(\<forall>k \<in> req_key ` set (r # rs). currents bs' k \<le> unat (b_end (bucket (bs_base bs) k))) \<longrightarrow> fits"
    using ih fit same by (simp add: fits)
  ultimately show ?case using ih same xs st(4) by simp
qed (simp add: currents_def)

lemma places_facts:
  assumes "requests_ok rs" and "i < length rs"
  shows "cur (req_key (rs ! i)) \<le> places cur rs ! i \<and>
    unat (snd (req_key (rs ! i))) dvd places cur rs ! i \<and>
    places cur rs ! i + req_size (rs ! i) \<le>
      used (unat (snd (req_key (rs ! i)))) (cur (req_key (rs ! i))) (sizes (req_key (rs ! i)) rs)"
  using assms
proof (induction rs arbitrary: cur i)
  case (Cons r rs)
  let ?k = "req_key r" let ?a = "unat (snd ?k)"
  have a: "0 < ?a" "requests_ok rs" using Cons.prems(1) pow2_pos by (auto simp: requests_ok_def)
  show ?case
  proof (cases i)
    case 0
    then show ?thesis using up_facts [OF a(1), of "cur ?k"] used_le [OF a(1)] by (simp add: Let_def)
  next
    case (Suc j)
    then have j: "j < length rs" using Cons.prems(2) by simp
    define cur' where "cur' = cur(?k := up ?a (cur ?k) + req_size r)"
    have "places cur (r # rs) ! i = places cur' rs ! j" by (simp add: Let_def cur'_def Suc)
    moreover have "cur (req_key (rs ! j)) \<le> cur' (req_key (rs ! j))"
      using up_facts(1) [OF a(1), of "cur ?k"] by (simp add: cur'_def)
    moreover have "used (unat (snd k)) (cur' k) (sizes k rs) = used (unat (snd k)) (cur k) (sizes k (r # rs))" for k
      by (simp add: cur'_def)
    ultimately show ?thesis using Cons.IH [OF a(2) j, of cur'] Suc by simp
  qed
qed simp

lemma length_places [simp]: "length (places cur rs) = length rs"
  by (induction rs arbitrary: cur) (simp_all add: Let_def)

lemma places_apart:
  assumes "requests_ok rs" and "i < j" and "j < length rs" and "req_key (rs ! i) = req_key (rs ! j)"
  shows "places cur rs ! i + req_size (rs ! i) \<le> places cur rs ! j"
  using assms
proof (induction rs arbitrary: cur i j)
  case (Cons r rs)
  let ?k = "req_key r" let ?a = "unat (snd ?k)" let ?cur = "cur(?k := up ?a (cur ?k) + req_size r)"
  define cur' where "cur' = ?cur"
  have pl: "places cur (r # rs) ! Suc m = places cur' rs ! m" for m by (simp add: Let_def cur'_def)
  have ok: "requests_ok rs" using Cons.prems(1) by (simp add: requests_ok_def)
  obtain j' where j: "j = Suc j'" "j' < length rs" using Cons.prems(2,3) by (cases j) auto
  show ?case
  proof (cases i)
    case 0
    then show ?thesis using places_facts [OF ok j(2), of ?cur] Cons.prems(4) j by (simp add: Let_def)
  next
    case (Suc i')
    then show ?thesis using Cons.IH [OF ok, of i' j' cur'] Cons.prems(2,4) j by (simp only: pl) simp
  qed
qed simp

end
