(* ===== verification/Layout.thy ===== *)
theory Layout
  imports ErwAlloc
begin

section \<open>erw_nne.h, erwNNE_(retry): laying out the new space\<close>

text \<open>
  The first half of \<open>erwNNE_(retry)\<close>: find where the original segments end, sort the
  buckets, and give each one a range of the file, or of the address space and the file
  together, with new \<open>PT_LOAD\<close> headers behind the original ones.
\<close>

subsection \<open>The code\<close>

fun insert_bucket :: "alloc_bucket \<Rightarrow> alloc_bucket list \<Rightarrow> alloc_bucket list" where
  "insert_bucket b [] = [b]"
| "insert_bucket b (c # cs) = (if cmp_alloc_bucket b c \<le> 0 then b # c # cs else c # insert_bucket b cs)"

definition sort_buckets :: "alloc_bucket list \<Rightarrow> alloc_bucket list" where
  "sort_buckets bs = foldr insert_bucket bs []"

definition layout_start_one :: "bool \<Rightarrow> 'a::len word phdr \<Rightarrow> u64 \<times> u64 \<times> u64 \<Rightarrow> u64 \<times> u64 \<times> u64" where
  "layout_start_one bs itr s = (case s of (f, v, page_size) \<Rightarrow>
     if esw bs (p_type itr) \<noteq> PT_LOAD then (f, v, page_size)
     else let itr_f = ucast (esw bs (p_offset itr) + esw bs (p_filesz itr)) :: u64;
              itr_v = ucast (esw bs (p_vaddr itr) + esw bs (p_memsz itr)) :: u64;
              itr_a = ucast (esw bs (p_align itr)) :: u64
          in (if f < itr_f then itr_f else f,
              if v < itr_v then itr_v else v,
              if itr_a > page_size \<and> itr_a \<le> 0x10000 \<and> itr_a AND (itr_a - 1) = 0 then itr_a else page_size))"

definition layout_start :: "bool \<Rightarrow> u64 \<Rightarrow> u64 \<Rightarrow> 'a::len word phdr list \<Rightarrow> u64 \<times> u64 \<times> u64" where
  "layout_start bs guest_page_size original_f_size phdrs =
    (let (f, v, page_size) = fold (layout_start_one bs) phdrs (0, 0, guest_page_size);
         f = (f + page_size - 1) AND - page_size;
         v = (v + page_size - 1) AND - page_size
     in (if f < original_f_size then original_f_size else f, v, page_size))"

definition find_load :: "bool \<Rightarrow> 'a::len word phdr list \<Rightarrow> 'a word phdr option" where
  "find_load bs phdrs = find (\<lambda>p. p_type p = esw bs PT_LOAD) phdrs"

text \<open>\<open>to\<close> raised until it is congruent to \<open>from\<close> modulo the alignment.\<close>

definition congruent_up :: "'a::len word \<Rightarrow> u64 \<Rightarrow> u64 \<Rightarrow> u64" where
  "congruent_up align frm to =
    (let vf = (to AND ucast (- align)) + (frm AND ucast (align - 1))
     in if vf < to then vf + ucast align else vf)"

text \<open>The adjustment for \<open>erw_phdrs_bug_workaround\<close>.\<close>

definition first_load_adjust :: "bool \<Rightarrow> u64 \<Rightarrow> 'a::len word \<Rightarrow> 'a word phdr option \<Rightarrow> u64 \<times> u64 \<Rightarrow> u64 \<times> u64" where
  "first_load_adjust bs page_size align first_load s = (case s of (f, v) \<Rightarrow> case first_load of None \<Rightarrow> (f, v)
     | Some fl \<Rightarrow>
        let required = ucast (esw bs (p_vaddr fl)) + f - v
        in if esw bs (p_offset fl) \<noteq> ucast required \<and> sint required < 0 then
             (let required = required AND - page_size; f = f - required in (congruent_up align v f, v))
           else if esw bs (p_offset fl) < ucast required \<and> p_filesz fl \<noteq> 0 then
             (let excess = ucast required - esw bs (p_offset fl)
              in if excess \<le> 0x40000 \<and> ucast excess AND (page_size - 1) = 0 then (f, v + ucast excess) else (f, v))
           else (f, v))"

definition load_flags :: "alloc_category \<Rightarrow> u32" where
  "load_flags category =
    (PF_R OR (if category = erw_alloc_category_v_rx then PF_X else 0)
       OR (if category = erw_alloc_category_v_rw \<or> category = erw_alloc_category_v_rw_zero then PF_W else 0))"

definition align_bump :: "u32 \<Rightarrow> u64 \<Rightarrow> u32" where
  "align_bump alignment v = (alignment - ucast v) AND (alignment - 1)"

text \<open>A new segment: its header up to the sizes, and the positions in the file and the address space.\<close>

definition new_load :: "bool \<Rightarrow> u64 \<Rightarrow> 'a::len word phdr option \<Rightarrow> bool \<Rightarrow> u32 \<Rightarrow> u32 \<Rightarrow> u64 \<times> u64 \<Rightarrow> 'a word phdr \<times> u64 \<times> u64" where
  "new_load bs page_size original_first_load at_base flags alignment s = (case s of (f, v) \<Rightarrow>
    let first_load = (if flags = PF_R then original_first_load else None);
        align = ucast page_size;
        align = (case first_load of Some fl \<Rightarrow> if esw bs (p_align fl) > align then esw bs (p_align fl) else align
                 | None \<Rightarrow> align);
        v = (v + page_size - 1) AND - page_size;
        v = congruent_up align f v;
        (f, v) = first_load_adjust bs page_size align first_load (f, v);
        bump = ucast (align_bump alignment v);
        v = v + bump;
        f = f + bump;
        (off, va) = (if f = v \<and> at_base \<and> flags = PF_R then (0, 0) else (esw bs (ucast f), esw bs (ucast v)))
    in (\<lparr>p_type = esw bs PT_LOAD, p_flags = esw bs flags, p_offset = off, p_vaddr = va, p_paddr = va,
         p_filesz = 0, p_memsz = 0, p_align = esw bs align\<rparr>, f, v))"

record 'w layout =
  l_f :: u64
  l_v :: u64
  l_phdrs :: "'w phdr list"
  l_ld :: bool

text \<open>\<open>l_ld\<close>: \<open>ld\<close> is not null; it is the last header then.\<close>

definition lay_f :: "alloc_bucket \<Rightarrow> u64 \<Rightarrow> 'w layout \<Rightarrow> alloc_bucket \<times> 'w layout" where
  "lay_f b sz l =
    (let f = (l_f l + ucast (b_alignment b) - 1) AND - ucast (b_alignment b)
     in (b\<lparr>b_start := f, b_current := f, b_end := f + sz\<rparr>, l\<lparr>l_f := f + sz\<rparr>))"

definition lay_v :: "bool \<Rightarrow> alloc_bucket \<Rightarrow> u64 \<Rightarrow> 'a::len word layout \<Rightarrow> alloc_bucket \<times> 'a word layout" where
  "lay_v bs b sz l =
    (let ld = last (l_phdrs l);
         bump = ucast (align_bump (b_alignment b) (l_v l));
         start = l_v l + bump;
         v = start + sz;
         f = (if b_category b \<noteq> erw_alloc_category_v_rw_zero then l_f l + (bump + sz) else l_f l);
         ld = ld\<lparr>p_memsz := esw bs (ucast (v - ucast (esw bs (p_vaddr ld)))),
                 p_filesz := esw bs (ucast (f - ucast (esw bs (p_offset ld))))\<rparr>
     in (b\<lparr>b_start := start, b_current := start, b_end := v\<rparr>,
         l\<lparr>l_v := v, l_f := f, l_phdrs := butlast (l_phdrs l) @ [ld]\<rparr>))"

definition open_load :: "bool \<Rightarrow> u64 \<Rightarrow> 'a::len word phdr option \<Rightarrow> alloc_bucket \<Rightarrow> 'a word layout \<Rightarrow> 'a word layout" where
  "open_load bs page_size first_load b l =
    (let flags = load_flags (b_category b)
     in if \<not> l_ld l \<or> p_flags (last (l_phdrs l)) \<noteq> flags then
          (let (ld, f, v) = new_load bs page_size first_load (l_phdrs l = []) flags (b_alignment b) (l_f l, l_v l)
           in l\<lparr>l_f := f, l_v := v, l_phdrs := l_phdrs l @ [ld], l_ld := True\<rparr>)
        else l)"

definition lay_bucket :: "bool \<Rightarrow> u64 \<Rightarrow> 'a::len word phdr option \<Rightarrow> alloc_bucket \<Rightarrow> 'a word layout \<Rightarrow> alloc_bucket \<times> 'a word layout" where
  "lay_bucket bs page_size first_load b l =
    (let sz = (if b_current b > b_end b then b_current b else b_end b) - b_start b
     in if b_category b = erw_alloc_category_f then lay_f b sz l
        else lay_v bs b sz (open_load bs page_size first_load b l))"

fun lay_buckets :: "bool \<Rightarrow> u64 \<Rightarrow> 'a::len word phdr option \<Rightarrow> alloc_bucket list \<Rightarrow> 'a word layout \<Rightarrow>
    alloc_bucket list \<times> 'a word layout" where
  "lay_buckets bs page_size fl [] l = ([], l)"
| "lay_buckets bs page_size fl (b # rest) l =
    (let (b, l) = lay_bucket bs page_size fl b l; (rest, l) = lay_buckets bs page_size fl rest l in (b # rest, l))"

definition retry_layout :: "'a::len word erw \<Rightarrow> alloc_buckets \<times> 'a word layout" where
  "retry_layout erw =
    (let bs = e_bswap erw;
         phdrs = o_phdrs (e_original erw);
         (f, v, page_size) = layout_start bs (e_guest_page_size erw) (o_f_size (e_original erw)) phdrs;
         (base, l) = lay_buckets bs page_size (find_load bs phdrs) (sort_buckets (bs_base (e_alloc erw)))
                       \<lparr>l_f = f, l_v = v, l_phdrs = phdrs, l_ld = False\<rparr>
     in ((e_alloc erw)\<lparr>bs_base := base\<rparr>, l))"

text \<open>
  The block of program headers has \<open>retry_capacity\<close> elements, or more when the editor has a larger
  one already. The original headers and those of the new segments are written into it; writing
  behind its end is \<open>None\<close>. So \<open>open_load\<close> above only collects the headers that are written, and
  \<open>retry_headers\<close> is the layout that is actually carried out.
\<close>

definition new_phdrs :: "'a::len word phdr editor \<Rightarrow> u32 \<Rightarrow> 'a word phdr list \<Rightarrow> 'a word phdr editor option" where
  "new_phdrs ed phdr_capacity ps =
    (let ed = (if ed_capacity ed < phdr_capacity
               then ed\<lparr>ed_heap := replicate (unat phdr_capacity) None, ed_capacity := phdr_capacity\<rparr> else ed)
     in if length ps \<le> length (ed_heap ed)
        then Some (ed\<lparr>ed_live := True, ed_heap := map Some ps @ drop (length ps) (ed_heap ed), ed_count := of_nat (length ps)\<rparr>)
        else None)"

definition retry_capacity :: "'w erw \<Rightarrow> u32" where
  "retry_capacity erw = of_nat (length (o_phdrs (e_original erw))) +
     extra_phdrs_required_for_category_mask (bs_category_mask (e_alloc erw))"

definition retry_headers :: "'a::len word erw \<Rightarrow> (alloc_buckets \<times> 'a word layout \<times> 'a word phdr editor) option" where
  "retry_headers erw =
    (let (buckets, l) = retry_layout erw
     in map_option (\<lambda>ed. (buckets, l, ed)) (new_phdrs (e_phdrs erw) (retry_capacity erw) (l_phdrs l)))"

end
