(* ===== verification/LayoutSteps.thy ===== *)
theory LayoutSteps
  imports Layout
begin

section \<open>The layout: one bucket after the other\<close>

text \<open>
  Word arithmetic of the layout read as natural numbers, what opening a segment does, and the
  invariant that laying out the buckets in order keeps.
\<close>

subsection \<open>Alignment and congruence\<close>

lemma unat_align_bump:
  assumes "pow2 al"
  shows "unat v + unat (align_bump al v) = up (unat al) (unat v)"
proof -
  obtain k where k: "k < 32" "al = 2 ^ k" using assms by (auto simp: pow2_def)
  let ?m = "(2::int) ^ k" let ?b = "align_bump al v"
  have b: "int (unat ?b) = uint (al - ucast v) mod ?m"
    using unat_and_pow2_minus_1 [of "al - ucast v" k] by (simp add: align_bump_def k zmod_int)
  have al0: "uint al mod ?m = 0 mod ?m" using k unat_pow2 [of k, where 'a = 32] by (simp add: uint_nat)
  have v0: "uint (ucast v :: u32) mod ?m = uint v mod ?m" using k by (intro uint_ucast_mod) simp
  have "uint (al - ucast v) mod ?m = (uint al - uint (ucast v :: u32)) mod ?m" using k by (intro uint_diff_mod) simp
  then have "uint (al - ucast v) mod ?m = (0 - uint v) mod ?m" using mod_diff_cong [OF al0 v0] by (rule trans)
  with b have b: "uint ?b = (- uint v) mod ?m" by (simp only: uint_nat diff_0)
  have "(uint v + (- uint v) mod ?m) mod ?m = (uint v + - uint v) mod ?m" by (rule mod_add_right_eq)
  then have "(uint v + uint ?b) mod ?m = 0" by (simp only: b right_minus mod_0)
  then have z: "?m dvd uint v + uint ?b" by (rule dvd_eq_mod_eq_0 [THEN iffD2])
  have "int (2 ^ k) dvd int (unat v + unat ?b)" using z by (simp only: uint_nat of_nat_add of_nat_power of_nat_numeral)
  then have d: "2 ^ k dvd unat v + unat ?b" by (rule of_nat_dvd_iff [THEN iffD1])
  have "uint ?b < ?m" unfolding b by (rule pos_mod_bound) simp
  then have "int (unat ?b) < int (2 ^ k)" by (simp only: uint_nat of_nat_power of_nat_numeral)
  then have "unat ?b < 2 ^ k" by (simp only: of_nat_less_iff)
  with d show ?thesis using k by (intro up_unique) (simp_all add: unat_pow2)
qed

lemma congruent_up_ok:
  fixes align :: "'a::len word"
  assumes len: "LENGTH('a) \<le> 64" and k: "k < LENGTH('a)" "align = 2 ^ k"
    and to: "unat to + 2 * 2 ^ k < 2 ^ LENGTH('a)"
  shows "unat to \<le> unat (congruent_up align frm to)" "unat (congruent_up align frm to) < unat to + 2 ^ k"
    "unat (congruent_up align frm to) mod 2 ^ k = unat frm mod 2 ^ k"
proof -
  let ?m = "2 ^ k :: nat"
  have big: "(2::nat) ^ LENGTH('a) \<le> 2 ^ 64" using len by (intro power_increasing) simp_all
  have k64: "k < 64" using len k by simp
  have low: "ucast (align - 1) = (2 ^ k - 1 :: u64)"
  proof (rule bit_word_eqI)
    fix n assume n: "n < LENGTH(64)"
    have "bit (2 ^ k - 1 :: 'a word) n \<longleftrightarrow> n < k" if "n < LENGTH('a)"
      using that by (simp add: mask_eq_exp_minus_1 [symmetric] bit_mask_iff)
    moreover have "bit (2 ^ k - 1 :: u64) n \<longleftrightarrow> n < k"
      using n k64 by (simp add: mask_eq_exp_minus_1 [symmetric] bit_mask_iff)
    ultimately show "bit (ucast (align - 1) :: u64) n = bit (2 ^ k - 1 :: u64) n"
      using n k by (auto simp: bit_simps dest: bit_imp_le_length)
  qed
  have high: "to AND ucast (- align) = to AND - (2 ^ k)"
  proof (rule bit_word_eqI)
    fix n assume n: "n < LENGTH(64)"
    have "unat to < 2 ^ LENGTH('a)" using to by simp
    then have "take_bit LENGTH('a) to = to" by (simp add: word_unat_eq_iff unsigned_take_bit_eq take_bit_nat_eq_self)
    then have "bit to n \<Longrightarrow> n < LENGTH('a)" by (metis bit_take_bit_iff)
    then show "bit (to AND ucast (- align)) n = bit (to AND - (2 ^ k)) n"
      using n k by (auto simp: bit_simps minus_exp_eq_not_mask)
  qed
  have fit: "unat to div ?m * ?m + unat frm mod ?m < 2 ^ 64"
  proof -
    have "unat to div ?m * ?m \<le> unat to" "unat frm mod ?m < ?m" by simp_all
    then show ?thesis using to big by linarith
  qed
  define vf where "vf = (to AND ucast (- align)) + (frm AND ucast (align - 1))"
  have vf: "unat vf = unat to div ?m * ?m + unat frm mod ?m"
    using fit unat_and_minus_pow2 [of k to] unat_and_pow2_minus_1 [of frm k] k64
    unfolding vf_def high low by (simp add: unat_word_ariths)
  have split: "unat to div ?m * ?m + unat to mod ?m = unat to" by (rule div_mult_mod_eq)
  have rest: "unat frm mod ?m < ?m" "unat to mod ?m < ?m" by simp_all
  have al: "unat (ucast align :: u64) = ?m" using k len by (simp add: unat_ucast_up unat_pow2)
  have r: "congruent_up align frm to = (if vf < to then vf + ucast align else vf)"
    by (simp add: congruent_up_def vf_def Let_def)
  have vu: "unat (vf + ucast align) = unat vf + ?m" if "vf < to"
    using that to big al by (simp add: unat_word_ariths word_less_nat_alt)
  have vle: "vf < to \<longleftrightarrow> unat vf < unat to" by (simp add: word_less_nat_alt)
  show "unat to \<le> unat (congruent_up align frm to)" "unat (congruent_up align frm to) < unat to + ?m"
    unfolding r using vu vle split rest vf by (cases "vf < to"; simp only: if_True if_False; linarith)+
  have "unat vf mod ?m = unat frm mod ?m" unfolding vf by simp
  then show "unat (congruent_up align frm to) mod ?m = unat frm mod ?m"
    using r vu by (auto split: if_splits)
qed

subsection \<open>A new segment\<close>

text \<open>The width of the file's words, and the headroom every position has.\<close>

abbreviation (input) width_ok :: "'a::len itself \<Rightarrow> bool" where
  "width_ok t \<equiv> LENGTH('a) = 32 \<or> LENGTH('a) = 64"

definition top :: "'a::len itself \<Rightarrow> nat" where
  "top _ = 2 ^ (LENGTH('a) - 1)"

lemma top_facts: "width_ok TYPE('a::len) \<Longrightarrow> 2 * top TYPE('a) = 2 ^ LENGTH('a) \<and> top TYPE('a) \<le> 2 ^ 63 \<and> 2 ^ 31 \<le> top TYPE('a) \<and>
    2 * top TYPE('a) \<le> 2 ^ 64"
  by (auto simp: top_def)

lemma sint_neg_iff: "sint (w :: u64) < 0 \<longleftrightarrow> 2 ^ 63 \<le> unat w"
proof -
  have "sint w < 0 \<longleftrightarrow> bit w 63" by (simp add: sint_uint signed_take_bit_negative_iff bit_uint_iff)
  also have "\<dots> \<longleftrightarrow> bit (unat w) 63" by (simp add: bit_unsigned_iff)
  also have "\<dots> \<longleftrightarrow> odd (unat w div 2 ^ 63)" by (rule bit_iff_odd)
  also have "\<dots> \<longleftrightarrow> 2 ^ 63 \<le> unat w"
  proof -
    have "unat w div 2 ^ 63 < 2" using unat_less_top [of w] by (simp add: less_mult_imp_div_less)
    then show ?thesis by (cases "2 ^ 63 \<le> unat w") (auto simp: div_eq_0_iff less_2_cases_iff)
  qed
  finally show ?thesis .
qed

text \<open>Rounding the negative amount that is missing rounds what is added up.\<close>

lemma minus_round:
  assumes d: "required = (- of_nat d :: u64)" "0 < d" "d + 2 ^ j < 2 ^ 63" and j: "j < 63"
    and f: "unat f + d + 2 ^ j < 2 ^ 64"
  shows "unat (f - (required AND - (2 ^ j))) = unat f + up (2 ^ j) d"
proof -
  let ?m = "2 ^ j :: nat"
  have ud: "unat (of_nat d :: u64) = d" using d by (simp add: unat_of_nat take_bit_nat_eq_self)
  have r: "unat required = 2 ^ 64 - d" using ud d unat_sub_if_size [of "0 :: u64" "of_nat d"] by (simp add: word_size)
  have q: "?m dvd 2 ^ 64" using j by (intro le_imp_power_dvd) simp
  have u: "up ?m d \<le> d + ?m" "d \<le> up ?m d" "?m dvd up ?m d" using up_facts [of ?m d] by simp_all
  have "unat (required AND - (2 ^ j)) = (2 ^ 64 - d) div ?m * ?m" using unat_and_minus_pow2 [of j required] j r by simp
  also have "\<dots> = 2 ^ 64 - up ?m d"
  proof -
    have dv: "?m dvd 2 ^ 64 - up ?m d" using q u by (simp add: dvd_diff_nat)
    have le: "2 ^ 64 - up ?m d \<le> 2 ^ 64 - d" using u by simp
    have "up ?m d < d + ?m" using up_facts(2) [of ?m d] by simp
    then have lt: "2 ^ 64 - d < 2 ^ 64 - up ?m d + ?m" using d u by linarith
    obtain c where c: "2 ^ 64 - up ?m d = c * ?m" using dv by (auto simp: dvd_def mult.commute)
    have "(2 ^ 64 - d) div ?m = c" using le lt unfolding c by (intro div_nat_eqI) (simp_all add: mult.commute)
    then show ?thesis using c by simp
  qed
  finally show ?thesis using u f d by (subst unat_sub_if_size) (simp add: word_size)
qed

lemma first_load_adjust_ok:
  fixes align :: "'a::len word"
  assumes w: "width_ok TYPE('a)" and j: "page_size = 2 ^ j" "j \<le> k" and k: "k < LENGTH('a)" "align = 2 ^ k"
    and room: "max (unat f) (unat v) + 2 ^ j + 2 * 2 ^ k + 0x40000 < top TYPE('a)"
    and cong: "unat f mod 2 ^ k = unat v mod 2 ^ k"
    and fl: "\<And>p. first_load = Some p \<Longrightarrow> unat (esw bs (p_vaddr p)) \<le> unat v \<and>
      (k = j \<or> unat (esw bs (p_offset p)) mod 2 ^ k = unat (esw bs (p_vaddr p)) mod 2 ^ k)"
    and r: "first_load_adjust bs page_size align first_load (f, v) = (f', v')"
  shows "unat f \<le> unat f' \<and> unat v \<le> unat v' \<and> unat f' \<le> max (unat f) (unat v + 2 ^ j) + 2 ^ k \<and>
    unat v' \<le> unat v + 0x40000 \<and> unat f' mod 2 ^ k = unat v' mod 2 ^ k"
proof (cases first_load)
  case None
  then show ?thesis using r cong by (auto simp: first_load_adjust_def)
next
  case (Some p)
  note t = top_facts [OF w]
  have k64: "k < 64" "LENGTH('a) \<le> 64" using w k by auto
  let ?va = "esw bs (p_vaddr p)" let ?off = "esw bs (p_offset p)"
  define required where "required = ucast ?va + f - v"
  have uva: "unat (ucast ?va :: u64) = unat ?va" using k64 by (simp add: unat_ucast_up)
  have va: "unat ?va \<le> unat v" using fl Some by blast
  have req_mod: "uint required mod 2 ^ k = (uint ?va + uint f - uint v) mod 2 ^ k"
  proof -
    have "uint required mod 2 ^ k = (uint (ucast ?va + f :: u64) - uint v) mod 2 ^ k"
      unfolding required_def using k64 by (intro uint_diff_mod) simp
    also have "\<dots> = (uint (ucast ?va + f :: u64) mod 2 ^ k - uint v mod 2 ^ k) mod 2 ^ k" by (rule mod_diff_eq [symmetric])
    also have "uint (ucast ?va + f :: u64) mod 2 ^ k = (uint (ucast ?va :: u64) + uint f) mod 2 ^ k"
      using k64 by (intro uint_add_mod) simp
    also have "uint (ucast ?va :: u64) = uint ?va" by (simp only: uint_nat uva)
    finally show ?thesis using mod_diff_eq [of "uint ?va + uint f" "2 ^ k" "uint v"] by (simp only:)
  qed
  have fv: "uint f mod 2 ^ k = uint v mod 2 ^ k" using cong by (rule unat_mod_uint [THEN iffD1])
  consider (neg) "?off \<noteq> ucast required" "sint required < 0"
    | (pad) "\<not> (?off \<noteq> ucast required \<and> sint required < 0)" "?off < ucast required" "p_filesz p \<noteq> 0"
        "ucast required - ?off \<le> 0x40000" "ucast (ucast required - ?off) AND (page_size - 1) = 0"
    | (same) "(f', v') = (f, v)"
    using r Some unfolding first_load_adjust_def by (auto simp: Let_def required_def split: if_splits)
  then show ?thesis
  proof cases
    case same
    then show ?thesis using cong by auto
  next
    case neg
    let ?f1 = "f - (required AND - page_size)"
    have "first_load_adjust bs page_size align first_load (f, v) = (congruent_up align v ?f1, v)"
      using Some neg by (simp add: first_load_adjust_def Let_def required_def)
    with r have "(f', v') = (congruent_up align v ?f1, v)" by (rule trans [OF sym])
    then have r': "f' = congruent_up align v ?f1" "v' = v" by (rule prod.inject [THEN iffD1, THEN conjunct1], rule prod.inject [THEN iffD1, THEN conjunct2])
    have fvb: "unat f < 2 ^ 63" "unat v < 2 ^ 63" using room t by linarith+
    have lt: "unat ?va + unat f < unat v"
    proof (rule ccontr)
      assume n: "\<not> unat ?va + unat f < unat v"
      have s: "unat (ucast ?va + f :: u64) = unat ?va + unat f" using va fvb uva by (simp add: unat_word_ariths)
      then have "unat required = unat ?va + unat f - unat v" using n unfolding required_def by (simp add: unat_sub_if_size)
      then have "unat required < 2 ^ 63" using va fvb n by linarith
      then show False using neg(2) by (simp add: sint_neg_iff)
    qed
    define d where "d = unat v - (unat ?va + unat f)"
    have d0: "0 < d" "d \<le> unat v" using lt by (simp_all add: d_def)
    have rd: "required = - of_nat d"
    proof -
      have "of_nat (d + (unat ?va + unat f)) = (of_nat (unat v) :: u64)" using lt by (simp add: d_def)
      moreover have "of_nat (unat (ucast ?va :: u64)) = (ucast ?va :: u64)" "of_nat (unat f) = f" "of_nat (unat v) = v"
        by (simp_all only: of_nat_unat ucast_id)
      ultimately have "of_nat d + (ucast ?va + f) = v" unfolding uva by (simp only: of_nat_add)
      then show ?thesis unfolding required_def by (simp add: algebra_simps eq_neg_iff_add_eq_0)
    qed
    have d63: "d + 2 ^ j < 2 ^ 63" using d0 room t by linarith
    have sum: "unat f + d + 2 ^ j < 2 ^ 64" using d63 fvb by simp
    have "(2::nat) ^ j < 2 ^ 63" using d63 by linarith
    then have j63: "j < 63" by (rule power_less_imp_less_exp [rotated]) simp
    have f1: "unat ?f1 = unat f + up (2 ^ j) d"
      unfolding j(1) by (rule minus_round [OF rd d0(1) d63 j63 sum])
    note u = up_facts(1,2) [of "2 ^ j" d, simplified]
    have b: "unat ?f1 + 2 * 2 ^ k < 2 ^ LENGTH('a)"
      using f1 u d_def lt room t by linarith
    note c = congruent_up_ok [OF k64(2) k b, of v]
    have "unat ?f1 \<le> unat v + 2 ^ j" using f1 u d_def lt by linarith
    then show ?thesis using c r' f1 by auto
  next
    case pad
    let ?x = "ucast required - ?off"
    have "first_load_adjust bs page_size align first_load (f, v) = (f, v + ucast ?x)"
      using Some pad by (auto simp: first_load_adjust_def Let_def required_def)
    with r have r': "f' = f" "v' = v + ucast ?x" by simp_all
    have x: "unat (ucast ?x :: u64) = unat ?x" using k64 by (simp add: unat_ucast_up)
    have "unat ?x \<le> unat (0x40000 :: 'a word)" using pad(4) by (simp add: word_le_nat_alt)
    also have "\<dots> \<le> 0x40000" using w by auto
    finally have xs: "unat ?x \<le> 0x40000" .
    have xm: "uint (ucast ?x :: u64) mod 2 ^ k = 0"
    proof (cases "k = j")
      case True
      then have "unat (ucast ?x :: u64) mod 2 ^ k = 0" using unat_and_pow2_minus_1 [of "ucast ?x :: u64" j] pad(5) by (simp add: j(1))
      then have "int (unat (ucast ?x :: u64) mod 2 ^ k) = 0" by (simp only: of_nat_0)
      then show ?thesis by (simp only: uint_nat zmod_int of_nat_power of_nat_numeral)
    next
      case False
      then have "uint ?off mod 2 ^ k = uint ?va mod 2 ^ k" using fl Some by (simp add: unat_mod_uint)
      moreover have "uint ?x mod 2 ^ k = (uint (ucast required :: 'a word) - uint ?off) mod 2 ^ k"
        using k by (intro uint_diff_mod) simp
      moreover have "uint (ucast required :: 'a word) mod 2 ^ k = uint required mod 2 ^ k" using k by (intro uint_ucast_mod) simp
      moreover have "uint (ucast ?x :: u64) = uint ?x" by (simp only: uint_nat x)
      ultimately have "uint (ucast ?x :: u64) mod 2 ^ k = (uint ?va + uint f - uint v - uint ?va) mod 2 ^ k"
        using req_mod by (metis mod_diff_cong)
      also have "\<dots> = (uint f - uint v) mod 2 ^ k" by simp
      also have "\<dots> = (uint v - uint v) mod 2 ^ k" using fv by (rule mod_diff_cong) simp
      finally show ?thesis by simp
    qed
    have "unat v + unat (ucast ?x :: u64) < 2 ^ 63" using x xs room t by linarith
    then have "unat v' = unat v + unat ?x" using r' x unat_plus [of v "ucast ?x"] by simp
    moreover have "unat f mod 2 ^ k = unat v' mod 2 ^ k"
    proof -
      have "uint v' mod 2 ^ k = (uint v mod 2 ^ k + uint (ucast ?x :: u64) mod 2 ^ k) mod 2 ^ k"
        unfolding r' mod_add_eq using k64 by (intro uint_add_mod) simp
      then have "uint v' mod 2 ^ k = uint f mod 2 ^ k" using fv xm by simp
      then show ?thesis by (intro unat_mod_uint [THEN iffD2]) (rule sym)
    qed
    moreover have "unat f \<le> max (unat f) (unat v + 2 ^ j) + 2 ^ k" by simp
    ultimately show ?thesis using xs r'(1) by simp
  qed
qed

text \<open>What is relied on of the first segment of the original file.\<close>

definition first_ok :: "bool \<Rightarrow> u64 \<Rightarrow> 'a::len word phdr option \<Rightarrow> bool" where
  "first_ok bs v first_load \<longleftrightarrow> (\<forall>p. first_load = Some p \<longrightarrow> unat (esw bs (p_vaddr p)) \<le> unat v \<and>
     (esw bs (p_align p) = 0 \<or>
      pow2 (esw bs (p_align p)) \<and>
      unat (esw bs (p_offset p)) mod unat (esw bs (p_align p)) = unat (esw bs (p_vaddr p)) mod unat (esw bs (p_align p))))"

definition max_align :: "bool \<Rightarrow> u64 \<Rightarrow> 'a::len word phdr option \<Rightarrow> nat" where
  "max_align bs page_size first_load =
    max (unat page_size) (case first_load of None \<Rightarrow> 0 | Some p \<Rightarrow> unat (esw bs (p_align p)))"

definition load_ok :: "bool \<Rightarrow> 'a::len word phdr \<Rightarrow> nat \<Rightarrow> nat \<Rightarrow> bool" where
  "load_ok bs ld f v \<longleftrightarrow>
     (let off = unat (esw bs (p_offset ld)); va = unat (esw bs (p_vaddr ld)) in
      pow2 (esw bs (p_align ld)) \<and> off mod unat (esw bs (p_align ld)) = va mod unat (esw bs (p_align ld)) \<and>
      off \<le> f \<and> va \<le> v \<and> f - off = v - va)"

lemma new_load_ok:
  fixes fl :: "'a::len word phdr option"
  assumes w: "width_ok TYPE('a)" and ps: "pow2 page_size" and al: "pow2 alignment" and fl: "first_ok bs v fl"
    and room: "max (unat f) (unat v) + 3 * unat page_size + 4 * max_align bs page_size fl + 0x40000 + unat alignment < top TYPE('a)"
    and r: "new_load bs page_size fl at_base flags alignment (f, v) = (ld, f', v')"
  shows "load_ok bs ld (unat f') (unat v') \<and> unat alignment dvd unat v' \<and> unat f \<le> unat f' \<and> unat v \<le> unat v' \<and>
    max (unat f') (unat v') \<le> max (unat f) (unat v) + 2 * unat page_size + 3 * max_align bs page_size fl + 0x40000 + unat alignment \<and>
    p_type ld = esw bs PT_LOAD \<and> p_flags ld = esw bs flags \<and>
    (unat f' = unat (esw bs (p_offset ld)) \<or> at_base)"
proof -
  note t = top_facts [OF w]
  obtain j where j: "page_size = 2 ^ j" "j < 64" using ps by (auto simp: pow2_def)
  have uj: "unat page_size = 2 ^ j" using j by (simp add: unat_pow2)
  have "(2::nat) ^ j < 2 ^ LENGTH('a)" using room t uj by linarith
  then have jL: "j < LENGTH('a)" by (rule power_less_imp_less_exp [rotated]) simp
  have ups: "ucast page_size = (2 ^ j :: 'a word)" unfolding j(1) using j(2) by (intro bit_word_eqI) (auto simp: bit_simps)
  define flo where "flo = (if flags = PF_R then fl else None)"
  define A where "A = (case flo of Some p \<Rightarrow> if esw bs (p_align p) > ucast page_size then esw bs (p_align p) else ucast page_size
                 | None \<Rightarrow> ucast page_size)"
  obtain k where k: "A = 2 ^ k" "k < LENGTH('a)" "j \<le> k" "2 ^ k \<le> max_align bs page_size fl"
    and flk: "\<And>p. flo = Some p \<Longrightarrow> k = j \<or> unat (esw bs (p_offset p)) mod 2 ^ k = unat (esw bs (p_vaddr p)) mod 2 ^ k"
  proof (cases "\<exists>p. flo = Some p \<and> esw bs (p_align p) > ucast page_size")
    case True
    then obtain p where p: "flo = Some p" "esw bs (p_align p) > (2 ^ j :: 'a word)" using ups by auto
    then have fp: "fl = Some p" by (simp add: flo_def split: if_splits)
    have "esw bs (p_align p) \<noteq> 0" using p(2) by auto
    then obtain i where i: "i < LENGTH('a)" "esw bs (p_align p) = 2 ^ i" "unat (esw bs (p_align p)) = 2 ^ i"
      "unat (esw bs (p_offset p)) mod 2 ^ i = unat (esw bs (p_vaddr p)) mod 2 ^ i"
      using fl fp unfolding first_ok_def pow2_def by (auto simp: unat_pow2)
    have "(2::nat) ^ j < 2 ^ i" using p(2) i jL by (simp add: word_less_nat_alt unat_pow2)
    then have "j \<le> i" by (metis less_imp_le power_less_imp_less_exp one_less_numeral_iff semiring_norm(76))
    then show ?thesis using that [of i] p i fp ups by (simp add: A_def max_align_def)
  next
    case False
    then have "A = 2 ^ j" using ups by (auto simp: A_def split: option.splits)
    then show ?thesis using that [of j] jL uj by (simp add: max_align_def)
  qed
  define v1 where "v1 = (v + page_size - 1) AND - page_size"
  define v2 where "v2 = congruent_up A f v1"
  obtain f3 v3 where adj: "first_load_adjust bs page_size A flo (f, v2) = (f3, v3)" by (metis prod.exhaust)
  define b where "b = (ucast (align_bump alignment v3) :: u64)"
  have r': "f' = f3 + b" "v' = v3 + b" "p_type ld = esw bs PT_LOAD" "p_flags ld = esw bs flags" "esw bs (p_align ld) = A"
    "(p_offset ld, p_vaddr ld) = (if f' = v' \<and> at_base \<and> flags = PF_R then (0, 0) else (esw bs (ucast f'), esw bs (ucast v')))"
    using r adj unfolding new_load_def
    by (auto simp: Let_def flo_def [symmetric] A_def [symmetric] v1_def [symmetric] v2_def [symmetric] b_def [symmetric]
        split: prod.splits if_splits)
  have "unat v + unat page_size < 2 ^ 64" using room t by linarith
  then have v1: "unat v1 = up (2 ^ j) (unat v)"
    using unat_align_up [OF ps, of v] by (simp add: v1_def align_up_def uj)
  then have v1b: "unat v \<le> unat v1" "unat v1 < unat v + 2 ^ j" using up_facts [of "2 ^ j" "unat v"] by simp_all
  have "unat v1 + 2 * 2 ^ k < 2 ^ LENGTH('a)" using v1b k(4) room t uj by linarith
  note c = congruent_up_ok [OF _ k(2,1) this, of f, folded v2_def]
  have L: "LENGTH('a) \<le> 64" using w by auto
  note c = c [OF L]
  have room2: "max (unat f) (unat v2) + 2 ^ j + 2 * 2 ^ k + 0x40000 < top TYPE('a)"
    using c(1,2) v1b k(4) room uj by linarith
  have fl2: "\<And>p. flo = Some p \<Longrightarrow> unat (esw bs (p_vaddr p)) \<le> unat v2 \<and>
      (k = j \<or> unat (esw bs (p_offset p)) mod 2 ^ k = unat (esw bs (p_vaddr p)) mod 2 ^ k)"
    using flk fl c(1) v1b by (fastforce simp: flo_def first_ok_def split: if_splits)
  note ad = first_load_adjust_ok [OF w j(1) k(3,2,1) room2 c(3) [symmetric] fl2 adj]
  have b: "unat v3 + unat b = up (unat alignment) (unat v3)"
    using unat_align_bump [OF al, of v3] by (simp add: b_def unat_ucast_up)
  have bl: "unat b < unat alignment" "unat alignment dvd unat v3 + unat b"
    using up_facts [OF pow2_pos [OF al], of "unat v3"] b by simp_all
  have m3: "max (unat f3) (unat v3) \<le> max (unat f) (unat v) + 2 * unat page_size + 3 * max_align bs page_size fl + 0x40000"
    using ad c(1,2) v1b k(4) uj by linarith
  have s64: "unat f3 + unat b < 2 ^ 64" "unat v3 + unat b < 2 ^ 64" using m3 bl(1) room t by linarith+
  have uf: "unat f' = unat f3 + unat b" and uv: "unat v' = unat v3 + unat b"
    unfolding r' using s64 by (simp_all add: unat_plus)
  have cong: "unat f' mod 2 ^ k = unat v' mod 2 ^ k" using ad unfolding uf uv by (intro mod_add_cong) simp_all
  have small: "unat f' < 2 ^ LENGTH('a)" "unat v' < 2 ^ LENGTH('a)" using uf uv m3 bl(1) room t by linarith+
  have "load_ok bs ld (unat f') (unat v')"
    using r'(5,6) cong small k(1,2) by (auto simp: load_ok_def Let_def pow2_iff unat_pow2 unat_ucast_small split: if_splits)
  moreover have "unat f' = unat (esw bs (p_offset ld)) \<or> at_base" using r'(6) small by (auto simp: unat_ucast_small split: if_splits)
  ultimately show ?thesis using r'(3,4) bl m3 ad c(1) v1b uf uv by simp
qed

subsection \<open>One bucket\<close>

definition bucket_size :: "alloc_bucket \<Rightarrow> u64" where
  "bucket_size b = (if b_current b > b_end b then b_current b else b_end b) - b_start b"

definition seg_extends :: "bool \<Rightarrow> 'a::len word phdr \<Rightarrow> 'a word phdr \<Rightarrow> bool" where
  "seg_extends bs p q \<longleftrightarrow> p_type q = p_type p \<and> p_flags q = p_flags p \<and> p_offset q = p_offset p \<and> p_vaddr q = p_vaddr p \<and>
     p_align q = p_align p \<and> esw bs (p_filesz p) \<le> esw bs (p_filesz q) \<and> esw bs (p_memsz p) \<le> esw bs (p_memsz q)"

definition segs_extend :: "bool \<Rightarrow> nat \<Rightarrow> 'a::len word phdr list \<Rightarrow> 'a word phdr list \<Rightarrow> bool" where
  "segs_extend bs n ps qs \<longleftrightarrow> length ps \<le> length qs \<and> take n qs = take n ps \<and> (\<forall>i < length ps. seg_extends bs (ps ! i) (qs ! i))"

text \<open>The range of a bucket lies in a segment, at position \<open>fo\<close> of the file when it is not zero-filled.\<close>

definition in_segment :: "bool \<Rightarrow> 'a::len word phdr \<Rightarrow> alloc_bucket \<Rightarrow> nat \<Rightarrow> bool" where
  "in_segment bs ld b fo \<longleftrightarrow>
     (let off = unat (esw bs (p_offset ld)); va = unat (esw bs (p_vaddr ld)) in
      p_type ld = esw bs PT_LOAD \<and> p_flags ld = esw bs (load_flags (b_category b)) \<and>
      pow2 (esw bs (p_align ld)) \<and> off mod unat (esw bs (p_align ld)) = va mod unat (esw bs (p_align ld)) \<and>
      va \<le> unat (b_start b) \<and> unat (b_end b) \<le> va + unat (esw bs (p_memsz ld)) \<and>
      (b_category b \<noteq> erw_alloc_category_v_rw_zero \<longrightarrow>
         off \<le> fo \<and> fo - off = unat (b_start b) - va \<and>
         fo + (unat (b_end b) - unat (b_start b)) \<le> off + unat (esw bs (p_filesz ld))))"

definition lay_inv :: "bool \<Rightarrow> nat \<Rightarrow> bool \<Rightarrow> 'a::len word layout \<Rightarrow> bool" where
  "lay_inv bs n zero l \<longleftrightarrow> n \<le> length (l_phdrs l) \<and>
     (l_ld l \<longrightarrow> n < length (l_phdrs l) \<and>
       (let ld = last (l_phdrs l); off = unat (esw bs (p_offset ld)); va = unat (esw bs (p_vaddr ld)) in
        p_type ld = esw bs PT_LOAD \<and> (\<exists>c. p_flags ld = esw bs (load_flags c)) \<and>
        pow2 (esw bs (p_align ld)) \<and> off mod unat (esw bs (p_align ld)) = va mod unat (esw bs (p_align ld)) \<and>
        off \<le> unat (l_f l) \<and> va \<le> unat (l_v l) \<and> (\<not> zero \<longrightarrow> unat (l_f l) - off = unat (l_v l) - va) \<and>
        unat (esw bs (p_filesz ld)) \<le> unat (l_f l) - off \<and> unat (esw bs (p_memsz ld)) \<le> unat (l_v l) - va))"

lemma segs_extend_refl [simp]: "segs_extend bs n ps ps"
  by (simp add: segs_extend_def seg_extends_def)

lemma seg_extends_trans: "seg_extends bs p q \<Longrightarrow> seg_extends bs q r \<Longrightarrow> seg_extends bs p r"
  unfolding seg_extends_def by (auto intro: order_trans)

lemma segs_extend_trans:
  assumes "segs_extend bs n ps qs" and "segs_extend bs n qs rs"
  shows "segs_extend bs n ps rs"
  unfolding segs_extend_def
proof (intro conjI allI impI)
  fix i assume i: "i < length ps"
  then have "i < length qs" using assms(1) by (simp add: segs_extend_def)
  then show "seg_extends bs (ps ! i) (rs ! i)"
    using i assms seg_extends_trans [of bs "ps ! i" "qs ! i" "rs ! i"] by (simp add: segs_extend_def)
qed (use assms in \<open>simp_all add: segs_extend_def\<close>)

lemma segs_extend_append [simp]: "n \<le> length ps \<Longrightarrow> segs_extend bs n ps (ps @ qs)"
  by (simp add: segs_extend_def seg_extends_def nth_append)

lemma seg_extends_refl [simp]: "seg_extends bs p p"
  by (simp add: seg_extends_def)

lemma segs_extend_last:
  "ps \<noteq> [] \<Longrightarrow> n < length ps \<Longrightarrow> seg_extends bs (last ps) q \<Longrightarrow> segs_extend bs n ps (butlast ps @ [q])"
  by (cases ps rule: rev_cases) (auto simp: segs_extend_def nth_append less_Suc_eq_le)

lemma in_segment_extends: "in_segment bs p b fo \<Longrightarrow> seg_extends bs p q \<Longrightarrow> in_segment bs q b fo"
  by (fastforce simp: in_segment_def seg_extends_def Let_def word_le_nat_alt)

definition step_cost :: "bool \<Rightarrow> u64 \<Rightarrow> 'a::len word phdr option \<Rightarrow> alloc_bucket \<Rightarrow> nat" where
  "step_cost bs page_size fl b =
    2 * unat page_size + 3 * max_align bs page_size fl + 0x40000 + 2 * unat (b_alignment b) + unat (bucket_size b)"

text \<open>The room that every step needs on top of its cost.\<close>

definition margin :: "bool \<Rightarrow> u64 \<Rightarrow> 'a::len word phdr option \<Rightarrow> nat" where
  "margin bs page_size fl = unat page_size + max_align bs page_size fl"

lemma lay_f_ok:
  assumes al: "pow2 (b_alignment b)" and room: "unat (l_f l) + unat (b_alignment b) + unat sz < 2 ^ 63"
    and r: "lay_f b sz l = (b', l')"
  shows "key_of b' = key_of b \<and> b_current b' = b_start b' \<and> unat (b_end b') = unat (b_start b') + unat sz \<and>
    unat (b_alignment b) dvd unat (b_start b') \<and> unat (l_f l) \<le> unat (b_start b') \<and> l_f l' = b_end b' \<and>
    unat (l_f l') \<le> unat (l_f l) + unat (b_alignment b) + unat sz \<and>
    l' = l\<lparr>l_f := l_f l'\<rparr>"
proof -
  let ?a = "ucast (b_alignment b) :: u64"
  have a: "pow2 ?a" "unat ?a = unat (b_alignment b)" using pow2_ucast [OF al] by simp_all
  define y where "y = align_up (l_f l) ?a"
  have y: "unat y = up (unat (b_alignment b)) (unat (l_f l))"
    using unat_align_up [OF a(1), of "l_f l"] room a(2) by (simp add: y_def)
  note u = up_facts [OF pow2_pos [OF al], of "unat (l_f l)"]
  have "unat (y + sz) = unat y + unat sz" using y u room by (intro unat_plus) simp
  then show ?thesis using r y u by (auto simp: lay_f_def Let_def align_up_def y_def key_of_def)
qed

lemma lay_v_ok:
  fixes l :: "'a::len word layout"
  assumes w: "width_ok TYPE('a)" and al: "pow2 (b_alignment b)" and inv: "lay_inv bs n zero l" and ld: "l_ld l"
    and fl: "p_flags (last (l_phdrs l)) = esw bs (load_flags (b_category b))"
    and z: "zero \<longrightarrow> b_category b = erw_alloc_category_v_rw_zero"
    and cat: "b_category b \<noteq> erw_alloc_category_f"
    and room: "max (unat (l_f l)) (unat (l_v l)) + unat (b_alignment b) + unat sz < top TYPE('a)"
    and r: "lay_v bs b sz l = (b', l')"
  shows "key_of b' = key_of b \<and> b_current b' = b_start b' \<and> unat (b_end b') = unat (b_start b') + unat sz \<and>
    unat (b_alignment b) dvd unat (b_start b') \<and> unat (l_v l) \<le> unat (b_start b') \<and> l_v l' = b_end b' \<and>
    max (unat (l_f l')) (unat (l_v l')) \<le> max (unat (l_f l)) (unat (l_v l)) + unat (b_alignment b) + unat sz \<and>
    segs_extend bs n (l_phdrs l) (l_phdrs l') \<and> l_ld l' \<and> length (l_phdrs l') = length (l_phdrs l) \<and>
    lay_inv bs n (b_category b = erw_alloc_category_v_rw_zero) l' \<and>
    (\<exists>fo \<ge> unat (l_f l). in_segment bs (last (l_phdrs l')) b' fo \<and>
       (if b_category b = erw_alloc_category_v_rw_zero then l_f l' = l_f l else unat (l_f l') = fo + unat sz))"
proof -
  note t = top_facts [OF w]
  let ?ld = "last (l_phdrs l)" let ?off = "unat (esw bs (p_offset ?ld))" let ?va = "unat (esw bs (p_vaddr ?ld))"
  let ?Z = "b_category b = erw_alloc_category_v_rw_zero"
  have i: "n < length (l_phdrs l)" "p_type ?ld = esw bs PT_LOAD" "pow2 (esw bs (p_align ?ld))"
    "?off mod unat (esw bs (p_align ?ld)) = ?va mod unat (esw bs (p_align ?ld))"
    "?off \<le> unat (l_f l)" "?va \<le> unat (l_v l)" "\<not> zero \<Longrightarrow> unat (l_f l) - ?off = unat (l_v l) - ?va"
    "unat (esw bs (p_filesz ?ld)) \<le> unat (l_f l) - ?off" "unat (esw bs (p_memsz ?ld)) \<le> unat (l_v l) - ?va"
    using inv ld by (simp_all add: lay_inv_def Let_def)
  define bump where "bump = (ucast (align_bump (b_alignment b) (l_v l)) :: u64)"
  have bu: "unat (l_v l) + unat bump = up (unat (b_alignment b)) (unat (l_v l))"
    using unat_align_bump [OF al, of "l_v l"] by (simp add: bump_def unat_ucast_up)
  note u = up_facts [OF pow2_pos [OF al], of "unat (l_v l)"]
  have bl: "unat bump < unat (b_alignment b)" using bu u by linarith
  have s64: "unat (l_v l) + unat bump < 2 ^ 64" "unat (l_v l) + unat bump + unat sz < 2 ^ 64"
    "unat bump + unat sz < 2 ^ 64" "unat (l_f l) + (unat bump + unat sz) < 2 ^ 64"
    using bl room t by linarith+
  have us: "unat (l_v l + bump) = unat (l_v l) + unat bump" using s64 by (intro unat_plus) simp
  have ue: "unat (l_v l + bump + sz) = unat (l_v l) + unat bump + unat sz" using s64 us unat_plus [of "l_v l + bump" sz] by simp
  have ub: "unat (bump + sz) = unat bump + unat sz" using s64 by (intro unat_plus) simp
  have uf: "unat (l_f l + (bump + sz)) = unat (l_f l) + unat bump + unat sz" using s64 ub unat_plus [of "l_f l" "bump + sz"] by simp
  define f' where "f' = (if \<not> ?Z then l_f l + (bump + sz) else l_f l)"
  have uf': "unat f' = (if ?Z then unat (l_f l) else unat (l_f l) + unat bump + unat sz)" by (simp add: f'_def uf)
  define ld' where "ld' = ?ld\<lparr>p_memsz := esw bs (ucast (l_v l + bump + sz - ucast (esw bs (p_vaddr ?ld)))),
                 p_filesz := esw bs (ucast (f' - ucast (esw bs (p_offset ?ld))))\<rparr>"
  have L: "LENGTH('a) \<le> 64" using w by auto
  have uc: "unat (ucast (esw bs (p_vaddr ?ld)) :: u64) = ?va" "unat (ucast (esw bs (p_offset ?ld)) :: u64) = ?off"
    using L by (simp_all add: unat_ucast_up)
  have small: "unat (l_v l + bump + sz) < 2 ^ LENGTH('a)" "unat f' < 2 ^ LENGTH('a)"
    using ue uf' bl room t by (simp_all, linarith, linarith)
  have sub: "unat (l_v l + bump + sz - ucast (esw bs (p_vaddr ?ld))) = unat (l_v l) + unat bump + unat sz - ?va"
    "unat (f' - ucast (esw bs (p_offset ?ld))) = unat f' - ?off"
    using i(5,6) uc ue uf' by (simp_all add: unat_sub_if_size)
  have sz': "unat (esw bs (p_memsz ld')) = unat (l_v l) + unat bump + unat sz - ?va"
    "unat (esw bs (p_filesz ld')) = unat f' - ?off"
    using sub small ue by (simp_all add: ld'_def unat_ucast_small)
  have ext: "seg_extends bs ?ld ld'"
    using sz' i(5-9) uf' by (auto simp: seg_extends_def ld'_def word_le_nat_alt)
  have res: "b' = b\<lparr>b_start := l_v l + bump, b_current := l_v l + bump, b_end := l_v l + bump + sz\<rparr>"
    "l' = l\<lparr>l_v := l_v l + bump + sz, l_f := f', l_phdrs := butlast (l_phdrs l) @ [ld']\<rparr>"
    using r by (simp_all add: lay_v_def Let_def bump_def [symmetric] f'_def ld'_def)
  have ld'_same: "p_type ld' = p_type ?ld" "p_flags ld' = p_flags ?ld" "p_align ld' = p_align ?ld" "p_offset ld' = p_offset ?ld"
    "p_vaddr ld' = p_vaddr ?ld" by (simp_all add: ld'_def)
  have inv': "lay_inv bs n ?Z l'"
    using i fl sz' ue uf' z unfolding res lay_inv_def by (auto simp: Let_def ld'_same)
  define fo where "fo = unat (l_f l) + unat bump"
  have "in_segment bs ld' b' fo"
    unfolding in_segment_def res Let_def ld'_same sz'
    using i fl us ue uf' z by (auto simp: fo_def)
  moreover have "unat (l_f l) \<le> fo" "if ?Z then l_f l' = l_f l else unat (l_f l') = fo + unat sz"
    by (simp_all add: fo_def res f'_def uf)
  moreover have "segs_extend bs n (l_phdrs l) (l_phdrs l')"
    unfolding res using i(1) ext segs_extend_last [of "l_phdrs l" n bs ld'] by fastforce
  ultimately show ?thesis
    using inv' us ue u bu bl uf' ld i(1) unfolding res by (auto simp: key_of_def)
qed

text \<open>Swapped flags never look like flags in host order.\<close>

lemma load_flags_swap: "esw bs (load_flags c) = load_flags d \<Longrightarrow> esw bs (load_flags d) = load_flags d"
proof (cases bs)
  case True
  have big: "unat (load_flags c) < 8" for c by (cases c) (simp_all add: load_flags_def)
  have "bit (load_flags c) (Suc (Suc 0))" by (cases c) (simp_all add: load_flags_def)
  then have "bit (bswap (load_flags c)) 26" by (simp add: bit_bswap mirror_bit_def)
  moreover assume "esw bs (load_flags c) = load_flags d"
  ultimately have "bit (load_flags d) 26" using True by (simp add: esw_def)
  then have "bit (unat (load_flags d)) 26" by (simp add: bit_unsigned_iff)
  then have "odd (unat (load_flags d) div 2 ^ 26)" by (rule bit_iff_odd [THEN iffD1])
  then show ?thesis using big [of d] by simp
qed (simp add: esw_def)

lemma open_load_ok:
  fixes l :: "'a::len word layout"
  assumes w: "width_ok TYPE('a)" and ps: "pow2 page_size" and al: "pow2 (b_alignment b)" and fl: "first_ok bs (l_v l) fl"
    and inv: "lay_inv bs n zero l"
    and room: "max (unat (l_f l)) (unat (l_v l)) + step_cost bs page_size fl b + margin bs page_size fl < top TYPE('a)"
    and r: "open_load bs page_size fl b l = l'"
  shows "l_ld l' \<and> p_flags (last (l_phdrs l')) = esw bs (load_flags (b_category b)) \<and>
    lay_inv bs n zero l' \<and> unat (l_f l) \<le> unat (l_f l') \<and> unat (l_v l) \<le> unat (l_v l') \<and>
    max (unat (l_f l')) (unat (l_v l')) + unat (b_alignment b) + unat (bucket_size b) \<le>
      max (unat (l_f l)) (unat (l_v l)) + step_cost bs page_size fl b \<and>
    segs_extend bs n (l_phdrs l) (l_phdrs l')"
proof (cases "\<not> l_ld l \<or> p_flags (last (l_phdrs l)) \<noteq> load_flags (b_category b)")
  case True
  obtain ld f' v' where nl: "new_load bs page_size fl (l_phdrs l = []) (load_flags (b_category b)) (b_alignment b) (l_f l, l_v l) = (ld, f', v')"
    by (metis prod.exhaust)
  have l': "l' = l\<lparr>l_f := f', l_v := v', l_phdrs := l_phdrs l @ [ld], l_ld := True\<rparr>"
    using r True nl by (simp add: open_load_def Let_def)
  have "max (unat (l_f l)) (unat (l_v l)) + 3 * unat page_size + 4 * max_align bs page_size fl + 0x40000 + unat (b_alignment b) < top TYPE('a)"
    using room by (simp add: step_cost_def margin_def)
  note nlo = new_load_ok [OF w ps al fl this nl]
  have z: "p_filesz ld = 0 \<and> p_memsz ld = 0" using nl by (auto simp: new_load_def Let_def split: prod.splits)
  show ?thesis
    using nlo z inv unfolding l' by (auto simp: lay_inv_def load_ok_def Let_def step_cost_def max_def split: if_splits)
next
  case False
  then have "l' = l" using r by (auto simp: open_load_def)
  moreover from False inv obtain c where "p_flags (last (l_phdrs l)) = esw bs (load_flags c)"
    by (auto simp: lay_inv_def Let_def)
  then have "p_flags (last (l_phdrs l)) = esw bs (load_flags (b_category b))"
    using False load_flags_swap [of bs c "b_category b"] by simp
  ultimately show ?thesis using False inv by (auto simp: step_cost_def)
qed

subsection \<open>All buckets\<close>

text \<open>A bucket with its new range, and where that range is in the file.\<close>

definition bytes_of :: "alloc_bucket \<Rightarrow> nat" where
  "bytes_of b = unat (b_end b) - unat (b_start b)"

definition laid_one :: "bool \<Rightarrow> nat \<Rightarrow> 'a::len word layout \<Rightarrow> 'a word layout \<Rightarrow> alloc_bucket \<times> nat \<Rightarrow> bool" where
  "laid_one bs n l l' p \<longleftrightarrow> (case p of (b, fo) \<Rightarrow>
     b_current b = b_start b \<and> b_start b \<le> b_end b \<and> unat (b_alignment b) dvd unat (b_start b) \<and>
     (if b_category b = erw_alloc_category_f then fo = unat (b_start b)
      else unat (l_v l) \<le> unat (b_start b) \<and> unat (b_end b) \<le> unat (l_v l') \<and>
        (\<exists>s. n \<le> s \<and> s < length (l_phdrs l') \<and> in_segment bs (l_phdrs l' ! s) b fo)) \<and>
     (b_category b \<noteq> erw_alloc_category_v_rw_zero \<longrightarrow> unat (l_f l) \<le> fo \<and> fo + bytes_of b \<le> unat (l_f l')))"

definition apart_v :: "alloc_bucket \<times> nat \<Rightarrow> alloc_bucket \<times> nat \<Rightarrow> bool" where
  "apart_v p q \<longleftrightarrow> b_category (fst p) \<noteq> erw_alloc_category_f \<and> b_category (fst q) \<noteq> erw_alloc_category_f \<longrightarrow>
     b_end (fst p) \<le> b_start (fst q)"

definition apart_f :: "alloc_bucket \<times> nat \<Rightarrow> alloc_bucket \<times> nat \<Rightarrow> bool" where
  "apart_f p q \<longleftrightarrow> b_category (fst p) \<noteq> erw_alloc_category_v_rw_zero \<and> b_category (fst q) \<noteq> erw_alloc_category_v_rw_zero \<longrightarrow>
     snd p + bytes_of (fst p) \<le> snd q"

definition budget :: "bool \<Rightarrow> u64 \<Rightarrow> 'a::len word phdr option \<Rightarrow> alloc_bucket list \<Rightarrow> nat" where
  "budget bs page_size fl base = sum_list (map (step_cost bs page_size fl) base)"

lemma lay_bucket_ok:
  fixes l :: "'a::len word layout"
  assumes w: "width_ok TYPE('a)" and ps: "pow2 page_size" and al: "pow2 (b_alignment b)" and fl: "first_ok bs (l_v l) fl"
    and inv: "lay_inv bs n zero l" and z: "zero \<longrightarrow> b_category b = erw_alloc_category_v_rw_zero"
    and ld: "l_ld l \<longrightarrow> b_category b \<noteq> erw_alloc_category_f"
    and room: "max (unat (l_f l)) (unat (l_v l)) + step_cost bs page_size fl b + margin bs page_size fl < top TYPE('a)"
    and r: "lay_bucket bs page_size fl b l = (b', l')"
  shows "key_of b' = key_of b \<and> unat (b_end b') = unat (b_start b') + unat (bucket_size b) \<and>
    segs_extend bs n (l_phdrs l) (l_phdrs l') \<and>
    lay_inv bs n (b_category b = erw_alloc_category_v_rw_zero) l' \<and>
    (l_ld l' \<longrightarrow> l_ld l \<or> b_category b \<noteq> erw_alloc_category_f) \<and> unat (l_f l) \<le> unat (l_f l') \<and> unat (l_v l) \<le> unat (l_v l') \<and>
    max (unat (l_f l')) (unat (l_v l')) \<le> max (unat (l_f l)) (unat (l_v l)) + step_cost bs page_size fl b \<and>
    (\<exists>fo. laid_one bs n l l' (b', fo))"
proof (cases "b_category b = erw_alloc_category_f")
  case True
  have r': "lay_f b (bucket_size b) l = (b', l')" using r True by (simp add: lay_bucket_def bucket_size_def)
  have "unat (l_f l) + unat (b_alignment b) + unat (bucket_size b) < 2 ^ 63"
    using room top_facts [OF w] unfolding step_cost_def by linarith
  note f = lay_f_ok [OF al this r']
  have "l_v l' = l_v l" "l_phdrs l' = l_phdrs l" "l_ld l' = l_ld l" "\<not> l_ld l" using f ld True by (auto intro: sym)
  moreover have "laid_one bs n l l' (b', unat (b_start b'))"
    using f True by (auto simp: laid_one_def key_of_def bytes_of_def word_le_nat_alt)
  ultimately show ?thesis
    using f inv by (auto simp: lay_inv_def step_cost_def)
next
  case False
  define l1 where "l1 = open_load bs page_size fl b l"
  have r': "lay_v bs b (bucket_size b) l1 = (b', l')" using r False by (simp add: lay_bucket_def bucket_size_def l1_def)
  note o' = open_load_ok [OF w ps al fl inv room l1_def [symmetric]]
  have room1: "max (unat (l_f l1)) (unat (l_v l1)) + unat (b_alignment b) + unat (bucket_size b) < top TYPE('a)"
    using o' room by linarith
  have o1: "lay_inv bs n zero l1" "l_ld l1" "p_flags (last (l_phdrs l1)) = esw bs (load_flags (b_category b))"
    "segs_extend bs n (l_phdrs l) (l_phdrs l1)" "unat (l_f l) \<le> unat (l_f l1)" "unat (l_v l) \<le> unat (l_v l1)"
    using o' by simp_all
  note v = lay_v_ok [OF w al o1(1,2,3) z False room1 r']
  obtain fo where fo: "unat (l_f l1) \<le> fo" "in_segment bs (last (l_phdrs l')) b' fo"
    "if b_category b = erw_alloc_category_v_rw_zero then l_f l' = l_f l1 else unat (l_f l') = fo + unat (bucket_size b)"
    using v by blast
  have len: "n < length (l_phdrs l')" using v o1(1,2) by (simp add: lay_inv_def)
  have "\<exists>s. n \<le> s \<and> s < length (l_phdrs l') \<and> in_segment bs (l_phdrs l' ! s) b' fo"
    using fo(2) len last_conv_nth [of "l_phdrs l'"] by (intro exI [of _ "length (l_phdrs l') - 1"]) fastforce
  then have "laid_one bs n l l' (b', fo)"
    using v fo o1 False by (auto simp: laid_one_def key_of_def bytes_of_def word_le_nat_alt)
  then have "\<exists>fo. laid_one bs n l l' (b', fo)" ..
  moreover have "segs_extend bs n (l_phdrs l) (l_phdrs l')" using v o1(4) by (blast intro: segs_extend_trans)
  moreover have "max (unat (l_f l')) (unat (l_v l')) \<le> max (unat (l_f l)) (unat (l_v l)) + step_cost bs page_size fl b"
    using v o' by linarith
  moreover have "unat (l_f l) \<le> unat (l_f l')" using fo o1 by (auto split: if_splits)
  moreover have "unat (l_v l) \<le> unat (l_v l')" using v o1 by simp
  ultimately show ?thesis using v False by simp
qed

lemma category_top: "erw_alloc_category_v_rw_zero \<le> c \<Longrightarrow> c = erw_alloc_category_v_rw_zero"
  and category_bottom: "c \<le> erw_alloc_category_f \<Longrightarrow> c = erw_alloc_category_f"
  by (cases c; simp add: less_eq_alloc_category_def)+

lemma first_ok_mono: "first_ok bs v fl \<Longrightarrow> unat v \<le> unat v' \<Longrightarrow> first_ok bs v' fl"
  by (fastforce simp: first_ok_def)

lemma laid_one_mono:
  assumes "laid_one bs n l l1 p" and "segs_extend bs n (l_phdrs l1) (l_phdrs l')"
    and "unat (l_f l1) \<le> unat (l_f l')" and "unat (l_v l1) \<le> unat (l_v l')"
  shows "laid_one bs n l l' p"
  using assms unfolding laid_one_def segs_extend_def
  by (cases p) (auto split: if_splits intro: in_segment_extends dest: order_trans less_le_trans; fastforce intro: in_segment_extends)

lemma lay_buckets_ok:
  fixes l :: "'a::len word layout"
  assumes w: "width_ok TYPE('a)" and ps: "pow2 page_size"
    and "\<forall>b \<in> set base. pow2 (b_alignment b)" and "sorted (map b_category base)"
    and "first_ok bs (l_v l) fl" and "lay_inv bs n zero l"
    and "zero \<longrightarrow> (\<forall>b \<in> set base. b_category b = erw_alloc_category_v_rw_zero)"
    and "l_ld l \<longrightarrow> (\<forall>b \<in> set base. b_category b \<noteq> erw_alloc_category_f)"
    and "max (unat (l_f l)) (unat (l_v l)) + budget bs page_size fl base + margin bs page_size fl < top TYPE('a)"
    and "lay_buckets bs page_size fl base l = (base', l')"
  shows "\<exists>laid. map fst laid = base' \<and> map key_of base' = map key_of base \<and> map bytes_of base' = map (\<lambda>b. unat (bucket_size b)) base \<and>
    (\<forall>p \<in> set laid. laid_one bs n l l' p) \<and> sorted_wrt apart_v laid \<and> sorted_wrt apart_f laid \<and>
    segs_extend bs n (l_phdrs l) (l_phdrs l') \<and> unat (l_f l) \<le> unat (l_f l') \<and> unat (l_v l) \<le> unat (l_v l') \<and>
    max (unat (l_f l')) (unat (l_v l')) \<le> max (unat (l_f l)) (unat (l_v l)) + budget bs page_size fl base"
  using assms(3-)
proof (induction base arbitrary: l zero base' l')
  case (Cons b rest)
  obtain b1 l1 where one: "lay_bucket bs page_size fl b l = (b1, l1)" by (metis prod.exhaust)
  obtain rest1 where more: "lay_buckets bs page_size fl rest l1 = (rest1, l')" and base': "base' = b1 # rest1"
    using Cons.prems(8) one by (auto simp: Let_def split: prod.splits)
  let ?Z = "b_category b = erw_alloc_category_v_rw_zero"
  have cost: "budget bs page_size fl (b # rest) = step_cost bs page_size fl b + budget bs page_size fl rest"
    by (simp add: budget_def)
  have ld: "l_ld l \<longrightarrow> b_category b \<noteq> erw_alloc_category_f" and z: "zero \<longrightarrow> ?Z" and al: "pow2 (b_alignment b)"
    using Cons.prems by auto
  have room: "max (unat (l_f l)) (unat (l_v l)) + step_cost bs page_size fl b + margin bs page_size fl < top TYPE('a)"
    using Cons.prems(7) cost by linarith
  note st = lay_bucket_ok [OF w ps al Cons.prems(3,4) z ld room one]
  have above: "c \<in> set rest \<Longrightarrow> b_category b \<le> b_category c" for c using Cons.prems(2) by simp
  have z1: "?Z \<longrightarrow> (\<forall>c \<in> set rest. b_category c = erw_alloc_category_v_rw_zero)"
    using above category_top by fastforce
  have f1: "l_ld l1 \<longrightarrow> (\<forall>c \<in> set rest. b_category c \<noteq> erw_alloc_category_f)"
    using st Cons.prems(6) above category_bottom by fastforce
  have room1: "max (unat (l_f l1)) (unat (l_v l1)) + budget bs page_size fl rest + margin bs page_size fl < top TYPE('a)"
    using st Cons.prems(7) cost by linarith
  have rest: "\<forall>b \<in> set rest. pow2 (b_alignment b)" "sorted (map b_category rest)" "first_ok bs (l_v l1) fl"
    "lay_inv bs n ?Z l1"
    using Cons.prems(1,2,3) st by (auto intro: first_ok_mono)
  obtain laid where L: "map fst laid = rest1" "map key_of rest1 = map key_of rest" "map bytes_of rest1 = map (\<lambda>b. unat (bucket_size b)) rest"
    "\<forall>p \<in> set laid. laid_one bs n l1 l' p" "sorted_wrt apart_v laid" "sorted_wrt apart_f laid"
    "segs_extend bs n (l_phdrs l1) (l_phdrs l')" "unat (l_f l1) \<le> unat (l_f l')" "unat (l_v l1) \<le> unat (l_v l')"
    "max (unat (l_f l')) (unat (l_v l')) \<le> max (unat (l_f l1)) (unat (l_v l1)) + budget bs page_size fl rest"
    using Cons.IH [OF rest z1 f1 room1 more] by blast
  obtain fo where fo: "laid_one bs n l l1 (b1, fo)" using st by blast
  have lift: "laid_one bs n l l' p" if "laid_one bs n l1 l' p" for p
    using that st unfolding laid_one_def by (cases p) (auto split: if_splits)
  have "\<forall>q \<in> set laid. apart_v (b1, fo) q" "\<forall>q \<in> set laid. apart_f (b1, fo) q"
    using fo L(4) unfolding laid_one_def apart_v_def apart_f_def
    by (fastforce simp: word_le_nat_alt split: prod.splits if_splits)+
  moreover have "laid_one bs n l l' (b1, fo)" using laid_one_mono [OF fo L(7,8,9)] .
  moreover have "segs_extend bs n (l_phdrs l) (l_phdrs l')" using st L(7) segs_extend_trans by blast
  moreover have "max (unat (l_f l')) (unat (l_v l')) \<le> max (unat (l_f l)) (unat (l_v l)) + budget bs page_size fl (b # rest)"
    using st L(10) cost by linarith
  moreover have "bytes_of b1 = unat (bucket_size b)" using st by (simp add: bytes_of_def)
  ultimately show ?case
    using st L lift unfolding base' by (intro exI [of _ "(b1, fo) # laid"]) auto
qed (simp add: budget_def)

end
