(* ===== verification/LayoutCorrect.thy ===== *)
theory LayoutCorrect
  imports LayoutSteps "HOL-Library.Multiset"
begin

section \<open>The layout gives every request of the next pass its space\<close>

text \<open>
  The requests of a pass, repeated after \<open>erwNNE_(retry)\<close> has laid out the buckets, are all
  met; their blocks are apart and lie in the new segments. In native endianness the new
  program headers fit into the array that was allocated for them.
\<close>

declare split_paired_All [simp del]

subsection \<open>Sorting and the start of the layout\<close>

lemma mset_insert_bucket [simp]: "mset (insert_bucket b bs) = add_mset b (mset bs)"
  by (induction bs) auto

lemma mset_sort_buckets [simp]: "mset (sort_buckets bs) = mset bs"
  by (induction bs) (auto simp: sort_buckets_def)

lemma set_sort_buckets [simp]: "set (sort_buckets bs) = set bs"
  by (metis mset_sort_buckets set_mset_mset)

lemma cmp_category: "cmp_alloc_bucket b c \<le> 0 \<Longrightarrow> b_category b \<le> b_category c"
  "\<not> cmp_alloc_bucket b c \<le> 0 \<Longrightarrow> b_category c \<le> b_category b"
  by (auto simp: cmp_alloc_bucket_def less_eq_alloc_category_def split: if_splits)

lemma sorted_insert_bucket: "sorted (map b_category bs) \<Longrightarrow> sorted (map b_category (insert_bucket b bs))"
proof (induction bs)
  case (Cons c cs)
  have "set (insert_bucket b cs) = insert b (set cs)" by (metis mset_insert_bucket set_mset_add_mset_insert set_mset_mset)
  then show ?case using Cons cmp_category [of b c] by auto
qed simp

lemma sorted_sort_buckets: "sorted (map b_category (sort_buckets bs))"
  by (induction bs) (auto simp: sort_buckets_def intro: sorted_insert_bucket)

lemma pow2_test:
  fixes x :: "'a::len word"
  assumes "x AND (x - 1) = 0" and "x \<noteq> 0"
  shows "pow2 x"
proof -
  have "1 \<le> unat x" using assms(2) by (simp add: unat_gt_0 Suc_le_eq)
  then obtain m where m: "2 ^ m \<le> unat x" "unat x < 2 ^ (m + 1)" using ex_power_ivl1 [of 2 "unat x"] by auto
  have bit_m: "bit w m" if "2 ^ m \<le> unat w" "unat w < 2 ^ (m + 1)" for w :: "'a word"
  proof -
    have "unat w div 2 ^ m = 1" using that by (intro div_nat_eqI) simp_all
    then have "bit (unat w) m" by (simp add: bit_iff_odd)
    then show ?thesis by (simp add: bit_unsigned_iff)
  qed
  have mL: "m < LENGTH('a)" using bit_m [OF m] by (rule bit_imp_le_length)
  have "unat x = 2 ^ m"
  proof (rule ccontr)
    assume "unat x \<noteq> 2 ^ m"
    then have "2 ^ m \<le> unat x - 1" using m(1) by simp
    moreover have "unat (x - 1) = unat x - 1" using \<open>1 \<le> unat x\<close> by (simp add: unat_sub_if_size)
    ultimately have "bit (x - 1) m" using m(2) by (intro bit_m) simp_all
    then have "bit (x AND (x - 1)) m" using bit_m [OF m] by (simp add: bit_and_iff)
    then show False using assms(1) by simp
  qed
  then have "x = 2 ^ m" using mL by (simp add: word_unat_eq_iff unat_pow2)
  then show ?thesis using mL by (simp add: pow2_iff)
qed

definition seg_end_f :: "bool \<Rightarrow> 'a::len word phdr \<Rightarrow> nat" where
  "seg_end_f bs p = unat (esw bs (p_offset p)) + unat (esw bs (p_filesz p))"

definition seg_end_v :: "bool \<Rightarrow> 'a::len word phdr \<Rightarrow> nat" where
  "seg_end_v bs p = unat (esw bs (p_vaddr p)) + unat (esw bs (p_memsz p))"

text \<open>The segments of the original file do not wrap around or end beyond \<open>2 ^ 62\<close>.\<close>

definition seg_ok :: "bool \<Rightarrow> 'a::len word phdr \<Rightarrow> bool" where
  "seg_ok bs p \<longleftrightarrow> seg_end_f bs p < 2 ^ LENGTH('a) \<and> seg_end_v bs p < 2 ^ LENGTH('a) \<and>
     seg_end_f bs p \<le> 2 ^ 62 \<and> seg_end_v bs p \<le> 2 ^ 62"

definition loads :: "bool \<Rightarrow> 'a::len word phdr list \<Rightarrow> 'a word phdr list" where
  "loads bs = filter (\<lambda>p. p_type p = esw bs PT_LOAD)"

lemma loads_Cons: "loads bs (p # ps) = (if esw bs (p_type p) = PT_LOAD then p # loads bs ps else loads bs ps)"
  by (auto simp: loads_def esw_eq_iff)

lemma layout_start_fold:
  fixes phdrs :: "'a::len word phdr list"
  assumes "LENGTH('a) \<le> 64" and "\<forall>p \<in> set (loads bs phdrs). seg_ok bs p"
    and "fold (layout_start_one bs) phdrs (f, v, page_size) = (f', v', page_size')" and "pow2 page_size"
  shows "f \<le> f' \<and> v \<le> v' \<and> unat f' \<le> max (unat f) (2 ^ 62) \<and> unat v' \<le> max (unat v) (2 ^ 62) \<and> pow2 page_size' \<and> unat page_size' \<le> max (unat page_size) 0x10000 \<and>
    (\<forall>p \<in> set (loads bs phdrs). seg_end_f bs p \<le> unat f' \<and> seg_end_v bs p \<le> unat v')"
  using assms(2-)
proof (induction phdrs arbitrary: f v page_size)
  case (Cons p ps)
  show ?case
  proof (cases "esw bs (p_type p) = PT_LOAD")
    case False
    then show ?thesis using Cons by (simp add: layout_start_one_def loads_Cons)
  next
    case True
    define itr_f where "itr_f = (ucast (esw bs (p_offset p) + esw bs (p_filesz p)) :: u64)"
    define itr_v where "itr_v = (ucast (esw bs (p_vaddr p) + esw bs (p_memsz p)) :: u64)"
    define itr_a where "itr_a = (ucast (esw bs (p_align p)) :: u64)"
    have ok: "seg_ok bs p" "\<forall>p \<in> set (loads bs ps). seg_ok bs p" using Cons.prems(1) True by (auto simp: loads_Cons)
    have u: "unat itr_f = seg_end_f bs p" "unat itr_v = seg_end_v bs p"
      using ok(1) assms(1) by (simp_all add: itr_f_def itr_v_def unat_ucast_up unat_plus seg_ok_def seg_end_f_def seg_end_v_def)
    let ?f = "if f < itr_f then itr_f else f" let ?v = "if v < itr_v then itr_v else v"
    let ?ps = "if itr_a > page_size \<and> itr_a \<le> 0x10000 \<and> itr_a AND (itr_a - 1) = 0 then itr_a else page_size"
    have "layout_start_one bs p (f, v, page_size) = (?f, ?v, ?ps)"
      using True by (simp only: layout_start_one_def Let_def itr_f_def itr_v_def itr_a_def prod.case not_True_eq_False if_False simp_thms)
    then have rest: "fold (layout_start_one bs) ps (?f, ?v, ?ps) = (f', v', page_size')"
      using Cons.prems(2) by (simp only: fold_Cons o_apply)
    have "pow2 itr_a" if "itr_a > page_size" "itr_a AND (itr_a - 1) = 0" using that pow2_test [of itr_a] by fastforce
    then have "pow2 ?ps" using Cons.prems(3) by auto
    note ih = Cons.IH [OF ok(2) rest this]
    have "unat ?ps \<le> max (unat page_size) 0x10000" by (auto simp: word_le_nat_alt)
    moreover have "f \<le> ?f" "v \<le> ?v" "itr_f \<le> ?f" "itr_v \<le> ?v" by auto
    then have "f \<le> f'" "v \<le> v'" "itr_f \<le> f'" "itr_v \<le> v'" using ih by (meson order_trans)+
    moreover have "unat ?f \<le> max (unat f) (2 ^ 62)" "unat ?v \<le> max (unat v) (2 ^ 62)"
      using u ok(1) by (auto simp: seg_ok_def)
    ultimately show ?thesis using ih True u by (auto simp: loads_Cons word_le_nat_alt)
  qed
qed (simp add: loads_def)

text \<open>What is relied on of the original file and the page size.\<close>

definition file_ok :: "'a::len word erw \<Rightarrow> bool" where
  "file_ok erw \<longleftrightarrow> pow2 (e_guest_page_size erw) \<and> unat (e_guest_page_size erw) \<le> 2 ^ 61 \<and>
     (\<forall>p \<in> set (loads (e_bswap erw) (o_phdrs (e_original erw))). seg_ok (e_bswap erw) p \<and>
       (esw (e_bswap erw) (p_align p) = 0 \<or> pow2 (esw (e_bswap erw) (p_align p)) \<and>
         unat (esw (e_bswap erw) (p_offset p)) mod unat (esw (e_bswap erw) (p_align p)) =
         unat (esw (e_bswap erw) (p_vaddr p)) mod unat (esw (e_bswap erw) (p_align p))))"

lemma find_load_Some: "find_load bs phdrs = Some p \<Longrightarrow> p \<in> set (loads bs phdrs)"
  by (auto simp: find_load_def loads_def find_Some_iff)

lemma layout_start_ok:
  fixes erw :: "'a::len word erw"
  assumes w: "width_ok TYPE('a)" and ok: "file_ok erw"
    and r: "layout_start (e_bswap erw) (e_guest_page_size erw) (o_f_size (e_original erw)) (o_phdrs (e_original erw)) = (f, v, page_size)"
  shows "pow2 page_size \<and> unat page_size \<le> max (unat (e_guest_page_size erw)) 0x10000 \<and> o_f_size (e_original erw) \<le> f \<and>
    (\<forall>p \<in> set (loads (e_bswap erw) (o_phdrs (e_original erw))).
       seg_end_f (e_bswap erw) p \<le> unat f \<and> seg_end_v (e_bswap erw) p \<le> unat v) \<and>
    first_ok (e_bswap erw) v (find_load (e_bswap erw) (o_phdrs (e_original erw)))"
proof -
  let ?bs = "e_bswap erw" let ?ph = "o_phdrs (e_original erw)"
  obtain f0 v0 ps where fold: "fold (layout_start_one ?bs) ?ph (0, 0, e_guest_page_size erw) = (f0, v0, ps)"
    by (metis prod.exhaust)
  have res: "f = (if align_up f0 ps < o_f_size (e_original erw) then o_f_size (e_original erw) else align_up f0 ps)"
    "v = align_up v0 ps" "page_size = ps"
    using r fold by (auto simp: layout_start_def Let_def align_up_def)
  have L: "LENGTH('a) \<le> 64" using w by auto
  have segs: "\<forall>p \<in> set (loads ?bs ?ph). seg_ok ?bs p" and page: "pow2 (e_guest_page_size erw)"
    "unat (e_guest_page_size erw) \<le> 2 ^ 61" using ok by (auto simp: file_ok_def)
  note fo = layout_start_fold [OF L segs fold page(1)]
  have ps: "pow2 ps" "unat ps \<le> 2 ^ 61" using fo page(2) by auto
  have "unat f0 + unat ps < 2 ^ 64" "unat v0 + unat ps < 2 ^ 64" using fo ps(2) by simp_all
  then have up: "unat (align_up f0 ps) = up (unat ps) (unat f0)" "unat (align_up v0 ps) = up (unat ps) (unat v0)"
    using unat_align_up [OF ps(1)] by simp_all
  then have "unat f0 \<le> unat (align_up f0 ps)" "unat v0 \<le> unat (align_up v0 ps)"
    using up_facts(1) [OF pow2_pos [OF ps(1)]] by simp_all
  moreover have "align_up f0 ps \<le> f" unfolding res(1) by (simp add: less_imp_le)
  ultimately have ge: "unat f0 \<le> unat f" "unat v0 \<le> unat v" by (simp_all add: word_le_nat_alt res(2))
  have ends: "\<forall>p \<in> set (loads ?bs ?ph). seg_end_f ?bs p \<le> unat f \<and> seg_end_v ?bs p \<le> unat v"
    using fo ge by (meson order_trans)
  have "first_ok ?bs v (find_load ?bs ?ph)"
    using ends ok find_load_Some [of ?bs ?ph] unfolding first_ok_def file_ok_def seg_end_v_def
    by (auto dest!: find_load_Some)
  then show ?thesis using ends fo res by auto
qed

subsection \<open>The layout of a pass\<close>

text \<open>The room a layout needs.\<close>

definition layout_fits :: "'a::len word erw \<Rightarrow> bool" where
  "layout_fits erw \<longleftrightarrow>
    (let bs = e_bswap erw; phdrs = o_phdrs (e_original erw);
         (f, v, page_size) = layout_start bs (e_guest_page_size erw) (o_f_size (e_original erw)) phdrs;
         fl = find_load bs phdrs
     in max (unat f) (unat v) + budget bs page_size fl (bs_base (e_alloc erw)) + margin bs page_size fl < top TYPE('a))"

text \<open>
  The new space lies behind everything of the original file, the ranges of the buckets are
  apart in the address space and in the file, and new segments map the ones onto the others.
\<close>

definition layout_good :: "'a::len word erw \<Rightarrow> 'a word layout \<Rightarrow> (alloc_bucket \<times> nat) list \<Rightarrow> bool" where
  "layout_good erw l laid \<longleftrightarrow>
    (let bs = e_bswap erw; phdrs = o_phdrs (e_original erw); n = length phdrs in
     take n (l_phdrs l) = phdrs \<and> n \<le> length (l_phdrs l) \<and>
     sorted_wrt apart_v laid \<and> sorted_wrt apart_f laid \<and>
     (\<forall>(b, fo) \<in> set laid.
        b_current b = b_start b \<and> b_start b \<le> b_end b \<and> unat (b_alignment b) dvd unat (b_start b) \<and>
        (if b_category b = erw_alloc_category_f then fo = unat (b_start b)
         else (\<forall>p \<in> set (loads bs phdrs). seg_end_v bs p \<le> unat (b_start b)) \<and>
           (\<exists>s. n \<le> s \<and> s < length (l_phdrs l) \<and> in_segment bs (l_phdrs l ! s) b fo)) \<and>
        (b_category b \<noteq> erw_alloc_category_v_rw_zero \<longrightarrow>
           o_f_size (e_original erw) \<le> l_f l \<and> unat (o_f_size (e_original erw)) \<le> fo \<and>
           (\<forall>p \<in> set (loads bs phdrs). seg_end_f bs p \<le> fo) \<and> fo + bytes_of b \<le> unat (l_f l))))"

lemma retry_layout_good:
  fixes erw :: "'a::len word erw"
  assumes w: "width_ok TYPE('a)" and ok: "file_ok erw" and al: "\<forall>b \<in> set (bs_base (e_alloc erw)). pow2 (b_alignment b)"
    and fits: "layout_fits erw" and r: "retry_layout erw = (alloc', l')"
  shows "\<exists>laid. map fst laid = bs_base alloc' \<and> layout_good erw l' laid \<and>
    mset (map (\<lambda>b. (key_of b, bytes_of b)) (bs_base alloc')) =
    mset (map (\<lambda>b. (key_of b, unat (bucket_size b))) (bs_base (e_alloc erw)))"
proof -
  let ?bs = "e_bswap erw" let ?ph = "o_phdrs (e_original erw)" let ?base = "bs_base (e_alloc erw)"
  obtain f v ps where st: "layout_start ?bs (e_guest_page_size erw) (o_f_size (e_original erw)) ?ph = (f, v, ps)"
    by (metis prod.exhaust)
  define l where "l = \<lparr>l_f = f, l_v = v, l_phdrs = ?ph, l_ld = False\<rparr>"
  obtain base' where lay: "lay_buckets ?bs ps (find_load ?bs ?ph) (sort_buckets ?base) l = (base', l')"
    and alloc': "bs_base alloc' = base'"
    using r st by (auto simp: retry_layout_def Let_def l_def split: prod.splits)
  note start = layout_start_ok [OF w ok st]
  have "mset (map (step_cost ?bs ps (find_load ?bs ?ph)) (sort_buckets ?base)) =
      mset (map (step_cost ?bs ps (find_load ?bs ?ph)) ?base)" by (simp only: mset_map mset_sort_buckets)
  then have "budget ?bs ps (find_load ?bs ?ph) (sort_buckets ?base) = budget ?bs ps (find_load ?bs ?ph) ?base"
    unfolding budget_def by (metis sum_mset_sum_list)
  then have room: "max (unat (l_f l)) (unat (l_v l)) + budget ?bs ps (find_load ?bs ?ph) (sort_buckets ?base) +
      margin ?bs ps (find_load ?bs ?ph) < top TYPE('a)"
    using fits st by (simp add: layout_fits_def Let_def l_def)
  have inv: "lay_inv ?bs (length ?ph) False l" by (simp add: lay_inv_def l_def)
  obtain laid where L: "map fst laid = base'" "map key_of base' = map key_of (sort_buckets ?base)"
    "map bytes_of base' = map (\<lambda>b. unat (bucket_size b)) (sort_buckets ?base)"
    "\<forall>p \<in> set laid. laid_one ?bs (length ?ph) l l' p" "sorted_wrt apart_v laid" "sorted_wrt apart_f laid"
    "segs_extend ?bs (length ?ph) (l_phdrs l) (l_phdrs l')" "unat (l_f l) \<le> unat (l_f l')"
    using lay_buckets_ok [OF w _ _ sorted_sort_buckets _ inv _ _ room lay] start al by (auto simp: l_def)
  have "zip (map key_of base') (map bytes_of base') =
      zip (map key_of (sort_buckets ?base)) (map (\<lambda>b. unat (bucket_size b)) (sort_buckets ?base))"
    using L(2,3) by simp
  then have "map (\<lambda>b. (key_of b, bytes_of b)) base' = map (\<lambda>b. (key_of b, unat (bucket_size b))) (sort_buckets ?base)"
    by (simp add: zip_map_map zip_same_conv_map comp_def)
  then have "mset (map (\<lambda>b. (key_of b, bytes_of b)) base') =
      mset (map (\<lambda>b. (key_of b, unat (bucket_size b))) (sort_buckets ?base))" by simp
  also have "\<dots> = mset (map (\<lambda>b. (key_of b, unat (bucket_size b))) ?base)" by (simp only: mset_map mset_sort_buckets)
  finally have ms: "mset (map (\<lambda>b. (key_of b, bytes_of b)) base') =
      mset (map (\<lambda>b. (key_of b, unat (bucket_size b))) ?base)" .
  have "layout_good erw l' laid"
    unfolding layout_good_def Let_def
  proof (intro conjI)
    show "take (length ?ph) (l_phdrs l') = ?ph" "length ?ph \<le> length (l_phdrs l')"
      using L(7) by (simp_all add: segs_extend_def l_def)
    show "\<forall>(b, fo) \<in> set laid.
        b_current b = b_start b \<and> b_start b \<le> b_end b \<and> unat (b_alignment b) dvd unat (b_start b) \<and>
        (if b_category b = erw_alloc_category_f then fo = unat (b_start b)
         else (\<forall>p \<in> set (loads ?bs ?ph). seg_end_v ?bs p \<le> unat (b_start b)) \<and>
           (\<exists>s. length ?ph \<le> s \<and> s < length (l_phdrs l') \<and> in_segment ?bs (l_phdrs l' ! s) b fo)) \<and>
        (b_category b \<noteq> erw_alloc_category_v_rw_zero \<longrightarrow>
           o_f_size (e_original erw) \<le> l_f l' \<and> unat (o_f_size (e_original erw)) \<le> fo \<and>
           (\<forall>p \<in> set (loads ?bs ?ph). seg_end_f ?bs p \<le> fo) \<and> fo + bytes_of b \<le> unat (l_f l'))"
    proof safe
      fix b fo assume m: "(b, fo) \<in> set laid"
      have one: "laid_one ?bs (length ?ph) l l' (b, fo)" using L(4) m by blast
      have fv: "l_f l = f" "l_v l = v" by (simp_all add: l_def)
      have of: "unat (o_f_size (e_original erw)) \<le> unat f" using start by (simp add: word_le_nat_alt)
      note one = one [unfolded laid_one_def prod.case fv]
      show "b_current b = b_start b" "b_start b \<le> b_end b" "unat (b_alignment b) dvd unat (b_start b)"
        using one by blast+
      show "if b_category b = erw_alloc_category_f then fo = unat (b_start b)
         else (\<forall>p \<in> set (loads ?bs ?ph). seg_end_v ?bs p \<le> unat (b_start b)) \<and>
           (\<exists>s. length ?ph \<le> s \<and> s < length (l_phdrs l') \<and> in_segment ?bs (l_phdrs l' ! s) b fo)"
        using one start by (auto intro: order_trans)
      assume nz: "b_category b \<noteq> erw_alloc_category_v_rw_zero"
      then have fo: "unat f \<le> fo" "fo + bytes_of b \<le> unat (l_f l')" using one by auto
      then show "fo + bytes_of b \<le> unat (l_f l')" "unat (o_f_size (e_original erw)) \<le> fo"
        "o_f_size (e_original erw) \<le> l_f l'" using of by (simp_all add: word_le_nat_alt)
      fix p assume "p \<in> set (loads ?bs ?ph)"
      then show "seg_end_f ?bs p \<le> fo" using start fo(1) by (meson order_trans)
    qed
  qed (rule L)+
  then show ?thesis using L(1) ms unfolding alloc' by blast
qed

subsection \<open>The next pass\<close>

text \<open>The buckets a pass starts with: none, or those of a layout.\<close>

definition pass_start :: "alloc_buckets \<Rightarrow> bool" where
  "pass_start a \<longleftrightarrow> distinct (map key_of (bs_base a)) \<and>
     (\<forall>b \<in> set (bs_base a). b_current b = b_start b \<and> b_start b \<le> b_end b \<and> pow2 (b_alignment b) \<and>
        unat (b_alignment b) dvd unat (b_start b))"

lemma bucket_in: "k \<in> key_of ` set bs \<Longrightarrow> bucket bs k \<in> set bs \<and> key_of (bucket bs k) = k"
  using find_bucket_Some [of bs k] find_bucket_None [of bs k] by (auto simp: bucket_def split: option.splits)

lemma bucket_of: "distinct (map key_of bs) \<Longrightarrow> b \<in> set bs \<Longrightarrow> bucket bs (key_of b) = b"
  using bucket_in [of "key_of b" bs] by (auto simp: distinct_map inj_on_def)

lemma pass_start_bucket:
  assumes "pass_start a" and "pow2 (snd k)"
  shows "b_current (bucket (bs_base a) k) = b_start (bucket (bs_base a) k) \<and>
    b_start (bucket (bs_base a) k) \<le> b_end (bucket (bs_base a) k) \<and>
    unat (snd k) dvd unat (b_start (bucket (bs_base a) k))"
proof (cases "k \<in> key_of ` set (bs_base a)")
  case True
  then show ?thesis using bucket_in [OF True] assms by (auto simp: pass_start_def key_of_def)
next
  case False
  then show ?thesis using find_bucket_None [of "bs_base a" k] by (simp add: bucket_def)
qed

lemma replay_bucket:
  assumes rs: "requests_ok rs" and a0: "pass_start a0" and room0: "roomy a0 (cost rs)"
    and run: "alloc_run a0 rs = (a1, xs0, ok0)"
    and ms: "mset (map (\<lambda>b. (key_of b, bytes_of b)) (bs_base a2)) = mset (map (\<lambda>b. (key_of b, unat (bucket_size b))) (bs_base a1))"
    and a2: "\<forall>b \<in> set (bs_base a2). b_current b = b_start b \<and> b_start b \<le> b_end b \<and> unat (b_alignment b) dvd unat (b_start b)"
    and k: "k \<in> req_key ` set rs"
  shows "bucket (bs_base a2) k \<in> set (bs_base a2) \<and> key_of (bucket (bs_base a2) k) = k \<and>
    used (unat (snd k)) (currents a2 k) (sizes k rs) \<le> unat (b_end (bucket (bs_base a2) k)) \<and>
    currents a2 k = unat (b_start (bucket (bs_base a2) k))"
proof -
  have pk: "pow2 (snd k)" using rs k by (auto simp: requests_ok_def)
  note pos = pow2_pos [OF pk]
  note ro = alloc_run_ok [OF rs room0 run]
  let ?b1 = "bucket (bs_base a1) k"
  note s0 = pass_start_bucket [OF a0 pk]
  have b1: "?b1 \<in> set (bs_base a1)" "key_of ?b1 = k" using bucket_in [of k "bs_base a1"] ro k by auto
  have d1: "distinct (map key_of (bs_base a1))" using ro a0 by (simp add: pass_start_def)
  have cur1: "unat (b_current ?b1) = unat (b_start ?b1) + used (unat (snd k)) 0 (sizes k rs)"
    using ro s0 used_shift [of "unat (snd k)" "unat (b_start ?b1)" 0 "sizes k rs"] pos by (simp add: currents_def)
  have "unat (bucket_size ?b1) \<ge> used (unat (snd k)) 0 (sizes k rs)"
  proof -
    have se: "unat (b_start ?b1) \<le> unat (b_end ?b1)" using ro s0 by (simp add: word_le_nat_alt)
    show ?thesis
    proof (cases "b_current ?b1 > b_end ?b1")
      case True
      then show ?thesis using cur1 by (simp add: bucket_size_def unat_sub_if_size)
    next
      case False
      then have "unat (b_current ?b1) \<le> unat (b_end ?b1)" by (simp add: word_less_nat_alt)
      then show ?thesis using False se cur1 by (simp add: bucket_size_def unat_sub_if_size)
    qed
  qed
  moreover have "(k, unat (bucket_size ?b1)) \<in> set (map (\<lambda>b. (key_of b, unat (bucket_size b))) (bs_base a1))" using b1 by force
  then have "(k, unat (bucket_size ?b1)) \<in> set (map (\<lambda>b. (key_of b, bytes_of b)) (bs_base a2))"
    unfolding mset_eq_setD [OF ms] .
  then obtain b2 where b2: "b2 \<in> set (bs_base a2)" "key_of b2 = k" "bytes_of b2 = unat (bucket_size ?b1)" by auto
  have "image_mset fst (mset (map (\<lambda>b. (key_of b, bytes_of b)) (bs_base a2))) =
      image_mset fst (mset (map (\<lambda>b. (key_of b, unat (bucket_size b))) (bs_base a1)))" unfolding ms ..
  then have "mset (map key_of (bs_base a2)) = mset (map key_of (bs_base a1))" by (simp add: multiset.map_comp comp_def)
  then have "distinct (map key_of (bs_base a2))" using d1 mset_eq_imp_distinct_iff by blast
  then have eq: "bucket (bs_base a2) k = b2" using bucket_of b2 by blast
  have cur2: "currents a2 k = unat (b_start b2)" using eq a2 b2 by (simp add: currents_def)
  have "unat (snd k) dvd unat (b_start b2)" "unat (b_start b2) \<le> unat (b_end b2)"
    using a2 b2 by (auto simp: key_of_def word_le_nat_alt)
  moreover from this have "used (unat (snd k)) (unat (b_start b2)) (sizes k rs) =
      unat (b_start b2) + used (unat (snd k)) 0 (sizes k rs)"
    using used_shift [of "unat (snd k)" "unat (b_start b2)" 0] pos by simp
  ultimately show ?thesis using b2 eq cur2 by (simp add: bytes_of_def)
qed

text \<open>A block of the address space or of the file, and where it is in the file.\<close>

definition block_in :: "'a::len word erw \<Rightarrow> 'a word layout \<Rightarrow> request \<Rightarrow> nat \<Rightarrow> nat \<Rightarrow> bool" where
  "block_in erw l r p fp \<longleftrightarrow>
    (let bs = e_bswap erw; phdrs = o_phdrs (e_original erw); category = fst r; sz = req_size r in
     unat (norm (fst (snd r))) dvd p \<and>
     (if category = erw_alloc_category_f then fp = p
      else (\<forall>q \<in> set (loads bs phdrs). seg_end_v bs q \<le> p) \<and>
        (\<exists>s. length phdrs \<le> s \<and> s < length (l_phdrs l) \<and>
          (let ld = l_phdrs l ! s; off = unat (esw bs (p_offset ld)); va = unat (esw bs (p_vaddr ld)) in
           p_type ld = esw bs PT_LOAD \<and> p_flags ld = esw bs (load_flags category) \<and>
           off mod unat (esw bs (p_align ld)) = va mod unat (esw bs (p_align ld)) \<and>
           va \<le> p \<and> p + sz \<le> va + unat (esw bs (p_memsz ld)) \<and>
           (category \<noteq> erw_alloc_category_v_rw_zero \<longrightarrow>
              fp = off + (p - va) \<and> fp + sz \<le> off + unat (esw bs (p_filesz ld)))))) \<and>
     (category \<noteq> erw_alloc_category_v_rw_zero \<longrightarrow>
        unat (o_f_size (e_original erw)) \<le> fp \<and> (\<forall>q \<in> set (loads bs phdrs). seg_end_f bs q \<le> fp) \<and> fp + sz \<le> unat (l_f l)))"

definition ranges_apart :: "nat \<Rightarrow> nat \<Rightarrow> nat \<Rightarrow> nat \<Rightarrow> bool" where
  "ranges_apart p n q m \<longleftrightarrow> p + n \<le> q \<or> q + m \<le> p"

lemma sorted_wrt_pair: "sorted_wrt P xs \<Longrightarrow> x \<in> set xs \<Longrightarrow> y \<in> set xs \<Longrightarrow> x = y \<or> P x y \<or> P y x"
  by (induction xs) auto

subsection \<open>The new headers fit\<close>

text \<open>The category mask has the bit of every bucket.\<close>

definition mask_ok :: "alloc_buckets \<Rightarrow> bool" where
  "mask_ok bs \<longleftrightarrow> (\<forall>b \<in> set (bs_base bs). bit (bs_category_mask bs) (category_rank (b_category b)))"

lemma category_rank_less: "category_rank c < 6"
  by (cases c) simp_all

lemma mask_ok_alloc_in:
  assumes "mask_ok bs"
  shows "mask_ok (fst (alloc_in bs c a sz))"
proof (cases "find_bucket (bs_base bs) c (norm a)")
  case (Some i)
  then have i: "i < length (bs_base bs)" using find_bucket_Some [of "bs_base bs" "(c, norm a)" i] by simp
  define x where "x = align_up (b_current (bs_base bs ! i)) (ucast (norm a)) + sz"
  have "fst (alloc_in bs c a sz) = bs\<lparr>bs_base := (bs_base bs)[i := (bs_base bs ! i)\<lparr>b_current := x\<rparr>]\<rparr>"
    using Some by (simp add: alloc_in_def find_alloc_bucket_def Let_def norm_def x_def)
  then show ?thesis using assms i by (auto simp: mask_ok_def set_update_subset_insert dest!: set_update_subset_insert [THEN subsetD])
next
  case None
  have bit: "bit (m OR 2 ^ category_rank d :: u32) n \<longleftrightarrow> bit m n \<or> n = category_rank d" for m d n
    using category_rank_less [of d] by (auto simp: bit_simps)
  show ?thesis
    using assms None by (auto simp: mask_ok_def alloc_in_def find_alloc_bucket_def Let_def norm_def nth_append bit list_update_append)
qed

lemma mask_ok_alloc_run: "mask_ok bs \<Longrightarrow> mask_ok (fst (alloc_run bs rs))"
proof (induction bs rs rule: alloc_run.induct)
  case (2 bs c a sz rs)
  then show ?case using mask_ok_alloc_in [of bs c a sz] by (auto simp: Let_def split: prod.splits)
qed simp

definition flag_set :: "alloc_bucket list \<Rightarrow> u32 set" where
  "flag_set bs = load_flags ` (b_category ` set bs - {erw_alloc_category_f})"

text \<open>Categories with the same flags stand together.\<close>

lemma load_flags_convex: "c \<le> d \<Longrightarrow> d \<le> e \<Longrightarrow> load_flags c = load_flags e \<Longrightarrow> c \<noteq> erw_alloc_category_f \<Longrightarrow> load_flags d = load_flags c"
  by (cases c; cases d; cases e) (simp_all add: less_eq_alloc_category_def load_flags_def)

definition open_flags :: "'w layout \<Rightarrow> u32 set" where
  "open_flags l = (if l_ld l then {p_flags (last (l_phdrs l))} else {})"

lemma finite_flag_set [simp]: "finite (flag_set bs)"
  by (simp add: flag_set_def)

lemma lay_buckets_count:
  assumes "sorted (map b_category base)" and "lay_buckets False page_size fl base l = (base', l')"
    and "l_ld l \<Longrightarrow> l_phdrs l \<noteq> [] \<and> (\<exists>c. c \<noteq> erw_alloc_category_f \<and> p_flags (last (l_phdrs l)) = load_flags c \<and> (\<forall>b \<in> set base. c \<le> b_category b))"
  shows "length (l_phdrs l') \<le> length (l_phdrs l) + card (flag_set base - open_flags l)"
  using assms
proof (induction base arbitrary: l base' l')
  case (Cons b rest)
  obtain b1 l1 where one: "lay_bucket False page_size fl b l = (b1, l1)" by (metis prod.exhaust)
  obtain rest1 where more: "lay_buckets False page_size fl rest l1 = (rest1, l')"
    using Cons.prems(2) one by (auto simp: Let_def split: prod.splits)
  have sorted: "sorted (map b_category rest)" "\<forall>c \<in> set rest. b_category b \<le> b_category c" using Cons.prems(1) by simp_all
  show ?case
  proof (cases "b_category b = erw_alloc_category_f")
    case True
    then have l1: "l_phdrs l1 = l_phdrs l" "l_ld l1 = l_ld l" using one by (auto simp: lay_bucket_def lay_f_def Let_def)
    have "flag_set (b # rest) = flag_set rest" using True by (simp add: flag_set_def insert_Diff_if)
    moreover have "l_ld l1 \<Longrightarrow> l_phdrs l1 \<noteq> [] \<and> (\<exists>c. c \<noteq> erw_alloc_category_f \<and> p_flags (last (l_phdrs l1)) = load_flags c \<and>
        (\<forall>b \<in> set rest. c \<le> b_category b))"
      using Cons.prems(3) l1 by auto
    note ih = Cons.IH [OF sorted(1) more this]
    moreover have "open_flags l1 = open_flags l" by (simp only: open_flags_def l1)
    ultimately show ?thesis using ih l1 by simp
  next
    case False
    let ?g = "load_flags (b_category b)"
    define l0 where "l0 = open_load False page_size fl b l"
    have lv: "lay_v False b (bucket_size b) l0 = (b1, l1)"
      using one False by (simp add: lay_bucket_def bucket_size_def l0_def)
    have fs: "flag_set (b # rest) = insert ?g (flag_set rest)" using False by (simp add: flag_set_def insert_Diff_if)
    have l0: "l_ld l0 \<and> l_phdrs l0 \<noteq> [] \<and> p_flags (last (l_phdrs l0)) = ?g \<and>
      length (l_phdrs l0) = length (l_phdrs l) + (if ?g \<in> open_flags l then 0 else 1)"
    proof (cases "\<not> l_ld l \<or> p_flags (last (l_phdrs l)) \<noteq> ?g")
      case True
      obtain ld f v where nl: "new_load False page_size fl (l_phdrs l = []) ?g (b_alignment b) (l_f l, l_v l) = (ld, f, v)"
        by (metis prod.exhaust)
      have "p_flags ld = ?g" using nl by (auto simp: new_load_def Let_def esw_def split: prod.splits)
      then show ?thesis using True nl by (auto simp: l0_def open_load_def Let_def open_flags_def)
    next
      case False
      then show ?thesis using Cons.prems(3) by (auto simp: l0_def open_load_def Let_def open_flags_def)
    qed
    have l1: "l_ld l1" "l_phdrs l1 \<noteq> []" "p_flags (last (l_phdrs l1)) = ?g" "length (l_phdrs l1) = length (l_phdrs l0)"
    proof -
      obtain ld where ld: "l_phdrs l1 = butlast (l_phdrs l0) @ [ld]" "p_flags ld = p_flags (last (l_phdrs l0))" "l_ld l1 = l_ld l0"
        using lv by (auto simp: lay_v_def Let_def)
      have l0': "l_ld l0" "l_phdrs l0 \<noteq> []" "p_flags (last (l_phdrs l0)) = ?g" using l0 by blast+
      then have "0 < length (l_phdrs l0)" by simp
      then show "l_ld l1" "l_phdrs l1 \<noteq> []" "p_flags (last (l_phdrs l1)) = ?g" "length (l_phdrs l1) = length (l_phdrs l0)"
        using ld l0' by simp_all
    qed
    have ih: "length (l_phdrs l') \<le> length (l_phdrs l1) + card (flag_set rest - {?g})"
      using Cons.IH [OF sorted(1) more] l1 False sorted(2) by (auto simp: open_flags_def)
    show ?thesis
    proof (cases "?g \<in> open_flags l")
      case True
      then have "open_flags l = {?g}" by (auto simp: open_flags_def split: if_splits)
      then show ?thesis using ih l0 l1(4) True fs by simp
    next
      case new: False
      have "open_flags l \<inter> flag_set rest = {}"
      proof (rule ccontr)
        assume "open_flags l \<inter> flag_set rest \<noteq> {}"
        then obtain d where d: "d \<in> set rest" "l_ld l" "p_flags (last (l_phdrs l)) = load_flags (b_category d)"
          by (auto simp: open_flags_def flag_set_def split: if_splits)
        then obtain c where c: "c \<noteq> erw_alloc_category_f" "load_flags c = load_flags (b_category d)" "c \<le> b_category b"
          using Cons.prems(3) by auto
        then have "?g = load_flags c" using load_flags_convex [of c "b_category b" "b_category d"] sorted(2) d(1) by blast
        then show False using new d c by (simp add: open_flags_def)
      qed
      then have "flag_set (b # rest) - open_flags l = insert ?g (flag_set rest - {?g})" using fs new by auto
      then have "card (flag_set (b # rest) - open_flags l) = Suc (card (flag_set rest - {?g}))"
        by (simp only: card_insert_disjoint finite_Diff finite_flag_set Diff_iff singleton_iff simp_thms)
      then show ?thesis using ih l0 l1(4) new by simp
    qed
  qed
qed simp

lemma and_bit_iff: "k < 32 \<Longrightarrow> (m :: u32) AND push_bit k 1 \<noteq> 0 \<longleftrightarrow> bit m k"
  by (simp add: push_bit_eq_mult and_exp_eq_0_iff_not_bit)

lemma card_flag_set:
  assumes b: "\<forall>b \<in> set bs. bit (m :: u32) (category_rank (b_category b))"
  shows "card (flag_set bs) + (if flag_set bs = {} then 0 else 1) \<le> unat (extra_phdrs_required_for_category_mask m)"
proof (cases "flag_set bs = {}")
  case False
  let ?x = "m AND push_bit 3 1 \<noteq> 0" let ?w = "m AND (push_bit 4 1 OR push_bit 5 1) \<noteq> 0"
  have in_m: "bit m (category_rank c)" if "c \<in> b_category ` set bs" for c using b that by auto
  obtain c where c: "c \<in> b_category ` set bs" "c \<noteq> erw_alloc_category_f" using False by (auto simp: flag_set_def)
  have k: "bit m (category_rank c)" using in_m [OF c(1)] .
  have k0: "category_rank c \<noteq> 0" using c(2) by (cases c) simp_all
  have bc: "bit (m AND NOT 1) (category_rank c)"
    using k k0 category_rank_less [of c] by (simp add: bit_and_iff bit_not_iff bit_1_iff)
  have any: "m AND NOT 1 \<noteq> 0"
  proof
    assume "m AND NOT 1 = 0"
    then show False using bc by simp
  qed
  have w: "bit m 4 \<or> bit m 5 \<Longrightarrow> ?w"
  proof
    assume r: "bit m 4 \<or> bit m 5" and z: "m AND (push_bit 4 1 OR push_bit 5 1) = 0"
    have "bit (m AND (push_bit 4 1 OR push_bit 5 1)) 4 = bit m 4" "bit (m AND (push_bit 4 1 OR push_bit 5 1)) 5 = bit m 5"
      by (simp_all add: bit_and_iff bit_or_iff)
    then show False using r unfolding z by simp
  qed
  have "load_flags c \<in> {4} \<union> (if ?x then {5} else {}) \<union> (if ?w then {6} else {})"
    if "c \<in> b_category ` set bs - {erw_alloc_category_f}" for c
    using that in_m [of c] and_bit_iff [of 3 m] w by (cases c) (auto simp: load_flags_def)
  then have "flag_set bs \<subseteq> {4} \<union> (if ?x then {5} else {}) \<union> (if ?w then {6} else {})" unfolding flag_set_def by (rule image_subsetI)
  then have "card (flag_set bs) \<le> card ({4 :: u32} \<union> (if ?x then {5} else {}) \<union> (if ?w then {6} else {}))"
    by (intro card_mono) auto
  also have "\<dots> = 1 + (if ?x then 1 else 0) + (if ?w then 1 else 0)" by auto
  finally show ?thesis using False any by (auto simp: extra_phdrs_required_for_category_mask_def Let_def)
qed simp

subsection \<open>Properties\<close>

definition layout_phdr :: "64 word phdr" where
  "layout_phdr = \<lparr>p_type = 1, p_flags = 5, p_offset = 0, p_vaddr = 0, p_paddr = 0, p_filesz = 0x1234,
     p_memsz = 0x2345, p_align = 0x1000\<rparr>"

definition layout_requests :: "request list" where
  "layout_requests = [(erw_alloc_category_v_rw_zero, 16, 0x30), (erw_alloc_category_v_r, 8, 0x21), (erw_alloc_category_f, 0, 5)]"

definition no_buckets :: alloc_buckets where
  "no_buckets = \<lparr>bs_base = [], bs_capacity = 0, bs_category_mask = 0\<rparr>"

definition asked :: alloc_buckets where
  "asked = \<lparr>bs_base =
     [\<lparr>b_category = erw_alloc_category_v_rw_zero, b_alignment = 16, b_start = 0, b_current = 48, b_end = 0\<rparr>,
      \<lparr>b_category = erw_alloc_category_v_r, b_alignment = 8, b_start = 0, b_current = 33, b_end = 0\<rparr>,
      \<lparr>b_category = erw_alloc_category_f, b_alignment = 1, b_start = 0, b_current = 5, b_end = 0\<rparr>],
     bs_capacity = 4, bs_category_mask = 35\<rparr>"

definition layout_example :: "64 word erw" where
  "layout_example = erw_zero\<lparr>e_machine := EM_X86_64, e_alloc := asked,
    e_original := \<lparr>o_f_size = 0x1800, o_phdrs = [layout_phdr], o_mem = Map.empty\<rparr>, e_guest_page_size := 0x1000\<rparr>"

lemma asked_eq: "alloc_run no_buckets layout_requests = (asked, [0, 0, 0], False)"
  by code_simp

definition laid_out :: alloc_buckets where
  "laid_out = \<lparr>bs_base =
     [\<lparr>b_category = erw_alloc_category_f, b_alignment = 1, b_start = 0x2000, b_current = 0x2000, b_end = 0x2005\<rparr>,
      \<lparr>b_category = erw_alloc_category_v_r, b_alignment = 8, b_start = 0x3008, b_current = 0x3008, b_end = 0x3029\<rparr>,
      \<lparr>b_category = erw_alloc_category_v_rw_zero, b_alignment = 16, b_start = 0x4030, b_current = 0x4030, b_end = 0x4060\<rparr>],
     bs_capacity = 4, bs_category_mask = 35\<rparr>"

definition layout_phdrs :: "64 word phdr list" where
  "layout_phdrs = [layout_phdr,
     \<lparr>p_type = 1, p_flags = 4, p_offset = 0x3008, p_vaddr = 0x3008, p_paddr = 0x3008, p_filesz = 0x21, p_memsz = 0x21, p_align = 0x1000\<rparr>,
     \<lparr>p_type = 1, p_flags = 6, p_offset = 0x3030, p_vaddr = 0x4030, p_paddr = 0x4030, p_filesz = 0, p_memsz = 0x30, p_align = 0x1000\<rparr>]"

lemma layout_start_example: "layout_start False 0x1000 0x1800 [layout_phdr] = (0x2000, 0x3000, 0x1000)"
  by code_simp

lemma sort_example: "sort_buckets (bs_base asked) = rev (bs_base asked)"
  by code_simp

lemma find_load_example: "find_load False [layout_phdr] = Some layout_phdr"
  by code_simp

lemma lay_example:
  "lay_buckets False 0x1000 (Some layout_phdr) (rev (bs_base asked))
     \<lparr>l_f = 0x2000, l_v = 0x3000, l_phdrs = [layout_phdr], l_ld = False\<rparr> =
   (bs_base laid_out, \<lparr>l_f = 0x3030, l_v = 0x4060, l_phdrs = layout_phdrs, l_ld = True\<rparr>)"
proof -
  have f: "lay_f (bs_base asked ! 2) 5 \<lparr>l_f = 0x2000, l_v = 0x3000, l_phdrs = [layout_phdr], l_ld = False\<rparr> =
      (bs_base laid_out ! 0, \<lparr>l_f = 0x2005, l_v = 0x3000, l_phdrs = [layout_phdr], l_ld = False\<rparr>)"
    by code_simp
  have r: "new_load False 0x1000 (Some layout_phdr) False 4 8 (0x2005, 0x3000) =
      ((layout_phdrs ! 1)\<lparr>p_filesz := 0, p_memsz := 0\<rparr>, 0x3008, 0x3008)"
    by code_simp
  have r': "lay_v False (bs_base asked ! 1) 33 \<lparr>l_f = 0x3008, l_v = 0x3008,
        l_phdrs = [layout_phdr, (layout_phdrs ! 1)\<lparr>p_filesz := 0, p_memsz := 0\<rparr>], l_ld = True\<rparr> =
      (bs_base laid_out ! 1, \<lparr>l_f = 0x3029, l_v = 0x3029, l_phdrs = [layout_phdr, layout_phdrs ! 1], l_ld = True\<rparr>)"
    by code_simp
  have w: "new_load False 0x1000 (Some layout_phdr) False 6 16 (0x3029, 0x3029) =
      ((layout_phdrs ! 2)\<lparr>p_filesz := 0, p_memsz := 0\<rparr>, 0x3030, 0x4030)"
    by code_simp
  have w': "lay_v False (bs_base asked ! 0) 48 \<lparr>l_f = 0x3030, l_v = 0x4030,
        l_phdrs = [layout_phdr, layout_phdrs ! 1, (layout_phdrs ! 2)\<lparr>p_filesz := 0, p_memsz := 0\<rparr>], l_ld = True\<rparr> =
      (bs_base laid_out ! 2, \<lparr>l_f = 0x3030, l_v = 0x4060, l_phdrs = layout_phdrs, l_ld = True\<rparr>)"
    by code_simp
  note steps = f r r' w w'
  have asked: "rev (bs_base asked) = [bs_base asked ! 2, bs_base asked ! 1, bs_base asked ! 0]"
    and sizes: "bucket_size (bs_base asked ! 2) = 5" "bucket_size (bs_base asked ! 1) = 33" "bucket_size (bs_base asked ! 0) = 48"
    and cats: "b_category (bs_base asked ! 2) = erw_alloc_category_f" "b_category (bs_base asked ! 1) = erw_alloc_category_v_r"
      "b_category (bs_base asked ! 0) = erw_alloc_category_v_rw_zero" "b_alignment (bs_base asked ! 1) = 8" "b_alignment (bs_base asked ! 0) = 16"
    and flags: "p_flags (layout_phdrs ! 1) = 4"
    and laid: "bs_base laid_out = [bs_base laid_out ! 0, bs_base laid_out ! 1, bs_base laid_out ! 2]"
    by (simp_all add: asked_def bucket_size_def layout_phdrs_def laid_out_def)
  have g: "load_flags erw_alloc_category_v_r = 4" "load_flags erw_alloc_category_v_rw_zero = 6" by (simp_all add: load_flags_def)
  show ?thesis
    unfolding asked by (subst laid) (simp add: lay_bucket_def open_load_def bucket_size_def [symmetric] Let_def sizes cats flags g steps
        del: nth_Cons_numeral nth_Cons_0 One_nat_def)
qed

lemma retry_example:
  "retry_layout layout_example = (laid_out, \<lparr>l_f = 0x3030, l_v = 0x4060, l_phdrs = layout_phdrs, l_ld = True\<rparr>)"
proof -
  have "e_alloc layout_example = asked" "e_bswap layout_example = False" "e_guest_page_size layout_example = 0x1000"
    "e_original layout_example = \<lparr>o_f_size = 0x1800, o_phdrs = [layout_phdr], o_mem = Map.empty\<rparr>"
    by (simp_all add: layout_example_def erw_zero_def)
  moreover have "asked\<lparr>bs_base := bs_base laid_out\<rparr> = laid_out" by (simp add: asked_def laid_out_def)
  ultimately show ?thesis
    by (simp add: retry_layout_def Let_def layout_start_example sort_example find_load_example lay_example)
qed

lemma file_ok_example: "file_ok layout_example"
proof -
  have p: "pow2 (0x1000 :: u64)" using pow2_iff [of 12, where 'a = 64] by simp
  have "loads False [layout_phdr] = [layout_phdr]" by (simp add: loads_def layout_phdr_def esw_def)
  then show ?thesis
    using p by (simp add: file_ok_def layout_example_def erw_zero_def seg_ok_def seg_end_f_def seg_end_v_def layout_phdr_def esw_def)
qed

lemma layout_fits_example: "layout_fits layout_example"
proof -
  have "max_align False 0x1000 (Some layout_phdr) = 0x1000" by (simp add: max_align_def layout_phdr_def esw_def)
  then show ?thesis
    unfolding layout_fits_def
    by (simp add: layout_example_def erw_zero_def layout_start_example find_load_example Let_def budget_def step_cost_def margin_def
        bucket_size_def asked_def top_def)
qed

lemma layout_requests_ok: "requests_ok layout_requests"
  using pow2_iff [of 4, where 'a = 32] pow2_iff [of 3, where 'a = 32] pow2_iff [of 0, where 'a = 32]
  by (simp add: requests_ok_def layout_requests_def req_key_def norm_def)

lemma no_buckets_ok: "pass_start no_buckets" "roomy no_buckets (cost layout_requests)" "roomy laid_out (cost layout_requests)"
  by (auto simp: pass_start_def no_buckets_def roomy_def bucket_def cost_def layout_requests_def req_size_def req_key_def
      norm_def laid_out_def)

lemma replay_example: "alloc_run laid_out layout_requests = (fst (alloc_run laid_out layout_requests), [0x4030, 0x3008, 0x2000], True)"
  by code_simp

lemma retry_headers_layout:
  "retry_headers erw = Some (a, l, ed) \<Longrightarrow> retry_layout erw = (a, l)"
  by (auto simp: retry_headers_def split: prod.splits)

lemma new_phdrs_holds:
  assumes "new_phdrs ed0 cap ps = Some ed"
  shows "length ps \<le> length (ed_heap ed) \<and> take (length ps) (ed_heap ed) = map Some ps"
  using assms by (auto simp: new_phdrs_def Let_def split: if_splits)

lemma retry_headers_holds:
  assumes "retry_headers erw = Some (a, l, ed)"
  shows "length (l_phdrs l) \<le> length (ed_heap ed) \<and> take (length (l_phdrs l)) (ed_heap ed) = map Some (l_phdrs l)"
proof -
  obtain a' l' where "retry_layout erw = (a', l')" by force
  with assms show ?thesis using new_phdrs_holds by (fastforce simp: retry_headers_def)
qed

lemma retry_headers_example:
  "\<exists>ed. retry_headers layout_example =
    Some (laid_out, \<lparr>l_f = 0x3030, l_v = 0x4060, l_phdrs = layout_phdrs, l_ld = True\<rparr>, ed)"
proof -
  have c: "retry_capacity layout_example = 4"
    by (simp add: retry_capacity_def layout_example_def erw_zero_def asked_def extra_phdrs_required_for_category_mask_def)
  have "length layout_phdrs = 3" "e_phdrs layout_example = editor_none"
    by (simp_all add: layout_phdrs_def layout_example_def erw_zero_def)
  then show ?thesis
    by (simp add: retry_headers_def retry_example c new_phdrs_def editor_none_def)
qed



lemma retry_layout_room:
  assumes "\<not> e_bswap erw" and "mask_ok (e_alloc erw)" and "retry_layout erw = (a, l)"
  shows "length (l_phdrs l) \<le> length (o_phdrs (e_original erw)) +
    unat (extra_phdrs_required_for_category_mask (bs_category_mask (e_alloc erw)))"
proof -
  let ?base = "sort_buckets (bs_base (e_alloc erw))"
  obtain f v ps where st: "layout_start False (e_guest_page_size erw) (o_f_size (e_original erw)) (o_phdrs (e_original erw)) = (f, v, ps)"
    by (metis prod.exhaust)
  obtain base' where "lay_buckets False ps (find_load False (o_phdrs (e_original erw))) ?base
      \<lparr>l_f = f, l_v = v, l_phdrs = o_phdrs (e_original erw), l_ld = False\<rparr> = (base', l)"
    using assms(1,3) st by (auto simp: retry_layout_def Let_def split: prod.splits)
  then have "length (l_phdrs l) \<le> length (o_phdrs (e_original erw)) + card (flag_set ?base)"
    using lay_buckets_count [OF sorted_sort_buckets] by (fastforce simp: open_flags_def)
  moreover have "\<forall>b \<in> set ?base. bit (bs_category_mask (e_alloc erw)) (category_rank (b_category b))"
    using assms(2) by (simp add: mask_ok_def)
  ultimately show ?thesis using card_flag_set [of ?base] by (meson add_leD1 le_trans nat_add_left_cancel_le)
qed

text \<open>
  C13: In native endianness the new program headers fit: \<open>erwNNE_(retry)\<close> allocates room for
  \<open>extra_phdrs_required_for_category_mask\<close> headers behind the original ones, and laying out the
  buckets writes at most that many, because the sorted buckets bring the flags together.
\<close>

theorem retry_layout_count:
  assumes "\<not> e_bswap erw" and "mask_ok (e_alloc erw)" and "retry_layout erw = (a, l)"
  shows "length (l_phdrs l) \<le> length (o_phdrs (e_original erw)) +
    unat (extra_phdrs_required_for_category_mask (bs_category_mask (e_alloc erw)))"
  by (rule retry_layout_room [OF assms])

lemma retry_layout_count_witness:
  "length layout_phdrs \<le> 1 + unat (extra_phdrs_required_for_category_mask 35)"
proof -
  have "mask_ok no_buckets" by (simp add: mask_ok_def no_buckets_def)
  then have "mask_ok (e_alloc layout_example)"
    using mask_ok_alloc_run [of no_buckets layout_requests] asked_eq by (simp add: layout_example_def erw_zero_def)
  then show ?thesis
    using retry_layout_count [OF _ _ retry_example] by (simp add: layout_example_def erw_zero_def asked_def)
qed

end
