(* ===== verification/Editing.thy ===== *)
theory Editing
  imports ErwAlloc "HOL-Library.Monad_Syntax"
begin

section \<open>erw_nne.h: headers, sections and loops over an editor\<close>

text \<open>
  What the editors of erw_nne.h share: the ELF header and the section headers, which are read
  and written in the bytes of the file, the comparison of a string of the file, and loops that
  read and write the elements of an editor one by one.
\<close>

subsection \<open>Structs and strings in the file\<close>

definition get_at :: "'e codec \<Rightarrow> mem \<Rightarrow> nat \<Rightarrow> 'e option" where
  "get_at c f a = map_option (c_dec c) (mem_read f a (c_size c))"

definition put_at :: "'e codec \<Rightarrow> 'w erw \<Rightarrow> nat \<Rightarrow> 'e \<Rightarrow> 'w erw option" where
  "put_at c erw a e = map_option (\<lambda>f. erw\<lparr>e_f := f\<rparr>) (mem_store (e_f erw) a (c_enc c e))"

definition file_ehdr :: "'a::len word erw \<Rightarrow> 'a word ehdr option" where
  "file_ehdr erw = get_at ehdr_codec (e_f erw) 0"

definition set_file_ehdr :: "'a::len word erw \<Rightarrow> 'a word ehdr \<Rightarrow> 'a word erw option" where
  "set_file_ehdr erw h = put_at ehdr_codec erw 0 h"

text \<open>C strings in the file and in the editors are lists of bytes without the terminating zero.\<close>

type_synonym bstr = "u8 list"

definition bytes_of :: "string \<Rightarrow> bstr" where
  "bytes_of s = map of_char s"

text \<open>\<open>strcmp(s, f + a) == 0\<close>.\<close>

fun str_eq_at :: "bstr \<Rightarrow> mem \<Rightarrow> nat \<Rightarrow> bool option" where
  "str_eq_at [] f a = do { b \<leftarrow> f a; Some (b = 0) }"
| "str_eq_at (c # cs) f a = do { b \<leftarrow> f a; if b = c then str_eq_at cs f (Suc a) else Some False }"

subsection \<open>Section headers\<close>

definition shdr_size :: "'a::len itself \<Rightarrow> nat" where
  "shdr_size _ = c_size (shdr_codec :: 'a word shdr codec)"

text \<open>The number of section headers that are in the file, if the header describes any.\<close>

definition shdrs_num :: "bool \<Rightarrow> u64 \<Rightarrow> 'a::len word ehdr \<Rightarrow> u64 option" where
  "shdrs_num bs f_size e =
    (if esw bs (e_shentsize e) \<noteq> of_nat (shdr_size TYPE('a)) then None
     else if ucast (esw bs (e_shoff e)) > f_size then None
     else let num = (f_size - ucast (esw bs (e_shoff e))) div of_nat (shdr_size TYPE('a))
          in Some (if num > ucast (esw bs (e_shnum e)) then ucast (esw bs (e_shnum e)) else num))"

fun shdr_search :: "bool \<Rightarrow> mem \<Rightarrow> u64 \<Rightarrow> bstr \<Rightarrow> 'a::len word \<Rightarrow> nat \<Rightarrow> nat \<Rightarrow> nat option option" where
  "shdr_search bs f f_size name s_base itr 0 = Some None"
| "shdr_search bs f f_size name s_base itr (Suc n) = do {
     s \<leftarrow> get_at (shdr_codec :: 'a word shdr codec) f itr;
     let s_off = s_base + ucast (esw bs (sh_name s));
     found \<leftarrow> (if ucast s_off < f_size then str_eq_at name f (unat s_off) else Some False);
     if found then Some (Some itr)
     else shdr_search bs f f_size name s_base (itr + shdr_size TYPE('a)) n }"

text \<open>The result of \<open>shdr_find\<close> is the offset of the header in the file.\<close>

definition shdr_find :: "'a::len word erw \<Rightarrow> bstr \<Rightarrow> ('a word erw \<times> nat option) option" where
  "shdr_find erw name = do {
     e \<leftarrow> file_ehdr erw;
     case shdrs_num (e_bswap erw) (e_f_size erw) e of
       None \<Rightarrow> Some (erw, None)
     | Some num \<Rightarrow>
        (let shstrndx = ucast (esw (e_bswap erw) (e_shstrndx e)) :: u32 in
         if shstrndx = 0 \<or> ucast shstrndx \<ge> num then Some (erw, None)
         else do {
           let itr = unat (esw (e_bswap erw) (e_shoff e));
           strs \<leftarrow> get_at (shdr_codec :: 'a word shdr codec) (e_f erw) (itr + unat shstrndx * shdr_size TYPE('a));
           r \<leftarrow> shdr_search (e_bswap erw) (e_f erw) (e_f_size erw) name (esw (e_bswap erw) (sh_offset strs)) itr (unat num);
           Some (case r of None \<Rightarrow> (erw, None) | Some a \<Rightarrow> (set_modified ERW_MODIFIED_SHDRS erw, Some a)) }) }"

definition shdr_update_from_phdr :: "'a::len word erw \<Rightarrow> bstr \<Rightarrow> u32 \<Rightarrow> 'a word phdr \<Rightarrow>
    ('a word erw \<times> nat option) option" where
  "shdr_update_from_phdr erw name type itr = do {
     (erw, shdr) \<leftarrow> shdr_find erw name;
     case shdr of None \<Rightarrow> Some (erw, None)
     | Some a \<Rightarrow> do {
         s \<leftarrow> get_at shdr_codec (e_f erw) a;
         let bs = e_bswap erw;
         let s = s\<lparr>sh_type := esw bs type, sh_addr := p_vaddr itr\<rparr>;
         let flags = esw bs (sh_flags s) AND NOT (SHF_ALLOC OR SHF_WRITE OR SHF_EXECINSTR);
         let flags = (if sh_addr s \<noteq> 0 then flags OR SHF_ALLOC else flags);
         let flags = (if p_flags itr AND esw bs PF_W \<noteq> 0 then flags OR SHF_WRITE else flags);
         let flags = (if p_flags itr AND esw bs PF_X \<noteq> 0 then flags OR SHF_EXECINSTR else flags);
         erw \<leftarrow> put_at shdr_codec erw a
           (s\<lparr>sh_flags := esw bs flags, sh_offset := p_offset itr, sh_size := p_filesz itr, sh_addralign := p_align itr\<rparr>);
         Some (erw, shdr) } }"

subsection \<open>Loops\<close>

fun each :: "('i \<Rightarrow> 's \<Rightarrow> 's option) \<Rightarrow> 'i list \<Rightarrow> 's \<Rightarrow> 's option" where
  "each g [] s = Some s"
| "each g (i # is) s = do { s \<leftarrow> g i s; each g is s }"

text \<open>\<open>memmove(base + dst, base + src, n * sizeof(*base))\<close> within an editor.\<close>

definition ed_move :: "'e codec \<Rightarrow> mem \<times> 'e editor \<Rightarrow> nat \<Rightarrow> nat \<Rightarrow> nat \<Rightarrow> (mem \<times> 'e editor) option" where
  "ed_move c s dst src n = do {
     es \<leftarrow> all_some (map (ed_get c (fst s) (snd s)) [src..<src + n]);
     each (\<lambda>(i, e) s. ed_put c s i e) (zip [dst..<dst + n] es) s }"

text \<open>\<open>shdr_fixup_section_symbols\<close>: section symbols get the address of their section.\<close>

definition fixup_symbol :: "nat \<Rightarrow> u64 \<Rightarrow> nat \<Rightarrow> 'a::len word erw \<Rightarrow> 'a word erw option" where
  "fixup_symbol shdrs num_shdr a erw = do {
     sym \<leftarrow> get_at (sym_codec :: 'a word sym codec) (e_f erw) a;
     if st_info sym AND 0xf \<noteq> STT_SECTION then Some erw
     else do {
       let shndx = esw (e_bswap erw) (st_shndx sym);
       if ucast shndx < num_shdr then do {
         s \<leftarrow> get_at shdr_codec (e_f erw) (shdrs + unat shndx * shdr_size TYPE('a));
         put_at sym_codec erw a (sym\<lparr>st_value := sh_addr s\<rparr>) }
       else Some erw } }"

definition fixup_section :: "nat \<Rightarrow> u64 \<Rightarrow> nat \<Rightarrow> 'a::len word erw \<Rightarrow> 'a word erw option" where
  "fixup_section shdrs num_shdr i erw = do {
     itr \<leftarrow> get_at (shdr_codec :: 'a word shdr codec) (e_f erw) (shdrs + i * shdr_size TYPE('a));
     let bs = e_bswap erw;
     let type = esw bs (sh_type itr);
     let sym_size = c_size (sym_codec :: 'a word sym codec);
     if (type = SHT_DYNSYM \<or> type = SHT_SYMTAB) \<and> esw bs (sh_entsize itr) = of_nat sym_size \<and>
        ucast (esw bs (sh_offset itr)) < e_f_size erw
     then do {
       let off = esw bs (sh_offset itr);
       let sz = esw bs (sh_size itr);
       let sz = (if e_f_size erw - ucast off < ucast sz then ucast (e_f_size erw - ucast off) else sz);
       each (\<lambda>k. fixup_symbol shdrs num_shdr (unat off + k * sym_size)) [0..<unat sz div sym_size] erw }
     else Some erw }"

definition shdr_fixup_section_symbols :: "'a::len word erw \<Rightarrow> 'a word erw option" where
  "shdr_fixup_section_symbols erw = do {
     e \<leftarrow> file_ehdr erw;
     case shdrs_num (e_bswap erw) (e_f_size erw) e of
       None \<Rightarrow> Some erw
     | Some num_shdr \<Rightarrow>
         each (fixup_section (unat (esw (e_bswap erw) (e_shoff e))) num_shdr) [0..<unat num_shdr] erw }"

subsection \<open>Facts about loops and moves\<close>

text \<open>A loop keeps an invariant indexed by the elements still to come.\<close>

lemma each_invariant:
  assumes "I is s" and "\<And>i is s. I (i # is) s \<Longrightarrow> \<exists>s'. g i s = Some s' \<and> I is s'"
  shows "\<exists>s'. each g is s = Some s' \<and> I [] s'"
  using assms(1)
proof (induction "is" arbitrary: s)
  case Nil
  then show ?case by simp
next
  case (Cons i "is")
  then show ?case using assms(2) [OF Cons.prems] by fastforce
qed

lemma each_upto:
  assumes "I 0 s" and "\<And>i s. i < n \<Longrightarrow> I i s \<Longrightarrow> \<exists>s'. g i s = Some s' \<and> I (Suc i) s'"
  shows "\<exists>s'. each g [0..<n] s = Some s' \<and> I n s'"
proof -
  have "\<exists>s'. each g [0..<n] s = Some s' \<and> (\<exists>k. k \<le> n \<and> [] = [k..<n] \<and> I k s')"
  proof (rule each_invariant)
    show "\<exists>k. k \<le> n \<and> [0..<n] = [k..<n] \<and> I k s" using assms(1) by blast
  next
    fix i "is" s
    assume "\<exists>k. k \<le> n \<and> i # is = [k..<n] \<and> I k s"
    then obtain k where k: "k \<le> n" "i # is = [k..<n]" "I k s" by blast
    then have "k < n" by (metis list.distinct(1) upt_conv_Nil not_less)
    then have ik: "i = k" "is = [Suc k..<n]" using k(2) by (simp_all add: upt_conv_Cons)
    then show "\<exists>s'. g i s = Some s' \<and> (\<exists>k. k \<le> n \<and> is = [k..<n] \<and> I k s')"
      using assms(2) [OF \<open>k < n\<close> k(3)] \<open>k < n\<close> by (metis Suc_leI)
  qed
  then show ?thesis by (metis le_antisym not_less upt_eq_Nil_conv less_le_trans zero_order(3) le_refl upt_rec list.distinct(1))
qed

lemma all_some_reads: "n = length es \<Longrightarrow> (\<And>k. k < n \<Longrightarrow> g (src + k) = Some (es ! k)) \<Longrightarrow>
    all_some (map g [src..<src + n]) = Some es"
proof (induction es arbitrary: n src)
  case Nil
  then show ?case by simp
next
  case (Cons e es)
  have "g src = Some e" using Cons.prems(2) [of 0] Cons.prems(1) by simp
  moreover have "all_some (map g [Suc src..<Suc src + length es]) = Some es"
  proof (rule Cons.IH [OF refl])
    fix k assume "k < length es"
    then show "g (Suc src + k) = Some (es ! k)" using Cons.prems(2) [of "Suc k"] Cons.prems(1) by simp
  qed
  ultimately show ?case using Cons.prems(1) by (simp add: upt_conv_Cons del: upt_Suc)
qed

text \<open>An editor whose array is a block of its own.\<close>

definition owns :: "'e editor \<Rightarrow> bool" where
  "owns ed \<longleftrightarrow> ed_capacity ed \<noteq> 0 \<and> length (ed_heap ed) = unat (ed_capacity ed)"

lemma ed_put_owned:
  "owns ed \<Longrightarrow> i < length (ed_heap ed) \<Longrightarrow> ed_put c (f, ed) i e = Some (f, ed\<lparr>ed_heap := (ed_heap ed)[i := Some e]\<rparr>)"
  by (simp add: owns_def ed_put_def)

lemma puts_owned:
  "owns ed \<Longrightarrow> d + length es \<le> length (ed_heap ed) \<Longrightarrow>
   each (\<lambda>(i, e) s. ed_put c s i e) (zip [d..<d + length es] es) (f, ed) =
     Some (f, ed\<lparr>ed_heap := take d (ed_heap ed) @ map Some es @ drop (d + length es) (ed_heap ed)\<rparr>)"
proof (induction es arbitrary: d ed)
  case Nil
  then show ?case by simp
next
  case (Cons e es)
  let ?ed = "ed\<lparr>ed_heap := (ed_heap ed)[d := Some e]\<rparr>"
  have "owns ?ed" "Suc d + length es \<le> length (ed_heap ?ed)" using Cons.prems by (simp_all add: owns_def)
  note IH = Cons.IH [OF this]
  have d: "d < length (ed_heap ed)" using Cons.prems by simp
  have "take (Suc d) ((ed_heap ed)[d := Some e]) = take d (ed_heap ed) @ [Some e]"
    using d by (simp add: take_Suc_conv_app_nth)
  moreover have "drop (Suc d + length es) ((ed_heap ed)[d := Some e]) = drop (Suc d + length es) (ed_heap ed)" by simp
  ultimately show ?case
    using IH ed_put_owned [OF Cons.prems(1) d] by (simp add: upt_conv_Cons del: upt_Suc)
qed

lemma move_owned:
  assumes "owns ed" "d + length es \<le> length (ed_heap ed)"
    and get: "\<And>k. k < length es \<Longrightarrow> ed_get c f ed (src + k) = Some (es ! k)"
  shows "ed_move c (f, ed) d src (length es) =
    Some (f, ed\<lparr>ed_heap := take d (ed_heap ed) @ map Some es @ drop (d + length es) (ed_heap ed)\<rparr>)"
  using puts_owned [OF assms(1,2)] all_some_reads [OF refl get] by (simp add: ed_move_def)

lemma ed_ok_owned:
  "owns ed \<Longrightarrow> ed_ok c f ed es \<longleftrightarrow> length es = unat (ed_count ed) \<and> take (length es) (ed_heap ed) = map Some es \<and>
     length es \<le> length (ed_heap ed)"
  by (auto simp: owns_def ed_ok_def ed_get_def rd_def list_eq_iff_nth_eq word_le_nat_alt split: if_splits option.splits)

lemma ed_ok_heap:
  "owns ed \<Longrightarrow> ed_heap ed = map Some es @ rest \<Longrightarrow> length es = unat (ed_count ed) \<Longrightarrow> ed_ok c f ed es"
  by (auto simp: ed_ok_owned)

context struct_array
begin

lemma puts_ok:
  "ed_ok c f ed es \<Longrightarrow> d + length xs \<le> length es \<Longrightarrow>
   \<exists>f' ed'. each (\<lambda>(i, e) s. ed_put c s i e) (zip [d..<d + length xs] xs) (f, ed) = Some (f', ed') \<and>
     ed_ok c f' ed' (take d es @ xs @ drop (d + length xs) es) \<and>
     ed_count ed' = ed_count ed \<and> ed_capacity ed' = ed_capacity ed \<and> ed_live ed' = ed_live ed \<and> ed_at ed' = ed_at ed \<and>
     (ed_capacity ed \<noteq> 0 \<longrightarrow> f' = f)"
proof (induction xs arbitrary: d f ed es)
  case Nil
  then show ?case by simp
next
  case (Cons x xs)
  have d: "d < length es" using Cons.prems(2) by simp
  obtain f1 ed1 where 1: "ed_put c (f, ed) d x = Some (f1, ed1)" "ed_ok c f1 ed1 (es[d := x])"
    "ed_count ed1 = ed_count ed" "ed_capacity ed1 = ed_capacity ed" "ed_live ed1 = ed_live ed" "ed_at ed1 = ed_at ed"
    "ed_capacity ed \<noteq> 0 \<longrightarrow> f1 = f"
    using put_ok [OF Cons.prems(1) d] by blast
  have "Suc d + length xs \<le> length (es[d := x])" using Cons.prems(2) by simp
  from Cons.IH [OF 1(2) this] 1 d show ?case
    by (fastforce simp: upt_conv_Cons take_Suc_conv_app_nth simp del: upt_Suc)
qed

lemma move_ok:
  assumes ok: "ed_ok c f ed es" and src: "src + n \<le> length es" and dst: "dst + n \<le> length es"
  shows "\<exists>f' ed'. ed_move c (f, ed) dst src n = Some (f', ed') \<and>
     ed_ok c f' ed' (take dst es @ take n (drop src es) @ drop (dst + n) es) \<and>
     ed_count ed' = ed_count ed \<and> ed_capacity ed' = ed_capacity ed \<and> ed_live ed' = ed_live ed \<and> ed_at ed' = ed_at ed \<and>
     (ed_capacity ed \<noteq> 0 \<longrightarrow> f' = f)"
proof -
  let ?xs = "take n (drop src es)"
  have len: "length ?xs = n" using src by simp
  have "all_some (map (ed_get c f ed) [src..<src + n]) = Some ?xs"
    using ok src by (intro all_some_reads) (auto simp: ed_ok_def)
  then show ?thesis
    using puts_ok [OF ok, of dst ?xs] dst unfolding ed_move_def len by simp
qed

lemma grow_owns:
  "ed_ok c f ed es \<Longrightarrow> ed_count ed \<ge> ed_capacity ed \<Longrightarrow> unat (ed_count ed) < 2 ^ 30 \<Longrightarrow>
   \<exists>ed'. ed_grow c f ed = Some ed' \<and> ed_ok c f ed' es \<and> ed_count ed' = ed_count ed \<and> owns ed' \<and>
     ed_count ed < ed_capacity ed'"
  using grow_ok [of f ed es] by (fastforce simp: owns_def ed_ok_def)

text \<open>Room for one more element: the array as it is or grown.\<close>

lemma room_ok:
  assumes ok: "ed_ok c f ed es" and lim: "unat (ed_count ed) < 2 ^ 30"
  shows "\<exists>ed'. (if ed_count ed \<ge> ed_capacity ed then ed_grow c f ed else Some ed) = Some ed' \<and> ed_ok c f ed' es \<and>
    ed_count ed' = ed_count ed \<and> owns ed' \<and> length es < length (ed_heap ed')"
proof (cases "ed_count ed \<ge> ed_capacity ed")
  case True
  then show ?thesis
    using grow_owns [OF ok True lim] by (auto simp: ed_ok_def owns_def word_less_nat_alt)
next
  case False
  then have "ed_capacity ed \<noteq> 0" by (auto simp: not_le)
  then show ?thesis using False ok by (auto simp: ed_ok_def owns_def not_le word_less_nat_alt)
qed

lemma append_owned:
  assumes ok: "ed_ok c f ed es" "owns ed" and room: "length es < length (ed_heap ed)" and lim: "unat (ed_count ed) < 2 ^ 30"
  shows "\<exists>ed'. ed_put c (f, ed\<lparr>ed_count := ed_count ed + 1\<rparr>) (length es) e = Some (f, ed') \<and> ed_ok c f ed' (es @ [e]) \<and> owns ed'"
proof -
  let ?ed = "ed\<lparr>ed_count := ed_count ed + 1, ed_heap := (ed_heap ed)[length es := Some e]\<rparr>"
  have u: "unat (ed_count ed + 1) = unat (ed_count ed) + 1" using lim by (simp add: unat_word_ariths)
  have "owns ?ed" using ok(2) by (simp add: owns_def)
  moreover have "ed_ok c f ?ed (es @ [e])"
    using ok room u \<open>owns ?ed\<close> by (auto simp: ed_ok_owned take_Suc_conv_app_nth)
  ultimately show ?thesis
    using ed_put_owned [of "ed\<lparr>ed_count := ed_count ed + 1\<rparr>" "length es" c f e] ok(2) room by (auto simp: owns_def)
qed

text \<open>The elements from index \<open>i\<close> on are moved up by one, and the gap is filled.\<close>

lemma insert_owned:
  assumes ok: "ed_ok c f ed es" "owns ed" and room: "length es < length (ed_heap ed)" and lim: "unat (ed_count ed) < 2 ^ 30"
    and i: "i \<le> length es"
  shows "\<exists>ed1 ed'. ed_move c (f, ed) (Suc i) i (length es - i) = Some (f, ed1) \<and> ed_count ed1 = ed_count ed \<and>
    (0 < length es - i \<longrightarrow> ed_get c f ed1 i = Some (es ! i)) \<and> owns ed1 \<and>
    (\<forall>j < i. ed_get c f ed1 j = Some (es ! j)) \<and>
    ed_put c (f, ed1\<lparr>ed_count := ed_count ed + 1\<rparr>) i e = Some (f, ed') \<and>
    ed_ok c f ed' (take i es @ e # drop i es) \<and> owns ed'"
proof -
  let ?xs = "drop i es"
  let ?h = "take (Suc i) (ed_heap ed) @ map Some ?xs @ drop (Suc i + length ?xs) (ed_heap ed)"
  let ?ed1 = "ed\<lparr>ed_heap := ?h\<rparr>"
  have u: "unat (ed_count ed + 1) = unat (ed_count ed) + 1" using lim by (simp add: unat_word_ariths)
  have h: "take (length es) (ed_heap ed) = map Some es" "length es = unat (ed_count ed)"
    using ok by (auto simp: ed_ok_owned)
  have th: "take i (ed_heap ed) = map Some (take i es)"
    using arg_cong [OF h(1), of "take i"] i by (simp add: take_map min_absorb1)
  have mv: "ed_move c (f, ed) (Suc i) i (length es - i) = Some (f, ?ed1)"
    using move_owned [of ed "Suc i" ?xs c f i] ok i room by (simp add: ed_ok_def)
  have own: "owns ?ed1" using ok(2) room i by (simp add: owns_def)
  have ni: "k < length es \<Longrightarrow> ed_heap ed ! k = Some (es ! k)" for k
    using arg_cong [OF h(1), of "\<lambda>xs. xs ! k"] by simp
  have len: "i < length ?h" using i room by simp
  let ?h' = "?h[i := Some e]"
  let ?ed2 = "?ed1\<lparr>ed_count := ed_count ed + 1, ed_heap := ?h'\<rparr>"
  have h': "?h' = map Some (take i es @ e # drop i es) @ drop (Suc (length es)) (ed_heap ed)"
    using i room th by (simp add: list_update_append take_Suc_conv_app_nth)
  have own': "owns ?ed2" using own by (simp add: owns_def)
  have ok': "ed_ok c f ?ed2 (take i es @ e # drop i es)"
    using h' u h(2) i by (intro ed_ok_heap [OF own']) simp_all
  have put: "ed_put c (f, ?ed1\<lparr>ed_count := ed_count ed + 1\<rparr>) i e =
      Some (f, ?ed1\<lparr>ed_count := ed_count ed + 1, ed_heap := ?h'\<rparr>)"
    using own len by (simp add: ed_put_def owns_def)
  have get: "ed_get c f ?ed1 j = Some (es ! j)" if "j \<le> i" "j < length es" for j
  proof -
    have "rd ?h j = Some (ed_heap ed ! j)"
      using that room i ni [of j] by (auto simp: rd_def nth_append)
    then show ?thesis using own ni [of j] that by (simp add: owns_def ed_get_def)
  qed
  show ?thesis
    using mv own put ok' own' get i by (intro exI conjI) (assumption | simp)+
qed

end

end
