(* ===== verification/Phdrs.thy ===== *)
theory Phdrs
  imports Editing
begin

section \<open>erw_nne.h: the program header editor\<close>

text \<open>
  The address map of the segments, and the operations that add, change and remove program
  headers. A position in the array is an index; \<open>None\<close> is an access outside the file or the
  array. The fields of a header that was added but never written are taken to be zeros.
\<close>

definition phdr_size :: "'a::len itself \<Rightarrow> nat" where
  "phdr_size _ = c_size (phdr_codec :: 'a word phdr codec)"

definition phdr_zero :: "'a::len word phdr" where
  "phdr_zero = \<lparr>p_type = 0, p_flags = 0, p_offset = 0, p_vaddr = 0, p_paddr = 0, p_filesz = 0, p_memsz = 0, p_align = 0\<rparr>"

definition phdr_get :: "'a::len word erw \<Rightarrow> nat \<Rightarrow> 'a word phdr option" where
  "phdr_get erw i = ed_get phdr_codec (e_f erw) (e_phdrs erw) i"

definition phdr_put :: "'a::len word erw \<Rightarrow> nat \<Rightarrow> 'a word phdr \<Rightarrow> 'a word erw option" where
  "phdr_put erw i p = map_option (\<lambda>(f, ed). erw\<lparr>e_f := f, e_phdrs := ed\<rparr>) (ed_put phdr_codec (e_f erw, e_phdrs erw) i p)"

definition phdr_count :: "'a::len word erw \<Rightarrow> nat" where
  "phdr_count erw = unat (ed_count (e_phdrs erw))"

definition phdr_list :: "'a::len word erw \<Rightarrow> 'a word phdr list option" where
  "phdr_list erw = ed_list phdr_codec (e_f erw) (e_phdrs erw)"

subsection \<open>The address map of the segments\<close>

definition v2f_load :: "bool \<Rightarrow> u64 \<Rightarrow> u64 \<Rightarrow> 'a::len word phdr \<Rightarrow> v2f_map \<Rightarrow> v2f_map" where
  "v2f_load bs page_size f_size itr m =
    (if esw bs (p_type itr) \<noteq> PT_LOAD then m
     else let pgoff = ucast (esw bs (p_vaddr itr)) AND (page_size - 1);
              fb = ucast (esw bs (p_offset itr)) - pgoff;
              vb = ucast (esw bs (p_vaddr itr)) - pgoff;
              fend = (ucast (esw bs (p_offset itr) + esw bs (p_filesz itr)) + page_size - 1) AND - page_size;
              m = (if fend \<le> f_size then v2f_map_set_range m vb (fend - fb) (fb - vb)
                   else if fb \<le> f_size then
                     v2f_map_set_range (v2f_map_set_range m vb (f_size - fb) (fb - vb))
                       (vb + (f_size - fb)) (fend - f_size) V2F_ZEROFILL
                   else v2f_map_set_range m vb (fend - fb) V2F_ZEROFILL)
          in if esw bs (p_memsz itr) > esw bs (p_filesz itr)
             then v2f_map_set_range m (ucast (esw bs (p_vaddr itr) + esw bs (p_filesz itr)))
                    (ucast (esw bs (p_memsz itr) - esw bs (p_filesz itr))) V2F_ZEROFILL
             else m)"

definition v2f_init :: "'a::len word erw \<Rightarrow> 'a word erw option" where
  "v2f_init erw = do {
     ps \<leftarrow> phdr_list erw;
     Some (erw\<lparr>e_v2f := fold (v2f_load (e_bswap erw) (e_guest_page_size erw) (e_f_size erw)) ps (e_v2f erw)\<rparr>) }"

subsection \<open>Initialisation\<close>

definition default_page_size :: "u16 \<Rightarrow> u64" where
  "default_page_size machine =
    (if machine \<in> {EM_TILEGX, EM_TILEPRO} then 0x10000
     else if machine = EM_IA_64 then 0x4000
     else if machine \<in> {EM_ALPHA, EM_SPARC, EM_SPARCV9} then 0x2000
     else 0x1000)"

definition initial_phdr_count :: "'a::len word erw \<Rightarrow> 'a word ehdr \<Rightarrow> u32 option" where
  "initial_phdr_count erw hdr =
    (let bs = e_bswap erw; f_size = e_f_size erw; phoff = ucast (esw bs (e_phoff hdr)) :: u64;
         phnum = ucast (esw bs (e_phnum hdr)) :: u32;
         count = (if phoff < f_size then ucast ((f_size - phoff) div of_nat (phdr_size TYPE('a))) else 0) :: u32
     in if phnum < count then
          (let shoff = ucast (esw bs (e_shoff hdr)) :: u64 in
           if e_phnum hdr = 0xffff \<and> shoff < f_size \<and> f_size - shoff \<ge> of_nat (shdr_size TYPE('a)) then do {
             s \<leftarrow> get_at (shdr_codec :: 'a word shdr codec) (e_f erw) (unat shoff);
             let c = esw bs (sh_info s);
             Some (if c < count then c else count) }
           else Some phnum)
        else Some count)"

definition phdrs_init :: "'a::len word erw \<Rightarrow> 'a word erw option" where
  "phdrs_init erw = do {
     hdr \<leftarrow> file_ehdr erw;
     let bs = e_bswap erw;
     let erw = erw\<lparr>e_machine := esw bs (e_mach hdr)\<rparr>;
     let erw = (if e_guest_page_size erw = 0 then erw\<lparr>e_guest_page_size := default_page_size (e_machine erw)\<rparr> else erw);
     count \<leftarrow> initial_phdr_count erw hdr;
     let phdrs = \<lparr>ed_live = True, ed_at = unat (esw bs (e_phoff hdr)), ed_heap = [], ed_count = count, ed_capacity = 0\<rparr>;
     ps \<leftarrow> ed_list phdr_codec (e_f erw) phdrs;
     v2f_init (erw\<lparr>e_phdrs := phdrs,
       e_original := (e_original erw)\<lparr>o_f_size := e_f_size erw, o_phdrs := ps\<rparr>,
       e_v2f := v2f_map_init (e_v2f erw) V2F_UNMAPPED\<rparr>) }"

subsection \<open>Adding headers\<close>

definition phdrs_grow :: "'a::len word erw \<Rightarrow> 'a word erw option" where
  "phdrs_grow erw = map_option (\<lambda>ed. erw\<lparr>e_phdrs := ed\<rparr>) (ed_grow phdr_codec (e_f erw) (e_phdrs erw))"

definition phdrs_move :: "'a::len word erw \<Rightarrow> nat \<Rightarrow> nat \<Rightarrow> nat \<Rightarrow> 'a word erw option" where
  "phdrs_move erw dst src n =
    map_option (\<lambda>(f, ed). erw\<lparr>e_f := f, e_phdrs := ed\<rparr>) (ed_move phdr_codec (e_f erw, e_phdrs erw) dst src n)"

definition phdrs_count_inc :: "'a::len word erw \<Rightarrow> 'a word erw" where
  "phdrs_count_inc erw = erw\<lparr>e_phdrs := (e_phdrs erw)\<lparr>ed_count := ed_count (e_phdrs erw) + 1\<rparr>\<rparr>"

text \<open>The header at an index, zeros when it was never written.\<close>

definition phdr_slot :: "'a::len word erw \<Rightarrow> nat \<Rightarrow> 'a word phdr" where
  "phdr_slot erw i = (case phdr_get erw i of Some p \<Rightarrow> p | None \<Rightarrow> phdr_zero)"

definition phdrs_alloc_first :: "'a::len word erw \<Rightarrow> ('a word erw \<times> nat) option" where
  "phdrs_alloc_first erw = do {
     erw \<leftarrow> (if ed_count (e_phdrs erw) \<ge> ed_capacity (e_phdrs erw) then phdrs_grow erw else Some erw);
     erw \<leftarrow> phdrs_move erw 1 0 (phdr_count erw);
     Some (phdrs_count_inc erw, 0) }"

definition phdrs_alloc_early :: "'a::len word erw \<Rightarrow> ('a word erw \<times> nat) option" where
  "phdrs_alloc_early erw = do {
     ps \<leftarrow> phdr_list erw;
     let type = (\<lambda>i. esw (e_bswap erw) (p_type (ps ! i)));
     case find (\<lambda>i. type i = PT_NULL \<or> type i = PT_LOAD) [0..<length ps] of
       Some i \<Rightarrow>
         if type i = PT_NULL then Some (erw, i)
         else (case find (\<lambda>j. p_type (ps ! j) = PT_NULL) [Suc i..<length ps] of
             Some j \<Rightarrow> do {
               erw \<leftarrow> phdrs_move erw (Suc i) i (j - i);
               erw \<leftarrow> phdr_put erw i ((phdr_slot erw i)\<lparr>p_type := PT_NULL\<rparr>);
               Some (erw, i) }
           | None \<Rightarrow> phdrs_alloc_first erw)
     | None \<Rightarrow> phdrs_alloc_first erw }"

definition phdrs_alloc :: "'a::len word erw \<Rightarrow> ('a word erw \<times> nat) option" where
  "phdrs_alloc erw = do {
     ps \<leftarrow> phdr_list erw;
     case find (\<lambda>i. p_type (ps ! i) = PT_NULL) [0..<length ps] of
       Some i \<Rightarrow> Some (erw, i)
     | None \<Rightarrow> do {
         erw \<leftarrow> (if ed_count (e_phdrs erw) \<ge> ed_capacity (e_phdrs erw) then phdrs_grow erw else Some erw);
         Some (phdrs_count_inc erw, phdr_count erw) } }"

definition phdrs_add_gnu_eh_frame :: "'a::len word erw \<Rightarrow> u64 \<Rightarrow> u64 \<Rightarrow> 'a word erw option" where
  "phdrs_add_gnu_eh_frame erw v sz = do {
     (erw, itr) \<leftarrow> phdrs_alloc erw;
     let bs = e_bswap erw;
     erw \<leftarrow> phdr_put erw itr \<lparr>p_type = esw bs PT_GNU_EH_FRAME, p_flags = esw bs PF_R,
       p_offset = esw bs (ucast (v + v2f_at (e_v2f erw) v)), p_vaddr = esw bs (ucast v), p_paddr = esw bs (ucast v),
       p_filesz = esw bs (ucast sz), p_memsz = esw bs (ucast sz), p_align = esw bs 4\<rparr>;
     Some (set_modified ERW_MODIFIED_PHDRS erw) }"

subsection \<open>The interpreter and the stack\<close>

text \<open>The header holds the string already: nothing is to be done.\<close>

definition interp_is :: "'a::len word erw \<Rightarrow> 'a word phdr \<Rightarrow> bstr \<Rightarrow> bool" where
  "interp_is erw itr value =
    (let alen = of_nat (length value + 1) :: u64; bs = e_bswap erw;
         off = ucast (esw bs (p_offset itr)) :: u64
     in ucast (esw bs (p_filesz itr)) \<ge> alen \<and> off < e_f_size erw \<and> e_f_size erw - off > alen \<and>
        mem_read (e_f erw) (unat off) (length value + 1) = Some (value @ [0]))"

text \<open>From \<open>found_phdr\<close> on, for the header at index \<open>i\<close>.\<close>

definition interp_fill :: "'a::len word erw \<Rightarrow> nat \<Rightarrow> bstr \<Rightarrow> 'a word erw option" where
  "interp_fill erw i value =
    (let alen = of_nat (length value + 1) :: u64; bs = e_bswap erw;
         erw = set_modified (ERW_MODIFIED_MISC OR ERW_MODIFIED_PHDRS) erw;
         (erw, off) = erw_alloc erw erw_alloc_category_f 1 alen;
         new_off = ucast off :: 'a word
     in if new_off = 0 \<or> e_retry erw then Some erw
        else do {
          f \<leftarrow> mem_store (e_f erw) (unat new_off) (value @ [0]);
          let erw = erw\<lparr>e_f := f\<rparr>;
          let itr = (phdr_slot erw i)\<lparr>p_offset := esw bs new_off, p_filesz := esw bs (ucast alen)\<rparr>;
          let itr = (case v2f_map_lookup_f_range (e_v2f erw) (ucast new_off) alen of
              Some e \<Rightarrow> (let va = esw bs (ucast (ucast new_off - v2f (m_entries (e_v2f erw) ! e))) in
                itr\<lparr>p_vaddr := va, p_paddr := va, p_memsz := esw bs (ucast alen)\<rparr>)
            | None \<Rightarrow> itr\<lparr>p_vaddr := 0, p_paddr := 0, p_memsz := 0\<rparr>);
          let itr = itr\<lparr>p_flags := esw bs PF_R, p_align := esw bs 1\<rparr>;
          erw \<leftarrow> phdr_put erw i itr;
          (erw, _) \<leftarrow> shdr_update_from_phdr erw (bytes_of ''.interp'') SHT_PROGBITS itr;
          Some erw })"

definition phdrs_set_interpreter :: "'a::len word erw \<Rightarrow> bstr \<Rightarrow> 'a word erw option" where
  "phdrs_set_interpreter erw value = do {
     ps \<leftarrow> phdr_list erw;
     case find (\<lambda>i. esw (e_bswap erw) (p_type (ps ! i)) = PT_INTERP) [0..<length ps] of
       Some i \<Rightarrow> if interp_is erw (ps ! i) value then Some erw else interp_fill erw i value
     | None \<Rightarrow> do {
         (erw, i) \<leftarrow> phdrs_alloc_early erw;
         erw \<leftarrow> phdr_put erw i ((phdr_slot erw i)\<lparr>p_type := esw (e_bswap erw) PT_INTERP\<rparr>);
         interp_fill erw i value } }"

text \<open>One turn of the loop of \<open>phdrs_set_stack_prot\<close>; the flag is its \<open>any\<close>.\<close>

definition stack_prot_step :: "u32 \<Rightarrow> nat \<Rightarrow> 'a::len word erw \<times> bool \<Rightarrow> ('a word erw \<times> bool) option" where
  "stack_prot_step prot i s = (case s of (erw, any) \<Rightarrow> do {
     itr \<leftarrow> phdr_get erw i;
     let flags0 = esw (e_bswap erw) (p_flags itr);
     let flags = (flags0 AND NOT (PF_R OR PF_W OR PF_X)) OR prot;
     if esw (e_bswap erw) (p_type itr) = PT_GNU_STACK \<and> flags \<noteq> flags0 then do {
       erw \<leftarrow> phdr_put erw i (itr\<lparr>p_flags := esw (e_bswap erw) flags\<rparr>);
       Some (set_modified ERW_MODIFIED_PHDRS erw, True) }
     else Some (erw, any) })"

definition phdrs_set_stack_prot :: "'a::len word erw \<Rightarrow> u32 \<Rightarrow> 'a word erw option" where
  "phdrs_set_stack_prot erw prot = do {
     (erw, any) \<leftarrow> each (stack_prot_step prot) [0..<phdr_count erw] (erw, False);
     if \<not> any \<and> prot \<noteq> PF_R OR PF_W OR PF_X then do {
       let erw = set_modified ERW_MODIFIED_PHDRS erw;
       (erw, i) \<leftarrow> phdrs_alloc erw;
       let bs = e_bswap erw;
       phdr_put erw i (phdr_zero\<lparr>p_type := esw bs PT_GNU_STACK, p_flags := esw bs prot, p_align := esw bs 16\<rparr>) }
     else Some erw }"

subsection \<open>Removing, finding\<close>

definition phdrs_remove :: "'a::len word erw \<Rightarrow> u32 \<Rightarrow> 'a word erw option" where
  "phdrs_remove erw tag =
    (let tag = esw (e_bswap erw) tag
     in each (\<lambda>i erw. do {
          itr \<leftarrow> phdr_get erw i;
          if p_type itr = tag then phdr_put (set_modified ERW_MODIFIED_PHDRS erw) i phdr_zero else Some erw })
        [0..<phdr_count erw] erw)"

definition phdrs_find_first :: "'a::len word erw \<Rightarrow> u32 \<Rightarrow> nat option option" where
  "phdrs_find_first erw tag = do {
     ps \<leftarrow> phdr_list erw;
     let tag = esw (e_bswap erw) tag;
     Some (find (\<lambda>i. p_type (ps ! i) = tag) [0..<length ps]) }"

definition phdr_calls :: "bool \<Rightarrow> 'a::len word \<Rightarrow> 'a word \<Rightarrow> 'a word phdr \<Rightarrow> bool" where
  "phdr_calls bs page_size entry itr \<longleftrightarrow>
     esw bs (p_type itr) = PT_LOAD \<and> esw bs (p_flags itr) AND PF_X \<noteq> 0 \<and>
     (esw bs (p_vaddr itr) AND - page_size) \<le> entry \<and>
     entry < (esw bs (p_vaddr itr) + esw bs (p_memsz itr) + page_size - 1) AND - page_size"

definition phdrs_is_entry_callable :: "'a::len word erw \<Rightarrow> bool option" where
  "phdrs_is_entry_callable erw = do {
     h \<leftarrow> file_ehdr erw;
     ps \<leftarrow> phdr_list erw;
     Some (list_ex (phdr_calls (e_bswap erw) (ucast (e_guest_page_size erw)) (esw (e_bswap erw) (e_entry h))) ps) }"

definition set_entry :: "'a::len word erw \<Rightarrow> u64 \<Rightarrow> ('a word erw \<times> u64) option" where
  "set_entry erw new_entry = do {
     h \<leftarrow> file_ehdr erw;
     let result = ucast (esw (e_bswap erw) (e_entry h));
     if result \<noteq> new_entry then do {
       erw \<leftarrow> set_file_ehdr erw (h\<lparr>e_entry := esw (e_bswap erw) (ucast new_entry)\<rparr>);
       Some (set_modified ERW_MODIFIED_MISC erw, result) }
     else Some (erw, result) }"

subsection \<open>Writing the headers back\<close>

definition phdrs_bug_workaround :: "'a::len word erw \<Rightarrow> 'a word \<Rightarrow> ('a word erw \<times> bool) option" where
  "phdrs_bug_workaround erw required_v2f = do {
     erw \<leftarrow> (if ed_count (e_phdrs erw) = ed_capacity (e_phdrs erw) then phdrs_grow erw else Some erw);
     ps \<leftarrow> phdr_list erw;
     let bs = e_bswap erw;
     case find (\<lambda>i. esw bs (p_type (ps ! i)) = PT_LOAD) [0..<length ps] of
       None \<Rightarrow> Some (erw, False)
     | Some i \<Rightarrow>
        (let itr = ps ! i; off = esw bs (p_vaddr itr) + required_v2f
         in if esw bs (p_offset itr) = off then Some (erw, False)
            else if p_filesz itr = 0 then do {
              erw \<leftarrow> phdr_put erw i (itr\<lparr>p_offset := esw bs off\<rparr>);
              Some (erw, False) }
            else do {
              erw \<leftarrow> phdrs_move erw (Suc i) i (length ps - i);
              erw \<leftarrow> phdr_put erw i (itr\<lparr>p_flags := esw bs (PF_R OR PF_W), p_offset := esw bs off,
                p_filesz := 0, p_memsz := 0\<rparr>);
              Some (phdrs_count_inc erw, True) }) }"

subsection \<open>The editor holds a list of headers\<close>

definition phdrs_are :: "'a::len word erw \<Rightarrow> 'a word phdr list \<Rightarrow> bool" where
  "phdrs_are erw ps \<longleftrightarrow> ed_ok phdr_codec (e_f erw) (e_phdrs erw) ps"

lemma phdr_list_ok: "phdrs_are erw ps \<Longrightarrow> phdr_list erw = Some ps"
  unfolding phdrs_are_def phdr_list_def by (rule ed_ok_list)

lemma phdr_count_ok: "phdrs_are erw ps \<Longrightarrow> phdr_count erw = length ps"
  by (simp add: phdrs_are_def phdr_count_def ed_ok_def)

lemma phdr_get_ok: "phdrs_are erw ps \<Longrightarrow> i < length ps \<Longrightarrow> phdr_get erw i = Some (ps ! i)"
  by (simp add: phdrs_are_def phdr_get_def ed_ok_def)

lemma phdrs_are_modified [simp]: "phdrs_are (set_modified bits erw) ps = phdrs_are erw ps"
  by (simp add: phdrs_are_def set_modified_def)

text \<open>An operation on the headers changes the bytes of the file and the editor, nothing else.\<close>

definition phdrs_edit :: "'a::len word erw \<Rightarrow> 'a word erw \<Rightarrow> bool" where
  "phdrs_edit erw erw' \<longleftrightarrow> erw' = erw\<lparr>e_f := e_f erw', e_phdrs := e_phdrs erw', e_modified := e_modified erw'\<rparr>"

lemma phdrs_edit_refl [simp]: "phdrs_edit erw erw"
  by (simp add: phdrs_edit_def)

lemma phdrs_edit_trans [trans]: "phdrs_edit a b \<Longrightarrow> phdrs_edit b c \<Longrightarrow> phdrs_edit a c"
  unfolding phdrs_edit_def by (cases a; cases b; cases c) simp

lemma phdrs_edit_modified [simp]: "phdrs_edit erw (set_modified bits erw)"
  by (simp add: phdrs_edit_def set_modified_def)

lemma phdrs_edit_bswap: "phdrs_edit erw erw' \<Longrightarrow> e_bswap erw' = e_bswap erw"
  unfolding phdrs_edit_def by (cases erw; cases erw') simp

lemma phdr_put_ok:
  assumes "phdrs_are erw ps" "i < length ps"
  shows "\<exists>erw'. phdr_put erw i p = Some erw' \<and> phdrs_are erw' (ps[i := p]) \<and> phdrs_edit erw erw'"
  using phdr.put_ok [OF assms [unfolded phdrs_are_def], of p]
  by (fastforce simp: phdr_put_def phdrs_are_def phdrs_edit_def)

lemma phdrs_grow_ok:
  assumes "phdrs_are erw ps" "length ps < 2 ^ 30"
  shows "\<exists>erw'. (if ed_count (e_phdrs erw) \<ge> ed_capacity (e_phdrs erw) then phdrs_grow erw else Some erw) = Some erw' \<and>
    phdrs_are erw' ps \<and> phdrs_edit erw erw' \<and> e_f erw' = e_f erw \<and> owns (e_phdrs erw') \<and>
    length ps < length (ed_heap (e_phdrs erw'))"
proof -
  have lim: "unat (ed_count (e_phdrs erw)) < 2 ^ 30" using assms by (simp add: phdrs_are_def ed_ok_def)
  show ?thesis
    using phdr.room_ok [OF assms(1) [unfolded phdrs_are_def] lim]
    by (fastforce simp: phdrs_grow_def phdrs_are_def phdrs_edit_def split: if_splits)
qed

text \<open>Where \<open>phdrs_alloc\<close> puts a new header.\<close>

definition add_phdr :: "'w phdr \<Rightarrow> 'w phdr list \<Rightarrow> 'w phdr list" where
  "add_phdr p ps = (case find (\<lambda>i. p_type (ps ! i) = PT_NULL) [0..<length ps] of Some i \<Rightarrow> ps[i := p] | None \<Rightarrow> ps @ [p])"

lemma find_index: "find P [a..<b] = Some i \<Longrightarrow> a \<le> i \<and> i < b \<and> P i \<and> (\<forall>j. a \<le> j \<and> j < i \<longrightarrow> \<not> P j)"
proof -
  assume "find P [a..<b] = Some i"
  then obtain k where k: "k < length [a..<b]" "P ([a..<b] ! k)" "i = [a..<b] ! k" "\<forall>l<k. \<not> P ([a..<b] ! l)"
    by (auto simp: find_Some_iff)
  have "\<not> P j" if "a \<le> j" "j < i" for j using k(4) [THEN spec, of "j - a"] that k(1,3) by simp
  then show ?thesis using k by auto
qed

lemma phdrs_alloc_ok:
  assumes ok: "phdrs_are erw ps" and lim: "length ps < 2 ^ 30"
  shows "\<exists>erw1 i erw2. phdrs_alloc erw = Some (erw1, i) \<and> phdr_put erw1 i p = Some erw2 \<and>
    phdrs_are erw2 (add_phdr p ps) \<and> phdrs_edit erw erw1 \<and> phdrs_edit erw erw2"
proof (cases "find (\<lambda>i. p_type (ps ! i) = PT_NULL) [0..<length ps]")
  case (Some i)
  then have "i < length ps" by (auto dest: find_index)
  then show ?thesis
    using phdr_put_ok [OF ok, of i p] Some by (auto simp: phdrs_alloc_def phdr_list_ok [OF ok] add_phdr_def)
next
  case None
  obtain erw0 where e0: "(if ed_count (e_phdrs erw) \<ge> ed_capacity (e_phdrs erw) then phdrs_grow erw else Some erw) = Some erw0"
    "phdrs_are erw0 ps" "phdrs_edit erw erw0" "owns (e_phdrs erw0)" "length ps < length (ed_heap (e_phdrs erw0))"
    using phdrs_grow_ok [OF ok lim] by blast
  have n: "unat (ed_count (e_phdrs erw0)) = length ps" using e0(2) by (simp add: phdrs_are_def ed_ok_def)
  obtain ed' where ed': "ed_put phdr_codec (e_f erw0, (e_phdrs erw0)\<lparr>ed_count := ed_count (e_phdrs erw0) + 1\<rparr>) (length ps) p =
      Some (e_f erw0, ed')" "ed_ok phdr_codec (e_f erw0) ed' (ps @ [p])"
    using phdr.append_owned [OF e0(2) [unfolded phdrs_are_def] e0(4,5), of p] n lim by auto
  have "phdrs_alloc erw = Some (phdrs_count_inc erw0, length ps)"
    using None e0(1) n by (simp add: phdrs_alloc_def phdr_list_ok [OF ok] phdr_count_def)
  moreover have "phdr_put (phdrs_count_inc erw0) (length ps) p = Some (erw0\<lparr>e_phdrs := ed'\<rparr>)"
    using ed'(1) by (simp add: phdr_put_def phdrs_count_inc_def)
  moreover have "phdrs_edit erw0 (erw0\<lparr>e_phdrs := ed'\<rparr>)" "phdrs_edit erw0 (phdrs_count_inc erw0)"
    by (simp_all add: phdrs_edit_def phdrs_count_inc_def)
  ultimately show ?thesis
    using ed'(2) None phdrs_edit_trans [OF e0(3)] by (auto simp: phdrs_are_def add_phdr_def)
qed

end
