(* ===== verification/PhdrMap.thy ===== *)
theory PhdrMap
  imports Phdrs
begin

section \<open>Program headers: what they map, and the edits of the headers\<close>

text \<open>
  The address map that the segments of a well-formed file give, and the effect of the edits
  on the list of headers.
\<close>

subsection \<open>What loading the segments maps\<close>

abbreviation (input) at_off :: "bool \<Rightarrow> 'a::len word phdr \<Rightarrow> nat" where "at_off bs p \<equiv> unat (esw bs (p_offset p))"
abbreviation (input) at_va :: "bool \<Rightarrow> 'a::len word phdr \<Rightarrow> nat" where "at_va bs p \<equiv> unat (esw bs (p_vaddr p))"
abbreviation (input) in_file :: "bool \<Rightarrow> 'a::len word phdr \<Rightarrow> nat" where "in_file bs p \<equiv> unat (esw bs (p_filesz p))"
abbreviation (input) in_mem :: "bool \<Rightarrow> 'a::len word phdr \<Rightarrow> nat" where "in_mem bs p \<equiv> unat (esw bs (p_memsz p))"

text \<open>
  A well-formed segment: its file offset and its address are congruent modulo the page size,
  it is not larger in the file than in memory, and nothing wraps around.
\<close>

definition segment_ok :: "bool \<Rightarrow> u64 \<Rightarrow> 'a::len word phdr \<Rightarrow> bool" where
  "segment_ok bs pg p \<longleftrightarrow> at_va bs p mod unat pg = at_off bs p mod unat pg \<and> in_file bs p \<le> in_mem bs p \<and>
     at_off bs p + in_file bs p < 2 ^ LENGTH('a) \<and> at_va bs p + in_mem bs p < 2 ^ LENGTH('a) \<and>
     at_off bs p + in_file bs p + unat pg < 2 ^ 64 \<and> at_va bs p + in_file bs p + unat pg < 2 ^ 64"

text \<open>The end of the pages that are mapped from the file, and all the pages of a segment.\<close>

definition file_end :: "bool \<Rightarrow> u64 \<Rightarrow> 'a::len word phdr \<Rightarrow> nat" where
  "file_end bs pg p = at_va bs p + (up (unat pg) (at_off bs p + in_file bs p) - at_off bs p)"

definition in_pages :: "bool \<Rightarrow> u64 \<Rightarrow> 'a::len word phdr \<Rightarrow> nat \<Rightarrow> bool" where
  "in_pages bs pg p v \<longleftrightarrow> at_va bs p - at_va bs p mod unat pg \<le> v \<and> v < max (file_end bs pg p) (at_va bs p + in_mem bs p)"

definition segment_get :: "bool \<Rightarrow> u64 \<Rightarrow> u64 \<Rightarrow> 'a::len word phdr \<Rightarrow> u64 \<Rightarrow> u64 \<Rightarrow> u64" where
  "segment_get bs pg f_size p v old =
    (if at_va bs p + in_file bs p \<le> unat v \<and> unat v < at_va bs p + in_mem bs p then V2F_ZEROFILL
     else if at_va bs p - at_va bs p mod unat pg \<le> unat v \<and> unat v < file_end bs pg p then
       (if at_off bs p + unat v < unat f_size + at_va bs p then ucast (esw bs (p_offset p)) - ucast (esw bs (p_vaddr p))
        else V2F_ZEROFILL)
     else old)"

lemma v2f_load_get:
  fixes p :: "'a::len word phdr"
  assumes w: "LENGTH('a) \<le> 64" and pg: "pow2 pg" and ld: "esw bs (p_type p) = PT_LOAD" and ok: "segment_ok bs pg p" and m: "v2f_ok m"
  shows "v2f_ok (v2f_load bs pg fs p m) \<and>
    v2f_map_get (v2f_load bs pg fs p m) v = segment_get bs pg fs p v (v2f_map_get m v)"
proof -
  obtain k where k: "k < 64" "pg = 2 ^ k" using pg by (auto simp: pow2_def)
  define P where "P = unat pg"
  define off va fsz msz where d: "off = at_off bs p" "va = at_va bs p" "fsz = in_file bs p" "msz = in_mem bs p"
  define r where "r = va mod P"
  have Pk: "P = 2 ^ k" "0 < P" using k by (simp_all add: P_def unat_pow2)
  have c: "off mod P = r" "fsz \<le> msz" "off + fsz < 2 ^ LENGTH('a)" "va + msz < 2 ^ LENGTH('a)" "off + fsz + P < 2 ^ 64" "va + fsz + P < 2 ^ 64"
    using ok by (simp_all add: segment_ok_def d P_def r_def)
  have top: "va + msz < 2 ^ 64" using c(4) w by (meson less_le_trans power_increasing one_le_numeral)
  have rl: "r \<le> off" "r \<le> va" using c(1) by (auto simp: r_def) (metis mod_less_eq_dividend)
  define E where "E = up P (off + fsz)"
  have E: "off + fsz \<le> E" "E < off + fsz + P" using up_facts [OF Pk(2), of "off + fsz"] by (simp_all add: E_def)
  define O' V where w1: "O' = (ucast (esw bs (p_offset p)) :: u64)" "V = (ucast (esw bs (p_vaddr p)) :: u64)"
  define pgoff fb vb fend where w2: "pgoff = V AND (pg - 1)" "fb = O' - pgoff" "vb = V - pgoff"
    "fend = (ucast (esw bs (p_offset p) + esw bs (p_filesz p)) + pg - 1) AND - pg"
  have uO: "unat O' = off" "unat V = va" using w by (simp_all add: w1 d unat_ucast_up)
  have up: "unat pgoff = r" unfolding w2 k(2) by (simp add: unat_and_pow2_minus_1 uO r_def Pk)
  have ufb: "unat fb = off - r" "unat vb = va - r" unfolding w2(2,3) using up uO rl by (simp_all add: unat_sub word_le_nat_alt)
  have "unat (ucast (esw bs (p_offset p) + esw bs (p_filesz p)) :: u64) = off + fsz"
    using w c(3) by (simp add: unat_ucast_up unat_plus d)
  then have ue: "unat fend = E"
    using unat_align_up [OF pg] c(5) unfolding w2 align_up_def by (simp add: E_def P_def)
  have fbvb: "fb - vb = O' - V" by (simp add: w2)
  have u1: "unat (fend - fb) = E - (off - r)" using ue ufb E by (simp add: unat_sub word_le_nat_alt)
  have fe: "file_end bs pg p = va + (E - off)" by (simp add: file_end_def d E_def P_def)
  define m1 where "m1 = (if fend \<le> fs then v2f_map_set_range m vb (fend - fb) (fb - vb)
     else if fb \<le> fs then v2f_map_set_range (v2f_map_set_range m vb (fs - fb) (fb - vb)) (vb + (fs - fb)) (fend - fs) V2F_ZEROFILL
     else v2f_map_set_range m vb (fend - fb) V2F_ZEROFILL)"
  have nw: "va - r + (E - (off - r)) = va + (E - off)" "va + (E - off) < 2 ^ 64" using rl E c by linarith+
  have m1: "v2f_ok m1 \<and> v2f_map_get m1 v = (if va - r \<le> unat v \<and> unat v < va + (E - off) then
      (if off + unat v < unat fs + va then O' - V else V2F_ZEROFILL) else v2f_map_get m v)"
  proof -
    consider (all) "fend \<le> fs" | (some) "\<not> fend \<le> fs" "fb \<le> fs" | (none) "\<not> fend \<le> fs" "\<not> fb \<le> fs" by blast
    then show ?thesis
    proof cases
      case all
      have "unat vb + unat (fend - fb) \<le> 2 ^ 64" using ufb u1 nw by linarith
      moreover have "unat v < va + (E - off) \<Longrightarrow> va - r \<le> unat v \<Longrightarrow> off + unat v < unat fs + va"
        using all ue E by (simp add: word_le_nat_alt)
      ultimately show ?thesis
        using all ufb u1 nw m fbvb by (simp add: m1_def v2f.inv_set v2f.get_set)
    next
      case some
      then have s: "E > unat fs" "off - r \<le> unat fs" using ue ufb by (simp_all add: word_le_nat_alt)
      have u2: "unat (fs - fb) = unat fs - (off - r)" "unat (fend - fs) = E - unat fs"
        using some ue ufb by (simp_all add: unat_sub word_le_nat_alt)
      have u3: "unat (vb + (fs - fb)) = va - r + (unat fs - (off - r))"
      proof -
        have "va - r + (unat fs - (off - r)) < 2 ^ 64" using s nw by linarith
        then show ?thesis using u2 ufb by (subst unat_plus) simp_all
      qed
      have n1: "unat vb + unat (fs - fb) \<le> 2 ^ 64" "unat (vb + (fs - fb)) + unat (fend - fs) \<le> 2 ^ 64"
        using ufb u2 u3 nw s by linarith+
      let ?m = "v2f_map_set_range m vb (fs - fb) (fb - vb)"
      have m2: "v2f_ok ?m" using m n1 by (simp add: v2f.inv_set)
      have i1: "(unat vb \<le> unat v \<and> unat v < unat vb + unat (fs - fb)) =
          (va - r \<le> unat v \<and> unat v < va + (E - off) \<and> off + unat v < unat fs + va)"
        and i2: "(unat (vb + (fs - fb)) \<le> unat v \<and> unat v < unat (vb + (fs - fb)) + unat (fend - fs)) =
          (va - r \<le> unat v \<and> unat v < va + (E - off) \<and> \<not> off + unat v < unat fs + va)"
        using s rl E ufb u2 u3 by auto
      show ?thesis
        using some v2f.get_set [OF m n1(1), of "fb - vb" v] v2f.get_set [OF m2 n1(2), of V2F_ZEROFILL v]
          v2f.inv_set [OF m2 n1(2), of V2F_ZEROFILL]
        unfolding m1_def i1 i2 fbvb by auto
    next
      case none
      have "unat vb + unat (fend - fb) \<le> 2 ^ 64" using ufb u1 nw by linarith
      moreover have "va - r \<le> unat v \<Longrightarrow> \<not> off + unat v < unat fs + va"
        using none ufb rl by (simp add: word_le_nat_alt)
      ultimately show ?thesis
        using none ufb u1 nw m by (simp add: m1_def v2f.inv_set v2f.get_set)
    qed
  qed
  have gt: "esw bs (p_memsz p) > esw bs (p_filesz p) \<longleftrightarrow> fsz < msz" by (simp add: d word_less_nat_alt)
  have uz: "unat (ucast (esw bs (p_vaddr p) + esw bs (p_filesz p)) :: u64) = va + fsz"
    using w c by (simp add: unat_ucast_up unat_plus d)
  have us: "unat (ucast (esw bs (p_memsz p) - esw bs (p_filesz p)) :: u64) = msz - fsz"
    using w c(2) by (simp add: unat_ucast_up unat_sub d word_le_nat_alt)
  have eq: "v2f_load bs pg fs p m = (if fsz < msz then v2f_map_set_range m1 (ucast (esw bs (p_vaddr p) + esw bs (p_filesz p)))
      (ucast (esw bs (p_memsz p) - esw bs (p_filesz p))) V2F_ZEROFILL else m1)"
    using ld unfolding v2f_load_def Let_def gt m1_def w2 w1 by simp
  have nz: "unat (ucast (esw bs (p_vaddr p) + esw bs (p_filesz p)) :: u64) +
      unat (ucast (esw bs (p_memsz p) - esw bs (p_filesz p)) :: u64) \<le> 2 ^ 64" using uz us c top by linarith
  have sg: "segment_get bs pg fs p v (v2f_map_get m v) =
      (if va + fsz \<le> unat v \<and> unat v < va + msz then V2F_ZEROFILL else v2f_map_get m1 v)"
    using m1 by (simp add: segment_get_def fe w1 d P_def r_def)
  show ?thesis
  proof (cases "fsz < msz")
    case True
    then have "(va + fsz \<le> unat v \<and> unat v < va + msz) = (va + fsz \<le> unat v \<and> unat v < va + fsz + (msz - fsz))" by auto
    with True show ?thesis
      unfolding eq sg using v2f.inv_set [OF _ nz] v2f.get_set [OF _ nz, of m1 V2F_ZEROFILL v] m1 uz us by simp
  next
    case False
    then show ?thesis unfolding eq sg using m1 c(2) by auto
  qed
qed

text \<open>The pages of two segments have nothing in common.\<close>

definition pages_apart :: "bool \<Rightarrow> u64 \<Rightarrow> 'a::len word phdr \<Rightarrow> 'a word phdr \<Rightarrow> bool" where
  "pages_apart bs pg p q \<longleftrightarrow> esw bs (p_type p) \<noteq> PT_LOAD \<or> esw bs (p_type q) \<noteq> PT_LOAD \<or>
     max (file_end bs pg p) (at_va bs p + in_mem bs p) \<le> at_va bs q - at_va bs q mod unat pg \<or>
     max (file_end bs pg q) (at_va bs q + in_mem bs q) \<le> at_va bs p - at_va bs p mod unat pg"

lemma pages_apart_not_in: "pages_apart bs pg p q \<Longrightarrow> esw bs (p_type p) = PT_LOAD \<Longrightarrow> esw bs (p_type q) = PT_LOAD \<Longrightarrow>
    in_pages bs pg p v \<Longrightarrow> \<not> in_pages bs pg q v"
  by (auto simp: pages_apart_def in_pages_def)

lemma segment_get_outside: "\<not> in_pages bs pg p (unat v) \<Longrightarrow> segment_get bs pg fs p v old = old"
  using mod_less_eq_dividend [of "at_va bs p" "unat pg"] by (auto simp: segment_get_def in_pages_def)

lemma v2f_loads_get:
  fixes ps :: "'a::len word phdr list"
  assumes w: "LENGTH('a) \<le> 64" and pg: "pow2 pg"
  shows "(\<forall>p \<in> set ps. esw bs (p_type p) = PT_LOAD \<longrightarrow> segment_ok bs pg p) \<Longrightarrow> sorted_wrt (pages_apart bs pg) ps \<Longrightarrow> v2f_ok m \<Longrightarrow>
    (let m' = fold (v2f_load bs pg fs) ps m in v2f_ok m' \<and>
      (\<forall>p \<in> set ps. esw bs (p_type p) = PT_LOAD \<and> in_pages bs pg p (unat v) \<longrightarrow>
        (\<exists>old. v2f_map_get m' v = segment_get bs pg fs p v old)) \<and>
      ((\<forall>p \<in> set ps. esw bs (p_type p) = PT_LOAD \<longrightarrow> \<not> in_pages bs pg p (unat v)) \<longrightarrow> v2f_map_get m' v = v2f_map_get m v))"
proof (induction ps arbitrary: m)
  case Nil
  then show ?case by simp
next
  case (Cons p ps)
  show ?case
  proof (cases "esw bs (p_type p) = PT_LOAD")
    case False
    then have "v2f_load bs pg fs p m = m" by (simp add: v2f_load_def)
    then show ?thesis using Cons False by (auto simp: Let_def)
  next
    case ld: True
    let ?m = "v2f_load bs pg fs p m"
    have l: "v2f_ok ?m" "v2f_map_get ?m v = segment_get bs pg fs p v (v2f_map_get m v)"
      using v2f_load_get [OF w pg ld _ Cons.prems(3)] Cons.prems(1) ld by simp_all
    have ih: "let m' = fold (v2f_load bs pg fs) ps ?m in v2f_ok m' \<and>
      (\<forall>p \<in> set ps. esw bs (p_type p) = PT_LOAD \<and> in_pages bs pg p (unat v) \<longrightarrow>
        (\<exists>old. v2f_map_get m' v = segment_get bs pg fs p v old)) \<and>
      ((\<forall>p \<in> set ps. esw bs (p_type p) = PT_LOAD \<longrightarrow> \<not> in_pages bs pg p (unat v)) \<longrightarrow> v2f_map_get m' v = v2f_map_get ?m v)"
      using Cons.prems l(1) by (intro Cons.IH) simp_all
    have ap: "in_pages bs pg p (unat v) \<Longrightarrow> q \<in> set ps \<Longrightarrow> esw bs (p_type q) = PT_LOAD \<Longrightarrow> \<not> in_pages bs pg q (unat v)" for q
      using Cons.prems(2) pages_apart_not_in [OF _ ld] by auto
    have out: "\<not> in_pages bs pg p (unat v) \<Longrightarrow> v2f_map_get ?m v = v2f_map_get m v"
      unfolding l(2) by (rule segment_get_outside)
    show ?thesis
    proof (cases "in_pages bs pg p (unat v)")
      case True
      then show ?thesis using ih ap l(2) ld by (auto simp: Let_def)
    next
      case False
      then show ?thesis using ih out ld by (auto simp: Let_def)
    qed
  qed
qed

lemma segment_get_file:
  fixes p :: "'a::len word phdr"
  assumes w: "LENGTH('a) \<le> 64" and ok: "segment_ok bs pg p" and v: "at_va bs p \<le> unat v" "unat v < at_va bs p + in_file bs p"
    and f: "at_off bs p + in_file bs p \<le> unat fs" and pg: "pow2 pg"
  shows "in_pages bs pg p (unat v) \<and> unat (v + segment_get bs pg fs p v old) = at_off bs p + (unat v - at_va bs p)"
proof -
  have fe: "at_va bs p + in_file bs p \<le> file_end bs pg p"
    using up_facts(1) [OF pow2_pos [OF pg], of "at_off bs p + in_file bs p"] by (simp add: file_end_def)
  have lo: "at_va bs p - at_va bs p mod unat pg \<le> unat v" using v by linarith
  have s: "segment_get bs pg fs p v old = ucast (esw bs (p_offset p)) - ucast (esw bs (p_vaddr p))"
    using v fe lo f by (simp add: segment_get_def)
  have u: "unat (ucast (esw bs (p_offset p)) :: u64) = at_off bs p" "unat (ucast (esw bs (p_vaddr p)) :: u64) = at_va bs p"
    using w by (simp_all add: unat_ucast_up)
  have "unat (v - ucast (esw bs (p_vaddr p)) :: u64) = unat v - at_va bs p"
    using v u by (simp add: unat_sub word_le_nat_alt)
  moreover have "at_off bs p + in_file bs p + unat pg < 2 ^ 64" using ok by (simp add: segment_ok_def)
  then have "at_off bs p + (unat v - at_va bs p) < 2 ^ 64" using v by linarith
  ultimately have "unat (ucast (esw bs (p_offset p)) + (v - ucast (esw bs (p_vaddr p))) :: u64) = at_off bs p + (unat v - at_va bs p)"
    using u by (simp add: unat_plus)
  moreover have "v + segment_get bs pg fs p v old = ucast (esw bs (p_offset p)) + (v - ucast (esw bs (p_vaddr p)))"
    unfolding s by simp
  moreover have "in_pages bs pg p (unat v)" using v fe lo unfolding in_pages_def by linarith
  ultimately show ?thesis by (simp only: conj_absorb simp_thms)
qed

text \<open>
  C15: Loading page-aligned segments whose pages are apart maps each address of a segment to its
  byte of the file, the rest of the segment's memory to zeros, and leaves every address that
  is in no page of a segment unmapped.
\<close>

theorem v2f_init_correct:
  fixes erw :: "'a::len word erw"
  assumes "LENGTH('a) \<le> 64" and "pow2 (e_guest_page_size erw)" and "phdrs_are erw ps"
    and "\<forall>p \<in> set ps. esw (e_bswap erw) (p_type p) = PT_LOAD \<longrightarrow> segment_ok (e_bswap erw) (e_guest_page_size erw) p"
    and "sorted_wrt (pages_apart (e_bswap erw) (e_guest_page_size erw)) ps" and "e_v2f erw = v2f_map_init v2f_zero V2F_UNMAPPED"
  shows "\<exists>m. v2f_init erw = Some (erw\<lparr>e_v2f := m\<rparr>) \<and> v2f_ok m \<and>
    (\<forall>p \<in> set ps. esw (e_bswap erw) (p_type p) = PT_LOAD \<longrightarrow> (\<forall>v.
      (at_va (e_bswap erw) p \<le> unat v \<and> unat v < at_va (e_bswap erw) p + in_file (e_bswap erw) p \<and>
         at_off (e_bswap erw) p + in_file (e_bswap erw) p \<le> unat (e_f_size erw) \<longrightarrow>
         unat (v + v2f_map_get m v) = at_off (e_bswap erw) p + (unat v - at_va (e_bswap erw) p)) \<and>
      (at_va (e_bswap erw) p + in_file (e_bswap erw) p \<le> unat v \<and> unat v < at_va (e_bswap erw) p + in_mem (e_bswap erw) p \<longrightarrow>
         v2f_map_get m v = V2F_ZEROFILL))) \<and>
    (\<forall>v. (\<forall>p \<in> set ps. esw (e_bswap erw) (p_type p) = PT_LOAD \<longrightarrow>
        \<not> in_pages (e_bswap erw) (e_guest_page_size erw) p (unat v)) \<longrightarrow> v2f_map_get m v = V2F_UNMAPPED)"
proof -
  let ?bs = "e_bswap erw" let ?pg = "e_guest_page_size erw" let ?fs = "e_f_size erw"
  let ?m = "fold (v2f_load ?bs ?pg ?fs) ps (e_v2f erw)"
  have i: "v2f_ok (e_v2f erw)" "v2f_map_get (e_v2f erw) v = V2F_UNMAPPED" for v
    using assms(6) table_ok_init(3) [of v2f_zero] by (simp_all add: v2f_zero_def v2f_map_init_def v2f_map_get_def v2f_get_def)
  note L = v2f_loads_get [OF assms(1,2,4,5) i(1), of ?fs, unfolded Let_def]
  have "v2f_init erw = Some (erw\<lparr>e_v2f := ?m\<rparr>)" using phdr_list_ok [OF assms(3)] by (simp add: v2f_init_def)
  moreover have "v2f_map_get ?m v = V2F_UNMAPPED"
    if "\<forall>p \<in> set ps. esw ?bs (p_type p) = PT_LOAD \<longrightarrow> \<not> in_pages ?bs ?pg p (unat v)" for v
    using L i that by auto
  moreover have "unat (v + v2f_map_get ?m v) = at_off ?bs p + (unat v - at_va ?bs p)"
    if "p \<in> set ps" "esw ?bs (p_type p) = PT_LOAD" "at_va ?bs p \<le> unat v" "unat v < at_va ?bs p + in_file ?bs p"
      "at_off ?bs p + in_file ?bs p \<le> unat ?fs" for p v
    using segment_get_file [OF assms(1) _ that(3-5) assms(2)] assms(4) L that(1,2) by metis
  moreover have "v2f_map_get ?m v = V2F_ZEROFILL"
    if p: "p \<in> set ps" "esw ?bs (p_type p) = PT_LOAD" and v: "at_va ?bs p + in_file ?bs p \<le> unat v" "unat v < at_va ?bs p + in_mem ?bs p" for p v
  proof -
    have "in_pages ?bs ?pg p (unat v)" using v by (auto simp: in_pages_def)
    then show ?thesis using L p v by (fastforce simp: segment_get_def)
  qed
  ultimately show ?thesis using L by blast
qed

text \<open>Two segments: one of code, and one of data with a zero-initialised end.\<close>

definition code_phdr :: "64 word phdr" where
  "code_phdr = \<lparr>p_type = 1, p_flags = 5, p_offset = 0, p_vaddr = 0x1000, p_paddr = 0x1000, p_filesz = 0x1234,
    p_memsz = 0x1234, p_align = 0x1000\<rparr>"

definition data_phdr :: "64 word phdr" where
  "data_phdr = \<lparr>p_type = 1, p_flags = 6, p_offset = 0x1240, p_vaddr = 0x4240, p_paddr = 0x4240, p_filesz = 0x100,
    p_memsz = 0x3000, p_align = 0x1000\<rparr>"

definition segments_example :: "64 word erw" where
  "segments_example = erw_zero\<lparr>e_f_size := 0x1400, e_guest_page_size := 0x1000,
     e_phdrs := \<lparr>ed_live = True, ed_at = 64, ed_heap = [Some code_phdr, Some data_phdr], ed_count = 2, ed_capacity = 2\<rparr>,
     e_v2f := v2f_map_init v2f_zero V2F_UNMAPPED\<rparr>"

lemma segments_example_facts:
  "e_bswap segments_example = False" "e_guest_page_size segments_example = 0x1000" "e_f_size segments_example = 0x1400"
  "e_v2f segments_example = v2f_map_init v2f_zero V2F_UNMAPPED" "pow2 (0x1000 :: u64)"
  "phdrs_are segments_example [code_phdr, data_phdr]"
proof -
  show "pow2 (0x1000 :: u64)" using pow2_iff [of 12, where 'a = 64] by simp
  show "phdrs_are segments_example [code_phdr, data_phdr]"
    by (simp add: segments_example_def erw_zero_def phdrs_are_def ed_ok_def ed_get_def rd_def less_Suc_eq)
qed (simp_all add: segments_example_def erw_zero_def)

lemma v2f_init_correct_witness:
  "\<exists>erw. v2f_init segments_example = Some erw \<and> unat (0x4250 + v2f_map_get (e_v2f erw) 0x4250) = 0x1250 \<and>
     v2f_map_get (e_v2f erw) 0x5000 = V2F_ZEROFILL \<and> v2f_map_get (e_v2f erw) 0x3000 = V2F_UNMAPPED"
proof -
  have seg: "\<forall>p \<in> set [code_phdr, data_phdr]. esw False (p_type p) = PT_LOAD \<longrightarrow> segment_ok False 0x1000 p"
    "sorted_wrt (pages_apart False 0x1000) [code_phdr, data_phdr]"
    by (simp_all add: segment_ok_def pages_apart_def file_end_def up_def code_phdr_def data_phdr_def esw_def)
  have out: "\<forall>p \<in> set [code_phdr, data_phdr]. \<not> in_pages False 0x1000 p (unat (0x3000 :: u64))"
    by (simp add: in_pages_def file_end_def up_def code_phdr_def data_phdr_def esw_def)
  note f = segments_example_facts
  obtain m where m: "v2f_init segments_example = Some (segments_example\<lparr>e_v2f := m\<rparr>)"
    and a: "\<forall>p \<in> set [code_phdr, data_phdr]. esw False (p_type p) = PT_LOAD \<longrightarrow> (\<forall>v.
      (at_va False p \<le> unat v \<and> unat v < at_va False p + in_file False p \<and> at_off False p + in_file False p \<le> unat (0x1400 :: u64) \<longrightarrow>
         unat (v + v2f_map_get m v) = at_off False p + (unat v - at_va False p)) \<and>
      (at_va False p + in_file False p \<le> unat v \<and> unat v < at_va False p + in_mem False p \<longrightarrow> v2f_map_get m v = V2F_ZEROFILL))"
    and b: "\<forall>v. (\<forall>p \<in> set [code_phdr, data_phdr]. esw False (p_type p) = PT_LOAD \<longrightarrow>
        \<not> in_pages False 0x1000 p (unat v)) \<longrightarrow> v2f_map_get m v = V2F_UNMAPPED"
    using v2f_init_correct [OF _ _ f(6) _ _ f(4), unfolded f(1-3)] f(5) seg by auto
  have d: "esw False (p_type data_phdr) = PT_LOAD" "at_va False data_phdr = 0x4240" "in_file False data_phdr = 0x100"
    "at_off False data_phdr = 0x1240" "in_mem False data_phdr = 0x3000" by (simp_all add: data_phdr_def esw_def)
  have "data_phdr \<in> set [code_phdr, data_phdr]" by simp
  from bspec [OF a this, THEN mp, OF d(1)] have ad: "\<forall>v.
      (at_va False data_phdr \<le> unat v \<and> unat v < at_va False data_phdr + in_file False data_phdr \<and>
         at_off False data_phdr + in_file False data_phdr \<le> unat (0x1400 :: u64) \<longrightarrow>
         unat (v + v2f_map_get m v) = at_off False data_phdr + (unat v - at_va False data_phdr)) \<and>
      (at_va False data_phdr + in_file False data_phdr \<le> unat v \<and> unat v < at_va False data_phdr + in_mem False data_phdr \<longrightarrow>
         v2f_map_get m v = V2F_ZEROFILL)" .
  have "unat (0x4250 + v2f_map_get m 0x4250) = 0x1250" "v2f_map_get m 0x5000 = V2F_ZEROFILL"
    using ad [THEN spec [where x = "0x4250"]] ad [THEN spec [where x = "0x5000"]] d by simp_all
  moreover have "v2f_map_get m 0x3000 = V2F_UNMAPPED" using b out by blast
  ultimately show ?thesis using m by auto
qed

subsection \<open>The protection of the stack\<close>

definition stack_flags :: "bool \<Rightarrow> u32 \<Rightarrow> 'a::len word phdr \<Rightarrow> u32" where
  "stack_flags bs prot p = (esw bs (p_flags p) AND NOT (PF_R OR PF_W OR PF_X)) OR prot"

definition set_prot :: "bool \<Rightarrow> u32 \<Rightarrow> 'a::len word phdr \<Rightarrow> 'a word phdr" where
  "set_prot bs prot p = (if esw bs (p_type p) = PT_GNU_STACK then p\<lparr>p_flags := esw bs (stack_flags bs prot p)\<rparr> else p)"

lemma set_prot_same: "set_prot bs prot p = p \<longleftrightarrow> \<not> (esw bs (p_type p) = PT_GNU_STACK \<and> stack_flags bs prot p \<noteq> esw bs (p_flags p))"
  by (cases p) (auto simp: set_prot_def esw_eq_iff)

lemma stack_prot_loop:
  fixes erw :: "'a::len word erw"
  assumes ok: "phdrs_are erw ps"
  shows "\<exists>erw'. each (stack_prot_step prot) [0..<length ps] (erw, False) =
      Some (erw', \<exists>p \<in> set ps. set_prot (e_bswap erw) prot p \<noteq> p) \<and>
    phdrs_are erw' (map (set_prot (e_bswap erw) prot) ps) \<and> phdrs_edit erw erw'"
proof -
  let ?g = "set_prot (e_bswap erw) prot"
  let ?I = "\<lambda>i s. phdrs_are (fst s) (map ?g (take i ps) @ drop i ps) \<and> phdrs_edit erw (fst s) \<and>
    snd s = (\<exists>p \<in> set (take i ps). ?g p \<noteq> p)"
  have "\<exists>s'. each (stack_prot_step prot) [0..<length ps] (erw, False) = Some s' \<and> ?I (length ps) s'"
  proof (rule each_upto [where I = ?I])
    show "?I 0 (erw, False)" using ok by simp
  next
    fix i and s :: "'a word erw \<times> bool"
    assume i: "i < length ps" and inv: "?I i s"
    obtain e any where s: "s = (e, any)" by (cases s)
    let ?qs = "map ?g (take i ps) @ drop i ps"
    have e: "phdrs_are e ?qs" "phdrs_edit erw e" "any = (\<exists>p \<in> set (take i ps). ?g p \<noteq> p)" using inv s by simp_all
    have q: "?qs ! i = ps ! i" "i < length ?qs" using i by (simp_all add: nth_append)
    have get: "phdr_get e i = Some (ps ! i)" using phdr_get_ok [OF e(1) q(2)] q(1) by simp
    have nx: "?qs[i := ?g (ps ! i)] = map ?g (take (Suc i) ps) @ drop (Suc i) ps"
      using i by (simp add: take_Suc_conv_app_nth list_update_append Cons_nth_drop_Suc [symmetric])
    have st: "set (take (Suc i) ps) = insert (ps ! i) (set (take i ps))" using i by (simp add: take_Suc_conv_app_nth)
    note bs = phdrs_edit_bswap [OF e(2)]
    show "\<exists>s'. stack_prot_step prot i s = Some s' \<and> ?I (Suc i) s'"
    proof (cases "?g (ps ! i) = ps ! i")
      case True
      then have "stack_prot_step prot i s = Some s"
        using get bs by (auto simp: stack_prot_step_def s set_prot_same stack_flags_def Let_def)
      moreover have "map ?g (take (Suc i) ps) @ drop (Suc i) ps = ?qs" using nx True q by (metis list_update_id)
      ultimately show ?thesis using e s True st by simp
    next
      case False
      obtain e' where e': "phdr_put e i (?g (ps ! i)) = Some e'" "phdrs_are e' (?qs[i := ?g (ps ! i)])" "phdrs_edit e e'"
        using phdr_put_ok [OF e(1) q(2)] by blast
      have ch: "esw (e_bswap erw) (p_type (ps ! i)) = PT_GNU_STACK" "stack_flags (e_bswap erw) prot (ps ! i) \<noteq> esw (e_bswap erw) (p_flags (ps ! i))"
        using False set_prot_same by blast+
      have "stack_prot_step prot i s = Some (set_modified ERW_MODIFIED_PHDRS e', True)"
        using get bs e'(1) ch unfolding set_prot_def by (simp add: stack_prot_step_def s Let_def stack_flags_def)
      then show ?thesis
        using e' e(2) False st nx phdrs_edit_trans [OF phdrs_edit_trans [OF e(2) e'(3)] phdrs_edit_modified] by auto
    qed
  qed
  then show ?thesis by auto
qed

text \<open>
  \<open>phdrs_set_stack_prot\<close> gives every \<open>PT_GNU_STACK\<close> header the requested protection. When
  none of them had to change, and the protection is not the default read, write and execute,
  a header is added: so the file always ends up with one that says what was asked for, but a
  file that already had it gets a second one.
\<close>

theorem phdrs_set_stack_prot_correct:
  assumes ok: "phdrs_are erw ps" and lim: "length ps < 2 ^ 30"
  shows "\<exists>erw'. phdrs_set_stack_prot erw prot = Some erw' \<and> phdrs_edit erw erw' \<and> phdrs_are erw'
    (if map (set_prot (e_bswap erw) prot) ps \<noteq> ps then map (set_prot (e_bswap erw) prot) ps
     else if prot = PF_R OR PF_W OR PF_X then ps
     else add_phdr (phdr_zero\<lparr>p_type := esw (e_bswap erw) PT_GNU_STACK, p_flags := esw (e_bswap erw) prot,
                              p_align := esw (e_bswap erw) 16\<rparr>) ps)"
proof -
  let ?g = "set_prot (e_bswap erw) prot"
  obtain e where e: "each (stack_prot_step prot) [0..<length ps] (erw, False) = Some (e, \<exists>p \<in> set ps. ?g p \<noteq> p)"
    "phdrs_are e (map ?g ps)" "phdrs_edit erw e" using stack_prot_loop [OF ok] by blast
  have any: "(\<exists>p \<in> set ps. ?g p \<noteq> p) \<longleftrightarrow> map ?g ps \<noteq> ps" by (metis map_idI nth_map in_set_conv_nth)
  have n: "phdr_count erw = length ps" by (rule phdr_count_ok [OF ok])
  show ?thesis
  proof (cases "map ?g ps \<noteq> ps \<or> prot = PF_R OR PF_W OR PF_X")
    case True
    then have "phdrs_set_stack_prot erw prot = Some e" using e(1) any n by (auto simp: phdrs_set_stack_prot_def)
    then show ?thesis using True e by auto
  next
    case False
    let ?e = "set_modified ERW_MODIFIED_PHDRS e"
    have "phdrs_are ?e ps" using e(2) False by simp
    from phdrs_alloc_ok [OF this lim]
    obtain erw1 i erw2 where a: "phdrs_alloc ?e = Some (erw1, i)"
      "phdr_put erw1 i (phdr_zero\<lparr>p_type := esw (e_bswap erw) PT_GNU_STACK, p_flags := esw (e_bswap erw) prot,
                              p_align := esw (e_bswap erw) 16\<rparr>) = Some erw2"
      "phdrs_are erw2 (add_phdr (phdr_zero\<lparr>p_type := esw (e_bswap erw) PT_GNU_STACK, p_flags := esw (e_bswap erw) prot,
                              p_align := esw (e_bswap erw) 16\<rparr>) ps)" "phdrs_edit ?e erw1" "phdrs_edit ?e erw2" by blast
    have bs: "e_bswap erw1 = e_bswap erw"
      using phdrs_edit_bswap [OF a(4)] phdrs_edit_bswap [OF e(3)] by (simp add: set_modified_def)
    have "phdrs_set_stack_prot erw prot = Some erw2"
      using False e(1) any n a(1,2) bs by (simp add: phdrs_set_stack_prot_def Let_def)
    then show ?thesis
      using False a(3) phdrs_edit_trans [OF phdrs_edit_trans [OF e(3) phdrs_edit_modified] a(5)] by auto
  qed
qed

text \<open>A header that asks for what it says already is doubled.\<close>

definition stack_phdr :: "64 word phdr" where
  "stack_phdr = phdr_zero\<lparr>p_type := PT_GNU_STACK, p_flags := PF_R OR PF_W, p_align := 16\<rparr>"

definition stack_example :: "64 word erw" where
  "stack_example = erw_zero\<lparr>e_phdrs := \<lparr>ed_live = True, ed_at = 64, ed_heap = [Some code_phdr, Some stack_phdr],
     ed_count = 2, ed_capacity = 2\<rparr>\<rparr>"

lemma phdrs_set_stack_prot_correct_witness:
  "\<exists>erw'. phdrs_set_stack_prot stack_example (PF_R OR PF_W) = Some erw' \<and> phdrs_are erw' [code_phdr, stack_phdr, stack_phdr]"
proof -
  have "phdrs_are stack_example [code_phdr, stack_phdr]" "e_bswap stack_example = False"
    by (simp_all add: stack_example_def erw_zero_def phdrs_are_def ed_ok_def ed_get_def rd_def less_Suc_eq)
  moreover have "map (set_prot False (PF_R OR PF_W)) [code_phdr, stack_phdr] = [code_phdr, stack_phdr]"
    by (simp add: set_prot_def stack_flags_def esw_def code_phdr_def stack_phdr_def phdr_zero_def)
  moreover have "add_phdr (phdr_zero\<lparr>p_type := esw False PT_GNU_STACK, p_flags := esw False (PF_R OR PF_W), p_align := esw False 16\<rparr>)
      [code_phdr, stack_phdr] = [code_phdr, stack_phdr, stack_phdr]"
    by (simp add: add_phdr_def esw_def code_phdr_def stack_phdr_def phdr_zero_def upt_rec)
  ultimately show ?thesis
    using phdrs_set_stack_prot_correct [of stack_example "[code_phdr, stack_phdr]" "PF_R OR PF_W"] by fastforce
qed

subsection \<open>A header before the first segment\<close>

text \<open>
  The result \<open>ps'\<close> of putting \<open>p\<close> into \<open>ps\<close> early: no segment comes before it, and the others
  stay in their order, but for an unused header whose place it may take.
\<close>

definition put_early :: "bool \<Rightarrow> 'a::len word phdr list \<Rightarrow> 'a word phdr \<Rightarrow> 'a word phdr list \<Rightarrow> bool" where
  "put_early bs ps p ps' \<longleftrightarrow> (\<exists>qs rs. ps' = qs @ p # rs \<and> (\<forall>q \<in> set qs. esw bs (p_type q) \<noteq> PT_LOAD) \<and>
     (qs @ rs = ps \<or> (\<exists>as n bs. ps = as @ n # bs \<and> p_type n = PT_NULL \<and> qs @ rs = as @ bs)))"

lemma phdrs_alloc_first_ok:
  assumes ok: "phdrs_are erw ps" and lim: "length ps < 2 ^ 30"
  shows "\<exists>erw1 erw2. phdrs_alloc_first erw = Some (erw1, 0) \<and> phdr_put erw1 0 p = Some erw2 \<and> phdrs_are erw2 (p # ps) \<and>
    phdrs_edit erw erw1 \<and> phdrs_edit erw erw2"
proof -
  obtain erw0 where e0: "(if ed_count (e_phdrs erw) \<ge> ed_capacity (e_phdrs erw) then phdrs_grow erw else Some erw) = Some erw0"
    "phdrs_are erw0 ps" "phdrs_edit erw erw0" "owns (e_phdrs erw0)" "length ps < length (ed_heap (e_phdrs erw0))"
    using phdrs_grow_ok [OF ok lim] by blast
  have n: "unat (ed_count (e_phdrs erw0)) = length ps" using e0(2) by (simp add: phdrs_are_def ed_ok_def)
  obtain ed1 ed' where i: "ed_move phdr_codec (e_f erw0, e_phdrs erw0) 1 0 (length ps) = Some (e_f erw0, ed1)"
    "ed_count ed1 = ed_count (e_phdrs erw0)"
    "ed_put phdr_codec (e_f erw0, ed1\<lparr>ed_count := ed_count (e_phdrs erw0) + 1\<rparr>) 0 p = Some (e_f erw0, ed')"
    "ed_ok phdr_codec (e_f erw0) ed' (p # ps)"
    using phdr.insert_owned [OF e0(2) [unfolded phdrs_are_def] e0(4,5), of 0 p] n lim by auto
  let ?erw1 = "phdrs_count_inc (erw0\<lparr>e_phdrs := ed1\<rparr>)"
  have "phdrs_alloc_first erw = Some (?erw1, 0)"
    using e0(1) i(1) n by (simp add: phdrs_alloc_first_def phdrs_move_def phdr_count_def)
  moreover have "phdr_put ?erw1 0 p = Some (erw0\<lparr>e_phdrs := ed'\<rparr>)"
    using i(2,3) by (simp add: phdr_put_def phdrs_count_inc_def)
  moreover have "phdrs_edit erw0 (erw0\<lparr>e_phdrs := ed'\<rparr>)" "phdrs_edit erw0 ?erw1"
    by (simp_all add: phdrs_edit_def phdrs_count_inc_def)
  ultimately show ?thesis using i(4) phdrs_edit_trans [OF e0(3)] by (auto simp: phdrs_are_def)
qed

text \<open>
  \<open>phdrs_alloc_early\<close> succeeds, and once the header it returns is filled in, no \<open>PT_LOAD\<close>
  comes before it (the rule for \<open>PT_INTERP\<close>) while the other headers keep their order.
\<close>

theorem phdrs_alloc_early_correct:
  assumes ok: "phdrs_are erw ps" and lim: "length ps < 2 ^ 30"
  shows "\<exists>erw1 i erw2 ps'. phdrs_alloc_early erw = Some (erw1, i) \<and> phdr_put erw1 i p = Some erw2 \<and>
    phdrs_are erw2 ps' \<and> put_early (e_bswap erw) ps p ps' \<and> phdrs_edit erw erw2"
proof -
  let ?ty = "\<lambda>i. esw (e_bswap erw) (p_type (ps ! i))"
  let ?A = "find (\<lambda>i. ?ty i = PT_NULL \<or> ?ty i = PT_LOAD) [0..<length ps]"
  have first: ?thesis if "phdrs_alloc_early erw = phdrs_alloc_first erw"
  proof -
    have "put_early (e_bswap erw) ps p (p # ps)" unfolding put_early_def by (intro exI [of _ "[]"] exI [of _ ps]) simp
    then show ?thesis using phdrs_alloc_first_ok [OF ok lim, of p] that by auto
  qed
  have before: "\<forall>q \<in> set (take i ps). esw (e_bswap erw) (p_type q) \<noteq> PT_LOAD" if "?A = Some i" for i
    using find_index [OF that] by (auto simp: in_set_conv_nth)
  consider (none) "?A = None" | (free) i where "?A = Some i" "?ty i = PT_NULL" | (load) i where "?A = Some i" "?ty i \<noteq> PT_NULL"
    by (cases ?A) auto
  then show ?thesis
  proof cases
    case none
    then show ?thesis by (intro first) (simp add: phdrs_alloc_early_def phdr_list_ok [OF ok])
  next
    case (free i)
    then have i: "i < length ps" by (auto dest: find_index)
    have "phdrs_alloc_early erw = Some (erw, i)" using free by (simp add: phdrs_alloc_early_def phdr_list_ok [OF ok])
    moreover have "put_early (e_bswap erw) ps p (ps[i := p])"
      unfolding put_early_def using before [OF free(1)] free(2) i upd_conv_take_nth_drop [OF i, of p] id_take_nth_drop [OF i]
      by (metis esw_eq_0(1))
    ultimately show ?thesis using phdr_put_ok [OF ok i, of p] by auto
  next
    case (load i)
    then have i: "i < length ps" by (auto dest: find_index)
    let ?B = "find (\<lambda>j. p_type (ps ! j) = PT_NULL) [Suc i..<length ps]"
    show ?thesis
    proof (cases ?B)
      case None
      then show ?thesis using load by (intro first) (simp add: phdrs_alloc_early_def phdr_list_ok [OF ok])
    next
      case (Some j)
      then have j: "i < j" "j < length ps" "p_type (ps ! j) = PT_NULL" using find_index by fastforce+
      let ?qs = "take (Suc i) ps @ take (j - i) (drop i ps) @ drop (Suc i + (j - i)) ps"
      obtain f ed where mv: "ed_move phdr_codec (e_f erw, e_phdrs erw) (Suc i) i (j - i) = Some (f, ed)" "ed_ok phdr_codec f ed ?qs"
        using phdr.move_ok [OF ok [unfolded phdrs_are_def], of i "j - i" "Suc i"] i j by auto
      let ?e1 = "erw\<lparr>e_f := f, e_phdrs := ed\<rparr>"
      have a1: "phdrs_are ?e1 ?qs" "phdrs_edit erw ?e1" using mv(2) by (simp_all add: phdrs_are_def phdrs_edit_def)
      have li: "i < length ?qs" using i by simp
      let ?z = "(phdr_slot ?e1 i)\<lparr>p_type := PT_NULL\<rparr>"
      obtain e2 where e2: "phdr_put ?e1 i ?z = Some e2" "phdrs_are e2 (?qs[i := ?z])" "phdrs_edit ?e1 e2"
        using phdr_put_ok [OF a1(1) li] by blast
      obtain e3 where e3: "phdr_put e2 i p = Some e3" "phdrs_are e3 (?qs[i := ?z, i := p])" "phdrs_edit e2 e3"
        using phdr_put_ok [OF e2(2)] li by (metis length_list_update)
      have "phdrs_alloc_early erw = Some (e2, i)"
        using load Some mv(1) e2(1) by (simp add: phdrs_alloc_early_def phdr_list_ok [OF ok] phdrs_move_def)
      moreover have q: "?qs[i := ?z, i := p] = take i ps @ p # (take (j - i) (drop i ps) @ drop (Suc j) ps)"
        using i j by (simp add: take_Suc_conv_app_nth list_update_append)
      moreover have "take i ps @ take (j - i) (drop i ps) @ drop (Suc j) ps = take j ps @ drop (Suc j) ps"
        using j take_add [of i "j - i" ps] by simp
      then have "put_early (e_bswap erw) ps p (?qs[i := ?z, i := p])"
        unfolding put_early_def q using before [OF load(1)] id_take_nth_drop [OF j(2)] j(3) by blast
      moreover have "phdrs_edit erw e3" using phdrs_edit_trans [OF phdrs_edit_trans [OF a1(2) e2(3)] e3(3)] .
      ultimately show ?thesis using e3(1,2) by metis
    qed
  qed
qed

lemma phdrs_alloc_early_correct_witness:
  "\<exists>erw1 i erw2 ps'. phdrs_alloc_early stack_example = Some (erw1, i) \<and> phdr_put erw1 i phdr_zero = Some erw2 \<and>
    phdrs_are erw2 ps' \<and> put_early False [code_phdr, stack_phdr] phdr_zero ps'"
proof -
  have "phdrs_are stack_example [code_phdr, stack_phdr]" "e_bswap stack_example = False"
    by (simp_all add: stack_example_def erw_zero_def phdrs_are_def ed_ok_def ed_get_def rd_def less_Suc_eq)
  then show ?thesis using phdrs_alloc_early_correct [of stack_example "[code_phdr, stack_phdr]" phdr_zero] by fastforce
qed

end
