(* ===== verification/Init.thy ===== *)
theory Init
  imports Phdrs
begin

section \<open>erw.c: opening a file\<close>

text \<open>
  \<open>erw_init_common\<close> finds out the width and the endianness of the words of the file, and
  \<open>erw_init_from_mem\<close> sets up the state for an image in memory. The kind of a file is a type
  here, so the result is a state of either kind.
\<close>

datatype init_error =
    too_small_to_be_an_ELF_file
  | not_an_ELF_file
  | unsupported_type_of_ELF_file
  | unsupported_e_phentsize_value

datatype any_erw = Erw32 "32 word erw" | Erw64 "64 word erw"

definition file_mem :: "u8 list \<Rightarrow> mem" where
  "file_mem f = mem_write Map.empty 0 f"

text \<open>
  The validation reads single fields of the header: \<open>e_ident\<close> at its start, \<open>e_type\<close> at 16, and
  \<open>e_phentsize\<close>, whose place depends on the width that is tried. The answer says whether the file
  is in the other endianness and whether its words have 64 bits; a read outside the file is \<open>None\<close>.
\<close>

definition phentsize_fits :: "mem \<Rightarrow> bool \<Rightarrow> 'a::len itself \<Rightarrow> bool option" where
  "phentsize_fits f swap w = do {
     n \<leftarrow> get_at u16_codec f (30 + 3 * word_size w);
     Some (esw swap n = of_nat (phdr_size w)) }"

definition erw_validate_width :: "mem \<Rightarrow> u64 \<Rightarrow> bool \<Rightarrow> (init_error + bool \<times> bool) option" where
  "erw_validate_width f f_size swap = do {
     clazz \<leftarrow> f 4;
     good \<leftarrow> (if clazz \<noteq> 2 then phentsize_fits f swap TYPE(32) else Some False);
     if good then Some (Inr (swap, False)) else do {
       good \<leftarrow> (if f_size \<ge> of_nat (c_size (ehdr_codec :: 64 word ehdr codec)) then phentsize_fits f swap TYPE(64) else Some False);
       if good then Some (Inr (swap, True)) else do {
         good \<leftarrow> (if clazz = 2 then phentsize_fits f swap TYPE(32) else Some False);
         Some (if good then Inr (swap, False) else Inl unsupported_e_phentsize_value) } } }"

definition erw_validate :: "mem \<Rightarrow> u64 \<Rightarrow> (init_error + bool \<times> bool) option" where
  "erw_validate f f_size =
    (if f_size < of_nat (c_size (ehdr_codec :: 32 word ehdr codec)) then Some (Inl too_small_to_be_an_ELF_file)
     else do {
       ident \<leftarrow> mem_read f 0 4;
       if ident \<noteq> [0x7f, 0x45, 0x4c, 0x46] then Some (Inl not_an_ELF_file) else do {
         type \<leftarrow> get_at u16_codec f 16;
         let swap = \<not> (type = ET_EXEC \<or> type = ET_DYN);
         if swap \<and> \<not> (bswap type = ET_EXEC \<or> bswap type = ET_DYN) then Some (Inl unsupported_type_of_ELF_file)
         else erw_validate_width f f_size swap } })"

definition erw_opened :: "u8 list \<Rightarrow> u64 \<Rightarrow> bool \<Rightarrow> 'w erw" where
  "erw_opened mem guest_page_size swap =
    erw_zero\<lparr>e_guest_page_size := guest_page_size, e_f_size := of_nat (length mem), e_f := file_mem mem,
      e_original := (e_original erw_zero)\<lparr>o_mem := file_mem mem\<rparr>, e_bswap := swap\<rparr>"

definition erw_init_from_mem :: "u8 list \<Rightarrow> u64 \<Rightarrow> (init_error + any_erw) option" where
  "erw_init_from_mem mem guest_page_size =
    (case erw_validate (file_mem mem) (of_nat (length mem)) of
       None \<Rightarrow> None
     | Some (Inl err) \<Rightarrow> Some (Inl err)
     | Some (Inr (swap, is64)) \<Rightarrow>
         if is64 then map_option (\<lambda>e. Inr (Erw64 e)) (phdrs_init (erw_opened mem guest_page_size swap))
         else map_option (\<lambda>e. Inr (Erw32 e)) (phdrs_init (erw_opened mem guest_page_size swap)))"

subsection \<open>Every read is inside the file\<close>

lemma file_mem_read: "a + n \<le> length f \<Longrightarrow> mem_read (file_mem f) a n = Some (take n (drop a f))"
  by (auto simp: mem_read_eq_iff holds_def file_mem_def mem_write_apply)

lemma get_at_file: "a + c_size c \<le> length f \<Longrightarrow> get_at c (file_mem f) a = Some (c_dec c (take (c_size c) (drop a f)))"
  by (simp add: get_at_def file_mem_read)

lemma sizes:
  "c_size (ehdr_codec :: 'a::len word ehdr codec) = 40 + 3 * word_size TYPE('a)"
  "phdr_size TYPE('a) = 8 + 6 * word_size TYPE('a)" "shdr_size TYPE('a) = 16 + 6 * word_size TYPE('a)"
  by (simp_all add: ehdr_codec_def phdr_size_def phdr_codec_def shdr_size_def shdr_codec_def Let_def)

lemma ed_list_window:
  assumes "ed_capacity ed = 0" and "ed_at ed + unat (ed_count ed) * c_size c \<le> length f"
  defines "es \<equiv> map (\<lambda>i. c_dec c (take (c_size c) (drop (ed_at ed + i * c_size c) f))) [0..<unat (ed_count ed)]"
  shows "ed_list c (file_mem f) ed = Some es \<and> ed_ok c (file_mem f) ed es"
proof -
  have "ed_at ed + i * c_size c + c_size c \<le> length f" if "i < unat (ed_count ed)" for i
  proof -
    have "Suc i * c_size c \<le> unat (ed_count ed) * c_size c" using that by (intro mult_le_mono1) simp
    then show ?thesis using assms(2) by simp
  qed
  then have "ed_ok c (file_mem f) ed es" using assms(1) by (simp add: es_def ed_ok_def ed_get_def file_mem_read)
  then show ?thesis using ed_ok_list by blast
qed

subsection \<open>What the header of a file says\<close>

text \<open>The number that \<open>n\<close> bytes of a file at an offset stand for, most significant byte first when \<open>big\<close>.\<close>

definition elf_nat :: "bool \<Rightarrow> nat \<Rightarrow> nat \<Rightarrow> u8 list \<Rightarrow> nat" where
  "elf_nat big off n f = (let bs = take n (drop off f) in foldr (\<lambda>b v. unat b + 256 * v) (if big then rev bs else bs) 0)"

lemma unat_word_of_bytes:
  "8 * length bs \<le> LENGTH('a::len) \<Longrightarrow> unat (word_of_bytes bs :: 'a word) = foldr (\<lambda>b v. unat b + 256 * v) bs 0"
proof (induction bs)
  case Nil
  then show ?case by (simp add: word_of_bytes_def)
next
  case (Cons b bs)
  let ?w = "word_of_bytes bs :: 'a word"
  have step: "(word_of_bytes (b # bs) :: 'a word) = ucast b OR push_bit 8 ?w"
    by (simp add: word_of_bytes_def)
  have l: "8 + 8 * length bs \<le> LENGTH('a)" using Cons.prems by simp
  have "foldr (\<lambda>b v. unat b + 256 * v) bs 0 < 256 ^ length bs" for bs :: "u8 list"
  proof (induction bs)
    case (Cons b bs)
    have "unat b < 256" using unsigned_less [of b, where 'a = nat] by simp
    then show ?case using Cons by simp
  qed simp
  then have w: "unat ?w < 256 ^ length bs" using Cons by simp
  have disj: "ucast b AND push_bit 8 ?w = 0"
  proof (rule bit_word_eqI)
    fix n show "bit (ucast b AND push_bit 8 ?w) n = bit (0 :: 'a word) n"
      using bit_imp_le_length [of b n] by (auto simp: bit_simps)
  qed
  have "(word_of_bytes (b # bs) :: 'a word) = ucast b + push_bit 8 ?w"
    unfolding step using disj by (simp add: disjunctive_add_eq_or)
  also have "\<dots> = of_nat (unat b + 256 * unat ?w)"
    by (simp add: push_bit_eq_mult) 
  also have "unat \<dots> = unat b + 256 * unat ?w"
  proof -
    have "unat b < 256" using unsigned_less [of b, where 'a = nat] by simp
    then have "unat b + 256 * unat ?w < 256 ^ length (b # bs)" using w by simp
    also have "(256 :: nat) ^ length (b # bs) = 2 ^ (8 * length (b # bs))" by (simp add: power_add power_mult)
    also have "\<dots> \<le> 2 ^ LENGTH('a)" using Cons.prems by (intro power_increasing) simp_all
    finally show ?thesis by (simp only: unat_of_nat mod_less)
  qed
  finally show ?case using Cons by simp
qed

lemma bswap_word_of_bytes:
  assumes "8 * length bs = LENGTH('a::len)"
  shows "bswap (word_of_bytes bs :: 'a word) = word_of_bytes (rev bs)"
proof (rule bit_word_eqI)
  fix n assume n: "n < LENGTH('a)"
  have d: "8 dvd LENGTH('a)" using assms by (metis dvd_triv_left)
  have q: "n div 8 < length bs" using n assms by (simp flip: assms add: less_mult_imp_div_less mult.commute)
  have "mirror_bit LENGTH('a) n = 8 * (length bs - Suc (n div 8)) + n mod 8"
    using q by (simp add: mirror_bit_def diff_mult_distrib2 flip: assms)
  then have "mirror_bit LENGTH('a) n div 8 = length bs - Suc (n div 8)" "mirror_bit LENGTH('a) n mod 8 = n mod 8" by simp_all
  then show "bit (bswap (word_of_bytes bs :: 'a word)) n = bit (word_of_bytes (rev bs) :: 'a word) n"
    using n d q mirror_bit_less [OF d n] by (auto simp: bit_bswap bit_word_of_bytes rev_nth)
qed

lemma unat_esw_field:
  assumes "8 * word_size TYPE('a::len) = LENGTH('a)" "off + word_size TYPE('a) \<le> length f"
  shows "unat (esw big (field off f :: 'a word)) = elf_nat big off (word_size TYPE('a)) f"
  using assms by (simp add: esw_def field_def elf_nat_def Let_def bswap_word_of_bytes unat_word_of_bytes)

lemma field_take: "off + word_size TYPE('b) \<le> n \<Longrightarrow> (field off (take n bs) :: 'b::len word) = field off bs"
  by (simp add: field_def drop_take min_def)

lemma field_drop: "(field off (drop n bs) :: 'b::len word) = field (n + off) bs"
  by (simp add: field_def add.commute)

text \<open>
  The number of program headers in a file whose words have \<open>w\<close> bytes: what \<open>e_phnum\<close> says, or
  \<open>sh_info\<close> of the first section header when \<open>e_phnum\<close> is \<open>0xffff\<close> and so many could be there, but
  not more than fit between \<open>e_phoff\<close> and the end of the file. The editor counts in 32 bits.
\<close>

definition elf_phnum :: "bool \<Rightarrow> nat \<Rightarrow> u8 list \<Rightarrow> nat" where
  "elf_phnum big w f =
    (let phoff = elf_nat big (24 + w) w f; shoff = elf_nat big (24 + 2 * w) w f; phnum = elf_nat big (32 + 3 * w) 2 f;
         whole = (length f - phoff) div (8 + 6 * w) mod 2 ^ 32
     in min (if phnum = 0xffff \<and> 0xffff < whole \<and> shoff + (16 + 6 * w) \<le> length f
             then elf_nat big (shoff + (12 + 4 * w)) 4 f else phnum) whole)"

text \<open>The program headers: as many structs one after the other from \<open>e_phoff\<close> on.\<close>

definition elf_phdrs :: "bool \<Rightarrow> u8 list \<Rightarrow> 'a::len word phdr list" where
  "elf_phdrs big f =
    (let w = word_size TYPE('a); phoff = elf_nat big (24 + w) w f
     in map (\<lambda>i. c_dec phdr_codec (take (8 + 6 * w) (drop (phoff + i * (8 + 6 * w)) f))) [0..<elf_phnum big w f])"

lemma whole_u32:
  fixes phoff :: u64
  assumes "length f < 2 ^ 64" "n < 2 ^ 64"
  shows "unat (if phoff < of_nat (length f) then ucast ((of_nat (length f) - phoff) div of_nat n) else 0 :: u32) =
    (length f - unat phoff) div n mod 2 ^ 32"
proof -
  have fs: "unat (of_nat (length f) :: u64) = length f" "unat (of_nat n :: u64) = n"
    using assms by (simp_all add: unat_of_nat take_bit_nat_eq_self)
  show ?thesis
  proof (cases "phoff < of_nat (length f)")
    case True
    then have "unat (of_nat (length f) - phoff) = length f - unat phoff" using fs by (simp add: unat_sub)
    then show ?thesis using True fs by (simp add: unsigned_ucast_eq unat_div_distrib take_bit_eq_mod)
  next
    case False
    then show ?thesis using fs by (simp add: word_less_nat_alt)
  qed
qed

lemma bswap_ffff: "bswap (0xffff :: u16) = 0xffff"
  by code_simp

lemma elf_nat_ffff: "elf_nat big off 2 f = 0xffff \<longleftrightarrow> (field off f :: u16) = 0xffff" if "off + 2 \<le> length f"
proof -
  have "elf_nat big off 2 f = unat (esw big (field off f :: u16))"
    using unat_esw_field [where 'a = 16, of off f big] that by simp
  also have "\<dots> = 0xffff \<longleftrightarrow> esw big (field off f :: u16) = 0xffff"
    using word_unat_eq_iff [of "esw big (field off f :: u16)" "0xffff"] by simp
  also have "\<dots> \<longleftrightarrow> (field off f :: u16) = esw big 0xffff" by (rule esw_eq_iff)
  finally show ?thesis by (simp add: esw_def bswap_ffff)
qed

abbreviation (input) ehdr_of :: "u8 list \<Rightarrow> 'a::len word ehdr" where
  "ehdr_of f \<equiv> c_dec ehdr_codec (take (c_size (ehdr_codec :: 'a word ehdr codec)) f)"

lemma ehdr_fields:
  fixes f :: "u8 list"
  assumes w: "LENGTH('a::len) = 32 \<or> LENGTH('a) = 64" and h: "c_size (ehdr_codec :: 'a word ehdr codec) \<le> length f"
  defines "n \<equiv> word_size TYPE('a)"
  shows "unat (esw big (e_phoff (ehdr_of f :: 'a word ehdr))) = elf_nat big (24 + n) n f"
    and "unat (esw big (e_shoff (ehdr_of f :: 'a word ehdr))) = elf_nat big (24 + 2 * n) n f"
    and "unat (esw big (e_phnum (ehdr_of f :: 'a word ehdr))) = elf_nat big (32 + 3 * n) 2 f"
    and "e_phnum (ehdr_of f :: 'a word ehdr) = 0xffff \<longleftrightarrow> elf_nat big (32 + 3 * n) 2 f = 0xffff"
    and "unat (esw big (e_mach (ehdr_of f :: 'a word ehdr))) = elf_nat big 18 2 f"
proof -
  have n: "8 * n = LENGTH('a)" "word_size TYPE('a) = n" using w by (auto simp: n_def word_size_def)
  have l: "40 + 3 * n \<le> length f" using h by (simp add: sizes n)
  have f: "e_phoff (ehdr_of f :: 'a word ehdr) = field (24 + n) f" "e_shoff (ehdr_of f :: 'a word ehdr) = field (24 + 2 * n) f"
    "e_phnum (ehdr_of f :: 'a word ehdr) = field (32 + 3 * n) f" "e_mach (ehdr_of f :: 'a word ehdr) = field 18 f"
    by (simp_all add: ehdr_codec_def Let_def field_take n)
  show "unat (esw big (e_phoff (ehdr_of f :: 'a word ehdr))) = elf_nat big (24 + n) n f"
    "unat (esw big (e_shoff (ehdr_of f :: 'a word ehdr))) = elf_nat big (24 + 2 * n) n f"
    unfolding f using unat_esw_field [where 'a = 'a] n l by simp_all
  show "unat (esw big (e_phnum (ehdr_of f :: 'a word ehdr))) = elf_nat big (32 + 3 * n) 2 f"
    "unat (esw big (e_mach (ehdr_of f :: 'a word ehdr))) = elf_nat big 18 2 f"
    unfolding f using unat_esw_field [where 'a = 16] l by simp_all
  show "e_phnum (ehdr_of f :: 'a word ehdr) = 0xffff \<longleftrightarrow> elf_nat big (32 + 3 * n) 2 f = 0xffff"
    unfolding f using elf_nat_ffff [of "32 + 3 * n" f big] l by simp
qed

lemma shdr_info:
  fixes f :: "u8 list"
  assumes "shdr_size TYPE('a) \<le> length f - off" "LENGTH('a::len) = 32 \<or> LENGTH('a) = 64" "off + shdr_size TYPE('a) \<le> length f"
  shows "unat (esw big (sh_info (c_dec (shdr_codec :: 'a word shdr codec) (take (shdr_size TYPE('a)) (drop off f))))) =
    elf_nat big (off + (12 + 4 * word_size TYPE('a))) 4 f"
proof -
  have "sh_info (c_dec (shdr_codec :: 'a word shdr codec) (take (shdr_size TYPE('a)) (drop off f))) =
      field (off + (12 + 4 * word_size TYPE('a))) f"
    by (simp add: shdr_codec_def Let_def field_take field_drop sizes)
  then show ?thesis using unat_esw_field [where 'a = 32] assms(3) by (simp add: sizes)
qed

text \<open>The count that the editor starts with is the one the header says.\<close>

lemma initial_count_ok:
  fixes erw :: "'a::len word erw"
  assumes w: "LENGTH('a) = 32 \<or> LENGTH('a) = 64" and f: "e_f erw = file_mem f" "e_f_size erw = of_nat (length f)" "length f < 2 ^ 64"
    and h: "c_size (ehdr_codec :: 'a word ehdr codec) \<le> length f"
  shows "\<exists>n. initial_phdr_count erw (ehdr_of f) = Some n \<and> unat n = elf_phnum (e_bswap erw) (word_size TYPE('a)) f"
proof -
  let ?bs = "e_bswap erw" and ?n = "word_size TYPE('a)" and ?h = "ehdr_of f :: 'a word ehdr"
  let ?phoff = "ucast (esw ?bs (e_phoff ?h)) :: u64" and ?shoff = "ucast (esw ?bs (e_shoff ?h)) :: u64"
  let ?fs = "e_f_size erw"
  define n0 where "n0 = (if ?phoff < ?fs then ucast ((?fs - ?phoff) div of_nat (phdr_size TYPE('a))) else 0 :: u32)"
  note eh = ehdr_fields [OF w h, of ?bs]
  have ws: "?n = 4 \<or> ?n = 8" using w by (auto simp: word_size_def)
  have up: "unat ?phoff = elf_nat ?bs (24 + ?n) ?n f" "unat ?shoff = elf_nat ?bs (24 + 2 * ?n) ?n f"
    using w eh by (auto simp: unat_ucast_up)
  have n0: "unat n0 = (length f - elf_nat ?bs (24 + ?n) ?n f) div (8 + 6 * ?n) mod 2 ^ 32" (is "_ = ?whole")
    unfolding n0_def f(2) using whole_u32 [OF f(3), of "phdr_size TYPE('a)" ?phoff] ws up by (auto simp: sizes)
  have num: "unat (ucast (esw ?bs (e_phnum ?h)) :: u32) = elf_nat ?bs (32 + 3 * ?n) 2 f" (is "_ = ?num")
    using eh(3) by (simp add: unat_ucast_up)
  have fit: "?shoff < ?fs \<and> ?fs - ?shoff \<ge> of_nat (shdr_size TYPE('a)) \<longleftrightarrow> unat ?shoff + shdr_size TYPE('a) \<le> length f"
  proof -
    have u: "unat ?fs = length f" "unat (of_nat (shdr_size TYPE('a)) :: u64) = shdr_size TYPE('a)" "0 < shdr_size TYPE('a)"
      using f ws by (auto simp: unat_of_nat take_bit_nat_eq_self sizes)
    show ?thesis
    proof (cases "?shoff < ?fs")
      case True
      then have "unat (?fs - ?shoff) = length f - unat ?shoff" using u by (simp add: unat_sub)
      then show ?thesis using True u by (auto simp: word_le_nat_alt word_less_nat_alt)
    next
      case False
      then show ?thesis using u by (simp add: word_less_nat_alt)
    qed
  qed
  note num_spec = elf_phnum_def [of ?bs ?n f, unfolded Let_def, folded n0 num]
  show ?thesis
  proof (cases "(ucast (esw ?bs (e_phnum ?h)) :: u32) < n0")
    case False
    then have "initial_phdr_count erw ?h = Some n0" by (simp add: initial_phdr_count_def Let_def n0_def)
    moreover have "elf_phnum ?bs ?n f = unat n0"
      using False by (simp add: num_spec word_less_nat_alt)
    ultimately show ?thesis by simp
  next
    case lt: True
    show ?thesis
    proof (cases "e_phnum ?h = 0xffff \<and> ?shoff < ?fs \<and> ?fs - ?shoff \<ge> of_nat (shdr_size TYPE('a))")
      case True
      then have sh: "unat ?shoff + shdr_size TYPE('a) \<le> length f" using fit by blast
      let ?s = "c_dec (shdr_codec :: 'a word shdr codec) (take (shdr_size TYPE('a)) (drop (unat ?shoff) f))"
      have s: "get_at (shdr_codec :: 'a word shdr codec) (e_f erw) (unat ?shoff) = Some ?s"
        using get_at_file [of "unat ?shoff" "shdr_codec :: 'a word shdr codec" f] f(1) sh by (simp add: shdr_size_def)
      let ?n' = "if esw ?bs (sh_info ?s) < n0 then esw ?bs (sh_info ?s) else n0"
      have "initial_phdr_count erw ?h = Some ?n'"
        using lt True s by (simp add: initial_phdr_count_def Let_def n0_def)
      moreover have "unat ?n' = elf_phnum ?bs ?n f"
      proof -
        have i: "unat (esw ?bs (sh_info ?s)) = elf_nat ?bs (elf_nat ?bs (24 + 2 * ?n) ?n f + (12 + 4 * ?n)) 4 f"
          using shdr_info [OF _ w sh] sh up(2) by simp
        have p: "unat (ucast (esw ?bs (e_phnum ?h)) :: u32) = 0xffff" using True eh(4) num by simp
        have "elf_nat ?bs (24 + 2 * ?n) ?n f + (16 + 6 * ?n) \<le> length f" using sh up(2) by (simp add: sizes)
        then have "elf_phnum ?bs ?n f = min (unat (esw ?bs (sh_info ?s))) (unat n0)"
          using lt unfolding num_spec i p by (simp add: word_less_nat_alt p [simplified])
        then show ?thesis by (simp add: word_less_nat_alt min_def)
      qed
      ultimately show ?thesis by blast
    next
      case False
      then have "initial_phdr_count erw ?h = Some (ucast (esw ?bs (e_phnum ?h)))"
        using lt unfolding initial_phdr_count_def Let_def n0_def [symmetric] by (simp only: if_True if_not_P [OF False] if_False)
      moreover have "unat (ucast (esw ?bs (e_phnum ?h)) :: u32) = elf_phnum ?bs ?n f"
        using lt False [unfolded fit] unfolding num_spec up(2) eh(4) num [symmetric] 
        by (auto simp: word_less_nat_alt sizes min_def)
      ultimately show ?thesis by blast
    qed
  qed
qed

lemma elf_phdrs_fit:
  "elf_phnum big w f = 0 \<or> elf_nat big (24 + w) w f + elf_phnum big w f * (8 + 6 * w) \<le> length f"
proof -
  let ?o = "elf_nat big (24 + w) w f"
  have "elf_phnum big w f \<le> (length f - ?o) div (8 + 6 * w) mod 2 ^ 32" by (simp add: elf_phnum_def Let_def)
  also have "\<dots> \<le> (length f - ?o) div (8 + 6 * w)" by simp
  finally have "elf_phnum big w f * (8 + 6 * w) \<le> (length f - ?o) div (8 + 6 * w) * (8 + 6 * w)" by (rule mult_le_mono1)
  also have "\<dots> \<le> length f - ?o" by simp
  finally show ?thesis by (cases "?o \<le> length f") auto
qed

text \<open>
  What a state holds after an image was opened: its bytes, and the program headers that the header
  of the image describes, read where they are in the file.
\<close>

definition opened :: "'a::len word erw \<Rightarrow> u8 list \<Rightarrow> u64 \<Rightarrow> bool" where
  "opened erw f guest_page_size \<longleftrightarrow>
     (let w = word_size TYPE('a); phdrs = elf_phdrs (e_bswap erw) f
      in e_f erw = file_mem f \<and> unat (e_f_size erw) = length f \<and> e_modified erw = 0 \<and>
         unat (e_machine erw) = elf_nat (e_bswap erw) 18 2 f \<and>
         e_guest_page_size erw = (if guest_page_size = 0 then default_page_size (e_machine erw) else guest_page_size) \<and>
         ed_capacity (e_phdrs erw) = 0 \<and> ed_at (e_phdrs erw) = elf_nat (e_bswap erw) (24 + w) w f \<and>
         phdrs_are erw phdrs \<and> o_phdrs (e_original erw) = phdrs \<and>
         o_f_size (e_original erw) = e_f_size erw \<and> o_mem (e_original erw) = file_mem f)"

lemma phdrs_init_opened:
  fixes mem :: "u8 list"
  assumes w: "LENGTH('a::len) = 32 \<or> LENGTH('a) = 64" and f: "length mem < 2 ^ 64"
    and h: "c_size (ehdr_codec :: 'a word ehdr codec) \<le> length mem"
  shows "\<exists>erw :: 'a word erw. phdrs_init (erw_opened mem guest_page_size swap) = Some erw \<and>
    opened erw mem guest_page_size \<and> e_bswap erw = swap"
proof -
  let ?e0 = "erw_opened mem guest_page_size swap :: 'a word erw" and ?h = "ehdr_of mem :: 'a word ehdr" and ?w = "word_size TYPE('a)"
  have hdr: "file_ehdr ?e0 = Some ?h"
    unfolding file_ehdr_def using get_at_file [of 0 "ehdr_codec :: 'a word ehdr codec" mem] h by (simp add: erw_opened_def)
  define e where "e = (let erw = ?e0\<lparr>e_machine := esw swap (e_mach ?h)\<rparr>
    in if e_guest_page_size erw = 0 then erw\<lparr>e_guest_page_size := default_page_size (e_machine erw)\<rparr> else erw)"
  have same: "e_f e = file_mem mem" "e_f_size e = of_nat (length mem)" "e_bswap e = swap" "e_modified e = 0"
    "e_machine e = esw swap (e_mach ?h)" "o_mem (e_original e) = file_mem mem"
    "e_guest_page_size e = (if guest_page_size = 0 then default_page_size (e_machine e) else guest_page_size)"
    by (simp_all add: e_def Let_def erw_opened_def erw_zero_def)
  obtain n where n: "initial_phdr_count e ?h = Some n" "unat n = elf_phnum swap ?w mem"
    using initial_count_ok [OF w same(1,2) f h] same(3) by auto
  note eh = ehdr_fields [OF w h, of swap]
  let ?ed = "\<lparr>ed_live = True, ed_at = unat (esw swap (e_phoff ?h)), ed_heap = [], ed_count = n, ed_capacity = 0\<rparr> :: 'a word phdr editor"
  let ?ps = "elf_phdrs swap mem :: 'a word phdr list"
  have sz: "c_size (phdr_codec :: 'a word phdr codec) = 8 + 6 * ?w" using sizes(2) [where 'a = 'a] by (simp add: phdr_size_def)
  have ps: "ed_list phdr_codec (file_mem mem) ?ed = Some ?ps \<and> ed_ok phdr_codec (file_mem mem) ?ed ?ps"
  proof (cases "n = 0")
    case True
    then have "?ps = []" using n(2) by (simp add: elf_phdrs_def Let_def)
    then show ?thesis using True by (simp add: ed_list_def ed_ok_def)
  next
    case False
    then have "elf_phnum swap ?w mem \<noteq> 0" using n(2) by (metis unat_eq_zero)
    then have "ed_at ?ed + unat (ed_count ?ed) * c_size (phdr_codec :: 'a word phdr codec) \<le> length mem"
      using elf_phdrs_fit [of swap ?w mem] n(2) eh(1) sz by auto
    then have "?ps = map (\<lambda>i. c_dec phdr_codec (take (c_size (phdr_codec :: 'a word phdr codec)) (drop (ed_at ?ed + i * c_size (phdr_codec :: 'a word phdr codec)) mem))) [0..<unat (ed_count ?ed)] \<and>
      ed_at ?ed + unat (ed_count ?ed) * c_size (phdr_codec :: 'a word phdr codec) \<le> length mem"
      by (simp add: elf_phdrs_def Let_def sz eh(1) n(2))
    then show ?thesis using ed_list_window [of ?ed "phdr_codec :: 'a word phdr codec" mem] by simp
  qed
  let ?e2 = "e\<lparr>e_phdrs := ?ed, e_original := (e_original e)\<lparr>o_f_size := e_f_size e, o_phdrs := ?ps\<rparr>,
       e_v2f := v2f_map_init (e_v2f e) V2F_UNMAPPED\<rparr>"
  have a: "phdrs_are ?e2 ?ps" using ps same(1) by (simp add: phdrs_are_def)
  have b: "e_bswap ?e0 = swap" by (simp add: erw_opened_def)
  have "phdrs_init ?e0 = v2f_init ?e2"
    using hdr n(1) ps same(1) b unfolding phdrs_init_def e_def by (simp add: Let_def split: if_splits)
  also have "\<dots> = Some (?e2\<lparr>e_v2f := fold (v2f_load (e_bswap ?e2) (e_guest_page_size ?e2) (e_f_size ?e2)) ?ps (e_v2f ?e2)\<rparr>)"
    unfolding v2f_init_def phdr_list_ok [OF a] by simp
  finally have init: "phdrs_init ?e0 = Some (?e2\<lparr>e_v2f := fold (v2f_load (e_bswap ?e2) (e_guest_page_size ?e2) (e_f_size ?e2)) ?ps (e_v2f ?e2)\<rparr>)" (is "_ = Some ?e3") .
  have "e_f ?e3 = file_mem mem" "e_f_size ?e3 = of_nat (length mem)" "e_bswap ?e3 = swap" "e_modified ?e3 = 0"
    "e_machine ?e3 = esw swap (e_mach ?h)" "o_mem (e_original ?e3) = file_mem mem" "e_phdrs ?e3 = ?ed"
    "e_guest_page_size ?e3 = (if guest_page_size = 0 then default_page_size (e_machine ?e3) else guest_page_size)"
    "o_phdrs (e_original ?e3) = ?ps" "o_f_size (e_original ?e3) = e_f_size ?e3" "phdrs_are ?e3 ?ps"
    using same a by (simp_all add: phdrs_are_def)
  moreover have "unat (of_nat (length mem) :: u64) = length mem" using f by (simp add: unat_of_nat take_bit_nat_eq_self)
  ultimately have "opened ?e3 mem guest_page_size" "e_bswap ?e3 = swap"
    unfolding opened_def Let_def by (simp_all only: eh(1) eh(5)) simp_all
  then show ?thesis using init by blast
qed

subsection \<open>What the validation decides\<close>

text \<open>
  The order of the bytes makes \<open>e_type\<close> one of \<open>ET_EXEC\<close> and \<open>ET_DYN\<close>; the order of the host is
  tried first. The width makes \<open>e_phentsize\<close> the size of its program headers, in a file that has
  room for its header.
\<close>

definition elf_order :: "bool \<Rightarrow> u8 list \<Rightarrow> bool" where
  "elf_order big f \<longleftrightarrow> elf_nat big 16 2 f \<in> {2, 3} \<and> (big \<longrightarrow> elf_nat False 16 2 f \<notin> {2, 3})"

definition elf_entries :: "bool \<Rightarrow> nat \<Rightarrow> u8 list \<Rightarrow> bool" where
  "elf_entries big w f \<longleftrightarrow> 40 + 3 * w \<le> length f \<and> elf_nat big (30 + 3 * w) 2 f = 8 + 6 * w"

definition validated :: "u8 list \<Rightarrow> init_error + bool \<times> bool \<Rightarrow> bool" where
  "validated f r \<longleftrightarrow> (case r of
       Inl too_small_to_be_an_ELF_file \<Rightarrow> length f < 52
     | Inl not_an_ELF_file \<Rightarrow> 52 \<le> length f \<and> take 4 f \<noteq> [0x7f, 0x45, 0x4c, 0x46]
     | Inl unsupported_type_of_ELF_file \<Rightarrow> 52 \<le> length f \<and> take 4 f = [0x7f, 0x45, 0x4c, 0x46] \<and> (\<forall>big. \<not> elf_order big f)
     | Inl unsupported_e_phentsize_value \<Rightarrow> 52 \<le> length f \<and> take 4 f = [0x7f, 0x45, 0x4c, 0x46] \<and>
         (\<exists>big. elf_order big f \<and> \<not> elf_entries big 4 f \<and> \<not> elf_entries big 8 f)
     | Inr (big, is64) \<Rightarrow> 52 \<le> length f \<and> take 4 f = [0x7f, 0x45, 0x4c, 0x46] \<and> elf_order big f \<and>
         elf_entries big (if is64 then 8 else 4) f \<and>
         (elf_entries big (if is64 then 4 else 8) f \<longrightarrow> is64 = (f ! 4 = 2)))"

lemma get_u16: "a + 2 \<le> length f \<Longrightarrow> get_at u16_codec (file_mem f) a = Some (field a f :: u16)"
  using get_at_file [of a u16_codec f] by (simp add: u16_codec_def field_take field_drop)

lemma u16_at:
  assumes "a + 2 \<le> length f" "n < 2 ^ 16"
  shows "esw big (field a f :: u16) = of_nat n \<longleftrightarrow> elf_nat big a 2 f = n"
proof -
  have "unat (of_nat n :: u16) = n" using assms(2) by (simp only: unat_of_nat) simp
  then show ?thesis using unat_esw_field [where 'a = 16, of a f big] assms(1)
    by (simp add: word_unat_eq_iff)
qed

lemma phentsize_fits_ok:
  assumes "40 + 3 * word_size TYPE('a::len) \<le> length f" "LENGTH('a) = 32 \<or> LENGTH('a) = 64"
  shows "phentsize_fits (file_mem f) big TYPE('a) = Some (elf_entries big (word_size TYPE('a)) f)"
proof -
  have "8 + 6 * word_size TYPE('a) < 2 ^ 16" using assms(2) by (auto simp: word_size_def)
  then show ?thesis
    using u16_at [of "30 + 3 * word_size TYPE('a)" f "8 + 6 * word_size TYPE('a)" big] assms(1)
      get_u16 [of "30 + 3 * word_size TYPE('a)" f]
    by (simp add: phentsize_fits_def elf_entries_def sizes del: of_nat_add of_nat_mult)
qed

lemma erw_validate_width_ok:
  assumes l: "52 \<le> length f" "length f < 2 ^ 64"
  shows "\<exists>r. erw_validate_width (file_mem f) (of_nat (length f)) big = Some r \<and>
    (case r of Inl e \<Rightarrow> e = unsupported_e_phentsize_value \<and> \<not> elf_entries big 4 f \<and> \<not> elf_entries big 8 f
     | Inr (b, is64) \<Rightarrow> b = big \<and> elf_entries big (if is64 then 8 else 4) f \<and>
         (elf_entries big (if is64 then 4 else 8) f \<longrightarrow> is64 = (f ! 4 = 2)))"
proof -
  have "unat (of_nat (length f) :: u64) = length f" using l by (simp add: unat_of_nat take_bit_nat_eq_self)
  then have s: "(of_nat (c_size (ehdr_codec :: 64 word ehdr codec)) \<le> (of_nat (length f) :: u64)) = (64 \<le> length f)"
    by (simp add: word_le_nat_alt sizes)
  have c: "file_mem f 4 = Some (f ! 4)" using l by (simp add: file_mem_def mem_write_apply)
  have p4: "phentsize_fits (file_mem f) big TYPE(32) = Some (elf_entries big 4 f)"
    using phentsize_fits_ok [where 'a = 32, of f big] l by simp
  have p8: "phentsize_fits (file_mem f) big TYPE(64) = Some (elf_entries big 8 f)" if "64 \<le> length f"
    using phentsize_fits_ok [where 'a = 64, of f big] that by simp
  have n8: "\<not> elf_entries big 8 f" if "\<not> 64 \<le> length f" using that by (simp add: elf_entries_def)
  show ?thesis
    unfolding erw_validate_width_def c s by (cases "64 \<le> length f") (auto simp: p4 p8 n8)
qed

lemma erw_validate_ok:
  assumes l: "length f < 2 ^ 64"
  shows "\<exists>r. erw_validate (file_mem f) (of_nat (length f)) = Some r \<and> validated f r"
proof -
  have "unat (of_nat (length f) :: u64) = length f" using l by (simp add: unat_of_nat take_bit_nat_eq_self)
  then have s: "((of_nat (length f) :: u64) < of_nat (c_size (ehdr_codec :: 32 word ehdr codec))) = (length f < 52)"
    by (simp add: word_less_nat_alt sizes)
  show ?thesis
  proof (cases "52 \<le> length f")
    case False
    then show ?thesis unfolding erw_validate_def s by (simp add: validated_def)
  next
    case True
    let ?t = "field 16 f :: u16"
    have i: "mem_read (file_mem f) 0 4 = Some (take 4 f)" "get_at u16_codec (file_mem f) 16 = Some ?t"
      using True file_mem_read [of 0 4 f] get_u16 [of 16 f] by simp_all
    have t: "(?t = 2 \<or> ?t = 3) = (elf_nat False 16 2 f \<in> {2, 3})" "(bswap ?t = 2 \<or> bswap ?t = 3) = (elf_nat True 16 2 f \<in> {2, 3})"
      using u16_at [of 16 f 2 False] u16_at [of 16 f 3 False] u16_at [of 16 f 2 True] u16_at [of 16 f 3 True] True
      by (simp_all add: esw_def)
    note w = erw_validate_width_ok [OF True l]
    have v: "erw_validate (file_mem f) (of_nat (length f)) =
      (if take 4 f \<noteq> [0x7f, 0x45, 0x4c, 0x46] then Some (Inl not_an_ELF_file)
       else if elf_nat False 16 2 f \<in> {2, 3} then erw_validate_width (file_mem f) (of_nat (length f)) False
       else if elf_nat True 16 2 f \<in> {2, 3} then erw_validate_width (file_mem f) (of_nat (length f)) True
       else Some (Inl unsupported_type_of_ELF_file))"
    proof -
      consider "?t = 2 \<or> ?t = 3" | "?t \<noteq> 2" "?t \<noteq> 3" "bswap ?t = 2 \<or> bswap ?t = 3"
        | "?t \<noteq> 2" "?t \<noteq> 3" "bswap ?t \<noteq> 2" "bswap ?t \<noteq> 3" by blast
      then show ?thesis unfolding erw_validate_def s t [symmetric] using True by cases (auto simp: i)
    qed
    have r: "validated f r" if "take 4 f = [0x7f, 0x45, 0x4c, 0x46]" "elf_order big f" "case r of Inl e \<Rightarrow> e = unsupported_e_phentsize_value \<and> \<not> elf_entries big 4 f \<and> \<not> elf_entries big 8 f
       | Inr (b, is64) \<Rightarrow> b = big \<and> elf_entries big (if is64 then 8 else 4) f \<and>
         (elf_entries big (if is64 then 4 else 8) f \<longrightarrow> is64 = (f ! 4 = 2))" for r big
      using that True by (auto simp: validated_def split: sum.splits)
    have wr: "\<exists>r. erw_validate_width (file_mem f) (of_nat (length f)) big = Some r \<and> validated f r"
      if "take 4 f = [0x7f, 0x45, 0x4c, 0x46]" "elf_order big f" for big
      using w [of big] r [OF that] by blast
    have o: "elf_nat False 16 2 f \<in> {2, 3} \<Longrightarrow> elf_order False f"
      "elf_nat False 16 2 f \<notin> {2, 3} \<Longrightarrow> elf_nat True 16 2 f \<in> {2, 3} \<Longrightarrow> elf_order True f"
      "elf_nat False 16 2 f \<notin> {2, 3} \<Longrightarrow> elf_nat True 16 2 f \<notin> {2, 3} \<Longrightarrow> \<not> elf_order big f" for big
      by (cases big; simp add: elf_order_def)+
    show ?thesis
    proof (cases "take 4 f = [0x7f, 0x45, 0x4c, 0x46]")
      case False
      then show ?thesis using True unfolding v by (simp add: validated_def)
    next
      case magic: True
      consider "elf_nat False 16 2 f \<in> {2, 3}" | "elf_nat False 16 2 f \<notin> {2, 3}" "elf_nat True 16 2 f \<in> {2, 3}"
        | "elf_nat False 16 2 f \<notin> {2, 3}" "elf_nat True 16 2 f \<notin> {2, 3}" by blast
      then show ?thesis
      proof cases
        case 1
        then show ?thesis using wr [OF magic o(1)] magic unfolding v by (simp only: if_True not_True_eq_False if_False simp_thms)
      next
        case 2
        then show ?thesis using wr [OF magic o(2)] magic unfolding v by (simp only: if_True not_True_eq_False if_False simp_thms)
      next
        case 3
        then show ?thesis using o(3) [OF 3] magic True unfolding v by (simp add: validated_def)
      qed
    qed
  qed
qed

subsection \<open>Properties\<close>

text \<open>
  C14: Opening an image never reads outside it, whatever its bytes are. It is rejected for the
  reason that holds of it: it is too short for a header, it is no ELF file, \<open>e_type\<close> is unsupported
  in either order of its bytes, or \<open>e_phentsize\<close> fits neither width. Otherwise the state has the order
  and the width that the header says, the bytes of the image, its machine and the page size, and
  its editor holds the program headers that stand from \<open>e_phoff\<close> on, as many as \<open>e_phnum\<close> (or the
  first section header) says and the file has.
\<close>

theorem erw_init_from_mem_correct:
  assumes len: "length mem < 2 ^ 64"
  shows "\<exists>r. erw_init_from_mem mem guest_page_size = Some r \<and>
    (case r of Inl err \<Rightarrow> validated mem (Inl err)
     | Inr (Erw32 erw) \<Rightarrow> validated mem (Inr (e_bswap erw, False)) \<and> opened erw mem guest_page_size
     | Inr (Erw64 erw) \<Rightarrow> validated mem (Inr (e_bswap erw, True)) \<and> opened erw mem guest_page_size)"
proof -
  obtain v where v: "erw_validate (file_mem mem) (of_nat (length mem)) = Some v" "validated mem v"
    using erw_validate_ok [OF len] by blast
  show ?thesis
  proof (cases v)
    case (Inl err)
    then show ?thesis using v by (simp add: erw_init_from_mem_def)
  next
    case (Inr k)
    obtain swap is64 where k: "k = (swap, is64)" by (cases k)
    have h: "52 \<le> length mem" "is64 \<Longrightarrow> 64 \<le> length mem"
      using v Inr k by (auto simp: validated_def elf_entries_def)
    show ?thesis
    proof (cases is64)
      case True
      obtain erw :: "64 word erw" where e: "phdrs_init (erw_opened mem guest_page_size swap) = Some erw"
        "opened erw mem guest_page_size" "e_bswap erw = swap"
        using phdrs_init_opened [where 'a = 64, OF _ len] h True by (auto simp: sizes)
      then have "erw_init_from_mem mem guest_page_size = Some (Inr (Erw64 erw))"
        using True Inr k v by (simp add: erw_init_from_mem_def)
      then show ?thesis using e v Inr k True by simp
    next
      case False
      obtain erw :: "32 word erw" where e: "phdrs_init (erw_opened mem guest_page_size swap) = Some erw"
        "opened erw mem guest_page_size" "e_bswap erw = swap"
        using phdrs_init_opened [where 'a = 32, OF _ len] h by (auto simp: sizes)
      then have "erw_init_from_mem mem guest_page_size = Some (Inr (Erw32 erw))"
        using False Inr k v by (simp add: erw_init_from_mem_def)
      then show ?thesis using e v Inr k False by simp
    qed
  qed
qed

text \<open>A 64-bit little-endian shared object with one program header, right behind its header.\<close>

definition elf_header :: "u8 list" where
  "elf_header = [0x7f, 0x45, 0x4c, 0x46, 2, 1, 1, 0, 0, 0, 0, 0, 0, 0, 0, 0, 3, 0, 62, 0, 1, 0, 0, 0,
     0, 0, 0, 0, 0, 0, 0, 0, 64, 0, 0, 0, 0, 0, 0, 0, 0, 0, 0, 0, 0, 0, 0, 0, 0, 0, 0, 0,
     64, 0, 56, 0, 1, 0, 64, 0, 0, 0, 0, 0]"

definition elf_segment :: "64 word phdr" where
  "elf_segment = \<lparr>p_type = PT_LOAD, p_flags = 5, p_offset = 0, p_vaddr = 0, p_paddr = 0,
     p_filesz = 120, p_memsz = 120, p_align = 0x1000\<rparr>"

definition elf_image :: "u8 list" where
  "elf_image = elf_header @ c_enc phdr_codec elf_segment"

lemma elf_image_facts:
  "length elf_image = 120" "take 4 elf_image = [0x7f, 0x45, 0x4c, 0x46]" "elf_nat False 18 2 elf_image = 62"
  "elf_order False elf_image" "\<not> elf_order True elf_image" "elf_entries False 8 elf_image" "\<not> elf_entries False 4 elf_image"
  "elf_nat False 32 8 elf_image = 64" "elf_phnum False 8 elf_image = 1"
proof -
  have c: "length (c_enc phdr_codec elf_segment) = 56" by (simp add: phdr_codec_def)
  have h: "length elf_header = 64" by (simp add: elf_header_def)
  with c show l: "length elf_image = 120" by (simp add: elf_image_def)
  have n: "elf_nat big off n elf_image = foldr (\<lambda>b v. unat b + 256 * v) (if big then rev (take n (drop off elf_header)) else take n (drop off elf_header)) 0"
    if "off + n \<le> 64" for big off n
    using that by (simp add: elf_nat_def Let_def elf_image_def h)
  show "take 4 elf_image = [0x7f, 0x45, 0x4c, 0x46]" by (simp add: elf_image_def elf_header_def)
  show "elf_nat False 18 2 elf_image = 62" "elf_order False elf_image" "\<not> elf_order True elf_image"
    "elf_nat False 32 8 elf_image = 64"
    by (simp_all add: elf_order_def n) (simp_all add: elf_header_def)
  have "elf_nat False 54 2 elf_image = 56" "elf_nat False 42 2 elf_image = 0" "elf_nat False 56 2 elf_image = 1"
      "elf_nat False 32 8 elf_image = 64"
    by (simp_all add: n) (simp_all add: elf_header_def)
  then show "elf_entries False 8 elf_image" "\<not> elf_entries False 4 elf_image" "elf_phnum False 8 elf_image = 1"
    by (simp_all add: elf_entries_def elf_phnum_def Let_def l)
qed

lemma elf_image_phdrs: "elf_phdrs False elf_image = [elf_segment]"
proof -
  have "take 56 (drop 64 elf_image) = c_enc phdr_codec elf_segment"
    by (simp add: elf_image_def elf_header_def phdr_codec_def)
  moreover have "c_dec phdr_codec (c_enc phdr_codec elf_segment) = elf_segment"
    using codecs_ok(2) by (simp add: codec_ok_def)
  ultimately show ?thesis using elf_image_facts by (simp add: elf_phdrs_def Let_def)
qed

lemma elf_image_validated: "validated elf_image r \<longleftrightarrow> r = Inr (False, True)"
proof -
  note v = elf_image_facts
  have "4 < length elf_image" using v by simp
  then have c: "elf_image ! 4 = 2" by (simp add: elf_image_def elf_header_def)
  show ?thesis
  proof (cases r)
    case (Inl e)
    have "elf_order b elf_image \<Longrightarrow> elf_entries b 8 elf_image" for b using v by (cases b) auto
    then show ?thesis using Inl v by (cases e) (auto simp: validated_def)
  next
    case (Inr k)
    obtain b i where k: "k = (b, i)" by (cases k)
    show ?thesis using v c Inr k by (cases b; cases i; simp add: validated_def)
  qed
qed

lemma erw_init_from_mem_correct_witness:
  "\<exists>erw. erw_init_from_mem elf_image 0 = Some (Inr (Erw64 erw)) \<and> \<not> e_bswap erw \<and> e_machine erw = 62 \<and>
    e_guest_page_size erw = 0x1000 \<and> phdrs_are erw [elf_segment]"
proof -
  note v = elf_image_facts
  have "length elf_image < 2 ^ 64" using v by simp
  from erw_init_from_mem_correct [OF this, of 0]
  obtain r where r: "erw_init_from_mem elf_image 0 = Some r" "case r of Inl err \<Rightarrow> validated elf_image (Inl err)
     | Inr (Erw32 erw) \<Rightarrow> validated elf_image (Inr (e_bswap erw, False)) \<and> opened erw elf_image 0
     | Inr (Erw64 erw) \<Rightarrow> validated elf_image (Inr (e_bswap erw, True)) \<and> opened erw elf_image 0"
    by blast
  show ?thesis
  proof (cases r)
    case (Inl e)
    then show ?thesis using r(2) by (simp add: elf_image_validated)
  next
    case (Inr a)
    show ?thesis
    proof (cases a)
      case (Erw32 erw)
      then show ?thesis using r(2) Inr by (simp add: elf_image_validated)
    next
      case (Erw64 erw)
      then have o: "opened erw elf_image 0" "\<not> e_bswap erw" using r(2) Inr by (simp_all add: elf_image_validated)
      have "unat (e_machine erw) = 62" using o v by (simp add: opened_def Let_def)
      then have m: "e_machine erw = 62" using word_unat_eq_iff [of "e_machine erw" 62] by simp
      then show ?thesis using o r(1) Inr Erw64 elf_image_phdrs by (simp add: opened_def Let_def default_page_size_def)
    qed
  qed
qed


end
