(* ===== verification/Dhdrs.thy ===== *)
theory Dhdrs
  imports Phdrs
begin

section \<open>erw_nne.h: the editor of the dynamic section\<close>

text \<open>
  The entries of \<open>PT_DYNAMIC\<close>: where they are found, how they are looked up, set, added and
  removed, and how they are written back. The operations on strings are in the theories that
  follow. \<open>dhdrs_ready\<close> is the initialisation on first use.
\<close>

definition dyn_size :: "'a::len itself \<Rightarrow> nat" where
  "dyn_size _ = c_size (dyn_codec :: 'a word dyn codec)"

definition dyn_zero :: "'a::len word dyn" where
  "dyn_zero = \<lparr>d_tag = 0, d_val = 0\<rparr>"

definition dyn_get :: "'a::len word erw \<Rightarrow> nat \<Rightarrow> 'a word dyn option" where
  "dyn_get erw i = ed_get dyn_codec (e_f erw) (e_dhdrs erw) i"

definition dyn_put :: "'a::len word erw \<Rightarrow> nat \<Rightarrow> 'a word dyn \<Rightarrow> 'a word erw option" where
  "dyn_put erw i d = map_option (\<lambda>(f, ed). erw\<lparr>e_f := f, e_dhdrs := ed\<rparr>) (ed_put dyn_codec (e_f erw, e_dhdrs erw) i d)"

definition dyn_count :: "'a::len word erw \<Rightarrow> nat" where
  "dyn_count erw = unat (ed_count (e_dhdrs erw))"

definition dyn_list :: "'a::len word erw \<Rightarrow> 'a word dyn list option" where
  "dyn_list erw = ed_list dyn_codec (e_f erw) (e_dhdrs erw)"

subsection \<open>Initialisation\<close>

definition structs_of :: "'e codec \<Rightarrow> nat \<Rightarrow> u8 list \<Rightarrow> 'e list" where
  "structs_of c n bs = map (\<lambda>i. c_dec c (take (c_size c) (drop (i * c_size c) bs))) [0..<n]"

text \<open>Entries after the first span of \<open>DT_NULL\<close> are ignored.\<close>

definition effective_count :: "'a::len word dyn list \<Rightarrow> nat" where
  "effective_count es =
    (let i = length (takeWhile (\<lambda>d. d_tag d \<noteq> DT_NULL) es)
     in i + length (takeWhile (\<lambda>d. d_tag d = DT_NULL) (drop i es)))"

definition dhdrs_init :: "'a::len word erw \<Rightarrow> 'a word erw option" where
  "dhdrs_init erw = do {
     ps \<leftarrow> phdr_list erw;
     let bs = e_bswap erw;
     let sz = (of_nat (dyn_size TYPE('a)) :: u64);
     case find (\<lambda>p. esw bs (p_type p) = PT_DYNAMIC) (rev ps) of
       Some found \<Rightarrow>
         if p_filesz found \<noteq> 0 \<and> ucast (esw bs (p_memsz found)) \<ge> sz then do {
           let count = (ucast (ucast (esw bs (p_memsz found)) div sz) :: u32);
           let addr = (ucast (esw bs (p_vaddr found)) :: u64);
           let v2f = v2f_at (e_v2f erw) addr;
           ed \<leftarrow> (if \<not> v2f_special v2f \<and> v2f_next (e_v2f erw) addr - addr \<ge> ucast count * sz
             then Some \<lparr>ed_live = True, ed_at = unat (addr + v2f), ed_heap = [], ed_count = count, ed_capacity = 0\<rparr>
             else map_option (\<lambda>(bytes, _). \<lparr>ed_live = True, ed_at = 0,
                 ed_heap = map Some (structs_of dyn_codec (unat count) bytes), ed_count = count, ed_capacity = count\<rparr>)
               (materialise_v_range_to erw addr (ucast count * sz)));
           es \<leftarrow> ed_list dyn_codec (e_f erw) ed;
           Some (erw\<lparr>e_dhdrs := ed\<lparr>ed_count := of_nat (effective_count es)\<rparr>\<rparr>) }
         else Some (erw\<lparr>e_dhdrs := editor_none\<lparr>ed_live := True\<rparr>\<rparr>)
     | None \<Rightarrow> Some (erw\<lparr>e_dhdrs := editor_none\<lparr>ed_live := True\<rparr>\<rparr>) }"

definition dhdrs_ready :: "'a::len word erw \<Rightarrow> 'a word erw option" where
  "dhdrs_ready erw = (if ed_live (e_dhdrs erw) then Some erw else dhdrs_init erw)"

subsection \<open>Removing\<close>

definition dhdrs_remove :: "'a::len word erw \<Rightarrow> 'a word \<Rightarrow> 'a word erw option" where
  "dhdrs_remove erw tag =
    (let tag = esw (e_bswap erw) tag
     in each (\<lambda>i erw. do {
          itr \<leftarrow> dyn_get erw i;
          if d_tag itr = tag then dyn_put (set_modified ERW_MODIFIED_DHDRS erw) i dyn_zero else Some erw })
        [0..<dyn_count erw] erw)"

definition dhdrs_remove_mask :: "'a::len word erw \<Rightarrow> u64 \<Rightarrow> 'a word erw option" where
  "dhdrs_remove_mask erw tags =
    each (\<lambda>i erw. do {
        itr \<leftarrow> dyn_get erw i;
        let tag = (ucast (esw (e_bswap erw) (d_tag itr)) :: u64);
        if tag \<le> 63 \<and> tags AND push_bit (unat tag) 1 \<noteq> 0 then dyn_put (set_modified ERW_MODIFIED_DHDRS erw) i dyn_zero
        else Some erw })
      [0..<dyn_count erw] erw"

subsection \<open>Looking up\<close>

definition dhdrs_find_value :: "'a::len word erw \<Rightarrow> 'a word \<Rightarrow> 'a word option" where
  "dhdrs_find_value erw tag = do {
     es \<leftarrow> dyn_list erw;
     Some (case find (\<lambda>d. d_tag d = esw (e_bswap erw) tag) (rev es) of
       Some d \<Rightarrow> esw (e_bswap erw) (d_val d) | None \<Rightarrow> 0) }"

definition dhdrs_has :: "'a::len word erw \<Rightarrow> 'a word \<Rightarrow> u64 option option" where
  "dhdrs_has erw tag = do {
     es \<leftarrow> dyn_list erw;
     Some (map_option (\<lambda>d. ucast (esw (e_bswap erw) (d_val d))) (find (\<lambda>d. d_tag d = esw (e_bswap erw) tag) es)) }"

text \<open>The flags of \<open>DT_FLAGS\<close>, of \<open>DT_FLAGS_1\<close>, and those of the older entries without a value.\<close>

definition flags_step :: "bool \<Rightarrow> 'a::len word dyn \<Rightarrow> u32 \<times> u32 \<times> u32 \<Rightarrow> u32 \<times> u32 \<times> u32" where
  "flags_step bs d s = (case s of (dt_flags, dt_1_flags, legacy_flags) \<Rightarrow>
     let tag = esw bs (d_tag d); val = ucast (esw bs (d_val d)) in
     if tag = DT_FLAGS then (val, dt_1_flags, legacy_flags)
     else if tag = DT_FLAGS_1 then (dt_flags, val, legacy_flags)
     else if tag = DT_SYMBOLIC then (dt_flags, dt_1_flags, legacy_flags OR DF_SYMBOLIC)
     else if tag = DT_TEXTREL then (dt_flags, dt_1_flags, legacy_flags OR DF_TEXTREL)
     else if tag = DT_BIND_NOW then (dt_flags, dt_1_flags, legacy_flags OR DF_BIND_NOW)
     else s)"

definition dhdrs_get_flags :: "'a::len word erw \<Rightarrow> u64 option" where
  "dhdrs_get_flags erw = do {
     es \<leftarrow> dyn_list erw;
     let (dt_flags, dt_1_flags, legacy_flags) = fold (flags_step (e_bswap erw)) es (0, 0, 0);
     Some (ucast (dt_flags OR legacy_flags) OR push_bit 32 (ucast dt_1_flags)) }"

subsection \<open>Adding and setting\<close>

definition dhdrs_grow :: "'a::len word erw \<Rightarrow> 'a word erw option" where
  "dhdrs_grow erw = map_option (\<lambda>ed. erw\<lparr>e_dhdrs := ed\<rparr>) (ed_grow dyn_codec (e_f erw) (e_dhdrs erw))"

definition dhdrs_count_inc :: "'a::len word erw \<Rightarrow> 'a word erw" where
  "dhdrs_count_inc erw = erw\<lparr>e_dhdrs := (e_dhdrs erw)\<lparr>ed_count := ed_count (e_dhdrs erw) + 1\<rparr>\<rparr>"

text \<open>A new entry at the end, in a grown array when there is no room.\<close>

definition dhdrs_append :: "'a::len word erw \<Rightarrow> 'a word dyn \<Rightarrow> 'a word erw option" where
  "dhdrs_append erw d = do {
     erw \<leftarrow> (if ed_count (e_dhdrs erw) \<ge> ed_capacity (e_dhdrs erw) then dhdrs_grow erw else Some erw);
     dyn_put (dhdrs_count_inc erw) (dyn_count erw) d }"

text \<open>An entry in the place of an unused one, or at the end.\<close>

definition dhdrs_fill :: "'a::len word erw \<Rightarrow> nat option \<Rightarrow> 'a word dyn \<Rightarrow> 'a word erw option" where
  "dhdrs_fill erw nul d = (case nul of Some i \<Rightarrow> dyn_put erw i d | None \<Rightarrow> dhdrs_append erw d)"

record 'w set_loop =
  sl_erw :: "'w erw"
  sl_nul :: "nat option"
  sl_any :: bool
  sl_modified :: bool

definition set_u_step :: "'a::len word \<Rightarrow> 'a word \<Rightarrow> nat \<Rightarrow> 'a word set_loop \<Rightarrow> 'a word set_loop option" where
  "set_u_step tag value i s = do {
     itr \<leftarrow> dyn_get (sl_erw s) i;
     if d_tag itr = tag then
       (if d_val itr \<noteq> value then do {
          erw \<leftarrow> dyn_put (sl_erw s) i (itr\<lparr>d_val := value\<rparr>);
          Some (s\<lparr>sl_erw := erw, sl_any := True, sl_modified := True\<rparr>) }
        else Some (s\<lparr>sl_any := True\<rparr>))
     else if d_tag itr = DT_NULL then Some (s\<lparr>sl_nul := Some i\<rparr>)
     else Some s }"

definition dhdrs_set_u :: "'a::len word erw \<Rightarrow> 'a word \<Rightarrow> 'a word \<Rightarrow> 'a word erw option" where
  "dhdrs_set_u erw tag value = do {
     let tag = esw (e_bswap erw) tag;
     let value = esw (e_bswap erw) value;
     s \<leftarrow> each (set_u_step tag value) (rev [0..<dyn_count erw])
       \<lparr>sl_erw = erw, sl_nul = None, sl_any = False, sl_modified = False\<rparr>;
     erw \<leftarrow> (if sl_any s then Some (sl_erw s) else dhdrs_fill (sl_erw s) (sl_nul s) \<lparr>d_tag = tag, d_val = value\<rparr>);
     Some (if sl_modified s \<or> \<not> sl_any s then set_modified ERW_MODIFIED_DHDRS erw else erw) }"

definition dhdrs_add_remove_flags :: "'a::len word erw \<Rightarrow> 'a word \<Rightarrow> u32 \<Rightarrow> u32 \<Rightarrow> 'a word erw option" where
  "dhdrs_add_remove_flags erw tag add rem = do {
     es \<leftarrow> dyn_list erw;
     let bs = e_bswap erw;
     let tag = esw bs tag;
     case find (\<lambda>i. d_tag (es ! i) = tag) (rev [0..<length es]) of
       Some i \<Rightarrow>
        (let val0 = esw bs (d_val (es ! i));
             val = (val0 OR ucast add) AND NOT (ucast rem)
         in if val \<noteq> val0 then do {
              erw \<leftarrow> dyn_put erw i ((es ! i)\<lparr>d_val := esw bs val\<rparr>);
              let erw = set_modified ERW_MODIFIED_DHDRS erw;
              if val = 0 then do {
                erw \<leftarrow> dyn_put erw i \<lparr>d_tag = DT_NULL, d_val = esw bs val\<rparr>;
                each (\<lambda>j erw. do {
                    itr \<leftarrow> dyn_get erw j;
                    if d_tag itr = tag then dyn_put erw j dyn_zero else Some erw })
                  (rev [0..<i]) erw }
              else Some erw }
            else Some erw)
     | None \<Rightarrow>
         if add \<noteq> 0 then
           dhdrs_fill (set_modified ERW_MODIFIED_DHDRS erw) (find (\<lambda>i. d_tag (es ! i) = DT_NULL) [0..<length es])
             \<lparr>d_tag = tag, d_val = esw bs (ucast add)\<rparr>
         else Some erw }"

definition dhdrs_add_early_u :: "'a::len word erw \<Rightarrow> 'a word \<Rightarrow> 'a word \<Rightarrow> 'a word erw option" where
  "dhdrs_add_early_u erw tag value = do {
     erw \<leftarrow> (if ed_count (e_dhdrs erw) \<ge> ed_capacity (e_dhdrs erw) then dhdrs_grow erw else Some erw);
     (f, ed) \<leftarrow> ed_move dyn_codec (e_f erw, e_dhdrs erw) 1 0 (dyn_count erw);
     erw \<leftarrow> dyn_put (dhdrs_count_inc (erw\<lparr>e_f := f, e_dhdrs := ed\<rparr>)) 0
       \<lparr>d_tag = esw (e_bswap erw) tag, d_val = esw (e_bswap erw) value\<rparr>;
     Some (set_modified ERW_MODIFIED_DHDRS erw) }"

definition dhdrs_add_late_u :: "'a::len word erw \<Rightarrow> 'a word \<Rightarrow> 'a word \<Rightarrow> 'a word erw option" where
  "dhdrs_add_late_u erw tag value =
    map_option (set_modified ERW_MODIFIED_DHDRS)
      (dhdrs_append erw \<lparr>d_tag = esw (e_bswap erw) tag, d_val = esw (e_bswap erw) value\<rparr>)"

definition seen_tags :: "bool \<Rightarrow> 'a::len word dyn list \<Rightarrow> u32" where
  "seen_tags bs es = fold (\<lambda>d seen. let tag = ucast (esw bs (d_tag d)) :: u64 in
     if tag \<le> 31 then seen OR push_bit (unat tag) 1 else seen) es 0"

definition dhdrs_ensure_minimal :: "'a::len word erw \<Rightarrow> 'a word erw option" where
  "dhdrs_ensure_minimal erw = do {
     es \<leftarrow> dyn_list erw;
     let seen = seen_tags (e_bswap erw) es;
     erw \<leftarrow> (if seen AND push_bit (unat (DT_STRTAB :: u32)) 1 = 0 then do {
         let (erw, v) = erw_alloc erw erw_alloc_category_v_r 1 1;
         erw \<leftarrow> dhdrs_set_u erw DT_STRTAB (ucast v);
         dhdrs_set_u erw DT_STRSZ 1 } else Some erw);
     if seen AND push_bit (unat (DT_SYMTAB :: u32)) 1 = 0 then do {
         let (erw, v) = erw_alloc erw erw_alloc_category_v_r (of_nat (word_size TYPE('a))) (of_nat (c_size (sym_codec :: 'a word sym codec)));
         dhdrs_set_u erw DT_SYMTAB (ucast v) } else Some erw }"

subsection \<open>Writing the entries back\<close>

text \<open>
  \<open>fixup_nulls\<close>: the entries that are left move to the front, exactly one \<open>DT_NULL\<close> follows,
  or, in place, \<open>DT_NULL\<close> up to the end.
\<close>

definition compact_step :: "nat \<Rightarrow> 'a::len word erw \<times> nat \<Rightarrow> ('a word erw \<times> nat) option" where
  "compact_step i s = (case s of (erw, out) \<Rightarrow> do {
     d \<leftarrow> dyn_get erw i;
     if d_tag d \<noteq> DT_NULL then do { erw \<leftarrow> dyn_put erw out d; Some (erw, out + 1) } else Some (erw, out) })"

definition set_dyn_count :: "nat \<Rightarrow> 'a::len word erw \<Rightarrow> 'a word erw" where
  "set_dyn_count n erw = erw\<lparr>e_dhdrs := (e_dhdrs erw)\<lparr>ed_count := of_nat n\<rparr>\<rparr>"

definition dhdrs_fixup_nulls :: "'a::len word erw \<Rightarrow> 'a word erw option" where
  "dhdrs_fixup_nulls erw = do {
     (erw, out) \<leftarrow> each compact_step [0..<dyn_count erw] (erw, 0);
     let ed = e_dhdrs erw;
     erw \<leftarrow> (if out \<ge> unat (if ed_capacity ed \<noteq> 0 then ed_capacity ed else ed_count ed)
       then dhdrs_grow (set_dyn_count out erw) else Some erw);
     if ed_capacity (e_dhdrs erw) \<noteq> 0 then do {
       erw \<leftarrow> dyn_put erw out dyn_zero;
       Some (set_dyn_count (out + 1) erw) }
     else each (\<lambda>i erw. dyn_put erw i dyn_zero) [out..<dyn_count erw] erw }"

text \<open>One \<open>PT_DYNAMIC\<close> header at index \<open>i\<close> is pointed to the new entries, unless another pass is needed.\<close>

definition dynamic_phdr :: "u64 \<Rightarrow> u64 \<Rightarrow> u64 \<Rightarrow> nat \<Rightarrow> 'a::len word erw \<times> bool \<Rightarrow> ('a word erw \<times> bool) option" where
  "dynamic_phdr v f nb i s = (case s of (erw, any_dyn) \<Rightarrow>
     if e_retry erw then Some (erw, True)
     else do {
       let bs = e_bswap erw;
       let va = esw bs (ucast v);
       let itr = (phdr_slot erw i)\<lparr>p_offset := esw bs (ucast f), p_vaddr := va, p_paddr := va, p_filesz := esw bs (ucast nb),
         p_memsz := esw bs (ucast nb), p_flags := esw bs (PF_R OR PF_W), p_align := esw bs (of_nat (word_size TYPE('a)))\<rparr>;
       erw \<leftarrow> phdr_put erw i itr;
       erw \<leftarrow> (if \<not> any_dyn then map_option fst (shdr_update_from_phdr erw (bytes_of ''.dynamic'') SHT_DYNAMIC itr) else Some erw);
       Some (erw, True) })"

definition dhdrs_flush :: "'a::len word erw \<Rightarrow> 'a word erw option" where
  "dhdrs_flush erw = do {
     let nb = (of_nat (dyn_count erw * dyn_size TYPE('a)) :: u64);
     let (erw, v) = erw_alloc erw erw_alloc_category_v_rw (of_nat (word_size TYPE('a))) nb;
     let f = v + v2f_at (e_v2f erw) v;
     (erw, any_dyn) \<leftarrow> each (\<lambda>i s. do {
         itr \<leftarrow> phdr_get (fst s) i;
         if esw (e_bswap (fst s)) (p_type itr) = PT_DYNAMIC then dynamic_phdr v f nb i s else Some s })
       [0..<phdr_count erw] (erw, False);
     erw \<leftarrow> (if \<not> any_dyn then do {
         (erw, i) \<leftarrow> phdrs_alloc erw;
         erw \<leftarrow> phdr_put erw i ((phdr_slot erw i)\<lparr>p_type := esw (e_bswap erw) PT_DYNAMIC\<rparr>);
         map_option fst (dynamic_phdr v f nb i (erw, False)) }
       else Some erw);
     if e_retry erw then Some erw
     else do {
       es \<leftarrow> dyn_list erw;
       f' \<leftarrow> mem_store (e_f erw) (unat f) (concat (map (c_enc dyn_codec) es));
       Some (erw\<lparr>e_f := f', e_dhdrs := (e_dhdrs erw)\<lparr>ed_at := unat f, ed_heap := [], ed_capacity := 0\<rparr>\<rparr>) } }"

end
