(* ===== verification/DhdrOps.thy ===== *)
theory DhdrOps
  imports Dhdrs
begin

section \<open>The dynamic section: lookups after edits\<close>

text \<open>
  The editor of the dynamic section as a list of entries, and what setting a value, setting
  flags, removing entries and tidying up the \<open>DT_NULL\<close> entries do to the lookups.
\<close>

subsection \<open>The editor holds a list of entries\<close>

definition dyns_are :: "'a::len word erw \<Rightarrow> 'a word dyn list \<Rightarrow> bool" where
  "dyns_are erw es \<longleftrightarrow> ed_ok dyn_codec (e_f erw) (e_dhdrs erw) es"

lemma dyn_list_ok: "dyns_are erw es \<Longrightarrow> dyn_list erw = Some es"
  unfolding dyns_are_def dyn_list_def by (rule ed_ok_list)

lemma dyn_count_ok: "dyns_are erw es \<Longrightarrow> dyn_count erw = length es"
  by (simp add: dyns_are_def dyn_count_def ed_ok_def)

lemma dyn_get_ok: "dyns_are erw es \<Longrightarrow> i < length es \<Longrightarrow> dyn_get erw i = Some (es ! i)"
  by (simp add: dyns_are_def dyn_get_def ed_ok_def)

lemma dyns_are_modified [simp]: "dyns_are (set_modified bits erw) es = dyns_are erw es"
  by (simp add: dyns_are_def set_modified_def)

definition dyns_edit :: "'a::len word erw \<Rightarrow> 'a word erw \<Rightarrow> bool" where
  "dyns_edit erw erw' \<longleftrightarrow> erw' = erw\<lparr>e_f := e_f erw', e_dhdrs := e_dhdrs erw', e_modified := e_modified erw'\<rparr>"

lemma dyns_edit_refl [simp]: "dyns_edit erw erw"
  by (simp add: dyns_edit_def)

lemma dyns_edit_trans [trans]: "dyns_edit a b \<Longrightarrow> dyns_edit b c \<Longrightarrow> dyns_edit a c"
  unfolding dyns_edit_def by (cases a; cases b; cases c) simp

lemma dyns_edit_modified [simp]: "dyns_edit erw (set_modified bits erw)"
  by (simp add: dyns_edit_def set_modified_def)

lemma dyns_edit_modified_r [simp]: "dyns_edit a erw \<Longrightarrow> dyns_edit a (set_modified bits erw)"
  using dyns_edit_trans dyns_edit_modified by blast

lemma dyns_edit_bswap: "dyns_edit erw erw' \<Longrightarrow> e_bswap erw' = e_bswap erw"
  unfolding dyns_edit_def by (cases erw; cases erw') simp

lemma dyn_put_ok:
  assumes "dyns_are erw es" "i < length es"
  shows "\<exists>erw'. dyn_put erw i d = Some erw' \<and> dyns_are erw' (es[i := d]) \<and> dyns_edit erw erw'"
  using dyn.put_ok [OF assms [unfolded dyns_are_def], of d]
  by (fastforce simp: dyn_put_def dyns_are_def dyns_edit_def)

lemma dhdrs_append_ok:
  assumes ok: "dyns_are erw es" and lim: "length es < 2 ^ 30"
  shows "\<exists>erw'. dhdrs_append erw d = Some erw' \<and> dyns_are erw' (es @ [d]) \<and> dyns_edit erw erw'"
proof -
  have n: "unat (ed_count (e_dhdrs erw)) = length es" using ok by (simp add: dyns_are_def ed_ok_def)
  obtain ed where ed: "(if ed_count (e_dhdrs erw) \<ge> ed_capacity (e_dhdrs erw) then ed_grow dyn_codec (e_f erw) (e_dhdrs erw)
      else Some (e_dhdrs erw)) = Some ed" "ed_ok dyn_codec (e_f erw) ed es" "ed_count ed = ed_count (e_dhdrs erw)" "owns ed"
      "length es < length (ed_heap ed)"
    using dyn.room_ok [OF ok [unfolded dyns_are_def]] lim n by auto
  let ?e = "erw\<lparr>e_dhdrs := ed\<rparr>"
  have g: "(if ed_count (e_dhdrs erw) \<ge> ed_capacity (e_dhdrs erw) then dhdrs_grow erw else Some erw) = Some ?e"
    using ed(1) by (auto simp: dhdrs_grow_def split: if_splits)
  obtain ed' where ed': "ed_put dyn_codec (e_f erw, ed\<lparr>ed_count := ed_count ed + 1\<rparr>) (length es) d = Some (e_f erw, ed')"
    "ed_ok dyn_codec (e_f erw) ed' (es @ [d])"
    using dyn.append_owned [OF ed(2,4,5), of d] n lim ed(3) by auto
  have "dhdrs_append erw d = Some (erw\<lparr>e_dhdrs := ed'\<rparr>)"
    using ed'(1) n ed(3) unfolding dhdrs_append_def g by (simp add: dyn_put_def dhdrs_count_inc_def dyn_count_def)
  then show ?thesis using ed'(2) by (auto simp: dyns_are_def dyns_edit_def)
qed

lemma each_downto:
  assumes "I n s" and "\<And>i s. i < n \<Longrightarrow> I (Suc i) s \<Longrightarrow> \<exists>s'. g i s = Some s' \<and> I i s'"
  shows "\<exists>s'. each g (rev [0..<n]) s = Some s' \<and> I 0 s'"
  using assms
proof (induction n arbitrary: s)
  case 0
  then show ?case by simp
next
  case (Suc n)
  obtain s' where s': "g n s = Some s'" "I n s'" using Suc.prems by blast
  show ?case using Suc.IH [OF s'(2)] Suc.prems(2) s'(1) by simp
qed

subsection \<open>Lists of entries as maps\<close>

text \<open>The value of a tag is that of its last entry, or zero; tags and values are as in the file.\<close>

definition value_of :: "'a::len word dyn list \<Rightarrow> 'a word \<Rightarrow> 'a word" where
  "value_of es tag = (case find (\<lambda>d. d_tag d = tag) (rev es) of Some d \<Rightarrow> d_val d | None \<Rightarrow> 0)"

lemma find_value_eq: "dyns_are erw es \<Longrightarrow> dhdrs_find_value erw tag = Some (esw (e_bswap erw) (value_of es (esw (e_bswap erw) tag)))"
  by (auto simp: dhdrs_find_value_def dyn_list_ok value_of_def split: option.splits)

lemma value_of_Nil [simp]: "value_of [] tag = 0"
  by (simp add: value_of_def)

lemma value_of_snoc [simp]: "value_of (es @ [d]) tag = (if d_tag d = tag then d_val d else value_of es tag)"
  by (simp add: value_of_def)

lemma value_of_one [simp]: "value_of [d] tag = (if d_tag d = tag then d_val d else 0)"
  by (simp add: value_of_def)

lemma find_append: "find P (xs @ ys) = (case find P xs of None \<Rightarrow> find P ys | Some x \<Rightarrow> Some x)"
  by (induction xs) auto

lemma value_of_append: "value_of (es @ fs) tag = (if \<exists>d \<in> set fs. d_tag d = tag then value_of fs tag else value_of es tag)"
proof (cases "find (\<lambda>d. d_tag d = tag) (rev fs)")
  case None
  then have "\<not> (\<exists>d \<in> set fs. d_tag d = tag)" by (auto simp: find_None_iff)
  then show ?thesis using None by (simp add: value_of_def find_append)
next
  case (Some d)
  then have "d \<in> set fs" "d_tag d = tag" by (auto simp: find_Some_iff) (metis nth_mem set_rev length_rev)
  then show ?thesis using Some by (auto simp: value_of_def find_append)
qed

text \<open>Entries with the tag are given the value, the others are as they were.\<close>

definition set_entry_val :: "'a::len word \<Rightarrow> 'a word \<Rightarrow> 'a word dyn \<Rightarrow> 'a word dyn" where
  "set_entry_val tag value d = (if d_tag d = tag then d\<lparr>d_val := value\<rparr> else d)"

lemma tag_set_entry_val [simp]: "d_tag (set_entry_val tag value d) = d_tag d"
  by (simp add: set_entry_val_def)

lemma value_of_set: "value_of (map (set_entry_val tag value) es) t =
    (if t = tag then (if \<exists>d \<in> set es. d_tag d = tag then value else 0) else value_of es t)"
  by (induction es rule: rev_induct) (auto simp: set_entry_val_def)

lemma value_of_update:
  assumes "i < length es" "d_tag (es ! i) = DT_NULL" "t \<noteq> DT_NULL" "d_tag d \<noteq> t"
  shows "value_of (es[i := d]) t = value_of es t"
proof -
  obtain as bs where e: "es = as @ es ! i # bs" "es[i := d] = as @ d # bs"
    using assms(1) by (metis id_take_nth_drop upd_conv_take_nth_drop)
  have v: "value_of (as @ x # bs) t = value_of (as @ bs) t" if "d_tag x \<noteq> t" for x
    using that value_of_append [of "as @ [x]" bs t] value_of_append [of as bs t] by simp
  show ?thesis using v [of d] v [of "es ! i"] e assms(2-4) by metis
qed

lemma value_of_update_new:
  assumes "i < length es" "\<forall>e \<in> set es. d_tag e \<noteq> d_tag d"
  shows "value_of (es[i := d]) (d_tag d) = d_val d"
proof -
  have e: "es[i := d] = take i es @ [d] @ drop (Suc i) es" using assms(1) by (simp add: upd_conv_take_nth_drop)
  show ?thesis unfolding e value_of_append using assms(2) by (auto simp: value_of_def dest: in_set_dropD)
qed

text \<open>Where a new entry goes: the place of the first \<open>DT_NULL\<close>, or the end.\<close>

definition add_dyn :: "'a::len word dyn \<Rightarrow> 'a word dyn list \<Rightarrow> 'a word dyn list" where
  "add_dyn d es = (case find (\<lambda>i. d_tag (es ! i) = DT_NULL) [0..<length es] of Some i \<Rightarrow> es[i := d] | None \<Rightarrow> es @ [d])"

lemma value_of_add:
  assumes "\<forall>e \<in> set es. d_tag e \<noteq> d_tag d" "t \<noteq> DT_NULL"
  shows "value_of (add_dyn d es) t = (if t = d_tag d then d_val d else value_of es t)"
proof (cases "find (\<lambda>i. d_tag (es ! i) = DT_NULL) [0..<length es]")
  case None
  then show ?thesis by (simp add: add_dyn_def)
next
  case (Some i)
  then have i: "i < length es" "d_tag (es ! i) = DT_NULL" by (auto dest: find_index)
  then show ?thesis
    using Some value_of_update [OF i assms(2), of d] value_of_update_new [OF i(1) assms(1)] by (auto simp: add_dyn_def)
qed

lemma dhdrs_fill_ok:
  assumes ok: "dyns_are erw es" and lim: "length es < 2 ^ 30"
  shows "\<exists>erw'. dhdrs_fill erw (find (\<lambda>i. d_tag (es ! i) = DT_NULL) [0..<length es]) d = Some erw' \<and>
    dyns_are erw' (add_dyn d es) \<and> dyns_edit erw erw'"
proof (cases "find (\<lambda>i. d_tag (es ! i) = DT_NULL) [0..<length es]")
  case None
  then show ?thesis using dhdrs_append_ok [OF ok lim, of d] by (simp add: dhdrs_fill_def add_dyn_def)
next
  case (Some i)
  then have "i < length es" by (auto dest: find_index)
  then show ?thesis using Some dyn_put_ok [OF ok, of i d] by (simp add: dhdrs_fill_def add_dyn_def)
qed

subsection \<open>Setting a value\<close>

lemma find_from: "i < n \<Longrightarrow> find P [i..<n] = (if P i then Some i else find P [Suc i..<n])"
  by (simp add: upt_conv_Cons)

lemma set_u_loop:
  fixes erw :: "'a::len word erw"
  assumes ok: "dyns_are erw es" and tag: "tag \<noteq> DT_NULL"
  shows "\<exists>s. each (set_u_step tag value) (rev [0..<length es]) \<lparr>sl_erw = erw, sl_nul = None, sl_any = False, sl_modified = False\<rparr> = Some s \<and>
    dyns_are (sl_erw s) (map (set_entry_val tag value) es) \<and> dyns_edit erw (sl_erw s) \<and>
    sl_any s = (\<exists>d \<in> set es. d_tag d = tag) \<and>
    sl_nul s = find (\<lambda>i. d_tag (es ! i) = DT_NULL) [0..<length es]"
proof -
  let ?g = "set_entry_val tag value"
  let ?I = "\<lambda>k s. dyns_are (sl_erw s) (take k es @ map ?g (drop k es)) \<and> dyns_edit erw (sl_erw s) \<and>
    sl_any s = (\<exists>d \<in> set (drop k es). d_tag d = tag) \<and>
    sl_nul s = find (\<lambda>i. d_tag (es ! i) = DT_NULL) [k..<length es]"
  have "\<exists>s. each (set_u_step tag value) (rev [0..<length es]) \<lparr>sl_erw = erw, sl_nul = None, sl_any = False, sl_modified = False\<rparr> = Some s \<and> ?I 0 s"
  proof (rule each_downto [where I = ?I])
    show "?I (length es) \<lparr>sl_erw = erw, sl_nul = None, sl_any = False, sl_modified = False\<rparr>" using ok by simp
  next
    fix i and s :: "'a word set_loop"
    assume i: "i < length es" and I: "?I (Suc i) s"
    let ?qs = "take (Suc i) es @ map ?g (drop (Suc i) es)"
    have q: "?qs ! i = es ! i" "i < length ?qs" using i by (simp_all add: nth_append)
    have get: "dyn_get (sl_erw s) i = Some (es ! i)" using dyn_get_ok [OF conjunct1 [OF I] q(2)] q(1) by simp
    have dr: "drop i es = es ! i # drop (Suc i) es" using i by (simp add: Cons_nth_drop_Suc)
    have nx: "?qs[i := ?g (es ! i)] = take i es @ map ?g (drop i es)"
      using i unfolding dr by (simp add: take_Suc_conv_app_nth list_update_append)
    note ff = find_from [OF i, of "\<lambda>i. d_tag (es ! i) = DT_NULL"]
    show "\<exists>s'. set_u_step tag value i s = Some s' \<and> ?I i s'"
    proof (cases "d_tag (es ! i) = tag \<and> d_val (es ! i) \<noteq> value")
      case True
      then have g: "?g (es ! i) = (es ! i)\<lparr>d_val := value\<rparr>" by (simp add: set_entry_val_def)
      obtain e where e: "dyn_put (sl_erw s) i (?g (es ! i)) = Some e" "dyns_are e (?qs[i := ?g (es ! i)])" "dyns_edit (sl_erw s) e"
        using dyn_put_ok [OF conjunct1 [OF I] q(2)] by blast
      have "set_u_step tag value i s = Some (s\<lparr>sl_erw := e, sl_any := True, sl_modified := True\<rparr>)"
        using True get e(1) g by (simp add: set_u_step_def)
      moreover have "dyns_edit erw e" using I dyns_edit_trans [OF _ e(3)] by blast
      ultimately show ?thesis using e(2) I True tag ff unfolding nx dr by auto
    next
      case False
      then have "?g (es ! i) = es ! i" by (cases "es ! i") (auto simp: set_entry_val_def)
      then have nx': "?qs = take i es @ map ?g (drop i es)" using nx q by (metis list_update_id)
      show ?thesis
        using False get I tag ff nx' unfolding dr by (auto simp: set_u_step_def)
    qed
  qed
  then show ?thesis by simp
qed

text \<open>
  C16: After \<open>dhdrs_set_u\<close> the entries with the tag hold the value, one is added when there was
  none, and every other tag keeps its value.
\<close>

theorem dhdrs_set_u_correct:
  fixes erw :: "'a::len word erw"
  assumes ok: "dyns_are erw es" and lim: "length es < 2 ^ 30" and tag: "tag \<noteq> DT_NULL"
  shows "\<exists>erw' es'. dhdrs_set_u erw tag value = Some erw' \<and> dyns_are erw' es' \<and> dyns_edit erw erw' \<and>
    dhdrs_find_value erw' tag = Some value \<and>
    (\<exists>d \<in> set es'. d_tag d = esw (e_bswap erw) tag) \<and>
    (\<forall>d \<in> set es'. d_tag d = esw (e_bswap erw) tag \<longrightarrow> d_val d = esw (e_bswap erw) value) \<and>
    (\<forall>t. t \<noteq> tag \<and> t \<noteq> DT_NULL \<longrightarrow> dhdrs_find_value erw' t = dhdrs_find_value erw t)"
proof -
  let ?bs = "e_bswap erw" let ?t = "esw ?bs tag" let ?v = "esw ?bs value"
  have t0: "?t \<noteq> DT_NULL" using tag by simp
  obtain s where s: "each (set_u_step ?t ?v) (rev [0..<length es]) \<lparr>sl_erw = erw, sl_nul = None, sl_any = False, sl_modified = False\<rparr> = Some s"
    "dyns_are (sl_erw s) (map (set_entry_val ?t ?v) es)" "dyns_edit erw (sl_erw s)" "sl_any s = (\<exists>d \<in> set es. d_tag d = ?t)"
    "sl_nul s = find (\<lambda>i. d_tag (es ! i) = DT_NULL) [0..<length es]" using set_u_loop [OF ok t0] by blast
  have n: "dyn_count erw = length es" by (rule dyn_count_ok [OF ok])
  show ?thesis
  proof (cases "\<exists>d \<in> set es. d_tag d = ?t")
    case True
    let ?e = "if sl_modified s then set_modified ERW_MODIFIED_DHDRS (sl_erw s) else sl_erw s"
    let ?es = "map (set_entry_val ?t ?v) es"
    have "dhdrs_set_u erw tag value = Some ?e" using True s n by (simp add: dhdrs_set_u_def Let_def)
    moreover have e: "dyns_are ?e ?es" "dyns_edit erw ?e" using s by simp_all
    moreover have "e_bswap ?e = ?bs" using dyns_edit_bswap [OF e(2)] .
    moreover have "\<exists>d \<in> set ?es. d_tag d = ?t" using True by auto
    moreover have "\<forall>d \<in> set ?es. d_tag d = ?t \<longrightarrow> d_val d = ?v" by (auto simp: set_entry_val_def)
    ultimately show ?thesis
      using True tag by (intro exI [of _ ?e] exI [of _ ?es]) (simp add: find_value_eq [OF e(1)] find_value_eq [OF ok] value_of_set)
  next
    case False
    then have "map (set_entry_val ?t ?v) es = es" by (auto simp: set_entry_val_def intro: map_idI)
    with s(2) have s2: "dyns_are (sl_erw s) es" by simp
    obtain e where e: "dhdrs_fill (sl_erw s) (sl_nul s) \<lparr>d_tag = ?t, d_val = ?v\<rparr> = Some e"
      "dyns_are e (add_dyn \<lparr>d_tag = ?t, d_val = ?v\<rparr> es)" "dyns_edit (sl_erw s) e"
      using dhdrs_fill_ok [OF s2 lim] s(5) by metis
    let ?e = "set_modified ERW_MODIFIED_DHDRS e" let ?es = "add_dyn \<lparr>d_tag = ?t, d_val = ?v\<rparr> es"
    have a: "dyns_are ?e ?es" using e(2) by simp
    have ed: "dyns_edit erw ?e" using dyns_edit_trans [OF s(3) e(3)] by simp
    have bs: "e_bswap ?e = ?bs" using dyns_edit_bswap [OF ed] .
    have v: "t \<noteq> DT_NULL \<Longrightarrow> value_of ?es t = (if t = ?t then ?v else value_of es t)" for t
      using value_of_add [of es "\<lparr>d_tag = ?t, d_val = ?v\<rparr>" t] False by auto
    have m: "\<lparr>d_tag = ?t, d_val = ?v\<rparr> \<in> set ?es" "d \<in> set ?es \<Longrightarrow> d = \<lparr>d_tag = ?t, d_val = ?v\<rparr> \<or> d \<in> set es" for d
      by (auto simp: add_dyn_def split: option.splits dest!: find_index set_update_subset_insert [THEN subsetD] intro: set_update_memI)
    have "dhdrs_set_u erw tag value = Some ?e" using False s e(1) n by (simp add: dhdrs_set_u_def Let_def)
    moreover have "\<exists>d \<in> set ?es. d_tag d = ?t" using m(1) by force
    moreover have "\<forall>d \<in> set ?es. d_tag d = ?t \<longrightarrow> d_val d = ?v" using m(2) False by (metis dyn.select_convs(2))
    ultimately show ?thesis
      using a ed bs v tag by (intro exI [of _ ?e] exI [of _ ?es]) (auto simp: find_value_eq [OF a] find_value_eq [OF ok])
  qed
qed

definition dyns_example :: "64 word erw" where
  "dyns_example = erw_zero\<lparr>e_dhdrs := \<lparr>ed_live = True, ed_at = 0, ed_heap = map Some [\<lparr>d_tag = DT_NEEDED, d_val = 1\<rparr>,
       \<lparr>d_tag = DT_FLAGS, d_val = 0\<rparr>, \<lparr>d_tag = DT_NULL, d_val = 0\<rparr>, \<lparr>d_tag = DT_FLAGS, d_val = 8\<rparr>], ed_count = 4, ed_capacity = 4\<rparr>\<rparr>"

lemma dyns_example_are:
  "dyns_are dyns_example [\<lparr>d_tag = DT_NEEDED, d_val = 1\<rparr>, \<lparr>d_tag = DT_FLAGS, d_val = 0\<rparr>, \<lparr>d_tag = DT_NULL, d_val = 0\<rparr>,
     \<lparr>d_tag = DT_FLAGS, d_val = 8\<rparr>]" "e_bswap dyns_example = False"
  by (simp_all add: dyns_example_def erw_zero_def dyns_are_def ed_ok_def ed_get_def rd_def less_Suc_eq)

lemma dhdrs_set_u_correct_witness:
  "\<exists>erw'. dhdrs_set_u dyns_example DT_SONAME 7 = Some erw' \<and> dhdrs_find_value erw' DT_SONAME = Some 7 \<and>
     dhdrs_find_value erw' DT_NEEDED = Some 1"
proof -
  have n: "dhdrs_find_value dyns_example DT_NEEDED = Some 1"
    unfolding find_value_eq [OF dyns_example_are(1)] by (simp add: dyns_example_are(2) value_of_def esw_def)
  show ?thesis using dhdrs_set_u_correct [OF dyns_example_are(1), of DT_SONAME 7] n by auto
qed

subsection \<open>Setting and clearing flags\<close>

text \<open>The entries with the tag before index \<open>i\<close> are zeroed.\<close>

lemma zero_earlier:
  fixes erw :: "'a::len word erw"
  assumes ok: "dyns_are erw es" and i: "i \<le> length es"
  shows "\<exists>erw'. each (\<lambda>j erw. do { itr \<leftarrow> dyn_get erw j; if d_tag itr = tag then dyn_put erw j dyn_zero else Some erw }) (rev [0..<i]) erw
      = Some erw' \<and>
    dyns_are erw' (map (\<lambda>d. if d_tag d = tag then dyn_zero else d) (take i es) @ drop i es) \<and> dyns_edit erw erw'"
proof -
  let ?z = "\<lambda>d :: 'a word dyn. if d_tag d = tag then dyn_zero else d"
  let ?I = "\<lambda>k s. dyns_are s (take k es @ map ?z (drop k (take i es)) @ drop i es) \<and> dyns_edit erw s"
  have "\<exists>s. each (\<lambda>j erw. do { itr \<leftarrow> dyn_get erw j; if d_tag itr = tag then dyn_put erw j dyn_zero else Some erw }) (rev [0..<i]) erw
      = Some s \<and> ?I 0 s"
  proof (rule each_downto [where I = ?I])
    show "?I i erw" using ok i by simp
  next
    fix k and s :: "'a word erw"
    assume k: "k < i" and I: "?I (Suc k) s"
    let ?qs = "take (Suc k) es @ map ?z (drop (Suc k) (take i es)) @ drop i es"
    have q: "?qs ! k = es ! k" "k < length ?qs" using i k by (simp_all add: nth_append)
    have get: "dyn_get s k = Some (es ! k)" using dyn_get_ok [OF conjunct1 [OF I] q(2)] q(1) by simp
    have dr: "drop k (take i es) = es ! k # drop (Suc k) (take i es)" using i k by (simp add: Cons_nth_drop_Suc [symmetric])
    have nx: "?qs[k := ?z (es ! k)] = take k es @ map ?z (drop k (take i es)) @ drop i es"
      using i k unfolding dr by (simp add: take_Suc_conv_app_nth list_update_append)
    show "\<exists>s'. (do { itr \<leftarrow> dyn_get s k; if d_tag itr = tag then dyn_put s k dyn_zero else Some s }) = Some s' \<and> ?I k s'"
    proof (cases "d_tag (es ! k) = tag")
      case True
      obtain e where e: "dyn_put s k dyn_zero = Some e" "dyns_are e (?qs[k := dyn_zero])" "dyns_edit s e"
        using dyn_put_ok [OF conjunct1 [OF I] q(2)] by blast
      have "dyns_edit erw e" using I dyns_edit_trans [OF _ e(3)] by blast
      moreover have "?qs[k := dyn_zero] = take k es @ map ?z (drop k (take i es)) @ drop i es" using nx unfolding if_P [OF True] .
      ultimately show ?thesis using e(1,2) get True by (intro exI [of _ e]) (simp only: bind.simps if_True simp_thms)
    next
      case False
      have "?qs = ?qs[k := ?qs ! k]" by (rule list_update_id [symmetric])
      also have "\<dots> = ?qs[k := ?z (es ! k)]" unfolding q(1) if_not_P [OF False] ..
      also note nx
      finally have "?qs = take k es @ map ?z (drop k (take i es)) @ drop i es" .
      then show ?thesis using get False I by (intro exI [of _ s]) (simp only: bind.simps if_False simp_thms)
    qed
  qed
  then show ?thesis by simp
qed

lemma value_of_zeroed: "t \<noteq> DT_NULL \<Longrightarrow> tag \<noteq> DT_NULL \<Longrightarrow>
    value_of (map (\<lambda>d. if d_tag d = tag then dyn_zero else d) es) t = (if t = tag then 0 else value_of es t)"
  by (induction es rule: rev_induct) (auto simp: dyn_zero_def)

lemma value_of_last:
  assumes "i < length es" "\<forall>j. i < j \<and> j < length es \<longrightarrow> d_tag (es ! j) \<noteq> t" "d_tag (es ! i) = t"
  shows "value_of es t = d_val (es ! i)"
proof -
  have e: "es = take i es @ [es ! i] @ drop (Suc i) es" using assms(1) by (simp add: id_take_nth_drop)
  have "\<not> (\<exists>d \<in> set (drop (Suc i) es). d_tag d = t)"
  proof
    assume "\<exists>d \<in> set (drop (Suc i) es). d_tag d = t"
    then obtain k where "k < length es - Suc i" "d_tag (es ! (Suc i + k)) = t" using assms(1) by (auto simp: in_set_conv_nth)
    moreover have "i < Suc i + k" "Suc i + k < length es" using calculation(1) by linarith+
    ultimately show False using assms(2) by blast
  qed
  then have "value_of (take i es @ [es ! i] @ drop (Suc i) es) t = d_val (es ! i)"
    unfolding value_of_append using assms(3) by simp
  then show ?thesis using e by simp
qed

lemma find_last:
  assumes "find (\<lambda>i. P (es ! i)) (rev [0..<length es]) = Some i"
  shows "i < length es \<and> P (es ! i) \<and> (\<forall>j. i < j \<and> j < length es \<longrightarrow> \<not> P (es ! j))"
proof -
  obtain k where k: "k < length es" "P (es ! (rev [0..<length es] ! k))" "i = rev [0..<length es] ! k"
    "\<forall>l < k. \<not> P (es ! (rev [0..<length es] ! l))" using assms by (auto simp: find_Some_iff)
  have r: "l < length es \<Longrightarrow> rev [0..<length es] ! l = length es - Suc l" for l by (simp add: rev_nth)
  have "\<not> P (es ! j)" if "i < j" "j < length es" for j
    using k(4) [rule_format, of "length es - Suc j"] r [of "length es - Suc j"] r [of k] k(1,3) that by simp
  then show ?thesis using k r [of k] by simp
qed

text \<open>
  C17: After \<open>dhdrs_add_remove_flags\<close> the flags of the tag are those it had, with the flags to
  add and without the flags to remove, even when the last flag goes and the entry becomes a
  \<open>DT_NULL\<close>; every other tag keeps its value. The flags to add and to remove do not overlap.
\<close>

theorem dhdrs_add_remove_flags_correct:
  fixes erw :: "'a::len word erw"
  assumes ok: "dyns_are erw es" and lim: "length es < 2 ^ 30" and tag: "tag \<noteq> DT_NULL" and apart: "(ucast add :: 'a word) AND ucast rem = 0"
    and v: "dhdrs_find_value erw tag = Some val0"
  shows "\<exists>erw' es'. dhdrs_add_remove_flags erw tag add rem = Some erw' \<and> dyns_are erw' es' \<and> dyns_edit erw erw' \<and>
    dhdrs_find_value erw' tag = Some ((val0 OR ucast add) AND NOT (ucast rem)) \<and>
    (\<forall>t. t \<noteq> tag \<and> t \<noteq> DT_NULL \<longrightarrow> dhdrs_find_value erw' t = dhdrs_find_value erw t)"
proof -
  let ?bs = "e_bswap erw" let ?t = "esw ?bs tag"
  have v0: "val0 = esw ?bs (value_of es ?t)" using v find_value_eq [OF ok, of tag] by simp
  have fin: ?thesis if r: "dhdrs_add_remove_flags erw tag add rem = Some e" and a: "dyns_are e es'" and ed: "dyns_edit erw e"
    and vt: "esw ?bs (value_of es' ?t) = (val0 OR ucast add) AND NOT (ucast rem)"
    and ot: "\<And>t. t \<noteq> ?t \<Longrightarrow> t \<noteq> DT_NULL \<Longrightarrow> value_of es' t = value_of es t" for e es'
    using r a ed vt ot dyns_edit_bswap [OF ed] tag
    by (intro exI [of _ e] exI [of _ es']) (simp add: find_value_eq [OF a] find_value_eq [OF ok])
  show ?thesis
  proof (cases "find (\<lambda>i. d_tag (es ! i) = ?t) (rev [0..<length es])")
    case (Some i)
    note fl = find_last [OF Some]
    have i: "i < length es" "d_tag (es ! i) = ?t" using fl by auto
    have val0: "val0 = esw ?bs (d_val (es ! i))" using v0 value_of_last [OF i(1) _ i(2)] fl by simp
    define nv where "nv = (val0 OR ucast add) AND NOT (ucast rem)"
    obtain as bs where sp: "es = as @ es ! i # bs" "length as = i" using i(1) by (metis id_take_nth_drop length_take min.absorb4)
    have nt: "\<forall>d \<in> set bs. d_tag d \<noteq> ?t"
    proof
      fix d assume "d \<in> set bs"
      then obtain k where "k < length bs" "d = bs ! k" by (auto simp: in_set_conv_nth)
      then have "Suc i + k < length es" "es ! (Suc i + k) = d" using sp by (metis add_Suc_shift length_Cons length_append nat_add_left_cancel_less Suc_less_eq) (metis sp \<open>d = bs ! k\<close> add_Suc_shift nth_Cons_Suc nth_append_length_plus)
      then show "d_tag d \<noteq> ?t" using fl by (metis less_add_Suc1 add_Suc)
    qed
    have val: "value_of (xs @ x # bs) t = (if t = ?t then (if d_tag x = ?t then d_val x else value_of xs ?t) else
        if \<exists>d \<in> set bs. d_tag d = t then value_of bs t else if d_tag x = t then d_val x else value_of xs t)" for xs x t
      using nt value_of_append [of "xs @ [x]" bs t] by auto
    show ?thesis
    proof (cases "nv = val0")
      case True
      then show ?thesis
        using Some ok v0 by (intro fin [of erw es]) (simp_all add: dhdrs_add_remove_flags_def dyn_list_ok [OF ok] Let_def val0 nv_def)
    next
      case ch: False
      let ?d = "(es ! i)\<lparr>d_val := esw ?bs nv\<rparr>"
      obtain e1 where e1: "dyn_put erw i ?d = Some e1" "dyns_are e1 (es[i := ?d])" "dyns_edit erw e1"
        using dyn_put_ok [OF ok i(1)] by blast
      let ?e1 = "set_modified ERW_MODIFIED_DHDRS e1"
      have up: "es[i := x] = as @ x # bs" for x using sp by (metis list_update_length)
      show ?thesis
      proof (cases "nv = 0")
        case False
        have "dhdrs_add_remove_flags erw tag add rem = Some ?e1"
          using Some ch False e1(1) by (simp add: dhdrs_add_remove_flags_def dyn_list_ok [OF ok] Let_def val0 nv_def)
        moreover have "value_of (es[i := ?d]) ?t = esw ?bs nv" unfolding up val using i(2) by simp
        moreover have "value_of (es[i := ?d]) t = value_of es t" if "t \<noteq> ?t" for t
          using val [of as ?d t] val [of as "es ! i" t] that i(2) sp(1) unfolding up by auto
        ultimately show ?thesis using e1 by (intro fin [of ?e1 "es[i := ?d]"]) (simp_all add: nv_def)
      next
        case True
        have l1: "i < length (es[i := ?d])" using i(1) by simp
        have a1: "dyns_are ?e1 (es[i := ?d])" using e1(2) by simp
        let ?n = "\<lparr>d_tag = DT_NULL, d_val = esw ?bs nv\<rparr>"
        obtain e2 where e2: "dyn_put ?e1 i ?n = Some e2" "dyns_are e2 (es[i := ?n])" "dyns_edit ?e1 e2"
          using dyn_put_ok [OF a1 l1, of ?n] by auto
        have le: "i \<le> length (es[i := ?n])" using i(1) by simp
        let ?es = "map (\<lambda>d. if d_tag d = ?t then dyn_zero else d) (take i (es[i := ?n])) @ drop i (es[i := ?n])"
        obtain e3 where e3: "each (\<lambda>j erw. do { itr \<leftarrow> dyn_get erw j; if d_tag itr = ?t then dyn_put erw j dyn_zero else Some erw }) (rev [0..<i]) e2
            = Some e3" "dyns_are e3 ?es" "dyns_edit e2 e3"
          using zero_earlier [OF e2(2) le, of ?t] by blast
        have es: "?es = map (\<lambda>d. if d_tag d = ?t then dyn_zero else d) as @ ?n # bs" using sp(2) unfolding up by simp
        have "dhdrs_add_remove_flags erw tag add rem = Some e3"
          using Some ch True e1(1) e2(1) e3(1) by (simp add: dhdrs_add_remove_flags_def dyn_list_ok [OF ok] Let_def val0 nv_def)
        moreover have "dyns_edit erw e3" using dyns_edit_trans [OF dyns_edit_trans [OF _ e2(3)] e3(3)] e1(3) by simp
        moreover have "value_of ?es ?t = 0" unfolding es val using tag value_of_zeroed [of ?t ?t as] by simp
        moreover have "value_of ?es t = value_of es t" if "t \<noteq> ?t" "t \<noteq> DT_NULL" for t
          using val [of "map (\<lambda>d. if d_tag d = ?t then dyn_zero else d) as" ?n t] val [of as "es ! i" t] that i(2) sp(1) tag
            value_of_zeroed [of t ?t as] unfolding es by auto
        ultimately show ?thesis using e3(2) True by (intro fin [of e3 ?es]) (simp_all add: nv_def)
      qed
    qed
  next
    case None
    then have no: "\<forall>d \<in> set es. d_tag d \<noteq> ?t" by (auto simp: find_None_iff in_set_conv_nth)
    then have z: "value_of es ?t = 0" by (auto simp: value_of_def find_None_iff split: option.splits dest!: find_Some_iff [THEN iffD1]) (metis nth_mem set_rev length_rev)
    show ?thesis
    proof (cases "add = 0")
      case True
      then show ?thesis
        using None ok z v0 by (intro fin [of erw es]) (simp_all add: dhdrs_add_remove_flags_def dyn_list_ok [OF ok] Let_def)
    next
      case False
      let ?d = "\<lparr>d_tag = ?t, d_val = esw ?bs (ucast add)\<rparr>" let ?e0 = "set_modified ERW_MODIFIED_DHDRS erw"
      have "dyns_are ?e0 es" using ok by simp
      from dhdrs_fill_ok [OF this lim, of ?d]
      obtain e where e: "dhdrs_fill ?e0 (find (\<lambda>i. d_tag (es ! i) = DT_NULL) [0..<length es]) ?d = Some e"
        "dyns_are e (add_dyn ?d es)" "dyns_edit ?e0 e" by blast
      have "dhdrs_add_remove_flags erw tag add rem = Some e"
        using None False e(1) by (simp add: dhdrs_add_remove_flags_def dyn_list_ok [OF ok] Let_def)
      moreover have "dyns_edit erw e" using dyns_edit_trans [OF dyns_edit_modified e(3)] .
      moreover have "value_of (add_dyn ?d es) t = (if t = ?t then d_val ?d else value_of es t)" if "t \<noteq> DT_NULL" for t
        using value_of_add [of es ?d t] no that by simp
      moreover have "(ucast add :: 'a word) = ucast add AND NOT (ucast rem)"
      proof (rule bit_word_eqI)
        fix n assume "n < LENGTH('a)"
        have "\<not> bit ((ucast add :: 'a word) AND ucast rem) n" using apart by simp
        then show "bit (ucast add :: 'a word) n = bit ((ucast add :: 'a word) AND NOT (ucast rem)) n"
          using \<open>n < LENGTH('a)\<close> by (auto simp: bit_simps)
      qed
      ultimately show ?thesis using e(2) z v0 tag by (intro fin [of e "add_dyn ?d es"]) simp_all
    qed
  qed
qed

text \<open>The last flag goes, and an earlier entry with the tag does not become visible.\<close>

lemma dhdrs_add_remove_flags_correct_witness:
  "\<exists>erw'. dhdrs_add_remove_flags dyns_example DT_FLAGS 0 DF_BIND_NOW = Some erw' \<and> dhdrs_find_value erw' DT_FLAGS = Some 0"
proof -
  have n: "dhdrs_find_value dyns_example DT_FLAGS = Some 8"
    unfolding find_value_eq [OF dyns_example_are(1)] by (simp add: dyns_example_are(2) value_of_def esw_def)
  show ?thesis using dhdrs_add_remove_flags_correct [OF dyns_example_are(1) _ _ _ n, of 0 DF_BIND_NOW] by auto
qed

subsection \<open>Tidying up\<close>

lemma compact_loop:
  fixes erw :: "'a::len word erw"
  assumes ok: "dyns_are erw es"
  shows "\<exists>erw' out. each compact_step [0..<length es] (erw, 0) = Some (erw', out) \<and> dyns_edit erw erw' \<and>
    out = length (filter (\<lambda>d. d_tag d \<noteq> DT_NULL) es) \<and>
    dyns_are erw' (filter (\<lambda>d. d_tag d \<noteq> DT_NULL) es @ drop out es) \<and>
    ed_count (e_dhdrs erw') = ed_count (e_dhdrs erw) \<and> ed_capacity (e_dhdrs erw') = ed_capacity (e_dhdrs erw)"
proof -
  let ?P = "\<lambda>d :: 'a word dyn. d_tag d \<noteq> DT_NULL"
  let ?I = "\<lambda>i s. dyns_are (fst s) (filter ?P (take i es) @ drop (snd s) es) \<and> dyns_edit erw (fst s) \<and>
    snd s = length (filter ?P (take i es)) \<and> ed_count (e_dhdrs (fst s)) = ed_count (e_dhdrs erw) \<and>
    ed_capacity (e_dhdrs (fst s)) = ed_capacity (e_dhdrs erw)"
  have "\<exists>s. each compact_step [0..<length es] (erw, 0) = Some s \<and> ?I (length es) s"
  proof (rule each_upto [where I = ?I])
    show "?I 0 (erw, 0)" using ok by simp
  next
    fix i and s :: "'a word erw \<times> nat"
    assume i: "i < length es" and I: "?I i s"
    obtain e out where s: "s = (e, out)" by (cases s)
    let ?fs = "filter ?P (take i es)"
    have e: "dyns_are e (?fs @ drop out es)" "dyns_edit erw e" "out = length ?fs" using I unfolding s fst_conv snd_conv by blast+
    have le: "out \<le> i" using e(3) length_filter_le [of ?P "take i es"] i by simp
    have q: "(?fs @ drop out es) ! i = es ! i" "i < length (?fs @ drop out es)" using i le e(3) by (simp_all add: nth_append)
    have get: "dyn_get e i = Some (es ! i)" using dyn_get_ok [OF e(1) q(2)] q(1) by simp
    have tk: "take (Suc i) es = take i es @ [es ! i]" using i by (simp add: take_Suc_conv_app_nth)
    show "\<exists>s'. compact_step i s = Some s' \<and> ?I (Suc i) s'"
    proof (cases "d_tag (es ! i) = DT_NULL")
      case True
      then show ?thesis using get e I by (simp add: compact_step_def s tk)
    next
      case False
      have lo: "out < length (?fs @ drop out es)" using le i e(3) by simp
      obtain ed' f' where p: "ed_put dyn_codec (e_f e, e_dhdrs e) out (es ! i) = Some (f', ed')"
        "ed_ok dyn_codec f' ed' ((?fs @ drop out es)[out := es ! i])" "ed_count ed' = ed_count (e_dhdrs e)"
        "ed_capacity ed' = ed_capacity (e_dhdrs e)"
        using dyn.put_ok [OF e(1) [unfolded dyns_are_def] lo, of "es ! i"] by blast
      let ?e = "e\<lparr>e_f := f', e_dhdrs := ed'\<rparr>"
      have "(?fs @ drop out es)[out := es ! i] = filter ?P (take (Suc i) es) @ drop (Suc out) es"
        using False le i e(3) by (simp add: tk list_update_append Cons_nth_drop_Suc [symmetric])
      moreover have "dyns_edit e ?e" by (simp add: dyns_edit_def)
      from dyns_edit_trans [OF e(2) this] have "dyns_edit erw ?e" .
      moreover have "compact_step i s = Some (?e, out + 1)" using get False p(1) by (simp add: compact_step_def s dyn_put_def)
      ultimately show ?thesis using p(2-4) False I e(3) by (simp add: dyns_are_def s tk)
    qed
  qed
  then show ?thesis by auto
qed

lemma null_fill:
  fixes erw :: "'a::len word erw"
  assumes ok: "dyns_are erw es" and out: "out \<le> length es"
  shows "\<exists>erw'. each (\<lambda>i erw. dyn_put erw i dyn_zero) [out..<length es] erw = Some erw' \<and> dyns_edit erw erw' \<and>
    dyns_are erw' (take out es @ replicate (length es - out) dyn_zero)"
proof -
  let ?I = "\<lambda>k s. dyns_edit erw s \<and> dyns_are s (take out es @ replicate k dyn_zero @ drop (out + k) es)"
  have m: "[out..<length es] = map (\<lambda>k. out + k) [0..<length es - out]"
    using out map_add_upt [of out "length es - out"] by (simp add: add.commute)
  have em: "each g (map h xs) s = each (\<lambda>i. g (h i)) xs s" for g :: "nat \<Rightarrow> 'a word erw \<Rightarrow> _" and h :: "nat \<Rightarrow> nat" and xs s
    by (induction xs arbitrary: s) (auto split: bind_splits)
  have "\<exists>s. each (\<lambda>k erw. dyn_put erw (out + k) dyn_zero) [0..<length es - out] erw = Some s \<and> ?I (length es - out) s"
  proof (rule each_upto [where I = ?I])
    show "?I 0 erw" using ok by simp
  next
    fix k and s :: "'a word erw"
    assume k: "k < length es - out" and I: "?I k s"
    let ?qs = "take out es @ replicate k dyn_zero @ drop (out + k) es"
    have lk: "out + k < length ?qs" using k out by simp
    obtain e where e: "dyn_put s (out + k) dyn_zero = Some e" "dyns_are e (?qs[out + k := dyn_zero])" "dyns_edit s e"
      using dyn_put_ok [OF conjunct2 [OF I], of "out + k" dyn_zero] lk by blast
    have "?qs[out + k := dyn_zero] = take out es @ replicate (Suc k) dyn_zero @ drop (out + Suc k) es"
      using k by (simp add: list_update_append Cons_nth_drop_Suc [symmetric] replicate_append_same [symmetric])
    then show "\<exists>s'. dyn_put s (out + k) dyn_zero = Some s' \<and> ?I (Suc k) s'"
      using e I dyns_edit_trans [OF conjunct1 [OF I] e(3)] by (intro exI [of _ e]) simp
  qed
  then show ?thesis unfolding m em by simp
qed

text \<open>
  C18: \<open>dhdrs_fixup_nulls\<close> keeps the entries that are not \<open>DT_NULL\<close> in their order and ends the
  array with \<open>DT_NULL\<close>: with exactly one in an array of its own, up to the end in the file. So
  the loader sees every entry, and the array keeps what a lookup finds.
\<close>

theorem dhdrs_fixup_nulls_correct:
  fixes erw :: "'a::len word erw"
  assumes ok: "dyns_are erw es" and lim: "length es < 2 ^ 29"
  shows "\<exists>erw' k. dhdrs_fixup_nulls erw = Some erw' \<and> dyns_edit erw erw' \<and>
    dyns_are erw' (filter (\<lambda>d. d_tag d \<noteq> DT_NULL) es @ replicate (Suc k) dyn_zero) \<and>
    (ed_capacity (e_dhdrs erw) \<noteq> 0 \<longrightarrow> k = 0)"
proof -
  let ?fs = "filter (\<lambda>d. d_tag d \<noteq> DT_NULL) es"
  obtain e out where e: "each compact_step [0..<length es] (erw, 0) = Some (e, out)" "dyns_edit erw e" "out = length ?fs"
    "dyns_are e (?fs @ drop out es)" "ed_count (e_dhdrs e) = ed_count (e_dhdrs erw)" "ed_capacity (e_dhdrs e) = ed_capacity (e_dhdrs erw)"
    using compact_loop [OF ok] by blast
  have le: "out \<le> length es" using e(3) by simp
  have n: "unat (ed_count (e_dhdrs erw)) = length es" "dyn_count erw = length es" using ok by (simp_all add: dyns_are_def ed_ok_def dyn_count_def)
  have cnt: "unat (of_nat m :: u32) = m" if "m \<le> Suc out" for m using that le lim by (simp add: unat_of_nat take_bit_nat_eq_self)
  let ?full = "out \<ge> unat (if ed_capacity (e_dhdrs e) \<noteq> 0 then ed_capacity (e_dhdrs e) else ed_count (e_dhdrs e))"
  have own: ?thesis if g: "(if ?full then dhdrs_grow (set_dyn_count out e) else Some e) = Some e1"
      and o: "owns (e_dhdrs e1)" and h: "ed_heap (e_dhdrs e1) = map Some ?fs @ rest" "rest \<noteq> []" and ed: "dyns_edit e e1" for e1 rest
  proof -
    let ?ed = "(e_dhdrs e1)\<lparr>ed_heap := (ed_heap (e_dhdrs e1))[out := Some dyn_zero]\<rparr>"
    have lt: "out < length (ed_heap (e_dhdrs e1))" using h e(3) by simp
    have put: "dyn_put e1 out dyn_zero = Some (e1\<lparr>e_dhdrs := ?ed\<rparr>)"
      using ed_put_owned [OF o lt, of dyn_codec "e_f e1" dyn_zero] by (simp add: dyn_put_def)
    let ?e = "set_dyn_count (out + 1) (e1\<lparr>e_dhdrs := ?ed\<rparr>)"
    obtain x rest' where r: "rest = x # rest'" using h(2) by (cases rest) auto
    have "(ed_heap (e_dhdrs e1))[out := Some dyn_zero] = map Some (?fs @ [dyn_zero]) @ rest'"
      unfolding h(1) r e(3) by (simp add: list_update_append)
    then have hp: "ed_heap (e_dhdrs ?e) = map Some (?fs @ [dyn_zero]) @ rest'" by (simp add: set_dyn_count_def)
    have ow: "owns (e_dhdrs ?e)" using o by (simp add: owns_def set_dyn_count_def)
    have "length (?fs @ [dyn_zero]) = unat (ed_count (e_dhdrs ?e))"
      using e(3) cnt [of "Suc out"] by (simp add: set_dyn_count_def)
    from ed_ok_heap [OF ow hp this] have "ed_ok dyn_codec (e_f ?e) (e_dhdrs ?e) (?fs @ [dyn_zero])" .
    then have "dyns_are ?e (?fs @ replicate (Suc 0) dyn_zero)" by (simp add: dyns_are_def)
    moreover have "dhdrs_fixup_nulls erw = Some ?e"
      using e(1) n g put o by (simp add: dhdrs_fixup_nulls_def Let_def owns_def)
    moreover have "dyns_edit e1 ?e" by (simp add: dyns_edit_def set_dyn_count_def)
    from dyns_edit_trans [OF dyns_edit_trans [OF e(2) ed] this] have "dyns_edit erw ?e" .
    ultimately show ?thesis by (intro exI [of _ ?e] exI [of _ 0]) simp
  qed
  consider (room) "\<not> ?full" "ed_capacity (e_dhdrs e) \<noteq> 0" | (window) "\<not> ?full" "ed_capacity (e_dhdrs e) = 0" | (full) ?full by blast
  then show ?thesis
  proof cases
    case room
    have o: "owns (e_dhdrs e)" using room(2) e(4) by (simp add: dyns_are_def ed_ok_def owns_def)
    have t: "take out (ed_heap (e_dhdrs e)) = map Some ?fs"
    proof -
      have "take (length (?fs @ drop out es)) (ed_heap (e_dhdrs e)) = map Some (?fs @ drop out es)"
        using e(4) ed_ok_owned [OF o] unfolding dyns_are_def by blast
      then have "take out (take (length (?fs @ drop out es)) (ed_heap (e_dhdrs e))) = take out (map Some (?fs @ drop out es))" by simp
      then show ?thesis using e(3) by simp
    qed
    have h: "ed_heap (e_dhdrs e) = map Some ?fs @ drop out (ed_heap (e_dhdrs e))"
      using t by (metis append_take_drop_id)
    have r: "drop out (ed_heap (e_dhdrs e)) \<noteq> []" using room o by (simp add: owns_def)
    have g: "(if ?full then dhdrs_grow (set_dyn_count out e) else Some e) = Some e" using room(1) by (rule if_not_P)
    show ?thesis by (rule own [OF g o h r dyns_edit_refl])
  next
    case window
    have le': "out \<le> length (?fs @ drop out es)" using e(3) by simp
    obtain e' where e': "each (\<lambda>i erw. dyn_put erw i dyn_zero) [out..<length (?fs @ drop out es)] e = Some e'" "dyns_edit e e'"
      "dyns_are e' (take out (?fs @ drop out es) @ replicate (length (?fs @ drop out es) - out) dyn_zero)"
      using null_fill [OF e(4) le'] by blast
    have len: "length (?fs @ drop out es) = length es" using e(3) le by simp
    have lt: "out < length es" using window e(5) n by simp
    then obtain k where k: "length es - out = Suc k" by (metis Suc_diff_Suc)
    have "dyn_count e = length es" using e(5) n by (simp add: dyn_count_def)
    then have "dhdrs_fixup_nulls erw = Some e'"
      using e(1) n(2) window e'(1) unfolding len by (simp add: dhdrs_fixup_nulls_def Let_def)
    moreover have "take out (?fs @ drop out es) = ?fs" using e(3) by simp
    ultimately show ?thesis
      using e'(3) window(2) e(6) k dyns_edit_trans [OF e(2) e'(2)] unfolding len by (intro exI [of _ e'] exI [of _ k]) simp
  next
    case full
    have cap: "length es \<le> unat (ed_capacity (e_dhdrs e))" if "ed_capacity (e_dhdrs e) \<noteq> 0"
      using e(4,5) n that by (simp add: dyns_are_def ed_ok_def word_le_nat_alt)
    have out: "out = length es" using full cap le e(5) n by (auto split: if_splits)
    then have es: "?fs @ drop out es = ?fs" by simp
    have c0: "of_nat out = ed_count (e_dhdrs e)" using out n(1) e(5) by (metis of_nat_unat ucast_id)
    then have e0: "set_dyn_count out e = e" by (simp add: set_dyn_count_def)
    have a: "ed_ok dyn_codec (e_f e) (e_dhdrs e) ?fs" using e(4) unfolding dyns_are_def es .
    have ge: "ed_count (e_dhdrs e) \<ge> ed_capacity (e_dhdrs e)"
      using full out e(5) n by (auto simp: word_le_nat_alt split: if_splits)
    obtain ed where ed: "ed_grow dyn_codec (e_f e) (e_dhdrs e) = Some ed" "ed_ok dyn_codec (e_f e) ed ?fs" "owns ed"
      "ed_count ed = ed_count (e_dhdrs e)" "ed_count (e_dhdrs e) < ed_capacity ed"
      using dyn.grow_owns [OF a ge] e(5) n lim by auto
    let ?e1 = "e\<lparr>e_dhdrs := ed\<rparr>"
    have g: "(if ?full then dhdrs_grow (set_dyn_count out e) else Some e) = Some ?e1"
      using full ed(1) by (simp add: e0 dhdrs_grow_def)
    have o: "owns (e_dhdrs ?e1)" using ed(3) by simp
    have "take (length ?fs) (ed_heap ed) = map Some ?fs" using ed(2) ed_ok_owned [OF ed(3)] by blast
    then have h: "ed_heap (e_dhdrs ?e1) = map Some ?fs @ drop (length ?fs) (ed_heap ed)"
      by (metis append_take_drop_id erw.select_convs(9) erw.surjective erw.update_convs(9))
    have r: "drop (length ?fs) (ed_heap ed) \<noteq> []"
      using ed(3-5) e(3,5) n out by (simp add: owns_def word_less_nat_alt)
    show ?thesis by (rule own [OF g o h r]) (simp add: dyns_edit_def)
  qed
qed

lemma dhdrs_fixup_nulls_correct_witness:
  "\<exists>erw'. dhdrs_fixup_nulls dyns_example = Some erw' \<and>
     dyns_are erw' [\<lparr>d_tag = DT_NEEDED, d_val = 1\<rparr>, \<lparr>d_tag = DT_FLAGS, d_val = 0\<rparr>, \<lparr>d_tag = DT_FLAGS, d_val = 8\<rparr>, dyn_zero]"
proof -
  have "ed_capacity (e_dhdrs dyns_example) \<noteq> 0" by (simp add: dyns_example_def erw_zero_def)
  then show ?thesis using dhdrs_fixup_nulls_correct [OF dyns_example_are(1)] by fastforce
qed

end
