(* ===== verification/StringRefs.thy ===== *)
theory StringRefs
  imports Dhdrs
begin

section \<open>erw.c: reading the dynamic string table\<close>

text \<open>
  A reference into the string table is an offset from \<open>DT_STRTAB\<close>, or, once a new table is
  being built, an offset into the new table. Decoding gives the bytes up to the terminating
  zero; \<open>None\<close> stands for reading outside the file or the table.
\<close>

partial_function (option) cstr_at :: "mem \<Rightarrow> nat \<Rightarrow> bstr option" where
  "cstr_at f a = Option.bind (f a) (\<lambda>b. if b = 0 then Some [] else Option.bind (cstr_at f (a + 1)) (\<lambda>bs. Some (b # bs)))"

lemma cstr_at_holds: "holds f a (s @ [0]) \<Longrightarrow> 0 \<notin> set s \<Longrightarrow> cstr_at f a = Some s"
proof (induction s arbitrary: a)
  case Nil
  then show ?case by (subst cstr_at.simps) (simp add: holds_Cons)
next
  case (Cons c s)
  then have "cstr_at f (a + 1) = Some s" by (simp add: holds_Cons)
  then show ?case using Cons.prems by (subst cstr_at.simps) (simp add: holds_Cons)
qed

definition dynstr_init :: "'a::len word erw \<Rightarrow> 'a word erw option" where
  "dynstr_init erw = do {
     es \<leftarrow> dyn_list erw;
     Some (fold (\<lambda>d erw. if esw (e_bswap erw) (d_tag d) = DT_STRTAB
       then erw\<lparr>e_dynstr := (e_dynstr erw)\<lparr>ds_original_base := ucast (esw (e_bswap erw) (d_val d))\<rparr>\<rparr> else erw) es erw) }"

definition erw_dynstr_init :: "'a::len word erw \<Rightarrow> 'a word erw option" where
  "erw_dynstr_init erw =
    (if ds_state (e_dynstr erw) \<noteq> dynstr_edit_state_uninit then Some erw
     else do {
       erw \<leftarrow> dhdrs_ready erw;
       dynstr_init (erw\<lparr>e_dynstr := (e_dynstr erw)\<lparr>ds_state := dynstr_edit_state_read_only\<rparr>\<rparr>) })"

definition bytes_mem :: "u8 list \<Rightarrow> mem" where
  "bytes_mem bs = rd bs"

definition erw_dynstr_decode :: "'a::len word erw \<Rightarrow> u64 \<Rightarrow> ('a word erw \<times> bstr) option" where
  "erw_dynstr_decode erw ref = do {
     erw \<leftarrow> (if ds_state (e_dynstr erw) = dynstr_edit_state_uninit then erw_dynstr_init erw else Some erw);
     if ds_state (e_dynstr erw) = dynstr_edit_state_encode_building_new then do {
       s \<leftarrow> cstr_at (bytes_mem (ds_to_add (e_dynstr erw))) (unat ref);
       Some (erw, s) }
     else do {
       let addr = ds_original_base (e_dynstr erw) + ref;
       let v2f = v2f_at (e_v2f erw) addr;
       if v2f_special v2f then Some (erw, [])
       else do {
         s \<leftarrow> cstr_at (e_f erw) (unat (addr + v2f));
         Some (erw, s) } } }"

subsection \<open>Hashes\<close>

definition elf_hash_step :: "u8 \<Rightarrow> u32 \<Rightarrow> u32" where
  "elf_hash_step c hash =
    (let hash = push_bit 4 hash + ucast c in hash XOR drop_bit 24 (hash AND 0xf0000000))"

definition erw_elf_hash :: "bstr \<Rightarrow> u32" where
  "erw_elf_hash str = fold elf_hash_step str 0 AND 0x0fffffff"

definition erw_gnu_hash :: "bstr \<Rightarrow> u32" where
  "erw_gnu_hash str = fold (\<lambda>c hash. push_bit 5 hash + hash + ucast c) str 5381"

definition erw_dynstr_decode_elf_hash :: "'a::len word erw \<Rightarrow> u64 \<Rightarrow> ('a word erw \<times> u32) option" where
  "erw_dynstr_decode_elf_hash erw ref = do { (erw, s) \<leftarrow> erw_dynstr_decode erw ref; Some (erw, erw_elf_hash s) }"

definition erw_dynstr_decode_gnu_hash :: "'a::len word erw \<Rightarrow> u64 \<Rightarrow> ('a word erw \<times> u32) option" where
  "erw_dynstr_decode_gnu_hash erw ref = do { (erw, s) \<leftarrow> erw_dynstr_decode erw ref; Some (erw, erw_gnu_hash s) }"

text \<open>The length with the terminating zero in the low half, another hash in the high half.\<close>

definition dynstr_len_hash :: "bstr \<Rightarrow> u64" where
  "dynstr_len_hash str =
    (let hash = fold (\<lambda>c hash. hash * 33 + ucast c) str (5381 :: u32); len = of_nat (length str + 1) :: u32
     in ucast len + push_bit 32 (ucast hash))"

end
