(* ===== verification/Relocs.thy ===== *)
theory Relocs
  imports Dhdrs
begin

section \<open>erw_nne.h: the relocation editors\<close>

text \<open>
  The tables that \<open>DT_REL\<close>, \<open>DT_RELA\<close>, \<open>DT_GNU_CONFLICT\<close> and \<open>DT_JMPREL\<close> describe, at most
  five, each a window on the file or a block of its own. An entry is \<open>rl_entry_size\<close> bytes:
  the place, the kind and the symbol in one word, and perhaps an addend.
\<close>

definition rel_mem :: "'a::len word erw \<Rightarrow> reloc_editor \<Rightarrow> mem \<times> nat" where
  "rel_mem erw rl = (if rl_capacity rl = 0 then (e_f erw, rl_at rl) else (rl_heap rl, 0))"

text \<open>
  The word at an offset of the table. In a block of its own the bytes that were never written
  cannot be read, and the block ends with its last entry.
\<close>

definition rel_word :: "'a::len word erw \<Rightarrow> reloc_editor \<Rightarrow> nat \<Rightarrow> 'a word option" where
  "rel_word erw rl off = map_option word_of_bytes (mem_read (fst (rel_mem erw rl)) (snd (rel_mem erw rl) + off) (word_size TYPE('a)))"

definition rel_set_word :: "'a::len word erw \<Rightarrow> nat \<Rightarrow> nat \<Rightarrow> 'a word \<Rightarrow> 'a word erw option" where
  "rel_set_word erw k off w =
    (let rl = e_relocs erw ! k in
     if rl_capacity rl = 0 then map_option (\<lambda>f. erw\<lparr>e_f := f\<rparr>) (mem_store (e_f erw) (rl_at rl + off) (word_bytes w))
     else if off + word_size TYPE('a) \<le> unat (rl_capacity rl) * unat (rl_entry_size rl)
       then Some (erw\<lparr>e_relocs := (e_relocs erw)[k := rl\<lparr>rl_heap := mem_write (rl_heap rl) off (word_bytes w)\<rparr>]\<rparr>)
     else None)"

subsection \<open>Initialisation\<close>

text \<open>One editor, and whether it is one: then the next one is set up behind it.\<close>

definition init_reloc_editor :: "'a::len word erw \<Rightarrow> reloc_editor \<Rightarrow> 'a word dyn option \<Rightarrow> 'a word dyn option \<Rightarrow> 'a word \<Rightarrow>
    (reloc_editor \<times> bool) option" where
  "init_reloc_editor erw dst rel relsz entsz =
    (case (rel, relsz) of (Some rel, Some relsz) \<Rightarrow>
       if entsz = 0 then Some (dst, False)
       else
         (let bs = e_bswap erw;
              v = ucast (esw bs (d_val rel)) :: u64;
              f = v2f_at (e_v2f erw) v;
              count = esw bs (d_val relsz) div entsz;
              nb = ucast count * ucast entsz :: u64;
              dst = dst\<lparr>rl_live := True, rl_count := ucast count, rl_entry_size := ucast entsz\<rparr>
          in if \<not> v2f_special f \<and> v2f_next (e_v2f erw) v - v \<ge> nb
             then Some (dst\<lparr>rl_at := unat (v + f), rl_capacity := 0\<rparr>, True)
             else do {
               (bytes, _) \<leftarrow> materialise_v_range_to erw v nb;
               Some (dst\<lparr>rl_heap := mem_write Map.empty 0 bytes, rl_capacity := ucast count\<rparr>, True) })
     | _ \<Rightarrow> Some (dst, False))"

text \<open>The last entry of each tag.\<close>

definition last_dyn :: "bool \<Rightarrow> 'a::len word dyn list \<Rightarrow> 'a word \<Rightarrow> 'a word dyn option" where
  "last_dyn bs es tag = find (\<lambda>d. esw bs (d_tag d) = tag) (rev es)"

definition reloc_editor_none :: reloc_editor where
  "reloc_editor_none = \<lparr>rl_live = False, rl_at = 0, rl_heap = Map.empty, rl_count = 0, rl_capacity = 0, rl_entry_size = 0,
     rl_dt = 0, rl_flags = 0\<rparr>"

text \<open>The editors so far, with one more when there is one.\<close>

definition push_editor :: "'a::len word erw \<Rightarrow> u8 \<Rightarrow> u16 \<Rightarrow> 'a word dyn option \<Rightarrow> 'a word dyn option \<Rightarrow> 'a word \<Rightarrow>
    reloc_editor list \<Rightarrow> reloc_editor list option" where
  "push_editor erw dt flags rel relsz entsz rls = do {
     (rl, used) \<leftarrow> init_reloc_editor erw (reloc_editor_none\<lparr>rl_dt := dt, rl_flags := flags\<rparr>) rel relsz entsz;
     Some (if used then rls @ [rl] else rls) }"

definition relocs_init :: "'a::len word erw \<Rightarrow> reloc_editor list option" where
  "relocs_init erw = do {
     es \<leftarrow> dyn_list erw;
     let bs = e_bswap erw;
     let dt = last_dyn bs es;
     let relent = (case dt DT_RELENT of Some d \<Rightarrow> esw bs (d_val d) | None \<Rightarrow> 16);
     let relaent = (case dt DT_RELAENT of Some d \<Rightarrow> esw bs (d_val d) | None \<Rightarrow> 24);
     rls \<leftarrow> (if dt DT_REL \<noteq> None then push_editor erw DT_REL 0 (dt DT_REL) (dt DT_RELSZ) relent [] else Some []);
     rls \<leftarrow> (if dt DT_RELA \<noteq> None
       then push_editor erw DT_RELA RELOC_EDIT_FLAG_EXPLICIT_ADDEND (dt DT_RELA) (dt DT_RELASZ) relaent rls else Some rls);
     rls \<leftarrow> (if dt DT_GNU_CONFLICT \<noteq> None
       then push_editor erw (DT_GNU_CONFLICT AND 0xff) RELOC_EDIT_FLAG_EXPLICIT_ADDEND (dt DT_GNU_CONFLICT) (dt DT_GNU_CONFLICTSZ) relaent rls
       else Some rls);
     case dt DT_PLTREL of None \<Rightarrow> Some rls
     | Some d \<Rightarrow>
         if esw bs (d_val d) = DT_REL then push_editor erw DT_JMPREL 0 (dt DT_JMPREL) (dt DT_PLTRELSZ) relent rls
         else if esw bs (d_val d) = DT_RELA
           then push_editor erw DT_JMPREL RELOC_EDIT_FLAG_EXPLICIT_ADDEND (dt DT_JMPREL) (dt DT_PLTRELSZ) relaent rls
         else Some rls }"

text \<open>The unused editors are zeroed; the first one is never the null pointer afterwards.\<close>

definition relocs_live :: "'a::len word erw \<Rightarrow> bool" where
  "relocs_live erw = rl_live (hd (e_relocs erw))"

definition erw_relocs_init :: "'a::len word erw \<Rightarrow> 'a word erw option" where
  "erw_relocs_init erw =
    (if relocs_live erw then Some erw
     else do {
       erw \<leftarrow> dhdrs_ready erw;
       rls \<leftarrow> relocs_init erw;
       let rls = rls @ replicate (MAX_RELOC_EDITORS - length rls) reloc_editor_none;
       let first = hd rls;
       Some (erw\<lparr>e_relocs := (if rl_live first then first else first\<lparr>rl_live := True\<rparr>) # tl rls\<rparr>) })"

subsection \<open>The kind and the symbol of an entry\<close>

definition rel_type :: "'a::len word \<Rightarrow> u32" where
  "rel_type info = (if LENGTH('a) = 32 then ucast (ucast info :: u8) else ucast info)"

definition rel_sym :: "'a::len word \<Rightarrow> 'a word" where
  "rel_sym info = (if LENGTH('a) = 32 then drop_bit 8 info else drop_bit 32 info)"

text \<open>The editors in use, up to the first that is not.\<close>

definition reloc_editors :: "'a::len word erw \<Rightarrow> nat list" where
  "reloc_editors erw = takeWhile (\<lambda>k. rl_live (e_relocs erw ! k)) [0..<MAX_RELOC_EDITORS]"

definition clear_addend :: "u32 \<Rightarrow> nat \<Rightarrow> nat \<Rightarrow> 'a::len word erw \<times> bool \<Rightarrow> ('a word erw \<times> bool) option" where
  "clear_addend type k i s = (case s of (erw, modified) \<Rightarrow> do {
     let rl = e_relocs erw ! k;
     let off = i * unat (rl_entry_size rl);
     info \<leftarrow> rel_word erw rl (off + word_size TYPE('a));
     addend \<leftarrow> rel_word erw rl (off + 2 * word_size TYPE('a));
     if addend \<noteq> 0 \<and> rel_type (esw (e_bswap erw) info) = type then do {
       erw \<leftarrow> rel_set_word erw k (off + 2 * word_size TYPE('a)) 0;
       Some (erw, True) }
     else Some (erw, modified) })"

definition relocs_clear_rela_addends_for_type :: "'a::len word erw \<Rightarrow> u32 \<Rightarrow> 'a word erw option" where
  "relocs_clear_rela_addends_for_type erw type = do {
     erw \<leftarrow> (if relocs_live erw then Some erw else erw_relocs_init erw);
     each (\<lambda>k erw.
       let rl = e_relocs erw ! k in
       if rl_flags rl AND RELOC_EDIT_FLAG_EXPLICIT_ADDEND = 0 \<or> unat (rl_entry_size rl) < 3 * word_size TYPE('a) then Some erw
       else do {
         (erw, modified) \<leftarrow> each (clear_addend type k) [0..<unat (ucast (rl_count rl) :: u32)] (erw, False);
         Some (if \<not> modified then erw
           else if rl_capacity rl \<noteq> 0 then
             set_modified ERW_MODIFIED_RELOCS (erw\<lparr>e_relocs := (e_relocs erw)[k := (e_relocs erw ! k)
               \<lparr>rl_flags := rl_flags (e_relocs erw ! k) OR RELOC_EDIT_FLAG_DIRTY\<rparr>]\<rparr>)
           else set_modified ERW_MODIFIED_MISC erw) })
       (reloc_editors erw) erw }"

end
