(* ===== verification/Dsyms.thy ===== *)
theory Dsyms
  imports StringRefs Relocs
begin

section \<open>erw_nne.h: finding the dynamic symbols\<close>

text \<open>
  The dynamic symbol table has no length of its own: it is inferred from the hash tables, the
  relocations and the MIPS entries. Then what is known of each symbol is gathered: whether it
  is local or exportable, which hash tables find it, and how relocations use it. Walking a
  table that has no end gives \<open>None\<close>, as reading outside the file does.
\<close>

subsection \<open>The number of symbols\<close>

text \<open>Words of the file from address \<open>v\<close> on, in the entries of the address map from index \<open>i\<close> on.\<close>

definition file_u32 :: "'a::len word erw \<Rightarrow> u64 \<Rightarrow> u32 option" where
  "file_u32 erw f = map_option (\<lambda>bs. esw (e_bswap erw) (word_of_bytes bs)) (mem_read (e_f erw) (unat f) 4)"

text \<open>\<open>n\<close> words from file offset \<open>f\<close> on: the largest one, at least \<open>m\<close>.\<close>

fun max_words :: "'a::len word erw \<Rightarrow> u64 \<Rightarrow> nat \<Rightarrow> u32 \<Rightarrow> u32 option" where
  "max_words erw f 0 m = Some m"
| "max_words erw f (Suc n) m = do {
     word \<leftarrow> file_u32 erw f;
     max_words erw (f + 4) n (if word > m then word else m) }"

partial_function (option) max_bucket :: "'a::len word erw \<Rightarrow> nat \<Rightarrow> u64 \<Rightarrow> u64 \<Rightarrow> u32 \<Rightarrow> u32 option" where
  "max_bucket erw i v vend m =
    (if i + 1 \<ge> length (m_entries (e_v2f erw)) then None
     else if v2f_special (v2f (m_entries (e_v2f erw) ! i)) then
       (if vbase (m_entries (e_v2f erw) ! (i + 1)) < vend
        then max_bucket erw (i + 1) (vbase (m_entries (e_v2f erw) ! (i + 1))) vend m else Some m)
     else Option.bind (max_words erw (v + v2f (m_entries (e_v2f erw) ! i))
         ((unat (min (vbase (m_entries (e_v2f erw) ! (i + 1))) vend - v) + 3) div 4) m)
       (\<lambda>m. if min (vbase (m_entries (e_v2f erw) ! (i + 1))) vend < vend
            then max_bucket erw (i + 1) (min (vbase (m_entries (e_v2f erw) ! (i + 1))) vend) vend m else Some m))"

text \<open>Along one chain: the count at the end of the chain, or the count so far when the words end.\<close>

fun chain_words :: "'a::len word erw \<Rightarrow> u64 \<Rightarrow> nat \<Rightarrow> u32 \<Rightarrow> (u32 \<times> bool) option" where
  "chain_words erw f 0 m = Some (m, False)"
| "chain_words erw f (Suc n) m = do {
     cval \<leftarrow> file_u32 erw f;
     if cval AND 1 \<noteq> 0 then Some (m + 1, True) else chain_words erw (f + 4) n (m + 1) }"

partial_function (option) chain_end :: "'a::len word erw \<Rightarrow> nat \<Rightarrow> u64 \<Rightarrow> u32 \<Rightarrow> u32 option" where
  "chain_end erw i v m =
    (if i + 1 \<ge> length (m_entries (e_v2f erw)) then None
     else if v2f_special (v2f (m_entries (e_v2f erw) ! i)) then
       chain_end erw (i + 1) (vbase (m_entries (e_v2f erw) ! (i + 1)))
         (m + ucast ((v - vbase (m_entries (e_v2f erw) ! (i + 1))) div 4))
     else Option.bind (chain_words erw (v + v2f (m_entries (e_v2f erw) ! i))
         ((unat (vbase (m_entries (e_v2f erw) ! (i + 1)) - v) + 3) div 4) m)
       (\<lambda>r. if snd r then Some (fst r)
            else chain_end erw (i + 1) (vbase (m_entries (e_v2f erw) ! (i + 1))) (fst r)))"

definition u32s_at :: "'a::len word erw \<Rightarrow> u64 \<Rightarrow> nat \<Rightarrow> u32 list option" where
  "u32s_at erw v n = do {
     (bs, _) \<leftarrow> materialise_v_range_to erw v (of_nat (4 * n));
     Some (map (\<lambda>i. esw (e_bswap erw) (field (4 * i) bs)) [0..<n]) }"

definition symbol_count_from_gnu_hash :: "'a::len word erw \<Rightarrow> u64 \<Rightarrow> u32 option" where
  "symbol_count_from_gnu_hash erw v = do {
     meta \<leftarrow> u32s_at erw v 4;
     let v = v + 16;
     let v = v + ucast (meta ! 2) * of_nat (word_size TYPE('a));
     let vend = v + ucast (meta ! 0 * 4);
     max_word \<leftarrow> (if v < vend then max_bucket erw (v2f_entry_at (e_v2f erw) v) v vend 0 else Some 0);
     if max_word \<noteq> 0 then do {
       let v = vend + ucast ((max_word - meta ! 1) * 4);
       chain_end erw (v2f_entry_at (e_v2f erw) v) v max_word }
     else Some 0 }"

definition count_reloc :: "'a::len word erw \<Rightarrow> reloc_editor \<Rightarrow> nat \<Rightarrow> u32 \<Rightarrow> u32 option" where
  "count_reloc erw rl i nsym = do {
     w \<leftarrow> rel_word erw rl (i * unat (rl_entry_size rl) + word_size TYPE('a));
     let info = esw (e_bswap erw) w;
     Some (if rel_sym info \<ge> ucast nsym \<and>
              reloc_kind_rank (reloc_kind_classifier_for_machine (e_machine erw) (rel_type info)) > reloc_kind_rank reloc_kind_no_symbol_lookup
           then ucast (rel_sym info) + 1 else nsym) }"

definition symbol_count_from_relocs :: "'a::len word erw \<Rightarrow> u32 \<Rightarrow> u32 option" where
  "symbol_count_from_relocs erw nsym =
    each (\<lambda>k nsym. let rl = e_relocs erw ! k in
        if unat (rl_entry_size rl) < 2 * word_size TYPE('a) then Some nsym
        else each (count_reloc erw rl) [0..<unat (ucast (rl_count rl) :: u32)] nsym)
      (reloc_editors erw) nsym"

subsection \<open>What is known of the symbols\<close>

definition sym_get :: "'a::len word erw \<Rightarrow> nat \<Rightarrow> 'a word sym option" where
  "sym_get erw i = ed_get sym_codec (e_f erw) (sy_syms (e_dsyms erw)) i"

definition sym_count :: "'a::len word erw \<Rightarrow> u32" where
  "sym_count erw = ed_count (sy_syms (e_dsyms erw))"

text \<open>\<open>info[i].flags |= flags\<close>.\<close>

definition add_sym_flags :: "'a::len word erw \<Rightarrow> nat \<Rightarrow> u32 \<Rightarrow> 'a word erw option" where
  "add_sym_flags erw i flags =
    (let info = sy_info (e_dsyms erw) in
     if i < length info then
       Some (erw\<lparr>e_dsyms := (e_dsyms erw)\<lparr>sy_info := info[i := (info ! i)\<lparr>si_flags := si_flags (info ! i) OR flags\<rparr>]\<rparr>\<rparr>)
     else None)"

definition reloc_sym_flags :: "u32 \<Rightarrow> reloc_kind \<Rightarrow> u32 option" where
  "reloc_sym_flags eager kind = (case kind of
     reloc_kind_noop \<Rightarrow> None
   | reloc_kind_no_symbol_lookup \<Rightarrow> None
   | reloc_kind_lookup_result_unused \<Rightarrow> Some (eager OR SYM_INFO_RELOC_REGULAR)
   | reloc_kind_regular \<Rightarrow> Some (eager OR SYM_INFO_RELOC_REGULAR)
   | reloc_kind_class_plt \<Rightarrow> Some (eager OR SYM_INFO_RELOC_PLT)
   | reloc_kind_class_copy \<Rightarrow> Some (eager OR SYM_INFO_RELOC_COPY))"

definition gather_reloc :: "nat \<Rightarrow> nat \<Rightarrow> 'a::len word erw \<Rightarrow> 'a word erw option" where
  "gather_reloc k i erw = do {
     let rl = e_relocs erw ! k;
     w \<leftarrow> rel_word erw rl (i * unat (rl_entry_size rl) + word_size TYPE('a));
     let info = esw (e_bswap erw) w;
     let eager = (if rl_dt rl = DT_JMPREL then SYM_INFO_RELOC_MAYBE_EAGER else SYM_INFO_RELOC_EAGER);
     case reloc_sym_flags eager (reloc_kind_classifier_for_machine (e_machine erw) (rel_type info)) of
       None \<Rightarrow> Some erw | Some flags \<Rightarrow> add_sym_flags erw (unat (rel_sym info)) flags }"

definition gather_sym_info_from_relocs :: "'a::len word erw \<Rightarrow> 'a word erw option" where
  "gather_sym_info_from_relocs erw =
    each (\<lambda>k erw. let rl = e_relocs erw ! k in
        if unat (rl_entry_size rl) < 2 * word_size TYPE('a) then Some erw
        else each (gather_reloc k) [0..<unat (ucast (rl_count rl) :: u32)] erw)
      (reloc_editors erw) erw"

definition dsym_flags :: "bool \<Rightarrow> u8 \<Rightarrow> 'a::len word sym \<Rightarrow> u32" where
  "dsym_flags bs undef_other s =
    (let stt = st_info s AND 0xf; bind = drop_bit 4 (st_info s); visi = st_other s AND 3
     in if bind = STB_LOCAL \<or> visi = STV_HIDDEN \<or> visi = STV_INTERNAL then SYM_INFO_LOCAL
        else if stt \<in> {STT_NOTYPE, STT_OBJECT, STT_FUNC, STT_COMMON, STT_TLS, STT_GNU_IFUNC} \<and>
                (bind = STB_GLOBAL \<or> bind = STB_WEAK \<or> bind = STB_GNU_UNIQUE) \<and>
                (st_value s \<noteq> 0 \<or> st_shndx s = esw bs SHN_ABS \<or> stt = STT_TLS) then
          (if st_shndx s = SHN_UNDEF then
             (if (st_other s OR undef_other) AND STO_MIPS_PLT \<noteq> 0 then SYM_INFO_EXPORTABLE else 0)
           else SYM_INFO_EXPORTABLE OR SYM_INFO_PLT_EXPORTABLE)
        else 0)"

definition is_mips :: "'a::len word erw \<Rightarrow> bool" where
  "is_mips erw \<longleftrightarrow> e_machine erw = EM_MIPS \<or> e_machine erw = EM_MIPS_RS3_LE"

definition gather_sym_info_from_dsym_table :: "'a::len word erw \<Rightarrow> 'a word erw option" where
  "gather_sym_info_from_dsym_table erw =
    each (\<lambda>i erw. do {
        sym \<leftarrow> sym_get erw i;
        add_sym_flags erw i (dsym_flags (e_bswap erw) (if is_mips erw then 0 else STO_MIPS_PLT) sym) })
      [0..<unat (sym_count erw)] erw"

text \<open>The flags that the global part of a MIPS \<open>GOT\<close> gives; its word is read for functions only.\<close>

definition mips_got_flags :: "'a::len word erw \<Rightarrow> 'a word \<Rightarrow> 'a word sym \<Rightarrow> u32 option" where
  "mips_got_flags erw gotaddr s = do {
     let stt = st_info s AND 0xf;
     let shndx = esw (e_bswap erw) (st_shndx s);
     let eager = SYM_INFO_RELOC_EAGER OR SYM_INFO_RELOC_REGULAR;
     let maybe_eager = SYM_INFO_RELOC_MAYBE_EAGER OR SYM_INFO_RELOC_PLT;
     if shndx = SHN_UNDEF then
       Some (if stt = STT_FUNC \<and> st_value s \<noteq> 0 \<and> st_other s AND STO_MIPS_PLT = 0 then maybe_eager else eager)
     else if shndx = SHN_COMMON then Some eager
     else if stt = STT_FUNC then do {
       (bs, _) \<leftarrow> materialise_v_range_to erw (ucast gotaddr) (of_nat (word_size TYPE('a)));
       Some (if word_of_bytes bs \<noteq> st_value s then maybe_eager else eager) }
     else Some (if stt \<noteq> STT_SECTION then eager else 0) }"

definition gather_sym_info_from_mips_got :: "'a::len word erw \<Rightarrow> 'a word erw option" where
  "gather_sym_info_from_mips_got erw = do {
     es \<leftarrow> dyn_list erw;
     let bs = e_bswap erw;
     let val = (\<lambda>tag default. case last_dyn bs es tag of Some d \<Rightarrow> esw bs (d_val d) | None \<Rightarrow> default);
     let gotsym = val DT_MIPS_GOTSYM 0;
     let symtabno = val DT_MIPS_SYMTABNO (ucast (sym_count erw));
     let gotaddr = val DT_PLTGOT 0 + val DT_MIPS_LOCAL_GOTNO 0 * of_nat (word_size TYPE('a));
     each (\<lambda>i erw. do {
         sym \<leftarrow> sym_get erw i;
         flags \<leftarrow> mips_got_flags erw (gotaddr + of_nat (i - unat gotsym) * of_nat (word_size TYPE('a))) sym;
         add_sym_flags erw i flags })
       [unat gotsym..<unat symtabno] erw }"

subsection \<open>Which symbols the hash tables find\<close>

text \<open>\<open>info[i].flags |= flag; info[i].hash_distance = dist\<close>.\<close>

definition set_sym_hashed :: "'a::len word erw \<Rightarrow> nat \<Rightarrow> u32 \<Rightarrow> u32 \<Rightarrow> 'a word erw option" where
  "set_sym_hashed erw i flag dist = do {
     erw \<leftarrow> add_sym_flags erw i flag;
     let info = sy_info (e_dsyms erw);
     Some (erw\<lparr>e_dsyms := (e_dsyms erw)\<lparr>sy_info := info[i := (info ! i)\<lparr>si_hash_distance := dist\<rparr>]\<rparr>\<rparr>) }"

text \<open>Walking a chain of \<open>DT_HASH\<close> from symbol \<open>h\<close> for symbol \<open>b\<close>: the distance when it is found.\<close>

partial_function (option) hash_find :: "'a::len word erw \<Rightarrow> u64 \<Rightarrow> u32 \<Rightarrow> u32 \<Rightarrow> u32 \<Rightarrow> u32 option option" where
  "hash_find erw v_chain b h dist =
    (if h = 0 then Some None
     else if h = b then Some (Some dist)
     else Option.bind (materialise_v_u32 erw (v_chain + ucast h * 4)) (\<lambda>h. hash_find erw v_chain b h (dist - 1)))"

definition gather_hash_word :: "u64 \<Rightarrow> u32 \<Rightarrow> nat \<Rightarrow> 'a::len word erw \<Rightarrow> 'a word erw option" where
  "gather_hash_word v nbucket i erw = do {
     b \<leftarrow> materialise_v_u32 erw (v + of_nat i * 4);
     if b = 0 then Some erw
     else do {
       sym \<leftarrow> sym_get erw (unat b);
       (erw, h) \<leftarrow> erw_dynstr_decode_elf_hash erw (ucast (esw (e_bswap erw) (st_name sym)));
       h \<leftarrow> (if nbucket = 0 then None else materialise_v_u32 erw (v + ucast (h mod nbucket) * 4));
       found \<leftarrow> hash_find erw (v + ucast nbucket * 4) b h 0x7fffffff;
       case found of None \<Rightarrow> Some erw | Some dist \<Rightarrow> set_sym_hashed erw (unat b) SYM_INFO_IN_HASH dist } }"

definition gather_sym_info_from_hash :: "'a::len word erw \<Rightarrow> u64 \<Rightarrow> 'a word erw option" where
  "gather_sym_info_from_hash erw v = do {
     meta \<leftarrow> u32s_at erw v 2;
     each (gather_hash_word (v + 8) (meta ! 0)) (rev [0..<unat (meta ! 0 + meta ! 1)]) erw }"

text \<open>
  Walking a chain of \<open>DT_GNU_HASH\<close> from \<open>symix\<close> on for symbol \<open>i\<close>, with the hash \<open>h\<close> without its
  lowest bit: whether it is found. At most \<open>n\<close> steps.
\<close>

fun gnu_hash_find :: "'a::len word erw \<Rightarrow> u64 \<Rightarrow> u32 \<Rightarrow> u32 \<Rightarrow> u32 \<Rightarrow> nat \<Rightarrow> bool option" where
  "gnu_hash_find erw v_chain h i symix 0 = Some False"
| "gnu_hash_find erw v_chain h i symix (Suc n) = do {
     h2 \<leftarrow> materialise_v_u32 erw (v_chain + ucast symix * 4);
     let h2 = h2 XOR h;
     if symix = i \<and> h2 \<le> 1 then Some True
     else if h2 AND 1 \<noteq> 0 then Some False
     else gnu_hash_find erw v_chain h i (symix + 1) n }"

definition bloom_word :: "'a::len word erw \<Rightarrow> u64 \<Rightarrow> u32 \<Rightarrow> u32 \<Rightarrow> 'a word option" where
  "bloom_word erw v h bloom_mask = do {
     (bs, _) \<leftarrow> materialise_v_range_to erw
       (v + ucast (h div of_nat (word_size TYPE('a) * 8) AND bloom_mask) * of_nat (word_size TYPE('a)))
       (of_nat (word_size TYPE('a)));
     Some (esw (e_bswap erw) (word_of_bytes bs)) }"

definition bloom_bit :: "'a::len itself \<Rightarrow> u32 \<Rightarrow> nat" where
  "bloom_bit _ h = unat (h AND of_nat (word_size TYPE('a) * 8 - 1))"

definition gather_gnu_hash_sym :: "u32 list \<Rightarrow> u64 \<Rightarrow> nat \<Rightarrow> 'a::len word erw \<Rightarrow> 'a word erw option" where
  "gather_gnu_hash_sym meta v k erw = do {
     let i = of_nat k;
     let v_buckets = v + ucast (meta ! 2) * of_nat (word_size TYPE('a));
     let v_chain = v_buckets + ucast (meta ! 0) * 4 - ucast (meta ! 1) * 4;
     sym \<leftarrow> sym_get erw k;
     (erw, h) \<leftarrow> erw_dynstr_decode_gnu_hash erw (ucast (esw (e_bswap erw) (st_name sym)));
     w \<leftarrow> bloom_word erw v h (meta ! 2 - 1);
     if bit w (bloom_bit TYPE('a) h) \<and> bit w (bloom_bit TYPE('a) (drop_bit (unat (meta ! 3)) h)) then do {
       symix \<leftarrow> (if meta ! 0 = 0 then None else materialise_v_u32 erw (v_buckets + ucast (h mod meta ! 0) * 4));
       if symix \<noteq> 0 \<and> symix \<le> i then do {
         found \<leftarrow> gnu_hash_find erw v_chain (h AND NOT 1) i symix (Suc (unat (i - symix)));
         if found then set_sym_hashed erw k SYM_INFO_IN_GNU_HASH (NOT (i - symix)) else Some erw }
       else Some erw }
     else Some erw }"

definition gather_sym_info_from_gnu_hash :: "'a::len word erw \<Rightarrow> u64 \<Rightarrow> 'a word erw option" where
  "gather_sym_info_from_gnu_hash erw v = do {
     meta \<leftarrow> u32s_at erw v 4;
     each (gather_gnu_hash_sym meta (v + 16)) [unat (meta ! 1)..<unat (sym_count erw)] erw }"

subsection \<open>Initialisation\<close>

definition no_dsyms :: "'a::len word erw \<Rightarrow> 'a word erw" where
  "no_dsyms erw = erw\<lparr>e_dsyms := (e_dsyms erw)\<lparr>sy_syms := editor_none\<lparr>ed_live := True\<rparr>, sy_versions := None\<rparr>\<rparr>"

text \<open>A window on the file when the whole range is in one entry of the map, a copy otherwise.\<close>

definition range_editor :: "'e codec \<Rightarrow> 'a::len word erw \<Rightarrow> u64 \<Rightarrow> u32 \<Rightarrow> 'e editor option" where
  "range_editor c erw v n =
    (let f = v2f_at (e_v2f erw) v in
     if \<not> v2f_special f \<and> v2f_next (e_v2f erw) v - v \<ge> ucast n * of_nat (c_size c)
     then Some \<lparr>ed_live = True, ed_at = unat (v + f), ed_heap = [], ed_count = n, ed_capacity = 0\<rparr>
     else do {
       (bs, _) \<leftarrow> materialise_v_range_to erw v (ucast n * of_nat (c_size c));
       Some \<lparr>ed_live = True, ed_at = 0, ed_heap = map Some (structs_of c (unat n) bs), ed_count = n, ed_capacity = n\<rparr> })"

definition materialise_versions :: "'a::len word erw \<Rightarrow> u64 \<Rightarrow> u32 \<Rightarrow> u16 editor option" where
  "materialise_versions erw v n = do {
     (bs, _) \<leftarrow> materialise_v_range_to erw v (ucast n * 2);
     Some \<lparr>ed_live = True, ed_at = 0, ed_heap = map Some (structs_of u16_codec (unat n) bs), ed_count = n, ed_capacity = n\<rparr> }"

text \<open>The symbols and their versions lie both in the file or both in blocks of their own.\<close>

definition dsyms_versions :: "'a::len word erw \<Rightarrow> 'a word sym editor \<Rightarrow> u64 option \<Rightarrow> u32 \<Rightarrow>
    ('a word sym editor \<times> u16 editor option) option" where
  "dsyms_versions erw syms versym nsym =
    (case versym of None \<Rightarrow> Some (syms, None)
     | Some v \<Rightarrow>
         if ed_capacity syms \<noteq> 0 then do { ed \<leftarrow> materialise_versions erw v nsym; Some (syms, Some ed) }
         else
           (let f = v2f_at (e_v2f erw) v in
            if v2f_next (e_v2f erw) v - v \<ge> ucast nsym * 2 then
              (if v2f_special f then Some (syms, None)
               else Some (syms, Some \<lparr>ed_live = True, ed_at = unat (v + f), ed_heap = [], ed_count = nsym, ed_capacity = 0\<rparr>))
            else do {
              es \<leftarrow> ed_list sym_codec (e_f erw) syms;
              ed \<leftarrow> materialise_versions erw v nsym;
              Some (syms\<lparr>ed_heap := map Some es, ed_capacity := nsym\<rparr>, Some ed) }))"

definition dsyms_init :: "'a::len word erw \<Rightarrow> 'a word erw option" where
  "dsyms_init erw = do {
     es \<leftarrow> dyn_list erw;
     let bs = e_bswap erw;
     let val = (\<lambda>tag. map_option (\<lambda>d. esw bs (d_val d)) (last_dyn bs es tag));
     let hash = val DT_HASH;
     let gnu_hash = val DT_GNU_HASH;
     let erw = erw\<lparr>e_dsyms := (e_dsyms erw)\<lparr>sy_original_had_hash := hash \<noteq> None, sy_want_hash := hash \<noteq> None,
       sy_original_had_gnu_hash := gnu_hash \<noteq> None, sy_want_gnu_hash := gnu_hash \<noteq> None\<rparr>\<rparr>;
     case val DT_SYMTAB of None \<Rightarrow> Some (no_dsyms erw)
     | Some symtab \<Rightarrow> do {
         let nsym = (case val DT_MIPS_SYMTABNO of Some n \<Rightarrow> if is_mips erw then ucast n else 0 | None \<Rightarrow> 0);
         nsym \<leftarrow> (case hash of None \<Rightarrow> Some nsym
           | Some h \<Rightarrow> do { nchain \<leftarrow> materialise_v_u32 erw (ucast h + 4); Some (max nsym nchain) });
         (erw, nsym) \<leftarrow> (case gnu_hash of None \<Rightarrow> Some (erw, nsym)
           | Some h \<Rightarrow> do {
               n \<leftarrow> symbol_count_from_gnu_hash erw (ucast h);
               Some (erw\<lparr>e_dsyms := (e_dsyms erw)\<lparr>sy_original_gnu_hash_count := n\<rparr>\<rparr>, max nsym n) });
         erw \<leftarrow> erw_relocs_init erw;
         nsym \<leftarrow> symbol_count_from_relocs erw nsym;
         if nsym = 0 then Some (no_dsyms erw)
         else do {
           syms \<leftarrow> range_editor sym_codec erw (ucast symtab) nsym;
           (syms, versions) \<leftarrow> dsyms_versions erw syms (map_option ucast (val DT_VERSYM)) nsym;
           let erw = erw\<lparr>e_dsyms := (e_dsyms erw)\<lparr>sy_syms := syms, sy_versions := versions,
             sy_info := replicate (unat nsym) \<lparr>si_flags = 0, si_hash_distance = 0\<rparr>\<rparr>\<rparr>;
           erw \<leftarrow> gather_sym_info_from_dsym_table erw;
           erw \<leftarrow> (case hash of None \<Rightarrow> Some erw | Some h \<Rightarrow> gather_sym_info_from_hash erw (ucast h));
           erw \<leftarrow> (case gnu_hash of None \<Rightarrow> Some erw | Some h \<Rightarrow> gather_sym_info_from_gnu_hash erw (ucast h));
           erw \<leftarrow> gather_sym_info_from_relocs erw;
           if is_mips erw then gather_sym_info_from_mips_got erw else Some erw } } }"

definition erw_dsyms_init :: "'a::len word erw \<Rightarrow> 'a word erw option" where
  "erw_dsyms_init erw =
    (if ed_live (sy_syms (e_dsyms erw)) then Some erw
     else do { erw \<leftarrow> dhdrs_ready erw; dsyms_init erw })"

end
