(* ===== verification/Vers.thy ===== *)
theory Vers
  imports StringRefs
begin

section \<open>erw.c, erw_nne.h: symbol versions needed and defined\<close>

text \<open>
  The linked lists of \<open>DT_VERNEED\<close> and \<open>DT_VERDEF\<close> are lists of groups of items, and an array
  maps each version index to its group and item. The identity of a C struct is a number that
  every new group or item gets.
\<close>

subsection \<open>The index array\<close>

definition no_ref :: ver_index_ref where
  "no_ref = \<lparr>vr_group = None, vr_item = None\<rparr>"

definition ensure_index :: "ver_editor \<Rightarrow> u32 \<Rightarrow> ver_editor" where
  "ensure_index ve idx =
    (if unat idx \<ge> length (ve_base ve) then
       (let capacity = ve_capacity ve;
            new_capacity = (if idx \<ge> capacity then capacity + (if idx < capacity then capacity else idx + 1) else capacity)
        in ve\<lparr>ve_capacity := new_capacity,
              ve_base := ve_base ve @ replicate (unat idx + 1 - length (ve_base ve)) no_ref\<rparr>)
     else ve)"

text \<open>The entry of an index is made to refer to a group (none for definitions) and an item.\<close>

definition set_ref :: "ver_editor \<Rightarrow> u32 \<Rightarrow> nat option \<Rightarrow> nat option \<Rightarrow> ver_editor" where
  "set_ref ve idx g i =
    (let ve = ensure_index ve idx in ve\<lparr>ve_base := (ve_base ve)[unat idx := \<lparr>vr_group = g, vr_item = i\<rparr>]\<rparr>)"

definition new_id :: "ver_editor \<Rightarrow> nat \<times> ver_editor" where
  "new_id ve = (ve_next_id ve, ve\<lparr>ve_next_id := ve_next_id ve + 1\<rparr>)"

subsection \<open>Reading the sections\<close>

text \<open>A struct at an address, and its address again when it lies in the file in one piece.\<close>

definition read_struct :: "'e codec \<Rightarrow> 'a::len word erw \<Rightarrow> u64 \<Rightarrow> ('e \<times> u64) option" where
  "read_struct c erw v =
    map_option (\<lambda>(bs, in_place). (c_dec c bs, if in_place then v else 0)) (materialise_v_range_to erw v (of_nat (c_size c)))"

definition vernaux_item :: "bool \<Rightarrow> nat \<Rightarrow> vernaux \<times> u64 \<Rightarrow> ver_item" where
  "vernaux_item bs n s = \<lparr>vi_id = n, vi_vaddr = snd s, vi_str = esw bs (vna_name (fst s)), vi_hash = esw bs (vna_hash (fst s)),
     vi_flags = esw bs (vna_flags (fst s)), vi_index = esw bs (vna_other (fst s)), vi_state = 0\<rparr>"

text \<open>The items of one group and the version editor with their indices; \<open>None\<close> when the list has no end.\<close>

partial_function (option) read_vernauxs :: "'a::len word erw \<Rightarrow> nat \<Rightarrow> u64 \<Rightarrow> ver_editor \<Rightarrow> (ver_item list \<times> ver_editor) option" where
  "read_vernauxs erw g aaddr ve =
    Option.bind (read_struct vernaux_codec erw aaddr) (\<lambda>s.
      if vna_next (fst s) = 0 then
        Some ([vernaux_item (e_bswap erw) (ve_next_id ve) s],
          set_ref (snd (new_id ve)) (ucast (vi_index (vernaux_item (e_bswap erw) (ve_next_id ve) s)) AND 0x7fff) (Some g) (Some (ve_next_id ve)))
      else
        Option.bind (read_vernauxs erw g (aaddr + ucast (esw (e_bswap erw) (vna_next (fst s))))
          (set_ref (snd (new_id ve)) (ucast (vi_index (vernaux_item (e_bswap erw) (ve_next_id ve) s)) AND 0x7fff) (Some g) (Some (ve_next_id ve))))
        (\<lambda>r. Some (vernaux_item (e_bswap erw) (ve_next_id ve) s # fst r, snd r)))"

definition read_verneed_group :: "'a::len word erw \<Rightarrow> u64 \<Rightarrow> verneed \<times> u64 \<Rightarrow> ver_editor \<Rightarrow> (ver_group \<times> ver_editor) option" where
  "read_verneed_group erw vaddr s ve = do {
     let bs = e_bswap erw;
     let (n, ve) = new_id ve;
     (items, ve) \<leftarrow> (if vn_aux (fst s) \<noteq> 0 then read_vernauxs erw n (vaddr + ucast (esw bs (vn_aux (fst s)))) ve else Some ([], ve));
     Some (\<lparr>vg_id = n, vg_items = items, vg_vaddr = snd s, vg_name = esw bs (vn_file (fst s)), vg_state = 0\<rparr>, ve) }"

partial_function (option) read_verneeds :: "'a::len word erw \<Rightarrow> u64 \<Rightarrow> ver_editor \<Rightarrow> (ver_group list \<times> ver_editor) option" where
  "read_verneeds erw vaddr ve =
    Option.bind (read_struct verneed_codec erw vaddr) (\<lambda>s.
      Option.bind (read_verneed_group erw vaddr s ve) (\<lambda>g.
        if vn_next (fst s) = 0 then Some ([fst g], snd g)
        else Option.bind (read_verneeds erw (vaddr + ucast (esw (e_bswap erw) (vn_next (fst s)))) (snd g))
          (\<lambda>r. Some (fst g # fst r, snd r))))"

text \<open>The names of a definition: the first item has the fields of the group, the others only a name.\<close>

partial_function (option) read_verdauxs :: "'a::len word erw \<Rightarrow> u64 \<Rightarrow> ver_item \<Rightarrow> ver_editor \<Rightarrow> (ver_item list \<times> ver_editor) option" where
  "read_verdauxs erw aaddr i ve =
    Option.bind (read_struct verdaux_codec erw aaddr) (\<lambda>s.
      if vda_next (fst s) = 0 then Some ([i\<lparr>vi_vaddr := snd s, vi_str := esw (e_bswap erw) (vda_name (fst s))\<rparr>], ve)
      else Option.bind (read_verdauxs erw (aaddr + ucast (esw (e_bswap erw) (vda_next (fst s))))
          \<lparr>vi_id = ve_next_id ve, vi_vaddr = 0, vi_str = 0, vi_hash = 0, vi_flags = 0, vi_index = 0, vi_state = 0\<rparr> (snd (new_id ve)))
        (\<lambda>r. Some (i\<lparr>vi_vaddr := snd s, vi_str := esw (e_bswap erw) (vda_name (fst s))\<rparr> # fst r, snd r)))"

definition read_verdef_group :: "'a::len word erw \<Rightarrow> u64 \<Rightarrow> verdef \<times> u64 \<Rightarrow> ver_editor \<Rightarrow> (ver_group \<times> ver_editor) option" where
  "read_verdef_group erw vaddr s ve = do {
     let bs = e_bswap erw;
     let vd = fst s;
     let (n, ve) = new_id ve;
     let (m, ve) = new_id ve;
     let i = \<lparr>vi_id = m, vi_vaddr = 0, vi_str = 0, vi_hash = esw bs (vd_hash vd), vi_flags = esw bs (vd_flags vd),
       vi_index = esw bs (vd_ndx vd), vi_state = 0\<rparr>;
     (items, ve) \<leftarrow> (if vd_aux vd \<noteq> 0 then
         (let ve = (if vi_flags i AND VER_FLG_BASE = 0 then set_ref ve (ucast (vi_index i) AND 0x7fff) None (Some m) else ve)
          in read_verdauxs erw (vaddr + ucast (esw bs (vd_aux vd))) i ve)
       else Some ([i], ve));
     Some (\<lparr>vg_id = n, vg_items = items, vg_vaddr = snd s, vg_name = 0, vg_state = 0\<rparr>, ve) }"

partial_function (option) read_verdefs :: "'a::len word erw \<Rightarrow> u64 \<Rightarrow> ver_editor \<Rightarrow> (ver_group list \<times> ver_editor) option" where
  "read_verdefs erw vaddr ve =
    Option.bind (read_struct verdef_codec erw vaddr) (\<lambda>s.
      Option.bind (read_verdef_group erw vaddr s ve) (\<lambda>g.
        if vd_next (fst s) = 0 then Some ([fst g], snd g)
        else Option.bind (read_verdefs erw (vaddr + ucast (esw (e_bswap erw) (vd_next (fst s)))) (snd g))
          (\<lambda>r. Some (fst g # fst r, snd r))))"

definition vers_init :: "'a::len word erw \<Rightarrow> 'a word erw option" where
  "vers_init erw = do {
     es \<leftarrow> dyn_list erw;
     let bs = e_bswap erw;
     let val = (\<lambda>tag. case find (\<lambda>d. esw bs (d_tag d) = tag) (rev es) of Some d \<Rightarrow> esw bs (d_val d) | None \<Rightarrow> 0);
     let ve = e_vers erw;
     ve \<leftarrow> (if val DT_VERNEED \<noteq> 0 then do {
         (gs, ve) \<leftarrow> read_verneeds erw (ucast (val DT_VERNEED)) ve;
         Some (ve\<lparr>ve_need := gs\<rparr>) } else Some ve);
     ve \<leftarrow> (if val DT_VERDEF \<noteq> 0 then do {
         (gs, ve) \<leftarrow> read_verdefs erw (ucast (val DT_VERDEF)) ve;
         Some (ve\<lparr>ve_def := gs\<rparr>) } else Some ve);
     Some (erw\<lparr>e_vers := ve\<rparr>) }"

definition erw_vers_init :: "'a::len word erw \<Rightarrow> 'a word erw option" where
  "erw_vers_init erw =
    (if ve_base (e_vers erw) \<noteq> [] then Some erw
     else do {
       erw \<leftarrow> dhdrs_ready erw;
       vers_init (erw\<lparr>e_vers := ensure_index (e_vers erw) 1\<rparr>) })"

subsection \<open>Sweeping\<close>

definition has_state :: "u8 \<Rightarrow> u8 \<Rightarrow> bool" where
  "has_state state flags \<longleftrightarrow> state AND flags \<noteq> 0"

definition verdef_sweep_removed_refs :: "ver_group list \<Rightarrow> ver_group list" where
  "verdef_sweep_removed_refs gs = map (\<lambda>g. case vg_items g of [] \<Rightarrow> g
     | i # _ \<Rightarrow> if has_state (vi_state i) VER_EDIT_STATE_REMOVED_REFS
         then g\<lparr>vg_state := vg_state g OR VER_EDIT_STATE_PENDING_DELETE\<rparr> else g) gs"

text \<open>
  \<open>vers_erase_pending_deletes\<close>: of a node that is kept, the successor becomes the next node
  that is kept, and the node is marked dirty when its successor is dirty or deleted.
\<close>

definition item_pending :: "ver_item \<Rightarrow> bool" where
  "item_pending i \<longleftrightarrow> has_state (vi_state i) VER_EDIT_STATE_PENDING_DELETE"

definition group_pending :: "ver_group \<Rightarrow> bool" where
  "group_pending g \<longleftrightarrow> has_state (vg_state g) VER_EDIT_STATE_PENDING_DELETE"

definition item_dirty :: "ver_item \<Rightarrow> ver_item" where
  "item_dirty i = i\<lparr>vi_state := vi_state i OR VER_EDIT_STATE_DIRTY\<rparr>"

definition group_dirty :: "ver_group \<Rightarrow> ver_group" where
  "group_dirty g = g\<lparr>vg_state := vg_state g OR VER_EDIT_STATE_DIRTY\<rparr>"

definition touched :: "u8 \<Rightarrow> bool" where
  "touched state \<longleftrightarrow> has_state state (VER_EDIT_STATE_DIRTY OR VER_EDIT_STATE_PENDING_DELETE)"

lemma dropWhile_shorter: "length (dropWhile P (x # xs)) < Suc (Suc (length xs))"
  using length_dropWhile_le [of P "x # xs"] by simp

text \<open>The loop over the items, from an item that is kept.\<close>

function erase_items :: "ver_item list \<Rightarrow> ver_item list" where
  "erase_items [] = []"
| "erase_items [i] = [i]"
| "erase_items (i # next # rest) =
    (if touched (vi_state next) then item_dirty i # erase_items (dropWhile item_pending (next # rest))
     else i # erase_items (next # rest))"
  by pat_completeness auto
termination
  by (relation "measure length") (simp_all add: dropWhile_shorter del: dropWhile.simps)

definition erase_in_group :: "ver_group \<Rightarrow> ver_group" where
  "erase_in_group g = (case vg_items g of
     i # rest \<Rightarrow> if touched (vi_state i) then (group_dirty g)\<lparr>vg_items := erase_items (dropWhile item_pending (i # rest))\<rparr>
                 else g\<lparr>vg_items := erase_items (i # rest)\<rparr>
   | [] \<Rightarrow> g)"

function erase_groups :: "ver_group list \<Rightarrow> ver_group list" where
  "erase_groups [] = []"
| "erase_groups [g] = [erase_in_group g]"
| "erase_groups (g # next # rest) =
    (if touched (vg_state next) then erase_in_group (group_dirty g) # erase_groups (dropWhile group_pending (next # rest))
     else erase_in_group g # erase_groups (next # rest))"
  by pat_completeness auto
termination
  by (relation "measure length") (simp_all add: dropWhile_shorter del: dropWhile.simps)

definition vers_erase_pending_deletes :: "ver_group list \<Rightarrow> ver_group list" where
  "vers_erase_pending_deletes gs = erase_groups (dropWhile group_pending gs)"

subsection \<open>Addresses\<close>

definition vers_update_shdr_light :: "'a::len word erw \<Rightarrow> bstr \<Rightarrow> u32 \<Rightarrow> 'a word erw option" where
  "vers_update_shdr_light erw section_name g_count = do {
     (erw, shdr) \<leftarrow> shdr_find erw section_name;
     case shdr of None \<Rightarrow> Some erw
     | Some a \<Rightarrow> do {
         s \<leftarrow> get_at (shdr_codec :: 'a word shdr codec) (e_f erw) a;
         put_at shdr_codec erw a (s\<lparr>sh_info := esw (e_bswap erw) g_count\<rparr>) } }"

definition vers_update_shdr_full :: "'a::len word erw \<Rightarrow> bstr \<Rightarrow> u64 \<Rightarrow> u64 \<Rightarrow> u32 \<Rightarrow> 'a word erw option" where
  "vers_update_shdr_full erw section_name v nb g_count = do {
     (erw, shdr) \<leftarrow> shdr_find erw section_name;
     case shdr of None \<Rightarrow> Some erw
     | Some a \<Rightarrow> do {
         s \<leftarrow> get_at (shdr_codec :: 'a word shdr codec) (e_f erw) a;
         let bs = e_bswap erw;
         type \<leftarrow> (if section_name ! 13 = of_char (CHR ''r'') then Some SHT_GNU_verneed
                 else if section_name ! 13 = of_char (CHR ''d'') then Some SHT_GNU_verdef else None);
         put_at shdr_codec erw a (s\<lparr>sh_type := esw bs type,
           sh_flags := esw bs ((esw bs (sh_flags s) AND NOT (SHF_WRITE OR SHF_EXECINSTR)) OR SHF_ALLOC),
           sh_addr := esw bs (ucast v), sh_offset := esw bs (ucast (v + v2f_at (e_v2f erw) v)), sh_size := esw bs (ucast nb),
           sh_info := esw bs g_count, sh_addralign := esw bs 4\<rparr>) } }"

text \<open>The nodes that stay take over the addresses there are, in their order.\<close>

fun assign_items :: "u64 list \<Rightarrow> ver_item list \<Rightarrow> ver_item list" where
  "assign_items vs [] = []"
| "assign_items vs (i # rest) =
    (if item_pending i then i\<lparr>vi_vaddr := 0\<rparr> # assign_items vs rest
     else item_dirty (i\<lparr>vi_vaddr := hd vs\<rparr>) # assign_items (tl vs) rest)"

fun assign_groups :: "u64 list \<Rightarrow> ver_group list \<Rightarrow> ver_group list" where
  "assign_groups vs [] = []"
| "assign_groups vs (g # rest) =
    (if group_pending g then g\<lparr>vg_vaddr := 0\<rparr> # assign_groups vs rest
     else group_dirty (g\<lparr>vg_vaddr := hd vs\<rparr>) # assign_groups (tl vs) rest)"

text \<open>How many addresses are left over, negative when new ones are needed, and whether any node has none.\<close>

definition items_free :: "ver_item list \<Rightarrow> int" where
  "items_free is = int (length (filter (\<lambda>i. item_pending i \<and> vi_vaddr i \<noteq> 0) is)) -
     int (length (filter (\<lambda>i. \<not> item_pending i \<and> vi_vaddr i = 0) is))"

definition groups_free :: "ver_group list \<Rightarrow> int" where
  "groups_free gs = int (length (filter (\<lambda>g. group_pending g \<and> vg_vaddr g \<noteq> 0) gs)) -
     int (length (filter (\<lambda>g. \<not> group_pending g \<and> vg_vaddr g = 0) gs))"

text \<open>The items of one group; the flag is \<open>inplace\<close>.\<close>

definition ensure_items :: "ver_group \<Rightarrow> bool \<Rightarrow> ver_group \<times> bool" where
  "ensure_items g inplace =
    (if group_pending g then (g, inplace)
     else if items_free (vg_items g) < 0 then (g, False)
     else if (\<exists>i \<in> set (vg_items g). \<not> item_pending i \<and> vi_vaddr i = 0) \<and> inplace then
       (g\<lparr>vg_items := assign_items (map vi_vaddr (filter (\<lambda>i. vi_vaddr i \<noteq> 0) (vg_items g))) (vg_items g)\<rparr>, inplace)
     else (g, inplace))"

fun ensure_group_items :: "ver_group list \<Rightarrow> bool \<Rightarrow> ver_group list \<times> bool" where
  "ensure_group_items [] inplace = ([], inplace)"
| "ensure_group_items (g # rest) inplace =
    (let (g, inplace) = ensure_items g inplace; (rest, inplace) = ensure_group_items rest inplace in (g # rest, inplace))"

definition nb_required :: "nat \<Rightarrow> nat \<Rightarrow> ver_group list \<Rightarrow> nat" where
  "nb_required nb_group nb_item gs = sum_list (map (\<lambda>g. if group_pending g then 0
     else nb_group + length (filter (\<lambda>i. \<not> item_pending i) (vg_items g)) * nb_item) gs)"

text \<open>New addresses for all nodes that stay: the groups from \<open>v\<close> on, the items from \<open>v_item\<close> on.\<close>

fun place_items :: "u64 \<Rightarrow> u64 \<Rightarrow> ver_item list \<Rightarrow> ver_item list \<times> u64" where
  "place_items nb_item v_item [] = ([], v_item)"
| "place_items nb_item v_item (i # rest) =
    (if item_pending i then (let (rest, v_item) = place_items nb_item v_item rest in (i # rest, v_item))
     else (let (rest, v_item') = place_items nb_item (v_item + nb_item) rest
           in (item_dirty (i\<lparr>vi_vaddr := v_item\<rparr>) # rest, v_item')))"

fun place_groups :: "u64 \<Rightarrow> u64 \<Rightarrow> u64 \<Rightarrow> u64 \<Rightarrow> ver_group list \<Rightarrow> ver_group list" where
  "place_groups nb_group nb_item v v_item [] = []"
| "place_groups nb_group nb_item v v_item (g # rest) =
    (if group_pending g then g # place_groups nb_group nb_item v v_item rest
     else (let (items, v_item) = place_items nb_item v_item (vg_items g)
           in group_dirty (g\<lparr>vg_vaddr := v, vg_items := items\<rparr>) # place_groups nb_group nb_item (v + nb_group) v_item rest))"

definition vers_ensure_vaddrs :: "'a::len word erw \<Rightarrow> ver_group list \<Rightarrow> nat \<Rightarrow> nat \<Rightarrow> bstr \<Rightarrow> ('a word erw \<times> ver_group list) option" where
  "vers_ensure_vaddrs erw groups nb_group nb_item section_name =
    (let (gs, inplace) = ensure_group_items groups True;
         g_count = of_nat (length groups) :: u32;
         required = of_nat (nb_required nb_group nb_item groups) :: u64;
         needs = (\<exists>g \<in> set groups. \<not> group_pending g \<and> vg_vaddr g = 0);
         inplace' = (inplace \<and> \<not> groups_free groups < 0);
         (gs, g_count) = (if needs \<and> inplace'
           then (assign_groups (map vg_vaddr (filter (\<lambda>g. vg_vaddr g \<noteq> 0) gs)) gs, of_nat (length (filter (\<lambda>g. \<not> group_pending g) gs)))
           else (gs, g_count))
     in if inplace' then
          (if \<not> e_retry erw \<and> g_count \<noteq> 0
           then do { erw \<leftarrow> vers_update_shdr_light erw section_name g_count; Some (erw, gs) } else Some (erw, gs))
        else
          (let (erw, v) = erw_alloc erw erw_alloc_category_v_r 4 required in
           if \<not> e_retry erw then do {
             erw \<leftarrow> vers_update_shdr_full erw section_name v required g_count;
             Some (erw, place_groups (of_nat nb_group) (of_nat nb_item) v (v + ucast g_count * of_nat nb_group) gs) }
           else Some (erw, gs)))"

subsection \<open>Erasing\<close>

text \<open>
  A list \<open>rs\<close> after erasing, against the list \<open>ns\<close> before: a node that is clean has the
  successor it had, and that one is clean too. So the word that links them in the file needs
  no change.
\<close>

definition links_clean :: "('n \<Rightarrow> nat) \<Rightarrow> ('n \<Rightarrow> u8) \<Rightarrow> 'n list \<Rightarrow> 'n list \<Rightarrow> bool" where
  "links_clean ident st ns rs \<longleftrightarrow> (\<forall>k < length rs. \<not> has_state (st (rs ! k)) VER_EDIT_STATE_DIRTY \<longrightarrow>
     (\<exists>as n bs. ns = as @ n # bs \<and> ident n = ident (rs ! k) \<and>
        map ident (take 1 bs) = map ident (take 1 (drop (Suc k) rs)) \<and> (\<forall>m \<in> set (take 1 bs). \<not> touched (st m))))"

lemma links_clean_Nil [simp]: "links_clean ident st ns []"
  by (simp add: links_clean_def)

lemma links_clean_prefix: "links_clean ident st ns rs \<Longrightarrow> links_clean ident st (as @ ns) rs"
  unfolding links_clean_def by (metis append.assoc)

lemma links_clean_Cons:
  assumes "links_clean ident st ns rs"
    and "\<not> has_state (st r) VER_EDIT_STATE_DIRTY \<longrightarrow> ident n = ident r \<and> map ident (take 1 ns) = map ident (take 1 rs) \<and>
      (\<forall>m \<in> set (take 1 ns). \<not> touched (st m))"
  shows "links_clean ident st (n # ns) (r # rs)"
  unfolding links_clean_def
proof (intro allI impI)
  fix k assume k: "k < length (r # rs)" "\<not> has_state (st ((r # rs) ! k)) VER_EDIT_STATE_DIRTY"
  show "\<exists>as m bs. n # ns = as @ m # bs \<and> ident m = ident ((r # rs) ! k) \<and>
      map ident (take 1 bs) = map ident (take 1 (drop (Suc k) (r # rs))) \<and> (\<forall>m \<in> set (take 1 bs). \<not> touched (st m))"
  proof (cases k)
    case 0
    then show ?thesis using assms(2) k by (intro exI [of _ "[]"] exI [of _ n] exI [of _ ns]) simp
  next
    case (Suc j)
    then obtain as m bs where "ns = as @ m # bs" "ident m = ident (rs ! j)"
      "map ident (take 1 bs) = map ident (take 1 (drop (Suc j) rs))" "\<forall>m \<in> set (take 1 bs). \<not> touched (st m)"
      using assms(1) k unfolding links_clean_def by (metis Suc_less_eq length_Cons nth_Cons_Suc)
    then show ?thesis unfolding Suc by (intro exI [of _ "n # as"] exI [of _ m] exI [of _ bs]) simp
  qed
qed

lemma pending_touched: "has_state s VER_EDIT_STATE_PENDING_DELETE \<Longrightarrow> touched s"
proof -
  assume "has_state s VER_EDIT_STATE_PENDING_DELETE"
  moreover have "s AND 2 = (s AND 3) AND 2" by (simp add: and.assoc)
  ultimately show ?thesis by (auto simp: has_state_def touched_def)
qed

lemma dirty_state [simp]: "has_state (s OR VER_EDIT_STATE_DIRTY) VER_EDIT_STATE_DIRTY"
  by (simp add: has_state_def bit.conj_disj_distrib2)

lemma filter_dropWhile [simp]: "filter (\<lambda>x. \<not> P x) (dropWhile P xs) = filter (\<lambda>x. \<not> P x) xs"
  by (induction xs) auto

lemma hd_dropWhile': "dropWhile P xs = [] \<or> \<not> P (hd (dropWhile P xs))"
  using hd_dropWhile by blast

lemma dropWhile_suffix: "\<exists>as. xs = as @ dropWhile P xs"
  by (metis takeWhile_dropWhile_id)

lemma erase_items_ok:
  "is = [] \<or> \<not> item_pending (hd is) \<Longrightarrow>
   map vi_id (erase_items is) = map vi_id (filter (\<lambda>i. \<not> item_pending i) is) \<and> links_clean vi_id vi_state is (erase_items is)"
proof (induction "is" rule: erase_items.induct)
  case (2 i)
  then show ?case by (simp add: links_clean_Cons)
next
  case (3 i n rest)
  show ?case
  proof (cases "touched (vi_state n)")
    case True
    note IH = "3.IH"(1) [OF True hd_dropWhile']
    obtain as where as: "n # rest = as @ dropWhile item_pending (n # rest)" using dropWhile_suffix by blast
    have "links_clean vi_id vi_state (n # rest) (erase_items (dropWhile item_pending (n # rest)))"
      using links_clean_prefix [OF conjunct2 [OF IH], of as] as by simp
    then show ?thesis
      using IH True "3.prems" by (simp add: links_clean_Cons item_dirty_def del: dropWhile.simps)
  next
    case False
    then have n: "\<not> item_pending n" using pending_touched by (auto simp: item_pending_def)
    then have IH: "map vi_id (erase_items (n # rest)) = map vi_id (filter (\<lambda>i. \<not> item_pending i) (n # rest)) \<and>
        links_clean vi_id vi_state (n # rest) (erase_items (n # rest))"
      using "3.IH"(2) [OF False] by simp
    have "map vi_id (take 1 (erase_items (n # rest))) = [vi_id n]"
      using IH n by (cases "erase_items (n # rest)") auto
    then show ?thesis using IH False n "3.prems" by (auto intro!: links_clean_Cons)
  qed
qed simp

lemma erase_in_group_facts [simp]:
  "vg_id (erase_in_group g) = vg_id g" "vg_vaddr (erase_in_group g) = vg_vaddr g"
  by (auto simp: erase_in_group_def group_dirty_def split: list.splits)

lemma erase_in_group_items:
  "map vi_id (vg_items (erase_in_group g)) = map vi_id (filter (\<lambda>i. \<not> item_pending i) (vg_items g)) \<and>
   links_clean vi_id vi_state (vg_items g) (vg_items (erase_in_group g))"
proof (cases "vg_items g")
  case Nil
  then show ?thesis by (simp add: erase_in_group_def)
next
  case (Cons i rest)
  show ?thesis
  proof (cases "touched (vi_state i)")
    case True
    obtain as where as: "i # rest = as @ dropWhile item_pending (i # rest)" using dropWhile_suffix by blast
    note e = erase_items_ok [OF hd_dropWhile' [of item_pending "i # rest"]]
    have "links_clean vi_id vi_state (i # rest) (erase_items (dropWhile item_pending (i # rest)))"
      using links_clean_prefix [OF conjunct2 [OF e], of as] as by simp
    then show ?thesis using e Cons True by (simp add: erase_in_group_def group_dirty_def del: dropWhile.simps)
  next
    case False
    then have "\<not> item_pending i" using pending_touched by (auto simp: item_pending_def)
    then show ?thesis using erase_items_ok [of "i # rest"] Cons False by (simp add: erase_in_group_def)
  qed
qed

text \<open>The group \<open>r\<close> after erasing comes from \<open>g\<close>.\<close>

definition group_from :: "ver_group \<Rightarrow> ver_group \<Rightarrow> bool" where
  "group_from g r \<longleftrightarrow> vg_id r = vg_id g \<and> vg_vaddr r = vg_vaddr g \<and>
     map vi_id (vg_items r) = map vi_id (filter (\<lambda>i. \<not> item_pending i) (vg_items g)) \<and>
     links_clean vi_id vi_state (vg_items g) (vg_items r) \<and>
     (\<not> has_state (vg_state r) VER_EDIT_STATE_DIRTY \<longrightarrow> (\<forall>i \<in> set (take 1 (vg_items g)). \<not> touched (vi_state i)))"

lemma group_from_erase: "group_from g (erase_in_group g)" "group_from g (erase_in_group (group_dirty g))"
proof -
  have "\<forall>i \<in> set (take 1 (vg_items g)). \<not> touched (vi_state i)" if "\<not> has_state (vg_state (erase_in_group g)) VER_EDIT_STATE_DIRTY" for g
    using that by (auto simp: erase_in_group_def group_dirty_def split: list.splits if_splits)
  note this [of g] this [of "group_dirty g"]
  then show "group_from g (erase_in_group g)" "group_from g (erase_in_group (group_dirty g))"
    using erase_in_group_items [of g] erase_in_group_items [of "group_dirty g"] by (simp_all add: group_from_def) (simp_all add: group_dirty_def)
qed

lemma erase_in_dirty: "has_state (vg_state (erase_in_group (group_dirty g))) VER_EDIT_STATE_DIRTY"
  by (auto simp: erase_in_group_def group_dirty_def has_state_def bit.conj_disj_distrib2 split: list.splits)

lemma erase_groups_ok:
  "gs = [] \<or> \<not> group_pending (hd gs) \<Longrightarrow>
   list_all2 group_from (filter (\<lambda>g. \<not> group_pending g) gs) (erase_groups gs) \<and> links_clean vg_id vg_state gs (erase_groups gs)"
proof (induction gs rule: erase_groups.induct)
  case (2 g)
  then show ?case by (simp add: links_clean_Cons group_from_erase)
next
  case (3 g n rest)
  show ?case
  proof (cases "touched (vg_state n)")
    case True
    note IH = "3.IH"(1) [OF True hd_dropWhile']
    obtain as where as: "n # rest = as @ dropWhile group_pending (n # rest)" using dropWhile_suffix by blast
    have "links_clean vg_id vg_state (n # rest) (erase_groups (dropWhile group_pending (n # rest)))"
      using links_clean_prefix [OF conjunct2 [OF IH], of as] as by simp
    then show ?thesis
      using IH True "3.prems" by (simp add: links_clean_Cons group_from_erase erase_in_dirty del: dropWhile.simps)
  next
    case False
    then have n: "\<not> group_pending n" using pending_touched by (auto simp: group_pending_def)
    then have IH: "list_all2 group_from (filter (\<lambda>g. \<not> group_pending g) (n # rest)) (erase_groups (n # rest)) \<and>
        links_clean vg_id vg_state (n # rest) (erase_groups (n # rest))"
      using "3.IH"(2) [OF False] by simp
    have "map vg_id (take 1 (erase_groups (n # rest))) = [vg_id n]"
      using IH n by (cases "erase_groups (n # rest)") (auto simp: group_from_def)
    then show ?thesis using IH False n "3.prems" by (auto intro!: links_clean_Cons simp: group_from_erase)
  qed
qed simp

text \<open>
  C19: Erasing the deleted groups and items keeps the others in their order, and marks dirty
  every group and item whose link in the file is no longer right: one that stays clean has the
  next group, the next item and the first item that it had.
\<close>

theorem vers_erase_pending_deletes_correct:
  "list_all2 group_from (filter (\<lambda>g. \<not> group_pending g) gs) (vers_erase_pending_deletes gs) \<and>
   links_clean vg_id vg_state gs (vers_erase_pending_deletes gs)"
proof -
  obtain as where as: "gs = as @ dropWhile group_pending gs" using dropWhile_suffix by blast
  note e = erase_groups_ok [OF hd_dropWhile' [of group_pending gs]]
  show ?thesis
    using e links_clean_prefix [OF conjunct2 [OF e], of as] as unfolding vers_erase_pending_deletes_def by simp
qed

end
