(* ===== verification/Dynstr.thy ===== *)
theory Dynstr
  imports Dsyms Vers
begin

section \<open>erw.c: adding strings to the dynamic string table\<close>

text \<open>
  A string is encoded as a reference. The first string that is not there yet starts a new
  table: a copy of the old one, or only the strings in use when they are sparse, and then all
  references are remapped. A hash table with linear probing finds the strings that are there.
  \<open>None\<close> stands for writing outside the new table's block and for a probe that does not end.
\<close>

subsection \<open>The hash table of the strings\<close>

definition entry_zero :: dynstr_hash_entry where
  "entry_zero = \<lparr>len_hash = 0, encoded = 0\<rparr>"

definition entry_len :: "u64 \<Rightarrow> u32" where
  "entry_len lh = ucast lh"

definition entry_home :: "u64 \<Rightarrow> u32" where
  "entry_home lh = ucast (drop_bit 32 lh)"

text \<open>The first slot from \<open>idx\<close> on at which the loop stops.\<close>

partial_function (option) probe_from :: "(dynstr_hash_entry \<Rightarrow> bool option) \<Rightarrow> dynstr_hash_entry list \<Rightarrow> u32 \<Rightarrow> u32 \<Rightarrow> nat option" where
  "probe_from stop table m idx =
    Option.bind (rd table (unat (idx AND m))) (\<lambda>e. Option.bind (stop e) (\<lambda>b.
      if b then Some (unat (idx AND m)) else probe_from stop table m (idx + 1)))"

definition is_free :: "dynstr_hash_entry \<Rightarrow> bool option" where
  "is_free e = Some (len_hash e = 0)"

definition rehash_entry :: "u32 \<Rightarrow> dynstr_hash_entry \<Rightarrow> dynstr_hash_entry list \<Rightarrow> dynstr_hash_entry list option" where
  "rehash_entry m e table =
    (if len_hash e = 0 then Some table
     else map_option (\<lambda>j. table[j := e]) (probe_from is_free table m (entry_home (len_hash e))))"

definition erw_dynstr_rehash :: "dynstr_editor \<Rightarrow> dynstr_editor option" where
  "erw_dynstr_rehash ds = do {
     let new_mask = ds_table_mask ds * 2 + 1;
     new_table \<leftarrow> each (rehash_entry new_mask) (ds_table ds) (replicate (Suc (unat new_mask)) entry_zero);
     Some (ds\<lparr>ds_table := new_table, ds_table_mask := new_mask\<rparr>) }"

text \<open>A new entry in slot \<open>j\<close>; the table grows when it is three quarters full.\<close>

definition put_entry :: "dynstr_editor \<Rightarrow> nat \<Rightarrow> dynstr_hash_entry \<Rightarrow> dynstr_editor option" where
  "put_entry ds j e =
    (let ds = ds\<lparr>ds_table := (ds_table ds)[j := e], ds_table_count := ds_table_count ds + 1\<rparr>
     in if ucast (ds_table_count ds) * 4 \<ge> (ucast (ds_table_mask ds) * 3 :: u64) then erw_dynstr_rehash ds else Some ds)"

definition add_existing_dynstr_to_table :: "'a::len word erw \<Rightarrow> u64 \<Rightarrow> ('a word erw \<times> u64) option" where
  "add_existing_dynstr_to_table erw ref = do {
     (erw, str) \<leftarrow> erw_dynstr_decode erw ref;
     let lh = dynstr_len_hash str;
     let ds = e_dynstr erw;
     j \<leftarrow> probe_from (\<lambda>e. Some (encoded e = ref \<or> len_hash e = 0)) (ds_table ds) (ds_table_mask ds) (entry_home lh);
     if encoded (ds_table ds ! j) = ref then Some (erw, ref)
     else do {
       ds \<leftarrow> put_entry ds j \<lparr>len_hash = lh, encoded = ref\<rparr>;
       Some (erw\<lparr>e_dynstr := ds\<rparr>, ref) } }"

subsection \<open>Visiting the references\<close>

type_synonym 'w ref_visitor = "'w erw \<Rightarrow> u64 \<Rightarrow> ('w erw \<times> u64) option"

definition visit_dhdr :: "'a::len word ref_visitor \<Rightarrow> nat \<Rightarrow> 'a word erw \<times> u32 \<Rightarrow> ('a word erw \<times> u32) option" where
  "visit_dhdr fn i s = (case s of (erw, modified) \<Rightarrow> do {
     itr \<leftarrow> dyn_get erw i;
     let bs = e_bswap erw;
     let tag = esw bs (d_tag itr);
     let oval = (ucast (esw bs (d_val itr)) :: u64);
     if tag = DT_STRSZ then
       (if oval \<noteq> 0 then do { (erw, _) \<leftarrow> fn erw (oval - 1); Some (erw, modified) } else Some (erw, modified))
     else if tag \<in> {DT_NEEDED, DT_SONAME, DT_RPATH, DT_RUNPATH, DT_DEPAUDIT, DT_AUDIT, DT_AUXILIARY, DT_FILTER} then do {
       (erw, nval) \<leftarrow> fn erw oval;
       if oval \<noteq> nval then do {
         erw \<leftarrow> dyn_put erw i (itr\<lparr>d_val := esw bs (ucast nval)\<rparr>);
         Some (erw, modified OR ERW_MODIFIED_DHDRS) }
       else Some (erw, modified) }
     else Some (erw, modified) })"

text \<open>The entries of \<open>DT_GNU_LIBLIST\<close>, one every 20 bytes: those of one entry of the address map, and all.\<close>

partial_function (option) skip_libs :: "u64 \<Rightarrow> u64 \<Rightarrow> u64 option" where
  "skip_libs eend v = (if v < eend then skip_libs eend (v + 20) else Some v)"

definition visit_lib :: "'a::len word ref_visitor \<Rightarrow> u64 \<Rightarrow> 'a word erw \<times> u32 \<Rightarrow> ('a word erw \<times> u32) option" where
  "visit_lib fn f s = (case s of (erw, modified) \<Rightarrow> do {
     oval \<leftarrow> file_u32 erw f;
     (erw, n) \<leftarrow> fn erw (ucast oval);
     let nval = (ucast n :: u32);
     if oval \<noteq> nval then do {
       m \<leftarrow> mem_store (e_f erw) (unat f) (word_bytes (esw (e_bswap erw) nval));
       Some (erw\<lparr>e_f := m\<rparr>, modified OR ERW_MODIFIED_MISC) }
     else Some (erw, modified) })"

partial_function (option) visit_libs :: "'a::len word ref_visitor \<Rightarrow> u64 \<Rightarrow> u64 \<Rightarrow> u64 \<Rightarrow> 'a word erw \<times> u32 \<Rightarrow>
    (u64 \<times> 'a word erw \<times> u32) option" where
  "visit_libs fn base eend v s =
    (if v < eend then Option.bind (visit_lib fn (base + v) s) (visit_libs fn base eend (v + 20)) else Some (v, s))"

partial_function (option) visit_liblist :: "'a::len word ref_visitor \<Rightarrow> v2f_entry list \<Rightarrow> u64 \<Rightarrow> nat \<Rightarrow> u64 \<Rightarrow> 'a word erw \<times> u32 \<Rightarrow>
    ('a word erw \<times> u32) option" where
  "visit_liblist fn es vend i v s =
    (if i + 1 \<ge> length es then None
     else Option.bind (if v2f_special (v2f (es ! i))
         then map_option (\<lambda>v. (v, s)) (skip_libs (min (vbase (es ! (i + 1))) vend) v)
         else visit_libs fn (v2f (es ! i)) (min (vbase (es ! (i + 1))) vend) v s)
       (\<lambda>r. if fst r < vend then visit_liblist fn es vend (i + 1) (fst r) (snd r) else Some (snd r)))"

definition sym_put :: "'a::len word erw \<Rightarrow> nat \<Rightarrow> 'a word sym \<Rightarrow> 'a word erw option" where
  "sym_put erw i s = map_option (\<lambda>(f, ed). erw\<lparr>e_f := f, e_dsyms := (e_dsyms erw)\<lparr>sy_syms := ed\<rparr>\<rparr>)
     (ed_put sym_codec (e_f erw, sy_syms (e_dsyms erw)) i s)"

definition visit_dsym :: "'a::len word ref_visitor \<Rightarrow> nat \<Rightarrow> 'a word erw \<times> u32 \<Rightarrow> ('a word erw \<times> u32) option" where
  "visit_dsym fn i s = (case s of (erw, modified) \<Rightarrow> do {
     itr \<leftarrow> sym_get erw i;
     let oval = esw (e_bswap erw) (st_name itr);
     (erw, n) \<leftarrow> fn erw (ucast oval);
     let nval = (ucast n :: u32);
     if oval \<noteq> nval then do {
       erw \<leftarrow> sym_put erw i (itr\<lparr>st_name := esw (e_bswap erw) nval\<rparr>);
       Some (erw, modified OR ERW_MODIFIED_DSYMS) }
     else Some (erw, modified) })"

text \<open>Each element of a list is replaced, while a state is passed along.\<close>

fun map_each :: "('x \<Rightarrow> 's \<Rightarrow> ('x \<times> 's) option) \<Rightarrow> 'x list \<Rightarrow> 's \<Rightarrow> ('x list \<times> 's) option" where
  "map_each g [] s = Some ([], s)"
| "map_each g (x # xs) s = do { (x, s) \<leftarrow> g x s; (xs, s) \<leftarrow> map_each g xs s; Some (x # xs, s) }"

definition visit_item :: "'a::len word ref_visitor \<Rightarrow> u32 \<Rightarrow> ver_item \<Rightarrow> 'a word erw \<times> u32 \<Rightarrow>
    (ver_item \<times> 'a word erw \<times> u32) option" where
  "visit_item fn bits i s = (case s of (erw, modified) \<Rightarrow>
     if item_pending i then Some (i, erw, modified)
     else do {
       (erw, n) \<leftarrow> fn erw (ucast (vi_str i));
       let nval = (ucast n :: u32);
       Some (if nval \<noteq> vi_str i then (item_dirty (i\<lparr>vi_str := nval\<rparr>), erw, modified OR bits) else (i, erw, modified)) })"

definition visit_verneed :: "'a::len word ref_visitor \<Rightarrow> ver_group \<Rightarrow> 'a word erw \<times> u32 \<Rightarrow> (ver_group \<times> 'a word erw \<times> u32) option" where
  "visit_verneed fn g s = (case s of (erw, modified) \<Rightarrow>
     if group_pending g then Some (g, erw, modified)
     else do {
       (erw, n) \<leftarrow> fn erw (ucast (vg_name g));
       let nval = (ucast n :: u32);
       let (g, modified) = (if nval \<noteq> vg_name g then (group_dirty (g\<lparr>vg_name := nval\<rparr>), modified OR ERW_MODIFIED_VERNEED) else (g, modified));
       (items, s) \<leftarrow> map_each (visit_item fn ERW_MODIFIED_VERNEED) (vg_items g) (erw, modified);
       Some (g\<lparr>vg_items := items\<rparr>, s) })"

definition visit_verdef :: "'a::len word ref_visitor \<Rightarrow> ver_group \<Rightarrow> 'a word erw \<times> u32 \<Rightarrow> (ver_group \<times> 'a word erw \<times> u32) option" where
  "visit_verdef fn g s =
    (if group_pending g then Some (g, s)
     else do {
       (items, s) \<leftarrow> map_each (visit_item fn ERW_MODIFIED_VERDEF) (vg_items g) s;
       Some (g\<lparr>vg_items := items\<rparr>, s) })"

definition visit_zero :: "'a::len word ref_visitor \<Rightarrow> 'a word erw \<Rightarrow> 'a word erw option" where
  "visit_zero fn erw = do {
     let addr = ds_original_base (e_dynstr erw);
     let v2f = v2f_at (e_v2f erw) addr;
     b \<leftarrow> (if v2f_special v2f then Some 0 else e_f erw (unat (addr + v2f)));
     if b = 0 then map_option fst (fn erw 0) else Some erw }"

definition dynstr_visit_refs :: "'a::len word ref_visitor \<Rightarrow> 'a word erw \<Rightarrow> 'a word erw option" where
  "dynstr_visit_refs fn erw = do {
     erw \<leftarrow> visit_zero fn erw;
     erw \<leftarrow> dhdrs_ready erw;
     (erw, modified) \<leftarrow> each (visit_dhdr fn) [0..<dyn_count erw] (erw, 0);
     es \<leftarrow> dyn_list erw;
     let bs = e_bswap erw;
     (erw, modified) \<leftarrow> (case (last_dyn bs es DT_GNU_LIBLIST, last_dyn bs es DT_GNU_LIBLISTSZ) of
       (Some liblist, Some liblistsz) \<Rightarrow>
         (let v = ucast (esw bs (d_val liblist));
              vend = v + ucast (esw bs (d_val liblistsz)) - 3
          in if v < vend
             then visit_liblist fn (m_entries (e_v2f erw)) vend (v2f_entry_at (e_v2f erw) v) v (erw, modified)
             else Some (erw, modified))
     | _ \<Rightarrow> Some (erw, modified));
     erw \<leftarrow> erw_dsyms_init erw;
     (erw, modified) \<leftarrow> each (visit_dsym fn) [0..<unat (sym_count erw)] (erw, modified);
     erw \<leftarrow> erw_vers_init erw;
     (need, s) \<leftarrow> map_each (visit_verneed fn) (ve_need (e_vers erw)) (erw, modified);
     (defs, s) \<leftarrow> map_each (visit_verdef fn) (ve_def (e_vers erw)) s;
     let (erw, modified) = s;
     Some (set_modified modified (erw\<lparr>e_vers := (e_vers erw)\<lparr>ve_need := need, ve_def := defs\<rparr>\<rparr>)) }"

definition erw_dynstr_build_table :: "'a::len word erw \<Rightarrow> 'a word erw option" where
  "erw_dynstr_build_table erw = do {
     let ds = e_dynstr erw;
     let ds = (if ds_table_mask ds \<noteq> 0
       then ds\<lparr>ds_table_count := 0, ds_table := replicate (Suc (unat (ds_table_mask ds))) entry_zero\<rparr>
       else ds\<lparr>ds_table_mask := 15, ds_table := replicate 16 entry_zero\<rparr>);
     erw \<leftarrow> dynstr_visit_refs add_existing_dynstr_to_table (erw\<lparr>e_dynstr := ds\<rparr>);
     Some (erw\<lparr>e_dynstr := (e_dynstr erw)\<lparr>ds_state := dynstr_edit_state_encode_from_existing\<rparr>\<rparr>) }"

subsection \<open>The new table\<close>

text \<open>The order of \<open>cmp_dynstr_hash_entry_t_encoded\<close>: by reference, the longer string first.\<close>

definition entry_key :: "dynstr_hash_entry \<Rightarrow> nat" where
  "entry_key e = unat (encoded e) * 2 ^ 32 + (2 ^ 32 - 1 - unat (entry_len (len_hash e)))"

text \<open>The remapping: pairs of the first reference of a run and what is added to the references of the run.\<close>

type_synonym remap = "(u64 \<times> u64) list"

function remap_search :: "remap \<Rightarrow> u64 \<Rightarrow> nat \<Rightarrow> nat \<Rightarrow> nat" where
  "remap_search remap ref at n =
    (if n > 1 then
       (let mid = n div 2 in
        if ref < fst (remap ! (at + mid)) then remap_search remap ref at mid
        else remap_search remap ref (at + mid) (n - mid))
     else at)"
  by pat_completeness auto
termination by (relation "measure (\<lambda>(remap, ref, at, n). n)") auto

declare remap_search.simps [simp del]

definition apply_dynstr_remap :: "remap \<Rightarrow> u64 \<Rightarrow> u64" where
  "apply_dynstr_remap remap ref = ref + snd (remap ! remap_search remap ref 0 (length remap))"

text \<open>A write of \<open>n\<close> bytes at \<open>at\<close> into the block of the new table; what is behind them is not used.\<close>

definition write_new :: "dynstr_editor \<Rightarrow> nat \<Rightarrow> u8 list \<Rightarrow> u8 list option" where
  "write_new ds at bs = (if at + length bs \<le> unat (ds_to_add_capacity ds) then Some (take at (ds_to_add ds) @ bs) else None)"

text \<open>A block of at least \<open>n\<close> bytes, with unspecified contents, of which none is used yet.\<close>

definition ensure_to_add :: "u64 \<Rightarrow> u64 \<Rightarrow> dynstr_editor \<Rightarrow> dynstr_editor" where
  "ensure_to_add n cap ds =
    (if n > ucast (ds_to_add_capacity ds) then ds\<lparr>ds_to_add := [], ds_to_add_capacity := ucast cap\<rparr> else ds\<lparr>ds_to_add := []\<rparr>)"

text \<open>One run of the loop that copies the strings in use: what is copied, the runs so far, the end of the last one.\<close>

definition compactify_step :: "'a::len word erw \<Rightarrow> dynstr_hash_entry \<Rightarrow> dynstr_editor \<times> remap \<times> u64 \<Rightarrow>
    (dynstr_editor \<times> remap \<times> u64) option" where
  "compactify_step erw e s = (case s of (ds, remap, recoded_up_to) \<Rightarrow>
     if encoded e < recoded_up_to then Some s
     else do {
       let len = entry_len (len_hash e) + 1;
       let out_length = length (ds_to_add ds);
       (bs, _) \<leftarrow> materialise_v_range_to erw (ds_original_base ds + encoded e) (ucast len);
       new \<leftarrow> write_new ds out_length bs;
       let delta = of_nat out_length - encoded e;
       Some (ds\<lparr>ds_to_add := new\<rparr>,
         (if remap = [] \<or> snd (last remap) \<noteq> delta then remap @ [(encoded e, delta)] else remap),
         encoded e + ucast len) })"

definition table_entries :: "dynstr_editor \<Rightarrow> dynstr_hash_entry list" where
  "table_entries ds = filter (\<lambda>e. len_hash e \<noteq> 0) (ds_table ds)"

definition compactify :: "'a::len word erw \<Rightarrow> dynstr_editor \<Rightarrow> (dynstr_editor \<times> remap) option" where
  "compactify erw ds = do {
     (ds, remap, _) \<leftarrow> each (compactify_step erw) (sort_key entry_key (table_entries ds)) (ds, [], 0);
     Some (ds\<lparr>ds_table := map (\<lambda>e. if len_hash e \<noteq> 0 then e\<lparr>encoded := apply_dynstr_remap remap (encoded e)\<rparr> else e) (ds_table ds)\<rparr>, remap) }"

definition erw_dynstr_start_building_new :: "'a::len word erw \<Rightarrow> 'a word erw option" where
  "erw_dynstr_start_building_new erw = do {
     let ds = e_dynstr erw;
     let es = table_entries ds;
     let sum_len = sum_list (map (\<lambda>e. ucast (entry_len (len_hash e)) :: u64) es);
     let max_off = fold (\<lambda>e m. max m (ucast (entry_len (len_hash e)) + encoded e)) es 0;
     erw \<leftarrow> (if max_off = 0 then do {
         let ds = ensure_to_add 1 33 ds;
         new \<leftarrow> write_new ds 0 [0];
         Some (erw\<lparr>e_dynstr := ds\<lparr>ds_to_add := new\<rparr>\<rparr>) }
       else if max_off \<le> sum_len + drop_bit 3 sum_len \<or> max_off \<le> 1024 then do {
         let ds = ensure_to_add (ucast (ucast max_off :: u32)) (ucast (ucast max_off + 32 :: u32)) ds;
         (bs, _) \<leftarrow> materialise_v_range_to erw (ds_original_base ds) max_off;
         new \<leftarrow> write_new ds 0 bs;
         Some (erw\<lparr>e_dynstr := ds\<lparr>ds_to_add := new\<rparr>\<rparr>) }
       else do {
         (ds, remap) \<leftarrow> compactify erw (ensure_to_add sum_len (sum_len + 32) ds);
         dynstr_visit_refs (\<lambda>erw ref. Some (erw, apply_dynstr_remap remap ref)) (erw\<lparr>e_dynstr := ds\<rparr>) });
     Some (set_modified ERW_MODIFIED_DYNSTR
       (erw\<lparr>e_dynstr := (e_dynstr erw)\<lparr>ds_state := dynstr_edit_state_encode_building_new\<rparr>\<rparr>)) }"

subsection \<open>Encoding\<close>

definition encode_stop :: "'a::len word erw \<Rightarrow> bstr \<Rightarrow> dynstr_hash_entry \<Rightarrow> bool option" where
  "encode_stop erw str e =
    (if len_hash e = dynstr_len_hash str then map_option (\<lambda>(_, existing). existing = str) (erw_dynstr_decode erw (encoded e))
     else Some (len_hash e = 0))"

text \<open>The end of the new table gets the string.\<close>

definition dynstr_append :: "dynstr_editor \<Rightarrow> bstr \<Rightarrow> dynstr_editor option" where
  "dynstr_append ds str = do {
     let len = entry_len (dynstr_len_hash str);
     let cap = ds_to_add_capacity ds;
     let ds = (if cap - of_nat (length (ds_to_add ds)) < len then ds\<lparr>ds_to_add_capacity := cap + (if len < cap then cap else len)\<rparr> else ds);
     new \<leftarrow> write_new ds (length (ds_to_add ds)) (str @ [0]);
     Some (ds\<lparr>ds_to_add := new\<rparr>) }"

definition erw_dynstr_encode :: "'a::len word erw \<Rightarrow> bstr \<Rightarrow> ('a word erw \<times> u64) option" where
  "erw_dynstr_encode erw str = do {
     erw \<leftarrow> (if ds_state (e_dynstr erw) = dynstr_edit_state_uninit then erw_dynstr_init erw else Some erw);
     erw \<leftarrow> (if ds_state (e_dynstr erw) = dynstr_edit_state_read_only then erw_dynstr_build_table erw else Some erw);
     let lh = dynstr_len_hash str;
     j \<leftarrow> probe_from (encode_stop erw str) (ds_table (e_dynstr erw)) (ds_table_mask (e_dynstr erw)) (entry_home lh);
     let e = ds_table (e_dynstr erw) ! j;
     if len_hash e = lh then Some (erw, encoded e)
     else do {
       erw \<leftarrow> (if ds_state (e_dynstr erw) \<noteq> dynstr_edit_state_encode_building_new then erw_dynstr_start_building_new erw else Some erw);
       let result = (of_nat (length (ds_to_add (e_dynstr erw))) :: u64);
       ds \<leftarrow> dynstr_append (e_dynstr erw) str;
       ds \<leftarrow> put_entry ds j \<lparr>len_hash = lh, encoded = result\<rparr>;
       Some (erw\<lparr>e_dynstr := ds\<rparr>, result) } }"

definition dynstr_flush :: "'a::len word erw \<Rightarrow> 'a word erw option" where
  "dynstr_flush erw = do {
     let new = ds_to_add (e_dynstr erw);
     let (erw, v) = erw_alloc erw erw_alloc_category_v_r 1 (of_nat (length new));
     let f = v + v2f_at (e_v2f erw) v;
     erw \<leftarrow> (if v \<noteq> 0 then map_option (\<lambda>m. erw\<lparr>e_f := m\<rparr>) (mem_store (e_f erw) (unat f) new) else Some erw);
     erw \<leftarrow> dhdrs_set_u erw DT_STRTAB (ucast v);
     erw \<leftarrow> dhdrs_set_u erw DT_STRSZ (of_nat (length new));
     if e_retry erw then Some erw
     else do {
       (erw, shdr) \<leftarrow> shdr_find erw (bytes_of ''.dynstr'');
       case shdr of None \<Rightarrow> Some erw
       | Some a \<Rightarrow> do {
           s \<leftarrow> get_at (shdr_codec :: 'a word shdr codec) (e_f erw) a;
           let bs = e_bswap erw;
           put_at shdr_codec erw a (s\<lparr>sh_type := esw bs SHT_STRTAB,
             sh_flags := esw bs ((esw bs (sh_flags s) AND NOT (SHF_WRITE OR SHF_EXECINSTR)) OR SHF_ALLOC),
             sh_addr := esw bs (ucast v), sh_offset := esw bs (ucast f), sh_size := esw bs (of_nat (length new)),
             sh_addralign := esw bs 1\<rparr>) } } }"

end
