(* ===== verification/DynstrOps.thy ===== *)
theory DynstrOps
  imports Dynstr
begin

section \<open>erw.c: properties of the string table\<close>

text \<open>
  Remapping a reference, and the round trip of a string through the new table: the reference of
  an encoded string decodes to the string, the references handed out before keep their strings,
  and the same string gets the same reference again.
\<close>

subsection \<open>Remapping\<close>

definition remap_at :: "remap \<Rightarrow> u64 \<Rightarrow> nat \<Rightarrow> bool" where
  "remap_at remap ref k \<longleftrightarrow> k < length remap \<and> (k = 0 \<or> fst (remap ! k) \<le> ref) \<and> (\<forall>i. k < i \<and> i < length remap \<longrightarrow> ref < fst (remap ! i))"

lemma remap_search_ok:
  assumes "sorted (map fst remap)" "at + n \<le> length remap" "0 < n"
    and "at = 0 \<or> fst (remap ! at) \<le> ref" and "\<And>i. at + n \<le> i \<Longrightarrow> i < length remap \<Longrightarrow> ref < fst (remap ! i)"
  shows "remap_at remap ref (remap_search remap ref at n)"
  using assms
proof (induction remap ref at n rule: remap_search.induct)
  case (1 remap ref at n)
  show ?case
  proof (cases "n > 1")
    case False
    then have n: "n = 1" using "1.prems"(3) by simp
    have "remap_search remap ref at n = at" using False by (subst remap_search.simps) simp
    moreover have "ref < fst (remap ! i)" if "at < i" "i < length remap" for i
      using "1.prems"(5) [of i] that n by simp
    ultimately show ?thesis using "1.prems"(2,4) n by (simp add: remap_at_def)
  next
    case True
    let ?mid = "n div 2"
    have mid: "0 < ?mid" "?mid < n" using True by auto
    show ?thesis
    proof (cases "ref < fst (remap ! (at + ?mid))")
      case lt: True
      have "ref < fst (remap ! i)" if i: "at + ?mid \<le> i" "i < length remap" for i
      proof -
        have "map fst remap ! (at + ?mid) \<le> map fst remap ! i"
          using "1.prems"(1) i by (intro sorted_nth_mono) simp_all
        then show ?thesis using lt i by (simp add: nth_map)
      qed
      then have "remap_at remap ref (remap_search remap ref at ?mid)"
        using "1.prems"(2) mid by (intro "1.IH"(1) [OF True refl lt "1.prems"(1) _ mid(1) "1.prems"(4)]) simp_all
      moreover have "remap_search remap ref at n = remap_search remap ref at ?mid"
        using True lt by (subst remap_search.simps) (simp add: Let_def)
      ultimately show ?thesis by simp
    next
      case ge: False
      have "remap_at remap ref (remap_search remap ref (at + ?mid) (n - ?mid))"
        using "1.prems"(2,5) ge mid by (intro "1.IH"(2) [OF True refl ge "1.prems"(1)]) simp_all
      moreover have "remap_search remap ref at n = remap_search remap ref (at + ?mid) (n - ?mid)"
        using True ge by (subst remap_search.simps) (simp add: Let_def)
      ultimately show ?thesis by simp
    qed
  qed
qed

lemma filter_le_sorted:
  assumes "sorted (map fst remap)" "k < length remap" "fst (remap ! k) \<le> ref" "\<forall>i. k < i \<and> i < length remap \<longrightarrow> ref < fst (remap ! i)"
  shows "filter (\<lambda>r. fst r \<le> (ref :: u64)) remap = take (Suc k) remap"
proof -
  have "filter (\<lambda>r. fst r \<le> ref) (take (Suc k) remap) = take (Suc k) remap"
  proof (rule filter_True, rule ballI)
    fix r assume "r \<in> set (take (Suc k) remap)"
    then obtain i where i: "i \<le> k" "r = remap ! i" using assms(2) by (auto simp: in_set_conv_nth less_Suc_eq_le)
    then have "map fst remap ! i \<le> map fst remap ! k" using assms(1,2) by (intro sorted_nth_mono) auto
    then show "fst r \<le> ref" using i assms(2,3) by simp
  qed
  moreover have "filter (\<lambda>r. fst r \<le> ref) (drop (Suc k) remap) = []"
  proof -
    have "ref < fst r" if "r \<in> set (drop (Suc k) remap)" for r
      using that assms(4) by (auto simp: in_set_conv_nth simp del: split_paired_All) 
    then show ?thesis by (auto simp: filter_empty_conv not_le)
  qed
  ultimately show ?thesis
    using filter_append [of "\<lambda>r. fst r \<le> ref" "take (Suc k) remap" "drop (Suc k) remap"] by simp
qed

text \<open>
  C20: Remapping a reference by binary search adds what the last run that starts at or before
  the reference says, as a search through all runs would.
\<close>

theorem apply_dynstr_remap_correct:
  assumes "sorted (map fst remap)" "remap \<noteq> []" "fst (hd remap) \<le> ref"
  shows "apply_dynstr_remap remap ref = ref + snd (last (filter (\<lambda>r. fst r \<le> ref) remap))"
proof -
  let ?k = "remap_search remap ref 0 (length remap)"
  have "remap_at remap ref ?k" using assms(1,2) by (intro remap_search_ok) simp_all
  then have k: "?k < length remap" "?k = 0 \<or> fst (remap ! ?k) \<le> ref" "\<forall>i. ?k < i \<and> i < length remap \<longrightarrow> ref < fst (remap ! i)"
    by (simp_all add: remap_at_def)
  have "fst (remap ! ?k) \<le> ref" using k(2) assms(2,3) by (auto simp: hd_conv_nth)
  then have "filter (\<lambda>r. fst r \<le> ref) remap = take (Suc ?k) remap" using filter_le_sorted [OF assms(1) k(1) _ k(3)] by blast
  then show ?thesis using k(1) by (simp add: apply_dynstr_remap_def last_conv_nth nth_append take_Suc_conv_app_nth)
qed

theorem apply_dynstr_remap_witness:
  "apply_dynstr_remap [(1, 2), (5, 7), (9, 1)] 6 = 6 + snd (last (filter (\<lambda>r. fst r \<le> (6 :: u64)) [(1, 2), (5, 7), (9, 1)]))"
  by (rule apply_dynstr_remap_correct) simp_all

subsection \<open>Probing\<close>

definition slot_from :: "u32 \<Rightarrow> nat \<Rightarrow> nat \<Rightarrow> nat" where
  "slot_from idx k d = (unat idx + d) mod 2 ^ k"

lemma slot_0: "k \<le> 32 \<Longrightarrow> unat (idx AND (2 ^ k - 1)) = slot_from idx k 0"
proof -
  have "idx AND (2 ^ k - 1) = take_bit k idx" by (simp add: take_bit_eq_mask mask_eq_exp_minus_1)
  then have "unat (idx AND (2 ^ k - 1)) = take_bit k (unat idx)" by (simp only: unsigned_take_bit_eq)
  then show ?thesis by (simp add: slot_from_def take_bit_eq_mod)
qed

lemma slot_Suc: "k \<le> 32 \<Longrightarrow> slot_from (idx + 1) k d = slot_from idx k (Suc d)"
proof -
  assume k: "k \<le> 32"
  have "(2 :: nat) ^ k dvd 2 ^ 32" using k by (rule le_imp_power_dvd)
  then have "(unat idx + 1) mod 2 ^ 32 mod 2 ^ k = (unat idx + 1) mod 2 ^ k" by (rule mod_mod_cancel)
  then have "unat (idx + 1) mod 2 ^ k = (unat idx + 1) mod 2 ^ k" by (simp add: unat_word_ariths(1))
  then have "(unat (idx + 1) + d) mod 2 ^ k = (unat idx + 1 + d) mod 2 ^ k" by (rule mod_add_cong) simp
  then show ?thesis by (simp add: slot_from_def)
qed

lemma slot_less: "slot_from idx k d < 2 ^ k"
  by (simp add: slot_from_def)

lemma probe_step:
  assumes "length table = 2 ^ k" "k \<le> 32"
  shows "probe_from stop table (2 ^ k - 1) idx = Option.bind (stop (table ! slot_from idx k 0)) (\<lambda>b.
    if b then Some (slot_from idx k 0) else probe_from stop table (2 ^ k - 1) (idx + 1))"
  using assms(1) slot_less [of idx k 0] unfolding probe_from.simps [of stop table "2 ^ k - 1" idx] slot_0 [OF assms(2)]
  by (simp add: rd_def)

lemma probe_at:
  assumes "length table = 2 ^ k" "k \<le> 32"
    and "\<forall>d' < d. stop (table ! slot_from idx k d') = Some False" and "stop (table ! slot_from idx k d) = Some True"
  shows "probe_from stop table (2 ^ k - 1) idx = Some (slot_from idx k d)"
  using assms(3,4)
proof (induction d arbitrary: idx)
  case 0
  then show ?case by (subst probe_step [OF assms(1,2)]) simp
next
  case (Suc d)
  have "stop (table ! slot_from idx k 0) = Some False" using Suc.prems(1) by blast
  moreover have "probe_from stop table (2 ^ k - 1) (idx + 1) = Some (slot_from (idx + 1) k d)"
  proof (rule Suc.IH)
    show "\<forall>d' < d. stop (table ! slot_from (idx + 1) k d') = Some False"
      using Suc.prems(1) unfolding slot_Suc [OF assms(2)] by blast
    show "stop (table ! slot_from (idx + 1) k d) = Some True" using Suc.prems(2) unfolding slot_Suc [OF assms(2)] .
  qed
  ultimately show ?case by (subst probe_step [OF assms(1,2)]) (simp add: slot_Suc [OF assms(2)])
qed

text \<open>A probe that can stop anywhere does, at the first such slot.\<close>

lemma probe_stops:
  assumes "length table = 2 ^ k" "k \<le> 32" "\<forall>e \<in> set table. stop e \<noteq> None" "e \<in> set table" "stop e = Some True"
  obtains d where "probe_from stop table (2 ^ k - 1) idx = Some (slot_from idx k d)"
    "stop (table ! slot_from idx k d) = Some True" "\<forall>d' < d. stop (table ! slot_from idx k d') = Some False"
proof -
  obtain j where j: "j < 2 ^ k" "table ! j = e" using assms(1,4) by (auto simp: in_set_conv_nth)
  let ?d = "j + 2 ^ k * unat idx - unat idx"
  have "unat idx \<le> 2 ^ k * unat idx" by simp
  then have "unat idx + ?d = j + 2 ^ k * unat idx" by linarith
  then have "slot_from idx k ?d = j" using j by (simp add: slot_from_def)
  then have ex: "\<exists>d. stop (table ! slot_from idx k d) = Some True" using j assms(5) by (intro exI [of _ ?d]) simp
  define d where "d = (LEAST d. stop (table ! slot_from idx k d) = Some True)"
  have stop: "stop (table ! slot_from idx k d) = Some True" unfolding d_def using ex by (rule LeastI_ex)
  have "stop (table ! slot_from idx k d') = Some False" if "d' < d" for d'
  proof -
    have "stop (table ! slot_from idx k d') \<noteq> Some True" using not_less_Least [OF that [unfolded d_def]] .
    moreover have "table ! slot_from idx k d' \<in> set table" using slot_less assms(1) by (metis nth_mem)
    ultimately show ?thesis using assms(3) by (metis (full_types) not_None_eq)
  qed
  then have before: "\<forall>d' < d. stop (table ! slot_from idx k d') = Some False" by blast
  have "probe_from stop table (2 ^ k - 1) idx = Some (slot_from idx k d)"
    using assms(1,2) before stop by (rule probe_at)
  then show thesis using stop before by (rule that)
qed

subsection \<open>The table\<close>

definition used_entry :: "dynstr_hash_entry \<Rightarrow> bool" where
  "used_entry e \<longleftrightarrow> len_hash e \<noteq> 0"

definition entries :: "dynstr_hash_entry list \<Rightarrow> dynstr_hash_entry set" where
  "entries table = {e \<in> set table. used_entry e}"

text \<open>Every entry is found from its home slot without meeting a free slot.\<close>

definition reached :: "nat \<Rightarrow> dynstr_hash_entry list \<Rightarrow> dynstr_hash_entry \<Rightarrow> nat \<Rightarrow> bool" where
  "reached k table e j \<longleftrightarrow> (\<exists>d. j = slot_from (entry_home (len_hash e)) k d \<and>
     (\<forall>d' < d. used_entry (table ! slot_from (entry_home (len_hash e)) k d')))"

definition linear_ok :: "nat \<Rightarrow> dynstr_hash_entry list \<Rightarrow> bool" where
  "linear_ok k table \<longleftrightarrow> length table = 2 ^ k \<and> (\<forall>j < 2 ^ k. used_entry (table ! j) \<longrightarrow> reached k table (table ! j) j)"

lemma used_update:
  assumes "j < length xs" "\<not> P (xs ! j)" "P e"
  shows "length (filter P (xs[j := e])) = Suc (length (filter P xs))"
proof -
  have "filter P xs = filter P (take j xs @ xs ! j # drop (Suc j) xs)" using id_take_nth_drop [OF assms(1)] by simp
  moreover have "filter P (xs[j := e]) = filter P (take j xs @ e # drop (Suc j) xs)" using upd_conv_take_nth_drop [OF assms(1)] by simp
  ultimately show ?thesis using assms by simp
qed

lemma entries_update:
  assumes "j < length table" "\<not> used_entry (table ! j)" "used_entry e"
  shows "entries (table[j := e]) = insert e (entries table)"
proof -
  have "set table = set (take j table @ table ! j # drop (Suc j) table)" using id_take_nth_drop [OF assms(1)] by simp
  moreover have "set (table[j := e]) = set (take j table @ e # drop (Suc j) table)" using upd_conv_take_nth_drop [OF assms(1)] by simp
  ultimately show ?thesis using assms(2,3) by (auto simp: entries_def)
qed

lemma reached_update:
  "length table = 2 ^ k \<Longrightarrow> \<not> used_entry (table ! i) \<Longrightarrow> used_entry e \<Longrightarrow> reached k table x j \<Longrightarrow> reached k (table[i := e]) x j"
  unfolding reached_def by (metis nth_list_update_eq nth_list_update_neq slot_less)

lemma linear_ok_update:
  assumes "linear_ok k table" "used_entry e" "j < 2 ^ k" "\<not> used_entry (table ! j)" "reached k table e j"
  shows "linear_ok k (table[j := e])"
  using assms unfolding linear_ok_def
  by (auto simp: nth_list_update intro!: reached_update)

lemma free_slot: "length (filter used_entry table) < length table \<Longrightarrow> \<exists>e \<in> set table. \<not> used_entry e"
  by (metis filter_True less_irrefl)

lemma probe_free:
  assumes "length table = 2 ^ k" "k \<le> 32" "length (filter used_entry table) < 2 ^ k"
  obtains j where "probe_from is_free table (2 ^ k - 1) (entry_home (len_hash e)) = Some j" "j < 2 ^ k" "\<not> used_entry (table ! j)"
    "reached k table e j"
proof -
  obtain x where x: "x \<in> set table" "\<not> used_entry x" using free_slot assms(1,3) by metis
  obtain d where "probe_from is_free table (2 ^ k - 1) (entry_home (len_hash e)) = Some (slot_from (entry_home (len_hash e)) k d)"
    "is_free (table ! slot_from (entry_home (len_hash e)) k d) = Some True"
    "\<forall>d' < d. is_free (table ! slot_from (entry_home (len_hash e)) k d') = Some False"
    using probe_stops [OF assms(1,2), of is_free x "entry_home (len_hash e)"] x by (auto simp: is_free_def used_entry_def)
  then show thesis
    by (intro that [of "slot_from (entry_home (len_hash e)) k d"]) (auto simp: is_free_def used_entry_def reached_def slot_less)
qed

lemma rehash_used: "used_entry e \<Longrightarrow> rehash_entry m e table =
    map_option (\<lambda>j. table[j := e]) (probe_from is_free table m (entry_home (len_hash e)))"
  by (simp add: rehash_entry_def used_entry_def)

lemma rehash_entries:
  assumes "k \<le> 32" "linear_ok k table" "length (filter used_entry table) + length (filter used_entry es) < 2 ^ k"
  shows "\<exists>new. each (rehash_entry (2 ^ k - 1)) es table = Some new \<and> linear_ok k new \<and>
    length (filter used_entry new) = length (filter used_entry table) + length (filter used_entry es) \<and>
    entries new = entries table \<union> entries es"
  using assms(2,3)
proof (induction es arbitrary: table)
  case Nil
  then show ?case by (simp add: entries_def)
next
  case (Cons e es)
  show ?case
  proof (cases "used_entry e")
    case False
    then have "entries (e # es) = entries es" by (auto simp: entries_def)
    then show ?thesis using Cons.IH [OF Cons.prems(1)] Cons.prems(2) False by (simp add: rehash_entry_def used_entry_def)
  next
    case True
    have len: "length table = 2 ^ k" using Cons.prems(1) by (simp add: linear_ok_def)
    obtain j where j: "probe_from is_free table (2 ^ k - 1) (entry_home (len_hash e)) = Some j" "j < 2 ^ k"
      "\<not> used_entry (table ! j)" "reached k table e j"
      using probe_free [OF len assms(1), of e] Cons.prems(2) by (metis add_lessD1)
    have "entries (e # es) = insert e (entries es)" using True by (auto simp: entries_def)
    then show ?thesis
      using Cons.IH [OF linear_ok_update [OF Cons.prems(1) True j(2,3,4)]] Cons.prems(2) True j
        used_update [of j table used_entry e] entries_update [of j table e] len
      by (simp add: rehash_used)
  qed
qed

definition str_table_ok :: "dynstr_editor \<Rightarrow> nat \<Rightarrow> bool" where
  "str_table_ok ds k \<longleftrightarrow> 1 \<le> k \<and> k \<le> 31 \<and> linear_ok k (ds_table ds) \<and> ds_table_mask ds = 2 ^ k - 1 \<and>
     length (filter used_entry (ds_table ds)) = unat (ds_table_count ds) \<and> 4 * unat (ds_table_count ds) < 3 * (2 ^ k - 1)"

lemma unat_mask: "k \<le> 32 \<Longrightarrow> unat (2 ^ k - 1 :: u32) = 2 ^ k - 1"
proof -
  assume "k \<le> 32"
  have "(2 ^ k - 1 :: u32) = of_nat (2 ^ k - 1)" by (simp add: of_nat_diff)
  moreover have "(2 :: nat) ^ k - 1 < 2 ^ 32" using power_increasing [OF \<open>k \<le> 32\<close>, of "2 :: nat"] by simp
  ultimately show ?thesis by (simp only: unat_of_nat) simp
qed

lemma empty_table: "linear_ok k (replicate (2 ^ k) entry_zero)"
  by (simp add: linear_ok_def used_entry_def entry_zero_def)

lemma put_entry_ok:
  assumes ok: "str_table_ok ds k" and k: "k \<le> 30" and e: "used_entry e"
    and j: "j < 2 ^ k" "\<not> used_entry (ds_table ds ! j)" "reached k (ds_table ds) e j"
  shows "\<exists>t c m k'. put_entry ds j e = Some (ds\<lparr>ds_table := t, ds_table_count := c, ds_table_mask := m\<rparr>) \<and>
    str_table_ok (ds\<lparr>ds_table := t, ds_table_count := c, ds_table_mask := m\<rparr>) k' \<and> entries t = insert e (entries (ds_table ds))"
proof -
  let ?t = "(ds_table ds)[j := e]" and ?c = "ds_table_count ds + 1"
  have tab: "linear_ok k (ds_table ds)" "length (ds_table ds) = 2 ^ k" "ds_table_mask ds = 2 ^ k - 1" "1 \<le> k"
    "length (filter used_entry (ds_table ds)) = unat (ds_table_count ds)" "4 * unat (ds_table_count ds) < 3 * (2 ^ k - 1)"
    using ok by (auto simp: str_table_ok_def linear_ok_def)
  have pow: "(2 :: nat) ^ k \<le> 2 ^ 30" using k by (rule power_increasing) simp
  then have c: "unat ?c = unat (ds_table_count ds) + 1" using tab(6) by (simp add: unat_word_ariths(1))
  have t: "linear_ok k ?t" "length (filter used_entry ?t) = unat ?c" "entries ?t = insert e (entries (ds_table ds))"
    using linear_ok_update [OF tab(1) e j] used_update [of j "ds_table ds" used_entry e] entries_update [of j "ds_table ds" e] tab j e c
    by simp_all
  have full: "ucast ?c * 4 \<ge> (ucast (ds_table_mask ds) * 3 :: u64) \<longleftrightarrow> 4 * unat ?c \<ge> 3 * (2 ^ k - 1)"
    using pow tab(6) c k unfolding word_le_nat_alt tab(3) by (simp add: unat_word_ariths unat_mask unat_ucast_up mult.commute)
  show ?thesis
  proof (cases "4 * unat ?c \<ge> 3 * (2 ^ k - 1)")
    case False
    then have "put_entry ds j e = Some (ds\<lparr>ds_table := ?t, ds_table_count := ?c, ds_table_mask := ds_table_mask ds\<rparr>)"
      using full by (simp add: put_entry_def Let_def)
    moreover have "str_table_ok (ds\<lparr>ds_table := ?t, ds_table_count := ?c, ds_table_mask := ds_table_mask ds\<rparr>) k"
      using False t tab k by (simp add: str_table_ok_def)
    ultimately show ?thesis using t(3) by blast
  next
    case True
    have m: "ds_table_mask ds * 2 + 1 = 2 ^ Suc k - 1" unfolding tab(3) by (simp add: algebra_simps)
    have n: "Suc (unat (2 ^ Suc k - 1 :: u32)) = 2 ^ Suc k" using k by (subst unat_mask) simp_all
    have "length (filter used_entry (replicate (2 ^ Suc k) entry_zero)) = 0" "entries (replicate (2 ^ Suc k) entry_zero) = {}"
      by (auto simp: used_entry_def entry_zero_def entries_def)
    moreover have "unat ?c < 2 ^ Suc k" using tab(6) c by simp
    ultimately obtain new where new: "each (rehash_entry (2 ^ Suc k - 1)) ?t (replicate (2 ^ Suc k) entry_zero) = Some new"
      "linear_ok (Suc k) new" "length (filter used_entry new) = unat ?c" "entries new = entries ?t"
      using rehash_entries [of "Suc k" "replicate (2 ^ Suc k) entry_zero" ?t] empty_table [of "Suc k"] k t(2) by auto
    have "4 * unat ?c < 3 * (2 ^ Suc k - 1)" using tab(4,6) c by (cases k) simp_all
    then have "str_table_ok (ds\<lparr>ds_table := new, ds_table_count := ?c, ds_table_mask := 2 ^ Suc k - 1\<rparr>) (Suc k)"
      using new(2,3) k by (simp add: str_table_ok_def)
    moreover have "put_entry ds j e = Some (ds\<lparr>ds_table := new, ds_table_count := ?c, ds_table_mask := 2 ^ Suc k - 1\<rparr>)"
      using True full by (simp add: put_entry_def erw_dynstr_rehash_def Let_def m n new(1) del: power_Suc replicate_Suc)
    ultimately show ?thesis using new(4) t(3) by metis
  qed
qed

subsection \<open>Encoding a string in a new table\<close>

definition new_str :: "dynstr_editor \<Rightarrow> u64 \<Rightarrow> bstr option" where
  "new_str ds ref = cstr_at (rd (ds_to_add ds)) (unat ref)"

definition dynstr_ok :: "dynstr_editor \<Rightarrow> bool" where
  "dynstr_ok ds \<longleftrightarrow> ds_state ds = dynstr_edit_state_encode_building_new \<and> (\<exists>k. str_table_ok ds k) \<and>
     length (ds_to_add ds) \<le> unat (ds_to_add_capacity ds) \<and>
     (\<forall>e \<in> entries (ds_table ds). new_str ds (encoded e) \<noteq> None)"

definition dynstr_room :: "dynstr_editor \<Rightarrow> bstr \<Rightarrow> bool" where
  "dynstr_room ds str \<longleftrightarrow> unat (ds_table_mask ds) < 2 ^ 30 \<and> unat (ds_to_add_capacity ds) < 2 ^ 31 \<and> length str + 1 < 2 ^ 31"

lemma decode_new:
  "ds_state (e_dynstr erw) = dynstr_edit_state_encode_building_new \<Longrightarrow>
   erw_dynstr_decode erw ref = map_option (Pair erw) (new_str (e_dynstr erw) ref)"
  by (cases "new_str (e_dynstr erw) ref") (simp_all add: erw_dynstr_decode_def new_str_def bytes_mem_def)

lemma cstr_at_Nil: "cstr_at f a = Some [] \<longleftrightarrow> f a = Some 0"
  by (subst cstr_at.simps) (auto simp: bind_eq_Some_conv)

lemma cstr_at_Cons: "cstr_at f a = Some (c # s) \<longleftrightarrow> f a = Some c \<and> c \<noteq> 0 \<and> cstr_at f (a + 1) = Some s"
  by (subst cstr_at.simps) (auto simp: bind_eq_Some_conv)

lemma cstr_at_mono: "cstr_at f a = Some s \<Longrightarrow> (\<And>i. f i \<noteq> None \<Longrightarrow> g i = f i) \<Longrightarrow> cstr_at g a = Some s"
proof (induction s arbitrary: a)
  case Nil
  then show ?case using Nil(2) [of a] by (simp add: cstr_at_Nil)
next
  case (Cons c s)
  then have c: "f a = Some c" "c \<noteq> 0" "cstr_at f (a + 1) = Some s" by (simp_all add: cstr_at_Cons)
  then show ?case using Cons.IH [OF c(3) Cons.prems(2)] Cons.prems(2) [of a] by (simp add: cstr_at_Cons)
qed

lemma new_str_append: "new_str ds ref = Some s \<Longrightarrow> ds_to_add ds' = ds_to_add ds @ bs \<Longrightarrow> new_str ds' ref = Some s"
  unfolding new_str_def by (erule cstr_at_mono) (auto simp: rd_def nth_append split: if_splits)

lemma new_str_end:
  "ds_to_add ds' = bs @ s @ [0] \<Longrightarrow> 0 \<notin> set s \<Longrightarrow> length bs < 2 ^ 64 \<Longrightarrow> new_str ds' (of_nat (length bs)) = Some s"
  unfolding new_str_def by (intro cstr_at_holds) (auto simp: holds_def rd_def nth_append unat_of_nat)

lemma len_hash_facts:
  assumes "length str + 1 < 2 ^ 31"
  shows "entry_len (dynstr_len_hash str) = of_nat (length str + 1)" "dynstr_len_hash str \<noteq> 0"
proof -
  have "entry_len (ucast (x :: u32) + push_bit 32 (ucast (h :: u32))) = x" for x h
  proof -
    have "ucast x + push_bit 32 (ucast h :: u64) = ucast x OR push_bit 32 (ucast h)"
      by (rule disjunctive_add_eq_or) (rule bit_word_eqI, auto simp: bit_simps dest: bit_imp_le_length)
    then show ?thesis unfolding entry_len_def by simp (rule bit_word_eqI, simp add: bit_simps)
  qed
  then show l: "entry_len (dynstr_len_hash str) = of_nat (length str + 1)"
    by (simp add: dynstr_len_hash_def Let_def)
  have "unat (of_nat (length str + 1) :: u32) = length str + 1" using assms by (simp only: unat_of_nat) simp
  then have "entry_len (dynstr_len_hash str) \<noteq> 0" using l by (metis add_is_0 one_neq_zero unat_0)
  then show "dynstr_len_hash str \<noteq> 0" by (auto simp: entry_len_def)
qed

lemma append_new:
  assumes "length (ds_to_add ds) \<le> unat (ds_to_add_capacity ds)" "dynstr_room ds str"
  shows "\<exists>cap. dynstr_append ds str = Some (ds\<lparr>ds_to_add_capacity := cap, ds_to_add := ds_to_add ds @ str @ [0]\<rparr>) \<and>
    length (ds_to_add ds @ str @ [0]) \<le> unat cap"
proof -
  let ?cap = "ds_to_add_capacity ds" and ?len = "entry_len (dynstr_len_hash str)" and ?n = "length (ds_to_add ds)"
  have room: "unat ?cap < 2 ^ 31" "length str + 1 < 2 ^ 31" using assms(2) by (auto simp: dynstr_room_def)
  have len: "unat ?len = length str + 1" using len_hash_facts(1) [OF room(2)] room(2) by (simp only: unat_of_nat) simp
  have n: "unat (of_nat ?n :: u32) = ?n" using assms(1) unat_less_pow [of ?cap] by (simp only: unat_of_nat) simp
  have lt: "?cap - of_nat ?n < ?len \<longleftrightarrow> unat ?cap < ?n + (length str + 1)"
    using assms(1) n len by (simp add: word_less_nat_alt unat_sub word_le_nat_alt) linarith
  let ?new = "if unat ?cap < ?n + (length str + 1) then ?cap + (if ?len < ?cap then ?cap else ?len) else ?cap"
  have "?n + (length str + 1) \<le> unat ?new"
    using assms(1) room len by (simp add: word_less_nat_alt unat_word_ariths(1))
  moreover from this have "dynstr_append ds str = Some (ds\<lparr>ds_to_add_capacity := ?new, ds_to_add := ds_to_add ds @ str @ [0]\<rparr>)"
    unfolding dynstr_append_def Let_def lt by (cases "unat ?cap < ?n + (length str + 1)") (simp_all add: write_new_def)
  ultimately show ?thesis by (intro exI [of _ ?new]) (simp only: length_append list.size, simp)
qed

lemma encode_stop_new:
  assumes "ds_state (e_dynstr erw) = dynstr_edit_state_encode_building_new"
  shows "encode_stop erw str e = (if len_hash e = dynstr_len_hash str then map_option (\<lambda>s. s = str) (new_str (e_dynstr erw) (encoded e))
    else Some (len_hash e = 0))"
  by (simp add: encode_stop_def decode_new [OF assms] option.map_comp comp_def)

lemma encode_new:
  assumes "ds_state (e_dynstr erw) = dynstr_edit_state_encode_building_new"
  shows "erw_dynstr_encode erw str = do {
     j \<leftarrow> probe_from (encode_stop erw str) (ds_table (e_dynstr erw)) (ds_table_mask (e_dynstr erw)) (entry_home (dynstr_len_hash str));
     let e = ds_table (e_dynstr erw) ! j;
     if len_hash e = dynstr_len_hash str then Some (erw, encoded e)
     else do {
       ds \<leftarrow> dynstr_append (e_dynstr erw) str;
       ds \<leftarrow> put_entry ds j \<lparr>len_hash = dynstr_len_hash str, encoded = of_nat (length (ds_to_add (e_dynstr erw)))\<rparr>;
       Some (erw\<lparr>e_dynstr := ds\<rparr>, of_nat (length (ds_to_add (e_dynstr erw)))) } }"
  using assms by (simp add: erw_dynstr_encode_def Let_def cong: if_cong)

text \<open>A probe for a string that is in the table finds it; otherwise it ends at a free slot for it.\<close>

definition match :: "dynstr_editor \<Rightarrow> bstr \<Rightarrow> dynstr_hash_entry \<Rightarrow> bool" where
  "match ds str e \<longleftrightarrow> len_hash e = dynstr_len_hash str \<and> new_str ds (encoded e) = Some str"

lemma encode_probe:
  assumes ok: "dynstr_ok (e_dynstr erw)" and len: "length str + 1 < 2 ^ 31"
  defines "ds \<equiv> e_dynstr erw"
  obtains j k where "probe_from (encode_stop erw str) (ds_table ds) (ds_table_mask ds) (entry_home (dynstr_len_hash str)) = Some j"
    "str_table_ok ds k" "j < 2 ^ k" "match ds str (ds_table ds ! j)"
  | j k where "probe_from (encode_stop erw str) (ds_table ds) (ds_table_mask ds) (entry_home (dynstr_len_hash str)) = Some j"
    "str_table_ok ds k" "j < 2 ^ k" "\<not> used_entry (ds_table ds ! j)" "\<forall>e \<in> entries (ds_table ds). \<not> match ds str e"
    "\<And>e. len_hash e = dynstr_len_hash str \<Longrightarrow> reached k (ds_table ds) e j"
proof -
  let ?h = "entry_home (dynstr_len_hash str)" and ?t = "ds_table ds" and ?stop = "encode_stop erw str"
  obtain k where k: "str_table_ok ds k" using ok by (auto simp: dynstr_ok_def ds_def)
  then have tab: "linear_ok k ?t" "length ?t = 2 ^ k" "k \<le> 32" "ds_table_mask ds = 2 ^ k - 1"
    by (auto simp: str_table_ok_def linear_ok_def)
  have stop: "?stop e = (if len_hash e = dynstr_len_hash str then map_option (\<lambda>s. s = str) (new_str ds (encoded e)) else Some (len_hash e = 0))" for e
    using ok by (simp add: encode_stop_new dynstr_ok_def ds_def)
  have some: "\<forall>e \<in> set ?t. ?stop e \<noteq> None"
    using ok len_hash_facts(2) [OF len] by (auto simp: stop dynstr_ok_def ds_def entries_def used_entry_def)
  have "unat (ds_table_count ds) < 2 ^ k" using k unfolding str_table_ok_def by auto
  then obtain x where "x \<in> set ?t" "\<not> used_entry x" using free_slot [of ?t] k tab(2) by (auto simp: str_table_ok_def)
  then have "x \<in> set ?t" "?stop x = Some True" using len_hash_facts(2) [OF len] by (auto simp: stop used_entry_def)
  then obtain d where d: "probe_from ?stop ?t (2 ^ k - 1) ?h = Some (slot_from ?h k d)"
    "?stop (?t ! slot_from ?h k d) = Some True" "\<forall>d' < d. ?stop (?t ! slot_from ?h k d') = Some False"
    using probe_stops [OF tab(2,3) some] by metis
  let ?j = "slot_from ?h k d"
  show thesis
  proof (cases "match ds str (?t ! ?j)")
    case True
    then show ?thesis using d(1) k tab(4) slot_less by (intro that(1) [of ?j k]) simp_all
  next
    case False
    have free: "\<not> used_entry (?t ! ?j)"
      using False d(2) by (auto simp: stop match_def used_entry_def split: if_splits)
    have before: "used_entry (?t ! slot_from ?h k d') \<and> \<not> match ds str (?t ! slot_from ?h k d')" if "d' < d" for d'
      using d(3) that len_hash_facts(2) [OF len] by (fastforce simp: stop match_def used_entry_def split: if_splits)
    have "\<not> match ds str e" if e: "e \<in> entries ?t" for e
    proof
      assume m: "match ds str e"
      obtain i where i: "i < 2 ^ k" "?t ! i = e" "used_entry e" using e tab(2) by (auto simp: entries_def in_set_conv_nth)
      then obtain d' where d': "i = slot_from ?h k d'" "\<forall>d'' < d'. used_entry (?t ! slot_from ?h k d'')"
        using tab(1) m by (auto simp: linear_ok_def reached_def match_def)
      then show False using before [of d'] free i m by (metis linorder_neqE_nat)
    qed
    moreover have "reached k ?t e ?j" if "len_hash e = dynstr_len_hash str" for e
      using before that by (auto simp: reached_def)
    ultimately show ?thesis using d(1) k tab(4) slot_less free by (intro that(2) [of ?j k]) simp_all
  qed
qed

lemma encode_again:
  assumes ok: "dynstr_ok (e_dynstr erw)" and len: "length str + 1 < 2 ^ 31"
    and e: "e \<in> entries (ds_table (e_dynstr erw))" "match (e_dynstr erw) str e"
    and unique: "\<And>e. e \<in> entries (ds_table (e_dynstr erw)) \<Longrightarrow> match (e_dynstr erw) str e \<Longrightarrow> encoded e = ref"
  shows "erw_dynstr_encode erw str = Some (erw, ref)"
proof (rule encode_probe [OF ok len])
  fix j k assume j: "probe_from (encode_stop erw str) (ds_table (e_dynstr erw)) (ds_table_mask (e_dynstr erw)) (entry_home (dynstr_len_hash str)) = Some j"
    "str_table_ok (e_dynstr erw) k" "j < 2 ^ k" "match (e_dynstr erw) str (ds_table (e_dynstr erw) ! j)"
  then have "ds_table (e_dynstr erw) ! j \<in> entries (ds_table (e_dynstr erw))"
    using len_hash_facts(2) [OF len] by (auto simp: entries_def used_entry_def match_def str_table_ok_def linear_ok_def)
  then show ?thesis
    using j unique ok by (subst encode_new) (auto simp: dynstr_ok_def match_def)
qed (use e in blast)

lemma room_exponent: "str_table_ok ds k \<Longrightarrow> unat (ds_table_mask ds) < 2 ^ 30 \<Longrightarrow> k \<le> 30"
proof (rule ccontr)
  assume "str_table_ok ds k" "unat (ds_table_mask ds) < 2 ^ 30" "\<not> k \<le> 30"
  moreover from this have "k = 31" "ds_table_mask ds = 2 ^ k - 1" by (auto simp: str_table_ok_def)
  ultimately show False by (simp add: unat_mask)
qed

lemma encode_absent:
  assumes ok: "dynstr_ok (e_dynstr erw)" and room: "dynstr_room (e_dynstr erw) str" and str: "0 \<notin> set str"
    and j: "probe_from (encode_stop erw str) (ds_table (e_dynstr erw)) (ds_table_mask (e_dynstr erw)) (entry_home (dynstr_len_hash str)) = Some j"
      "str_table_ok (e_dynstr erw) k" "j < 2 ^ k" "\<not> used_entry (ds_table (e_dynstr erw) ! j)"
      "\<forall>e \<in> entries (ds_table (e_dynstr erw)). \<not> match (e_dynstr erw) str e"
      "\<And>e. len_hash e = dynstr_len_hash str \<Longrightarrow> reached k (ds_table (e_dynstr erw)) e j"
  shows "\<exists>erw' ref. erw_dynstr_encode erw str = Some (erw', ref) \<and> dynstr_ok (e_dynstr erw') \<and>
    erw_dynstr_decode erw' ref = Some (erw', str) \<and>
    (\<forall>r s. erw_dynstr_decode erw r = Some (erw, s) \<longrightarrow> erw_dynstr_decode erw' r = Some (erw', s)) \<and>
    erw_dynstr_encode erw' str = Some (erw', ref)"
proof -
  let ?ds = "e_dynstr erw" and ?lh = "dynstr_len_hash str"
  have len: "length str + 1 < 2 ^ 31" using room by (simp add: dynstr_room_def)
  have state: "ds_state ?ds = dynstr_edit_state_encode_building_new" using ok by (simp add: dynstr_ok_def)
  let ?n = "length (ds_to_add ?ds)" and ?new = "ds_to_add ?ds @ str @ [0]"
  let ?e = "\<lparr>len_hash = ?lh, encoded = of_nat ?n\<rparr> :: dynstr_hash_entry"
  obtain cap where cap: "dynstr_append ?ds str = Some (?ds\<lparr>ds_to_add_capacity := cap, ds_to_add := ?new\<rparr>)" "length ?new \<le> unat cap"
    using append_new [OF _ room] ok by (auto simp: dynstr_ok_def)
  let ?ds1 = "?ds\<lparr>ds_to_add_capacity := cap, ds_to_add := ?new\<rparr>"
  have ds1: "str_table_ok ?ds1 k" using j(2) by (simp add: str_table_ok_def)
  have k: "k \<le> 30" using room_exponent [OF j(2)] room by (simp add: dynstr_room_def)
  have used: "used_entry ?e" using len_hash_facts(2) [OF len] by (simp add: used_entry_def)
  obtain t c m k' where put: "put_entry ?ds1 j ?e = Some (?ds1\<lparr>ds_table := t, ds_table_count := c, ds_table_mask := m\<rparr>)"
    "str_table_ok (?ds1\<lparr>ds_table := t, ds_table_count := c, ds_table_mask := m\<rparr>) k'" "entries t = insert ?e (entries (ds_table ?ds))"
    using put_entry_ok [OF ds1 k used j(3)] j(4,6) by auto
  let ?ds2 = "?ds1\<lparr>ds_table := t, ds_table_count := c, ds_table_mask := m\<rparr>"
  let ?erw = "erw\<lparr>e_dynstr := ?ds2\<rparr>"
  have old: "new_str ?ds r = Some s \<Longrightarrow> new_str ?ds2 r = Some s" for r s by (erule new_str_append) simp
  have "?n < 2 ^ 64" using cap(2) unat_less_pow [of cap] by simp
  then have new: "new_str ?ds2 (of_nat ?n) = Some str" using str by (intro new_str_end) simp_all
  have enc: "erw_dynstr_encode erw str = Some (?erw, of_nat ?n)"
    using j(1,4) cap(1) put(1) len_hash_facts(2) [OF len] by (subst encode_new [OF state]) (auto simp: used_entry_def)
  have olds: "new_str ?ds (encoded e) \<noteq> None" if "e \<in> entries (ds_table ?ds)" for e using ok that by (simp add: dynstr_ok_def)
  have ok2: "dynstr_ok ?ds2"
    using state cap(2) put(2,3) new olds old by (fastforce simp: dynstr_ok_def)
  have "match ?ds str e" if "e \<in> entries (ds_table ?ds)" "match ?ds2 str e" for e
    using olds [OF that(1)] old that(2) by (fastforce simp: match_def)
  then have "encoded e = of_nat ?n" if "e \<in> entries (ds_table ?ds2)" "match ?ds2 str e" for e
    using that put(3) j(5) by auto
  then have "erw_dynstr_encode ?erw str = Some (?erw, of_nat ?n)"
    using ok2 put(3) new by (intro encode_again [OF _ len, of _ ?e]) (simp_all add: match_def)
  then show ?thesis
    using enc ok2 new old state by (intro exI [of _ ?erw] exI [of _ "of_nat ?n"]) (auto simp: decode_new)
qed

text \<open>A rewriter that has just started a new string table.\<close>

definition erw_building :: "64 word erw" where
  "erw_building = erw_zero\<lparr>e_dynstr := \<lparr>ds_original_base = 0, ds_to_add = [0], ds_to_add_capacity = 33,
     ds_state = dynstr_edit_state_encode_building_new, ds_table = replicate 16 entry_zero, ds_table_count = 0, ds_table_mask = 15\<rparr>\<rparr>"

text \<open>
  C21: Encoding a string in a new string table returns a reference that decodes to the string,
  keeps what every earlier reference decodes to, and returns the same reference, with no further
  change, when the string is encoded again.
\<close>

theorem erw_dynstr_encode_correct:
  assumes ok: "dynstr_ok (e_dynstr erw)" and room: "dynstr_room (e_dynstr erw) str" and str: "0 \<notin> set str"
  shows "\<exists>erw' ref. erw_dynstr_encode erw str = Some (erw', ref) \<and> dynstr_ok (e_dynstr erw') \<and>
    erw_dynstr_decode erw' ref = Some (erw', str) \<and>
    (\<forall>r s. erw_dynstr_decode erw r = Some (erw, s) \<longrightarrow> erw_dynstr_decode erw' r = Some (erw', s)) \<and>
    erw_dynstr_encode erw' str = Some (erw', ref)"
proof -
  let ?ds = "e_dynstr erw" and ?lh = "dynstr_len_hash str"
  have len: "length str + 1 < 2 ^ 31" using room by (simp add: dynstr_room_def)
  have state: "ds_state ?ds = dynstr_edit_state_encode_building_new" using ok by (simp add: dynstr_ok_def)
  show ?thesis
  proof (rule encode_probe [OF ok len])
    fix j k assume j: "probe_from (encode_stop erw str) (ds_table ?ds) (ds_table_mask ?ds) (entry_home ?lh) = Some j"
      "match ?ds str (ds_table ?ds ! j)"
    have "erw_dynstr_encode erw str = Some (erw, encoded (ds_table ?ds ! j))"
      using j by (subst encode_new [OF state]) (simp add: match_def)
    then show ?thesis using ok j(2) by (auto simp: decode_new [OF state] match_def)
  qed (rule encode_absent [OF ok room str])
qed

theorem erw_dynstr_encode_witness:
  "\<exists>erw' ref. erw_dynstr_encode erw_building [97, 98] = Some (erw', ref) \<and> dynstr_ok (e_dynstr erw') \<and>
    erw_dynstr_decode erw' ref = Some (erw', [97, 98]) \<and>
    (\<forall>r s. erw_dynstr_decode erw_building r = Some (erw_building, s) \<longrightarrow> erw_dynstr_decode erw' r = Some (erw', s)) \<and>
    erw_dynstr_encode erw' [97, 98] = Some (erw', ref)"
proof (rule erw_dynstr_encode_correct)
  have e: "entries (replicate 16 entry_zero) = {}" "filter used_entry (replicate 16 entry_zero) = []"
    by (simp_all add: entries_def used_entry_def entry_zero_def)
  have "linear_ok 4 (replicate 16 entry_zero)" using empty_table [of 4] by simp
  then have "str_table_ok (e_dynstr erw_building) 4"
    by (simp add: str_table_ok_def erw_building_def e)
  then show "dynstr_ok (e_dynstr erw_building)"
    unfolding dynstr_ok_def by (intro conjI exI [of _ 4]) (simp_all add: erw_building_def e)
  show "dynstr_room (e_dynstr erw_building) [97, 98]" by (simp add: dynstr_room_def erw_building_def)
qed simp

end
