(* ===== verification/RelocEdit.thy ===== *)
theory RelocEdit
  imports Relocs
begin

section \<open>erw_nne.h: adding relocations and writing them back\<close>

text \<open>
  New entries go to a block of its own of the editor, at the end or in front of the entries of
  their kind. \<open>DT_RELR\<close> is expanded into ordinary relocations. Writing back moves the tables
  that have a block of their own, and those that must stay next to a moved one.
\<close>

subsection \<open>Room for new entries\<close>

text \<open>\<open>erw_relocs_increase_capacity\<close>; \<open>None\<close> is a size of the block that does not fit its type.\<close>

definition relocs_resize :: "reloc_editor \<Rightarrow> u64 \<Rightarrow> mem \<Rightarrow> reloc_editor option" where
  "relocs_resize rl new h =
    (if unat new * unat (rl_entry_size rl) < 2 ^ 32 \<and> unat new < 2 ^ 32
     then Some (rl\<lparr>rl_live := True, rl_heap := h, rl_capacity := new\<rparr>) else None)"

definition relocs_grow :: "mem \<Rightarrow> reloc_editor \<Rightarrow> reloc_editor option" where
  "relocs_grow f rl =
    (if rl_capacity rl \<noteq> 0 then relocs_resize rl (rl_capacity rl * 2) (rl_heap rl)
     else if rl_count rl \<noteq> 0 then do {
       bytes \<leftarrow> mem_read f (rl_at rl) (unat (rl_count rl) * unat (rl_entry_size rl));
       relocs_resize rl (rl_count rl * 2) (mem_write Map.empty 0 bytes) }
     else relocs_resize rl 4 Map.empty)"

definition new_editor :: "'a::len itself \<Rightarrow> u32 \<Rightarrow> reloc_editor" where
  "new_editor _ section = \<lparr>rl_live = True, rl_at = 0, rl_heap = Map.empty, rl_count = 0, rl_capacity = 1,
     rl_entry_size = of_nat ((if section = DT_RELA then 3 else 2) * word_size TYPE('a)), rl_dt = ucast section,
     rl_flags = (if section = DT_RELA then RELOC_EDIT_FLAG_EXPLICIT_ADDEND else 0)\<rparr>"

definition set_editor :: "'w erw \<Rightarrow> nat \<Rightarrow> reloc_editor \<Rightarrow> 'w erw" where
  "set_editor erw k rl = erw\<lparr>e_relocs := (e_relocs erw)[k := rl]\<rparr>"

text \<open>The index of the editor, with room for one more entry.\<close>

definition relocs_prepare_add :: "'a::len word erw \<Rightarrow> u32 \<Rightarrow> ('a word erw \<times> nat option) option" where
  "relocs_prepare_add erw section =
    (case find (\<lambda>k. rl_dt (e_relocs erw ! k) = 0 \<or> rl_dt (e_relocs erw ! k) = ucast section) [0..<MAX_RELOC_EDITORS] of
       None \<Rightarrow> Some (erw, None)
     | Some k \<Rightarrow> do {
         let rl = e_relocs erw ! k;
         let rl = (if rl_dt rl = 0 then new_editor TYPE('a) section else rl);
         let rl = rl\<lparr>rl_flags := rl_flags rl OR RELOC_EDIT_FLAG_DIRTY\<rparr>;
         rl \<leftarrow> (if rl_count rl \<ge> rl_capacity rl then relocs_grow (e_f erw) rl else Some rl);
         Some (set_modified ERW_MODIFIED_RELOCS (set_editor erw k rl), Some k) })"

subsection \<open>Adding\<close>

definition reloc_info :: "u32 \<Rightarrow> u32 \<Rightarrow> 'a::len word" where
  "reloc_info kind symb =
    (if LENGTH('a) = 32 then ucast ((ucast (ucast kind :: u8) :: u32) + push_bit 24 symb)
     else ucast kind + push_bit 32 (ucast symb))"

text \<open>The fields of the entry at an offset, already in the endianness of the file.\<close>

definition reloc_fill :: "'a::len word erw \<Rightarrow> nat \<Rightarrow> nat \<Rightarrow> 'a word \<Rightarrow> 'a word \<Rightarrow> 'a word option \<Rightarrow> 'a word erw option" where
  "reloc_fill erw k off r_offset r_info r_addend = do {
     erw \<leftarrow> rel_set_word erw k off r_offset;
     erw \<leftarrow> rel_set_word erw k (off + word_size TYPE('a)) r_info;
     case r_addend of None \<Rightarrow> Some erw | Some a \<Rightarrow> rel_set_word erw k (off + 2 * word_size TYPE('a)) a }"

definition new_reloc :: "'a::len word erw \<Rightarrow> nat \<Rightarrow> nat \<Rightarrow> u32 \<Rightarrow> 'a word \<Rightarrow> u32 \<Rightarrow> 'a word \<Rightarrow> 'a word erw option" where
  "new_reloc erw k off kind where' symb explicit_addend =
    (let bs = e_bswap erw in
     reloc_fill erw k off (esw bs where') (esw bs (reloc_info kind symb))
       (if rl_flags (e_relocs erw ! k) AND RELOC_EDIT_FLAG_EXPLICIT_ADDEND \<noteq> 0 then Some (esw bs explicit_addend) else None))"

definition count_relocs :: "'w erw \<Rightarrow> nat \<Rightarrow> u64 \<Rightarrow> 'w erw" where
  "count_relocs erw k n = set_editor erw k ((e_relocs erw ! k)\<lparr>rl_count := rl_count (e_relocs erw ! k) + n\<rparr>)"

definition relocs_add :: "'a::len word erw \<Rightarrow> u32 \<Rightarrow> u32 \<Rightarrow> 'a word \<Rightarrow> u32 \<Rightarrow> 'a word \<Rightarrow> ('a word erw \<times> bool) option" where
  "relocs_add erw section kind where' symb explicit_addend = do {
     (erw, k) \<leftarrow> relocs_prepare_add erw section;
     case k of None \<Rightarrow> Some (erw, False)
     | Some k \<Rightarrow> do {
         let rl = e_relocs erw ! k;
         let off = unat (rl_entry_size rl) * unat (rl_count rl);
         erw \<leftarrow> new_reloc (count_relocs erw k 1) k off kind where' symb explicit_addend;
         Some (erw, True) } }"

text \<open>\<open>memcpy\<close> within a block; bytes that were never written stay so.\<close>

definition mem_copy :: "mem \<Rightarrow> nat \<Rightarrow> nat \<Rightarrow> nat \<Rightarrow> mem" where
  "mem_copy h dst src n = (\<lambda>a. if dst \<le> a \<and> a < dst + n then h (a - dst + src) else h a)"

text \<open>The entries of the kind move one place of their kind up; the result is the free place.\<close>

definition early_step :: "nat \<Rightarrow> u32 \<Rightarrow> nat \<Rightarrow> 'a::len word erw \<times> nat \<Rightarrow> ('a word erw \<times> nat) option" where
  "early_step k kind i s = (case s of (erw, dst) \<Rightarrow> do {
     let rl = e_relocs erw ! k;
     let step = unat (rl_entry_size rl);
     w \<leftarrow> rel_word erw rl (i * step + word_size TYPE('a));
     if rel_type (esw (e_bswap erw) w) = kind
       then Some (set_editor erw k (rl\<lparr>rl_heap := mem_copy (rl_heap rl) (dst * step) (i * step) step\<rparr>), i)
       else Some (erw, dst) })"

definition relocs_add_early :: "'a::len word erw \<Rightarrow> u32 \<Rightarrow> u32 \<Rightarrow> 'a word \<Rightarrow> u32 \<Rightarrow> 'a word \<Rightarrow> ('a word erw \<times> bool) option" where
  "relocs_add_early erw section kind where' symb explicit_addend = do {
     (erw, k) \<leftarrow> relocs_prepare_add erw section;
     case k of None \<Rightarrow> Some (erw, False)
     | Some k \<Rightarrow> do {
         let n = unat (rl_count (e_relocs erw ! k));
         (erw, dst) \<leftarrow> each (early_step k kind) (rev [0..<n]) (count_relocs erw k 1, n);
         erw \<leftarrow> new_reloc erw k (dst * unat (rl_entry_size (e_relocs erw ! k))) kind where' symb explicit_addend;
         Some (erw, True) } }"

text \<open>Too many editors are a fatal error.\<close>

definition erw_relocs_add :: "'a::len word erw \<Rightarrow> u32 \<Rightarrow> u32 \<Rightarrow> u64 \<Rightarrow> u32 \<Rightarrow> u64 \<Rightarrow> 'a word erw option" where
  "erw_relocs_add erw section kind where' symb explicit_addend = do {
     erw \<leftarrow> (if relocs_live erw then Some erw else erw_relocs_init erw);
     (erw, added) \<leftarrow> relocs_add erw section kind (ucast where') symb (ucast explicit_addend);
     if added then Some erw else None }"

definition erw_relocs_add_early :: "'a::len word erw \<Rightarrow> u32 \<Rightarrow> u32 \<Rightarrow> u64 \<Rightarrow> u32 \<Rightarrow> u64 \<Rightarrow> 'a word erw option" where
  "erw_relocs_add_early erw section kind where' symb explicit_addend = do {
     erw \<leftarrow> (if relocs_live erw then Some erw else erw_relocs_init erw);
     (erw, added) \<leftarrow> relocs_add_early erw section kind (ucast where') symb (ucast explicit_addend);
     if added then Some erw else None }"

subsection \<open>Expanding \<open>DT_RELR\<close>\<close>

text \<open>The relative relocation of each machine, and the kind of its table.\<close>

definition relative_reloc :: "u16 \<Rightarrow> (u32 \<times> 'a::len word) option" where
  "relative_reloc machine =
    (if machine = EM_386 then Some (DT_REL, R_386_RELATIVE)
     else if machine = EM_ARM then Some (DT_REL, R_ARM_RELATIVE)
     else if machine = EM_X86_64 then Some (DT_RELA, R_X86_64_RELATIVE)
     else if machine = EM_AARCH64 then Some (DT_RELA, R_AARCH64_RELATIVE)
     else None)"

text \<open>One relocation for every bit that is set: \<open>word &= word - 1\<close> clears the lowest one.\<close>

lemma clear_lowest_less: "w \<noteq> 0 \<Longrightarrow> unat (w AND (w - 1)) < unat (w :: 'a::len word)"
proof -
  assume w: "w \<noteq> 0"
  have "unat (w AND (w - 1)) \<le> unat (w - 1)"
    using word_and_le1 [of w "w - 1"] by (simp add: word_le_nat_alt)
  also have "unat (w - 1) < unat w" using w by (simp add: unat_minus_one unat_gt_0)
  finally show ?thesis .
qed

function count_set_bits :: "'a::len word \<Rightarrow> u32" where
  "count_set_bits w = (if w = 0 then 0 else 1 + count_set_bits (w AND (w - 1)))"
  by pat_completeness auto
termination
  by (relation "measure unat") (simp_all add: clear_lowest_less)

declare count_set_bits.simps [simp del]

definition relr_count :: "'a::len word list \<Rightarrow> u32" where
  "relr_count ws = fold (\<lambda>w n. n + (if w AND 1 \<noteq> 0 then count_set_bits (drop_bit 1 w) else 1)) ws 0"

text \<open>
  The addresses that the second loop writes relocations for, in their order: of the bits of a
  word from address \<open>r_addr\<close> on, and of all words.
\<close>

function relr_bits :: "'a::len word \<Rightarrow> 'a word \<Rightarrow> 'a word list" where
  "relr_bits r_addr w =
    (if w = 0 then []
     else (if w AND 1 \<noteq> 0 then [r_addr] else []) @ relr_bits (r_addr + of_nat (word_size TYPE('a))) (drop_bit 1 w))"
  by pat_completeness auto
termination
  by (relation "measure (\<lambda>(a, w). unat w)") (simp_all add: drop_bit_Suc unat_div unat_gt_0)

declare relr_bits.simps [simp del]

fun relr_addrs :: "'a::len word \<Rightarrow> 'a word list \<Rightarrow> 'a word list" where
  "relr_addrs r_addr [] = []"
| "relr_addrs r_addr (w # ws) =
    (if w AND 1 \<noteq> 0
     then relr_bits r_addr (drop_bit 1 w) @
       relr_addrs (r_addr + of_nat (word_size TYPE('a) * 8 - 1) * of_nat (word_size TYPE('a))) ws
     else relr_bits w 1 @ relr_addrs (w + of_nat (word_size TYPE('a))) ws)"

fun ensure_relocs :: "nat \<Rightarrow> mem \<Rightarrow> u32 \<Rightarrow> reloc_editor \<Rightarrow> reloc_editor option" where
  "ensure_relocs 0 f n rl = None"
| "ensure_relocs (Suc fuel) f n rl =
    (if rl_capacity rl - rl_count rl < ucast n then do { rl \<leftarrow> relocs_grow f rl; ensure_relocs fuel f n rl } else Some rl)"

definition relr_words :: "'a::len word erw \<Rightarrow> u64 \<Rightarrow> u64 \<Rightarrow> 'a word list option" where
  "relr_words erw relr relrsz = do {
     let f = v2f_at (e_v2f erw) relr;
     bytes \<leftarrow> (if v2f_special f \<or> v2f_next (e_v2f erw) relr - relr < relrsz
       then map_option fst (materialise_v_range_to erw relr relrsz)
       else mem_read (e_f erw) (unat (relr + f)) (unat relrsz));
     Some (map (\<lambda>i. word_of_bytes (take (word_size TYPE('a)) (drop (i * word_size TYPE('a)) bytes)))
       [0..<unat relrsz div word_size TYPE('a)]) }"

definition relr_write :: "nat \<Rightarrow> u32 \<Rightarrow> 'a::len word \<Rightarrow> 'a word \<Rightarrow> 'a word erw \<times> nat \<Rightarrow> ('a word erw \<times> nat) option" where
  "relr_write k section info r_addr s = (case s of (erw, off) \<Rightarrow> do {
     addend \<leftarrow> (if section = DT_RELA
       then map_option (\<lambda>(bs, _). Some (word_of_bytes bs)) (materialise_v_range_to erw (ucast r_addr) (of_nat (word_size TYPE('a))))
       else Some None);
     erw \<leftarrow> reloc_fill erw k off (esw (e_bswap erw) r_addr) info addend;
     Some (erw, off + unat (rl_entry_size (e_relocs erw ! k))) })"

text \<open>Doubling the capacity 33 times is more than its type allows.\<close>

definition relocs_expand_relr :: "'a::len word erw \<Rightarrow> ('a word erw \<times> bool) option" where
  "relocs_expand_relr erw = do {
     relr \<leftarrow> dhdrs_has erw DT_RELR;
     relrsz \<leftarrow> dhdrs_has erw DT_RELRSZ;
     if relr = None \<or> relrsz = None \<or> relrsz = Some 0 then Some (erw, True)
     else (case relative_reloc (e_machine erw) of None \<Rightarrow> Some (erw, False)
       | Some (section, info) \<Rightarrow> do {
           let info = esw (e_bswap erw) info;
           let sz = (of_nat (word_size TYPE('a)) :: u64);
           ws \<leftarrow> relr_words erw (the relr) ((the relrsz + sz - 1) AND NOT (sz - 1));
           let n_relocs = relr_count ws;
           (erw, k) \<leftarrow> relocs_prepare_add erw section;
           case k of None \<Rightarrow> Some (erw, False)
           | Some k \<Rightarrow> do {
               rl \<leftarrow> ensure_relocs 34 (e_f erw) n_relocs (e_relocs erw ! k);
               let off = unat (rl_entry_size rl) * unat (rl_count rl);
               (erw, _) \<leftarrow> each (relr_write k section info) (relr_addrs 0 ws)
                 (count_relocs (set_editor erw k rl) k (ucast n_relocs), off);
               Some (erw, True) } }) }"

definition erw_relocs_expand_relr :: "'a::len word erw \<Rightarrow> 'a word erw option" where
  "erw_relocs_expand_relr erw = do {
     erw \<leftarrow> (if relocs_live erw then Some erw else erw_relocs_init erw);
     (erw, known) \<leftarrow> relocs_expand_relr erw;
     if known then Some erw else None }"

subsection \<open>Writing back\<close>

definition reloc_dirty :: "reloc_editor \<Rightarrow> bool" where
  "reloc_dirty rl \<longleftrightarrow> rl_flags rl AND RELOC_EDIT_FLAG_DIRTY \<noteq> 0"

definition explicit_addend_editor :: "reloc_editor \<Rightarrow> bool" where
  "explicit_addend_editor rl \<longleftrightarrow> rl_flags rl AND RELOC_EDIT_FLAG_EXPLICIT_ADDEND \<noteq> 0"

text \<open>\<open>DT_REL\<close> and \<open>DT_RELA\<close> are visited first, then \<open>DT_JMPREL\<close>; the number of those that must move together.\<close>

definition visit_order :: "'a::len word erw \<Rightarrow> nat list \<times> nat" where
  "visit_order erw =
    (let dt = (\<lambda>k. rl_dt (e_relocs erw ! k));
         eds = reloc_editors erw;
         together = filter (\<lambda>k. dt k = DT_REL \<or> dt k = DT_RELA) eds @ filter (\<lambda>k. dt k = DT_JMPREL) eds;
         others = filter (\<lambda>k. dt k \<noteq> DT_REL \<and> dt k \<noteq> DT_RELA \<and> dt k \<noteq> DT_JMPREL) eds;
         any_moved = (\<exists>k \<in> set together. reloc_dirty (e_relocs erw ! k) \<and> rl_capacity (e_relocs erw ! k) \<noteq> 0)
     in (together @ others, if any_moved then length together else 0))"

definition reloc_section :: "reloc_editor \<Rightarrow> bstr option" where
  "reloc_section rl =
    (if rl_dt rl = DT_REL then Some (bytes_of ''.rel.dyn'')
     else if rl_dt rl = DT_RELA then Some (bytes_of ''.rela.dyn'')
     else if rl_dt rl = DT_JMPREL then Some (bytes_of (if explicit_addend_editor rl then ''.rela.plt'' else ''.rel.plt''))
     else None)"

definition reloc_tag :: "reloc_editor \<Rightarrow> ('a::len word \<times> 'a word) option" where
  "reloc_tag rl =
    (if rl_dt rl = DT_REL then Some (DT_REL, DT_RELSZ)
     else if rl_dt rl = DT_RELA then Some (DT_RELA, DT_RELASZ)
     else if rl_dt rl = DT_JMPREL then Some (DT_JMPREL, DT_PLTRELSZ)
     else if rl_dt rl = DT_GNU_CONFLICT AND 0xff then Some (DT_GNU_CONFLICT, DT_GNU_CONFLICTSZ)
     else None)"

definition reloc_set_section :: "'a::len word erw \<Rightarrow> bstr \<Rightarrow> reloc_editor \<Rightarrow> u64 \<Rightarrow> u64 \<Rightarrow> u64 \<Rightarrow> 'a word erw option" where
  "reloc_set_section erw section rl v f nb = do {
     (erw, shdr) \<leftarrow> shdr_find erw section;
     case shdr of None \<Rightarrow> Some erw
     | Some a \<Rightarrow> do {
         s \<leftarrow> get_at (shdr_codec :: 'a word shdr codec) (e_f erw) a;
         let bs = e_bswap erw;
         put_at shdr_codec erw a (s\<lparr>sh_type := esw bs (if explicit_addend_editor rl then SHT_RELA else SHT_REL),
           sh_flags := esw bs ((esw bs (sh_flags s) AND NOT (SHF_WRITE OR SHF_EXECINSTR)) OR SHF_ALLOC),
           sh_addr := esw bs (ucast v), sh_offset := esw bs (ucast f), sh_size := esw bs (ucast nb),
           sh_addralign := esw bs (of_nat (word_size TYPE('a)))\<rparr>) } }"

definition reloc_move :: "'a::len word erw \<Rightarrow> nat \<Rightarrow> u64 \<Rightarrow> 'a word erw option" where
  "reloc_move erw k nb = do {
     let rl = e_relocs erw ! k;
     let (erw, v) = erw_alloc erw erw_alloc_category_v_r (of_nat (word_size TYPE('a))) nb;
     erw \<leftarrow> (case reloc_tag rl of None \<Rightarrow> Some erw | Some (tag, _) \<Rightarrow> dhdrs_set_u erw tag (ucast v));
     if e_retry erw then Some erw
     else do {
       let f = v + v2f_at (e_v2f erw) v;
       let (m, a) = rel_mem erw rl;
       bytes \<leftarrow> mem_read m a (unat nb);
       f' \<leftarrow> mem_store (e_f erw) (unat f) bytes;
       let erw = set_editor (erw\<lparr>e_f := f'\<rparr>) k (rl\<lparr>rl_at := unat f, rl_heap := Map.empty, rl_capacity := 0\<rparr>);
       case reloc_section rl of None \<Rightarrow> Some erw | Some section \<Rightarrow> reloc_set_section erw section rl v f nb } }"

definition reloc_flush :: "bool \<Rightarrow> nat \<Rightarrow> 'a::len word erw \<Rightarrow> 'a word erw option" where
  "reloc_flush force k erw =
    (let rl = e_relocs erw ! k in
     if \<not> reloc_dirty rl \<and> \<not> force then Some erw
     else do {
       let nb = rl_count rl * ucast (rl_entry_size rl);
       erw \<leftarrow> (if rl_capacity rl \<noteq> 0 \<or> force then reloc_move erw k nb else Some erw);
       erw \<leftarrow> (case reloc_tag rl of None \<Rightarrow> Some erw | Some (_, tag) \<Rightarrow> dhdrs_set_u erw tag (ucast nb));
       if rl_entry_size rl > 1
         then dhdrs_set_u erw (if explicit_addend_editor rl then DT_RELAENT else DT_RELENT) (ucast (rl_entry_size rl))
         else Some erw })"

definition relocs_flush :: "'a::len word erw \<Rightarrow> 'a word erw option" where
  "relocs_flush erw =
    (let (order, num_to_force_move) = visit_order erw in
     each (\<lambda>(i, k). reloc_flush (i < num_to_force_move) k) (zip [0..<length order] order) erw)"

end
