(* ===== verification/RelocOps.thy ===== *)
theory RelocOps
  imports RelocEdit VRange
begin

section \<open>erw_nne.h: what \<open>DT_RELR\<close> expands to\<close>

text \<open>
  The two loops of \<open>relocs_expand_relr\<close> against the definition of the format: an even word is
  an address, an odd word is a bitmap of the words that follow the last address.
\<close>

definition relr_bitmap :: "'a::len word \<Rightarrow> 'a word \<Rightarrow> nat \<Rightarrow> 'a word list" where
  "relr_bitmap b w n = map (\<lambda>i. b + of_nat (i * word_size TYPE('a))) (filter (bit w) [0..<n])"

fun relr_spec :: "'a::len word \<Rightarrow> 'a word list \<Rightarrow> 'a word list" where
  "relr_spec b [] = []"
| "relr_spec b (w # ws) =
    (if even w then w # relr_spec (w + of_nat (word_size TYPE('a))) ws
     else relr_bitmap b (drop_bit 1 w) (LENGTH('a) - 1) @
       relr_spec (b + of_nat ((word_size TYPE('a) * 8 - 1) * word_size TYPE('a))) ws)"

lemma even_word_and: "even (w :: 'a::len word) \<longleftrightarrow> w AND 1 = 0"
  by (simp add: and_one_eq even_iff_mod_2_eq_zero)

lemma filter_bit_Suc: "filter (bit w) (map Suc xs) = map Suc (filter (bit (drop_bit 1 w)) xs)"
  by (induction xs) (auto simp: bit_drop_bit_eq)

lemma relr_bits_bitmap: "(\<And>i. n \<le> i \<Longrightarrow> \<not> bit w i) \<Longrightarrow> relr_bits b w = relr_bitmap b w n"
proof (induction b w arbitrary: n rule: relr_bits.induct)
  case (1 b w)
  show ?case
  proof (cases "w = 0")
    case True
    then show ?thesis by (simp add: relr_bits.simps relr_bitmap_def)
  next
    case False
    then obtain i where "bit w i" by (metis bit_eq_iff bit_0_eq bot_apply bot_bool_def)
    then obtain m where n: "n = Suc m" using "1.prems" by (metis not0_implies_Suc le0)
    have IH: "relr_bits (b + of_nat (word_size TYPE('a))) (drop_bit 1 w) = relr_bitmap (b + of_nat (word_size TYPE('a))) (drop_bit 1 w) m"
      using "1.IH" [OF False, of m] "1.prems" n by (auto simp: bit_drop_bit_eq)
    have "[0..<n] = 0 # map Suc [0..<m]" unfolding n by (simp add: upt_conv_Cons map_Suc_upt del: upt_Suc)
    then have "relr_bitmap b w n = (if odd w then [b] else []) @ relr_bitmap (b + of_nat (word_size TYPE('a))) (drop_bit 1 w) m"
      by (simp add: relr_bitmap_def filter_bit_Suc bit_0 comp_def algebra_simps)
    then show ?thesis using False IH by (subst relr_bits.simps) (simp add: even_word_and)
  qed
qed

lemma even_unat: "even (unat w) = even (w :: 'a::len word)"
proof -
  have "bit (unat w) 0 = bit w 0" by (simp only: bit_unsigned_iff) (simp add: possible_bit_def)
  then show ?thesis by (simp add: bit_0)
qed

lemma drop_minus_one:
  "w \<noteq> 0 \<Longrightarrow> drop_bit 1 (w - 1) = (if even w then drop_bit 1 w - 1 else drop_bit 1 (w :: 'a::len word))"
proof -
  assume w: "w \<noteq> 0"
  then have u: "unat (w - 1) = unat w - 1" "0 < unat w" by (simp_all add: unat_minus_one unat_gt_0)
  have d: "unat (drop_bit 1 v) = unat v div 2" for v :: "'a word"
  proof (cases "LENGTH('a) = 1")
    case True
    then have "unat v < 2" using unat_less_pow [of v] by simp
    then show ?thesis using True by (simp add: drop_bit_Suc unat_div)
  qed (simp add: drop_bit_Suc unat_div)
  show ?thesis
  proof (cases "even w")
    case True
    then have "even (unat w)" by (simp add: even_unat)
    then have "drop_bit 1 w \<noteq> 0" "(unat w - 1) div 2 = unat w div 2 - 1"
      using u(2) d [of w] by (auto elim!: evenE simp: unat_eq_0 [symmetric])
    then show ?thesis using True u by (subst word_unat_eq_iff) (simp add: d [simplified] unat_minus_one)
  next
    case False
    then have "odd (unat w)" by (simp add: even_unat)
    then show ?thesis using False u by (subst word_unat_eq_iff) (auto simp: d [simplified] elim!: oddE)
  qed
qed

lemma count_even: "even w \<Longrightarrow> count_set_bits (w :: 'a::len word) = count_set_bits (drop_bit 1 w)"
proof (induction w rule: count_set_bits.induct)
  case (1 w)
  show ?case
  proof (cases "w = 0")
    case False
    have "drop_bit 1 w \<noteq> 0"
    proof
      assume "drop_bit 1 w = 0"
      then have "w = take_bit 1 w" using bits_ident [of 1 w] by simp
      then show False using False "1.prems" by (simp add: take_bit_Suc even_iff_mod_2_eq_zero)
    qed
    moreover have "drop_bit 1 (w AND (w - 1)) = drop_bit 1 w AND (drop_bit 1 w - 1)"
      using drop_minus_one [OF False] "1.prems" by simp
    moreover have "even (w AND (w - 1))" using "1.prems" by (simp add: even_and_iff)
    ultimately show ?thesis
      using "1.IH" [OF False] False by (subst (1 2) count_set_bits.simps) simp
  qed simp
qed

lemma count_odd: "odd w \<Longrightarrow> count_set_bits (w :: 'a::len word) = 1 + count_set_bits (drop_bit 1 w)"
proof -
  assume odd: "odd w"
  then have w: "w \<noteq> 0" by auto
  have "even (w - 1)" using odd by simp
  then have "count_set_bits (w AND (w - 1)) = count_set_bits (drop_bit 1 (w AND (w - 1)))"
    by (intro count_even) (simp add: even_and_iff)
  also have "drop_bit 1 (w AND (w - 1)) = drop_bit 1 w" using drop_minus_one [OF w] odd by simp
  finally show ?thesis using w by (subst count_set_bits.simps) simp
qed

lemma count_bits: "count_set_bits w = of_nat (length (relr_bits b w))"
proof (induction b w rule: relr_bits.induct)
  case (1 b w)
  show ?case
  proof (cases "w = 0")
    case True
    then show ?thesis by (simp add: relr_bits.simps count_set_bits.simps)
  next
    case False
    have "count_set_bits w = (if odd w then 1 else 0) + count_set_bits (drop_bit 1 w)"
      using count_even [of w] count_odd [of w] by simp
    then show ?thesis using "1.IH" [OF False] False by (subst relr_bits.simps) (simp add: even_word_and)
  qed
qed

lemma relr_bits_one: "relr_bits b 1 = [b]"
  by (subst relr_bits.simps, subst relr_bits.simps) (simp add: drop_bit_Suc)

definition relr_length :: "'a::len word list \<Rightarrow> u32" where
  "relr_length ws = sum_list (map (\<lambda>w. if w AND 1 \<noteq> 0 then count_set_bits (drop_bit 1 w) else 1) ws)"

lemma relr_count_sum: "relr_count ws = relr_length ws"
proof -
  have "fold (\<lambda>w n. n + (if w AND 1 \<noteq> 0 then count_set_bits (drop_bit 1 w) else 1)) ws m = m + relr_length ws" for m
    by (induction ws arbitrary: m) (simp_all add: relr_length_def)
  then show ?thesis by (simp add: relr_count_def)
qed

lemma top_bit_dropped: "LENGTH('a) - 1 \<le> i \<Longrightarrow> \<not> bit (drop_bit 1 (w :: 'a::len word)) i"
  by (auto simp: bit_drop_bit_eq dest: bit_imp_le_length)

lemma relr_addrs_ok: "relr_addrs b ws = relr_spec b ws"
proof (induction ws arbitrary: b)
  case (Cons w ws)
  have "relr_bits b (drop_bit 1 w) = relr_bitmap b (drop_bit 1 w) (LENGTH('a) - 1)"
    by (rule relr_bits_bitmap) (rule top_bit_dropped)
  then show ?case using Cons by (simp add: even_word_and relr_bits_one)
qed simp

lemma relr_count_ok: "relr_count ws = of_nat (length (relr_spec b ws))"
proof -
  have "relr_length ws = of_nat (length (relr_addrs b ws))"
  proof (induction ws arbitrary: b)
    case (Cons w ws)
    then show ?case
      using count_bits [of "drop_bit 1 w" b] by (simp add: relr_length_def relr_bits_one)
  qed (simp add: relr_length_def)
  then show ?thesis by (simp add: relr_count_sum relr_addrs_ok)
qed

text \<open>
  The bytes that a virtual address range stands for, whether they are in one segment, which is
  read in place, or in several, which are copied out; and the words of the table in them.
\<close>

definition v_bytes :: "'w erw \<Rightarrow> u64 \<Rightarrow> u8 list \<Rightarrow> bool" where
  "v_bytes erw v bs \<longleftrightarrow> v2f_start_ok (e_v2f erw) v \<and> (\<forall>a. e_f erw a \<noteq> None \<longrightarrow> a < 2 ^ 63) \<and>
     unat v + length bs \<le> 2 ^ 64 \<and> (\<forall>k < length bs. v_byte erw (v + of_nat k) = Some (bs ! k))"

definition table_words :: "bool \<Rightarrow> u8 list \<Rightarrow> 'a::len word list" where
  "table_words big bs = map (\<lambda>i. esw big (word_of_bytes (take (word_size TYPE('a)) (drop (i * word_size TYPE('a)) bs))))
     [0..<length bs div word_size TYPE('a)]"

lemma relr_words_ok:
  fixes erw :: "'a::len word erw"
  assumes b: "v_bytes erw relr bs" and n: "length bs = unat relrsz"
  shows "relr_words erw relr relrsz = Some (table_words False bs :: 'a word list)"
proof -
  let ?m = "e_v2f erw" let ?es = "m_entries ?m" let ?i = "v2f_entry_at ?m relr"
  have ok: "v2f_ok ?m" "es_ok ?es" using b by (simp_all add: v_bytes_def v2f_start_ok_def v2f_ok_def)
  obtain m' where l: "v2f_map_lookup ?m relr = (m', ?i)" by (metis prod.collapse v2f_entry_at_def)
  have cov: "covers ?es relr ?i" using v2f_map_lookup_covers [OF ok(1), of relr] l by simp
  have read: "mem_read (e_f erw) (unat (relr + v2f_at ?m relr)) (unat relrsz) = Some bs"
    if s: "\<not> v2f_special (v2f_at ?m relr)" and fit: "\<not> v2f_next ?m relr - relr < relrsz"
  proof -
    have "unat relr + length bs \<le> bnd ?es (?i + 1)"
    proof (cases "?i + 1 < length ?es - 1")
      case True
      then have "?i + 1 + 1 < length ?es" by linarith
      then have nx: "unat (v2f_next ?m relr) = bnd ?es (?i + 1)" by (simp add: v2f_next_def bnd_def)
      then have "unat relr \<le> unat (v2f_next ?m relr)" using cov by (simp add: covers_def)
      then have "unat (v2f_next ?m relr - relr) = bnd ?es (?i + 1) - unat relr" using nx by (simp add: unat_sub word_le_nat_alt)
      then show ?thesis using fit n cov by (auto simp: word_less_nat_alt covers_def)
    next
      case False
      then have "bnd ?es (?i + 1) = 2 ^ 64" using cov bnd_last [OF ok(2)] by (auto simp: covers_def bnd_def)
      then show ?thesis using b by (simp add: v_bytes_def)
    qed
    moreover have "v_holds ?es (e_f erw) relr bs"
      using b by (simp add: v_bytes_def v_holds_def v_byte_def v2f_map_get_def Let_def)
    ultimately show ?thesis using chunk_ok [OF ok(2) cov, of "length bs" "e_f erw" bs] b s n
      by (simp add: v_bytes_def v2f_at_def add.commute)
  qed
  obtain c where "materialise_v_range_to erw relr relrsz = Some (bs, c)"
    using materialise_v_range_ok [of erw relr bs relrsz] b n by (simp add: v_bytes_def)
  then show ?thesis using read n by (auto simp: relr_words_def Let_def table_words_def esw_def)
qed

subsection \<open>The second loop: one entry for each address\<close>

lemma mem_write_append: "mem_write m a (bs @ cs) = mem_write (mem_write m a bs) (a + length bs) cs"
  by (induction bs arbitrary: m a) simp_all

lemma word_bytes_of_bytes: "length bs = word_size TYPE('a::len) \<Longrightarrow> LENGTH('a) = 8 * word_size TYPE('a) \<Longrightarrow> word_bytes (word_of_bytes bs :: 'a word) = bs"
proof -
  assume l: "length bs = word_size TYPE('a)" "LENGTH('a) = 8 * word_size TYPE('a)"
  show ?thesis
  proof (rule nth_equalityI)
    fix i assume "i < length (word_bytes (word_of_bytes bs :: 'a word))"
    then have i: "i < word_size TYPE('a)" by simp
    show "word_bytes (word_of_bytes bs :: 'a word) ! i = bs ! i"
    proof (rule bit_word_eqI)
      fix n assume n: "n < LENGTH(8)"
      have "(8 * i + n) div 8 = i" "(8 * i + n) mod 8 = n" using n by simp_all
      moreover have "8 * i + n < LENGTH('a)" using i n l(2) by simp
      ultimately show "bit (word_bytes (word_of_bytes bs :: 'a word) ! i) n = bit (bs ! i) n"
        using i n l by (simp add: word_bytes_def bit_simps bit_word_of_bytes)
    qed
  qed (simp add: l)
qed

text \<open>The bytes of the entry for an address: the place, the kind, and perhaps the bytes that are there.\<close>

definition relr_entry :: "bool \<Rightarrow> 'a::len word \<Rightarrow> ('a word \<Rightarrow> u8 list) option \<Rightarrow> 'a word \<Rightarrow> u8 list" where
  "relr_entry big info at a = word_bytes (esw big a) @ word_bytes info @ (case at of None \<Rightarrow> [] | Some at \<Rightarrow> at a)"

fun write_entries :: "('i \<Rightarrow> u8 list) \<Rightarrow> nat \<Rightarrow> nat \<Rightarrow> 'i list \<Rightarrow> mem \<Rightarrow> mem" where
  "write_entries entry step off [] h = h"
| "write_entries entry step off (a # as) h = write_entries entry step (off + step) as (mem_write h off (entry a))"

lemma write_entries_below: "x < off \<Longrightarrow> write_entries entry step off as h x = h x"
  by (induction as arbitrary: off h) (simp_all add: mem_write_below)

lemma write_entries_holds:
  "\<forall>a \<in> set as. length (entry a) \<le> step \<Longrightarrow> i < length as \<Longrightarrow> holds (write_entries entry step off as h) (off + i * step) (entry (as ! i))"
proof (induction as arbitrary: off h i)
  case (Cons a as)
  show ?case
  proof (cases i)
    case 0
    have "write_entries entry step (off + step) as (mem_write h off (entry a)) (off + j) = Some (entry a ! j)"
      if "j < length (entry a)" for j
    proof -
      have "off + j < off + step" using that Cons.prems(1) by fastforce
      then show ?thesis using that by (simp add: write_entries_below mem_write_apply)
    qed
    then show ?thesis using 0 by (simp add: holds_def)
  next
    case (Suc j)
    then show ?thesis using Cons.IH [of j "off + step"] Cons.prems by (simp add: algebra_simps)
  qed
qed simp

lemma set_editor_simps [simp]:
  "e_bswap (set_editor erw k rl) = e_bswap erw" "e_v2f (set_editor erw k rl) = e_v2f erw" "e_f (set_editor erw k rl) = e_f erw"
  "k < length (e_relocs erw) \<Longrightarrow> e_relocs (set_editor erw k rl) ! k = rl"
  "length (e_relocs (set_editor erw k rl)) = length (e_relocs erw)"
  "set_editor (set_editor erw k rl) k rl' = set_editor erw k rl'"
  by (simp_all add: set_editor_def)

lemma materialise_same:
  "e_f erw' = e_f erw \<Longrightarrow> e_v2f erw' = e_v2f erw \<Longrightarrow> materialise_v_range_to erw' v n = materialise_v_range_to erw v n"
  by (simp add: materialise_v_range_to_def)

lemma rel_set_word_heap:
  fixes erw :: "'a::len word erw"
  assumes "k < length (e_relocs erw)" "rl_capacity rl \<noteq> 0"
    and "off + word_size TYPE('a) \<le> unat (rl_capacity rl) * unat (rl_entry_size rl)"
  shows "rel_set_word (set_editor erw k rl) k off (w :: 'a word) =
    Some (set_editor erw k (rl\<lparr>rl_heap := mem_write (rl_heap rl) off (word_bytes w)\<rparr>))"
  using assms by (simp add: rel_set_word_def Let_def) (simp add: set_editor_def)

lemma reloc_fill_heap:
  fixes erw :: "'a::len word erw"
  assumes k: "k < length (e_relocs erw)" and rl: "rl_capacity rl \<noteq> 0"
    and room: "off + (case ad of None \<Rightarrow> 2 | Some _ \<Rightarrow> 3) * word_size TYPE('a) \<le> unat (rl_capacity rl) * unat (rl_entry_size rl)"
  shows "reloc_fill (set_editor erw k rl) k off wh info (ad :: 'a word option) =
    Some (set_editor erw k (rl\<lparr>rl_heap := mem_write (rl_heap rl) off
      (word_bytes wh @ word_bytes info @ (case ad of None \<Rightarrow> [] | Some a \<Rightarrow> word_bytes a))\<rparr>))"
proof -
  let ?w = "word_size TYPE('a)"
  have step: "off' + ?w \<le> unat (rl_capacity rl) * unat (rl_entry_size rl) \<Longrightarrow>
    rel_set_word (set_editor erw k (rl\<lparr>rl_heap := h\<rparr>)) k off' (w :: 'a word) =
    Some (set_editor erw k (rl\<lparr>rl_heap := mem_write h off' (word_bytes w)\<rparr>))" for off' h w
    using rel_set_word_heap [OF k, of "rl\<lparr>rl_heap := h\<rparr>" off' w] rl by simp
  have rl0: "set_editor erw k rl = set_editor erw k (rl\<lparr>rl_heap := rl_heap rl\<rparr>)" by simp
  show ?thesis
  proof (cases ad)
    case None
    then have "off + ?w \<le> unat (rl_capacity rl) * unat (rl_entry_size rl)"
      "off + ?w + ?w \<le> unat (rl_capacity rl) * unat (rl_entry_size rl)" using room by simp_all
    then show ?thesis unfolding reloc_fill_def by (subst rl0) (simp only: step None option.case bind.bind_lunit mem_write_append append_Nil2 length_word_bytes)
  next
    case (Some a)
    then have "off + ?w \<le> unat (rl_capacity rl) * unat (rl_entry_size rl)"
      "off + ?w + ?w \<le> unat (rl_capacity rl) * unat (rl_entry_size rl)"
      "off + 2 * ?w + ?w \<le> unat (rl_capacity rl) * unat (rl_entry_size rl)" using room by simp_all
    moreover have "off + ?w + ?w = off + 2 * ?w" by simp
    ultimately show ?thesis unfolding reloc_fill_def
      by (subst rl0) (simp only: step Some option.case bind.bind_lunit mem_write_append length_word_bytes)
  qed
qed

lemma relr_write_ok:
  fixes erw :: "'a::len word erw"
  assumes w: "LENGTH('a) = 8 * word_size TYPE('a)" and k: "k < length (e_relocs erw)" and rl: "rl_capacity rl \<noteq> 0"
    and room: "off + unat (rl_entry_size rl) \<le> unat (rl_capacity rl) * unat (rl_entry_size rl)"
    and at: "(section = DT_RELA) = (at \<noteq> None)"
      "\<And>at'. at = Some at' \<Longrightarrow> v_bytes erw (ucast a) (at' a) \<and> length (at' a) = word_size TYPE('a)"
    and sz: "(if section = DT_RELA then 3 else 2) * word_size TYPE('a) \<le> unat (rl_entry_size rl)" "word_size TYPE('a) < 256"
  shows "relr_write k section info a (set_editor erw k rl, off) =
    Some (set_editor erw k (rl\<lparr>rl_heap := mem_write (rl_heap rl) off (relr_entry (e_bswap erw) info at a)\<rparr>), off + unat (rl_entry_size rl))"
proof -
  let ?w = "word_size TYPE('a)"
  note fill = reloc_fill_heap [OF k rl]
  show ?thesis
  proof (cases at)
    case None
    then have "section \<noteq> DT_RELA" using at by simp
    then show ?thesis using sz room k fill [of off None "esw (e_bswap erw) a" info] None
      by (simp add: relr_write_def relr_entry_def)
  next
    case (Some at')
    note b = at(2) [OF Some]
    have "unat (of_nat ?w :: u64) = ?w" using sz(2) by (simp add: unat_of_nat take_bit_nat_eq_self)
    then obtain c where "materialise_v_range_to erw (ucast a) (of_nat ?w) = Some (at' a, c)"
      using materialise_v_range_ok [of erw "ucast a" "at' a" "of_nat ?w"] b by (auto simp: v_bytes_def)
    then have m: "materialise_v_range_to (set_editor erw k rl) (ucast a) (of_nat ?w) = Some (at' a, c)"
      by (simp add: materialise_same [of "set_editor erw k rl" erw])
    have s: "section = DT_RELA" using at Some by simp
    have l: "length (at' a) = ?w" using b by simp
    have room3: "off + (case Some (word_of_bytes (at' a) :: 'a word) of None \<Rightarrow> 2 | Some _ \<Rightarrow> 3) * ?w \<le>
        unat (rl_capacity rl) * unat (rl_entry_size rl)"
      using room sz(1) s by simp
    note F = fill [OF room3, of "esw (e_bswap erw) a" info, unfolded option.case word_bytes_of_bytes [OF l w]]
    have e: "relr_entry (e_bswap erw) info at a = word_bytes (esw (e_bswap erw) a) @ word_bytes info @ at' a"
      by (simp add: relr_entry_def Some)
    show ?thesis unfolding relr_write_def e prod.case
      using F m s k by simp
  qed
qed

lemma relr_writes_ok:
  fixes erw :: "'a::len word erw"
  assumes w: "LENGTH('a) = 8 * word_size TYPE('a)" and k: "k < length (e_relocs erw)" and rl: "rl_capacity rl \<noteq> 0"
    and room: "off + length as * unat (rl_entry_size rl) \<le> unat (rl_capacity rl) * unat (rl_entry_size rl)"
    and at: "(section = DT_RELA) = (at \<noteq> None)"
      "\<And>at' a. at = Some at' \<Longrightarrow> a \<in> set as \<Longrightarrow> v_bytes erw (ucast a) (at' a) \<and> length (at' a) = word_size TYPE('a)"
    and sz: "(if section = DT_RELA then 3 else 2) * word_size TYPE('a) \<le> unat (rl_entry_size rl)" "word_size TYPE('a) < 256"
  shows "each (relr_write k section info) as (set_editor erw k rl, off) =
    Some (set_editor erw k (rl\<lparr>rl_heap := write_entries (relr_entry (e_bswap erw) info at) (unat (rl_entry_size rl)) off as (rl_heap rl)\<rparr>),
      off + length as * unat (rl_entry_size rl))"
  using room rl sz at(2)
proof (induction as arbitrary: rl off)
  case (Cons a as)
  let ?rl = "rl\<lparr>rl_heap := mem_write (rl_heap rl) off (relr_entry (e_bswap erw) info at a)\<rparr>"
  have "relr_write k section info a (set_editor erw k rl, off) = Some (set_editor erw k ?rl, off + unat (rl_entry_size rl))"
    by (rule relr_write_ok [OF w k Cons.prems(2) _ at(1) _ Cons.prems(3,4)]) (use Cons.prems in auto)
  then show ?case using Cons.IH [of "off + unat (rl_entry_size rl)" ?rl] Cons.prems by (simp add: algebra_simps)
qed simp

lemma ensure_relocs_ok:
  assumes "rl_capacity rl \<noteq> 0" "rl_count rl \<le> rl_capacity rl" "0 < unat (rl_entry_size rl)"
    and "2 * (unat (rl_count rl) + unat n) * unat (rl_entry_size rl) < 2 ^ 32"
    and "unat (rl_count rl) + unat n \<le> unat (rl_capacity rl) * 2 ^ fuel"
  shows "\<exists>l c. ensure_relocs (Suc fuel) f n rl = Some (rl\<lparr>rl_live := l, rl_capacity := c\<rparr>) \<and>
    c \<noteq> 0 \<and> unat (rl_count rl) + unat n \<le> unat c"
  using assms
proof (induction fuel arbitrary: rl)
  case (0 rl)
  have "unat (rl_capacity rl - rl_count rl) = unat (rl_capacity rl) - unat (rl_count rl)"
    using 0(2) by (rule unat_sub)
  then have "\<not> rl_capacity rl - rl_count rl < ucast n"
    using 0(5) by (simp add: word_less_nat_alt unat_ucast_up)
  then show ?case using 0 by (intro exI [of _ "rl_live rl"] exI [of _ "rl_capacity rl"]) simp
next
  case (Suc fuel rl)
  let ?t = "unat (rl_count rl) + unat n" let ?c = "rl_capacity rl" let ?s = "unat (rl_entry_size rl)"
  have sub: "unat (?c - rl_count rl) = unat ?c - unat (rl_count rl)" using Suc.prems(2) by (rule unat_sub)
  show ?case
  proof (cases "?c - rl_count rl < ucast n")
    case False
    then have "?t \<le> unat ?c" using sub Suc.prems(2) by (simp add: word_less_nat_alt word_le_nat_alt unat_ucast_up)
    then show ?thesis using Suc.prems False by (intro exI [of _ "rl_live rl"] exI [of _ "rl_capacity rl"]) simp
  next
    case True
    then have lt: "unat ?c < ?t" using sub by (simp add: word_less_nat_alt unat_ucast_up)
    have "2 * ?t \<le> 2 * ?t * ?s" using Suc.prems(3) by simp
    then have t32: "2 * ?t < 2 ^ 32" using Suc.prems(4) by linarith
    have "2 * unat ?c < 2 ^ 64" using lt t32 by simp
    then have c2: "unat (?c * 2) = 2 * unat ?c" by (simp add: unat_word_ariths)
    have "unat (?c * 2) * ?s \<le> 2 * ?t * ?s" unfolding c2 using lt by (intro mult_le_mono1) simp
    then have small: "unat (?c * 2) * ?s < 2 ^ 32" using Suc.prems(4) by linarith
    moreover have "unat (?c * 2) < 2 ^ 32" using lt t32 by (simp add: c2)
    ultimately have grow: "relocs_grow f rl = Some (rl\<lparr>rl_live := True, rl_capacity := ?c * 2\<rparr>)"
      using Suc.prems(1) by (simp add: relocs_grow_def relocs_resize_def)
    let ?rl = "rl\<lparr>rl_live := True, rl_capacity := ?c * 2\<rparr>"
    have "?c * 2 \<noteq> 0" using c2 Suc.prems(1) by (metis mult_is_0 unat_eq_0 zero_neq_numeral)
    moreover have "rl_count rl \<le> ?c * 2" using Suc.prems(2) c2 by (simp add: word_le_nat_alt)
    moreover have "?t \<le> unat (?c * 2) * 2 ^ fuel" using Suc.prems(5) c2 by simp
    ultimately obtain l c where "ensure_relocs (Suc fuel) f n ?rl = Some (?rl\<lparr>rl_live := l, rl_capacity := c\<rparr>)" "c \<noteq> 0" "?t \<le> unat c"
      using Suc.IH [of ?rl] Suc.prems(3,4) by auto
    then show ?thesis using True grow by (subst ensure_relocs.simps) auto
  qed
qed

definition reloc_room :: "'a::len itself \<Rightarrow> u32 \<Rightarrow> nat \<Rightarrow> reloc_editor \<Rightarrow> bool" where
  "reloc_room w section n rl \<longleftrightarrow> rl_capacity rl \<noteq> 0 \<and> rl_count rl \<le> rl_capacity rl \<and>
     (if section = DT_RELA then 3 else 2) * word_size w \<le> unat (rl_entry_size rl) \<and>
     2 * (unat (rl_count rl) + n) * unat (rl_entry_size rl) < 2 ^ 32"

lemma prepare_keeps:
  assumes "relocs_prepare_add erw section = Some (erw0, Some k)"
  shows "e_bswap erw0 = e_bswap erw" "e_f erw0 = e_f erw" "e_v2f erw0 = e_v2f erw" "k < MAX_RELOC_EDITORS"
    "length (e_relocs erw0) = length (e_relocs erw)"
  using assms unfolding relocs_prepare_add_def
  by (auto simp: Let_def bind_eq_Some_conv set_modified_def set_editor_def find_Some_iff split: option.splits)

text \<open>
  C22: In a file in the byte order of the host, \<open>relocs_expand_relr\<close> reads the table at the
  address of \<open>DT_RELR\<close> as the map of addresses and the file give it, and adds a relative relocation
  for each of the addresses that the format defines for its words, in their order, behind the
  relocations of the editor, which stay: the place, the kind of the machine, and for \<open>DT_RELA\<close> the
  bytes that are at the place. The editor counts them all. (In other files the code does not swap
  the words of the table.)
\<close>

theorem relr_expansion_correct:
  fixes erw :: "'a::len word erw" and addrs :: "'a word list"
  assumes w: "LENGTH('a) = 32 \<or> LENGTH('a) = 64" and native: "\<not> e_bswap erw" and five: "length (e_relocs erw) = MAX_RELOC_EDITORS"
    and tags: "dhdrs_has erw DT_RELR = Some (Some relr)" "dhdrs_has erw DT_RELRSZ = Some (Some relrsz)" "relrsz \<noteq> 0"
    and table: "v_bytes erw relr bs" "length bs = unat ((relrsz + of_nat (word_size TYPE('a)) - 1) AND NOT (of_nat (word_size TYPE('a)) - 1))"
    and addrs: "addrs = relr_spec 0 (table_words (e_bswap erw) bs)"
    and kind: "relative_reloc (e_machine erw) = Some (section, info)"
    and prep: "relocs_prepare_add erw section = Some (erw0, Some k)" "reloc_room TYPE('a) section (length addrs) (e_relocs erw0 ! k)"
    and at: "\<forall>a \<in> set addrs. v_bytes erw (ucast a) (at a) \<and> length (at a) = word_size TYPE('a)"
  shows "\<exists>rl. relocs_expand_relr erw = Some (set_editor erw0 k rl, True) \<and>
    (let rl0 = e_relocs erw0 ! k; n = unat (rl_count rl0); step = unat (rl_entry_size rl0);
         addend = (if section = DT_RELA then Some at else None)
     in rl_entry_size rl = rl_entry_size rl0 \<and> unat (rl_count rl) = n + length addrs \<and>
        unat (rl_count rl) \<le> unat (rl_capacity rl) \<and>
        (\<forall>i < length addrs. holds (rl_heap rl) ((n + i) * step) (relr_entry (e_bswap erw) info addend (addrs ! i))) \<and>
        (\<forall>x < n * step. rl_heap rl x = rl_heap rl0 x))"
proof -
  let ?rl0 = "e_relocs erw0 ! k" and ?w = "word_size TYPE('a)"
  let ?n = "unat (rl_count ?rl0)" and ?s = "unat (rl_entry_size ?rl0)" and ?at = "if section = DT_RELA then Some at else None"
  let ?info = "esw (e_bswap erw) info"
  note keep = prepare_keeps [OF prep(1)] and room = prep(2) [unfolded reloc_room_def]
  have ws: "LENGTH('a) = 8 * ?w" "?w < 256" "0 < ?w" using w by (auto simp: word_size_def)
  have k: "k < length (e_relocs erw0)" using keep five by simp
  have words: "relr_words erw relr ((relrsz + of_nat ?w - 1) AND NOT (of_nat ?w - 1)) = Some (table_words (e_bswap erw) bs :: 'a word list)"
    using relr_words_ok [OF table] native by simp
  have "2 * ?w \<le> ?s" using room by (auto split: if_splits)
  then have s: "0 < ?s" using ws(3) by linarith
  have "2 * (?n + length addrs) \<le> 2 * (?n + length addrs) * ?s" using s by simp
  then have lim: "2 * (?n + length addrs) < 2 ^ 32" using room by linarith
  have cnt: "relr_count (table_words (e_bswap erw) bs :: 'a word list) = of_nat (length addrs)" unfolding addrs by (rule relr_count_ok)
  have un: "unat (of_nat (length addrs) :: u32) = length addrs" using lim by (simp add: unat_of_nat take_bit_nat_eq_self)
  have "1 \<le> unat (rl_capacity ?rl0)" using room by (simp add: Suc_leI unat_gt_0)
  then have "(2 :: nat) ^ 33 \<le> unat (rl_capacity ?rl0) * 2 ^ 33" by simp
  then have fuel: "?n + length addrs \<le> unat (rl_capacity ?rl0) * 2 ^ 33" using lim by simp
  obtain l c where ens: "ensure_relocs 34 (e_f erw0) (of_nat (length addrs)) ?rl0 = Some (?rl0\<lparr>rl_live := l, rl_capacity := c\<rparr>)"
    "c \<noteq> 0" "?n + length addrs \<le> unat c"
    using ensure_relocs_ok [of ?rl0 "of_nat (length addrs)" 33 "e_f erw0"] room s fuel un by auto
  have "length addrs < 2 ^ 64" using lim by simp
  then have "unat (of_nat (length addrs) :: u64) = length addrs" by (simp add: unat_of_nat take_bit_nat_eq_self)
  then have uc: "(ucast (of_nat (length addrs) :: u32) :: u64) = of_nat (length addrs)"
    using un by (simp add: word_unat_eq_iff unat_ucast_up)
  define rl1 where "rl1 = ?rl0\<lparr>rl_live := l, rl_capacity := c, rl_count := rl_count ?rl0 + of_nat (length addrs)\<rparr>"
  have c1: "count_relocs (set_editor erw0 k (?rl0\<lparr>rl_live := l, rl_capacity := c\<rparr>)) k (ucast (of_nat (length addrs) :: u32)) = set_editor erw0 k rl1"
    using k uc by (simp add: count_relocs_def rl1_def)
  have "?s * ?n + length addrs * ?s = (?n + length addrs) * ?s" by (simp add: algebra_simps)
  also have "\<dots> \<le> unat c * ?s" using ens(3) by (rule mult_le_mono1)
  finally have room1: "?s * ?n + length addrs * unat (rl_entry_size rl1) \<le> unat (rl_capacity rl1) * unat (rl_entry_size rl1)"
    by (simp add: rl1_def)
  have vb: "v_bytes erw0 v b = v_bytes erw v b" for v b by (simp only: v_bytes_def v_byte_def keep)
  let ?rl2 = "rl1\<lparr>rl_heap := write_entries (relr_entry (e_bswap erw0) ?info ?at) (unat (rl_entry_size rl1)) (?s * ?n) addrs (rl_heap rl1)\<rparr>"
  have loop: "each (relr_write k section ?info) addrs (set_editor erw0 k rl1, ?s * ?n) =
      Some (set_editor erw0 k ?rl2, ?s * ?n + length addrs * unat (rl_entry_size rl1))"
    by (rule relr_writes_ok [OF ws(1) k _ room1 _ _ _ ws(2)]) (use ens(2) at room vb in \<open>auto simp: rl1_def split: if_splits\<close>)
  have eq: "relocs_expand_relr erw = Some (set_editor erw0 k ?rl2, True)"
    unfolding relocs_expand_relr_def
    using tags kind words prep(1) ens(1) cnt c1 loop addrs by (simp add: relr_addrs_ok Let_def)
  have cnt2: "unat (rl_count ?rl2) = ?n + length addrs"
    using lim by (simp add: rl1_def unat_word_ariths unat_of_nat take_bit_nat_eq_self)
  have hold: "holds (rl_heap ?rl2) ((?n + i) * ?s) (relr_entry (e_bswap erw) info ?at (addrs ! i))" if "i < length addrs" for i
  proof -
    have "length (relr_entry (e_bswap erw) info ?at a) \<le> ?s" if "a \<in> set addrs" for a
      using that at room by (auto simp: relr_entry_def split: if_splits)
    then show ?thesis
      using write_entries_holds [of addrs "relr_entry (e_bswap erw) info ?at" ?s i "?s * ?n" "rl_heap rl1"] that native keep(1)
      by (simp add: rl1_def algebra_simps esw_def)
  qed
  have below: "rl_heap ?rl2 x = rl_heap ?rl0 x" if "x < ?n * ?s" for x
    using that by (simp add: rl1_def mult.commute write_entries_below)
  have entry: "rl_entry_size ?rl2 = rl_entry_size ?rl0" by (simp add: rl1_def)
  have cap: "unat (rl_count ?rl2) \<le> unat (rl_capacity ?rl2)" unfolding cnt2 using ens(3) by (simp add: rl1_def)
  show ?thesis unfolding Let_def
    by (intro exI [of _ ?rl2] conjI allI impI eq entry cnt2 cap hold below) assumption+
qed

text \<open>A table of two words, an address and a bitmap, in the file of \<open>v_range_example\<close>.\<close>

definition relr_table :: "u8 list" where
  "relr_table = [0, 0x10, 0, 0, 0, 0, 0, 0, 5, 0, 0, 0, 0, 0, 0, 0]"

definition relr_example :: "64 word erw" where
  "relr_example = v_range_example\<lparr>e_machine := EM_X86_64, e_relocs := replicate 5 reloc_editor_none,
     e_f := mem_write (e_f v_range_example) 0x2000 relr_table,
     e_dhdrs := \<lparr>ed_live = True, ed_at = 0, ed_heap = [Some \<lparr>d_tag = DT_RELR, d_val = 0x2000\<rparr>, Some \<lparr>d_tag = DT_RELRSZ, d_val = 16\<rparr>],
       ed_count = 2, ed_capacity = 2\<rparr>\<rparr>"

lemma relr_example_bytes:
  "v_bytes relr_example 0x2000 relr_table" "v_bytes relr_example 0x1000 (map of_nat [0..<8])"
  "v_bytes relr_example 0x1010 (map of_nat [0x10..<0x18])"
proof -
  have l: "length relr_table = 16" by (simp add: relr_table_def)
  have m: "v2f_start_ok (e_v2f relr_example) v" if "v \<noteq> 0" for v
    using v_range_map_ok that by (simp add: v2f_start_ok_def relr_example_def v_range_example_def erw_zero_def)
  have f: "e_f relr_example a \<noteq> None \<longrightarrow> a < 2 ^ 63" for a
    using l by (auto simp: relr_example_def v_range_example_def mem_write_apply split: if_splits)
  have g: "v2f_map_get (e_v2f relr_example) v = 0" if "0x1000 \<le> v" "v < 0x3000" for v
  proof -
    have "v < 0x4000" using that(2) by (rule less_trans) simp
    then show ?thesis using that
      by (simp add: relr_example_def v_range_example_def erw_zero_def v2f_map_get_def v2f_get_def v_range_map_def)
  qed
  have b: "v_byte relr_example v = e_f relr_example (unat v)" if "0x1000 \<le> v" "v < 0x3000" for v
    using g [OF that] by (simp add: v_byte_def Let_def v2f_special_def)
  have ef: "e_f relr_example a = (if 0x2000 \<le> a \<and> a < 0x2010 then Some (relr_table ! (a - 0x2000)) else Some (of_nat a))" if "a < 0x5000" for a
    using that l by (simp add: relr_example_def v_range_example_def mem_write_apply)
  have at: "v_bytes relr_example v bs"
    if v: "0x1000 \<le> v" "unat v + length bs \<le> 0x3000" and eq: "\<forall>k < length bs. e_f relr_example (unat v + k) = Some (bs ! k)" for v bs
  proof -
    have "v_byte relr_example (v + of_nat k) = Some (bs ! k)" if "k < length bs" for k
    proof -
      have "unat v + k < 2 ^ 64" using v(2) that by simp
      then have u: "unat (v + of_nat k) = unat v + k" by (rule unat_plus_of_nat)
      have "0x1000 \<le> v + of_nat k" "v + of_nat k < 0x3000"
        using v that by (simp_all add: word_le_nat_alt word_less_nat_alt u)
      then show ?thesis using b eq that u by simp
    qed
    moreover have "v \<noteq> 0" using v(1) by auto
    ultimately show ?thesis using m f v(2) by (simp add: v_bytes_def)
  qed
  show "v_bytes relr_example 0x2000 relr_table"
    by (rule at) (simp_all add: ef relr_table_def)
  show "v_bytes relr_example 0x1000 (map of_nat [0..<8])"
    by (rule at) (simp_all add: ef del: upt_rec_numeral)
  show "v_bytes relr_example 0x1010 (map of_nat [0x10..<0x18])"
    by (rule at) (simp_all add: ef del: upt_rec_numeral)
qed

lemma relr_example_words: "relr_spec 0 (table_words False relr_table) = [0x1000, 0x1010 :: 64 word]"
proof -
  have "relr_addrs 0 (table_words False relr_table) = [0x1000, 0x1010 :: 64 word]" by code_simp
  then show ?thesis by (simp only: relr_addrs_ok)
qed

lemma relr_expansion_correct_witness:
  "\<exists>erw' rl. relocs_expand_relr relr_example = Some (erw', True) \<and> unat (rl_count rl) = 2 \<and> hd (e_relocs erw') = rl \<and>
     holds (rl_heap rl) 0 (word_bytes (0x1000 :: 64 word) @ word_bytes (8 :: 64 word) @ map of_nat [0..<8]) \<and>
     holds (rl_heap rl) 24 (word_bytes (0x1010 :: 64 word) @ word_bytes (8 :: 64 word) @ map of_nat [0x10..<0x18])"
proof -
  let ?rl = "(new_editor TYPE(64) DT_RELA)\<lparr>rl_flags := 3\<rparr>"
  define E where "E = set_modified ERW_MODIFIED_RELOCS (set_editor relr_example 0 ?rl)"
  let ?at = "\<lambda>a :: 64 word. map of_nat (if a = 0x1000 then [0..<8] else [0x10..<0x18]) :: u8 list"
  have u: "[0..<2] = [0, Suc 0]" by (simp add: upt_rec)
  have d: "dyn_list relr_example = Some [\<lparr>d_tag = DT_RELR, d_val = 0x2000\<rparr>, \<lparr>d_tag = DT_RELRSZ, d_val = 16\<rparr>]"
    by (simp add: dyn_list_def ed_list_def relr_example_def ed_get_def rd_def u)
  have e: "e_bswap relr_example = False" "length (e_relocs relr_example) = 5" "e_machine relr_example = EM_X86_64"
    "e_relocs relr_example = replicate 5 reloc_editor_none"
    by (simp_all add: relr_example_def v_range_example_def erw_zero_def)
  have tags: "dhdrs_has relr_example DT_RELR = Some (Some 0x2000)" "dhdrs_has relr_example DT_RELRSZ = Some (Some 16)"
    by (simp_all add: dhdrs_has_def d e esw_def)
  have p: "relocs_prepare_add relr_example DT_RELA = Some (E, Some 0)"
    by (simp add: E_def relocs_prepare_add_def e upt_rec reloc_editor_none_def new_editor_def)
  have rl0: "e_relocs E ! 0 = ?rl" using e(2) by (simp add: E_def set_modified_def)
  have r: "reloc_room TYPE(64) DT_RELA (length [0x1000, 0x1010 :: 64 word]) (e_relocs E ! 0)"
    unfolding rl0 by (simp add: reloc_room_def new_editor_def)
  have k: "relative_reloc (e_machine relr_example) = Some (DT_RELA, 8 :: 64 word)"
    by (simp add: relative_reloc_def e)
  have len: "length relr_table = unat ((16 + of_nat (word_size TYPE(64)) - 1) AND NOT (of_nat (word_size TYPE(64)) - 1) :: u64)"
    by (simp add: relr_table_def)
  have at: "\<forall>a \<in> set [0x1000, 0x1010 :: 64 word]. v_bytes relr_example (ucast a) (?at a) \<and> length (?at a) = word_size TYPE(64)"
    using relr_example_bytes by simp
  have a: "[0x1000, 0x1010 :: 64 word] = relr_spec 0 (table_words (e_bswap relr_example) relr_table)"
    using relr_example_words e by simp
  have "\<exists>rl. relocs_expand_relr relr_example = Some (set_editor E 0 rl, True) \<and>
    (let rl0 = e_relocs E ! 0; n = unat (rl_count rl0); step = unat (rl_entry_size rl0); addend = (if DT_RELA = (DT_RELA :: u32) then Some ?at else None)
     in rl_entry_size rl = rl_entry_size rl0 \<and> unat (rl_count rl) = n + length [0x1000, 0x1010 :: 64 word] \<and>
        unat (rl_count rl) \<le> unat (rl_capacity rl) \<and>
        (\<forall>i < length [0x1000, 0x1010 :: 64 word]. holds (rl_heap rl) ((n + i) * step)
           (relr_entry (e_bswap relr_example) (8 :: 64 word) addend ([0x1000, 0x1010] ! i))) \<and>
        (\<forall>x < n * step. rl_heap rl x = rl_heap rl0 x))"
    by (rule relr_expansion_correct [OF _ _ _ tags _ relr_example_bytes(1) len a k p _ at]) (use e r in simp_all)
  then obtain rl where rl: "relocs_expand_relr relr_example = Some (set_editor E 0 rl, True)" "unat (rl_count rl) = 2"
    "\<forall>i < 2. holds (rl_heap rl) (i * 24) (relr_entry False (8 :: 64 word) (Some ?at) ([0x1000, 0x1010] ! i))"
    unfolding rl0 by (auto simp: new_editor_def e Let_def)
  have "hd (e_relocs (set_editor E 0 rl)) = rl" by (simp add: E_def set_editor_def set_modified_def e(4) numeral_eq_Suc)
  moreover have "holds (rl_heap rl) 0 (word_bytes (0x1000 :: 64 word) @ word_bytes (8 :: 64 word) @ map of_nat [0..<8])"
    using rl(3) [THEN spec, of 0] by (simp add: relr_entry_def esw_def)
  moreover have "holds (rl_heap rl) 24 (word_bytes (0x1010 :: 64 word) @ word_bytes (8 :: 64 word) @ map of_nat [0x10..<0x18])"
    using rl(3) [THEN spec, of 1] by (simp add: relr_entry_def esw_def)
  ultimately show ?thesis using rl(1,2) by blast
qed

end
