(* ===== verification/VersEdit.thy ===== *)
theory VersEdit
  imports Dynstr RelocEdit
begin

section \<open>erw.c, erw_nne.h: editing symbol versions and string entries\<close>

text \<open>
  Finding or adding a version, the clean-up when a needed version goes, writing the versions
  back, and the operations on the entries of the dynamic section that are strings. A reference
  to a group or an item that was erased from the lists reads as \<open>None\<close>.
\<close>

subsection \<open>Groups and items by their identity\<close>

definition vers_groups :: "ver_editor \<Rightarrow> ver_group list" where
  "vers_groups ve = ve_need ve @ ve_def ve"

definition group_at :: "ver_editor \<Rightarrow> nat \<Rightarrow> ver_group option" where
  "group_at ve n = find (\<lambda>g. vg_id g = n) (vers_groups ve)"

definition item_at :: "ver_editor \<Rightarrow> nat \<Rightarrow> ver_item option" where
  "item_at ve n = find (\<lambda>i. vi_id i = n) (concat (map vg_items (vers_groups ve)))"

definition upd_group :: "(ver_group \<Rightarrow> ver_group) \<Rightarrow> nat \<Rightarrow> ver_group list \<Rightarrow> ver_group list" where
  "upd_group h n gs = map (\<lambda>g. if vg_id g = n then h g else g) gs"

definition upd_item :: "(ver_item \<Rightarrow> ver_item) \<Rightarrow> nat \<Rightarrow> ver_editor \<Rightarrow> ver_editor" where
  "upd_item h n ve =
    (let upd = map (\<lambda>g. g\<lparr>vg_items := map (\<lambda>i. if vi_id i = n then h i else i) (vg_items g)\<rparr>)
     in ve\<lparr>ve_need := upd (ve_need ve), ve_def := upd (ve_def ve)\<rparr>)"

definition set_vers :: "'w erw \<Rightarrow> ver_editor \<Rightarrow> 'w erw" where
  "set_vers erw ve = erw\<lparr>e_vers := ve\<rparr>"

subsection \<open>Finding and adding\<close>

text \<open>\<open>strcmp\<close> of a string of the table with another one.\<close>

definition str_is :: "'a::len word erw \<Rightarrow> u64 \<Rightarrow> bstr \<Rightarrow> ('a word erw \<times> bool) option" where
  "str_is erw ref str = map_option (\<lambda>(erw, s). (erw, s = str)) (erw_dynstr_decode erw ref)"

definition ver_equal :: "'a::len word erw \<Rightarrow> ver_index_ref \<Rightarrow> bstr option \<Rightarrow> bstr \<Rightarrow> ('a word erw \<times> bool) option" where
  "ver_equal erw ver lib_name ver_name = do {
     (erw, lib) \<leftarrow> (case (lib_name, vr_group ver) of
         (Some lib, Some n) \<Rightarrow> do { g \<leftarrow> group_at (e_vers erw) n; str_is erw (ucast (vg_name g)) lib }
       | (Some _, None) \<Rightarrow> Some (erw, False)
       | (None, g) \<Rightarrow> Some (erw, g = None));
     case vr_item ver of
       Some n \<Rightarrow> if lib then do { i \<leftarrow> item_at (e_vers erw) n; str_is erw (ucast (vi_str i)) ver_name } else Some (erw, False)
     | None \<Rightarrow> Some (erw, False) }"

fun find_verneed :: "'a::len word erw \<Rightarrow> bstr \<Rightarrow> ver_group list \<Rightarrow> ('a word erw \<times> nat option) option" where
  "find_verneed erw lib_name [] = Some (erw, None)"
| "find_verneed erw lib_name (g # gs) = do {
     (erw, same) \<leftarrow> str_is erw (ucast (vg_name g)) lib_name;
     if same then Some (erw, Some (vg_id g)) else find_verneed erw lib_name gs }"

definition ensure_verneed :: "'a::len word erw \<Rightarrow> bstr \<Rightarrow> ('a word erw \<times> nat) option" where
  "ensure_verneed erw lib_name = do {
     (erw, found) \<leftarrow> find_verneed erw lib_name (ve_need (e_vers erw));
     case found of Some n \<Rightarrow> Some (erw, n)
     | None \<Rightarrow> do {
         let (n, ve) = new_id (e_vers erw);
         (erw, ref) \<leftarrow> erw_dynstr_encode (set_vers erw ve) lib_name;
         let g = \<lparr>vg_id = n, vg_items = [], vg_vaddr = 0, vg_name = ucast ref, vg_state = VER_EDIT_STATE_DIRTY\<rparr>;
         Some (set_vers erw ((e_vers erw)\<lparr>ve_need := ve_need (e_vers erw) @ [g]\<rparr>), n) } }"

text \<open>A new item with identity \<open>n\<close>; the index is cut to its 16 bits.\<close>

definition new_item :: "'a::len word erw \<Rightarrow> nat \<Rightarrow> bstr \<Rightarrow> u32 \<Rightarrow> ('a word erw \<times> ver_item) option" where
  "new_item erw n ver_name index = do {
     (erw, ref) \<leftarrow> erw_dynstr_encode erw ver_name;
     Some (erw, \<lparr>vi_id = n, vi_vaddr = 0, vi_str = ucast ref, vi_hash = erw_elf_hash ver_name, vi_flags = 0,
       vi_index = ucast index, vi_state = VER_EDIT_STATE_DIRTY\<rparr>) }"

definition add_vernaux :: "'a::len word erw \<Rightarrow> nat \<Rightarrow> bstr \<Rightarrow> u32 \<Rightarrow> 'a word erw option" where
  "add_vernaux erw g ver_name index = do {
     let (n, ve) = new_id (e_vers erw);
     (erw, i) \<leftarrow> new_item (set_vers erw ve) n ver_name index;
     let ve = set_ref (e_vers erw) (index AND 0x7fff) (Some g) (Some n);
     Some (set_vers erw (ve\<lparr>ve_need := upd_group (\<lambda>g. g\<lparr>vg_items := i # vg_items g\<rparr>) g (ve_need ve)\<rparr>)) }"

definition add_verdef :: "'a::len word erw \<Rightarrow> bstr \<Rightarrow> u32 \<Rightarrow> 'a word erw option" where
  "add_verdef erw ver_name index = do {
     let (m, ve) = new_id (e_vers erw);
     let (n, ve) = new_id ve;
     (erw, i) \<leftarrow> new_item (set_vers erw ve) n ver_name index;
     let g = \<lparr>vg_id = m, vg_items = [i], vg_vaddr = 0, vg_name = 0, vg_state = VER_EDIT_STATE_DIRTY\<rparr>;
     let ve = set_ref (e_vers erw) (index AND 0x7fff) None (Some n);
     Some (set_vers erw (ve\<lparr>ve_def := g # ve_def ve\<rparr>)) }"

text \<open>The search from index \<open>i\<close> on: the index of the version, and the last free one from 3 on.\<close>

fun find_ver :: "'a::len word erw \<Rightarrow> bstr option \<Rightarrow> bstr \<Rightarrow> nat \<Rightarrow> ver_index_ref list \<Rightarrow> nat \<Rightarrow>
    ('a word erw \<times> nat option \<times> nat) option" where
  "find_ver erw lib_name ver_name i [] avail = Some (erw, None, avail)"
| "find_ver erw lib_name ver_name i (ref # refs) avail =
    (if vr_group ref = None \<and> vr_item ref = None
     then find_ver erw lib_name ver_name (Suc i) refs (if i \<ge> 3 then i else avail)
     else do {
       (erw, same) \<leftarrow> ver_equal erw ref lib_name ver_name;
       if same then Some (erw, Some i, avail) else find_ver erw lib_name ver_name (Suc i) refs avail })"

text \<open>The result is the new state, what the caller caches, and the index.\<close>

definition erw_vers_find_or_add :: "'a::len word erw \<Rightarrow> u16 \<Rightarrow> bstr option \<Rightarrow> bstr option \<Rightarrow> ('a word erw \<times> u16 \<times> u16) option" where
  "erw_vers_find_or_add erw cache lib_name ver_name =
    (case ver_name of None \<Rightarrow> Some (erw, cache, 1)
     | Some name \<Rightarrow> do {
         erw \<leftarrow> (if ve_base (e_vers erw) = [] then erw_vers_init erw else Some erw);
         let base = ve_base (e_vers erw);
         let n = length base;
         (erw, cached) \<leftarrow> (if unat cache < n then ver_equal erw (base ! unat cache) lib_name name else Some (erw, False));
         if cached then Some (erw, cache, cache)
         else do {
           (erw, found, avail) \<leftarrow> find_ver erw lib_name name 0 base (max n 3);
           case found of Some i \<Rightarrow> Some (erw, of_nat i, of_nat i)
           | None \<Rightarrow> do {
               erw \<leftarrow> (case lib_name of
                   Some lib \<Rightarrow> do {
                     (erw, g) \<leftarrow> ensure_verneed (set_modified ERW_MODIFIED_VERNEED erw) lib;
                     add_vernaux erw g name (of_nat avail) }
                 | None \<Rightarrow> add_verdef (set_modified ERW_MODIFIED_VERDEF erw) name (of_nat avail));
               Some (erw, of_nat avail, of_nat avail) } } })"

subsection \<open>Removing needed versions\<close>

text \<open>\<open>strstr\<close>: whether a string contains another one.\<close>

fun has_substring :: "bstr \<Rightarrow> bstr \<Rightarrow> bool" where
  "has_substring p [] \<longleftrightarrow> p = []"
| "has_substring p (c # s) \<longleftrightarrow> take (length p) (c # s) = p \<or> has_substring p s"

definition verneed_removing_glibc_2_36 :: "'a::len word erw \<Rightarrow> 'a word erw option" where
  "verneed_removing_glibc_2_36 erw =
    (if e_machine erw = EM_X86_64 then do {
       erw \<leftarrow> relocs_clear_rela_addends_for_type erw R_X86_64_JUMP_SLOT;
       erw \<leftarrow> dhdrs_ready erw;
       dhdrs_remove erw DT_X86_64_PLTENT }
     else Some erw)"

definition verneed_removing_glibc_abi_dt_relr :: "'a::len word erw \<Rightarrow> 'a word erw option" where
  "verneed_removing_glibc_abi_dt_relr erw = do {
     erw \<leftarrow> dhdrs_ready erw;
     relr \<leftarrow> dhdrs_has erw DT_RELR;
     erw \<leftarrow> (if relr \<noteq> None then do {
         relrsz \<leftarrow> dhdrs_has erw DT_RELRSZ;
         if relrsz \<noteq> None \<and> relrsz \<noteq> Some 0 then erw_relocs_expand_relr erw else Some erw }
       else Some erw);
     dhdrs_remove_mask erw (push_bit (unat (DT_RELR :: u64)) 1 OR push_bit (unat (DT_RELRSZ :: u64)) 1 OR push_bit (unat (DT_RELRENT :: u64)) 1) }"

definition verneed_removing :: "'a::len word erw \<Rightarrow> ver_group \<Rightarrow> ver_item \<Rightarrow> 'a word erw option" where
  "verneed_removing erw g i = do {
     (erw, i_str) \<leftarrow> erw_dynstr_decode erw (ucast (vi_str i));
     let libc = (\<lambda>erw. map_option (\<lambda>(erw, s). (erw, has_substring (bytes_of ''libc'') s)) (erw_dynstr_decode erw (ucast (vg_name g))));
     if i_str = bytes_of ''GLIBC_2.36'' then do {
       (erw, is_libc) \<leftarrow> libc erw;
       if is_libc then verneed_removing_glibc_2_36 erw else Some erw }
     else if i_str = bytes_of ''GLIBC_ABI_DT_RELR'' then do {
       (erw, is_libc) \<leftarrow> libc erw;
       if is_libc then verneed_removing_glibc_abi_dt_relr erw else Some erw }
     else Some erw }"

text \<open>One item of a group that stays for now; the flag is \<open>keep_g\<close>.\<close>

definition sweep_item :: "ver_group \<Rightarrow> ver_item \<Rightarrow> 'a::len word erw \<times> bool \<Rightarrow> (ver_item \<times> 'a word erw \<times> bool) option" where
  "sweep_item g i s = (case s of (erw, keep_g) \<Rightarrow>
     if has_state (vi_state i) (VER_EDIT_STATE_REMOVED_REFS OR VER_EDIT_STATE_PENDING_DELETE) then do {
       let i = i\<lparr>vi_state := (vi_state i AND NOT VER_EDIT_STATE_REMOVED_REFS) OR VER_EDIT_STATE_PENDING_DELETE\<rparr>;
       erw \<leftarrow> verneed_removing erw g i;
       Some (i, erw, keep_g) }
     else Some (i, erw, True))"

definition sweep_group :: "ver_group \<Rightarrow> 'a::len word erw \<Rightarrow> (ver_group \<times> 'a word erw) option" where
  "sweep_group g erw =
    (if vg_items g = [] then Some (g, erw)
     else if group_pending g then do {
       (erw, s) \<leftarrow> erw_dynstr_decode erw (ucast (vg_name g));
       erw \<leftarrow> (if has_substring (bytes_of ''libc'') s then each (\<lambda>i erw. verneed_removing erw g i) (vg_items g) erw else Some erw);
       Some (g, erw) }
     else do {
       (items, erw, keep_g) \<leftarrow> map_each (sweep_item g) (vg_items g) (erw, False);
       let g = g\<lparr>vg_items := items\<rparr>;
       Some (if keep_g then g else g\<lparr>vg_state := vg_state g OR VER_EDIT_STATE_PENDING_DELETE\<rparr>, erw) })"

definition verneed_sweep_removed_refs :: "'a::len word erw \<Rightarrow> 'a word erw option" where
  "verneed_sweep_removed_refs erw = do {
     (need, erw) \<leftarrow> map_each sweep_group (ve_need (e_vers erw)) erw;
     Some (set_vers erw ((e_vers erw)\<lparr>ve_need := need\<rparr>)) }"

subsection \<open>Writing the versions back\<close>

definition versym_get :: "'a::len word erw \<Rightarrow> nat \<Rightarrow> u16 option" where
  "versym_get erw i = Option.bind (sy_versions (e_dsyms erw)) (\<lambda>ed. ed_get u16_codec (e_f erw) ed i)"

definition versym_put :: "'a::len word erw \<Rightarrow> nat \<Rightarrow> u16 \<Rightarrow> 'a word erw option" where
  "versym_put erw i w = do {
     ed \<leftarrow> sy_versions (e_dsyms erw);
     (f, ed) \<leftarrow> ed_put u16_codec (e_f erw, ed) i w;
     Some (erw\<lparr>e_f := f, e_dsyms := (e_dsyms erw)\<lparr>sy_versions := Some ed\<rparr>\<rparr>) }"

definition check_removed_ref :: "nat \<Rightarrow> 'a::len word erw \<Rightarrow> 'a word erw option" where
  "check_removed_ref i erw = do {
     w \<leftarrow> versym_get erw i;
     let v = unat (esw (e_bswap erw) w AND 0x7fff);
     let ve = e_vers erw;
     case (if v < length (ve_base ve) then vr_item (ve_base ve ! v) else None) of
       None \<Rightarrow> Some erw
     | Some n \<Rightarrow> Some (set_vers erw (upd_item (\<lambda>i. i\<lparr>vi_state := vi_state i AND NOT VER_EDIT_STATE_REMOVED_REFS\<rparr>) n ve)) }"

definition vers_check_removed_refs :: "'a::len word erw \<Rightarrow> 'a word erw option" where
  "vers_check_removed_refs erw = each check_removed_ref [0..<unat (sym_count erw)] erw"

text \<open>Writing a struct at a virtual address; the null pointer of a special address is not written to.\<close>

definition write_at_v :: "'e codec \<Rightarrow> 'a::len word erw \<Rightarrow> u64 \<Rightarrow> 'e \<Rightarrow> 'a word erw option" where
  "write_at_v c erw v e = do { f \<leftarrow> erw_view_v erw v; put_at c erw (unat f) e }"

definition next_off :: "bool \<Rightarrow> u64 list \<Rightarrow> u64 \<Rightarrow> u32" where
  "next_off bs vs v = (case vs of [] \<Rightarrow> 0 | w # _ \<Rightarrow> esw bs (ucast (w - v)))"

text \<open>A dirty node of each kind, given the address of its successor if it has one.\<close>

definition write_verdef :: "ver_group \<Rightarrow> u64 list \<Rightarrow> 'a::len word erw \<Rightarrow> 'a word erw option" where
  "write_verdef g succ erw =
    (let bs = e_bswap erw in
     write_at_v verdef_codec erw (vg_vaddr g)
       (case vg_items g of
          i # is \<Rightarrow> \<lparr>vd_version = esw bs 1, vd_flags = esw bs (vi_flags i), vd_ndx = esw bs (vi_index i),
            vd_cnt = esw bs (of_nat (length (i # is))), vd_hash = esw bs (vi_hash i),
            vd_aux = esw bs (ucast (vi_vaddr i - vg_vaddr g)), vd_next = next_off bs succ (vg_vaddr g)\<rparr>
        | [] \<Rightarrow> \<lparr>vd_version = esw bs 1, vd_flags = 0, vd_ndx = 0, vd_cnt = 0, vd_hash = 0, vd_aux = 0,
            vd_next = next_off bs succ (vg_vaddr g)\<rparr>))"

definition write_verdaux :: "ver_item \<Rightarrow> u64 list \<Rightarrow> 'a::len word erw \<Rightarrow> 'a word erw option" where
  "write_verdaux i succ erw =
    (let bs = e_bswap erw in
     write_at_v verdaux_codec erw (vi_vaddr i) \<lparr>vda_name = esw bs (vi_str i), vda_next = next_off bs succ (vi_vaddr i)\<rparr>)"

definition write_verneed :: "ver_group \<Rightarrow> u64 list \<Rightarrow> 'a::len word erw \<Rightarrow> 'a word erw option" where
  "write_verneed g succ erw =
    (let bs = e_bswap erw in
     write_at_v verneed_codec erw (vg_vaddr g) \<lparr>vn_version = esw bs 1, vn_cnt = esw bs (of_nat (length (vg_items g))),
       vn_file = esw bs (vg_name g), vn_aux = next_off bs (map vi_vaddr (vg_items g)) (vg_vaddr g),
       vn_next = next_off bs succ (vg_vaddr g)\<rparr>)"

definition write_vernaux :: "ver_item \<Rightarrow> u64 list \<Rightarrow> 'a::len word erw \<Rightarrow> 'a word erw option" where
  "write_vernaux i succ erw =
    (let bs = e_bswap erw in
     write_at_v vernaux_codec erw (vi_vaddr i) \<lparr>vna_hash = esw bs (vi_hash i), vna_flags = esw bs (vi_flags i),
       vna_other = esw bs (vi_index i), vna_name = esw bs (vi_str i), vna_next = next_off bs succ (vi_vaddr i)\<rparr>)"

fun write_items :: "(ver_item \<Rightarrow> u64 list \<Rightarrow> 'a::len word erw \<Rightarrow> 'a word erw option) \<Rightarrow> ver_item list \<Rightarrow> 'a word erw \<Rightarrow> 'a word erw option" where
  "write_items wr [] erw = Some erw"
| "write_items wr (i # is) erw = do {
     erw \<leftarrow> (if has_state (vi_state i) VER_EDIT_STATE_DIRTY then wr i (map vi_vaddr is) erw else Some erw);
     write_items wr is erw }"

fun write_groups :: "(ver_group \<Rightarrow> u64 list \<Rightarrow> 'a::len word erw \<Rightarrow> 'a word erw option) \<Rightarrow>
    (ver_item \<Rightarrow> u64 list \<Rightarrow> 'a word erw \<Rightarrow> 'a word erw option) \<Rightarrow> ver_group list \<Rightarrow> 'a word erw \<Rightarrow> 'a word erw option" where
  "write_groups wrg wri [] erw = Some erw"
| "write_groups wrg wri (g # gs) erw = do {
     erw \<leftarrow> (if has_state (vg_state g) VER_EDIT_STATE_DIRTY then wrg g (map vg_vaddr gs) erw else Some erw);
     erw \<leftarrow> write_items wri (vg_items g) erw;
     write_groups wrg wri gs erw }"

text \<open>The entries of the dynamic section for a list of groups, and the list itself.\<close>

definition flush_groups :: "'a::len word erw \<Rightarrow> ver_group list \<Rightarrow> 'a word \<Rightarrow> 'a word \<Rightarrow>
    (ver_group \<Rightarrow> u64 list \<Rightarrow> 'a word erw \<Rightarrow> 'a word erw option) \<Rightarrow>
    (ver_item \<Rightarrow> u64 list \<Rightarrow> 'a word erw \<Rightarrow> 'a word erw option) \<Rightarrow> 'a word erw option" where
  "flush_groups erw gs dt dtnum wrg wri =
    (case gs of [] \<Rightarrow> do { erw \<leftarrow> dhdrs_remove erw dt; dhdrs_remove erw dtnum }
     | g # _ \<Rightarrow> do {
         erw \<leftarrow> dhdrs_set_u erw dt (ucast (vg_vaddr g));
         erw \<leftarrow> dhdrs_set_u erw dtnum (of_nat (length gs));
         if e_retry erw then Some erw else write_groups wrg wri gs erw })"

definition verdef_flush :: "'a::len word erw \<Rightarrow> 'a word erw option" where
  "verdef_flush erw = do {
     (erw, gs) \<leftarrow> vers_ensure_vaddrs erw (verdef_sweep_removed_refs (ve_def (e_vers erw)))
       (c_size verdef_codec) (c_size verdaux_codec) (bytes_of ''.gnu.version_d'');
     let gs = vers_erase_pending_deletes gs;
     flush_groups (set_vers erw ((e_vers erw)\<lparr>ve_def := gs\<rparr>)) gs DT_VERDEF DT_VERDEFNUM write_verdef write_verdaux }"

definition verneed_flush :: "'a::len word erw \<Rightarrow> 'a word erw option" where
  "verneed_flush erw = do {
     erw \<leftarrow> verneed_sweep_removed_refs erw;
     (erw, gs) \<leftarrow> vers_ensure_vaddrs erw (ve_need (e_vers erw))
       (c_size verneed_codec) (c_size vernaux_codec) (bytes_of ''.gnu.version_r'');
     let gs = vers_erase_pending_deletes gs;
     flush_groups (set_vers erw ((e_vers erw)\<lparr>ve_need := gs\<rparr>)) gs DT_VERNEED DT_VERNEEDNUM write_verneed write_vernaux }"

text \<open>The largest index in use: of all needed items, and of the first item of each definition.\<close>

definition max_version_index :: "ver_editor \<Rightarrow> u16" where
  "max_version_index ve =
    fold max (map vi_index (concat (map vg_items (ve_need ve)) @ concat (map (take 1 \<circ> vg_items) (ve_def ve)))) 0"

definition versym_in_range :: "u16 \<Rightarrow> nat \<Rightarrow> 'a::len word erw \<Rightarrow> 'a word erw option" where
  "versym_in_range max_index i erw = do {
     w \<leftarrow> versym_get erw i;
     if esw (e_bswap erw) w AND 0x7fff > max_index then do {
       erw \<leftarrow> versym_put erw i (esw (e_bswap erw) 1);
       Some (set_modified ERW_MODIFIED_DSYMS erw) }
     else Some erw }"

definition vers_flush :: "'a::len word erw \<Rightarrow> 'a word erw option" where
  "vers_flush erw = do {
     erw \<leftarrow> erw_dsyms_init erw;
     erw \<leftarrow> (if sy_versions (e_dsyms erw) \<noteq> None then vers_check_removed_refs erw else Some erw);
     erw \<leftarrow> (if e_modified erw AND ERW_MODIFIED_VERDEF \<noteq> 0 then verdef_flush erw else Some erw);
     erw \<leftarrow> (if e_modified erw AND ERW_MODIFIED_VERNEED \<noteq> 0 then verneed_flush erw else Some erw);
     if sy_versions (e_dsyms erw) = None then Some erw
     else do {
       let max_index = max_version_index (e_vers erw);
       if max_index = 0
       then Some (set_modified ERW_MODIFIED_DSYMS (erw\<lparr>e_dsyms := (e_dsyms erw)\<lparr>sy_versions := None\<rparr>\<rparr>))
       else each (versym_in_range max_index) [0..<unat (sym_count erw)] erw } }"

subsection \<open>Entries of the dynamic section that are strings\<close>

definition set_str_step :: "'a::len word \<Rightarrow> bstr \<Rightarrow> nat \<Rightarrow> 'a word set_loop \<Rightarrow> 'a word set_loop option" where
  "set_str_step tag str i sl = do {
     let erw = sl_erw sl;
     itr \<leftarrow> dyn_get erw i;
     if d_tag itr = tag then do {
       (erw, same) \<leftarrow> str_is erw (ucast (esw (e_bswap erw) (d_val itr))) str;
       if same then do {
         (erw, ref) \<leftarrow> erw_dynstr_encode erw str;
         itr \<leftarrow> dyn_get erw i;
         erw \<leftarrow> dyn_put erw i (itr\<lparr>d_val := esw (e_bswap erw) (ucast ref)\<rparr>);
         Some (sl\<lparr>sl_erw := erw, sl_any := True, sl_modified := True\<rparr>) }
       else Some (sl\<lparr>sl_erw := erw, sl_any := True\<rparr>) }
     else if d_tag itr = DT_NULL then Some (sl\<lparr>sl_nul := Some i\<rparr>)
     else Some sl }"

definition dhdrs_set_str :: "'a::len word erw \<Rightarrow> 'a word \<Rightarrow> bstr \<Rightarrow> 'a word erw option" where
  "dhdrs_set_str erw tag str = do {
     let tag = esw (e_bswap erw) tag;
     s \<leftarrow> each (set_str_step tag str) (rev [0..<dyn_count erw])
       \<lparr>sl_erw = erw, sl_nul = None, sl_any = False, sl_modified = False\<rparr>;
     if sl_any s then Some (if sl_modified s then set_modified ERW_MODIFIED_DHDRS (sl_erw s) else sl_erw s)
     else do {
       (erw, ref) \<leftarrow> erw_dynstr_encode (sl_erw s) str;
       erw \<leftarrow> dhdrs_fill erw (sl_nul s) \<lparr>d_tag = tag, d_val = esw (e_bswap erw) (ucast ref)\<rparr>;
       Some (set_modified ERW_MODIFIED_DHDRS erw) } }"

fun needed_search :: "bstr \<Rightarrow> nat list \<Rightarrow> 'a::len word erw \<Rightarrow> ('a word erw \<times> bool) option" where
  "needed_search str [] erw = Some (erw, False)"
| "needed_search str (i # is) erw = do {
     itr \<leftarrow> dyn_get erw i;
     (erw, same) \<leftarrow> (if esw (e_bswap erw) (d_tag itr) = DT_NEEDED
       then str_is erw (ucast (esw (e_bswap erw) (d_val itr))) str else Some (erw, False));
     if same then Some (erw, True) else needed_search str is erw }"

definition dhdrs_has_needed :: "'a::len word erw \<Rightarrow> bstr \<Rightarrow> ('a word erw \<times> bool) option" where
  "dhdrs_has_needed erw str = needed_search str [0..<dyn_count erw] erw"

definition erw_dhdrs_add_early_needed :: "'a::len word erw \<Rightarrow> bstr \<Rightarrow> 'a word erw option" where
  "erw_dhdrs_add_early_needed erw str = do {
     (erw, ref) \<leftarrow> erw_dynstr_encode erw str;
     dhdrs_add_early_u erw DT_NEEDED (ucast ref) }"

definition erw_dhdrs_add_late_needed :: "'a::len word erw \<Rightarrow> bstr \<Rightarrow> 'a word erw option" where
  "erw_dhdrs_add_late_needed erw str = do {
     (erw, ref) \<leftarrow> erw_dynstr_encode erw str;
     dhdrs_add_late_u erw DT_NEEDED (ucast ref) }"

definition remove_needed_step :: "bstr \<Rightarrow> nat \<Rightarrow> 'a::len word erw \<times> bool \<Rightarrow> ('a word erw \<times> bool) option" where
  "remove_needed_step str i s = (case s of (erw, found) \<Rightarrow> do {
     itr \<leftarrow> dyn_get erw i;
     (erw, same) \<leftarrow> (if esw (e_bswap erw) (d_tag itr) = DT_NEEDED
       then str_is erw (ucast (esw (e_bswap erw) (d_val itr))) str else Some (erw, False));
     if same then do { erw \<leftarrow> dyn_put erw i dyn_zero; Some (erw, True) } else Some (erw, found) })"

text \<open>The items of a needed library that goes become definitions of the file's own, with the same indices.\<close>

definition own_item :: "ver_item \<Rightarrow> 'a::len word erw \<Rightarrow> 'a word erw option" where
  "own_item i erw =
    (let ve = e_vers erw in
     if unat (vi_index i) < length (ve_base ve) \<and> vr_item (ve_base ve ! unat (vi_index i)) = Some (vi_id i)
     then do {
       cur \<leftarrow> item_at ve (vi_id i);
       (erw, s) \<leftarrow> erw_dynstr_decode erw (ucast (vi_str cur));
       add_verdef erw s (ucast (vi_index i)) }
     else Some erw)"

definition remove_needed_group :: "bstr \<Rightarrow> nat \<Rightarrow> 'a::len word erw \<Rightarrow> 'a word erw option" where
  "remove_needed_group str n erw = do {
     g \<leftarrow> group_at (e_vers erw) n;
     (erw, same) \<leftarrow> str_is erw (ucast (vg_name g)) str;
     if same then do {
       let erw = set_modified (ERW_MODIFIED_VERDEF OR ERW_MODIFIED_VERNEED) erw;
       let ve = e_vers erw;
       let erw = set_vers erw (ve\<lparr>ve_need := upd_group (\<lambda>g. g\<lparr>vg_state := vg_state g OR VER_EDIT_STATE_PENDING_DELETE\<rparr>) n (ve_need ve)\<rparr>);
       each own_item (vg_items g) erw }
     else Some erw }"

definition dhdrs_remove_needed :: "'a::len word erw \<Rightarrow> bstr \<Rightarrow> 'a word erw option" where
  "dhdrs_remove_needed erw str = do {
     (erw, found) \<leftarrow> each (remove_needed_step str) [0..<dyn_count erw] (erw, False);
     if found then do {
       erw \<leftarrow> erw_vers_init (set_modified ERW_MODIFIED_DHDRS erw);
       each (remove_needed_group str) (map vg_id (ve_need (e_vers erw))) erw }
     else Some erw }"

end
