(* ===== verification/DsymEdit.thy ===== *)
theory DsymEdit
  imports VersEdit
begin

section \<open>erw.c, erw_nne.h: editing dynamic symbols and rebuilding the hash tables\<close>

text \<open>
  Adding symbols, clearing their versions, and writing the table back. \<open>DT_GNU_HASH\<close> needs
  its symbols in an order of its own, so rebuilding it permutes the symbols, and the
  relocations that refer to them. The tables are built in the bytes of the file. \<open>None\<close> also
  stands for the fatal errors and for a division by zero.
\<close>

subsection \<open>What is known of the symbols\<close>

definition sym_flags :: "'w erw \<Rightarrow> nat \<Rightarrow> u32 option" where
  "sym_flags erw i = map_option si_flags (rd (sy_info (e_dsyms erw)) i)"

definition hash_distance :: "'w erw \<Rightarrow> nat \<Rightarrow> u32 option" where
  "hash_distance erw i = map_option si_hash_distance (rd (sy_info (e_dsyms erw)) i)"

definition in_hash :: "u32 \<Rightarrow> u32 \<Rightarrow> bool" where
  "in_hash bits flags \<longleftrightarrow> flags AND SYM_INFO_LOCAL = 0 \<and> flags AND SYM_INFO_EXPORTABLE \<noteq> 0 \<and> flags AND bits \<noteq> 0"

definition sym_info_hash_count :: "'a::len word erw \<Rightarrow> u32 \<Rightarrow> u32" where
  "sym_info_hash_count erw bits =
    of_nat (length (filter (\<lambda>s. in_hash bits (si_flags s)) (take (unat (sym_count erw)) (sy_info (e_dsyms erw)))))"

text \<open>\<open>__builtin_clz\<close> and the logarithm, rounded up.\<close>

definition clz :: "u32 \<Rightarrow> nat" where
  "clz x = length (takeWhile (\<lambda>i. \<not> bit x i) (rev [0..<32]))"

definition bit_ceil_u32_log2 :: "u32 \<Rightarrow> u32" where
  "bit_ceil_u32_log2 x = 32 - of_nat (clz (x OR 1)) - (if x AND (x - 1) = 0 then 1 else 0)"

definition set_sym_info_if :: "'a::len word erw \<Rightarrow> u32 \<Rightarrow> u32 \<Rightarrow> 'a word erw" where
  "set_sym_info_if erw to_set if_set =
    erw\<lparr>e_dsyms := (e_dsyms erw)\<lparr>sy_info :=
      map (\<lambda>s. if si_flags s AND if_set \<noteq> 0 then s\<lparr>si_flags := si_flags s OR to_set\<rparr> else s) (sy_info (e_dsyms erw))\<rparr>\<rparr>"

definition erw_dsyms_add_hash :: "'a::len word erw \<Rightarrow> u32 \<Rightarrow> 'a word erw option" where
  "erw_dsyms_add_hash erw tag = do {
     erw \<leftarrow> erw_dsyms_init erw;
     let ds = e_dsyms erw;
     Some (if tag = DT_HASH then
         (if sy_want_hash ds then erw
          else set_sym_info_if (set_modified ERW_MODIFIED_DSYMS (erw\<lparr>e_dsyms := ds\<lparr>sy_want_hash := True\<rparr>\<rparr>))
            SYM_INFO_IN_HASH (if sy_want_gnu_hash ds then SYM_INFO_IN_GNU_HASH else SYM_INFO_EXPORTABLE))
       else if tag = DT_GNU_HASH then
         (if sy_want_gnu_hash ds then erw
          else set_sym_info_if (set_modified ERW_MODIFIED_DSYMS (erw\<lparr>e_dsyms := ds\<lparr>sy_want_gnu_hash := True\<rparr>\<rparr>))
            SYM_INFO_IN_GNU_HASH (if sy_want_hash ds then SYM_INFO_IN_HASH else SYM_INFO_EXPORTABLE))
       else erw) }"

subsection \<open>Room for symbols and their versions\<close>

definition dsyms_grow :: "'a::len word erw \<Rightarrow> 'a word erw option" where
  "dsyms_grow erw = do {
     let ds = e_dsyms erw;
     versions \<leftarrow> (case sy_versions ds of
         Some ed \<Rightarrow> if ed_count (sy_syms ds) \<noteq> 0 \<or> ed_capacity (sy_syms ds) \<noteq> 0
           then map_option Some (ed_grow u16_codec (e_f erw) ed) else Some (Some ed)
       | None \<Rightarrow> Some None);
     syms \<leftarrow> ed_grow sym_codec (e_f erw) (sy_syms ds);
     Some (set_modified (ERW_MODIFIED_DSYMS OR ERW_MODIFIED_HASH_TABLES)
       (erw\<lparr>e_dsyms := ds\<lparr>sy_syms := syms, sy_versions := versions\<rparr>\<rparr>)) }"

definition new_versions :: "u32 \<Rightarrow> u32 \<Rightarrow> u16 editor" where
  "new_versions count capacity = \<lparr>ed_live = True, ed_at = 0, ed_heap = replicate (unat capacity) None,
     ed_count = count, ed_capacity = capacity\<rparr>"

definition erw_dsyms_ensure_versions_array :: "'a::len word erw \<Rightarrow> 'a word erw option" where
  "erw_dsyms_ensure_versions_array erw = do {
     erw \<leftarrow> erw_dsyms_init erw;
     let ds = e_dsyms erw;
     let count = sym_count erw;
     if sy_versions ds \<noteq> None \<or> ed_capacity (sy_syms ds) = 0 \<and> count = 0 then Some erw
     else do {
       syms \<leftarrow> (if ed_capacity (sy_syms ds) \<noteq> 0 then Some (sy_syms ds)
         else map_option (\<lambda>es. (sy_syms ds)\<lparr>ed_heap := map Some es, ed_capacity := count\<rparr>)
           (ed_list sym_codec (e_f erw) (sy_syms ds)));
       each (\<lambda>i erw. do {
           flags \<leftarrow> sym_flags erw i;
           versym_put erw i (if flags AND SYM_INFO_LOCAL \<noteq> 0 then 0 else 1) })
         [0..<unat count]
         (erw\<lparr>e_dsyms := ds\<lparr>sy_syms := syms, sy_versions := Some (new_versions count (ed_capacity syms))\<rparr>\<rparr>) } }"

subsection \<open>Clearing versions\<close>

text \<open>\<open>known\<close> is the lookup of a name in the table of the caller.\<close>

definition clear_version_of :: "(bstr \<Rightarrow> bool) \<Rightarrow> nat \<Rightarrow> 'a::len word erw \<Rightarrow> 'a word erw option" where
  "clear_version_of known i erw = do {
     w \<leftarrow> versym_get erw i;
     let ver = esw (e_bswap erw) w AND 0x7fff;
     if ver \<le> 1 then Some erw
     else do {
       sym \<leftarrow> sym_get erw i;
       (erw, name) \<leftarrow> erw_dynstr_decode erw (ucast (esw (e_bswap erw) (st_name sym)));
       if \<not> known name then Some erw
       else do {
         flags \<leftarrow> sym_flags erw i;
         erw \<leftarrow> versym_put erw i (esw (e_bswap erw) (if flags AND SYM_INFO_LOCAL \<noteq> 0 then 0 else 1));
         let erw = set_modified ERW_MODIFIED_DSYMS erw;
         let ve = e_vers erw;
         case (if unat ver < length (ve_base ve) then vr_item (ve_base ve ! unat ver) else None) of
           None \<Rightarrow> Some erw
         | Some n \<Rightarrow>
             Some (set_modified (if vr_group (ve_base ve ! unat ver) \<noteq> None then ERW_MODIFIED_VERNEED else ERW_MODIFIED_VERDEF)
               (set_vers erw (upd_item (\<lambda>i. i\<lparr>vi_state := vi_state i OR VER_EDIT_STATE_REMOVED_REFS\<rparr>) n ve))) } } }"

definition dsyms_clear_version :: "(bstr \<Rightarrow> bool) \<Rightarrow> 'a::len word erw \<Rightarrow> 'a word erw option" where
  "dsyms_clear_version known erw = each (clear_version_of known) [0..<unat (sym_count erw)] erw"

definition erw_dsyms_clear_version :: "'a::len word erw \<Rightarrow> (bstr \<Rightarrow> bool) \<Rightarrow> 'a word erw option" where
  "erw_dsyms_clear_version erw known = do {
     erw \<leftarrow> erw_dsyms_init erw;
     if sy_versions (e_dsyms erw) = None then Some erw
     else do { erw \<leftarrow> erw_vers_init erw; dsyms_clear_version known erw } }"

subsection \<open>Finding or adding a symbol\<close>

text \<open>The test of one symbol; the version is compared as it is in the file.\<close>

definition sym_matches :: "'a::len word erw \<Rightarrow> bstr \<Rightarrow> u16 \<Rightarrow> u8 \<Rightarrow> nat \<Rightarrow> ('a word erw \<times> bool) option" where
  "sym_matches erw name veridx stt i = do {
     differs \<leftarrow> (if sy_versions (e_dsyms erw) \<noteq> None
       then map_option (\<lambda>w. (w XOR veridx) AND esw (e_bswap erw) 0x7fff \<noteq> 0) (versym_get erw i) else Some False);
     if differs then Some (erw, False)
     else do {
       sym \<leftarrow> sym_get erw i;
       let bind = drop_bit 4 (st_info sym);
       let visi = st_other sym AND 3;
       if bind = STB_LOCAL \<or> visi = STV_HIDDEN \<or> visi = STV_INTERNAL \<or> st_info sym AND 0xf \<noteq> stt then Some (erw, False)
       else str_is erw (ucast (esw (e_bswap erw) (st_name sym))) name } }"

fun sym_search :: "'a::len word erw \<Rightarrow> bstr \<Rightarrow> u16 \<Rightarrow> u8 \<Rightarrow> nat list \<Rightarrow> ('a word erw \<times> nat option) option" where
  "sym_search erw name veridx stt [] = Some (erw, None)"
| "sym_search erw name veridx stt (i # is) = do {
     (erw, same) \<leftarrow> sym_matches erw name veridx stt i;
     if same then Some (erw, Some i) else sym_search erw name veridx stt is }"

definition set_sym_count :: "u32 \<Rightarrow> 'a::len word erw \<Rightarrow> 'a word erw" where
  "set_sym_count n erw = (let ds = e_dsyms erw in
     erw\<lparr>e_dsyms := ds\<lparr>sy_syms := (sy_syms ds)\<lparr>ed_count := n\<rparr>, sy_versions := map_option (\<lambda>ed. ed\<lparr>ed_count := n\<rparr>) (sy_versions ds)\<rparr>\<rparr>)"

text \<open>\<open>info[i]\<close> is written within the array or at its end.\<close>

definition put_sym_info :: "nat \<Rightarrow> sym_info \<Rightarrow> 'a::len word erw \<Rightarrow> 'a word erw option" where
  "put_sym_info i s erw =
    (let ds = e_dsyms erw; info = sy_info ds in
     if i < length info then Some (erw\<lparr>e_dsyms := ds\<lparr>sy_info := info[i := s]\<rparr>\<rparr>)
     else if i = length info then Some (erw\<lparr>e_dsyms := ds\<lparr>sy_info := info @ [s]\<rparr>\<rparr>)
     else None)"

definition sym_zero :: "'a::len word sym" where
  "sym_zero = \<lparr>st_name = 0, st_info = 0, st_other = 0, st_shndx = 0, st_value = 0, st_size = 0\<rparr>"

definition dsyms_find_or_add :: "'a::len word erw \<Rightarrow> bstr \<Rightarrow> u16 \<Rightarrow> u8 \<Rightarrow> ('a word erw \<times> u32) option" where
  "dsyms_find_or_add erw name veridx stt = do {
     let nsym = sym_count erw;
     (erw, found) \<leftarrow> (if sy_versions (e_dsyms erw) \<noteq> None \<or> veridx \<le> 1
       then sym_search erw name veridx stt [0..<unat nsym] else Some (erw, None));
     case found of Some i \<Rightarrow> Some (erw, of_nat i)
     | None \<Rightarrow> do {
         erw \<leftarrow> (if nsym \<ge> ed_capacity (sy_syms (e_dsyms erw)) then dsyms_grow erw else Some erw);
         (erw, nsym) \<leftarrow> (if nsym = 0 then do {
             erw \<leftarrow> sym_put erw 0 sym_zero;
             erw \<leftarrow> (if sy_versions (e_dsyms erw) \<noteq> None then versym_put erw 0 0 else Some erw);
             erw \<leftarrow> put_sym_info 0 \<lparr>si_flags = SYM_INFO_LOCAL, si_hash_distance = 0\<rparr> erw;
             Some (set_sym_count 1 erw, 1) } else Some (erw, nsym));
         let i = unat nsym;
         (erw, ref) \<leftarrow> erw_dynstr_encode erw name;
         erw \<leftarrow> sym_put erw i \<lparr>st_name = esw (e_bswap erw) (ucast ref), st_info = push_bit 4 STB_GLOBAL + (stt AND 0xf),
           st_other = 0, st_shndx = SHN_UNDEF, st_value = 0, st_size = 0\<rparr>;
         erw \<leftarrow> put_sym_info i \<lparr>si_flags = 0, si_hash_distance = 0\<rparr> erw;
         erw \<leftarrow> (if sy_versions (e_dsyms erw) \<noteq> None then versym_put erw i (esw (e_bswap erw) veridx)
           else if veridx > 1 then do {
             erw \<leftarrow> erw_dsyms_ensure_versions_array erw;
             versym_put erw i (esw (e_bswap erw) veridx) }
           else Some erw);
         Some (set_sym_count (nsym + 1) erw, nsym) } }"

subsection \<open>Sorting symbols by name\<close>

definition trim_leading_underscore :: "bstr \<Rightarrow> bstr" where
  "trim_leading_underscore s = dropWhile (\<lambda>c. c = 0x5f) s"

text \<open>\<open>strcmp\<close>: the sign of the first difference of two strings.\<close>

fun strcmp :: "bstr \<Rightarrow> bstr \<Rightarrow> int" where
  "strcmp [] [] = 0"
| "strcmp [] (c # t) = -1"
| "strcmp (c # s) [] = 1"
| "strcmp (c # s) (d # t) = (if c < d then -1 else if c > d then 1 else strcmp s t)"

definition sym_name :: "'a::len word erw \<Rightarrow> nat \<Rightarrow> bstr option" where
  "sym_name erw i = do {
     sym \<leftarrow> sym_get erw i;
     (_, s) \<leftarrow> erw_dynstr_decode erw (ucast (esw (e_bswap erw) (st_name sym)));
     Some s }"

definition dsym_sort_by_name :: "'a::len word erw \<Rightarrow> u32 \<Rightarrow> u32 \<Rightarrow> int option" where
  "dsym_sort_by_name erw lhs_i rhs_i = do {
     lhs \<leftarrow> sym_name erw (unat lhs_i);
     rhs \<leftarrow> sym_name erw (unat rhs_i);
     let res1 = strcmp (trim_leading_underscore lhs) (trim_leading_underscore rhs);
     let res2 = strcmp lhs rhs;
     lhs_d \<leftarrow> hash_distance erw (unat lhs_i);
     rhs_d \<leftarrow> hash_distance erw (unat rhs_i);
     Some (if res1 \<noteq> 0 then res1
       else if res2 \<noteq> 0 then res2
       else if lhs_d \<noteq> rhs_d then (if lhs_d > rhs_d then 1 else 0)
       else if lhs_i \<noteq> rhs_i then (if lhs_i < rhs_i then -1 else 1)
       else 0) }"

text \<open>\<open>qsort\<close> is the sorting routine of the platform.\<close>

definition dsyms_sort_indices :: "((u32 \<Rightarrow> u32 \<Rightarrow> int option) \<Rightarrow> u32 list \<Rightarrow> u32 list option) \<Rightarrow> 'a::len word erw \<Rightarrow> u32 list \<Rightarrow> u32 list option" where
  "dsyms_sort_indices qsort erw indices = qsort (dsym_sort_by_name erw) indices"

subsection \<open>Words in the file\<close>

definition word_at :: "'a::len word erw \<Rightarrow> nat \<Rightarrow> 'n::len word option" where
  "word_at erw a = map_option (\<lambda>bs. esw (e_bswap erw) (word_of_bytes bs)) (mem_read (e_f erw) a (word_size TYPE('n)))"

definition put_word_at :: "'a::len word erw \<Rightarrow> nat \<Rightarrow> 'n::len word \<Rightarrow> 'a word erw option" where
  "put_word_at erw a w = map_option (\<lambda>f. erw\<lparr>e_f := f\<rparr>) (mem_store (e_f erw) a (word_bytes (esw (e_bswap erw) w)))"

definition zero_at :: "'a::len word erw \<Rightarrow> nat \<Rightarrow> nat \<Rightarrow> 'a word erw option" where
  "zero_at erw a n = map_option (\<lambda>f. erw\<lparr>e_f := f\<rparr>) (mem_store (e_f erw) a (replicate n 0))"

text \<open>The section header of a table at a new address.\<close>

definition set_table_section :: "'a::len word erw \<Rightarrow> bstr \<Rightarrow> u32 \<Rightarrow> u64 \<Rightarrow> u64 \<Rightarrow> 'a word \<Rightarrow> ('a word erw \<times> nat option) option" where
  "set_table_section erw section type' v nb align = do {
     (erw, shdr) \<leftarrow> shdr_find erw section;
     case shdr of None \<Rightarrow> Some (erw, None)
     | Some a \<Rightarrow> do {
         s \<leftarrow> get_at (shdr_codec :: 'a word shdr codec) (e_f erw) a;
         let bs = e_bswap erw;
         erw \<leftarrow> put_at shdr_codec erw a (s\<lparr>sh_type := esw bs type',
           sh_flags := esw bs ((esw bs (sh_flags s) AND NOT (SHF_WRITE OR SHF_EXECINSTR)) OR SHF_ALLOC),
           sh_addr := esw bs (ucast v), sh_offset := esw bs (ucast (v + v2f_at (e_v2f erw) v)), sh_size := esw bs (ucast nb),
           sh_addralign := esw bs align\<rparr>);
         Some (erw, Some a) } }"

subsection \<open>\<open>DT_HASH\<close>\<close>

text \<open>The number of buckets, the address, and the state: a table that is large enough is used again.\<close>

definition elf_hash_place :: "'a::len word erw \<Rightarrow> ('a word erw \<times> u32 \<times> u64) option" where
  "elf_hash_place erw = do {
     value \<leftarrow> dhdrs_find_value erw DT_HASH;
     let v = (ucast value :: u64);
     let count = sym_count erw;
     meta \<leftarrow> (if v \<noteq> 0 then u32s_at erw v 2 else Some [0, 0]);
     let (m0, m1) = (meta ! 0, meta ! 1);
     if v \<noteq> 0 \<and> m1 \<ge> count then Some (erw, m0 + m1 - count, v)
     else do {
       let n = sym_info_hash_count erw SYM_INFO_IN_HASH;
       let n_bucket = (n - drop_bit 2 n) OR 1;
       if v \<noteq> 0 \<and> (ucast m0 :: u64) + ucast m1 \<ge> ucast n_bucket + ucast count then Some (erw, m0 + m1 - count, v)
       else do {
         let nb = (4 * (2 + ucast n_bucket + ucast count) :: u64);
         let (erw, v) = erw_alloc erw erw_alloc_category_v_r 4 nb;
         erw \<leftarrow> dhdrs_set_u erw DT_HASH (ucast v);
         erw \<leftarrow> (if e_retry erw then Some erw else map_option fst (set_table_section erw (bytes_of ''.hash'') SHT_HASH v nb 4));
         Some (erw, n_bucket, v) } } }"

text \<open>Where a symbol of distance \<open>dist\<close> goes into its chain: the link to change, and the symbol that follows.\<close>

partial_function (option) chain_place :: "'a::len word erw \<Rightarrow> nat \<Rightarrow> u32 \<Rightarrow> nat \<Rightarrow> (nat \<times> u32) option" where
  "chain_place erw chain_base dist at =
    Option.bind (word_at erw at) (\<lambda>j.
      if j = 0 then Some (at, j)
      else Option.bind (hash_distance erw (unat j)) (\<lambda>d.
        if d \<le> dist then Some (at, j) else chain_place erw chain_base dist (chain_base + 4 * unat j)))"

definition elf_hash_add :: "u32 \<Rightarrow> nat \<Rightarrow> nat \<Rightarrow> nat \<Rightarrow> 'a::len word erw \<Rightarrow> 'a word erw option" where
  "elf_hash_add n_bucket buckets chain_base i erw = do {
     flags \<leftarrow> sym_flags erw i;
     if \<not> in_hash SYM_INFO_IN_HASH flags then Some erw
     else do {
       sym \<leftarrow> sym_get erw i;
       (erw, h) \<leftarrow> erw_dynstr_decode_elf_hash erw (ucast (esw (e_bswap erw) (st_name sym)));
       dist \<leftarrow> hash_distance erw i;
       (at, j) \<leftarrow> (if n_bucket = 0 then None else chain_place erw chain_base dist (buckets + 4 * unat (h mod n_bucket)));
       erw \<leftarrow> put_word_at erw (chain_base + 4 * i) (j :: u32);
       put_word_at erw at (of_nat i :: u32) } }"

definition rebuild_elf_hash :: "'a::len word erw \<Rightarrow> 'a word erw option" where
  "rebuild_elf_hash erw = do {
     (erw, n_bucket, v) \<leftarrow> elf_hash_place erw;
     if e_retry erw then Some erw
     else do {
       f \<leftarrow> erw_view_v erw v;
       let meta = unat f;
       let buckets = meta + 8;
       let chain_base = buckets + 4 * unat n_bucket;
       let count = sym_count erw;
       erw \<leftarrow> zero_at erw buckets (4 * (unat n_bucket + unat count));
       erw \<leftarrow> put_word_at erw meta n_bucket;
       erw \<leftarrow> put_word_at erw (meta + 4) count;
       each (elf_hash_add n_bucket buckets chain_base) [0..<unat count] erw } }"

subsection \<open>Permuting the symbols\<close>

text \<open>
  \<open>dsyms_remap\<close>: the element at \<open>i\<close> goes to where \<open>remap\<close> says, and \<open>remap\<close> is permuted along,
  until every element is in its place.
\<close>

partial_function (option) remap_loop :: "(nat \<Rightarrow> nat \<Rightarrow> 's \<Rightarrow> 's option) \<Rightarrow> nat \<Rightarrow> nat \<Rightarrow> nat list \<Rightarrow> 's \<Rightarrow> 's option" where
  "remap_loop swp n i remap s =
    (if i \<ge> n then Some s
     else Option.bind (rd remap i) (\<lambda>j.
       if j = i then remap_loop swp n (i + 1) remap s
       else Option.bind (rd remap j) (\<lambda>k. Option.bind (swp i j s) (remap_loop swp n i (remap[i := k, j := j])))))"

definition swap_syms :: "nat \<Rightarrow> nat \<Rightarrow> 'a::len word erw \<Rightarrow> 'a word erw option" where
  "swap_syms i j erw = do {
     si \<leftarrow> sym_get erw i;
     sj \<leftarrow> sym_get erw j;
     erw \<leftarrow> sym_put erw i sj;
     erw \<leftarrow> sym_put erw j si;
     fi \<leftarrow> rd (sy_info (e_dsyms erw)) i;
     fj \<leftarrow> rd (sy_info (e_dsyms erw)) j;
     let erw = erw\<lparr>e_dsyms := (e_dsyms erw)\<lparr>sy_info := (sy_info (e_dsyms erw))[i := fj, j := fi]\<rparr>\<rparr>;
     if sy_versions (e_dsyms erw) = None then Some erw
     else do {
       vi \<leftarrow> versym_get erw i;
       vj \<leftarrow> versym_get erw j;
       erw \<leftarrow> versym_put erw i vj;
       versym_put erw j vi } }"

definition dsyms_remap :: "'a::len word erw \<Rightarrow> u32 list \<Rightarrow> 'a word erw option" where
  "dsyms_remap erw remap = remap_loop swap_syms (unat (sym_count erw)) 0 (map unat remap) erw"

definition remap_reloc :: "u32 list \<Rightarrow> nat \<Rightarrow> nat \<Rightarrow> 'a::len word erw \<times> bool \<Rightarrow> ('a word erw \<times> bool) option" where
  "remap_reloc remap k i s = (case s of (erw, modified) \<Rightarrow> do {
     let rl = e_relocs erw ! k;
     let off = i * unat (rl_entry_size rl) + word_size TYPE('a);
     w \<leftarrow> rel_word erw rl off;
     let info = esw (e_bswap erw) w;
     new_sym_index \<leftarrow> rd remap (unat (rel_sym info));
     if new_sym_index \<noteq> ucast (rel_sym info) then do {
       let info = (if LENGTH('a) = 32 then ucast (ucast info :: u8) OR push_bit 8 (ucast new_sym_index)
         else ucast (ucast info :: u32) OR push_bit 32 (ucast new_sym_index));
       erw \<leftarrow> rel_set_word erw k off (esw (e_bswap erw) info);
       Some (erw, True) }
     else Some (erw, modified) })"

definition relocs_remap :: "'a::len word erw \<Rightarrow> u32 list \<Rightarrow> 'a word erw option" where
  "relocs_remap erw remap =
    each (\<lambda>k erw.
      let rl = e_relocs erw ! k in
      if unat (rl_entry_size rl) < 2 * word_size TYPE('a) then Some erw
      else do {
        (erw, modified) \<leftarrow> each (remap_reloc remap k) [0..<unat (ucast (rl_count rl) :: u32)] (erw, False);
        Some (if modified then set_modified ERW_MODIFIED_RELOCS
            (set_editor erw k ((e_relocs erw ! k)\<lparr>rl_flags := rl_flags (e_relocs erw ! k) OR RELOC_EDIT_FLAG_DIRTY\<rparr>))
          else erw) })
      (reloc_editors erw) erw"

end
