(* ===== verification/DsymFlush.thy ===== *)
theory DsymFlush
  imports DsymEdit
begin

section \<open>erw_nne.h: \<open>DT_GNU_HASH\<close>, the order of the symbols, and writing them back\<close>

subsection \<open>The size and the place of the table\<close>

record gnu_sizes =
  gs_bloom_log2 :: u32
  gs_bloom :: u32
  gs_bucket :: u32
  gs_syms :: u32

definition gnu_sizes :: "'a::len word erw \<Rightarrow> gnu_sizes" where
  "gnu_sizes erw =
    (let n = sym_info_hash_count erw SYM_INFO_IN_GNU_HASH;
         log2 = bit_ceil_u32_log2 (ucast ((ucast n * 8 :: u64) div of_nat (word_size TYPE('a) * 8)))
     in \<lparr>gs_bloom_log2 = log2, gs_bloom = push_bit (unat log2) 1, gs_bucket = (n - drop_bit 2 n) OR 1, gs_syms = n\<rparr>)"

definition gnu_u32_count :: "'a::len itself \<Rightarrow> u32 \<Rightarrow> u32 \<Rightarrow> u32 \<Rightarrow> u32" where
  "gnu_u32_count _ n_bloom n_bucket n_sym = 4 + n_bloom * of_nat (word_size TYPE('a) div 4) + n_bucket + n_sym"

definition u32_sub_saturating :: "u32 \<Rightarrow> u32 \<Rightarrow> u32" where
  "u32_sub_saturating lhs rhs = (if lhs \<ge> rhs then lhs - rhs else 0)"

text \<open>The section header gets its flags without a change of endianness.\<close>

definition set_gnu_section :: "'a::len word erw \<Rightarrow> u64 \<Rightarrow> u64 \<Rightarrow> 'a word erw option" where
  "set_gnu_section erw v nb = do {
     (erw, shdr) \<leftarrow> shdr_find erw (bytes_of ''.gnu.hash'');
     case shdr of None \<Rightarrow> Some erw
     | Some a \<Rightarrow> do {
         s \<leftarrow> get_at (shdr_codec :: 'a word shdr codec) (e_f erw) a;
         let bs = e_bswap erw;
         put_at shdr_codec erw a (s\<lparr>sh_type := esw bs SHT_GNU_HASH,
           sh_flags := (sh_flags s AND NOT (SHF_WRITE OR SHF_EXECINSTR)) OR SHF_ALLOC,
           sh_addr := esw bs (ucast v), sh_offset := esw bs (ucast (v + v2f_at (e_v2f erw) v)), sh_size := esw bs (ucast nb),
           sh_addralign := esw bs (of_nat (word_size TYPE('a)))\<rparr>) } }"

definition gnu_hash_new :: "'a::len word erw \<Rightarrow> gnu_sizes \<Rightarrow> u32 \<Rightarrow> ('a word erw \<times> gnu_sizes \<times> u64) option" where
  "gnu_hash_new erw gs new = do {
     let nb = (ucast new * 4 :: u64);
     let (erw, v) = erw_alloc erw erw_alloc_category_v_r (of_nat (word_size TYPE('a))) nb;
     erw \<leftarrow> dhdrs_set_u erw DT_GNU_HASH (ucast v);
     erw \<leftarrow> (if e_retry erw then Some erw else set_gnu_section erw v nb);
     Some (erw, gs, v) }"

text \<open>A table that is large enough is used again, with more buckets.\<close>

definition gnu_hash_place :: "'a::len word erw \<Rightarrow> gnu_sizes \<Rightarrow> ('a word erw \<times> gnu_sizes \<times> u64) option" where
  "gnu_hash_place erw gs = do {
     value \<leftarrow> dhdrs_find_value erw DT_GNU_HASH;
     let v = (ucast value :: u64);
     let new = gnu_u32_count TYPE('a) (gs_bloom gs) (gs_bucket gs) (gs_syms gs);
     old \<leftarrow> (if v \<noteq> 0 then do {
         meta \<leftarrow> u32s_at erw v 4;
         Some (Some (gnu_u32_count TYPE('a) (meta ! 2) (meta ! 0)
           (u32_sub_saturating (sy_original_gnu_hash_count (e_dsyms erw)) (meta ! 1)))) }
       else Some None);
     case old of
       Some n \<Rightarrow> if n \<ge> new then Some (erw, gs\<lparr>gs_bucket := gs_bucket gs + (n - new)\<rparr>, v) else gnu_hash_new erw gs new
     | None \<Rightarrow> gnu_hash_new erw gs new }"

subsection \<open>Filling the table\<close>

text \<open>What the two loops over the symbols keep beside the file.\<close>

record gnu_loop =
  gl_counts :: "u32 list"
  gl_remap :: "u32 list"
  gl_local :: u32
  gl_other :: u32

definition is_local :: "'a::len word sym \<Rightarrow> bool" where
  "is_local s \<longleftrightarrow> drop_bit 4 (st_info s) = STB_LOCAL"

definition set_bloom_bits :: "'a::len word \<Rightarrow> u32 \<Rightarrow> u32 \<Rightarrow> 'a word" where
  "set_bloom_bits w hash shift =
    w OR push_bit (bloom_bit TYPE('a) hash) 1 OR push_bit (bloom_bit TYPE('a) (drop_bit (unat shift) hash)) 1"

definition gnu_bloom_step :: "gnu_sizes \<Rightarrow> u32 \<Rightarrow> nat \<Rightarrow> nat \<Rightarrow> 'a::len word erw \<times> gnu_loop \<Rightarrow> ('a word erw \<times> gnu_loop) option" where
  "gnu_bloom_step gs shift bloom i s = (case s of (erw, gl) \<Rightarrow> do {
     flags \<leftarrow> sym_flags erw i;
     sym \<leftarrow> sym_get erw i;
     if in_hash SYM_INFO_IN_GNU_HASH flags then do {
       (erw, hash) \<leftarrow> erw_dynstr_decode_gnu_hash erw (ucast (esw (e_bswap erw) (st_name sym)));
       let at = bloom + unat (hash div of_nat (word_size TYPE('a) * 8) AND (gs_bloom gs - 1)) * word_size TYPE('a);
       w \<leftarrow> word_at erw at;
       let bucket = unat (hash mod gs_bucket gs);
       n \<leftarrow> rd (gl_counts gl) bucket;
       erw \<leftarrow> put_word_at erw at (set_bloom_bits (w :: 'a word) hash shift);
       Some (erw, gl\<lparr>gl_counts := (gl_counts gl)[bucket := n + 1]\<rparr>) }
     else Some (erw, if is_local sym then gl\<lparr>gl_local := gl_local gl + 1\<rparr> else gl) })"

text \<open>The first symbol of every bucket, while the counts become the next free places.\<close>

definition gnu_bucket_step :: "nat \<Rightarrow> u32 \<Rightarrow> nat \<Rightarrow> 'a::len word erw \<times> u32 list \<times> u32 \<Rightarrow> ('a word erw \<times> u32 list \<times> u32) option" where
  "gnu_bucket_step buckets count i s = (case s of (erw, counts, tot) \<Rightarrow> do {
     here \<leftarrow> rd counts i;
     if here \<noteq> 0 then do {
       erw \<leftarrow> put_word_at erw (buckets + 4 * i) tot;
       Some (erw, counts[i := tot], tot + here) }
     else do {
       erw \<leftarrow> put_word_at erw (buckets + 4 * i) (0 :: u32);
       Some (erw, counts[i := count], tot) } })"

text \<open>The chain word of symbol \<open>j\<close>; the chains start with the first symbol that is in the table.\<close>

definition gnu_chain_at :: "nat \<Rightarrow> gnu_sizes \<Rightarrow> u32 \<Rightarrow> u32 \<Rightarrow> nat" where
  "gnu_chain_at buckets gs first j = buckets + 4 * unat (gs_bucket gs) + 4 * unat j - 4 * unat first"

definition gnu_chain_step :: "nat \<Rightarrow> gnu_sizes \<Rightarrow> u32 \<Rightarrow> nat \<Rightarrow> 'a::len word erw \<times> gnu_loop \<Rightarrow> ('a word erw \<times> gnu_loop) option" where
  "gnu_chain_step buckets gs first i s = (case s of (erw, gl) \<Rightarrow> do {
     flags \<leftarrow> sym_flags erw i;
     sym \<leftarrow> sym_get erw i;
     if in_hash SYM_INFO_IN_GNU_HASH flags then do {
       (erw, hash) \<leftarrow> erw_dynstr_decode_gnu_hash erw (ucast (esw (e_bswap erw) (st_name sym)));
       let bucket = unat (hash mod gs_bucket gs);
       j \<leftarrow> rd (gl_counts gl) bucket;
       erw \<leftarrow> put_word_at erw (gnu_chain_at buckets gs first j) (hash AND NOT 1);
       Some (erw, gl\<lparr>gl_counts := (gl_counts gl)[bucket := j + 1], gl_remap := gl_remap gl @ [j]\<rparr>) }
     else if is_local sym then Some (erw, gl\<lparr>gl_remap := gl_remap gl @ [gl_local gl], gl_local := gl_local gl + 1\<rparr>)
     else Some (erw, gl\<lparr>gl_remap := gl_remap gl @ [gl_other gl], gl_other := gl_other gl + 1\<rparr>) })"

text \<open>The last word of every chain gets its lowest bit.\<close>

definition gnu_end_step :: "nat \<Rightarrow> gnu_sizes \<Rightarrow> u32 \<Rightarrow> u32 list \<Rightarrow> nat \<Rightarrow> 'a::len word erw \<Rightarrow> 'a word erw option" where
  "gnu_end_step buckets gs first counts i erw = do {
     b \<leftarrow> word_at erw (buckets + 4 * i);
     if (b :: u32) = 0 then Some erw
     else do {
       j \<leftarrow> rd counts i;
       let at = gnu_chain_at buckets gs first (j - 1);
       w \<leftarrow> word_at erw at;
       put_word_at erw at ((w :: u32) OR 1) } }"

definition rebuild_gnu_hash :: "'a::len word erw \<Rightarrow> 'a word erw option" where
  "rebuild_gnu_hash erw = do {
     (erw, gs, v) \<leftarrow> gnu_hash_place erw (gnu_sizes erw);
     if e_retry erw then Some erw
     else do {
       f \<leftarrow> erw_view_v erw v;
       let meta = unat f;
       let log2 = gs_bloom_log2 gs;
       let shift = (if LENGTH('a) = 32 then (if log2 > 22 then 27 else 5 + log2) else (if log2 > 20 then 26 else 6 + log2));
       let bloom = meta + 16;
       let buckets = bloom + unat (gs_bloom gs) * word_size TYPE('a);
       let n_bucket = unat (gs_bucket gs);
       let count = sym_count erw;
       erw \<leftarrow> put_word_at erw meta (gs_bucket gs);
       erw \<leftarrow> put_word_at erw (meta + 8) (gs_bloom gs);
       erw \<leftarrow> put_word_at erw (meta + 12) shift;
       erw \<leftarrow> zero_at erw bloom (unat (gs_bloom gs) * word_size TYPE('a));
       (erw, gl) \<leftarrow> each (gnu_bloom_step gs shift bloom) [0..<unat count]
         (erw, \<lparr>gl_counts = replicate n_bucket 0, gl_remap = [], gl_local = 0, gl_other = 0\<rparr>);
       let first = count - gs_syms gs;
       erw \<leftarrow> put_word_at erw (meta + 4) first;
       (erw, counts, tot) \<leftarrow> each (gnu_bucket_step buckets count) [0..<n_bucket] (erw, gl_counts gl, first);
       if tot \<noteq> count then None
       else do {
         (erw, gl) \<leftarrow> each (gnu_chain_step buckets gs first) [0..<unat count]
           (erw, \<lparr>gl_counts = counts, gl_remap = [], gl_local = 0, gl_other = gl_local gl\<rparr>);
         erw \<leftarrow> each (gnu_end_step buckets gs first (gl_counts gl)) [0..<n_bucket] erw;
         erw \<leftarrow> relocs_remap erw (gl_remap gl);
         dsyms_remap erw (gl_remap gl) } } }"

subsection \<open>Local symbols first\<close>

definition locals_first :: "bool list \<Rightarrow> u32 list" where
  "locals_first ls = rev (fst (fold (\<lambda>l (remap, num_local, not_local).
     if l then (num_local # remap, num_local + 1, not_local) else (not_local # remap, num_local, not_local + 1))
     ls ([], 0, of_nat (length (filter id ls)))))"

definition dsyms_move_locals_first :: "'a::len word erw \<Rightarrow> ('a word erw \<times> bool) option" where
  "dsyms_move_locals_first erw = do {
     syms \<leftarrow> ed_list sym_codec (e_f erw) (sy_syms (e_dsyms erw));
     let ls = map is_local syms;
     let need_move = (\<exists>i < length ls. ls ! i \<and> length (filter id (take i ls)) \<noteq> i);
     if \<not> need_move then Some (erw, False)
     else do {
       let remap = locals_first ls;
       erw \<leftarrow> relocs_remap erw remap;
       erw \<leftarrow> dsyms_remap erw remap;
       Some (erw, True) } }"

subsection \<open>Writing the symbols back\<close>

definition dsyms_fixup_sh_info :: "'a::len word erw \<Rightarrow> nat \<Rightarrow> 'a word erw option" where
  "dsyms_fixup_sh_info erw a = do {
     syms \<leftarrow> ed_list sym_codec (e_f erw) (sy_syms (e_dsyms erw));
     s \<leftarrow> get_at (shdr_codec :: 'a word shdr codec) (e_f erw) a;
     let n = esw (e_bswap erw) (sh_info s);
     put_at shdr_codec erw a
       (s\<lparr>sh_info := esw (e_bswap erw) (n + of_nat (length (takeWhile is_local (drop (unat n) syms))))\<rparr>) }"

definition flush_hash_tables :: "'a::len word erw \<Rightarrow> 'a word erw option" where
  "flush_hash_tables erw = do {
     let ds = e_dsyms erw;
     let stale = (\<lambda>erw. e_modified erw AND ERW_MODIFIED_HASH_TABLES \<noteq> 0);
     (erw, done_reorder) \<leftarrow> (if sy_want_gnu_hash ds then
         (if \<not> sy_original_had_gnu_hash ds \<or> stale erw then do {
            erw \<leftarrow> rebuild_gnu_hash erw;
            Some (set_modified ERW_MODIFIED_HASH_TABLES erw, True) }
          else Some (erw, False))
       else if sy_original_had_gnu_hash ds then do { erw \<leftarrow> dhdrs_remove erw DT_GNU_HASH; Some (erw, False) }
       else Some (erw, False));
     erw \<leftarrow> (if done_reorder then Some erw
       else do {
         (erw, moved) \<leftarrow> dsyms_move_locals_first erw;
         if moved \<and> \<not> stale erw then
           (let erw = set_modified ERW_MODIFIED_HASH_TABLES erw in if sy_want_gnu_hash ds then rebuild_gnu_hash erw else Some erw)
         else Some erw });
     if sy_want_hash ds then (if \<not> sy_original_had_hash ds \<or> stale erw then rebuild_elf_hash erw else Some erw)
     else if sy_original_had_hash ds then dhdrs_remove erw DT_HASH
     else Some erw }"

text \<open>The symbols, or their versions, go to the file at \<open>f\<close>; the block they were in is given up.\<close>

definition store_editor :: "'e codec \<Rightarrow> 'a::len word erw \<Rightarrow> 'e editor \<Rightarrow> u64 \<Rightarrow> ('a word erw \<times> 'e editor) option" where
  "store_editor c erw ed f = do {
     es \<leftarrow> ed_list c (e_f erw) ed;
     m \<leftarrow> mem_store (e_f erw) (unat f) (concat (map (c_enc c) es));
     Some (erw\<lparr>e_f := m\<rparr>, ed\<lparr>ed_at := unat f, ed_heap := [], ed_capacity := 0\<rparr>) }"

definition dsyms_store :: "'a::len word erw \<Rightarrow> u64 \<Rightarrow> u64 \<Rightarrow> u64 \<Rightarrow> u64 \<Rightarrow> 'a word erw option" where
  "dsyms_store erw v1 nb1 v2 nb2 = do {
     let f1 = v1 + v2f_at (e_v2f erw) v1;
     let f2 = v2 + v2f_at (e_v2f erw) v2;
     (erw, syms) \<leftarrow> store_editor sym_codec erw (sy_syms (e_dsyms erw)) f1;
     let erw = erw\<lparr>e_dsyms := (e_dsyms erw)\<lparr>sy_syms := syms\<rparr>\<rparr>;
     erw \<leftarrow> (if nb2 \<noteq> 0 then do {
         versions \<leftarrow> sy_versions (e_dsyms erw);
         (erw, versions) \<leftarrow> store_editor u16_codec erw versions f2;
         Some (erw\<lparr>e_dsyms := (e_dsyms erw)\<lparr>sy_versions := Some versions\<rparr>\<rparr>) } else Some erw);
     (erw, shdr) \<leftarrow> set_table_section erw (bytes_of ''.dynsym'') SHT_DYNSYM v1 nb1 (of_nat (word_size TYPE('a)));
     erw \<leftarrow> (case shdr of Some a \<Rightarrow> dsyms_fixup_sh_info erw a | None \<Rightarrow> Some erw);
     if nb2 \<noteq> 0 then map_option fst (set_table_section erw (bytes_of ''.gnu.version'') SHT_GNU_versym v2 nb2 2) else Some erw }"

definition dsyms_flush :: "'a::len word erw \<Rightarrow> 'a word erw option" where
  "dsyms_flush erw = do {
     erw \<leftarrow> flush_hash_tables erw;
     let syms = sy_syms (e_dsyms erw);
     if ed_count syms = 0 then do {
       erw \<leftarrow> dhdrs_remove erw DT_SYMTAB;
       dhdrs_remove erw DT_VERSYM }
     else if ed_capacity syms = 0 then do {
       erw \<leftarrow> (if sy_versions (e_dsyms erw) = None then dhdrs_remove erw DT_VERSYM else Some erw);
       (erw, shdr) \<leftarrow> shdr_find erw (bytes_of ''.dynsym'');
       case shdr of Some a \<Rightarrow> dsyms_fixup_sh_info erw a | None \<Rightarrow> Some erw }
     else do {
       let nb1 = (ucast (ed_count syms) * of_nat (c_size (sym_codec :: 'a word sym codec)) :: u64);
       let (erw, v1) = erw_alloc erw erw_alloc_category_v_r (of_nat (word_size TYPE('a))) nb1;
       let nb2 = (if sy_versions (e_dsyms erw) \<noteq> None then ucast (ed_count syms) * 2 else 0 :: u64);
       let (erw, v2) = (if nb2 \<noteq> 0 then erw_alloc erw erw_alloc_category_v_r 2 nb2 else (erw, 1));
       erw \<leftarrow> dhdrs_set_u erw DT_SYMTAB (ucast v1);
       erw \<leftarrow> (if nb2 \<noteq> 0 then dhdrs_set_u erw DT_VERSYM (ucast v2) else dhdrs_remove erw DT_VERSYM);
       if e_retry erw then Some erw else dsyms_store erw v1 nb1 v2 nb2 } }"

end
