(* ===== verification/DsymOps.thy ===== *)
theory DsymOps
  imports DsymFlush "HOL-Library.Multiset"
begin

section \<open>erw_nne.h: permuting the symbols in place\<close>

text \<open>
  The cycles of a permutation are resolved by swaps: every swap puts one element in its final
  place, so the loop ends, and an element, what is known of it and its version arrive together
  where the permutation sends them.
\<close>

definition swapped :: "'x list \<Rightarrow> nat \<Rightarrow> nat \<Rightarrow> 'x list" where
  "swapped xs i j = xs[i := xs ! j, j := xs ! i]"

definition misplaced :: "nat list \<Rightarrow> nat set" where
  "misplaced remap = {k. k < length remap \<and> remap ! k \<noteq> k}"

definition permutation :: "nat list \<Rightarrow> bool" where
  "permutation remap \<longleftrightarrow> distinct remap \<and> set remap = {..<length remap}"

lemma length_swapped [simp]: "length (swapped xs i j) = length xs"
  by (simp add: swapped_def)

lemma nth_swapped: "i < length xs \<Longrightarrow> j < length xs \<Longrightarrow> k < length xs \<Longrightarrow>
    swapped xs i j ! k = (if k = j then xs ! i else if k = i then xs ! j else xs ! k)"
  by (simp add: swapped_def nth_list_update)

lemma map_swapped: "i < length xs \<Longrightarrow> j < length xs \<Longrightarrow> map g (swapped xs i j) = swapped (map g xs) i j"
  by (simp add: swapped_def map_update)

lemma permutation_swapped: "permutation remap \<Longrightarrow> i < length remap \<Longrightarrow> j < length remap \<Longrightarrow> permutation (swapped remap i j)"
proof -
  assume p: "permutation remap" and ij: "i < length remap" "j < length remap"
  have m: "mset (swapped remap i j) = mset remap" using ij by (simp add: swapped_def mset_swap)
  then have "set (swapped remap i j) = set remap" by (metis set_mset_mset)
  then show ?thesis using p m mset_eq_imp_distinct_iff [OF m] by (simp add: permutation_def)
qed

lemma permutation_nth: "permutation remap \<Longrightarrow> k < length remap \<Longrightarrow> remap ! k < length remap"
  unfolding permutation_def by (metis lessThan_iff nth_mem)

lemma permutation_inj: "permutation remap \<Longrightarrow> a < length remap \<Longrightarrow> b < length remap \<Longrightarrow> remap ! a = remap ! b \<Longrightarrow> a = b"
  unfolding permutation_def by (metis nth_eq_iff_index_eq)

lemma remap_loop_ok:
  fixes R :: "'s \<Rightarrow> 'x list \<Rightarrow> bool"
  assumes swp: "\<And>s xs i j. R s xs \<Longrightarrow> length xs = n \<Longrightarrow> i < n \<Longrightarrow> j < n \<Longrightarrow> \<exists>s'. swp i j s = Some s' \<and> R s' (swapped xs i j)"
    and "permutation remap" "length remap = n" "R s xs" "length xs = n" "\<forall>k < min i n. remap ! k = k"
  shows "\<exists>s' ys. remap_loop swp n i remap s = Some s' \<and> R s' ys \<and> length ys = n \<and> (\<forall>k < n. ys ! (remap ! k) = xs ! k)"
  using assms(2-)
proof (induction "(n - i) + card (misplaced remap)" arbitrary: i remap s xs rule: less_induct)
  case less
  note perm = less.prems(1) and len = less.prems(2)
  show ?case
  proof (cases "i \<ge> n")
    case True
    then have "remap ! k = k" if "k < n" for k using less.prems(5) that by simp
    then show ?thesis using True less.prems(3,4) by (subst remap_loop.simps) auto
  next
    case False
    let ?j = "remap ! i"
    have j: "?j < n" using permutation_nth [OF perm] False len by simp
    show ?thesis
    proof (cases "?j = i")
      case True
      have "\<exists>s' ys. remap_loop swp n (i + 1) remap s = Some s' \<and> R s' ys \<and> length ys = n \<and> (\<forall>k < n. ys ! (remap ! k) = xs ! k)"
        using less.prems True False by (intro less.hyps) (auto simp: less_Suc_eq)
      then show ?thesis using True False len by (subst remap_loop.simps) (simp add: rd_def)
    next
      case moves: False
      have later: "i < ?j"
      proof (rule ccontr)
        assume "\<not> i < ?j"
        then have "?j < i" using moves by simp
        then have "remap ! ?j = remap ! i" using less.prems(5) False by simp
        then show False using permutation_inj [OF perm, of ?j i] j False len moves by simp
      qed
      let ?remap = "swapped remap i ?j" and ?xs = "swapped xs i ?j"
      obtain s' where s': "swp i ?j s = Some s'" "R s' ?xs" using swp [OF less.prems(3,4), of i "remap ! i"] False j by auto
      have nth: "k < n \<Longrightarrow> ?remap ! k = (if k = ?j then ?j else if k = i then remap ! ?j else remap ! k)" for k
        using nth_swapped [of i remap ?j k] False j len by simp
      have "remap ! ?j \<noteq> ?j" using permutation_inj [OF perm, of ?j i] j False len moves by auto
      then have "?j \<in> misplaced remap" using j len by (simp add: misplaced_def)
      moreover have "k \<in> misplaced remap \<and> k \<noteq> ?j" if "k \<in> misplaced ?remap" for k
      proof -
        have k: "k < n" "?remap ! k \<noteq> k" using that len by (simp_all add: misplaced_def)
        then have "k \<noteq> ?j" "remap ! k \<noteq> k" using nth [OF k(1)] moves by (metis, metis)
        then show ?thesis using k(1) len by (simp add: misplaced_def)
      qed
      ultimately have "misplaced ?remap \<subset> misplaced remap" by blast
      then have "card (misplaced ?remap) < card (misplaced remap)"
        by (intro psubset_card_mono) (simp_all add: misplaced_def)
      then obtain r ys where r: "remap_loop swp n i ?remap s' = Some r" "R r ys" "length ys = n" "\<forall>k < n. ys ! (?remap ! k) = ?xs ! k"
      proof -
        have "\<forall>k < min i n. ?remap ! k = k" using nth less.prems(5) later by simp
        moreover have "n - i + card (misplaced ?remap) < n - i + card (misplaced remap)"
          using \<open>card (misplaced ?remap) < card (misplaced remap)\<close> by simp
        moreover have "permutation ?remap" using permutation_swapped [OF perm, of i ?j] len False j by simp
        ultimately have "\<exists>r ys. remap_loop swp n i ?remap s' = Some r \<and> R r ys \<and> length ys = n \<and> (\<forall>k < n. ys ! (?remap ! k) = ?xs ! k)"
          by (intro less.hyps) (use len less.prems(4) s'(2) in simp_all)
        then show thesis using that by blast
      qed
      have "ys ! (remap ! k) = xs ! k" if "k < n" for k
      proof -
        have xs: "l < n \<Longrightarrow> ?xs ! l = (if l = ?j then xs ! i else if l = i then xs ! ?j else xs ! l)" for l
          using nth_swapped [of i xs ?j l] False j less.prems(4) by simp
        show ?thesis
          using r(4) [rule_format, of ?j] r(4) [rule_format, of i] r(4) [rule_format, of k] nth xs that j False moves
          by (cases "k = i"; cases "k = ?j") simp_all
      qed
      moreover have "remap_loop swp n i remap s = remap_loop swp n i ?remap s'"
      proof -
        have "?remap = remap[i := remap ! ?j, ?j := ?j]" by (simp add: swapped_def)
        then show ?thesis using False moves j s'(1) len
          by (subst remap_loop.simps) (simp add: rd_def)
      qed
      ultimately show ?thesis using r(1,2,3) by auto
    qed
  qed
qed

text \<open>
  The bytes of the file that an editor works on: the array in the file, or none once the editor
  has a block of its own.
\<close>

definition window :: "'e codec \<Rightarrow> 'e editor \<Rightarrow> nat set" where
  "window c ed = (if ed_capacity ed = 0 then {ed_at ed ..< ed_at ed + unat (ed_count ed) * c_size c} else {})"

definition dsyms_window :: "'a::len word erw \<Rightarrow> nat set" where
  "dsyms_window erw = window sym_codec (sy_syms (e_dsyms erw)) \<union>
     (case sy_versions (e_dsyms erw) of None \<Rightarrow> {} | Some ed \<Rightarrow> window u16_codec ed)"

text \<open>
  What the editor of the symbols holds, in the file or in blocks of its own: for every symbol the
  symbol, what is known of it, and its version when there are versions. The symbols and the
  versions are not on the same bytes of the file.
\<close>

definition dsyms_are :: "'a::len word erw \<Rightarrow> ('a word sym \<times> sym_info \<times> u16 option) list \<Rightarrow> bool" where
  "dsyms_are erw xs \<longleftrightarrow>
     ed_ok sym_codec (e_f erw) (sy_syms (e_dsyms erw)) (map fst xs) \<and>
     length xs \<le> length (sy_info (e_dsyms erw)) \<and> take (length xs) (sy_info (e_dsyms erw)) = map (fst \<circ> snd) xs \<and>
     (case sy_versions (e_dsyms erw) of
        None \<Rightarrow> \<forall>x \<in> set xs. snd (snd x) = None
      | Some ed \<Rightarrow> window sym_codec (sy_syms (e_dsyms erw)) \<inter> window u16_codec ed = {} \<and>
          (\<exists>vs. ed_ok u16_codec (e_f erw) ed vs \<and> map (snd \<circ> snd) xs = map Some vs))"

interpretation versym: struct_array u16_codec
  by unfold_locales (rule codecs_ok)

lemma ed_ok_count: "ed_ok c f ed es \<Longrightarrow> unat (ed_count ed) = length es"
  by (simp add: ed_ok_def)

lemma ed_ok_get: "ed_ok c f ed es \<Longrightarrow> i < length es \<Longrightarrow> ed_get c f ed i = Some (es ! i)"
  by (simp add: ed_ok_def)

lemma set_swapped: "i < length xs \<Longrightarrow> j < length xs \<Longrightarrow> set (swapped xs i j) = set xs"
  by (simp add: swapped_def)

lemma element_in_window: "i < unat (ed_count ed) \<Longrightarrow> ed_at ed + i * c_size c + c_size c \<le> ed_at ed + unat (ed_count ed) * c_size c"
proof -
  assume "i < unat (ed_count ed)"
  then have "Suc i * c_size c \<le> unat (ed_count ed) * c_size c" by (intro mult_le_mono1) simp
  then show ?thesis by simp
qed

lemma ed_ok_frame:
  assumes ok: "ed_ok c f ed es" and same: "\<And>a. a \<in> window c ed \<Longrightarrow> f' a = f a"
  shows "ed_ok c f' ed es"
proof -
  have "ed_get c f' ed i = ed_get c f ed i" if "i < length es" for i
  proof (cases "ed_capacity ed = 0")
    case True
    have "mem_read f' (ed_at ed + i * c_size c) (c_size c) = mem_read f (ed_at ed + i * c_size c) (c_size c)"
      using that ok element_in_window [of i ed c] True by (intro mem_read_cong allI impI same) (auto simp: window_def ed_ok_def)
    then show ?thesis by (simp add: ed_get_def)
  qed (simp add: ed_get_def)
  then show ?thesis using ok by (simp add: ed_ok_def)
qed

context struct_array begin

lemma put_in_window:
  assumes ok: "ed_ok c f ed es" and i: "i < length es"
  shows "\<exists>f' ed'. ed_put c (f, ed) i e = Some (f', ed') \<and> ed_ok c f' ed' (es[i := e]) \<and> window c ed' = window c ed \<and>
    (\<forall>a. a \<notin> window c ed \<longrightarrow> f' a = f a)"
proof -
  obtain f' ed' where p: "ed_put c (f, ed) i e = Some (f', ed')" "ed_ok c f' ed' (es[i := e])"
    "ed_count ed' = ed_count ed" "ed_capacity ed' = ed_capacity ed" "ed_at ed' = ed_at ed" "ed_capacity ed \<noteq> 0 \<longrightarrow> f' = f"
    using put_ok [OF ok i] by blast
  have "f' a = f a" if "a \<notin> window c ed" for a
  proof (cases "ed_capacity ed = 0")
    case True
    then have "f' = mem_write f (ed_at ed + i * c_size c) (c_enc c e)"
      using p(1) by (auto simp: ed_put_def mem_store_def split: if_splits)
    then show ?thesis using that True i ok element_in_window [of i ed c]
      by (auto simp: window_def mem_write_apply ed_ok_def)
  qed (use p(6) in simp)
  then show ?thesis using p by (auto simp: window_def)
qed

lemma swap_ok:
  assumes ok: "ed_ok c f ed es" and ij: "i < length es" "j < length es"
  shows "\<exists>f1 ed1 f2 ed2. ed_put c (f, ed) i (es ! j) = Some (f1, ed1) \<and> ed_put c (f1, ed1) j (es ! i) = Some (f2, ed2) \<and>
    ed_ok c f2 ed2 (swapped es i j) \<and> window c ed2 = window c ed \<and> (\<forall>a. a \<notin> window c ed \<longrightarrow> f2 a = f a)"
proof -
  obtain f1 ed1 where ed1: "ed_put c (f, ed) i (es ! j) = Some (f1, ed1)" "ed_ok c f1 ed1 (es[i := es ! j])"
    "window c ed1 = window c ed" "\<forall>a. a \<notin> window c ed \<longrightarrow> f1 a = f a"
    using put_in_window [OF ok ij(1), of "es ! j"] by auto
  have "j < length (es[i := es ! j])" using ij by simp
  then obtain f2 ed2 where "ed_put c (f1, ed1) j (es ! i) = Some (f2, ed2)" "ed_ok c f2 ed2 (es[i := es ! j, j := es ! i])"
    "window c ed2 = window c ed1" "\<forall>a. a \<notin> window c ed1 \<longrightarrow> f2 a = f1 a"
    using put_in_window [OF ed1(2), of j "es ! i"] by auto
  then show ?thesis using ed1 by (auto simp: swapped_def)
qed

end

lemma take_swapped: "n \<le> length xs \<Longrightarrow> i < n \<Longrightarrow> j < n \<Longrightarrow> take n (swapped xs i j) = swapped (take n xs) i j"
  by (simp add: swapped_def take_update_swap)

lemma swap_syms_ok:
  assumes ok: "dsyms_are erw xs" and ij: "i < length xs" "j < length xs"
  shows "\<exists>erw'. swap_syms i j erw = Some erw' \<and> dsyms_are erw' (swapped xs i j) \<and> dsyms_window erw' = dsyms_window erw \<and>
    (\<forall>a. a \<notin> dsyms_window erw \<longrightarrow> e_f erw' a = e_f erw a)"
proof -
  let ?d = "e_dsyms erw" and ?f = "e_f erw"
  have syms: "ed_ok sym_codec ?f (sy_syms ?d) (map fst xs)"
    and info: "length xs \<le> length (sy_info ?d)" "take (length xs) (sy_info ?d) = map (fst \<circ> snd) xs"
    using ok by (simp_all add: dsyms_are_def)
  obtain f1 ed1 f2 ed2 where s: "ed_put sym_codec (?f, sy_syms ?d) i (fst (xs ! j)) = Some (f1, ed1)"
      "ed_put sym_codec (f1, ed1) j (fst (xs ! i)) = Some (f2, ed2)" "ed_ok sym_codec f2 ed2 (map fst (swapped xs i j))"
    and w: "window sym_codec ed2 = window sym_codec (sy_syms ?d)" "\<forall>a. a \<notin> window sym_codec (sy_syms ?d) \<longrightarrow> f2 a = ?f a"
    using sym.swap_ok [OF syms, of i j] ij by (auto simp: map_swapped)
  have get: "ed_get sym_codec ?f (sy_syms ?d) i = Some (fst (xs ! i))" "ed_get sym_codec ?f (sy_syms ?d) j = Some (fst (xs ! j))"
    using ed_ok_get [OF syms] ij by simp_all
  have info': "take (length xs) (swapped (sy_info ?d) i j) = map (fst \<circ> snd) (swapped xs i j)"
    using ij info by (simp add: take_swapped map_swapped)
  have iwi: "i < length (sy_info ?d)" "j < length (sy_info ?d)" using ij info(1) by simp_all
  show ?thesis
  proof (cases "sy_versions ?d")
    case None
    then have "\<forall>x \<in> set (swapped xs i j). snd (snd x) = None" using ok ij by (simp add: dsyms_are_def set_swapped)
    then show ?thesis
      using None s w get info info' ij iwi
      by (simp add: swap_syms_def sym_get_def sym_put_def rd_def dsyms_are_def dsyms_window_def swapped_def [symmetric])
  next
    case (Some ved)
    obtain vs where vs: "ed_ok u16_codec ?f ved vs" "map (snd \<circ> snd) xs = map Some vs"
      and apart: "window sym_codec (sy_syms ?d) \<inter> window u16_codec ved = {}"
      using ok Some by (auto simp: dsyms_are_def)
    have len: "length vs = length xs" using vs(2) by (metis length_map)
    have vs2: "ed_ok u16_codec f2 ved vs" by (rule ed_ok_frame [OF vs(1)]) (use w(2) apart in blast)
    obtain f3 ved1 f4 ved2 where v: "ed_put u16_codec (f2, ved) i (vs ! j) = Some (f3, ved1)"
        "ed_put u16_codec (f3, ved1) j (vs ! i) = Some (f4, ved2)" "ed_ok u16_codec f4 ved2 (swapped vs i j)"
        "window u16_codec ved2 = window u16_codec ved" "\<forall>a. a \<notin> window u16_codec ved \<longrightarrow> f4 a = f2 a"
      using versym.swap_ok [OF vs2, of i j] ij len by auto
    have vget: "ed_get u16_codec f2 ved i = Some (vs ! i)" "ed_get u16_codec f2 ved j = Some (vs ! j)"
      using ed_ok_get [OF vs2] ij len by simp_all
    have "ed_ok sym_codec f4 ed2 (map fst (swapped xs i j))"
      by (rule ed_ok_frame [OF s(3)]) (use v(5) w(1) apart in blast)
    moreover have "map (snd \<circ> snd) (swapped xs i j) = map Some (swapped vs i j)" using ij len vs(2) by (simp add: map_swapped)
    moreover have "swap_syms i j erw = Some (erw\<lparr>e_f := f4, e_dsyms := ?d\<lparr>sy_syms := ed2,
        sy_info := swapped (sy_info ?d) i j, sy_versions := Some ved2\<rparr>\<rparr>)"
      using Some s(1,2) get v(1,2) vget iwi
      by (simp add: swap_syms_def sym_get_def sym_put_def versym_get_def versym_put_def rd_def swapped_def)
    ultimately show ?thesis
      using Some v(3-5) w info info' apart by (auto simp: dsyms_are_def dsyms_window_def)
  qed
qed

text \<open>
  C23: Permuting the dynamic symbols ends whatever the permutation, and moves every symbol, together
  with what is known of it and its version, to the index the permutation gives. Symbols and versions
  that are still in the file are permuted in its bytes; no other byte of the file is written, and
  none at all when they are in blocks of their own.
\<close>

theorem dsyms_remap_correct:
  fixes erw :: "'a::len word erw"
  assumes "dsyms_are erw xs" and "length remap = length xs" and "permutation (map unat remap)"
  shows "\<exists>erw' ys. dsyms_remap erw remap = Some erw' \<and> dsyms_are erw' ys \<and> length ys = length xs \<and>
    (\<forall>k < length xs. ys ! unat (remap ! k) = xs ! k) \<and>
    (\<forall>a. a \<notin> dsyms_window erw \<longrightarrow> e_f erw' a = e_f erw a)"
proof -
  let ?R = "\<lambda>s xs. dsyms_are s xs \<and> dsyms_window s = dsyms_window erw \<and> (\<forall>a. a \<notin> dsyms_window erw \<longrightarrow> e_f s a = e_f erw a)"
  have n: "unat (sym_count erw) = length xs" using assms(1) ed_ok_count [of sym_codec "e_f erw" "sy_syms (e_dsyms erw)" "map fst xs"] by (simp add: dsyms_are_def sym_count_def)
  have "\<exists>s' ys. remap_loop swap_syms (length xs) 0 (map unat remap) erw = Some s' \<and> ?R s' ys \<and> length ys = length xs \<and>
      (\<forall>k < length xs. ys ! (map unat remap ! k) = xs ! k)"
  proof (rule remap_loop_ok)
    fix s :: "'a word erw" and zs :: "('a word sym \<times> sym_info \<times> u16 option) list" and i j
    assume "?R s zs" "length zs = length xs" "i < length xs" "j < length xs"
    then show "\<exists>s'. swap_syms i j s = Some s' \<and> ?R s' (swapped zs i j)" using swap_syms_ok [of s zs i j] by auto
  qed (use assms in simp_all)
  then show ?thesis using assms(2) by (auto simp: dsyms_remap_def n)
qed

text \<open>Three symbols with versions, both still in the file.\<close>

definition a_sym :: "u32 \<Rightarrow> 64 word sym" where
  "a_sym name = \<lparr>st_name = name, st_info = 0x12, st_other = 0, st_shndx = 0, st_value = 0, st_size = 0\<rparr>"

definition a_info :: "u32 \<Rightarrow> sym_info" where
  "a_info d = \<lparr>si_flags = 0, si_hash_distance = d\<rparr>"

definition in_file :: "nat \<Rightarrow> 'e list \<Rightarrow> 'e editor" where
  "in_file at es = \<lparr>ed_live = True, ed_at = at, ed_heap = [], ed_count = of_nat (length es), ed_capacity = 0\<rparr>"

definition three_syms :: "64 word sym list" where
  "three_syms = [a_sym 0, a_sym 1, a_sym 9]"

definition three_versions :: "u16 list" where
  "three_versions = [0, 1, 2]"

definition erw_three_syms :: "64 word erw" where
  "erw_three_syms = erw_zero\<lparr>
     e_f := mem_write (mem_write Map.empty 0x100 (concat (map (c_enc sym_codec) three_syms))) 0x300 (concat (map (c_enc u16_codec) three_versions)),
     e_dsyms := (e_dsyms erw_zero)\<lparr>sy_syms := in_file 0x100 three_syms,
       sy_versions := Some (in_file 0x300 three_versions), sy_info := [a_info 0, a_info 5, a_info 7]\<rparr>\<rparr>"

context struct_array begin

lemma length_array: "length (concat (map (c_enc c) es)) = length es * c_size c"
  by (induction es) simp_all

lemma array_in_file:
  assumes "ed_capacity ed = 0" "unat (ed_count ed) = length es"
  shows "ed_ok c (mem_write f (ed_at ed) (concat (map (c_enc c) es))) ed es"
proof -
  let ?m = "mem_write f (ed_at ed) (concat (map (c_enc c) es))"
  have "mem_read ?m (ed_at ed + i * c_size c) (c_size c) = Some (c_enc c (es ! i))" if "i < length es" for i
  proof -
    have "concat (map (c_enc c) es) = concat (map (c_enc c) (take i es)) @ c_enc c (es ! i) @ concat (map (c_enc c) (drop (Suc i) es))"
      by (subst id_take_nth_drop [OF that]) simp
    then have "holds ?m (ed_at ed) (concat (map (c_enc c) (take i es)) @ c_enc c (es ! i) @ concat (map (c_enc c) (drop (Suc i) es)))"
      using holds_write_same by metis
    then have "holds ?m (ed_at ed + i * c_size c) (c_enc c (es ! i))"
      using that by (simp add: holds_append length_array min_def)
    then show ?thesis using mem_read_holds by fastforce
  qed
  then show ?thesis using assms by (simp add: ed_ok_def ed_get_def)
qed

end

lemma three_syms_are:
  "dsyms_are erw_three_syms [(a_sym 0, a_info 0, Some 0), (a_sym 1, a_info 5, Some 1), (a_sym 9, a_info 7, Some 2)]"
proof -
  have sz: "c_size (sym_codec :: 64 word sym codec) = 24" "c_size u16_codec = 2" by (simp_all add: sym_codec_def u16_codec_def)
  have w: "window sym_codec (in_file 0x100 three_syms) = {0x100 ..< 0x148}" "window u16_codec (in_file 0x300 three_versions) = {0x300 ..< 0x306}"
    by (simp_all add: window_def in_file_def three_syms_def three_versions_def sz)
  let ?f = "mem_write Map.empty 0x100 (concat (map (c_enc sym_codec) three_syms)) :: mem"
  have "ed_ok sym_codec ?f (in_file 0x100 three_syms) three_syms"
    using sym.array_in_file [of "in_file 0x100 three_syms" three_syms Map.empty] by (simp add: in_file_def three_syms_def)
  then have "ed_ok sym_codec (e_f erw_three_syms) (in_file 0x100 three_syms) three_syms"
    by (rule ed_ok_frame) (simp add: w erw_three_syms_def mem_write_below)
  moreover have "ed_ok u16_codec (e_f erw_three_syms) (in_file 0x300 three_versions) three_versions"
    using versym.array_in_file [of "in_file 0x300 three_versions" three_versions ?f]
    by (simp add: erw_three_syms_def in_file_def three_versions_def)
  ultimately show ?thesis
    using w by (auto simp: dsyms_are_def erw_three_syms_def three_syms_def three_versions_def intro!: exI [of _ "[0, 1, 2]"])
qed

theorem dsyms_remap_witness:
  "\<exists>erw' ys. dsyms_remap erw_three_syms [1, 2, 0] = Some erw' \<and> dsyms_are erw' ys \<and> length ys = 3 \<and>
    ys ! 1 = (a_sym 0, a_info 0, Some 0) \<and> ys ! 2 = (a_sym 1, a_info 5, Some 1) \<and> ys ! 0 = (a_sym 9, a_info 7, Some 2) \<and>
    e_f erw' 0x200 = None"
proof -
  let ?xs = "[(a_sym 0, a_info 0, Some 0), (a_sym 1, a_info 5, Some 1), (a_sym 9, a_info 7, Some 2)]"
  have "permutation (map unat [1, 2, 0 :: u32])" by (auto simp: permutation_def)
  then obtain erw' ys where r: "dsyms_remap erw_three_syms [1, 2, 0] = Some erw'" "dsyms_are erw' ys" "length ys = length ?xs"
      "\<forall>k < length ?xs. ys ! unat ([1, 2, 0 :: u32] ! k) = ?xs ! k"
      "\<forall>a. a \<notin> dsyms_window erw_three_syms \<longrightarrow> e_f erw' a = e_f erw_three_syms a"
    using dsyms_remap_correct [of erw_three_syms ?xs "[1, 2, 0]"] three_syms_are by auto
  have sz: "c_size (sym_codec :: 64 word sym codec) = 24" "c_size u16_codec = 2" by (simp_all add: sym_codec_def u16_codec_def)
  have l: "length (concat (map (c_enc sym_codec) three_syms)) = 72"
    by (simp add: sym.length_array sz three_syms_def del: length_concat)
  have "0x200 \<notin> dsyms_window erw_three_syms"
    by (simp add: dsyms_window_def erw_three_syms_def window_def in_file_def three_syms_def three_versions_def sz)
  moreover have "e_f erw_three_syms 0x200 = None"
    using l by (simp add: erw_three_syms_def mem_write_apply del: length_concat)
  ultimately show ?thesis using r by (auto simp: All_less_Suc2 numeral_3_eq_3 less_Suc_eq)
qed

end
