(* ===== verification/Flush.thy ===== *)
theory Flush
  imports DsymFlush Layout
begin

section \<open>erw_nne.h, erw.c: writing the edits back, and starting again\<close>

text \<open>
  \<open>erw_flush\<close> writes every modified part. When a part did not get room, nothing of it is
  final: \<open>erw_retry\<close> lays out the space that was asked for, forgets all the editors but the one
  of the program headers, restores the bytes of the file, and the caller makes its edits again.
\<close>

subsection \<open>The program headers\<close>

definition wants_v :: "'w erw \<Rightarrow> bool" where
  "wants_v erw \<longleftrightarrow> bs_category_mask (e_alloc erw) AND NOT 1 \<noteq> 0"

text \<open>The headers go to \<open>f\<close>, and are edited there from now on.\<close>

definition phdrs_store :: "'a::len word erw \<Rightarrow> nat \<Rightarrow> 'a word erw option" where
  "phdrs_store erw f = do {
     ps \<leftarrow> phdr_list erw;
     m \<leftarrow> mem_store (e_f erw) f (concat (map (c_enc phdr_codec) ps));
     Some (erw\<lparr>e_f := m, e_phdrs := (e_phdrs erw)\<lparr>ed_at := f, ed_heap := [], ed_capacity := 0\<rparr>\<rparr>) }"

definition phdrs_overwrite :: "'a::len word erw \<Rightarrow> 'a word erw option" where
  "phdrs_overwrite erw = do {
     h \<leftarrow> file_ehdr erw;
     let dst = unat (esw (e_bswap erw) (ucast (e_phoff h) :: u64));
     let n = phdr_count erw;
     erw \<leftarrow> phdrs_store erw dst;
     m \<leftarrow> mem_store (e_f erw) (dst + n * phdr_size TYPE('a))
            (replicate ((length (o_phdrs (e_original erw)) - n) * phdr_size TYPE('a)) 0);
     Some (erw\<lparr>e_f := m\<rparr>) }"

text \<open>The first pass asks for the headers of the new segments as well.\<close>

definition phdrs_first_request :: "'a::len word erw \<Rightarrow> 'a word erw" where
  "phdrs_first_request erw =
    (if e_f_size erw = o_f_size (e_original erw)
     then fst (erw_alloc erw erw_alloc_category_v_r (of_nat (word_size TYPE('a)))
       (ucast (extra_phdrs_required_for_category_mask (bs_category_mask (e_alloc erw))) * of_nat (phdr_size TYPE('a))))
     else erw)"

text \<open>\<open>ldconfig\<close> before 2.31 finds \<open>DT_SONAME\<close> only through the first \<open>PT_LOAD\<close>.\<close>

definition soname_workaround :: "'a::len word erw \<Rightarrow> u64 \<Rightarrow> 'a word erw option" where
  "soname_workaround erw delta =
    (if e_modified erw AND ERW_MODIFIED_DYNSTR \<noteq> 0 then Some erw
     else do {
       erw \<leftarrow> dhdrs_ready erw;
       soname \<leftarrow> dhdrs_has erw DT_SONAME;
       if soname = None then Some erw
       else do {
         strtab \<leftarrow> dhdrs_has erw DT_STRTAB;
         case strtab of
           Some strtab \<Rightarrow> if v2f_at (e_v2f erw) strtab \<noteq> delta
             then Some ((set_modified ERW_MODIFIED_DYNSTR erw)\<lparr>e_retry := True\<rparr>) else Some erw
         | None \<Rightarrow> Some erw } })"

definition set_phdr_place :: "'a::len word erw \<Rightarrow> u64 \<Rightarrow> 'a word erw option" where
  "set_phdr_place erw f = do {
     h \<leftarrow> file_ehdr erw;
     let bs = e_bswap erw;
     let count = ed_count (e_phdrs erw);
     let h = h\<lparr>e_phoff := esw bs (ucast f)\<rparr>;
     if count < 0xffff then set_file_ehdr erw (h\<lparr>e_phnum := esw bs (ucast count)\<rparr>)
     else do {
       erw \<leftarrow> set_file_ehdr erw (h\<lparr>e_phnum := 0xffff\<rparr>);
       let a = unat (esw bs (e_shoff h));
       s \<leftarrow> get_at (shdr_codec :: 'a word shdr codec) (e_f erw) a;
       put_at shdr_codec erw a (s\<lparr>sh_info := esw bs count\<rparr>) } }"

definition fix_pt_phdr :: "u64 \<Rightarrow> u64 \<Rightarrow> u64 \<Rightarrow> nat \<Rightarrow> 'a::len word erw \<Rightarrow> 'a word erw option" where
  "fix_pt_phdr v f nb i erw = do {
     itr \<leftarrow> phdr_get erw i;
     let bs = e_bswap erw;
     if esw bs (p_type itr) = PT_PHDR
     then phdr_put erw i (itr\<lparr>p_offset := esw bs (ucast f), p_vaddr := esw bs (ucast v), p_paddr := esw bs (ucast v),
       p_filesz := esw bs (ucast nb), p_memsz := esw bs (ucast nb), p_flags := esw bs PF_R,
       p_align := esw bs (of_nat (word_size TYPE('a)))\<rparr>)
     else Some erw }"

definition phdrs_flush :: "'a::len word erw \<Rightarrow> 'a word erw option" where
  "phdrs_flush erw =
    (let align = of_nat (word_size TYPE('a)); sz = of_nat (phdr_size TYPE('a)); nb = (of_nat (phdr_count erw) * sz :: u64)
     in if phdr_count erw \<le> length (o_phdrs (e_original erw)) \<and> \<not> wants_v erw then phdrs_overwrite erw
        else let (erw, v) = erw_alloc erw erw_alloc_category_v_r align nb
             in if v = 0 then Some (phdrs_first_request erw)
                else do {
                  let delta = v2f_at (e_v2f erw) v;
                  let f = v + delta;
                  (erw, added) \<leftarrow> phdrs_bug_workaround erw (ucast delta);
                  let nb = (if added then nb + sz else nb);
                  let erw = (if added then fst (erw_alloc erw erw_alloc_category_v_r align sz) else erw);
                  erw \<leftarrow> soname_workaround erw delta;
                  if e_retry erw then Some erw
                  else do {
                    erw \<leftarrow> phdrs_store erw (unat f);
                    erw \<leftarrow> set_phdr_place erw f;
                    each (fix_pt_phdr v f nb) [0..<phdr_count erw] erw } })"

subsection \<open>Starting again\<close>

text \<open>A freed block reads as undefined.\<close>

definition free_block :: "'e editor \<Rightarrow> 'e editor" where
  "free_block ed = (if ed_capacity ed \<noteq> 0 then ed\<lparr>ed_heap := []\<rparr> else ed)"

fun free_relocs :: "reloc_editor list \<Rightarrow> reloc_editor list" where
  "free_relocs [] = []"
| "free_relocs (rl # rls) =
    (if \<not> rl_live rl then rl # rls
     else rl\<lparr>rl_live := False, rl_heap := (if rl_capacity rl \<noteq> 0 then Map.empty else rl_heap rl)\<rparr> # free_relocs rls)"

definition free_editors_common :: "'w erw \<Rightarrow> 'w erw" where
  "free_editors_common erw =
    (let dh = e_dhdrs erw; ds = e_dynstr erw; dy = e_dsyms erw; ve = e_vers erw
     in erw\<lparr>e_dhdrs := (if ed_live dh then (free_block dh)\<lparr>ed_live := False\<rparr> else dh),
            e_dynstr := (if ds_state ds = dynstr_edit_state_encode_building_new
                         then ds\<lparr>ds_state := dynstr_edit_state_read_only\<rparr> else ds),
            e_dsyms := (if ed_live (sy_syms dy)
                        then dy\<lparr>sy_syms := (free_block (sy_syms dy))\<lparr>ed_live := False\<rparr>,
                                sy_versions := (if ed_capacity (sy_syms dy) \<noteq> 0 then map_option (\<lambda>ed. ed\<lparr>ed_heap := []\<rparr>) (sy_versions dy)
                                                else sy_versions dy),
                                sy_info := []\<rparr>
                        else dy),
            e_vers := (if ve_base ve \<noteq> [] then ve\<lparr>ve_base := [], ve_def := [], ve_need := []\<rparr> else ve),
            e_relocs := free_relocs (e_relocs erw)\<rparr>)"

text \<open>
  The bytes of the original file again, whether mapped anew, copied or read, and zeros up to the
  new size. Failing to read the file again is fatal to the program, and not modelled.
\<close>

definition erw_reinit_f :: "'w erw \<Rightarrow> 'w erw" where
  "erw_reinit_f erw = erw\<lparr>e_f := (\<lambda>a. if a < unat (o_f_size (e_original erw)) then o_mem (e_original erw) a
     else if a < unat (e_f_size erw) then Some 0 else None)\<rparr>"

definition executable_load :: "bool \<Rightarrow> u64 \<Rightarrow> 'a::len word phdr \<Rightarrow> bool" where
  "executable_load bs f_size p \<longleftrightarrow> \<not> (ucast (esw bs (p_offset p)) < f_size \<or> esw bs (p_flags p) AND PF_X = 0)"

definition fill_code :: "'a::len word erw \<Rightarrow> 'a word erw option" where
  "fill_code erw =
    (if bs_category_mask (e_alloc erw) AND push_bit (category_rank erw_alloc_category_v_rx) 1 \<noteq> 0 \<and>
        e_machine erw \<in> {EM_386, EM_X86_64}
     then do {
       ps \<leftarrow> phdr_list erw;
       ld \<leftarrow> find (executable_load (e_bswap erw) (o_f_size (e_original erw))) ps;
       m \<leftarrow> mem_store (e_f erw) (unat (esw (e_bswap erw) (p_offset ld))) (replicate (unat (esw (e_bswap erw) (p_filesz ld))) 0xCC);
       Some (erw\<lparr>e_f := m\<rparr>) }
     else Some erw)"

text \<open>The string table is opened for editing at once, so that all old strings are found.\<close>

definition dynstr_reopen :: "'a::len word erw \<Rightarrow> 'a word erw option" where
  "dynstr_reopen erw =
    (let state = ds_state (e_dynstr erw)
     in do {
       erw \<leftarrow> (if state = dynstr_edit_state_uninit then erw_dynstr_init erw else Some erw);
       erw \<leftarrow> (if state \<in> {dynstr_edit_state_uninit, dynstr_edit_state_read_only} then erw_dynstr_build_table erw else Some erw);
       if state \<noteq> dynstr_edit_state_encode_building_new then erw_dynstr_start_building_new erw else Some erw })"

definition retry :: "'a::len word erw \<Rightarrow> 'a word erw option" where
  "retry erw = do {
     (buckets, l, phdrs) \<leftarrow> retry_headers erw;
     erw \<leftarrow> v2f_init (erw\<lparr>e_alloc := buckets, e_phdrs := phdrs, e_f_size := l_f l, e_v2f := v2f_map_init (e_v2f erw) V2F_UNMAPPED\<rparr>);
     let erw = (free_editors_common erw)\<lparr>e_retry := False\<rparr>;
     erw \<leftarrow> fill_code (erw_reinit_f erw);
     if e_modified erw AND ERW_MODIFIED_DYNSTR \<noteq> 0 then dynstr_reopen erw else Some erw }"

subsection \<open>The whole of it\<close>

definition flush_dhdrs :: "'a::len word erw \<Rightarrow> 'a word erw option" where
  "flush_dhdrs erw = do {
     erw \<leftarrow> (if ed_capacity (e_dhdrs erw) \<noteq> 0 then dhdrs_ensure_minimal erw else Some erw);
     erw \<leftarrow> dhdrs_fixup_nulls erw;
     if ed_capacity (e_dhdrs erw) \<noteq> 0 then dhdrs_flush erw else Some erw }"

definition when_modified :: "u32 \<Rightarrow> ('w erw \<Rightarrow> 'w erw option) \<Rightarrow> 'w erw \<Rightarrow> 'w erw option" where
  "when_modified bits g erw = (if e_modified erw AND bits \<noteq> 0 then g erw else Some erw)"

definition flush_parts :: "'a::len word erw \<Rightarrow> 'a word erw option" where
  "flush_parts erw = do {
     erw \<leftarrow> when_modified (ERW_MODIFIED_VERDEF OR ERW_MODIFIED_VERNEED) vers_flush erw;
     erw \<leftarrow> when_modified ERW_MODIFIED_DSYMS dsyms_flush erw;
     erw \<leftarrow> when_modified ERW_MODIFIED_DYNSTR dynstr_flush erw;
     erw \<leftarrow> when_modified ERW_MODIFIED_RELOCS relocs_flush erw;
     erw \<leftarrow> when_modified ERW_MODIFIED_DHDRS flush_dhdrs erw;
     if ed_capacity (e_phdrs erw) \<noteq> 0 \<or> wants_v erw then phdrs_flush erw else Some erw }"

definition erw_flush :: "'a::len word erw \<Rightarrow> ('a word erw \<times> bool) option" where
  "erw_flush erw = do {
     erw \<leftarrow> flush_parts erw;
     if e_retry erw then map_option (\<lambda>erw. (erw, False)) (retry erw)
     else map_option (\<lambda>erw. (erw, True)) (when_modified ERW_MODIFIED_SHDRS shdr_fixup_section_symbols erw) }"

end
