(* ===== verification/FlushOps.thy ===== *)
theory FlushOps
  imports Flush LayoutCorrect
begin

section \<open>A retry starts again from the original file\<close>

text \<open>The editors of a state that has just been opened, or that starts again.\<close>

definition editors_closed :: "'w erw \<Rightarrow> bool" where
  "editors_closed erw \<longleftrightarrow> \<not> ed_live (e_dhdrs erw) \<and> \<not> ed_live (sy_syms (e_dsyms erw)) \<and> ve_base (e_vers erw) = [] \<and>
     (e_relocs erw \<noteq> [] \<longrightarrow> \<not> rl_live (hd (e_relocs erw))) \<and>
     ds_state (e_dynstr erw) \<noteq> dynstr_edit_state_encode_building_new"

lemma free_editors_closed: "editors_closed (free_editors_common erw)"
proof -
  have "e_relocs (free_editors_common erw) = free_relocs (e_relocs erw)" by (simp add: free_editors_common_def Let_def)
  moreover have "free_relocs rls \<noteq> [] \<longrightarrow> \<not> rl_live (hd (free_relocs rls))" for rls by (cases rls) auto
  ultimately show ?thesis by (auto simp: editors_closed_def free_editors_common_def Let_def)
qed

lemma free_editors_keeps [simp]:
  "e_f (free_editors_common erw) = e_f erw" "e_f_size (free_editors_common erw) = e_f_size erw"
  "e_phdrs (free_editors_common erw) = e_phdrs erw" "e_alloc (free_editors_common erw) = e_alloc erw"
  "e_modified (free_editors_common erw) = e_modified erw" "e_original (free_editors_common erw) = e_original erw"
  "e_machine (free_editors_common erw) = e_machine erw" "e_bswap (free_editors_common erw) = e_bswap erw"
  "e_v2f (free_editors_common erw) = e_v2f erw"
  by (simp_all add: free_editors_common_def Let_def)

lemma new_phdrs_ok:
  assumes ed: "ed_ok phdr_codec f ed ps0" and room: "length ps \<le> unat cap"
  shows "\<exists>ed'. new_phdrs ed cap ps = Some ed' \<and> ed_ok phdr_codec f' ed' ps \<and> ed_live ed'"
proof -
  define ed1 where "ed1 = (if ed_capacity ed < cap
    then ed\<lparr>ed_heap := replicate (unat cap) None, ed_capacity := cap\<rparr> else ed)"
  have ps: "length ps < 2 ^ 32" using room unsigned_less [of cap, where 'a = nat] by simp
  have u: "unat (of_nat (length ps) :: u32) = length ps" using ps by (simp add: unsigned_of_nat take_bit_nat_eq_self)
  have cap: "cap \<le> ed_capacity ed1" by (auto simp: ed1_def not_less)
  show ?thesis
  proof (cases "ed_capacity ed1 = 0")
    case True
    then have "ps = []" using room cap by simp
    then show ?thesis using True unfolding new_phdrs_def ed1_def [symmetric] Let_def by (simp add: ed_ok_def)
  next
    case False
    then have heap: "length (ed_heap ed1) = unat (ed_capacity ed1)" using ed by (auto simp: ed1_def ed_ok_def)
    then have le: "length ps \<le> length (ed_heap ed1)" using room cap by (simp add: word_le_nat_alt)
    have "ed_ok phdr_codec f' (ed1\<lparr>ed_live := True, ed_heap := map Some ps @ drop (length ps) (ed_heap ed1), ed_count := of_nat (length ps)\<rparr>) ps"
      using False heap le u by (auto simp: ed_ok_def ed_get_def rd_def nth_append word_le_nat_alt)
    then show ?thesis using le unfolding new_phdrs_def ed1_def [symmetric] Let_def by simp
  qed
qed

definition fills_code :: "'w erw \<Rightarrow> bool" where
  "fills_code erw \<longleftrightarrow> e_machine erw \<in> {EM_386, EM_X86_64} \<and> bit (bs_category_mask (e_alloc erw)) (category_rank erw_alloc_category_v_rx)"

text \<open>The first program header that is executable and not in the original file.\<close>

definition first_new_code :: "'a::len word erw \<Rightarrow> 'a word phdr list \<Rightarrow> nat \<Rightarrow> bool" where
  "first_new_code erw ps i \<longleftrightarrow>
     (let new_code = (\<lambda>p. unat (o_f_size (e_original erw)) \<le> unat (p_offset p) \<and> p_flags p AND PF_X \<noteq> 0)
      in i < length ps \<and> new_code (ps ! i) \<and> (\<forall>j < i. \<not> new_code (ps ! j)))"

definition fill_range :: "nat \<Rightarrow> nat \<Rightarrow> u8 \<Rightarrow> mem \<Rightarrow> mem" where
  "fill_range a n b m = (\<lambda>i. if a \<le> i \<and> i < a + n then Some b else m i)"

lemma extra_small: "unat (extra_phdrs_required_for_category_mask m) \<le> 4"
  by (simp add: extra_phdrs_required_for_category_mask_def Let_def)

lemma retry_capacity_room:
  assumes "\<not> e_bswap erw" "mask_ok (e_alloc erw)" "length (o_phdrs (e_original erw)) < 2 ^ 31" "retry_layout erw = (buckets, l)"
  shows "length (l_phdrs l) \<le> unat (retry_capacity erw)"
proof -
  let ?x = "extra_phdrs_required_for_category_mask (bs_category_mask (e_alloc erw))"
  have "(2 :: nat) ^ 31 + 4 < 2 ^ 32" by simp
  then have "length (o_phdrs (e_original erw)) + unat ?x < 2 ^ 32"
    using assms(3) extra_small [of "bs_category_mask (e_alloc erw)"] by linarith
  then have "unat (retry_capacity erw) = length (o_phdrs (e_original erw)) + unat ?x"
    by (simp add: retry_capacity_def unat_word_ariths unsigned_of_nat take_bit_nat_eq_self)
  then show ?thesis using retry_layout_room [OF assms(1,2,4)] by simp
qed

lemma mem_store_fill:
  assumes "\<And>i. a \<le> i \<Longrightarrow> i < a + n \<Longrightarrow> m i \<noteq> None"
  shows "mem_store m a (replicate n b) = Some (fill_range a n b m)"
proof -
  have "holds m a (map (\<lambda>i. the (m (a + i))) [0..<n])" using assms by (auto simp: holds_def)
  then have "mem_read m a n = Some (map (\<lambda>i. the (m (a + i))) [0..<n])" by (simp add: mem_read_eq_iff)
  then show ?thesis by (auto simp: mem_store_def fill_range_def mem_write_apply fun_eq_iff)
qed

lemma fill_code_cases:
  fixes erw :: "'a::len word erw"
  assumes w: "width_ok TYPE('a)" and bs: "\<not> e_bswap erw" and ps: "phdrs_are erw ps"
  shows "\<not> fills_code erw \<Longrightarrow> fill_code erw = Some erw"
    and "fills_code erw \<Longrightarrow> first_new_code erw ps i \<Longrightarrow>
      (\<And>a. a < seg_end_f False (ps ! i) \<Longrightarrow> e_f erw a \<noteq> None) \<Longrightarrow>
      fill_code erw = Some (erw\<lparr>e_f := fill_range (unat (p_offset (ps ! i))) (unat (p_filesz (ps ! i))) 0xCC (e_f erw)\<rparr>)"
proof -
  have r: "category_rank erw_alloc_category_v_rx < 32" using category_rank_less [of erw_alloc_category_v_rx] by simp
  have c: "(bs_category_mask (e_alloc erw) AND push_bit (category_rank erw_alloc_category_v_rx) 1 \<noteq> 0 \<and>
      e_machine erw \<in> {EM_386, EM_X86_64}) = fills_code erw"
    unfolding fills_code_def and_bit_iff [OF r] by blast
  show "fill_code erw = Some erw" if "\<not> fills_code erw"
    unfolding fill_code_def c using that by simp
  show "fill_code erw = Some (erw\<lparr>e_f := fill_range (unat (p_offset (ps ! i))) (unat (p_filesz (ps ! i))) 0xCC (e_f erw)\<rparr>)"
    if f: "fills_code erw" "first_new_code erw ps i" and b: "\<And>a. a < seg_end_f False (ps ! i) \<Longrightarrow> e_f erw a \<noteq> None"
  proof -
    have e: "executable_load False (o_f_size (e_original erw)) p \<longleftrightarrow>
        unat (o_f_size (e_original erw)) \<le> unat (p_offset p) \<and> p_flags p AND PF_X \<noteq> 0" for p :: "'a word phdr"
      using w by (auto simp: executable_load_def esw_def word_less_nat_alt unat_ucast_up not_less)
    have "find (executable_load False (o_f_size (e_original erw))) ps = Some (ps ! i)"
      using f(2) unfolding find_Some_iff e by (auto simp: first_new_code_def Let_def)
    moreover have "mem_store (e_f erw) (unat (p_offset (ps ! i))) (replicate (unat (p_filesz (ps ! i))) 0xCC) =
        Some (fill_range (unat (p_offset (ps ! i))) (unat (p_filesz (ps ! i))) 0xCC (e_f erw))"
      using b by (intro mem_store_fill) (simp add: seg_end_f_def esw_def)
    ultimately show ?thesis unfolding fill_code_def c using f(1) bs phdr_list_ok [OF ps] by (simp add: esw_def)
  qed
qed

lemma start_building_state:
  "erw_dynstr_start_building_new erw = Some erw' \<Longrightarrow> ds_state (e_dynstr erw') = dynstr_edit_state_encode_building_new"
  unfolding erw_dynstr_start_building_new_def by (auto simp: set_modified_def Let_def bind_eq_Some_conv)

lemma dynstr_reopen_state:
  assumes "dynstr_reopen erw = Some erw'" "ds_state (e_dynstr erw) \<noteq> dynstr_edit_state_encode_building_new"
  shows "ds_state (e_dynstr erw') = dynstr_edit_state_encode_building_new"
  using assms start_building_state unfolding dynstr_reopen_def Let_def by (auto simp: bind_eq_Some_conv)

text \<open>
  C24: In native byte order a retry first makes a state \<open>r\<close> that starts again: its editor has the
  original program headers and those of the new segments, in the block that was allocated for
  them; every other editor is closed; the allocator has the buckets that were laid out; the bytes
  are those of the original file, and zeros up to the size of the layout. Then, on x86 when there
  is a bucket of code, the first new executable segment is filled with \<open>0xCC\<close>, behind the original
  file, provided it ends in the file. Last, when strings were modified, the string table is opened
  again, along with the editors of what refers to it, and is left building new strings.
\<close>

theorem retry_restarts:
  fixes erw :: "'a::len word erw"
  assumes "width_ok TYPE('a)" and "\<not> e_bswap erw" and mask: "mask_ok (e_alloc erw)" and phdrs: "phdrs_are erw ps"
    and few: "length (o_phdrs (e_original erw)) < 2 ^ 31" and lay: "retry_layout erw = (buckets, l)"
  shows "\<exists>r. retry erw = do {
        r' \<leftarrow> fill_code r;
        if e_modified r' AND ERW_MODIFIED_DYNSTR \<noteq> 0 then dynstr_reopen r' else Some r' } \<and>
    (\<forall>f. phdrs_are (r\<lparr>e_f := f\<rparr>) (l_phdrs l)) \<and> editors_closed r \<and> \<not> e_retry r \<and>
    e_alloc r = buckets \<and> e_f_size r = l_f l \<and> e_modified r = e_modified erw \<and>
    (\<forall>a. e_f r a = (if a < unat (o_f_size (e_original erw)) then o_mem (e_original erw) a
                        else if a < unat (l_f l) then Some 0 else None)) \<and>
    (\<not> fills_code erw \<longrightarrow> fill_code r = Some r) \<and>
    (\<forall>i. let off = unat (p_offset (l_phdrs l ! i)); n = unat (p_filesz (l_phdrs l ! i)) in
       fills_code erw \<and> first_new_code erw (l_phdrs l) i \<and> off + n \<le> unat (l_f l) \<and>
       (\<forall>a < unat (o_f_size (e_original erw)). o_mem (e_original erw) a \<noteq> None) \<longrightarrow>
       unat (o_f_size (e_original erw)) \<le> off \<and> fill_code r = Some (r\<lparr>e_f := fill_range off n 0xCC (e_f r)\<rparr>)) \<and>
    (\<forall>r'. retry erw = Some r' \<and> e_modified erw AND ERW_MODIFIED_DYNSTR \<noteq> 0 \<longrightarrow>
       ds_state (e_dynstr r') = dynstr_edit_state_encode_building_new)"
proof -
  obtain ed where ed: "new_phdrs (e_phdrs erw) (retry_capacity erw) (l_phdrs l) = Some ed" "\<And>f. ed_ok phdr_codec f ed (l_phdrs l)"
    using new_phdrs_ok [OF phdrs [unfolded phdrs_are_def] retry_capacity_room [OF assms(2) mask few lay]] by (metis option.inject)
  let ?e = "erw\<lparr>e_alloc := buckets, e_phdrs := ed, e_f_size := l_f l, e_v2f := v2f_map_init (e_v2f erw) V2F_UNMAPPED\<rparr>"
  have "phdrs_are ?e (l_phdrs l)" using ed(2) by (simp add: phdrs_are_def)
  then obtain m where v2f: "v2f_init ?e = Some (?e\<lparr>e_v2f := m\<rparr>)" by (auto simp: v2f_init_def phdr_list_ok)
  define r where "r = erw_reinit_f ((free_editors_common (?e\<lparr>e_v2f := m\<rparr>))\<lparr>e_retry := False\<rparr>)"
  have mask_same: "bs_category_mask buckets = bs_category_mask (e_alloc erw)"
    using lay by (auto simp: retry_layout_def Let_def split: prod.splits)
  have keeps: "e_alloc r = buckets" "e_f_size r = l_f l" "e_modified r = e_modified erw" "e_bswap r = e_bswap erw"
    "e_machine r = e_machine erw" "e_original r = e_original erw" "\<not> e_retry r"
    by (simp_all add: r_def erw_reinit_f_def)
  have fills: "fills_code r = fills_code erw" by (simp add: fills_code_def keeps mask_same)
  have r: "retry erw = do {
        r' \<leftarrow> fill_code r;
        if e_modified r' AND ERW_MODIFIED_DYNSTR \<noteq> 0 then dynstr_reopen r' else Some r' }"
    using lay ed(1) v2f unfolding retry_def retry_headers_def by (simp add: r_def Let_def)
  moreover have closed: "editors_closed r"
    using free_editors_closed [of "?e\<lparr>e_v2f := m\<rparr>"] by (simp add: editors_closed_def r_def erw_reinit_f_def)
  moreover have ps_any: "phdrs_are (r\<lparr>e_f := f\<rparr>) (l_phdrs l)" for f
    using ed(2) by (simp add: phdrs_are_def r_def erw_reinit_f_def)
  moreover have ps: "phdrs_are r (l_phdrs l)" using ps_any [of "e_f r"] by simp
  moreover have mem: "e_f r a = (if a < unat (o_f_size (e_original erw)) then o_mem (e_original erw) a
                        else if a < unat (l_f l) then Some 0 else None)" for a
    by (simp add: r_def erw_reinit_f_def)
  moreover note keeps
  moreover have "\<not> fills_code erw \<longrightarrow> fill_code r = Some r"
    using fill_code_cases(1) [OF assms(1) _ ps] assms(2) keeps fills by simp
  moreover have "\<forall>i. let off = unat (p_offset (l_phdrs l ! i)); n = unat (p_filesz (l_phdrs l ! i)) in
       fills_code erw \<and> first_new_code erw (l_phdrs l) i \<and> off + n \<le> unat (l_f l) \<and>
       (\<forall>a < unat (o_f_size (e_original erw)). o_mem (e_original erw) a \<noteq> None) \<longrightarrow>
       unat (o_f_size (e_original erw)) \<le> off \<and> fill_code r = Some (r\<lparr>e_f := fill_range off n 0xCC (e_f r)\<rparr>)"
    unfolding Let_def
  proof (intro allI impI)
    fix i
    assume h: "fills_code erw \<and> first_new_code erw (l_phdrs l) i \<and>
       unat (p_offset (l_phdrs l ! i)) + unat (p_filesz (l_phdrs l ! i)) \<le> unat (l_f l) \<and>
       (\<forall>a < unat (o_f_size (e_original erw)). o_mem (e_original erw) a \<noteq> None)"
    then have "e_f r a \<noteq> None" if "a < seg_end_f False (l_phdrs l ! i)" for a
      using that unfolding mem by (simp add: seg_end_f_def esw_def)
    then show "unat (o_f_size (e_original erw)) \<le> unat (p_offset (l_phdrs l ! i)) \<and>
        fill_code r = Some (r\<lparr>e_f := fill_range (unat (p_offset (l_phdrs l ! i))) (unat (p_filesz (l_phdrs l ! i))) 0xCC (e_f r)\<rparr>)"
      using fill_code_cases(2) [OF assms(1) _ ps, of i] h assms(2) keeps fills by (simp add: first_new_code_def)
  qed
  moreover have "ds_state (e_dynstr r') = dynstr_edit_state_encode_building_new"
    if h: "retry erw = Some r'" "e_modified erw AND ERW_MODIFIED_DYNSTR \<noteq> 0" for r'
  proof -
    obtain r1 where r1: "fill_code r = Some r1" using h(1) r by (auto simp: bind_eq_Some_conv)
    then have same: "e_dynstr r1 = e_dynstr r" "e_modified r1 = e_modified erw"
      using keeps(3) by (auto simp: fill_code_def bind_eq_Some_conv split: if_splits)
    then have "dynstr_reopen r1 = Some r'" using h r r1 by simp
    then show ?thesis using dynstr_reopen_state [of r1 r'] closed same by (simp add: editors_closed_def)
  qed
  ultimately show ?thesis by blast
qed

text \<open>An x86-64 file with room for code: the new segment lies behind the original file and is filled.\<close>

definition code_asked :: alloc_buckets where
  "code_asked = \<lparr>bs_base =
     [\<lparr>b_category = erw_alloc_category_v_rx, b_alignment = 16, b_start = 0, b_current = 48, b_end = 0\<rparr>],
     bs_capacity = 4, bs_category_mask = push_bit (category_rank erw_alloc_category_v_rx) 1\<rparr>"

definition code_example :: "64 word erw" where
  "code_example = layout_example\<lparr>e_alloc := code_asked,
     e_original := \<lparr>o_f_size = 0x1800, o_phdrs = [layout_phdr], o_mem = (\<lambda>_. Some 7)\<rparr>\<rparr>"

definition code_laid_out :: alloc_buckets where
  "code_laid_out = code_asked\<lparr>bs_base :=
     [\<lparr>b_category = erw_alloc_category_v_rx, b_alignment = 16, b_start = 0x3000, b_current = 0x3000, b_end = 0x3030\<rparr>]\<rparr>"

definition code_phdrs :: "64 word phdr list" where
  "code_phdrs = [layout_phdr,
     \<lparr>p_type = 1, p_flags = 5, p_offset = 0x2000, p_vaddr = 0x3000, p_paddr = 0x3000, p_filesz = 0x30, p_memsz = 0x30, p_align = 0x1000\<rparr>]"

lemma retry_code_example:
  "retry_layout code_example = (code_laid_out, \<lparr>l_f = 0x2030, l_v = 0x3030, l_phdrs = code_phdrs, l_ld = True\<rparr>)"
proof -
  have e: "e_alloc code_example = code_asked" "e_bswap code_example = False" "e_guest_page_size code_example = 0x1000"
    "e_original code_example = \<lparr>o_f_size = 0x1800, o_phdrs = [layout_phdr], o_mem = (\<lambda>_. Some 7)\<rparr>"
    by (simp_all add: code_example_def layout_example_def erw_zero_def)
  have n: "new_load False 0x1000 (Some layout_phdr) False 5 16 (0x2000, 0x3000) =
      ((code_phdrs ! 1)\<lparr>p_filesz := 0, p_memsz := 0\<rparr>, 0x2000, 0x3000)"
    by code_simp
  have v: "lay_v False (bs_base code_asked ! 0) 48 \<lparr>l_f = 0x2000, l_v = 0x3000,
        l_phdrs = [layout_phdr, (code_phdrs ! 1)\<lparr>p_filesz := 0, p_memsz := 0\<rparr>], l_ld = True\<rparr> =
      (bs_base code_laid_out ! 0, \<lparr>l_f = 0x2030, l_v = 0x3030, l_phdrs = code_phdrs, l_ld = True\<rparr>)"
    by code_simp
  have b: "bs_base code_asked = [bs_base code_asked ! 0]" "bucket_size (bs_base code_asked ! 0) = 48"
    "b_category (bs_base code_asked ! 0) = erw_alloc_category_v_rx" "b_alignment (bs_base code_asked ! 0) = 16"
    "code_asked\<lparr>bs_base := [bs_base code_laid_out ! 0]\<rparr> = code_laid_out"
    by (simp_all add: code_asked_def code_laid_out_def bucket_size_def)
  have g: "load_flags erw_alloc_category_v_rx = 5" by (simp add: load_flags_def)
  have l: "lay_buckets False 0x1000 (Some layout_phdr) [bs_base code_asked ! 0]
      \<lparr>l_f = 0x2000, l_v = 0x3000, l_phdrs = [layout_phdr], l_ld = False\<rparr> =
    ([bs_base code_laid_out ! 0], \<lparr>l_f = 0x2030, l_v = 0x3030, l_phdrs = code_phdrs, l_ld = True\<rparr>)"
    by (simp add: lay_bucket_def open_load_def bucket_size_def [symmetric] Let_def b(2-4) g n v del: nth_Cons_0 One_nat_def)
  have s: "sort_buckets (bs_base code_asked) = [bs_base code_asked ! 0]"
    by (subst b(1)) (simp add: sort_buckets_def del: nth_Cons_0)
  show ?thesis unfolding retry_layout_def e by (simp add: Let_def layout_start_example s find_load_example l b(5) del: lay_buckets.simps)
qed

theorem retry_restarts_witness:
  "\<exists>r. retry code_example = Some r \<and> phdrs_are r code_phdrs \<and> \<not> e_retry r \<and>
    e_f r 0x17ff = Some 7 \<and> e_f r 0x1800 = Some 0 \<and> e_f r 0x2000 = Some 0xCC \<and> e_f r 0x202f = Some 0xCC \<and> e_f r 0x2030 = None"
proof -
  let ?l = "\<lparr>l_f = 0x2030, l_v = 0x3030, l_phdrs = code_phdrs, l_ld = True\<rparr> :: 64 word layout"
  have m: "mask_ok (e_alloc code_example)"
    by (simp add: mask_ok_def code_example_def code_asked_def bit_simps)
  have p: "phdrs_are code_example []"
    by (simp add: phdrs_are_def code_example_def layout_example_def erw_zero_def editor_none_def ed_ok_def)
  have f: "fills_code code_example"
    by (simp add: fills_code_def code_example_def layout_example_def code_asked_def bit_simps)
  have e: "\<not> e_bswap code_example" "e_modified code_example = 0" "length (o_phdrs (e_original code_example)) = 1"
      "o_f_size (e_original code_example) = 0x1800" "o_mem (e_original code_example) = (\<lambda>_. Some 7)"
    by (simp_all add: code_example_def layout_example_def erw_zero_def)
  have c: "first_new_code code_example (l_phdrs ?l) 1" "code_phdrs ! 1 =
      \<lparr>p_type = 1, p_flags = 5, p_offset = 0x2000, p_vaddr = 0x3000, p_paddr = 0x3000, p_filesz = 0x30, p_memsz = 0x30, p_align = 0x1000\<rparr>"
    by (simp_all add: first_new_code_def e(4) code_phdrs_def layout_phdr_def Let_def)
  obtain r where r: "retry code_example = do {
        r' \<leftarrow> fill_code r;
        if e_modified r' AND ERW_MODIFIED_DYNSTR \<noteq> 0 then dynstr_reopen r' else Some r' }"
    "\<And>f. phdrs_are (r\<lparr>e_f := f\<rparr>) (l_phdrs ?l)" "\<not> e_retry r" "e_modified r = e_modified code_example"
    "\<And>a. e_f r a = (if a < unat (o_f_size (e_original code_example)) then o_mem (e_original code_example) a
                        else if a < unat (l_f ?l) then Some 0 else None)"
    "\<And>i. let off = unat (p_offset (l_phdrs ?l ! i)); n = unat (p_filesz (l_phdrs ?l ! i)) in
       fills_code code_example \<and> first_new_code code_example (l_phdrs ?l) i \<and> off + n \<le> unat (l_f ?l) \<and>
       (\<forall>a < unat (o_f_size (e_original code_example)). o_mem (e_original code_example) a \<noteq> None) \<longrightarrow>
       unat (o_f_size (e_original code_example)) \<le> off \<and> fill_code r = Some (r\<lparr>e_f := fill_range off n 0xCC (e_f r)\<rparr>)"
    using retry_restarts [OF _ e(1) m p _ retry_code_example] e(3) by auto
  have "fill_code r = Some (r\<lparr>e_f := fill_range 0x2000 0x30 0xCC (e_f r)\<rparr>)"
    using r(6) [of 1] f c e(4,5) by (simp add: Let_def)
  then have "retry code_example = Some (r\<lparr>e_f := fill_range 0x2000 0x30 0xCC (e_f r)\<rparr>)"
    using r(1,4) e(2) by simp
  moreover have "phdrs_are (r\<lparr>e_f := fill_range 0x2000 0x30 0xCC (e_f r)\<rparr>) code_phdrs"
    using r(2) by simp
  ultimately show ?thesis using r(3,5) e(4,5) by (simp add: fill_range_def)
qed

end
