(* ===== verification/Renames.thy ===== *)
theory Renames
  imports Sht StringRefs CommonStrings
begin

section \<open>renamer.c: what a symbol is renamed to\<close>

text \<open>
  A renamer has a list of registries. A bespoke registry interns the strings of single renames
  and maps a pair of a name and a version to a library, a name and a version; a registry of a
  target version looks names up in a table that the build generates from renames.txt, here the
  argument \<open>tables\<close> of the definitions. A rename that leads to another one is followed, up to
  a thousand steps.
\<close>

subsection \<open>Bespoke registries\<close>

record bespoke_registry =
  br_strings :: sht
  br_renames :: sht

text \<open>\<open>strchr(str, c)\<close>, from index \<open>i\<close> on; a start behind the terminating zero is out of bounds.\<close>

definition char_from :: "u8 \<Rightarrow> bstr \<Rightarrow> nat \<Rightarrow> nat option option" where
  "char_from c str i = (if i > length str then None else Some (find (\<lambda>k. str ! k = c) [i..<length str]))"

function find_colon_colon :: "bstr \<Rightarrow> nat \<Rightarrow> nat option option" where
  "find_colon_colon str i =
    (case char_from 58 str i of None \<Rightarrow> None
     | Some None \<Rightarrow> Some None
     | Some (Some k) \<Rightarrow> if rd str (k + 1) = Some 58 then Some (Some k) else find_colon_colon str (k + 2))"
  by pat_completeness auto
termination
  by (relation "measure (\<lambda>(str, i). length str + 2 - i)")
    (auto simp: char_from_def find_Some_iff split: if_splits)

declare find_colon_colon.simps [simp del]

text \<open>The string of the registry as it is and the three indices of library, name and version.\<close>

definition bespoke_registry_parse_name :: "sht \<Rightarrow> bstr \<Rightarrow> (sht \<times> u32 \<times> u32 \<times> u32) option" where
  "bespoke_registry_parse_name strings name = do {
     colon_colon \<leftarrow> find_colon_colon name 0;
     (strings, lib, name) \<leftarrow> (case colon_colon of
         Some k \<Rightarrow> do { (strings, u) \<leftarrow> sht_intern_u strings (take k name); Some (strings, u, drop (k + 2) name) }
       | None \<Rightarrow> Some (strings, 0, name));
     let at = takeWhile (\<lambda>c. c \<noteq> 64) name;
     (strings, n) \<leftarrow> sht_intern_u strings at;
     if length at < length name then do {
       (strings, v) \<leftarrow> sht_intern_u strings (drop (length at + 1) name);
       Some (strings, lib, n, v) }
     else Some (strings, lib, n, 0) }"

definition rename_key :: "u32 \<Rightarrow> u32 \<Rightarrow> u8 list" where
  "rename_key name version = u32_bytes name @ u32_bytes version"

definition put_rename :: "sht \<Rightarrow> nat \<Rightarrow> u32 \<times> u32 \<times> u32 \<Rightarrow> sht option" where
  "put_rename s p v = (case v of (lib, name, version) \<Rightarrow>
     if mem_read (s_mem s) p 12 = None then None
     else Some (s\<lparr>s_mem := mem_write (s_mem s) p (u32_bytes lib @ u32_bytes name @ u32_bytes version)\<rparr>))"

definition get_rename :: "sht \<Rightarrow> nat \<Rightarrow> (u32 \<times> u32 \<times> u32) option" where
  "get_rename s p = do {
     lib \<leftarrow> mem_read32 (s_mem s) p;
     name \<leftarrow> mem_read32 (s_mem s) (p + 4);
     version \<leftarrow> mem_read32 (s_mem s) (p + 8);
     Some (lib, name, version) }"

definition bespoke_registry_add_one :: "bespoke_registry \<Rightarrow> bstr \<Rightarrow> bstr \<Rightarrow> (bespoke_registry \<times> bool) option" where
  "bespoke_registry_add_one rr old_name new_name = do {
     (strings, _, name, version) \<leftarrow> bespoke_registry_parse_name (br_strings rr) old_name;
     (renames, p) \<leftarrow> sht_intern_p (br_renames rr) (rename_key name version);
     old \<leftarrow> get_rename renames p;
     (strings, new) \<leftarrow> bespoke_registry_parse_name strings new_name;
     if fst (snd old) \<noteq> 0 then Some (\<lparr>br_strings = strings, br_renames = renames\<rparr>, old = new)
     else do {
       renames \<leftarrow> put_rename renames p new;
       Some (\<lparr>br_strings = strings, br_renames = renames\<rparr>, True) } }"

subsection \<open>Renaming by a bespoke registry\<close>

record renamed_symbol =
  rs_lib :: "bstr option"
  rs_name :: bstr
  rs_version :: "bstr option"

definition sht_u_key :: "sht \<Rightarrow> u32 \<Rightarrow> bstr option" where
  "sht_u_key s u = sht_p_key s (4 * unat u)"

text \<open>\<open>None\<close> inside is that the symbol is not changed.\<close>

definition bespoke_registry_apply_to_name :: "bespoke_registry \<Rightarrow> renamed_symbol \<Rightarrow> renamed_symbol option option" where
  "bespoke_registry_apply_to_name rr s = do {
     version \<leftarrow> (case rs_version s of Some v \<Rightarrow> sht_lookup_u (br_strings rr) v | None \<Rightarrow> Some 0);
     if rs_version s \<noteq> None \<and> version = 0 then Some None
     else do {
       name \<leftarrow> sht_lookup_u (br_strings rr) (rs_name s);
       if name = 0 then Some None
       else do {
         found \<leftarrow> sht_lookup_p (br_renames rr) (rename_key name version);
         case found of None \<Rightarrow> Some None
         | Some p \<Rightarrow> do {
             (new_lib, new_name, new_ver) \<leftarrow> get_rename (br_renames rr) p;
             lib \<leftarrow> (if new_lib \<noteq> 0 then map_option Some (sht_u_key (br_strings rr) new_lib) else Some (rs_lib s));
             name \<leftarrow> sht_u_key (br_strings rr) new_name;
             version \<leftarrow> (if new_ver \<noteq> 0 then map_option Some (sht_u_key (br_strings rr) new_ver) else Some None);
             Some (Some \<lparr>rs_lib = lib, rs_name = name, rs_version = version\<rparr>) } } } }"

subsection \<open>The generated tables\<close>

text \<open>
  A table has a hash table of versions in front; the entry of a version is the length of its
  name and the mask of a hash table of names, which follows, and its name lies before it. The
  entry of a name is four lengths, of the new name, the new library, the old name and the new
  version, then the new strings; the old name lies before it.
\<close>

record blob =
  bl_data :: mem
  bl_mask :: u32

definition slot_at :: "mem \<Rightarrow> nat \<Rightarrow> u32 \<Rightarrow> u64 option" where
  "slot_at m table idx = map_option word_of_bytes (mem_read m (table + 8 * unat idx) 8)"

text \<open>What a probe finds when the hash of a slot agrees: the key, another key, or a reason to give up.\<close>

datatype probe = Found | Other | Stop

partial_function (option) blob_probe :: "mem \<Rightarrow> nat \<Rightarrow> u32 \<Rightarrow> (u32 \<Rightarrow> probe option) \<Rightarrow> u32 \<Rightarrow> u32 \<Rightarrow> u32 option option" where
  "blob_probe m table msk check h d =
    (let idx = (h + d) AND msk
     in Option.bind (slot_at m table idx) (\<lambda>slot.
       if slot = 0 then Some None
       else Option.bind (if slot_lo slot = h then check (slot_hi slot) else Some Other) (\<lambda>r.
         if r = Found then Some (Some (slot_hi slot))
         else if r = Stop then Some None
         else if (idx - slot_lo slot) AND msk < d then Some None
         else blob_probe m table msk check h (d + 1))))"

text \<open>Whether \<open>key\<close> ends \<open>back\<close> bytes before \<open>p\<close>.\<close>

definition key_before :: "mem \<Rightarrow> nat \<Rightarrow> nat \<Rightarrow> bstr \<Rightarrow> bool option" where
  "key_before m p back key =
    (if p < back + length key then None
     else map_option ((=) key) (mem_read m (p - back - length key) (length key)))"

record target_ver_registry =
  tv_table :: blob
  tv_limit :: u32
  tv_target_ver :: bstr

definition check_version :: "target_ver_registry \<Rightarrow> bstr \<Rightarrow> u32 \<Rightarrow> probe option" where
  "check_version rr version slot_val =
    (if slot_val \<ge> tv_limit rr then Some Stop
     else do {
       len \<leftarrow> mem_read32 (bl_data (tv_table rr)) (unat slot_val);
       same \<leftarrow> (if len = of_nat (length version) then key_before (bl_data (tv_table rr)) (unat slot_val) 1 version else Some False);
       Some (if same then Found else Other) })"

definition check_name :: "mem \<Rightarrow> nat \<Rightarrow> bstr \<Rightarrow> u32 \<Rightarrow> probe option" where
  "check_name m table name v = do {
     let p = table + unat v;
     len \<leftarrow> m (p + 2);
     same \<leftarrow> (if unat len = length name then key_before m p 0 name else Some False);
     Some (if same then Found else Other) }"

text \<open>The new strings of an entry, one after the other.\<close>

definition read_rename :: "mem \<Rightarrow> nat \<Rightarrow> renamed_symbol \<Rightarrow> renamed_symbol option" where
  "read_rename m p s = do {
     new_name_len \<leftarrow> m p;
     new_lib_len \<leftarrow> m (p + 1);
     new_ver_len \<leftarrow> m (p + 3);
     let p = p + 4;
     (lib, p) \<leftarrow> (if new_lib_len = 0 then Some (rs_lib s, p)
       else if new_lib_len = 0xff then Some (Some (bytes_of ''polyfill''), p)
       else map_option (\<lambda>str. (Some str, p + unat new_lib_len)) (cstr_at m p));
     (name, p) \<leftarrow> (if new_name_len = 0 then Some (rs_name s, p)
       else map_option (\<lambda>str. (str, p + unat new_name_len)) (cstr_at m p));
     version \<leftarrow> (if new_ver_len = 0 then Some None else map_option Some (cstr_at m p));
     Some \<lparr>rs_lib = lib, rs_name = name, rs_version = version\<rparr> }"

definition target_ver_registry_apply_to_name :: "target_ver_registry \<Rightarrow> renamed_symbol \<Rightarrow> renamed_symbol option option" where
  "target_ver_registry_apply_to_name rr s =
    (case rs_version s of None \<Rightarrow> Some None
     | Some version \<Rightarrow>
        if tv_limit rr = 0 then Some None
        else do {
          let m = bl_data (tv_table rr);
          h \<leftarrow> sht_hash_mem version;
          found \<leftarrow> blob_probe m 0 (bl_mask (tv_table rr)) (check_version rr version) h 0;
          case found of None \<Rightarrow> Some None
          | Some slot_val \<Rightarrow> do {
              msk \<leftarrow> mem_read32 m (unat slot_val + 4);
              let table = unat slot_val + 8;
              if length (rs_name s) > 0xff then Some None
              else do {
                h \<leftarrow> sht_hash_mem (rs_name s);
                found \<leftarrow> blob_probe m table msk (check_name m table (rs_name s)) h 0;
                case found of None \<Rightarrow> Some None
                | Some v \<Rightarrow> map_option Some (read_rename m (table + unat v) s) } } })"

subsection \<open>Binding a target version to a machine\<close>

text \<open>The version behind the underscore of \<open>GLIBC_x.y\<close>; the registry applies to newer versions only.\<close>

definition chars_of :: "bstr \<Rightarrow> cstr" where
  "chars_of str = map (\<lambda>c. char_of (unat c)) str"

definition glibc_version :: "bstr \<Rightarrow> cstr" where
  "glibc_version vstr = chars_of (case dropWhile (\<lambda>c. c \<noteq> 95) vstr of [] \<Rightarrow> vstr | _ # rest \<Rightarrow> rest)"

definition limit_step :: "blob \<Rightarrow> cstr \<Rightarrow> nat \<Rightarrow> u32 \<times> u32 \<Rightarrow> (u32 \<times> u32) option" where
  "limit_step bl target_ver i s = (case s of (known_want_to_apply, target_ver_limit) \<Rightarrow> do {
     slot \<leftarrow> slot_at (bl_data bl) 0 (of_nat i);
     let slot_val = slot_hi slot;
     if slot \<noteq> 0 \<and> known_want_to_apply < slot_val \<and> slot_val < target_ver_limit then do {
       len \<leftarrow> mem_read32 (bl_data bl) (unat slot_val);
       if unat slot_val < unat len + 1 then None
       else do {
         vstr \<leftarrow> cstr_at (bl_data bl) (unat slot_val - unat len - 1);
         Some (if version_str_less target_ver (glibc_version vstr) then (slot_val, target_ver_limit)
               else (known_want_to_apply, slot_val)) } }
     else Some s })"

record rename_tables =
  rt_aarch64 :: blob
  rt_x86_64 :: blob

definition table_for :: "rename_tables \<Rightarrow> u16 \<Rightarrow> blob option" where
  "table_for tables machine =
    (if machine = EM_AARCH64 then Some (rt_aarch64 tables)
     else if machine = EM_X86_64 then Some (rt_x86_64 tables) else None)"

definition target_ver_registry_bind_to :: "rename_tables \<Rightarrow> u16 \<Rightarrow> target_ver_registry \<Rightarrow> target_ver_registry option" where
  "target_ver_registry_bind_to tables machine rr =
    (case table_for tables machine of None \<Rightarrow> Some (rr\<lparr>tv_limit := 0\<rparr>)
     | Some bl \<Rightarrow> do {
         (_, target_ver_limit) \<leftarrow> each (limit_step bl (chars_of (tv_target_ver rr))) [0..<unat (bl_mask bl) + 1] (0, - 1);
         Some (rr\<lparr>tv_table := bl, tv_limit := target_ver_limit\<rparr>) })"

subsection \<open>The renamer\<close>

datatype registry = Bespoke bespoke_registry | Target target_ver_registry

record renamer_options =
  ro_use_polyfill_so :: "bstr option"
  ro_create_polyfill_so :: bool
  ro_cfi_mode :: u8

record renamer =
  rn_registries :: "registry list"
  rn_capacity :: u32
  rn_ensured_libs :: sht
  rn_options :: renamer_options
  rn_added_renames :: bool

definition renamer_init :: "renamer_options option \<Rightarrow> renamer" where
  "renamer_init options = \<lparr>rn_registries = [], rn_capacity = 0, rn_ensured_libs = sht_init 1,
     rn_options = (case options of Some opt \<Rightarrow> opt
       | None \<Rightarrow> \<lparr>ro_use_polyfill_so = None, ro_create_polyfill_so = False, ro_cfi_mode = 0\<rparr>), rn_added_renames = False\<rparr>"

definition renamer_add_registry :: "renamer \<Rightarrow> registry \<Rightarrow> renamer" where
  "renamer_add_registry rn rr =
    (let n = length (rn_registries rn);
         capacity = (if n \<ge> unat (rn_capacity rn) then (if n \<noteq> 0 then of_nat n * 2 else 4) else rn_capacity rn)
     in rn\<lparr>rn_capacity := capacity, rn_registries := rn_registries rn @ [rr]\<rparr>)"

definition renamer_add_bespoke_registry :: "renamer \<Rightarrow> renamer" where
  "renamer_add_bespoke_registry rn =
    renamer_add_registry rn (Bespoke \<lparr>br_strings = sht_init 0, br_renames = sht_init 12\<rparr>)"

definition is_bespoke :: "registry \<Rightarrow> bool" where
  "is_bespoke rr = (case rr of Bespoke _ \<Rightarrow> True | Target _ \<Rightarrow> False)"

definition renamer_add_one_rename :: "renamer \<Rightarrow> bstr \<Rightarrow> bstr \<Rightarrow> (renamer \<times> bool) option" where
  "renamer_add_one_rename rn old_name new_name =
    (let rn = rn\<lparr>rn_added_renames := True\<rparr>;
         rn = (if rn_registries rn = [] \<or> \<not> is_bespoke (last (rn_registries rn)) then renamer_add_bespoke_registry rn else rn)
     in case last (rn_registries rn) of
          Bespoke b \<Rightarrow> do {
            (b, ok) \<leftarrow> bespoke_registry_add_one b old_name new_name;
            Some (rn\<lparr>rn_registries := butlast (rn_registries rn) @ [Bespoke b]\<rparr>, ok) }
        | Target _ \<Rightarrow> None)"

text \<open>The table and the limit of a new registry are set by \<open>bind_target_ver_renamers_to\<close>.\<close>

definition renamer_add_target_version_renames :: "renamer \<Rightarrow> bstr \<Rightarrow> renamer" where
  "renamer_add_target_version_renames rn target_ver =
    renamer_add_registry (rn\<lparr>rn_added_renames := True\<rparr>)
      (Target \<lparr>tv_table = \<lparr>bl_data = Map.empty, bl_mask = 0\<rparr>, tv_limit = 0, tv_target_ver = target_ver\<rparr>)"

definition bind_target_ver_renamers_to :: "rename_tables \<Rightarrow> u16 \<Rightarrow> renamer \<Rightarrow> renamer option" where
  "bind_target_ver_renamers_to tables machine rn = do {
     rrs \<leftarrow> all_some (map (\<lambda>rr. case rr of Bespoke b \<Rightarrow> Some (Bespoke b)
       | Target t \<Rightarrow> map_option Target (target_ver_registry_bind_to tables machine t)) (rn_registries rn));
     Some (rn\<lparr>rn_registries := rrs\<rparr>) }"

text \<open>\<open>*(unsigned char*)sht_intern_p(&self->ensured_libs, lib, strlen(lib)) = 0xff\<close>.\<close>

definition put_byte :: "sht \<Rightarrow> nat \<Rightarrow> u8 \<Rightarrow> sht option" where
  "put_byte s p b = (if s_mem s p = None then None else Some (s\<lparr>s_mem := (s_mem s)(p \<mapsto> b)\<rparr>))"

definition renamer_ensure_lib_dependency :: "renamer \<Rightarrow> bstr option \<Rightarrow> renamer option" where
  "renamer_ensure_lib_dependency rn lib =
    (case lib of None \<Rightarrow> Some rn
     | Some lib \<Rightarrow> do {
         (libs, p) \<leftarrow> sht_intern_p (rn_ensured_libs rn) lib;
         libs \<leftarrow> put_byte libs p 0xff;
         Some (rn\<lparr>rn_ensured_libs := libs\<rparr>) })"

subsection \<open>Renaming\<close>

definition apply_registry :: "registry \<Rightarrow> renamed_symbol \<Rightarrow> renamed_symbol option option" where
  "apply_registry rr s = (case rr of Bespoke b \<Rightarrow> bespoke_registry_apply_to_name b s
     | Target t \<Rightarrow> target_ver_registry_apply_to_name t s)"

fun apply_first :: "registry list \<Rightarrow> renamed_symbol \<Rightarrow> renamed_symbol option option" where
  "apply_first [] s = Some None"
| "apply_first (rr # rrs) s = do {
     r \<leftarrow> apply_registry rr s;
     if r \<noteq> None then Some r else apply_first rrs s }"

definition renamer_apply_to_name_one_step :: "renamer \<Rightarrow> renamed_symbol \<Rightarrow> renamed_symbol option option" where
  "renamer_apply_to_name_one_step rn s = apply_first (rn_registries rn) s"

text \<open>\<open>Inl\<close>: the fatal error of an infinite loop of renames, at this symbol.\<close>

function rename_from :: "renamer \<Rightarrow> nat \<Rightarrow> renamed_symbol \<Rightarrow> (renamed_symbol + renamed_symbol \<times> bool) option" where
  "rename_from rn num_renames s =
    (case renamer_apply_to_name_one_step rn s of None \<Rightarrow> None
     | Some None \<Rightarrow> Some (Inr (s, num_renames \<noteq> 0))
     | Some (Some s) \<Rightarrow> if num_renames + 1 \<ge> 1000 then Some (Inl s) else rename_from rn (num_renames + 1) s)"
  by pat_completeness auto
termination by (relation "measure (\<lambda>(rn, n, s). 1000 - n)") auto

declare rename_from.simps [simp del]

definition renamer_apply_to_name :: "renamer \<Rightarrow> renamed_symbol \<Rightarrow> (renamed_symbol + renamed_symbol \<times> bool) option" where
  "renamer_apply_to_name rn s = rename_from rn 0 s"

end
