(* ===== verification/RenameOps.thy ===== *)
theory RenameOps
  imports Renames
begin

section \<open>A bespoke registry is a map of renames\<close>

text \<open>
  The two tables of a bespoke registry hold a finite map from a name and a version to a
  library, a name and a version. Adding a rename extends the map, renaming a symbol looks it up,
  and following renames through the registries of a renamer walks a chain of them.
\<close>

subsection \<open>The values of a table lie apart\<close>

lemma layout_apart:
  "(k, u) \<in> set (layout v n ks) \<Longrightarrow> (k', u') \<in> set (layout v n ks) \<Longrightarrow>
    (k, u) = (k', u') \<or> u + v + key_units k' \<le> u' \<or> u' + v + key_units k \<le> u"
proof (induction v n ks rule: layout.induct)
  case (2 v n x ks)
  then show ?case
    using layout_bounds [of k u v "n + key_units x + v" ks] layout_bounds [of k' u' v "n + key_units x + v" ks] by auto
qed simp

lemma layout_distinct: "distinct ks \<Longrightarrow> map_of (layout v n ks) k = Some u \<longleftrightarrow> (k, u) \<in> set (layout v n ks)"
  by (rule map_of_eq_Some_iff) simp

lemma rep_map_of: "sht_rep s ks \<Longrightarrow> map_of (sht_layout s ks) k = Some u \<longleftrightarrow> (k, u) \<in> set (sht_layout s ks)"
  unfolding sht_layout_def by (rule layout_distinct) (simp add: sht_rep_def contents_ok_def)

lemma get_rename_cong: "(\<forall>i. p \<le> i \<and> i < p + 12 \<longrightarrow> s_mem s i = s_mem s' i) \<Longrightarrow> get_rename s p = get_rename s' p"
proof -
  assume a: "\<forall>i. p \<le> i \<and> i < p + 12 \<longrightarrow> s_mem s i = s_mem s' i"
  have "q \<le> 8 \<Longrightarrow> mem_read32 (s_mem s) (p + q) = mem_read32 (s_mem s') (p + q)" for q
    unfolding mem_read32_def using mem_read_cong [of "p + q" 4 "s_mem s" "s_mem s'"] a by simp
  from this [of 0] this [of 4] this [of 8] show ?thesis by (simp add: get_rename_def)
qed

lemma get_rename_holds: "holds (s_mem s) p (u32_bytes a @ u32_bytes b @ u32_bytes c) \<Longrightarrow> get_rename s p = Some (a, b, c)"
  using mem_read32_holds [of "s_mem s" p a] mem_read32_holds [of "s_mem s" "p + 4" b] mem_read32_holds [of "s_mem s" "p + 8" c]
  by (simp add: get_rename_def holds_append add.commute [of 8])

lemma put_rename_ok:
  assumes rep: "sht_rep s ks" and v: "s_value_length s = 3" and k: "(k, u) \<in> set (sht_layout s ks)"
    and init: "get_rename s (4 * u) \<noteq> None"
  shows "\<exists>s'. put_rename s (4 * u) r = Some s' \<and> sht_rep s' ks \<and> s_value_length s' = 3 \<and> s_size s' = s_size s \<and>
    sht_layout s' ks = sht_layout s ks \<and> get_rename s' (4 * u) = Some r \<and>
    (\<forall>(k', u') \<in> set (sht_layout s ks). u' \<noteq> u \<longrightarrow> get_rename s' (4 * u') = get_rename s (4 * u'))"
proof -
  obtain a b c where r: "r = (a, b, c)" by (cases r)
  let ?bs = "u32_bytes a @ u32_bytes b @ u32_bytes c"
  let ?s = "s\<lparr>s_mem := mem_write (s_mem s) (4 * u) ?bs\<rparr>"
  have "mem_read (s_mem s) (4 * u) 12 \<noteq> None"
  proof -
    obtain x y z where "mem_read (s_mem s) (4 * u) 4 = Some x" "mem_read (s_mem s) (4 * u + 4) 4 = Some y"
        "mem_read (s_mem s) (4 * u + 8) 4 = Some z"
      using init unfolding get_rename_def mem_read32_def
      by (cases "mem_read (s_mem s) (4 * u) 4"; cases "mem_read (s_mem s) (4 * u + 4) 4"; cases "mem_read (s_mem s) (4 * u + 8) 4") simp_all
    then have "length x = 4 \<and> holds (s_mem s) (4 * u) x" "length y = 4 \<and> holds (s_mem s) (4 * u + 4) y"
        "length z = 4 \<and> holds (s_mem s) (4 * u + 8) z"
      by (blast dest: holds_mem_read)+
    then have "holds (s_mem s) (4 * u) (x @ y @ z)" "length (x @ y @ z) = 12"
      by (simp_all add: holds_append add.commute [of 8])
    then show ?thesis using mem_read_holds [of "s_mem s" "4 * u" "x @ y @ z"] by simp
  qed
  then have put: "put_rename s (4 * u) r = Some ?s" by (simp add: put_rename_def r)
  have lay: "sht_layout ?s ks = sht_layout s ks" by (simp add: sht_layout_def)
  have same: "mem_write (s_mem s) (4 * u) ?bs i = s_mem s i" if "i < 4 * u \<or> 4 * u + 12 \<le> i" for i
    using that by (auto simp: mem_write_apply)
  have apart: "u' = u \<and> k' = k \<or> u + 3 + key_units k' \<le> u' \<or> u' + 3 + key_units k \<le> u"
    if "(k', u') \<in> set (sht_layout s ks)" for k' u'
    using layout_apart [OF k [unfolded sht_layout_def] that [unfolded sht_layout_def]] v by auto
  have entry: "holds_entry (s_mem ?s) k' u'" if m: "(k', u') \<in> set (sht_layout s ks)" for k' u'
  proof -
    have e: "holds_entry (s_mem s) k' u'" using layout_less(6) [OF _ m] rep by (simp add: sht_rep_def)
    have "i < 4 * u \<or> 4 * u + 12 \<le> i" if "4 * u' - 5 - length k' \<le> i" "i < 4 * u'" for i
      using apart [OF m] that e key_units_fit [of k'] unfolding holds_entry_def by linarith
    then show ?thesis using e same unfolding holds_entry_def holds_def by (auto simp: algebra_simps)
  qed
  have "sht_rep ?s ks"
    using rep entry unfolding sht_rep_def contents_ok_def lay by auto
  moreover have "get_rename ?s (4 * u) = Some r" using get_rename_holds [of ?s] holds_write_same by (simp add: r)
  moreover have "get_rename ?s (4 * u') = get_rename s (4 * u')" if m: "(k', u') \<in> set (sht_layout s ks)" "u' \<noteq> u" for k' u'
    by (rule get_rename_cong) (use apart [OF m(1)] m(2) same in auto)
  ultimately show ?thesis using put v lay by auto
qed

subsection \<open>Indices of strings\<close>

definition idx :: "sht \<Rightarrow> bstr \<Rightarrow> u32" where
  "idx s k = the (sht_lookup_u s k)"

definition oidx :: "sht \<Rightarrow> bstr option \<Rightarrow> u32" where
  "oidx s v = (case v of None \<Rightarrow> 0 | Some k \<Rightarrow> idx s k)"

definition known :: "bstr list \<Rightarrow> bstr option \<Rightarrow> bool" where
  "known ks v \<longleftrightarrow> (case v of None \<Rightarrow> True | Some k \<Rightarrow> k \<in> set ks)"

lemma known_simps [simp]: "known ks None" "known ks (Some k) \<longleftrightarrow> k \<in> set ks"
  and oidx_simps [simp]: "oidx s None = 0" "oidx s (Some k) = idx s k"
  by (simp_all add: known_def oidx_def)

lemma known_mono: "known ks v \<Longrightarrow> set ks \<subseteq> set ks' \<Longrightarrow> known ks' v"
  by (cases v) auto

lemma idx_look: "sht_rep s ks \<Longrightarrow> k \<in> set ks \<Longrightarrow> sht_lookup_u s k = Some (idx s k) \<and> idx s k \<noteq> 0"
  using sht.look_in [of s ks k] by (auto simp: idx_def)

lemma idx_inj: "sht_rep s ks \<Longrightarrow> j \<in> set ks \<Longrightarrow> k \<in> set ks \<Longrightarrow> idx s j = idx s k \<longleftrightarrow> j = k"
  using sht.look_inj [of s ks j k] idx_look [of s ks j] idx_look [of s ks k] by auto

lemma oidx_inj: "sht_rep s ks \<Longrightarrow> known ks v \<Longrightarrow> known ks w \<Longrightarrow> oidx s v = oidx s w \<longleftrightarrow> v = w"
  using idx_look [of s ks "the v"] idx_look [of s ks "the w"] idx_inj [of s ks "the v" "the w"]
  by (cases v; cases w) auto

lemma idx_key: "sht_rep s ks \<Longrightarrow> k \<in> set ks \<Longrightarrow> sht_u_key s (idx s k) = Some k"
proof -
  assume rep: "sht_rep s ks" and k: "k \<in> set ks"
  have c: "contents_ok s ks" using rep by (simp add: sht_rep_def)
  obtain u where u: "map_of (sht_layout s ks) k = Some u"
    using k fst_sht_layout [of s ks] by (metis map_of_eq_None_iff not_None_eq)
  note l = layout_less [OF c map_of_SomeD [OF u]]
  have "idx s k = of_nat u" using sht_lookup_spec(1) [OF rep l(2)] u by (simp add: idx_def)
  then have "4 * unat (idx s k) = 4 * u" using l(5) by (simp add: unat_of_nat)
  then show ?thesis using sht_p_key_spec [OF rep map_of_SomeD [OF u]] by (simp add: sht_u_key_def)
qed

text \<open>A table of strings that has grown: the strings keep their indices.\<close>

definition strings_grow :: "sht \<Rightarrow> bstr list \<Rightarrow> sht \<Rightarrow> bstr list \<Rightarrow> nat \<Rightarrow> bool" where
  "strings_grow s ks s' ks' n \<longleftrightarrow> sht_rep s' ks' \<and> s_value_length s' = 0 \<and> set ks \<subseteq> set ks' \<and>
     (\<forall>j \<in> set ks. idx s' j = idx s j) \<and> unat (s_size s') \<le> unat (s_size s) + n"

lemma strings_grow_refl: "sht_rep s ks \<Longrightarrow> s_value_length s = 0 \<Longrightarrow> strings_grow s ks s ks n"
  by (simp add: strings_grow_def)

lemma strings_grow_trans: "strings_grow s ks s' ks' m \<Longrightarrow> strings_grow s' ks' s'' ks'' n \<Longrightarrow> strings_grow s ks s'' ks'' (m + n)"
  unfolding strings_grow_def by (auto dest: subsetD)

lemma strings_grow_le: "strings_grow s ks s' ks' m \<Longrightarrow> m \<le> n \<Longrightarrow> strings_grow s ks s' ks' n"
  unfolding strings_grow_def by auto

lemma strings_grow_idx: "strings_grow s ks s' ks' n \<Longrightarrow> k \<in> set ks \<Longrightarrow> idx s' k = idx s k \<and> k \<in> set ks'"
  by (auto simp: strings_grow_def)

lemma strings_grow_oidx: "strings_grow s ks s' ks' n \<Longrightarrow> known ks v \<Longrightarrow> oidx s' v = oidx s v \<and> known ks' v"
  using strings_grow_idx by (cases v) auto

lemma intern_string:
  assumes rep: "sht_rep s ks" and v: "s_value_length s = 0" and room: "unat (s_size s) + length k + 9 < 2 ^ 32"
  shows "\<exists>s' ks'. sht_intern_u s k = Some (s', idx s' k) \<and> strings_grow s ks s' ks' (length k + 2) \<and> k \<in> set ks'"
proof -
  have units: "key_units k \<le> length k + 2" by (simp add: key_units_def)
  have r: "sht_room s k" using room units v by (simp add: sht_room_def)
  obtain s' u ks' where i: "sht_intern_u s k = Some (s', u)" "sht_rep s' ks'" "set ks' = insert k (set ks)"
      "sht_lookup_u s' k = Some u" "\<And>j. j \<in> set ks \<Longrightarrow> sht_lookup_u s' j = sht_lookup_u s j"
    using sht.intern_keeps [OF rep r] by metis
  have "s_value_length s' = 0 \<and> unat (s_size s') \<le> unat (s_size s) + (length k + 2)"
  proof (cases "k \<in> set ks")
    case True
    then show ?thesis using sht_intern_spec [OF rep r] i(1) v by auto
  next
    case False
    then have n: "sht_rep s' (ks @ [k])" "s_value_length s' = s_value_length s"
      using sht_intern_spec [OF rep r] i(1) by auto
    then show ?thesis
      using rep units v by (simp add: sht_rep_def contents_ok_def layout_end_snoc)
  qed
  then show ?thesis using i by (auto simp: strings_grow_def idx_def)
qed

subsection \<open>Parsing a name\<close>

text \<open>\<open>lib::name@version\<close>, where the library and the version can be left out.\<close>

definition name_version :: "bstr \<Rightarrow> bstr \<times> bstr option" where
  "name_version name = (let at = takeWhile (\<lambda>c. c \<noteq> 64) name
     in (at, if length at < length name then Some (drop (length at + 1) name) else None))"

definition parse_strings :: "bstr \<Rightarrow> (bstr option \<times> bstr \<times> bstr option) option" where
  "parse_strings name = map_option (\<lambda>colon_colon.
     case colon_colon of Some k \<Rightarrow> (Some (take k name), name_version (drop (k + 2) name)) | None \<Rightarrow> (None, name_version name))
     (find_colon_colon name 0)"

definition parse_tail :: "sht \<Rightarrow> u32 \<Rightarrow> bstr \<Rightarrow> (sht \<times> u32 \<times> u32 \<times> u32) option" where
  "parse_tail strings lib name = do {
     let at = takeWhile (\<lambda>c. c \<noteq> 64) name;
     (strings, n) \<leftarrow> sht_intern_u strings at;
     if length at < length name then do {
       (strings, v) \<leftarrow> sht_intern_u strings (drop (length at + 1) name);
       Some (strings, lib, n, v) }
     else Some (strings, lib, n, 0) }"

lemma parse_name_tail:
  "bespoke_registry_parse_name strings name = do {
     colon_colon \<leftarrow> find_colon_colon name 0;
     (strings, lib, name) \<leftarrow> (case colon_colon of
         Some k \<Rightarrow> do { (strings, u) \<leftarrow> sht_intern_u strings (take k name); Some (strings, u, drop (k + 2) name) }
       | None \<Rightarrow> Some (strings, 0, name));
     parse_tail strings lib name }"
  unfolding bespoke_registry_parse_name_def parse_tail_def by (rule refl)

lemma parse_rest:
  assumes rep: "sht_rep s ks" and v: "s_value_length s = 0" and room: "unat (s_size s) + length name + 13 < 2 ^ 32"
    and nv: "name_version name = (n, ver)"
  shows "\<exists>s' ks'. parse_tail s lib name = Some (s', lib, idx s' n, oidx s' ver) \<and>
     strings_grow s ks s' ks' (length name + 4) \<and> n \<in> set ks' \<and> known ks' ver"
proof -
  let ?n = "takeWhile (\<lambda>c. c \<noteq> 64) name"
  have n: "n = ?n" using nv by (simp add: name_version_def Let_def)
  have le: "length n \<le> length name" unfolding n by (rule length_takeWhile_le)
  then obtain s1 ks1 where one: "sht_intern_u s n = Some (s1, idx s1 n)" "strings_grow s ks s1 ks1 (length n + 2)" "n \<in> set ks1"
    using intern_string [OF rep v, of n] room by auto
  note g1 = one(2) [unfolded strings_grow_def]
  show ?thesis
  proof (cases "length n < length name")
    case False
    have "strings_grow s ks s1 ks1 (length name + 4)" by (rule strings_grow_le [OF one(2)]) (use le in simp)
    then show ?thesis using one False nv n by (auto simp: name_version_def parse_tail_def Let_def)
  next
    case True
    let ?v = "drop (length n + 1) name"
    have ver: "ver = Some ?v" using nv n True by (auto simp: name_version_def Let_def)
    have len: "length n + length ?v + 1 = length name" using True by simp
    have "unat (s_size s1) + length ?v + 9 < 2 ^ 32" using g1 room len by linarith
    then obtain s2 ks2 where two: "sht_intern_u s1 ?v = Some (s2, idx s2 ?v)" "strings_grow s1 ks1 s2 ks2 (length ?v + 2)" "?v \<in> set ks2"
      using intern_string [of s1 ks1 ?v] g1 by blast
    have "strings_grow s ks s2 ks2 (length name + 4)"
      by (rule strings_grow_le [OF strings_grow_trans [OF one(2) two(2)]]) (use len in linarith)
    moreover have "parse_tail s lib name = Some (s2, lib, idx s2 n, oidx s2 ver)"
      using one two(1) True n ver strings_grow_idx [OF two(2) one(3)] by (simp add: parse_tail_def Let_def)
    ultimately show ?thesis using two(3) ver strings_grow_idx [OF two(2) one(3)] by auto
  qed
qed

lemma parse_ok:
  assumes rep: "sht_rep s ks" and v: "s_value_length s = 0" and room: "unat (s_size s) + length name + 15 < 2 ^ 32"
    and p: "parse_strings name = Some (lib, n, ver)"
  shows "\<exists>s' ks'. bespoke_registry_parse_name s name = Some (s', oidx s' lib, idx s' n, oidx s' ver) \<and>
    strings_grow s ks s' ks' (length name + 6) \<and> known ks' lib \<and> n \<in> set ks' \<and> known ks' ver"
proof -
  obtain cc where cc: "find_colon_colon name 0 = Some cc" using p by (auto simp: parse_strings_def)
  show ?thesis
  proof (cases cc)
    case None
    have r: "unat (s_size s) + length name + 13 < 2 ^ 32" using room by simp
    have nv: "name_version name = (n, ver)" "lib = None" using p cc None by (simp_all add: parse_strings_def)
    obtain s1 ks1 where one: "parse_tail s 0 name = Some (s1, 0, idx s1 n, oidx s1 ver)"
        "strings_grow s ks s1 ks1 (length name + 4)" "n \<in> set ks1" "known ks1 ver"
      using parse_rest [OF rep v r nv(1), of 0] by auto
    have "strings_grow s ks s1 ks1 (length name + 6)" by (rule strings_grow_le [OF one(2)]) simp
    then show ?thesis using one nv cc None by (auto simp: parse_name_tail)
  next
    case (Some k)
    let ?l = "take k name" and ?rest = "drop (k + 2) name"
    have le: "length ?l + length ?rest \<le> length name" by simp
    have nv: "name_version ?rest = (n, ver)" "lib = Some ?l" using p cc Some by (simp_all add: parse_strings_def)
    have "unat (s_size s) + length ?l + 9 < 2 ^ 32" using room le by linarith
    then obtain s1 ks1 where one: "sht_intern_u s ?l = Some (s1, idx s1 ?l)" "strings_grow s ks s1 ks1 (length ?l + 2)" "?l \<in> set ks1"
      using intern_string [OF rep v, of ?l] by blast
    note g1 = one(2) [unfolded strings_grow_def]
    have r: "unat (s_size s1) + length ?rest + 13 < 2 ^ 32" using g1 room le by linarith
    have rep1: "sht_rep s1 ks1" "s_value_length s1 = 0" using g1 by simp_all
    obtain s2 ks2 where two: "parse_tail s1 (idx s1 ?l) ?rest = Some (s2, idx s1 ?l, idx s2 n, oidx s2 ver)"
        "strings_grow s1 ks1 s2 ks2 (length ?rest + 4)" "n \<in> set ks2" "known ks2 ver"
      using parse_rest [OF rep1 r nv(1), of "idx s1 ?l"] by blast
    have "strings_grow s ks s2 ks2 (length name + 6)"
      by (rule strings_grow_le [OF strings_grow_trans [OF one(2) two(2)]]) (use le in linarith)
    moreover have "bespoke_registry_parse_name s name = Some (s2, oidx s2 lib, idx s2 n, oidx s2 ver)"
      using cc Some one(1) two(1) nv(2) strings_grow_idx [OF two(2) one(3)] by (simp add: parse_name_tail)
    ultimately show ?thesis using two(3,4) nv(2) strings_grow_idx [OF two(2) one(3)] by auto
  qed
qed

subsection \<open>The renames of a registry\<close>

type_synonym rename_map = "bstr \<times> bstr option \<Rightarrow> (bstr option \<times> bstr \<times> bstr option) option"

definition pair_key :: "sht \<Rightarrow> bstr \<times> bstr option \<Rightarrow> u8 list" where
  "pair_key s p = rename_key (idx s (fst p)) (oidx s (snd p))"

definition index_triple :: "sht \<Rightarrow> bstr option \<times> bstr \<times> bstr option \<Rightarrow> u32 \<times> u32 \<times> u32" where
  "index_triple s r = (case r of (l, n, v) \<Rightarrow> (oidx s l, idx s n, oidx s v))"

definition known_pair :: "bstr list \<Rightarrow> bstr \<times> bstr option \<Rightarrow> bool" where
  "known_pair ks p \<longleftrightarrow> fst p \<in> set ks \<and> known ks (snd p)"

definition known_triple :: "bstr list \<Rightarrow> bstr option \<times> bstr \<times> bstr option \<Rightarrow> bool" where
  "known_triple ks r \<longleftrightarrow> (case r of (l, n, v) \<Rightarrow> known ks l \<and> n \<in> set ks \<and> known ks v)"

text \<open>The strings \<open>ks\<close> and the keys \<open>rks\<close> of the two tables that hold the renames \<open>R\<close>.\<close>

definition holds_renames :: "sht \<Rightarrow> bstr list \<Rightarrow> sht \<Rightarrow> bstr list \<Rightarrow> rename_map \<Rightarrow> bool" where
  "holds_renames s ks t rks R \<longleftrightarrow>
     sht_rep s ks \<and> s_value_length s = 0 \<and> sht_rep t rks \<and> s_value_length t = 3 \<and>
     (\<forall>p \<in> dom R. known_pair ks p) \<and> set rks = pair_key s ` dom R \<and>
     (\<forall>p r. R p = Some r \<longrightarrow> known_triple ks r \<and>
        (\<forall>u. (pair_key s p, u) \<in> set (sht_layout t rks) \<longrightarrow> get_rename t (4 * u) = Some (index_triple s r)))"

definition renames_are :: "bespoke_registry \<Rightarrow> rename_map \<Rightarrow> bool" where
  "renames_are rr R \<longleftrightarrow> (\<exists>ks rks. holds_renames (br_strings rr) ks (br_renames rr) rks R)"

lemma u32_bytes_inj: "u32_bytes a = u32_bytes b \<longleftrightarrow> a = b"
  using u32_of_bytes_bytes [of a] u32_of_bytes_bytes [of b] by metis

lemma rename_key_inj [simp]: "rename_key a b = rename_key c d \<longleftrightarrow> a = c \<and> b = d"
  by (simp add: rename_key_def u32_bytes_inj)

lemma length_rename_key [simp]: "length (rename_key a b) = 8"
  by (simp add: rename_key_def)

lemma pair_key_inj:
  "sht_rep s ks \<Longrightarrow> known_pair ks p \<Longrightarrow> known_pair ks q \<Longrightarrow> pair_key s p = pair_key s q \<longleftrightarrow> p = q"
  by (auto simp: pair_key_def known_pair_def idx_inj oidx_inj prod_eq_iff)

lemma index_triple_inj:
  "sht_rep s ks \<Longrightarrow> known_triple ks r \<Longrightarrow> known_triple ks r' \<Longrightarrow> index_triple s r = index_triple s r' \<longleftrightarrow> r = r'"
  by (auto simp: index_triple_def known_triple_def idx_inj oidx_inj split: prod.splits)

lemma pair_key_grow: "strings_grow s ks s' ks' n \<Longrightarrow> known_pair ks p \<Longrightarrow> pair_key s' p = pair_key s p \<and> known_pair ks' p"
  using strings_grow_idx [of s ks s' ks' n "fst p"] strings_grow_oidx [of s ks s' ks' n "snd p"]
  by (simp add: pair_key_def known_pair_def)

lemma index_triple_grow:
  "strings_grow s ks s' ks' n \<Longrightarrow> known_triple ks r \<Longrightarrow> index_triple s' r = index_triple s r \<and> known_triple ks' r"
  by (cases r) (simp add: index_triple_def known_triple_def strings_grow_idx strings_grow_oidx)

lemma holds_renames_at:
  "holds_renames s ks t rks R \<Longrightarrow> R p = Some r \<Longrightarrow> known_pair ks p \<and> known_triple ks r \<and>
    (\<forall>u. (pair_key s p, u) \<in> set (sht_layout t rks) \<longrightarrow> get_rename t (4 * u) = Some (index_triple s r))"
  unfolding holds_renames_def by blast

lemma holds_renames_grow:
  assumes h: "holds_renames s ks t rks R" and g: "strings_grow s ks s' ks' n"
  shows "holds_renames s' ks' t rks R"
proof -
  have same: "pair_key s' p = pair_key s p \<and> known_pair ks' p \<and> known_triple ks' r \<and> index_triple s' r = index_triple s r"
    if "R p = Some r" for p r
    using holds_renames_at [OF h that] pair_key_grow [OF g, of p] index_triple_grow [OF g, of r] by simp
  have "pair_key s' ` dom R = pair_key s ` dom R" by (rule image_cong) (use same in auto)
  then have "set rks = pair_key s' ` dom R" using h by (simp add: holds_renames_def)
  moreover have "\<forall>p \<in> dom R. known_pair ks' p" using same by blast
  moreover have "known_triple ks' r \<and>
      (\<forall>u. (pair_key s' p, u) \<in> set (sht_layout t rks) \<longrightarrow> get_rename t (4 * u) = Some (index_triple s' r))"
    if "R p = Some r" for p r
    using holds_renames_at [OF h that] same [OF that] by simp
  ultimately show ?thesis
    using h g unfolding holds_renames_def strings_grow_def by simp
qed

lemma holds_renames_key:
  assumes h: "holds_renames s ks t rks R" and p: "known_pair ks p"
  shows "pair_key s p \<in> set rks \<longleftrightarrow> R p \<noteq> None"
proof -
  have "q = p" if "R q = Some r" "pair_key s q = pair_key s p" for q r
    using holds_renames_at [OF h that(1)] pair_key_inj [of s ks q p] p that(2) h by (simp add: holds_renames_def)
  then show ?thesis using h by (auto simp: holds_renames_def image_iff)
qed

lemma holds_zero_rename:
  assumes "holds (s_mem t) p (replicate 12 0)"
  shows "get_rename t p = Some (0, 0, 0)"
proof -
  have "replicate 12 0 = u32_bytes 0 @ u32_bytes 0 @ u32_bytes 0" by (simp add: u32_bytes_def numeral_eq_Suc)
  then show ?thesis using assms get_rename_holds [of t p 0 0 0] by simp
qed

lemma intern_rename:
  assumes rep: "sht_rep t rks" and v: "s_value_length t = 3" and room: "unat (s_size t) + 10 < 2 ^ 32" and len: "length key = 8"
  shows "\<exists>t' u rks'. sht_intern_p t key = Some (t', 4 * u) \<and> sht_rep t' rks' \<and> s_value_length t' = 3 \<and>
    (key, u) \<in> set (sht_layout t' rks') \<and> set rks' = insert key (set rks) \<and>
    (\<forall>(k', u') \<in> set (sht_layout t' rks'). k' \<noteq> key \<longrightarrow>
       (k', u') \<in> set (sht_layout t rks) \<and> get_rename t' (4 * u') = get_rename t (4 * u')) \<and>
    (if key \<in> set rks then t' = t \<and> rks' = rks else get_rename t' (4 * u) = Some (0, 0, 0))"
proof -
  have r: "sht_room t key" using room len v by (simp add: sht_room_def key_units_def)
  obtain t' u where i: "sht_intern_u t key = Some (t', of_nat u)" "0 < u" "u < 2 ^ 32"
      "if key \<in> set rks then t' = t \<and> map_of (sht_layout t rks) key = Some u
     else u = unat (s_size t) + key_units key \<and> sht_rep t' (rks @ [key]) \<and>
       sht_layout t' (rks @ [key]) = sht_layout t rks @ [(key, u)] \<and>
       holds (s_mem t') (4 * u) (replicate (4 * unat (s_value_length t)) 0) \<and>
       (\<forall>i < 4 * unat (s_size t). s_mem t' i = s_mem t i) \<and> s_value_length t' = s_value_length t"
    using sht_intern_spec [OF rep r] by metis
  have p: "sht_intern_p t key = Some (t', 4 * u)" using i(1,3) by (simp add: sht_intern_p_def unat_of_nat)
  show ?thesis
  proof (cases "key \<in> set rks")
    case True
    then have "t' = t" "(key, u) \<in> set (sht_layout t rks)" using i(4) by (auto dest: map_of_SomeD)
    then show ?thesis using p rep v True by (intro exI [of _ t] exI [of _ u] exI [of _ rks]) auto
  next
    case False
    then have n: "sht_rep t' (rks @ [key])" "sht_layout t' (rks @ [key]) = sht_layout t rks @ [(key, u)]"
        "holds (s_mem t') (4 * u) (replicate 12 0)" "\<forall>i < 4 * unat (s_size t). s_mem t' i = s_mem t i" "s_value_length t' = 3"
      using i(4) v False by auto
    have c: "contents_ok t rks" using rep by (simp add: sht_rep_def)
    have "get_rename t' (4 * u') = get_rename t (4 * u')" if "(k', u') \<in> set (sht_layout t rks)" for k' u'
      by (rule get_rename_cong) (use layout_less(4) [OF c that] n(4) v in simp)
    then show ?thesis
      using p n False holds_zero_rename [OF n(3)]
      by (intro exI [of _ t'] exI [of _ u] exI [of _ "rks @ [key]"]) auto
  qed
qed

subsection \<open>Adding a rename\<close>

definition registry_room :: "bespoke_registry \<Rightarrow> bstr \<Rightarrow> bstr \<Rightarrow> bool" where
  "registry_room rr old new \<longleftrightarrow>
     unat (s_size (br_strings rr)) + length old + length new + 21 < 2 ^ 32 \<and> unat (s_size (br_renames rr)) + 10 < 2 ^ 32"

lemma idx_nonzero: "sht_rep s ks \<Longrightarrow> known_triple ks r \<Longrightarrow> fst (snd (index_triple s r)) \<noteq> 0"
  using idx_look by (cases r) (auto simp: known_triple_def index_triple_def)

lemma layout_unique:
  "sht_rep s ks \<Longrightarrow> (k, u) \<in> set (sht_layout s ks) \<Longrightarrow> (k, u') \<in> set (sht_layout s ks) \<Longrightarrow> u = u'"
  using rep_map_of [of s ks k u] rep_map_of [of s ks k u'] by simp

lemma holds_renames_put:
  assumes h: "holds_renames s ks t rks R" and p: "known_pair ks p" "R p = None" and r: "known_triple ks r"
    and i: "sht_rep t1 rks1" "s_value_length t1 = 3" "(pair_key s p, u) \<in> set (sht_layout t1 rks1)"
      "set rks1 = insert (pair_key s p) (set rks)" "get_rename t1 (4 * u) = Some (0, 0, 0)"
    and old: "\<forall>(k', u') \<in> set (sht_layout t1 rks1). k' \<noteq> pair_key s p \<longrightarrow>
       (k', u') \<in> set (sht_layout t rks) \<and> get_rename t1 (4 * u') = get_rename t (4 * u')"
  shows "\<exists>t2. put_rename t1 (4 * u) (index_triple s r) = Some t2 \<and> holds_renames s ks t2 rks1 (R(p \<mapsto> r))"
proof -
  obtain t2 where t2: "put_rename t1 (4 * u) (index_triple s r) = Some t2" "sht_rep t2 rks1" "s_value_length t2 = 3"
      "sht_layout t2 rks1 = sht_layout t1 rks1" "get_rename t2 (4 * u) = Some (index_triple s r)"
      "\<forall>(k', u') \<in> set (sht_layout t1 rks1). u' \<noteq> u \<longrightarrow> get_rename t2 (4 * u') = get_rename t1 (4 * u')"
    using put_rename_ok [OF i(1-3), of "index_triple s r"] i(5) by auto
  have keys: "set rks1 = pair_key s ` dom (R(p \<mapsto> r))" using h i(4) by (auto simp: holds_renames_def)
  have "get_rename t2 (4 * u') = Some (index_triple s r')"
    if m: "(pair_key s q, u') \<in> set (sht_layout t2 rks1)" and q: "(R(p \<mapsto> r)) q = Some r'" for q r' u'
  proof (cases "q = p")
    case True
    then show ?thesis using layout_unique [OF i(1), of "pair_key s p" u u'] i(3) m q t2(4,5) by simp
  next
    case False
    then have Rq: "R q = Some r'" using q by simp
    note at = holds_renames_at [OF h Rq]
    have ne: "pair_key s q \<noteq> pair_key s p" using at p(1) h False pair_key_inj [of s ks q p] by (simp add: holds_renames_def)
    have m1: "(pair_key s q, u') \<in> set (sht_layout t1 rks1)" using m t2(4) by simp
    have "u' \<noteq> u" using layout_apart [OF m1 [unfolded sht_layout_def] i(3) [unfolded sht_layout_def]] ne i(2)
      by auto
    then show ?thesis using t2(6) old m1 ne at by fastforce
  qed
  then have "holds_renames s ks t2 rks1 (R(p \<mapsto> r))"
    using h p(1) r t2(2,3) keys unfolding holds_renames_def by (auto split: if_splits)
  then show ?thesis using t2(1) by blast
qed

lemma registry_add:
  assumes h: "holds_renames s ks t rks R" and room: "registry_room \<lparr>br_strings = s, br_renames = t\<rparr> old_name new_name"
    and p: "parse_strings old_name = Some (l, p)" and r: "parse_strings new_name = Some r"
  shows "\<exists>rr'. bespoke_registry_add_one \<lparr>br_strings = s, br_renames = t\<rparr> old_name new_name = Some (rr', R p \<in> {None, Some r}) \<and>
    renames_are rr' (if R p = None then R(p \<mapsto> r) else R)"
proof -
  have rep: "sht_rep s ks" "s_value_length s = 0" "sht_rep t rks" "s_value_length t = 3" using h by (simp_all add: holds_renames_def)
  have p': "parse_strings old_name = Some (l, fst p, snd p)" using p by simp
  obtain s1 ks1 where one: "bespoke_registry_parse_name s old_name = Some (s1, oidx s1 l, idx s1 (fst p), oidx s1 (snd p))"
      "strings_grow s ks s1 ks1 (length old_name + 6)" "known_pair ks1 p"
    using parse_ok [OF rep(1,2) _ p'] room by (auto simp: registry_room_def known_pair_def)
  note g1 = one(2) [unfolded strings_grow_def]
  obtain rl rn rv where r3: "r = (rl, rn, rv)" by (cases r)
  have rep1: "sht_rep s1 ks1" "s_value_length s1 = 0" using g1 by simp_all
  have "unat (s_size s1) + length new_name + 15 < 2 ^ 32" using g1 room by (simp add: registry_room_def)
  then obtain s2 ks2 where two: "bespoke_registry_parse_name s1 new_name = Some (s2, index_triple s2 r)"
      "strings_grow s1 ks1 s2 ks2 (length new_name + 6)" "known_triple ks2 r"
    using parse_ok [OF rep1 _ r [unfolded r3]] by (auto simp: r3 index_triple_def known_triple_def)
  have key: "pair_key s2 p = pair_key s1 p" "known_pair ks2 p" using pair_key_grow [OF two(2) one(3)] by simp_all
  have h2: "holds_renames s2 ks2 t rks R" by (rule holds_renames_grow [OF holds_renames_grow [OF h one(2)] two(2)])
  then have rep2: "sht_rep s2 ks2" by (simp add: holds_renames_def)
  have room_t: "unat (s_size t) + 10 < 2 ^ 32" using room by (simp add: registry_room_def)
  have len: "length (pair_key s1 p) = 8" by (simp add: pair_key_def)
  obtain t1 u rks1 where t1: "sht_intern_p t (pair_key s1 p) = Some (t1, 4 * u)" "sht_rep t1 rks1" "s_value_length t1 = 3"
      "(pair_key s1 p, u) \<in> set (sht_layout t1 rks1)" "set rks1 = insert (pair_key s1 p) (set rks)"
      "\<forall>(k', u') \<in> set (sht_layout t1 rks1). k' \<noteq> pair_key s1 p \<longrightarrow>
         (k', u') \<in> set (sht_layout t rks) \<and> get_rename t1 (4 * u') = get_rename t (4 * u')"
      "if pair_key s1 p \<in> set rks then t1 = t \<and> rks1 = rks else get_rename t1 (4 * u) = Some (0, 0, 0)"
    using intern_rename [OF rep(3,4) room_t len] by blast
  note run = bespoke_registry_add_one_def one(1) two(1) t1(1) [unfolded pair_key_def]
  show ?thesis
  proof (cases "R p")
    case None
    then have "get_rename t1 (4 * u) = Some (0, 0, 0)" using t1(7) holds_renames_key [OF h2 key(2)] key(1) by simp
    moreover obtain t2 where "put_rename t1 (4 * u) (index_triple s2 r) = Some t2" "holds_renames s2 ks2 t2 rks1 (R(p \<mapsto> r))"
      using holds_renames_put [OF h2 key(2) None two(3), of t1 rks1 u] t1 key(1) calculation by auto
    ultimately show ?thesis using None by (auto simp: run renames_are_def)
  next
    case (Some q)
    then have same: "t1 = t" "rks1 = rks" using t1(7) holds_renames_key [OF h2 key(2)] key(1) by simp_all
    note at = holds_renames_at [OF h2 Some]
    have "get_rename t (4 * u) = Some (index_triple s2 q)" using at t1(4) same key(1) by simp
    moreover have "index_triple s2 q = index_triple s2 r \<longleftrightarrow> q = r" using index_triple_inj [OF rep2] at two(3) by simp
    moreover have "fst (snd (index_triple s2 q)) \<noteq> 0" using idx_nonzero [OF rep2] at by simp
    ultimately show ?thesis using Some same h2 by (auto simp: run renames_are_def)
  qed
qed

subsection \<open>Looking a rename up\<close>

lemma lookup_string:
  assumes rep: "sht_rep s ks" and len: "length k < 2 ^ 32"
  shows "sht_lookup_u s k = Some (if k \<in> set ks then idx s k else 0)"
  using idx_look [OF rep, of k] sht.look_out [OF rep, of k] len by (auto simp: key_fits_def)

lemma oidx_zero: "sht_rep s ks \<Longrightarrow> known ks v \<Longrightarrow> oidx s v = 0 \<longleftrightarrow> v = None"
  using idx_look [of s ks "the v"] by (cases v) auto

definition renamed_by :: "rename_map \<Rightarrow> renamed_symbol \<Rightarrow> renamed_symbol option" where
  "renamed_by R s = map_option (\<lambda>(lib, name, version).
     \<lparr>rs_lib = (if lib = None then rs_lib s else lib), rs_name = name, rs_version = version\<rparr>) (R (rs_name s, rs_version s))"

lemma registry_apply:
  assumes h: "holds_renames (br_strings rr) ks (br_renames rr) rks R"
    and len: "length (rs_name x) < 2 ^ 32" "\<forall>v. rs_version x = Some v \<longrightarrow> length v < 2 ^ 32"
  shows "bespoke_registry_apply_to_name rr x = Some (renamed_by R x)"
proof -
  let ?s = "br_strings rr" and ?t = "br_renames rr" and ?p = "(rs_name x, rs_version x)"
  have rep: "sht_rep ?s ks" "sht_rep ?t rks" using h by (simp_all add: holds_renames_def)
  have ver: "(case rs_version x of Some v \<Rightarrow> sht_lookup_u ?s v | None \<Rightarrow> Some 0) =
      Some (if known ks (rs_version x) then oidx ?s (rs_version x) else 0)"
    using lookup_string [OF rep(1)] len(2) by (cases "rs_version x") auto
  have name: "sht_lookup_u ?s (rs_name x) = Some (if rs_name x \<in> set ks then idx ?s (rs_name x) else 0)"
    by (rule lookup_string [OF rep(1) len(1)])
  show ?thesis
  proof (cases "known_pair ks ?p")
    case False
    then have "R ?p = None" using holds_renames_at [OF h, of ?p] by (cases "R ?p") auto
    then show ?thesis
      using False ver name oidx_zero [OF rep(1), of "rs_version x"]
      by (auto simp: bespoke_registry_apply_to_name_def renamed_by_def known_pair_def split: if_splits)
  next
    case True
    then have k: "rs_name x \<in> set ks" "known ks (rs_version x)" by (simp_all add: known_pair_def)
    have key: "rename_key (idx ?s (rs_name x)) (oidx ?s (rs_version x)) = pair_key ?s ?p" by (simp add: pair_key_def)
    have found: "sht_lookup_p ?t (pair_key ?s ?p) = Some (map_option (\<lambda>u. 4 * u) (map_of (sht_layout ?t rks) (pair_key ?s ?p)))"
      by (rule sht_lookup_spec(2) [OF rep(2)]) (simp add: pair_key_def)
    have head: "bespoke_registry_apply_to_name rr x = (case map_of (sht_layout ?t rks) (pair_key ?s ?p) of None \<Rightarrow> Some None
         | Some u \<Rightarrow> do {
             (new_lib, new_name, new_ver) \<leftarrow> get_rename ?t (4 * u);
             lib \<leftarrow> (if new_lib \<noteq> 0 then map_option Some (sht_u_key ?s new_lib) else Some (rs_lib x));
             name \<leftarrow> sht_u_key ?s new_name;
             version \<leftarrow> (if new_ver \<noteq> 0 then map_option Some (sht_u_key ?s new_ver) else Some None);
             Some (Some \<lparr>rs_lib = lib, rs_name = name, rs_version = version\<rparr>) })"
      using ver name k idx_look [OF rep(1) k(1)] oidx_zero [OF rep(1) k(2)] found
      by (cases "rs_version x"; cases "map_of (sht_layout ?t rks) (pair_key ?s ?p)")
        (simp_all add: bespoke_registry_apply_to_name_def pair_key_def)
    show ?thesis
    proof (cases "R ?p")
      case None
      then have "map_of (sht_layout ?t rks) (pair_key ?s ?p) = None"
        using holds_renames_key [OF h True] by (simp add: map_of_eq_None_iff fst_sht_layout)
      then show ?thesis using None by (simp add: head renamed_by_def)
    next
      case (Some r)
      then obtain u where u: "map_of (sht_layout ?t rks) (pair_key ?s ?p) = Some u"
        using holds_renames_key [OF h True] fst_sht_layout [of ?t rks] by (metis map_of_eq_None_iff not_None_eq option.distinct(1))
      obtain l n v where r: "r = (l, n, v)" by (cases r)
      have "get_rename ?t (4 * u) = Some (oidx ?s l, idx ?s n, oidx ?s v)" and known: "known ks l" "n \<in> set ks" "known ks v"
        using holds_renames_at [OF h Some] map_of_SomeD [OF u] by (auto simp: r index_triple_def known_triple_def)
      then show ?thesis
        using u Some idx_key [OF rep(1)] idx_look [OF rep(1)] known
        by (cases l; cases v) (auto simp: head r renamed_by_def)
    qed
  qed
qed

subsection \<open>Following renames\<close>

fun rename_steps :: "renamer \<Rightarrow> nat \<Rightarrow> renamed_symbol \<Rightarrow> renamed_symbol option" where
  "rename_steps rn 0 s = Some s"
| "rename_steps rn (Suc n) s = (case renamer_apply_to_name_one_step rn s of
     Some (Some s') \<Rightarrow> rename_steps rn n s' | _ \<Rightarrow> None)"

lemma steps_end_unique:
  "rename_steps rn n s = Some t \<Longrightarrow> rename_steps rn m s = Some u \<Longrightarrow> m < n \<Longrightarrow>
    \<exists>u'. renamer_apply_to_name_one_step rn u = Some (Some u')"
proof (induction n arbitrary: s m)
  case (Suc n)
  show ?case
  proof (cases m)
    case 0
    then show ?thesis using Suc.prems by (auto split: option.splits)
  next
    case (Suc m')
    then show ?thesis using Suc.prems Suc.IH [of _ m'] by (auto split: option.splits)
  qed
qed simp

lemma rename_from_end:
  assumes "num < 1000"
  shows "rename_from rn num s = Some (Inr r) \<longleftrightarrow>
    (\<exists>n t. num + n < 1000 \<and> rename_steps rn n s = Some t \<and>
      renamer_apply_to_name_one_step rn t = Some None \<and> r = (t, num + n \<noteq> 0))"
  using assms
proof (induction rn num s rule: rename_from.induct)
  case (1 rn num s)
  note step = rename_from.simps [of rn num s]
  show ?case
  proof (cases "renamer_apply_to_name_one_step rn s")
    case None
    then have "\<not> (rename_steps rn n s = Some t \<and> renamer_apply_to_name_one_step rn t = Some None)" for n t
      by (cases n) auto
    then show ?thesis using None by (auto simp: step)
  next
    case (Some q)
    show ?thesis
    proof (cases q)
      case None
      then have "rename_steps rn n s = Some t \<longleftrightarrow> n = 0 \<and> t = s" for n t using Some by (cases n) auto
      then show ?thesis using Some None 1(2) by (auto simp: step)
    next
      case (Some s')
      with \<open>renamer_apply_to_name_one_step rn s = Some q\<close>
      have one: "renamer_apply_to_name_one_step rn s = Some (Some s')" by simp
      have later: "rename_steps rn n s = Some t \<and> renamer_apply_to_name_one_step rn t = Some None \<longleftrightarrow>
          (\<exists>k. n = Suc k \<and> rename_steps rn k s' = Some t \<and> renamer_apply_to_name_one_step rn t = Some None)" for n t
        using one by (cases n) auto
      show ?thesis
      proof (cases "num + 1 \<ge> 1000")
        case True
        then have "num = 999" using 1(2) by simp
        then show ?thesis using one later by (auto simp: step [unfolded \<open>num = 999\<close>])
      next
        case False
        then have "rename_from rn num s = rename_from rn (num + 1) s'" using one by (simp add: step)
        moreover have "(\<exists>n t. num + n < 1000 \<and> rename_steps rn n s = Some t \<and>
              renamer_apply_to_name_one_step rn t = Some None \<and> r = (t, num + n \<noteq> 0)) \<longleftrightarrow>
            (\<exists>k t. num + 1 + k < 1000 \<and> rename_steps rn k s' = Some t \<and>
              renamer_apply_to_name_one_step rn t = Some None \<and> r = (t, num + 1 + k \<noteq> 0))" (is "?l \<longleftrightarrow> ?r")
        proof
          assume ?l
          then obtain n t where n: "num + n < 1000" "rename_steps rn n s = Some t"
            "renamer_apply_to_name_one_step rn t = Some None" "r = (t, num + n \<noteq> 0)" by blast
          then obtain k where k: "n = Suc k" "rename_steps rn k s' = Some t" using later by blast
          show ?r by (rule exI [of _ k], rule exI [of _ t]) (use n k in simp)
        next
          assume ?r
          then obtain k t where k: "num + 1 + k < 1000" "rename_steps rn k s' = Some t"
            "renamer_apply_to_name_one_step rn t = Some None" "r = (t, num + 1 + k \<noteq> 0)" by blast
          show ?l by (rule exI [of _ "Suc k"], rule exI [of _ t]) (use k one in simp)
        qed
        ultimately show ?thesis using 1(1) [OF one refl False] False by simp
      qed
    qed
  qed
qed

lemma rename_from_loop:
  assumes "num < 1000"
  shows "rename_from rn num s = Some (Inl t) \<longleftrightarrow> rename_steps rn (1000 - num) s = Some t"
  using assms
proof (induction rn num s rule: rename_from.induct)
  case (1 rn num s)
  note step = rename_from.simps [of rn num s]
  have less: "1000 - num = Suc (999 - num)" using 1(2) by simp
  show ?case
  proof (cases "\<exists>s'. renamer_apply_to_name_one_step rn s = Some (Some s')")
    case False
    then show ?thesis by (auto simp: step less split: option.splits)
  next
    case True
    then obtain s' where one: "renamer_apply_to_name_one_step rn s = Some (Some s')" by blast
    show ?thesis
    proof (cases "num + 1 \<ge> 1000")
      case True
      then have n: "num = 999" using 1(2) by simp
      then show ?thesis using one by (simp add: step [unfolded n])
    next
      case False
      then show ?thesis using 1(1) [OF one refl False] one by (simp add: step less not_le)
    qed
  qed
qed

text \<open>
  C27: renaming a symbol follows the registries to the end: the result is the symbol at the end of
  a chain of fewer than a thousand renames, changed when the chain is not empty, exactly when
  there is such a chain; a chain of a thousand renames, such as a cycle, is the fatal error.
\<close>

theorem renamer_apply_follows:
  "(renamer_apply_to_name rn s = Some (Inr (t, changed)) \<longleftrightarrow>
      (\<exists>n. n < 1000 \<and> rename_steps rn n s = Some t \<and>
         renamer_apply_to_name_one_step rn t = Some None \<and> changed = (n \<noteq> 0))) \<and>
   (renamer_apply_to_name rn s = Some (Inl t) \<longleftrightarrow> rename_steps rn 1000 s = Some t)"
  using rename_from_end [of 0 rn s] rename_from_loop [of 0 rn s t] by (auto simp: renamer_apply_to_name_def)

subsection \<open>The registry as a map\<close>

lemma sht_init_12: "s_value_length (sht_init 12) = 3" "s_size (sht_init 12) = 3"
  by (simp_all add: sht_init_def)

lemma renames_are_init: "renames_are \<lparr>br_strings = sht_init 0, br_renames = sht_init 12\<rparr> Map.empty"
  unfolding renames_are_def
  by (intro exI [of _ "[]"]) (simp add: holds_renames_def sht_init_rep sht_init_12, simp add: sht_init_def)

text \<open>
  C25: a bespoke registry that holds a map of renames, given another rename, holds the map
  extended by it when the symbol had none; otherwise the map stays and the addition is
  accepted only when it repeats the rename. The empty registry holds the empty map.
\<close>

theorem bespoke_add_refines:
  assumes "renames_are rr R" and "registry_room rr old_name new_name"
    and "parse_strings old_name = Some (l, p)" and "parse_strings new_name = Some r"
  shows "\<exists>rr'. bespoke_registry_add_one rr old_name new_name = Some (rr', R p \<in> {None, Some r}) \<and>
    renames_are rr' (if R p = None then R(p \<mapsto> r) else R)"
proof -
  obtain ks rks where h: "holds_renames (br_strings rr) ks (br_renames rr) rks R" using assms(1) by (auto simp: renames_are_def)
  have "rr = \<lparr>br_strings = br_strings rr, br_renames = br_renames rr\<rparr>" by (cases rr) simp
  then show ?thesis using registry_add [OF h _ assms(3,4)] assms(2) by metis
qed

abbreviation empty_registry :: bespoke_registry where
  "empty_registry \<equiv> \<lparr>br_strings = sht_init 0, br_renames = sht_init 12\<rparr>"

lemma parse_strings_plain: "parse_strings [98] = Some (None, [98], None)"
  and parse_strings_full: "parse_strings [109, 58, 58, 97, 64, 118] = Some (Some [109], [97], Some [118])"
  by (simp_all add: parse_strings_def name_version_def find_colon_colon.simps char_from_def rd_def upt_rec)

theorem bespoke_add_refines_witness:
  "\<exists>rr. bespoke_registry_add_one empty_registry [98] [109, 58, 58, 97, 64, 118] = Some (rr, True) \<and>
    renames_are rr [([98], None) \<mapsto> (Some [109], [97], Some [118])]"
proof -
  have "registry_room empty_registry [98] [109, 58, 58, 97, 64, 118]" by (simp add: registry_room_def sht_init_def)
  from bespoke_add_refines [OF renames_are_init this parse_strings_plain parse_strings_full] show ?thesis by simp
qed

text \<open>
  C26: a bespoke registry that holds a map of renames renames a symbol as the map does: to the
  name and version of its rename, in its library or, when it names none, in the one the symbol
  had; a symbol without a rename is left.
\<close>

theorem bespoke_apply_refines:
  assumes "renames_are rr R" and "length (rs_name s) < 2 ^ 32" and "\<forall>v. rs_version s = Some v \<longrightarrow> length v < 2 ^ 32"
  shows "bespoke_registry_apply_to_name rr s = Some (renamed_by R s)"
proof -
  obtain ks rks where "holds_renames (br_strings rr) ks (br_renames rr) rks R" using assms(1) by (auto simp: renames_are_def)
  from registry_apply [OF this assms(2,3)] show ?thesis .
qed

theorem bespoke_apply_refines_witness:
  "bespoke_registry_apply_to_name empty_registry \<lparr>rs_lib = None, rs_name = [98], rs_version = Some [118]\<rparr> = Some None"
  using bespoke_apply_refines [OF renames_are_init, of "\<lparr>rs_lib = None, rs_name = [98], rs_version = Some [118]\<rparr>"]
  by (simp add: renamed_by_def)

end
