(* ===== verification/ErwApi.thy ===== *)
theory ErwApi
  imports Flush
begin

section \<open>erw.c: the operations on the dynamic section that open its editor first\<close>

text \<open>Most functions of erw.c forward to those of erw_nne.h; these open the editor of the dynamic section when it is closed.\<close>

definition erw_dhdrs_remove :: "'a::len word erw \<Rightarrow> u32 \<Rightarrow> 'a word erw option" where
  "erw_dhdrs_remove erw tag = do { erw \<leftarrow> dhdrs_ready erw; dhdrs_remove erw (ucast tag) }"

definition erw_dhdrs_remove_mask :: "'a::len word erw \<Rightarrow> u64 \<Rightarrow> 'a word erw option" where
  "erw_dhdrs_remove_mask erw tags = do { erw \<leftarrow> dhdrs_ready erw; dhdrs_remove_mask erw tags }"

definition erw_dhdrs_set_u :: "'a::len word erw \<Rightarrow> u32 \<Rightarrow> u64 \<Rightarrow> 'a word erw option" where
  "erw_dhdrs_set_u erw tag v = do { erw \<leftarrow> dhdrs_ready erw; dhdrs_set_u erw (ucast tag) (ucast v) }"

definition erw_dhdrs_get_flags :: "'a::len word erw \<Rightarrow> ('a word erw \<times> u64) option" where
  "erw_dhdrs_get_flags erw = do { erw \<leftarrow> dhdrs_ready erw; flags \<leftarrow> dhdrs_get_flags erw; Some (erw, flags) }"

definition erw_dhdrs_add_remove_flags :: "'a::len word erw \<Rightarrow> u32 \<Rightarrow> u32 \<Rightarrow> u32 \<Rightarrow> 'a word erw option" where
  "erw_dhdrs_add_remove_flags erw tag add rem = do { erw \<leftarrow> dhdrs_ready erw; dhdrs_add_remove_flags erw (ucast tag) add rem }"

definition erw_dhdrs_set_str :: "'a::len word erw \<Rightarrow> u32 \<Rightarrow> bstr \<Rightarrow> 'a word erw option" where
  "erw_dhdrs_set_str erw tag str = do { erw \<leftarrow> dhdrs_ready erw; dhdrs_set_str erw (ucast tag) str }"

definition erw_dhdrs_has :: "'a::len word erw \<Rightarrow> u32 \<Rightarrow> ('a word erw \<times> u64 option) option" where
  "erw_dhdrs_has erw tag = do { erw \<leftarrow> dhdrs_ready erw; v \<leftarrow> dhdrs_has erw (ucast tag); Some (erw, v) }"

definition erw_dhdrs_has_needed :: "'a::len word erw \<Rightarrow> bstr \<Rightarrow> ('a word erw \<times> bool) option" where
  "erw_dhdrs_has_needed erw str = do { erw \<leftarrow> dhdrs_ready erw; dhdrs_has_needed erw str }"

definition erw_dhdrs_remove_needed :: "'a::len word erw \<Rightarrow> bstr \<Rightarrow> 'a word erw option" where
  "erw_dhdrs_remove_needed erw str = do { erw \<leftarrow> dhdrs_ready erw; dhdrs_remove_needed erw str }"

definition erw_dhdrs_is_eager :: "'a::len word erw \<Rightarrow> ('a word erw \<times> bool) option" where
  "erw_dhdrs_is_eager erw = do {
     (erw, flags) \<leftarrow> erw_dhdrs_get_flags erw;
     Some (erw, flags AND (DF_BIND_NOW OR push_bit 32 DF_1_NOW) \<noteq> 0) }"

end
