(* ===== verification/RenameApply.thy ===== *)
theory RenameApply
  imports Renames ErwApi
begin

section \<open>renamer.c, renamer_nne.h: renaming the symbols of a file\<close>

text \<open>
  The functions of a polyfiller are a record, as in polyfiller.h; they work on a world that has
  the rewriter, the renamer and the state of the polyfiller. \<open>None\<close> stands for the fatal
  errors, and for a use of memory that is not there, or no longer there.
\<close>

type_synonym ('w, 'p) world = "'w erw \<times> renamer \<times> 'p"

record ('w, 'p) polyfiller_fns =
  pf_init :: "u8 \<Rightarrow> 'p"
  pf_add_fixup_for_dt_relr :: "('w, 'p) world \<Rightarrow> (('w, 'p) world \<times> bool) option"
  pf_add :: "bstr \<Rightarrow> ('w, 'p) world \<Rightarrow> (('w, 'p) world \<times> u32 \<times> u8) option"
  pf_finished_adding :: "('w, 'p) world \<Rightarrow> ('w, 'p) world option"
  pf_addr_of :: "'p \<Rightarrow> u32 \<Rightarrow> u64 option"

text \<open>\<open>addr_of\<close> is the null pointer.\<close>

definition polyfiller_fns_noop :: "'p \<Rightarrow> ('w, 'p) polyfiller_fns" where
  "polyfiller_fns_noop p = \<lparr>pf_init = (\<lambda>cfi_mode. p), pf_add_fixup_for_dt_relr = (\<lambda>wd. Some (wd, False)),
     pf_add = (\<lambda>name wd. Some (wd, 0, 0)), pf_finished_adding = Some, pf_addr_of = (\<lambda>p token. None)\<rparr>"

definition polyfiller_for_machine :: "('w, 'p) polyfiller_fns \<Rightarrow> ('w, 'p) polyfiller_fns \<Rightarrow> 'p \<Rightarrow> u16 \<Rightarrow> ('w, 'p) polyfiller_fns" where
  "polyfiller_for_machine aarch64 x86_64 p machine =
    (if machine = EM_AARCH64 then aarch64 else if machine = EM_X86_64 then x86_64 else polyfiller_fns_noop p)"

text \<open>\<open>se_polyfiller\<close> is \<open>None\<close> until a polyfiller is needed.\<close>

record ('w, 'p) session =
  se_erw :: "'w erw"
  se_renamer :: renamer
  se_polyfiller :: "'p option"

definition ensure_has_polyfiller :: "('w, 'p) polyfiller_fns \<Rightarrow> ('w, 'p) session \<Rightarrow> ('w, 'p) session" where
  "ensure_has_polyfiller fns se =
    (if se_polyfiller se = None then se\<lparr>se_polyfiller := Some (pf_init fns (ro_cfi_mode (rn_options (se_renamer se))))\<rparr> else se)"

definition in_world :: "(('w, 'p) world \<Rightarrow> (('w, 'p) world \<times> 'r) option) \<Rightarrow> ('w, 'p) session \<Rightarrow> (('w, 'p) session \<times> 'r) option" where
  "in_world g se = do {
     p \<leftarrow> se_polyfiller se;
     ((erw, rn, p), r) \<leftarrow> g (se_erw se, se_renamer se, p);
     Some (\<lparr>se_erw = erw, se_renamer = rn, se_polyfiller = Some p\<rparr>, r) }"

definition renamer_add_nodelete :: "renamer \<Rightarrow> 'a::len word erw \<Rightarrow> 'a word erw option" where
  "renamer_add_nodelete rn erw =
    (if \<not> ro_create_polyfill_so (rn_options rn) then erw_dhdrs_add_remove_flags erw DT_FLAGS_1 DF_1_NODELETE 0 else Some erw)"

subsection \<open>Exporting polyfills\<close>

definition set_polyfill_token :: "nat \<Rightarrow> u32 \<Rightarrow> 'a::len word erw \<Rightarrow> 'a word erw option" where
  "set_polyfill_token i token erw = do {
     s \<leftarrow> sym_get erw i;
     erw \<leftarrow> sym_put erw i (s\<lparr>st_value := esw (e_bswap erw) (ucast token), st_shndx := 0xffff\<rparr>);
     add_sym_flags erw i (SYM_INFO_WANT_POLYFILL OR SYM_INFO_EXPORTABLE OR SYM_INFO_IN_HASH OR SYM_INFO_IN_GNU_HASH) }"

definition export_polyfill_symbol :: "('a::len word, 'p) polyfiller_fns \<Rightarrow> bstr \<Rightarrow> ('a word, 'p) session \<times> u16 \<Rightarrow>
    (('a word, 'p) session \<times> u16) option" where
  "export_polyfill_symbol fns name s = (case s of (se, ver_idx) \<Rightarrow> do {
     (se, token, stt) \<leftarrow> in_world (pf_add fns name) (ensure_has_polyfiller fns se);
     if token = 0 then None
     else do {
       let erw = se_erw se;
       let nsym = sym_count erw;
       (erw, ver_idx) \<leftarrow> (if ver_idx = 0 then do {
           (erw, _, v) \<leftarrow> erw_vers_find_or_add erw 0 None (Some (bytes_of ''POLYFILL''));
           Some (erw, 0x8000 OR v) }
         else Some (erw, ver_idx));
       (erw, sidx) \<leftarrow> dsyms_find_or_add erw name ver_idx stt;
       erw \<leftarrow> (if sidx \<ge> nsym then set_polyfill_token (unat sidx) token erw else Some erw);
       Some (se\<lparr>se_erw := erw\<rparr>, ver_idx) } })"

text \<open>
  The loops hold pointers into the table of renames and into the array of registries, so they
  are undefined once one of these was moved to grow.
\<close>

definition bespoke_at :: "('w, 'p) session \<Rightarrow> nat \<Rightarrow> bespoke_registry option" where
  "bespoke_at se i = Option.bind (rd (rn_registries (se_renamer se)) i)
     (\<lambda>rr. case rr of Bespoke b \<Rightarrow> Some b | Target _ \<Rightarrow> None)"

definition bespoke_export :: "('a::len word, 'p) polyfiller_fns \<Rightarrow> nat \<Rightarrow> u32 \<Rightarrow> nat \<Rightarrow> ('a word, 'p) session \<times> u16 \<Rightarrow>
    (('a word, 'p) session \<times> u16) option" where
  "bespoke_export fns i polyfill_lib itr s = do {
     b \<leftarrow> bespoke_at (fst s) i;
     (lib, name, version) \<leftarrow> get_rename (br_renames b) itr;
     if lib = polyfill_lib \<and> version = 0 then do {
       name \<leftarrow> sht_u_key (br_strings b) name;
       s \<leftarrow> export_polyfill_symbol fns name s;
       b' \<leftarrow> bespoke_at (fst s) i;
       if s_capacity (br_renames b') = s_capacity (br_renames b) then Some s else None }
     else Some s }"

partial_function (option) bespoke_exports ::
    "('a::len word, 'p) polyfiller_fns \<Rightarrow> nat \<Rightarrow> u32 \<Rightarrow> nat option \<Rightarrow> ('a word, 'p) session \<times> u16 \<Rightarrow> (('a word, 'p) session \<times> u16) option" where
  "bespoke_exports fns i polyfill_lib itr s =
    (if itr = None then Some s
     else Option.bind (bespoke_export fns i polyfill_lib (the itr) s) (\<lambda>s.
       Option.bind (bespoke_at (fst s) i) (\<lambda>b.
         Option.bind (sht_iter_next_p (br_renames b) (the itr)) (\<lambda>itr. bespoke_exports fns i polyfill_lib itr s))))"

definition bespoke_registry_create_polyfill_so :: "('a::len word, 'p) polyfiller_fns \<Rightarrow> nat \<Rightarrow> ('a word, 'p) session \<times> u16 \<Rightarrow>
    (('a word, 'p) session \<times> u16) option" where
  "bespoke_registry_create_polyfill_so fns i s = do {
     b \<leftarrow> bespoke_at (fst s) i;
     polyfill_lib \<leftarrow> sht_lookup_u (br_strings b) (bytes_of ''polyfill'');
     if polyfill_lib = 0 then Some s
     else bespoke_exports fns i polyfill_lib (sht_iter_start_p (br_renames b)) s }"

definition target_name_export :: "('a::len word, 'p) polyfiller_fns \<Rightarrow> mem \<Rightarrow> nat \<Rightarrow> nat \<Rightarrow> ('a word, 'p) session \<times> u16 \<Rightarrow>
    (('a word, 'p) session \<times> u16) option" where
  "target_name_export fns m table2 idx2 s = do {
     slot \<leftarrow> slot_at m table2 (of_nat idx2);
     let payload2 = table2 + unat (slot_hi slot);
     if slot_hi slot = 0 then Some s
     else do {
       new_lib_len \<leftarrow> m (payload2 + 1);
       new_ver_len \<leftarrow> m (payload2 + 3);
       if new_lib_len = 0xff \<and> new_ver_len = 0 then do {
         new_name_len \<leftarrow> m payload2;
         old_name_len \<leftarrow> m (payload2 + 2);
         name \<leftarrow> cstr_at m (if new_name_len \<noteq> 0 then payload2 + 4 else payload2 - unat old_name_len);
         export_polyfill_symbol fns name s }
       else Some s } }"

definition target_version_export :: "('a::len word, 'p) polyfiller_fns \<Rightarrow> target_ver_registry \<Rightarrow> nat \<Rightarrow> ('a word, 'p) session \<times> u16 \<Rightarrow>
    (('a word, 'p) session \<times> u16) option" where
  "target_version_export fns rr idx s = do {
     let m = bl_data (tv_table rr);
     slot \<leftarrow> slot_at m 0 (of_nat idx);
     let slot_val = slot_hi slot;
     if slot_val = 0 \<or> slot_val \<ge> tv_limit rr then Some s
     else do {
       mask2 \<leftarrow> mem_read32 m (unat slot_val + 4);
       each (target_name_export fns m (unat slot_val + 8)) [0..<unat mask2 + 1] s } }"

definition target_ver_registry_create_polyfill_so :: "('a::len word, 'p) polyfiller_fns \<Rightarrow> target_ver_registry \<Rightarrow>
    ('a word, 'p) session \<times> u16 \<Rightarrow> (('a word, 'p) session \<times> u16) option" where
  "target_ver_registry_create_polyfill_so fns rr s = each (target_version_export fns rr) [0..<unat (bl_mask (tv_table rr)) + 1] s"

definition renamer_create_polyfill_so :: "('a::len word, 'p) polyfiller_fns \<Rightarrow> ('a word, 'p) session \<times> u16 \<Rightarrow>
    (('a word, 'p) session \<times> u16) option" where
  "renamer_create_polyfill_so fns s =
    (let capacity = rn_capacity (se_renamer (fst s))
     in each (\<lambda>i s. if rn_capacity (se_renamer (fst s)) \<noteq> capacity then None
          else do {
            rr \<leftarrow> rd (rn_registries (se_renamer (fst s))) i;
            case rr of Bespoke _ \<Rightarrow> bespoke_registry_create_polyfill_so fns i s
            | Target t \<Rightarrow> target_ver_registry_create_polyfill_so fns t s })
          [0..<length (rn_registries (se_renamer (fst s)))] s)"

subsection \<open>One symbol\<close>

text \<open>
  The loop of \<open>erwNNE_(renamer_apply_to)\<close> keeps \<open>syms\<close> in a local variable. When the array of
  versions is created, the symbols move to a block of their own, and the variable is left at the
  old ones in the file: \<open>old\<close> is the editor the variable still describes, \<open>None\<close> as long as it is
  the current one.
\<close>

definition loc_sym :: "'a::len word sym editor option \<Rightarrow> 'a word erw \<Rightarrow> nat \<Rightarrow> 'a word sym option" where
  "loc_sym old erw i = (case old of None \<Rightarrow> sym_get erw i | Some ed \<Rightarrow> ed_get sym_codec (e_f erw) ed i)"

definition put_loc_sym :: "'a::len word sym editor option \<Rightarrow> 'a word erw \<Rightarrow> nat \<Rightarrow> 'a word sym \<Rightarrow> 'a word erw option" where
  "put_loc_sym old erw i s = (case old of None \<Rightarrow> sym_put erw i s
     | Some ed \<Rightarrow> map_option (\<lambda>(f, _). erw\<lparr>e_f := f\<rparr>) (ed_put sym_codec (e_f erw, ed) i s))"

record 'w rename_input =
  ri_name :: bstr
  ri_version :: "bstr option"
  ri_group :: "nat option"
  ri_item :: "nat option"

definition rename_input :: "'a::len word sym editor option \<Rightarrow> 'a word erw \<Rightarrow> nat \<Rightarrow> ('a word erw \<times> 'a word rename_input) option" where
  "rename_input old erw i = do {
     s \<leftarrow> loc_sym old erw i;
     (erw, name) \<leftarrow> erw_dynstr_decode erw (ucast (esw (e_bswap erw) (st_name s)));
     if sy_versions (e_dsyms erw) = None
     then Some (erw, \<lparr>ri_name = name, ri_version = None, ri_group = None, ri_item = None\<rparr>)
     else do {
       w \<leftarrow> versym_get erw i;
       vref \<leftarrow> rd (ve_base (e_vers erw)) (unat (esw (e_bswap erw) w AND 0x7fff));
       (erw, vstr) \<leftarrow> (case vr_item vref of None \<Rightarrow> Some (erw, None)
         | Some n \<Rightarrow> do {
             item \<leftarrow> item_at (e_vers erw) n;
             (erw, s) \<leftarrow> erw_dynstr_decode erw (ucast (vi_str item));
             Some (erw, Some s) });
       Some (erw, \<lparr>ri_name = name, ri_version = vstr, ri_group = vr_group vref, ri_item = vr_item vref\<rparr>) } }"

text \<open>The old version of a symbol loses a reference.\<close>

definition version_removed :: "'w rename_input \<Rightarrow> 'w erw \<Rightarrow> 'w erw" where
  "version_removed inp erw =
    (let erw = set_modified (if ri_group inp \<noteq> None then ERW_MODIFIED_VERNEED else ERW_MODIFIED_VERDEF) erw
     in case ri_item inp of None \<Rightarrow> erw
        | Some n \<Rightarrow> set_vers erw (upd_item (\<lambda>i. i\<lparr>vi_state := vi_state i OR VER_EDIT_STATE_REMOVED_REFS\<rparr>) n (e_vers erw)))"

definition hash_bits :: "'w erw \<Rightarrow> u32" where
  "hash_bits erw = (if sy_want_hash (e_dsyms erw) then SYM_INFO_IN_HASH else 0) OR
     (if sy_want_gnu_hash (e_dsyms erw) then SYM_INFO_IN_GNU_HASH else 0)"

definition is_exported :: "u32 \<Rightarrow> u32 \<Rightarrow> bool" where
  "is_exported bits flags \<longleftrightarrow> flags AND bits \<noteq> 0 \<and> flags AND SYM_INFO_EXPORTABLE \<noteq> 0"

text \<open>An export is not renamed to another library, unless it only gives a canonical address.\<close>

definition keeps_library :: "u32 \<Rightarrow> u32 \<Rightarrow> bool" where
  "keeps_library bits flags \<longleftrightarrow> is_exported bits flags \<and>
     (flags AND (SYM_INFO_RELOC_EAGER OR SYM_INFO_RELOC_MAYBE_EAGER) = 0 \<or>
      flags AND SYM_INFO_PLT_EXPORTABLE \<noteq> 0 \<or> flags AND SYM_INFO_RELOC_PLT = 0)"

definition set_flags :: "nat \<Rightarrow> (u32 \<Rightarrow> u32) \<Rightarrow> 'a::len word erw \<Rightarrow> 'a word erw option" where
  "set_flags i g erw = do {
     info \<leftarrow> rd (sy_info (e_dsyms erw)) i;
     put_sym_info i (info\<lparr>si_flags := g (si_flags info)\<rparr>) erw }"

text \<open>The symbol gets the token of its polyfill; \<open>True\<close> when it was made local and keeps its name.\<close>

definition bind_polyfill :: "'a::len word sym editor option \<Rightarrow> 'a word rename_input \<Rightarrow> nat \<Rightarrow> u32 \<Rightarrow> u32 \<Rightarrow> u32 \<Rightarrow> 'a word erw \<Rightarrow>
    ('a word erw \<times> bool) option" where
  "bind_polyfill old inp i bits flags token erw = do {
     s \<leftarrow> loc_sym old erw i;
     let s = s\<lparr>st_value := esw (e_bswap erw) (ucast token)\<rparr>;
     let erw = set_modified ERW_MODIFIED_DSYMS erw;
     if is_exported bits flags then do {
       erw \<leftarrow> set_flags i (\<lambda>fl. fl OR SYM_INFO_WANT_POLYFILL OR SYM_INFO_PLT_EXPORTABLE) erw;
       erw \<leftarrow> put_loc_sym old erw i (if st_shndx s = SHN_UNDEF then s\<lparr>st_shndx := 0xffff\<rparr> else s);
       Some (erw, False) }
     else do {
       erw \<leftarrow> set_flags i (\<lambda>fl. fl OR SYM_INFO_WANT_POLYFILL OR SYM_INFO_LOCAL) erw;
       erw \<leftarrow> put_loc_sym old erw i (s\<lparr>st_info := st_info s AND 0xf, st_other := st_other s AND NOT 3 OR STV_HIDDEN\<rparr>);
       if sy_versions (e_dsyms erw) = None then Some (erw, True)
       else do {
         erw \<leftarrow> versym_put erw i 0;
         Some (version_removed inp erw, True) } } }"

text \<open>What the new library asks for: the symbol as it is still to be renamed, or nothing more to do.\<close>

definition apply_library :: "('a::len word, 'p) polyfiller_fns \<Rightarrow> 'a word sym editor option \<Rightarrow> 'a word rename_input \<Rightarrow> nat \<Rightarrow> u32 \<Rightarrow>
    renamed_symbol \<Rightarrow> ('a word, 'p) session \<Rightarrow> (('a word, 'p) session \<times> renamed_symbol option) option" where
  "apply_library fns old inp i bits renamed se =
    (case rs_lib renamed of None \<Rightarrow> Some (se, Some renamed)
     | Some lib \<Rightarrow> do {
         flags \<leftarrow> sym_flags (se_erw se) i;
         let ensure = (\<lambda>renamed se. do {
           rn \<leftarrow> renamer_ensure_lib_dependency (se_renamer se) (rs_lib renamed);
           Some (se\<lparr>se_renamer := rn\<rparr>, Some renamed) });
         if keeps_library bits flags then Some (se, None)
         else if lib = bytes_of ''polyfill'' then do {
           let renamed = (if rs_version renamed = None then renamed\<lparr>rs_version := Some (bytes_of ''POLYFILL'')\<rparr> else renamed);
           (se, token, _) \<leftarrow> in_world (pf_add fns (rs_name renamed)) (ensure_has_polyfiller fns se);
           case ro_use_polyfill_so (rn_options (se_renamer se)) of
             Some so \<Rightarrow> ensure (renamed\<lparr>rs_lib := Some so\<rparr>) se
           | None \<Rightarrow> if token = 0 then None
               else do {
                 (erw, finished) \<leftarrow> bind_polyfill old inp i bits flags token (se_erw se);
                 Some (se\<lparr>se_erw := erw\<rparr>, if finished then None else Some renamed) } }
         else ensure renamed se })"

definition apply_name :: "'a::len word sym editor option \<Rightarrow> 'a word rename_input \<Rightarrow> nat \<Rightarrow> renamed_symbol \<Rightarrow> 'a word erw \<Rightarrow> 'a word erw option" where
  "apply_name old inp i renamed erw =
    (if ri_name inp = rs_name renamed then Some erw
     else do {
       flags \<leftarrow> sym_flags erw i;
       let erw = set_modified (if flags AND (SYM_INFO_IN_HASH OR SYM_INFO_IN_GNU_HASH) \<noteq> 0
         then ERW_MODIFIED_DSYMS OR ERW_MODIFIED_HASH_TABLES else ERW_MODIFIED_DSYMS) erw;
       (erw, ref) \<leftarrow> erw_dynstr_encode erw (rs_name renamed);
       s \<leftarrow> loc_sym old erw i;
       put_loc_sym old erw i (s\<lparr>st_name := esw (e_bswap erw) (ucast ref)\<rparr>) })"

text \<open>When the symbols move, the local variable does not.\<close>

definition after_versions :: "'a::len word sym editor option \<Rightarrow> 'a word erw \<Rightarrow> 'a word erw \<Rightarrow> 'a word sym editor option" where
  "after_versions old erw erw' =
    (if old = None \<and> ed_capacity (sy_syms (e_dsyms erw)) = 0 \<and> ed_capacity (sy_syms (e_dsyms erw')) \<noteq> 0
     then Some (sy_syms (e_dsyms erw)) else old)"

definition set_new_version :: "'a::len word rename_input \<Rightarrow> nat \<Rightarrow> bstr \<Rightarrow> u16 \<Rightarrow> 'a word erw \<Rightarrow> 'a word erw option" where
  "set_new_version inp i version new_ver erw = do {
     w \<leftarrow> versym_get erw i;
     if (new_ver XOR esw (e_bswap erw) w) AND 0x7fff \<noteq> 0
     then versym_put (version_removed inp erw) i
            (esw (e_bswap erw) (if version = bytes_of ''POLYFILL'' then new_ver OR 0x8000 else new_ver))
     else Some erw }"

type_synonym 'w rename_loop = "'w sym editor option \<times> u16 \<times> 'w erw"

definition apply_version :: "'a::len word rename_input \<Rightarrow> nat \<Rightarrow> renamed_symbol \<Rightarrow> 'a word rename_loop \<Rightarrow> 'a word rename_loop option" where
  "apply_version inp i renamed l = (case l of (old, ver_cache, erw) \<Rightarrow>
     if (rs_lib renamed \<noteq> None \<and> rs_version renamed \<noteq> None) \<or> ri_version inp \<noteq> rs_version renamed
     then (case rs_version renamed of
         Some version \<Rightarrow> do {
           erw' \<leftarrow> (if sy_versions (e_dsyms erw) = None then erw_dsyms_ensure_versions_array erw else Some erw);
           let old = after_versions old erw erw';
           (erw, lib) \<leftarrow> (case (rs_lib renamed, ri_group inp) of
               (None, Some g) \<Rightarrow> do {
                 g \<leftarrow> group_at (e_vers erw') g;
                 (erw, lib) \<leftarrow> erw_dynstr_decode erw' (ucast (vg_name g));
                 Some (erw, Some lib) }
             | (lib, _) \<Rightarrow> Some (erw', lib));
           flags \<leftarrow> sym_flags erw i;
           (erw, ver_cache, new_ver) \<leftarrow> erw_vers_find_or_add erw ver_cache
             (if flags AND SYM_INFO_WANT_POLYFILL \<noteq> 0 then None else lib) (Some version);
           erw \<leftarrow> set_new_version inp i version new_ver erw;
           Some (old, ver_cache, erw) }
       | None \<Rightarrow>
           if sy_versions (e_dsyms erw) = None then Some l
           else do {
             w \<leftarrow> versym_get erw i;
             erw \<leftarrow> (if w \<noteq> esw (e_bswap erw) 1 then versym_put (version_removed inp erw) i (esw (e_bswap erw) 1) else Some erw);
             Some (old, ver_cache, erw) })
     else Some l)"

end
