(* ===== verification/RenameFile.thy ===== *)
theory RenameFile
  imports RenameApply
begin

section \<open>renamer_nne.h: the passes over the symbols of a file\<close>

subsection \<open>All symbols\<close>

definition rename_symbol :: "('a::len word, 'p) polyfiller_fns \<Rightarrow> u32 \<Rightarrow> nat \<Rightarrow>
    'a word sym editor option \<times> u16 \<times> ('a word, 'p) session \<Rightarrow> ('a word sym editor option \<times> u16 \<times> ('a word, 'p) session) option" where
  "rename_symbol fns bits i l = (case l of (old, ver_cache, se) \<Rightarrow> do {
     flags \<leftarrow> sym_flags (se_erw se) i;
     if flags AND (SYM_INFO_LOCAL OR SYM_INFO_WANT_POLYFILL) \<noteq> 0 then Some l
     else do {
       (erw, inp) \<leftarrow> rename_input old (se_erw se) i;
       let se = se\<lparr>se_erw := erw\<rparr>;
       r \<leftarrow> renamer_apply_to_name (se_renamer se) \<lparr>rs_lib = None, rs_name = ri_name inp, rs_version = ri_version inp\<rparr>;
       case r of
         Inl _ \<Rightarrow> None
       | Inr (_, False) \<Rightarrow> Some (old, ver_cache, se)
       | Inr (renamed, True) \<Rightarrow> do {
           (se, renamed) \<leftarrow> apply_library fns old inp i bits renamed se;
           case renamed of None \<Rightarrow> Some (old, ver_cache, se)
           | Some renamed \<Rightarrow> do {
               erw \<leftarrow> apply_name old inp i renamed (se_erw se);
               (old, ver_cache, erw) \<leftarrow> apply_version inp i renamed (old, ver_cache, erw);
               Some (old, ver_cache, se\<lparr>se_erw := erw\<rparr>) } } } })"

definition rename_pass :: "('a::len word, 'p) polyfiller_fns \<Rightarrow> u16 \<times> ('a word, 'p) session \<Rightarrow> (u16 \<times> ('a word, 'p) session) option" where
  "rename_pass fns l = (case l of (ver_cache, se) \<Rightarrow> do {
     let rn = (se_renamer se)\<lparr>rn_added_renames := False\<rparr>;
     (se, ver_cache) \<leftarrow> (if ro_create_polyfill_so (rn_options rn)
       then renamer_create_polyfill_so fns (se\<lparr>se_renamer := rn\<rparr>, 0) else Some (se\<lparr>se_renamer := rn\<rparr>, ver_cache));
     (_, ver_cache, se) \<leftarrow> each (rename_symbol fns (hash_bits (se_erw se))) [0..<unat (sym_count (se_erw se))] (None, ver_cache, se);
     Some (ver_cache, se) })"

text \<open>A polyfill can impose further renames; the symbols are gone through again then.\<close>

partial_function (option) rename_passes :: "('a::len word, 'p) polyfiller_fns \<Rightarrow> u16 \<Rightarrow> ('a word, 'p) session \<Rightarrow> ('a word, 'p) session option" where
  "rename_passes fns ver_cache se =
    Option.bind (rename_pass fns (ver_cache, se)) (\<lambda>r.
      if rn_added_renames (se_renamer (snd r)) then rename_passes fns (fst r) (snd r) else Some (snd r))"

subsection \<open>Whether the target version is met\<close>

text \<open>The part behind \<open>GLIBC_\<close>, if that is how the version begins.\<close>

definition glibc_suffix :: "bstr \<Rightarrow> cstr option" where
  "glibc_suffix vstr = (let s = chars_of vstr in if has_prefix s ''GLIBC_'' then Some (drop 6 s) else None)"

text \<open>Relative relocations in compressed form came with glibc 2.36.\<close>

definition confirm_relr :: "('a::len word, 'p) polyfiller_fns \<Rightarrow> ('a word, 'p) session \<Rightarrow> ('a word, 'p) session option" where
  "confirm_relr fns se = do {
     (erw, relr) \<leftarrow> erw_dhdrs_has (se_erw se) DT_RELR;
     let se = se\<lparr>se_erw := erw\<rparr>;
     se \<leftarrow> (if relr = None then Some se
       else do {
         (erw, relrsz) \<leftarrow> erw_dhdrs_has (se_erw se) DT_RELRSZ;
         let se = se\<lparr>se_erw := erw\<rparr>;
         let expand = (\<lambda>se. map_option (\<lambda>erw. se\<lparr>se_erw := erw\<rparr>) (erw_relocs_expand_relr (se_erw se)));
         if relrsz = None \<or> relrsz = Some 0 then Some se
         else if ro_use_polyfill_so (rn_options (se_renamer se)) \<noteq> None then expand se
         else do {
           (se, fixed) \<leftarrow> in_world (pf_add_fixup_for_dt_relr fns) (ensure_has_polyfiller fns se);
           if fixed then Some se else expand se } });
     erw \<leftarrow> erw_dhdrs_remove_mask (se_erw se) (push_bit 36 1 OR push_bit 35 1 OR push_bit 37 1);
     Some (se\<lparr>se_erw := erw\<rparr>) }"

type_synonym ('w, 'p) confirm_loop = "bool list \<times> ('w, 'p) session"

definition confirm_item :: "('a::len word, 'p) polyfiller_fns \<Rightarrow> cstr \<Rightarrow> ver_item \<Rightarrow> ('a word, 'p) confirm_loop \<Rightarrow>
    ('a word, 'p) confirm_loop option" where
  "confirm_item fns target_ver item l = (case l of (ver_bad, se) \<Rightarrow>
     if vi_state item AND VER_EDIT_STATE_PENDING_DELETE \<noteq> 0 then Some l
     else do {
       (erw, vstr) \<leftarrow> erw_dynstr_decode (se_erw se) (ucast (vi_str item));
       let se = se\<lparr>se_erw := erw\<rparr>;
       case glibc_suffix vstr of None \<Rightarrow> Some (ver_bad, se)
       | Some v \<Rightarrow> do {
           let relr = (v = ''ABI_DT_RELR'');
           let v = (if relr then ''2.36'' else v);
           se \<leftarrow> (if relr \<and> version_str_less target_ver v then confirm_relr fns se else Some se);
           if version_str_less target_ver v then do {
             let erw = se_erw se;
             let index = unat (vi_index item AND 0x7fff);
             ref \<leftarrow> rd (ve_base (e_vers erw)) index;
             let erw = set_vers erw (upd_item (\<lambda>i. i\<lparr>vi_state := vi_state i OR VER_EDIT_STATE_REMOVED_REFS\<rparr>) (vi_id item) (e_vers erw));
             Some (if vr_item ref = Some (vi_id item) \<and> vi_flags item AND VER_FLG_WEAK = 0 then ver_bad[index := True] else ver_bad,
               se\<lparr>se_erw := erw\<rparr>) }
           else Some (ver_bad, se) } })"

definition confirm_group :: "('a::len word, 'p) polyfiller_fns \<Rightarrow> cstr \<Rightarrow> ver_group \<Rightarrow> ('a word, 'p) confirm_loop \<Rightarrow>
    ('a word, 'p) confirm_loop option" where
  "confirm_group fns target_ver g l =
    (if vg_state g AND VER_EDIT_STATE_PENDING_DELETE \<noteq> 0 then Some l else each (confirm_item fns target_ver) (vg_items g) l)"

text \<open>The symbols with a version that the target does not have.\<close>

definition collect_bad_version_syms :: "'a::len word erw \<Rightarrow> bool list \<Rightarrow> u32 list option" where
  "collect_bad_version_syms erw ver_bad =
    each (\<lambda>i bad. do {
        w \<leftarrow> versym_get erw i;
        let v = unat (esw (e_bswap erw) w AND 0x7fff);
        bad_v \<leftarrow> (if v < length (ve_base (e_vers erw)) then rd ver_bad v else Some False);
        Some (if bad_v then bad @ [of_nat i] else bad) })
      [0..<unat (sym_count erw)] []"

text \<open>The result has the symbols because of which the program gives up; there should be none.\<close>

definition target_ver_registry_confirm :: "('a::len word, 'p) polyfiller_fns \<Rightarrow> bstr \<Rightarrow> ('a word, 'p) session \<Rightarrow>
    (('a word, 'p) session \<times> u32 list) option" where
  "target_ver_registry_confirm fns target se = do {
     let target_ver = chars_of target;
     erw \<leftarrow> erw_dsyms_init (se_erw se);
     erw \<leftarrow> (if version_str_less target_ver ''2.5'' \<and> sy_want_gnu_hash (e_dsyms erw) then erw_dsyms_add_hash erw DT_HASH else Some erw);
     erw \<leftarrow> erw_vers_init erw;
     let se = se\<lparr>se_erw := erw\<rparr>;
     if ve_need (e_vers erw) = [] then Some (se, [])
     else do {
       (ver_bad, se) \<leftarrow> each (confirm_group fns target_ver) (ve_need (e_vers erw))
         (replicate (length (ve_base (e_vers erw))) False, se);
       bad_syms \<leftarrow> collect_bad_version_syms (se_erw se) ver_bad;
       Some (se, bad_syms) } }"

fun confirm_registries :: "('a::len word, 'p) polyfiller_fns \<Rightarrow> registry list \<Rightarrow> ('a word, 'p) session \<Rightarrow>
    (('a word, 'p) session \<times> u32 list) option" where
  "confirm_registries fns [] se = Some (se, [])"
| "confirm_registries fns (rr # rrs) se = (case rr of
     Bespoke _ \<Rightarrow> confirm_registries fns rrs se
   | Target t \<Rightarrow> do {
       (se, bad_syms) \<leftarrow> target_ver_registry_confirm fns (tv_target_ver t) se;
       if bad_syms \<noteq> [] then Some (se, bad_syms) else confirm_registries fns rrs se })"

definition renamer_confirm_target_version :: "('a::len word, 'p) polyfiller_fns \<Rightarrow> ('a word, 'p) session \<Rightarrow>
    (('a word, 'p) session \<times> u32 list) option" where
  "renamer_confirm_target_version fns se = confirm_registries fns (rn_registries (se_renamer se)) se"

text \<open>The lines that are printed for these symbols: name and version.\<close>

definition bad_sym_line :: "'a::len word erw \<Rightarrow> u32 \<Rightarrow> (bstr \<times> bstr option) option" where
  "bad_sym_line erw i = do {
     s \<leftarrow> sym_get erw (unat i);
     vstr \<leftarrow> (if sy_versions (e_dsyms erw) = None then Some None
       else do {
         w \<leftarrow> versym_get erw (unat i);
         case Option.bind (rd (ve_base (e_vers erw)) (unat (esw (e_bswap erw) w AND 0x7fff))) vr_item of
           Some n \<Rightarrow> do {
             item \<leftarrow> item_at (e_vers erw) n;
             (_, v) \<leftarrow> erw_dynstr_decode erw (ucast (vi_str item));
             Some (Some v) }
         | None \<Rightarrow> Some None });
     (_, name) \<leftarrow> erw_dynstr_decode erw (ucast (esw (e_bswap erw) (st_name s)));
     Some (name, vstr) }"

definition print_bad_syms :: "((u32 \<Rightarrow> u32 \<Rightarrow> int option) \<Rightarrow> u32 list \<Rightarrow> u32 list option) \<Rightarrow> 'a::len word erw \<Rightarrow> u32 list \<Rightarrow>
    (bstr \<times> bstr option) list option" where
  "print_bad_syms qsort_r erw indices = do {
     indices \<leftarrow> dsyms_sort_indices qsort_r erw indices;
     all_some (map (bad_sym_line erw) indices) }"

subsection \<open>Addresses of the polyfills, and new libraries\<close>

definition place_polyfill :: "('a::len word, 'p) polyfiller_fns \<Rightarrow> 'p \<Rightarrow> nat \<Rightarrow> 'a word erw \<Rightarrow> 'a word erw option" where
  "place_polyfill fns p i erw = do {
     flags \<leftarrow> sym_flags erw i;
     if flags AND SYM_INFO_WANT_POLYFILL = 0 then Some erw
     else do {
       erw \<leftarrow> set_flags i (\<lambda>fl. fl - SYM_INFO_WANT_POLYFILL) erw;
       s \<leftarrow> sym_get erw i;
       addr \<leftarrow> pf_addr_of fns p (ucast (esw (e_bswap erw) (st_value s)));
       sym_put erw i (s\<lparr>st_value := esw (e_bswap erw) (ucast addr)\<rparr>) } }"

definition do_polyfills :: "('a::len word, 'p) polyfiller_fns \<Rightarrow> ('a word, 'p) session \<Rightarrow> ('a word, 'p) session option" where
  "do_polyfills fns se =
    (if se_polyfiller se = None \<or> ro_use_polyfill_so (rn_options (se_renamer se)) \<noteq> None then Some se
     else do {
       (se, _) \<leftarrow> in_world (\<lambda>wd. map_option (\<lambda>wd. (wd, ())) (pf_finished_adding fns wd)) se;
       p \<leftarrow> se_polyfiller se;
       erw \<leftarrow> each (place_polyfill fns p) [0..<unat (sym_count (se_erw se))] (se_erw se);
       Some (se\<lparr>se_erw := erw\<rparr>) })"

definition known_lib :: "nat \<Rightarrow> 'a::len word erw \<times> sht \<Rightarrow> ('a word erw \<times> sht) option" where
  "known_lib i s = (case s of (erw, libs) \<Rightarrow> do {
     itr \<leftarrow> dyn_get erw i;
     let tag = esw (e_bswap erw) (d_tag itr);
     if tag = DT_NEEDED \<or> tag = DT_FILTER then do {
       (erw, lname) \<leftarrow> erw_dynstr_decode erw (ucast (esw (e_bswap erw) (d_val itr)));
       p \<leftarrow> sht_lookup_p libs lname;
       libs \<leftarrow> (case p of Some p \<Rightarrow> put_byte libs p 0 | None \<Rightarrow> Some libs);
       Some (erw, libs) }
     else Some s })"

definition add_lib :: "sht \<Rightarrow> nat \<Rightarrow> 'a::len word erw \<Rightarrow> 'a word erw option" where
  "add_lib libs p erw = do {
     b \<leftarrow> s_mem libs p;
     if b \<noteq> 0 then do {
       lib \<leftarrow> sht_p_key libs p;
       erw_dhdrs_add_late_needed erw lib }
     else Some erw }"

definition add_ensured_libs :: "('a::len word, 'p) session \<Rightarrow> ('a word, 'p) session option" where
  "add_ensured_libs se =
    (let libs = rn_ensured_libs (se_renamer se)
     in if s_count libs = 0 then Some se
        else do {
          (erw, libs) \<leftarrow> each known_lib [0..<dyn_count (se_erw se)] (se_erw se, libs);
          ps \<leftarrow> sht_iterate libs (sht_iter_start_p libs);
          erw \<leftarrow> each (add_lib libs) ps erw;
          Some (se\<lparr>se_erw := erw, se_renamer := (se_renamer se)\<lparr>rn_ensured_libs := sht_clear libs\<rparr>\<rparr>) })"

subsection \<open>The whole\<close>

text \<open>\<open>Inl\<close>: the symbols that the target version does not have.\<close>

definition renamer_apply_in :: "('a::len word, 'p) polyfiller_fns \<Rightarrow> ('a word, 'p) session \<Rightarrow>
    (u32 list + ('a word, 'p) session) option" where
  "renamer_apply_in fns se = do {
     se \<leftarrow> rename_passes fns 0 se;
     (se, bad_syms) \<leftarrow> renamer_confirm_target_version fns se;
     if bad_syms \<noteq> [] then Some (Inl bad_syms)
     else do {
       se \<leftarrow> do_polyfills fns se;
       (se, bad_syms) \<leftarrow> renamer_confirm_target_version fns se;
       if bad_syms \<noteq> [] then Some (Inl bad_syms)
       else map_option Inr (add_ensured_libs se) } }"

definition renamer_apply_to :: "(u16 \<Rightarrow> ('a::len word, 'p) polyfiller_fns) \<Rightarrow> rename_tables \<Rightarrow> renamer \<Rightarrow> 'a word erw \<Rightarrow>
    (u32 list + 'a word erw \<times> renamer) option" where
  "renamer_apply_to polyfillers tables rn erw = do {
     rn \<leftarrow> bind_target_ver_renamers_to tables (e_machine erw) rn;
     erw \<leftarrow> erw_dsyms_init erw;
     erw \<leftarrow> erw_vers_init erw;
     r \<leftarrow> renamer_apply_in (polyfillers (e_machine erw)) \<lparr>se_erw = erw, se_renamer = rn, se_polyfiller = None\<rparr>;
     Some (case r of Inl bad_syms \<Rightarrow> Inl bad_syms | Inr se \<Rightarrow> Inr (se_erw se, se_renamer se)) }"

end
