(* ===== verification/PolyfillCode.thy ===== *)
theory PolyfillCode
  imports RenameFile Uuht
begin

section \<open>The polyfillers: symbols of the assembled code\<close>

text \<open>
  The assembler turns the polyfills into a block of bytes at build time: a hash table of the
  public names, and a record for each symbol, which its offset, the token, stands for. A record
  has one byte of flags, the numbers of relocations, of code bytes and of bytes of unwind
  instructions as 16-bit integers, then the relocations, of 4 bytes each for x86_64 and of 8 for
  aarch64, the code and the unwind instructions; an external symbol has three strings in place
  of the code. The block is an argument of the definitions, with the tokens of the symbols that
  the polyfiller itself names. What the two polyfillers have in common is here.
\<close>

record polyfill_code =
  pc_data :: mem
  pc_mask :: u32
  pc_token :: "string \<Rightarrow> u32"

abbreviation (input) ASM_SYM_FLAG_EXTERN :: u8 where "ASM_SYM_FLAG_EXTERN \<equiv> 0x02"
abbreviation (input) ASM_SYM_FLAG_FUNCTION :: u8 where "ASM_SYM_FLAG_FUNCTION \<equiv> 0x04"
abbreviation (input) ASM_SYM_FLAG_INIT :: u8 where "ASM_SYM_FLAG_INIT \<equiv> 0x10"
abbreviation (input) ASM_SYM_FLAG_FINI :: u8 where "ASM_SYM_FLAG_FINI \<equiv> 0x20"

abbreviation (input) polyfiller_cfi_mode_auto :: u8 where "polyfiller_cfi_mode_auto \<equiv> 0"
abbreviation (input) polyfiller_cfi_mode_none :: u8 where "polyfiller_cfi_mode_none \<equiv> 1"
abbreviation (input) polyfiller_cfi_mode_minimal :: u8 where "polyfiller_cfi_mode_minimal \<equiv> 2"
abbreviation (input) polyfiller_cfi_mode_full :: u8 where "polyfiller_cfi_mode_full \<equiv> 3"

text \<open>\<open>li_extra\<close> is \<open>extra\<close> for x86_64 and \<open>flags\<close> for aarch64.\<close>

record local_info =
  li_token :: u32
  li_extra :: u32
  li_addr :: u64

record polyfiller =
  po_addrs :: "local_info list"
  po_added :: uuht
  po_cfi_mode :: u8
  po_seen_func_flags :: u8

definition polyfiller_init :: "u8 \<Rightarrow> polyfiller" where
  "polyfiller_init cfi_mode = \<lparr>po_addrs = [], po_added = uuht_init, po_cfi_mode = cfi_mode, po_seen_func_flags = 0\<rparr>"

definition check_payload :: "polyfill_code \<Rightarrow> bstr \<Rightarrow> u32 \<Rightarrow> probe option" where
  "check_payload pc name v = do {
     len \<leftarrow> pc_data pc (unat v + 1);
     same \<leftarrow> (if unat len = length name then key_before (pc_data pc) (unat v) 1 name else Some False);
     Some (if same then Found else Other) }"

definition rh_lookup :: "polyfill_code \<Rightarrow> bstr \<Rightarrow> u32 option" where
  "rh_lookup pc name = do {
     h \<leftarrow> sht_hash_mem name;
     found \<leftarrow> blob_probe (pc_data pc) 0 (pc_mask pc) (check_payload pc name) h 0;
     Some (case found of None \<Rightarrow> 0 | Some v \<Rightarrow> v) }"

subsection \<open>The record of a symbol\<close>

definition head_flags :: "polyfill_code \<Rightarrow> u32 \<Rightarrow> u8 option" where
  "head_flags pc token = pc_data pc (unat token)"

definition head_field :: "polyfill_code \<Rightarrow> u32 \<Rightarrow> nat \<Rightarrow> nat option" where
  "head_field pc token k = map_option (\<lambda>bs. unat (word_of_bytes bs :: u16)) (mem_read (pc_data pc) (unat token + 2 * k) 2)"

definition head_n_reloc :: "polyfill_code \<Rightarrow> u32 \<Rightarrow> nat option" where
  "head_n_reloc pc token = head_field pc token 1"

definition head_n_code :: "polyfill_code \<Rightarrow> u32 \<Rightarrow> nat option" where
  "head_n_code pc token = head_field pc token 2"

definition head_n_cfi :: "polyfill_code \<Rightarrow> u32 \<Rightarrow> nat option" where
  "head_n_cfi pc token = head_field pc token 3"

text \<open>Where the code is, behind the relocations of \<open>rsz\<close> bytes each.\<close>

definition code_at :: "nat \<Rightarrow> polyfill_code \<Rightarrow> u32 \<Rightarrow> nat option" where
  "code_at rsz pc token = map_option (\<lambda>n. unat token + 8 + rsz * n) (head_n_reloc pc token)"

definition opt_cstr :: "mem \<Rightarrow> nat \<Rightarrow> u8 \<Rightarrow> bstr option option" where
  "opt_cstr m at len = (if len = 0 then Some None else map_option Some (cstr_at m at))"

text \<open>Library, name and version; \<open>None\<close> is the null pointer.\<close>

definition parse_extern_sym :: "nat \<Rightarrow> polyfill_code \<Rightarrow> u32 \<Rightarrow> (bstr option \<times> bstr option \<times> bstr option) option" where
  "parse_extern_sym rsz pc token = do {
     let m = pc_data pc;
     src \<leftarrow> code_at rsz pc token;
     lib_len \<leftarrow> m src;
     name_len \<leftarrow> m (src + 1);
     ver_len \<leftarrow> m (src + 2);
     lib \<leftarrow> opt_cstr m (src + 3) lib_len;
     name \<leftarrow> opt_cstr m (src + 3 + unat lib_len) name_len;
     version \<leftarrow> opt_cstr m (src + 3 + unat lib_len + unat name_len) ver_len;
     Some (lib, name, version) }"

text \<open>What the renamer makes of an external symbol, and whether that is a polyfill.\<close>

definition rename_extern :: "renamer \<Rightarrow> bstr option \<Rightarrow> bstr \<Rightarrow> bstr option \<Rightarrow> (renamed_symbol \<times> bool) option" where
  "rename_extern rn lib name version = do {
     r \<leftarrow> renamer_apply_to_name rn \<lparr>rs_lib = lib, rs_name = name, rs_version = version\<rparr>;
     case r of Inl _ \<Rightarrow> None
     | Inr (s, changed) \<Rightarrow> Some (s, changed \<and> rs_lib s = Some (bytes_of ''polyfill'')) }"

subsection \<open>Adding a symbol and what it needs\<close>

text \<open>
  \<open>add_sym_and_deps\<close> calls itself for each relocation and once more for a renamed external symbol.
  The calls that are still to be made, and the rest of each call behind its loop of relocations,
  are kept as a list of tasks. How a symbol is marked as added and which symbols its relocations
  refer to differ between the machines.
\<close>

datatype sym_task = Add u32 u32 | Finish u32

type_synonym 'w pf_world = "('w, polyfiller) world"

definition set_added :: "uuht \<Rightarrow> 'w pf_world \<Rightarrow> 'w pf_world" where
  "set_added t wd = (case wd of (erw, rn, p) \<Rightarrow> (erw, rn, p\<lparr>po_added := t\<rparr>))"

definition see_flags :: "u8 \<Rightarrow> 'w pf_world \<Rightarrow> 'w pf_world" where
  "see_flags flags wd = (case wd of (erw, rn, p) \<Rightarrow> (erw, rn, p\<lparr>po_seen_func_flags := po_seen_func_flags p OR flags\<rparr>))"

text \<open>An external symbol with no name is a rename that the polyfill imposes.\<close>

definition finish_extern :: "polyfill_code \<Rightarrow> u32 \<Rightarrow> bstr option \<times> bstr option \<times> bstr option \<Rightarrow> 'a::len word pf_world \<Rightarrow>
    ('a word pf_world \<times> sym_task list) option" where
  "finish_extern pc regular rsym wd = (case (wd, rsym) of ((erw, rn, p), (lib, name, version)) \<Rightarrow>
     (case name of
        None \<Rightarrow> do {
          lib \<leftarrow> lib;
          version \<leftarrow> version;
          if lib = [] \<and> version = bytes_of ''+nodelete'' then do {
            erw \<leftarrow> renamer_add_nodelete rn erw;
            Some ((erw, rn, p), []) }
          else do {
            (rn, _) \<leftarrow> renamer_add_one_rename rn lib version;
            Some ((erw, rn, p), []) } }
      | Some name \<Rightarrow> do {
          (s, polyfill) \<leftarrow> rename_extern rn lib name version;
          if polyfill then do {
            val \<leftarrow> rh_lookup pc (rs_name s);
            if val = 0 then None else Some (wd, [Add val regular]) }
          else Some (wd, []) }))"

definition finish_sym :: "nat \<Rightarrow> polyfill_code \<Rightarrow> u32 \<Rightarrow> u32 \<Rightarrow> 'a::len word pf_world \<Rightarrow> ('a word pf_world \<times> sym_task list) option" where
  "finish_sym rsz pc regular token wd = do {
     flags \<leftarrow> head_flags pc token;
     if flags AND ASM_SYM_FLAG_EXTERN \<noteq> 0 then do {
       rsym \<leftarrow> parse_extern_sym rsz pc token;
       finish_extern pc regular rsym wd }
     else if flags AND ASM_SYM_FLAG_FUNCTION \<noteq> 0 then do {
       n_code \<leftarrow> head_n_code pc token;
       n_cfi \<leftarrow> head_n_cfi pc token;
       Some (see_flags (if n_code \<noteq> 0 \<and> n_cfi \<noteq> 0 then flags OR ASM_SYM_FLAG_EXTERN else flags) wd, []) }
     else Some (wd, []) }"

partial_function (option) add_tasks ::
    "(u32 \<Rightarrow> u32 \<Rightarrow> uuht \<Rightarrow> (uuht \<times> bool) option) \<Rightarrow> (u32 \<Rightarrow> sym_task list option) \<Rightarrow>
     (u32 \<Rightarrow> 'w pf_world \<Rightarrow> ('w pf_world \<times> sym_task list) option) \<Rightarrow> sym_task list \<Rightarrow> 'w pf_world \<Rightarrow> 'w pf_world option" where
  "add_tasks mark deps finish tasks wd =
    (case tasks of [] \<Rightarrow> Some wd
     | task # rest \<Rightarrow> (case task of
         Add token why \<Rightarrow>
           Option.bind (mark token why (po_added (snd (snd wd)))) (\<lambda>(added, seen).
             if seen then add_tasks mark deps finish rest (set_added added wd)
             else Option.bind (deps token) (\<lambda>ts.
               add_tasks mark deps finish (ts @ Finish token # rest) (set_added added wd)))
       | Finish token \<Rightarrow>
           Option.bind (finish token wd) (\<lambda>(wd, ts). add_tasks mark deps finish (ts @ rest) wd)))"

subsection \<open>The addresses of symbols\<close>

text \<open>An index into the array of addresses; there should be a symbol at it.\<close>

definition info_index :: "polyfiller \<Rightarrow> u32 \<Rightarrow> nat option" where
  "info_index p token = do {
     i \<leftarrow> uuht_lookup_or (po_added p) token (- 1);
     if unat i < length (po_addrs p) then Some (unat i) else None }"

definition set_info :: "nat \<Rightarrow> (local_info \<Rightarrow> local_info) \<Rightarrow> polyfiller \<Rightarrow> polyfiller" where
  "set_info i g p = p\<lparr>po_addrs := (po_addrs p)[i := g (po_addrs p ! i)]\<rparr>"

definition polyfiller_addr_of :: "polyfiller \<Rightarrow> u32 \<Rightarrow> u64 option" where
  "polyfiller_addr_of p token = map_option (\<lambda>i. li_addr (po_addrs p ! i)) (info_index p token)"

text \<open>The set of added tokens becomes a list that is sorted by token; \<open>mk\<close> makes an entry from a slot and its index.\<close>

definition sorted_addrs :: "(nat \<Rightarrow> u64 \<Rightarrow> local_info) \<Rightarrow> uuht \<Rightarrow> local_info list" where
  "sorted_addrs mk t = sort_key li_token
     (map (\<lambda>i. mk i (u_table t ! i)) (filter (\<lambda>i. u_table t ! i \<noteq> 0) [0..<unat (u_mask t) + 1]))"

definition set_slot :: "nat \<Rightarrow> (u64 \<Rightarrow> u64) \<Rightarrow> uuht \<Rightarrow> uuht option" where
  "set_slot i g t = (if i < length (u_table t) then Some (t\<lparr>u_table := (u_table t)[i := g (u_table t ! i)]\<rparr>) else None)"

subsection \<open>Writing to the file\<close>

definition store :: "nat \<Rightarrow> u8 list \<Rightarrow> 'w erw \<Rightarrow> 'w erw option" where
  "store at bs erw = map_option (\<lambda>f. erw\<lparr>e_f := f\<rparr>) (mem_store (e_f erw) at bs)"

definition store32 :: "nat \<Rightarrow> u32 \<Rightarrow> 'w erw \<Rightarrow> 'w erw option" where
  "store32 at w erw = store at (word_bytes w) erw"

definition store64 :: "nat \<Rightarrow> u64 \<Rightarrow> 'w erw \<Rightarrow> 'w erw option" where
  "store64 at w erw = store at (word_bytes w) erw"

definition view :: "'w erw \<Rightarrow> u64 \<Rightarrow> nat option" where
  "view erw v = map_option unat (erw_view_v erw v)"

definition addr_of_token :: "polyfill_code \<Rightarrow> polyfiller \<Rightarrow> string \<Rightarrow> u64 option" where
  "addr_of_token pc p name = polyfiller_addr_of p (pc_token pc name)"

subsection \<open>Relocations that the file already has\<close>

text \<open>An external symbol that has a relocation with no addend gets the address of it.\<close>

definition existing_reloc :: "u32 list \<Rightarrow> uuht \<Rightarrow> 'a::len word erw \<Rightarrow> reloc_editor \<Rightarrow> nat \<Rightarrow> local_info list \<Rightarrow> local_info list option" where
  "existing_reloc kinds dsym_to_ext erw rl i syms = do {
     let at = i * unat (rl_entry_size rl);
     addend \<leftarrow> rel_word erw rl (at + 2 * word_size TYPE('a));
     if addend \<noteq> 0 then Some syms
     else do {
       w \<leftarrow> rel_word erw rl (at + word_size TYPE('a));
       let info = esw (e_bswap erw) w;
       if rel_type info \<notin> set kinds then Some syms
       else do {
         k \<leftarrow> uuht_contains dsym_to_ext (ucast (rel_sym info));
         if k = 0 then Some syms
         else do {
           off \<leftarrow> rel_word erw rl at;
           let n = unat (slot_hi k);
           if n < length syms then Some (syms[n := (syms ! n)\<lparr>li_addr := ucast (esw (e_bswap erw) off)\<rparr>]) else None } } } }"

definition find_existing_relocs :: "u32 list \<Rightarrow> uuht \<Rightarrow> 'a::len word erw \<Rightarrow> local_info list \<Rightarrow> local_info list option" where
  "find_existing_relocs kinds dsym_to_ext erw syms =
    each (\<lambda>k syms.
        let rl = e_relocs erw ! k in
        if ucast (rl_dt rl) \<noteq> (DT_RELA :: u32) \<and> ucast (rl_dt rl) \<noteq> (DT_JMPREL :: u32) then Some syms
        else if rl_flags rl AND RELOC_EDIT_FLAG_EXPLICIT_ADDEND = 0 then Some syms
        else if unat (rl_entry_size rl) < 3 * word_size TYPE('a) then Some syms
        else each (existing_reloc kinds dsym_to_ext erw rl) [0..<unat (ucast (rl_count rl) :: u32)] syms)
      (reloc_editors erw) syms"

end
