(* ===== verification/PolyfillTables.thy ===== *)
theory PolyfillTables
  imports PolyfillCode
begin

section \<open>The polyfillers: tables that are made for the file\<close>

text \<open>
  The functions of x86_64/polyfiller.c and of aarch64/polyfiller.c that make the unwind tables,
  the arrays of functions to be called at startup and at exit and the data for relative
  relocations differ in a few places only, which are the fields of a record \<open>machine\<close>.
\<close>

record machine =
  mc_reloc_size :: nat
  mc_cie :: "u8 list"
  mc_data_category :: alloc_category
  mc_counted :: bool
  mc_irelative :: u32
  mc_populated :: "u32 \<Rightarrow> u32"

subsection \<open>Unwind information\<close>

abbreviation (input) polyfill_fde_len :: u32 where "polyfill_fde_len \<equiv> 17"

definition fde_size :: "nat \<Rightarrow> u32" where
  "fde_size n_cfi = (polyfill_fde_len + of_nat n_cfi + 3) AND NOT 3"

text \<open>
  Which symbols the two passes take for functions, with the numbers of code bytes and of unwind
  bytes, differs between the machines and is an argument.
\<close>

type_synonym cfi_fn = "local_info \<Rightarrow> (nat \<times> nat) option option"

text \<open>The first pass: the number of entries, their size, and whether the last function shares an entry.\<close>

definition cfi_count :: "cfi_fn \<Rightarrow> bool \<Rightarrow> local_info \<Rightarrow> u32 \<times> u32 \<times> bool \<Rightarrow> (u32 \<times> u32 \<times> bool) option" where
  "cfi_count fn want_trivial info s = (case s of (num_fde, size_fde, in_trivial) \<Rightarrow> do {
     f \<leftarrow> fn info;
     Some (case f of None \<Rightarrow> s
       | Some (n_code, n_cfi) \<Rightarrow>
           if n_cfi \<noteq> 0 then (num_fde + 1, size_fde + fde_size n_cfi, False)
           else if in_trivial then s
           else if \<not> want_trivial then (num_fde, size_fde, True)
           else (num_fde + 1, size_fde + fde_size n_cfi, True)) })"

text \<open>
  The second pass. Its state has the rewriter, the next entry of the sorted header, the size of
  the entries so far, the start of the entry that trivial functions share, or zero, and the
  address of the last function.
\<close>

record 'w cfi_loop =
  cl_erw :: "'w erw"
  cl_hdr :: "nat option"
  cl_size :: u32
  cl_in_trivial :: u64
  cl_prev :: u64

definition write_fde :: "machine \<Rightarrow> polyfill_code \<Rightarrow> nat \<Rightarrow> u64 \<Rightarrow> u64 \<Rightarrow> local_info \<Rightarrow> nat \<Rightarrow> nat \<Rightarrow> 'w cfi_loop \<Rightarrow> 'w cfi_loop option" where
  "write_fde mc pc cfi_base cfi_base_v hdr_v info n_code n_cfi l = do {
     let size_fde = cl_size l;
     erw \<leftarrow> (case cl_hdr l of None \<Rightarrow> Some (cl_erw l)
       | Some hdr \<Rightarrow> do {
           erw \<leftarrow> store32 hdr (ucast (li_addr info - hdr_v)) (cl_erw l);
           store32 (hdr + 4) (ucast (cfi_base_v + ucast size_fde - hdr_v)) erw });
     let this_fde = cfi_base + unat size_fde;
     erw \<leftarrow> store32 this_fde (fde_size n_cfi - 4) erw;
     erw \<leftarrow> store32 (this_fde + 4) (size_fde + 4) erw;
     erw \<leftarrow> store32 (this_fde + 8) (ucast (li_addr info - (cfi_base_v + ucast size_fde + 8))) erw;
     erw \<leftarrow> store32 (this_fde + 12) (of_nat n_code) erw;
     erw \<leftarrow> store (this_fde + 16) [0] erw;
     code \<leftarrow> code_at (mc_reloc_size mc) pc (li_token info);
     cfi \<leftarrow> mem_read (pc_data pc) (code + n_code) n_cfi;
     erw \<leftarrow> store (this_fde + 17) cfi erw;
     Some (l\<lparr>cl_erw := erw, cl_hdr := map_option (\<lambda>hdr. hdr + 8) (cl_hdr l), cl_size := size_fde + fde_size n_cfi\<rparr>) }"

definition cfi_step :: "machine \<Rightarrow> cfi_fn \<Rightarrow> polyfill_code \<Rightarrow> bool \<Rightarrow> nat \<Rightarrow> u64 \<Rightarrow> u64 \<Rightarrow> local_info \<Rightarrow> 'w cfi_loop \<Rightarrow> 'w cfi_loop option" where
  "cfi_step mc fn pc want_trivial cfi_base cfi_base_v hdr_v info l = do {
     f \<leftarrow> fn info;
     case f of None \<Rightarrow> Some l
     | Some (n_code, n_cfi) \<Rightarrow>
         if li_addr info < cl_prev l then None
         else
           let l = l\<lparr>cl_prev := li_addr info\<rparr> in
           if n_cfi \<noteq> 0 then write_fde mc pc cfi_base cfi_base_v hdr_v info n_code n_cfi (l\<lparr>cl_in_trivial := 0\<rparr>)
           else if \<not> want_trivial then Some l
           else if cl_in_trivial l \<noteq> 0 then do {
             erw \<leftarrow> store32 (cfi_base + unat (cl_size l) - unat (fde_size 0) + 12)
               (ucast (li_addr info + of_nat n_code - cl_in_trivial l)) (cl_erw l);
             Some (l\<lparr>cl_erw := erw\<rparr>) }
           else write_fde mc pc cfi_base cfi_base_v hdr_v info n_code n_cfi (l\<lparr>cl_in_trivial := li_addr info\<rparr>) }"

definition cfi_header :: "nat \<Rightarrow> u64 \<Rightarrow> u64 \<Rightarrow> u32 \<Rightarrow> 'w erw \<Rightarrow> 'w erw option" where
  "cfi_header hdr cfi_base_v hdr_v num_fde erw = do {
     erw \<leftarrow> store hdr [0x01, 0x1b, 0x03, 0x3b] erw;
     erw \<leftarrow> store32 (hdr + 4) (ucast (cfi_base_v - (hdr_v + 4))) erw;
     store32 (hdr + 8) num_fde erw }"

definition populate_cfi_variables :: "machine \<Rightarrow> cfi_fn \<Rightarrow> cfi_fn \<Rightarrow> polyfill_code \<Rightarrow> 'a::len word pf_world \<Rightarrow> 'a word pf_world option" where
  "populate_cfi_variables mc fn1 fn2 pc wd = (case wd of (erw, rn, p) \<Rightarrow> do {
     let want_trivial = (po_cfi_mode p \<noteq> polyfiller_cfi_mode_minimal);
     (num_fde, size_fde, _) \<leftarrow> each (cfi_count fn1 want_trivial) (po_addrs p) (0, of_nat (length (mc_cie mc)) + 8, False);
     var \<leftarrow> info_index p (pc_token pc ''_polyfill_cfi_data'');
     let (erw, cfi_base_v) = erw_alloc erw (mc_data_category mc) 4 (ucast size_fde);
     let p = set_info var (\<lambda>i. i\<lparr>li_addr := cfi_base_v\<rparr>) p;
     found \<leftarrow> phdrs_find_first erw PT_GNU_EH_FRAME;
     (erw, hdr_v) \<leftarrow> (if found = None then do {
         let hdr_sz = 4 * (3 + 2 * unat num_fde);
         let (erw, hdr_v) = erw_alloc erw erw_alloc_category_v_r 4 (ucast (of_nat hdr_sz :: u32));
         erw \<leftarrow> phdrs_add_gnu_eh_frame erw hdr_v (ucast (of_nat hdr_sz :: u32));
         Some (erw, hdr_v) }
       else Some (erw, 0));
     if e_retry erw then Some (erw, rn, p)
     else do {
       cfi_base \<leftarrow> view erw cfi_base_v;
       (erw, hdr) \<leftarrow> (if hdr_v \<noteq> 0 then do {
           hdr \<leftarrow> view erw hdr_v;
           erw \<leftarrow> cfi_header hdr cfi_base_v hdr_v num_fde erw;
           Some (erw, Some (hdr + 12)) }
         else Some (erw, None));
       erw \<leftarrow> store cfi_base (mc_cie mc) erw;
       l \<leftarrow> each (cfi_step mc fn2 pc want_trivial cfi_base cfi_base_v hdr_v) (po_addrs p)
         \<lparr>cl_erw = erw, cl_hdr = hdr, cl_size = of_nat (length (mc_cie mc)), cl_in_trivial = 0, cl_prev = 0\<rparr>;
       Some (cl_erw l, rn, p) } })"

subsection \<open>Functions to be called at startup\<close>

text \<open>The functions with a flag, in the order of their tokens.\<close>

definition flagged_functions :: "polyfill_code \<Rightarrow> u8 \<Rightarrow> local_info list \<Rightarrow> local_info list option" where
  "flagged_functions pc flag infos = do {
     fls \<leftarrow> all_some (map (\<lambda>i. head_flags pc (li_token i)) infos);
     Some (map snd (filter (\<lambda>(fl, i). fl AND flag \<noteq> 0 \<and> fl AND ASM_SYM_FLAG_FUNCTION \<noteq> 0) (zip fls infos))) }"

text \<open>
  An array of the distances of functions from the array. For x86_64 its first entry is their
  number, for aarch64 a variable of its own holds it. Entries have 4 or 8 bytes: \<open>st\<close> stores one.
\<close>

definition count_slot :: "machine \<Rightarrow> nat" where
  "count_slot mc = (if mc_counted mc then 1 else 0)"

definition write_array :: "machine \<Rightarrow> polyfill_code \<Rightarrow> string \<Rightarrow> (nat \<Rightarrow> u64 \<Rightarrow> 'w erw \<Rightarrow> 'w erw option) \<Rightarrow> nat \<Rightarrow> nat \<Rightarrow> u64 list \<Rightarrow> nat \<Rightarrow>
    'w erw \<times> polyfiller \<Rightarrow> ('w erw \<times> polyfiller) option" where
  "write_array mc pc count_var st width num vs var s = (case s of (erw, p) \<Rightarrow> do {
     let addr = li_addr (po_addrs p ! var);
     dst \<leftarrow> view erw addr;
     erw \<leftarrow> (if mc_counted mc then st dst (of_nat num) erw else Some erw);
     erw \<leftarrow> each (\<lambda>(k, v) erw. st (dst + width * (k + count_slot mc)) (v - addr) erw) (zip [0..<length vs] vs) erw;
     if mc_counted mc then Some (erw, p)
     else do {
       cnt \<leftarrow> info_index p (pc_token pc count_var);
       at \<leftarrow> view erw (li_addr (po_addrs p ! cnt));
       erw \<leftarrow> store32 at (of_nat (length vs)) erw;
       Some (erw, set_info cnt (\<lambda>i. i\<lparr>li_extra := mc_populated mc (li_extra i)\<rparr>) p) } })"

definition write_init_array :: "machine \<Rightarrow> polyfill_code \<Rightarrow> nat \<Rightarrow> nat \<Rightarrow> 'w erw \<times> polyfiller \<Rightarrow> ('w erw \<times> polyfiller) option" where
  "write_init_array mc pc num_init_fn var s = do {
     fns \<leftarrow> flagged_functions pc ASM_SYM_FLAG_INIT (po_addrs (snd s));
     write_array mc pc ''_polyfill_init_array_count'' (\<lambda>at v. store32 at (ucast v)) 4 num_init_fn (map li_addr fns) var s }"

text \<open>A variable that holds the distance from itself to an address.\<close>

definition populate_distance :: "machine \<Rightarrow> polyfill_code \<Rightarrow> string \<Rightarrow> u64 \<Rightarrow> 'w erw \<times> polyfiller \<Rightarrow> ('w erw \<times> polyfiller) option" where
  "populate_distance mc pc name v s = (case s of (erw, p) \<Rightarrow> do {
     var \<leftarrow> info_index p (pc_token pc name);
     let addr = li_addr (po_addrs p ! var);
     at \<leftarrow> view erw addr;
     erw \<leftarrow> store64 at (v - addr) erw;
     Some (erw, set_info var (\<lambda>i. i\<lparr>li_extra := mc_populated mc (li_extra i)\<rparr>) p) })"

definition populate_init_variables :: "machine \<Rightarrow> polyfill_code \<Rightarrow> nat \<Rightarrow> 'a::len word pf_world \<Rightarrow> 'a word pf_world option" where
  "populate_init_variables mc pc num_init_fn wd = (case wd of (erw, rn, p) \<Rightarrow> do {
     var \<leftarrow> info_index p (pc_token pc ''_polyfill_init_array'');
     let (erw, v) = erw_alloc erw (mc_data_category mc) 4 (ucast (of_nat ((num_init_fn + count_slot mc) * 4) :: u32));
     let p = set_info var (\<lambda>i. i\<lparr>li_addr := v\<rparr>) p;
     (erw, p) \<leftarrow> (if \<not> e_retry erw then write_init_array mc pc num_init_fn var (erw, p) else Some (erw, p));
     (erw, dt_init_val) \<leftarrow> erw_dhdrs_has erw DT_INIT;
     (erw, p) \<leftarrow> (case dt_init_val of
         Some val \<Rightarrow>
           if \<not> e_retry erw then do {
             (erw, p) \<leftarrow> populate_distance mc pc ''_polyfill_DT_INIT_original'' val (erw, p);
             v \<leftarrow> addr_of_token pc p ''_polyfill_DT_INIT'';
             erw \<leftarrow> erw_dhdrs_set_u erw DT_INIT v;
             Some (erw, p) }
           else Some (erw, p)
       | None \<Rightarrow> do {
           v \<leftarrow> addr_of_token pc p ''_polyfill_init'';
           erw \<leftarrow> erw_dhdrs_set_u erw DT_INIT v;
           Some (erw, p) });
     callable \<leftarrow> (if \<not> e_retry erw then phdrs_is_entry_callable erw else Some False);
     if callable then do {
       entry \<leftarrow> addr_of_token pc p ''_polyfill_entry'';
       (erw, old_entry) \<leftarrow> set_entry erw entry;
       (erw, p) \<leftarrow> populate_distance mc pc ''_polyfill_entry_original'' old_entry (erw, p);
       Some (erw, rn, p) }
     else Some (erw, rn, p) })"

subsection \<open>Functions to be called at exit\<close>

text \<open>The function that was there already, if any, is called first.\<close>

definition write_fini_array :: "machine \<Rightarrow> polyfill_code \<Rightarrow> nat \<Rightarrow> u64 option \<Rightarrow> nat \<Rightarrow> 'w erw \<times> polyfiller \<Rightarrow> ('w erw \<times> polyfiller) option" where
  "write_fini_array mc pc num_fini_fn dt_fini var s = do {
     fns \<leftarrow> flagged_functions pc ASM_SYM_FLAG_FINI (po_addrs (snd s));
     write_array mc pc ''_polyfill_fini_array_count'' store64 8 num_fini_fn
       ((case dt_fini of None \<Rightarrow> [] | Some v \<Rightarrow> [v]) @ map li_addr fns) var s }"

text \<open>With one function only, no array is needed.\<close>

definition populate_one_fini :: "polyfill_code \<Rightarrow> polyfiller \<Rightarrow> 'a::len word erw \<Rightarrow> 'a word erw option" where
  "populate_one_fini pc p erw =
    (if e_retry erw then erw_dhdrs_set_u erw DT_FINI 0
     else do {
       fns \<leftarrow> flagged_functions pc ASM_SYM_FLAG_FINI (po_addrs p);
       each (\<lambda>i erw. erw_dhdrs_set_u erw DT_FINI (li_addr i)) fns erw })"

definition populate_fini_variables :: "machine \<Rightarrow> polyfill_code \<Rightarrow> nat \<Rightarrow> 'a::len word pf_world \<Rightarrow> 'a word pf_world option" where
  "populate_fini_variables mc pc num_fini_fn wd = (case wd of (erw, rn, p) \<Rightarrow> do {
     var \<leftarrow> info_index p (pc_token pc ''_polyfill_fini_array'');
     (erw, dt_fini) \<leftarrow> erw_dhdrs_has erw DT_FINI;
     let num_fini_fn = num_fini_fn + (if dt_fini \<noteq> None then 1 else 0);
     if num_fini_fn \<le> 1 then do {
       let (erw, v) = erw_alloc erw (mc_data_category mc) 8 8;
       let p = set_info var (\<lambda>i. i\<lparr>li_addr := v\<rparr>) p;
       erw \<leftarrow> (if num_fini_fn = 1 \<and> dt_fini = None then populate_one_fini pc p erw else Some erw);
       Some (erw, rn, p) }
     else do {
       let (erw, v) = erw_alloc erw (mc_data_category mc) 8 (ucast (of_nat ((num_fini_fn + count_slot mc) * 8) :: u32));
       let p = set_info var (\<lambda>i. i\<lparr>li_addr := v\<rparr>) p;
       (erw, p) \<leftarrow> (if \<not> e_retry erw then write_fini_array mc pc num_fini_fn dt_fini var (erw, p) else Some (erw, p));
       v \<leftarrow> addr_of_token pc p ''_polyfill_DT_FINI'';
       erw \<leftarrow> erw_dhdrs_set_u erw DT_FINI v;
       Some (erw, rn, p) } })"

definition populate_dt_relr_variables :: "machine \<Rightarrow> polyfill_code \<Rightarrow> 'a::len word pf_world \<Rightarrow> 'a word pf_world option" where
  "populate_dt_relr_variables mc pc wd = (case wd of (erw, rn, p) \<Rightarrow> do {
     fn_addr \<leftarrow> addr_of_token pc p ''_polyfill_DT_RELR_apply'';
     let (erw, dummy_v) = erw_alloc erw erw_alloc_category_v_rw_zero 8 8;
     erw \<leftarrow> erw_relocs_add_early erw DT_RELA (mc_irelative mc) dummy_v 0 fn_addr;
     (erw, relr) \<leftarrow> erw_dhdrs_has erw DT_RELR;
     (erw, relrsz) \<leftarrow> erw_dhdrs_has erw DT_RELRSZ;
     erw \<leftarrow> erw_dhdrs_remove_mask erw (push_bit 36 1 OR push_bit 35 1 OR push_bit 37 1);
     if e_retry erw then Some (erw, rn, p)
     else do {
       var \<leftarrow> info_index p (pc_token pc ''_polyfill_DT_RELR_data'');
       let var_addr = li_addr (po_addrs p ! var);
       dst \<leftarrow> view erw var_addr;
       erw \<leftarrow> store64 dst var_addr erw;
       erw \<leftarrow> store64 (dst + 8) (case relrsz of None \<Rightarrow> 0 | Some v \<Rightarrow> v) erw;
       erw \<leftarrow> store64 (dst + 16) ((case relr of None \<Rightarrow> 0 | Some v \<Rightarrow> v) - var_addr) erw;
       Some (erw, rn, set_info var (\<lambda>i. i\<lparr>li_extra := mc_populated mc (li_extra i)\<rparr>) p) } })"

subsection \<open>External symbols\<close>

text \<open>The dynamic symbol of an external symbol.\<close>

definition dsym_for_extern :: "u8 \<Rightarrow> renamed_symbol \<Rightarrow> u16 \<Rightarrow> 'a::len word erw \<Rightarrow> ('a word erw \<times> u16 \<times> u32) option" where
  "dsym_for_extern stt rsym ver_cache erw = do {
     (erw, ver_cache, vidx) \<leftarrow> erw_vers_find_or_add erw ver_cache (rs_lib rsym) (rs_version rsym);
     (erw, sidx) \<leftarrow> dsyms_find_or_add erw (rs_name rsym) vidx stt;
     Some (erw, ver_cache, sidx) }"

text \<open>A slot of eight bytes with a relocation for a symbol.\<close>

definition got_slot_for :: "u32 \<Rightarrow> u32 \<Rightarrow> 'a::len word erw \<Rightarrow> ('a word erw \<times> u64) option" where
  "got_slot_for kind sidx erw = do {
     erw \<leftarrow> add_sym_flags erw (unat sidx) (SYM_INFO_RELOC_EAGER OR SYM_INFO_RELOC_REGULAR);
     let (erw, v) = erw_alloc erw erw_alloc_category_v_rw_zero 8 8;
     erw \<leftarrow> erw_relocs_add erw DT_RELA kind v sidx 0;
     Some (erw, v) }"

subsection \<open>Symbols that the polyfiller itself needs\<close>

text \<open>For the unwinder, to be called at startup and at exit; \<open>add\<close> is the machine's \<open>add_sym_and_deps\<close>.\<close>

definition wants_cfi :: "polyfiller \<Rightarrow> 'a::len word erw \<Rightarrow> bool option" where
  "wants_cfi p erw =
    (let mode = po_cfi_mode p;
         nontrivial = (po_seen_func_flags p AND ASM_SYM_FLAG_EXTERN \<noteq> 0)
     in if mode = polyfiller_cfi_mode_auto then map_option (\<lambda>found. found = None \<or> nontrivial) (phdrs_find_first erw PT_GNU_EH_FRAME)
        else if mode = polyfiller_cfi_mode_minimal then Some nontrivial
        else Some (mode = polyfiller_cfi_mode_full))"

definition add_cfi_symbols :: "(u32 \<Rightarrow> 'a::len word pf_world \<Rightarrow> 'a word pf_world option) \<Rightarrow> polyfill_code \<Rightarrow> 'a word pf_world \<Rightarrow> 'a word pf_world option" where
  "add_cfi_symbols add pc wd = (case wd of (erw, rn, p) \<Rightarrow> do {
     found \<leftarrow> phdrs_find_first erw PT_GNU_EH_FRAME;
     if found = None then add (pc_token pc ''_polyfill_cfi_data'') wd
     else do {
       (erw, needed) \<leftarrow> erw_dhdrs_has_needed erw (bytes_of ''libgcc_s.so.1'');
       add (pc_token pc (if needed then ''_polyfill_init_cfi_strong'' else ''_polyfill_init_cfi_weak''))
         (erw, rn, p) } })"

definition seen_flag :: "u8 \<Rightarrow> 'w pf_world \<Rightarrow> bool" where
  "seen_flag flag wd \<longleftrightarrow> po_seen_func_flags (snd (snd wd)) AND flag \<noteq> 0"

definition add_init_symbols :: "(u32 \<Rightarrow> 'a::len word pf_world \<Rightarrow> 'a word pf_world option) \<Rightarrow> polyfill_code \<Rightarrow> 'a word pf_world \<Rightarrow> 'a word pf_world option" where
  "add_init_symbols add pc wd = (case wd of (erw, rn, p) \<Rightarrow> do {
     (erw, dt_init) \<leftarrow> erw_dhdrs_has erw DT_INIT;
     wd \<leftarrow> add (pc_token pc (if dt_init \<noteq> None then ''_polyfill_DT_INIT'' else ''_polyfill_init'')) (erw, rn, p);
     callable \<leftarrow> phdrs_is_entry_callable (fst wd);
     if callable then add (pc_token pc ''_polyfill_entry'') wd else Some wd })"

definition add_internal_symbols :: "(u32 \<Rightarrow> 'a::len word pf_world \<Rightarrow> 'a word pf_world option) \<Rightarrow> polyfill_code \<Rightarrow> 'a word pf_world \<Rightarrow> ('a word pf_world \<times> bool) option" where
  "add_internal_symbols add pc wd =
    (if po_seen_func_flags (snd (snd wd)) = 0 then Some (wd, False)
     else do {
       any_cfi \<leftarrow> wants_cfi (snd (snd wd)) (fst wd);
       wd \<leftarrow> (if any_cfi then add_cfi_symbols add pc wd else Some wd);
       wd \<leftarrow> (if seen_flag ASM_SYM_FLAG_INIT wd then add_init_symbols add pc wd else Some wd);
       wd \<leftarrow> (if seen_flag ASM_SYM_FLAG_FINI wd then add (pc_token pc ''_polyfill_DT_FINI'') wd else Some wd);
       Some (wd, any_cfi) })"

subsection \<open>Addresses for the symbols\<close>

text \<open>The state of the loop that gives addresses to the symbols.\<close>

record 'w assign_loop =
  as_world :: "'w pf_world"
  as_ver_cache :: u16
  as_num_init :: nat
  as_num_fini :: nat
  as_externs :: uuht

definition as_set :: "nat \<Rightarrow> u64 \<Rightarrow> u32 \<Rightarrow> 'w assign_loop \<Rightarrow> 'w assign_loop" where
  "as_set k v extra l = (case as_world l of (erw, rn, p) \<Rightarrow>
     l\<lparr>as_world := (erw, rn, set_info k (\<lambda>i. i\<lparr>li_addr := v, li_extra := extra\<rparr>) p)\<rparr>)"

definition as_slot :: "nat \<Rightarrow> (u64 \<Rightarrow> u64) \<Rightarrow> 'w assign_loop \<Rightarrow> 'w assign_loop option" where
  "as_slot i g l = (case as_world l of (erw, rn, p) \<Rightarrow> do {
     t \<leftarrow> set_slot i g (po_added p);
     Some (l\<lparr>as_world := (erw, rn, p\<lparr>po_added := t\<rparr>)\<rparr>) })"

definition data_category :: "nat \<Rightarrow> alloc_category option" where
  "data_category c = rd [erw_alloc_category_f, erw_alloc_category_v_r, erw_alloc_category_v_r_near_x,
     erw_alloc_category_v_rx, erw_alloc_category_v_rw, erw_alloc_category_v_rw_zero] c"

end
