(* ===== verification/A64Reloc.thy ===== *)
theory A64Reloc
  imports Prelude
begin

section \<open>aarch64/assembler.h: encoding a displacement\<close>

text \<open>
  The displacement of an instruction of aarch64 is xor-ed into a field of zero bits. A
  displacement that the field cannot hold is refused.
\<close>

datatype operand_class_other_t =
    operand_class_other_rel16
  | operand_class_other_rel21
  | operand_class_other_rel28
  | operand_class_other_rel21a
  | operand_class_other_rel21ap
  | operand_class_other_rel21l
  | operand_class_other_addr1
  | operand_class_other_addr2
  | operand_class_other_addr4
  | operand_class_other_addr8
  | operand_class_other_addra
  | operand_class_other_addrp
  | operand_class_other_cc
  | operand_class_other_ccb
  | operand_class_other_jc
  | operand_class_other_phantom_ref
  | operand_class_other_rel32

definition S_OK_64 :: "u64 \<Rightarrow> nat \<Rightarrow> bool" where
  "S_OK_64 x b \<longleftrightarrow> drop_bit b (x + push_bit (b - 1) 1) = 0"

definition S_PACK :: "u64 \<Rightarrow> nat \<Rightarrow> u64" where
  "S_PACK x b = x AND (push_bit b 1 - 1)"

text \<open>A displacement in instructions: a multiple of four that fits into \<open>b\<close> bits, shifted to the field.\<close>

definition insn_field :: "u64 \<Rightarrow> nat \<Rightarrow> nat \<Rightarrow> u64 option" where
  "insn_field delta b at =
    (if delta AND 3 \<noteq> 0 then None
     else let delta = signed_drop_bit 2 delta
       in if \<not> S_OK_64 delta b then None else Some (push_bit at (S_PACK delta b)))"

definition encode_reloc :: "operand_class_other_t \<Rightarrow> u32 \<Rightarrow> u64 \<Rightarrow> u32 option" where
  "encode_reloc kind bits delta = map_option (\<lambda>field. bits XOR ucast field)
    (case kind of
       operand_class_other_rel16 \<Rightarrow> insn_field delta 14 5
     | operand_class_other_rel21 \<Rightarrow> insn_field delta 19 5
     | operand_class_other_rel21l \<Rightarrow> insn_field delta 19 5
     | operand_class_other_rel28 \<Rightarrow> insn_field delta 26 0
     | operand_class_other_rel21a \<Rightarrow>
         if \<not> S_OK_64 delta 21 then None
         else Some (push_bit 5 (S_PACK (signed_drop_bit 2 (delta AND NOT 3)) 19) XOR push_bit 29 (delta AND 3))
     | operand_class_other_rel32 \<Rightarrow>
         if \<not> S_OK_64 delta 32 then None else Some (S_PACK delta 32)
     | _ \<Rightarrow> None)"

end
