(* ===== verification/A64Polyfiller.thy ===== *)
theory A64Polyfiller
  imports PolyfillTables A64Reloc
begin

section \<open>aarch64/polyfiller.c\<close>

text \<open>
  The polyfiller of aarch64. The relocations name their target in the upper half and need no
  reason; an external function is called through a stub that is made for it.
\<close>

abbreviation (input) LOCAL_FLAG_ALREADY_POPULATED :: u32 where "LOCAL_FLAG_ALREADY_POPULATED \<equiv> 0x01"
abbreviation (input) LOCAL_FLAG_BTI_HEAD :: u32 where "LOCAL_FLAG_BTI_HEAD \<equiv> 0x02"
abbreviation (input) LOCAL_FLAG_IS_PLT :: u32 where "LOCAL_FLAG_IS_PLT \<equiv> 0x04"
abbreviation (input) CODE_ALIGN :: u32 where "CODE_ALIGN \<equiv> 16"
abbreviation (input) PLT_SIZE :: nat where "PLT_SIZE \<equiv> 16"

subsection \<open>Adding symbols\<close>

definition mark_once :: "u32 \<Rightarrow> u32 \<Rightarrow> uuht \<Rightarrow> (uuht \<times> bool) option" where
  "mark_once token why added = map_option (\<lambda>(added, old). (added, old \<noteq> 0)) (uuht_set_if_absent added token 1)"

definition a64_reloc_at :: "polyfill_code \<Rightarrow> u32 \<Rightarrow> nat \<Rightarrow> u64 option" where
  "a64_reloc_at pc token i = map_option word_of_bytes (mem_read (pc_data pc) (unat token + 8 + 8 * i) 8)"

definition a64_sym_deps :: "polyfill_code \<Rightarrow> u32 \<Rightarrow> sym_task list option" where
  "a64_sym_deps pc token = do {
     n_reloc \<leftarrow> head_n_reloc pc token;
     all_some (map (\<lambda>i. map_option (\<lambda>r. Add (slot_hi r) 1) (a64_reloc_at pc token i)) [0..<n_reloc]) }"

definition a64_add_sym_and_deps :: "polyfill_code \<Rightarrow> u32 \<Rightarrow> 'a::len word pf_world \<Rightarrow> 'a word pf_world option" where
  "a64_add_sym_and_deps pc token wd = add_tasks mark_once (a64_sym_deps pc) (finish_sym 8 pc 1) [Add token 1] wd"

definition a64_polyfiller_add :: "polyfill_code \<Rightarrow> bstr \<Rightarrow> 'a::len word pf_world \<Rightarrow> ('a word pf_world \<times> u32 \<times> u8) option" where
  "a64_polyfiller_add pc name wd = do {
     token \<leftarrow> rh_lookup pc name;
     if token = 0 then Some (wd, 0, 0)
     else do {
       flags \<leftarrow> head_flags pc token;
       wd \<leftarrow> a64_add_sym_and_deps pc token wd;
       Some (wd, token, if flags AND ASM_SYM_FLAG_FUNCTION \<noteq> 0 then STT_FUNC else STT_OBJECT) } }"

definition a64_polyfiller_add_fixup_for_dt_relr :: "polyfill_code \<Rightarrow> 'a::len word pf_world \<Rightarrow> ('a word pf_world \<times> bool) option" where
  "a64_polyfiller_add_fixup_for_dt_relr pc wd = do {
     wd \<leftarrow> a64_add_sym_and_deps pc (pc_token pc ''_polyfill_DT_RELR_apply'') wd;
     Some (wd, True) }"

subsection \<open>What the tables depend on\<close>

definition aarch64_machine :: machine where
  "aarch64_machine = \<lparr>mc_reloc_size = 8,
     mc_cie = [0x10, 0, 0, 0, 0, 0, 0, 0, 1, 0x7a, 0x52, 0, 1, 0x78, 0x1e, 1, 0x1b, 0x0c, 0x1f, 0],
     mc_data_category = erw_alloc_category_v_r_near_x, mc_counted = False, mc_irelative = R_AARCH64_IRELATIVE,
     mc_populated = (\<lambda>flags. flags OR LOCAL_FLAG_ALREADY_POPULATED)\<rparr>"

text \<open>
  The first pass counts every external function as a stub, the second one only those that have
  one: \<open>stub\<close> tells them.
\<close>

definition a64_cfi_function :: "(local_info \<Rightarrow> bool) \<Rightarrow> polyfill_code \<Rightarrow> cfi_fn" where
  "a64_cfi_function stub pc info = (let token = li_token info in do {
     flags \<leftarrow> head_flags pc token;
     n_code \<leftarrow> head_n_code pc token;
     n_cfi \<leftarrow> head_n_cfi pc token;
     Some (if flags AND ASM_SYM_FLAG_FUNCTION = 0 then None
       else if flags AND ASM_SYM_FLAG_EXTERN \<noteq> 0 then (if stub info then Some (PLT_SIZE, 0) else None)
       else if n_code = 0 then None else Some (n_code, n_cfi)) })"

definition is_plt :: "local_info \<Rightarrow> bool" where
  "is_plt info \<longleftrightarrow> li_extra info AND LOCAL_FLAG_IS_PLT \<noteq> 0"

definition a64_populate_cfi_variables :: "polyfill_code \<Rightarrow> 'a::len word pf_world \<Rightarrow> 'a word pf_world option" where
  "a64_populate_cfi_variables pc =
    populate_cfi_variables aarch64_machine (a64_cfi_function (\<lambda>_. True) pc) (a64_cfi_function is_plt pc) pc"

definition a64_populate_init_variables :: "polyfill_code \<Rightarrow> nat \<Rightarrow> 'a::len word pf_world \<Rightarrow> 'a word pf_world option" where
  "a64_populate_init_variables pc = populate_init_variables aarch64_machine pc"

definition a64_populate_fini_variables :: "polyfill_code \<Rightarrow> nat \<Rightarrow> 'a::len word pf_world \<Rightarrow> 'a word pf_world option" where
  "a64_populate_fini_variables pc = populate_fini_variables aarch64_machine pc"

definition a64_populate_dt_relr_variables :: "polyfill_code \<Rightarrow> 'a::len word pf_world \<Rightarrow> 'a word pf_world option" where
  "a64_populate_dt_relr_variables pc = populate_dt_relr_variables aarch64_machine pc"

subsection \<open>Copying code and resolving its relocations\<close>

definition operand_class_of :: "nat \<Rightarrow> operand_class_other_t option" where
  "operand_class_of n = rd [operand_class_other_rel16, operand_class_other_rel21, operand_class_other_rel28,
     operand_class_other_rel21a, operand_class_other_rel21ap, operand_class_other_rel21l, operand_class_other_addr1,
     operand_class_other_addr2, operand_class_other_addr4, operand_class_other_addr8, operand_class_other_addra,
     operand_class_other_addrp, operand_class_other_cc, operand_class_other_ccb, operand_class_other_jc,
     operand_class_other_phantom_ref, operand_class_other_rel32] n"

text \<open>The branches that can do without the landing pad at the head of a function skip it.\<close>

definition reloc_target :: "operand_class_other_t \<Rightarrow> local_info \<Rightarrow> u64 option" where
  "reloc_target kind target =
    (if kind \<in> {operand_class_other_rel16, operand_class_other_rel21, operand_class_other_rel28} then
       Some (li_addr target + (if li_extra target AND LOCAL_FLAG_BTI_HEAD \<noteq> 0 then 4 else 0))
     else if kind \<in> {operand_class_other_rel21a, operand_class_other_rel21l, operand_class_other_rel32} then Some (li_addr target)
     else None)"

definition a64_populate_reloc :: "polyfill_code \<Rightarrow> nat \<Rightarrow> nat \<Rightarrow> nat \<Rightarrow> 'a::len word pf_world \<Rightarrow> 'a word pf_world option" where
  "a64_populate_reloc pc k dst i wd = (case wd of (erw, rn, p) \<Rightarrow> do {
     let info = po_addrs p ! k;
     r \<leftarrow> a64_reloc_at pc (li_token info) i;
     target \<leftarrow> info_index p (slot_hi r);
     kind \<leftarrow> operand_class_of (unat (r AND 0xff));
     if kind = operand_class_other_phantom_ref then Some wd
     else do {
       target_addr \<leftarrow> reloc_target kind (po_addrs p ! target);
       let at = unat (drop_bit 8 (slot_lo r));
       bits \<leftarrow> mem_read32 (e_f erw) (dst + at);
       bits \<leftarrow> encode_reloc kind bits (target_addr - (li_addr info + of_nat at));
       erw \<leftarrow> store32 (dst + at) bits erw;
       Some (erw, rn, p) } })"

definition a64_populate_regular_symbol :: "polyfill_code \<Rightarrow> nat \<Rightarrow> 'a::len word pf_world \<Rightarrow> 'a word pf_world option" where
  "a64_populate_regular_symbol pc k wd = (case wd of (erw, rn, p) \<Rightarrow> do {
     let info = po_addrs p ! k;
     n_reloc \<leftarrow> head_n_reloc pc (li_token info);
     n_code \<leftarrow> head_n_code pc (li_token info);
     src \<leftarrow> code_at 8 pc (li_token info);
     case view erw (li_addr info) of None \<Rightarrow> Some wd
     | Some dst \<Rightarrow> do {
         code \<leftarrow> mem_read (pc_data pc) src n_code;
         erw \<leftarrow> store dst code erw;
         each (a64_populate_reloc pc k dst) [0..<n_reloc] (erw, rn, p) } })"

subsection \<open>Stubs for external functions\<close>

text \<open>The instructions: the address of the pointer to the function, by \<open>adr\<close> or \<open>adrp\<close> and \<open>add\<close>, and a jump.\<close>

definition plt_code :: "u64 \<Rightarrow> u64 \<Rightarrow> u32 list option" where
  "plt_code addr target =
    (let adr = (\<lambda>op delta :: u64. ucast (op XOR push_bit 29 (delta AND 3) XOR (push_bit 3 delta AND 0xffffe0)) :: u32);
         delta = target - addr
     in if S_OK_64 delta 21 then Some [adr 0x10000010 delta, 0xf9400211, 0xd61f0220]
        else let t_p = target AND NOT 0xfff;
                 a_p = addr AND NOT 0xfff;
                 delta = signed_drop_bit 12 (t_p - a_p)
          in if \<not> S_OK_64 delta 21 then None
             else Some [adr 0x90000010 delta, 0x91000210 XOR ucast (push_bit 10 (target - t_p)), 0xf9400211, 0xd61f0220])"

definition write_plt :: "u64 \<Rightarrow> u64 \<Rightarrow> 'w erw \<Rightarrow> 'w erw option" where
  "write_plt addr target erw = do {
     dst \<leftarrow> view erw addr;
     code \<leftarrow> plt_code addr target;
     store dst (concat (map word_bytes code)) erw }"

subsection \<open>The end of adding\<close>

text \<open>The table of added symbols gets the index of the entry that stands for the symbol.\<close>

definition a64_assign_extern :: "polyfill_code \<Rightarrow> nat \<Rightarrow> u32 \<Rightarrow> u8 \<Rightarrow> 'a::len word assign_loop \<Rightarrow> ('a word assign_loop \<times> u32) option" where
  "a64_assign_extern pc k token flags l = (case as_world l of (erw, rn, p) \<Rightarrow> do {
     (lib, name, version) \<leftarrow> parse_extern_sym 8 pc token;
     case name of None \<Rightarrow> Some (l, of_nat k)
     | Some name \<Rightarrow> do {
         (rsym, polyfill) \<leftarrow> rename_extern rn lib name version;
         if polyfill then do {
           target_token \<leftarrow> rh_lookup pc (rs_name rsym);
           if target_token > token then None
           else do {
             own_idx \<leftarrow> uuht_lookup_or (po_added p) target_token (- 1);
             Some (l, own_idx) } }
         else do {
           rn \<leftarrow> renamer_ensure_lib_dependency rn (rs_lib rsym);
           (erw, ver_cache, sidx) \<leftarrow> dsym_for_extern (if flags AND ASM_SYM_FLAG_FUNCTION \<noteq> 0 then STT_FUNC else STT_OBJECT)
             rsym (as_ver_cache l) erw;
           (exts, own_idx) \<leftarrow> uuht_lookup_or_set (as_externs l) sidx (of_nat k);
           Some (l\<lparr>as_world := (erw, rn, p), as_ver_cache := ver_cache, as_externs := exts\<rparr>, own_idx) } } })"

definition has_bti_head :: "polyfill_code \<Rightarrow> u32 \<Rightarrow> nat \<Rightarrow> bool option" where
  "has_bti_head pc token n_code =
    (if n_code < 4 then Some False
     else do {
       src \<leftarrow> code_at 8 pc token;
       w \<leftarrow> mem_read32 (pc_data pc) src;
       Some (w AND 0xffffff3f = 0xd503241f) })"

definition a64_assign_step :: "polyfill_code \<Rightarrow> nat \<Rightarrow> 'a::len word assign_loop \<Rightarrow> 'a word assign_loop option" where
  "a64_assign_step pc k l = (case as_world l of (erw, rn, p) \<Rightarrow> do {
     let info = po_addrs p ! k;
     let token = li_token info;
     let table_index = unat (ucast (li_addr info) :: u32);
     let finish = (\<lambda>v li_flags own_idx l. as_slot table_index (\<lambda>slot. ucast (slot_lo slot) OR push_bit 32 (ucast (own_idx :: u32)))
       (as_set k v li_flags l));
     flags \<leftarrow> head_flags pc token;
     n_code \<leftarrow> head_n_code pc token;
     if flags AND ASM_SYM_FLAG_EXTERN \<noteq> 0 then do {
       (l, own_idx) \<leftarrow> a64_assign_extern pc k token flags l;
       finish 0 0 own_idx l }
     else if flags AND ASM_SYM_FLAG_FUNCTION \<noteq> 0 then do {
       let (erw, v) = erw_alloc erw erw_alloc_category_v_rx CODE_ALIGN (of_nat n_code);
       bti \<leftarrow> has_bti_head pc token n_code;
       finish v (if bti then LOCAL_FLAG_BTI_HEAD else 0) (of_nat k)
         (l\<lparr>as_num_init := as_num_init l + (if flags AND ASM_SYM_FLAG_INIT \<noteq> 0 then 1 else 0),
            as_num_fini := as_num_fini l + (if flags AND ASM_SYM_FLAG_FINI \<noteq> 0 then 1 else 0),
            as_world := (erw, rn, p)\<rparr>) }
     else do {
       h3 \<leftarrow> head_n_cfi pc token;
       category \<leftarrow> data_category (h3 mod 256);
       let (erw, v) = erw_alloc erw category (of_nat (h3 div 256)) (of_nat n_code);
       finish v 0 (of_nat k) (l\<lparr>as_world := (erw, rn, p)\<rparr>) } })"

text \<open>A dynamic symbol gets a slot, if the file has none for it, and a stub that jumps through the slot.\<close>

definition a64_extern_slot :: "u64 \<Rightarrow> 'a::len word pf_world \<Rightarrow> 'a word pf_world option" where
  "a64_extern_slot slot wd = (case wd of (erw, rn, p) \<Rightarrow>
     if slot = 0 then Some wd
     else do {
       let k = unat (slot_hi slot);
       info \<leftarrow> rd (po_addrs p) k;
       (erw, v) \<leftarrow> (if li_addr info = 0 then got_slot_for R_AARCH64_GLOB_DAT (uuht_unhash (slot_lo slot)) erw else Some (erw, li_addr info));
       let (erw, plt) = erw_alloc erw erw_alloc_category_v_rx CODE_ALIGN (of_nat PLT_SIZE);
       erw \<leftarrow> (if plt \<noteq> 0 then write_plt plt v erw else Some erw);
       Some (erw, rn, set_info k (\<lambda>i. i\<lparr>li_addr := plt, li_extra := li_extra i OR LOCAL_FLAG_IS_PLT\<rparr>) p) })"

definition a64_extern_slots :: "uuht \<Rightarrow> 'a::len word pf_world \<Rightarrow> 'a word pf_world option" where
  "a64_extern_slots t wd =
    (if u_count t = 0 then Some wd
     else case wd of (erw, rn, p) \<Rightarrow> do {
       erw \<leftarrow> (if relocs_live erw then Some erw else erw_relocs_init erw);
       addrs \<leftarrow> find_existing_relocs [R_AARCH64_GLOB_DAT, R_AARCH64_JUMP_SLOT] t erw (po_addrs p);
       each a64_extern_slot (sort (map (\<lambda>i. u_table t ! i) [0..<unat (u_mask t) + 1])) (erw, rn, p\<lparr>po_addrs := addrs\<rparr>) })"

definition a64_populate_symbols :: "polyfill_code \<Rightarrow> 'a::len word pf_world \<Rightarrow> 'a word pf_world option" where
  "a64_populate_symbols pc wd =
    each (\<lambda>k wd. do {
        let info = po_addrs (snd (snd wd)) ! k;
        flags \<leftarrow> head_flags pc (li_token info);
        if flags AND ASM_SYM_FLAG_EXTERN \<noteq> 0 \<or> li_extra info AND LOCAL_FLAG_ALREADY_POPULATED \<noteq> 0 then Some wd
        else a64_populate_regular_symbol pc k wd })
      [0..<length (po_addrs (snd (snd wd)))] wd"

definition a64_polyfiller_finished_adding :: "polyfill_code \<Rightarrow> 'a::len word pf_world \<Rightarrow> 'a word pf_world option" where
  "a64_polyfiller_finished_adding pc wd = do {
     ((erw, rn, p), any_cfi) \<leftarrow> add_internal_symbols (a64_add_sym_and_deps pc) pc wd;
     let p = p\<lparr>po_addrs := sorted_addrs
       (\<lambda>i slot. \<lparr>li_token = uuht_unhash (slot_lo slot), li_extra = 0, li_addr = of_nat i\<rparr>) (po_added p)\<rparr>;
     l \<leftarrow> each (a64_assign_step pc) [0..<length (po_addrs p)]
       \<lparr>as_world = (erw, rn, p), as_ver_cache = 0, as_num_init = 0, as_num_fini = 0, as_externs = uuht_init\<rparr>;
     wd \<leftarrow> a64_extern_slots (as_externs l) (as_world l);
     wd \<leftarrow> (if as_num_init l \<noteq> 0 then a64_populate_init_variables pc (as_num_init l) wd else Some wd);
     wd \<leftarrow> (if as_num_fini l \<noteq> 0 then a64_populate_fini_variables pc (as_num_fini l) wd else Some wd);
     wd \<leftarrow> (if any_cfi then a64_populate_cfi_variables pc wd else Some wd);
     relr \<leftarrow> uuht_contains (po_added (snd (snd wd))) (pc_token pc ''_polyfill_DT_RELR_apply'');
     wd \<leftarrow> (if relr \<noteq> 0 then a64_populate_dt_relr_variables pc wd else Some wd);
     if e_retry (fst wd) then Some wd else a64_populate_symbols pc wd }"

definition polyfiller_fns_aarch64 :: "polyfill_code \<Rightarrow> ('a::len word, polyfiller) polyfiller_fns" where
  "polyfiller_fns_aarch64 pc = \<lparr>pf_init = polyfiller_init, pf_add_fixup_for_dt_relr = a64_polyfiller_add_fixup_for_dt_relr pc,
     pf_add = a64_polyfiller_add pc, pf_finished_adding = a64_polyfiller_finished_adding pc, pf_addr_of = polyfiller_addr_of\<rparr>"

end
