(* ===== verification/A64RelocOk.thy ===== *)
theory A64RelocOk
  imports A64Polyfiller
begin

section \<open>Decoding what was encoded\<close>

text \<open>
  What the aarch64 polyfiller writes into instructions, read back the way the processor reads it:
  the operand field of each kind of relocation, and the stub through which an external function
  is called.
\<close>

definition fits_signed :: "nat \<Rightarrow> int \<Rightarrow> bool" where
  "fits_signed b x \<longleftrightarrow> - (2 ^ (b - 1)) \<le> x \<and> x < 2 ^ (b - 1)"

lemma sint_cases: "sint x = (if uint x < 2 ^ 63 then uint x else uint x - 2 ^ 64)" for x :: u64
proof -
  have lt: "uint x < 2 ^ 64" "0 \<le> uint x" using uint_lt2p [of x] by simp_all
  have b: "bit (uint x) 63 \<longleftrightarrow> 2 ^ 63 \<le> uint x"
  proof (cases "2 ^ 63 \<le> uint x")
    case True
    then have "uint x div 2 ^ 63 = 1" using lt by (auto intro: int_div_pos_eq [where r = "uint x - 2 ^ 63"])
    then show ?thesis using True by (simp add: bit_iff_odd)
  next
    case False
    then show ?thesis using lt by (simp add: bit_iff_odd)
  qed
  have "take_bit 64 (uint x) = uint x" using lt by (simp add: take_bit_int_eq_self)
  then show ?thesis using b by (simp add: sint_uint signed_take_bit_eq_take_bit_minus)
qed

lemma uint_drop_zero: "drop_bit b y = 0 \<longleftrightarrow> uint y < 2 ^ b" for y :: u64
proof -
  have "uint (drop_bit b y) = drop_bit b (uint y)"
    using uint_lt2p [of y] by (subst unsigned_drop_bit_eq) (simp add: take_bit_int_eq_self)
  then have "uint (drop_bit b y) = uint y div 2 ^ b" by (simp only: drop_bit_eq_div)
  then have "drop_bit b y = 0 \<longleftrightarrow> uint y div 2 ^ b = 0" by (metis uint_0_iff)
  also have "\<dots> \<longleftrightarrow> uint y < 2 ^ b" by (auto simp: zdiv_eq_0_iff not_less)
  finally show ?thesis .
qed

lemma wrap_once:
  "0 \<le> s \<Longrightarrow> s < 2 ^ 64 \<Longrightarrow> 0 \<le> h \<Longrightarrow> h \<le> 2 ^ 62 \<Longrightarrow>
    (s + h) mod 2 ^ 64 = (if s + h < 2 ^ 64 then s + h else s + h - 2 ^ 64)" for s h :: int
proof (cases "s + h < 2 ^ 64")
  case False
  assume a: "0 \<le> s" "s < 2 ^ 64" "0 \<le> h" "h \<le> 2 ^ 62"
  have "(s + h) mod 2 ^ 64 = (s + h - 2 ^ 64) mod 2 ^ 64" by (rule mod_pos_geq) (use False in simp_all)
  also have "\<dots> = s + h - 2 ^ 64" by (rule mod_pos_pos_trivial) (use False a in simp_all)
  finally show ?thesis using False by simp
qed (simp add: mod_pos_pos_trivial)

lemma S_OK_64_iff:
  assumes "0 < b" "b < 64"
  shows "S_OK_64 x b \<longleftrightarrow> fits_signed b (sint x)"
proof -
  let ?h = "2 ^ (b - 1) :: int"
  have two: "2 * ?h = 2 ^ b" using assms by (simp flip: power_Suc)
  have h: "?h \<le> 2 ^ 62" using assms by (intro power_increasing) auto
  have u: "uint (push_bit (b - 1) 1 :: u64) = ?h"
    using h assms by (subst unsigned_push_bit_eq) (simp add: push_bit_eq_mult take_bit_int_eq_self)
  have "uint (x + push_bit (b - 1) 1) = (uint x + ?h) mod 2 ^ 64" unfolding uint_word_ariths u by simp
  also have "\<dots> = (if uint x + ?h < 2 ^ 64 then uint x + ?h else uint x + ?h - 2 ^ 64)"
    by (rule wrap_once) (use uint_lt2p [of x] h in simp_all)
  finally have m: "uint (x + push_bit (b - 1) 1) = (if uint x + ?h < 2 ^ 64 then uint x + ?h else uint x + ?h - 2 ^ 64)" .
  have "0 \<le> uint x" "uint x < 2 ^ 64" "0 < ?h" using uint_lt2p [of x] by simp_all
  then have "uint (x + push_bit (b - 1) 1) < 2 * ?h \<longleftrightarrow> - ?h \<le> sint x \<and> sint x < ?h"
    unfolding m sint_cases using h by (simp split: if_splits, linarith)
  then show ?thesis unfolding fits_signed_def S_OK_64_def uint_drop_zero two .
qed

subsection \<open>Fields of an instruction\<close>

lemma S_PACK_take_bit: "S_PACK x b = take_bit b x"
proof -
  have "(push_bit b 1 - 1 :: u64) = mask b" by (simp add: mask_eq_exp_minus_1)
  then show ?thesis by (simp add: S_PACK_def take_bit_eq_mask)
qed

lemma clear_bits: "take_bit b (drop_bit at bits) = 0 \<Longrightarrow> i < b \<Longrightarrow> \<not> bit bits (at + i)" for bits :: u32
proof -
  assume "take_bit b (drop_bit at bits) = 0" "i < b"
  then have "\<not> bit (take_bit b (drop_bit at bits)) i" by simp
  then show ?thesis using \<open>i < b\<close> by (simp add: bit_simps)
qed

lemma field_value:
  fixes bits :: u32 and y :: u64
  assumes "take_bit LENGTH('c::len) (drop_bit at bits) = 0" and "at + LENGTH('c) \<le> 32"
  shows "(ucast (drop_bit at (bits XOR ucast (push_bit at (take_bit LENGTH('c) y)))) :: 'c word) = ucast y"
proof (rule bit_word_eqI)
  fix n assume "n < LENGTH('c)"
  then show "bit (ucast (drop_bit at (bits XOR ucast (push_bit at (take_bit LENGTH('c) y)))) :: 'c word) n = bit (ucast y :: 'c word) n"
    using assms clear_bits [OF assms(1)] by (simp add: bit_simps)
qed

lemma field_outside:
  "i < at \<or> at + b \<le> i \<Longrightarrow> bit (bits XOR ucast (push_bit at (take_bit b y))) i = bit bits i" for bits :: u32 and y :: u64
  by (cases "i < 32") (auto simp: bit_simps)

lemma sint_ucast_fits:
  fixes y :: u64
  assumes "fits_signed LENGTH('c::len) (sint y)" and "LENGTH('c) \<le> 64"
  shows "sint (ucast y :: 'c word) = sint y"
proof -
  have "sint (ucast y :: 'c word) = signed_take_bit (LENGTH('c) - 1) (uint y)"
    using assms(2) by (simp add: sint_uint unsigned_ucast_eq signed_take_bit_take_bit)
  also have "\<dots> = signed_take_bit (LENGTH('c) - 1) (sint y)"
    using assms(2) by (auto simp: sint_uint signed_take_bit_signed_take_bit min_def)
  also have "\<dots> = sint y" using assms(1) by (simp add: signed_take_bit_int_eq_self_iff fits_signed_def)
  finally show ?thesis .
qed

text \<open>The fields of an operand, as their lowest bit and their width, and its value as a displacement.\<close>

definition reloc_fields :: "operand_class_other_t \<Rightarrow> (nat \<times> nat) list" where
  "reloc_fields kind = (case kind of
     operand_class_other_rel16 \<Rightarrow> [(5, 14)]
   | operand_class_other_rel21 \<Rightarrow> [(5, 19)]
   | operand_class_other_rel21l \<Rightarrow> [(5, 19)]
   | operand_class_other_rel28 \<Rightarrow> [(0, 26)]
   | operand_class_other_rel21a \<Rightarrow> [(5, 19), (29, 2)]
   | operand_class_other_rel32 \<Rightarrow> [(0, 32)]
   | _ \<Rightarrow> [])"

definition reloc_value :: "operand_class_other_t \<Rightarrow> u32 \<Rightarrow> int" where
  "reloc_value kind w = (case kind of
     operand_class_other_rel16 \<Rightarrow> 4 * sint (ucast (drop_bit 5 w) :: 14 word)
   | operand_class_other_rel21 \<Rightarrow> 4 * sint (ucast (drop_bit 5 w) :: 19 word)
   | operand_class_other_rel21l \<Rightarrow> 4 * sint (ucast (drop_bit 5 w) :: 19 word)
   | operand_class_other_rel28 \<Rightarrow> 4 * sint (ucast w :: 26 word)
   | operand_class_other_rel21a \<Rightarrow> 4 * sint (ucast (drop_bit 5 w) :: 19 word) + uint (ucast (drop_bit 29 w) :: 2 word)
   | operand_class_other_rel32 \<Rightarrow> sint w
   | _ \<Rightarrow> 0)"

definition reloc_fits :: "operand_class_other_t \<Rightarrow> int \<Rightarrow> bool" where
  "reloc_fits kind d = (case kind of
     operand_class_other_rel16 \<Rightarrow> 4 dvd d \<and> fits_signed 16 d
   | operand_class_other_rel21 \<Rightarrow> 4 dvd d \<and> fits_signed 21 d
   | operand_class_other_rel21l \<Rightarrow> 4 dvd d \<and> fits_signed 21 d
   | operand_class_other_rel28 \<Rightarrow> 4 dvd d \<and> fits_signed 28 d
   | operand_class_other_rel21a \<Rightarrow> fits_signed 21 d
   | operand_class_other_rel32 \<Rightarrow> fits_signed 32 d
   | _ \<Rightarrow> False)"

lemma sint_shift2: "sint (signed_drop_bit 2 d) = sint d div 4" for d :: u64
  by (simp add: sint_signed_drop_bit_eq drop_bit_eq_div)

lemma mult4: "delta AND 3 = 0 \<longleftrightarrow> 4 dvd sint delta" for delta :: u64
proof -
  have "delta AND 3 = take_bit 2 delta" by (simp add: take_bit_eq_mask mask_eq_exp_minus_1)
  moreover have "take_bit 2 delta = 0 \<longleftrightarrow> 4 dvd uint delta"
  proof -
    have "uint (take_bit 2 delta) = take_bit 2 (uint delta)" by (rule unsigned_take_bit_eq)
    then show ?thesis by (metis dvd_eq_mod_eq_0 power2_eq_square take_bit_eq_mod uint_0_iff mult_2 numeral_Bit0 numeral_One one_add_one)
  qed
  moreover have "4 dvd uint delta \<longleftrightarrow> 4 dvd sint delta"
    unfolding sint_cases by (cases "uint delta < 2 ^ 63") (simp_all, presburger)
  ultimately show ?thesis by simp
qed

lemma insn_field_ok:
  assumes "insn_field delta b at = r" and "2 < b" "b < 62"
  shows "if 4 dvd sint delta \<and> fits_signed (b + 2) (sint delta)
    then r = Some (push_bit at (take_bit b (signed_drop_bit 2 delta))) \<and> fits_signed b (sint (signed_drop_bit 2 delta)) \<and>
      4 * sint (signed_drop_bit 2 delta) = sint delta
    else r = None"
proof -
  have p: "2 ^ (b + 2 - 1) = 4 * (2 ^ (b - 1) :: int)" using assms(2) by (cases b) auto
  have "4 dvd d \<Longrightarrow> (- P \<le> d div 4 \<and> d div 4 < P) \<longleftrightarrow> (- (4 * P) \<le> d \<and> d < 4 * P)" for d P :: int
    by (elim dvdE) simp
  then have scale: "4 dvd d \<Longrightarrow> fits_signed b (d div 4) \<longleftrightarrow> fits_signed (b + 2) d" for d :: int
    unfolding fits_signed_def p by blast
  have ok: "S_OK_64 (signed_drop_bit 2 delta) b \<longleftrightarrow> fits_signed b (sint (signed_drop_bit 2 delta))"
    by (rule S_OK_64_iff) (use assms in simp_all)
  show ?thesis
  proof (cases "4 dvd sint delta")
    case True
    then have "4 * sint (signed_drop_bit 2 delta) = sint delta" by (simp only: sint_shift2 dvd_mult_div_cancel)
    moreover have "fits_signed b (sint (signed_drop_bit 2 delta)) \<longleftrightarrow> fits_signed (b + 2) (sint delta)"
      using scale [OF True] by (simp only: sint_shift2)
    ultimately show ?thesis
      using True assms(1) [symmetric] 
      by (cases "fits_signed (b + 2) (sint delta)") (simp_all only: insn_field_def mult4 ok S_PACK_take_bit Let_def simp_thms if_True if_False)
  next
    case False
    then show ?thesis using assms(1) [symmetric] by (simp only: insn_field_def mult4 simp_thms if_True if_False not_True_eq_False not_False_eq_True)
  qed
qed

lemma insn_field_cases:
  assumes "2 < b" "b < 62"
  obtains "\<not> (4 dvd sint delta \<and> fits_signed (b + 2) (sint delta))" "insn_field delta b at = None"
  | "4 dvd sint delta \<and> fits_signed (b + 2) (sint delta)"
    "insn_field delta b at = Some (push_bit at (take_bit b (signed_drop_bit 2 delta)))"
    "fits_signed b (sint (signed_drop_bit 2 delta))" "4 * sint (signed_drop_bit 2 delta) = sint delta"
  using insn_field_ok [OF refl assms, of delta at] by (auto split: if_splits)

text \<open>What is to be shown of a word with the displacement \<open>d\<close>.\<close>

definition reloc_written :: "operand_class_other_t \<Rightarrow> int \<Rightarrow> u32 \<Rightarrow> u32 \<Rightarrow> bool" where
  "reloc_written kind d bits w \<longleftrightarrow> reloc_value kind w = d \<and>
     (\<forall>i. (\<forall>(at, b) \<in> set (reloc_fields kind). i < at \<or> at + b \<le> i) \<longrightarrow> bit w i = bit bits i)"

definition reloc_clear :: "operand_class_other_t \<Rightarrow> u32 \<Rightarrow> bool" where
  "reloc_clear kind bits \<longleftrightarrow> (\<forall>(at, b) \<in> set (reloc_fields kind). take_bit b (drop_bit at bits) = 0)"

definition encodes :: "operand_class_other_t \<Rightarrow> u32 \<Rightarrow> u64 \<Rightarrow> bool" where
  "encodes kind bits delta \<longleftrightarrow> (case encode_reloc kind bits delta of
     None \<Rightarrow> \<not> reloc_fits kind (sint delta)
   | Some w \<Rightarrow> reloc_fits kind (sint delta) \<and> reloc_written kind (sint delta) bits w)"

lemma insn_encodes:
  fixes bits :: u32
  assumes clear: "take_bit LENGTH('c::len) (drop_bit at bits) = 0" and len: "2 < LENGTH('c)" "at + LENGTH('c) \<le> 32"
  shows "case map_option (\<lambda>field. bits XOR ucast field) (insn_field delta LENGTH('c) at) of
      None \<Rightarrow> \<not> (4 dvd sint delta \<and> fits_signed (LENGTH('c) + 2) (sint delta))
    | Some w \<Rightarrow> (4 dvd sint delta \<and> fits_signed (LENGTH('c) + 2) (sint delta)) \<and>
        4 * sint (ucast (drop_bit at w) :: 'c word) = sint delta \<and>
        (\<forall>i. i < at \<or> at + LENGTH('c) \<le> i \<longrightarrow> bit w i = bit bits i)"
proof -
  have l: "LENGTH('c) < 62" "LENGTH('c) \<le> 64" using len by simp_all
  show ?thesis
  proof (cases rule: insn_field_cases [OF len(1) l(1), of delta at])
    case 1
    then show ?thesis by simp
  next
    case 2
    have "4 * sint (ucast (drop_bit at (bits XOR ucast (push_bit at (take_bit LENGTH('c) (signed_drop_bit 2 delta))))) :: 'c word) = sint delta"
      using 2(4) sint_ucast_fits [OF 2(3) l(2)] field_value [OF clear len(2)] by simp
    then show ?thesis using 2(1,2) field_outside [of _ at "LENGTH('c)" bits "signed_drop_bit 2 delta"] by simp
  qed
qed

lemma encodes_insn:
  "reloc_clear operand_class_other_rel16 bits \<Longrightarrow> encodes operand_class_other_rel16 bits delta"
  "reloc_clear operand_class_other_rel21 bits \<Longrightarrow> encodes operand_class_other_rel21 bits delta"
  "reloc_clear operand_class_other_rel21l bits \<Longrightarrow> encodes operand_class_other_rel21l bits delta"
  "reloc_clear operand_class_other_rel28 bits \<Longrightarrow> encodes operand_class_other_rel28 bits delta"
  using insn_encodes [where 'c = 14 and at = 5 and bits = bits and delta = delta]
    insn_encodes [where 'c = 19 and at = 5 and bits = bits and delta = delta]
    insn_encodes [where 'c = 26 and at = 0 and bits = bits and delta = delta]
  by (simp_all add: encodes_def encode_reloc_def reloc_clear_def reloc_written_def reloc_fields_def reloc_value_def reloc_fits_def
    split: option.splits)

lemma encodes_rel32: "reloc_clear operand_class_other_rel32 bits \<Longrightarrow> encodes operand_class_other_rel32 bits delta"
proof -
  assume c: "reloc_clear operand_class_other_rel32 bits"
  then have clear: "take_bit LENGTH(32) (drop_bit 0 bits) = 0" by (simp add: reloc_clear_def reloc_fields_def)
  have "sint (bits XOR ucast (take_bit 32 delta)) = sint delta" if "fits_signed 32 (sint delta)"
    using sint_ucast_fits [where 'c = 32 and y = delta] that field_value [where 'c = 32 and at = 0, OF clear, of delta] by simp
  then show ?thesis
    using S_OK_64_iff [of 32 delta]
    by (auto simp: encodes_def encode_reloc_def reloc_fits_def reloc_written_def reloc_value_def reloc_fields_def S_PACK_take_bit bit_simps)
qed

lemma encodes_rel21a: "reloc_clear operand_class_other_rel21a bits \<Longrightarrow> encodes operand_class_other_rel21a bits delta"
proof -
  assume c: "reloc_clear operand_class_other_rel21a bits"
  then have clear: "take_bit 19 (drop_bit 5 bits) = 0" "take_bit 2 (drop_bit 29 bits) = 0"
    by (simp_all add: reloc_clear_def reloc_fields_def)
  let ?q = "signed_drop_bit 2 delta"
  let ?w = "bits XOR ucast (push_bit 5 (take_bit 19 ?q) XOR push_bit 29 (take_bit 2 delta))"
  have q: "signed_drop_bit 2 (delta AND NOT 3) = ?q"
    by (rule bit_word_eqI) (auto simp: bit_simps numeral_eq_Suc)
  have low: "delta AND 3 = take_bit 2 delta" by (simp add: take_bit_eq_mask mask_eq_exp_minus_1)
  have hi: "(ucast (drop_bit 5 ?w) :: 19 word) = ucast ?q"
    by (rule bit_word_eqI) (use clear_bits [OF clear(1)] in \<open>auto simp: bit_simps\<close>)
  have lo: "(ucast (drop_bit 29 ?w) :: 2 word) = ucast delta"
    by (rule bit_word_eqI) (use clear_bits [OF clear(2)] in \<open>auto simp: bit_simps\<close>)
  have out: "bit ?w i = bit bits i" if "i < 5 \<or> 24 \<le> i" "i < 29 \<or> 31 \<le> i" for i
    using that by (cases "i < 32") (auto simp: bit_simps)
  have small: "fits_signed 19 (sint ?q)" if "fits_signed 21 (sint delta)"
    using that by (simp add: fits_signed_def sint_shift2, presburger)
  have "uint (ucast delta :: 2 word) = sint delta mod 4"
  proof -
    have "uint (ucast delta :: 2 word) = uint delta mod 4" by (simp add: unsigned_ucast_eq take_bit_eq_mod)
    then show ?thesis unfolding sint_cases by (simp split: if_splits, presburger)
  qed
  then have "4 * sint (ucast ?q :: 19 word) + uint (ucast delta :: 2 word) = sint delta" if "fits_signed 21 (sint delta)"
    using sint_ucast_fits [where 'c = 19, of ?q] small [OF that] by (simp add: sint_shift2)
  then show ?thesis
    using S_OK_64_iff [of 21 delta] out hi lo
    by (simp add: encodes_def encode_reloc_def reloc_fits_def reloc_written_def reloc_value_def reloc_fields_def S_PACK_take_bit q [simplified] low)
qed

text \<open>
  C30: \<open>encode_reloc\<close> accepts exactly the displacements that the operand can hold. It writes the
  displacement to the operand's fields, which are zero before, so that the instruction
  has the displacement afterwards, and leaves the other bits of the instruction as they are.
\<close>

theorem encode_reloc_correct:
  assumes "reloc_clear kind bits"
  shows "case encode_reloc kind bits delta of
      None \<Rightarrow> \<not> reloc_fits kind (sint delta)
    | Some w \<Rightarrow> reloc_fits kind (sint delta) \<and> reloc_value kind w = sint delta \<and>
        (\<forall>i. (\<forall>(at, b) \<in> set (reloc_fields kind). i < at \<or> at + b \<le> i) \<longrightarrow> bit w i = bit bits i)"
proof -
  have "encodes kind bits delta"
    using encodes_insn encodes_rel32 encodes_rel21a assms
    by (cases kind) (simp_all add: encodes_def encode_reloc_def reloc_fits_def)
  then show ?thesis unfolding encodes_def reloc_written_def .
qed

theorem encode_reloc_correct_witness:
  "\<exists>w. encode_reloc operand_class_other_rel28 0x94000000 (- 8) = Some w \<and> reloc_value operand_class_other_rel28 w = - 8"
proof -
  have "reloc_clear operand_class_other_rel28 0x94000000" by (simp add: reloc_clear_def reloc_fields_def take_bit_word_eq_self)
  from encode_reloc_correct [OF this, of "- 8"] show ?thesis
    by (auto simp: reloc_fits_def fits_signed_def split: option.splits)
qed

subsection \<open>Stubs\<close>

text \<open>
  What a stub at \<open>addr\<close> does: the address it loads the function from, if it is one of
  the two sequences of instructions
    adr x16, target; ldr x17, [x16]; br x17
    adrp x16, target; add x16, x16, offset; ldr x17, [x16]; br x17.
\<close>

definition is_adr :: "u32 \<Rightarrow> u32 \<Rightarrow> bool" where
  "is_adr op w \<longleftrightarrow> w AND 0x9f00001f = op"

definition plt_target :: "u64 \<Rightarrow> u32 list \<Rightarrow> u64 option" where
  "plt_target addr code = (case code of
     [adr, ldr, br] \<Rightarrow>
       if is_adr 0x10000010 adr \<and> ldr = 0xf9400211 \<and> br = 0xd61f0220
       then Some (addr + word_of_int (reloc_value operand_class_other_rel21a adr)) else None
   | [adrp, add, ldr, br] \<Rightarrow>
       if is_adr 0x90000010 adrp \<and> add AND 0xffc003ff = 0x91000210 \<and> ldr = 0xf9400211 \<and> br = 0xd61f0220
       then Some ((addr AND NOT 0xfff) + push_bit 12 (word_of_int (reloc_value operand_class_other_rel21a adrp)) +
         ucast (drop_bit 10 add AND 0xfff)) else None
   | _ \<Rightarrow> None)"

definition adr_word :: "u64 \<Rightarrow> u64 \<Rightarrow> u32" where
  "adr_word op delta = ucast (op XOR push_bit 29 (delta AND 3) XOR (push_bit 3 delta AND 0xffffe0))"

lemma adr_word_encode:
  "S_OK_64 delta 21 \<Longrightarrow> encode_reloc operand_class_other_rel21a (ucast op) delta = Some (adr_word op delta)"
proof -
  assume ok: "S_OK_64 delta 21"
  have "push_bit 5 (S_PACK (signed_drop_bit 2 (delta AND NOT 3)) 19) = push_bit 3 delta AND 0xffffe0"
  proof -
    have m: "(0xffffe0 :: u64) = push_bit 5 (mask 19)" "(3 :: u64) = mask 2" by (simp_all add: mask_eq_exp_minus_1)
    show ?thesis unfolding S_PACK_take_bit m
    proof (rule bit_word_eqI)
      fix n assume "n < LENGTH(64)"
      have "5 \<le> n \<Longrightarrow> Suc (Suc (n - 5)) = n - 3" by simp
      then show "bit (push_bit 5 (take_bit 19 (signed_drop_bit 2 (delta AND NOT (mask 2))))) n = bit (push_bit 3 delta AND push_bit 5 (mask 19)) n"
        using \<open>n < LENGTH(64)\<close> by (auto simp: bit_simps)
    qed
  qed
  then show ?thesis using ok by (simp add: encode_reloc_def adr_word_def unsigned_xor_eq ac_simps)
qed

lemma adr_word_value:
  assumes ok: "S_OK_64 delta 21" and op: "op = 0x10000010 \<or> op = 0x90000010"
  shows "is_adr (ucast op) (adr_word op delta)" and "word_of_int (reloc_value operand_class_other_rel21a (adr_word op delta)) = delta"
proof -
  have c: "reloc_clear operand_class_other_rel21a (ucast op)"
    using op by (auto simp: reloc_clear_def reloc_fields_def)
  have w: "reloc_written operand_class_other_rel21a (sint delta) (ucast op) (adr_word op delta)"
    using encodes_rel21a [OF c, of delta] by (simp add: encodes_def adr_word_encode [OF ok])
  then show "word_of_int (reloc_value operand_class_other_rel21a (adr_word op delta)) = delta"
    by (simp add: reloc_written_def)
  have "adr_word op delta AND 0x9f00001f = ucast op AND 0x9f00001f"
  proof (rule bit_word_eqI)
    fix i assume "i < LENGTH(32)"
    have "(0x9f00001f :: u32) AND (push_bit 5 (mask 19) OR push_bit 29 (mask 2)) = 0" by (simp add: mask_eq_exp_minus_1)
    then have "\<not> bit ((0x9f00001f :: u32) AND (push_bit 5 (mask 19) OR push_bit 29 (mask 2))) i" by simp
    then have "bit (0x9f00001f :: u32) i \<Longrightarrow> (i < 5 \<or> 24 \<le> i) \<and> (i < 29 \<or> 31 \<le> i)"
      using \<open>i < LENGTH(32)\<close> unfolding bit_and_iff bit_or_iff bit_push_bit_iff bit_mask_iff by auto
    then show "bit (adr_word op delta AND 0x9f00001f) i = bit (ucast op AND 0x9f00001f :: u32) i"
      using w by (auto simp: reloc_written_def reloc_fields_def bit_simps)
  qed
  then show "is_adr (ucast op) (adr_word op delta)" using op by (auto simp: is_adr_def)
qed

lemma page_mask: "(0xfff :: u64) = mask 12" "(0xfff :: u32) = mask 12"
  by (simp_all add: mask_eq_exp_minus_1)

lemma page_parts: "(x AND NOT 0xfff) + (x AND 0xfff) = x" for x :: u64
proof -
  have "(x AND NOT 0xfff) + (x AND 0xfff) = (x AND NOT 0xfff) OR (x AND 0xfff)"
    unfolding page_mask by (rule disjunctive_add) (simp add: bit_simps)
  also have "\<dots> = x" unfolding page_mask by (rule bit_word_eqI) (auto simp: bit_simps)
  finally show ?thesis .
qed

lemma page_distance:
  fixes x y :: u64
  defines "d \<equiv> (x AND NOT 0xfff) - (y AND NOT 0xfff)"
  shows "push_bit 12 (signed_drop_bit 12 d) = d" and "fits_signed 21 (sint (signed_drop_bit 12 d)) \<longleftrightarrow> fits_signed 33 (sint d)"
proof -
  have z: "z AND NOT 0xfff = push_bit 12 (drop_bit 12 z)" for z :: u64
    unfolding page_mask by (rule bit_word_eqI) (auto simp: bit_simps not_le)
  have "d = push_bit 12 (drop_bit 12 x - drop_bit 12 y)"
    unfolding d_def z by (simp only: push_bit_eq_mult left_diff_distrib)
  then have t: "take_bit 12 d = 0" by (simp only: take_bit_push_bit diff_self_eq_0 take_bit_0 push_bit_of_0)
  have low: "\<not> bit d n" if "n < 12" for n
  proof -
    have "\<not> bit (take_bit 12 d) n" unfolding t by simp
    then show ?thesis using that by (simp add: bit_take_bit_iff)
  qed
  show "push_bit 12 (signed_drop_bit 12 d) = d"
  proof (rule bit_word_eqI)
    fix n assume n: "n < LENGTH(64)"
    show "bit (push_bit 12 (signed_drop_bit 12 d)) n = bit d n"
      using low [of n] n by (cases "n < 12") (auto simp: bit_simps)
  qed
  have s: "sint (signed_drop_bit 12 d) = sint d div 4096" by (simp add: sint_signed_drop_bit_eq drop_bit_eq_div)
  have "take_bit 12 (uint d) = 0" using unsigned_take_bit_eq [of 12 d, where 'a = int] unfolding t by simp
  then have "uint d mod 4096 = 0" by (simp add: take_bit_eq_mod)
  then have "4096 dvd uint d" by (simp add: dvd_eq_mod_eq_0)
  moreover have "4096 dvd (2 ^ 64 :: int)" by simp
  ultimately have "4096 dvd sint d" unfolding sint_cases by (simp only: dvd_diff simp_thms split: if_split)
  then obtain k where k: "sint d = 4096 * k" by (rule dvdE)
  show "fits_signed 21 (sint (signed_drop_bit 12 d)) \<longleftrightarrow> fits_signed 33 (sint d)"
    unfolding s k fits_signed_def by simp
qed

lemma disjoint_mask: "w AND push_bit 10 (mask 12) = 0 \<Longrightarrow> 10 \<le> n \<Longrightarrow> n < 22 \<Longrightarrow> \<not> bit w n" for w :: u32
proof -
  assume "w AND push_bit 10 (mask 12) = 0" and n: "10 \<le> n" "n < 22"
  then have "\<not> bit (w AND push_bit 10 (mask 12)) n" by simp
  then show ?thesis using n unfolding bit_and_iff bit_push_bit_iff bit_mask_iff by auto
qed

lemma add_word:
  fixes x :: u64
  assumes x: "x AND 0xfff = x"
  defines "w \<equiv> 0x91000210 XOR ucast (push_bit 10 x) :: u32"
  shows "w AND 0xffc003ff = 0x91000210" and "ucast (drop_bit 10 w AND 0xfff) = x"
proof -
  have low: "bit x n \<Longrightarrow> n < 12" for n
    using arg_cong [OF x, of "\<lambda>y. bit y n"] unfolding page_mask bit_and_iff bit_mask_iff by auto
  have m: "10 \<le> n \<Longrightarrow> n < 22 \<Longrightarrow> \<not> bit (0xffc003ff :: u32) n" "10 \<le> n \<Longrightarrow> n < 22 \<Longrightarrow> \<not> bit (0x91000210 :: u32) n" for n
    by (rule disjoint_mask; simp add: mask_eq_exp_minus_1)+
  have "w AND 0xffc003ff = 0x91000210 AND 0xffc003ff"
  proof (rule bit_word_eqI)
    fix n assume "n < LENGTH(32)"
    show "bit (w AND 0xffc003ff) n = bit ((0x91000210 :: u32) AND 0xffc003ff) n"
      using low [of "n - 10"] m(1) [of n] less_diff_conv2 [of 10 n 12]
      unfolding w_def bit_and_iff bit_xor_iff bit_ucast_iff bit_push_bit_iff by auto
  qed
  then show "w AND 0xffc003ff = 0x91000210" by simp
  show "ucast (drop_bit 10 w AND 0xfff) = x"
  proof (rule bit_word_eqI)
    fix n assume "n < LENGTH(64)"
    show "bit (ucast (drop_bit 10 w AND 0xfff) :: u64) n = bit x n"
      using low [of n] m(2) [of "10 + n"] \<open>n < LENGTH(64)\<close>
      unfolding w_def page_mask bit_and_iff bit_xor_iff bit_ucast_iff bit_push_bit_iff bit_drop_bit_eq bit_mask_iff
      by (auto simp: possible_bit_def)
  qed
qed

lemma page_rest: "(x - (x AND NOT 0xfff)) = x AND 0xfff" for x :: u64
  using page_parts [of x] by (metis add_diff_cancel_left')

lemma plt_near: "S_OK_64 (target - addr) 21 \<Longrightarrow>
    plt_target addr [adr_word 0x10000010 (target - addr), 0xf9400211, 0xd61f0220] = Some target"
  using adr_word_value [of "target - addr" "0x10000010"] by (simp add: plt_target_def)

lemma plt_far:
  fixes target addr :: u64
  defines "d \<equiv> (target AND NOT 0xfff) - (addr AND NOT 0xfff)"
  assumes ok: "S_OK_64 (signed_drop_bit 12 d) 21"
  shows "plt_target addr [adr_word 0x90000010 (signed_drop_bit 12 d),
    0x91000210 XOR ucast (push_bit 10 (target - (target AND NOT 0xfff))), 0xf9400211, 0xd61f0220] = Some target"
proof -
  have x: "(target AND 0xfff) AND 0xfff = target AND 0xfff" by (simp only: and.assoc and.idem)
  note w = add_word [OF x]
  have "(addr AND NOT 0xfff) + push_bit 12 (signed_drop_bit 12 d) + (target AND 0xfff) = target"
    unfolding page_distance(1) [of target addr, folded d_def] using page_parts [of target] by (simp add: d_def)
  then show ?thesis
    using adr_word_value [OF ok, of "0x90000010"] w unfolding page_rest by (simp add: plt_target_def)
qed

text \<open>
  The stub that \<open>write_plt\<close> makes for an external function loads the function's address
  from the slot it is given, near or far from the stub, and fits into the space for it; no stub
  is made only when the slot's page is out of reach of \<open>adrp\<close>.
\<close>

theorem plt_code_correct:
  "case plt_code addr target of
     None \<Rightarrow> \<not> fits_signed 33 (sint ((target AND NOT 0xfff) - (addr AND NOT 0xfff)))
   | Some code \<Rightarrow> 4 * length code \<le> PLT_SIZE \<and> plt_target addr code = Some target"
proof -
  let ?d = "(target AND NOT 0xfff) - (addr AND NOT 0xfff)"
  have far: "S_OK_64 (signed_drop_bit 12 ?d) 21 \<longleftrightarrow> fits_signed 33 (sint ?d)"
    unfolding page_distance(2) [symmetric] by (rule S_OK_64_iff) simp_all
  show ?thesis
  proof (cases "S_OK_64 (target - addr) 21")
    case True
    then have "plt_code addr target = Some [adr_word 0x10000010 (target - addr), 0xf9400211, 0xd61f0220]"
      by (simp only: plt_code_def Let_def adr_word_def if_True)
    then show ?thesis using plt_near [OF True] by simp
  next
    case near: False
    show ?thesis
    proof (cases "S_OK_64 (signed_drop_bit 12 ?d) 21")
      case True
      then have "plt_code addr target = Some [adr_word 0x90000010 (signed_drop_bit 12 ?d),
          0x91000210 XOR ucast (push_bit 10 (target - (target AND NOT 0xfff))), 0xf9400211, 0xd61f0220]"
        using near by (simp only: plt_code_def Let_def adr_word_def if_False not_True_eq_False)
      then show ?thesis using plt_far [OF True] by simp
    next
      case False
      then have "plt_code addr target = None"
        using near by (simp only: plt_code_def Let_def if_False if_True not_False_eq_True)
      then show ?thesis using False far by simp
    qed
  qed
qed

end
