(* ===== verification/X86Polyfiller.thy ===== *)
theory X86Polyfiller
  imports PolyfillTables
begin

section \<open>x86\_64/polyfiller.c\<close>

text \<open>
  The polyfiller of x86_64: the relocations of a symbol, its address, and its code. The addresses
  are those of the rewriter's allocations, so the whole may run again after a retry.
\<close>

abbreviation (input) RUN_RELOC_IMM_SIZE_MASK :: u32 where "RUN_RELOC_IMM_SIZE_MASK \<equiv> 0x03"
abbreviation (input) RUN_RELOC_PHANTOM :: u32 where "RUN_RELOC_PHANTOM \<equiv> 0x04"
abbreviation (input) RUN_RELOC_CALL_OR_JMP :: u32 where "RUN_RELOC_CALL_OR_JMP \<equiv> 0x08"

abbreviation (input) SYM_WHY_REGULAR :: u32 where "SYM_WHY_REGULAR \<equiv> 3"
abbreviation (input) SYM_WHY_GOT_SLOT :: u32 where "SYM_WHY_GOT_SLOT \<equiv> 2"

abbreviation (input) VARIABLE_ALREADY_POPULATED :: u32 where "VARIABLE_ALREADY_POPULATED \<equiv> 1"

subsection \<open>Adding symbols\<close>

definition mark_why :: "u32 \<Rightarrow> u32 \<Rightarrow> uuht \<Rightarrow> (uuht \<times> bool) option" where
  "mark_why token why added = do {
     (added, old_why) \<leftarrow> uuht_set_if_absent added token why;
     let why = why OR old_why;
     if why = old_why then Some (added, True)
     else if old_why \<noteq> 0 then do {
       (added, _) \<leftarrow> uuht_set added token why;
       Some (added, False) }
     else Some (added, False) }"

definition reloc_at :: "polyfill_code \<Rightarrow> u32 \<Rightarrow> nat \<Rightarrow> u32 option" where
  "reloc_at pc token i = mem_read32 (pc_data pc) (unat token + 8 + 4 * i)"

definition reloc_dep :: "polyfill_code \<Rightarrow> nat \<Rightarrow> u32 \<Rightarrow> sym_task option" where
  "reloc_dep pc data r =
    (let val = drop_bit 8 r; m = pc_data pc in
     if r AND RUN_RELOC_PHANTOM \<noteq> 0 then Some (Add val SYM_WHY_REGULAR)
     else do {
       let src = data + unat val;
       val \<leftarrow> mem_read32 m src;
       indirect \<leftarrow> (if r AND RUN_RELOC_CALL_OR_JMP \<noteq> 0 then map_option (\<lambda>b. b < 0xe8) (m (src - 1)) else Some False);
       Some (Add val (if indirect then SYM_WHY_REGULAR - SYM_WHY_GOT_SLOT else SYM_WHY_REGULAR)) })"

definition sym_deps :: "polyfill_code \<Rightarrow> u32 \<Rightarrow> sym_task list option" where
  "sym_deps pc token = do {
     n_reloc \<leftarrow> head_n_reloc pc token;
     all_some (map (\<lambda>i. do { r \<leftarrow> reloc_at pc token i; reloc_dep pc (unat token + 8 + 4 * n_reloc) r }) [0..<n_reloc]) }"

definition add_sym_and_deps :: "polyfill_code \<Rightarrow> u32 \<Rightarrow> u32 \<Rightarrow> 'a::len word pf_world \<Rightarrow> 'a word pf_world option" where
  "add_sym_and_deps pc token why wd =
    add_tasks mark_why (sym_deps pc) (finish_sym 4 pc SYM_WHY_REGULAR) [Add token why] wd"

text \<open>The token, zero if there is no such polyfill, and the kind of symbol.\<close>

definition polyfiller_add :: "polyfill_code \<Rightarrow> bstr \<Rightarrow> 'a::len word pf_world \<Rightarrow> ('a word pf_world \<times> u32 \<times> u8) option" where
  "polyfiller_add pc name wd = do {
     token \<leftarrow> rh_lookup pc name;
     if token = 0 then Some (wd, 0, 0)
     else do {
       flags \<leftarrow> head_flags pc token;
       wd \<leftarrow> add_sym_and_deps pc token SYM_WHY_REGULAR wd;
       Some (wd, token, if flags AND ASM_SYM_FLAG_FUNCTION \<noteq> 0 then STT_FUNC else STT_OBJECT) } }"

definition polyfiller_add_fixup_for_dt_relr :: "polyfill_code \<Rightarrow> 'a::len word pf_world \<Rightarrow> ('a word pf_world \<times> bool) option" where
  "polyfiller_add_fixup_for_dt_relr pc wd = do {
     wd \<leftarrow> add_sym_and_deps pc (pc_token pc ''_polyfill_DT_RELR_apply'') SYM_WHY_REGULAR wd;
     Some (wd, True) }"

subsection \<open>What the tables depend on\<close>

definition x86_64_machine :: machine where
  "x86_64_machine = \<lparr>mc_reloc_size = 4,
     mc_cie = [0x14, 0, 0, 0, 0, 0, 0, 0, 1, 0x7a, 0x52, 0, 1, 0x78, 0x10, 1, 0x1b, 0x0c, 7, 8, 0x90, 1, 0, 0],
     mc_data_category = erw_alloc_category_v_r, mc_counted = True, mc_irelative = R_X86_64_IRELATIVE,
     mc_populated = (\<lambda>_. VARIABLE_ALREADY_POPULATED)\<rparr>"

text \<open>The number of code bytes and of unwind bytes of a function that has code.\<close>

definition cfi_function :: "polyfill_code \<Rightarrow> cfi_fn" where
  "cfi_function pc info = (let token = li_token info in do {
     flags \<leftarrow> head_flags pc token;
     n_code \<leftarrow> head_n_code pc token;
     n_cfi \<leftarrow> head_n_cfi pc token;
     Some (if flags AND ASM_SYM_FLAG_EXTERN \<noteq> 0 \<or> flags AND ASM_SYM_FLAG_FUNCTION = 0 \<or> n_code = 0 then None
       else Some (n_code, n_cfi)) })"

subsection \<open>Copying code and resolving its relocations\<close>

definition new_got_slot_for_extern :: "polyfill_code \<Rightarrow> nat \<Rightarrow> 'a::len word pf_world \<Rightarrow> ('a word pf_world \<times> bool) option" where
  "new_got_slot_for_extern pc k wd = (case wd of (erw, rn, p) \<Rightarrow> do {
     let token = li_token (po_addrs p ! k);
     flags \<leftarrow> head_flags pc token;
     if flags AND ASM_SYM_FLAG_EXTERN = 0 then Some (wd, False)
     else do {
       (lib, name, version) \<leftarrow> parse_extern_sym 4 pc token;
       case name of None \<Rightarrow> Some (wd, False)
       | Some name \<Rightarrow> do {
           (rsym, polyfill) \<leftarrow> rename_extern rn lib name version;
           if polyfill then Some (wd, False)
           else do {
             (erw, _, sidx) \<leftarrow> dsym_for_extern (if flags AND ASM_SYM_FLAG_FUNCTION \<noteq> 0 then STT_FUNC else STT_OBJECT) rsym 0 erw;
             (erw, v) \<leftarrow> got_slot_for R_X86_64_GLOB_DAT sidx erw;
             Some ((erw, rn, set_info k (\<lambda>i. i\<lparr>li_addr := v\<rparr>) p), True) } } } })"

definition nops :: "u8 list" where
  "nops = [0x90,
     0x66, 0x90,
     0x0f, 0x1f, 0x00,
     0x0f, 0x1f, 0x40, 0x00,
     0x0f, 0x1f, 0x44, 0x00, 0x00,
     0x66, 0x0f, 0x1f, 0x44, 0x00, 0x00,
     0x0f, 0x1f, 0x80, 0x00, 0x00, 0x00, 0x00,
     0x0f, 0x1f, 0x84, 0x00, 0x00, 0x00, 0x00, 0x00,
     0x66, 0x0f, 0x1f, 0x84, 0x00, 0x00, 0x00, 0x00, 0x00]"

definition nop_of :: "nat \<Rightarrow> u8 list" where
  "nop_of n = take n (drop (n * (n - 1) div 2) nops)"

definition fits32 :: "u64 \<Rightarrow> bool" where
  "fits32 delta \<longleftrightarrow> scast (ucast delta :: u32) = delta"

definition fits8 :: "u64 \<Rightarrow> bool" where
  "fits8 delta \<longleftrightarrow> scast (ucast delta :: u8) = delta"

text \<open>
  The instruction with a displacement \<open>delta\<close> at \<open>at\<close> is \<open>jmp rel32\<close>: the five bytes from
  \<open>at - 1\<close> on are replaced when the target is near, by nothing but nops when it is at the end of the
  function and the next function is its target.
\<close>

definition shorten_jmp :: "nat \<Rightarrow> u64 \<Rightarrow> bool \<Rightarrow> 'w erw \<Rightarrow> 'w erw option" where
  "shorten_jmp at delta at_end erw =
    (let delta = delta + 3 in
     if fits8 delta then do {
       erw \<leftarrow> store (at - 1) [0xeb, ucast delta, 0xcc, 0xcc, 0xcc] erw;
       if (ucast delta :: u8) \<le> 11 \<and> at_end then do {
         let delta = delta + 2;
         if delta > 9 then do {
           erw \<leftarrow> store (at - 1) (nop_of 4) erw;
           store (at + 3) (nop_of (unat (delta - 4))) erw }
         else store (at - 1) (nop_of (unat delta)) erw }
       else Some erw }
     else Some erw)"

text \<open>
  A \<open>call\<close> or \<open>jmp\<close> through memory to an external symbol that was renamed to a polyfill becomes
  a relative one to the polyfill.
\<close>

definition relative_call :: "u32 \<Rightarrow> nat \<Rightarrow> nat \<Rightarrow> 'w pf_world \<Rightarrow> ('w pf_world \<times> nat) option" where
  "relative_call r at target wd = (case wd of (erw, rn, p) \<Rightarrow>
     if r AND RUN_RELOC_CALL_OR_JMP = 0 then Some (wd, target)
     else do {
       b \<leftarrow> e_f erw (at - 1);
       let extra = li_extra (po_addrs p ! target);
       if b < 0xe8 \<and> extra \<noteq> 0 then do {
         target \<leftarrow> info_index p extra;
         erw \<leftarrow> store (at - 2) [0x40, word_of_int (0xe8 + (uint b - 0x15) div 16)] erw;
         Some ((erw, rn, p), target) }
       else Some (wd, target) })"

definition reloc_delta :: "polyfill_code \<Rightarrow> nat \<Rightarrow> u64 \<Rightarrow> 'a::len word pf_world \<Rightarrow> ('a word pf_world \<times> u64) option" where
  "reloc_delta pc target src_v wd =
    (let addr = (\<lambda>wd :: 'a word pf_world. li_addr (po_addrs (snd (snd wd)) ! target)) in
     if addr wd = 0 then None
     else if fits32 (addr wd - src_v) then Some (wd, addr wd - src_v)
     else do {
       (wd, changed) \<leftarrow> new_got_slot_for_extern pc target wd;
       if fits32 (addr wd - src_v) then Some (wd, addr wd - src_v) else None })"

definition populate_reloc :: "polyfill_code \<Rightarrow> nat \<Rightarrow> nat \<Rightarrow> nat \<Rightarrow> nat \<Rightarrow> nat \<Rightarrow> 'a::len word pf_world \<Rightarrow> 'a word pf_world option" where
  "populate_reloc pc k src dst n_code i wd = (case wd of (erw, rn, p) \<Rightarrow> do {
     let info = po_addrs p ! k;
     r \<leftarrow> reloc_at pc (li_token info) i;
     if r AND RUN_RELOC_PHANTOM \<noteq> 0 then Some wd
     else do {
       let ofs = unat (drop_bit 8 r);
       val \<leftarrow> mem_read32 (pc_data pc) (src + ofs);
       target \<leftarrow> info_index p val;
       (wd, target) \<leftarrow> relative_call r (dst + ofs) target wd;
       let src_v = li_addr info + of_nat ofs + 4 +
         (if r AND RUN_RELOC_IMM_SIZE_MASK \<noteq> 0 then push_bit (unat (r AND RUN_RELOC_IMM_SIZE_MASK) - 1) 1 else 0);
       ((erw, rn, p), delta) \<leftarrow> reloc_delta pc target src_v wd;
       erw \<leftarrow> store32 (dst + ofs) (ucast delta) erw;
       erw \<leftarrow> (if r AND RUN_RELOC_CALL_OR_JMP = 0 then Some erw
         else do {
           b \<leftarrow> e_f erw (dst + ofs - 1);
           if b = 0xe9 then shorten_jmp (dst + ofs) delta (ofs + 4 = n_code) erw else Some erw });
       Some (erw, rn, p) } })"

text \<open>Nothing is to be copied for variables that are zero at first.\<close>

definition populate_regular_symbol :: "polyfill_code \<Rightarrow> nat \<Rightarrow> 'a::len word pf_world \<Rightarrow> 'a word pf_world option" where
  "populate_regular_symbol pc k wd = (case wd of (erw, rn, p) \<Rightarrow> do {
     let info = po_addrs p ! k;
     n_reloc \<leftarrow> head_n_reloc pc (li_token info);
     n_code \<leftarrow> head_n_code pc (li_token info);
     src \<leftarrow> code_at 4 pc (li_token info);
     case view erw (li_addr info) of None \<Rightarrow> Some wd
     | Some dst \<Rightarrow> do {
         code \<leftarrow> mem_read (pc_data pc) src n_code;
         erw \<leftarrow> store dst code erw;
         each (populate_reloc pc k src dst n_code) [0..<n_reloc] (erw, rn, p) } })"

subsection \<open>The end of adding\<close>

text \<open>Renamed to a polyfill: a slot with a relative relocation if one is needed.\<close>

definition assign_renamed :: "polyfill_code \<Rightarrow> u32 \<Rightarrow> u64 \<Rightarrow> bstr \<Rightarrow> 'a::len word assign_loop \<Rightarrow> ('a word assign_loop \<times> u64 \<times> u32) option" where
  "assign_renamed pc token old_slot name l = (case as_world l of (erw, rn, p) \<Rightarrow> do {
     extra \<leftarrow> rh_lookup pc name;
     if slot_hi old_slot AND SYM_WHY_GOT_SLOT = 0 then Some (l, 0, extra)
     else if extra > token then None
     else do {
       let (erw, v) = erw_alloc erw erw_alloc_category_v_rw_zero 8 8;
       addr \<leftarrow> polyfiller_addr_of p extra;
       erw \<leftarrow> erw_relocs_add erw DT_RELA R_X86_64_RELATIVE v 0 addr;
       Some (l\<lparr>as_world := (erw, rn, p)\<rparr>, v, extra) } })"

text \<open>Symbols that refer to the same dynamic symbol share the first entry for it.\<close>

definition assign_extern :: "polyfill_code \<Rightarrow> nat \<Rightarrow> nat \<Rightarrow> u8 \<Rightarrow> renamed_symbol \<Rightarrow> 'a::len word assign_loop \<Rightarrow> 'a word assign_loop option" where
  "assign_extern pc k table_index flags rsym l = (case as_world l of (erw, rn, p) \<Rightarrow> do {
     rn \<leftarrow> renamer_ensure_lib_dependency rn (rs_lib rsym);
     (erw, ver_cache, sidx) \<leftarrow> dsym_for_extern (if flags AND ASM_SYM_FLAG_FUNCTION \<noteq> 0 then STT_FUNC else STT_OBJECT)
       rsym (as_ver_cache l) erw;
     let own_idx = (of_nat k :: u32);
     (exts, shared) \<leftarrow> uuht_lookup_or_set (as_externs l) sidx own_idx;
     as_slot table_index (\<lambda>slot. slot XOR push_bit 32 (ucast (own_idx XOR shared)))
       (l\<lparr>as_world := (erw, rn, p), as_ver_cache := ver_cache, as_externs := exts\<rparr>) })"

definition assign_step :: "polyfill_code \<Rightarrow> nat \<Rightarrow> 'a::len word assign_loop \<Rightarrow> 'a word assign_loop option" where
  "assign_step pc k l = (case as_world l of (erw, rn, p) \<Rightarrow> do {
     let info = po_addrs p ! k;
     let token = li_token info;
     let old_slot = li_addr info;
     let table_index = unat (li_extra info);
     flags \<leftarrow> head_flags pc token;
     n_code \<leftarrow> head_n_code pc token;
     l \<leftarrow> as_slot table_index (\<lambda>_. ucast (slot_lo old_slot) OR push_bit 32 (of_nat k)) l;
     if flags AND ASM_SYM_FLAG_EXTERN \<noteq> 0 then do {
       (lib, name, version) \<leftarrow> parse_extern_sym 4 pc token;
       case name of None \<Rightarrow> Some (as_set k 0 0 l)
       | Some name \<Rightarrow> do {
           (rsym, polyfill) \<leftarrow> rename_extern rn lib name version;
           if polyfill then do {
             (l, v, extra) \<leftarrow> assign_renamed pc token old_slot (rs_name rsym) l;
             Some (as_set k v extra l) }
           else do {
             l \<leftarrow> assign_extern pc k table_index flags rsym l;
             Some (as_set k 0 0 l) } } }
     else if flags AND ASM_SYM_FLAG_FUNCTION \<noteq> 0 then do {
       let (erw, v) = erw_alloc erw erw_alloc_category_v_rx 16 (of_nat n_code);
       let l = l\<lparr>as_num_init := as_num_init l + (if flags AND ASM_SYM_FLAG_INIT \<noteq> 0 then 1 else 0),
         as_num_fini := as_num_fini l + (if flags AND ASM_SYM_FLAG_FINI \<noteq> 0 then 1 else 0),
         as_world := (erw, snd (as_world l))\<rparr>;
       Some (as_set k v 0 l) }
     else do {
       h3 \<leftarrow> head_n_cfi pc token;
       category \<leftarrow> data_category (h3 mod 256);
       let (erw, v) = erw_alloc erw category (of_nat (h3 div 256)) (of_nat n_code);
       Some (as_set k v 0 (l\<lparr>as_world := (erw, snd (as_world l))\<rparr>)) } })"

text \<open>The dynamic symbols with the entries for them, in the order of the dynamic symbols.\<close>

definition externs_sorted :: "uuht \<Rightarrow> (u32 \<times> nat) list" where
  "externs_sorted t = sort_key fst (map (\<lambda>slot. (uuht_unhash (slot_lo slot), unat (slot_hi slot)))
     (filter (\<lambda>slot. slot \<noteq> 0) (map (\<lambda>i. u_table t ! i) [0..<unat (u_mask t) + 1])))"

definition extern_slot :: "u32 \<times> nat \<Rightarrow> 'a::len word pf_world \<Rightarrow> 'a word pf_world option" where
  "extern_slot x wd = (case (x, wd) of ((sidx, k), (erw, rn, p)) \<Rightarrow>
     if k \<ge> length (po_addrs p) then None
     else if li_addr (po_addrs p ! k) \<noteq> 0 then Some wd
     else do {
       (erw, v) \<leftarrow> got_slot_for R_X86_64_GLOB_DAT sidx erw;
       Some (erw, rn, set_info k (\<lambda>i. i\<lparr>li_addr := v\<rparr>) p) })"

definition extern_slots :: "uuht \<Rightarrow> 'a::len word pf_world \<Rightarrow> 'a word pf_world option" where
  "extern_slots t wd =
    (if u_count t = 0 then Some wd
     else case wd of (erw, rn, p) \<Rightarrow> do {
       erw \<leftarrow> (if relocs_live erw then Some erw else erw_relocs_init erw);
       addrs \<leftarrow> find_existing_relocs [R_X86_64_GLOB_DAT, R_X86_64_JUMP_SLOT] t erw (po_addrs p);
       each extern_slot (externs_sorted t) (erw, rn, p\<lparr>po_addrs := addrs\<rparr>) })"

definition populate_symbols :: "polyfill_code \<Rightarrow> 'a::len word pf_world \<Rightarrow> 'a word pf_world option" where
  "populate_symbols pc wd =
    each (\<lambda>k wd. do {
        let info = po_addrs (snd (snd wd)) ! k;
        flags \<leftarrow> head_flags pc (li_token info);
        if flags AND ASM_SYM_FLAG_EXTERN \<noteq> 0 \<or> li_extra info \<noteq> 0 then Some wd
        else populate_regular_symbol pc k wd })
      [0..<length (po_addrs (snd (snd wd)))] wd"

definition polyfiller_finished_adding :: "polyfill_code \<Rightarrow> 'a::len word pf_world \<Rightarrow> 'a word pf_world option" where
  "polyfiller_finished_adding pc wd = do {
     ((erw, rn, p), any_cfi) \<leftarrow> add_internal_symbols (\<lambda>token. add_sym_and_deps pc token SYM_WHY_REGULAR) pc wd;
     let p = p\<lparr>po_addrs := sorted_addrs
       (\<lambda>i slot. \<lparr>li_token = uuht_unhash (slot_lo slot), li_extra = of_nat i, li_addr = slot\<rparr>) (po_added p)\<rparr>;
     l \<leftarrow> each (assign_step pc) [0..<length (po_addrs p)]
       \<lparr>as_world = (erw, rn, p), as_ver_cache = 0, as_num_init = 0, as_num_fini = 0, as_externs = uuht_init\<rparr>;
     wd \<leftarrow> extern_slots (as_externs l) (as_world l);
     wd \<leftarrow> (if as_num_init l \<noteq> 0 then populate_init_variables x86_64_machine pc (as_num_init l) wd else Some wd);
     wd \<leftarrow> (if as_num_fini l \<noteq> 0 then populate_fini_variables x86_64_machine pc (as_num_fini l) wd else Some wd);
     wd \<leftarrow> (if any_cfi then populate_cfi_variables x86_64_machine (cfi_function pc) (cfi_function pc) pc wd else Some wd);
     relr \<leftarrow> uuht_contains (po_added (snd (snd wd))) (pc_token pc ''_polyfill_DT_RELR_apply'');
     wd \<leftarrow> (if relr \<noteq> 0 then populate_dt_relr_variables x86_64_machine pc wd else Some wd);
     if e_retry (fst wd) then Some wd else populate_symbols pc wd }"

definition polyfiller_fns_x86_64 :: "polyfill_code \<Rightarrow> ('a::len word, polyfiller) polyfiller_fns" where
  "polyfiller_fns_x86_64 pc = \<lparr>pf_init = polyfiller_init, pf_add_fixup_for_dt_relr = polyfiller_add_fixup_for_dt_relr pc,
     pf_add = polyfiller_add pc, pf_finished_adding = polyfiller_finished_adding pc, pf_addr_of = polyfiller_addr_of\<rparr>"

end
