(* ===== verification/PolyfillAdd.thy ===== *)
theory PolyfillAdd
  imports X86Polyfiller A64Polyfiller
begin

section \<open>Adding a symbol adds all it needs, and ends\<close>

text \<open>
  What the walk may change outside the polyfiller is its state \<open>s\<close>: the file and the renames. To
  finish a symbol, \<open>fin token s\<close>, can change it, when the symbol is an external one without a name,
  and asks for more symbols. The states that a set \<open>T\<close> of symbols can lead to:
\<close>

inductive sym_step :: "u32 set \<Rightarrow> (u32 \<Rightarrow> 's \<Rightarrow> ('s \<times> sym_task list) option) \<Rightarrow> 's \<Rightarrow> 's \<Rightarrow> bool" for T fin where
  "token \<in> T \<Longrightarrow> fin token s = Some (s', ts) \<Longrightarrow> sym_step T fin s s'"

abbreviation sym_steps :: "u32 set \<Rightarrow> (u32 \<Rightarrow> 's \<Rightarrow> ('s \<times> sym_task list) option) \<Rightarrow> 's \<Rightarrow> 's \<Rightarrow> bool" where
  "sym_steps T fin \<equiv> (sym_step T fin)\<^sup>*\<^sup>*"

text \<open>
  A set of symbols that is closed: their records can be read, and every symbol that they refer to
  or are renamed to is in the set, also by the renames that the symbols of the set impose.
\<close>

definition task_within :: "u32 set \<Rightarrow> u32 set \<Rightarrow> sym_task \<Rightarrow> bool" where
  "task_within T whys task = (case task of Add k w \<Rightarrow> k \<in> T \<and> w \<in> whys | Finish _ \<Rightarrow> False)"

definition tasks_within :: "u32 set \<Rightarrow> u32 set \<Rightarrow> sym_task list option \<Rightarrow> bool" where
  "tasks_within T whys ts = (case ts of None \<Rightarrow> False | Some ts \<Rightarrow> list_all (task_within T whys) ts)"

definition closed_symbols :: "u32 set \<Rightarrow> u32 set \<Rightarrow> (u32 \<Rightarrow> sym_task list option) \<Rightarrow> (u32 \<Rightarrow> 's \<Rightarrow> ('s \<times> sym_task list) option) \<Rightarrow>
    's \<Rightarrow> bool" where
  "closed_symbols T whys deps fin s0 \<longleftrightarrow> (\<forall>token \<in> T. tasks_within T whys (deps token) \<and>
     (\<forall>s. sym_steps T fin s0 s \<longrightarrow> tasks_within T whys (map_option snd (fin token s))))"

text \<open>The marks a table of added symbols holds: \<open>has v w\<close> is that \<open>v\<close> includes the reason \<open>w\<close>.\<close>

definition marks_ok :: "u32 set \<Rightarrow> u32 set \<Rightarrow> uuht \<Rightarrow> bool" where
  "marks_ok T whys t \<longleftrightarrow> uuht_ok t \<and> dom (uuht_get t) \<subseteq> T \<and> ran (uuht_get t) \<subseteq> whys"

definition has_task :: "(u32 \<Rightarrow> u32 \<Rightarrow> bool) \<Rightarrow> uuht \<Rightarrow> sym_task \<Rightarrow> bool" where
  "has_task has t task = (case task of Add k w \<Rightarrow> has (or_else (uuht_get t k) 0) w | Finish _ \<Rightarrow> True)"

text \<open>
  Nothing that a symbol needs is missing: the symbols that it refers to are marked, and it was
  finished on the way from the state \<open>s0\<close> to the state \<open>s\<close>, so what it imposes has happened and what
  it was renamed to at that time is marked.
\<close>

definition needs_met :: "u32 set \<Rightarrow> (u32 \<Rightarrow> sym_task list option) \<Rightarrow> (u32 \<Rightarrow> 's \<Rightarrow> ('s \<times> sym_task list) option) \<Rightarrow>
    (u32 \<Rightarrow> u32 \<Rightarrow> bool) \<Rightarrow> 's \<Rightarrow> 's \<Rightarrow> uuht \<Rightarrow> u32 \<Rightarrow> bool" where
  "needs_met T deps fin has s0 s t token \<longleftrightarrow>
     (\<exists>ds. deps token = Some ds \<and> list_all (has_task has t) ds) \<and>
     (\<exists>s1 s2 ts. sym_steps T fin s0 s1 \<and> fin token s1 = Some (s2, ts) \<and> sym_steps T fin s2 s \<and> list_all (has_task has t) ts)"

lemma needs_met_deps:
  "needs_met T deps fin has s0 s t token \<Longrightarrow> deps token = Some ds \<Longrightarrow> list_all (has_task has t) ds"
  by (auto simp: needs_met_def)

text \<open>
  Both polyfillers walk over the symbols that a symbol refers to and mark each with the reasons
  for which it is needed. The interface that the walk relies on: the mark of a token joins the
  new reason to the old ones, so it can only change a bounded number of times.
\<close>

definition added_of :: "'w pf_world \<Rightarrow> uuht" where
  "added_of wd = po_added (snd (snd wd))"

definition files_of :: "'w pf_world \<Rightarrow> 'w erw \<times> renamer" where
  "files_of wd = (fst wd, fst (snd wd))"

lemma files_of_set [simp]: "files_of (set_added t wd) = files_of wd"
  by (cases wd) (simp add: files_of_def set_added_def)

lemma added_of_set [simp]: "added_of (set_added t wd) = t"
  by (cases wd) (simp add: added_of_def set_added_def)

lemma eqFalse_intro: "\<not> b \<Longrightarrow> b = False"
  by simp

lemma add_tasks_steps:
  "add_tasks mark deps finish [] wd = Some wd"
  "finish k wd = Some (wd', ts) \<Longrightarrow> add_tasks mark deps finish (Finish k # rest) wd = add_tasks mark deps finish (ts @ rest) wd'"
  "mark k w (po_added (snd (snd wd))) = Some (t, True) \<Longrightarrow>
     add_tasks mark deps finish (Add k w # rest) wd = add_tasks mark deps finish rest (set_added t wd)"
  "mark k w (po_added (snd (snd wd))) = Some (t, False) \<Longrightarrow> deps k = Some ts \<Longrightarrow>
     add_tasks mark deps finish (Add k w # rest) wd = add_tasks mark deps finish (ts @ Finish k # rest) (set_added t wd)"
     apply (subst add_tasks.simps, simp)
    apply (subst add_tasks.simps, simp)
   apply (subst add_tasks.simps, simp)
  apply (subst add_tasks.simps, simp)
  done

locale sym_marker =
  fixes mark :: "u32 \<Rightarrow> u32 \<Rightarrow> uuht \<Rightarrow> (uuht \<times> bool) option"
    and join :: "u32 \<Rightarrow> u32 \<Rightarrow> u32"
    and whys :: "u32 set"
    and rank :: "u32 \<Rightarrow> nat"
  assumes mark_law: "uuht_ok t \<Longrightarrow> 0 \<notin> ran (uuht_get t) \<Longrightarrow> card (dom (uuht_get t)) < uuht_limit \<Longrightarrow> why \<in> whys \<Longrightarrow>
      \<exists>t'. mark token why t = Some (t', join (or_else (uuht_get t token) 0) why = or_else (uuht_get t token) 0) \<and>
        uuht_ok t' \<and> uuht_get t' = (uuht_get t)(token \<mapsto> join (or_else (uuht_get t token) 0) why)"
    and join_whys: "why \<in> whys \<Longrightarrow> old \<in> insert 0 whys \<Longrightarrow> join old why \<in> whys"
    and join_covers: "why \<in> whys \<Longrightarrow> old \<in> insert 0 whys \<Longrightarrow> join (join old why) why = join old why"
    and join_keeps: "why \<in> whys \<Longrightarrow> why' \<in> whys \<Longrightarrow> old \<in> insert 0 whys \<Longrightarrow> join old why = old \<Longrightarrow>
      join (join old why') why = join old why'"
    and join_rank: "why \<in> whys \<Longrightarrow> old \<in> insert 0 whys \<Longrightarrow> join old why \<noteq> old \<Longrightarrow> rank old < rank (join old why)"
    and rank_bound: "old \<in> insert 0 whys \<Longrightarrow> rank old \<le> 2"
    and zero_why: "0 \<notin> whys"
begin

definition mark_of :: "uuht \<Rightarrow> u32 \<Rightarrow> u32" where
  "mark_of t token = or_else (uuht_get t token) 0"

definition table_in :: "u32 set \<Rightarrow> uuht \<Rightarrow> bool" where
  "table_in T t \<longleftrightarrow> uuht_ok t \<and> dom (uuht_get t) \<subseteq> T \<and> ran (uuht_get t) \<subseteq> whys"

definition task_in :: "u32 set \<Rightarrow> sym_task \<Rightarrow> bool" where
  "task_in T task \<longleftrightarrow> (case task of Add k w \<Rightarrow> k \<in> T \<and> w \<in> whys | Finish k \<Rightarrow> k \<in> T)"

definition covered :: "uuht \<Rightarrow> sym_task \<Rightarrow> bool" where
  "covered t task \<longleftrightarrow> (case task of Add k w \<Rightarrow> join (mark_of t k) w = mark_of t k | Finish k \<Rightarrow> True)"

definition slack :: "u32 set \<Rightarrow> uuht \<Rightarrow> nat" where
  "slack T t = (\<Sum>k \<in> T. 2 - rank (mark_of t k))"

definition is_finish :: "sym_task \<Rightarrow> bool" where
  "is_finish task = (case task of Add _ _ \<Rightarrow> False | Finish _ \<Rightarrow> True)"

lemma mark_of_in: "table_in T t \<Longrightarrow> mark_of t k \<in> insert 0 whys"
  unfolding table_in_def mark_of_def or_else_def by (auto split: option.splits intro: ranI dest: subsetD)

lemma marked: "table_in T t \<Longrightarrow> finite T \<Longrightarrow> card T < uuht_limit \<Longrightarrow> task_in T (Add k w) \<Longrightarrow>
  \<exists>t'. mark k w t = Some (t', covered t (Add k w)) \<and> table_in T t' \<and>
    mark_of t' k = join (mark_of t k) w \<and> (\<forall>j. j \<noteq> k \<longrightarrow> mark_of t' j = mark_of t j) \<and>
    dom (uuht_get t') = insert k (dom (uuht_get t))"
proof -
  assume t: "table_in T t" and T: "finite T" "card T < uuht_limit" and k: "task_in T (Add k w)"
  have kw: "k \<in> T" "w \<in> whys" using k by (simp_all add: task_in_def)
  have "card (dom (uuht_get t)) < uuht_limit"
    using t T card_mono [of T "dom (uuht_get t)"] by (simp add: table_in_def)
  then obtain t' where t': "mark k w t = Some (t', join (mark_of t k) w = mark_of t k)" "uuht_ok t'"
      "uuht_get t' = (uuht_get t)(k \<mapsto> join (mark_of t k) w)"
    using mark_law [of t w k] t kw zero_why by (auto simp: table_in_def mark_of_def)
  have "join (mark_of t k) w \<in> whys" by (rule join_whys [OF kw(2) mark_of_in [OF t]])
  then have "table_in T t'"
    using t t'(2,3) kw(1) by (auto simp: table_in_def ran_def split: if_splits)
  moreover have "mark_of t' k = join (mark_of t k) w" "\<forall>j. j \<noteq> k \<longrightarrow> mark_of t' j = mark_of t j"
    by (simp_all add: mark_of_def t'(3) or_else_def)
  ultimately show ?thesis using t' by (auto simp: covered_def)
qed

lemma covered_mono:
  assumes t: "table_in T t" and w: "w \<in> whys" "task_in T x"
    and t': "mark_of t' k = join (mark_of t k) w" "\<forall>j. j \<noteq> k \<longrightarrow> mark_of t' j = mark_of t j" and c: "covered t x"
  shows "covered t' x"
  using join_keeps [OF _ w(1) mark_of_in [OF t], of _ k] t' c w(2)
  by (cases x; cases "\<exists>w'. x = Add k w'") (auto simp: covered_def task_in_def)

lemma slack_less:
  assumes "finite T" "table_in T t" "k \<in> T" "w \<in> whys" "\<not> covered t (Add k w)"
    "mark_of t' k = join (mark_of t k) w" "\<forall>j. j \<noteq> k \<longrightarrow> mark_of t' j = mark_of t j"
  shows "slack T t' < slack T t"
  unfolding slack_def
proof (rule sum_strict_mono_ex1)
  note r = join_rank [OF assms(4) mark_of_in [OF assms(2)], of k]
  have up: "rank (mark_of t k) < rank (mark_of t' k)" using r assms(5,6) by (simp add: covered_def)
  have "join (mark_of t k) w \<in> whys" by (rule join_whys [OF assms(4) mark_of_in [OF assms(2)]])
  then have le: "rank (mark_of t' k) \<le> 2" using rank_bound assms(6) by simp
  show "\<forall>j \<in> T. 2 - rank (mark_of t' j) \<le> 2 - rank (mark_of t j)"
  proof
    fix j assume "j \<in> T"
    show "2 - rank (mark_of t' j) \<le> 2 - rank (mark_of t j)" using up assms(7) by (cases "j = k") auto
  qed
  show "\<exists>j \<in> T. 2 - rank (mark_of t' j) < 2 - rank (mark_of t j)" using up le assms(3) by (intro bexI [of _ k]) auto
qed (rule assms(1))

definition adds_in :: "u32 set \<Rightarrow> sym_task list \<Rightarrow> bool" where
  "adds_in T ts \<longleftrightarrow> (\<forall>x \<in> set ts. task_in T x \<and> \<not> is_finish x)"

lemma covered_dom: "table_in T t \<Longrightarrow> w \<in> whys \<Longrightarrow> covered t (Add k w) \<Longrightarrow> k \<in> dom (uuht_get t)"
  using join_whys [of w "mark_of t k"] mark_of_in [of T t k] zero_why
  by (auto simp: covered_def mark_of_def or_else_def split: option.splits)

text \<open>
  What is still to be done for the symbols whose marks have changed since the table was \<open>t0\<close> is
  among the tasks \<open>P\<close>.
\<close>

definition left_to :: "uuht \<Rightarrow> sym_task set \<Rightarrow> sym_task list \<Rightarrow> bool" where
  "left_to t P ts \<longleftrightarrow> (\<forall>x \<in> set ts. covered t x \<or> x \<in> P)"

definition finished_on :: "u32 set \<Rightarrow> (u32 \<Rightarrow> 's \<Rightarrow> ('s \<times> sym_task list) option) \<Rightarrow> 's \<Rightarrow> 's \<Rightarrow> uuht \<Rightarrow> sym_task set \<Rightarrow> u32 \<Rightarrow> bool" where
  "finished_on T fin s0 s t P token \<longleftrightarrow> (\<exists>s1 s2 ts. sym_steps T fin s0 s1 \<and> fin token s1 = Some (s2, ts) \<and>
     sym_steps T fin s2 s \<and> adds_in T ts \<and> left_to t P ts)"

definition owes :: "u32 set \<Rightarrow> (u32 \<Rightarrow> sym_task list) \<Rightarrow> (u32 \<Rightarrow> 's \<Rightarrow> ('s \<times> sym_task list) option) \<Rightarrow> uuht \<Rightarrow> 's \<Rightarrow>
    uuht \<Rightarrow> 's \<Rightarrow> sym_task set \<Rightarrow> bool" where
  "owes T dts fin t0 s0 t s P \<longleftrightarrow> (\<forall>token \<in> T. mark_of t token \<noteq> mark_of t0 token \<longrightarrow>
     left_to t P (dts token) \<and> (Finish token \<in> P \<or> finished_on T fin s0 s t P token))"

lemma left_to_step:
  assumes "left_to t P ts" "adds_in T ts"
    "\<And>x. task_in T x \<Longrightarrow> \<not> is_finish x \<Longrightarrow> covered t x \<or> x \<in> P \<Longrightarrow> covered t' x \<or> x \<in> P'"
  shows "left_to t' P' ts"
  using assms unfolding left_to_def adds_in_def by blast

lemma finished_on_step:
  assumes "finished_on T fin s0 s t P token" "sym_steps T fin s s'"
    "\<And>x. task_in T x \<Longrightarrow> \<not> is_finish x \<Longrightarrow> covered t x \<or> x \<in> P \<Longrightarrow> covered t' x \<or> x \<in> P'"
  shows "finished_on T fin s0 s' t' P' token"
  using assms(1) left_to_step [OF _ _ assms(3)] rtranclp_trans [OF _ assms(2)] unfolding finished_on_def by blast

lemma owes_step:
  assumes o: "owes T dts fin t0 s0 t s P" and s: "sym_steps T fin s s'"
    and adds: "\<And>token. token \<in> T \<Longrightarrow> adds_in T (dts token)"
    and keep: "\<And>x. task_in T x \<Longrightarrow> \<not> is_finish x \<Longrightarrow> covered t x \<or> x \<in> P \<Longrightarrow> covered t' x \<or> x \<in> P'"
    and others: "\<And>j. j \<noteq> k \<Longrightarrow> mark_of t' j = mark_of t j \<and> (Finish j \<in> P \<longrightarrow> Finish j \<in> P')"
    and own: "mark_of t' k \<noteq> mark_of t0 k \<Longrightarrow>
      left_to t' P' (dts k) \<and> (Finish k \<in> P' \<or> finished_on T fin s0 s' t' P' k)"
  shows "owes T dts fin t0 s0 t' s' P'"
  unfolding owes_def
proof (intro ballI impI)
  fix token assume token: "token \<in> T" "mark_of t' token \<noteq> mark_of t0 token"
  show "left_to t' P' (dts token) \<and> (Finish token \<in> P' \<or> finished_on T fin s0 s' t' P' token)"
  proof (cases "token = k")
    case True
    then show ?thesis using own token(2) by simp
  next
    case False
    then have "left_to t P (dts token)" "Finish token \<in> P' \<or> finished_on T fin s0 s t P token"
      using o token others [OF False] unfolding owes_def by auto
    then show ?thesis
      using left_to_step [OF _ adds [OF token(1)] keep] finished_on_step [OF _ s keep] by blast
  qed
qed

lemma owes_seen:
  assumes o: "owes T dts fin t0 s0 t s (insert (Add k w) P)" and c: "covered t (Add k w)"
    and adds: "\<And>token. token \<in> T \<Longrightarrow> adds_in T (dts token)" and k: "k \<in> T"
    and same: "\<And>j. mark_of t' j = mark_of t j"
  shows "owes T dts fin t0 s0 t' s P"
proof (rule owes_step [where k = k, OF o rtranclp.rtrancl_refl adds])
  have covers: "covered t' x = covered t x" for x by (cases x) (simp_all add: covered_def same)
  show keep: "covered t' x \<or> x \<in> P" if "covered t x \<or> x \<in> insert (Add k w) P" for x
    using that c covers by blast
  show "left_to t' P (dts k) \<and> (Finish k \<in> P \<or> finished_on T fin s0 s t' P k)" if "mark_of t' k \<noteq> mark_of t0 k"
  proof -
    have "left_to t (insert (Add k w) P) (dts k)" "Finish k \<in> P \<or> finished_on T fin s0 s t (insert (Add k w) P) k"
      using o k that unfolding owes_def same by simp_all
    then show ?thesis
      using left_to_step [OF _ adds [OF k] keep] finished_on_step [OF _ rtranclp.rtrancl_refl keep] by metis
  qed
qed (auto simp: same)

lemma owes_new:
  assumes o: "owes T dts fin t0 s0 t s (insert (Add k w) P)" and t: "table_in T t" and w: "w \<in> whys"
    and adds: "\<And>token. token \<in> T \<Longrightarrow> adds_in T (dts token)"
    and t': "mark_of t' k = join (mark_of t k) w" "\<forall>j. j \<noteq> k \<longrightarrow> mark_of t' j = mark_of t j"
  shows "owes T dts fin t0 s0 t' s (set (dts k) \<union> insert (Finish k) P)"
proof (rule owes_step [where k = k, OF o rtranclp.rtrancl_refl adds])
  have new: "covered t' (Add k w)"
    using join_covers [OF w mark_of_in [OF t]] t'(1) by (simp add: covered_def)
  show "covered t' x \<or> x \<in> set (dts k) \<union> insert (Finish k) P" if "task_in T x" "covered t x \<or> x \<in> insert (Add k w) P" for x
    using that new covered_mono [OF t w _ t'] by blast
qed (use t'(2) in \<open>auto simp: left_to_def\<close>)

lemma owes_finish:
  assumes o: "owes T dts fin t0 s0 t s (insert (Finish k) P)" and k: "k \<in> T"
    and adds: "\<And>token. token \<in> T \<Longrightarrow> adds_in T (dts token)"
    and fin: "sym_steps T fin s0 s" "fin k s = Some (s', ts)" "adds_in T ts"
  shows "owes T dts fin t0 s0 t s' (set ts \<union> P)"
proof (rule owes_step [where k = k, OF o _ adds])
  show "sym_steps T fin s s'" by (rule r_into_rtranclp, rule sym_step.intros, rule k, rule fin(2))
  show keep: "covered t x \<or> x \<in> set ts \<union> P" if "\<not> is_finish x" "covered t x \<or> x \<in> insert (Finish k) P" for x
    using that by (auto simp: is_finish_def)
  have "finished_on T fin s0 s' t (set ts \<union> P) k"
    using fin unfolding finished_on_def left_to_def by blast
  moreover have "left_to t (set ts \<union> P) (dts k)" if "mark_of t k \<noteq> mark_of t0 k"
  proof (rule left_to_step [OF _ adds [OF k] keep])
    show "left_to t (insert (Finish k) P) (dts k)" using o k that unfolding owes_def by simp
  qed
  ultimately show "left_to t (set ts \<union> P) (dts k) \<and> (Finish k \<in> set ts \<union> P \<or> finished_on T fin s0 s' t (set ts \<union> P) k)"
    if "mark_of t k \<noteq> mark_of t0 k" using that by blast
qed auto


text \<open>The conclusion: the walk ends, and nothing is owed.\<close>

definition walk_done :: "u32 set \<Rightarrow> (u32 \<Rightarrow> sym_task list) \<Rightarrow> (u32 \<Rightarrow> 's \<Rightarrow> ('s \<times> sym_task list) option) \<Rightarrow> uuht \<Rightarrow> 's \<Rightarrow>
    sym_task list \<Rightarrow> uuht \<Rightarrow> uuht \<Rightarrow> 's \<Rightarrow> bool" where
  "walk_done T dts fin t0 s0 tasks t t' s' \<longleftrightarrow> table_in T t' \<and> sym_steps T fin s0 s' \<and> owes T dts fin t0 s0 t' s' {} \<and>
     (\<forall>x \<in> set tasks. covered t' x) \<and> (\<forall>x. task_in T x \<and> covered t x \<longrightarrow> covered t' x)"

lemma walk_done_step:
  assumes d: "walk_done T dts fin t0 s0 tasks' t' t'' s''" and keep: "\<And>x. task_in T x \<Longrightarrow> covered t x \<Longrightarrow> covered t' x"
    and tasks: "\<And>x. x \<in> set tasks \<Longrightarrow> x \<in> set tasks' \<or> is_finish x \<or> task_in T x \<and> covered t' x"
  shows "walk_done T dts fin t0 s0 tasks t t'' s''"
proof -
  have "covered t'' x" if "is_finish x" for x using that by (cases x) (simp_all add: covered_def is_finish_def)
  then show ?thesis using d keep tasks unfolding walk_done_def by blast
qed

definition walk_less :: "u32 set \<Rightarrow> ((sym_task list \<times> 'w pf_world) \<times> (sym_task list \<times> 'w pf_world)) set" where
  "walk_less T = measures [\<lambda>(ts, wd). slack T (added_of wd), \<lambda>(ts, wd). length (filter is_finish ts), \<lambda>(ts, wd). length ts]"

lemma walk_less_wf: "wf (walk_less T)"
  by (simp add: walk_less_def)

lemma walk_total:
  fixes wd :: "'w pf_world" and st :: "'w pf_world \<Rightarrow> 's"
  assumes T: "finite T" "card T < uuht_limit"
    and deps: "\<And>token. token \<in> T \<Longrightarrow> deps token = Some (dts token)"
    and fin: "\<And>token wd. token \<in> T \<Longrightarrow> sym_steps T fin s0 (st wd) \<Longrightarrow>
      \<exists>wd' ts. finish token wd = Some (wd', ts) \<and> fin token (st wd) = Some (st wd', ts) \<and> adds_in T ts \<and> added_of wd' = added_of wd"
    and adds: "\<And>token. token \<in> T \<Longrightarrow> adds_in T (dts token)"
    and st: "\<And>t wd. st (set_added t wd) = st wd"
  shows "sym_steps T fin s0 (st wd) \<Longrightarrow> table_in T (added_of wd) \<Longrightarrow> list_all (task_in T) tasks \<Longrightarrow>
    owes T dts fin t0 s0 (added_of wd) (st wd) (set tasks) \<Longrightarrow>
    \<exists>wd'. add_tasks mark deps finish tasks wd = Some wd' \<and> walk_done T dts fin t0 s0 tasks (added_of wd) (added_of wd') (st wd')"
proof (induction "(tasks, wd)" arbitrary: tasks wd rule: wf_induct_rule [OF walk_less_wf [of T]])
  case (1 tasks wd)
  let ?t = "added_of wd" and ?Done = "walk_done T dts fin t0 s0"
  show ?case
  proof (cases tasks)
    case Nil
    then have "add_tasks mark deps finish tasks wd = Some wd" by (simp add: add_tasks_steps(1) Nil)
    moreover have "?Done tasks ?t ?t (st wd)" using 1(2,3,5) by (simp add: walk_done_def Nil)
    ultimately show ?thesis by blast
  next
    case (Cons task rest)
    then have rest: "task_in T task" "list_all (task_in T) rest" using 1(4) by simp_all
    show ?thesis
    proof (cases task)
      case (Finish k)
      then have k: "k \<in> T" using rest by (simp add: task_in_def)
      obtain wd' ts where wd': "finish k wd = Some (wd', ts)" "fin k (st wd) = Some (st wd', ts)" "adds_in T ts" "added_of wd' = ?t"
        using fin [OF k 1(2)] by blast
      have "filter is_finish ts = []" using wd'(3) by (simp add: adds_in_def filter_empty_conv)
      then have "((ts @ rest, wd'), (tasks, wd)) \<in> walk_less T"
        by (simp add: walk_less_def Cons Finish wd'(4) is_finish_def)
      moreover have "sym_steps T fin s0 (st wd')"
        by (rule rtranclp.rtrancl_into_rtrancl [OF 1(2)], rule sym_step.intros, rule k, rule wd'(2))
      moreover have "owes T dts fin t0 s0 (added_of wd') (st wd') (set (ts @ rest))"
        using owes_finish [of T dts fin t0 s0 ?t "st wd" k "set rest", OF _ k adds 1(2) wd'(2,3)] 1(5) by (simp add: wd'(4) Cons Finish)
      moreover have "list_all (task_in T) (ts @ rest)" using wd'(3) rest(2) by (auto simp: adds_in_def list_all_iff)
      ultimately obtain wd'' where wd'': "add_tasks mark deps finish (ts @ rest) wd' = Some wd''"
          "?Done (ts @ rest) ?t (added_of wd'') (st wd'')"
        using 1(1) [of "ts @ rest" wd'] 1(3) wd'(4) by auto
      have "?Done tasks ?t (added_of wd'') (st wd'')"
        by (rule walk_done_step [OF wd''(2)]) (auto simp: Cons Finish is_finish_def)
      then show ?thesis using wd''(1) add_tasks_steps(2) [where finish = finish, OF wd'(1)] Cons Finish by metis
    next
      case (Add k w)
      then have k: "k \<in> T" "w \<in> whys" using rest by (simp_all add: task_in_def)
      obtain t' where t': "mark k w ?t = Some (t', covered ?t (Add k w))" "table_in T t'"
          "mark_of t' k = join (mark_of ?t k) w" "\<forall>j. j \<noteq> k \<longrightarrow> mark_of t' j = mark_of ?t j"
        using marked [OF 1(3) T] rest(1) Add by metis
      have mark: "mark k w (po_added (snd (snd wd))) = Some (t', covered ?t (Add k w))" using t'(1) by (simp only: added_of_def)
      have keep: "covered t' x" if "task_in T x" "covered ?t x" for x by (rule covered_mono [OF 1(3) k(2) that(1) t'(3,4) that(2)])
      have own: "covered t' (Add k w)" using join_covers [OF k(2) mark_of_in [OF 1(3)]] t'(3) by (simp add: covered_def)
      have s: "sym_steps T fin s0 (st (set_added t' wd))" using 1(2) by (simp add: st)
      show ?thesis
      proof (cases "covered ?t (Add k w)")
        case True
        have marks: "mark_of t' j = mark_of ?t j" for j using t'(3,4) True by (cases "j = k") (auto simp: covered_def)
        have "slack T t' = slack T ?t" by (simp add: slack_def marks)
        then have "((rest, set_added t' wd), (tasks, wd)) \<in> walk_less T"
          by (simp add: walk_less_def Cons Add is_finish_def)
        moreover have "owes T dts fin t0 s0 t' (st wd) (set rest)"
          by (rule owes_seen [OF _ True adds k(1) marks]) (use 1(5) in \<open>simp add: Cons Add\<close>)
        ultimately obtain wd'' where wd'': "add_tasks mark deps finish rest (set_added t' wd) = Some wd''"
            "?Done rest t' (added_of wd'') (st wd'')"
          using 1(1) [of rest "set_added t' wd"] s t'(2) rest(2) by (auto simp: st)
        have "?Done tasks ?t (added_of wd'') (st wd'')"
          by (rule walk_done_step [OF wd''(2)]) (use keep own rest(1) in \<open>auto simp: Cons Add\<close>)
        then show ?thesis using wd''(1) add_tasks_steps(3) [where mark = mark, OF mark [unfolded eqTrueI [OF True]]] Cons Add by metis
      next
        case False
        let ?ts = "dts k @ Finish k # rest"
        have "slack T t' < slack T ?t" by (rule slack_less [OF T(1) 1(3) k False t'(3,4)])
        then have "((?ts, set_added t' wd), (tasks, wd)) \<in> walk_less T"
          by (simp add: walk_less_def)
        moreover have "owes T dts fin t0 s0 t' (st wd) (set ?ts)"
          using owes_new [where P = "set rest", OF _ 1(3) k(2) adds t'(3,4)] 1(5) by (simp add: Cons Add)
        moreover have "list_all (task_in T) ?ts"
          using adds [OF k(1)] k(1) rest(2) by (auto simp: adds_in_def list_all_iff task_in_def)
        ultimately obtain wd'' where wd'': "add_tasks mark deps finish ?ts (set_added t' wd) = Some wd''"
            "?Done ?ts t' (added_of wd'') (st wd'')"
          using 1(1) [of ?ts "set_added t' wd"] s t'(2) by (auto simp: st)
        have "?Done tasks ?t (added_of wd'') (st wd'')"
          by (rule walk_done_step [OF wd''(2)]) (use keep own rest(1) in \<open>auto simp: Cons Add\<close>)
        then show ?thesis using wd''(1) add_tasks_steps(4) [where mark = mark and deps = deps and k = k and wd = wd, OF mark [unfolded eqFalse_intro [OF False]] deps [OF k(1)]] Cons Add by metis
      qed
    qed
  qed
qed

lemma in_marks_ok: "table_in T t = marks_ok T whys t"
  by (simp add: table_in_def marks_ok_def)

lemma covered_has: "covered t task = has_task (\<lambda>v w. join v w = v) t task"
  by (simp add: covered_def has_task_def mark_of_def split: sym_task.splits)

lemma left_to_has: "left_to t {} ts = list_all (has_task (\<lambda>v w. join v w = v) t) ts"
  by (simp add: left_to_def list_all_iff covered_has)

lemma tasks_within_some:
  "tasks_within T whys ts \<Longrightarrow> ts = Some (or_else ts []) \<and> adds_in T (or_else ts [])"
  by (cases ts) (auto simp: tasks_within_def or_else_def adds_in_def list_all_iff task_within_def task_in_def is_finish_def
      split: sym_task.splits)

lemma new_mark_of:
  assumes "table_in T t" "table_in T t'" "uuht_get t' k \<noteq> uuht_get t k"
  shows "k \<in> T" "mark_of t' k \<noteq> mark_of t k"
proof -
  have z: "0 \<notin> ran (uuht_get t)" "0 \<notin> ran (uuht_get t')" using assms(1,2) zero_why by (auto simp: table_in_def)
  show "mark_of t' k \<noteq> mark_of t k"
    using z assms(3) by (cases "uuht_get t k"; cases "uuht_get t' k") (auto simp: mark_of_def or_else_def ran_def)
  have "k \<in> dom (uuht_get t) \<union> dom (uuht_get t')" using assms(3) by (cases "uuht_get t k"; cases "uuht_get t' k") auto
  then show "k \<in> T" using assms(1,2) by (auto simp: table_in_def)
qed

lemma walk_closed:
  fixes wd :: "'w pf_world" and st :: "'w pf_world \<Rightarrow> 's"
  defines "has \<equiv> \<lambda>v w. join v w = v"
  assumes T: "finite T" "card T < uuht_limit" "closed_symbols T whys deps fin (st wd)"
    and t: "marks_ok T whys (added_of wd)" and task: "token \<in> T" "why \<in> whys"
    and finish: "\<And>token wd s' ts. fin token (st wd) = Some (s', ts) \<Longrightarrow>
      \<exists>wd'. finish token wd = Some (wd', ts) \<and> st wd' = s' \<and> added_of wd' = added_of wd"
    and st: "\<And>t wd. st (set_added t wd) = st wd"
  shows "\<exists>wd'. add_tasks mark deps finish [Add token why] wd = Some wd' \<and> sym_steps T fin (st wd) (st wd') \<and>
    marks_ok T whys (added_of wd') \<and> has_task has (added_of wd') (Add token why) \<and>
    (\<forall>k \<in> T. \<forall>w \<in> whys. has_task has (added_of wd) (Add k w) \<longrightarrow> has_task has (added_of wd') (Add k w)) \<and>
    (\<forall>k. uuht_get (added_of wd') k \<noteq> uuht_get (added_of wd) k \<longrightarrow> needs_met T deps fin has (st wd) (st wd') (added_of wd') k)"
proof -
  let ?d = "\<lambda>token. or_else (deps token) []"
  have sym: "deps token = Some (?d token)" "adds_in T (?d token)" if "token \<in> T" for token
    using T(3) that tasks_within_some [of T "deps token"] unfolding closed_symbols_def by blast+
  have fin: "\<exists>wd'' ts. finish token wd' = Some (wd'', ts) \<and> fin token (st wd') = Some (st wd'', ts) \<and> adds_in T ts \<and>
      added_of wd'' = added_of wd'" if h: "token \<in> T" "sym_steps T fin (st wd) (st wd')" for token wd'
  proof -
    have "tasks_within T whys (map_option snd (fin token (st wd')))" using T(3) h unfolding closed_symbols_def by blast
    then obtain s' ts where s': "fin token (st wd') = Some (s', ts)" "adds_in T ts"
      using tasks_within_some [of T "map_option snd (fin token (st wd'))"]
      by (cases "fin token (st wd')") (auto simp: tasks_within_def or_else_def)
    then show ?thesis using finish [OF s'(1)] by auto
  qed
  have t': "table_in T (added_of wd)" using t by (simp add: in_marks_ok)
  have "list_all (task_in T) [Add token why]" using task by (simp add: task_in_def)
  moreover have "owes T ?d fin (added_of wd) (st wd) (added_of wd) (st wd) (set [Add token why])" by (simp add: owes_def)
  ultimately obtain wd' where wd': "add_tasks mark deps finish [Add token why] wd = Some wd'"
      "walk_done T ?d fin (added_of wd) (st wd) [Add token why] (added_of wd) (added_of wd') (st wd')"
    using walk_total [where st = st and finish = finish and fin = fin and dts = ?d and deps = deps and wd = wd
        and tasks = "[Add token why]" and ?s0.0 = "st wd" and ?t0.0 = "added_of wd", OF T(1,2) sym(1) fin sym(2) st rtranclp.rtrancl_refl t']
    by blast
  note d = wd'(2) [unfolded walk_done_def]
  have "needs_met T deps fin has (st wd) (st wd') (added_of wd') k"
    if k: "uuht_get (added_of wd') k \<noteq> uuht_get (added_of wd) k" for k
  proof -
    note kT = new_mark_of [OF t' _ k]
    have "left_to (added_of wd') {} (?d k)" "finished_on T fin (st wd) (st wd') (added_of wd') {} k"
      using d kT unfolding owes_def by blast+
    then show ?thesis
      using sym(1) [OF kT(1)] d unfolding needs_met_def finished_on_def left_to_has has_def by blast
  qed
  then show ?thesis
    using wd'(1) d task by (intro exI [of _ wd']) (auto simp: in_marks_ok covered_has has_def task_in_def)
qed

end

subsection \<open>The two ways to mark a symbol\<close>

definition join_once :: "u32 \<Rightarrow> u32 \<Rightarrow> u32" where
  "join_once old why = (if old = 0 then 1 else old)"

lemma or_whys: "why \<in> {1, 2, 3} \<Longrightarrow> old \<in> insert 0 {1, 2, 3} \<Longrightarrow> old OR why \<in> {1, 2, 3}" for old why :: u32
  by (elim insertE) simp_all

lemma new_mark:
  assumes "0 \<notin> ran (uuht_get t)"
  shows "or_else (uuht_get t token) 0 = 0 \<longleftrightarrow> uuht_get t token = None"
  using assms by (auto simp: or_else_def ran_def split: option.splits)

lemma set_mark:
  assumes t: "uuht_ok t" "card (dom (uuht_get t)) < uuht_limit" and why: "why \<noteq> 0"
  shows "\<exists>t'. uuht_set_if_absent t token why = Some (t', or_else (uuht_get t token) 0) \<and> uuht_ok t' \<and>
    uuht_get t' = (if uuht_get t token = None then (uuht_get t)(token \<mapsto> why) else uuht_get t)"
  using uuht_set_if_absent_spec [of t token why] t why by (auto simp: uuht_room_iff map_put_def or_else_def)

lemma get_mark: "or_else (uuht_get t token) 0 = v \<Longrightarrow> v \<noteq> 0 \<Longrightarrow> (uuht_get t)(token \<mapsto> v) = uuht_get t"
  by (auto simp: or_else_def split: option.splits)

lemma or_zero: "x OR y = 0 \<Longrightarrow> x = 0" for x y :: "'a::len word"
  by (simp add: or_eq_0_iff)

lemma x86_mark_law:
  assumes t: "uuht_ok t" "0 \<notin> ran (uuht_get t)" "card (dom (uuht_get t)) < uuht_limit" and why: "why \<in> {1, 2, 3}"
  shows "\<exists>t'. mark_why token why t = Some (t', why OR or_else (uuht_get t token) 0 = or_else (uuht_get t token) 0) \<and>
    uuht_ok t' \<and> uuht_get t' = (uuht_get t)(token \<mapsto> why OR or_else (uuht_get t token) 0)"
proof -
  let ?old = "or_else (uuht_get t token) 0"
  have nz: "why \<noteq> 0" "why OR ?old \<noteq> 0" using why by (auto dest: or_zero)
  obtain t1 where t1: "uuht_set_if_absent t token why = Some (t1, ?old)" "uuht_ok t1"
      "uuht_get t1 = (if uuht_get t token = None then (uuht_get t)(token \<mapsto> why) else uuht_get t)"
    using set_mark [OF t(1,3) nz(1)] by blast
  consider "?old = 0" | "?old \<noteq> 0" "why OR ?old = ?old" | "?old \<noteq> 0" "why OR ?old \<noteq> ?old" by blast
  then show ?thesis
  proof cases
    case 1
    then show ?thesis using t1 nz new_mark [OF t(2), of token] by (simp add: mark_why_def or_else_def)
  next
    case 2
    then show ?thesis using t1 new_mark [OF t(2), of token] by (auto simp: mark_why_def get_mark or_else_def)
  next
    case 3
    then have same: "uuht_get t1 = uuht_get t" using t1(3) new_mark [OF t(2)] by auto
    obtain t2 where "uuht_set t1 token (why OR ?old) = Some (t2, ?old)" "uuht_ok t2" "uuht_get t2 = (uuht_get t)(token \<mapsto> why OR ?old)"
      using uuht_set_spec [of t1 token "why OR ?old"] t1(2) t(3) nz by (auto simp: uuht_room_iff map_put_def or_else_def same)
    then show ?thesis using t1(1) 3 by (simp add: mark_why_def)
  qed
qed

lemma a64_mark_law:
  assumes t: "uuht_ok t" "0 \<notin> ran (uuht_get t)" "card (dom (uuht_get t)) < uuht_limit"
  shows "\<exists>t'. mark_once token why t = Some (t', join_once (or_else (uuht_get t token) 0) why = or_else (uuht_get t token) 0) \<and>
    uuht_ok t' \<and> uuht_get t' = (uuht_get t)(token \<mapsto> join_once (or_else (uuht_get t token) 0) why)"
proof -
  let ?old = "or_else (uuht_get t token) 0"
  obtain t1 where t1: "uuht_set_if_absent t token 1 = Some (t1, ?old)" "uuht_ok t1"
      "uuht_get t1 = (if uuht_get t token = None then (uuht_get t)(token \<mapsto> 1) else uuht_get t)"
    using set_mark [OF t(1,3), of 1] by auto
  have "uuht_get t1 = (uuht_get t)(token \<mapsto> join_once ?old why)"
    using t1(3) new_mark [OF t(2), of token] get_mark [of t token ?old] by (auto simp: join_once_def)
  then show ?thesis using t1(1,2) by (simp add: mark_once_def join_once_def)
qed

interpretation x86: sym_marker mark_why "\<lambda>old why. why OR old" "{1, 2, 3}" "\<lambda>v. if v = 0 then 0 else if v = 3 then 2 else 1"
proof
  fix t and why token :: u32
  assume "uuht_ok t" "0 \<notin> ran (uuht_get t)" "card (dom (uuht_get t)) < uuht_limit" "why \<in> {1, 2, 3}"
  then show "\<exists>t'. mark_why token why t = Some (t', why OR or_else (uuht_get t token) 0 = or_else (uuht_get t token) 0) \<and>
    uuht_ok t' \<and> uuht_get t' = (uuht_get t)(token \<mapsto> why OR or_else (uuht_get t token) 0)" by (rule x86_mark_law)
qed auto

interpretation a64: sym_marker mark_once join_once "{1}" "\<lambda>v. if v = 0 then 0 else 1"
  by unfold_locales (simp_all add: a64_mark_law, auto simp: join_once_def)

subsection \<open>What a symbol needs\<close>

text \<open>
  What it takes to finish a symbol, without the polyfiller's own table. An external symbol with a
  name asks for the polyfill that it is renamed to. One without a name changes the file or the
  renames: \<open>+nodelete\<close> has the library stay in memory, and any other version is a rename to impose.
\<close>

definition renamed_task :: "polyfill_code \<Rightarrow> u32 \<Rightarrow> renamer \<Rightarrow> bstr option \<Rightarrow> bstr \<Rightarrow> bstr option \<Rightarrow> sym_task list option" where
  "renamed_task pc regular rn lib name version = do {
     (s, polyfill) \<leftarrow> rename_extern rn lib name version;
     if polyfill then do {
       val \<leftarrow> rh_lookup pc (rs_name s);
       if val = 0 then None else Some [Add val regular] }
     else Some [] }"

definition impose :: "bstr \<Rightarrow> bstr \<Rightarrow> 'a::len word erw \<times> renamer \<Rightarrow> ('a word erw \<times> renamer) option" where
  "impose lib version s = (case s of (erw, rn) \<Rightarrow>
     if lib = [] \<and> version = bytes_of ''+nodelete'' then map_option (\<lambda>erw. (erw, rn)) (renamer_add_nodelete rn erw)
     else map_option (\<lambda>r. (erw, fst r)) (renamer_add_one_rename rn lib version))"

definition finish_state :: "nat \<Rightarrow> polyfill_code \<Rightarrow> u32 \<Rightarrow> u32 \<Rightarrow> 'a::len word erw \<times> renamer \<Rightarrow>
    (('a word erw \<times> renamer) \<times> sym_task list) option" where
  "finish_state rsz pc regular token s = do {
     flags \<leftarrow> head_flags pc token;
     if flags AND ASM_SYM_FLAG_EXTERN \<noteq> 0 then do {
       (lib, name, version) \<leftarrow> parse_extern_sym rsz pc token;
       case name of
         None \<Rightarrow> do {
           lib \<leftarrow> lib;
           version \<leftarrow> version;
           s \<leftarrow> impose lib version s;
           Some (s, []) }
       | Some name \<Rightarrow> do {
           ts \<leftarrow> renamed_task pc regular (snd s) lib name version;
           Some (s, ts) } }
     else if flags AND ASM_SYM_FLAG_FUNCTION \<noteq> 0 then do {
       n_code \<leftarrow> head_n_code pc token;
       n_cfi \<leftarrow> head_n_cfi pc token;
       Some (s, []) }
     else Some (s, []) }"

lemma finish_extern_state:
  fixes wd :: "'a::len word pf_world"
  assumes "(case name of
         None \<Rightarrow> do { lib \<leftarrow> lib; version \<leftarrow> version; s \<leftarrow> impose lib version (files_of wd); Some (s, []) }
       | Some name \<Rightarrow> do { ts \<leftarrow> renamed_task pc regular (snd (files_of wd)) lib name version; Some (files_of wd, ts) }) = Some (s', ts)"
  shows "\<exists>wd'. finish_extern pc regular (lib, name, version) wd = Some (wd', ts) \<and> files_of wd' = s' \<and> added_of wd' = added_of wd"
proof (cases wd)
  case (fields erw rn p)
  show ?thesis
  proof (cases name)
    case None
    then obtain l v where lv: "lib = Some l" "version = Some v" using assms by (auto simp: bind_eq_Some_conv)
    show ?thesis using assms
      by (cases "l = [] \<and> v = bytes_of ''+nodelete''")
        (auto simp: None lv finish_extern_def fields impose_def files_of_def added_of_def bind_eq_Some_conv)
  next
    case (Some n)
    then obtain q polyfill where q: "rename_extern rn lib n version = Some (q, polyfill)" "s' = files_of wd"
        "(if polyfill then do { val \<leftarrow> rh_lookup pc (rs_name q); if val = 0 then None else Some [Add val regular] } else Some []) = Some ts"
      using assms by (auto simp: renamed_task_def bind_eq_Some_conv fields files_of_def)
    then have "finish_extern pc regular (lib, name, version) wd = Some (wd, ts)"
      by (auto simp: finish_extern_def fields Some bind_eq_Some_conv split: if_splits)
    then show ?thesis using q(2) by blast
  qed
qed

lemma finish_sym_state:
  assumes "finish_state rsz pc regular token (files_of wd) = Some (s', ts)"
  shows "\<exists>wd'. finish_sym rsz pc regular token wd = Some (wd', ts) \<and> files_of wd' = s' \<and> added_of wd' = added_of wd"
proof -
  obtain flags where f: "head_flags pc token = Some flags" using assms by (auto simp: finish_state_def bind_eq_Some_conv)
  note a = assms [unfolded finish_state_def f] and go = finish_sym_def f
  consider "flags AND ASM_SYM_FLAG_EXTERN \<noteq> 0" | "flags AND ASM_SYM_FLAG_EXTERN = 0" "flags AND ASM_SYM_FLAG_FUNCTION \<noteq> 0"
    | "flags AND ASM_SYM_FLAG_EXTERN = 0" "flags AND ASM_SYM_FLAG_FUNCTION = 0" by blast
  then show ?thesis
  proof cases
    case 1
    then obtain lib name version where r: "parse_extern_sym rsz pc token = Some (lib, name, version)"
      using a by (auto simp: bind_eq_Some_conv)
    show ?thesis
      using finish_extern_state [where name = name and lib = lib and version = version and wd = wd and pc = pc and regular = regular] a 1 by (simp add: go r)
  next
    case 2
    then obtain n_code n_cfi where n: "head_n_code pc token = Some n_code" "head_n_cfi pc token = Some n_cfi" "ts = []" "s' = files_of wd"
      using a by (auto simp: bind_eq_Some_conv)
    let ?wd = "see_flags (if n_code \<noteq> 0 \<and> n_cfi \<noteq> 0 then flags OR ASM_SYM_FLAG_EXTERN else flags) wd"
    have "finish_sym rsz pc regular token wd = Some (?wd, ts)" using 2 n by (simp add: go)
    then show ?thesis
      by (intro exI [of _ ?wd]) (cases wd, simp add: n(4) files_of_def added_of_def see_flags_def)
  next
    case 3
    then have "finish_sym rsz pc regular token wd = Some (wd, ts)" "s' = files_of wd" using a by (simp_all add: go)
    then show ?thesis by blast
  qed
qed

subsection \<open>The walk of each polyfiller\<close>

abbreviation x86_has :: "u32 \<Rightarrow> u32 \<Rightarrow> bool" where
  "x86_has v w \<equiv> w OR v = v"

abbreviation a64_has :: "u32 \<Rightarrow> u32 \<Rightarrow> bool" where
  "a64_has v w \<equiv> join_once v w = v"

text \<open>
  C28: adding a symbol to the x86_64 polyfiller ends, also when symbols refer to each other in a circle.
  The file and the renames change only by what the added external symbols without a name impose,
  the reason is recorded, and the reasons that were recorded before still are. Each symbol that is
  new, or has a new reason, has all it needs: the symbols that its relocations refer to are added,
  each for its reason, what it imposes on the file and the renames has been done, and the polyfill
  that an external symbol was renamed to, by the renames at that time, is added. The symbols are
  those of a set that is closed under all this, whose records can be read.
\<close>

theorem add_sym_and_deps_complete:
  fixes wd :: "'a::len word pf_world"
  assumes "finite T" and "card T < uuht_limit"
    and "closed_symbols T {1, 2, 3} (sym_deps pc) (finish_state 4 pc 3) (files_of wd)"
    and "marks_ok T {1, 2, 3} (added_of wd)"
    and "token \<in> T" and "why \<in> {1, 2, 3}"
  shows "\<exists>wd'. add_sym_and_deps pc token why wd = Some wd' \<and> sym_steps T (finish_state 4 pc 3) (files_of wd) (files_of wd') \<and>
    marks_ok T {1, 2, 3} (added_of wd') \<and> has_task x86_has (added_of wd') (Add token why) \<and>
    (\<forall>k \<in> T. \<forall>w \<in> {1, 2, 3}. has_task x86_has (added_of wd) (Add k w) \<longrightarrow> has_task x86_has (added_of wd') (Add k w)) \<and>
    (\<forall>k. uuht_get (added_of wd') k \<noteq> uuht_get (added_of wd) k \<longrightarrow>
      needs_met T (sym_deps pc) (finish_state 4 pc 3) x86_has (files_of wd) (files_of wd') (added_of wd') k)"
  unfolding add_sym_and_deps_def
  by (rule x86.walk_closed [where st = files_of, OF assms finish_sym_state files_of_set])

text \<open>
  Two symbols that refer to each other, at 8 and 24, and one at 40 that the first refers to and
  that has the library stay in memory, added to a file with another flag in \<open>DT_FLAGS_1\<close>.
\<close>

definition nodelete_sym :: "u8 list" where
  "nodelete_sym = [2, 0, 0, 0, 0, 0, 0, 0, 1, 0, 10, 0] @ bytes_of ''+nodelete'' @ [0]"

definition code_of :: "u8 list \<Rightarrow> polyfill_code" where
  "code_of bs = \<lparr>pc_data = rd (replicate 8 0 @ bs), pc_mask = 0, pc_token = (\<lambda>_. 0)\<rparr>"

lemma nodelete_parse:
  assumes "unat token = 8 + length pre"
  shows "parse_extern_sym rsz (code_of (pre @ nodelete_sym)) token = Some (Some [], None, Some (bytes_of ''+nodelete''))"
proof -
  let ?m = "pc_data (code_of (pre @ nodelete_sym))" and ?a = "8 + length pre"
  have h: "holds ?m ?a nodelete_sym"
    by (simp add: holds_def code_of_def rd_def nth_append)
  have b: "holds ?m ?a [2, 0, 0, 0, 0, 0, 0, 0, 1, 0, 10, 0]" "holds ?m (?a + 12) (bytes_of ''+nodelete'' @ [0])"
    using h unfolding nodelete_sym_def holds_append by simp_all
  have m: "?m (?a + 2) = Some 0" "?m (?a + 3) = Some 0" "?m (?a + 8) = Some 1" "?m (?a + 9) = Some 0" "?m (?a + 10) = Some 10"
      "?m (?a + 11) = Some 0"
    using b(1) by (simp_all add: holds_Cons numeral_eq_Suc)
  have ten: "(10 :: u8) \<noteq> 0" by simp
  have z: "unat (word_of_bytes [0, 0] :: u16) = 0" by code_simp
  have n: "head_n_reloc (code_of (pre @ nodelete_sym)) token = Some 0"
    using m(1,2) z by (simp add: head_n_reloc_def head_field_def assms numeral_eq_Suc)
  have "cstr_at ?m (?a + 11) = Some []" by (rule cstr_at_holds) (use m(6) in \<open>simp_all add: holds_Cons\<close>)
  moreover have "cstr_at ?m (?a + 12) = Some (bytes_of ''+nodelete'')" by (rule cstr_at_holds [OF b(2)]) code_simp
  ultimately show ?thesis
    using m(3-5) ten by (simp add: parse_extern_sym_def code_at_def n assms opt_cstr_def Let_def add.commute add.left_commute)
qed

definition circle_code :: polyfill_code where
  "circle_code = code_of ([0, 0, 2, 0, 0, 0, 0, 0, 4, 24, 0, 0, 4, 40, 0, 0] @ [0, 0, 1, 0, 0, 0, 0, 0, 4, 8, 0, 0, 0, 0, 0, 0] @ nodelete_sym)"

definition flags_file :: "u64 \<Rightarrow> u32 \<Rightarrow> u64 erw" where
  "flags_file v changed = erw_zero\<lparr>e_modified := changed, e_dhdrs := \<lparr>ed_live = True, ed_at = 0,
     ed_heap = [Some \<lparr>d_tag = DT_FLAGS_1, d_val = v\<rparr>], ed_count = 1, ed_capacity = 1\<rparr>\<rparr>"

lemma flags_file_nodelete:
  "erw_dhdrs_add_remove_flags (flags_file 1 0) DT_FLAGS_1 DF_1_NODELETE 0 = Some (flags_file 9 4)"
  "erw_dhdrs_add_remove_flags (flags_file 9 4) DT_FLAGS_1 DF_1_NODELETE 0 = Some (flags_file 9 4)"
  by (simp_all add: erw_dhdrs_add_remove_flags_def dhdrs_ready_def flags_file_def dhdrs_add_remove_flags_def dyn_list_def
      ed_list_def ed_get_def rd_def erw_zero_def esw_def dyn_put_def ed_put_def set_modified_def)

lemma flags_file_impose:
  assumes "s \<in> {(flags_file 1 0, renamer_init None), (flags_file 9 4, renamer_init None)}"
  shows "impose [] (bytes_of ''+nodelete'') s = Some (flags_file 9 4, renamer_init None)"
  using assms by (auto simp: impose_def renamer_add_nodelete_def renamer_init_def flags_file_nodelete)

lemma finish_state_none: "head_flags pc token = Some 0 \<Longrightarrow> finish_state rsz pc regular token s = Some (s, [])"
  by (simp add: finish_state_def)

lemma finish_state_nodelete:
  assumes "head_flags pc token = Some 2" "parse_extern_sym rsz pc token = Some (Some [], None, Some (bytes_of ''+nodelete''))"
    "s \<in> {(flags_file 1 0, renamer_init None), (flags_file 9 4, renamer_init None)}"
  shows "finish_state rsz pc regular token s = Some ((flags_file 9 4, renamer_init None), [])"
  using assms(1,2) flags_file_impose [OF assms(3)] by (simp add: finish_state_def)

lemma circle_deps:
  "sym_deps circle_code 8 = Some [Add 24 3, Add 40 3]" "sym_deps circle_code 24 = Some [Add 8 3]" "sym_deps circle_code 40 = Some []"
  "head_flags circle_code 8 = Some 0" "head_flags circle_code 24 = Some 0" "head_flags circle_code 40 = Some 2"
  "parse_extern_sym 4 circle_code 40 = Some (Some [], None, Some (bytes_of ''+nodelete''))"
        apply (code_simp+)[6]
  using nodelete_parse [of 40 "[0, 0, 2, 0, 0, 0, 0, 0, 4, 24, 0, 0, 4, 40, 0, 0] @ [0, 0, 1, 0, 0, 0, 0, 0, 4, 8, 0, 0, 0, 0, 0, 0]" 4]
  by (simp add: circle_code_def)

text \<open>Both machines finish these symbols alike.\<close>

lemma circle_finish:
  fixes s :: "u64 erw \<times> renamer"
  defines "S \<equiv> {(flags_file 1 0, renamer_init None), (flags_file 9 4, renamer_init None)}"
  assumes s: "s \<in> S" and h: "head_flags pc a = Some 0" "head_flags pc b = Some 0" "head_flags pc c = Some 2"
    "parse_extern_sym rsz pc c = Some (Some [], None, Some (bytes_of ''+nodelete''))"
  shows "finish_state rsz pc regular a s = Some (s, [])" "finish_state rsz pc regular b s = Some (s, [])"
    "finish_state rsz pc regular c s = Some ((flags_file 9 4, renamer_init None), [])"
    "sym_steps {a, b, c} (finish_state rsz pc regular) s s' \<Longrightarrow> s' \<in> S"
    "sym_steps {a, b, c} (finish_state rsz pc regular) (flags_file 9 4, renamer_init None) s' \<Longrightarrow> s' = (flags_file 9 4, renamer_init None)"
proof -
  let ?fin = "finish_state rsz pc regular" and ?e = "(flags_file 9 4, renamer_init None)"
  have c: "?fin c x = Some (?e, [])" if "x \<in> S" for x
    using finish_state_nodelete [OF h(3,4), of x] that unfolding S_def .
  show ab: "?fin a s = Some (s, [])" "?fin b s = Some (s, [])" by (simp_all add: finish_state_none h)
  show "?fin c s = Some (?e, [])" by (rule c [OF s])
  have go: "y \<in> X" if "x \<in> X" "X \<subseteq> S" "?e \<in> X" "sym_steps {a, b, c} ?fin x y" for x y X
    using that(4)
  proof (induction rule: rtranclp_induct)
    case base
    then show ?case by (rule that(1))
  next
    case (step y z)
    obtain k ts where k: "k \<in> {a, b, c}" "?fin k y = Some (z, ts)" using step.hyps(2) by (blast elim: sym_step.cases)
    then have "z = y \<or> z = ?e" using c [of y] step.IH that(2) by (auto simp: finish_state_none h)
    then show ?case using step.IH that(3) by blast
  qed
  show "s' \<in> S" if "sym_steps {a, b, c} ?fin s s'" using go [OF s _ _ that] by (simp add: S_def)
  show "s' = ?e" if "sym_steps {a, b, c} ?fin ?e s'" using go [of ?e "{?e}", OF _ _ _ that] by (simp add: S_def)
qed

lemma circle_closed:
  assumes h: "head_flags pc a = Some 0" "head_flags pc b = Some 0" "head_flags pc c = Some 2"
    "parse_extern_sym rsz pc c = Some (Some [], None, Some (bytes_of ''+nodelete''))"
    and d: "\<And>k. k \<in> {a, b, c} \<Longrightarrow> tasks_within {a, b, c} whys (deps k)"
  shows "closed_symbols {a, b, c} whys deps (finish_state rsz pc regular) (flags_file 1 0, renamer_init None)"
  unfolding closed_symbols_def
proof (intro ballI conjI allI impI)
  fix k s assume k: "k \<in> {a, b, c}" and s: "sym_steps {a, b, c} (finish_state rsz pc regular) (flags_file 1 0, renamer_init None) s"
  note f = circle_finish [where rsz = rsz and regular = regular, OF _ h]
  have "s \<in> {(flags_file 1 0, renamer_init None), (flags_file 9 4, renamer_init None)}" using f(4) [OF _ s] by simp
  then show "tasks_within {a, b, c} whys (map_option snd (finish_state rsz pc regular k s))"
    using k f(1-3) [of s] by (auto simp: tasks_within_def)
qed (rule d)

lemma circle_ends:
  fixes wd' :: "u64 pf_world"
  defines "s0 \<equiv> (flags_file 1 0, renamer_init None)"
  assumes h: "head_flags pc a = Some 0" "head_flags pc b = Some 0" "head_flags pc c = Some 2"
    "parse_extern_sym rsz pc c = Some (Some [], None, Some (bytes_of ''+nodelete''))"
    and n: "needs_met {a, b, c} deps (finish_state rsz pc regular) has s0 (files_of wd') t c"
  shows "files_of wd' = (flags_file 9 4, renamer_init None)"
proof -
  obtain s1 s2 ts where s: "sym_steps {a, b, c} (finish_state rsz pc regular) s0 s1" "finish_state rsz pc regular c s1 = Some (s2, ts)"
      "sym_steps {a, b, c} (finish_state rsz pc regular) s2 (files_of wd')"
    using n unfolding needs_met_def by blast
  note f = circle_finish [where rsz = rsz and regular = regular, OF _ h]
  have "s1 \<in> {(flags_file 1 0, renamer_init None), (flags_file 9 4, renamer_init None)}"
    using f(4) [OF _ s(1)] by (simp add: s0_def)
  then have "s2 = (flags_file 9 4, renamer_init None)" using f(3) s(2) by simp
  then show ?thesis using f(5) [of "(flags_file 9 4, renamer_init None)"] s(3) by simp
qed

theorem add_sym_and_deps_complete_witness:
  "\<exists>wd'. add_sym_and_deps circle_code 8 3 (flags_file 1 0, renamer_init None, polyfiller_init 0) = Some wd' \<and>
    list_all (has_task x86_has (added_of wd')) [Add 8 3, Add 24 3, Add 40 3] \<and> files_of wd' = (flags_file 9 4, renamer_init None)"
proof -
  let ?wd = "(flags_file 1 0, renamer_init None, polyfiller_init 0)" and ?T = "{8, 24, 40} :: u32 set"
  have st: "files_of ?wd = (flags_file 1 0, renamer_init None)" "uuht_get (added_of ?wd) = Map.empty"
      "marks_ok ?T {1, 2, 3} (added_of ?wd)"
    by (simp_all add: files_of_def added_of_def polyfiller_init_def marks_ok_def)
  have "closed_symbols ?T {1, 2, 3} (sym_deps circle_code) (finish_state 4 circle_code 3) (files_of ?wd)"
    unfolding st by (rule circle_closed [OF circle_deps(4-7)]) (auto simp: tasks_within_def task_within_def circle_deps)
  then obtain wd' where wd': "add_sym_and_deps circle_code 8 3 ?wd = Some wd'" "has_task x86_has (added_of wd') (Add 8 3)"
      "\<forall>k. uuht_get (added_of wd') k \<noteq> None \<longrightarrow> needs_met ?T (sym_deps circle_code) (finish_state 4 circle_code 3) x86_has
        (flags_file 1 0, renamer_init None) (files_of wd') (added_of wd') k"
    using add_sym_and_deps_complete [of ?T circle_code ?wd 8 3] st by auto
  have new: "uuht_get (added_of wd') k \<noteq> None" if "has_task x86_has (added_of wd') (Add k 3)" for k
    using that by (cases "uuht_get (added_of wd') k") (auto simp: has_task_def or_else_def)
  have "list_all (has_task x86_has (added_of wd')) [Add 24 3, Add 40 3]"
    by (rule needs_met_deps [OF wd'(3) [rule_format, OF new [OF wd'(2)]] circle_deps(1)])
  moreover have "files_of wd' = (flags_file 9 4, renamer_init None)"
    by (rule circle_ends [OF circle_deps(4-7)], rule wd'(3) [rule_format, OF new [of 40]]) (use calculation in simp)
  ultimately show ?thesis using wd'(1,2) by auto
qed

text \<open>
  C29: the same for the aarch64 polyfiller, which records no reasons: adding a symbol ends, every
  symbol that a newly added one refers to or is renamed to is added too, and what the external
  symbols without a name impose on the file and the renames has been done, and nothing else.
\<close>

theorem a64_add_sym_and_deps_complete:
  fixes wd :: "'a::len word pf_world"
  assumes "finite T" and "card T < uuht_limit"
    and "closed_symbols T {1} (a64_sym_deps pc) (finish_state 8 pc 1) (files_of wd)"
    and "marks_ok T {1} (added_of wd)"
    and "token \<in> T"
  shows "\<exists>wd'. a64_add_sym_and_deps pc token wd = Some wd' \<and> sym_steps T (finish_state 8 pc 1) (files_of wd) (files_of wd') \<and>
    marks_ok T {1} (added_of wd') \<and> has_task a64_has (added_of wd') (Add token 1) \<and>
    (\<forall>k \<in> T. has_task a64_has (added_of wd) (Add k 1) \<longrightarrow> has_task a64_has (added_of wd') (Add k 1)) \<and>
    (\<forall>k. uuht_get (added_of wd') k \<noteq> uuht_get (added_of wd) k \<longrightarrow>
      needs_met T (a64_sym_deps pc) (finish_state 8 pc 1) a64_has (files_of wd) (files_of wd') (added_of wd') k)"
  using a64.walk_closed [where st = files_of and why = 1, OF assms _ finish_sym_state files_of_set]
  unfolding a64_add_sym_and_deps_def by simp

text \<open>The same symbols for aarch64, whose relocations have 8 bytes, at 8, 32 and 48.\<close>

definition a64_circle_code :: polyfill_code where
  "a64_circle_code = code_of ([0, 0, 2, 0, 0, 0, 0, 0, 0, 0, 0, 0, 32, 0, 0, 0, 0, 0, 0, 0, 48, 0, 0, 0] @
     [0, 0, 1, 0, 0, 0, 0, 0, 0, 0, 0, 0, 8, 0, 0, 0] @ nodelete_sym)"

lemma a64_circle_deps:
  "a64_sym_deps a64_circle_code 8 = Some [Add 32 1, Add 48 1]" "a64_sym_deps a64_circle_code 32 = Some [Add 8 1]"
  "a64_sym_deps a64_circle_code 48 = Some []"
  "head_flags a64_circle_code 8 = Some 0" "head_flags a64_circle_code 32 = Some 0" "head_flags a64_circle_code 48 = Some 2"
  "parse_extern_sym 8 a64_circle_code 48 = Some (Some [], None, Some (bytes_of ''+nodelete''))"
        apply (code_simp+)[6]
  using nodelete_parse [of 48 "[0, 0, 2, 0, 0, 0, 0, 0, 0, 0, 0, 0, 32, 0, 0, 0, 0, 0, 0, 0, 48, 0, 0, 0] @
     [0, 0, 1, 0, 0, 0, 0, 0, 0, 0, 0, 0, 8, 0, 0, 0]" 8]
  by (simp add: a64_circle_code_def)

theorem a64_add_sym_and_deps_complete_witness:
  "\<exists>wd'. a64_add_sym_and_deps a64_circle_code 8 (flags_file 1 0, renamer_init None, polyfiller_init 0) = Some wd' \<and>
    list_all (has_task a64_has (added_of wd')) [Add 8 1, Add 32 1, Add 48 1] \<and> files_of wd' = (flags_file 9 4, renamer_init None)"
proof -
  let ?wd = "(flags_file 1 0, renamer_init None, polyfiller_init 0)" and ?T = "{8, 32, 48} :: u32 set"
  have st: "files_of ?wd = (flags_file 1 0, renamer_init None)" "uuht_get (added_of ?wd) = Map.empty"
      "marks_ok ?T {1} (added_of ?wd)"
    by (simp_all add: files_of_def added_of_def polyfiller_init_def marks_ok_def)
  have "closed_symbols ?T {1} (a64_sym_deps a64_circle_code) (finish_state 8 a64_circle_code 1) (files_of ?wd)"
    unfolding st by (rule circle_closed [OF a64_circle_deps(4-7)]) (auto simp: tasks_within_def task_within_def a64_circle_deps)
  then obtain wd' where wd': "a64_add_sym_and_deps a64_circle_code 8 ?wd = Some wd'" "has_task a64_has (added_of wd') (Add 8 1)"
      "\<forall>k. uuht_get (added_of wd') k \<noteq> None \<longrightarrow> needs_met ?T (a64_sym_deps a64_circle_code) (finish_state 8 a64_circle_code 1) a64_has
        (flags_file 1 0, renamer_init None) (files_of wd') (added_of wd') k"
    using a64_add_sym_and_deps_complete [of ?T a64_circle_code ?wd 8] st by auto
  have new: "uuht_get (added_of wd') k \<noteq> None" if "has_task a64_has (added_of wd') (Add k 1)" for k
    using that by (cases "uuht_get (added_of wd') k") (auto simp: has_task_def or_else_def join_once_def)
  have "list_all (has_task a64_has (added_of wd')) [Add 32 1, Add 48 1]"
    by (rule needs_met_deps [OF wd'(3) [rule_format, OF new [OF wd'(2)]] a64_circle_deps(1)])
  moreover have "files_of wd' = (flags_file 9 4, renamer_init None)"
    by (rule circle_ends [OF a64_circle_deps(4-7)], rule wd'(3) [rule_format, OF new [of 48]]) (use calculation in simp)
  ultimately show ?thesis using wd'(1,2) by auto
qed

end
