(* ===== verification/ParseRenames.thy ===== *)
theory ParseRenames
  imports Renames Tokenise CommonStrings
begin

section \<open>parse\_renames.c: the tables of renames for a target version\<close>

text \<open>
  The build turns a text file of renames, \<open>name@version\<close> and what it becomes on each line, into
  the block of bytes that the renamer searches. The lines are kept in a hash table of versions
  whose values are hash tables of names; a value that is a struct of C is kept beside its table,
  by the offset of the value in the contents of the table. \<open>None\<close> is an access outside of an
  array.
\<close>

subsection \<open>Names\<close>

text \<open>A part of the text: where it starts, with no start for the null pointer, and its length.\<close>

record lstr =
  ls_chars :: "u32 option"
  ls_len :: u32

record parsed_name_t =
  pn_lib :: lstr
  pn_name :: lstr
  pn_version :: lstr

definition null_lstr :: lstr where
  "null_lstr = \<lparr>ls_chars = None, ls_len = 0\<rparr>"

definition zero_name :: parsed_name_t where
  "zero_name = \<lparr>pn_lib = null_lstr, pn_name = null_lstr, pn_version = null_lstr\<rparr>"

definition populate_lstr :: "u32 \<Rightarrow> u32 \<Rightarrow> lstr" where
  "populate_lstr start lim = \<lparr>ls_chars = Some start, ls_len = lim - start\<rparr>"

text \<open>The loop over the tokens that follow each other with nothing between them: the token behind
  them, where they end, and the first separators.\<close>

definition see_colon_colon :: "token \<Rightarrow> token option \<times> token option \<Rightarrow> token option \<times> token option" where
  "see_colon_colon t seps = (case seps of (colon_colon, at) \<Rightarrow> if colon_colon = None then (Some t, None) else seps)"

definition see_at :: "token \<Rightarrow> token option \<times> token option \<Rightarrow> token option \<times> token option" where
  "see_at t seps = (case seps of (colon_colon, at) \<Rightarrow> if at = None then (colon_colon, Some t) else seps)"

function name_loop :: "token list \<Rightarrow> nat \<Rightarrow> u32 \<Rightarrow> token option \<times> token option \<Rightarrow> (nat \<times> u32 \<times> token option \<times> token option) option" where
  "name_loop toks i lim seps = (case rd toks i of
     None \<Rightarrow> None
   | Some t \<Rightarrow>
       if tok_start t \<noteq> lim \<or> tok_type t = TOK_EOF then Some (i, lim, seps)
       else name_loop toks (i + 1) (tok_end t)
         (if tok_type t = TOK_PUNCT (CHR '':'') + PUNCT_REPEAT then see_colon_colon t seps
          else if tok_type t = TOK_PUNCT (CHR ''@'') then see_at t seps
          else seps))"
  by pat_completeness auto
termination
  by (relation "measure (\<lambda>(toks, i, _). length toks - i)") (auto simp: rd_def split: if_splits)

declare name_loop.simps [simp del]

definition parse_name :: "token list \<Rightarrow> nat \<Rightarrow> (parsed_name_t \<times> nat) option" where
  "parse_name toks i = do {
     t \<leftarrow> rd toks i;
     let start = tok_start t;
     (i, lim, colon_colon, at) \<leftarrow> name_loop toks i start (None, None);
     let (lib, start) = (case colon_colon of
         Some c \<Rightarrow> (populate_lstr start (tok_start c), tok_end c)
       | None \<Rightarrow> (null_lstr, start));
     Some (\<lparr>pn_lib = lib,
       pn_name = populate_lstr start (case at of Some a \<Rightarrow> tok_start a | None \<Rightarrow> lim),
       pn_version = (case at of Some a \<Rightarrow> populate_lstr (tok_end a) lim | None \<Rightarrow> null_lstr)\<rparr>, i) }"

text \<open>The bytes of a part of the text.\<close>

definition lstr_bytes :: "tokeniser \<Rightarrow> lstr \<Rightarrow> bstr option" where
  "lstr_bytes toks l = do {
     a \<leftarrow> ls_chars l;
     if unat a + unat (ls_len l) \<le> length (t_base toks)
     then Some (key_bytes (slice (t_base toks) (unat a) (unat a + unat (ls_len l)))) else None }"

subsection \<open>Reading the lines\<close>

record inner_table =
  in_sht :: sht
  in_value :: "nat \<Rightarrow> parsed_name_t"

record rename_lines =
  rl_toks :: tokeniser
  rl_renames :: sht
  rl_inner :: "nat \<Rightarrow> inner_table option"

datatype parse_error = Malformed_old_name | Duplicate_old_name | Missing_new_name | Garbage_after_new_name

text \<open>Line and column of an error, and the error.\<close>

type_synonym parse_failure = "(u32 \<times> u32) \<times> parse_error"

definition fail_at :: "tokeniser \<Rightarrow> token \<Rightarrow> parse_error \<Rightarrow> (parse_failure + 'a) option" where
  "fail_at toks t e = map_option (\<lambda>at. Inl (at, e)) (tokeniser_error toks t)"

text \<open>The sizes of \<open>sht_t\<close> and \<open>parsed_name_t\<close>.\<close>

definition renames_init :: sht where
  "renames_init = sht_init 24"

definition inner_init :: inner_table where
  "inner_init = \<lparr>in_sht = sht_init 48, in_value = (\<lambda>_. zero_name)\<rparr>"

definition inner_at :: "rename_lines \<Rightarrow> nat \<Rightarrow> inner_table" where
  "inner_at rl p = (case rl_inner rl p of None \<Rightarrow> inner_init | Some inner \<Rightarrow> inner)"

definition put_old_name :: "rename_lines \<Rightarrow> parsed_name_t \<Rightarrow> (rename_lines \<times> nat \<times> nat \<times> bool) option" where
  "put_old_name rl old_name = do {
     version \<leftarrow> lstr_bytes (rl_toks rl) (pn_version old_name);
     (renames, p) \<leftarrow> sht_intern_p (rl_renames rl) version;
     let inner = inner_at rl p;
     name \<leftarrow> lstr_bytes (rl_toks rl) (pn_name old_name);
     (table, dst) \<leftarrow> sht_intern_p (in_sht inner) name;
     Some (rl\<lparr>rl_renames := renames, rl_inner := (rl_inner rl)(p \<mapsto> inner\<lparr>in_sht := table\<rparr>)\<rparr>, p, dst,
       ls_chars (pn_name (in_value inner dst)) \<noteq> None) }"

definition set_rename :: "nat \<Rightarrow> nat \<Rightarrow> parsed_name_t \<Rightarrow> rename_lines \<Rightarrow> rename_lines" where
  "set_rename p dst new_name rl =
    (let inner = inner_at rl p
     in rl\<lparr>rl_inner := (rl_inner rl)(p \<mapsto> inner\<lparr>in_value := (in_value inner)(dst := new_name)\<rparr>)\<rparr>)"

definition parse_line :: "rename_lines \<Rightarrow> nat \<Rightarrow> (parse_failure + rename_lines \<times> nat) option" where
  "parse_line rl i = do {
     let toks = t_tokens (rl_toks rl);
     t \<leftarrow> rd toks i;
     (tk, next_line) \<leftarrow> tokeniser_next_line_start (rl_toks rl) (tok_start t);
     let rl = rl\<lparr>rl_toks := tk\<rparr>;
     (old_name, i1) \<leftarrow> parse_name toks i;
     if ls_chars (pn_lib old_name) \<noteq> None \<or> ls_chars (pn_version old_name) = None then fail_at tk t Malformed_old_name
     else do {
       (rl, p, dst, duplicate) \<leftarrow> put_old_name rl old_name;
       if duplicate then fail_at tk t Duplicate_old_name
       else do {
         t1 \<leftarrow> rd toks i1;
         if tok_start t1 \<ge> next_line then do {
           if i1 = 0 then None
           else do { prev \<leftarrow> rd toks (i1 - 1); fail_at tk prev Missing_new_name } }
         else do {
           (new_name, i) \<leftarrow> parse_name toks i1;
           let rl = set_rename p dst new_name rl;
           t \<leftarrow> rd toks i;
           if tok_start t < next_line then fail_at tk t Garbage_after_new_name
           else Some (Inr (rl, i)) } } } }"

partial_function (option) parse_lines :: "rename_lines \<Rightarrow> nat \<Rightarrow> (parse_failure + rename_lines) option" where
  "parse_lines rl i = Option.bind (rd (t_tokens (rl_toks rl)) i) (\<lambda>t.
     if tok_type t = TOK_EOF then Some (Inr rl)
     else Option.bind (parse_line rl i) (\<lambda>r. case r of
       Inl e \<Rightarrow> Some (Inl e)
     | Inr (rl, i) \<Rightarrow> parse_lines rl i))"

subsection \<open>The order of the versions\<close>

text \<open>Each entry is the index of a value in units of four bytes, and above it the index of its slot.\<close>

definition sorted_vers_of :: "sht \<Rightarrow> u64 list option" where
  "sorted_vers_of renames =
    (let n = unat (s_mask renames) + 1;
         used = filter (\<lambda>i. s_table renames ! i \<noteq> 0) [0..<n];
         vers = map (\<lambda>i. drop_bit 32 (s_table renames ! i) OR push_bit 32 (of_nat i)) used
     in if n \<le> length (s_table renames) \<and> length vers = unat (s_count renames) then Some vers else None)"

definition version_key :: "sht \<Rightarrow> u32 \<Rightarrow> cstr option" where
  "version_key renames u = map_option (\<lambda>key. takeWhile (\<lambda>c. c \<noteq> NUL) (chars_of key)) (sht_p_key renames (4 * unat u))"

definition compare_ver_u :: "sht \<Rightarrow> u64 \<Rightarrow> u64 \<Rightarrow> int option" where
  "compare_ver_u renames lhs rhs =
    (let lhs = slot_lo lhs; rhs = slot_lo rhs
     in if lhs = rhs then Some 0
        else do {
          lhs_s \<leftarrow> version_key renames lhs;
          rhs_s \<leftarrow> version_key renames rhs;
          Some (if version_str_less lhs_s rhs_s then 1 else - 1) })"

subsection \<open>The block of bytes\<close>

text \<open>A write is within the bytes that were allocated.\<close>

record outbuf_t =
  ob_bytes :: mem
  ob_size :: u32
  ob_capacity :: u32

definition outbuf_empty :: outbuf_t where
  "outbuf_empty = \<lparr>ob_bytes = Map.empty, ob_size = 0, ob_capacity = 0\<rparr>"

definition outbuf_emplace :: "u32 \<Rightarrow> outbuf_t \<Rightarrow> (outbuf_t \<times> u32) option" where
  "outbuf_emplace n ob =
    (let result = ob_size ob; new_size = result + n; ob = ob\<lparr>ob_size := new_size\<rparr>
     in if new_size > ob_capacity ob then
          (let new_capacity = ob_capacity ob + (if n \<ge> ob_capacity ob then n else ob_capacity ob)
           in if new_capacity < ob_capacity ob then None
              else Some (ob\<lparr>ob_bytes := mem_write (ob_bytes ob) (unat (ob_capacity ob))
                  (replicate (unat new_capacity - unat (ob_capacity ob)) 0), ob_capacity := new_capacity\<rparr>, result))
        else Some (ob, result))"

definition outbuf_put :: "nat \<Rightarrow> u8 list \<Rightarrow> outbuf_t \<Rightarrow> outbuf_t option" where
  "outbuf_put at bs ob =
    (if at + length bs \<le> unat (ob_capacity ob) then Some (ob\<lparr>ob_bytes := mem_write (ob_bytes ob) at bs\<rparr>) else None)"

text \<open>\<open>memcpy(outbuf_emplace_p(&outbuf, n), ...)\<close>\<close>

definition outbuf_append :: "u32 \<Rightarrow> u8 list \<Rightarrow> outbuf_t \<Rightarrow> outbuf_t option" where
  "outbuf_append n bs ob = do {
     (ob, at) \<leftarrow> outbuf_emplace n ob;
     outbuf_put (unat at) bs ob }"

text \<open>The bytes that are copied for a part of the text whose length is cut to a byte.\<close>

definition copied :: "tokeniser \<Rightarrow> lstr \<Rightarrow> (u8 \<times> u8 list) option" where
  "copied toks l = do {
     bs \<leftarrow> lstr_bytes toks l;
     let len = (ucast (ls_len l) :: u8);
     Some (len, take (unat len) bs) }"

definition put_new_lib :: "tokeniser \<Rightarrow> parsed_name_t \<Rightarrow> nat \<Rightarrow> outbuf_t \<Rightarrow> outbuf_t option" where
  "put_new_lib toks new_name value_offset ob =
    (if ls_chars (pn_lib new_name) = None then Some ob
     else do {
       (len, bs) \<leftarrow> copied toks (pn_lib new_name);
       if len = 8 \<and> bs = bytes_of ''polyfill'' then outbuf_put (value_offset + 1) [0xff] ob
       else do {
         ob \<leftarrow> outbuf_put (value_offset + 1) [len + 1] ob;
         outbuf_append (ucast len + 1) bs ob } })"

definition put_new_name :: "tokeniser \<Rightarrow> bstr \<Rightarrow> parsed_name_t \<Rightarrow> nat \<Rightarrow> outbuf_t \<Rightarrow> outbuf_t option" where
  "put_new_name toks key new_name value_offset ob = do {
     same \<leftarrow> (if unat (ls_len (pn_name new_name)) \<noteq> length key then Some False
       else map_option ((=) key) (lstr_bytes toks (pn_name new_name)));
     if same then Some ob
     else do {
       (len, bs) \<leftarrow> copied toks (pn_name new_name);
       ob \<leftarrow> outbuf_put value_offset [len + 1] ob;
       outbuf_append (ucast len + 1) bs ob } }"

definition put_new_version :: "tokeniser \<Rightarrow> parsed_name_t \<Rightarrow> nat \<Rightarrow> outbuf_t \<Rightarrow> outbuf_t option" where
  "put_new_version toks new_name value_offset ob =
    (if ls_chars (pn_version new_name) = None then Some ob
     else do {
       (len, bs) \<leftarrow> copied toks (pn_version new_name);
       ob \<leftarrow> outbuf_put (value_offset + 3) [len + 1] ob;
       outbuf_append (ucast len + 1) bs ob })"

definition put_name :: "tokeniser \<Rightarrow> inner_table \<Rightarrow> u32 \<Rightarrow> nat \<Rightarrow> outbuf_t \<Rightarrow> outbuf_t option" where
  "put_name toks inner inner_offset j ob = do {
     slot \<leftarrow> rd (s_table (in_sht inner)) j;
     if slot = 0 then Some ob
     else do {
       let p = 4 * unat (slot_hi slot);
       let new_name = in_value inner p;
       key \<leftarrow> sht_p_key (in_sht inner) p;
       let key_len = (of_nat (length key) :: u32);
       (ob, _) \<leftarrow> outbuf_emplace key_len ob;
       (ob, value_offset) \<leftarrow> outbuf_emplace 4 ob;
       ob \<leftarrow> outbuf_put (unat value_offset + 2) [ucast key_len] ob;
       ob \<leftarrow> outbuf_put (unat (value_offset - key_len)) key ob;
       ob \<leftarrow> outbuf_put (unat inner_offset + 8 * j)
         (word_bytes (ucast (slot_lo slot) + push_bit 32 (ucast (value_offset - inner_offset)) :: u64)) ob;
       ob \<leftarrow> put_new_lib toks new_name (unat value_offset) ob;
       ob \<leftarrow> put_new_name toks key new_name (unat value_offset) ob;
       put_new_version toks new_name (unat value_offset) ob } }"

definition put_version :: "rename_lines \<Rightarrow> u64 \<Rightarrow> outbuf_t \<Rightarrow> outbuf_t option" where
  "put_version rl sv ob = do {
     let p = 4 * unat (slot_lo sv);
     inner \<leftarrow> rl_inner rl p;
     key \<leftarrow> sht_p_key (rl_renames rl) p;
     let ver_name_len = (of_nat (length key) :: u32);
     (ob, _) \<leftarrow> outbuf_emplace (ver_name_len + 1) ob;
     (ob, _) \<leftarrow> (if ob_size ob AND 7 \<noteq> 0 then outbuf_emplace (8 - (ob_size ob AND 7)) ob else Some (ob, 0));
     let msk = s_mask (in_sht inner);
     (ob, inner_offset) \<leftarrow> outbuf_emplace (8 + (msk + 1) * 8) ob;
     slot \<leftarrow> rd (s_table (rl_renames rl)) (unat (slot_hi sv));
     ob \<leftarrow> outbuf_put (8 * unat (slot_hi sv)) (word_bytes (ucast (slot_lo slot) + push_bit 32 (ucast inner_offset) :: u64)) ob;
     ob \<leftarrow> outbuf_put (unat inner_offset) (word_bytes ver_name_len) ob;
     ob \<leftarrow> outbuf_put (unat inner_offset + 4) (word_bytes msk) ob;
     ob \<leftarrow> outbuf_put (unat (inner_offset - ver_name_len - 1)) key ob;
     each (put_name (rl_toks rl) inner (inner_offset + 8)) [0..<unat msk + 1] ob }"

definition build_table :: "((u64 \<Rightarrow> u64 \<Rightarrow> int option) \<Rightarrow> u64 list \<Rightarrow> u64 list option) \<Rightarrow> rename_lines \<Rightarrow> outbuf_t option" where
  "build_table qsort_r rl = do {
     vers \<leftarrow> sorted_vers_of (rl_renames rl);
     sorted_vers \<leftarrow> qsort_r (compare_ver_u (rl_renames rl)) vers;
     (ob, _) \<leftarrow> outbuf_emplace ((s_mask (rl_renames rl) + 1) * 8) outbuf_empty;
     each (put_version rl) sorted_vers ob }"

subsection \<open>The text that is written\<close>

fun hex_text :: "nat \<Rightarrow> string" where
  "hex_text n = (if n < 16 then [''0123456789abcdef'' ! n] else hex_text (n div 16) @ [''0123456789abcdef'' ! (n mod 16)])"

declare hex_text.simps [simp del]

definition var_name_of :: "string \<Rightarrow> string" where
  "var_name_of path = map (\<lambda>c. if is_alpha c \<and> c \<noteq> CHR ''_'' \<or> is_digit c then c else CHR ''_'') path"

definition byte_text :: "u8 \<Rightarrow> string" where
  "byte_text c =
    (if 0x20 \<le> c \<and> c \<le> 0x7e \<and> c \<noteq> 0x5c \<and> c \<noteq> 0x27 then [CHR 0x27, char_of (unat c), CHR 0x27, CHR '','', CHR '' '']
     else ''0x'' @ [''0123456789abcdef'' ! (unat c div 16), ''0123456789abcdef'' ! (unat c mod 16)] @ '', '')"

definition bytes_text :: "u8 list \<Rightarrow> string" where
  "bytes_text bs = concat (map (\<lambda>i. (if i \<noteq> 0 \<and> i mod 128 = 0 then [NL] else []) @ byte_text (bs ! i)) [0..<length bs])"

definition table_text :: "string \<Rightarrow> u32 \<Rightarrow> u8 list \<Rightarrow> string" where
  "table_text var_name msk bs =
    ''#define '' @ var_name @ ''_mask 0x'' @ hex_text (unat msk) @ [NL] @
    ''static const uint8_t '' @ var_name @ ''_data[] __attribute__ ((aligned(8))) = {'' @ [NL] @
    bytes_text bs @ ''0};'' @ [NL]"

text \<open>
  The whole program: the text of the file that it is given, and the text that it writes. The
  tables are those that the compiler makes of that text.
\<close>

definition table_block :: "((u64 \<Rightarrow> u64 \<Rightarrow> int option) \<Rightarrow> u64 list \<Rightarrow> u64 list option) \<Rightarrow> rename_lines \<Rightarrow> blob option" where
  "table_block qsort_r rl = do {
     ob \<leftarrow> build_table qsort_r rl;
     bs \<leftarrow> mem_read (ob_bytes ob) 0 (unat (ob_size ob));
     Some \<lparr>bl_data = (\<lambda>a. rd (bs @ [0]) a), bl_mask = s_mask (rl_renames rl)\<rparr> }"

definition parse_renames :: "((u64 \<Rightarrow> u64 \<Rightarrow> int option) \<Rightarrow> u64 list \<Rightarrow> u64 list option) \<Rightarrow> tokeniser \<Rightarrow>
    (parse_failure + blob) option" where
  "parse_renames qsort_r toks = do {
     toks \<leftarrow> tokeniser_run toks;
     r \<leftarrow> parse_lines \<lparr>rl_toks = toks, rl_renames = renames_init, rl_inner = Map.empty\<rparr> 0;
     case r of Inl e \<Rightarrow> Some (Inl e)
     | Inr rl \<Rightarrow> map_option Inr (table_block qsort_r rl) }"

definition parse_renames_text :: "((u64 \<Rightarrow> u64 \<Rightarrow> int option) \<Rightarrow> u64 list \<Rightarrow> u64 list option) \<Rightarrow> string \<Rightarrow> rename_lines \<Rightarrow> string option" where
  "parse_renames_text qsort_r path rl = do {
     ob \<leftarrow> build_table qsort_r rl;
     bs \<leftarrow> mem_read (ob_bytes ob) 0 (unat (ob_size ob));
     Some (table_text (var_name_of path) (s_mask (rl_renames rl)) bs) }"

end
