(* ===== verification/RenameTable.thy ===== *)
theory RenameTable
  imports ParseRenames
begin

section \<open>What parse\_renames writes, the renamer reads\<close>

text \<open>
  The output buffer as a list of bytes: what each write of the program does to that list, and what
  the reader of the renamer gives for the bytes of an entry.
\<close>

subsection \<open>The output as a list of bytes\<close>

definition ob_is :: "outbuf_t \<Rightarrow> u8 list \<Rightarrow> bool" where
  "ob_is ob xs \<longleftrightarrow> length xs = unat (ob_size ob) \<and> ob_size ob \<le> ob_capacity ob \<and> holds (ob_bytes ob) 0 xs \<and>
     (\<forall>a. length xs \<le> a \<and> a < unat (ob_capacity ob) \<longrightarrow> ob_bytes ob a = Some 0)"

definition runs :: "(outbuf_t \<Rightarrow> outbuf_t option) \<Rightarrow> u8 list \<Rightarrow> u8 list \<Rightarrow> bool" where
  "runs g xs ys \<longleftrightarrow> (\<forall>ob. ob_is ob xs \<longrightarrow> (\<exists>ob'. g ob = Some ob' \<and> ob_is ob' ys))"

definition put_list :: "nat \<Rightarrow> 'a list \<Rightarrow> 'a list \<Rightarrow> 'a list" where
  "put_list at bs xs = take at xs @ bs @ drop (at + length bs) xs"

lemma length_put_list [simp]: "at + length bs \<le> length xs \<Longrightarrow> length (put_list at bs xs) = length xs"
  by (simp add: put_list_def)

lemma holds_nth: "holds m 0 xs \<longleftrightarrow> (\<forall>i < length xs. m i = Some (xs ! i))"
  by (simp add: holds_def)

lemma put_list_nth:
  "at + length bs \<le> length xs \<Longrightarrow> i < length xs \<Longrightarrow>
    put_list at bs xs ! i = (if at \<le> i \<and> i < at + length bs then bs ! (i - at) else xs ! i)"
  by (auto simp: put_list_def nth_append)

lemma runs_put:
  assumes "at + length bs \<le> length xs"
  shows "runs (outbuf_put at bs) xs (put_list at bs xs)"
  unfolding runs_def
proof (intro allI impI)
  fix ob assume ob: "ob_is ob xs"
  then have cap: "length xs \<le> unat (ob_capacity ob)" by (simp add: ob_is_def word_le_nat_alt)
  let ?ob = "ob\<lparr>ob_bytes := mem_write (ob_bytes ob) at bs\<rparr>"
  have "outbuf_put at bs ob = Some ?ob" using cap assms by (simp add: outbuf_put_def)
  moreover have "ob_is ?ob (put_list at bs xs)"
    using ob assms by (auto simp: ob_is_def holds_nth mem_write_apply put_list_nth)
  ultimately show "\<exists>ob'. outbuf_put at bs ob = Some ob' \<and> ob_is ob' (put_list at bs xs)" by blast
qed

lemma emplace_list:
  assumes ob: "ob_is ob xs" and room: "length xs + unat n < 2 ^ 31"
  shows "\<exists>ob'. outbuf_emplace n ob = Some (ob', of_nat (length xs)) \<and> ob_is ob' (xs @ replicate (unat n) 0)"
proof -
  let ?new = "ob_size ob + n" and ?cap = "ob_capacity ob"
  have sz: "unat (ob_size ob) = length xs" using ob by (simp add: ob_is_def)
  have new: "unat ?new = length xs + unat n" using room sz by (simp add: unat_word_ariths)
  have at: "ob_size ob = of_nat (length xs)" using sz [symmetric] by simp
  have zero: "holds (ob_bytes ob) 0 xs" "\<And>a. length xs \<le> a \<Longrightarrow> a < unat ?cap \<Longrightarrow> ob_bytes ob a = Some 0" "length xs \<le> unat ?cap"
    using ob by (simp_all add: ob_is_def word_le_nat_alt)
  show ?thesis
  proof (cases "?new > ?cap")
    case False
    let ?ob = "ob\<lparr>ob_size := ?new\<rparr>"
    have "outbuf_emplace n ob = Some (?ob, ob_size ob)" using False by (simp add: outbuf_emplace_def Let_def)
    moreover have "ob_is ?ob (xs @ replicate (unat n) 0)"
      using False zero new by (auto simp: ob_is_def holds_nth nth_append word_le_nat_alt not_less)
    ultimately show ?thesis using at by auto
  next
    case True
    define cap where "cap = ?cap + (if n \<ge> ?cap then n else ?cap)"
    have "unat ?cap < 2 ^ 31" using True new room by (simp add: word_less_nat_alt)
    then have cap: "unat cap = unat ?cap + max (unat n) (unat ?cap)"
      using room by (auto simp: cap_def unat_word_ariths word_le_nat_alt max_def)
    then have cap_le: "\<not> cap < ?cap" by (simp add: word_less_nat_alt)
    let ?ob = "ob\<lparr>ob_size := ?new, ob_bytes := mem_write (ob_bytes ob) (unat ?cap) (replicate (unat cap - unat ?cap) 0), ob_capacity := cap\<rparr>"
    have "outbuf_emplace n ob = Some (?ob, ob_size ob)"
      using True cap_le unfolding cap_def by (simp add: outbuf_emplace_def Let_def split del: if_split cong: if_cong)
    moreover have "ob_is ?ob (xs @ replicate (unat n) 0)"
      using zero new cap by (auto simp: ob_is_def holds_nth mem_write_apply nth_append word_le_nat_alt max_def)
    ultimately show ?thesis using at by auto
  qed
qed

lemma runs_bind: "runs g xs ys \<Longrightarrow> runs h ys zs \<Longrightarrow> runs (\<lambda>ob. Option.bind (g ob) h) xs zs"
  unfolding runs_def by fastforce

lemma runs_emplace:
  assumes "length xs + unat n < 2 ^ 31" and "runs (h (of_nat (length xs))) (xs @ replicate (unat n) 0) zs"
  shows "runs (\<lambda>ob. Option.bind (outbuf_emplace n ob) (\<lambda>(ob, at). h at ob)) xs zs"
  unfolding runs_def
proof (intro allI impI)
  fix ob assume "ob_is ob xs"
  then obtain ob' where "outbuf_emplace n ob = Some (ob', of_nat (length xs))" "ob_is ob' (xs @ replicate (unat n) 0)"
    using emplace_list [OF _ assms(1)] by blast
  then show "\<exists>ob'. Option.bind (outbuf_emplace n ob) (\<lambda>(ob, at). h at ob) = Some ob' \<and> ob_is ob' zs"
    using assms(2) by (simp add: runs_def)
qed

lemma runs_some: "runs Some xs xs"
  by (simp add: runs_def)

lemma put_list_end: "length bs \<le> n \<Longrightarrow> put_list (length xs) bs (xs @ replicate n 0) = xs @ bs @ replicate (n - length bs) 0"
  by (simp add: put_list_def)

lemma runs_append:
  assumes "length xs + unat n < 2 ^ 31" and "length bs \<le> unat n"
  shows "runs (outbuf_append n bs) xs (xs @ bs @ replicate (unat n - length bs) 0)"
proof -
  have "unat (of_nat (length xs) :: u32) = length xs" using assms(1) by (simp add: unat_of_nat)
  then have "runs (outbuf_put (unat (of_nat (length xs) :: u32)) bs) (xs @ replicate (unat n) 0) (xs @ bs @ replicate (unat n - length bs) 0)"
    using runs_put [of "length xs" bs "xs @ replicate (unat n) 0"] assms by (simp add: put_list_end)
  then show ?thesis using runs_emplace [OF assms(1)] unfolding outbuf_append_def by fast
qed

subsection \<open>Entries\<close>

text \<open>What a name stands for: library, name and version.\<close>

type_synonym target_name = "bstr option \<times> bstr \<times> bstr option"

definition names_part :: "tokeniser \<Rightarrow> lstr \<Rightarrow> bstr option \<Rightarrow> bool" where
  "names_part toks l str = (case str of None \<Rightarrow> ls_chars l = None
     | Some s \<Rightarrow> ls_chars l \<noteq> None \<and> lstr_bytes toks l = Some s \<and> unat (ls_len l) = length s)"

definition names :: "tokeniser \<Rightarrow> parsed_name_t \<Rightarrow> target_name \<Rightarrow> bool" where
  "names toks nn target = (case target of (lib, name, version) \<Rightarrow>
     names_part toks (pn_lib nn) lib \<and> names_part toks (pn_name nn) (Some name) \<and> names_part toks (pn_version nn) version)"

text \<open>A string that the table can hold: without zero bytes and short enough that its length fits into a byte.\<close>

definition short_str :: "nat \<Rightarrow> bstr \<Rightarrow> bool" where
  "short_str n s \<longleftrightarrow> 0 \<notin> set s \<and> length s \<le> n"

definition short_target :: "target_name \<Rightarrow> bool" where
  "short_target target = (case target of (lib, name, version) \<Rightarrow>
     pred_option (short_str 253) lib \<and> short_str 254 name \<and> pred_option (short_str 254) version)"

definition part_len :: "bstr option \<Rightarrow> u8" where
  "part_len str = (case str of None \<Rightarrow> 0 | Some s \<Rightarrow> of_nat (length s) + 1)"

definition part_bytes :: "bstr option \<Rightarrow> u8 list" where
  "part_bytes str = (case str of None \<Rightarrow> [] | Some s \<Rightarrow> s @ [0])"

abbreviation polyfill_lib :: bstr where
  "polyfill_lib \<equiv> bytes_of ''polyfill''"

definition lib_part :: "bstr option \<Rightarrow> bstr option" where
  "lib_part lib = (if lib = Some polyfill_lib then None else lib)"

definition name_part :: "bstr \<Rightarrow> bstr \<Rightarrow> bstr option" where
  "name_part key name = (if name = key then None else Some name)"

definition entry_bytes :: "bstr \<Rightarrow> target_name \<Rightarrow> u8 list" where
  "entry_bytes key target = (case target of (lib, name, version) \<Rightarrow>
     [part_len (name_part key name), if lib = Some polyfill_lib then 0xff else part_len lib, of_nat (length key), part_len version] @
     part_bytes (lib_part lib) @ part_bytes (name_part key name) @ part_bytes version)"

lemma unat_part_len: "short_str n s \<Longrightarrow> n \<le> 254 \<Longrightarrow> unat (part_len (Some s)) = length s + 1"
  by (simp add: part_len_def short_str_def unat_word_ariths unat_of_nat)

lemma cstr_at_part: "holds m p (part_bytes (Some s)) \<Longrightarrow> short_str n s \<Longrightarrow> cstr_at m p = Some s"
  by (rule cstr_at_holds) (simp_all add: part_bytes_def short_str_def)

lemma part_len_nz: "short_str n s \<Longrightarrow> n \<le> 254 \<Longrightarrow> part_len (Some s) \<noteq> 0"
  using unat_part_len [of n s] by auto

lemma read_rename_entry:
  assumes m: "holds m p (entry_bytes key (lib, name, version))" and t: "short_target (lib, name, version)"
  shows "read_rename m p \<lparr>rs_lib = lib0, rs_name = key, rs_version = version0\<rparr> =
    Some \<lparr>rs_lib = (case lib of None \<Rightarrow> lib0 | Some l \<Rightarrow> Some l), rs_name = name, rs_version = version\<rparr>"
proof -
  note [simp] = holds_append holds_Cons
  define lb where "lb = (if lib = Some polyfill_lib then 0xff else part_len lib)"
  let ?h = "\<lambda>p str. holds m p (part_bytes str)"
  let ?p1 = "p + 4 + length (part_bytes (lib_part lib))"
  let ?p2 = "?p1 + length (part_bytes (name_part key name))"
  have head: "m p = Some (part_len (name_part key name))" "m (p + 1) = Some lb"
      "m (p + 3) = Some (part_len version)"
    and parts: "?h (p + 4) (lib_part lib)" "?h ?p1 (name_part key name)" "?h ?p2 version"
    using m by (simp_all add: entry_bytes_def lb_def add.assoc eval_nat_numeral)
  have lib: "(if lb = 0 then Some (lib0, p + 4)
       else if lb = 0xff then Some (Some polyfill_lib, p + 4)
       else map_option (\<lambda>str. (Some str, p + 4 + unat lb)) (cstr_at m (p + 4))) =
      Some ((case lib of None \<Rightarrow> lib0 | Some l \<Rightarrow> Some l), ?p1)"
  proof (cases lib)
    case (Some l)
    then have l: "short_str 253 l" using t by (simp add: short_target_def)
    then have "part_len (Some l) \<noteq> 0xff"
      using unat_part_len [of 253 l] by (auto simp: short_str_def)
    then show ?thesis
      using Some parts(1) part_len_nz [OF l] unat_part_len [OF l] cstr_at_part [OF _ l]
      by (auto simp: lb_def lib_part_def part_bytes_def)
  next
    case None
    then show ?thesis by (simp add: lb_def part_len_def lib_part_def part_bytes_def)
  qed
  have name: "(if part_len (name_part key name) = 0 then Some (key, ?p1)
       else map_option (\<lambda>str. (str, ?p1 + unat (part_len (name_part key name)))) (cstr_at m ?p1)) = Some (name, ?p2)"
  proof (cases "name = key")
    case False
    then have n: "name_part key name = Some name" "short_str 254 name" using t by (simp_all add: name_part_def short_target_def)
    show ?thesis
      using n(1) part_len_nz [OF n(2)] unat_part_len [OF n(2)] cstr_at_part [OF _ n(2), of m ?p1] parts(2)
      by (simp add: part_bytes_def)
  qed (simp add: name_part_def part_len_def part_bytes_def)
  have ver: "(if part_len version = 0 then Some None else map_option Some (cstr_at m ?p2)) = Some version"
  proof (cases version)
    case (Some v)
    then have v: "short_str 254 v" using t by (simp add: short_target_def)
    show ?thesis using part_len_nz [OF v] cstr_at_part [OF _ v, of m ?p2] parts(3) by (simp add: Some)
  qed (simp add: part_len_def)
  show ?thesis
    using lib name ver head unfolding read_rename_def by (simp cong: if_cong)
qed

subsection \<open>Writing an entry\<close>

lemma unat_eq_of_nat: "unat w = n \<Longrightarrow> w = of_nat n"
  by (erule subst) simp

lemma copied_part:
  assumes "names_part toks l (Some s)" and "short_str n s" and "n \<le> 254"
  shows "copied toks l = Some (of_nat (length s), s)"
proof -
  have "ls_len l = of_nat (length s)" using assms(1) by (intro unat_eq_of_nat) (simp add: names_part_def)
  moreover have "unat (of_nat (length s) :: u8) = length s" using assms(2,3) by (simp add: short_str_def unat_of_nat)
  moreover have "(ucast (of_nat (length s) :: u32) :: u8) = of_nat (length s)"
    using assms(2,3) by (intro unat_eq_of_nat) (simp add: short_str_def unsigned_ucast_eq unat_of_nat take_bit_nat_eq_self)
  ultimately show ?thesis using assms(1) by (simp add: copied_def names_part_def)
qed

lemma put_list_here: "length pre = p \<Longrightarrow> k < length ys \<Longrightarrow> put_list (p + k) [b] (pre @ ys @ post) = pre @ ys[k := b] @ post"
  by (simp add: put_list_def upd_conv_take_nth_drop)

lemma runs_part:
  assumes p: "length pre = p" "k < 4" and s: "short_str n s" "n \<le> 254" and room: "length (pre @ ys @ post) + 300 < 2 ^ 31" "length ys = 4"
  shows "runs (\<lambda>ob. Option.bind (outbuf_put (p + k) [of_nat (length s) + 1] ob) (outbuf_append (ucast (of_nat (length s) :: u8) + 1) s))
    (pre @ ys @ post) (pre @ ys[k := part_len (Some s)] @ post @ part_bytes (Some s))"
proof (rule runs_bind)
  let ?n = "ucast (of_nat (length s) :: u8) + 1 :: u32"
  have n: "unat ?n = length s + 1"
    using s by (simp add: short_str_def unat_word_ariths unat_of_nat unsigned_ucast_eq take_bit_nat_eq_self)
  show "runs (outbuf_put (p + k) [of_nat (length s) + 1]) (pre @ ys @ post) (pre @ ys[k := part_len (Some s)] @ post)"
    using runs_put [of "p + k" "[of_nat (length s) + 1]" "pre @ ys @ post"] put_list_here [OF p(1), of k ys] p room
    by (simp add: part_len_def)
  show "runs (outbuf_append ?n s) (pre @ ys[k := part_len (Some s)] @ post)
     (pre @ ys[k := part_len (Some s)] @ post @ part_bytes (Some s))"
    using runs_append [of "pre @ ys[k := part_len (Some s)] @ post" ?n s] n room s by (simp add: part_bytes_def short_str_def)
qed

lemma names_part_null: "names_part toks l str \<Longrightarrow> ls_chars l = None \<longleftrightarrow> str = None"
  by (auto simp: names_part_def split: option.splits)

definition lib_byte :: "bstr option \<Rightarrow> u8" where
  "lib_byte lib = (if lib = Some polyfill_lib then 0xff else part_len lib)"

lemma runs_put_new_lib:
  assumes l: "names_part toks (pn_lib nn) lib" "pred_option (short_str 253) lib"
    and p: "length pre = p" and room: "length (pre @ ys @ post) + 300 < 2 ^ 31" "length ys = 4" "ys ! 1 = 0"
  shows "runs (put_new_lib toks nn p) (pre @ ys @ post) (pre @ ys[1 := lib_byte lib] @ post @ part_bytes (lib_part lib))"
proof (cases lib)
  case None
  have same: "ys[1 := 0] = ys" using room by (metis list_update_id)
  have "put_new_lib toks nn p = Some"
    using None names_part_null [OF l(1)] by (simp add: fun_eq_iff put_new_lib_def)
  then show ?thesis
    using None same by (simp add: runs_some lib_byte_def lib_part_def part_len_def part_bytes_def)
next
  case (Some s)
  then have s: "short_str 253 s" "names_part toks (pn_lib nn) (Some s)" using l by simp_all
  note c = copied_part [OF s(2,1)]
  show ?thesis
  proof (cases "s = polyfill_lib")
    case True
    have "length polyfill_lib = 8" by (simp add: bytes_of_def)
    then have "put_new_lib toks nn p = outbuf_put (p + 1) [0xff]"
      using True names_part_null [OF s(2)] c by (auto simp: fun_eq_iff put_new_lib_def)
    then show ?thesis
      using runs_put [of "p + 1" "[0xff]" "pre @ ys @ post"] put_list_here [OF p, of 1 ys "0xff" post] p room True
      by (simp add: Some lib_byte_def lib_part_def part_bytes_def)
  next
    case False
    have "put_new_lib toks nn p = (\<lambda>ob. Option.bind (outbuf_put (p + 1) [of_nat (length s) + 1] ob) (outbuf_append (ucast (of_nat (length s) :: u8) + 1) s))"
      using False names_part_null [OF s(2)] c by (auto simp: fun_eq_iff put_new_lib_def)
    then show ?thesis using runs_part [OF p _ s(1) _ room(1,2), of 1] False by (simp add: Some lib_byte_def lib_part_def)
  qed
qed

lemma runs_put_new_name:
  assumes l: "names_part toks (pn_name nn) (Some name)" "short_str 254 name"
    and p: "length pre = p" and room: "length (pre @ ys @ post) + 300 < 2 ^ 31" "length ys = 4" "ys ! 0 = 0"
  shows "runs (put_new_name toks key nn p) (pre @ ys @ post)
    (pre @ ys[0 := part_len (name_part key name)] @ post @ part_bytes (name_part key name))"
proof -
  note c = copied_part [OF l]
  have lb: "lstr_bytes toks (pn_name nn) = Some name" "unat (ls_len (pn_name nn)) = length name" using l(1) by (simp_all add: names_part_def)
  show ?thesis
  proof (cases "name = key")
    case True
    have same: "ys[0 := 0] = ys" using room by (metis list_update_id)
    have "put_new_name toks key nn p = Some" using True lb by (simp add: fun_eq_iff put_new_name_def)
    then show ?thesis using True same by (simp add: runs_some name_part_def part_len_def part_bytes_def)
  next
    case False
    have "put_new_name toks key nn p = (\<lambda>ob. Option.bind (outbuf_put (p + 0) [of_nat (length name) + 1] ob) (outbuf_append (ucast (of_nat (length name) :: u8) + 1) name))"
      using False lb c by (auto simp: fun_eq_iff put_new_name_def)
    then show ?thesis using runs_part [OF p _ l(2) _ room(1,2), of 0] False by (simp add: name_part_def)
  qed
qed

lemma runs_put_new_version:
  assumes l: "names_part toks (pn_version nn) version" "pred_option (short_str 254) version"
    and p: "length pre = p" and room: "length (pre @ ys @ post) + 300 < 2 ^ 31" "length ys = 4" "ys ! 3 = 0"
  shows "runs (put_new_version toks nn p) (pre @ ys @ post) (pre @ ys[3 := part_len version] @ post @ part_bytes version)"
proof (cases version)
  case None
  have same: "ys[3 := 0] = ys" using room by (metis list_update_id)
  have "put_new_version toks nn p = Some"
    using None names_part_null [OF l(1)] by (simp add: fun_eq_iff put_new_version_def)
  then show ?thesis using None same by (simp add: runs_some part_len_def part_bytes_def)
next
  case (Some s)
  then have s: "short_str 254 s" "names_part toks (pn_version nn) (Some s)" using l by simp_all
  have "put_new_version toks nn p = (\<lambda>ob. Option.bind (outbuf_put (p + 3) [of_nat (length s) + 1] ob) (outbuf_append (ucast (of_nat (length s) :: u8) + 1) s))"
    using names_part_null [OF s(2)] copied_part [OF s(2,1)] by (auto simp: fun_eq_iff put_new_version_def)
  then show ?thesis using runs_part [OF p _ s(1) _ room(1,2), of 3] by (simp add: Some)
qed

subsection \<open>A slot and its entry\<close>

lemma slot_sum: "ucast lo + push_bit 32 (ucast hi) = mk_slot lo hi"
  unfolding mk_slot_def
proof (rule disjunctive_add_eq_or, rule bit_word_eqI)
  fix n
  show "bit (ucast lo AND push_bit 32 (ucast hi) :: u64) n = bit 0 n"
    using bit_imp_le_length [of lo n] by (auto simp: bit_simps)
qed

lemma unat_small: "n < 2 ^ 32 \<Longrightarrow> unat (of_nat n :: u32) = n"
  by (simp add: unat_of_nat)

lemma unat_small_diff: "m + n < 2 ^ 32 \<Longrightarrow> unat (of_nat (m + n) - of_nat n :: u32) = m"
  by (simp add: unat_of_nat)

lemma put_list_append: "at + length bs \<le> length xs \<Longrightarrow> put_list at bs (xs @ ys) = put_list at bs xs @ ys"
  by (simp add: put_list_def)

lemma put_list_new: "length bs = n \<Longrightarrow> length xs = at \<Longrightarrow> put_list at bs (xs @ replicate n 0 @ ys) = xs @ bs @ ys"
  by (simp add: put_list_def)

lemma entry_bytes_alt:
  "entry_bytes key (lib, name, version) =
    [part_len (name_part key name), lib_byte lib, of_nat (length key), part_len version] @
    part_bytes (lib_part lib) @ part_bytes (name_part key name) @ part_bytes version"
  by (simp add: entry_bytes_def lib_byte_def)

lemma part_bytes_short: "pred_option (short_str n) str \<Longrightarrow> length (part_bytes str) \<le> n + 1"
  by (cases str) (simp_all add: part_bytes_def short_str_def)

lemma entry_parts_short:
  assumes "short_target (lib, name, version)"
  shows "length (part_bytes (lib_part lib)) \<le> 255" "length (part_bytes (name_part key name)) \<le> 255" "length (part_bytes version) \<le> 255"
proof -
  have t: "pred_option (short_str 253) lib" "short_str 254 name" "pred_option (short_str 254) version"
    using assms by (simp_all add: short_target_def)
  have "pred_option (short_str 253) (lib_part lib)" using t(1) by (simp add: lib_part_def)
  then show "length (part_bytes (lib_part lib)) \<le> 255" using part_bytes_short [of 253 "lib_part lib"] by linarith
  have "pred_option (short_str 254) (name_part key name)" using t(2) by (simp add: name_part_def)
  then show "length (part_bytes (name_part key name)) \<le> 255" using part_bytes_short [of 254 "name_part key name"] by linarith
  show "length (part_bytes version) \<le> 255" using t(3) part_bytes_short [of 254 version] by linarith
qed

lemma runs_put_name:
  assumes slot: "rd (s_table (in_sht inner)) j = Some slot" "slot \<noteq> 0"
    and key: "sht_p_key (in_sht inner) (4 * unat (slot_hi slot)) = Some key" "length key \<le> 255"
    and target: "names toks (in_value inner (4 * unat (slot_hi slot))) target" "short_target target"
    and at: "unat io + 8 * j + 8 \<le> length xs" and room: "length xs + 2000 < 2 ^ 31"
  shows "runs (put_name toks inner io j) xs
    (put_list (unat io + 8 * j) (word_bytes (mk_slot (slot_lo slot) (of_nat (length xs + length key) - io))) xs @ key @ entry_bytes key target)"
proof -
  obtain lib name version where t: "target = (lib, name, version)" by (cases target)
  have tn: "names_part toks (pn_lib nn) lib" "names_part toks (pn_name nn) (Some name)" "names_part toks (pn_version nn) version"
    if "nn = in_value inner (4 * unat (slot_hi slot))" for nn using target(1) that by (simp_all add: names_def t)
  have ts: "pred_option (short_str 253) lib" "short_str 254 name" "pred_option (short_str 254) version"
    using target(2) by (simp_all add: short_target_def t)
  note short = entry_parts_short(1,3) [OF target(2) [unfolded t]] entry_parts_short(2) [OF target(2) [unfolded t], of key]
  let ?k = "length key"
  define kl where "kl = (of_nat (length key) :: u32)"
  define vo where "vo = (of_nat (length xs + length key) :: u32)"
  let ?w = "word_bytes (mk_slot (slot_lo slot) (vo - io))" and ?at = "unat io + 8 * j"
  let ?nn = "in_value inner (4 * unat (slot_hi slot))"
  have kl_nat: "unat kl = ?k" using key(2) unfolding kl_def by (simp add: unat_of_nat)
  have vo_nat: "unat vo = length xs + ?k" using room key(2) unfolding vo_def by (intro unat_small) simp
  have sub: "unat (vo - kl) = length xs"
    using room key(2) unfolding vo_def kl_def by (intro unat_small_diff) simp
  have kb: "(ucast kl :: u8) = of_nat ?k"
    using key(2) unfolding kl_def by (intro unat_eq_of_nat) (simp add: unsigned_ucast_eq unat_of_nat take_bit_nat_eq_self)
  let ?xs = "put_list ?at ?w xs"
  let ?ys = "[0, 0, of_nat ?k, 0] :: u8 list"
  have len: "length ?xs = length xs" using at by simp
  have 1: "runs (outbuf_put (unat vo + 2) [ucast kl]) (xs @ replicate ?k 0 @ replicate 4 0) (xs @ replicate ?k 0 @ ?ys)"
    using runs_put [of "unat vo + 2" "[of_nat ?k]" "xs @ replicate ?k 0 @ replicate 4 0"]
      put_list_here [of "xs @ replicate ?k 0" "unat vo" 2 "replicate 4 0" "of_nat ?k" "[]"]
    by (simp add: vo_nat kb eval_nat_numeral)
  have 2: "runs (outbuf_put (unat (vo - kl)) key) (xs @ replicate ?k 0 @ ?ys) (xs @ key @ ?ys)"
    using runs_put [of "length xs" key "xs @ replicate ?k 0 @ ?ys"] by (simp add: sub put_list_new)
  have 3: "runs (outbuf_put ?at ?w) (xs @ key @ ?ys) ((?xs @ key) @ ?ys @ [])"
    using runs_put [of ?at ?w "xs @ key @ ?ys"] at by (simp add: put_list_append)
  have 4: "runs (put_new_lib toks ?nn (unat vo)) ((?xs @ key) @ ?ys @ [])
      ((?xs @ key) @ ?ys[1 := lib_byte lib] @ [] @ part_bytes (lib_part lib))"
    by (rule runs_put_new_lib [OF tn(1) [OF refl] ts(1)]) (use len vo_nat room key(2) in simp_all)
  have 5: "runs (put_new_name toks key ?nn (unat vo)) ((?xs @ key) @ ?ys[1 := lib_byte lib] @ [] @ part_bytes (lib_part lib))
      ((?xs @ key) @ (?ys[1 := lib_byte lib])[0 := part_len (name_part key name)] @ ([] @ part_bytes (lib_part lib)) @ part_bytes (name_part key name))"
    by (rule runs_put_new_name [OF tn(2) [OF refl] ts(2)]) (use len vo_nat room key(2) short in simp_all)
  have 6: "runs (put_new_version toks ?nn (unat vo))
      ((?xs @ key) @ (?ys[1 := lib_byte lib])[0 := part_len (name_part key name)] @ ([] @ part_bytes (lib_part lib)) @ part_bytes (name_part key name))
      ((?xs @ key) @ ((?ys[1 := lib_byte lib])[0 := part_len (name_part key name)])[3 := part_len version] @
        (([] @ part_bytes (lib_part lib)) @ part_bytes (name_part key name)) @ part_bytes version)"
    by (rule runs_put_new_version [OF tn(3) [OF refl] ts(3)]) (use len vo_nat room key(2) short in simp_all)
  have all_parts: "(?xs @ key) @ ((?ys[1 := lib_byte lib])[0 := part_len (name_part key name)])[3 := part_len version] @
        (([] @ part_bytes (lib_part lib)) @ part_bytes (name_part key name)) @ part_bytes version = ?xs @ key @ entry_bytes key target"
    by (simp add: t entry_bytes_alt eval_nat_numeral)
  define rest where "rest = (\<lambda>vo ob. do {
       ob \<leftarrow> outbuf_put (unat vo + 2) [ucast kl] ob;
       ob \<leftarrow> outbuf_put (unat (vo - kl)) key ob;
       ob \<leftarrow> outbuf_put ?at (word_bytes (mk_slot (slot_lo slot) (vo - io))) ob;
       ob \<leftarrow> put_new_lib toks ?nn (unat vo) ob;
       ob \<leftarrow> put_new_name toks key ?nn (unat vo) ob;
       put_new_version toks ?nn (unat vo) ob })"
  have "put_name toks inner io j = (\<lambda>ob. Option.bind (outbuf_emplace kl ob) (\<lambda>(ob, at). Option.bind (outbuf_emplace 4 ob) (\<lambda>(ob, vo). rest vo ob)))"
    using slot(2) by (simp add: fun_eq_iff put_name_def rest_def slot(1) key(1) slot_sum kl_def Let_def)
  moreover have "runs (rest vo) (xs @ replicate ?k 0 @ replicate 4 0) (?xs @ key @ entry_bytes key target)"
    unfolding rest_def by (rule runs_bind [OF 1 runs_bind [OF 2 runs_bind [OF 3 runs_bind [OF 4 runs_bind [OF 5 6 [unfolded all_parts]]]]]])
  ultimately show ?thesis
    using runs_emplace [of "xs @ replicate ?k 0" 4 rest "?xs @ key @ entry_bytes key target"]
      runs_emplace [of xs kl "\<lambda>at ob. Option.bind (outbuf_emplace 4 ob) (\<lambda>(ob, vo). rest vo ob)" "?xs @ key @ entry_bytes key target"]
      room key(2) by (simp add: kl_nat vo_def add.assoc)
qed

end
