(* ===== verification/RenameLookup.thy ===== *)
theory RenameLookup
  imports RenameTable
begin

section \<open>Every rename that is read can be looked up\<close>

text \<open>
  The block is built without running out of its bytes, every slot of the tables in it points to
  where its entry was written, and probing the block finds what probing the hash tables it was
  copied from would find.
\<close>

subsection \<open>Parts of a list that later writes leave alone\<close>

definition has :: "'a list \<Rightarrow> nat \<Rightarrow> 'a list \<Rightarrow> bool" where
  "has xs a bs \<longleftrightarrow> a + length bs \<le> length xs \<and> (\<forall>i < length bs. xs ! (a + i) = bs ! i)"

definition keeps :: "nat \<Rightarrow> nat \<Rightarrow> 'a list \<Rightarrow> 'a list \<Rightarrow> bool" where
  "keeps lo hi xs ys \<longleftrightarrow> length xs \<le> length ys \<and> (\<forall>i < length xs. i < lo \<or> hi \<le> i \<longrightarrow> ys ! i = xs ! i)"

lemma keeps_refl: "keeps lo hi xs xs"
  by (simp add: keeps_def)

lemma keeps_trans: "keeps lo hi xs ys \<Longrightarrow> keeps lo' hi' ys zs \<Longrightarrow> lo \<le> lo' \<Longrightarrow> hi' \<le> hi \<Longrightarrow> keeps lo hi xs zs"
  by (auto simp: keeps_def)

lemma keeps_mono: "keeps lo' hi' xs ys \<Longrightarrow> lo \<le> lo' \<Longrightarrow> hi' \<le> hi \<Longrightarrow> keeps lo hi xs ys"
  by (auto simp: keeps_def)

lemma has_keeps: "has xs a bs \<Longrightarrow> keeps lo hi xs ys \<Longrightarrow> a + length bs \<le> lo \<or> hi \<le> a \<Longrightarrow> has ys a bs"
  unfolding has_def keeps_def by auto

lemma keeps_append: "keeps lo hi xs (xs @ ys)"
  by (simp add: keeps_def nth_append)

lemma keeps_put: "at + length bs \<le> length xs \<Longrightarrow> lo \<le> at \<Longrightarrow> at + length bs \<le> hi \<Longrightarrow> keeps lo hi xs (put_list at bs xs)"
  by (auto simp: keeps_def put_list_nth)

lemma has_put: "at + length bs \<le> length xs \<Longrightarrow> has (put_list at bs xs) at bs"
  by (auto simp: has_def put_list_nth)

lemma has_here: "has (xs @ bs @ ys) (length xs) bs"
  by (auto simp: has_def nth_append)

lemma has_end: "has (xs @ bs) (length xs) bs"
  using has_here [of xs bs "[]"] by simp

lemma has_part: "has xs a (bs @ cs) \<longleftrightarrow> has xs a bs \<and> has xs (a + length bs) cs"
proof -
  have "(\<forall>i < length bs + length cs. xs ! (a + i) = (bs @ cs) ! i) \<longleftrightarrow>
      (\<forall>i < length bs. xs ! (a + i) = bs ! i) \<and> (\<forall>i < length cs. xs ! (a + length bs + i) = cs ! i)" (is "?l = (?b \<and> ?c)")
  proof
    assume l: ?l
    show "?b \<and> ?c"
    proof (intro conjI allI impI)
      fix i assume "i < length bs"
      then show "xs ! (a + i) = bs ! i" using l [rule_format, of i] by (simp add: nth_append)
    next
      fix i assume "i < length cs"
      then show "xs ! (a + length bs + i) = cs ! i" using l [rule_format, of "length bs + i"] by (simp add: add.assoc)
    qed
  next
    assume r: "?b \<and> ?c"
    show ?l
    proof (intro allI impI)
      fix i assume "i < length bs + length cs"
      then show "xs ! (a + i) = (bs @ cs) ! i"
        using r [THEN conjunct1, rule_format, of i] r [THEN conjunct2, rule_format, of "i - length bs"] by (cases "i < length bs") (auto simp: nth_append)
    qed
  qed
  then show ?thesis by (auto simp: has_def)
qed

lemma holds_has: "holds m 0 xs \<Longrightarrow> has xs a bs \<Longrightarrow> holds m a bs"
  by (simp add: holds_def has_def)

subsection \<open>A probe of the block finds what a probe of the table finds\<close>

lemma blob_probe_from:
  assumes slots: "\<And>i. i < length T \<Longrightarrow> slot_at m table (of_nat i) = Some (if T ! i = 0 then 0 else mk_slot (slot_lo (T ! i)) (f i))"
    and pos: "\<And>i. i < length T \<Longrightarrow> T ! i \<noteq> 0 \<Longrightarrow> f i \<noteq> 0"
    and check: "\<And>i. i < length T \<Longrightarrow> T ! i \<noteq> 0 \<Longrightarrow> slot_lo (T ! i) = k \<Longrightarrow> check (f i) = map_option (\<lambda>same. if same then Found else Other) (eq (T ! i))"
    and ts: "table_size T msk"
  shows "rh_probe eq T msk k d = Some r \<Longrightarrow> unat d \<le> e \<Longrightarrow> e < length T \<Longrightarrow> T ! pos (length T) (unat k) e = 0 \<Longrightarrow>
    blob_probe m table msk check k d = Some (case r of Hit idx slot \<Rightarrow> Some (f (unat idx)) | _ \<Rightarrow> None)"
proof (induction "e - unat d" arbitrary: d rule: less_induct)
  case less
  define idx where "idx = (k + d) AND msk"
  define s where "s = T ! unat idx"
  define d2 where "d2 = (idx - slot_lo s) AND msk"
  have i: "unat idx = pos (length T) (unat k) (unat d)" using idx_word [OF ts] by (simp add: idx_def)
  have n: "0 < length T" "length T \<le> 2 ^ 32" using table_size_bounds [OF ts] by simp_all
  have il: "unat idx < length T" using n unfolding i by (intro pos_less)
  have rh: "rh_probe eq T msk k d =
    (if s = 0 then Some (Empty idx)
     else if slot_lo s = k then
       (case eq s of None \<Rightarrow> None
        | Some same \<Rightarrow> if same then Some (Hit idx s) else rh_probe eq T msk k (d + 1))
     else if d2 < d then Some (Richer idx s d2) else rh_probe eq T msk k (d + 1))"
    using il by (subst rh_probe.simps) (simp add: Let_def idx_def s_def d2_def split: option.split)
  have slot: "slot_at m table idx = Some (if s = 0 then 0 else mk_slot (slot_lo s) (f (unat idx)))"
    using slots [OF il] by (simp add: s_def)
  have blob: "blob_probe m table msk check k d =
    (if s = 0 then Some None
     else Option.bind (if slot_lo s = k then check (f (unat idx)) else Some Other) (\<lambda>r.
       if r = Found then Some (Some (f (unat idx)))
       else if r = Stop then Some None
       else if d2 < d then Some None
       else blob_probe m table msk check k (d + 1)))"
    using slot pos [OF il] by (subst blob_probe.simps) (simp add: Let_def idx_def [symmetric] s_def [symmetric] d2_def cong: if_cong)
  have next_step: "blob_probe m table msk check k (d + 1) = Some (case r of Hit idx slot \<Rightarrow> Some (f (unat idx)) | _ \<Rightarrow> None)"
    if "s \<noteq> 0" "rh_probe eq T msk k (d + 1) = Some r"
  proof -
    have "unat d \<noteq> e" using that(1) less.prems(4) i by (auto simp: s_def)
    then have lt: "unat d < e" using less.prems(2) by simp
    then have u: "unat (d + 1) = Suc (unat d)" using less.prems(3) n by (intro unat_Suc_step) linarith
    show ?thesis using lt u less.prems(3,4) that(2) by (intro less.hyps) auto
  qed
  show ?case
  proof (cases "s = 0")
    case True
    then show ?thesis using less.prems(1) by (auto simp: rh blob)
  next
    case nz: False
    show ?thesis
    proof (cases "slot_lo s = k")
      case True
      have "unat d2 = unat d"
        using True dist_word [OF ts il, of k] less.prems(2,3) dist_pos [of "unat d" "length T" "unat k"] by (simp add: d2_def i)
      then have "\<not> d2 < d" by (simp add: word_less_nat_alt)
      moreover have "check (f (unat idx)) = map_option (\<lambda>same. if same then Found else Other) (eq s)"
        using check [OF il] nz True by (simp add: s_def)
      ultimately show ?thesis
        using less.prems(1) nz True next_step by (cases "eq s") (auto simp: rh blob split: if_splits)
    next
      case False
      then show ?thesis using less.prems(1) nz next_step by (auto simp: rh blob split: if_splits)
    qed
  qed
qed

text \<open>The slots of a block with the offsets \<open>f\<close> in place of the indices of the values.\<close>

definition blob_slots :: "mem \<Rightarrow> nat \<Rightarrow> sht \<Rightarrow> (nat \<Rightarrow> u32) \<Rightarrow> bool" where
  "blob_slots m table s f \<longleftrightarrow> (\<forall>i < length (s_table s).
     slot_at m table (of_nat i) = Some (if s_table s ! i = 0 then 0 else mk_slot (slot_lo (s_table s ! i)) (f i)) \<and>
     (s_table s ! i \<noteq> 0 \<longrightarrow> f i \<noteq> 0))"

lemma blob_probe_sht:
  assumes rep: "sht_rep s ks" and len: "length key < 2 ^ 32" and slots: "blob_slots m table s f"
    and check: "\<And>i k u. i < length (s_table s) \<Longrightarrow> (k, u) \<in> set (sht_layout s ks) \<Longrightarrow> s_table s ! i = entry_slot (k, u) \<Longrightarrow>
      check (f i) = Some (if k = key then Found else Other)"
  shows "if key \<in> set ks then \<exists>i u. i < length (s_table s) \<and> (key, u) \<in> set (sht_layout s ks) \<and> s_table s ! i = entry_slot (key, u) \<and>
      blob_probe m table (s_mask s) check (hash_of key) 0 = Some (Some (f i))
    else blob_probe m table (s_mask s) check (hash_of key) 0 = Some None"
proof -
  let ?T = "s_table s"
  have ts: "table_size ?T (s_mask s)" using rep by (simp add: sht_rep_def)
  obtain r where r: "rh_probe (key_at s key) ?T (s_mask s) (hash_of key) 0 = Some r" "probe_ok (key_at s key) ?T (hash_of key) r"
    using sht_probe_total [OF rep len] by blast
  obtain z where z: "z < length ?T" "?T ! z = 0" using rep_has_empty [OF rep] by (auto simp: in_set_conv_nth)
  have entry: "\<exists>k u. (k, u) \<in> set (sht_layout s ks) \<and> ?T ! i = entry_slot (k, u)" if "i < length ?T" "?T ! i \<noteq> 0" for i
  proof -
    have "?T ! i \<in> set ?T - {0}" using that by simp
    then show ?thesis using rep_slots [OF rep] by auto
  qed
  have "blob_probe m table (s_mask s) check (hash_of key) 0 = Some (case r of Hit idx slot \<Rightarrow> Some (f (unat idx)) | _ \<Rightarrow> None)"
  proof (rule blob_probe_from [OF _ _ _ ts r(1)])
    fix i assume i: "i < length ?T"
    show "slot_at m table (of_nat i) = Some (if ?T ! i = 0 then 0 else mk_slot (slot_lo (?T ! i)) (f i))"
      using slots i by (simp add: blob_slots_def)
    show "f i \<noteq> 0" if "?T ! i \<noteq> 0" using slots i that by (simp add: blob_slots_def)
    show "check (f i) = map_option (\<lambda>same. if same then Found else Other) (key_at s key (?T ! i))" if nz: "?T ! i \<noteq> 0"
    proof -
      obtain k u where ku: "(k, u) \<in> set (sht_layout s ks)" "?T ! i = entry_slot (k, u)" using entry [OF i nz] by blast
      then show ?thesis using check [OF i ku] rep_key_at [OF rep ku(1) len] by simp
    qed
  next
    show "?T ! pos (length ?T) (unat (hash_of key)) (dist (length ?T) z (unat (hash_of key))) = 0" using z pos_dist by simp
    show "dist (length ?T) z (unat (hash_of key)) < length ?T" using z by (intro dist_less) linarith
  qed simp
  moreover have "\<exists>u. (key, u) \<in> set (sht_layout s ks) \<and> ?T ! unat idx = entry_slot (key, u) \<and> unat idx < length ?T"
    if "r = Hit idx slot" for idx slot
  proof -
    have h: "unat idx < length ?T" "?T ! unat idx = slot" "slot \<noteq> 0" "key_at s key slot = Some True" using r(2) that by (simp_all add: probe_ok_def)
    then obtain k u where ku: "(k, u) \<in> set (sht_layout s ks)" "slot = entry_slot (k, u)" using entry [of "unat idx"] by auto
    then show ?thesis using rep_key_at [OF rep ku(1) len] h by auto
  qed
  moreover have "key \<notin> set ks" if "\<nexists>idx slot. r = Hit idx slot"
    using that r(2) sht_absent [OF rep len] by (cases r) (auto simp: probe_ok_def)
  moreover have "key \<in> set ks" if "(key, u) \<in> set (sht_layout s ks)" for u
    using that fst_sht_layout [of s ks] by (metis fst_conv image_eqI)
  ultimately show ?thesis by (cases r) auto
qed

subsection \<open>The table of a version\<close>

definition inner_rep :: "tokeniser \<Rightarrow> inner_table \<Rightarrow> bstr list \<Rightarrow> (bstr \<Rightarrow> target_name) \<Rightarrow> bool" where
  "inner_rep toks inner ks tgt \<longleftrightarrow> sht_rep (in_sht inner) ks \<and>
     (\<forall>(k, u) \<in> set (sht_layout (in_sht inner) ks). names toks (in_value inner (4 * u)) (tgt k)) \<and>
     (\<forall>k \<in> set ks. length k \<le> 255 \<and> short_target (tgt k))"

abbreviation inner_size :: "inner_table \<Rightarrow> nat" where
  "inner_size inner \<equiv> length (s_table (in_sht inner))"

definition name_written :: "inner_table \<Rightarrow> bstr list \<Rightarrow> (bstr \<Rightarrow> target_name) \<Rightarrow> nat \<Rightarrow> u8 list \<Rightarrow> nat \<Rightarrow> bool" where
  "name_written inner ks tgt io ys j \<longleftrightarrow> (\<exists>k u p. s_table (in_sht inner) ! j = entry_slot (k, u) \<and> (k, u) \<in> set (sht_layout (in_sht inner) ks) \<and>
     io + 8 * inner_size inner + length k \<le> p \<and> p < 2 ^ 31 \<and>
     has ys (io + 8 * j) (word_bytes (mk_slot (hash_of k) (of_nat (p - io)))) \<and>
     has ys (p - length k) (k @ entry_bytes k (tgt k)))"

definition name_done :: "inner_table \<Rightarrow> bstr list \<Rightarrow> (bstr \<Rightarrow> target_name) \<Rightarrow> nat \<Rightarrow> u8 list \<Rightarrow> nat \<Rightarrow> bool" where
  "name_done inner ks tgt io ys j \<longleftrightarrow>
     (if s_table (in_sht inner) ! j = 0 then has ys (io + 8 * j) (replicate 8 0) else name_written inner ks tgt io ys j)"

lemma entry_bytes_short: "short_target target \<Longrightarrow> length (entry_bytes key target) \<le> 769"
proof (cases target)
  case (fields lib name version)
  assume "short_target target"
  then have "short_target (lib, name, version)" by (simp add: fields)
  note p = entry_parts_short(1,3) [OF this] entry_parts_short(2) [OF this, of key]
  show ?thesis using p by (simp add: fields entry_bytes_alt)
qed

lemma put_name_step:
  assumes rep: "inner_rep toks inner ks tgt" and j: "j < inner_size inner" "s_table (in_sht inner) ! j \<noteq> 0"
    and at: "io + 8 * inner_size inner \<le> length xs" and room: "length xs + 2000 < 2 ^ 31"
  shows "\<exists>ys. runs (put_name toks inner (of_nat io) j) xs ys \<and> keeps (io + 8 * j) (io + 8 * j + 8) xs ys \<and>
    name_written inner ks tgt io ys j \<and> length ys \<le> length xs + 1100"
proof -
  have sht: "sht_rep (in_sht inner) ks" using rep by (simp add: inner_rep_def)
  let ?slot = "s_table (in_sht inner) ! j"
  have "?slot \<in> set (s_table (in_sht inner)) - {0}" using j by simp
  then obtain k u where ku: "(k, u) \<in> set (sht_layout (in_sht inner) ks)" "?slot = entry_slot (k, u)"
    using rep_slots [OF sht] by auto
  have "contents_ok (in_sht inner) ks" using sht by (simp add: sht_rep_def)
  note l = layout_less [OF this ku(1)]
  have u: "unat (slot_hi ?slot) = u" using hi_entry_slot [OF l(5)] ku(2) by simp
  have k: "k \<in> set ks" using ku(1) fst_sht_layout [of "in_sht inner" ks] by (metis fst_conv image_eqI)
  have val: "names toks (in_value inner (4 * u)) (tgt k)" "length k \<le> 255" "short_target (tgt k)"
    using rep ku(1) k by (auto simp: inner_rep_def)
  have io: "unat (of_nat io :: u32) = io" using at room by (intro unat_small) simp
  let ?p = "length xs + length k"
  have w: "of_nat ?p - of_nat io = (of_nat (?p - io) :: u32)" using at by (simp add: of_nat_diff)
  let ?w = "word_bytes (mk_slot (slot_lo ?slot) (of_nat ?p - of_nat io))" and ?at = "io + 8 * j"
  let ?ys = "put_list ?at ?w xs @ k @ entry_bytes k (tgt k)"
  have fits: "?at + length ?w \<le> length xs" using at j by simp
  have "runs (put_name toks inner (of_nat io) j) xs ?ys"
    using runs_put_name [of inner j ?slot k toks "tgt k" "of_nat io" xs] j val sht_p_key_spec [OF sht ku(1)] fits room io
    by (simp add: rd_def u)
  moreover have "keeps ?at (?at + 8) xs ?ys"
    by (rule keeps_trans [OF keeps_put [OF fits, of ?at "?at + 8"] keeps_append [of ?at "?at + 8"]]) simp_all
  moreover have "name_written inner ks tgt io ?ys j"
  proof -
    have "has ?ys ?at ?w" by (rule has_keeps [OF has_put [OF fits] keeps_append [of "length xs" "length xs"]]) (use fits in simp)
    moreover have "has ?ys (length xs) (k @ entry_bytes k (tgt k))"
      using has_end [of "put_list ?at ?w xs" "k @ entry_bytes k (tgt k)"] fits by simp
    ultimately show ?thesis
      unfolding name_written_def using ku at room val(2) w by (intro exI [of _ k] exI [of _ u] exI [of _ ?p]) simp
  qed
  moreover have "length ?ys \<le> length xs + 1100"
    using fits val(2) entry_bytes_short [OF val(3), of k] by simp
  ultimately show ?thesis by blast
qed

lemma name_written_keeps:
  "name_written inner ks tgt io xs i \<Longrightarrow> keeps lo hi xs ys \<Longrightarrow> io + 8 * i + 8 \<le> lo \<or> hi \<le> io + 8 * i \<Longrightarrow>
    hi \<le> io + 8 * inner_size inner \<Longrightarrow> name_written inner ks tgt io ys i"
  unfolding name_written_def by (elim exE conjE, intro exI conjI, assumption, assumption, assumption, assumption) (auto elim!: has_keeps)

lemma put_names:
  assumes rep: "inner_rep toks inner ks tgt" and ob: "ob_is ob xs" and at: "io + 8 * inner_size inner \<le> length xs"
    and zero: "has xs io (replicate (8 * inner_size inner) 0)"
    and room: "length xs + 1100 * inner_size inner + 2000 < 2 ^ 31"
  shows "\<exists>ob' ys. each (put_name toks inner (of_nat io)) [0..<inner_size inner] ob = Some ob' \<and> ob_is ob' ys \<and>
    keeps io (io + 8 * inner_size inner) xs ys \<and> (\<forall>j < inner_size inner. name_done inner ks tgt io ys j) \<and>
    length ys \<le> length xs + 1100 * inner_size inner"
proof -
  let ?n = "inner_size inner"
  let ?I = "\<lambda>j ob. \<exists>ys. ob_is ob ys \<and> keeps io (io + 8 * ?n) xs ys \<and> length ys \<le> length xs + 1100 * j \<and>
    (\<forall>i < j. name_done inner ks tgt io ys i) \<and> (\<forall>i. j \<le> i \<and> i < ?n \<longrightarrow> has ys (io + 8 * i) (replicate 8 0))"
  have "\<exists>ob'. each (put_name toks inner (of_nat io)) [0..<?n] ob = Some ob' \<and> ?I ?n ob'"
  proof (rule each_upto [where I = ?I])
    have "has xs (io + 8 * i) (replicate 8 0)" if "i < ?n" for i
    proof -
      have "replicate (8 * ?n) (0 :: u8) = replicate (8 * i) 0 @ replicate 8 0 @ replicate (8 * ?n - 8 * i - 8) 0"
        using that by (simp flip: replicate_add)
      then show ?thesis using zero by (simp add: has_part)
    qed
    then show "?I 0 ob" using ob by (intro exI [of _ xs]) (simp add: keeps_refl)
  next
    fix j ob assume j: "j < ?n" and "?I j ob"
    then obtain ys where ys: "ob_is ob ys" "keeps io (io + 8 * ?n) xs ys" "length ys \<le> length xs + 1100 * j"
      "\<forall>i < j. name_done inner ks tgt io ys i" "\<forall>i. j \<le> i \<and> i < ?n \<longrightarrow> has ys (io + 8 * i) (replicate 8 0)" by blast
    show "\<exists>ob'. put_name toks inner (of_nat io) j ob = Some ob' \<and> ?I (Suc j) ob'"
    proof (cases "s_table (in_sht inner) ! j = 0")
      case True
      then have "put_name toks inner (of_nat io) j ob = Some ob" using j by (simp add: put_name_def rd_def)
      moreover have "name_done inner ks tgt io ys i" if "i < Suc j" for i
        using that ys(4,5) True j by (auto simp: name_done_def less_Suc_eq)
      ultimately show ?thesis using ys by (intro exI [of _ ob] conjI exI [of _ ys]) auto
    next
      case False
      have len: "length xs \<le> length ys" using ys(2) by (simp add: keeps_def)
      have r: "length ys + 2000 < 2 ^ 31" using ys(3) room j by simp
      obtain zs where zs: "runs (put_name toks inner (of_nat io) j) ys zs" "keeps (io + 8 * j) (io + 8 * j + 8) ys zs"
          "name_written inner ks tgt io zs j" "length zs \<le> length ys + 1100"
        using put_name_step [OF rep j False le_trans [OF at len] r] by blast
      then obtain ob' where ob': "put_name toks inner (of_nat io) j ob = Some ob'" "ob_is ob' zs" using ys(1) by (auto simp: runs_def)
      have "keeps io (io + 8 * ?n) xs zs" by (rule keeps_trans [OF ys(2) zs(2)]) (use j in auto)
      moreover have "name_done inner ks tgt io zs i" if "i < Suc j" for i
      proof (cases "i = j")
        case False
        then have i: "i < j" using that by simp
        then have "name_done inner ks tgt io ys i" using ys(4) by blast
        then show ?thesis
          using has_keeps [OF _ zs(2), of "io + 8 * i" "replicate 8 0"] name_written_keeps [OF _ zs(2), of inner ks tgt io i] i j
          by (auto simp: name_done_def)
      qed (use zs(3) False in \<open>simp add: name_done_def\<close>)
      moreover have "has zs (io + 8 * i) (replicate 8 0)" if "Suc j \<le> i \<and> i < ?n" for i
        using has_keeps [OF _ zs(2), of "io + 8 * i" "replicate 8 0"] ys(5) that by simp
      moreover have "length zs \<le> length xs + 1100 * Suc j" using zs(4) ys(3) by simp
      ultimately show ?thesis using ob' by (intro exI [of _ ob'] conjI exI [of _ zs]) auto
    qed
  qed
  then show ?thesis by auto
qed

subsection \<open>A version and its table\<close>

definition version_written :: "rename_lines \<Rightarrow> bstr list \<Rightarrow> (bstr \<Rightarrow> bstr list) \<Rightarrow> (bstr \<Rightarrow> bstr \<Rightarrow> target_name) \<Rightarrow> u8 list \<Rightarrow> nat \<Rightarrow> bool" where
  "version_written rl vs ks tgt ys i \<longleftrightarrow> (\<exists>v u inner q. s_table (rl_renames rl) ! i = entry_slot (v, u) \<and>
     (v, u) \<in> set (sht_layout (rl_renames rl) vs) \<and> rl_inner rl (4 * u) = Some inner \<and>
     8 * length (s_table (rl_renames rl)) + length v + 1 \<le> q \<and> q < 2 ^ 31 \<and>
     has ys (8 * i) (word_bytes (mk_slot (hash_of v) (of_nat q))) \<and>
     has ys (q - length v - 1) (v @ [0] @ word_bytes (of_nat (length v) :: u32) @ word_bytes (s_mask (in_sht inner))) \<and>
     (\<forall>j < inner_size inner. name_done inner (ks v) (tgt v) (q + 8) ys j))"

lemma runs_put_new: "length bs = n \<Longrightarrow> length xs = at \<Longrightarrow> runs (outbuf_put at bs) (xs @ replicate n 0 @ ys) (xs @ bs @ ys)"
  using runs_put [of at bs "xs @ replicate n 0 @ ys"] by (simp add: put_list_new)

lemma pad_list:
  assumes ob: "ob_is ob xs" and room: "length xs + 8 < 2 ^ 31"
  shows "\<exists>ob' n at. (if ob_size ob AND 7 \<noteq> 0 then outbuf_emplace (8 - (ob_size ob AND 7)) ob else Some (ob, 0)) = Some (ob', at) \<and>
    n \<le> 8 \<and> ob_is ob' (xs @ replicate n 0)"
proof (cases "ob_size ob AND 7 = 0")
  case True
  then show ?thesis using ob by (intro exI [of _ ob] exI [of _ 0]) simp
next
  case False
  have "ob_size ob AND 7 \<le> 7" by (rule word_and_le1)
  then have "unat (8 - (ob_size ob AND 7)) \<le> 8" by (simp add: unat_sub word_le_nat_alt)
  moreover obtain ob' where "outbuf_emplace (8 - (ob_size ob AND 7)) ob = Some (ob', of_nat (length xs))"
      "ob_is ob' (xs @ replicate (unat (8 - (ob_size ob AND 7))) 0)"
    using emplace_list [OF ob, of "8 - (ob_size ob AND 7)"] calculation room by auto
  ultimately show ?thesis using False by (intro exI [of _ ob'] exI [of _ "unat (8 - (ob_size ob AND 7))"]) auto
qed

lemma runs_header:
  fixes lenb maskb :: "u8 list"
  assumes i: "8 * i + 8 \<le> length xs" and v: "length v = n" and b: "length lenb = 4" "length maskb = 4" "length w = 8"
    and q: "q = length xs + pad + n + 1"
  shows "runs (\<lambda>ob. do {
      ob \<leftarrow> outbuf_put (8 * i) w ob;
      ob \<leftarrow> outbuf_put q lenb ob;
      ob \<leftarrow> outbuf_put (q + 4) maskb ob;
      outbuf_put (q - n - 1) v ob })
    (xs @ replicate (pad + n + 1 + 8 + m) 0) (put_list (8 * i) w xs @ replicate pad 0 @ v @ [0] @ lenb @ maskb @ replicate m 0)"
proof -
  let ?xs = "put_list (8 * i) w xs"
  have len: "length ?xs = length xs" using i b by simp
  have zs: "replicate (pad + n + 1 + 8 + m) (0 :: u8) = replicate pad 0 @ replicate n 0 @ [0] @ replicate 4 0 @ replicate 4 0 @ replicate m 0"
  proof -
    have "replicate 8 (0 :: u8) = replicate 4 0 @ replicate 4 0" "replicate 1 (0 :: u8) = [0]" by (simp_all flip: replicate_add)
    then show ?thesis by (simp only: replicate_add append_assoc)
  qed
  have 1: "runs (outbuf_put (8 * i) w) (xs @ replicate (pad + n + 1 + 8 + m) 0)
      ((?xs @ replicate pad 0 @ replicate n 0 @ [0]) @ replicate 4 0 @ (replicate 4 0 @ replicate m 0))"
    unfolding zs using runs_put [of "8 * i" w "xs @ z" for z] put_list_append [of "8 * i" w xs] i b by simp
  have 2: "runs (outbuf_put q lenb) ((?xs @ replicate pad 0 @ replicate n 0 @ [0]) @ replicate 4 0 @ (replicate 4 0 @ replicate m 0))
      ((?xs @ replicate pad 0 @ replicate n 0 @ [0]) @ lenb @ (replicate 4 0 @ replicate m 0))"
    by (rule runs_put_new) (use len b q in simp_all)
  have 3: "runs (outbuf_put (q + 4) maskb) ((?xs @ replicate pad 0 @ replicate n 0 @ [0]) @ lenb @ (replicate 4 0 @ replicate m 0))
      ((?xs @ replicate pad 0) @ replicate n 0 @ ([0] @ lenb @ maskb @ replicate m 0))"
    using runs_put_new [of maskb 4 "?xs @ replicate pad 0 @ replicate n 0 @ [0] @ lenb" "q + 4" "replicate m 0"] len b q by simp
  have 4: "runs (outbuf_put (q - n - 1) v) ((?xs @ replicate pad 0) @ replicate n 0 @ ([0] @ lenb @ maskb @ replicate m 0))
      ((?xs @ replicate pad 0) @ v @ ([0] @ lenb @ maskb @ replicate m 0))"
    by (rule runs_put_new) (use len v q in simp_all)
  show ?thesis using runs_bind [OF 1 runs_bind [OF 2 runs_bind [OF 3 4]]] by simp
qed

definition lines_rep :: "rename_lines \<Rightarrow> bstr list \<Rightarrow> (bstr \<Rightarrow> bstr list) \<Rightarrow> (bstr \<Rightarrow> bstr \<Rightarrow> target_name) \<Rightarrow> bool" where
  "lines_rep rl vs ks tgt \<longleftrightarrow> sht_rep (rl_renames rl) vs \<and>
     (\<forall>(v, u) \<in> set (sht_layout (rl_renames rl) vs). \<exists>inner. rl_inner rl (4 * u) = Some inner \<and> inner_rep (rl_toks rl) inner (ks v) (tgt v))"

text \<open>A bound for the bytes that a version and its names need.\<close>

definition version_cost :: "rename_lines \<Rightarrow> bstr \<times> nat \<Rightarrow> nat" where
  "version_cost rl vu = (case vu of (v, u) \<Rightarrow>
     length v + 100 + 1200 * (case rl_inner rl (4 * u) of None \<Rightarrow> 0 | Some inner \<Rightarrow> inner_size inner))"

lemma inner_mask:
  assumes "inner_rep toks inner ks tgt"
  shows "inner_size inner = unat (s_mask (in_sht inner)) + 1"
  using assms table_size_bounds(3) by (simp add: inner_rep_def sht_rep_def)

lemma put_version_step:
  assumes rep: "lines_rep rl vs ks tgt" and i: "i < length (s_table (rl_renames rl))" "s_table (rl_renames rl) ! i = entry_slot (v, u)"
    and vu: "(v, u) \<in> set (sht_layout (rl_renames rl) vs)" and sv: "unat (slot_lo sv) = u" "unat (slot_hi sv) = i"
    and ob: "ob_is ob xs" and at: "8 * length (s_table (rl_renames rl)) \<le> length xs"
    and room: "length xs + version_cost rl (v, u) + 2000 < 2 ^ 31"
  shows "\<exists>ob' ys. put_version rl sv ob = Some ob' \<and> ob_is ob' ys \<and> keeps (8 * i) (8 * i + 8) xs ys \<and>
    version_written rl vs ks tgt ys i \<and> length ys \<le> length xs + version_cost rl (v, u)"
proof -
  obtain inner where inner: "rl_inner rl (4 * u) = Some inner" "inner_rep (rl_toks rl) inner (ks v) (tgt v)"
    using rep vu by (auto simp: lines_rep_def)
  have sht: "sht_rep (rl_renames rl) vs" using rep by (simp add: lines_rep_def)
  let ?m = "inner_size inner" and ?msk = "s_mask (in_sht inner)" and ?n = "length v" and ?len = "of_nat (length v) :: u32"
  have msk: "?m = unat ?msk + 1" by (rule inner_mask [OF inner(2)])
  have room': "length xs + ?n + 100 + 1200 * ?m + 2000 < 2 ^ 31" using room by (simp add: version_cost_def inner(1))
  have len: "unat (?len + 1) = ?n + 1" "unat ?len = ?n" using room' by (simp_all add: unat_word_ariths unat_of_nat)
  obtain ob1 at1 where ob1: "outbuf_emplace (?len + 1) ob = Some (ob1, at1)" "ob_is ob1 (xs @ replicate (?n + 1) 0)"
    using emplace_list [OF ob, of "?len + 1"] len room' by auto
  obtain ob2 pad at2 where ob2: "(if ob_size ob1 AND 7 \<noteq> 0 then outbuf_emplace (8 - (ob_size ob1 AND 7)) ob1 else Some (ob1, 0)) = Some (ob2, at2)"
      "pad \<le> 8" "ob_is ob2 (xs @ replicate (?n + 1 + pad) 0)"
    using pad_list [OF ob1(2)] room' by (auto simp: replicate_add)
  define q where "q = length xs + pad + ?n + 1"
  define io where "io = (of_nat q :: u32)"
  have q: "unat io = q" "unat (io - ?len - 1) = q - ?n - 1" "unat (io + 8) = q + 8"
  proof -
    have ql: "q < 2 ^ 31" using room' ob2(2) unfolding q_def by simp
    show "unat io = q" using ql unfolding io_def by (intro unat_small) simp
    have "io - ?len - 1 = of_nat (q - ?n - 1)" unfolding io_def q_def by (simp add: of_nat_diff)
    then show "unat (io - ?len - 1) = q - ?n - 1" using ql unfolding q_def by (simp only:) (intro unat_small, simp)
    have "io + 8 = of_nat (q + 8)" by (simp add: io_def)
    then show "unat (io + 8) = q + 8" using ql by (simp only:) (intro unat_small, simp)
  qed
  have hd: "unat (8 + (?msk + 1) * 8) = 8 + 8 * ?m"
  proof -
    have "8 + (?msk + 1) * 8 = (of_nat (8 + 8 * ?m) :: u32)" by (simp add: msk algebra_simps)
    then show ?thesis using room' by (simp only:) (intro unat_small, simp)
  qed
  obtain ob3 where ob3: "outbuf_emplace (8 + (?msk + 1) * 8) ob2 = Some (ob3, io)" "ob_is ob3 (xs @ replicate (pad + ?n + 1 + 8 + 8 * ?m) 0)"
  proof -
    have e: "(xs @ replicate (?n + 1 + pad) 0) @ replicate (8 + 8 * ?m) 0 = xs @ replicate (pad + ?n + 1 + 8 + 8 * ?m) 0"
      by (simp only: append_assoc replicate_add [symmetric] ac_simps)
    have l: "length (xs @ replicate (?n + 1 + pad) 0) = q" by (simp add: q_def)
    have "q + (8 + 8 * ?m) < 2 ^ 31" using room' ob2(2) by (simp add: q_def)
    then show ?thesis using emplace_list [OF ob2(3), of "8 + (?msk + 1) * 8", unfolded hd e l] that unfolding io_def by blast
  qed
  let ?w = "word_bytes (mk_slot (hash_of v) io)"
  let ?ys = "put_list (8 * i) ?w xs @ replicate pad 0 @ v @ [0] @ word_bytes ?len @ word_bytes ?msk @ replicate (8 * ?m) 0"
  have fits: "8 * i + length ?w \<le> length xs" using at i by simp
  obtain ob4 where ob4: "ob_is ob4 ?ys" "(do {
      ob \<leftarrow> outbuf_put (8 * i) ?w ob3;
      ob \<leftarrow> outbuf_put q (word_bytes ?len) ob;
      ob \<leftarrow> outbuf_put (q + 4) (word_bytes ?msk) ob;
      outbuf_put (q - ?n - 1) v ob }) = Some ob4"
    using runs_header [of i xs v ?n "word_bytes ?len" "word_bytes ?msk" ?w q pad "8 * ?m"] fits ob3(2) by (auto simp: runs_def q_def)
  have ylen: "length ?ys = q + 8 + 8 * ?m" using fits by (simp add: q_def)
  obtain ob5 ys where ys: "each (put_name (rl_toks rl) inner (of_nat (q + 8))) [0..<?m] ob4 = Some ob5" "ob_is ob5 ys"
      "keeps (q + 8) (q + 8 + 8 * ?m) ?ys ys" "\<forall>j < ?m. name_done inner (ks v) (tgt v) (q + 8) ys j" "length ys \<le> length ?ys + 1100 * ?m"
  proof -
    have "has ?ys (q + 8) (replicate (8 * ?m) 0)"
      using has_end [of "put_list (8 * i) ?w xs @ replicate pad 0 @ v @ [0] @ word_bytes ?len @ word_bytes ?msk" "replicate (8 * ?m) 0"] fits
      by (simp add: q_def ac_simps)
    moreover have "length ?ys + 1100 * ?m + 2000 < 2 ^ 31" unfolding ylen q_def using room' ob2(2) by simp
    ultimately show ?thesis using put_names [OF inner(2) ob4(1), of "q + 8"] ylen that by auto
  qed
  have slot: "rd (s_table (rl_renames rl)) (unat (slot_hi sv)) = Some (entry_slot (v, u))" "rd (s_table (rl_renames rl)) i = Some (entry_slot (v, u))"
    using i sv by (simp_all add: rd_def)
  have word: "ucast (slot_lo (entry_slot (v, u))) + push_bit 32 (ucast io) = mk_slot (hash_of v) io" by (simp add: slot_sum)
  have io8: "io + 8 = of_nat (q + 8)" by (simp add: io_def)
  have "put_version rl sv ob = Some ob5"
    unfolding put_version_def Let_def sv(1) sht_p_key_spec [OF sht vu] inner(1) slot word sv(2) q
    using ob1(1) ob2(1) ob3(1) ob4(2) ys(1)
    by (simp only: Option.bind.simps prod.case ob1(1) ob2(1) ob3(1) q word io8 msk [symmetric] slot sv inner(1) sht_p_key_spec [OF sht vu])
      (auto simp: bind_eq_Some_conv slot(2) slot_sum)
  moreover have "keeps (8 * i) (8 * i + 8) xs ys"
  proof -
    have k: "keeps (8 * i) (8 * i + 8) xs ?ys"
      by (rule keeps_trans [OF keeps_put [OF fits, of "8 * i" "8 * i + 8"] keeps_append [of "8 * i" "8 * i + 8"]]) simp_all
    then show ?thesis using ys(3) i at by (auto simp: keeps_def q_def)
  qed
  moreover have "version_written rl vs ks tgt ys i"
  proof -
    let ?head = "v @ [0] @ word_bytes ?len @ word_bytes ?msk"
    have h1: "has ?ys (8 * i) ?w" by (rule has_keeps [OF has_put [OF fits] keeps_append [of "length xs" "length xs"]]) (use fits in simp)
    have h2: "has ?ys (q - ?n - 1) ?head"
      using has_here [of "put_list (8 * i) ?w xs @ replicate pad 0" ?head "replicate (8 * ?m) 0"] fits by (simp add: q_def)
    have "has ys (8 * i) ?w" by (rule has_keeps [OF h1 ys(3)]) (use fits in \<open>simp add: q_def\<close>)
    moreover have "has ys (q - ?n - 1) ?head" by (rule has_keeps [OF h2 ys(3)]) (simp add: q_def)
    moreover have "q < 2 ^ 31" using room' ob2(2) by (simp add: q_def)
    moreover have "8 * length (s_table (rl_renames rl)) + ?n + 1 \<le> q" using at by (simp add: q_def)
    ultimately show ?thesis
      unfolding version_written_def using i vu inner(1) ys(4)
      by (intro exI [of _ v] exI [of _ u] exI [of _ inner] exI [of _ q]) (simp add: io_def)
  qed
  moreover have "length ys \<le> length xs + version_cost rl (v, u)"
    using ys(5) ob2(2) unfolding ylen by (simp add: version_cost_def inner(1) q_def)
  ultimately show ?thesis using ys(2) by blast
qed

subsection \<open>All versions\<close>

text \<open>The slot of each version, with the index of its value.\<close>

definition slot_entry :: "sht \<Rightarrow> u64 \<Rightarrow> bool" where
  "slot_entry s sv \<longleftrightarrow> (let i = unat (slot_hi sv)
     in i < length (s_table s) \<and> s_table s ! i \<noteq> 0 \<and> slot_lo sv = slot_hi (s_table s ! i))"

definition used_slots :: "sht \<Rightarrow> nat list" where
  "used_slots s = filter (\<lambda>i. s_table s ! i \<noteq> 0) [0..<length (s_table s)]"

lemma slot_lo_hi_parts:
  "slot_lo (drop_bit 32 x OR push_bit 32 (of_nat i)) = slot_hi x"
  "i < 2 ^ 32 \<Longrightarrow> unat (slot_hi (drop_bit 32 x OR push_bit 32 (of_nat i :: u64))) = i"
proof -
  show "slot_lo (drop_bit 32 x OR push_bit 32 (of_nat i)) = slot_hi x"
    unfolding slot_lo_def slot_hi_def by (rule bit_word_eqI) (auto simp: bit_simps)
  assume i: "i < 2 ^ 32"
  have "slot_hi (drop_bit 32 x OR push_bit 32 (of_nat i :: u64)) = (of_nat i :: u32)"
    unfolding slot_hi_def by (rule bit_word_eqI) (auto simp: bit_simps dest: bit_imp_le_length)
  then show "unat (slot_hi (drop_bit 32 x OR push_bit 32 (of_nat i :: u64))) = i" using i by (simp add: unat_of_nat)
qed

lemma sorted_vers_spec:
  assumes rep: "sht_rep s ks"
  shows "\<exists>vers. sorted_vers_of s = Some vers \<and> map (\<lambda>sv. unat (slot_hi sv)) vers = used_slots s \<and> (\<forall>sv \<in> set vers. slot_entry s sv)"
proof -
  let ?T = "s_table s"
  have ts: "table_size ?T (s_mask s)" using rep by (simp add: sht_rep_def)
  note b = table_size_bounds [OF ts]
  let ?vers = "map (\<lambda>i. drop_bit 32 (?T ! i) OR push_bit 32 (of_nat i :: u64)) (used_slots s)"
  have small: "i < 2 ^ 32" if "i \<in> set (used_slots s)" for i using that b(2) by (simp add: used_slots_def)
  have cnt: "length (used_slots s) = unat (s_count s)"
  proof -
    have "size (live ?T) = length (sht_layout s ks)" using rep by (simp add: sht_rep_def)
    moreover have "filter (\<lambda>s. s \<noteq> 0) ?T = map ((!) ?T) (used_slots s)"
      using filter_map [of "\<lambda>s. s \<noteq> 0" "(!) ?T" "[0..<length ?T]"] by (simp add: map_nth used_slots_def comp_def)
    ultimately show ?thesis using rep by (simp add: size_live sht_rep_def sht_layout_def)
  qed
  have "sorted_vers_of s = Some ?vers"
    unfolding sorted_vers_of_def Let_def b(3) [symmetric] used_slots_def [symmetric] using cnt by simp
  moreover have "map (\<lambda>sv. unat (slot_hi sv)) ?vers = used_slots s"
    unfolding map_map comp_def by (rule map_idI) (rule slot_lo_hi_parts(2) [OF small])
  moreover have "slot_entry s sv" if "sv \<in> set ?vers" for sv
  proof -
    from that have "\<exists>i \<in> set (used_slots s). sv = drop_bit 32 (?T ! i) OR push_bit 32 (of_nat i :: u64)" unfolding set_map by blast
    then obtain i where i: "i \<in> set (used_slots s)" "sv = drop_bit 32 (?T ! i) OR push_bit 32 (of_nat i :: u64)" by blast
    then show ?thesis
      using slot_lo_hi_parts(2) [OF small [OF i(1)], of "?T ! i"] by (simp add: slot_entry_def slot_lo_hi_parts(1) used_slots_def)
  qed
  ultimately show ?thesis by blast
qed

definition version_done :: "rename_lines \<Rightarrow> bstr list \<Rightarrow> (bstr \<Rightarrow> bstr list) \<Rightarrow> (bstr \<Rightarrow> bstr \<Rightarrow> target_name) \<Rightarrow> u8 list \<Rightarrow> nat \<Rightarrow> bool" where
  "version_done rl vs ks tgt ys i \<longleftrightarrow>
     (if s_table (rl_renames rl) ! i = 0 then has ys (8 * i) (replicate 8 0) else version_written rl vs ks tgt ys i)"

lemma version_written_keeps:
  "version_written rl vs ks tgt xs i \<Longrightarrow> keeps lo hi xs ys \<Longrightarrow> 8 * i + 8 \<le> lo \<or> hi \<le> 8 * i \<Longrightarrow>
    hi \<le> 8 * length (s_table (rl_renames rl)) \<Longrightarrow> version_written rl vs ks tgt ys i"
proof -
  assume w: "version_written rl vs ks tgt xs i" and k: "keeps lo hi xs ys" and i: "8 * i + 8 \<le> lo \<or> hi \<le> 8 * i"
    and hi: "hi \<le> 8 * length (s_table (rl_renames rl))"
  from w obtain v u inner q where q: "s_table (rl_renames rl) ! i = entry_slot (v, u)"
     "(v, u) \<in> set (sht_layout (rl_renames rl) vs)" "rl_inner rl (4 * u) = Some inner"
     "8 * length (s_table (rl_renames rl)) + length v + 1 \<le> q" "q < 2 ^ 31"
     "has xs (8 * i) (word_bytes (mk_slot (hash_of v) (of_nat q)))"
     "has xs (q - length v - 1) (v @ [0] @ word_bytes (of_nat (length v) :: u32) @ word_bytes (s_mask (in_sht inner)))"
     "\<forall>j < inner_size inner. name_done inner (ks v) (tgt v) (q + 8) xs j"
    unfolding version_written_def by blast
  have "has ys (8 * i) (word_bytes (mk_slot (hash_of v) (of_nat q)))" by (rule has_keeps [OF q(6) k]) (use i in simp)
  moreover have "has ys (q - length v - 1) (v @ [0] @ word_bytes (of_nat (length v) :: u32) @ word_bytes (s_mask (in_sht inner)))"
    by (rule has_keeps [OF q(7) k], rule disjI2) (use hi q(4) in linarith)
  moreover have "name_done inner (ks v) (tgt v) (q + 8) ys j" if "j < inner_size inner" for j
    using q(8) that has_keeps [OF _ k, of "q + 8 + 8 * j" "replicate 8 0"]
      name_written_keeps [OF _ k, of inner "ks v" "tgt v" "q + 8" j] hi q(4) by (auto simp: name_done_def)
  ultimately show ?thesis unfolding version_written_def using q(1-5) by blast
qed

text \<open>The table has room when no version needs more than \<open>w\<close> bytes.\<close>

definition table_fits :: "nat \<Rightarrow> rename_lines \<Rightarrow> bstr list \<Rightarrow> bool" where
  "table_fits w rl vs \<longleftrightarrow> (\<forall>vu \<in> set (sht_layout (rl_renames rl) vs). version_cost rl vu \<le> w) \<and>
     8 * length (s_table (rl_renames rl)) + w * length vs + 2000 < 2 ^ 31"

lemma put_versions:
  assumes rep: "lines_rep rl vs ks tgt" and fits: "table_fits w rl vs"
    and svs: "mset (map (\<lambda>sv. unat (slot_hi sv)) svs) = mset (used_slots (rl_renames rl))" "\<forall>sv \<in> set svs. slot_entry (rl_renames rl) sv"
    and ob: "ob_is ob (replicate (8 * length (s_table (rl_renames rl))) 0)"
  shows "\<exists>ob' ys. each (put_version rl) svs ob = Some ob' \<and> ob_is ob' ys \<and> length ys < 2 ^ 31 \<and>
    (\<forall>i < length (s_table (rl_renames rl)). version_done rl vs ks tgt ys i)"
proof -
  let ?T = "s_table (rl_renames rl)" and ?idx = "\<lambda>sv. unat (slot_hi sv)"
  let ?n = "length ?T"
  have sht: "sht_rep (rl_renames rl) vs" using rep by (simp add: lines_rep_def)
  have used: "set (map ?idx svs) = {i. i < ?n \<and> ?T ! i \<noteq> 0}" "distinct (map ?idx svs)"
    using mset_eq_setD [OF svs(1)] mset_eq_imp_distinct_iff [OF svs(1)] by (auto simp: used_slots_def)
  have cnt: "length svs = length vs"
  proof -
    have "length (used_slots (rl_renames rl)) = length vs"
      using sorted_vers_spec [OF sht] sht by (auto simp: sorted_vers_of_def Let_def sht_rep_def split: if_splits dest: arg_cong [of _ _ length])
    then show ?thesis using arg_cong [OF svs(1), of size] by simp
  qed
  let ?I = "\<lambda>is ob. set is \<subseteq> set svs \<and> distinct (map ?idx is) \<and> (\<exists>ys. ob_is ob ys \<and> 8 * ?n \<le> length ys \<and>
    length ys + w * length is \<le> 8 * ?n + w * length vs \<and>
    (\<forall>i < ?n. if i \<in> ?idx ` set is then has ys (8 * i) (replicate 8 0) else version_done rl vs ks tgt ys i))"
  have "\<exists>ob'. each (put_version rl) svs ob = Some ob' \<and> ?I [] ob'"
  proof (rule each_invariant [where I = ?I])
    have "has (replicate (8 * ?n) (0 :: u8)) (8 * i) (replicate 8 0)" if "i < ?n" for i
      using that by (simp add: has_def)
    moreover have "?T ! i = 0" if "i < ?n" "i \<notin> ?idx ` set svs" for i using used(1) that by auto
    ultimately show "?I svs ob" using ob used(2) cnt by (auto simp: version_done_def)
  next
    fix sv "is" ob assume I: "?I (sv # is) ob"
    then obtain ys where ys: "ob_is ob ys" "8 * ?n \<le> length ys" "length ys + w * length (sv # is) \<le> 8 * ?n + w * length vs"
      "\<forall>i < ?n. if i \<in> ?idx ` set (sv # is) then has ys (8 * i) (replicate 8 0) else version_done rl vs ks tgt ys i" by blast
    have sv: "?idx sv < ?n" "?T ! ?idx sv \<noteq> 0" "slot_lo sv = slot_hi (?T ! ?idx sv)"
      using svs(2) I by (simp_all add: slot_entry_def Let_def)
    then have "?T ! ?idx sv \<in> set ?T - {0}" by simp
    then obtain v u where vu: "(v, u) \<in> set (sht_layout (rl_renames rl) vs)" "?T ! ?idx sv = entry_slot (v, u)"
      using rep_slots [OF sht] by auto
    have "contents_ok (rl_renames rl) vs" using sht by (simp add: sht_rep_def)
    note l = layout_less [OF this vu(1)]
    have u: "unat (slot_lo sv) = u" using sv(3) vu(2) hi_entry_slot [OF l(5), of v] by simp
    have cost: "version_cost rl (v, u) \<le> w" "8 * ?n + w * length vs + 2000 < 2 ^ 31" using fits vu(1) by (auto simp: table_fits_def)
    obtain ob' zs where zs: "put_version rl sv ob = Some ob'" "ob_is ob' zs" "keeps (8 * ?idx sv) (8 * ?idx sv + 8) ys zs"
        "version_written rl vs ks tgt zs (?idx sv)" "length zs \<le> length ys + version_cost rl (v, u)"
      using put_version_step [OF rep sv(1) vu(2,1) u refl ys(1,2)] cost ys(3) by auto
    have "if i \<in> ?idx ` set is then has zs (8 * i) (replicate 8 0) else version_done rl vs ks tgt zs i" if i: "i < ?n" for i
    proof (cases "i = ?idx sv")
      case True
      then show ?thesis using I sv(2) zs(4) by (auto simp: version_done_def)
    next
      case False
      then have d: "8 * i + 8 \<le> 8 * ?idx sv \<or> 8 * ?idx sv + 8 \<le> 8 * i" by linarith
      have "if i \<in> ?idx ` set is then has ys (8 * i) (replicate 8 0) else version_done rl vs ks tgt ys i"
        using ys(4) i False by auto
      then show ?thesis
        using d sv(1) has_keeps [OF _ zs(3), of "8 * i" "replicate 8 0"] version_written_keeps [OF _ zs(3), of rl vs ks tgt i]
        by (auto simp: version_done_def split: if_splits)
    qed
    moreover have "8 * ?n \<le> length zs" using zs(3) ys(2) by (simp add: keeps_def)
    moreover have "length zs + w * length is \<le> 8 * ?n + w * length vs" using zs(5) ys(3) cost(1) by simp
    ultimately show "\<exists>ob'. put_version rl sv ob = Some ob' \<and> ?I is ob'" using I zs(1,2) by auto
  qed
  then obtain ob' ys where "each (put_version rl) svs ob = Some ob'" "ob_is ob' ys" "length ys \<le> 8 * ?n + w * length vs"
      "\<forall>i < ?n. version_done rl vs ks tgt ys i" by auto
  then show ?thesis using fits by (intro exI [of _ ob'] exI [of _ ys]) (simp add: table_fits_def)
qed

subsection \<open>Reading the block\<close>

lemma word_bytes_u32: "word_bytes w = u32_bytes w"
  by (simp add: word_bytes_def u32_bytes_def upt_conv_Cons)

lemma has_slot: "holds m 0 ys \<Longrightarrow> has ys (a + 8 * i) (word_bytes w) \<Longrightarrow> i < 2 ^ 32 \<Longrightarrow> slot_at m a (of_nat i) = Some w"
  using mem_read_holds [OF holds_has, of m ys "a + 8 * i" "word_bytes w"] by (simp add: slot_at_def unat_small)

lemma has_zero_slot: "holds m 0 ys \<Longrightarrow> has ys (a + 8 * i) (replicate 8 0) \<Longrightarrow> i < 2 ^ 32 \<Longrightarrow> slot_at m a (of_nat i) = Some 0"
proof -
  have "word_bytes (0 :: u64) = replicate 8 0" by (simp add: word_bytes_def upt_conv_Cons eval_nat_numeral)
  then show "holds m 0 ys \<Longrightarrow> has ys (a + 8 * i) (replicate 8 0) \<Longrightarrow> i < 2 ^ 32 \<Longrightarrow> slot_at m a (of_nat i) = Some 0"
    using has_slot [of m ys a i 0] by simp
qed

lemma key_before_has:
  assumes m: "holds m 0 ys" and k: "has ys (p - back - length k) k" "back + length k \<le> p" and len: "length name = length k"
  shows "key_before m p back name = Some (name = k)"
  using mem_read_holds [OF holds_has [OF m k(1)]] k(2) len by (simp add: key_before_def)

text \<open>The offset in a slot of the block.\<close>

definition slot_ofs :: "mem \<Rightarrow> nat \<Rightarrow> nat \<Rightarrow> u32" where
  "slot_ofs m a i = slot_hi (the (slot_at m a (of_nat i)))"

lemma of_nat_eq_small: "m < 2 ^ 32 \<Longrightarrow> n < 2 ^ 32 \<Longrightarrow> (of_nat m :: u32) = of_nat n \<longleftrightarrow> m = n"
  by (metis unat_small)

lemma entry_unique:
  assumes "sht_rep s ks" and "(k, u) \<in> set (sht_layout s ks)" and "(k', u') \<in> set (sht_layout s ks)" and "entry_slot (k, u) = entry_slot (k', u')"
  shows "k = k'"
proof -
  have c: "contents_ok s ks" using assms(1) by (simp add: sht_rep_def)
  have "key_at s k (entry_slot (k, u)) = Some (k = k)" by (rule rep_key_at [OF assms(1,2) layout_less(2) [OF c assms(2)]])
  moreover have "key_at s k (entry_slot (k', u')) = Some (k' = k)" by (rule rep_key_at [OF assms(1,3) layout_less(2) [OF c assms(2)]])
  ultimately show ?thesis using assms(4) by simp
qed

lemma name_lookup:
  assumes rep: "inner_rep toks inner ks tgt" and m: "holds m 0 ys" and len: "length name \<le> 255" and io: "0 < io"
    and written: "\<forall>j < inner_size inner. name_done inner ks tgt io ys j"
  shows "(if name \<in> set ks
    then \<exists>v. blob_probe m io (s_mask (in_sht inner)) (check_name m io name) (hash_of name) 0 = Some (Some v) \<and>
      holds m (io + unat v) (entry_bytes name (tgt name))
    else blob_probe m io (s_mask (in_sht inner)) (check_name m io name) (hash_of name) 0 = Some None)"
proof -
  let ?s = "in_sht inner" and ?f = "slot_ofs m io"
  have sht: "sht_rep ?s ks" using rep by (simp add: inner_rep_def)
  have small: "inner_size inner \<le> 2 ^ 32" using sht table_size_bounds(2) unfolding sht_rep_def by blast
  have slot: "slot_at m io (of_nat i) = Some (if s_table ?s ! i = 0 then 0 else mk_slot (slot_lo (s_table ?s ! i)) (?f i)) \<and>
      (s_table ?s ! i \<noteq> 0 \<longrightarrow> (\<exists>k u p. s_table ?s ! i = entry_slot (k, u) \<and> (k, u) \<in> set (sht_layout ?s ks) \<and>
        io + unat (?f i) = p \<and> ?f i \<noteq> 0 \<and> length k \<le> p \<and> has ys (p - length k) (k @ entry_bytes k (tgt k))))"
    if i: "i < inner_size inner" for i
  proof (cases "s_table ?s ! i = 0")
    case True
    then show ?thesis using written i has_zero_slot [OF m, of io i] small by (auto simp: name_done_def)
  next
    case False
    then obtain k u p where k: "s_table ?s ! i = entry_slot (k, u)" "(k, u) \<in> set (sht_layout ?s ks)"
        "io + 8 * inner_size inner + length k \<le> p" "p < 2 ^ 31" "has ys (io + 8 * i) (word_bytes (mk_slot (hash_of k) (of_nat (p - io))))"
        "has ys (p - length k) (k @ entry_bytes k (tgt k))"
    proof -
      have "name_written inner ks tgt io ys i" using written i False by (simp add: name_done_def)
      then show ?thesis using that unfolding name_written_def by blast
    qed
    have s: "slot_at m io (of_nat i) = Some (mk_slot (hash_of k) (of_nat (p - io)))" using has_slot [OF m k(5)] i small by simp
    have f: "?f i = of_nat (p - io)" by (simp add: slot_ofs_def s)
    have "unat (?f i) = p - io" unfolding f using k(4) by (intro unat_small) simp
    moreover have "0 < p - io" using k(3) i by linarith
    ultimately show ?thesis
      using False s f k by (intro conjI impI exI [of _ k] exI [of _ u] exI [of _ p]) auto
  qed
  have entry: "length k \<le> io + unat (?f i)" "has ys (io + unat (?f i) - length k) (k @ entry_bytes k (tgt k))"
    if i: "i < inner_size inner" and ku: "(k, u) \<in> set (sht_layout ?s ks)" "s_table ?s ! i = entry_slot (k, u)" for i k u
  proof -
    have "contents_ok ?s ks" using sht by (simp add: sht_rep_def)
    then have "s_table ?s ! i \<noteq> 0" using layout_less(3,5) [OF _ ku(1)] entry_slot_nz [of u k] ku(2) by simp
    then obtain k' u' where k': "s_table ?s ! i = entry_slot (k', u')" "(k', u') \<in> set (sht_layout ?s ks)"
        "length k' \<le> io + unat (?f i)" "has ys (io + unat (?f i) - length k') (k' @ entry_bytes k' (tgt k'))"
      using slot [OF i] by blast
    then have "k = k'" using entry_unique [OF sht ku(1) k'(2)] ku(2) by simp
    then show "length k \<le> io + unat (?f i)" "has ys (io + unat (?f i) - length k) (k @ entry_bytes k (tgt k))" using k' by simp_all
  qed
  have "blob_slots m io ?s ?f" using slot by (auto simp: blob_slots_def)
  moreover have "check_name m io name (?f i) = Some (if k = name then Found else Other)"
    if i: "i < inner_size inner" and ku: "(k, u) \<in> set (sht_layout ?s ks)" "s_table ?s ! i = entry_slot (k, u)" for i k u
  proof -
    note e = entry [OF i ku]
    have kl: "length k \<le> 255" using rep layout_less(1) [OF _ ku(1)] by (simp add: inner_rep_def sht_rep_def)
    have parts: "has ys (io + unat (?f i) - length k) k" "has ys (io + unat (?f i)) (entry_bytes k (tgt k))"
      using e by (simp_all add: has_part)
    have len3: "m (io + unat (?f i) + 2) = Some (of_nat (length k))"
      using holds_has [OF m parts(2)] by (cases "tgt k") (simp add: entry_bytes_def holds_Cons eval_nat_numeral)
    have kb: "unat (of_nat (length k) :: u8) = length k" using kl by (simp add: unat_of_nat)
    have same: "key_before m (io + unat (?f i)) 0 name = Some (name = k)" if "length k = length name"
      by (rule key_before_has [OF m _ _ that [symmetric]]) (use parts(1) e(1) in simp_all)
    show ?thesis
    proof (cases "length k = length name")
      case True
      then show ?thesis
        unfolding check_name_def Let_def len3 Option.bind.simps kb if_P [OF True] same [OF True] by auto
    next
      case False
      then have "k \<noteq> name" by auto
      then show ?thesis unfolding check_name_def Let_def len3 by (simp only: Option.bind.simps kb False if_False)
    qed
  qed
  ultimately have look: "if name \<in> set ks then \<exists>i u. i < inner_size inner \<and> (name, u) \<in> set (sht_layout ?s ks) \<and> s_table ?s ! i = entry_slot (name, u) \<and>
      blob_probe m io (s_mask ?s) (check_name m io name) (hash_of name) 0 = Some (Some (?f i))
    else blob_probe m io (s_mask ?s) (check_name m io name) (hash_of name) 0 = Some None"
    using len by (intro blob_probe_sht [OF sht]) auto
  show ?thesis
  proof (cases "name \<in> set ks")
    case True
    then obtain i u where i: "i < inner_size inner" "(name, u) \<in> set (sht_layout ?s ks)" "s_table ?s ! i = entry_slot (name, u)"
        "blob_probe m io (s_mask ?s) (check_name m io name) (hash_of name) 0 = Some (Some (?f i))" using look by auto
    have "has ys (io + unat (?f i)) (entry_bytes name (tgt name))" using entry [OF i(1-3)] by (simp add: has_part)
    then show ?thesis using True i(4) holds_has [OF m] by auto
  qed (use look in simp)
qed

lemma version_lookup:
  assumes rep: "lines_rep rl vs ks tgt" and m: "holds m 0 ys" and len: "length version < 2 ^ 32"
    and rr: "bl_data (tv_table rr) = m" "tv_limit rr = - 1"
    and written: "\<forall>i < length (s_table (rl_renames rl)). version_done rl vs ks tgt ys i"
  shows "if version \<in> set vs
    then \<exists>v u inner q. (version, u) \<in> set (sht_layout (rl_renames rl) vs) \<and> rl_inner rl (4 * u) = Some inner \<and>
      blob_probe m 0 (s_mask (rl_renames rl)) (check_version rr version) (hash_of version) 0 = Some (Some v) \<and>
      unat v = q \<and> mem_read32 m (q + 4) = Some (s_mask (in_sht inner)) \<and>
      (\<forall>j < inner_size inner. name_done inner (ks version) (tgt version) (q + 8) ys j)
    else blob_probe m 0 (s_mask (rl_renames rl)) (check_version rr version) (hash_of version) 0 = Some None"
proof -
  let ?s = "rl_renames rl" and ?f = "slot_ofs m 0"
  let ?head = "\<lambda>v inner. v @ [0] @ word_bytes (of_nat (length v) :: u32) @ word_bytes (s_mask (in_sht inner))"
  have sht: "sht_rep ?s vs" using rep by (simp add: lines_rep_def)
  have small: "length (s_table ?s) \<le> 2 ^ 32" using sht table_size_bounds(2) unfolding sht_rep_def by blast
  have slot: "slot_at m 0 (of_nat i) = Some (if s_table ?s ! i = 0 then 0 else mk_slot (slot_lo (s_table ?s ! i)) (?f i)) \<and>
      (s_table ?s ! i \<noteq> 0 \<longrightarrow> (\<exists>v u inner. s_table ?s ! i = entry_slot (v, u) \<and> (v, u) \<in> set (sht_layout ?s vs) \<and>
        rl_inner rl (4 * u) = Some inner \<and> length v + 1 \<le> unat (?f i) \<and> unat (?f i) < 2 ^ 31 \<and>
        has ys (unat (?f i) - length v - 1) (?head v inner) \<and>
        (\<forall>j < inner_size inner. name_done inner (ks v) (tgt v) (unat (?f i) + 8) ys j)))"
    if i: "i < length (s_table ?s)" for i
  proof (cases "s_table ?s ! i = 0")
    case True
    then show ?thesis using written i has_zero_slot [OF m, of 0 i] small by (auto simp: version_done_def)
  next
    case False
    then have "version_written rl vs ks tgt ys i" using written i by (simp add: version_done_def)
    then obtain v u inner q where q: "s_table ?s ! i = entry_slot (v, u)" "(v, u) \<in> set (sht_layout ?s vs)" "rl_inner rl (4 * u) = Some inner"
        "8 * length (s_table ?s) + length v + 1 \<le> q" "q < 2 ^ 31" "has ys (8 * i) (word_bytes (mk_slot (hash_of v) (of_nat q)))"
        "has ys (q - length v - 1) (?head v inner)" "\<forall>j < inner_size inner. name_done inner (ks v) (tgt v) (q + 8) ys j"
      unfolding version_written_def by blast
    have s: "slot_at m 0 (of_nat i) = Some (mk_slot (hash_of v) (of_nat q))" using has_slot [OF m, of 0 i] q(6) i small by simp
    have f: "?f i = of_nat q" by (simp add: slot_ofs_def s)
    have "unat (?f i) = q" unfolding f using q(5) by (intro unat_small) simp
    then show ?thesis using False s f q by (intro conjI impI exI [of _ v] exI [of _ u] exI [of _ inner]) auto
  qed
  have "blob_slots m 0 ?s ?f" using slot by (fastforce simp: blob_slots_def)
  moreover have entry: "\<exists>inner. rl_inner rl (4 * u) = Some inner \<and> length v + 1 \<le> unat (?f i) \<and> unat (?f i) < 2 ^ 31 \<and>
        has ys (unat (?f i) - length v - 1) (?head v inner) \<and>
        (\<forall>j < inner_size inner. name_done inner (ks v) (tgt v) (unat (?f i) + 8) ys j)"
    if i: "i < length (s_table ?s)" and vu: "(v, u) \<in> set (sht_layout ?s vs)" "s_table ?s ! i = entry_slot (v, u)" for i v u
  proof -
    have c: "contents_ok ?s vs" using sht by (simp add: sht_rep_def)
    have "s_table ?s ! i \<noteq> 0" using layout_less(3,5) [OF c vu(1)] entry_slot_nz [of u v] vu(2) by simp
    then obtain v' u' inner where v': "s_table ?s ! i = entry_slot (v', u')" "(v', u') \<in> set (sht_layout ?s vs)"
        "rl_inner rl (4 * u') = Some inner" "length v' + 1 \<le> unat (?f i)" "unat (?f i) < 2 ^ 31"
        "has ys (unat (?f i) - length v' - 1) (?head v' inner)"
        "\<forall>j < inner_size inner. name_done inner (ks v') (tgt v') (unat (?f i) + 8) ys j"
      using slot [OF i] by blast
    have "v = v'" using entry_unique [OF sht vu(1) v'(2)] vu(2) v'(1) by simp
    moreover have "u = u'"
      using vu(2) v'(1) hi_entry_slot [OF layout_less(5) [OF c vu(1)], of v] hi_entry_slot [OF layout_less(5) [OF c v'(2)], of v'] by simp
    ultimately show ?thesis using v' by blast
  qed
  moreover have "check_version rr version (?f i) = Some (if v = version then Found else Other)"
    if i: "i < length (s_table ?s)" and vu: "(v, u) \<in> set (sht_layout ?s vs)" "s_table ?s ! i = entry_slot (v, u)" for i v u
  proof -
    have c: "contents_ok ?s vs" using sht by (simp add: sht_rep_def)
    obtain inner :: inner_table where e: "length v + 1 \<le> unat (?f i)" "unat (?f i) < 2 ^ 31" "has ys (unat (?f i) - length v - 1) (?head v inner)"
      using entry [OF i vu] by blast
    have parts: "has ys (unat (?f i) - 1 - length v) v" "has ys (unat (?f i)) (word_bytes (of_nat (length v) :: u32))"
      using e(1,3) unfolding has_part by (simp_all add: diff_commute)
    have "unat (?f i) < unat (- 1 :: u32)" using e(2) by (simp add: unat_max_word)
    then have lim: "\<not> ?f i \<ge> tv_limit rr" by (simp add: rr(2) word_le_nat_alt)
    have len_at: "mem_read32 m (unat (?f i)) = Some (of_nat (length v))"
      using mem_read32_holds holds_has [OF m parts(2)] by (simp add: word_bytes_u32)
    have eq: "(of_nat (length v) :: u32) = of_nat (length version) \<longleftrightarrow> length v = length version"
      by (rule of_nat_eq_small [OF layout_less(2) [OF c vu(1)] len])
    show ?thesis
    proof (cases "length v = length version")
      case True
      have "key_before m (unat (?f i)) 1 version = Some (version = v)"
        by (rule key_before_has [OF m _ _ True [symmetric]]) (use parts(1) e(1) in simp_all)
      then show ?thesis unfolding check_version_def rr(1) if_not_P [OF lim] len_at Option.bind.simps eq if_P [OF True] by auto
    next
      case False
      then have "v \<noteq> version" by auto
      then show ?thesis unfolding check_version_def rr(1) if_not_P [OF lim] len_at Option.bind.simps eq if_not_P [OF False] by simp
    qed
  qed
  ultimately have look: "if version \<in> set vs then \<exists>i u. i < length (s_table ?s) \<and> (version, u) \<in> set (sht_layout ?s vs) \<and> s_table ?s ! i = entry_slot (version, u) \<and>
      blob_probe m 0 (s_mask ?s) (check_version rr version) (hash_of version) 0 = Some (Some (?f i))
    else blob_probe m 0 (s_mask ?s) (check_version rr version) (hash_of version) 0 = Some None"
    by (intro blob_probe_sht [OF sht len]) auto
  show ?thesis
  proof (cases "version \<in> set vs")
    case True
    then obtain i u where i: "i < length (s_table ?s)" "(version, u) \<in> set (sht_layout ?s vs)" "s_table ?s ! i = entry_slot (version, u)"
        "blob_probe m 0 (s_mask ?s) (check_version rr version) (hash_of version) 0 = Some (Some (?f i))" using look by auto
    obtain inner where e: "rl_inner rl (4 * u) = Some inner" "length version + 1 \<le> unat (?f i)"
        "has ys (unat (?f i) - length version - 1) (?head version inner)"
        "\<forall>j < inner_size inner. name_done inner (ks version) (tgt version) (unat (?f i) + 8) ys j"
      using entry [OF i(1-3)] by blast
    have "has ys (unat (?f i) + 4) (word_bytes (s_mask (in_sht inner)))" using e(2,3) unfolding has_part by simp
    then have "mem_read32 m (unat (?f i) + 4) = Some (s_mask (in_sht inner))"
      using mem_read32_holds holds_has [OF m] by (simp add: word_bytes_u32)
    then show ?thesis using True i e by (simp only: if_True) blast
  qed (use look in simp)
qed

subsection \<open>The block and its readers\<close>

definition renamed_to :: "bstr option \<Rightarrow> target_name \<Rightarrow> renamed_symbol" where
  "renamed_to lib target = (case target of (lib', name, version) \<Rightarrow>
     \<lparr>rs_lib = (case lib' of None \<Rightarrow> lib | Some l \<Rightarrow> Some l), rs_name = name, rs_version = version\<rparr>)"

text \<open>
  What is relied on of \<open>qsort_r\<close>: as long as the comparison answers, it ends, with the same elements
  in some order. Their order is not relied on, since the readers of the block search by hash.
\<close>

definition sorts :: "((u64 \<Rightarrow> u64 \<Rightarrow> int option) \<Rightarrow> u64 list \<Rightarrow> u64 list option) \<Rightarrow> bool" where
  "sorts qsort_r \<longleftrightarrow> (\<forall>cmp xs. (\<forall>x \<in> set xs. \<forall>y \<in> set xs. cmp x y \<noteq> None) \<longrightarrow> (\<exists>ys. qsort_r cmp xs = Some ys \<and> mset ys = mset xs))"

lemma compare_ver_total:
  assumes rep: "sht_rep s ks" and x: "slot_entry s x" and y: "slot_entry s y"
  shows "compare_ver_u s x y \<noteq> None"
proof -
  have key: "\<exists>k. version_key s (slot_lo sv) = Some k" if sv: "slot_entry s sv" for sv
  proof -
    have "s_table s ! unat (slot_hi sv) \<in> set (s_table s) - {0}" using sv by (simp add: slot_entry_def Let_def)
    then obtain k u where ku: "(k, u) \<in> set (sht_layout s ks)" "s_table s ! unat (slot_hi sv) = entry_slot (k, u)"
      using rep_slots [OF rep] by auto
    have "contents_ok s ks" using rep by (simp add: sht_rep_def)
    then have "unat (slot_lo sv) = u"
      using sv ku(2) hi_entry_slot [OF layout_less(5) [OF _ ku(1)], of k] by (simp add: slot_entry_def Let_def)
    then show ?thesis using sht_p_key_spec [OF rep ku(1)] by (simp add: version_key_def)
  qed
  obtain j k where "version_key s (slot_lo x) = Some j" "version_key s (slot_lo y) = Some k" using key [OF x] key [OF y] by blast
  then show ?thesis by (simp add: compare_ver_u_def Let_def)
qed

lemma build_table_spec:
  assumes rep: "lines_rep rl vs ks tgt" and fits: "table_fits w rl vs" and qsort: "sorts qsort_r"
  shows "\<exists>ob ys. build_table qsort_r rl = Some ob \<and> ob_is ob ys \<and> length ys < 2 ^ 31 \<and>
    (\<forall>i < length (s_table (rl_renames rl)). version_done rl vs ks tgt ys i)"
proof -
  let ?s = "rl_renames rl"
  have sht: "sht_rep ?s vs" using rep by (simp add: lines_rep_def)
  have ts: "length (s_table ?s) = unat (s_mask ?s) + 1" using sht table_size_bounds(3) by (simp add: sht_rep_def)
  obtain vers where vers: "sorted_vers_of ?s = Some vers" "map (\<lambda>sv. unat (slot_hi sv)) vers = used_slots ?s" "\<forall>sv \<in> set vers. slot_entry ?s sv"
    using sorted_vers_spec [OF sht] by blast
  have "\<forall>x \<in> set vers. \<forall>y \<in> set vers. compare_ver_u ?s x y \<noteq> None" using compare_ver_total [OF sht] vers(3) by blast
  then obtain svs where svs: "qsort_r (compare_ver_u ?s) vers = Some svs" "mset svs = mset vers" using qsort unfolding sorts_def by blast
  have n: "unat ((s_mask ?s + 1) * 8) = 8 * length (s_table ?s)"
  proof -
    have "(s_mask ?s + 1) * 8 = (of_nat (8 * length (s_table ?s)) :: u32)" by (simp add: ts)
    then show ?thesis using fits unfolding table_fits_def by (simp only:) (intro unat_small, simp)
  qed
  have "ob_is outbuf_empty []" by (simp add: ob_is_def outbuf_empty_def)
  then obtain ob at where ob: "outbuf_emplace ((s_mask ?s + 1) * 8) outbuf_empty = Some (ob, at)" "ob_is ob (replicate (8 * length (s_table ?s)) 0)"
    using emplace_list [of outbuf_empty "[]" "(s_mask ?s + 1) * 8"] fits n by (auto simp: table_fits_def)
  have "mset (map (\<lambda>sv. unat (slot_hi sv)) svs) = mset (used_slots ?s)" using vers(2) svs(2) by (metis mset_map)
  moreover have "\<forall>sv \<in> set svs. slot_entry ?s sv" using vers(3) mset_eq_setD [OF svs(2)] by simp
  ultimately obtain ob' ys where "each (put_version rl) svs ob = Some ob'" "ob_is ob' ys" "length ys < 2 ^ 31"
      "\<forall>i < length (s_table ?s). version_done rl vs ks tgt ys i"
    using put_versions [OF rep fits _ _ ob(2)] by blast
  then show ?thesis unfolding build_table_def vers(1) Option.bind.simps svs(1) ob(1) prod.case by blast
qed

lemma table_block_lookup:
  assumes rep: "lines_rep rl vs ks tgt" and fits: "table_fits w rl vs" and qsort: "sorts qsort_r"
  obtains bl where "table_block qsort_r rl = Some bl"
    and "\<And>lib name version t. length version < 2 ^ 32 \<Longrightarrow>
      target_ver_registry_apply_to_name \<lparr>tv_table = bl, tv_limit = - 1, tv_target_ver = t\<rparr> \<lparr>rs_lib = lib, rs_name = name, rs_version = Some version\<rparr> =
      Some (if version \<in> set vs \<and> name \<in> set (ks version) then Some (renamed_to lib (tgt version name)) else None)"
proof -
  let ?s = "rl_renames rl"
  obtain ob ys where ob: "build_table qsort_r rl = Some ob" "ob_is ob ys" "length ys < 2 ^ 31"
      "\<forall>i < length (s_table ?s). version_done rl vs ks tgt ys i"
    using build_table_spec [OF rep fits qsort] by blast
  define m where "m = rd (ys @ [0])"
  let ?bl = "\<lparr>bl_data = m, bl_mask = s_mask ?s\<rparr>"
  have "mem_read (ob_bytes ob) 0 (unat (ob_size ob)) = Some ys" using ob(2) mem_read_holds [of "ob_bytes ob" 0 ys] by (simp add: ob_is_def)
  then have bl: "table_block qsort_r rl = Some ?bl" by (simp add: table_block_def ob(1) m_def)
  have m: "holds m 0 ys" by (simp add: holds_nth m_def rd_def nth_append)
  show ?thesis
  proof (rule that [OF bl])
    fix lib name version t
    assume len: "length (version :: bstr) < 2 ^ 32"
    let ?rr = "\<lparr>tv_table = ?bl, tv_limit = - 1, tv_target_ver = t\<rparr>" and ?sym = "\<lparr>rs_lib = lib, rs_name = name, rs_version = Some version\<rparr>"
    have rr: "bl_data (tv_table ?rr) = m" "tv_limit ?rr = - 1" by simp_all
    note look = version_lookup [OF rep m len rr ob(4)]
    show "target_ver_registry_apply_to_name ?rr ?sym =
      Some (if version \<in> set vs \<and> name \<in> set (ks version) then Some (renamed_to lib (tgt version name)) else None)"
    proof (cases "version \<in> set vs")
      case False
      then show ?thesis using look by (simp add: target_ver_registry_apply_to_name_def)
    next
      case True
      then obtain v u inner where v: "(version, u) \<in> set (sht_layout ?s vs)" "rl_inner rl (4 * u) = Some inner"
          "blob_probe m 0 (s_mask ?s) (check_version ?rr version) (hash_of version) 0 = Some (Some v)"
          "mem_read32 m (unat v + 4) = Some (s_mask (in_sht inner))"
          "\<forall>j < inner_size inner. name_done inner (ks version) (tgt version) (unat v + 8) ys j"
        using look by auto
      have inner: "inner_rep (rl_toks rl) inner (ks version) (tgt version)" using rep v(1,2) by (fastforce simp: lines_rep_def)
      have step: "target_ver_registry_apply_to_name ?rr ?sym =
        (if length name > 0xff then Some None
         else Option.bind (blob_probe m (unat v + 8) (s_mask (in_sht inner)) (check_name m (unat v + 8) name) (hash_of name) 0) (\<lambda>found.
           case found of None \<Rightarrow> Some None | Some w \<Rightarrow> map_option Some (read_rename m (unat v + 8 + unat w) ?sym)))"
        using v(3,4) by (simp add: target_ver_registry_apply_to_name_def Let_def)
      show ?thesis
      proof (cases "length name \<le> 255")
        case False
        then have "name \<notin> set (ks version)" using inner by (auto simp: inner_rep_def)
        then show ?thesis unfolding step using False by simp
      next
        case short: True
        note nl = name_lookup [OF inner m short _ v(5)]
        show ?thesis
        proof (cases "name \<in> set (ks version)")
          case False
          then show ?thesis unfolding step using nl short by simp
        next
          case True
          then obtain w where w: "blob_probe m (unat v + 8) (s_mask (in_sht inner)) (check_name m (unat v + 8) name) (hash_of name) 0 = Some (Some w)"
              "holds m (unat v + 8 + unat w) (entry_bytes name (tgt version name))" using nl by auto
          obtain lib' name' version' where t: "tgt version name = (lib', name', version')" by (cases "tgt version name")
          have "short_target (lib', name', version')" using inner True t by (auto simp: inner_rep_def)
          then have "read_rename m (unat v + 8 + unat w) ?sym = Some (renamed_to lib (tgt version name))"
            using read_rename_entry [OF w(2) [unfolded t]] by (simp add: renamed_to_def t)
          then show ?thesis unfolding step using short w(1) True \<open>version \<in> set vs\<close> by simp
        qed
      qed
    qed
  qed
qed

end
