(* ===== verification/RenameLines.thy ===== *)
theory RenameLines
  imports RenameLookup TokeniseDecode
begin

section \<open>The lines of the file and the tables that are made of them\<close>

text \<open>
  What the lines of the file mean, that each line adds its entry to the tables, and the whole
  program: from the text of the file to what the renamer finds in the block.
\<close>

subsection \<open>What the lines say\<close>

text \<open>Version and name, and what they become.\<close>

type_synonym rename_entry = "(bstr \<times> bstr) \<times> target_name"

definition part_of :: "tokeniser \<Rightarrow> lstr \<Rightarrow> bstr option option" where
  "part_of toks l = (if ls_chars l = None then Some None else map_option Some (lstr_bytes toks l))"

definition meaning :: "tokeniser \<Rightarrow> parsed_name_t \<Rightarrow> target_name option" where
  "meaning toks nn = do {
     lib \<leftarrow> part_of toks (pn_lib nn);
     name \<leftarrow> lstr_bytes toks (pn_name nn);
     version \<leftarrow> part_of toks (pn_version nn);
     Some (lib, name, version) }"

definition line_entry :: "tokeniser \<Rightarrow> nat \<Rightarrow> (rename_entry \<times> nat) option" where
  "line_entry toks i = do {
     (old_name, i) \<leftarrow> parse_name (t_tokens toks) i;
     version \<leftarrow> lstr_bytes toks (pn_version old_name);
     name \<leftarrow> lstr_bytes toks (pn_name old_name);
     (new_name, i) \<leftarrow> parse_name (t_tokens toks) i;
     target \<leftarrow> meaning toks new_name;
     Some (((version, name), target), i) }"

partial_function (option) line_entries :: "tokeniser \<Rightarrow> nat \<Rightarrow> rename_entry list option" where
  "line_entries toks i = Option.bind (rd (t_tokens toks) i) (\<lambda>t.
     if tok_type t = TOK_EOF then Some []
     else Option.bind (line_entry toks i) (\<lambda>(e, i). Option.bind (line_entries toks i) (\<lambda>es. Some (e # es))))"

definition short_entry :: "rename_entry \<Rightarrow> bool" where
  "short_entry e = (case e of ((version, name), target) \<Rightarrow> length version \<le> 255 \<and> length name \<le> 255 \<and> short_target target)"

lemma lstr_bytes_length: "lstr_bytes toks l = Some s \<Longrightarrow> length s = unat (ls_len l)"
  by (auto simp: lstr_bytes_def slice_def key_bytes_def bind_eq_Some_conv split: if_splits)

lemma names_part_of: "part_of toks l = Some str \<Longrightarrow> names_part toks l str"
  by (auto simp: part_of_def names_part_def lstr_bytes_length split: if_splits option.splits)

lemma lstr_bytes_chars: "lstr_bytes toks l = Some s \<Longrightarrow> ls_chars l \<noteq> None"
  by (auto simp: lstr_bytes_def bind_eq_Some_conv)

lemma names_meaning: "meaning toks nn = Some target \<Longrightarrow> names toks nn target"
  by (auto simp: meaning_def names_def bind_eq_Some_conv names_part_of names_part_def [of _ _ "Some _"] lstr_bytes_length
      dest: lstr_bytes_chars)

lemma lstr_bytes_text: "t_text toks' = t_text toks \<Longrightarrow> lstr_bytes toks' = lstr_bytes toks"
proof -
  assume "t_text toks' = t_text toks"
  then have "t_base toks' = t_base toks" by (simp only: t_base_def)
  then show ?thesis by (intro ext) (simp only: lstr_bytes_def)
qed

lemma names_text: "t_text toks' = t_text toks \<Longrightarrow> names toks' = names toks"
  by (intro ext) (simp only: names_def names_part_def lstr_bytes_text [of toks' toks])

lemma inner_rep_text: "t_text toks' = t_text toks \<Longrightarrow> inner_rep toks' = inner_rep toks"
  by (intro ext) (simp only: inner_rep_def names_text [of toks' toks])

lemma next_line_text: "tokeniser_next_line_start toks ofs = Some (toks', l) \<Longrightarrow> t_text toks' = t_text toks \<and> t_tokens toks' = t_tokens toks"
  by (auto simp: tokeniser_next_line_start_def offset_to_line_def Let_def split: option.splits if_splits)

subsection \<open>Sizes\<close>

lemma intern_mask:
  assumes "sht_intern_u s k = Some (s', u)"
  shows "s_mask s' = s_mask s \<or> s_mask s' = s_mask s * 2 + 1 \<and> load_full (s_count s') (s_mask s)"
proof -
  have add: "s_mask s1 = s_mask s" if "add_to_contents s k = Some (s1, r)" for s1 r
    using that by (auto simp: add_to_contents_def put_contents_def Let_def split: option.splits if_splits)
  have grow: "s_mask s2 = s_mask s1 \<or> s_mask s2 = s_mask s1 * 2 + 1 \<and> load_full (s_count s2) (s_mask s1)" if "sht_grow s1 = Some s2" for s1 s2
    using that by (auto simp: sht_grow_def sht_rehash_def rehash_table_def Let_def split: option.splits if_splits)
  show ?thesis
    using assms by (auto simp: sht_intern_u_def split: option.splits rh_result.splits dest!: add grow)
qed

definition slim :: "sht \<Rightarrow> nat \<Rightarrow> bool" where
  "slim s n \<longleftrightarrow> length (s_table s) \<le> 4 * n + 4"

lemma slim_intern:
  assumes rep: "sht_rep s ks" "sht_rep s' ks'" and i: "sht_intern_u s k = Some (s', u)"
    and slim: "slim s (length ks)" and mono: "length ks \<le> length ks'"
  shows "slim s' (length ks')"
proof -
  have n: "length (s_table t) = unat (s_mask t) + 1" "unat (s_count t) = length js" if "sht_rep t js" for t js
    using that table_size_bounds(3) by (simp_all add: sht_rep_def)
  from intern_mask [OF i] show ?thesis
  proof
    assume "s_mask s' = s_mask s"
    then show ?thesis using slim mono n(1) [OF rep(1)] n(1) [OF rep(2)] by (simp add: slim_def)
  next
    assume g: "s_mask s' = s_mask s * 2 + 1 \<and> load_full (s_count s') (s_mask s)"
    then have "unat (s_mask s) * 3 \<le> length ks' * 4" using n(2) [OF rep(2)] by (simp add: load_full_iff)
    moreover have "unat (s_mask s') \<le> 2 * unat (s_mask s) + 1"
      using g mod_less_eq_dividend [of "Suc (unat (s_mask s) * 2)" "2 ^ 32"] by (simp add: unat_word_ariths mod_Suc_eq mult.commute)
    ultimately show ?thesis using n(1) [OF rep(2)] by (simp add: slim_def)
  qed
qed

lemma sht_size_bound:
  assumes rep: "sht_rep s ks" and short: "\<forall>k \<in> set ks. length k \<le> 255"
  shows "unat (s_size s) \<le> 3 + length ks * (65 + unat (s_value_length s))"
proof -
  have "layout_end v n ks \<le> n + length ks * (65 + v)" if "\<forall>k \<in> set ks. length k \<le> 255" for v n
    using that
  proof (induction ks arbitrary: n)
    case (Cons k ks)
    have "(length k + 8) div 4 \<le> (255 + 8) div 4" using Cons.prems by (intro div_le_mono) simp
    then have "key_units k \<le> 65" by (simp add: key_units_def)
    then show ?case using Cons.IH [of "n + key_units k + v"] Cons.prems by simp
  qed simp
  then show ?thesis using rep short by (simp add: sht_rep_def contents_ok_def) metis
qed

subsection \<open>The tables after some lines\<close>

text \<open>What interning a short key does to a table that is not too full.\<close>

lemma intern_short:
  assumes rep: "sht_rep s ks" and short: "\<forall>k \<in> set (key # ks). length k \<le> 255" and v: "unat (s_value_length s) \<le> 12"
    and n: "length ks \<le> 2 ^ 24" and i: "sht_intern_p s key = Some (s', p)" and slim: "slim s (length ks)"
  shows "\<exists>u ks'. p = 4 * u \<and> ks' = (if key \<in> set ks then ks else ks @ [key]) \<and> sht_rep s' ks' \<and> s_value_length s' = s_value_length s \<and>
    slim s' (length ks') \<and> set (sht_layout s' ks') = insert (key, u) (set (sht_layout s ks)) \<and>
    (if key \<in> set ks then (key, u) \<in> set (sht_layout s ks) else (\<forall>(k, w) \<in> set (sht_layout s ks). w \<noteq> u))"
proof -
  have size: "unat (s_size s) \<le> 3 + length ks * 77"
  proof -
    have "unat (s_size s) \<le> 3 + length ks * (65 + unat (s_value_length s))" using short by (intro sht_size_bound [OF rep]) simp
    moreover have "length ks * (65 + unat (s_value_length s)) \<le> length ks * 77" using v by (intro mult_le_mono2) simp
    ultimately show ?thesis by linarith
  qed
  have ku: "key_units key \<le> 65"
  proof -
    have "(length key + 8) div 4 \<le> (255 + 8) div 4" using short by (intro div_le_mono) simp
    then show ?thesis by (simp add: key_units_def)
  qed
  have room: "sht_room s key" using size ku v n short by (simp add: sht_room_def)
  obtain s1 u where s1: "sht_intern_u s key = Some (s1, of_nat u)" "u < 2 ^ 32"
    "if key \<in> set ks then s1 = s \<and> map_of (sht_layout s ks) key = Some u
     else u = unat (s_size s) + key_units key \<and> sht_rep s1 (ks @ [key]) \<and>
       sht_layout s1 (ks @ [key]) = sht_layout s ks @ [(key, u)] \<and>
       holds (s_mem s1) (4 * u) (replicate (4 * unat (s_value_length s)) 0) \<and>
       (\<forall>i < 4 * unat (s_size s). s_mem s1 i = s_mem s i) \<and> s_value_length s1 = s_value_length s"
    using sht_intern_spec [OF rep room] by blast
  have s': "s' = s1" "p = 4 * u" using i s1(1,2) by (simp_all add: sht_intern_p_def unat_of_nat)
  have c: "contents_ok s ks" using rep by (simp add: sht_rep_def)
  show ?thesis
  proof (cases "key \<in> set ks")
    case True
    then have "(key, u) \<in> set (sht_layout s ks)" using s1(3) map_of_SomeD by fastforce
    then show ?thesis using True s1(3) s' rep slim by (intro exI [of _ u] exI [of _ ks]) auto
  next
    case False
    then have rep1: "sht_rep s1 (ks @ [key])" and u: "u = unat (s_size s) + key_units key" using s1(3) by simp_all
    have "slim s1 (length (ks @ [key]))" by (rule slim_intern [OF rep rep1 s1(1) slim]) simp
    moreover have "w \<noteq> u" if "(k, w) \<in> set (sht_layout s ks)" for k w
      using layout_less(4) [OF c that] u key_units_ge [of key] by linarith
    ultimately show ?thesis using False s1(3) s' rep1 by (intro exI [of _ u] exI [of _ "ks @ [key]"]) auto
  qed
qed

definition entries_map :: "bstr list \<Rightarrow> (bstr \<Rightarrow> bstr list) \<Rightarrow> (bstr \<Rightarrow> bstr \<Rightarrow> target_name) \<Rightarrow> bstr \<times> bstr \<Rightarrow> target_name option" where
  "entries_map vs ks tgt vk = (if fst vk \<in> set vs \<and> snd vk \<in> set (ks (fst vk)) then Some (tgt (fst vk) (snd vk)) else None)"

definition lines_for :: "tokeniser \<Rightarrow> rename_lines \<Rightarrow> rename_entry list \<Rightarrow> bstr list \<Rightarrow> (bstr \<Rightarrow> bstr list) \<Rightarrow> (bstr \<Rightarrow> bstr \<Rightarrow> target_name) \<Rightarrow> bool" where
  "lines_for toks rl es vs ks tgt \<longleftrightarrow> lines_rep rl vs ks tgt \<and> t_text (rl_toks rl) = t_text toks \<and> t_tokens (rl_toks rl) = t_tokens toks \<and>
     dom (rl_inner rl) = (\<lambda>(v, u). 4 * u) ` set (sht_layout (rl_renames rl) vs) \<and> map_of es = entries_map vs ks tgt \<and>
     s_value_length (rl_renames rl) = 6 \<and> slim (rl_renames rl) (length vs) \<and> (\<forall>v \<in> set vs. length v \<le> 255 \<and> ks v \<noteq> []) \<and>
     (\<forall>(v, u) \<in> set (sht_layout (rl_renames rl) vs). \<forall>inner. rl_inner rl (4 * u) = Some inner \<longrightarrow>
       s_value_length (in_sht inner) = 12 \<and> slim (in_sht inner) (length (ks v))) \<and> (\<forall>v. v \<notin> set vs \<longrightarrow> ks v = [])"

lemma length_le_image: "distinct xs \<Longrightarrow> set xs \<subseteq> f ` set ys \<Longrightarrow> length xs \<le> length ys"
proof -
  assume x: "distinct xs" "set xs \<subseteq> f ` set ys"
  have "length xs = card (set xs)" using x(1) by (simp add: distinct_card)
  also have "\<dots> \<le> card (f ` set ys)" using x(2) by (intro card_mono) simp_all
  also have "\<dots> \<le> card (set ys)" by (intro card_image_le) simp
  also have "\<dots> \<le> length ys" by (rule card_length)
  finally show ?thesis .
qed

lemma lines_for_counts:
  assumes l: "lines_for toks rl es vs ks tgt"
  shows "length vs \<le> length es" "\<And>v. length (ks v) \<le> length (filter (\<lambda>e. fst (fst e) = v) es)"
proof -
  have m: "map_of es = entries_map vs ks tgt" using l by (simp add: lines_for_def)
  have rep: "lines_rep rl vs ks tgt" using l by (simp add: lines_for_def)
  then have sht: "sht_rep (rl_renames rl) vs" by (simp add: lines_rep_def)
  then have "distinct vs" by (simp add: sht_rep_def contents_ok_def)
  moreover have "set vs \<subseteq> (fst \<circ> fst) ` set es"
  proof
    fix v assume v: "v \<in> set vs"
    then obtain k where "k \<in> set (ks v)" using l by (cases "ks v") (auto simp: lines_for_def)
    then have "map_of es (v, k) = Some (tgt v k)" using v by (simp add: m entries_map_def)
    then have "((v, k), tgt v k) \<in> set es" by (rule map_of_SomeD)
    then show "v \<in> (fst \<circ> fst) ` set es" by (rule rev_image_eqI) simp
  qed
  ultimately show "length vs \<le> length es"
    by (rule length_le_image)
  fix v
  show "length (ks v) \<le> length (filter (\<lambda>e. fst (fst e) = v) es)"
  proof (cases "v \<in> set vs")
    case False
    then show ?thesis using l by (simp add: lines_for_def)
  next
    case True
    then have "v \<in> fst ` set (sht_layout (rl_renames rl) vs)" by (simp add: fst_sht_layout)
    then obtain u where "(v, u) \<in> set (sht_layout (rl_renames rl) vs)" by auto
    then obtain inner where "inner_rep (rl_toks rl) inner (ks v) (tgt v)" using rep by (fastforce simp: lines_rep_def)
    then have "distinct (ks v)" by (simp add: inner_rep_def sht_rep_def contents_ok_def)
    moreover have "set (ks v) \<subseteq> (snd \<circ> fst) ` set (filter (\<lambda>e. fst (fst e) = v) es)"
    proof
      fix k assume "k \<in> set (ks v)"
      then have "map_of es (v, k) = Some (tgt v k)" using True by (simp add: m entries_map_def)
      then have "((v, k), tgt v k) \<in> set es" by (rule map_of_SomeD)
      then have "((v, k), tgt v k) \<in> set (filter (\<lambda>e. fst (fst e) = v) es)" by simp
      then show "k \<in> (snd \<circ> fst) ` set (filter (\<lambda>e. fst (fst e) = v) es)" by (rule rev_image_eqI) simp
    qed
    ultimately show ?thesis
      by (rule length_le_image)
  qed
qed

lemma init_sizes:
  "sht_rep (in_sht inner_init) []" "s_value_length (in_sht inner_init) = 12" "slim (in_sht inner_init) 0"
  "sht_layout (in_sht inner_init) [] = []"
  using sht_init_rep [of 48] by (simp_all add: inner_init_def sht_init_def slim_def sht_layout_def)

text \<open>The table of a version before a line for it is read.\<close>

lemma inner_before:
  assumes l: "lines_for toks rl es vs ks tgt"
    and u: "if V \<in> set vs then (V, u) \<in> set (sht_layout (rl_renames rl) vs) else (\<forall>(k, w) \<in> set (sht_layout (rl_renames rl) vs). w \<noteq> u)"
  shows "inner_rep toks (inner_at rl (4 * u)) (ks V) (tgt V)" "s_value_length (in_sht (inner_at rl (4 * u))) = 12"
    "slim (in_sht (inner_at rl (4 * u))) (length (ks V))"
proof -
  note tx = inner_rep_text [of "rl_toks rl" toks]
  have "inner_rep toks (inner_at rl (4 * u)) (ks V) (tgt V) \<and> s_value_length (in_sht (inner_at rl (4 * u))) = 12 \<and>
    slim (in_sht (inner_at rl (4 * u))) (length (ks V))"
  proof (cases "V \<in> set vs")
    case True
    then have vu: "(V, u) \<in> set (sht_layout (rl_renames rl) vs)" using u by simp
    then obtain inner where "rl_inner rl (4 * u) = Some inner" "inner_rep (rl_toks rl) inner (ks V) (tgt V)"
      using l by (fastforce simp: lines_for_def lines_rep_def)
    then show ?thesis using l vu tx by (fastforce simp: lines_for_def inner_at_def)
  next
    case False
    then have "4 * u \<notin> dom (rl_inner rl)" using l u by (auto simp: lines_for_def)
    then have "inner_at rl (4 * u) = inner_init" by (simp add: inner_at_def domIff)
    moreover have "ks V = []" using l False by (simp add: lines_for_def)
    ultimately show ?thesis using init_sizes by (simp add: inner_rep_def)
  qed
  then show "inner_rep toks (inner_at rl (4 * u)) (ks V) (tgt V)" "s_value_length (in_sht (inner_at rl (4 * u))) = 12"
    "slim (in_sht (inner_at rl (4 * u))) (length (ks V))" by simp_all
qed

lemma layout_units_inj:
  assumes "sht_rep s ks" and "(k, u) \<in> set (sht_layout s ks)" and "(k', u) \<in> set (sht_layout s ks)"
  shows "k = k'"
proof -
  have c: "contents_ok s ks" using assms(1) by (simp add: sht_rep_def)
  then have d: "distinct (map fst (sht_layout s ks))" by (simp add: sht_layout_def contents_ok_def)
  show ?thesis using layout_inj [OF c] map_of_is_SomeI [OF d assms(2)] map_of_is_SomeI [OF d assms(3)] by blast
qed

lemma set_put_old_name:
  assumes l: "lines_for toks rl es vs ks tgt" and n: "length es \<le> 2 ^ 24"
    and old: "lstr_bytes toks (pn_version old) = Some V" "lstr_bytes toks (pn_name old) = Some K" "length V \<le> 255" "length K \<le> 255"
    and put: "put_old_name rl old = Some (rl1, p, dst, False)" and new: "meaning toks new = Some T" "short_target T"
  shows "(V, K) \<notin> fst ` set es" "\<exists>vs' ks' tgt'. lines_for toks (set_rename p dst new rl1) (es @ [((V, K), T)]) vs' ks' tgt'"
proof -
  note tx = lstr_bytes_text [of "rl_toks rl" toks]
  have lb: "lstr_bytes (rl_toks rl) = lstr_bytes toks" using l tx by (simp add: lines_for_def)
  obtain renames table where s: "sht_intern_p (rl_renames rl) V = Some (renames, p)"
      "sht_intern_p (in_sht (inner_at rl p)) K = Some (table, dst)"
      "rl1 = rl\<lparr>rl_renames := renames, rl_inner := (rl_inner rl)(p \<mapsto> (inner_at rl p)\<lparr>in_sht := table\<rparr>)\<rparr>"
      "ls_chars (pn_name (in_value (inner_at rl p) dst)) = None"
    using put old(1,2) by (auto simp: put_old_name_def lb bind_eq_Some_conv Let_def)
  have rep: "sht_rep (rl_renames rl) vs" using l by (simp add: lines_for_def lines_rep_def)
  have counts: "length vs \<le> 2 ^ 24" "length (ks V) \<le> 2 ^ 24"
    using lines_for_counts [OF l] n length_filter_le le_trans by blast+
  obtain u vs' where u: "p = 4 * u" "vs' = (if V \<in> set vs then vs else vs @ [V])" "sht_rep renames vs'" "s_value_length renames = 6"
      "slim renames (length vs')" "set (sht_layout renames vs') = insert (V, u) (set (sht_layout (rl_renames rl) vs))"
      "if V \<in> set vs then (V, u) \<in> set (sht_layout (rl_renames rl) vs) else (\<forall>(k, w) \<in> set (sht_layout (rl_renames rl) vs). w \<noteq> u)"
    using intern_short [OF rep _ _ counts(1) s(1)] l old(3) by (auto simp: lines_for_def)
  have ib: "inner_rep toks (inner_at rl p) (ks V) (tgt V)" "s_value_length (in_sht (inner_at rl p)) = 12"
      "slim (in_sht (inner_at rl p)) (length (ks V))"
    using inner_before [OF l u(7)] by (simp_all add: u(1))
  let ?inner = "inner_at rl p"
  have irep: "sht_rep (in_sht ?inner) (ks V)" "\<forall>k \<in> set (ks V). length k \<le> 255 \<and> short_target (tgt V k)"
    using ib(1) by (simp_all add: inner_rep_def)
  obtain d ks' where d: "dst = 4 * d" "ks' = (if K \<in> set (ks V) then ks V else ks V @ [K])" "sht_rep table ks'" "s_value_length table = 12"
      "slim table (length ks')" "set (sht_layout table ks') = insert (K, d) (set (sht_layout (in_sht ?inner) (ks V)))"
      "if K \<in> set (ks V) then (K, d) \<in> set (sht_layout (in_sht ?inner) (ks V)) else (\<forall>(k, w) \<in> set (sht_layout (in_sht ?inner) (ks V)). w \<noteq> d)"
    using intern_short [OF irep(1) _ _ counts(2) s(2) ib(3)] irep(2) ib(2) old(4) by auto
  have new_name: "K \<notin> set (ks V)"
  proof
    assume "K \<in> set (ks V)"
    then have "names toks (in_value ?inner (4 * d)) (tgt V K)" using d(7) ib(1) by (auto simp: inner_rep_def)
    then show False using s(4) d(1) by (cases "tgt V K") (simp add: names_def names_part_def)
  qed
  have "map_of es (V, K) = None" using l new_name by (simp add: lines_for_def entries_map_def)
  then show "(V, K) \<notin> fst ` set es" by (simp add: map_of_eq_None_iff)
  let ?inner' = "?inner\<lparr>in_sht := table, in_value := (in_value ?inner)(dst := new)\<rparr>"
  let ?ks = "ks(V := ks')" and ?tgt = "\<lambda>v k. if v = V \<and> k = K then T else tgt v k"
  have r: "set_rename p dst new rl1 = rl\<lparr>rl_renames := renames, rl_inner := (rl_inner rl)(p \<mapsto> ?inner')\<rparr>"
    by (simp add: set_rename_def s(3) inner_at_def Let_def)
  have inner': "inner_rep toks ?inner' ks' (?tgt V)"
  proof -
    have "names toks (in_value ?inner' (4 * w)) (?tgt V k)" if kw: "(k, w) \<in> set (sht_layout table ks')" for k w
    proof (cases "(k, w) = (K, d)")
      case True
      then show ?thesis using names_meaning [OF new(1)] by (simp add: d(1))
    next
      case False
      then have old: "(k, w) \<in> set (sht_layout (in_sht ?inner) (ks V))" using kw d(6) by auto
      then have "k \<in> set (ks V)" using fst_sht_layout [of "in_sht ?inner" "ks V"] by force
      moreover have "w \<noteq> d" using old d(7) new_name by auto
      moreover have "names toks (in_value ?inner (4 * w)) (tgt V k)" using ib(1) old by (auto simp: inner_rep_def)
      ultimately show ?thesis using new_name d(1) by auto
    qed
    then have val: "\<forall>(k, w) \<in> set (sht_layout table ks'). names toks (in_value ?inner' (4 * w)) (?tgt V k)" by blast
    have short: "\<forall>k \<in> set ks'. length k \<le> 255 \<and> short_target (?tgt V k)" using irep(2) old(4) new(2) d(2) new_name by auto
    have table: "in_sht ?inner' = table" by simp
    show ?thesis unfolding inner_rep_def table using d(3) val short by blast
  qed
  have old_entry: "(v, w) \<in> set (sht_layout (rl_renames rl) vs) \<and> v \<noteq> V \<and> w \<noteq> u"
    if vw: "(v, w) \<in> set (sht_layout renames vs')" "(v, w) \<noteq> (V, u)" for v w
  proof -
    have c: "contents_ok renames vs'" using u(3) by (simp add: sht_rep_def)
    then have dist: "distinct (map fst (sht_layout renames vs'))" by (simp add: sht_layout_def contents_ok_def)
    have Vu: "(V, u) \<in> set (sht_layout renames vs')" using u(6) by simp
    have "v \<noteq> V" using map_of_is_SomeI [OF dist Vu] map_of_is_SomeI [OF dist vw(1)] vw(2) by auto
    moreover have "w \<noteq> u" using layout_units_inj [OF u(3) vw(1)] Vu \<open>v \<noteq> V\<close> by blast
    ultimately show ?thesis using vw u(6) by auto
  qed
  define rl2 where "rl2 = set_rename p dst new rl1"
  have f: "rl_renames rl2 = renames" "rl_toks rl2 = rl_toks rl" "rl_inner rl2 = (rl_inner rl)(p \<mapsto> ?inner')"
    by (simp_all add: rl2_def r)
  note old_l = l [unfolded lines_for_def]
  have keep: "rl_inner rl2 (4 * w) = rl_inner rl (4 * w)" if "w \<noteq> u" for w using that u(1) unfolding f by simp
  have at: "rl_inner rl2 (4 * u) = Some ?inner'" using u(1) unfolding f by simp
  have lr: "lines_rep rl vs ks tgt" using old_l by blast
  have rep2: "\<exists>inner. rl_inner rl2 (4 * w) = Some inner \<and> inner_rep (rl_toks rl) inner (?ks v) (?tgt v)"
    if vw: "(v, w) \<in> set (sht_layout renames vs')" for v w
  proof (cases "(v, w) = (V, u)")
    case True
    have "t_text (rl_toks rl) = t_text toks" using old_l by blast
    then have "inner_rep (rl_toks rl) = inner_rep toks" by (rule inner_rep_text)
    then show ?thesis using at inner' True by auto
  next
    case False
    note o = old_entry [OF vw False]
    have same: "?ks v = ks v" "?tgt v = tgt v" using o by auto
    obtain inner where "rl_inner rl (4 * w) = Some inner" "inner_rep (rl_toks rl) inner (ks v) (tgt v)"
      using lr o by (fastforce simp: lines_rep_def)
    then show ?thesis using keep o same by metis
  qed
  have "\<forall>(v, w) \<in> set (sht_layout renames vs'). \<exists>inner. rl_inner rl2 (4 * w) = Some inner \<and> inner_rep (rl_toks rl) inner (?ks v) (?tgt v)"
    using rep2 by blast
  then have lines: "lines_rep rl2 vs' ?ks ?tgt" unfolding lines_rep_def f(1,2) using u(3) by blast
  have dom2: "dom (rl_inner rl2) = (\<lambda>(v, u). 4 * u) ` set (sht_layout renames vs')"
    using old_l u(1,6) unfolding f by simp
  have maps: "map_of (es @ [((V, K), T)]) = entries_map vs' ?ks ?tgt"
  proof
    fix vk :: "bstr \<times> bstr"
    obtain v k where vk: "vk = (v, k)" by (cases vk)
    have m: "map_of es = entries_map vs ks tgt" using old_l by blast
    have "V \<notin> set vs \<Longrightarrow> ks V = []" using old_l by blast
    then show "map_of (es @ [((V, K), T)]) vk = entries_map vs' ?ks ?tgt vk"
      using new_name u(2) d(2) by (auto simp: vk map_add_def m entries_map_def)
  qed
  have size1: "s_value_length (in_sht inner) = 12 \<and> slim (in_sht inner) (length (?ks v))"
    if vw: "(v, w) \<in> set (sht_layout renames vs')" "rl_inner rl2 (4 * w) = Some inner" for v w inner
  proof (cases "(v, w) = (V, u)")
    case True
    then show ?thesis using vw(2) at d(4,5) by auto
  next
    case False
    note o = old_entry [OF vw(1) False]
    then show ?thesis using vw(2) keep [of w] old_l by fastforce
  qed
  have sizes: "\<forall>(v, w) \<in> set (sht_layout renames vs'). \<forall>inner. rl_inner rl2 (4 * w) = Some inner \<longrightarrow>
      s_value_length (in_sht inner) = 12 \<and> slim (in_sht inner) (length (?ks v))"
    using size1 by blast
  have keys1: "\<forall>v \<in> set vs'. length v \<le> 255 \<and> ?ks v \<noteq> []" using old_l u(2) old(3) d(2) by auto
  have keys2: "\<forall>v. v \<notin> set vs' \<longrightarrow> ?ks v = []" using old_l u(2) by auto
  have "t_text (rl_toks rl) = t_text toks \<and> t_tokens (rl_toks rl) = t_tokens toks" using old_l by blast
  then have "lines_for toks rl2 (es @ [((V, K), T)]) vs' ?ks ?tgt"
    unfolding lines_for_def f(1,2) using lines dom2 maps sizes keys1 keys2 u(4,5) by blast
  then show "\<exists>vs' ks' tgt'. lines_for toks (set_rename p dst new rl1) (es @ [((V, K), T)]) vs' ks' tgt'"
    unfolding rl2_def by blast
qed

lemma lines_for_toks: "lines_for toks rl es vs ks tgt \<Longrightarrow> t_text tk = t_text (rl_toks rl) \<Longrightarrow> t_tokens tk = t_tokens (rl_toks rl) \<Longrightarrow>
    lines_for toks (rl\<lparr>rl_toks := tk\<rparr>) es vs ks tgt"
  using inner_rep_text [of tk "rl_toks rl"] unfolding lines_for_def lines_rep_def by simp

lemma lstr_bytes_init:
  assumes "lines_for toks rl es vs ks tgt"
  shows "lstr_bytes (rl_toks rl) = lstr_bytes toks" "t_tokens (rl_toks rl) = t_tokens toks"
  using assms lstr_bytes_text [of "rl_toks rl" toks] by (simp_all add: lines_for_def)

lemma parse_line_entry:
  assumes l: "lines_for toks rl es vs ks tgt" and n: "length es \<le> 2 ^ 24"
    and p: "parse_line rl i = Some (Inr (rl', i'))" and e: "line_entry toks i = Some (e, j)" and short: "short_entry e"
  shows "j = i' \<and> fst e \<notin> fst ` set es \<and> (\<exists>vs' ks' tgt'. lines_for toks rl' (es @ [e]) vs' ks' tgt')"
proof -
  have toks: "t_tokens (rl_toks rl) = t_tokens toks" by (rule lstr_bytes_init(2) [OF l])
  obtain old i1 V K new T where e: "parse_name (t_tokens toks) i = Some (old, i1)" "lstr_bytes toks (pn_version old) = Some V"
      "lstr_bytes toks (pn_name old) = Some K" "parse_name (t_tokens toks) i1 = Some (new, j)" "meaning toks new = Some T" "e = ((V, K), T)"
    using e by (auto simp: line_entry_def bind_eq_Some_conv)
  note line = p [unfolded parse_line_def toks Let_def]
  obtain t where t: "rd (t_tokens toks) i = Some t" using line by (auto simp: bind_eq_Some_conv)
  obtain tk next_line where tk: "tokeniser_next_line_start (rl_toks rl) (tok_start t) = Some (tk, next_line)"
    using line by (auto simp: t bind_eq_Some_conv)
  obtain rl1 p dst d where put: "put_old_name (rl\<lparr>rl_toks := tk\<rparr>) old = Some (rl1, p, dst, d)"
    using line by (auto simp: t tk e(1) bind_eq_Some_conv fail_at_def split: if_splits)
  have d: "d = False" using line by (auto simp: t tk e(1) put bind_eq_Some_conv fail_at_def split: if_splits)
  have end_of: "rl' = set_rename p dst new rl1" "j = i'"
    using line e(4) by (auto simp: t tk e(1) put bind_eq_Some_conv fail_at_def split: if_splits)
  have "lines_for toks (rl\<lparr>rl_toks := tk\<rparr>) es vs ks tgt" using next_line_text [OF tk] by (intro lines_for_toks [OF l]) simp_all
  note s = set_put_old_name [OF this n e(2,3) _ _ put [unfolded d] e(5)]
  show ?thesis using s short end_of by (simp add: e(6) short_entry_def)
qed

lemma parse_lines_entries:
  assumes "parse_lines rl i = Some (Inr rl')" and "lines_for toks rl es vs ks tgt" and "line_entries toks i = Some es'"
    and "list_all short_entry es'" and "length (es @ es') \<le> 2 ^ 24" and "distinct (map fst es)"
  shows "distinct (map fst (es @ es')) \<and> (\<exists>vs' ks' tgt'. lines_for toks rl' (es @ es') vs' ks' tgt')"
proof -
  have "(r = Inr rl' \<longrightarrow> lines_for toks rl es vs ks tgt \<longrightarrow> line_entries toks i = Some es' \<longrightarrow> list_all short_entry es' \<longrightarrow>
      length (es @ es') \<le> 2 ^ 24 \<longrightarrow> distinct (map fst es) \<longrightarrow>
      distinct (map fst (es @ es')) \<and> (\<exists>vs' ks' tgt'. lines_for toks rl' (es @ es') vs' ks' tgt'))" if "parse_lines rl i = Some r" for r
    using that
  proof (induction rl i r arbitrary: es es' vs ks tgt rule: parse_lines.raw_induct [rotated, consumes 1])
    case (1 parse_lines rl i r)
    show ?case
    proof (intro impI)
      assume r: "r = Inr rl'" and l: "lines_for toks rl es vs ks tgt" and es': "line_entries toks i = Some es'"
        and short: "list_all short_entry es'" and n: "length (es @ es') \<le> 2 ^ 24" and d: "distinct (map fst es)"
      have toks: "t_tokens (rl_toks rl) = t_tokens toks" by (rule lstr_bytes_init(2) [OF l])
      obtain t where t: "rd (t_tokens toks) i = Some t" using 1(2) by (auto simp: toks bind_eq_Some_conv)
      show "distinct (map fst (es @ es')) \<and> (\<exists>vs' ks' tgt'. lines_for toks rl' (es @ es') vs' ks' tgt')"
      proof (cases "tok_type t = TOK_EOF")
        case True
        then show ?thesis using 1(2) es' r l t d by (auto simp: toks line_entries.simps [of toks i])
      next
        case False
        obtain rl1 i1 where p: "parse_line rl i = Some (Inr (rl1, i1))" "parse_lines rl1 i1 = Some (Inr rl')"
          using 1(2) False t r by (auto simp: toks bind_eq_Some_conv split: sum.splits prod.splits) (metis sum.exhaust prod.exhaust)
        obtain e j es1 where e: "line_entry toks i = Some (e, j)" "line_entries toks j = Some es1" "es' = e # es1"
          using es' False t by (auto simp: line_entries.simps [of toks i] bind_eq_Some_conv)
        have "j = i1 \<and> fst e \<notin> fst ` set es \<and> (\<exists>vs' ks' tgt'. lines_for toks rl1 (es @ [e]) vs' ks' tgt')"
          using n short by (intro parse_line_entry [OF l _ p(1) e(1)]) (simp_all add: e(3))
        then obtain vs1 ks1 tgt1 where l1: "j = i1" "fst e \<notin> fst ` set es" "lines_for toks rl1 (es @ [e]) vs1 ks1 tgt1" by blast
        have "distinct (map fst ((es @ [e]) @ es1)) \<and> (\<exists>vs' ks' tgt'. lines_for toks rl' ((es @ [e]) @ es1) vs' ks' tgt')"
        proof -
          have "line_entries toks i1 = Some es1" "list_all short_entry es1" "length ((es @ [e]) @ es1) \<le> 2 ^ 24"
              "distinct (map fst (es @ [e]))"
            using e(2) l1(1,2) short n d by (simp_all add: e(3))
          then show ?thesis using 1(1) [OF p(2)] l1(3) by blast
        qed
        then show ?thesis by (simp add: e(3))
      qed
    qed
  qed
  then show ?thesis using assms by blast
qed

lemma lines_for_init: "lines_for toks \<lparr>rl_toks = toks, rl_renames = renames_init, rl_inner = Map.empty\<rparr> [] [] (\<lambda>_. []) tgt"
proof -
  have "sht_rep renames_init []" "s_value_length renames_init = 6" "slim renames_init 0" "sht_layout renames_init [] = []"
    using sht_init_rep [of 24] by (simp_all add: renames_init_def sht_init_def slim_def sht_layout_def)
  then show ?thesis by (simp add: lines_for_def lines_rep_def entries_map_def fun_eq_iff)
qed

subsection \<open>The whole program\<close>

text \<open>Bounds for a file with at most \<open>n\<close> versions and at most \<open>k\<close> names for each of them.\<close>

definition entries_fit :: "nat \<Rightarrow> nat \<Rightarrow> rename_entry list \<Rightarrow> bool" where
  "entries_fit n k es \<longleftrightarrow> length es \<le> 2 ^ 24 \<and> length (remdups (map (fst \<circ> fst) es)) \<le> n \<and>
     (\<forall>v \<in> fst ` fst ` set es. length (filter (\<lambda>e. fst (fst e) = v) es) \<le> k) \<and>
     32 * (n + 1) + (355 + 4800 * (k + 1)) * n + 2000 < 2 ^ 31"

lemma lines_fit:
  assumes l: "lines_for toks rl es vs ks tgt" and fit: "entries_fit n k es"
  shows "table_fits (355 + 4800 * (k + 1)) rl vs"
proof -
  let ?w = "355 + 4800 * (k + 1)"
  have sub: "set vs \<subseteq> fst ` fst ` set es"
  proof
    fix v assume v: "v \<in> set vs"
    then obtain x where "x \<in> set (ks v)" using l by (cases "ks v") (auto simp: lines_for_def)
    then have "map_of es (v, x) = Some (tgt v x)" using v l by (simp add: lines_for_def entries_map_def)
    then have "((v, x), tgt v x) \<in> set es" by (rule map_of_SomeD)
    then show "v \<in> fst ` fst ` set es" by (intro image_eqI) auto
  qed
  have lr: "lines_rep rl vs ks tgt" using l by (simp add: lines_for_def)
  then have "distinct vs" by (simp add: lines_rep_def sht_rep_def contents_ok_def)
  then have "length vs \<le> length (remdups (map (fst \<circ> fst) es))"
    using sub by (intro length_le_image [where f = id]) (simp_all add: image_comp)
  then have n: "length vs \<le> n" using fit by (simp add: entries_fit_def)
  have "version_cost rl (v, u) \<le> ?w" if vu: "(v, u) \<in> set (sht_layout (rl_renames rl) vs)" for v u
  proof -
    have v: "v \<in> set vs" using vu fst_sht_layout [of "rl_renames rl" vs] by force
    have k: "length (ks v) \<le> k" using lines_for_counts(2) [OF l, of v] fit v sub by (fastforce simp: entries_fit_def)
    obtain inner where inner: "rl_inner rl (4 * u) = Some inner" using lr vu by (fastforce simp: lines_rep_def)
    then have "slim (in_sht inner) (length (ks v))" using l vu by (fastforce simp: lines_for_def)
    then have "inner_size inner \<le> 4 * k + 4" using k by (simp add: slim_def)
    moreover have "length v \<le> 255" using l v by (simp add: lines_for_def)
    ultimately show ?thesis by (simp add: version_cost_def inner)
  qed
  moreover have "8 * length (s_table (rl_renames rl)) \<le> 32 * (n + 1)" using l n by (simp add: lines_for_def slim_def)
  moreover have "?w * length vs \<le> ?w * n" using n by (rule mult_le_mono2)
  ultimately show ?thesis
  proof -
    assume w: "?w * length vs \<le> ?w * n" and t: "8 * length (s_table (rl_renames rl)) \<le> 32 * (n + 1)"
      and c: "\<And>v u. (v, u) \<in> set (sht_layout (rl_renames rl) vs) \<Longrightarrow> version_cost rl (v, u) \<le> ?w"
    have "32 * (n + 1) + ?w * n + 2000 < 2 ^ 31" using fit unfolding entries_fit_def by blast
    then have "8 * length (s_table (rl_renames rl)) + ?w * length vs + 2000 < 2 ^ 31" using w t by linarith
    then show ?thesis unfolding table_fits_def using c by auto
  qed
qed

text \<open>The state after the file is read.\<close>

definition read_lines :: "tokeniser \<Rightarrow> (parse_failure + rename_lines) option" where
  "read_lines toks = parse_lines \<lparr>rl_toks = toks, rl_renames = renames_init, rl_inner = Map.empty\<rparr> 0"

text \<open>
  C31: A text file of renames that the program accepts, in which every name is short enough for its
  length to be kept in a byte, has no two lines for the same name and version, and the block of bytes
  that the program makes of it is found to hold exactly its lines: for a symbol with a version the
  renamer, which searches the block, gives what the line for that name and version says, and finds
  nothing where there is no such line. The sorting routine of the C library is a parameter, which must
  give the entries in some order.
\<close>

theorem parse_renames_roundtrip:
  assumes toks: "tokeniser_run toks0 = Some toks" and lines: "read_lines toks = Some (Inr rl)"
    and es: "line_entries toks 0 = Some es" and short: "list_all short_entry es" and fit: "entries_fit n k es"
    and qsort: "sorts qsort_r"
  shows "\<exists>bl. parse_renames qsort_r toks0 = Some (Inr bl) \<and> distinct (map fst es) \<and>
    (\<forall>lib name version t. length version < 2 ^ 32 \<longrightarrow>
      target_ver_registry_apply_to_name \<lparr>tv_table = bl, tv_limit = - 1, tv_target_ver = t\<rparr>
        \<lparr>rs_lib = lib, rs_name = name, rs_version = Some version\<rparr> =
      Some (map_option (renamed_to lib) (map_of es (version, name))))"
proof -
  have "length ([] @ es) \<le> 2 ^ 24" using fit by (simp add: entries_fit_def)
  then have "distinct (map fst ([] @ es)) \<and> (\<exists>vs ks tgt. lines_for toks rl ([] @ es) vs ks tgt)"
    using lines by (intro parse_lines_entries [OF _ lines_for_init es short]) (simp_all add: read_lines_def)
  then obtain vs ks tgt where l: "distinct (map fst es)" "lines_for toks rl es vs ks tgt" by auto
  have lr: "lines_rep rl vs ks tgt" and m: "map_of es = entries_map vs ks tgt" using l(2) by (simp_all add: lines_for_def)
  show ?thesis
  proof (rule table_block_lookup [OF lr lines_fit [OF l(2) fit] qsort])
    fix bl assume "table_block qsort_r rl = Some bl" and look: "\<And>lib name version t. length version < 2 ^ 32 \<Longrightarrow>
      target_ver_registry_apply_to_name \<lparr>tv_table = bl, tv_limit = - 1, tv_target_ver = t\<rparr> \<lparr>rs_lib = lib, rs_name = name, rs_version = Some version\<rparr> =
      Some (if version \<in> set vs \<and> name \<in> set (ks version) then Some (renamed_to lib (tgt version name)) else None)"
    then have "parse_renames qsort_r toks0 = Some (Inr bl)" using toks lines by (simp add: parse_renames_def read_lines_def)
    then show ?thesis using l(1) look by (intro exI [of _ bl]) (simp add: m entries_map_def)
  qed
qed

text \<open>A file with one line, in which the symbol \<open>a@V\<close> becomes \<open>b\<close>.\<close>

definition sample_lines :: tokeniser where
  "sample_lines = sample (''a@V b'' @ [NL])"

declare parse_lines.simps [code] line_entries.simps [code] run_loop.simps [code] rh_probe.simps [code] reinsert.simps [code]

lemma sample_lines_read:
  "(case tokeniser_run sample_lines of None \<Rightarrow> False | Some toks \<Rightarrow>
     (case read_lines toks of
        Some (Inr rl) \<Rightarrow> line_entries toks 0 = Some [((bytes_of ''V'', bytes_of ''a''), (None, bytes_of ''b'', None))]
      | _ \<Rightarrow> False))"
  by code_simp

lemma sorts_id: "sorts (\<lambda>cmp xs. Some xs)"
  by (simp add: sorts_def)

lemma parse_renames_roundtrip_witness:
  "\<exists>bl. parse_renames (\<lambda>cmp xs. Some xs) sample_lines = Some (Inr bl) \<and>
     target_ver_registry_apply_to_name \<lparr>tv_table = bl, tv_limit = - 1, tv_target_ver = []\<rparr>
       \<lparr>rs_lib = None, rs_name = bytes_of ''a'', rs_version = Some (bytes_of ''V'')\<rparr> =
     Some (Some \<lparr>rs_lib = None, rs_name = bytes_of ''b'', rs_version = None\<rparr>)"
proof -
  let ?es = "[((bytes_of ''V'', bytes_of ''a''), (None, bytes_of ''b'', None))]"
  obtain toks rl where toks: "tokeniser_run sample_lines = Some toks" "read_lines toks = Some (Inr rl)" "line_entries toks 0 = Some ?es"
    using sample_lines_read by (auto split: option.splits sum.splits)
  have short: "list_all short_entry ?es" by (simp add: short_entry_def short_target_def short_str_def bytes_of_def)
  have fit: "entries_fit 1 1 ?es" by (simp add: entries_fit_def)
  have to: "map_option (renamed_to None) (map_of ?es (bytes_of ''V'', bytes_of ''a'')) =
    Some \<lparr>rs_lib = None, rs_name = bytes_of ''b'', rs_version = None\<rparr>"
    by (simp add: renamed_to_def)
  have len: "length (bytes_of ''V'') < 2 ^ 32" by (simp add: bytes_of_def)
  show ?thesis using parse_renames_roundtrip [OF toks short fit sorts_id] to len by fastforce
qed

end
