(* ===== verification/EhFrame.thy ===== *)
theory EhFrame
  imports ErwApi ParseRenames
begin

section \<open>print\_eh\_frame.c: printing the unwind tables\<close>

text \<open>
  The reader of the .eh_frame_hdr table and of the entries it points to. A pointer into the file is
  an offset into the bytes of the file, and what is printed is a string. \<open>None\<close> is a read outside
  of the file, a shift by more than the width of the number, a loop that does not end, or the error
  exit for an indirect pointer. The theorems say that the two variable-length encodings are
  decoded to the numbers they encode, and that a program of unwind instructions is printed one
  instruction to a line.
\<close>

subsection \<open>Numbers\<close>

function read_uleb_from :: "mem \<Rightarrow> nat \<Rightarrow> nat \<Rightarrow> u64 \<Rightarrow> (u64 \<times> nat) option" where
  "read_uleb_from m p s x =
    (if s \<ge> 64 then None
     else case m p of
       None \<Rightarrow> None
     | Some b \<Rightarrow>
         if b AND 0x80 \<noteq> 0 then read_uleb_from m (p + 1) (s + 7) (x OR push_bit s (ucast (b AND 0x7f)))
         else Some (x OR push_bit s (ucast b), p + 1))"
  by pat_completeness auto
termination
  by (relation "measure (\<lambda>(m, p, s, x). 64 - s)") auto

declare read_uleb_from.simps [simp del]

definition read_uleb :: "mem \<Rightarrow> nat \<Rightarrow> (u64 \<times> nat) option" where
  "read_uleb m p = read_uleb_from m p 0 0"

function read_sleb_from :: "mem \<Rightarrow> nat \<Rightarrow> nat \<Rightarrow> u64 \<Rightarrow> (u64 \<times> nat \<times> nat) option" where
  "read_sleb_from m p s x =
    (if s \<ge> 64 then None
     else case m p of
       None \<Rightarrow> None
     | Some b \<Rightarrow>
         (let x = x OR push_bit s (ucast (b AND 0x7f))
          in if b AND 0x80 = 0 then Some (x, s + 7, p + 1) else read_sleb_from m (p + 1) (s + 7) x))"
  by pat_completeness auto
termination
  by (relation "measure (\<lambda>(m, p, s, x). 64 - s)") auto

declare read_sleb_from.simps [simp del]

definition read_sleb :: "mem \<Rightarrow> nat \<Rightarrow> (u64 \<times> nat) option" where
  "read_sleb m p = do {
     (x, s, p) \<leftarrow> read_sleb_from m p 0 0;
     let s = (if s < 64 then 64 - s else 0);
     Some (signed_drop_bit s (push_bit s x), p) }"

text \<open>\<open>memcpy(&u, p, sizeof(u))\<close>, with the bytes in the order of the file.\<close>

definition read_word :: "bool \<Rightarrow> mem \<Rightarrow> nat \<Rightarrow> ('n::len word \<times> nat) option" where
  "read_word swp m p = do {
     bs \<leftarrow> mem_read m p (word_size TYPE('n));
     Some (esw swp (word_of_bytes bs), p + word_size TYPE('n)) }"

subsection \<open>Pointers\<close>

record read_ptr_ctx =
  rp_is64 :: bool
  rp_bswap :: bool
  rp_encoding :: u8
  rp_ref_p :: nat
  rp_ref_v :: u64
  rp_textrel :: u64
  rp_datarel :: u64
  rp_funcrel :: u64

definition read_raw_ptr :: "mem \<Rightarrow> nat \<Rightarrow> read_ptr_ctx \<Rightarrow> (u64 \<times> nat) option" where
  "read_raw_ptr m p ctx =
    (let bs = rp_bswap ctx;
         as_u16 = map_option (\<lambda>(u :: u16, p). (ucast u, p)) (read_word bs m p);
         as_u32 = map_option (\<lambda>(u :: u32, p). (ucast u, p)) (read_word bs m p);
         as_u64 = read_word bs m p;
         n = unat (rp_encoding ctx AND 0xf)
     in if n = 0 then (if rp_is64 ctx then as_u64 else as_u32)
        else if n = 1 then read_uleb m p
        else if n = 2 then as_u16
        else if n = 3 then as_u32
        else if n = 4 then as_u64
        else if n = 9 then read_sleb m p
        else if n = 10 then map_option (\<lambda>(u :: u16, p). (scast u, p)) (read_word bs m p)
        else if n = 11 then map_option (\<lambda>(u :: u32, p). (scast u, p)) (read_word bs m p)
        else if n = 12 then as_u64
        else Some (0, p))"

definition read_ptr :: "mem \<Rightarrow> nat \<Rightarrow> read_ptr_ctx \<Rightarrow> (u64 \<times> nat) option" where
  "read_ptr m p0 ctx =
    (if rp_encoding ctx = 0xff then Some (0, p0)
     else do {
       let align = (if rp_is64 ctx then 8 else 4);
       let p = (if rp_encoding ctx = 0x50 then (p0 + align - 1) div align * align else p0);
       (result, p) \<leftarrow> read_raw_ptr m p ctx;
       if result = 0 then Some (0, p)
       else do {
         let base = unat (drop_bit 4 (rp_encoding ctx));
         let result = (if base = 1 then result + (rp_ref_v ctx + (of_nat p0 - of_nat (rp_ref_p ctx)))
           else if base = 2 then result + rp_textrel ctx
           else if base = 3 then result + rp_datarel ctx
           else if base = 4 then result + rp_funcrel ctx
           else result);
         let result = (if rp_is64 ctx then result else ucast (ucast result :: u32));
         if rp_encoding ctx AND 0x80 \<noteq> 0 then None else Some (result, p) } })"

subsection \<open>Text\<close>

fun dec_text :: "nat \<Rightarrow> string" where
  "dec_text n = (if n < 10 then [''0123456789'' ! n] else dec_text (n div 10) @ [''0123456789'' ! (n mod 10)])"

declare dec_text.simps [simp del]

definition sdec_text :: "int \<Rightarrow> string" where
  "sdec_text i = (if i < 0 then CHR ''-'' # dec_text (nat (- i)) else dec_text (nat i))"

definition hex02_text :: "u8 \<Rightarrow> string" where
  "hex02_text b = [''0123456789abcdef'' ! (unat b div 16), ''0123456789abcdef'' ! (unat b mod 16)]"

definition udec :: "'n::len word \<Rightarrow> string" where
  "udec w = dec_text (unat w)"

definition uhex :: "'n::len word \<Rightarrow> string" where
  "uhex w = ''0x'' @ hex_text (unat w)"

definition text_line :: "string \<Rightarrow> string" where
  "text_line s = s @ [NL]"

subsection \<open>Unwind instructions\<close>

definition print_dw_op :: "bool \<Rightarrow> mem \<Rightarrow> nat \<Rightarrow> (string \<times> nat) option" where
  "print_dw_op swp m bc = do {
     b \<leftarrow> m bc;
     let bc = bc + 1;
     if b < 0x40 then
       (if b = 0x00 then Some (text_line ''  DW_CFA_nop'', bc)
        else if b = 0x02 then do {
          n \<leftarrow> m bc;
          Some (text_line (''  DW_CFA_advance_loc1('' @ udec n @ '' * code_align)''), bc + 1) }
        else if b = 0x03 then do {
          (n :: u16, bc) \<leftarrow> read_word swp m bc;
          Some (text_line (''  DW_CFA_advance_loc2('' @ udec n @ '' * code_align)''), bc) }
        else if b = 0x07 then do {
          (reg, bc) \<leftarrow> read_uleb m bc;
          Some (text_line (''  DW_CFA_undefined(r'' @ udec reg @ '')''), bc) }
        else if b = 0x0a then Some (text_line ''  DW_CFA_remember_state'', bc)
        else if b = 0x0b then Some (text_line ''  DW_CFA_restore_state'', bc)
        else if b = 0x0c then do {
          (reg, bc) \<leftarrow> read_uleb m bc;
          (ofs, bc) \<leftarrow> read_uleb m bc;
          Some (text_line (''  DW_CFA_def_cfa(r'' @ udec reg @ '', +'' @ udec ofs @ '')''), bc) }
        else if b = 0x0d then do {
          (reg, bc) \<leftarrow> read_uleb m bc;
          Some (text_line (''  DW_CFA_def_cfa_register(r'' @ udec reg @ '')''), bc) }
        else if b = 0x0e then do {
          (ofs, bc) \<leftarrow> read_uleb m bc;
          Some (text_line (''  DW_CFA_def_cfa_offset(+'' @ udec ofs @ '')''), bc) }
        else if b = 0x2d then Some (text_line ''  DW_CFA_GNU_window_save'', bc)
        else Some (text_line (''  Unknown DW_CFA_ bytecode 0x'' @ hex02_text b), bc))
     else if b < 0x80 then Some (text_line (''  DW_CFA_advance_loc('' @ udec (b AND 0x3f) @ '' * code_align)''), bc)
     else if b < 0xc0 then do {
       (ofs, bc) \<leftarrow> read_uleb m bc;
       Some (text_line (''  DW_CFA_offset(r'' @ udec (b AND 0x3f) @ '', CFA + '' @ udec ofs @ '' * data_align)''), bc) }
     else Some (text_line (''  DW_CFA_restore(r'' @ udec (b AND 0x3f) @ '')''), bc) }"

partial_function (option) print_dw_bytecode :: "bool \<Rightarrow> mem \<Rightarrow> nat \<Rightarrow> nat \<Rightarrow> string option" where
  "print_dw_bytecode swp m bc lim =
    (if bc < lim then
       Option.bind (print_dw_op swp m bc) (\<lambda>(s, bc). Option.bind (print_dw_bytecode swp m bc lim) (\<lambda>rest. Some (s @ rest)))
     else Some [])"

subsection \<open>One function\<close>

definition view :: "'a::len word erw \<Rightarrow> u64 \<Rightarrow> nat option" where
  "view erw v = map_option unat (erw_view_v erw v)"

definition is_64 :: "'a::len word erw \<Rightarrow> bool" where
  "is_64 erw \<longleftrightarrow> LENGTH('a) = 64"

definition narrow :: "'a::len word erw \<Rightarrow> u64 \<Rightarrow> u64" where
  "narrow erw v = (if is_64 erw then v else ucast (ucast v :: u32))"

text \<open>What the letters of the augmentation string say of the entry they describe; an unknown letter ends it.\<close>

record cie_loop =
  cl_p :: nat
  cl_dw :: "nat option"
  cl_fde_encoding :: u8
  cl_lsda_encoding :: u8
  cl_ctx :: read_ptr_ctx
  cl_out :: string

fun cie_augmentation :: "mem \<Rightarrow> bstr \<Rightarrow> cie_loop \<Rightarrow> cie_loop option" where
  "cie_augmentation m [] l = Some (l\<lparr>cl_dw := Some (cl_p l)\<rparr>)"
| "cie_augmentation m (c # cs) l =
    (if c = 0x7a then do {
       (aug_len, p) \<leftarrow> read_uleb m (cl_p l);
       cie_augmentation m cs (l\<lparr>cl_p := p, cl_dw := Some (p + unat aug_len)\<rparr>) }
     else if c = 0x52 then do {
       e \<leftarrow> m (cl_p l);
       cie_augmentation m cs (l\<lparr>cl_fde_encoding := e, cl_p := cl_p l + 1\<rparr>) }
     else if c = 0x50 then do {
       e \<leftarrow> m (cl_p l);
       let ctx = (cl_ctx l)\<lparr>rp_encoding := e\<rparr>;
       (p_ptr, p) \<leftarrow> read_ptr m (cl_p l + 1) ctx;
       cie_augmentation m cs (l\<lparr>cl_ctx := ctx, cl_p := p,
         cl_out := cl_out l @ text_line (''    Personality routine at '' @ uhex p_ptr)\<rparr>) }
     else if c = 0x4c then do {
       e \<leftarrow> m (cl_p l);
       cie_augmentation m cs (l\<lparr>cl_lsda_encoding := e, cl_p := cl_p l + 1\<rparr>) }
     else if c = 0x53 \<or> c = 0x42 then cie_augmentation m cs l
     else Some (l\<lparr>cl_out := cl_out l @ text_line (''    Unknown augmentation character '' @ [char_of (unat c)])\<rparr>))"

fun fde_augmentation :: "mem \<Rightarrow> u8 \<Rightarrow> bstr \<Rightarrow> read_ptr_ctx \<times> nat \<times> nat option \<times> string \<Rightarrow>
    (read_ptr_ctx \<times> nat \<times> nat option \<times> string) option" where
  "fde_augmentation m lsda_encoding [] (ctx, p, dw, out) = Some (ctx, p, Some p, out)"
| "fde_augmentation m lsda_encoding (c # cs) (ctx, p, dw, out) =
    (if c = 0x7a then do {
       (aug_len, p) \<leftarrow> read_uleb m p;
       fde_augmentation m lsda_encoding cs (ctx, p, Some (p + unat aug_len), out) }
     else if c = 0x52 \<or> c = 0x50 \<or> c = 0x53 \<or> c = 0x42 then fde_augmentation m lsda_encoding cs (ctx, p, dw, out)
     else if c = 0x4c then do {
       let ctx = ctx\<lparr>rp_encoding := lsda_encoding\<rparr>;
       (l_ptr, p) \<leftarrow> read_ptr m p ctx;
       fde_augmentation m lsda_encoding cs (ctx, p, dw, out @ text_line (''    LSDA pointer '' @ uhex l_ptr)) }
     else Some (ctx, p, dw, out @ text_line (''    Unknown augmentation character '' @ [char_of (unat c)])))"

definition print_dw_before :: "bool \<Rightarrow> mem \<Rightarrow> nat option \<Rightarrow> nat \<Rightarrow> string option" where
  "print_dw_before swp m dw lim =
    (case dw of Some bc \<Rightarrow> if bc < lim then print_dw_bytecode swp m bc lim else Some [] | None \<Rightarrow> Some [])"

text \<open>The fields of the common entry, up to the augmentation data.\<close>

record cie_head =
  ch_aug :: bstr
  ch_at :: nat
  ch_lim :: nat
  ch_out :: string

definition read_cie_head :: "'a::len word erw \<Rightarrow> nat \<Rightarrow> cie_head option" where
  "read_cie_head erw cie = do {
     let m = e_f erw; let swp = e_bswap erw;
     (cie_length :: u32, _) \<leftarrow> read_word swp m cie;
     (cie_off :: u32, cie) \<leftarrow> read_word swp m (cie + 4);
     let cie_end = cie + unat cie_length - 4;
     let out = (if cie_off \<noteq> 0 then text_line (''    Zero field has non-zero value '' @ sdec_text (sint cie_off)) else []);
     cie_version \<leftarrow> m cie;
     let cie = cie + 1;
     aug \<leftarrow> cstr_at m cie;
     let out = out @ text_line (''    Version '' @ udec cie_version @ '', aug_string='' @ chars_of aug);
     let cie = cie + length aug + 1;
     let cie = (if take 2 aug = [0x65, 0x68] then cie + (if is_64 erw then 8 else 4) else cie);
     (cie, out) \<leftarrow> (if cie_version \<ge> 4 then do {
         a \<leftarrow> m cie;
         s \<leftarrow> m (cie + 1);
         Some (cie + 2, out @ text_line (''    Address size '' @ udec a @ '', segment size '' @ udec s)) }
       else Some (cie, out));
     (code_align, cie) \<leftarrow> read_uleb m cie;
     (data_align, cie) \<leftarrow> read_sleb m cie;
     (ret_addr_ord, cie) \<leftarrow> (if cie_version \<le> 1 then map_option (\<lambda>b. (ucast b, cie + 1)) (m cie) else read_uleb m cie);
     let out = out @ text_line (''    Code align '' @ udec code_align @ '', data align '' @ sdec_text (sint data_align) @
       '', return address in r'' @ udec (ret_addr_ord :: u64));
     Some \<lparr>ch_aug = (if take 2 aug = [0x65, 0x68] then drop 2 aug else aug), ch_at = cie, ch_lim = cie_end, ch_out = out\<rparr> }"

definition print_fde :: "'a::len word erw \<Rightarrow> u64 \<Rightarrow> read_ptr_ctx \<Rightarrow> (string \<times> read_ptr_ctx) option" where
  "print_fde erw vaddr ctx =
    (case view erw vaddr of
       None \<Rightarrow> Some (text_line (''  Could not read FDE at '' @ uhex vaddr), ctx)
     | Some fde \<Rightarrow> do {
         let m = e_f erw; let swp = e_bswap erw;
         (fde_length :: u32, _) \<leftarrow> read_word swp m fde;
         (cie_off :: u32, fde) \<leftarrow> read_word swp m (fde + 4);
         let fde_end = fde + unat fde_length - 4;
         let cie_addr = narrow erw (vaddr + 4 - scast cie_off);
         let out = text_line (''  CIE at '' @ uhex cie_addr @ '':'');
         cie \<leftarrow> view erw cie_addr;
         let ctx = ctx\<lparr>rp_ref_v := cie_addr, rp_ref_p := cie\<rparr>;
         hd \<leftarrow> read_cie_head erw cie;
         l \<leftarrow> cie_augmentation m (ch_aug hd) \<lparr>cl_p = ch_at hd, cl_dw = None, cl_fde_encoding = 0, cl_lsda_encoding = 0,
           cl_ctx = ctx, cl_out = out @ ch_out hd\<rparr>;
         s \<leftarrow> print_dw_before swp m (cl_dw l) (ch_lim hd);
         let out = cl_out l @ s;
         let ctx = (cl_ctx l)\<lparr>rp_ref_v := vaddr + 8, rp_ref_p := fde, rp_encoding := cl_fde_encoding l\<rparr>;
         (func_start, fde) \<leftarrow> read_ptr m fde ctx;
         let ctx = ctx\<lparr>rp_encoding := cl_fde_encoding l AND 0xf\<rparr>;
         (func_length, fde) \<leftarrow> read_ptr m fde ctx;
         let out = out @ text_line (''  Function starting at '' @ uhex func_start @ '', ending at '' @ uhex (func_start + func_length));
         (ctx, _, dw, out) \<leftarrow> fde_augmentation m (cl_lsda_encoding l) (ch_aug hd) (ctx, fde, None, out);
         s \<leftarrow> print_dw_before swp m dw fde_end;
         Some (out @ s, ctx) })"

subsection \<open>The table\<close>

definition print_hdr_entry :: "'a::len word erw \<Rightarrow> u64 \<Rightarrow> nat \<Rightarrow> nat \<Rightarrow> string \<times> read_ptr_ctx \<Rightarrow> (string \<times> read_ptr_ctx) option" where
  "print_hdr_entry erw vaddr hdr i l = (case l of (out, ctx) \<Rightarrow> do {
     (func_start :: u32, _) \<leftarrow> read_word (e_bswap erw) (e_f erw) (hdr + 12 + 8 * i);
     (fde_offset :: u32, _) \<leftarrow> read_word (e_bswap erw) (e_f erw) (hdr + 12 + 8 * i + 4);
     let func_addr = narrow erw (vaddr + scast func_start);
     let fde_addr = narrow erw (vaddr + scast fde_offset);
     let out = out @ text_line (''Function starting at '' @ uhex func_addr @ '' has FDE at '' @ uhex fde_addr @ '':'');
     (s, ctx) \<leftarrow> print_fde erw fde_addr (ctx\<lparr>rp_funcrel := func_addr\<rparr>);
     Some (out @ s, ctx) })"

definition print_eh_frame_hdr_at :: "'a::len word erw \<Rightarrow> u64 \<Rightarrow> string option" where
  "print_eh_frame_hdr_at erw vaddr =
    (case view erw vaddr of
       None \<Rightarrow> Some (text_line (''Could not read PT_GNU_EH_FRAME at '' @ uhex vaddr))
     | Some hdr \<Rightarrow> do {
         enc \<leftarrow> mem_read (e_f erw) hdr 4;
         if enc \<noteq> [1, 0x1b, 0x03, 0x3b] then
           Some (text_line (''Bad PT_GNU_EH_FRAME header: '' @ hex02_text (enc ! 0) @ '' '' @ hex02_text (enc ! 1) @ '' '' @
             hex02_text (enc ! 2) @ '' '' @ hex02_text (enc ! 3)))
         else do {
           (fde_count :: u32, _) \<leftarrow> read_word (e_bswap erw) (e_f erw) (hdr + 8);
           map_option fst (each (print_hdr_entry erw vaddr hdr) [0..<unat fde_count]
             (text_line (udec fde_count @ '' FDEs:''),
              \<lparr>rp_is64 = is_64 erw, rp_bswap = e_bswap erw, rp_encoding = 0, rp_ref_p = 0, rp_ref_v = 0, rp_textrel = 0,
                rp_datarel = 0, rp_funcrel = 0\<rparr>)) } })"

subsection \<open>Encodings\<close>

text \<open>The encoding of an unsigned number.\<close>

fun uleb :: "nat \<Rightarrow> u8 list" where
  "uleb n = (if n < 128 then [of_nat n] else of_nat (n mod 128 + 128) # uleb (n div 128))"

declare uleb.simps [simp del]

lemma byte_low: "unat (b AND 0x7f :: u8) = unat b mod 128"
proof -
  have "b AND 0x7f = take_bit 7 b" by (simp only: take_bit_eq_mask mask_eq_exp_minus_1) simp
  then have "unat (b AND 0x7f) = take_bit 7 (unat b)" by (simp only: unsigned_take_bit_eq)
  then show ?thesis by (simp only: take_bit_eq_mod) simp
qed

lemma byte_high: "(b AND 0x80 :: u8) = 0 \<longleftrightarrow> unat b < 128"
proof -
  have small: "unat b < 256" using unat_less_pow [of b] by simp
  have "bit (unat b) 7 \<longleftrightarrow> odd (unat b div 2 ^ 7)" by (rule bit_iff_odd)
  also have "\<dots> \<longleftrightarrow> \<not> unat b < 128"
  proof (cases "unat b < 128")
    case False
    then have "unat b div 128 = 1" using small by (intro div_nat_eqI) simp_all
    then show ?thesis using False by simp
  qed simp
  finally have "bit b 7 \<longleftrightarrow> \<not> unat b < 128" by (simp add: bit_unsigned_iff)
  then show ?thesis using and_exp_eq_0_iff_not_bit [of b 7] by simp
qed

lemma bit_word_nat: "n < 2 ^ 64 \<Longrightarrow> bit (of_nat n :: u64) i \<longleftrightarrow> bit n i"
proof -
  assume "n < 2 ^ 64"
  then have "unat (of_nat n :: u64) = n" by (simp only: unat_of_nat take_bit_nat_eq_self_iff) simp
  moreover have "bit (unat (of_nat n :: u64)) i \<longleftrightarrow> bit (of_nat n :: u64) i" using bit_imp_le_length by (auto simp: bit_unsigned_iff)
  ultimately show ?thesis by simp
qed

lemma word_split7:
  assumes n: "n < 2 ^ 64"
  shows "of_nat (n mod 128) OR push_bit 7 (of_nat (n div 128)) = (of_nat n :: u64)"
proof (rule bit_word_eqI)
  fix i assume i: "i < LENGTH(64)"
  have small: "n mod 128 < 2 ^ 64" "n div 128 < 2 ^ 64" using n by (simp_all add: less_mult_imp_div_less)
  have "bit (n mod 128) i \<longleftrightarrow> bit n i \<and> i < 7" using bit_take_bit_iff [of 7 n i] by (simp add: take_bit_eq_mod conj_commute)
  moreover have "bit (n div 128) (i - 7) \<longleftrightarrow> bit n (7 + (i - 7))" using bit_drop_bit_eq [of 7 n] by (simp add: drop_bit_eq_div fun_eq_iff)
  ultimately show "bit (of_nat (n mod 128) OR push_bit 7 (of_nat (n div 128)) :: u64) i = bit (of_nat n :: u64) i"
    using i small n by (cases "i < 7") (simp_all add: bit_or_iff bit_push_bit_iff bit_word_nat)
qed

lemma read_uleb_from_encoded:
  assumes "holds m p (uleb n)" and "n * 2 ^ s < 2 ^ 64" and "s < 64"
  shows "read_uleb_from m p s x = Some (x OR push_bit s (of_nat n), p + length (uleb n))"
  using assms
proof (induction n arbitrary: p s x rule: uleb.induct)
  case (1 n)
  have n: "n < 2 ^ 64"
  proof -
    have "n * 1 \<le> n * 2 ^ s" by (intro mult_le_mono2) simp
    then show ?thesis using "1.prems"(2) by linarith
  qed
  show ?case
  proof (cases "n < 128")
    case True
    then have u: "uleb n = [of_nat n]" by (simp add: uleb.simps)
    have b: "unat (of_nat n :: u8) = n" using True by (simp add: unat_of_nat)
    then have "(of_nat n :: u8) AND 0x80 = 0" using True byte_high by simp
    moreover have "ucast (of_nat n :: u8) = (of_nat n :: u64)" using b by (metis of_nat_unat)
    ultimately show ?thesis using "1.prems" by (subst read_uleb_from.simps) (simp add: u holds_Cons)
  next
    case False
    let ?b = "of_nat (n mod 128 + 128) :: u8"
    have u: "uleb n = ?b # uleb (n div 128)" using False by (simp add: uleb.simps)
    have "n mod 128 + 128 < 2 ^ 8" by simp
    then have b: "unat ?b = n mod 128 + 128" by (simp only: unat_of_nat take_bit_nat_eq_self) simp
    have hi: "?b AND 0x80 \<noteq> 0" unfolding byte_high b by simp
    have "unat (?b AND 0x7f) = n mod 128" unfolding byte_low b by simp
    then have lo: "ucast (?b AND 0x7f) = (of_nat (n mod 128) :: u64)" by (metis of_nat_unat)
    have "128 * 2 ^ s \<le> n * 2 ^ s" using False by (intro mult_le_mono1) simp
    then have "128 * 2 ^ s < (2 :: nat) ^ 64" using "1.prems"(2) by linarith
    then have "2 ^ (s + 7) < (2 :: nat) ^ 64" by (simp add: power_add)
    then have s: "s + 7 < 64" using power_less_imp_less_exp [of "2 :: nat" "s + 7" 64] by simp
    have "n div 128 * 2 ^ (s + 7) = n div 128 * 128 * 2 ^ s" by (simp add: power_add)
    also have "\<dots> \<le> n * 2 ^ s" by (intro mult_le_mono1) simp
    finally have r: "n div 128 * 2 ^ (s + 7) < 2 ^ 64" using "1.prems"(2) by linarith
    have ih: "read_uleb_from m (p + 1) (s + 7) x' = Some (x' OR push_bit (s + 7) (of_nat (n div 128)), p + 1 + length (uleb (n div 128)))" for x'
      using "1.prems"(1) False r s by (intro "1.IH") (simp_all add: u holds_Cons)
    have split: "push_bit s (of_nat (n mod 128)) OR push_bit (s + 7) (of_nat (n div 128)) = push_bit s (of_nat n :: u64)"
      using word_split7 [OF n] by (simp only: push_bit_push_bit [symmetric] push_bit_or [symmetric])
    have m: "m p = Some ?b" using "1.prems"(1) by (simp add: u holds_Cons)
    have "read_uleb_from m p s x = read_uleb_from m (p + 1) (s + 7) (x OR push_bit s (of_nat (n mod 128)))"
      unfolding read_uleb_from.simps [of m p s x] m option.case lo using hi "1.prems"(3) by (simp only: if_not_P not_le if_P not_False_eq_True)
    also have "\<dots> = Some (x OR push_bit s (of_nat n), p + length (uleb n))"
      unfolding ih u or.assoc split by simp
    finally show ?thesis .
  qed
qed

lemma read_uleb_encoded: "holds m p (uleb (unat w)) \<Longrightarrow> read_uleb m p = Some (w, p + length (uleb (unat w)))"
  using read_uleb_from_encoded [of m p "unat w" 0 0] unat_less_pow [of w] by (simp add: read_uleb_def)

subsection \<open>Programs of unwind instructions\<close>

datatype cfa =
    Cfa_advance_loc u8 | Cfa_offset u8 u64 | Cfa_restore u8
  | Cfa_nop | Cfa_advance_loc1 u8 | Cfa_advance_loc2 u16 | Cfa_undefined u64 | Cfa_remember_state | Cfa_restore_state
  | Cfa_def_cfa u64 u64 | Cfa_def_cfa_register u64 | Cfa_def_cfa_offset u64 | Cfa_window_save

fun cfa_bytes :: "bool \<Rightarrow> cfa \<Rightarrow> u8 list" where
  "cfa_bytes swp (Cfa_advance_loc n) = [0x40 + n]"
| "cfa_bytes swp (Cfa_offset reg ofs) = (0x80 + reg) # uleb (unat ofs)"
| "cfa_bytes swp (Cfa_restore reg) = [0xc0 + reg]"
| "cfa_bytes swp Cfa_nop = [0x00]"
| "cfa_bytes swp (Cfa_advance_loc1 n) = [0x02, n]"
| "cfa_bytes swp (Cfa_advance_loc2 n) = 0x03 # word_bytes (esw swp n)"
| "cfa_bytes swp (Cfa_undefined reg) = 0x07 # uleb (unat reg)"
| "cfa_bytes swp Cfa_remember_state = [0x0a]"
| "cfa_bytes swp Cfa_restore_state = [0x0b]"
| "cfa_bytes swp (Cfa_def_cfa reg ofs) = 0x0c # uleb (unat reg) @ uleb (unat ofs)"
| "cfa_bytes swp (Cfa_def_cfa_register reg) = 0x0d # uleb (unat reg)"
| "cfa_bytes swp (Cfa_def_cfa_offset ofs) = 0x0e # uleb (unat ofs)"
| "cfa_bytes swp Cfa_window_save = [0x2d]"

text \<open>Three instructions have six bits for a number or a register.\<close>

fun cfa_ok :: "cfa \<Rightarrow> bool" where
  "cfa_ok (Cfa_advance_loc n) \<longleftrightarrow> n < 64"
| "cfa_ok (Cfa_offset reg ofs) \<longleftrightarrow> reg < 64"
| "cfa_ok (Cfa_restore reg) \<longleftrightarrow> reg < 64"
| "cfa_ok i \<longleftrightarrow> True"

fun cfa_text :: "cfa \<Rightarrow> string" where
  "cfa_text (Cfa_advance_loc n) = ''DW_CFA_advance_loc('' @ udec n @ '' * code_align)''"
| "cfa_text (Cfa_offset reg ofs) = ''DW_CFA_offset(r'' @ udec reg @ '', CFA + '' @ udec ofs @ '' * data_align)''"
| "cfa_text (Cfa_restore reg) = ''DW_CFA_restore(r'' @ udec reg @ '')''"
| "cfa_text Cfa_nop = ''DW_CFA_nop''"
| "cfa_text (Cfa_advance_loc1 n) = ''DW_CFA_advance_loc1('' @ udec n @ '' * code_align)''"
| "cfa_text (Cfa_advance_loc2 n) = ''DW_CFA_advance_loc2('' @ udec n @ '' * code_align)''"
| "cfa_text (Cfa_undefined reg) = ''DW_CFA_undefined(r'' @ udec reg @ '')''"
| "cfa_text Cfa_remember_state = ''DW_CFA_remember_state''"
| "cfa_text Cfa_restore_state = ''DW_CFA_restore_state''"
| "cfa_text (Cfa_def_cfa reg ofs) = ''DW_CFA_def_cfa(r'' @ udec reg @ '', +'' @ udec ofs @ '')''"
| "cfa_text (Cfa_def_cfa_register reg) = ''DW_CFA_def_cfa_register(r'' @ udec reg @ '')''"
| "cfa_text (Cfa_def_cfa_offset ofs) = ''DW_CFA_def_cfa_offset(+'' @ udec ofs @ '')''"
| "cfa_text Cfa_window_save = ''DW_CFA_GNU_window_save''"

lemma six_bit_field:
  assumes "n < (64 :: u8)" and "c \<in> {0x40, 0x80, 0xc0}"
  shows "(c + n) AND 0x3f = n" "unat (c + n) = unat c + unat n"
proof -
  have n: "unat n < 64" using assms(1) by (simp add: word_less_nat_alt)
  then show u: "unat (c + n) = unat c + unat n" using assms(2) by (auto simp: unat_word_ariths)
  have "(c + n) AND 0x3f = take_bit 6 (c + n)" by (simp only: take_bit_eq_mask mask_eq_exp_minus_1) simp
  then have "unat ((c + n) AND 0x3f) = take_bit 6 (unat (c + n))" by (simp only: unsigned_take_bit_eq)
  also have "\<dots> = (unat c + unat n) mod 64" by (simp only: take_bit_eq_mod u) simp
  also have "\<dots> = unat n"
  proof -
    have "unat c = 1 * 64 \<or> unat c = 2 * 64 \<or> unat c = 3 * 64" using assms(2) by auto
    then obtain k where k: "unat c = k * 64" by blast
    show ?thesis unfolding k using n by (simp only: mod_mult_self3 mod_less)
  qed
  finally show "(c + n) AND 0x3f = n" by (simp only: word_unat_eq_iff)
qed

lemma read_word_holds:
  assumes "holds m p (word_bytes (esw swp (w :: 'n::len word)))"
  shows "read_word swp m p = Some (w, p + word_size TYPE('n))"
proof -
  have "mem_read m p (word_size TYPE('n)) = Some (word_bytes (esw swp w))" using mem_read_holds [OF assms] by simp
  then show ?thesis by (simp add: read_word_def)
qed

lemma print_dw_op_cfa:
  assumes "holds m bc (cfa_bytes swp i)" and "cfa_ok i"
  shows "print_dw_op swp m bc = Some (text_line (''  '' @ cfa_text i), bc + length (cfa_bytes swp i))"
proof (cases i)
  case (Cfa_advance_loc n)
  then show ?thesis using assms six_bit_field [of n "0x40"]
    by (simp add: print_dw_op_def holds_Cons word_less_nat_alt)
next
  case (Cfa_offset reg ofs)
  then have "read_uleb m (bc + 1) = Some (ofs, bc + 1 + length (uleb (unat ofs)))"
    using assms(1) by (intro read_uleb_encoded) (simp add: holds_Cons)
  then show ?thesis using assms six_bit_field [of reg "0x80"] Cfa_offset
    by (simp add: print_dw_op_def holds_Cons word_less_nat_alt)
next
  case (Cfa_restore reg)
  then show ?thesis using assms six_bit_field [of reg "0xc0"]
    by (simp add: print_dw_op_def holds_Cons word_less_nat_alt)
next
  case (Cfa_def_cfa reg ofs)
  then have "read_uleb m (bc + 1) = Some (reg, bc + 1 + length (uleb (unat reg)))"
      "read_uleb m (bc + 1 + length (uleb (unat reg))) = Some (ofs, bc + 1 + length (uleb (unat reg)) + length (uleb (unat ofs)))"
    using assms(1) by (intro read_uleb_encoded; simp add: holds_Cons holds_append)+
  then show ?thesis using assms(1) Cfa_def_cfa by (simp add: print_dw_op_def holds_Cons)
next
  case (Cfa_advance_loc2 n)
  then have "read_word swp m (bc + 1) = Some (n, bc + 1 + word_size TYPE(16))"
    using assms(1) by (intro read_word_holds) (simp add: holds_Cons)
  then show ?thesis using assms(1) Cfa_advance_loc2 by (simp add: print_dw_op_def holds_Cons)
qed (use assms(1) read_uleb_encoded [of m "bc + 1"] in \<open>auto simp: print_dw_op_def holds_Cons\<close>)

lemma cfa_bytes_nonempty: "0 < length (cfa_bytes swp i)"
  by (cases i) simp_all

text \<open>
  C34: A program of unwind instructions is printed whole and one instruction to a line: where the
  memory holds the bytes of a list of instructions, the printer returns at their end with the text of
  each of them, in order, with the numbers and registers that were encoded, in either byte order.
\<close>

theorem print_dw_bytecode_roundtrip:
  assumes "holds m bc (concat (map (cfa_bytes swp) is))" and "list_all cfa_ok is"
  shows "print_dw_bytecode swp m bc (bc + length (concat (map (cfa_bytes swp) is))) =
    Some (concat (map (\<lambda>i. text_line (''  '' @ cfa_text i)) is))"
  using assms
proof (induction "is" arbitrary: bc)
  case Nil
  then show ?case by (subst print_dw_bytecode.simps) simp
next
  case (Cons i "is")
  let ?n = "length (cfa_bytes swp i)"
  have op: "print_dw_op swp m bc = Some (text_line (''  '' @ cfa_text i), bc + ?n)"
    using Cons.prems by (intro print_dw_op_cfa) (simp_all add: holds_append)
  have "print_dw_bytecode swp m (bc + ?n) (bc + ?n + length (concat (map (cfa_bytes swp) is))) =
      Some (concat (map (\<lambda>i. text_line (''  '' @ cfa_text i)) is))"
    using Cons.prems by (intro Cons.IH) (simp_all add: holds_append)
  then show ?case using op cfa_bytes_nonempty [of swp i] by (subst print_dw_bytecode.simps) (simp add: add.assoc)
qed

lemma print_dw_bytecode_roundtrip_witness:
  "print_dw_bytecode False (mem_write Map.empty 0 [0x41, 0x0e, 0x10]) 0 3 =
    Some (text_line ''  DW_CFA_advance_loc(1 * code_align)'' @ text_line ''  DW_CFA_def_cfa_offset(+16)'')"
proof -
  have "holds (mem_write Map.empty 0 [0x41, 0x0e, 0x10]) 0 (concat (map (cfa_bytes False) [Cfa_advance_loc 1, Cfa_def_cfa_offset 16]))"
    by (simp add: holds_Cons uleb.simps)
  from print_dw_bytecode_roundtrip [OF this] show ?thesis by (simp add: uleb.simps udec_def dec_text.simps numeral_3_eq_3)
qed

end
