(* ===== verification/Flags.thy ===== *)
theory Flags
  imports ParseRenames
begin

section \<open>main.c: the flags of --add-flags and --remove-flags\<close>

text \<open>
  Reading the names of dynamic-linker flags and turning a list of them into packed bytes: two bits
  for the group of the flag, one for its sense, five for its bit; and the printing of a mask of
  flags by the same names. The theorems say that the names that are printed are read as the bits
  they were printed for, what the simplification of a list of flags keeps, and that the array
  of 96 flags on the stack is never overrun.
\<close>

subsection \<open>One flag\<close>

definition normal_char :: "char \<Rightarrow> char" where
  "normal_char c =
    (if c = CHR ''-'' then CHR ''_''
     else if (65 :: nat) \<le> of_char c \<and> (of_char c :: nat) \<le> 90 then char_of ((of_char c :: nat) - 65 + 97)
     else c)"

text \<open>The names by their length, and the byte of each.\<close>

definition flag_table :: "nat \<Rightarrow> (u8 \<times> string) list" where
  "flag_table len =
    [[(0xa6, ''hdr''), (0xda, ''pie'')],
     [(0x66, ''dump''), (0xe2, ''kmod''), (0x36, ''open''), (0xd2, ''stub'')],
     [(0x12, ''group''), (0x9e, ''ksyms''), (0xb6, ''reloc''), (0x4a, ''trans'')],
     [(0xf6, ''common''), (0x5e, ''deflib''), (0x1e, ''delete''), (0x42, ''direct''), (0xaa, ''edited''), (0x0a, ''global''),
      (0x01, ''origin''), (0x3a, ''origin'')],
     [(0x6a, ''confalt''), (0x11, ''textrel'')],
     [(0x19, ''bind_now''), (0x22, ''loadfltr''), (0x09, ''symbolic'')],
     [(0x72, ''endfiltee''), (0x03, ''execstack''), (0xc2, ''globaudit''), (0x92, ''ignmuldef''), (0x2a, ''initfirst''),
      (0x52, ''interpose''), (0xca, ''singleton'')],
     [(0x7a, ''dispreldne''), (0x82, ''disprelpnd''), (0x21, ''static_tls''), (0xba, ''symintpose''), (0xea, ''weakfilter'')]] ! (len - 3)"

definition starts_with :: "string \<Rightarrow> string \<Rightarrow> bool" where
  "starts_with str pre \<longleftrightarrow> 3 \<le> length str \<and> take (length pre) str = pre"

definition strip_no :: "string \<Rightarrow> string" where
  "strip_no str = (let str = drop 2 str in if str ! 0 = CHR ''_'' then drop 1 str else str)"

text \<open>The sets of flags that a name may be from, as bits by group; 14 is all of them.\<close>

definition strip_prefixes :: "string \<Rightarrow> string \<times> u32 \<times> u8" where
  "strip_prefixes str =
    (let (str, invert) = (if starts_with str ''no'' then (strip_no str, 4) else (str, 0));
         (str, allowed_sets) = (if starts_with str ''df_'' then (drop 3 str, 2) else (str, 14));
         (str, allowed_sets) = (if starts_with str ''1_'' then (drop 2 str, 4) else (str, allowed_sets));
         (str, invert) = (if starts_with str ''no'' \<and> invert = 0 then (strip_no str, 4) else (str, invert))
     in (str, allowed_sets, invert))"

fun find_flag :: "u32 \<Rightarrow> string \<Rightarrow> (u8 \<times> string) list \<Rightarrow> u8 option" where
  "find_flag allowed_sets str [] = None"
| "find_flag allowed_sets str ((control, name) # flags) =
    (if allowed_sets AND push_bit (unat (control AND 3)) 1 \<noteq> 0 \<and> name = str then Some control
     else find_flag allowed_sets str flags)"

text \<open>A flag by its number. The loop over the digits behind the first one starts at that digit.\<close>

definition hex_flag :: "string \<Rightarrow> u32 \<Rightarrow> u8 \<Rightarrow> u8" where
  "hex_flag str allowed_sets invert =
    (let str = dropWhile (\<lambda>c. c = CHR ''0'') (drop 2 str)
     in case str of
       [] \<Rightarrow> 0
     | c # _ \<Rightarrow>
       (case map_of [(CHR ''1'', 0), (CHR ''2'', 1), (CHR ''4'', 2), (CHR ''8'', 3)] c of
          None \<Rightarrow> 0
        | Some b \<Rightarrow>
          (let b = b + 4 * of_nat (length (takeWhile (\<lambda>c. c = CHR ''0'') str));
               str = dropWhile (\<lambda>c. c = CHR ''0'') str
           in if str = [] then b * 8 + invert + (if allowed_sets = 4 then 2 else 1) else 0)))"

fun contains :: "string \<Rightarrow> string \<Rightarrow> bool" where
  "contains [] query \<longleftrightarrow> query = []"
| "contains (c # cs) query \<longleftrightarrow> take (length query) (c # cs) = query \<or> contains cs query"

definition parse_one_flag :: "string \<Rightarrow> u8" where
  "parse_one_flag str =
    (if length str < 3 \<or> length str > 16 then 0
     else
       (let norm = map normal_char str;
            (str, allowed_sets, invert) = strip_prefixes norm
        in if 3 \<le> length str \<and> length str \<le> 10 then
             (case find_flag allowed_sets str (flag_table (length str)) of
                Some control \<Rightarrow> (let control = control XOR invert in if control = 0x46 then 0x8a else control)
              | None \<Rightarrow> if str ! 0 = CHR ''0'' \<and> str ! 1 = CHR ''x'' then hex_flag str allowed_sets invert else 0)
           else if length str = 1 \<and> str ! 0 = CHR ''w'' \<and> invert \<noteq> 0 \<and> contains norm ''now'' then 2
           else 0))"

subsection \<open>A list of flags\<close>

text \<open>Two flags that differ in their sense only are one entry, and the later one wins.\<close>

definition same_flag :: "u8 \<Rightarrow> u8 \<Rightarrow> bool" where
  "same_flag a b \<longleftrightarrow> (a XOR b) AND 0xfb = 0"

fun put_flag :: "u8 \<Rightarrow> u8 list \<Rightarrow> u8 list" where
  "put_flag flag [] = [flag]"
| "put_flag flag (f # result) = (if same_flag f flag then flag # result else f # put_flag flag result)"

definition simplify_flags_list :: "u8 list \<Rightarrow> u8 list" where
  "simplify_flags_list flags = foldl (\<lambda>result flag. put_flag flag result) [] flags"

definition flag_separator :: "char \<Rightarrow> bool" where
  "flag_separator c \<longleftrightarrow> c = CHR '' '' \<or> c = CHR '','' \<or> c = CHR ''|'' \<or> c = CHR '':''"

text \<open>
  The names between the separators. \<open>None\<close> is a write beyond the end of the array; \<open>Inl\<close> is the
  name that is not known.
\<close>

fun flags_loop :: "string \<Rightarrow> string \<Rightarrow> u8 list \<Rightarrow> (string + u8 list) option" where
  "flags_loop name rest flags =
    (case rest of
       c # rest' \<Rightarrow>
         if flag_separator c then
           (case (if name = [] then Some (Inr flags)
                  else if parse_one_flag name = 0 then Some (Inl name)
                  else if length flags < 96 then Some (Inr (flags @ [parse_one_flag name])) else None) of
              None \<Rightarrow> None
            | Some (Inl e) \<Rightarrow> Some (Inl e)
            | Some (Inr flags) \<Rightarrow> flags_loop [] rest' (if length flags = 96 then simplify_flags_list flags else flags))
         else flags_loop (name @ [c]) rest' flags
     | [] \<Rightarrow>
         if name = [] then Some (Inr flags)
         else if parse_one_flag name = 0 then Some (Inl name)
         else if length flags < 96 then Some (Inr (flags @ [parse_one_flag name])) else None)"

declare flags_loop.simps [simp del]

definition parse_flags :: "string \<Rightarrow> (string + u8 list) option" where
  "parse_flags src = map_option (map_sum id simplify_flags_list) (flags_loop [] src [])"

subsection \<open>Printing a mask\<close>

text \<open>
  The bytes before the names are the places where they start in the text behind them. \<open>None\<close> is a
  loop that does not end.
\<close>

definition bitmask_line :: "string \<Rightarrow> nat list \<Rightarrow> string \<Rightarrow> nat \<Rightarrow> string" where
  "bitmask_line pre offsets names i =
    pre @ (if offsets ! i < offsets ! (i + 1) then take (offsets ! (i + 1) - offsets ! i) (drop (offsets ! i) names)
      else ''0x'' @ hex_text (2 ^ i))"

function bitmask_lines :: "nat \<Rightarrow> u32 \<Rightarrow> string \<Rightarrow> nat list \<Rightarrow> string \<Rightarrow> string list option" where
  "bitmask_lines i bitmask pre offsets names =
    (if bitmask = 0 then Some []
     else if i \<ge> 32 then None
     else if bitmask AND push_bit i 1 \<noteq> 0 then
       map_option ((#) (bitmask_line pre offsets names i))
         (bitmask_lines (i + 1) (bitmask XOR push_bit i 1) pre offsets names)
     else bitmask_lines (i + 1) bitmask pre offsets names)"
  by pat_completeness auto
termination
  by (relation "measure (\<lambda>(i, _). 32 - i)") auto

declare bitmask_lines.simps [simp del]

definition print_bitmask :: "u32 \<Rightarrow> string \<Rightarrow> nat list \<Rightarrow> string \<Rightarrow> string list option" where
  "print_bitmask bitmask pre offsets names = bitmask_lines 0 bitmask pre offsets names"

definition print_df :: "u32 \<Rightarrow> string list option" where
  "print_df flags = print_bitmask flags ''df_''
    [0x00, 0x06, 0x0e, 0x15, 0x1d, 0x27, 0x27, 0x27, 0x27, 0x27, 0x27, 0x27, 0x27, 0x27, 0x27, 0x27, 0x27,
     0x27, 0x27, 0x27, 0x27, 0x27, 0x27, 0x27, 0x27, 0x27, 0x27, 0x27, 0x27, 0x27, 0x27, 0x27, 0x27]
    ''originsymbolictextrelbind_nowstatic_tls''"

definition print_df_1 :: "u32 \<Rightarrow> string list option" where
  "print_df_1 flags = print_bitmask flags ''df_1_''
    [0x00, 0x03, 0x09, 0x0e, 0x16, 0x1e, 0x27, 0x2d, 0x33, 0x39, 0x3e, 0x47, 0x4f, 0x55, 0x5c, 0x65, 0x6f,
     0x79, 0x81, 0x8a, 0x91, 0x96, 0x9c, 0xa3, 0xad, 0xb6, 0xbf, 0xc3, 0xc6, 0xca, 0xd4, 0xdc, 0xdc]
    ''nowglobalgroupnodeleteloadfltrinitfirstnoopenorigindirecttransinterposenodeflibnodumpconfaltendfilteedispreldnedisprelpndnodirectignmuldefnoksymsnohdreditednorelocsymintposeglobauditsingletonstubpiekmodweakfilternocommon''"

subsection \<open>The masks of a list of flags\<close>

text \<open>The bits to add and to remove, by the group of the flag from 0 for \<open>DF_\<close> on.\<close>

type_synonym flag_masks = "(nat \<Rightarrow> u32) \<times> (nat \<Rightarrow> u32)"

definition no_masks :: flag_masks where
  "no_masks = (\<lambda>_. 0, \<lambda>_. 0)"

definition add_bit :: "u8 \<Rightarrow> (nat \<Rightarrow> u32) \<Rightarrow> nat \<Rightarrow> u32" where
  "add_bit flag masks = (let grp = unat (flag AND 3) - 1 in masks(grp := masks grp OR push_bit (unat (drop_bit 3 flag)) 1))"

fun flag_masks :: "u8 list \<Rightarrow> flag_masks \<Rightarrow> flag_masks" where
  "flag_masks [] masks = masks"
| "flag_masks (flag # flags) masks =
    (if flag AND 3 = 0 then masks
     else flag_masks flags (if flag AND 4 \<noteq> 0 then map_prod id (add_bit flag) masks else map_prod (add_bit flag) id masks))"

subsection \<open>What is printed is read back\<close>

definition df_names :: "string list" where
  "df_names = map (append ''df_'') [''origin'', ''symbolic'', ''textrel'', ''bind_now'', ''static_tls'']"

definition df_1_names :: "string list" where
  "df_1_names = map (append ''df_1_'') [''now'', ''global'', ''group'', ''nodelete'', ''loadfltr'', ''initfirst'', ''noopen'', ''origin'',
     ''direct'', ''trans'', ''interpose'', ''nodeflib'', ''nodump'', ''confalt'', ''endfiltee'', ''dispreldne'', ''disprelpnd'',
     ''nodirect'', ''ignmuldef'', ''noksyms'', ''nohdr'', ''edited'', ''noreloc'', ''symintpose'', ''globaudit'', ''singleton'',
     ''stub'', ''pie'', ''kmod'', ''weakfilter'', ''nocommon'']"

lemma df_names_read: "map parse_one_flag df_names = map (\<lambda>i. of_nat (8 * i + 1)) [0..<5]"
  by code_simp

lemma df_1_names_read: "map parse_one_flag df_1_names = map (\<lambda>i. of_nat (8 * i + 2)) [0..<31]"
  by code_simp

lemma bitmask_lines_spec:
  assumes "i \<le> 32" and "\<forall>j < i. \<not> bit m j"
  shows "bitmask_lines i m pre offsets names = Some (map (bitmask_line pre offsets names) (filter (bit m) [i..<32]))"
  using assms
proof (induction "32 - i" arbitrary: i m)
  case 0
  then have "m = 0" by (intro bit_word_eqI) simp
  then show ?case using 0 by (subst bitmask_lines.simps) simp
next
  case (Suc n)
  have upt: "[i..<32] = i # [Suc i..<32]" using Suc.hyps(2) by (simp add: upt_rec)
  show ?case
  proof (cases "bit m i")
    case True
    let ?m = "m XOR 2 ^ i"
    have m: "bit ?m j \<longleftrightarrow> bit m j \<and> j \<noteq> i" for j
      using True Suc.hyps(2) by (auto simp: bit_xor_iff bit_exp_iff)
    have "m AND push_bit i 1 \<noteq> 0"
    proof
      assume "m AND push_bit i 1 = 0"
      then have "\<not> bit (m AND push_bit i 1) i" by simp
      then show False using True Suc.hyps(2) by (auto simp: bit_and_iff bit_exp_iff)
    qed
    moreover have "m \<noteq> 0" using True by auto
    moreover have "bitmask_lines (Suc i) ?m pre offsets names = Some (map (bitmask_line pre offsets names) (filter (bit ?m) [Suc i..<32]))"
      using Suc.hyps Suc.prems m by (intro Suc.hyps(1)) (auto simp: less_Suc_eq)
    moreover have "filter (bit ?m) [Suc i..<32] = filter (bit m) [Suc i..<32]" by (rule filter_cong) (auto simp: m)
    ultimately show ?thesis using Suc.hyps(2) by (simp add: bitmask_lines.simps [of i m] upt True)
  next
    case False
    have "m AND push_bit i 1 = 0"
      using False by (intro bit_word_eqI) (auto simp: bit_and_iff bit_exp_iff)
    moreover have "bitmask_lines (Suc i) m pre offsets names = Some (map (bitmask_line pre offsets names) (filter (bit m) [Suc i..<32]))"
      using Suc.hyps Suc.prems False by (intro Suc.hyps(1)) (auto simp: less_Suc_eq)
    moreover have "m = 0 \<Longrightarrow> filter (bit m) xs = []" for xs by (induction xs) simp_all
    ultimately show ?thesis using Suc.hyps(2) by (auto simp: bitmask_lines.simps [of i m] upt False)
  qed
qed

abbreviation df_line :: "nat \<Rightarrow> string" where
  "df_line \<equiv> bitmask_line ''df_'' [0x00, 0x06, 0x0e, 0x15, 0x1d, 0x27, 0x27, 0x27, 0x27, 0x27, 0x27, 0x27, 0x27, 0x27, 0x27, 0x27, 0x27,
     0x27, 0x27, 0x27, 0x27, 0x27, 0x27, 0x27, 0x27, 0x27, 0x27, 0x27, 0x27, 0x27, 0x27, 0x27, 0x27]
    ''originsymbolictextrelbind_nowstatic_tls''"

abbreviation df_1_line :: "nat \<Rightarrow> string" where
  "df_1_line \<equiv> bitmask_line ''df_1_''
    [0x00, 0x03, 0x09, 0x0e, 0x16, 0x1e, 0x27, 0x2d, 0x33, 0x39, 0x3e, 0x47, 0x4f, 0x55, 0x5c, 0x65, 0x6f,
     0x79, 0x81, 0x8a, 0x91, 0x96, 0x9c, 0xa3, 0xad, 0xb6, 0xbf, 0xc3, 0xc6, 0xca, 0xd4, 0xdc, 0xdc]
    ''nowglobalgroupnodeleteloadfltrinitfirstnoopenorigindirecttransinterposenodeflibnodumpconfaltendfilteedispreldnedisprelpndnodirectignmuldefnoksymsnohdreditednorelocsymintposeglobauditsingletonstubpiekmodweakfilternocommon''"

lemma df_lines: "list_all (\<lambda>i. df_line i = df_names ! i) [0..<5]"
  by code_simp

lemma df_1_lines: "list_all (\<lambda>i. df_1_line i = df_1_names ! i) [0..<31]"
  by code_simp

lemma upt_split: "i \<le> j \<Longrightarrow> j \<le> k \<Longrightarrow> [i..<k] = [i..<j] @ [j..<k]"
  using upt_add_eq_append [of i j "k - j"] by simp

lemma filter_bits: "\<forall>i \<ge> n. \<not> bit m i \<Longrightarrow> n \<le> 32 \<Longrightarrow> filter (bit m) [0..<32] = filter (bit m) [0..<n]"
  by (simp add: upt_split [of 0 n 32] filter_empty_conv del: upt_rec_numeral)

lemma print_df_names: "\<forall>i \<ge> 5. \<not> bit m i \<Longrightarrow> print_df m = Some (map ((!) df_names) (filter (bit m) [0..<5]))"
  unfolding print_df_def print_bitmask_def
  by (subst bitmask_lines_spec) (use df_lines in \<open>auto simp: filter_bits [of 5] list_all_iff simp del: upt_rec_numeral\<close>)

lemma print_df_1_names: "\<forall>i \<ge> 31. \<not> bit m i \<Longrightarrow> print_df_1 m = Some (map ((!) df_1_names) (filter (bit m) [0..<31]))"
  unfolding print_df_1_def print_bitmask_def
  by (subst bitmask_lines_spec) (use df_1_lines in \<open>auto simp: filter_bits [of 31] list_all_iff simp del: upt_rec_numeral\<close>)

subsection \<open>Lists of flags\<close>

lemma same_flag_iff: "same_flag a b \<longleftrightarrow> a AND 0xfb = b AND 0xfb"
proof -
  have "same_flag a b \<longleftrightarrow> (\<forall>n < 8. bit (0xfb :: u8) n \<longrightarrow> bit a n = bit b n)"
    by (auto simp: same_flag_def bit_eq_iff bit_and_iff bit_xor_iff)
  also have "\<dots> \<longleftrightarrow> a AND 0xfb = b AND 0xfb" by (auto simp: bit_eq_iff bit_and_iff)
  finally show ?thesis .
qed

abbreviation flag_key :: "u8 \<Rightarrow> u8" where
  "flag_key f \<equiv> f AND 0xfb"

lemma put_flag_new: "flag_key f \<notin> flag_key ` set fs \<Longrightarrow> put_flag f fs = fs @ [f]"
  by (induction fs) (auto simp: same_flag_iff)

lemma put_flag_keys: "map flag_key (put_flag f fs) = (if flag_key f \<in> flag_key ` set fs then map flag_key fs else map flag_key fs @ [flag_key f])"
  by (induction fs) (auto simp: same_flag_iff)

lemma put_flag_set: "distinct (map flag_key fs) \<Longrightarrow> set (put_flag f fs) = insert f {g \<in> set fs. flag_key g \<noteq> flag_key f}"
proof (induction fs)
  case (Cons g fs)
  then show ?case by (auto simp: same_flag_iff image_iff)
qed simp

text \<open>The flags that are kept: each the last of those that differ in their sense only.\<close>

fun last_flags :: "u8 list \<Rightarrow> u8 set" where
  "last_flags [] = {}"
| "last_flags (f # fs) = (if flag_key f \<in> flag_key ` set fs then last_flags fs else insert f (last_flags fs))"

lemma last_flags_append: "last_flags (fs @ [f]) = insert f {g \<in> last_flags fs. flag_key g \<noteq> flag_key f}"
  by (induction fs) auto

lemma simplify_spec: "distinct (map flag_key (simplify_flags_list fs)) \<and> set (simplify_flags_list fs) = last_flags fs"
proof (induction fs rule: rev_induct)
  case (snoc f fs)
  have "simplify_flags_list (fs @ [f]) = put_flag f (simplify_flags_list fs)" by (simp add: simplify_flags_list_def)
  moreover have "distinct (map flag_key (put_flag f (simplify_flags_list fs)))"
    using snoc put_flag_keys [of f "simplify_flags_list fs"] by (auto simp: image_iff)
  ultimately show ?case using snoc put_flag_set [of "simplify_flags_list fs" f] by (simp add: last_flags_append)
qed (simp add: simplify_flags_list_def)

lemma simplify_distinct: "distinct (map flag_key fs) \<Longrightarrow> simplify_flags_list fs = fs"
proof (induction fs rule: rev_induct)
  case (snoc f fs)
  then show ?case using put_flag_new [of f fs] by (auto simp: simplify_flags_list_def)
qed (simp add: simplify_flags_list_def)

text \<open>A list of names with commas between them.\<close>

fun comma_separated :: "string list \<Rightarrow> string" where
  "comma_separated [] = []"
| "comma_separated [name] = name"
| "comma_separated (name # names) = name @ CHR '','' # comma_separated names"

definition flag_name :: "string \<Rightarrow> bool" where
  "flag_name name \<longleftrightarrow> name \<noteq> [] \<and> parse_one_flag name \<noteq> 0 \<and> list_all (\<lambda>c. \<not> flag_separator c) name"

lemma flags_loop_name:
  "list_all (\<lambda>c. \<not> flag_separator c) name \<Longrightarrow> flags_loop acc (name @ rest) flags = flags_loop (acc @ name) rest flags"
proof (induction name arbitrary: acc)
  case (Cons c name)
  then show ?case using Cons.IH [of "acc @ [c]"] by (simp add: flags_loop.simps [of acc "c # name @ rest"])
qed simp

lemma flags_loop_names:
  "list_all flag_name names \<Longrightarrow> length flags + length names < 96 \<Longrightarrow>
   flags_loop [] (comma_separated names) flags = Some (Inr (flags @ map parse_one_flag names))"
proof (induction names arbitrary: flags rule: comma_separated.induct)
  case 1
  then show ?case by (simp add: flags_loop.simps)
next
  case (2 name)
  then show ?case
    using flags_loop_name [of name "[]" "[]" flags] by (simp add: flag_name_def flags_loop.simps [of name])
next
  case (3 name n names)
  then have "flags_loop [] (comma_separated (name # n # names)) flags = flags_loop name (CHR '','' # comma_separated (n # names)) flags"
    using flags_loop_name [of name "[]"] by (simp add: flag_name_def)
  also have "\<dots> = flags_loop [] (comma_separated (n # names)) (flags @ [parse_one_flag name])"
    using 3(2,3) by (subst flags_loop.simps) (simp add: flag_name_def flag_separator_def)
  also have "\<dots> = Some (Inr ((flags @ [parse_one_flag name]) @ map parse_one_flag (n # names)))"
    using 3(2,3) by (intro 3(1)) simp_all
  finally show ?case by simp
qed

text \<open>The byte of bit \<open>i\<close> of group \<open>g\<close>.\<close>

lemma flag_byte:
  assumes "i < 32" and "g < 3"
  defines "f \<equiv> of_nat (8 * i + g + 1) :: u8"
  shows "unat (f AND 3) = g + 1" "f AND 4 = 0" "unat (drop_bit 3 f) = i"
proof -
  have u: "unat f = 8 * i + g + 1"
    using assms(1,2) by (simp add: f_def unat_of_nat take_bit_nat_eq_self del: of_nat_add of_nat_mult of_nat_Suc)
  have "f AND 3 = take_bit 2 f" by (simp only: take_bit_eq_mask mask_eq_exp_minus_1) simp
  then have "unat (f AND 3) = take_bit 2 (unat f)" by (simp only: unsigned_take_bit_eq)
  then have "unat (f AND 3) = (8 * i + g + 1) mod 4" by (simp only: take_bit_eq_mod u) simp
  then show "unat (f AND 3) = g + 1" using assms(2) by presburger
  have "(8 * i + g + 1) div 4 mod 2 = 0" using assms(2) by presburger
  then have "\<not> bit (unat f) 2" unfolding u by (simp add: bit_iff_odd even_iff_mod_2_eq_zero)
  then have "\<not> bit f 2" by (simp add: bit_unsigned_iff)
  then show "f AND 4 = 0" using and_exp_eq_0_iff_not_bit [of f 2] by simp
  have "unat (drop_bit 3 f) = drop_bit 3 (unat f)" by (rule unat_drop_bit_eq)
  also have "\<dots> = (8 * i + g + 1) div 8" by (simp only: drop_bit_eq_div u) simp
  finally show "unat (drop_bit 3 f) = i" using assms(2) by presburger
qed

definition group_flags :: "nat \<Rightarrow> nat list \<Rightarrow> u8 list" where
  "group_flags g is = map (\<lambda>i. of_nat (8 * i + g + 1)) is"

lemma flag_masks_group:
  assumes "list_all (\<lambda>i. i < 32) is" and "g < 3"
  shows "flag_masks (group_flags g is @ fs) (add, rem) = flag_masks fs (add(g := foldl (\<lambda>m i. m OR 2 ^ i) (add g) is), rem)"
  using assms
proof (induction "is" arbitrary: add)
  case (Cons i "is")
  define f where "f = (of_nat (8 * i + g + 1) :: u8)"
  have f: "unat (f AND 3) = g + 1" "f AND 4 = 0" "unat (drop_bit 3 f) = i"
    using flag_byte [of i g] Cons.prems unfolding f_def by simp_all
  then have g: "f AND 3 \<noteq> 0" by auto
  have "add_bit f add = add(g := add g OR 2 ^ i)" using f by (simp add: add_bit_def)
  then have "flag_masks (f # group_flags g is @ fs) (add, rem) = flag_masks (group_flags g is @ fs) (add(g := add g OR 2 ^ i), rem)"
    using g f(2) by simp
  moreover have "group_flags g (i # is) = f # group_flags g is" by (simp add: group_flags_def f_def)
  moreover have "(add(g := add g OR 2 ^ i))(g := foldl (\<lambda>m i. m OR 2 ^ i) ((add(g := add g OR 2 ^ i)) g) is) =
      add(g := foldl (\<lambda>m i. m OR 2 ^ i) (add g) (i # is))" by simp
  moreover have "flag_masks (group_flags g is @ fs) (add(g := add g OR 2 ^ i), rem) =
      flag_masks fs ((add(g := add g OR 2 ^ i))(g := foldl (\<lambda>m i. m OR 2 ^ i) ((add(g := add g OR 2 ^ i)) g) is), rem)"
    by (rule Cons.IH) (use Cons.prems in simp_all)
  ultimately show ?case by (simp only: append_Cons)
qed (simp add: group_flags_def)

lemma foldl_bits: "bit (foldl (\<lambda>m i. m OR 2 ^ i) (m0 :: u32) is) n \<longleftrightarrow> bit m0 n \<or> n \<in> set is \<and> n < 32"
  by (induction "is" arbitrary: m0) (auto simp: bit_or_iff bit_exp_iff)

lemma foldl_mask: "\<forall>i \<ge> n. \<not> bit m i \<Longrightarrow> n \<le> 32 \<Longrightarrow> foldl (\<lambda>m i. m OR 2 ^ i) 0 (filter (bit m) [0..<n]) = (m :: u32)"
  by (rule bit_word_eqI) (auto simp: foldl_bits not_less [symmetric] simp del: upt_rec_numeral)

lemma names_ok: "list_all flag_name df_names" "list_all flag_name df_1_names"
proof -
  have "list_all (list_all (\<lambda>c. \<not> flag_separator c)) df_names" "list_all (list_all (\<lambda>c. \<not> flag_separator c)) df_1_names"
      "list_all (\<lambda>name. name \<noteq> []) df_names" "list_all (\<lambda>name. name \<noteq> []) df_1_names"
    by (simp_all add: df_names_def df_1_names_def flag_separator_def)
  moreover have "list_all (\<lambda>f. f \<noteq> 0) (map parse_one_flag df_names)" unfolding df_names_read by code_simp
  moreover have "list_all (\<lambda>f. f \<noteq> 0) (map parse_one_flag df_1_names)" unfolding df_1_names_read by code_simp
  ultimately show "list_all flag_name df_names" "list_all flag_name df_1_names"
    by (auto simp: flag_name_def list_all_iff)
qed

lemma names_lengths: "length df_names = 5" "length df_1_names = 31"
  by (simp_all add: df_names_def df_1_names_def)

lemma read_nth:
  "i < 5 \<Longrightarrow> parse_one_flag (df_names ! i) = of_nat (8 * i + 0 + 1)"
  "i < 31 \<Longrightarrow> parse_one_flag (df_1_names ! i) = of_nat (8 * i + 1 + 1)"
  using arg_cong [OF df_names_read, of "\<lambda>xs. xs ! i"] arg_cong [OF df_1_names_read, of "\<lambda>xs. xs ! i"]
  by (simp_all add: names_lengths del: upt_rec_numeral of_nat_add of_nat_mult of_nat_Suc)

lemma group_keys: "distinct (map flag_key (group_flags 0 [0..<5] @ group_flags 1 [0..<31]))"
  by code_simp

text \<open>
  C32: What \<open>--print-flags\<close> prints for the flags of a file can be given to \<open>--add-flags\<close>: the names of
  any set of the named \<open>DF_\<close> and \<open>DF_1_\<close> flags, joined by commas, are all read, and the masks that
  the resulting bytes stand for are exactly the masks that were printed, with nothing to be removed.
\<close>

theorem print_flags_roundtrip:
  assumes df: "\<forall>i \<ge> 5. \<not> bit (flags :: u32) i" and df1: "\<forall>i \<ge> 31. \<not> bit (flags_1 :: u32) i"
  shows "\<exists>names names_1 fs. print_df flags = Some names \<and> print_df_1 flags_1 = Some names_1 \<and>
    parse_flags (comma_separated (names @ names_1)) = Some (Inr fs) \<and>
    flag_masks fs no_masks = ((\<lambda>_. 0)(0 := flags, 1 := flags_1), \<lambda>_. 0)"
proof -
  let ?is = "filter (bit flags) [0..<5]" and ?is1 = "filter (bit flags_1) [0..<31]"
  let ?names = "map ((!) df_names) ?is" and ?names1 = "map ((!) df_1_names) ?is1"
  define fs where "fs = group_flags 0 ?is @ group_flags 1 ?is1"
  have read: "map parse_one_flag (?names @ ?names1) = fs"
    by (simp add: fs_def group_flags_def read_nth del: upt_rec_numeral of_nat_add of_nat_mult of_nat_Suc)
  have ok: "list_all flag_name (?names @ ?names1)" using names_ok names_lengths by (auto simp: list_all_iff)
  have "length ?is \<le> 5" "length ?is1 \<le> 31" using length_filter_le [of "bit flags" "[0..<5]"] length_filter_le [of "bit flags_1" "[0..<31]"] by simp_all
  then have "flags_loop [] (comma_separated (?names @ ?names1)) [] = Some (Inr ([] @ fs))"
    using flags_loop_names [OF ok, of "[]"] by (simp only: read) simp
  moreover have "distinct (map flag_key fs)"
  proof -
    have keys: "map flag_key (group_flags g is) = map (\<lambda>i. flag_key (of_nat (8 * i + g + 1))) is" for g "is"
      by (simp add: group_flags_def)
    have sub: "set (map flag_key (group_flags 0 ?is)) \<subseteq> set (map flag_key (group_flags 0 [0..<5]))"
        "set (map flag_key (group_flags 1 ?is1)) \<subseteq> set (map flag_key (group_flags 1 [0..<31]))"
      unfolding keys set_map set_filter by blast+
    have d: "distinct (map flag_key (group_flags 0 [0..<5]))" "distinct (map flag_key (group_flags 1 [0..<31]))"
        "set (map flag_key (group_flags 0 [0..<5])) \<inter> set (map flag_key (group_flags 1 [0..<31])) = {}"
      using group_keys unfolding map_append distinct_append by blast+
    have "distinct (map flag_key (group_flags 0 ?is))" "distinct (map flag_key (group_flags 1 ?is1))"
      using d(1,2) unfolding keys by (blast intro: distinct_map_filter)+
    then show ?thesis unfolding fs_def map_append distinct_append using sub d(3) by blast
  qed
  ultimately have "parse_flags (comma_separated (?names @ ?names1)) = Some (Inr fs)"
    by (simp add: parse_flags_def simplify_distinct)
  moreover have "flag_masks fs no_masks = ((\<lambda>_. 0)(0 := flags, 1 := flags_1), \<lambda>_. 0)"
  proof -
    have "flag_masks fs no_masks = flag_masks [] ((\<lambda>_. 0)(0 := flags, 1 := flags_1), \<lambda>_. 0)"
      unfolding fs_def no_masks_def
      using flag_masks_group [of ?is 0 "group_flags 1 ?is1" "\<lambda>_. 0" "\<lambda>_. 0"]
        flag_masks_group [of ?is1 1 "[]" "(\<lambda>_. 0)(0 := flags)" "\<lambda>_. 0"] foldl_mask [OF df] foldl_mask [OF df1]
      by (simp add: list_all_iff del: upt_rec_numeral flag_masks.simps)
    then show ?thesis by simp
  qed
  ultimately show ?thesis using print_df_names [OF df] print_df_1_names [OF df1] by blast
qed

lemma print_flags_roundtrip_witness:
  "\<exists>names names_1 fs. print_df 0x9 = Some names \<and> print_df_1 0x8 = Some names_1 \<and>
    parse_flags (comma_separated (names @ names_1)) = Some (Inr fs) \<and>
    flag_masks fs no_masks = ((\<lambda>_. 0)(0 := 0x9, 1 := 0x8), \<lambda>_. 0)"
proof (rule print_flags_roundtrip)
  have "take_bit 5 (0x9 :: u32) = 0x9" "take_bit 31 (0x8 :: u32) = 0x8" by simp_all
  then show "\<forall>i \<ge> 5. \<not> bit (0x9 :: u32) i" "\<forall>i \<ge> 31. \<not> bit (0x8 :: u32) i"
    by (metis bit_take_bit_iff not_less)+
qed

subsection \<open>The array of flags\<close>

definition flag_keys :: "u8 list" where
  "flag_keys = map (\<lambda>f. flag_key (fst f)) (concat (map flag_table [3..<11])) @ [flag_key 0x8a, flag_key 2]"

lemma flag_keys_length: "length flag_keys = 37"
  by code_simp

lemma find_flag_in: "find_flag allowed_sets str flags = Some control \<Longrightarrow> control \<in> fst ` set flags"
  by (induction flags) (auto split: if_splits)

lemma flag_key_xor: "flag_key (control XOR 4) = flag_key control"
proof -
  have "(4 :: u8) AND 0xfb = 0" by simp
  then show ?thesis by (simp add: bit.conj_xor_distrib2)
qed

lemma strip_invert:
  assumes "strip_prefixes str = (str', allowed_sets, invert)"
  shows "invert = 0 \<or> invert = 4"
proof -
  obtain a i where 1: "(if starts_with str ''no'' then (strip_no str, 4 :: u8) else (str, 0)) = (a, i)" by fastforce
  obtain b x where 2: "(if starts_with a ''df_'' then (drop 3 a, 2 :: u32) else (a, 14)) = (b, x)" by fastforce
  obtain c y where 3: "(if starts_with b ''1_'' then (drop 2 b, 4 :: u32) else (b, x)) = (c, y)" by fastforce
  have "i = 0 \<or> i = 4" using 1 by (cases "starts_with str ''no''") simp_all
  moreover have "invert = (if starts_with c ''no'' \<and> i = 0 then 4 else i)"
    using assms unfolding strip_prefixes_def 1 2 3 Let_def prod.case
    by (cases "starts_with c ''no'' \<and> i = 0") simp_all
  ultimately show ?thesis by auto
qed

text \<open>No flag can be given by its number: the digits behind the first one are never looked at.\<close>

lemma hex_flag_none: "hex_flag str allowed_sets invert = 0"
proof (cases "dropWhile (\<lambda>c. c = CHR ''0'') (drop 2 str)")
  case (Cons c cs)
  have c: "c \<noteq> CHR ''0''" using hd_dropWhile [of "\<lambda>c. c = CHR ''0''" "drop 2 str"] by (simp add: Cons)
  have "dropWhile (\<lambda>c. c = CHR ''0'') (c # cs) = c # cs" using c by simp
  then show ?thesis unfolding hex_flag_def Cons Let_def list.case
    by (cases "map_of [(CHR ''1'', 0 :: u8), (CHR ''2'', 1), (CHR ''4'', 2), (CHR ''8'', 3)] c") simp_all
next
  case Nil
  then show ?thesis by (simp only: hex_flag_def Let_def list.case)
qed

lemma parse_one_flag_key: "parse_one_flag str = 0 \<or> flag_key (parse_one_flag str) \<in> set flag_keys"
proof -
  obtain str' allowed_sets invert where s: "strip_prefixes (map normal_char str) = (str', allowed_sets, invert)" by (cases "strip_prefixes (map normal_char str)")
  have inv: "flag_key (control XOR invert) = flag_key control" for control using strip_invert [OF s] flag_key_xor by auto
  have keys: "flag_key control \<in> set flag_keys"
    if len: "3 \<le> length str'" "length str' \<le> 10" and f: "find_flag allowed_sets str' (flag_table (length str')) = Some control" for control
  proof -
    have "length str' \<in> set [3..<11]" using len by (simp del: upt_rec_numeral)
    moreover have "control \<in> fst ` set (flag_table (length str'))" by (rule find_flag_in [OF f])
    ultimately show ?thesis unfolding flag_keys_def set_append set_map set_concat by blast
  qed
  have extra: "flag_key 0x8a \<in> set flag_keys" "flag_key 2 \<in> set flag_keys" by (simp_all add: flag_keys_def del: upt_rec_numeral)
  let ?p = "parse_one_flag str"
  have p: "?p = (if length str < 3 \<or> length str > 16 then 0
      else if 3 \<le> length str' \<and> length str' \<le> 10 then
        (case find_flag allowed_sets str' (flag_table (length str')) of
           Some control \<Rightarrow> if control XOR invert = 0x46 then 0x8a else control XOR invert | None \<Rightarrow> 0)
      else if length str' = 1 \<and> str' ! 0 = CHR ''w'' \<and> invert \<noteq> 0 \<and> contains (map normal_char str) ''now'' then 2
      else 0)"
    by (simp only: parse_one_flag_def Let_def s prod.case hex_flag_none if_cancel)
  show ?thesis
  proof (cases "3 \<le> length str' \<and> length str' \<le> 10")
    case True
    then show ?thesis unfolding p using extra keys inv
      by (cases "find_flag allowed_sets str' (flag_table (length str'))") simp_all
  next
    case False
    then show ?thesis unfolding p using extra by auto
  qed
qed

text \<open>
  C33: Reading the argument of \<open>--add-flags\<close> never writes outside of the array of 96 flags on the
  stack, whatever text is given: it ends with a name that is not known or with a list of flags. The
  list that is kept has at most 37 bytes, none of them the byte that ends it, and never two for the
  same flag.
\<close>

theorem parse_flags_in_bounds:
  "\<exists>r. parse_flags src = Some r \<and>
    (case r of Inl name \<Rightarrow> parse_one_flag name = 0 | Inr fs \<Rightarrow> length fs \<le> 37 \<and> 0 \<notin> set fs \<and> distinct (map flag_key fs))"
proof -
  have small: "length fs \<le> 37" if d: "distinct (map flag_key fs)" and k: "\<forall>f \<in> set fs. flag_key f \<in> set flag_keys" for fs
  proof -
    have "length (map flag_key fs) = card (flag_key ` set fs)" using distinct_card [OF d] by simp
    also have "\<dots> \<le> card (set flag_keys)" using k by (intro card_mono) auto
    also have "\<dots> \<le> 37" using card_length [of flag_keys] by (simp only: flag_keys_length)
    finally show ?thesis by simp
  qed
  have sub: "last_flags fs \<subseteq> set fs" for fs by (induction fs) auto
  have simp_ok: "length (simplify_flags_list fs) \<le> 37 \<and> set (simplify_flags_list fs) \<subseteq> set fs \<and> distinct (map flag_key (simplify_flags_list fs))"
    if "\<forall>f \<in> set fs. flag_key f \<in> set flag_keys" for fs
    using small [of "simplify_flags_list fs"] simplify_spec [of fs] sub [of fs] that by blast
  have loop: "\<exists>r. flags_loop name rest flags = Some r \<and> (case r of Inl e \<Rightarrow> parse_one_flag e = 0 |
      Inr fs \<Rightarrow> \<forall>f \<in> set fs. f \<noteq> 0 \<and> flag_key f \<in> set flag_keys)"
    if "length flags < 96" "\<forall>f \<in> set flags. f \<noteq> 0 \<and> flag_key f \<in> set flag_keys" for name rest flags
    using that
  proof (induction rest arbitrary: name flags)
    case Nil
    then show ?case using parse_one_flag_key [of name] by (subst flags_loop.simps) auto
  next
    case (Cons c rest)
    let ?flags = "if name = [] then flags else flags @ [parse_one_flag name]"
    let ?next = "if length ?flags = 96 then simplify_flags_list ?flags else ?flags"
    show ?case
    proof (cases "flag_separator c \<and> (name = [] \<or> parse_one_flag name \<noteq> 0)")
      case True
      have ok: "\<forall>f \<in> set ?flags. f \<noteq> 0 \<and> flag_key f \<in> set flag_keys"
        using True Cons.prems(2) parse_one_flag_key [of name] by auto
      have "length ?next < 96" "\<forall>f \<in> set ?next. f \<noteq> 0 \<and> flag_key f \<in> set flag_keys"
        using simp_ok [of ?flags] ok Cons.prems(1) by (auto split: if_splits)
      note ih = Cons.IH [OF this, of "[]"]
      have "flags_loop name (c # rest) flags = flags_loop [] rest ?next"
        using True Cons.prems(1) by (subst flags_loop.simps) auto
      then show ?thesis using ih by simp
    next
      case False
      then show ?thesis using Cons.IH [OF Cons.prems, of "name @ [c]"] by (subst (1) flags_loop.simps) auto
    qed
  qed
  obtain r where r: "flags_loop [] src [] = Some r" "case r of Inl e \<Rightarrow> parse_one_flag e = 0 |
      Inr fs \<Rightarrow> \<forall>f \<in> set fs. f \<noteq> 0 \<and> flag_key f \<in> set flag_keys"
    using loop [of "[]" "[]" src] by auto
  show ?thesis
  proof (cases r)
    case (Inr fs)
    then show ?thesis using r simp_ok [of fs] by (auto simp: parse_flags_def)
  qed (use r in \<open>auto simp: parse_flags_def\<close>)
qed

text \<open>
  A list of flags is simplified to the last of those entries that name the same flag, with or
  without the sense reversed: the result names every flag at most once and holds a flag exactly
  when no later entry of the list is for the same one.
\<close>

theorem simplify_flags_list_correct:
  "distinct (map flag_key (simplify_flags_list fs)) \<and>
    (f \<in> set (simplify_flags_list fs) \<longleftrightarrow> (\<exists>xs ys. fs = xs @ f # ys \<and> list_all (\<lambda>g. \<not> same_flag f g) ys))"
proof -
  have "f \<in> last_flags fs \<longleftrightarrow> (\<exists>xs ys. fs = xs @ f # ys \<and> list_all (\<lambda>g. \<not> same_flag f g) ys)"
  proof (induction fs)
    case (Cons g fs)
    have "(\<exists>xs ys. g # fs = xs @ f # ys \<and> list_all (\<lambda>g. \<not> same_flag f g) ys) \<longleftrightarrow>
      g = f \<and> list_all (\<lambda>g. \<not> same_flag f g) fs \<or> (\<exists>xs ys. fs = xs @ f # ys \<and> list_all (\<lambda>g. \<not> same_flag f g) ys)"
      by (auto simp: Cons_eq_append_conv)
    then show ?case using Cons by (auto simp: list_all_iff same_flag_iff image_iff)
  qed simp
  then show ?thesis using simplify_spec [of fs] by simp
qed

end
