(* ===== verification/Printing.thy ===== *)
theory Printing
  imports EhFrame RenameFile Flags
begin

section \<open>main\_nne.h and main.c: printing what a file says of itself\<close>

text \<open>
  What the actions that print something print, as a string, and the two operations of main\_nne.h
  that change the file: removing the versions of imported symbols and the note with the version
  of the kernel. Decoding a string opens the string table, so that these functions hand the state of
  the rewriter on.
\<close>

definition str_text :: "'a::len word erw \<Rightarrow> u64 \<Rightarrow> ('a word erw \<times> string) option" where
  "str_text erw ref = map_option (\<lambda>(erw, s). (erw, chars_of s)) (erw_dynstr_decode erw ref)"

text \<open>What follows a symbol in parentheses: \<open>printf("%s...", sep), sep = ", "\<close>.\<close>

definition annotate :: "bool \<Rightarrow> string \<Rightarrow> string \<times> string \<Rightarrow> string \<times> string" where
  "annotate c s l = (case l of (sep, out) \<Rightarrow> if c then ('', '', out @ sep @ s) else (sep, out))"

definition close_notes :: "string \<times> string \<Rightarrow> string" where
  "close_notes l = (case l of (sep, out) \<Rightarrow> if take 1 sep \<noteq> '' '' then out @ '')'' else out)"

subsection \<open>Program headers\<close>

definition print_interpreter_common :: "'a::len word erw \<Rightarrow> u64 \<Rightarrow> u64 \<Rightarrow> string option" where
  "print_interpreter_common erw ofs len =
    (if ofs > e_f_size erw then
       Some (text_line (''PT_INTERP has p_offset '' @ udec ofs @ '', which is greater than file size '' @ udec (e_f_size erw)))
     else do {
       let avail = e_f_size erw - ofs;
       let num_oob = (if avail < len then len - avail else 0);
       let len = (if avail < len then avail else len);
       str \<leftarrow> mem_read (e_f erw) (unat ofs) (unat len);
       let got_nul = (str \<noteq> [] \<and> last str = 0);
       let str = (if got_nul then butlast str else str);
       Some (text_line (chars_of str @ (if got_nul then [] else text_line '' (missing NUL terminator)'') @
         (if num_oob \<noteq> 0 then '' ('' @ udec num_oob @ '' more characters beyond end of file)'' else []))) })"

definition print_interpreter :: "'a::len word erw \<Rightarrow> nat \<Rightarrow> string option" where
  "print_interpreter erw i = do {
     itr \<leftarrow> phdr_get erw i;
     print_interpreter_common erw (ucast (esw (e_bswap erw) (p_offset itr))) (ucast (esw (e_bswap erw) (p_filesz itr))) }"

definition get_gnu_stack_flags :: "'a::len word erw \<Rightarrow> u32 option" where
  "get_gnu_stack_flags erw = map_option (foldl (\<lambda>stack_flags itr.
      if esw (e_bswap erw) (p_type itr) = PT_GNU_STACK then esw (e_bswap erw) (p_flags itr) else stack_flags) PF_X) (phdr_list erw)"

definition print_eh_frame :: "'a::len word erw \<Rightarrow> string option" where
  "print_eh_frame erw = do {
     hdr \<leftarrow> phdrs_find_first erw PT_GNU_EH_FRAME;
     case hdr of
       Some i \<Rightarrow> do { h \<leftarrow> phdr_get erw i; print_eh_frame_hdr_at erw (ucast (esw (e_bswap erw) (p_vaddr h))) }
     | None \<Rightarrow> Some (text_line ''No PT_GNU_EH_FRAME present'') }"

subsection \<open>The dynamic section\<close>

definition print_imported_lib :: "nat \<Rightarrow> 'a::len word erw \<times> string \<Rightarrow> ('a word erw \<times> string) option" where
  "print_imported_lib i l = (case l of (erw, out) \<Rightarrow> do {
     itr \<leftarrow> dyn_get erw i;
     let tag = esw (e_bswap erw) (d_tag itr);
     if tag = DT_NEEDED \<or> tag = DT_AUXILIARY \<or> tag = DT_FILTER then do {
       (erw, s) \<leftarrow> str_text erw (ucast (esw (e_bswap erw) (d_val itr)));
       Some (erw, out @ text_line (''library  '' @ s @
         (if tag = DT_NEEDED then [] else if tag = DT_AUXILIARY then '' (filter, weak)'' else '' (filter)''))) }
     else Some (erw, out) })"

definition print_imported_libs :: "'a::len word erw \<times> string \<Rightarrow> ('a word erw \<times> string) option" where
  "print_imported_libs l = each print_imported_lib [0..<dyn_count (fst l)] l"

text \<open>The value of the last entry with a tag, and whether there is an entry that names a library.\<close>

definition last_entry :: "'a::len word erw \<Rightarrow> 'a word \<Rightarrow> 'a word option option" where
  "last_entry erw tag = map_option (\<lambda>es. map_option (\<lambda>d. esw (e_bswap erw) (d_val d))
     (find (\<lambda>d. esw (e_bswap erw) (d_tag d) = tag) (rev es))) (dyn_list erw)"

definition any_libs :: "'a::len word erw \<Rightarrow> bool option" where
  "any_libs erw = map_option (list_ex (\<lambda>d. esw (e_bswap erw) (d_tag d) \<in> {DT_NEEDED, DT_AUXILIARY, DT_FILTER})) (dyn_list erw)"

definition print_named :: "string \<Rightarrow> 'a::len word \<Rightarrow> 'a word erw \<times> string \<Rightarrow> ('a word erw \<times> string) option" where
  "print_named what ref l = (case l of (erw, out) \<Rightarrow> do {
     (erw, s) \<leftarrow> str_text erw (ucast ref);
     Some (erw, out @ text_line (what @ '' '' @ s)) })"

text \<open>
  \<open>action_print_dt_str\<close> takes every file for a 64-bit one in the byte order of the host: an entry is
  two words of 64 bits, wherever the entries of the file are.
\<close>

definition dyn64_at :: "'a::len word erw \<Rightarrow> nat \<Rightarrow> (u64 \<times> u64) option" where
  "dyn64_at erw i =
    (if LENGTH('a) = 64 then map_option (\<lambda>d. (ucast (d_tag d), ucast (d_val d))) (dyn_get erw i)
     else do {
       let halves = (\<lambda>d. push_bit 32 (ucast (d_val d)) OR (ucast (d_tag d) :: u64));
       lo \<leftarrow> dyn_get erw (2 * i);
       hi \<leftarrow> dyn_get erw (2 * i + 1);
       Some (halves lo, halves hi) })"

fun find_dyn64 :: "'a::len word erw \<Rightarrow> u64 \<Rightarrow> nat \<Rightarrow> u64 option option" where
  "find_dyn64 erw tag 0 = Some None"
| "find_dyn64 erw tag (Suc i) = do {
     (t, v) \<leftarrow> dyn64_at erw i;
     if t = tag then Some (Some v) else find_dyn64 erw tag i }"

definition print_dt_str :: "'a::len word erw \<Rightarrow> u32 \<Rightarrow> string \<Rightarrow> ('a word erw \<times> string) option" where
  "print_dt_str erw tag tag_name = do {
     erw \<leftarrow> dhdrs_ready erw;
     v \<leftarrow> find_dyn64 erw (ucast tag) (dyn_count erw);
     case v of
       Some v \<Rightarrow> do { (erw, s) \<leftarrow> str_text erw v; Some (erw, text_line s) }
     | None \<Rightarrow> Some (erw, text_line (''No '' @ tag_name @ '' specified.'')) }"

definition print_flags :: "'a::len word erw \<Rightarrow> ('a word erw \<times> string) option" where
  "print_flags erw = do {
     (erw, flags) \<leftarrow> erw_dhdrs_get_flags erw;
     names \<leftarrow> print_df (ucast flags);
     names_1 \<leftarrow> print_df_1 (ucast (drop_bit 32 flags));
     stack_flags \<leftarrow> get_gnu_stack_flags erw;
     Some (erw, concat (map text_line (names @ names_1)) @ (if stack_flags AND PF_X \<noteq> 0 then text_line ''execstack'' else [])) }"

subsection \<open>The ABI of the system\<close>

text \<open>The first bytes are the places of the names in the same array; the place behind the last name is the first letter of the first one.\<close>

definition os_abi_names :: "u8 list" where
  "os_abi_names = [0x0e, 0x16, 0x1b, 0x21, 0x26, 0x2e, 0x2e, 0x35, 0x38, 0x3c, 0x43, 0x48, 0x48, 0x4f] @
     bytes_of ''System VHP-UXNetBSDLinuxGNU HurdSolarisAIXIRIXFreeBSDTru64OpenBSDOpenVMS''"

definition os_abi_name :: "u8 \<Rightarrow> string option" where
  "os_abi_name v =
    (let o0 = unat (os_abi_names ! unat v); o1 = unat (os_abi_names ! (unat v + 1))
     in if o0 < o1 then Some (chars_of (take (o1 - o0) (drop o0 os_abi_names))) else None)"

definition print_os_abi :: "'a::len word erw \<Rightarrow> string option" where
  "print_os_abi erw = do {
     v \<leftarrow> e_f erw 7;
     if v = 3 then do { n \<leftarrow> e_f erw 8; Some (text_line (''Linux, libc ABI version '' @ udec n)) }
     else Some (text_line (case (if v \<le> 13 then os_abi_name v else None) of
       Some s \<Rightarrow> s | None \<Rightarrow> ''0x'' @ hex02_text v)) }"

subsection \<open>Notes\<close>

text \<open>The place and size of the notes of a header, when they are in the file and large enough.\<close>

definition notes_of :: "'a::len word erw \<Rightarrow> 'a word phdr \<Rightarrow> ('a word \<times> 'a word \<times> 'a word) option" where
  "notes_of erw itr =
    (let bs = e_bswap erw;
         sz = esw bs (p_filesz itr); align = esw bs (p_align itr); offset = esw bs (p_offset itr)
     in if esw bs (p_type itr) \<noteq> PT_NOTE then None
        else if sz < 32 \<or> align \<noteq> 4 \<and> align \<noteq> 8 then None
        else if e_f_size erw \<le> ucast offset then None
        else if e_f_size erw - ucast offset < ucast sz then
          (let sz = ucast (e_f_size erw - ucast offset) in if sz < 32 then None else Some (align, offset, sz))
        else Some (align, offset, sz))"

definition is_abi_note :: "'a::len word erw \<Rightarrow> nat \<Rightarrow> bool option" where
  "is_abi_note erw a = do {
     vendorsz \<leftarrow> (word_at erw a :: u32 option);
     descsz \<leftarrow> (word_at erw (a + 4) :: u32 option);
     type' \<leftarrow> (word_at erw (a + 8) :: u32 option);
     vendor \<leftarrow> mem_read (e_f erw) (a + 12) 4;
     Some (vendorsz = 4 \<and> descsz = 16 \<and> type' = 1 \<and> vendor = bytes_of ''GNU'' @ [0]) }"

definition note_advance :: "'a::len word erw \<Rightarrow> nat \<Rightarrow> 'a word \<Rightarrow> 'a word option" where
  "note_advance erw a align = do {
     vendorsz \<leftarrow> (word_at erw a :: u32 option);
     descsz \<leftarrow> (word_at erw (a + 4) :: u32 option);
     Some (12 + ((ucast vendorsz + align - 1) AND (- align)) + ((ucast descsz + align - 1) AND (- align))) }"

text \<open>\<open>None\<close> is also a loop that does not end.\<close>

partial_function (option) find_abi_note :: "'a::len word erw \<Rightarrow> 'a word \<Rightarrow> 'a word \<Rightarrow> 'a word \<Rightarrow> nat option option" where
  "find_abi_note erw align offset sz =
    Option.bind (is_abi_note erw (unat offset)) (\<lambda>found.
      if found then Some (Some (unat offset))
      else Option.bind (note_advance erw (unat offset) align) (\<lambda>advance.
        if advance \<ge> sz then Some None
        else if sz - advance < 32 then Some None
        else find_abi_note erw align (offset + advance) (sz - advance)))"

definition kernel_version_text :: "'a::len word erw \<Rightarrow> nat \<Rightarrow> string option" where
  "kernel_version_text erw a = do {
     c4 \<leftarrow> (word_at erw (a + 16) :: u32 option);
     c5 \<leftarrow> (word_at erw (a + 20) :: u32 option);
     c6 \<leftarrow> (word_at erw (a + 24) :: u32 option);
     c7 \<leftarrow> (word_at erw (a + 28) :: u32 option);
     Some (text_line (if c4 \<noteq> 0
       then ''non-Linux kernel (type '' @ udec c4 @ '') version '' @ udec c5 @ ''.'' @ udec c6 @ ''.'' @ udec c7
       else ''Linux '' @ udec (c5 AND 0xff) @ ''.'' @ udec (c6 AND 0xff) @ ''.'' @ udec (c7 AND 0xff))) }"

fun print_kernel_version_of :: "'a::len word erw \<Rightarrow> 'a word phdr list \<Rightarrow> string option option" where
  "print_kernel_version_of erw [] = Some None"
| "print_kernel_version_of erw (itr # itrs) =
    (case notes_of erw itr of
       None \<Rightarrow> print_kernel_version_of erw itrs
     | Some (align, offset, sz) \<Rightarrow> do {
         found \<leftarrow> find_abi_note erw align offset sz;
         case found of
           Some a \<Rightarrow> map_option Some (kernel_version_text erw a)
         | None \<Rightarrow> print_kernel_version_of erw itrs })"

definition print_kernel_version :: "'a::len word erw \<Rightarrow> string option" where
  "print_kernel_version erw = do {
     ps \<leftarrow> phdr_list erw;
     s \<leftarrow> print_kernel_version_of erw ps;
     Some (case s of Some s \<Rightarrow> s | None \<Rightarrow> text_line ''No minimum kernel version specified.'') }"

definition remove_abi_note :: "'a::len word erw \<Rightarrow> nat \<Rightarrow> 'a word erw option" where
  "remove_abi_note erw a = do {
     f \<leftarrow> mem_store (e_f erw) (a + 12) (bytes_of ''NULL'' @ replicate 16 0);
     Some (set_modified ERW_MODIFIED_MISC (erw\<lparr>e_f := f\<rparr>)) }"

text \<open>The sizes of a note are read before the note is changed.\<close>

partial_function (option) remove_abi_notes :: "'a::len word \<Rightarrow> 'a word \<Rightarrow> 'a word \<Rightarrow> 'a word erw \<Rightarrow> 'a word erw option" where
  "remove_abi_notes align offset sz erw =
    Option.bind (is_abi_note erw (unat offset)) (\<lambda>found.
      Option.bind (note_advance erw (unat offset) align) (\<lambda>advance.
        Option.bind (if found then remove_abi_note erw (unat offset) else Some erw) (\<lambda>erw.
          if advance \<ge> sz then Some erw
          else if sz - advance < 32 then Some erw
          else remove_abi_notes align (offset + advance) (sz - advance) erw)))"

definition remove_kernel_version :: "'a::len word erw \<Rightarrow> 'a word erw option" where
  "remove_kernel_version erw = each (\<lambda>i erw. do {
      itr \<leftarrow> phdr_get erw i;
      case notes_of erw itr of
        None \<Rightarrow> Some erw
      | Some (align, offset, sz) \<Rightarrow> remove_abi_notes align offset sz erw }) [0..<phdr_count erw] erw"

subsection \<open>Symbols\<close>

definition stt_names :: "string list" where
  "stt_names = [''untyped '', ''variable'', ''function'', ''section '', ''file'', ''common variable'', ''per-thread variable'',
     ''stt_7'', ''stt_8'', ''stt_9'', ''function'', ''stt_11'', ''stt_12'', ''stt_13'', ''stt_14'', ''stt_15'']"

definition stt_of :: "'a::len word sym \<Rightarrow> u8" where
  "stt_of sy = st_info sy AND 0xf"

definition is_data :: "'a::len word sym \<Rightarrow> bool" where
  "is_data sy \<longleftrightarrow> stt_of sy \<in> {STT_OBJECT, STT_COMMON, STT_TLS}"

text \<open>The symbols that pass a test, from the last one down; symbol 0 is left out.\<close>

definition select_syms :: "(u32 \<Rightarrow> bool) \<Rightarrow> 'a::len word erw \<Rightarrow> u32 list option" where
  "select_syms ok erw = do {
     let is = rev [1..<unat (sym_count erw)];
     flags \<leftarrow> all_some (map (sym_flags erw) is);
     Some (map of_nat (map fst (filter (\<lambda>(i, f). ok f) (zip is flags)))) }"

definition item_of :: "'a::len word erw \<Rightarrow> u16 \<Rightarrow> (ver_item \<times> ver_index_ref) option option" where
  "item_of erw ver =
    (if unat ver < length (ve_base (e_vers erw)) then
       (let ref = ve_base (e_vers erw) ! unat ver
        in case vr_item ref of None \<Rightarrow> Some None
           | Some n \<Rightarrow> map_option (\<lambda>i. Some (i, ref)) (item_at (e_vers erw) n))
     else Some None)"

definition print_version_line :: "string \<Rightarrow> ver_item \<Rightarrow> 'a::len word erw \<times> string \<Rightarrow> ('a word erw \<times> string) option" where
  "print_version_line what i l = (case l of (erw, out) \<Rightarrow> do {
     (erw, s) \<leftarrow> str_text erw (ucast (vi_str i));
     Some (erw, out @ what @ s) })"

definition print_export_version :: "u16 \<Rightarrow> string \<times> string \<Rightarrow> 'a::len word erw \<Rightarrow> ('a word erw \<times> string \<times> string) option" where
  "print_export_version w l erw = do {
     let hidden = (w AND 0x8000 \<noteq> 0);
     let ver = w AND 0x7fff;
     item \<leftarrow> item_of erw ver;
     case item of
       Some (i, _) \<Rightarrow> do {
         (erw, s) \<leftarrow> str_text erw (ucast (vi_str i));
         let l = (fst l, snd l @ ''@'' @ s);
         Some (erw, annotate (hidden \<and> ver = 2) ''ignored by unversioned dlsym lookups''
           (annotate (hidden \<and> ver \<ge> 3) ''ignored by unversioned lookups'' l)) }
     | None \<Rightarrow> Some (erw, annotate hidden ''ignored by versioned lookups'' l) }"

definition imported_bits :: u32 where
  "imported_bits = SYM_INFO_RELOC_COPY OR SYM_INFO_RELOC_PLT OR SYM_INFO_RELOC_REGULAR"

definition print_sym_name :: "nat \<Rightarrow> 'a::len word erw \<times> string \<Rightarrow> ('a word erw \<times> 'a word sym \<times> string \<times> string) option" where
  "print_sym_name index l = (case l of (erw, out) \<Rightarrow> do {
     sy \<leftarrow> sym_get erw index;
     (erw, s) \<leftarrow> str_text erw (ucast (esw (e_bswap erw) (st_name sy)));
     Some (erw, sy, '' ('', out @ stt_names ! unat (stt_of sy) @ '' '' @ s) })"

definition size_note :: "bool \<Rightarrow> 'a::len word sym \<Rightarrow> bool \<Rightarrow> string \<times> string \<Rightarrow> string \<times> string" where
  "size_note swp sy always l =
    annotate (always \<or> is_data sy \<and> st_size sy \<noteq> 0) (udec (esw swp (st_size sy)) @ '' bytes'') l"

definition hex08_text :: "nat \<Rightarrow> string" where
  "hex08_text n = (let s = hex_text n in replicate (8 - length s) (CHR ''0'') @ s)"

definition print_export :: "u32 \<Rightarrow> 'a::len word erw \<times> string \<Rightarrow> ('a word erw \<times> string) option" where
  "print_export index l = do {
     let index = unat index;
     info \<leftarrow> sym_flags (fst l) index;
     (erw, sy, l) \<leftarrow> print_sym_name index l;
     let swp = e_bswap erw;
     (erw, l) \<leftarrow> (if sy_versions (e_dsyms erw) = None then Some (erw, l)
       else do { w \<leftarrow> versym_get erw index; print_export_version (esw swp w) l erw });
     let l = annotate (info AND SYM_INFO_PLT_EXPORTABLE = 0) ''ignored by PLT lookups'' l;
     let l = size_note swp sy False l;
     let l = annotate (info AND imported_bits \<noteq> 0 \<and>
       info AND (SYM_INFO_RELOC_COPY OR SYM_INFO_RELOC_REGULAR OR SYM_INFO_PLT_EXPORTABLE) \<noteq> 0) ''also imported'' l;
     let l = annotate (drop_bit 4 (st_info sy) = STB_WEAK) ''optionally weak'' l;
     let l = annotate (stt_of sy = STT_GNU_IFUNC \<and> esw swp (st_shndx sy) \<noteq> SHN_UNDEF) ''ifunc'' l;
     Some (erw, close_notes l @ text_line ('' -> 0x'' @ hex08_text (unat (esw swp (st_value sy))))) }"

definition print_exports_head :: "'a::len word erw \<Rightarrow> ('a word erw \<times> string) option" where
  "print_exports_head erw = do {
     erw \<leftarrow> dhdrs_ready erw;
     soname \<leftarrow> last_entry erw DT_SONAME;
     libs \<leftarrow> any_libs erw;
     (erw, out) \<leftarrow> (case soname of Some v \<Rightarrow> print_named ''soname'' v (erw, []) | None \<Rightarrow> Some (erw, []));
     if libs then print_imported_libs (erw, out) else Some (erw, out) }"

definition print_exported_version :: "ver_group \<Rightarrow> 'a::len word erw \<times> string \<Rightarrow> ('a word erw \<times> string) option" where
  "print_exported_version g l = (case vg_items g of
     i # _ \<Rightarrow> map_option (\<lambda>(erw, out). (erw, text_line out)) (print_version_line ''version  '' i l)
   | [] \<Rightarrow> Some l)"

definition print_exports :: "((u32 \<Rightarrow> u32 \<Rightarrow> int option) \<Rightarrow> u32 list \<Rightarrow> u32 list option) \<Rightarrow> 'a::len word erw \<Rightarrow>
    ('a word erw \<times> string) option" where
  "print_exports qsort erw = do {
     (erw, out) \<leftarrow> print_exports_head erw;
     erw \<leftarrow> erw_vers_init erw;
     (erw, out) \<leftarrow> each print_exported_version (ve_def (e_vers erw)) (erw, out);
     erw \<leftarrow> erw_dsyms_init erw;
     let bits = hash_bits erw;
     indices \<leftarrow> select_syms (\<lambda>info. info AND SYM_INFO_LOCAL = 0 \<and> info AND SYM_INFO_EXPORTABLE \<noteq> 0 \<and> info AND bits \<noteq> 0) erw;
     indices \<leftarrow> dsyms_sort_indices qsort erw indices;
     each print_export indices (erw, out) }"

definition print_import_version :: "u16 \<Rightarrow> string \<times> string \<Rightarrow> 'a::len word erw \<Rightarrow> ('a word erw \<times> string \<times> string) option" where
  "print_import_version w l erw = do {
     item \<leftarrow> item_of erw (w AND 0x7fff);
     case item of
       Some (i, ref) \<Rightarrow> do {
         (erw, s) \<leftarrow> str_text erw (ucast (vi_str i));
         let l = (fst l, snd l @ ''@'' @ s);
         let l = annotate (vi_index i AND 0x8000 \<noteq> 0) ''will not bind to VER_NDX_GLOBAL'' l;
         case vr_group ref of
           None \<Rightarrow> Some (erw, l)
         | Some n \<Rightarrow> do {
             g \<leftarrow> group_at (e_vers erw) n;
             (erw, s) \<leftarrow> str_text erw (ucast (vg_name g));
             Some (erw, annotate True (''originally from '' @ s) l) } }
     | None \<Rightarrow> Some (erw, l) }"

definition print_import :: "u32 \<Rightarrow> u32 \<Rightarrow> u32 \<Rightarrow> 'a::len word erw \<times> string \<Rightarrow> ('a word erw \<times> string) option" where
  "print_import bits eager_bits index l = do {
     let index = unat index;
     info \<leftarrow> sym_flags (fst l) index;
     (erw, sy, l) \<leftarrow> print_sym_name index l;
     let swp = e_bswap erw;
     (erw, l) \<leftarrow> (if sy_versions (e_dsyms erw) = None then Some (erw, l)
       else do { w \<leftarrow> versym_get erw index; print_import_version (esw swp w) l erw });
     let l = annotate (drop_bit 4 (st_info sy) = STB_WEAK) ''weak'' l;
     let l = annotate (info AND eager_bits = 0) ''lazy'' l;
     let l = annotate (info AND SYM_INFO_RELOC_COPY \<noteq> 0) ''copied'' l;
     let l = size_note swp sy (info AND SYM_INFO_RELOC_COPY \<noteq> 0) l;
     let l = annotate (info AND SYM_INFO_RELOC_PLT \<noteq> 0)
       (if info AND (SYM_INFO_RELOC_COPY OR SYM_INFO_RELOC_REGULAR) \<noteq> 0 then ''for both PLT and non-PLT'' else ''for PLT'') l;
     let l = annotate (info AND bits \<noteq> 0 \<and> info AND SYM_INFO_EXPORTABLE \<noteq> 0)
       (''also exported'' @ (if info AND SYM_INFO_PLT_EXPORTABLE = 0 then '' (except to PLTs)'' else [])) l;
     Some (erw, text_line (close_notes l)) }"

definition print_imports_head :: "'a::len word erw \<Rightarrow> ('a word erw \<times> string) option" where
  "print_imports_head erw = do {
     interp \<leftarrow> phdrs_find_first erw PT_INTERP;
     out \<leftarrow> (case interp of Some i \<Rightarrow> map_option (append ''interpreter '') (print_interpreter erw i) | None \<Rightarrow> Some []);
     erw \<leftarrow> dhdrs_ready erw;
     rpath \<leftarrow> last_entry erw DT_RPATH;
     runpath \<leftarrow> last_entry erw DT_RUNPATH;
     libs \<leftarrow> any_libs erw;
     if libs then do {
       l \<leftarrow> (case (runpath, rpath) of
           (Some v, _) \<Rightarrow> print_named ''runpath'' v (erw, out)
         | (None, Some v) \<Rightarrow> print_named ''rpath'' v (erw, out)
         | (None, None) \<Rightarrow> Some (erw, out));
       print_imported_libs l }
     else Some (erw, out) }"

definition print_imported_version :: "u32 \<Rightarrow> ver_item \<Rightarrow> 'a::len word erw \<times> string \<Rightarrow> ('a word erw \<times> string) option" where
  "print_imported_version group_name i l = do {
     (erw, out) \<leftarrow> print_version_line ''version  '' i l;
     (erw, s) \<leftarrow> str_text erw (ucast group_name);
     Some (erw, text_line (out @ '' from '' @ s @ (if vi_flags i AND VER_FLG_WEAK \<noteq> 0 then '' (weak)'' else []))) }"

definition print_imports :: "((u32 \<Rightarrow> u32 \<Rightarrow> int option) \<Rightarrow> u32 list \<Rightarrow> u32 list option) \<Rightarrow> 'a::len word erw \<Rightarrow>
    ('a word erw \<times> string) option" where
  "print_imports qsort erw = do {
     (erw, out) \<leftarrow> print_imports_head erw;
     erw \<leftarrow> erw_vers_init erw;
     (erw, out) \<leftarrow> each (\<lambda>g l. each (print_imported_version (vg_name g)) (vg_items g) l) (ve_need (e_vers erw)) (erw, out);
     erw \<leftarrow> erw_dsyms_init erw;
     indices \<leftarrow> select_syms (\<lambda>info. info AND SYM_INFO_LOCAL = 0 \<and> info AND imported_bits \<noteq> 0) erw;
     indices \<leftarrow> dsyms_sort_indices qsort erw indices;
     (erw, eager) \<leftarrow> erw_dhdrs_is_eager erw;
     each (print_import (hash_bits erw) ((if eager then SYM_INFO_RELOC_MAYBE_EAGER else 0) OR SYM_INFO_RELOC_EAGER)) indices (erw, out) }"

subsection \<open>Versions of imported symbols\<close>

definition remove_verneed_of :: "nat \<Rightarrow> 'a::len word erw \<times> bool \<Rightarrow> ('a word erw \<times> bool) option" where
  "remove_verneed_of i l = (case l of (erw, modified) \<Rightarrow> do {
     w \<leftarrow> versym_get erw i;
     let v = esw (e_bswap erw) w AND 0x7fff;
     if v > 1 \<and> unat v < length (ve_base (e_vers erw)) \<and> vr_group (ve_base (e_vers erw) ! unat v) \<noteq> None then do {
       flags \<leftarrow> sym_flags erw i;
       erw \<leftarrow> versym_put erw i (esw (e_bswap erw) (if flags AND SYM_INFO_LOCAL \<noteq> 0 then 0 else 1));
       Some (erw, True) }
     else Some (erw, modified) })"

definition remove_verneed :: "'a::len word erw \<Rightarrow> ('a word erw \<times> bool) option" where
  "remove_verneed erw =
    (if sy_versions (e_dsyms erw) = None then Some (erw, False)
     else each remove_verneed_of [0..<unat (sym_count erw)] (erw, False))"

end
