(* ===== verification/Actions.thy ===== *)
theory Actions
  imports Printing
begin

section \<open>main.c: the actions on a file\<close>

text \<open>
  Each action of the command line as a function of the state of the rewriter and of the action
  itself, which some of them change: an action that prints becomes inert until the next file, and
  the removal of flags becomes an addition of the reversed flags, so that neither is done twice when
  the actions are run again after a retry. The result is the text that is printed; \<open>Inl\<close> is the
  error exit for symbols that the target version does not have.
\<close>

subsection \<open>Lists with colons\<close>

function colon_list_contains :: "bstr \<Rightarrow> bstr \<Rightarrow> bool" where
  "colon_list_contains list query =
    (let entry = takeWhile (\<lambda>c. c \<noteq> 0x3a) list
     in if length entry < length list then
          (if entry = query then True else colon_list_contains (drop (length entry + 1) list) query)
        else list = query)"
  by pat_completeness auto
termination
  by (relation "measure (\<lambda>(list, query). length list)") auto

declare colon_list_contains.simps [simp del]

definition append_to_colon_list :: "bstr \<Rightarrow> bstr \<Rightarrow> bstr option" where
  "append_to_colon_list list to_append =
    (if colon_list_contains list to_append then None else Some (list @ [0x3a] @ to_append))"

subsection \<open>The actions\<close>

datatype action_fn =
    Action_add_debug | Action_add_early_needed | Action_add_flag | Action_add_gnu_hash | Action_add_hash
  | Action_add_late_needed | Action_add_rpath | Action_add_runpath | Action_clear_symbol_version
  | Action_print_eh_frame | Action_print_exports | Action_print_flags | Action_print_imports | Action_print_interpreter
  | Action_print_kernel_version | Action_print_os_abi | Action_print_rpath | Action_print_runpath | Action_print_soname
  | Action_remove_debug | Action_remove_flag | Action_remove_kernel_version | Action_remove_needed | Action_remove_relro
  | Action_remove_rpath | Action_remove_runpath | Action_remove_soname | Action_remove_verneed | Action_apply_renamer
  | Action_set_interpreter | Action_set_rpath | Action_set_runpath | Action_set_soname | Action_weak_verneed
  | Action_inert

text \<open>The union: a string, the function that an inert action had, packed flags, or what the pointer points to.\<close>

datatype action_arg = Arg_none | Arg_s bstr | Arg_fn action_fn | Arg_flags "u8 list" | Arg_renamer renamer | Arg_names sht

record cmdline_action =
  ca_fn :: action_fn
  ca_arg :: action_arg

text \<open>What the actions use that is not in the repository's source, or is made by the build.\<close>

record ('w, 'p) run_env =
  re_polyfillers :: "u16 \<Rightarrow> ('w, 'p) polyfiller_fns"
  re_tables :: rename_tables
  re_qsort :: "(u32 \<Rightarrow> u32 \<Rightarrow> int option) \<Rightarrow> u32 list \<Rightarrow> u32 list option"

text \<open>The bit of a tag in a mask of tags.\<close>

definition tag_bit :: "u32 \<Rightarrow> u64" where
  "tag_bit tag = push_bit (unat tag) 1"

definition set_rpath :: "'a::len word erw \<Rightarrow> bstr \<Rightarrow> 'a word erw option" where
  "set_rpath erw s = do { erw \<leftarrow> erw_dhdrs_set_str erw DT_RPATH s; erw_dhdrs_remove_mask erw (tag_bit DT_RUNPATH) }"

text \<open>The string of an entry with a new part behind it, for an entry that exists.\<close>

definition extend_str :: "'a::len word erw \<Rightarrow> u32 \<Rightarrow> u64 \<Rightarrow> bstr \<Rightarrow> 'a word erw option" where
  "extend_str erw tag existing s = do {
     (erw, existing_s) \<leftarrow> erw_dynstr_decode erw existing;
     case append_to_colon_list existing_s s of
       Some tmp \<Rightarrow> erw_dhdrs_set_str erw tag tmp
     | None \<Rightarrow> Some erw }"

definition add_rpath :: "'a::len word erw \<Rightarrow> bstr \<Rightarrow> 'a word erw option" where
  "add_rpath erw s = do {
     (erw, existing) \<leftarrow> erw_dhdrs_has erw DT_RPATH;
     case existing of
       None \<Rightarrow> set_rpath erw s
     | Some v \<Rightarrow> do {
         erw \<leftarrow> extend_str erw DT_RPATH v s;
         erw_dhdrs_remove_mask erw (tag_bit DT_RUNPATH) } }"

definition action_set_runpath :: "'a::len word erw \<Rightarrow> bstr \<Rightarrow> 'a word erw option" where
  "action_set_runpath erw s = erw_dhdrs_set_str erw DT_RUNPATH s"

definition add_runpath :: "'a::len word erw \<Rightarrow> bstr \<Rightarrow> 'a word erw option" where
  "add_runpath erw s = do {
     (erw, existing) \<leftarrow> erw_dhdrs_has erw DT_RUNPATH;
     case existing of
       None \<Rightarrow> action_set_runpath erw s
     | Some v \<Rightarrow> extend_str erw DT_RUNPATH v s }"

definition add_needed_once :: "('a::len word erw \<Rightarrow> bstr \<Rightarrow> 'a word erw option) \<Rightarrow> 'a word erw \<Rightarrow> bstr \<Rightarrow> 'a word erw option" where
  "add_needed_once add erw s = do {
     (erw, has) \<leftarrow> erw_dhdrs_has_needed erw s;
     if has then Some erw else add erw s }"

definition action_remove_verneed :: "'a::len word erw \<Rightarrow> 'a word erw option" where
  "action_remove_verneed erw = do {
     erw \<leftarrow> erw_vers_init erw;
     if ve_need (e_vers erw) = [] then Some erw
     else do {
       erw \<leftarrow> erw_dsyms_init erw;
       (erw, modified) \<leftarrow> remove_verneed erw;
       let erw = set_modified (ERW_MODIFIED_VERNEED OR (if modified then ERW_MODIFIED_DSYMS else 0)) erw;
       let ve = e_vers erw;
       Some (set_vers erw (ve\<lparr>ve_need := map (\<lambda>g. g\<lparr>vg_state := VER_EDIT_STATE_PENDING_DELETE\<rparr>) (ve_need ve)\<rparr>)) } }"

definition weak_item :: "ver_item \<Rightarrow> ver_item" where
  "weak_item i = (if vi_flags i AND VER_FLG_WEAK = 0
     then i\<lparr>vi_flags := vi_flags i OR VER_FLG_WEAK, vi_state := vi_state i OR VER_EDIT_STATE_DIRTY\<rparr> else i)"

definition weak_group :: "ver_group \<Rightarrow> ver_group" where
  "weak_group g = g\<lparr>vg_items := map weak_item (vg_items g),
     vg_state := (if list_ex (\<lambda>i. vi_flags i AND VER_FLG_WEAK = 0) (vg_items g) then vg_state g OR VER_EDIT_STATE_DIRTY else vg_state g)\<rparr>"

definition action_weak_verneed :: "'a::len word erw \<Rightarrow> 'a word erw option" where
  "action_weak_verneed erw = do {
     erw \<leftarrow> erw_vers_init erw;
     let ve = e_vers erw;
     let any = list_ex (\<lambda>g. list_ex (\<lambda>i. vi_flags i AND VER_FLG_WEAK = 0) (vg_items g)) (ve_need ve);
     let erw = set_vers erw (ve\<lparr>ve_need := map weak_group (ve_need ve)\<rparr>);
     Some (if any then set_modified ERW_MODIFIED_VERNEED erw else erw) }"

subsection \<open>Flags\<close>

text \<open>Removing one of two equivalent flags removes both; some flags are equivalent to an entry of their own.\<close>

definition lazy_masks :: "flag_masks \<Rightarrow> flag_masks" where
  "lazy_masks masks = (case masks of (add, rem) \<Rightarrow>
     if rem 0 AND DF_BIND_NOW OR rem 1 AND DF_1_NOW \<noteq> 0 then
       (add(0 := add 0 AND NOT DF_BIND_NOW, 1 := add 1 AND NOT DF_1_NOW), rem(0 := rem 0 OR DF_BIND_NOW, 1 := rem 1 OR DF_1_NOW))
     else masks)"

definition flag_tags :: "u32 \<Rightarrow> u64" where
  "flag_tags rem =
    (if rem AND DF_SYMBOLIC \<noteq> 0 then tag_bit DT_SYMBOLIC else 0) OR
    (if rem AND DF_TEXTREL \<noteq> 0 then tag_bit DT_TEXTREL else 0) OR
    (if rem AND DF_BIND_NOW \<noteq> 0 then tag_bit DT_BIND_NOW else 0)"

definition add_flags :: "'a::len word erw \<Rightarrow> u8 list \<Rightarrow> 'a word erw option" where
  "add_flags erw flags = (case lazy_masks (flag_masks flags no_masks) of (add, rem) \<Rightarrow> do {
     erw \<leftarrow> (if add 0 OR rem 0 \<noteq> 0 then do {
         erw \<leftarrow> (if rem 0 AND (DF_SYMBOLIC OR DF_TEXTREL OR DF_BIND_NOW) \<noteq> 0
           then erw_dhdrs_remove_mask erw (flag_tags (rem 0)) else Some erw);
         erw_dhdrs_add_remove_flags erw DT_FLAGS (add 0) (rem 0) }
       else Some erw);
     erw \<leftarrow> (if add 1 OR rem 1 \<noteq> 0 then erw_dhdrs_add_remove_flags erw DT_FLAGS_1 (add 1) (rem 1) else Some erw);
     if add 2 OR rem 2 \<noteq> 0 then phdrs_set_stack_prot erw (PF_R + PF_W + add 2 * PF_X) else Some erw })"

text \<open>Reverse the sense of each flag, up to the byte that ends the list.\<close>

definition reverse_flags :: "u8 list \<Rightarrow> u8 list" where
  "reverse_flags flags = map (\<lambda>f. f XOR 4) (takeWhile (\<lambda>f. f \<noteq> 0) flags)"

subsection \<open>One action\<close>

text \<open>\<open>print\<close> is what the action prints; on a pass that ends in a retry nothing is printed.\<close>

definition print_once :: "('a::len word erw \<Rightarrow> ('a word erw \<times> string) option) \<Rightarrow> 'a word erw \<Rightarrow> cmdline_action \<Rightarrow>
    ('a word erw \<times> cmdline_action \<times> string) option" where
  "print_once print erw act =
    (if e_retry erw then Some (erw, act, [])
     else map_option (\<lambda>(erw, s). (erw, act\<lparr>ca_fn := Action_inert, ca_arg := Arg_fn (ca_fn act)\<rparr>, s)) (print erw))"

definition prints :: "('a::len word erw \<Rightarrow> string option) \<Rightarrow> 'a word erw \<Rightarrow> ('a word erw \<times> string) option" where
  "prints print erw = map_option (Pair erw) (print erw)"

definition print_interpreter_or_none :: "'a::len word erw \<Rightarrow> string option" where
  "print_interpreter_or_none erw = do {
     itr \<leftarrow> phdrs_find_first erw PT_INTERP;
     case itr of Some i \<Rightarrow> print_interpreter erw i | None \<Rightarrow> Some (text_line ''No interpreter specified.'') }"

fun printer :: "('a::len word, 'p) run_env \<Rightarrow> action_fn \<Rightarrow> ('a word erw \<Rightarrow> ('a word erw \<times> string) option) option" where
  "printer env Action_print_eh_frame = Some (prints print_eh_frame)"
| "printer env Action_print_exports = Some (print_exports (re_qsort env))"
| "printer env Action_print_flags = Some print_flags"
| "printer env Action_print_imports = Some (print_imports (re_qsort env))"
| "printer env Action_print_interpreter = Some (prints print_interpreter_or_none)"
| "printer env Action_print_kernel_version = Some (prints print_kernel_version)"
| "printer env Action_print_os_abi = Some (prints print_os_abi)"
| "printer env Action_print_rpath = Some (\<lambda>erw. print_dt_str erw DT_RPATH ''rpath'')"
| "printer env Action_print_runpath = Some (\<lambda>erw. print_dt_str erw DT_RUNPATH ''runpath'')"
| "printer env Action_print_soname = Some (\<lambda>erw. print_dt_str erw DT_SONAME ''soname'')"
| "printer env _ = None"

text \<open>The actions that are one call of the rewriter.\<close>

definition action_add_debug :: "'a::len word erw \<Rightarrow> 'a word erw option" where
  "action_add_debug erw = erw_dhdrs_set_u erw DT_DEBUG 0"

definition action_set_interpreter :: "'a::len word erw \<Rightarrow> bstr \<Rightarrow> 'a word erw option" where
  "action_set_interpreter erw s = phdrs_set_interpreter erw s"

definition action_remove_relro :: "'a::len word erw \<Rightarrow> 'a word erw option" where
  "action_remove_relro erw = phdrs_remove erw PT_GNU_RELRO"

definition action_set_soname :: "'a::len word erw \<Rightarrow> bstr \<Rightarrow> 'a word erw option" where
  "action_set_soname erw s = erw_dhdrs_set_str erw DT_SONAME s"

definition action_remove_tag :: "'a::len word erw \<Rightarrow> u32 \<Rightarrow> 'a word erw option" where
  "action_remove_tag erw tag = erw_dhdrs_remove_mask erw (tag_bit tag)"

definition action_add_hash :: "'a::len word erw \<Rightarrow> 'a word erw option" where
  "action_add_hash erw = erw_dsyms_add_hash erw DT_HASH"

definition action_add_gnu_hash :: "'a::len word erw \<Rightarrow> 'a word erw option" where
  "action_add_gnu_hash erw = erw_dsyms_add_hash erw DT_GNU_HASH"

definition action_clear_symbol_version :: "'a::len word erw \<Rightarrow> sht \<Rightarrow> 'a word erw option" where
  "action_clear_symbol_version erw names = erw_dsyms_clear_version erw
     (\<lambda>name. case sht_lookup_u names name of Some u \<Rightarrow> u \<noteq> 0 | None \<Rightarrow> False)"

definition action_add_early_needed :: "'a::len word erw \<Rightarrow> bstr \<Rightarrow> 'a word erw option" where
  "action_add_early_needed erw s = add_needed_once erw_dhdrs_add_early_needed erw s"

definition action_add_late_needed :: "'a::len word erw \<Rightarrow> bstr \<Rightarrow> 'a word erw option" where
  "action_add_late_needed erw s = add_needed_once erw_dhdrs_add_late_needed erw s"

definition action_remove_needed :: "'a::len word erw \<Rightarrow> bstr \<Rightarrow> 'a word erw option" where
  "action_remove_needed erw s = erw_dhdrs_remove_needed erw s"

text \<open>The action of a function of the table, for those that neither print nor change the action itself.\<close>

fun edit_with :: "action_fn \<Rightarrow> action_arg \<Rightarrow> 'a::len word erw \<Rightarrow> 'a word erw option" where
  "edit_with Action_add_debug _ erw = action_add_debug erw"
| "edit_with Action_add_early_needed (Arg_s s) erw = action_add_early_needed erw s"
| "edit_with Action_add_flag (Arg_flags flags) erw = add_flags erw flags"
| "edit_with Action_add_gnu_hash _ erw = action_add_gnu_hash erw"
| "edit_with Action_add_hash _ erw = action_add_hash erw"
| "edit_with Action_add_late_needed (Arg_s s) erw = action_add_late_needed erw s"
| "edit_with Action_add_rpath (Arg_s s) erw = add_rpath erw s"
| "edit_with Action_add_runpath (Arg_s s) erw = add_runpath erw s"
| "edit_with Action_clear_symbol_version (Arg_names names) erw = action_clear_symbol_version erw names"
| "edit_with Action_remove_debug _ erw = action_remove_tag erw DT_DEBUG"
| "edit_with Action_remove_kernel_version _ erw = remove_kernel_version erw"
| "edit_with Action_remove_needed (Arg_s s) erw = action_remove_needed erw s"
| "edit_with Action_remove_relro _ erw = action_remove_relro erw"
| "edit_with Action_remove_rpath _ erw = action_remove_tag erw DT_RPATH"
| "edit_with Action_remove_runpath _ erw = action_remove_tag erw DT_RUNPATH"
| "edit_with Action_remove_soname _ erw = action_remove_tag erw DT_SONAME"
| "edit_with Action_remove_verneed _ erw = action_remove_verneed erw"
| "edit_with Action_set_interpreter (Arg_s s) erw = action_set_interpreter erw s"
| "edit_with Action_set_rpath (Arg_s s) erw = set_rpath erw s"
| "edit_with Action_set_runpath (Arg_s s) erw = action_set_runpath erw s"
| "edit_with Action_set_soname (Arg_s s) erw = action_set_soname erw s"
| "edit_with Action_weak_verneed _ erw = action_weak_verneed erw"
| "edit_with Action_inert _ erw = Some erw"
| "edit_with _ _ erw = None"

definition run_action :: "('a::len word, 'p) run_env \<Rightarrow> 'a word erw \<Rightarrow> cmdline_action \<Rightarrow>
    (u32 list + 'a word erw \<times> cmdline_action \<times> string) option" where
  "run_action env erw act =
    (case printer env (ca_fn act) of
       Some print \<Rightarrow> map_option Inr (print_once print erw act)
     | None \<Rightarrow>
       (case (ca_fn act, ca_arg act) of
          (Action_remove_flag, Arg_flags flags) \<Rightarrow>
            (let flags = reverse_flags flags
             in map_option (\<lambda>erw. Inr (erw, act\<lparr>ca_fn := Action_add_flag, ca_arg := Arg_flags flags\<rparr>, []))
                  (add_flags erw flags))
        | (Action_apply_renamer, Arg_renamer rn) \<Rightarrow> do {
            r \<leftarrow> renamer_apply_to (re_polyfillers env) (re_tables env) rn erw;
            Some (case r of
                Inl bad_syms \<Rightarrow> Inl bad_syms
              | Inr (erw, rn) \<Rightarrow> Inr (erw, act\<lparr>ca_arg := Arg_renamer rn\<rparr>, [])) }
        | (fn, arg) \<Rightarrow> map_option (\<lambda>erw. Inr (erw, act, [])) (edit_with fn arg erw)))"

end
