(* ===== verification/CommandLine.thy ===== *)
theory CommandLine
  imports Actions
begin

section \<open>main.c: reading the command line\<close>

text \<open>
  From the arguments of the program to the list of actions, the options and the names of the
  files. A flag is looked up by binary search in two sorted tables. The actions grow from the start
  of one array and the file names from its end; the theorems say that each flag of the tables is
  found, and that the two parts of the array never meet.
\<close>

subsection \<open>The tables\<close>

datatype arg_parser = Parse_string | Parse_flags | Parse_rename_dynamic_symbols | Parse_target_glibc | Parse_clear_symbol_version

datatype modifier_fn = Set_create_polyfill_so | Set_dry | Set_output | Set_page_size | Set_polyfiller_cfi_mode | Set_use_polyfill_so

definition cmdline_actions :: "(string \<times> action_fn \<times> arg_parser option) list" where
  "cmdline_actions =
    [(''--add-debug'', Action_add_debug, None),
     (''--add-early-needed'', Action_add_early_needed, Some Parse_string),
     (''--add-flags'', Action_add_flag, Some Parse_flags),
     (''--add-gnu-hash'', Action_add_gnu_hash, None),
     (''--add-hash'', Action_add_hash, None),
     (''--add-late-needed'', Action_add_late_needed, Some Parse_string),
     (''--add-rpath'', Action_add_rpath, Some Parse_string),
     (''--add-runpath'', Action_add_runpath, Some Parse_string),
     (''--clear-symbol-version'', Action_clear_symbol_version, Some Parse_clear_symbol_version),
     (''--print-eh-frame'', Action_print_eh_frame, None),
     (''--print-exports'', Action_print_exports, None),
     (''--print-flags'', Action_print_flags, None),
     (''--print-imports'', Action_print_imports, None),
     (''--print-interpreter'', Action_print_interpreter, None),
     (''--print-kernel-version'', Action_print_kernel_version, None),
     (''--print-os-abi'', Action_print_os_abi, None),
     (''--print-rpath'', Action_print_rpath, None),
     (''--print-runpath'', Action_print_runpath, None),
     (''--print-soname'', Action_print_soname, None),
     (''--remove-debug'', Action_remove_debug, None),
     (''--remove-flags'', Action_remove_flag, Some Parse_flags),
     (''--remove-kernel-version'', Action_remove_kernel_version, None),
     (''--remove-needed'', Action_remove_needed, Some Parse_string),
     (''--remove-relro'', Action_remove_relro, None),
     (''--remove-rpath'', Action_remove_rpath, None),
     (''--remove-runpath'', Action_remove_runpath, None),
     (''--remove-soname'', Action_remove_soname, None),
     (''--remove-verneed'', Action_remove_verneed, None),
     (''--rename-dynamic-symbols'', Action_apply_renamer, Some Parse_rename_dynamic_symbols),
     (''--set-interpreter'', Action_set_interpreter, Some Parse_string),
     (''--set-rpath'', Action_set_rpath, Some Parse_string),
     (''--set-runpath'', Action_set_runpath, Some Parse_string),
     (''--set-soname'', Action_set_soname, Some Parse_string),
     (''--target-glibc'', Action_apply_renamer, Some Parse_target_glibc),
     (''--weak-verneed'', Action_weak_verneed, None)]"

definition cmdline_modifiers :: "(string \<times> modifier_fn \<times> arg_parser option) list" where
  "cmdline_modifiers =
    [(''--create-polyfill-so'', Set_create_polyfill_so, None),
     (''--dry'', Set_dry, None),
     (''--output'', Set_output, Some Parse_string),
     (''--page-size'', Set_page_size, Some Parse_string),
     (''--polyfill-cfi'', Set_polyfiller_cfi_mode, Some Parse_string),
     (''--use-polyfill-so'', Set_use_polyfill_so, Some Parse_string)]"

text \<open>\<open>strcmp\<close> by the codes of the characters, and the binary search of the C library.\<close>

fun cstr_cmp :: "string \<Rightarrow> string \<Rightarrow> int" where
  "cstr_cmp [] [] = 0"
| "cstr_cmp [] (d # ds) = - 1"
| "cstr_cmp (c # cs) [] = 1"
| "cstr_cmp (c # cs) (d # ds) = (if c = d then cstr_cmp cs ds else if (of_char c :: nat) < of_char d then - 1 else 1)"

function bsearch_between :: "string \<Rightarrow> (string \<times> 'd) list \<Rightarrow> nat \<Rightarrow> nat \<Rightarrow> 'd option" where
  "bsearch_between key table lo hi =
    (if lo < hi then
       (let mid = (lo + hi) div 2; c = cstr_cmp key (fst (table ! mid))
        in if c < 0 then bsearch_between key table lo mid
           else if c > 0 then bsearch_between key table (mid + 1) hi
           else Some (snd (table ! mid)))
     else None)"
  by pat_completeness auto
termination
  by (relation "measure (\<lambda>(key, table, lo, hi). hi - lo)") auto

declare bsearch_between.simps [simp del]

definition bsearch :: "string \<Rightarrow> (string \<times> 'd) list \<Rightarrow> 'd option" where
  "bsearch key table = bsearch_between key table 0 (length table)"

subsection \<open>The options\<close>

record cmdline_options =
  op_actions :: "cmdline_action list"
  op_files :: "bstr list"
  op_output :: "bstr option"
  op_page_size :: u64
  op_dry_run :: bool
  op_renamer :: renamer_options

definition no_options :: cmdline_options where
  "no_options = \<lparr>op_actions = [], op_files = [], op_output = None, op_page_size = 0, op_dry_run = False,
     op_renamer = \<lparr>ro_use_polyfill_so = None, ro_create_polyfill_so = False, ro_cfi_mode = 0\<rparr>\<rparr>"

text \<open>What ends the program before a file is opened.\<close>

datatype cmdline_error =
    Unknown_flag bstr | Unknown_flag_name string | Missing_argument string | Unexpected_argument string
  | Unknown_elf_flag string | Bad_target_version bstr | Bad_page_size bstr | Bad_cfi_mode bstr
  | Library_name_in_old_name "u32 \<times> u32" | New_name_missing "u32 \<times> u32" | Characters_after_new_name "u32 \<times> u32"
  | Name_already_given "u32 \<times> u32" | No_such_file bstr

subsection \<open>Files of renames\<close>

text \<open>
  The size of the block that a file is read into: room for what \<open>fstat\<close> reports, at least 128
  bytes, and one more, and then half as much again as long as the file fills it.
\<close>

partial_function (option) grow_text :: "nat \<Rightarrow> u32 \<Rightarrow> u32 option" where
  "grow_text n capacity =
    (if n \<ge> unat capacity then
       (let new_capacity = capacity + drop_bit 1 capacity
        in grow_text n (if new_capacity < capacity then capacity + 8 else new_capacity))
     else Some capacity)"

definition tokeniser_load :: "nat \<Rightarrow> u8 list \<Rightarrow> tokeniser \<Rightarrow> tokeniser option" where
  "tokeniser_load file_size content t = do {
     let file_size = (of_nat (max 128 file_size) :: u32);
     let capacity = (if t_text_capacity t \<le> file_size then file_size + 1 else t_text_capacity t);
     capacity \<leftarrow> grow_text (length content) capacity;
     Some (t\<lparr>t_text := chars_of content, t_text_size := of_nat (length content), t_text_capacity := capacity\<rparr>) }"

text \<open>
  The name that starts at token \<open>i\<close>. The character behind the name is overwritten with a NUL, so
  that the name is what is between the two.
\<close>

function name_end :: "tokeniser \<Rightarrow> bool \<Rightarrow> nat \<Rightarrow> (cmdline_error + u32 \<times> nat) option" where
  "name_end toks allow_colon_colon i = (case rd (t_tokens toks) i of
     None \<Rightarrow> None
   | Some t \<Rightarrow>
       if tok_type t = TOK_PUNCT (CHR '':'') + PUNCT_REPEAT \<and> \<not> allow_colon_colon then
         map_option (\<lambda>at. Inl (Library_name_in_old_name at)) (tokeniser_error toks t)
       else if tok_type t = TOK_EOF then Some (Inr (tok_end t, i))
       else (case rd (t_tokens toks) (i + 1) of
         None \<Rightarrow> None
       | Some t1 \<Rightarrow> if tok_end t \<noteq> tok_start t1 then Some (Inr (tok_end t, i + 1)) else name_end toks allow_colon_colon (i + 1)))"
  by pat_completeness auto
termination
  by (relation "measure (\<lambda>(toks, allow, i). length (t_tokens toks) - i)") (auto simp: rd_def split: if_splits)

declare name_end.simps [simp del]

definition parse_symbol_name :: "tokeniser \<Rightarrow> bool \<Rightarrow> nat \<Rightarrow> (cmdline_error + bstr \<times> nat) option" where
  "parse_symbol_name toks allow_colon_colon i = do {
     t \<leftarrow> rd (t_tokens toks) i;
     r \<leftarrow> name_end toks allow_colon_colon i;
     Some (map_sum id (\<lambda>(lim, i). (key_bytes (takeWhile (\<lambda>c. c \<noteq> NUL) (slice (t_base toks) (unat (tok_start t)) (unat lim))), i)) r) }"

definition fail_with :: "tokeniser \<Rightarrow> token \<Rightarrow> (u32 \<times> u32 \<Rightarrow> cmdline_error) \<Rightarrow> (cmdline_error + 'r) option" where
  "fail_with toks t e = map_option (\<lambda>at. Inl (e at)) (tokeniser_error toks t)"

definition rename_line :: "tokeniser \<Rightarrow> nat \<Rightarrow> renamer \<Rightarrow> (cmdline_error + tokeniser \<times> nat \<times> renamer) option" where
  "rename_line toks i0 rn = do {
     t0 \<leftarrow> rd (t_tokens toks) i0;
     (toks, line_lim) \<leftarrow> tokeniser_next_line_start toks (tok_start t0);
     r \<leftarrow> parse_symbol_name toks False i0;
     case r of Inl e \<Rightarrow> Some (Inl e)
     | Inr (old_name, i) \<Rightarrow> do {
         t \<leftarrow> rd (t_tokens toks) i;
         if tok_type t = TOK_EOF \<or> tok_start t \<ge> line_lim then
           (if i = 0 then None else do { prev \<leftarrow> rd (t_tokens toks) (i - 1); fail_with toks prev New_name_missing })
         else do {
           r \<leftarrow> parse_symbol_name toks True i;
           case r of Inl e \<Rightarrow> Some (Inl e)
           | Inr (new_name, i) \<Rightarrow> do {
               t \<leftarrow> rd (t_tokens toks) i;
               if tok_start t < line_lim \<and> tok_type t \<noteq> TOK_EOF then fail_with toks t Characters_after_new_name
               else do {
                 (rn, ok) \<leftarrow> renamer_add_one_rename rn old_name new_name;
                 if ok then Some (Inr (toks, i, rn)) else fail_with toks t0 Name_already_given } } } } }"

partial_function (option) rename_file_lines :: "tokeniser \<Rightarrow> nat \<Rightarrow> renamer \<Rightarrow> (cmdline_error + renamer) option" where
  "rename_file_lines toks i rn = Option.bind (rd (t_tokens toks) i) (\<lambda>t.
     if tok_type t = TOK_EOF then Some (Inr rn)
     else Option.bind (rename_line toks i rn) (\<lambda>r. case r of
       Inl e \<Rightarrow> Some (Inl e)
     | Inr (toks, i, rn) \<Rightarrow> rename_file_lines toks i rn))"

subsection \<open>Arguments of flags\<close>

text \<open>
  A parser gives the options, without their last action when its argument is extended, and the action
  that is added. The files that the program reads here are a parameter: what \<open>fstat\<close> says of the
  size of a file, and its bytes.
\<close>

type_synonym file_reader = "bstr \<Rightarrow> (nat \<times> u8 list) option"

definition ensure_renamer :: "cmdline_options \<Rightarrow> action_fn \<Rightarrow> (cmdline_options \<times> renamer) option" where
  "ensure_renamer opts fn =
    (if op_actions opts \<noteq> [] \<and> ca_fn (last (op_actions opts)) = fn then
       (case ca_arg (last (op_actions opts)) of
          Arg_renamer rn \<Rightarrow> Some (opts\<lparr>op_actions := butlast (op_actions opts)\<rparr>, rn)
        | _ \<Rightarrow> None)
     else Some (opts, renamer_init (Some (op_renamer opts))))"

definition parse_rename_dynamic_symbols :: "file_reader \<Rightarrow> action_fn \<Rightarrow> bstr \<Rightarrow> cmdline_options \<Rightarrow>
    (cmdline_error + cmdline_options \<times> cmdline_action) option" where
  "parse_rename_dynamic_symbols files fn src opts = do {
     (opts, rn) \<leftarrow> ensure_renamer opts fn;
     case files src of
       None \<Rightarrow> Some (Inl (No_such_file src))
     | Some (file_size, content) \<Rightarrow> do {
         toks \<leftarrow> tokeniser_load file_size content tokeniser_init;
         toks \<leftarrow> tokeniser_run toks;
         r \<leftarrow> rename_file_lines toks 0 rn;
         Some (map_sum id (\<lambda>rn. (opts, \<lparr>ca_fn = fn, ca_arg = Arg_renamer rn\<rparr>)) r) } }"

definition parse_target_glibc :: "action_fn \<Rightarrow> bstr \<Rightarrow> cmdline_options \<Rightarrow> (cmdline_error + cmdline_options \<times> cmdline_action) option" where
  "parse_target_glibc fn src opts =
    (let ver = (if has_prefix (chars_of src) ''GLIBC_'' then drop 6 src else src)
     in if \<not> (version_str_less ''1.999'' (chars_of ver) \<and> version_str_less (chars_of ver) ''3'') then Some (Inl (Bad_target_version src))
        else do {
          (opts, rn) \<leftarrow> ensure_renamer opts fn;
          Some (Inr (opts, \<lparr>ca_fn = fn, ca_arg = Arg_renamer (renamer_add_target_version_renames rn ver)\<rparr>)) })"

function intern_list :: "bstr \<Rightarrow> sht \<Rightarrow> sht option" where
  "intern_list src names =
    (if src = [] then Some names
     else (let entry = takeWhile (\<lambda>c. c \<noteq> 0x2c) src
           in case sht_intern_u names entry of
                None \<Rightarrow> None
              | Some (names, _) \<Rightarrow> if length entry < length src then intern_list (drop (length entry + 1) src) names else Some names))"
  by pat_completeness auto
termination
  by (relation "measure (\<lambda>(src, names). length src)") auto

declare intern_list.simps [simp del]

definition parse_clear_symbol_version :: "action_fn \<Rightarrow> bstr \<Rightarrow> cmdline_options \<Rightarrow>
    (cmdline_error + cmdline_options \<times> cmdline_action) option" where
  "parse_clear_symbol_version fn src opts = do {
     (opts, names) \<leftarrow> (if op_actions opts \<noteq> [] \<and> ca_fn (last (op_actions opts)) = fn then
         (case ca_arg (last (op_actions opts)) of
            Arg_names names \<Rightarrow> Some (opts\<lparr>op_actions := butlast (op_actions opts)\<rparr>, names)
          | _ \<Rightarrow> None)
       else Some (opts, sht_init 0));
     names \<leftarrow> intern_list src names;
     Some (Inr (opts, \<lparr>ca_fn = fn, ca_arg = Arg_names names\<rparr>)) }"

definition parse_arg_flags :: "action_fn \<Rightarrow> bstr \<Rightarrow> cmdline_options \<Rightarrow> (cmdline_error + cmdline_options \<times> cmdline_action) option" where
  "parse_arg_flags fn src opts = map_option (\<lambda>r. case r of
       Inl name \<Rightarrow> Inl (Unknown_elf_flag name)
     | Inr flags \<Rightarrow> Inr (opts, if flags = [] then \<lparr>ca_fn = Action_inert, ca_arg = Arg_fn Action_inert\<rparr>
         else \<lparr>ca_fn = fn, ca_arg = Arg_flags flags\<rparr>)) (parse_flags (chars_of src))"

fun parse_arg :: "file_reader \<Rightarrow> arg_parser \<Rightarrow> action_fn \<Rightarrow> bstr \<Rightarrow> cmdline_options \<Rightarrow>
    (cmdline_error + cmdline_options \<times> cmdline_action) option" where
  "parse_arg files Parse_string fn src opts = Some (Inr (opts, \<lparr>ca_fn = fn, ca_arg = Arg_s src\<rparr>))"
| "parse_arg files Parse_flags fn src opts = parse_arg_flags fn src opts"
| "parse_arg files Parse_rename_dynamic_symbols fn src opts = parse_rename_dynamic_symbols files fn src opts"
| "parse_arg files Parse_target_glibc fn src opts = parse_target_glibc fn src opts"
| "parse_arg files Parse_clear_symbol_version fn src opts = parse_clear_symbol_version fn src opts"

subsection \<open>Modifiers\<close>

text \<open>\<open>atoi\<close>; a number outside of the range of \<open>int\<close> is undefined.\<close>

definition atoi :: "bstr \<Rightarrow> int option" where
  "atoi s =
    (let s = dropWhile (\<lambda>c. c = 0x20 \<or> 9 \<le> c \<and> c \<le> 13) s;
         neg = (take 1 s = [0x2d]);
         s = (if take 1 s = [0x2d] \<or> take 1 s = [0x2b] then drop 1 s else s);
         n = foldl (\<lambda>n c. 10 * n + (int (unat c) - 48)) 0 (takeWhile (\<lambda>c. 0x30 \<le> c \<and> c \<le> 0x39) s);
         n = (if neg then - n else n)
     in if - (2 ^ 31) \<le> n \<and> n < 2 ^ 31 then Some n else None)"

definition set_page_size :: "bstr \<Rightarrow> cmdline_options \<Rightarrow> (cmdline_error + cmdline_options) option" where
  "set_page_size s opts = do {
     i \<leftarrow> atoi s;
     Some (if i \<le> 3 \<or> i AND (i - 1) \<noteq> 0 then Inl (Bad_page_size s) else Inr (opts\<lparr>op_page_size := of_int i\<rparr>)) }"

text \<open>The modes by their place in the enumeration.\<close>

definition cfi_mode_of :: "bstr \<Rightarrow> u8 option" where
  "cfi_mode_of s = map_of [(bytes_of ''full'', 3), (bytes_of ''auto'', 0),
     (bytes_of ''minimal'', 2), (bytes_of ''none'', 1)] s"

fun run_modifier :: "modifier_fn \<Rightarrow> bstr \<Rightarrow> cmdline_options \<Rightarrow> (cmdline_error + cmdline_options) option" where
  "run_modifier Set_create_polyfill_so s opts = Some (Inr (opts\<lparr>op_renamer := (op_renamer opts)\<lparr>ro_create_polyfill_so := True\<rparr>\<rparr>))"
| "run_modifier Set_dry s opts = Some (Inr (opts\<lparr>op_dry_run := True\<rparr>))"
| "run_modifier Set_output s opts = Some (Inr (opts\<lparr>op_output := Some s\<rparr>))"
| "run_modifier Set_page_size s opts = set_page_size s opts"
| "run_modifier Set_polyfiller_cfi_mode s opts = Some (case cfi_mode_of s of
     Some m \<Rightarrow> Inr (opts\<lparr>op_renamer := (op_renamer opts)\<lparr>ro_cfi_mode := m\<rparr>\<rparr>) | None \<Rightarrow> Inl (Bad_cfi_mode s))"
| "run_modifier Set_use_polyfill_so s opts = Some (Inr (opts\<lparr>op_renamer := (op_renamer opts)\<lparr>ro_use_polyfill_so := Some s\<rparr>\<rparr>))"

subsection \<open>All arguments\<close>

text \<open>The name of a flag, with its dashes and its letters made uniform, and the part behind an equals sign. \<open>None\<close>: longer than the buffer.\<close>

fun flag_of :: "bstr \<Rightarrow> string \<Rightarrow> (string \<times> bstr option) option" where
  "flag_of [] arg_buf = Some (arg_buf, None)"
| "flag_of (c # cs) arg_buf =
    (if c = 0x3d then Some (arg_buf, Some cs)
     else
       (let c = (if c = 0x5f then 0x2d else if 0x41 \<le> c \<and> c \<le> 0x5a then c - 0x41 + 0x61 else c);
            arg_buf = arg_buf @ [char_of (unat c)]
        in if length arg_buf = 25 then None else flag_of cs arg_buf))"

definition is_file_arg :: "bstr \<Rightarrow> bool" where
  "is_file_arg arg \<longleftrightarrow> take 1 arg \<noteq> [0x2d] \<or> length arg = 1"

text \<open>The flag's own argument: behind the equals sign, or else the next one.\<close>

fun take_arg :: "bstr option \<Rightarrow> bstr list \<Rightarrow> (bstr \<times> bstr list) option" where
  "take_arg (Some s) args = Some (s, args)"
| "take_arg None [] = None"
| "take_arg None (s # args) = Some (s, args)"

text \<open>One flag: the options and the arguments that are left.\<close>

definition parse_flag :: "file_reader \<Rightarrow> bstr \<Rightarrow> bstr list \<Rightarrow> cmdline_options \<Rightarrow> (cmdline_error + cmdline_options \<times> bstr list) option" where
  "parse_flag files arg args opts =
    (case flag_of (drop 1 arg) ''-'' of
       None \<Rightarrow> Some (Inl (Unknown_flag arg))
     | Some (name, v) \<Rightarrow>
       (case bsearch name cmdline_actions of
          Some (fn, Some p) \<Rightarrow>
            (case take_arg v args of
               None \<Rightarrow> Some (Inl (Missing_argument name))
             | Some (s, args) \<Rightarrow> map_option (map_sum id (\<lambda>(opts, act).
                 (opts\<lparr>op_actions := op_actions opts @ [act]\<rparr>, args))) (parse_arg files p fn s opts))
        | Some (fn, None) \<Rightarrow>
            Some (if v \<noteq> None then Inl (Unexpected_argument name)
              else Inr (opts\<lparr>op_actions := op_actions opts @ [\<lparr>ca_fn = fn, ca_arg = Arg_none\<rparr>]\<rparr>, args))
        | None \<Rightarrow>
          (case bsearch name cmdline_modifiers of
             None \<Rightarrow> Some (Inl (Unknown_flag_name name))
           | Some (fn, Some p) \<Rightarrow>
               (case take_arg v args of
                  None \<Rightarrow> Some (Inl (Missing_argument name))
                | Some (s, args) \<Rightarrow> map_option (map_sum id (\<lambda>opts. (opts, args))) (run_modifier fn s opts))
           | Some (fn, None) \<Rightarrow>
               if v \<noteq> None then Some (Inl (Unexpected_argument name))
               else map_option (map_sum id (\<lambda>opts. (opts, args))) (run_modifier fn [] opts))))"

lemma take_arg_length: "take_arg v args = Some (s, args') \<Longrightarrow> length args' \<le> length args"
  by (cases "(v, args)" rule: take_arg.cases) auto

lemma map_sum_Inr: "map_sum f g z = Inr y \<longleftrightarrow> (\<exists>x. z = Inr x \<and> g x = y)"
  by (cases z) auto

lemma parse_flag_length: "parse_flag files arg args opts = Some (Inr (opts', args')) \<Longrightarrow> length args' \<le> length args"
  by (auto simp: parse_flag_def map_sum_Inr dest!: take_arg_length split: option.splits if_splits prod.splits)

function parse_args :: "file_reader \<Rightarrow> bstr list \<Rightarrow> cmdline_options \<Rightarrow> (cmdline_error + cmdline_options) option" where
  "parse_args files [] opts = Some (Inr opts)"
| "parse_args files (arg # args) opts =
    (if is_file_arg arg then parse_args files args (opts\<lparr>op_files := op_files opts @ [arg]\<rparr>)
     else (case parse_flag files arg args opts of
       None \<Rightarrow> None
     | Some (Inl e) \<Rightarrow> Some (Inl e)
     | Some (Inr (opts, args)) \<Rightarrow> parse_args files args opts))"
  by pat_completeness auto
termination
  by (relation "measure (\<lambda>(files, args, opts). length args)") (auto dest: parse_flag_length)

subsection \<open>Every flag is found\<close>

lemma cstr_cmp_eq: "cstr_cmp a b = 0 \<longleftrightarrow> a = b"
  by (induction a b rule: cstr_cmp.induct) auto

lemma cstr_cmp_gt: "cstr_cmp a b > 0 \<longleftrightarrow> cstr_cmp b a < 0"
proof (induction a b rule: cstr_cmp.induct)
  case (4 c cs d ds)
  have "c \<noteq> d \<Longrightarrow> (of_char c :: nat) \<noteq> of_char d" by simp
  then show ?case using 4 by (auto dest: less_imp_not_less)
qed simp_all

lemma cstr_cmp_trans: "cstr_cmp a b < 0 \<Longrightarrow> cstr_cmp b c < 0 \<Longrightarrow> cstr_cmp a c < 0"
proof (induction a b arbitrary: c rule: cstr_cmp.induct)
  case (2 d ds)
  then show ?case by (cases c) simp_all
next
  case (4 x xs y ys)
  then show ?case by (cases c) (auto split: if_splits)
qed simp_all

definition flags_sorted :: "(string \<times> 'd) list \<Rightarrow> bool" where
  "flags_sorted table \<longleftrightarrow> sorted_wrt (\<lambda>a b. cstr_cmp (fst a) (fst b) < 0) table"

lemma flags_sortedD: "flags_sorted table \<Longrightarrow> i < j \<Longrightarrow> j < length table \<Longrightarrow> cstr_cmp (fst (table ! i)) (fst (table ! j)) < 0"
  by (simp add: flags_sorted_def sorted_wrt_iff_nth_less)

lemma bsearch_between_spec:
  assumes "flags_sorted table" and "hi \<le> length table"
  shows "case bsearch_between key table lo hi of
      Some d \<Rightarrow> \<exists>i. lo \<le> i \<and> i < hi \<and> table ! i = (key, d)
    | None \<Rightarrow> \<forall>i. lo \<le> i \<and> i < hi \<longrightarrow> fst (table ! i) \<noteq> key"
  using assms
proof (induction key table lo hi rule: bsearch_between.induct)
  case (1 key table lo hi)
  show ?case
  proof (cases "lo < hi")
    case False
    then show ?thesis by (subst bsearch_between.simps) auto
  next
    case True
    define mid where "mid = (lo + hi) div 2"
    have mid: "lo \<le> mid" "mid < hi" using True by (auto simp: mid_def)
    define c where "c = cstr_cmp key (fst (table ! mid))"
    note less = flags_sortedD [OF "1.prems"(1)]
    consider "c < 0" | "c > 0" | "c = 0" by linarith
    then show ?thesis
    proof cases
      case 1
      have above: "fst (table ! i) \<noteq> key" if "mid \<le> i" "i < hi" for i
      proof
        assume k: "fst (table ! i) = key"
        have "i = mid \<or> cstr_cmp (fst (table ! mid)) key < 0" using less [of mid i] that "1.prems"(2) k by (cases "i = mid") auto
        then show False using 1 cstr_cmp_trans [of key "fst (table ! mid)" key] cstr_cmp_eq [of key key] k by (auto simp: c_def)
      qed
      have "bsearch_between key table lo hi = bsearch_between key table lo mid"
        using True 1 by (subst bsearch_between.simps) (simp add: Let_def mid_def [symmetric] c_def)
      then show ?thesis
        using "1.IH"(1) [OF True mid_def [unfolded atomize_eq] c_def [unfolded atomize_eq] 1 "1.prems"(1)] mid "1.prems"(2) above
        by (cases "bsearch_between key table lo mid") (auto simp: not_less [symmetric] dest: less_imp_le)
    next
      case 2
      have below: "fst (table ! i) \<noteq> key" if "lo \<le> i" "i < mid + 1" for i
      proof
        assume k: "fst (table ! i) = key"
        have "i = mid \<or> cstr_cmp key (fst (table ! mid)) < 0" using less [of i mid] that mid "1.prems"(2) k by (cases "i = mid") auto
        then show False using 2 cstr_cmp_eq [of key key] k by (auto simp: c_def)
      qed
      have "bsearch_between key table lo hi = bsearch_between key table (mid + 1) hi"
        using True 2 by (subst bsearch_between.simps) (simp add: Let_def mid_def [symmetric] c_def)
      then show ?thesis
        using "1.IH"(2) [OF True mid_def [unfolded atomize_eq] c_def [unfolded atomize_eq] _ 2 "1.prems"] 2 mid below
        by (cases "bsearch_between key table (mid + 1) hi")
          (auto simp: not_less [symmetric], metis Suc_lessD less_trans_Suc not_less_iff_gr_or_eq)
    next
      case 3
      then have "bsearch_between key table lo hi = Some (snd (table ! mid))"
        using True by (subst bsearch_between.simps) (simp add: Let_def mid_def [symmetric] c_def)
      then show ?thesis using 3 mid by (auto simp: c_def cstr_cmp_eq)
    qed
  qed
qed

lemma bsearch_spec:
  assumes "flags_sorted table"
  shows "bsearch key table = map_of table key"
proof (cases "bsearch key table")
  case None
  then have "\<forall>i < length table. fst (table ! i) \<noteq> key"
    using bsearch_between_spec [OF assms order_refl, where key = key and lo = 0] by (simp add: bsearch_def)
  then have "map_of table key = None" by (auto simp: map_of_eq_None_iff in_set_conv_nth) force
  then show ?thesis using None by simp
next
  case (Some d)
  then obtain i where i: "i < length table" "table ! i = (key, d)"
    using bsearch_between_spec [OF assms order_refl, where key = key and lo = 0] by (auto simp: bsearch_def)
  have "distinct (map fst table)"
    unfolding distinct_conv_nth using flags_sortedD [OF assms] cstr_cmp_eq by (auto simp: nat_neq_iff) (metis less_irrefl)+
  then show ?thesis using i Some map_of_is_SomeI [of table key d] nth_mem [of i table] by simp
qed

lemma tables_sorted: "flags_sorted cmdline_actions" "flags_sorted cmdline_modifiers"
  unfolding flags_sorted_def by code_simp+

text \<open>
  C35: The binary search finds in the table of actions, and in that of modifiers, exactly what a search
  from front to back would find, for every key; and each flag of the two tables is reached by its own
  name, which fits the buffer of the normalised name.
\<close>

theorem every_flag_found:
  "bsearch key cmdline_actions = map_of cmdline_actions key \<and> bsearch key cmdline_modifiers = map_of cmdline_modifiers key \<and>
   list_all (\<lambda>name. flag_of (drop 1 (bytes_of name)) ''-'' = Some (name, None)) (map fst cmdline_actions @ map fst cmdline_modifiers)"
proof -
  have "list_all (\<lambda>name. flag_of (drop 1 (bytes_of name)) ''-'' = Some (name, None)) (map fst cmdline_actions @ map fst cmdline_modifiers)"
    by code_simp
  then show ?thesis using bsearch_spec [OF tables_sorted(1)] bsearch_spec [OF tables_sorted(2)] by blast
qed

subsection \<open>One array for actions and files\<close>

definition slots_used :: "cmdline_options \<Rightarrow> nat" where
  "slots_used opts = length (op_actions opts) + length (op_files opts)"

lemma ensure_renamer_slots: "ensure_renamer opts fn = Some (opts', rn) \<Longrightarrow> slots_used opts' \<le> slots_used opts"
  by (auto simp: ensure_renamer_def slots_used_def split: if_splits action_arg.splits)

lemma parse_arg_flags_slots:
  assumes "parse_arg_flags fn s opts = Some (Inr (opts', act))"
  shows "opts' = opts"
proof -
  obtain r where "parse_flags (chars_of s) = Some r" using assms by (auto simp: parse_arg_flags_def)
  then show ?thesis using assms by (cases r) (auto simp: parse_arg_flags_def)
qed

lemma parse_arg_slots:
  assumes "parse_arg files p fn s opts = Some (Inr (opts', act))"
  shows "slots_used opts' \<le> slots_used opts"
proof (cases p)
  case Parse_flags
  then show ?thesis using assms parse_arg_flags_slots by force
next
  case Parse_clear_symbol_version
  then show ?thesis using assms
    by (auto simp: parse_clear_symbol_version_def bind_eq_Some_conv slots_used_def split: if_splits action_arg.splits)
qed (use assms in \<open>auto simp: parse_rename_dynamic_symbols_def parse_target_glibc_def Let_def bind_eq_Some_conv map_sum_Inr
      dest!: ensure_renamer_slots split: option.splits if_splits\<close>)

lemma run_modifier_slots: "run_modifier fn s opts = Some (Inr opts') \<Longrightarrow> slots_used opts' = slots_used opts"
  by (cases fn) (auto simp: set_page_size_def slots_used_def bind_eq_Some_conv split: option.splits if_splits)

lemma parse_flag_slots:
  assumes "parse_flag files arg args opts = Some (Inr (opts', args'))"
  shows "slots_used opts' + length args' \<le> slots_used opts + 1 + length args"
proof -
  have put: "slots_used (o1\<lparr>op_actions := op_actions o1 @ [act]\<rparr>) = slots_used o1 + 1" for o1 act by (simp add: slots_used_def)
  show ?thesis using assms
    by (auto simp: parse_flag_def map_sum_Inr put dest!: take_arg_length parse_arg_slots run_modifier_slots
        split: option.splits if_splits prod.splits)
qed

text \<open>
  C36: The actions and the names of the files share one array with as many entries as the program has
  arguments, its own name included: the actions fill it from the start and the files from the end.
  Whatever the arguments, every action and every file name that is kept has an entry of its own, and
  at least one entry is left between them, which is where the argument of the next flag is put.
\<close>

theorem parse_args_in_bounds:
  assumes "parse_args files args no_options = Some (Inr opts)"
  shows "length (op_actions opts) + length (op_files opts) < length args + 1"
proof -
  have "slots_used opts \<le> slots_used opts0 + length args" if "parse_args files args opts0 = Some (Inr opts)" for opts0
    using that
  proof (induction files args opts0 rule: parse_args.induct)
    case (2 files arg args opts0)
    show ?case
    proof (cases "is_file_arg arg")
      case True
      then show ?thesis using 2(1) [OF True] 2(3) by (simp add: slots_used_def)
    next
      case False
      then obtain opts1 args1 where p: "parse_flag files arg args opts0 = Some (Inr (opts1, args1))"
          and "parse_args files args1 opts1 = Some (Inr opts)"
        using 2(3) by (auto split: option.splits sum.splits)
      then show ?thesis using 2(2) [OF False p refl refl] parse_flag_slots [OF p] by simp
    qed
  qed simp
  from this [OF assms] show ?thesis by (simp add: slots_used_def no_options_def)
qed

lemma parse_args_in_bounds_witness:
  "\<exists>opts. parse_args (\<lambda>_. None) [bytes_of ''--add-debug'', bytes_of ''a''] no_options = Some (Inr opts) \<and>
     length (op_actions opts) + length (op_files opts) < 3"
proof -
  have "case parse_args (\<lambda>_. None) [bytes_of ''--add-debug'', bytes_of ''a''] no_options of Some (Inr opts) \<Rightarrow> True | _ \<Rightarrow> False"
    by code_simp
  then obtain opts where "parse_args (\<lambda>_. None) [bytes_of ''--add-debug'', bytes_of ''a''] no_options = Some (Inr opts)"
    by (auto split: option.splits sum.splits)
  from this parse_args_in_bounds [OF this] show ?thesis by auto
qed

end
