(* ===== verification/Program.thy ===== *)
theory Program
  imports CommandLine Init
begin

section \<open>main.c: the files, one after the other\<close>

text \<open>
  The main function: every action is run on each file, all of them again when the space they need
  makes the rewriter lay the file out anew, until the changes are written back. Opening, reading and
  writing files is left to parameters and to the list of files that are written. The theorems say what
  a file leaves of the actions for the next one, and that nothing is printed twice.
\<close>

subsection \<open>All actions\<close>

fun run_actions :: "('a::len word, 'p) run_env \<Rightarrow> cmdline_action list \<Rightarrow> 'a word erw \<Rightarrow>
    (u32 list + 'a word erw \<times> cmdline_action list \<times> string) option" where
  "run_actions env [] erw = Some (Inr (erw, [], []))"
| "run_actions env (act # acts) erw =
    Option.bind (run_action env erw act) (\<lambda>r. case r of
      Inl bad_syms \<Rightarrow> Some (Inl bad_syms)
    | Inr (erw, act, s) \<Rightarrow>
        map_option (map_sum id (\<lambda>(erw, acts, s'). (erw, act # acts, s @ s'))) (run_actions env acts erw))"

partial_function (option) edit_file :: "('a::len word, 'p) run_env \<Rightarrow> cmdline_action list \<Rightarrow> 'a word erw \<Rightarrow>
    (u32 list + 'a word erw \<times> cmdline_action list \<times> string) option" where
  "edit_file env acts erw = Option.bind (run_actions env acts erw) (\<lambda>r. case r of
     Inl bad_syms \<Rightarrow> Some (Inl bad_syms)
   | Inr (erw, acts, s) \<Rightarrow>
       if e_modified erw = 0 then Some (Inr (erw, acts, s))
       else Option.bind (erw_flush erw) (\<lambda>(erw, flushed).
         if flushed then Some (Inr (erw, acts, s))
         else Option.bind (edit_file env acts erw) (\<lambda>r.
           Some (map_sum id (\<lambda>(erw, acts, s'). (erw, acts, s @ s')) r))))"

text \<open>An action that became inert gets its function back for the next file.\<close>

definition reset_action :: "cmdline_action \<Rightarrow> cmdline_action" where
  "reset_action act = (if ca_fn act = Action_inert then
     (case ca_arg act of Arg_fn fn \<Rightarrow> act\<lparr>ca_fn := fn\<rparr> | _ \<Rightarrow> act) else act)"

subsection \<open>One file\<close>

text \<open>A renamer points to the options of the program, so that a later flag counts for an earlier action.\<close>

definition share_options :: "renamer_options \<Rightarrow> cmdline_action \<Rightarrow> cmdline_action" where
  "share_options ro act = (case ca_arg act of Arg_renamer rn \<Rightarrow> act\<lparr>ca_arg := Arg_renamer (rn\<lparr>rn_options := ro\<rparr>)\<rparr> | _ \<Rightarrow> act)"

text \<open>The bytes that are written, if any are, and where.\<close>

definition written_to :: "cmdline_options \<Rightarrow> bstr \<Rightarrow> 'a::len word erw \<Rightarrow> (bstr \<times> u8 list) option option" where
  "written_to opts path erw =
    (if \<not> op_dry_run opts \<and> (op_output opts \<noteq> None \<or> e_modified erw \<noteq> 0 \<or> path = bytes_of ''-'') then do {
       bs \<leftarrow> mem_read (e_f erw) 0 (unat (e_f_size erw));
       Some (Some (case op_output opts of Some out \<Rightarrow> out | None \<Rightarrow> path, bs)) }
     else Some None)"

datatype file_error = Unknown_symbols "u32 list" | Cannot_edit init_error | Cannot_open | Output_needed

type_synonym file_result = "cmdline_action list \<times> string \<times> (bstr \<times> u8 list) option"

definition process_erw :: "('a::len word, 'p) run_env \<Rightarrow> cmdline_options \<Rightarrow> cmdline_action list \<Rightarrow> bstr \<Rightarrow> 'a word erw \<Rightarrow>
    (file_error + file_result) option" where
  "process_erw env opts acts path erw = do {
     r \<leftarrow> edit_file env acts erw;
     case r of
       Inl bad_syms \<Rightarrow> Some (Inl (Unknown_symbols bad_syms))
     | Inr (erw, acts, s) \<Rightarrow> do {
         w \<leftarrow> written_to opts path erw;
         Some (Inr (map reset_action acts, s, w)) } }"

text \<open>The header of an empty file for one of two machines, and the page size that goes with it.\<close>

definition empty_header :: "u8 \<Rightarrow> u8 list" where
  "empty_header machine = [0x7f, 0x45, 0x4c, 0x46, 2, 1, 1] @ replicate 9 0 @ [3, 0, machine, 0, 1, 0, 0, 0] @ replicate 28 0 @
     [64, 0, 56, 0, 0, 0, 64, 0, 0, 0, 0, 0]"

definition empty_file :: "bstr \<Rightarrow> (u8 list \<times> u64) option" where
  "empty_file which =
    (if which = bytes_of ''aarch64'' then Some (empty_header 0xb7, 0x10000)
     else if which = bytes_of ''x86_64'' then Some (empty_header 0x3e, 0) else None)"

text \<open>\<open>init_from_empty\<close>; the page size of the machine stays for the files after this one.\<close>

definition open_file :: "(bstr \<Rightarrow> u8 list option) \<Rightarrow> bstr \<Rightarrow> cmdline_options \<Rightarrow>
    (file_error + any_erw \<times> cmdline_options) option" where
  "open_file content path opts =
    (case (if take 6 path = bytes_of ''empty:'' then empty_file (drop 6 path) else None) of
       Some (buf, page_size) \<Rightarrow>
         (let opts = (if op_page_size opts = 0 then opts\<lparr>op_page_size := page_size\<rparr> else opts)
          in if op_output opts = None \<and> \<not> op_dry_run opts then Some (Inl Output_needed)
             else map_option (\<lambda>r. case r of Inl e \<Rightarrow> Inl (Cannot_edit e) | Inr erw \<Rightarrow> Inr (erw, opts))
               (erw_init_from_mem buf (op_page_size opts)))
     | None \<Rightarrow>
         (case content path of
            None \<Rightarrow> Some (Inl Cannot_open)
          | Some bs \<Rightarrow> map_option (\<lambda>r. case r of Inl e \<Rightarrow> Inl (Cannot_edit e) | Inr erw \<Rightarrow> Inr (erw, opts))
              (erw_init_from_mem bs (op_page_size opts))))"

fun process_files :: "(32 word, 'p) run_env \<Rightarrow> (64 word, 'q) run_env \<Rightarrow> (bstr \<Rightarrow> u8 list option) \<Rightarrow> cmdline_options \<Rightarrow>
    cmdline_action list \<Rightarrow> bstr list \<Rightarrow> (file_error + string \<times> (bstr \<times> u8 list) list) option" where
  "process_files env32 env64 content opts acts [] = Some (Inr ([], []))"
| "process_files env32 env64 content opts acts (path # paths) =
    Option.bind (open_file content path opts) (\<lambda>r. case r of
      Inl e \<Rightarrow> Some (Inl e)
    | Inr (any, opts) \<Rightarrow>
        Option.bind (case any of Erw32 erw \<Rightarrow> process_erw env32 opts acts path erw | Erw64 erw \<Rightarrow> process_erw env64 opts acts path erw)
          (\<lambda>r. case r of
            Inl e \<Rightarrow> Some (Inl e)
          | Inr (acts, s, w) \<Rightarrow>
              map_option (map_sum id (\<lambda>(s', ws). (s @ s', (case w of Some w \<Rightarrow> w # ws | None \<Rightarrow> ws))))
                (process_files env32 env64 content opts acts paths)))"

definition run_program :: "(32 word, 'p) run_env \<Rightarrow> (64 word, 'q) run_env \<Rightarrow> file_reader \<Rightarrow> (bstr \<Rightarrow> u8 list option) \<Rightarrow>
    bstr list \<Rightarrow> (cmdline_error + file_error + string \<times> (bstr \<times> u8 list) list) option" where
  "run_program env32 env64 files content args = do {
     r \<leftarrow> parse_args files args no_options;
     case r of
       Inl e \<Rightarrow> Some (Inl e)
     | Inr opts \<Rightarrow>
         if op_files opts = [] then Some (Inr (Inr (text_line ''No input file(s) specified.'', [])))
         else if op_actions opts = [] then
           Some (Inr (Inr (text_line ''No actions specified. Try something like --target-glibc=2.17 or --print-imports.'', [])))
         else map_option Inr (process_files env32 env64 content opts
           (map (share_options (op_renamer opts)) (op_actions opts)) (op_files opts)) }"

subsection \<open>What running an action makes of it\<close>

lemma case_Inr:
  "(case y of Inl e \<Rightarrow> Some (Inl (g e)) | Inr z \<Rightarrow> f z) = Some (Inr w) \<longleftrightarrow> (\<exists>z. y = Inr z \<and> f z = Some (Inr w))"
  "(case y of Inl e \<Rightarrow> Inl (g e) | Inr z \<Rightarrow> h z) = Inr w \<longleftrightarrow> (\<exists>z. y = Inr z \<and> h z = Inr w)"
  by (cases y; simp)+

lemma run_action_print:
  assumes "printer env (ca_fn act) = Some print" and "run_action env erw act = Some (Inr (erw', act', s))"
  shows "act' = act \<and> s = [] \<or> act' = act\<lparr>ca_fn := Action_inert, ca_arg := Arg_fn (ca_fn act)\<rparr>"
  using assms by (auto simp: run_action_def print_once_def split: if_splits)

lemma run_action_inert: "ca_fn act = Action_inert \<Longrightarrow> run_action env erw act = Some (Inr (erw, act, []))"
  by (simp add: run_action_def)

lemma edit_with_other:
  assumes "printer env (ca_fn act) = None" and "ca_fn act \<noteq> Action_remove_flag" and "ca_fn act \<noteq> Action_apply_renamer"
  shows "run_action env erw act = map_option (\<lambda>erw. Inr (erw, act, [])) (edit_with (ca_fn act) (ca_arg act) erw)"
  using assms by (cases "ca_fn act") (simp_all add: run_action_def)

lemma run_remove_flag:
  assumes "ca_fn act = Action_remove_flag" and "run_action env erw act = Some (Inr (erw', act', s))"
  shows "\<exists>flags. ca_arg act = Arg_flags flags \<and> act' = act\<lparr>ca_fn := Action_add_flag, ca_arg := Arg_flags (reverse_flags flags)\<rparr> \<and> s = []"
  using assms by (auto simp: run_action_def Let_def split: action_arg.splits)

lemma run_apply_renamer:
  assumes "ca_fn act = Action_apply_renamer" and "run_action env erw act = Some (Inr (erw', act', s))"
  shows "\<exists>rn rn'. ca_arg act = Arg_renamer rn \<and> act' = act\<lparr>ca_arg := Arg_renamer rn'\<rparr> \<and> s = []"
  using assms by (auto simp: run_action_def bind_eq_Some_conv case_Inr split: action_arg.splits)

text \<open>What an action can have become, once it was run or not.\<close>

definition settles :: "('a::len word, 'p) run_env \<Rightarrow> cmdline_action \<Rightarrow> cmdline_action \<Rightarrow> bool" where
  "settles env act act' \<longleftrightarrow> act' = act \<or>
     printer env (ca_fn act) \<noteq> None \<and> act' = act\<lparr>ca_fn := Action_inert, ca_arg := Arg_fn (ca_fn act)\<rparr> \<or>
     (\<exists>flags. ca_fn act = Action_remove_flag \<and> ca_arg act = Arg_flags flags \<and>
       act' = act\<lparr>ca_fn := Action_add_flag, ca_arg := Arg_flags (reverse_flags flags)\<rparr>) \<or>
     (\<exists>rn rn'. ca_fn act = Action_apply_renamer \<and> ca_arg act = Arg_renamer rn \<and> act' = act\<lparr>ca_arg := Arg_renamer rn'\<rparr>)"

lemma run_action_settles: "run_action env erw act = Some (Inr (erw', act', s)) \<Longrightarrow> settles env act act'"
proof (cases "printer env (ca_fn act)")
  case (Some print)
  assume "run_action env erw act = Some (Inr (erw', act', s))"
  from run_action_print [OF Some this] show ?thesis using Some by (auto simp: settles_def)
next
  case None
  assume r: "run_action env erw act = Some (Inr (erw', act', s))"
  show ?thesis
  proof (cases "ca_fn act = Action_remove_flag \<or> ca_fn act = Action_apply_renamer")
    case True
    then show ?thesis using run_remove_flag [OF _ r] run_apply_renamer [OF _ r] by (auto simp: settles_def)
  next
    case False
    then show ?thesis using r edit_with_other [OF None] by (auto simp: settles_def)
  qed
qed

lemma settles_trans: "settles env a b \<Longrightarrow> settles env b c \<Longrightarrow> settles env a c"
  by (auto simp: settles_def)

lemma run_actions_settle: "run_actions env acts erw = Some (Inr (erw', acts', s)) \<Longrightarrow> list_all2 (settles env) acts acts'"
proof (induction env acts erw arbitrary: acts' erw' s rule: run_actions.induct)
  case (2 env act acts erw)
  then obtain erw1 act1 s1 acts1 s2 where "run_action env erw act = Some (Inr (erw1, act1, s1))"
      "run_actions env acts erw1 = Some (Inr (erw', acts1, s2))" "acts' = act1 # acts1"
    by (auto simp: bind_eq_Some_conv map_sum_Inr case_Inr)
  then show ?case using 2(1) run_action_settles by force
qed simp

lemma edit_file_settles:
  assumes "edit_file env acts erw = Some (Inr (erw', acts', s))"
  shows "list_all2 (settles env) acts acts'"
proof -
  have "r = Inr (erw', acts', s) \<longrightarrow> list_all2 (settles env) acts acts'" if "edit_file env acts erw = Some r" for r
    using that
  proof (induction arbitrary: s rule: edit_file.raw_induct [rotated, consumes 1])
    case (1 edit_file env acts erw r)
    show ?case
    proof
      assume r: "r = Inr (erw', acts', s)"
      obtain erw1 acts1 s1 where p: "run_actions env acts erw = Some (Inr (erw1, acts1, s1))"
        using 1(2) r by (auto simp: bind_eq_Some_conv case_Inr)
      note settled = run_actions_settle [OF p]
      show "list_all2 (settles env) acts acts'"
      proof (cases "acts1 = acts'")
        case False
        then obtain erw2 s2 where "edit_file env acts1 erw2 = Some (Inr (erw', acts', s2))"
          using 1(2) r p by (auto simp: bind_eq_Some_conv map_sum_Inr split: if_splits)
        then have "list_all2 (settles env) acts1 acts'" using 1(1) by blast
        with settled show ?thesis using settles_trans by (rule list_all2_trans [rotated])
      qed (use settled in simp)
    qed
  qed
  then show ?thesis using assms by blast
qed

subsection \<open>What holds of the whole\<close>

definition keeps_arg :: "('a::len word, 'p) run_env \<Rightarrow> cmdline_action \<Rightarrow> bool" where
  "keeps_arg env act \<longleftrightarrow> printer env (ca_fn act) = None \<and> ca_fn act \<noteq> Action_remove_flag \<and> ca_fn act \<noteq> Action_apply_renamer"

definition ready_action :: "cmdline_action \<Rightarrow> bool" where
  "ready_action act \<longleftrightarrow> (ca_fn act = Action_inert \<longrightarrow> ca_arg act = Arg_fn Action_inert)"

text \<open>
  C37: A file leaves every action ready for the next file. However many passes the file took, once the
  inert actions are reset each action has the function it had before, except that the removal of flags
  has become the addition of the same flags with their sense reversed; an action that neither prints
  nor renames nor removes flags is exactly what it was.
\<close>

theorem file_leaves_actions_ready:
  assumes "edit_file env acts erw = Some (Inr (erw', acts', s))" and "list_all ready_action acts"
  shows "list_all2 (\<lambda>a b. ready_action (reset_action b) \<and>
      ca_fn (reset_action b) = (if ca_fn a = Action_remove_flag then ca_fn b else ca_fn a) \<and>
      (ca_fn a = Action_remove_flag \<longrightarrow> b = a \<or> (\<exists>flags. ca_arg a = Arg_flags flags \<and> ca_fn b = Action_add_flag \<and>
        ca_arg b = Arg_flags (reverse_flags flags))) \<and>
      (keeps_arg env a \<longrightarrow> reset_action b = a)) acts acts'"
proof (rule list_all2_all_nthI)
  note settled = edit_file_settles [OF assms(1)]
  show "length acts = length acts'" using settled by (rule list_all2_lengthD)
  fix i assume i: "i < length acts"
  have ready: "ready_action (acts ! i)" using assms(2) i by (simp add: list_all_length)
  have inert: "printer env (ca_fn a) \<noteq> None \<Longrightarrow> ca_fn a \<noteq> Action_inert" for a by (cases "ca_fn a") simp_all
  show "ready_action (reset_action (acts' ! i)) \<and>
      ca_fn (reset_action (acts' ! i)) = (if ca_fn (acts ! i) = Action_remove_flag then ca_fn (acts' ! i) else ca_fn (acts ! i)) \<and>
      (ca_fn (acts ! i) = Action_remove_flag \<longrightarrow> acts' ! i = acts ! i \<or> (\<exists>flags. ca_arg (acts ! i) = Arg_flags flags \<and>
        ca_fn (acts' ! i) = Action_add_flag \<and> ca_arg (acts' ! i) = Arg_flags (reverse_flags flags))) \<and>
      (keeps_arg env (acts ! i) \<longrightarrow> reset_action (acts' ! i) = acts ! i)"
    using list_all2_nthD [OF settled i] ready inert [of "acts ! i"]
    by (auto simp: settles_def ready_action_def reset_action_def keeps_arg_def split: if_splits)
qed

lemma edit_file_abi:
  assumes "e_f erw 7 = Some 9" and "e_retry erw = False" and "e_modified erw = 0"
  shows "edit_file env [\<lparr>ca_fn = Action_print_os_abi, ca_arg = Arg_none\<rparr>] erw =
    Some (Inr (erw, [\<lparr>ca_fn = Action_inert, ca_arg = Arg_fn Action_print_os_abi\<rparr>], text_line ''FreeBSD''))"
proof -
  have "os_abi_name 9 = Some ''FreeBSD''" by code_simp
  then have "print_os_abi erw = Some (text_line ''FreeBSD'')" using assms(1) by (simp add: print_os_abi_def)
  then show ?thesis using assms
    by (subst edit_file.simps) (simp add: run_action_def print_once_def prints_def)
qed

definition abi_erw :: "64 word erw" where
  "abi_erw = erw_zero\<lparr>e_f := [7 \<mapsto> 9]\<rparr>"

definition abi_env :: "(64 word, unit) run_env" where
  "abi_env = \<lparr>re_polyfillers = (\<lambda>_. polyfiller_fns_noop ()),
     re_tables = \<lparr>rt_aarch64 = \<lparr>bl_data = Map.empty, bl_mask = 0\<rparr>, rt_x86_64 = \<lparr>bl_data = Map.empty, bl_mask = 0\<rparr>\<rparr>,
     re_qsort = (\<lambda>_. Some)\<rparr>"

lemma file_leaves_actions_ready_witness:
  "ready_action (reset_action \<lparr>ca_fn = Action_inert, ca_arg = Arg_fn Action_print_os_abi\<rparr>) \<and>
   ca_fn (reset_action \<lparr>ca_fn = Action_inert, ca_arg = Arg_fn Action_print_os_abi\<rparr>) = Action_print_os_abi"
proof -
  have "edit_file abi_env [\<lparr>ca_fn = Action_print_os_abi, ca_arg = Arg_none\<rparr>] abi_erw =
      Some (Inr (abi_erw, [\<lparr>ca_fn = Action_inert, ca_arg = Arg_fn Action_print_os_abi\<rparr>], text_line ''FreeBSD''))"
    by (rule edit_file_abi) (simp_all add: abi_erw_def erw_zero_def)
  moreover have "list_all ready_action [\<lparr>ca_fn = Action_print_os_abi, ca_arg = Arg_none\<rparr>]" by (simp add: ready_action_def)
  ultimately show ?thesis using file_leaves_actions_ready by fastforce
qed

text \<open>
  C38: Nothing is printed twice for one file. When an action has printed something, then in whatever
  state a later pass over the same file runs what that action has become by then, it prints nothing
  and changes neither the file nor the action.
\<close>

theorem action_prints_once:
  assumes "run_action env erw act = Some (Inr (erw1, act1, s))" and "s \<noteq> []"
    and "edit_file env (acts @ act1 # acts') erw2 = Some (Inr (erw3, acts2, s2))"
  shows "run_action env erw4 (acts2 ! length acts) = Some (Inr (erw4, acts2 ! length acts, [])) \<and> acts2 ! length acts = act1"
proof -
  have act1: "ca_fn act1 = Action_inert"
  proof (cases "printer env (ca_fn act)")
    case (Some print)
    then show ?thesis using run_action_print [OF Some assms(1)] assms(2) by auto
  next
    case None
    then show ?thesis using assms(1,2) edit_with_other [OF None, of erw] run_remove_flag [OF _ assms(1)] run_apply_renamer [OF _ assms(1)]
      by (cases "edit_with (ca_fn act) (ca_arg act) erw"; cases "ca_fn act = Action_remove_flag \<or> ca_fn act = Action_apply_renamer") auto
  qed
  have "settles env ((acts @ act1 # acts') ! length acts) (acts2 ! length acts)"
    by (rule list_all2_nthD [OF edit_file_settles [OF assms(3)]]) simp
  then have "acts2 ! length acts = act1" using act1 by (simp add: settles_def)
  then show ?thesis using run_action_inert act1 by metis
qed

lemma action_prints_once_witness:
  "run_action abi_env abi_erw \<lparr>ca_fn = Action_inert, ca_arg = Arg_fn Action_print_os_abi\<rparr> =
    Some (Inr (abi_erw, \<lparr>ca_fn = Action_inert, ca_arg = Arg_fn Action_print_os_abi\<rparr>, []))"
proof -
  let ?inert = "\<lparr>ca_fn = Action_inert, ca_arg = Arg_fn Action_print_os_abi\<rparr>"
  have name: "os_abi_name 9 = Some ''FreeBSD''" by code_simp
  have "run_action abi_env abi_erw \<lparr>ca_fn = Action_print_os_abi, ca_arg = Arg_none\<rparr> = Some (Inr (abi_erw, ?inert, text_line ''FreeBSD''))"
    by (simp add: run_action_def print_once_def prints_def print_os_abi_def name abi_erw_def erw_zero_def)
  moreover have "text_line ''FreeBSD'' \<noteq> []" by (simp add: text_line_def)
  moreover have "edit_file abi_env ([] @ ?inert # []) abi_erw = Some (Inr (abi_erw, [?inert], []))"
    by (subst edit_file.simps) (simp add: run_action_inert abi_erw_def erw_zero_def)
  ultimately show ?thesis using action_prints_once [of abi_env abi_erw _ abi_erw ?inert "text_line ''FreeBSD''" "[]" "[]" abi_erw abi_erw "[?inert]" "[]" abi_erw]
    by simp
qed

end
