(* ===== verification/ActionTypes.thy ===== *)
theory ActionTypes
  imports Program
begin

section \<open>The union in an action\<close>

text \<open>
  An action holds a union, and which member is read is decided by the function of the action only.
  This theory states the discipline as types: the member that a function reads, the member that an
  argument is, and the invariant that the two agree from the command line to the last pass over the
  last file.
\<close>

subsection \<open>Members\<close>

datatype union_member = Member_none | Member_s | Member_fn | Member_flags | Member_renamer | Member_names

fun member_of :: "action_arg \<Rightarrow> union_member" where
  "member_of Arg_none = Member_none"
| "member_of (Arg_s _) = Member_s"
| "member_of (Arg_fn _) = Member_fn"
| "member_of (Arg_flags _) = Member_flags"
| "member_of (Arg_renamer _) = Member_renamer"
| "member_of (Arg_names _) = Member_names"

definition takes_string :: "action_fn set" where
  "takes_string = {Action_add_early_needed, Action_add_late_needed, Action_add_rpath, Action_add_runpath,
     Action_remove_needed, Action_set_interpreter, Action_set_rpath, Action_set_runpath, Action_set_soname}"

text \<open>The member that a function reads, or that is read when the function is given back.\<close>

definition reads_member :: "action_fn \<Rightarrow> union_member" where
  "reads_member fn =
    (if fn \<in> takes_string then Member_s
     else if fn = Action_add_flag \<or> fn = Action_remove_flag then Member_flags
     else if fn = Action_apply_renamer then Member_renamer
     else if fn = Action_clear_symbol_version then Member_names
     else if fn = Action_inert then Member_fn
     else Member_none)"

text \<open>
  Packed flags and a pointer to flags are told apart by two bits of the first flag, and a list of flags
  ends at a byte whose two low bits are zero: so every flag of a list needs one of these bits.
\<close>

fun arg_valid :: "action_arg \<Rightarrow> bool" where
  "arg_valid (Arg_flags flags) \<longleftrightarrow> flags \<noteq> [] \<and> list_all (\<lambda>f. f AND 3 \<noteq> 0) flags"
| "arg_valid (Arg_fn fn) \<longleftrightarrow> reads_member fn = Member_none \<or> fn = Action_inert"
| "arg_valid _ \<longleftrightarrow> True"

definition action_typed :: "cmdline_action \<Rightarrow> bool" where
  "action_typed act \<longleftrightarrow> reads_member (ca_fn act) = Member_none \<or>
     reads_member (ca_fn act) = member_of (ca_arg act) \<and> arg_valid (ca_arg act)"

subsection \<open>The command line makes typed actions\<close>

lemma member_of_cases:
  "member_of arg = Member_s \<longleftrightarrow> (\<exists>s. arg = Arg_s s)"
  "member_of arg = Member_fn \<longleftrightarrow> (\<exists>fn. arg = Arg_fn fn)"
  "member_of arg = Member_flags \<longleftrightarrow> (\<exists>flags. arg = Arg_flags flags)"
  "member_of arg = Member_renamer \<longleftrightarrow> (\<exists>rn. arg = Arg_renamer rn)"
  "member_of arg = Member_names \<longleftrightarrow> (\<exists>names. arg = Arg_names names)"
  by (cases arg; simp)+

lemma parse_one_flag_group: "parse_one_flag name \<noteq> 0 \<Longrightarrow> parse_one_flag name AND 3 \<noteq> 0"
proof -
  assume "parse_one_flag name \<noteq> 0"
  then have "flag_key (parse_one_flag name) \<in> set flag_keys" using parse_one_flag_key by blast
  moreover have "list_all (\<lambda>k. k AND 3 \<noteq> 0) flag_keys" by code_simp
  ultimately have "flag_key (parse_one_flag name) AND 3 \<noteq> 0" by (simp add: list_all_iff)
  moreover have "(0xfb :: u8) AND 3 = 3" by simp
  ultimately show ?thesis by (simp add: ac_simps)
qed

lemma put_flag_subset: "set (put_flag flag fs) \<subseteq> insert flag (set fs)"
  by (induction fs) auto

lemma simplify_flags_list_subset: "set (simplify_flags_list fs) \<subseteq> set fs"
proof -
  have "set (foldl (\<lambda>result flag. put_flag flag result) acc fs) \<subseteq> set acc \<union> set fs" for acc
  proof (induction fs arbitrary: acc)
    case (Cons f fs)
    then show ?case using put_flag_subset [of f acc] by fastforce
  qed simp
  from this [of "[]"] show ?thesis by (simp add: simplify_flags_list_def)
qed

lemma flags_loop_groups:
  "flags_loop name rest flags = Some (Inr fs) \<Longrightarrow> list_all (\<lambda>f. f AND 3 \<noteq> 0) flags \<Longrightarrow> list_all (\<lambda>f. f AND 3 \<noteq> 0) fs"
proof (induction rest arbitrary: name flags)
  case Nil
  then show ?case using parse_one_flag_group [of name] by (subst (asm) flags_loop.simps) (auto split: if_splits)
next
  case (Cons c rest)
  let ?flags = "if name = [] then flags else flags @ [parse_one_flag name]"
  let ?next = "if length ?flags = 96 then simplify_flags_list ?flags else ?flags"
  show ?case
  proof (cases "flag_separator c")
    case True
    have known: "name \<noteq> [] \<Longrightarrow> parse_one_flag name \<noteq> 0" and loop: "flags_loop [] rest ?next = Some (Inr fs)"
      using Cons.prems(1) True unfolding flags_loop.simps [of name "c # rest"] by (auto split: if_splits)
    have "list_all (\<lambda>f. f AND 3 \<noteq> 0) ?flags" using Cons.prems(2) known parse_one_flag_group by simp
    then have "list_all (\<lambda>f. f AND 3 \<noteq> 0) ?next" using simplify_flags_list_subset [of ?flags] by (auto simp: list_all_iff)
    then show ?thesis by (rule Cons.IH [OF loop])
  next
    case False
    then have "flags_loop (name @ [c]) rest flags = Some (Inr fs)" using Cons.prems(1) by (subst (asm) flags_loop.simps) simp
    then show ?thesis using Cons.IH Cons.prems(2) by blast
  qed
qed

lemma parse_flags_groups:
  assumes "parse_flags src = Some (Inr fs)"
  shows "list_all (\<lambda>f. f AND 3 \<noteq> 0) fs"
proof -
  obtain gs where "flags_loop [] src [] = Some (Inr gs)" and fs: "fs = simplify_flags_list gs"
    using assms by (auto simp: parse_flags_def map_sum_Inr)
  then have "list_all (\<lambda>f. f AND 3 \<noteq> 0) gs" using flags_loop_groups by force
  then show ?thesis unfolding fs using simplify_flags_list_subset [of gs] by (auto simp: list_all_iff)
qed

text \<open>The parser of each entry of the table makes the argument that the entry's function reads.\<close>

fun parser_member :: "arg_parser option \<Rightarrow> union_member" where
  "parser_member None = Member_none"
| "parser_member (Some Parse_string) = Member_s"
| "parser_member (Some Parse_flags) = Member_flags"
| "parser_member (Some Parse_rename_dynamic_symbols) = Member_renamer"
| "parser_member (Some Parse_target_glibc) = Member_renamer"
| "parser_member (Some Parse_clear_symbol_version) = Member_names"

lemma table_members: "(name, fn, p) \<in> set cmdline_actions \<Longrightarrow> parser_member p = reads_member fn"
  by (auto simp: cmdline_actions_def reads_member_def takes_string_def)

lemma bsearch_actions: "bsearch name cmdline_actions = Some (fn, p) \<Longrightarrow> parser_member p = reads_member fn"
  using table_members by (fastforce simp: bsearch_spec tables_sorted dest: map_of_SomeD)

lemma butlast_typed: "list_all P xs \<Longrightarrow> list_all P (butlast xs)"
  by (auto simp: list_all_iff dest: in_set_butlastD)

lemma ensure_renamer_typed:
  "ensure_renamer opts fn = Some (opts', rn) \<Longrightarrow> list_all action_typed (op_actions opts) \<Longrightarrow> list_all action_typed (op_actions opts')"
  by (auto simp: ensure_renamer_def butlast_typed split: if_splits action_arg.splits)

lemma case_sum_Inr: "(case z of Inl e \<Rightarrow> Inl (g e) | Inr y \<Rightarrow> Inr (h y)) = Inr w \<longleftrightarrow> (\<exists>y. z = Inr y \<and> h y = w)"
  by (cases z) auto

lemma parse_arg_typed:
  assumes "parse_arg files p fn s opts = Some (Inr (opts', act))" and "parser_member (Some p) = reads_member fn"
    and "list_all action_typed (op_actions opts)"
  shows "list_all action_typed (op_actions opts') \<and> action_typed act"
proof (cases p)
  case Parse_string
  then show ?thesis using assms by (auto simp: action_typed_def)
next
  case Parse_flags
  then obtain fs where "parse_flags (chars_of s) = Some (Inr fs)" "opts' = opts"
      "act = (if fs = [] then \<lparr>ca_fn = Action_inert, ca_arg = Arg_fn Action_inert\<rparr> else \<lparr>ca_fn = fn, ca_arg = Arg_flags fs\<rparr>)"
    using assms(1) by (auto simp: parse_arg_flags_def case_sum_Inr)
  then show ?thesis using assms(2,3) Parse_flags parse_flags_groups
    by (auto simp: action_typed_def reads_member_def takes_string_def)
next
  case Parse_rename_dynamic_symbols
  then show ?thesis using assms
    by (auto simp: parse_rename_dynamic_symbols_def bind_eq_Some_conv map_sum_Inr action_typed_def dest: ensure_renamer_typed
        split: option.splits)
next
  case Parse_target_glibc
  then show ?thesis using assms
    by (auto simp: parse_target_glibc_def Let_def bind_eq_Some_conv action_typed_def dest: ensure_renamer_typed split: if_splits)
next
  case Parse_clear_symbol_version
  then show ?thesis using assms
    by (auto simp: parse_clear_symbol_version_def bind_eq_Some_conv action_typed_def butlast_typed
        split: if_splits action_arg.splits)
qed

lemma run_modifier_actions: "run_modifier fn s opts = Some (Inr opts') \<Longrightarrow> op_actions opts' = op_actions opts"
  by (cases fn) (auto simp: set_page_size_def bind_eq_Some_conv split: option.splits if_splits)

lemma parse_flag_typed:
  assumes "parse_flag files arg args opts = Some (Inr (opts', args'))" and "list_all action_typed (op_actions opts)"
  shows "list_all action_typed (op_actions opts')"
proof -
  have none: "action_typed \<lparr>ca_fn = fn, ca_arg = arg\<rparr>" if "parser_member None = reads_member fn" for fn arg
    using that by (simp add: action_typed_def)
  show ?thesis using assms
    by (auto simp: parse_flag_def map_sum_Inr none dest!: bsearch_actions run_modifier_actions dest: parse_arg_typed
        split: option.splits if_splits prod.splits)
qed

lemma parse_args_typed:
  "parse_args files args opts0 = Some (Inr opts) \<Longrightarrow> list_all action_typed (op_actions opts0) \<Longrightarrow> list_all action_typed (op_actions opts)"
proof (induction files args opts0 rule: parse_args.induct)
  case (2 files arg args opts0)
  then show ?case by (auto split: if_splits option.splits sum.splits dest: parse_flag_typed)
qed simp

subsection \<open>Running an action keeps its type\<close>

lemma printer_reads: "printer env fn \<noteq> None \<Longrightarrow> reads_member fn = Member_none"
  by (cases fn) (simp_all add: reads_member_def takes_string_def)

lemma reverse_flags_groups:
  assumes "arg_valid (Arg_flags flags)"
  shows "arg_valid (Arg_flags (reverse_flags flags))"
proof -
  have all: "takeWhile (\<lambda>f. f \<noteq> 0) flags = flags" using assms by (auto simp: list_all_iff takeWhile_eq_all_conv)
  have "(f XOR 4) AND 3 = f AND 3" for f :: u8 by (simp add: bit.conj_xor_distrib2)
  then show ?thesis using assms by (simp add: reverse_flags_def all list_all_iff)
qed

lemma settles_typed:
  assumes "settles env act act'" and "action_typed act"
  shows "action_typed act'"
proof -
  have inert: "reads_member Action_inert = Member_fn" and flag: "reads_member Action_remove_flag = Member_flags"
      "reads_member Action_add_flag = Member_flags"
    by (simp_all add: reads_member_def takes_string_def)
  show ?thesis using assms printer_reads [of env "ca_fn act"] reverse_flags_groups
    by (auto simp: settles_def action_typed_def inert flag simp del: arg_valid.simps(1))
qed

lemma reset_action_typed: "action_typed act \<Longrightarrow> action_typed (reset_action act)"
  by (auto simp: reset_action_def action_typed_def reads_member_def member_of_cases split: action_arg.splits if_splits)

lemma typed_renamer: "action_typed act \<Longrightarrow> ca_fn act = Action_apply_renamer \<Longrightarrow> \<exists>rn. ca_arg act = Arg_renamer rn"
  by (cases "ca_arg act") (simp_all add: action_typed_def reads_member_def takes_string_def)

text \<open>
  C39: The union of an action is only read as the member that was stored last. Every action that the
  command line makes holds the member that its function reads, and a list of flags in it has in
  every byte the bits that tell it from a pointer and from the end of the list. This stays so through
  all passes over a file and after the inert actions got their functions back; and a
  further flag that extends the renamer of the last action finds a renamer there.
\<close>

theorem actions_typed:
  assumes "parse_args files args no_options = Some (Inr opts)"
  shows "list_all action_typed (op_actions opts) \<and>
    ensure_renamer opts Action_apply_renamer \<noteq> None \<and>
    (\<forall>acts acts' erw erw' s. list_all action_typed acts \<longrightarrow> edit_file env acts erw = Some (Inr (erw', acts', s)) \<longrightarrow>
      list_all action_typed acts' \<and> list_all action_typed (map reset_action acts'))"
proof (intro conjI allI impI)
  show typed: "list_all action_typed (op_actions opts)"
    using parse_args_typed [OF assms] by (simp add: no_options_def)
  have "op_actions opts \<noteq> [] \<Longrightarrow> action_typed (last (op_actions opts))" using typed by (simp add: list_all_iff)
  then show "ensure_renamer opts Action_apply_renamer \<noteq> None"
    using typed_renamer by (fastforce simp: ensure_renamer_def)
next
  fix acts acts' erw erw' s
  assume acts: "list_all action_typed acts" and "edit_file env acts erw = Some (Inr (erw', acts', s))"
  then have "list_all2 (settles env) acts acts'" by (simp add: edit_file_settles)
  then show "list_all action_typed acts'" using acts settles_typed
    by (fastforce simp: list_all2_conv_all_nth list_all_length)
  then show "list_all action_typed (map reset_action acts')" by (auto simp: list_all_iff reset_action_typed)
qed

lemma actions_typed_witness:
  "\<exists>opts. parse_args (\<lambda>_. None) [bytes_of ''--remove-flags=now''] no_options = Some (Inr opts) \<and>
     list_all action_typed (op_actions opts)"
proof -
  have "case parse_args (\<lambda>_. None) [bytes_of ''--remove-flags=now''] no_options of Some (Inr opts) \<Rightarrow> True | _ \<Rightarrow> False"
    by code_simp
  then obtain opts where "parse_args (\<lambda>_. None) [bytes_of ''--remove-flags=now''] no_options = Some (Inr opts)"
    by (auto split: option.splits sum.splits)
  from this actions_typed [OF this] show ?thesis by blast
qed

end
