(* ===== verification/Spec2Isabelle.thy ===== *)
theory Spec2Isabelle
  imports CommonStrings V2f Uuht Sht Arena TokeniseDecode VRange LayoutCorrect PhdrMap Init DhdrOps DynstrOps RelocOps DsymOps FlushOps RenameOps A64RelocOk PolyfillAdd RenameLines ActionTypes
begin

text \<open>
  polyfill-glibc edits ELF programs and libraries so that they run on other versions of glibc: it
  renames dynamic symbols, drops version requirements, and adds machine code (polyfills) for the
  functions that an older glibc lacks. This library models its C code under src/.

  The parts and how they work together. main.c reads the command line into a list of actions and
  runs them over each file, in passes. An action edits the file through the rewriter, erw.c and
  erw_nne.h. The rewriter keeps an editor for each part of the file: the program headers, the
  dynamic section, the string table, the dynamic symbols with their hash tables and versions, and
  the relocations. An editor works in the bytes of the file until its part has to grow, then in a
  block of its own. Edits that need room ask buckets for it. When a bucket has too little, the
  pass goes on, \<open>erwNNE_(retry)\<close> lays out new segments of the sizes that were asked for, and all
  actions run again on the original file. Addresses are found in the file by a map, v2f.c. The
  renamer, renamer.c and renamer_nne.h, follows chains of renames, written by the user or taken
  from tables of the build that parse_renames.c makes, and asks the polyfiller of the machine for
  the code that a renamed symbol needs. Hash tables (uuht.c, sht.c), an arena (arena.c) and a
  tokeniser (tokenise.c) serve all of them.

  The theories, from the bottom up:

    \<^item> Prelude, Bytes: lists, options, maps and words; memory as a map from offsets to bytes, where
      \<open>None\<close> is a byte that is not there; codecs, which read and write a struct as bytes.
    \<^item> CommonStrings: common.c, comparing version strings.
    \<^item> V2f: v2f.c; the entries with their two sentinels, and the function from addresses they stand for.
    \<^item> RobinHood, Uuht, Sht: uuht.c and sht.c; probing, reinsertion and growth, and the maps the
      tables stand for. The locale of a map on 32-bit keys is interpreted on uuht.
    \<^item> Arena: arena.c; regions from \<open>malloc\<close> are a supply of blocks.
    \<^item> Tokenise, TokeniseDecode: tokenise.c; tokens, the decoding of literals, places of errors.
    \<^item> Elf, RelocKind: elf.h, nne_instantiator.h, reloc_kind.c. The four instances that the C
      templates make are one polymorphic definition: the word type is 32 or 64 bits wide, and
      \<open>e_bswap\<close> says whether the file is in the other byte order.
    \<^item> Erw, ErwAlloc, VRange, Alignment: the state \<open>erw_state_t\<close> as the record \<open>erw\<close>, the arrays of
      editors, the buckets, and reading ranges of addresses.
    \<^item> Editing, Phdrs, PhdrMap, Init: section headers, the editor of program headers, the map of a
      loaded file, and opening an image.
    \<^item> Layout, LayoutSteps, LayoutCorrect: the layout of a retry, step by step, the block that the
      program headers are written to, and the replay of the requests.
    \<^item> StringRefs, Dynstr, DynstrOps: the string table, the references to it, and adding strings.
    \<^item> Dhdrs, DhdrOps: the dynamic section. Vers, VersEdit: symbol versions.
    \<^item> Dsyms, DsymEdit, DsymFlush, DsymOps: dynamic symbols and both kinds of hash tables.
    \<^item> Relocs, RelocEdit, RelocOps: relocations and the expansion of \<open>DT_RELR\<close>.
    \<^item> Flush, FlushOps: \<open>erw_flush\<close> and \<open>erwNNE_(retry)\<close>.
    \<^item> ErwApi, Renames, RenameOps, RenameApply, RenameFile: the functions of erw.c that forward to a
      width, and the renamer on names and on files.
    \<^item> PolyfillCode, PolyfillTables, X86Polyfiller, A64Polyfiller, A64Reloc, A64RelocOk, PolyfillAdd:
      the two polyfillers.
    \<^item> ParseRenames, RenameTable, RenameLookup, RenameLines: parse_renames.c, and the renamer as the
      reader of its tables.
    \<^item> Flags, EhFrame, Printing, Actions, CommandLine, Program, ActionTypes: main.c, main_nne.h,
      print_eh_frame.c.
\<close>

text \<open>
  How the code is translated. Integers are words of their width, and sums wrap as in C. A function
  that may read or write where nothing is, or that stops the program, returns an option, \<open>None\<close> for
  that case; an error that the code reports is \<open>Inl\<close>. State is passed explicitly, a block that
  \<open>malloc\<close> returned holds \<open>None\<close> where nothing was written yet. Loops are recursive functions with a
  measure, folds over a list of indices, or, where the code has no bound, \<open>partial_function\<close>, for
  which the theorems say that they return. Fuel occurs in the growth of the relocation editors
  (\<open>ensure_relocs\<close>): a capacity of 32 bits doubles at most 32 times before it holds any count.

  What the lemmas show. For the tables and maps: the invariant, that each operation keeps it, and
  that the operation does to the map what it should (refinement). For the editors: what the list
  that an editor holds is after each operation, and that nothing else changes. For the layout: a
  retry places all requests apart and aligned, behind the original file, so that the next pass
  needs no retry. For the string table, the tokeniser, the flags, the unwind tables and the tables
  of renames: what is written is read back. For the loops: that they end, also over cyclic renames
  and cyclic references of symbols.

  The limits of the properties. Where the code mixes byte orders, its result in files of the other
  byte order is not what it means to be, and the theorem says that it is about native files: the
  expansion of \<open>DT_RELR\<close>, whose words are not swapped, the number of program headers of a retry,
  and what a retry leaves. The replay of the requests covers both byte orders, as long as the
  headers that are written fit their block. The search by file range does not find an entry whose
  file interval ends at \<open>2^64\<close>, and is specified for the others. Adding polyfills is shown complete
  within a set of symbols that is closed under what they refer to and are renamed to, by any of
  the renames that its own symbols impose; a missing polyfill, where the program stops, is
  outside of that set. The text of the message with
  which the program stops is not modelled.

  Parameters of the definitions: \<open>qsort_r\<close> where its order is not determined, the polyfill code
  and its symbols (\<open>polyfill_code\<close>) and the tables of renames, all made by the build; the bytes of
  the files and of the files of renames. Not modelled: the two assemblers and set_relative_interp,
  which are programs of their own that the build runs or that stand beside the main program, and
  the system calls that map, read and write files.
\<close>

end
